(* ===== verification/Prelude.thy ===== *)
theory Prelude imports Main "HOL-Library.Word" begin

text \<open>
  The vocabulary shared by every theory of the development: the fixed-width integer
  types of \<^verbatim>\<open>src/core/types.h\<close>, bit-field access written the way the C++ writes it,
  rotations, and the lemmas on words, lists and function updates the component proofs
  rely on.  The collection \<open>word_fields\<close> gathers the facts about bit fields;
  \<open>frame_simps\<close> gathers the facts that say which part of a state an operation
  leaves alone; \<open>cpu_defs\<close> gathers the small accessors that proofs unfold freely.
\<close>

unbundle bit_operations_syntax

named_theorems word_fields \<open>facts about bit fields of words\<close>
named_theorems frame_simps \<open>what an operation leaves unchanged\<close>
named_theorems cpu_defs \<open>small accessors that proofs unfold\<close>

type_synonym u8 = "8 word"
type_synonym u16 = "16 word"
type_synonym u32 = "32 word"
type_synonym u64 = "64 word"

section \<open>Bit fields\<close>

text \<open>\<open>fld x s m\<close> is the C++ expression \<^verbatim>\<open>(x >> s) & m\<close>; \<open>tst x m\<close> is
  \<^verbatim>\<open>x & m\<close> in a boolean context.\<close>

definition fld :: "'a::len word \<Rightarrow> nat \<Rightarrow> 'a word \<Rightarrow> 'a word" where
  "fld x s m = drop_bit s x AND m"

definition tst :: "'a::len word \<Rightarrow> 'a word \<Rightarrow> bool" where
  "tst x m \<longleftrightarrow> x AND m \<noteq> 0"

text \<open>\<^verbatim>\<open>b ? 1 : 0\<close>.\<close>

definition b2w :: "bool \<Rightarrow> 'a::len word" where
  "b2w b = (if b then 1 else 0)"

text \<open>\<^verbatim>\<open>static_cast<u32>(static_cast<s32>(static_cast<s8>(v)))\<close> and the halfword form.\<close>

definition sext8 :: "u8 \<Rightarrow> u32" where "sext8 v = scast v"
definition sext16 :: "u16 \<Rightarrow> u32" where "sext16 v = scast v"

lemma b2w_simps [simp]: "b2w True = 1" "b2w False = 0"
  by (simp_all add: b2w_def)

lemma fld_le [word_fields]: "fld x s m \<le> m"
  by (simp add: fld_def word_and_le1)

lemma tst_bit [word_fields]: "tst x (push_bit n 1) \<longleftrightarrow> bit x n"
  by (cases "n < LENGTH('a)")
    (auto simp: tst_def push_bit_eq_mult and_exp_eq_0_iff_not_bit dest: bit_imp_le_length)

lemma bit_fld [word_fields]: "bit (fld x s m) n \<longleftrightarrow> bit x (s + n) \<and> bit m n"
  by (simp add: fld_def bit_simps)

section \<open>Words as numbers\<close>


lemma unat_and_mask: "unat (x AND mask k) = unat x mod 2 ^ k"
  unfolding take_bit_eq_mask [symmetric] unsigned_take_bit_eq by (rule take_bit_eq_mod)

lemma unat_lt32: "unat (x::u32) < 2 ^ 32"
  using unsigned_less [of x, where 'a = nat] by simp

lemma unat_small: "n < 2 ^ 32 \<Longrightarrow> unat (of_nat n :: u32) = n"
  by (simp add: unsigned_of_nat take_bit_nat_eq_self)

lemma unat_and_31: "unat (x AND 31) = unat x mod 32"
  and unat_and_255: "unat (x AND 0xFF) = unat x mod 256"
  using unat_and_mask [of x 5] unat_and_mask [of x 8] by (simp_all add: mask_eq_exp_minus_1)

lemma pred_mod32:
  fixes n :: nat
  shows
  "n mod 32 \<noteq> 0 \<Longrightarrow> n mod 32 - 1 = (n - 1) mod 32" "n mod 32 = 0 \<Longrightarrow> n \<noteq> 0 \<Longrightarrow> (n - 1) mod 32 = 31"
proof -
  note d = div_mult_mod_eq [of n 32]
  assume "n mod 32 \<noteq> 0"
  then have "n - 1 = (n mod 32 - 1) + n div 32 * 32" using d by linarith
  then show "n mod 32 - 1 = (n - 1) mod 32"
    using mod_mult_self1 [of "n mod 32 - 1" "n div 32" 32] by (simp add: less_imp_diff_less)
next
  note d = div_mult_mod_eq [of n 32]
  assume "n mod 32 = 0" "n \<noteq> 0"
  then have "n - 1 = 31 + (n div 32 - 1) * 32" using d by (cases "n div 32") auto
  then show "(n - 1) mod 32 = 31" using mod_mult_self1 [of 31 "n div 32 - 1" 32] by simp
qed

lemma word_rotr_0: "word_rotr 0 (v::u32) = v"
  by (rule bit_word_eqI) (simp add: bit_word_rotr_iff)

lemma word_rotr_mod: "word_rotr n (v::u32) = word_rotr (n mod 32) v"
  by (rule bit_word_eqI) (simp add: bit_word_rotr_iff mod_simps)

lemma push_bit_big: "32 \<le> n \<Longrightarrow> push_bit n (v::u32) = 0" 
  and drop_bit_big: "32 \<le> n \<Longrightarrow> drop_bit n (v::u32) = 0"
  by (rule bit_word_eqI, auto simp: bit_simps dest: bit_imp_le_length)+

lemma bit_big: "31 < n \<Longrightarrow> \<not> bit (v::u32) n"
  by (auto dest: bit_imp_le_length)

lemma bit_push1: "bit (push_bit k (1::'a::len word)) n \<longleftrightarrow> n = k \<and> k < LENGTH('a)"
  by (auto simp: push_bit_eq_mult bit_exp_iff)

lemma bit31_sint: "bit (x::u32) 31 \<longleftrightarrow> sint x < 0"
  using bit_last_iff [of x] by simp

lemma sint_uint32: "sint (x::u32) = uint x - (if bit x 31 then 2 ^ 32 else 0)"
proof -
  have s: "sint x = (uint x + 2 ^ 31) mod 2 ^ 32 - 2 ^ 31"
    using int_word_sint [of "uint x", where 'a = 32] by simp
  have b: "0 \<le> uint x" "uint x < 2 ^ 32" using uint_lt2p [of x] by simp_all
  show ?thesis
  proof (cases "uint x < 2 ^ 31")
    case True
    with s b have "sint x = uint x" by (simp add: mod_pos_pos_trivial)
    with True b show ?thesis by (simp add: bit31_sint)
  next
    case False
    then have "(uint x + 2 ^ 31) mod 2 ^ 32 = uint x + 2 ^ 31 - 2 ^ 32"
      using b mod_mult_self2 [of "uint x - 2 ^ 31" "2 ^ 32" 1]
        mod_pos_pos_trivial [of "uint x - 2 ^ 31" "2 ^ 32"] by (simp add: algebra_simps)
    with s b show ?thesis by (simp add: bit31_sint)
  qed
qed

lemma uint_bit31: "bit (x::u32) 31 \<longleftrightarrow> 2 ^ 31 \<le> uint x"
  using sint_uint32 [of x] sint_greater_eq [of x] sint_less [of x] uint_lt2p [of x] bit31_sint [of x]
  by (auto split: if_splits)

lemma drop31: "drop_bit 31 (x::u32) \<noteq> 0 \<longleftrightarrow> bit x 31"
proof -
  have "uint (drop_bit 31 x) = uint x div 2 ^ 31"
    using unsigned_drop_bit_eq [of 31 x, where 'a = int] uint_lt2p [of x]
    by (simp only: drop_bit_eq_div take_bit_eq_mod) simp
  then show ?thesis
    using uint_bit31 [of x] by (simp add: uint_0_iff [symmetric] zdiv_eq_0_iff not_less)
qed

text \<open>The carry and overflow of a 32-bit addition, on the numbers the words stand for.\<close>

lemma add_overflow_int:
  fixes A B k :: int
  assumes "0 \<le> A" "A < 2 ^ 32" "0 \<le> B" "B < 2 ^ 32" "k = 0 \<or> k = 1"
    "S = (if A + B + k < 2 ^ 32 then A + B + k else A + B + k - 2 ^ 32)"
  shows "((2 ^ 31 \<le> A \<longleftrightarrow> 2 ^ 31 \<le> B) \<and> (2 ^ 31 \<le> A \<longleftrightarrow> \<not> 2 ^ 31 \<le> S)) \<longleftrightarrow>
    (A - (if 2 ^ 31 \<le> A then 2 ^ 32 else 0)) + (B - (if 2 ^ 31 \<le> B then 2 ^ 32 else 0)) + k
      \<notin> {- (2 ^ 31)..<2 ^ 31}"
  using assms by (auto split: if_splits)

lemma uint_add_carry:
  fixes a b :: u32 and k :: u32
  assumes "k = 0 \<or> k = 1"
  defines "wide \<equiv> (ucast a :: u64) + ucast b + ucast k"
  shows "uint wide = uint a + uint b + uint k"
    and "drop_bit 32 wide \<noteq> 0 \<longleftrightarrow> 2 ^ 32 \<le> uint a + uint b + uint k"
    and "uint (ucast wide :: u32) = (if uint a + uint b + uint k < 2 ^ 32 then uint a + uint b + uint k
           else uint a + uint b + uint k - 2 ^ 32)"
    and "ucast wide = a + b + k"
proof -
  have lt: "uint a < 2 ^ 32" "uint b < 2 ^ 32" "uint k \<le> 1"
    using uint_lt2p [of a] uint_lt2p [of b] assms(1) by auto
  show w: "uint wide = uint a + uint b + uint k"
    using lt by (simp add: wide_def uint_word_ariths unsigned_ucast_eq take_bit_eq_mod)
  have d: "uint (drop_bit 32 wide) = (uint a + uint b + uint k) div 2 ^ 32"
    using unsigned_drop_bit_eq [of 32 wide, where 'a = int] lt uint_lt2p [of wide]
    by (simp only: drop_bit_eq_div take_bit_eq_mod w) simp
  show "drop_bit 32 wide \<noteq> 0 \<longleftrightarrow> 2 ^ 32 \<le> uint a + uint b + uint k"
    using lt by (simp add: d uint_0_iff [symmetric] zdiv_eq_0_iff not_less) 
  show "uint (ucast wide :: u32) = (if uint a + uint b + uint k < 2 ^ 32 then uint a + uint b + uint k
           else uint a + uint b + uint k - 2 ^ 32)"
    using lt mod_pos_pos_trivial [of "uint a + uint b + uint k - 2 ^ 32" "2 ^ 32"]
    by (simp add: unsigned_ucast_eq w take_bit_eq_mod)
  show "ucast wide = a + b + k"
    by (simp add: wide_def word_uint_eq_iff uint_word_ariths unsigned_ucast_eq take_bit_eq_mod
        mod_simps mod_mod_cancel)
qed

lemma uint_not32: "uint (NOT b :: u32) = 2 ^ 32 - 1 - uint b"
proof -
  have m: "uint (- 1 :: u32) = 2 ^ 32 - 1" by (simp add: unsigned_minus_1_eq_mask mask_eq_exp_minus_1)
  have "NOT b = - 1 - b" by (simp add: not_eq_complement)
  then show ?thesis using uint_sub_lem [of b "- 1"] uint_lt2p [of b] m by simp
qed

lemma sint_not32: "sint (NOT b :: u32) = - 1 - sint b"
  using uint_lt2p [of b] by (auto simp: sint_uint32 uint_not32 bit_not_iff)

text \<open>Clearing low bits that are already clear.\<close>

lemma and_not_clear:
  assumes "x AND m = 0"
  shows "x AND NOT m = (x::'a::len word)"
proof (rule bit_word_eqI)
  fix n assume "n < LENGTH('a)"
  moreover have "\<not> bit (x AND m) n" by (simp add: assms)
  ultimately show "bit (x AND NOT m) n = bit x n" by (auto simp: bit_simps)
qed

lemma and_mask_sub:
  assumes "(x::'a::len word) AND mask k = 0" "y AND mask k = 0"
  shows "(x - y) AND mask k = 0"
  using assms by (simp add: take_bit_eq_mask [symmetric] take_bit_eq_0_iff dvd_diff)

lemma align_sub:
  "(x::u32) AND 3 = 0 \<Longrightarrow> x - 8 AND -4 = x - 8"
  "(x::u32) AND 1 = 0 \<Longrightarrow> x - 4 AND -2 = x - 4"
  using and_mask_sub [of x 2 8] and_mask_sub [of x 1 4] and_not_clear [of "x - 8" 3]
    and_not_clear [of "x - 4" 1]
  by (simp_all add: mask_eq_exp_minus_1)

text \<open>A 64-bit word as two halves.\<close>

lemma split64: "uint (ucast (drop_bit 32 r) :: u32) * 2 ^ 32 + uint (ucast r :: u32) = uint (r::u64)"
proof -
  have lt: "uint r < 2 ^ 64" "0 \<le> uint r" using uint_lt2p [of r] by simp_all
  have d: "uint (drop_bit 32 r) = uint r div 2 ^ 32"
    using unsigned_drop_bit_eq [of 32 r, where 'a = int] lt
    by (simp only: drop_bit_eq_div take_bit_eq_mod) simp
  have "0 \<le> uint r div 2 ^ 32" by (simp add: pos_imp_zdiv_nonneg_iff)
  moreover have "uint r div 2 ^ 32 < 2 ^ 32"
    using lt div_mult_mod_eq [of "uint r" "2 ^ 32"] pos_mod_sign [of "2 ^ 32" "uint r"] by simp
  ultimately have i: "0 \<le> uint r div 2 ^ 32" "uint r div 2 ^ 32 < 2 ^ 32" by simp_all
  have "uint (ucast (drop_bit 32 r) :: u32) = uint r div 2 ^ 32"
    by (simp only: unsigned_ucast_eq d take_bit_eq_mod) (use i in \<open>simp add: mod_pos_pos_trivial\<close>)
  moreover have "uint (ucast r :: u32) = uint r mod 2 ^ 32"
    by (simp add: unsigned_ucast_eq take_bit_eq_mod)
  ultimately show ?thesis by simp
qed

lemma join64:
  "uint (push_bit 32 (ucast hi) OR ucast lo :: u64) = uint (hi::u32) * 2 ^ 32 + uint (lo::u32)"
proof -
  let ?r = "push_bit 32 (ucast hi) OR ucast lo :: u64"
  have "ucast (drop_bit 32 ?r) = hi" "ucast ?r = lo"
    by (rule bit_word_eqI, auto simp: bit_simps dest: bit_imp_le_length)+
  then show ?thesis using split64 [of ?r] by simp
qed

lemma uint_bit63: "bit (r::u64) 63 \<longleftrightarrow> 2 ^ 63 \<le> uint r"
proof -
  have lt: "uint r < 2 ^ 64" using uint_lt2p [of r] by simp
  have b: "bit r 63 \<longleftrightarrow> odd (uint r div 2 ^ 63)"
    using bit_uint_iff [of r 63] bit_iff_odd [of "uint r" 63] by simp
  have "uint r div 2 ^ 63 < 2"
    using lt div_mult_mod_eq [of "uint r" "2 ^ 63"] pos_mod_sign [of "2 ^ 63" "uint r"] by simp
  moreover have "0 \<le> uint r div 2 ^ 63" by (simp add: pos_imp_zdiv_nonneg_iff)
  moreover have "uint r div 2 ^ 63 = 0 \<longleftrightarrow> uint r < 2 ^ 63"
    by (auto simp: zdiv_eq_0_iff)
  ultimately have "odd (uint r div 2 ^ 63) \<longleftrightarrow> \<not> uint r < 2 ^ 63"
    by (cases "uint r div 2 ^ 63 = 0") auto
  with b show ?thesis by auto
qed

section \<open>Words and bytes\<close>

text \<open>A word from its bytes, the lowest first.\<close>

definition word4 :: "u8 \<Rightarrow> u8 \<Rightarrow> u8 \<Rightarrow> u8 \<Rightarrow> u32" where
  "word4 b0 b1 b2 b3 = ucast b0 OR push_bit 8 (ucast b1) OR push_bit 16 (ucast b2) OR push_bit 24 (ucast b3)"

lemma word4_bytes:
  "ucast (word4 b0 b1 b2 b3) = b0" "ucast (drop_bit 8 (word4 b0 b1 b2 b3)) = b1"
  "ucast (drop_bit 16 (word4 b0 b1 b2 b3)) = b2" "ucast (drop_bit 24 (word4 b0 b1 b2 b3)) = b3"
  by (rule bit_word_eqI, auto simp: word4_def bit_simps dest: bit_imp_le_length)+

lemma word4_of_bytes:
  "word4 (ucast w) (ucast (drop_bit 8 w)) (ucast (drop_bit 16 w)) (ucast (drop_bit 24 w)) = w"
proof (rule bit_word_eqI)
  fix n assume n: "n < LENGTH(32)"
  consider "n < 8" | k where "n = k + 8" "k < 8" | k where "n = k + 16" "k < 8"
    | k where "n = k + 24" "k < 8"
    using n le_Suc_ex [of 8 n] le_Suc_ex [of 16 n] le_Suc_ex [of 24 n]
    by (cases "n < 8"; cases "n < 16"; cases "n < 24") (auto simp: not_less add.commute)
  then show "bit (word4 (ucast w) (ucast (drop_bit 8 w)) (ucast (drop_bit 16 w)) (ucast (drop_bit 24 w))) n
      = bit w n"
    by cases (auto simp: word4_def bit_simps add.commute)
qed

end
