(* ===== verification/Machine.thy ===== *)
theory Machine imports Prelude begin

text \<open>
  The state of one emulated CPU and of the machine around it
  (\<^verbatim>\<open>src/core/cpu/cpu.h\<close>, \<^verbatim>\<open>src/core/mem/page_table.h\<close>).  A \<open>cpu_ctx\<close> is the C++
  \<^verbatim>\<open>CpuContext\<close> with its nested \<^verbatim>\<open>JitHot\<close>; the fields only the recompiler uses
  (native exit address, sibling pointer, recompiler hooks) and the debug padding are
  left out.  A \<open>mach\<close> is what a running CPU can reach: itself, the host bytes behind
  the page tables, the timing tables, and the rest of the console, which is the type
  parameter.  An \<open>env\<close> gathers the process-wide settings and the entry points into
  that rest: a guest access that the page table does not serve goes through them.
  Since a device access may itself change the CPU (raise a line, take its budget), the
  entry points act on the whole machine.

  Signed quantities that the C++ keeps in \<^verbatim>\<open>s32\<close> and never lets overflow (overflow
  is undefined there) are \<^typ>\<open>int\<close>; everything else keeps its width.
\<close>

datatype cpu_id = ARM9 | ARM7

text \<open>Register files are indexed by the 4-bit field of the instruction, as in the code.\<close>

record jit_hot =
  regs :: "u32 \<Rightarrow> u32"
  cpsr :: u32
  spsr :: u32
  cycle_budget :: int
  irq_pending :: u32
  alerts :: u32

record cpu_ctx =
  which :: cpu_id
  halted :: bool
  preempt_residual :: int
  yielded :: bool
  jumped :: bool
  hot :: jit_hot
  bank_r8_r12 :: "nat \<Rightarrow> u32 \<Rightarrow> u32"
  bank_r13 :: "nat \<Rightarrow> u32"
  bank_r14 :: "nat \<Rightarrow> u32"
  bank_spsr :: "nat \<Rightarrow> u32"
  cp15_control :: u32
  cp15_dtcm :: u32
  cp15_itcm :: u32
  pu_region :: "u32 \<Rightarrow> u32"
  pu_code_cacheable :: u32
  pu_data_cacheable :: u32
  pu_data_bufferable :: u32
  pu_code_perm :: u32
  pu_data_perm :: u32
  itcm_size :: u32
  dtcm_base :: u32
  dtcm_mask :: u32
  code_cycles :: u32
  data_cycles :: u32
  code_region :: u32
  data_region :: u32
  fast_d :: u8
  branch_fetch :: bool
  boot_stall :: int
  code_latch :: u8
  irq_offline :: bool
  irq_skip_once :: bool
  defer_cost :: int
  step_limit :: u32
  steps :: u32
  budget_at_halt :: int
  page_table :: "u32 \<Rightarrow> u64"

text \<open>\<^verbatim>\<open>Timing::PuMemo\<close>: the protection-unit state the cacheability map was built from.\<close>

record pu_memo =
  memo_valid :: bool
  memo_ctl :: u32
  memo_dc :: u32
  memo_cc :: u32
  memo_region :: "u32 \<Rightarrow> u32"

text \<open>\<open>timing9 page column\<close> and \<open>timing7 page column\<close> are the rows of the two cost
  tables the CPU points at (4 KB and 32 KB pages); \<open>bus9\<close> is the ARM9 bus table they are
  derived from (16 KB entries).\<close>

record 'io mach =
  cpu :: cpu_ctx
  host :: "u64 \<Rightarrow> u8"
  timing9 :: "u32 \<Rightarrow> u32 \<Rightarrow> u8"
  timing7 :: "u32 \<Rightarrow> u32 \<Rightarrow> u8"
  bus9 :: "u32 \<Rightarrow> u32 \<Rightarrow> u8"
  clock9_shift :: nat
  pu_map :: "u32 \<Rightarrow> u8"
  memo :: pu_memo
  wait_loop_r15_7 :: u32
  io :: 'io

text \<open>The constants of the fast timing model (\<^verbatim>\<open>struct FastTiming\<close>).\<close>

record fast_timing =
  d9s :: u32
  d9 :: u32
  d7 :: u32
  r9 :: u32
  r7 :: u32

definition g_fast_default :: fast_timing where
  "g_fast_default = \<lparr> d9s = 0, d9 = 5, d7 = 2, r9 = 4, r7 = 2 \<rparr>"

record 'io env =
  dsi :: bool
  g_fast_timing :: bool
  g_fast :: fast_timing
  bus_io_read :: "u32 \<Rightarrow> nat \<Rightarrow> 'io mach \<Rightarrow> u32 \<times> 'io mach"
  bus_io_write :: "u32 \<Rightarrow> nat \<Rightarrow> u32 \<Rightarrow> 'io mach \<Rightarrow> 'io mach"
  bus_fetch :: "u32 \<Rightarrow> nat \<Rightarrow> 'io mach \<Rightarrow> u32 \<times> 'io mach"
  code_write_hook :: "u64 \<Rightarrow> nat \<Rightarrow> 'io mach \<Rightarrow> 'io mach"
  bus_update_tcm :: "'io mach \<Rightarrow> 'io mach"
  hle_enabled :: "'io mach \<Rightarrow> bool"
  dsi_hle_swi :: "u32 \<Rightarrow> 'io mach \<Rightarrow> bool \<times> 'io mach"
  cheats_idle :: "'io mach \<Rightarrow> bool"
  vblank_line :: "'io mach \<Rightarrow> bool"
  cheats_run :: "'io mach \<Rightarrow> 'io mach"
  tracing :: "'io mach \<Rightarrow> bool"
  watch_active :: bool

section \<open>Access to the state\<close>

definition is_arm9 :: "cpu_ctx \<Rightarrow> bool" where
  "is_arm9 c \<longleftrightarrow> which c = ARM9"

definition upd_cpu :: "(cpu_ctx \<Rightarrow> cpu_ctx) \<Rightarrow> 'io mach \<Rightarrow> 'io mach" where
  "upd_cpu f m = m\<lparr> cpu := f (cpu m) \<rparr>"

definition R :: "cpu_ctx \<Rightarrow> u32 \<Rightarrow> u32" where
  "R c n = regs (hot c) n"

definition set_R :: "u32 \<Rightarrow> u32 \<Rightarrow> cpu_ctx \<Rightarrow> cpu_ctx" where
  "set_R n v c = c\<lparr> hot := (hot c)\<lparr> regs := (regs (hot c))(n := v) \<rparr> \<rparr>"

definition CPSR :: "cpu_ctx \<Rightarrow> u32" where
  "CPSR c = cpsr (hot c)"

definition set_CPSR :: "u32 \<Rightarrow> cpu_ctx \<Rightarrow> cpu_ctx" where
  "set_CPSR v c = c\<lparr> hot := (hot c)\<lparr> cpsr := v \<rparr> \<rparr>"

definition SPSR :: "cpu_ctx \<Rightarrow> u32" where
  "SPSR c = spsr (hot c)"

definition set_SPSR :: "u32 \<Rightarrow> cpu_ctx \<Rightarrow> cpu_ctx" where
  "set_SPSR v c = c\<lparr> hot := (hot c)\<lparr> spsr := v \<rparr> \<rparr>"

definition budget :: "cpu_ctx \<Rightarrow> int" where
  "budget c = cycle_budget (hot c)"

definition set_budget :: "int \<Rightarrow> cpu_ctx \<Rightarrow> cpu_ctx" where
  "set_budget b c = c\<lparr> hot := (hot c)\<lparr> cycle_budget := b \<rparr> \<rparr>"

definition thumb :: "cpu_ctx \<Rightarrow> bool" where
  "thumb c \<longleftrightarrow> tst (CPSR c) 0x20"

lemmas [cpu_defs] = is_arm9_def upd_cpu_def R_def set_R_def CPSR_def set_CPSR_def
  SPSR_def set_SPSR_def budget_def set_budget_def thumb_def

text \<open>The accessors as a store: each reader sees its own writer and no other.\<close>

lemma reg_store [simp]:
  "R (set_R n v c) k = (if k = n then v else R c k)"
  "R (set_CPSR v c) k = R c k" "R (set_SPSR v c) k = R c k" "R (set_budget b c) k = R c k"
  "CPSR (set_R n v c) = CPSR c" "CPSR (set_CPSR v c) = v" "CPSR (set_SPSR v c) = CPSR c"
  "CPSR (set_budget b c) = CPSR c"
  "SPSR (set_R n v c) = SPSR c" "SPSR (set_CPSR v c) = SPSR c" "SPSR (set_SPSR v c) = v"
  "SPSR (set_budget b c) = SPSR c"
  "budget (set_R n v c) = budget c" "budget (set_CPSR v c) = budget c"
  "budget (set_SPSR v c) = budget c" "budget (set_budget b c) = b"
  by (simp_all add: cpu_defs)

lemma which_store [simp]:
  "which (set_R n v c) = which c" "which (set_CPSR v c) = which c"
  "which (set_SPSR v c) = which c" "which (set_budget b c) = which c"
  by (simp_all add: cpu_defs)

lemma cpu_upd_cpu [simp]: "cpu (upd_cpu f m) = f (cpu m)"
  by (simp add: upd_cpu_def)

lemma mach_upd_cpu [simp]:
  "host (upd_cpu f m) = host m" "timing9 (upd_cpu f m) = timing9 m"
  "timing7 (upd_cpu f m) = timing7 m" "io (upd_cpu f m) = io m"
  "bus9 (upd_cpu f m) = bus9 m" "clock9_shift (upd_cpu f m) = clock9_shift m"
  "pu_map (upd_cpu f m) = pu_map m" "memo (upd_cpu f m) = memo m"
  "wait_loop_r15_7 (upd_cpu f m) = wait_loop_r15_7 m"
  by (simp_all add: upd_cpu_def)

lemma upd_cpu_upd_cpu [simp]: "upd_cpu f (upd_cpu g m) = upd_cpu (f \<circ> g) m"
  by (simp add: upd_cpu_def)

end
