(* ===== verification/CpuMem.thy ===== *)
theory CpuMem imports Machine begin

text \<open>
  Guest memory as the CPU sees it (\<^verbatim>\<open>src/core/cpu/cpu_mem.h\<close>): the tagged page-table
  lookup of \<^verbatim>\<open>src/core/mem/page_table.h\<close>, the store to a page holding translated code,
  the cost of an access (\<^verbatim>\<open>src/core/cpu/timing_mode.h\<close> for the fast model), and the
  read, write and fetch routines every instruction goes through.  Host memory is
  little-endian, as on every host the emulator builds for.
\<close>

section \<open>The page table\<close>

text \<open>An entry holds the biased host base shifted right by two; the top bits tag the page.\<close>

definition TAG_CODE :: u64 where "TAG_CODE = 0x8000000000000000"
definition TAG_SPECIAL :: u64 where "TAG_SPECIAL = 0x4000000000000000"
definition BASE_MASK :: u64 where "BASE_MASK = 0x3FFFFFFFFFFFFFFF"

definition entry :: "cpu_ctx \<Rightarrow> u32 \<Rightarrow> u64" where
  "entry c addr = page_table c (drop_bit 11 addr)"

definition entry_ptr :: "u64 \<Rightarrow> u32 \<Rightarrow> u64 option" where
  "entry_ptr e addr =
     (let base = push_bit 2 e in if base \<noteq> 0 then Some (base + ucast addr) else None)"

definition read_ptr :: "cpu_ctx \<Rightarrow> u32 \<Rightarrow> u64 option" where
  "read_ptr c addr = entry_ptr (entry c addr) addr"

text \<open>The second component is \<^verbatim>\<open>is_code\<close>.\<close>

definition write_ptr :: "cpu_ctx \<Rightarrow> u32 \<Rightarrow> (u64 \<times> bool) option" where
  "write_ptr c addr =
     (let e = entry c addr in
      if tst e TAG_SPECIAL then None
      else map_option (\<lambda>p. (p, tst e TAG_CODE)) (entry_ptr e addr))"

section \<open>Host bytes\<close>

definition ld8 :: "(u64 \<Rightarrow> u8) \<Rightarrow> u64 \<Rightarrow> u8" where
  "ld8 h p = h p"

definition ld16 :: "(u64 \<Rightarrow> u8) \<Rightarrow> u64 \<Rightarrow> u16" where
  "ld16 h p = ucast (h p) OR push_bit 8 (ucast (h (p + 1)))"

definition ld32 :: "(u64 \<Rightarrow> u8) \<Rightarrow> u64 \<Rightarrow> u32" where
  "ld32 h p = ucast (h p) OR push_bit 8 (ucast (h (p + 1)))
     OR push_bit 16 (ucast (h (p + 2))) OR push_bit 24 (ucast (h (p + 3)))"

definition st8 :: "u64 \<Rightarrow> u8 \<Rightarrow> (u64 \<Rightarrow> u8) \<Rightarrow> (u64 \<Rightarrow> u8)" where
  "st8 p v h = h(p := v)"

definition st16 :: "u64 \<Rightarrow> u16 \<Rightarrow> (u64 \<Rightarrow> u8) \<Rightarrow> (u64 \<Rightarrow> u8)" where
  "st16 p v h = h(p := ucast v, p + 1 := ucast (drop_bit 8 v))"

definition st32 :: "u64 \<Rightarrow> u32 \<Rightarrow> (u64 \<Rightarrow> u8) \<Rightarrow> (u64 \<Rightarrow> u8)" where
  "st32 p v h = h(p := ucast v, p + 1 := ucast (drop_bit 8 v),
     p + 2 := ucast (drop_bit 16 v), p + 3 := ucast (drop_bit 24 v))"

text \<open>\<^verbatim>\<open>store_code\<close>: a store that changes nothing is not reported.\<close>

definition store_code :: "'io env \<Rightarrow> u64 \<Rightarrow> nat \<Rightarrow> ((u64 \<Rightarrow> u8) \<Rightarrow> (u64 \<Rightarrow> u8)) \<Rightarrow>
    'io mach \<Rightarrow> 'io mach" where
  "store_code env p len st m =
     (let h' = st (host m) in
      if list_all (\<lambda>i. h' (p + of_nat i) = host m (p + of_nat i)) [0..<len] then m
      else code_write_hook env p len (m\<lparr> host := h' \<rparr>))"

definition store_host :: "'io env \<Rightarrow> u64 \<Rightarrow> bool \<Rightarrow> nat \<Rightarrow> ((u64 \<Rightarrow> u8) \<Rightarrow> (u64 \<Rightarrow> u8)) \<Rightarrow>
    'io mach \<Rightarrow> 'io mach" where
  "store_host env p code len st m =
     (if code then store_code env p len st m else m\<lparr> host := st (host m) \<rparr>)"

section \<open>The cost of a data access\<close>

text \<open>\<^verbatim>\<open>src/core/cpu/timing_mode.h\<close>: SP-based accesses have a cost of their own.\<close>

definition fast_sp_based :: "u32 \<Rightarrow> bool \<Rightarrow> bool" where
  "fast_sp_based instr th =
     (if th then instr AND 0xF000 = 0x9000 \<or> instr AND 0xF600 = 0xB400
      else fld instr 16 15 = 13)"

definition fast_data :: "'io env \<Rightarrow> cpu_ctx \<Rightarrow> u32 \<Rightarrow> bool \<Rightarrow> u32" where
  "fast_data env c instr th =
     (if which c \<noteq> ARM9 then d7 (g_fast env)
      else if fast_sp_based instr th then d9s (g_fast env) else d9 (g_fast env))"

text \<open>\<open>wide\<close> is the C++ \<^verbatim>\<open>width\<close> (true for a 32-bit access).\<close>

definition access_cost :: "'io env \<Rightarrow> 'io mach \<Rightarrow> u32 \<Rightarrow> bool \<Rightarrow> bool \<Rightarrow> bool \<Rightarrow> u32" where
  "access_cost env m addr wide seq store =
     (if g_fast_timing env then ucast (fast_d (cpu m))
      else if which (cpu m) = ARM9 then
        (let t = (\<lambda>k. timing9 m (drop_bit 12 addr) (k + (if store then 4 else 0))) in
         ucast (if seq then t 3 else t (if wide then 2 else 1)))
      else
        (let t = timing7 m (drop_bit 15 addr) in
         ucast (if seq then t (if wide then 3 else 1) else t (if wide then 2 else 0))))"

definition data_cost :: "'io env \<Rightarrow> u32 \<Rightarrow> bool \<Rightarrow> bool \<Rightarrow> bool \<Rightarrow> 'io mach \<Rightarrow> 'io mach" where
  "data_cost env addr wide seq store m =
     (let k = access_cost env m addr wide seq store in
      upd_cpu (\<lambda>c. if seq then c\<lparr> data_cycles := data_cycles c + k \<rparr>
                   else c\<lparr> data_cycles := k, data_region := drop_bit 24 addr \<rparr>) m)"

section \<open>Reads, writes and fetches\<close>

definition mem_read8 :: "'io env \<Rightarrow> u32 \<Rightarrow> bool \<Rightarrow> 'io mach \<Rightarrow> u8 \<times> 'io mach" where
  "mem_read8 env addr seq m =
     (let m1 = data_cost env addr False seq False m in
      case read_ptr (cpu m1) addr of
        Some p \<Rightarrow> (ld8 (host m1) p, m1)
      | None \<Rightarrow> (let (v, m2) = bus_io_read env addr 8 m1 in (ucast v, m2)))"

definition mem_read16 :: "'io env \<Rightarrow> u32 \<Rightarrow> bool \<Rightarrow> 'io mach \<Rightarrow> u16 \<times> 'io mach" where
  "mem_read16 env addr0 seq m =
     (let addr = addr0 AND NOT 1; m1 = data_cost env addr False seq False m in
      case read_ptr (cpu m1) addr of
        Some p \<Rightarrow> (ld16 (host m1) p, m1)
      | None \<Rightarrow> (let (v, m2) = bus_io_read env addr 16 m1 in (ucast v, m2)))"

definition mem_read32 :: "'io env \<Rightarrow> u32 \<Rightarrow> bool \<Rightarrow> 'io mach \<Rightarrow> u32 \<times> 'io mach" where
  "mem_read32 env addr0 seq m =
     (let addr = addr0 AND NOT 3; m1 = data_cost env addr True seq False m in
      case read_ptr (cpu m1) addr of
        Some p \<Rightarrow> (ld32 (host m1) p, m1)
      | None \<Rightarrow> bus_io_read env addr 32 m1)"

definition mem_write8 :: "'io env \<Rightarrow> u32 \<Rightarrow> u8 \<Rightarrow> bool \<Rightarrow> 'io mach \<Rightarrow> 'io mach" where
  "mem_write8 env addr v seq m =
     (let m1 = data_cost env addr False seq True m in
      case write_ptr (cpu m1) addr of
        Some (p, code) \<Rightarrow> store_host env p code 1 (st8 p v) m1
      | None \<Rightarrow> bus_io_write env addr 8 (ucast v) m1)"

definition mem_write16 :: "'io env \<Rightarrow> u32 \<Rightarrow> u16 \<Rightarrow> bool \<Rightarrow> 'io mach \<Rightarrow> 'io mach" where
  "mem_write16 env addr0 v seq m =
     (let addr = addr0 AND NOT 1; m1 = data_cost env addr False seq True m in
      case write_ptr (cpu m1) addr of
        Some (p, code) \<Rightarrow> store_host env p code 2 (st16 p v) m1
      | None \<Rightarrow> bus_io_write env addr 16 (ucast v) m1)"

definition mem_write32 :: "'io env \<Rightarrow> u32 \<Rightarrow> u32 \<Rightarrow> bool \<Rightarrow> 'io mach \<Rightarrow> 'io mach" where
  "mem_write32 env addr0 v seq m =
     (let addr = addr0 AND NOT 3; m1 = data_cost env addr True seq True m in
      case write_ptr (cpu m1) addr of
        Some (p, code) \<Rightarrow> store_host env p code 4 (st32 p v) m1
      | None \<Rightarrow> bus_io_write env addr 32 v m1)"

definition fetch32 :: "'io env \<Rightarrow> u32 \<Rightarrow> 'io mach \<Rightarrow> u32 \<times> 'io mach" where
  "fetch32 env addr m =
     (case read_ptr (cpu m) addr of
        Some p \<Rightarrow> (ld32 (host m) p, m)
      | None \<Rightarrow> bus_fetch env addr 32 m)"

definition fetch16 :: "'io env \<Rightarrow> u32 \<Rightarrow> 'io mach \<Rightarrow> u16 \<times> 'io mach" where
  "fetch16 env addr m =
     (case read_ptr (cpu m) addr of
        Some p \<Rightarrow> (ld16 (host m) p, m)
      | None \<Rightarrow> (let (v, m1) = bus_fetch env addr 16 m in (ucast v, m1)))"

end
