(* ===== verification/CpuCycles.thy ===== *)
theory CpuCycles imports CpuMem begin

text \<open>
  The per-instruction cycle model (\<^verbatim>\<open>src/core/cpu/cpu_cycles.h\<close>): what an instruction
  pays for its fetch, its internal cycles and its data accesses, and the pipeline refill
  a jump pays instead.  Every charge comes off the downward-counting budget.
\<close>

definition num_c9 :: "cpu_ctx \<Rightarrow> u32" where
  "num_c9 c = (if thumb c \<and> tst (R c 15) 2 then 0 else code_cycles c)"

text \<open>\<^verbatim>\<open>cpu.timing7[cpu.code_cycles][k]\<close>\<close>

definition code_cost7 :: "'io mach \<Rightarrow> u32 \<Rightarrow> u8" where
  "code_cost7 m k = timing7 m (code_cycles (cpu m)) k"

definition pay :: "int \<Rightarrow> 'io mach \<Rightarrow> 'io mach" where
  "pay n = upd_cpu (\<lambda>c. set_budget (budget c - n) c)"

definition charge_C :: "'io mach \<Rightarrow> 'io mach" where
  "charge_C m =
     (if which (cpu m) = ARM9 then pay (sint (num_c9 (cpu m))) m
      else pay (uint (code_cost7 m (if thumb (cpu m) then 1 else 3))) m)"

definition charge_CI :: "u32 \<Rightarrow> 'io mach \<Rightarrow> 'io mach" where
  "charge_CI internal m =
     (if which (cpu m) = ARM9 then pay (sint (num_c9 (cpu m) + internal)) m
      else pay (sint (ucast (code_cost7 m (if thumb (cpu m) then 0 else 2)) + internal)) m)"

definition max3 :: "int \<Rightarrow> int \<Rightarrow> int \<Rightarrow> int" where
  "max3 a b c = max a (max b c)"

definition charge_fast_CD :: "'io mach \<Rightarrow> 'io mach" where
  "charge_fast_CD m =
     (let numC = (if which (cpu m) = ARM9 then num_c9 (cpu m)
                  else ucast (code_cost7 m (if thumb (cpu m) then 0 else 2)))
      in pay (sint (numC + data_cycles (cpu m))) m)"

definition charge_CDI :: "'io env \<Rightarrow> 'io mach \<Rightarrow> 'io mach" where
  "charge_CDI env m =
     (if g_fast_timing env then charge_fast_CD m
      else
        (let numD = sint (data_cycles (cpu m)) in
         if which (cpu m) = ARM9 then
           (let numC = sint (num_c9 (cpu m)) in pay (max3 (numC + numD - 6) numC numD) m)
         else
           (let numC = uint (code_cost7 m (if thumb (cpu m) then 0 else 2)); d = numD;
                cost = (if data_region (cpu m) = 0x02 then
                          (if code_region (cpu m) = 0x02 then numC + d
                           else max3 (numC + 1 + d - 3) (numC + 1) d)
                        else
                          (if code_region (cpu m) = 0x02
                           then max3 (numC + (d + 1) - 3) numC (d + 1)
                           else numC + d + 1))
            in pay cost m)))"

definition charge_CDI_after_jump :: "'io env \<Rightarrow> 'io mach \<Rightarrow> 'io mach" where
  "charge_CDI_after_jump env m =
     (if g_fast_timing env then pay (sint (data_cycles (cpu m))) m
      else if which (cpu m) = ARM9 then
        (let numC = (if thumb (cpu m) \<and> \<not> tst (R (cpu m) 15) 2 then 0
                     else sint (code_cycles (cpu m)));
             numD = sint (data_cycles (cpu m))
         in pay (max3 (numC + numD - 6) numC numD) m)
      else charge_CDI env m)"

definition charge_CD :: "'io env \<Rightarrow> 'io mach \<Rightarrow> 'io mach" where
  "charge_CD env m =
     (if g_fast_timing env then charge_fast_CD m
      else
        (let numD = sint (data_cycles (cpu m)) in
         if which (cpu m) = ARM9 then
           (let numC = sint (num_c9 (cpu m)) in pay (max3 (numC + numD - 6) numC numD) m)
         else
           (let numC = uint (code_cost7 m (if thumb (cpu m) then 0 else 2));
                cost = (if (data_region (cpu m) = 0x02) = (code_region (cpu m) = 0x02)
                        then numC + numD else max3 (numC + numD - 3) numC numD)
            in pay cost m)))"

definition prefetch_cost9 :: "'io mach \<Rightarrow> 'io mach" where
  "prefetch_cost9 m =
     (let c0 = cpu m; pc = R c0 15 in
      if thumb c0 \<and> tst pc 2 then upd_cpu (\<lambda>c. c\<lparr> code_cycles := 0 \<rparr>) m
      else
        (let k0 = (if code_latch c0 \<noteq> 0 then code_latch c0 else timing9 m (drop_bit 12 pc) 0);
             k = (if code_latch c0 \<noteq> 0 \<and> pc < itcm_size c0 then 1 else k0)
         in upd_cpu (\<lambda>c. c\<lparr> code_cycles :=
              (if k = 0xFF then (if pc AND 0x1F = 0 then 3 else 1) else ucast k) \<rparr>) m))"

definition fetch_cost9 :: "'io mach \<Rightarrow> u32 \<Rightarrow> bool \<Rightarrow> u32" where
  "fetch_cost9 m addr branch =
     (let k = timing9 m (drop_bit 12 addr) 0 in
      if k = 0xFF then (if branch \<or> addr AND 0x1F = 0 then 3 else 1) else ucast k)"

text \<open>The refill's cost, and the cost of its last ARM9 fetch (\<^verbatim>\<open>code_after\<close>; 0 when the
  code leaves it alone).\<close>

definition refill_cycles :: "'io env \<Rightarrow> 'io mach \<Rightarrow> u32 \<Rightarrow> bool \<Rightarrow> u32 \<times> u32" where
  "refill_cycles env m addr th =
     (if which (cpu m) = ARM9 then
        (let (k, last) =
           (if th then
              (if tst addr 2
               then (let l = fetch_cost9 m (addr + 2) False
                     in (fetch_cost9 m (addr - 2) True + l, l))
               else (let l = fetch_cost9 m addr True in (l, l)))
            else (let l = fetch_cost9 m (addr + 4) False
                  in (fetch_cost9 m addr True + l, l)))
         in (if g_fast_timing env then r9 (g_fast env) else k, last))
      else if g_fast_timing env then (r7 (g_fast env), 0)
      else
        (let t = timing7 m (drop_bit 15 addr)
         in (if th then ucast (t 0) + ucast (t 1) else ucast (t 2) + ucast (t 3), 0)))"

section \<open>What a charge leaves alone\<close>

text \<open>Every charge is a payment off the budget; a payment touches nothing else.\<close>

lemma pay_frame [frame_simps]:
  "R (cpu (pay n m)) r = R (cpu m) r" "CPSR (cpu (pay n m)) = CPSR (cpu m)"
  "SPSR (cpu (pay n m)) = SPSR (cpu m)" "thumb (cpu (pay n m)) = thumb (cpu m)"
  "which (cpu (pay n m)) = which (cpu m)" "host (pay n m) = host m" "io (pay n m) = io m"
  "budget (cpu (pay n m)) = budget (cpu m) - n"
  "page_table (cpu (pay n m)) = page_table (cpu m)" "jumped (cpu (pay n m)) = jumped (cpu m)"
  by (simp_all add: pay_def thumb_def) (simp_all add: set_budget_def)

lemma charge_is_pay:
  "\<exists>n. charge_C m = pay n m" "\<exists>n. charge_CI k m = pay n m" "\<exists>n. charge_CD env m = pay n m"
  "\<exists>n. charge_CDI env m = pay n m" "\<exists>n. charge_CDI_after_jump env m = pay n m"
  "\<exists>n. charge_fast_CD m = pay n m"
proof -
  show C: "\<exists>n. charge_C m = pay n m" and CI: "\<exists>n. charge_CI k m = pay n m"
    unfolding charge_C_def charge_CI_def by (simp_all split: if_split) blast+
  show F: "\<exists>n. charge_fast_CD m = pay n m"
    unfolding charge_fast_CD_def Let_def by blast
  then show CD: "\<exists>n. charge_CD env m = pay n m" and CDI: "\<exists>n. charge_CDI env m = pay n m"
    unfolding charge_CD_def charge_CDI_def Let_def by (simp_all split: if_split) blast+
  then show "\<exists>n. charge_CDI_after_jump env m = pay n m"
    unfolding charge_CDI_after_jump_def Let_def by (simp split: if_split) blast
qed

text \<open>So a property of the machine that every payment keeps is kept by every charge.\<close>

lemma charge_induct:
  assumes "\<And>n. P (pay n m)"
  shows "P (charge_C m)" "P (charge_CI k m)" "P (charge_CD env m)" "P (charge_CDI env m)"
    "P (charge_CDI_after_jump env m)"
  using assms charge_is_pay(1) [of m] charge_is_pay(2) [of k m] charge_is_pay(3) [of env m]
    charge_is_pay(4) [of env m] charge_is_pay(5) [of env m] by auto

lemma charge_frame [frame_simps]:
  "R (cpu (charge_C m)) r = R (cpu m) r" "R (cpu (charge_CI k m)) r = R (cpu m) r"
  "R (cpu (charge_CD env m)) r = R (cpu m) r" "R (cpu (charge_CDI env m)) r = R (cpu m) r"
  "R (cpu (charge_CDI_after_jump env m)) r = R (cpu m) r"
  "CPSR (cpu (charge_C m)) = CPSR (cpu m)" "CPSR (cpu (charge_CI k m)) = CPSR (cpu m)"
  "CPSR (cpu (charge_CD env m)) = CPSR (cpu m)" "CPSR (cpu (charge_CDI env m)) = CPSR (cpu m)"
  "CPSR (cpu (charge_CDI_after_jump env m)) = CPSR (cpu m)"
  "SPSR (cpu (charge_C m)) = SPSR (cpu m)" "SPSR (cpu (charge_CI k m)) = SPSR (cpu m)"
  "SPSR (cpu (charge_CD env m)) = SPSR (cpu m)" "SPSR (cpu (charge_CDI env m)) = SPSR (cpu m)"
  "SPSR (cpu (charge_CDI_after_jump env m)) = SPSR (cpu m)"
  "which (cpu (charge_C m)) = which (cpu m)" "which (cpu (charge_CI k m)) = which (cpu m)"
  "which (cpu (charge_CD env m)) = which (cpu m)" "which (cpu (charge_CDI env m)) = which (cpu m)"
  "which (cpu (charge_CDI_after_jump env m)) = which (cpu m)"
  "page_table (cpu (charge_C m)) = page_table (cpu m)"
  "page_table (cpu (charge_CI k m)) = page_table (cpu m)"
  "page_table (cpu (charge_CD env m)) = page_table (cpu m)"
  "page_table (cpu (charge_CDI env m)) = page_table (cpu m)"
  "page_table (cpu (charge_CDI_after_jump env m)) = page_table (cpu m)"
  "host (charge_C m) = host m" "host (charge_CI k m) = host m"
  "host (charge_CD env m) = host m" "host (charge_CDI env m) = host m"
  "host (charge_CDI_after_jump env m) = host m"
proof -
  obtain n1 n2 n3 n4 n5 where "charge_C m = pay n1 m" "charge_CI k m = pay n2 m"
    "charge_CD env m = pay n3 m" "charge_CDI env m = pay n4 m" "charge_CDI_after_jump env m = pay n5 m"
    using charge_is_pay by metis
  note [simp] = this
  show
  "R (cpu (charge_C m)) r = R (cpu m) r" "R (cpu (charge_CI k m)) r = R (cpu m) r"
  "R (cpu (charge_CD env m)) r = R (cpu m) r" "R (cpu (charge_CDI env m)) r = R (cpu m) r"
  "R (cpu (charge_CDI_after_jump env m)) r = R (cpu m) r"
  "CPSR (cpu (charge_C m)) = CPSR (cpu m)" "CPSR (cpu (charge_CI k m)) = CPSR (cpu m)"
  "CPSR (cpu (charge_CD env m)) = CPSR (cpu m)" "CPSR (cpu (charge_CDI env m)) = CPSR (cpu m)"
  "CPSR (cpu (charge_CDI_after_jump env m)) = CPSR (cpu m)"
  "SPSR (cpu (charge_C m)) = SPSR (cpu m)" "SPSR (cpu (charge_CI k m)) = SPSR (cpu m)"
  "SPSR (cpu (charge_CD env m)) = SPSR (cpu m)" "SPSR (cpu (charge_CDI env m)) = SPSR (cpu m)"
  "SPSR (cpu (charge_CDI_after_jump env m)) = SPSR (cpu m)"
  "which (cpu (charge_C m)) = which (cpu m)" "which (cpu (charge_CI k m)) = which (cpu m)"
  "which (cpu (charge_CD env m)) = which (cpu m)" "which (cpu (charge_CDI env m)) = which (cpu m)"
  "which (cpu (charge_CDI_after_jump env m)) = which (cpu m)"
  "page_table (cpu (charge_C m)) = page_table (cpu m)"
  "page_table (cpu (charge_CI k m)) = page_table (cpu m)"
  "page_table (cpu (charge_CD env m)) = page_table (cpu m)"
  "page_table (cpu (charge_CDI env m)) = page_table (cpu m)"
  "page_table (cpu (charge_CDI_after_jump env m)) = page_table (cpu m)"
  "host (charge_C m) = host m" "host (charge_CI k m) = host m"
  "host (charge_CD env m) = host m" "host (charge_CDI env m) = host m"
  "host (charge_CDI_after_jump env m) = host m"
    by (simp_all add: frame_simps)
qed

end
