(* ===== verification/CpuCore.thy ===== *)
theory CpuCore imports CpuCycles begin

text \<open>
  The CPU's own operations (\<^verbatim>\<open>src/core/cpu/cpu.cpp\<close>): reset, register banking, mode
  changes, the TCM windows, jumps, exception entry and the interrupt check.
\<close>

section \<open>Banking\<close>

definition bank_of :: "u32 \<Rightarrow> nat" where
  "bank_of mode =
     (let m = mode AND 0x1F in
      if m = 0x11 then 1
      else if m = 0x12 then 2
      else if m = 0x13 then 3
      else if m = 0x17 then 4
      else if m = 0x1B then 5
      else 0)"

text \<open>\<^verbatim>\<open>memcpy(bank_r8_r12[i], &regs[8], 5 * 4)\<close> and its inverse.\<close>

definition copy_out5 :: "(u32 \<Rightarrow> u32) \<Rightarrow> (u32 \<Rightarrow> u32)" where
  "copy_out5 rs = (\<lambda>k. rs (8 + k))"

definition copy_in5 :: "(u32 \<Rightarrow> u32) \<Rightarrow> (u32 \<Rightarrow> u32) \<Rightarrow> (u32 \<Rightarrow> u32)" where
  "copy_in5 b rs = rs(8 := b 0, 9 := b 1, 10 := b 2, 11 := b 3, 12 := b 4)"

definition save_bank :: "nat \<Rightarrow> nat \<Rightarrow> cpu_ctx \<Rightarrow> cpu_ctx" where
  "save_bank ob nb c =
     (let c1 = c\<lparr> bank_r13 := (bank_r13 c)(ob := R c 13), bank_r14 := (bank_r14 c)(ob := R c 14) \<rparr>;
          c2 = (if ob \<noteq> 0 then c1\<lparr> bank_spsr := (bank_spsr c1)(ob := SPSR c1) \<rparr> else c1)
      in if ob = 1 then c2\<lparr> bank_r8_r12 := (bank_r8_r12 c2)(1 := copy_out5 (regs (hot c2))) \<rparr>
         else if nb = 1 then c2\<lparr> bank_r8_r12 := (bank_r8_r12 c2)(0 := copy_out5 (regs (hot c2))) \<rparr>
         else c2)"

definition load_bank :: "nat \<Rightarrow> nat \<Rightarrow> cpu_ctx \<Rightarrow> cpu_ctx" where
  "load_bank ob nb c =
     (let rs1 = (regs (hot c))(13 := bank_r13 c nb, 14 := bank_r14 c nb);
          rs2 = (if nb = 1 then copy_in5 (bank_r8_r12 c 1) rs1
                 else if ob = 1 then copy_in5 (bank_r8_r12 c 0) rs1 else rs1)
      in c\<lparr> hot := (hot c)\<lparr> regs := rs2, spsr := (if nb \<noteq> 0 then bank_spsr c nb else 0) \<rparr> \<rparr>)"

definition switch_mode :: "u32 \<Rightarrow> cpu_ctx \<Rightarrow> cpu_ctx" where
  "switch_mode new_mode0 c =
     (let old_mode = CPSR c AND 0x1F; new_mode = new_mode0 AND 0x1F in
      if old_mode = new_mode then c
      else
        (let ob = bank_of old_mode; nb = bank_of new_mode in
         if ob = nb then set_CPSR ((CPSR c AND NOT 0x1F) OR new_mode) c
         else
           (let c1 = load_bank ob nb (save_bank ob nb c)
            in set_CPSR ((CPSR c1 AND NOT 0x1F) OR new_mode) c1)))"

definition set_cpsr :: "u32 \<Rightarrow> cpu_ctx \<Rightarrow> cpu_ctx" where
  "set_cpsr v c = set_CPSR v (switch_mode (v AND 0x1F) c)"

definition restore_cpsr :: "cpu_ctx \<Rightarrow> cpu_ctx" where
  "restore_cpsr c = set_cpsr (SPSR c) c"

section \<open>Reset and the TCM windows\<close>

definition exception_base :: "cpu_ctx \<Rightarrow> u32" where
  "exception_base c =
     (if which c = ARM9 then (if tst (cp15_control c) 0x2000 then 0xFFFF0000 else 0) else 0)"

definition cpu_reset :: "cpu_id \<Rightarrow> cpu_ctx \<Rightarrow> cpu_ctx" where
  "cpu_reset w c =
     (let c1 = c\<lparr> which := w, halted := False, jumped := False,
            hot := \<lparr> regs = (\<lambda>_. 0), cpsr = 0, spsr = 0, cycle_budget = 0, irq_pending = 0,
                    alerts = 0 \<rparr>,
            bank_r8_r12 := (\<lambda>_ _. 0), bank_r13 := (\<lambda>_. 0), bank_r14 := (\<lambda>_. 0),
            bank_spsr := (\<lambda>_. 0),
            cp15_control := (if w = ARM9 then 0x2078 else 0), cp15_dtcm := 0, cp15_itcm := 0,
            pu_region := (\<lambda>_. 0), pu_code_cacheable := 0, pu_data_cacheable := 0,
            pu_data_bufferable := 0, pu_code_perm := 0, pu_data_perm := 0,
            itcm_size := 0, dtcm_base := 0xFFFFFFFF, dtcm_mask := 0,
            code_cycles := 0, data_cycles := 0, code_region := 0, data_region := 0,
            branch_fetch := True, step_limit := 0, steps := 0,
            boot_stall := 0, code_latch := 0, irq_offline := False, irq_skip_once := False,
            defer_cost := 0 \<rparr>;
          c2 = set_CPSR (0x13 OR 0xC0) c1
      in set_R 15 (exception_base c2 + 8) c2)"

definition tcm_bytes :: "u32 \<Rightarrow> u32" where
  "tcm_bytes reg = push_bit (unat (fld reg 1 0x1F)) 512"

definition update_tcm_windows :: "cpu_ctx \<Rightarrow> cpu_ctx" where
  "update_tcm_windows c =
     (if which c \<noteq> ARM9 then c
      else
        (let c1 = (if tst (cp15_control c) 0x40000
                   then (let size = tcm_bytes (cp15_itcm c)
                         in c\<lparr> itcm_size := (if size < 0x8000 then 0x8000 else size) \<rparr>)
                   else c\<lparr> itcm_size := 0 \<rparr>)
         in if tst (cp15_control c1) 0x10000
            then (let size0 = tcm_bytes (cp15_dtcm c1);
                      size = (if size0 < 0x4000 then 0x4000 else size0);
                      msk = NOT (size - 1)
                  in c1\<lparr> dtcm_mask := msk, dtcm_base := cp15_dtcm c1 AND msk \<rparr>)
            else c1\<lparr> dtcm_base := 0xFFFFFFFF, dtcm_mask := 0 \<rparr>))"

section \<open>Jumps\<close>

definition jump_state :: "u32 \<Rightarrow> bool \<Rightarrow> cpu_ctx \<Rightarrow> cpu_ctx" where
  "jump_state addr interwork c =
     (let c1 = c\<lparr> jumped := True \<rparr>;
          c2 = (if interwork
                then set_CPSR (if tst addr 1 then CPSR c1 OR 0x20 else CPSR c1 AND NOT 0x20) c1
                else c1)
      in set_R 15 (if thumb c2 then (addr AND NOT 1) + 4 else (addr AND NOT 3) + 8) c2)"

definition jump_refill :: "'io env \<Rightarrow> u32 \<Rightarrow> 'io mach \<Rightarrow> 'io mach" where
  "jump_refill env addr m =
     (let a = addr AND NOT 1; (k, code_after) = refill_cycles env m a (thumb (cpu m));
          m1 = pay (sint k) m
      in if which (cpu m1) = ARM9 then
           upd_cpu (\<lambda>c. (if dsi env then (\<lambda>c. c\<lparr> code_latch := timing9 m (drop_bit 12 a) 0 \<rparr>) else id)
              (c\<lparr> code_cycles := code_after, branch_fetch := False \<rparr>)) m1
         else upd_cpu (\<lambda>c. c\<lparr> code_cycles := drop_bit 15 a, code_region := drop_bit 24 addr \<rparr>) m1)"

definition jump :: "'io env \<Rightarrow> u32 \<Rightarrow> bool \<Rightarrow> 'io mach \<Rightarrow> 'io mach" where
  "jump env addr interwork m = jump_refill env addr (upd_cpu (jump_state addr interwork) m)"

section \<open>Exceptions and interrupts\<close>

datatype exception_kind =
  Exc_Reset | Exc_Undefined | Exc_Swi | Exc_PrefetchAbort | Exc_DataAbort | Exc_Irq | Exc_Fiq

fun exc_vector :: "exception_kind \<Rightarrow> u32" where
  "exc_vector Exc_Reset = 0x00"
| "exc_vector Exc_Undefined = 0x04"
| "exc_vector Exc_Swi = 0x08"
| "exc_vector Exc_PrefetchAbort = 0x0C"
| "exc_vector Exc_DataAbort = 0x10"
| "exc_vector Exc_Irq = 0x18"
| "exc_vector Exc_Fiq = 0x1C"

fun exc_mode :: "exception_kind \<Rightarrow> u32" where
  "exc_mode Exc_Reset = 0x13"
| "exc_mode Exc_Undefined = 0x1B"
| "exc_mode Exc_Swi = 0x13"
| "exc_mode Exc_PrefetchAbort = 0x17"
| "exc_mode Exc_DataAbort = 0x17"
| "exc_mode Exc_Irq = 0x12"
| "exc_mode Exc_Fiq = 0x11"

fun exc_lr_adj :: "exception_kind \<Rightarrow> bool \<Rightarrow> int" where
  "exc_lr_adj Exc_Reset th = 0"
| "exc_lr_adj Exc_Undefined th = (if th then 2 else 4)"
| "exc_lr_adj Exc_Swi th = (if th then 2 else 4)"
| "exc_lr_adj Exc_PrefetchAbort th = (if th then 0 else 4)"
| "exc_lr_adj Exc_DataAbort th = (if th then -4 else 0)"
| "exc_lr_adj Exc_Irq th = (if th then 0 else 4)"
| "exc_lr_adj Exc_Fiq th = (if th then 0 else 4)"

definition enter_exception :: "exception_kind \<Rightarrow> cpu_ctx \<Rightarrow> cpu_ctx" where
  "enter_exception e c =
     (let pc = R c 15; old_cpsr = CPSR c; adj = exc_lr_adj e (thumb c);
          c1 = switch_mode (exc_mode e) c;
          c2 = set_SPSR old_cpsr c1;
          c3 = set_R 14 (pc - word_of_int adj) c2;
          c4 = set_CPSR (CPSR c3 AND NOT 0x20) c3;
          c5 = set_CPSR (CPSR c4 OR 0x80) c4
      in if e = Exc_Fiq \<or> e = Exc_Reset \<or> e = Exc_Irq then set_CPSR (CPSR c5 OR 0x40) c5 else c5)"

definition raise_exception :: "'io env \<Rightarrow> exception_kind \<Rightarrow> 'io mach \<Rightarrow> 'io mach" where
  "raise_exception env e m =
     (let m1 = upd_cpu (enter_exception e) m
      in jump env (exception_base (cpu m1) + exc_vector e) False m1)"

definition irq_unmasked :: "cpu_ctx \<Rightarrow> bool" where
  "irq_unmasked c \<longleftrightarrow> irq_pending (hot c) \<noteq> 0 \<and> \<not> tst (CPSR c) 0x80"

definition check_irq :: "'io env \<Rightarrow> 'io mach \<Rightarrow> 'io mach" where
  "check_irq env m =
     (if irq_skip_once (cpu m) then upd_cpu (\<lambda>c. c\<lparr> irq_skip_once := False \<rparr>) m
      else if irq_unmasked (cpu m) then
        (let m1 = raise_exception env Exc_Irq (upd_cpu (\<lambda>c. c\<lparr> halted := False \<rparr>) m) in
         if which (cpu m1) = ARM7 \<and> \<not> cheats_idle env m1 \<and> vblank_line env m1
         then cheats_run env m1 else m1)
      else m)"

section \<open>What the operations leave alone\<close>

lemma jump_refill_frame [frame_simps]:
  "R (cpu (jump_refill env a m)) r = R (cpu m) r" "CPSR (cpu (jump_refill env a m)) = CPSR (cpu m)"
  "SPSR (cpu (jump_refill env a m)) = SPSR (cpu m)" "which (cpu (jump_refill env a m)) = which (cpu m)"
  "host (jump_refill env a m) = host m" "io (jump_refill env a m) = io m"
  "jumped (cpu (jump_refill env a m)) = jumped (cpu m)"
  by (simp_all add: jump_refill_def Let_def pay_def cpu_defs split: prod.split)

text \<open>Where a jump goes: the target aligned for the state it leaves the CPU in, plus the
  prefetch distance.\<close>

lemma jump_effect [frame_simps]:
  "CPSR (cpu (jump env a False m)) = CPSR (cpu m)"
  "CPSR (cpu (jump env a True m)) =
     (if tst a 1 then CPSR (cpu m) OR 0x20 else CPSR (cpu m) AND NOT 0x20)"
  "SPSR (cpu (jump env a iw m)) = SPSR (cpu m)"
  "which (cpu (jump env a iw m)) = which (cpu m)"
  "jumped (cpu (jump env a iw m))"
  "r \<noteq> 15 \<Longrightarrow> R (cpu (jump env a iw m)) r = R (cpu m) r"
  "host (jump env a iw m) = host m" "io (jump env a iw m) = io m"
  by (simp_all add: jump_def frame_simps jump_state_def Let_def) (simp_all add: cpu_defs)

lemma jump_pc:
  "R (cpu (jump env a iw m)) 15 =
     (if (if iw then tst a 1 else thumb (cpu m)) then (a AND NOT 1) + 4 else (a AND NOT 3) + 8)"
proof -
  have t: "tst (x OR 0x20) (0x20::u32)" "\<not> tst (x AND NOT 0x20) (0x20::u32)" for x :: u32
    by (simp_all add: tst_def and.assoc bit.conj_disj_distrib2)
  show ?thesis
    using t by (auto simp: jump_def frame_simps jump_state_def Let_def thumb_def)
      (simp_all add: cpu_defs)
qed

end
