(* ===== verification/InterpCommon.thy ===== *)
theory InterpCommon imports CpuCore begin

text \<open>
  What both instruction-set executors share
  (\<^verbatim>\<open>src/core/cpu/interp/interp_internal.h\<close>): the flag helpers, the two shifters, the
  saturating helpers and the population count; \<^verbatim>\<open>rotr32\<close> is from
  \<^verbatim>\<open>src/core/cpu/cpu_mem.h\<close>.
\<close>

definition FLAG_N :: u32 where "FLAG_N = 0x80000000"
definition FLAG_Z :: u32 where "FLAG_Z = 0x40000000"
definition FLAG_C :: u32 where "FLAG_C = 0x20000000"
definition FLAG_V :: u32 where "FLAG_V = 0x10000000"
definition FLAG_Q :: u32 where "FLAG_Q = 0x08000000"

definition rotr32 :: "u32 \<Rightarrow> u32 \<Rightarrow> u32" where
  "rotr32 v n0 =
     (let n = unat (n0 AND 31) in
      if n \<noteq> 0 then drop_bit n v OR push_bit (32 - n) v else v)"

section \<open>Flags\<close>

definition z_flag :: "u32 \<Rightarrow> u32" where
  "z_flag r = (if r = 0 then FLAG_Z else 0)"

definition set_nz :: "u32 \<Rightarrow> cpu_ctx \<Rightarrow> cpu_ctx" where
  "set_nz r c =
     set_CPSR ((CPSR c AND NOT (FLAG_N OR FLAG_Z)) OR (r AND FLAG_N) OR z_flag r) c"

definition set_nzc :: "u32 \<Rightarrow> bool \<Rightarrow> cpu_ctx \<Rightarrow> cpu_ctx" where
  "set_nzc r cf c =
     set_CPSR ((CPSR c AND NOT (FLAG_N OR FLAG_Z OR FLAG_C)) OR (r AND FLAG_N) OR z_flag r
       OR (if cf then FLAG_C else 0)) c"

definition set_nzcv :: "u32 \<Rightarrow> bool \<Rightarrow> bool \<Rightarrow> cpu_ctx \<Rightarrow> cpu_ctx" where
  "set_nzcv r cf vf c =
     set_CPSR ((CPSR c AND NOT (FLAG_N OR FLAG_Z OR FLAG_C OR FLAG_V)) OR (r AND FLAG_N)
       OR z_flag r OR (if cf then FLAG_C else 0) OR (if vf then FLAG_V else 0)) c"

definition carry :: "cpu_ctx \<Rightarrow> bool" where
  "carry c \<longleftrightarrow> tst (CPSR c) FLAG_C"

definition add_flags :: "u32 \<Rightarrow> u32 \<Rightarrow> u32 \<Rightarrow> cpu_ctx \<Rightarrow> u32 \<times> cpu_ctx" where
  "add_flags a b cin c =
     (let wide = (ucast a :: u64) + ucast b + ucast cin;
          r = ucast wide;
          v = drop_bit 31 (NOT (a XOR b) AND (a XOR r)) \<noteq> 0
      in (r, set_nzcv r (drop_bit 32 wide \<noteq> 0) v c))"

definition sub_flags :: "u32 \<Rightarrow> u32 \<Rightarrow> u32 \<Rightarrow> cpu_ctx \<Rightarrow> u32 \<times> cpu_ctx" where
  "sub_flags a b cin c =
     (let wide = (ucast a :: u64) + ucast (NOT b) + ucast cin;
          r = ucast wide;
          v = drop_bit 31 ((a XOR b) AND (a XOR r)) \<noteq> 0
      in (r, set_nzcv r (drop_bit 32 wide \<noteq> 0) v c))"

section \<open>The barrel shifter\<close>

text \<open>The C++ takes the carry by reference: \<open>c\<close> in, the second component out.\<close>

definition asr :: "nat \<Rightarrow> u32 \<Rightarrow> u32" where
  "asr n v = signed_drop_bit n v"

definition shift_imm :: "u32 \<Rightarrow> u32 \<Rightarrow> u32 \<Rightarrow> bool \<Rightarrow> u32 \<times> bool" where
  "shift_imm type amt v c =
     (let n = unat amt in
      if type = 0 then
        (if amt = 0 then (v, c) else (push_bit n v, bit v (32 - n)))
      else if type = 1 then
        (if amt = 0 then (0, bit v 31) else (drop_bit n v, bit v (n - 1)))
      else if type = 2 then
        (if amt = 0 then (asr 31 v, bit v 31) else (asr n v, bit v (n - 1)))
      else
        (if amt = 0 then (drop_bit 1 v OR (if c then 0x80000000 else 0), bit v 0)
         else (rotr32 v amt, bit v (n - 1))))"

definition shift_reg :: "u32 \<Rightarrow> u32 \<Rightarrow> u32 \<Rightarrow> bool \<Rightarrow> u32 \<times> bool" where
  "shift_reg type amt0 v c =
     (let amt = amt0 AND 0xFF; n = unat amt in
      if amt = 0 then (v, c)
      else if type = 0 then
        (if amt < 32 then (push_bit n v, bit v (32 - n))
         else (0, if amt = 32 then bit v 0 else False))
      else if type = 1 then
        (if amt < 32 then (drop_bit n v, bit v (n - 1))
         else (0, if amt = 32 then bit v 31 else False))
      else if type = 2 then
        (if amt < 32 then (asr n v, bit v (n - 1)) else (asr 31 v, bit v 31))
      else
        (let k = amt AND 31 in
         if k = 0 then (v, bit v 31) else (rotr32 v k, bit v (unat k - 1))))"

section \<open>Saturation\<close>

definition set_q :: "cpu_ctx \<Rightarrow> cpu_ctx" where
  "set_q c = set_CPSR (CPSR c OR 0x08000000) c"

definition saturate :: "int \<Rightarrow> cpu_ctx \<Rightarrow> u32 \<times> cpu_ctx" where
  "saturate r c =
     (if r > 0x7FFFFFFF then (0x7FFFFFFF, set_q c)
      else if r < -0x80000000 then (0x80000000, set_q c)
      else (word_of_int r, c))"

text \<open>Operands are the signed readings of the registers; the results are their words.\<close>

definition sat_add :: "u32 \<Rightarrow> u32 \<Rightarrow> cpu_ctx \<Rightarrow> u32 \<times> cpu_ctx" where
  "sat_add a b c = saturate (sint a + sint b) c"

definition sat_sub :: "u32 \<Rightarrow> u32 \<Rightarrow> cpu_ctx \<Rightarrow> u32 \<times> cpu_ctx" where
  "sat_sub a b c = saturate (sint a - sint b) c"

definition popcount16 :: "u32 \<Rightarrow> u32" where
  "popcount16 v = of_nat (length (filter (\<lambda>i. bit v i) [0..<16]))"

section \<open>The flags mean what the architecture says\<close>

lemma flag_bits [word_fields]:
  "tst x FLAG_N \<longleftrightarrow> bit x 31" "tst x FLAG_Z \<longleftrightarrow> bit x 30" "tst x FLAG_C \<longleftrightarrow> bit x 29"
  "tst x FLAG_V \<longleftrightarrow> bit x 28" "tst x FLAG_Q \<longleftrightarrow> bit x 27"
  using tst_bit [of x 31] tst_bit [of x 30] tst_bit [of x 29] tst_bit [of x 28] tst_bit [of x 27]
  by (simp_all add: FLAG_N_def FLAG_Z_def FLAG_C_def FLAG_V_def FLAG_Q_def)

lemma bit_flags [word_fields]:
  "bit FLAG_N n \<longleftrightarrow> n = 31" "bit FLAG_Z n \<longleftrightarrow> n = 30" "bit FLAG_C n \<longleftrightarrow> n = 29"
  "bit FLAG_V n \<longleftrightarrow> n = 28"  "bit FLAG_Q n \<longleftrightarrow> n = 27"
  using bit_push1 [of 31 n, where 'a = 32] bit_push1 [of 30 n, where 'a = 32]
    bit_push1 [of 29 n, where 'a = 32] bit_push1 [of 28 n, where 'a = 32]
    bit_push1 [of 27 n, where 'a = 32]
  by (simp_all add: FLAG_N_def FLAG_Z_def FLAG_C_def FLAG_V_def FLAG_Q_def)

lemma bit_CPSR_set_nzcv:
  "n < 32 \<Longrightarrow> bit (CPSR (set_nzcv r cf vf c)) n \<longleftrightarrow>
    (if n = 31 then bit r 31 else if n = 30 then r = 0 else if n = 29 then cf
     else if n = 28 then vf else bit (CPSR c) n)"
  by (auto simp: set_nzcv_def z_flag_def bit_simps word_fields)

text \<open>What an addition with carry-in owes: the sum, and each flag by what it means.\<close>

definition adds_to :: "u32 \<Rightarrow> u32 \<Rightarrow> bool \<Rightarrow> cpu_ctx \<Rightarrow> u32 \<times> cpu_ctx \<Rightarrow> bool" where
  "adds_to a b ci c res =
     (let (r, c') = res; k = of_bool ci in
      r = a + b + b2w ci \<and>
      (tst (CPSR c') FLAG_N \<longleftrightarrow> sint r < 0) \<and>
      (tst (CPSR c') FLAG_Z \<longleftrightarrow> r = 0) \<and>
      (tst (CPSR c') FLAG_C \<longleftrightarrow> 2 ^ 32 \<le> uint a + uint b + k) \<and>
      (tst (CPSR c') FLAG_V \<longleftrightarrow> sint a + sint b + k \<notin> {- (2 ^ 31)..<2 ^ 31}) \<and>
      c' = set_CPSR ((CPSR c AND 0x0FFFFFFF) OR (CPSR c' AND 0xF0000000)) c)"

lemma nzcv_mask: "NOT (FLAG_N OR FLAG_Z OR FLAG_C OR FLAG_V) = 0x0FFFFFFF"
  "FLAG_N OR FLAG_Z OR FLAG_C OR FLAG_V = 0xF0000000"
  by (simp_all add: FLAG_N_def FLAG_Z_def FLAG_C_def FLAG_V_def)

lemma set_nzcv_other:
  "set_nzcv r cf vf c = set_CPSR ((CPSR c AND 0x0FFFFFFF) OR (CPSR (set_nzcv r cf vf c) AND 0xF0000000)) c"
proof -
  have "CPSR (set_nzcv r cf vf c) = (CPSR c AND 0x0FFFFFFF) OR (CPSR (set_nzcv r cf vf c) AND 0xF0000000)"
  proof (rule bit_word_eqI)
    fix n assume "n < LENGTH(32)"
    then show "bit (CPSR (set_nzcv r cf vf c)) n = 
       bit ((CPSR c AND 0x0FFFFFFF) OR (CPSR (set_nzcv r cf vf c) AND 0xF0000000)) n"
      unfolding nzcv_mask [symmetric]
      using bit_flags [of n] by (auto simp: bit_CPSR_set_nzcv bit_simps)
  qed
  moreover have "set_nzcv r cf vf c = set_CPSR (CPSR (set_nzcv r cf vf c)) c"
    by (simp add: set_nzcv_def)
  ultimately show ?thesis by metis
qed

lemma add_flags_adds: "adds_to a b ci c (add_flags a b (b2w ci) c)"
proof -
  define k :: int where "k = of_bool ci"
  obtain r c' where rc: "add_flags a b (b2w ci) c = (r, c')" by (cases "add_flags a b (b2w ci) c")
  have k: "(b2w ci :: u32) = 0 \<or> (b2w ci :: u32) = 1" "uint (b2w ci :: u32) = k" "k = 0 \<or> k = 1"
    by (simp_all add: b2w_def k_def)
  note carry = uint_add_carry [OF k(1), of a b, unfolded k(2)]
  have r: "r = a + b + b2w ci" using rc carry(4) by (simp add: add_flags_def Let_def)
  have c': "c' = set_nzcv r (2 ^ 32 \<le> uint a + uint b + k) (bit (NOT (a XOR b) AND (a XOR r)) 31) c"
    using rc carry(2,4) r drop31 [of "NOT (a XOR b) AND (a XOR r)"]
    by (simp add: add_flags_def Let_def)
  have ur: "uint r = (if uint a + uint b + k < 2 ^ 32 then uint a + uint b + k
           else uint a + uint b + k - 2 ^ 32)" using carry(3,4) r by simp
  have "bit (CPSR c') 28 \<longleftrightarrow> sint a + sint b + k \<notin> {- (2 ^ 31)..<2 ^ 31}"
    using add_overflow_int [OF _ _ _ _ k(3) ur] uint_lt2p [of a] uint_lt2p [of b]
    by (simp add: c' bit_CPSR_set_nzcv bit_simps sint_uint32 uint_bit31 [of a] uint_bit31 [of b]
        uint_bit31 [of r])
  then show ?thesis
    using set_nzcv_other [of r _ _ c] 
    by (simp add: adds_to_def rc r [symmetric] k_def [symmetric] flag_bits)
      (simp add: c' bit_CPSR_set_nzcv bit31_sint [of r])
qed

lemma sub_flags_eq: "sub_flags a b cin c = add_flags a (NOT b) cin c"
proof -
  have "NOT (a XOR NOT b) = a XOR b" by (rule bit_word_eqI) (auto simp: bit_simps)
  then show ?thesis by (simp add: sub_flags_def add_flags_def Let_def)
qed

text \<open>ADD and SUB with carry, as every arithmetic instruction of both instruction sets
  computes them: the result is the 32-bit sum or difference, C is the unsigned carry out
  (for a subtraction: no borrow), V says that the signed result does not fit in 32 bits,
  N and Z describe the result, and no other CPSR bit and no other register changes.\<close>

theorem arith_flags_correct:
  "adds_to a b ci c (add_flags a b (b2w ci) c) \<and>
   (let (r, c') = sub_flags a b (b2w ci) c; k = of_bool (\<not> ci) in
      r = a - b - b2w (\<not> ci) \<and>
      (tst (CPSR c') FLAG_N \<longleftrightarrow> sint r < 0) \<and>
      (tst (CPSR c') FLAG_Z \<longleftrightarrow> r = 0) \<and>
      (tst (CPSR c') FLAG_C \<longleftrightarrow> uint b + k \<le> uint a) \<and>
      (tst (CPSR c') FLAG_V \<longleftrightarrow> sint a - sint b - k \<notin> {- (2 ^ 31)..<2 ^ 31}) \<and>
      c' = set_CPSR ((CPSR c AND 0x0FFFFFFF) OR (CPSR c' AND 0xF0000000)) c)"
proof -
  have r: "a + NOT b + b2w ci = a - b - b2w (\<not> ci)"
    by (cases ci) (simp_all add: not_eq_complement)
  have k: "of_bool ci = 1 - (of_bool (\<not> ci) :: int)" by simp
  show ?thesis
    using add_flags_adds [of a b ci c] add_flags_adds [of a "NOT b" ci c]
    unfolding sub_flags_eq adds_to_def r uint_not32 sint_not32 k by (auto simp: Let_def algebra_simps)
qed
section \<open>The shifter against its specification\<close>

text \<open>A shift by \<open>n\<close>: the value and the last bit shifted out.\<close>

definition bshift :: "u32 \<Rightarrow> nat \<Rightarrow> u32 \<Rightarrow> bool \<Rightarrow> u32 \<times> bool" where
  "bshift type n v c =
     (if type = 0 then (push_bit n v, if n = 0 then c else n \<le> 32 \<and> bit v (32 - n))
      else if type = 1 then (drop_bit n v, if n = 0 then c else bit v (n - 1))
      else if type = 2 then (word_of_int (sint v div 2 ^ n), if n = 0 then c else bit v (min (n - 1) 31))
      else (word_rotr n v, if n = 0 then c else bit v ((n - 1) mod 32)))"

lemma rotr32_word_rotr: "rotr32 v n = word_rotr (unat n mod 32) v"
proof -
  define k where "k = unat n mod 32"
  have k: "k < 32" by (simp add: k_def)
  have [simp]: "unat (n AND 31) = k" by (simp add: k_def unat_and_31)
  show ?thesis unfolding k_def [symmetric]
  proof (rule bit_word_eqI)
    fix i assume i: "i < LENGTH(32)"
    have "(i + k) mod 32 = (if i + k < 32 then i + k else i - (32 - k))"
      using i k by (auto simp: mod_if)
    with i k show "bit (rotr32 v n) i = bit (word_rotr k v) i"
      using bit_imp_le_length [of v "i + k"]
      by (auto simp: rotr32_def Let_def bit_word_rotr_iff bit_simps
          add.commute split: if_splits)
  qed
qed

lemma asr_div: "asr n v = word_of_int (sint v div 2 ^ n)"
proof (rule bit_word_eqI)
  fix i assume i: "i < LENGTH(32)"
  then show "bit (asr n v) i = bit (word_of_int (sint v div 2 ^ n) :: u32) i"
    by (cases "n + i = 31")
      (auto simp: asr_def bit_simps bit_signed_drop_bit_iff drop_bit_eq_div [symmetric] min_def)
qed

lemma asr_big: "32 \<le> n \<Longrightarrow> asr n v = asr 31 v"
proof (rule bit_word_eqI)
  fix i assume "32 \<le> n" "i < LENGTH(32)"
  then show "bit (asr n v) i = bit (asr 31 v) i"
    by (cases i) (auto simp: asr_def bit_signed_drop_bit_iff)
qed

lemma asr_0: "asr 0 v = v"
  by (simp add: asr_div)

lemma shift_reg_bshift: "shift_reg type amt v c = bshift type (unat amt mod 256) v c"
proof -
  define a where "a = amt AND 0xFF"
  define n where "n = unat a"
  have n: "n \<le> 255" "unat amt mod 256 = n"
    by (simp_all add: n_def a_def unat_and_255)
  have eqs: "a = 0 \<longleftrightarrow> n = 0" "a < 32 \<longleftrightarrow> n < 32" "a = 32 \<longleftrightarrow> n = 32" 
    unfolding n_def by unat_arith+
  have a31: "unat (a AND 31) = n mod 32" "a AND 31 = 0 \<longleftrightarrow> n mod 32 = 0"
    using unat_and_31 [of a] by (simp_all add: n_def) (simp add: unat_eq_0 [symmetric])
  have rot: "rotr32 v (a AND 31) = word_rotr n v" "n mod 32 = 0 \<Longrightarrow> word_rotr n v = v"
    using word_rotr_mod [of n v] by (simp_all add: rotr32_word_rotr a31 word_rotr_0)
  note m = pred_mod32 [of n]
  note defs = shift_reg_def bshift_def Let_def a_def [symmetric] n_def [symmetric] n(2) eqs
  consider "type = 0" | "type = 1" | "type = 2" | "type \<noteq> 0 \<and> type \<noteq> 1 \<and> type \<noteq> 2" by blast
  then show ?thesis
  proof cases
    case 1 then show ?thesis by (cases "n < 32") (simp_all add: defs push_bit_big)
  next
    case 2 then show ?thesis using bit_big [of "n - 1" v] by (cases "n < 32") (auto simp: defs drop_bit_big)
  next
    case 3
    have "n < 32 \<or> n = 32 \<or> 32 < n" by auto
    then show ?thesis
      using 3 asr_big [of n v] asr_0 [of v] asr_div [of 32 v] by (elim disjE) (auto simp: defs asr_div [symmetric] min_def)
  next
    case 4
    then show ?thesis
      by (cases "n mod 32 = 0") (use rot m a31 in \<open>simp_all add: defs word_rotr_0\<close>)
  qed
qed

text \<open>C2: The barrel shifter: for a shift by register every amount from 0 to 255, and for a
  shift by immediate every encoding (LSR and ASR by 0 mean 32, ROR by 0 is RRX), gives the
  logical or arithmetic shift (floor division by the power of two) or the rotation, and
  as carry the last bit shifted out, or the old carry when nothing moved.\<close>

theorem barrel_shifter_correct:
  "shift_reg type amt v c = bshift type (unat amt mod 256) v c \<and>
   shift_imm type (amt AND 31) v c =
     (let n = unat amt mod 32 in
      if n = 0 \<and> (type = 1 \<or> type = 2) then bshift type 32 v c
      else if n = 0 \<and> type \<noteq> 0 then (drop_bit 1 v OR (if c then push_bit 31 1 else 0), bit v 0)
      else bshift type n v c)"
proof -
  define a where "a = amt AND 31"
  define n where "n = unat a"
  have "a = 0 \<longleftrightarrow> n = 0" by (simp add: n_def unat_eq_0)
  moreover have "n < 32" "unat amt mod 32 = n" by (simp_all add: n_def a_def unat_and_31)
  ultimately have n: "n < 32" "unat amt mod 32 = n" "a = 0 \<longleftrightarrow> n = 0" by simp_all
  have rot: "rotr32 v a = word_rotr n v"
    using n by (simp add: rotr32_word_rotr n_def [symmetric])
  note defs = shift_imm_def bshift_def Let_def a_def [symmetric] n_def [symmetric] n(2,3)
  have "shift_imm type a v c =
     (if n = 0 \<and> (type = 1 \<or> type = 2) then bshift type 32 v c
      else if n = 0 \<and> type \<noteq> 0 then (drop_bit 1 v OR (if c then push_bit 31 1 else 0), bit v 0)
      else bshift type n v c)"
    using n(1) drop_bit_big [of 32 v] asr_big [of 32 v] asr_div [of 32 v]
    by (cases "n = 0") (auto simp: defs asr_div [symmetric] rot min_def)
  then show ?thesis by (simp add: shift_reg_bshift a_def [symmetric] n(2) Let_def)
qed

end
