(* ===== verification/ArmDecode.thy ===== *)
theory ArmDecode imports Prelude begin

text \<open>
  Instruction classification (\<^verbatim>\<open>src/core/cpu/arm_decode.h\<close>): the enumerations
  \<^verbatim>\<open>AOp\<close> and \<^verbatim>\<open>TOp\<close>, the two classifiers whose values fill the lookup tables
  \<^verbatim>\<open>ARM_TABLE\<close> and \<^verbatim>\<open>THUMB_TABLE\<close>, the decoders that read the tables, and the
  condition codes.  A table entry is the classifier's value at its index, so a table
  lookup is the classifier applied to the index.
\<close>

datatype aop =
    AOp_Undefined
  | AOp_DpImm | AOp_DpImmShift | AOp_DpRegShift
  | AOp_Mrs | AOp_MsrReg | AOp_MsrImm
  | AOp_B | AOp_Bl | AOp_BlxImm | AOp_Bx | AOp_BlxReg
  | AOp_Mul | AOp_Mla | AOp_Umull | AOp_Umlal | AOp_Smull | AOp_Smlal
  | AOp_Clz | AOp_QAdd | AOp_QSub | AOp_QDAdd | AOp_QDSub
  | AOp_SmlaXY | AOp_SmlawY | AOp_SmulwY | AOp_SmlalXY | AOp_SmulXY
  | AOp_LdrStrImm | AOp_LdrStrReg
  | AOp_LdrStrHImm | AOp_LdrStrHReg
  | AOp_Swp | AOp_Swpb
  | AOp_Ldm | AOp_Stm
  | AOp_Swi | AOp_Bkpt
  | AOp_Cdp | AOp_Mcr | AOp_Mrc | AOp_Ldc | AOp_Stc
  | AOp_Pld

datatype top =
    TOp_Undefined
  | TOp_ShiftImm
  | TOp_AddSubReg
  | TOp_AddSubImm3
  | TOp_MovCmpAddSubImm8
  | TOp_Alu
  | TOp_HiRegOp
  | TOp_BxBlx
  | TOp_LdrPcRel
  | TOp_LdrStrReg
  | TOp_LdrStrImm5
  | TOp_LdrStrHImm5
  | TOp_LdrStrSpRel
  | TOp_AddPcSp
  | TOp_AdjustSp
  | TOp_PushPop
  | TOp_StmLdm
  | TOp_BCond
  | TOp_Swi
  | TOp_B
  | TOp_BlxSuffix
  | TOp_BlPrefix
  | TOp_BlSuffix
  | TOp_Bkpt

definition is_pld :: "u32 \<Rightarrow> bool" where
  "is_pld instr \<longleftrightarrow> instr AND 0xFD700000 = 0xF5500000"

definition arm_index :: "u32 \<Rightarrow> u32" where
  "arm_index instr = (drop_bit 16 instr AND 0xFF0) OR (drop_bit 4 instr AND 0xF)"

definition thumb_index :: "u16 \<Rightarrow> u32" where
  "thumb_index instr = ucast (drop_bit 6 instr)"

text \<open>The multiply family and the swaps: bits 7 to 4 are 1001.\<close>

definition classify_mul :: "u32 \<Rightarrow> aop" where
  "classify_mul hi =
     (if \<not> tst hi 0x10 then
        (let op = fld hi 1 7 in
         if op = 0 then AOp_Mul
         else if op = 1 then AOp_Mla
         else if op = 4 then AOp_Umull
         else if op = 5 then AOp_Umlal
         else if op = 6 then AOp_Smull
         else if op = 7 then AOp_Smlal
         else AOp_Undefined)
      else if hi AND 0x0B = 0 then (if tst hi 4 then AOp_Swpb else AOp_Swp)
      else AOp_Undefined)"

text \<open>The miscellaneous space: bits 24 and 23 are 10 and S is clear.\<close>

definition classify_misc :: "u32 \<Rightarrow> u32 \<Rightarrow> aop" where
  "classify_misc hi lo =
     (let op = fld hi 1 3 in
      if lo = 0 then (if tst op 1 then AOp_MsrReg else AOp_Mrs)
      else if lo = 1 then
        (if op = 1 then AOp_Bx else if op = 3 then AOp_Clz else AOp_Undefined)
      else if lo = 3 then (if op = 1 then AOp_BlxReg else AOp_Undefined)
      else if lo = 5 then
        (if op = 0 then AOp_QAdd else if op = 1 then AOp_QSub
         else if op = 2 then AOp_QDAdd else AOp_QDSub)
      else if lo = 7 then (if op = 1 then AOp_Bkpt else AOp_Undefined)
      else if lo = 8 \<or> lo = 0xA \<or> lo = 0xC \<or> lo = 0xE then
        (if op = 0 then AOp_SmlaXY
         else if op = 1 then (if tst lo 2 then AOp_SmulwY else AOp_SmlawY)
         else if op = 2 then AOp_SmlalXY
         else AOp_SmulXY)
      else AOp_Undefined)"

definition classify_arm :: "u32 \<Rightarrow> aop" where
  "classify_arm idx =
     (let hi = drop_bit 4 idx; lo = idx AND 0xF; b27_25 = drop_bit 5 hi;
          bit20 = tst hi 1 in
      if b27_25 = 0 then
        (if lo AND 9 = 9 then
           (if lo = 9 then classify_mul hi
            else if tst hi 4 then AOp_LdrStrHImm else AOp_LdrStrHReg)
         else if fld hi 3 3 = 2 \<and> \<not> bit20 then classify_misc hi lo
         else if tst lo 1 then AOp_DpRegShift else AOp_DpImmShift)
      else if b27_25 = 1 then
        (if fld hi 3 3 = 2 \<and> \<not> bit20
         then (if tst (drop_bit 1 hi) 1 then AOp_MsrImm else AOp_Undefined)
         else AOp_DpImm)
      else if b27_25 = 2 then AOp_LdrStrImm
      else if b27_25 = 3 then (if tst lo 1 then AOp_Undefined else AOp_LdrStrReg)
      else if b27_25 = 4 then (if bit20 then AOp_Ldm else AOp_Stm)
      else if b27_25 = 5 then (if tst hi 0x10 then AOp_Bl else AOp_B)
      else if b27_25 = 6 then (if bit20 then AOp_Ldc else AOp_Stc)
      else if tst hi 0x10 then AOp_Swi
      else if \<not> tst lo 1 then AOp_Cdp
      else if bit20 then AOp_Mrc else AOp_Mcr)"

definition classify_thumb :: "u32 \<Rightarrow> top" where
  "classify_thumb idx =
     (let i = push_bit 6 idx; top3 = drop_bit 13 i in
      if top3 = 0 then
        (if fld i 11 3 = 3
         then (if tst i 0x400 then TOp_AddSubImm3 else TOp_AddSubReg)
         else TOp_ShiftImm)
      else if top3 = 1 then TOp_MovCmpAddSubImm8
      else if top3 = 2 then
        (let k = fld i 10 7 in
         if k = 0 then TOp_Alu
         else if k = 1 then (if fld i 8 3 = 3 then TOp_BxBlx else TOp_HiRegOp)
         else if k = 2 \<or> k = 3 then TOp_LdrPcRel
         else TOp_LdrStrReg)
      else if top3 = 3 then TOp_LdrStrImm5
      else if top3 = 4 then (if tst i 0x1000 then TOp_LdrStrSpRel else TOp_LdrStrHImm5)
      else if top3 = 5 then
        (if \<not> tst i 0x1000 then TOp_AddPcSp
         else
           (let k = fld i 8 0xF in
            if k = 0 then TOp_AdjustSp
            else if k = 4 \<or> k = 5 \<or> k = 0xC \<or> k = 0xD then TOp_PushPop
            else if k = 0xE then TOp_Bkpt
            else TOp_Undefined))
      else if top3 = 6 then
        (if \<not> tst i 0x1000 then TOp_StmLdm
         else
           (let k = fld i 8 0xF in
            if k = 0xF then TOp_Swi
            else if k = 0xE then TOp_Undefined
            else TOp_BCond))
      else
        (let k = fld i 11 3 in
         if k = 0 then TOp_B
         else if k = 1 then TOp_BlxSuffix
         else if k = 2 then TOp_BlPrefix
         else TOp_BlSuffix))"

definition decode_arm :: "u32 \<Rightarrow> aop" where
  "decode_arm instr = classify_arm (arm_index instr)"

definition decode_thumb :: "u16 \<Rightarrow> top" where
  "decode_thumb instr = classify_thumb (thumb_index instr)"

text \<open>The condition field of an instruction against the flags in the CPSR; NV is the
  caller's business.\<close>

definition check_condition :: "u32 \<Rightarrow> u32 \<Rightarrow> bool" where
  "check_condition cond cpsr =
     (let n = tst cpsr 0x80000000; z = tst cpsr 0x40000000;
          c = tst cpsr 0x20000000; v = tst cpsr 0x10000000 in
      if cond = 0 then z
      else if cond = 1 then \<not> z
      else if cond = 2 then c
      else if cond = 3 then \<not> c
      else if cond = 4 then n
      else if cond = 5 then \<not> n
      else if cond = 6 then v
      else if cond = 7 then \<not> v
      else if cond = 8 then c \<and> \<not> z
      else if cond = 9 then \<not> c \<or> z
      else if cond = 0xA then n = v
      else if cond = 0xB then n \<noteq> v
      else if cond = 0xC then \<not> z \<and> n = v
      else if cond = 0xD then z \<or> n \<noteq> v
      else True)"

end
