(* ===== verification/Timing.thy ===== *)
theory Timing imports Machine begin

text \<open>
  The bus timing tables (\<^verbatim>\<open>src/core/mem/timing.cpp\<close>).  \<open>set_region9\<close> and
  \<open>set_region7\<close> write a region's wait states into the bus tables; \<open>update_cpu9\<close>
  derives the ARM9's per-4 KB cost rows from the bus table, the protection unit's
  cacheability map and the TCM windows.  The walk of \<^verbatim>\<open>update_cpu9\<close> skips rows that
  already hold their value and keeps retime flags for the recompiler; the model writes
  the composed row of every page of the range, which is what the rows are after the walk.
\<close>

datatype region =
    REGION_NONE | REGION_BIOS | REGION_MAIN_RAM | REGION_WRAM | REGION_IO | REGION_PALETTE
  | REGION_VRAM | REGION_OAM | REGION_GBA_ROM | REGION_GBA_RAM | REGION_WIFI0 | REGION_WIFI1

definition CACHE_DATA :: u8 where "CACHE_DATA = 3"

definition region_row :: "int \<Rightarrow> int \<Rightarrow> int \<Rightarrow> int \<Rightarrow> u32 \<Rightarrow> u8" where
  "region_row cpu_n bus_width nonseq seq k =
     (let n16 = nonseq; s16 = seq;
          n32 = (if bus_width = 16 then n16 + s16 else n16);
          s32 = (if bus_width = 16 then s16 + s16 else s16)
      in word_of_int
           (if k = 0 then n16 + cpu_n else if k = 1 then s16
            else if k = 2 then n32 + cpu_n else if k = 3 then s32
            else if k = 4 then n16 else if k = 5 then s16
            else if k = 6 then n32 else s32))"

definition set_region9 :: "u32 \<Rightarrow> u32 \<Rightarrow> region \<Rightarrow> int \<Rightarrow> int \<Rightarrow> int \<Rightarrow> 'io mach \<Rightarrow> 'io mach" where
  "set_region9 start stop r bus_width nonseq seq m =
     (let cpu_n = (if r = REGION_MAIN_RAM then 0 else 3);
          first = drop_bit 14 start;
          last = (if stop = 0xFFFFFFFF then 0x40000 else drop_bit 14 stop)
      in m\<lparr> bus9 := (\<lambda>i. if first \<le> i \<and> i < last
                        then region_row cpu_n bus_width nonseq seq else bus9 m i) \<rparr>)"

definition set_region7 :: "u32 \<Rightarrow> u32 \<Rightarrow> region \<Rightarrow> int \<Rightarrow> int \<Rightarrow> int \<Rightarrow> 'io mach \<Rightarrow> 'io mach" where
  "set_region7 start stop r bus_width nonseq seq m =
     (let first = drop_bit 15 start;
          last = (if stop = 0xFFFFFFFF then 0x20000 else drop_bit 15 stop)
      in m\<lparr> timing7 := (\<lambda>i. if first \<le> i \<and> i < last
                           then region_row 0 bus_width nonseq seq else timing7 m i) \<rparr>)"

text \<open>One row of the ARM9 table: \<^verbatim>\<open>compose\<close> in \<^verbatim>\<open>update_cpu9\<close>.\<close>

definition compose_row :: "bool \<Rightarrow> nat \<Rightarrow> (u32 \<Rightarrow> u8) \<Rightarrow> u8 \<Rightarrow> bool \<Rightarrow> bool \<Rightarrow> u32 \<Rightarrow> u8" where
  "compose_row store_bus sh b pu tcm_i tcm_d k =
     (let c0 = (if tcm_i then 1 else if tst pu 0x40 then 0xFF else push_bit sh (b 2));
          ld = (\<lambda>k. if tcm_i \<or> tcm_d then 1
                    else if tst pu 0x10 then (if k = 3 then 1 else CACHE_DATA)
                    else push_bit sh (b (if k = 1 then 0 else k)));
          st = (\<lambda>k. if \<not> (tcm_i \<or> tcm_d) \<and> tst pu 0x10 \<and> store_bus
                    then push_bit sh (b (if k = 1 then 0 else k)) else ld k)
      in if k = 0 \<or> k = 4 then c0
         else if k = 1 \<or> k = 2 \<or> k = 3 then ld k
         else st (k - 4))"

definition in_itcm_page :: "cpu_ctx \<Rightarrow> u32 \<Rightarrow> bool" where
  "in_itcm_page c p \<longleftrightarrow> p < drop_bit 12 (itcm_size c)"

definition in_dtcm_page :: "cpu_ctx \<Rightarrow> u32 \<Rightarrow> bool" where
  "in_dtcm_page c p \<longleftrightarrow>
     dtcm_mask c \<noteq> 0 \<and> unat (drop_bit 12 (dtcm_base c)) \<le> unat p \<and>
     unat p < (unat (dtcm_base c) + (unat (NOT (dtcm_mask c)) + 1)) div 4096"

definition cpu9_row :: "'io env \<Rightarrow> 'io mach \<Rightarrow> u32 \<Rightarrow> u32 \<Rightarrow> u8" where
  "cpu9_row env m p =
     compose_row (\<not> dsi env) (clock9_shift m) (bus9 m (drop_bit 2 p)) (pu_map m p)
       (in_itcm_page (cpu m) p) (in_dtcm_page (cpu m) p)"

definition update_cpu9 :: "'io env \<Rightarrow> u32 \<Rightarrow> u32 \<Rightarrow> 'io mach \<Rightarrow> 'io mach" where
  "update_cpu9 env start stop m =
     (let first = drop_bit 12 start;
          last = (if stop = 0xFFFFFFFF then 0x100000 else drop_bit 12 stop)
      in m\<lparr> timing9 := (\<lambda>p. if first \<le> p \<and> p < last then cpu9_row env m p else timing9 m p) \<rparr>)"

lemma update_cpu9_frame [simp]:
  "cpu (update_cpu9 env a b m) = cpu m" "pu_map (update_cpu9 env a b m) = pu_map m"
  "bus9 (update_cpu9 env a b m) = bus9 m" "memo (update_cpu9 env a b m) = memo m"
  "clock9_shift (update_cpu9 env a b m) = clock9_shift m"
  "host (update_cpu9 env a b m) = host m" "io (update_cpu9 env a b m) = io m"
  "timing7 (update_cpu9 env a b m) = timing7 m"
  "cpu9_row env (update_cpu9 env a b m) = cpu9_row env m"
  by (simp_all add: update_cpu9_def Let_def cpu9_row_def fun_eq_iff)

end
