(* ===== verification/Cp15.thy ===== *)
theory Cp15 imports CpuCore Timing begin

text \<open>
  The ARM9's system control coprocessor (\<^verbatim>\<open>src/core/cpu/cp15.cpp\<close>): register reads
  and writes, and the cacheability map derived from the eight protection regions, with
  both of its update paths: the rescan of changed regions and the full rebuild.  The
  cost-table notification only wakes the recompiler and is left out.
\<close>

section \<open>Protection regions\<close>

record pu_rgn =
  rgn_on :: bool
  rgn_start :: u32
  rgn_size :: u32
  rgn_m :: u8

definition rgn_off :: pu_rgn where
  "rgn_off = \<lparr> rgn_on = False, rgn_start = 0, rgn_size = 0, rgn_m = 0 \<rparr>"

definition decode_region :: "u32 \<Rightarrow> u32 \<Rightarrow> u32 \<Rightarrow> u32 \<Rightarrow> nat \<Rightarrow> pu_rgn" where
  "decode_region ctl dc cc rgn n =
     (if \<not> tst rgn 1 then rgn_off
      else
        (let size_bits = uint (fld rgn 1 0x1F) - 11;
             size = (if size_bits \<le> 0 then 1 else if size_bits \<ge> 20 then 0x100000
                     else push_bit (nat size_bits) 1);
             start = (drop_bit 12 rgn div size) * size;
             m1 = (if tst ctl 0x4 \<and> bit dc n then 0x10 else 0);
             m2 = (if tst ctl 0x1000 \<and> bit cc n then m1 OR 0x40 else m1)
         in \<lparr> rgn_on = True, rgn_start = start, rgn_size = size, rgn_m = m2 \<rparr>))"

definition same_region :: "pu_rgn \<Rightarrow> pu_rgn \<Rightarrow> bool" where
  "same_region a b \<longleftrightarrow>
     rgn_on a = rgn_on b \<and>
     (\<not> rgn_on a \<or> (rgn_start a = rgn_start b \<and> rgn_size a = rgn_size b \<and> rgn_m a = rgn_m b))"

definition covers :: "pu_rgn \<Rightarrow> u32 \<Rightarrow> bool" where
  "covers r page \<longleftrightarrow> rgn_on r \<and> page - rgn_start r < rgn_size r"

text \<open>\<^verbatim>\<open>value(page)\<close>: the highest-numbered enabled region wins.\<close>

fun region_value :: "pu_rgn list \<Rightarrow> u32 \<Rightarrow> u8" where
  "region_value [] page = 0"
| "region_value (r # rs) page = (if covers r page then rgn_m r else region_value rs page)"

definition cur_regions :: "cpu_ctx \<Rightarrow> pu_rgn list" where
  "cur_regions c =
     map (\<lambda>n. decode_region (cp15_control c) (pu_data_cacheable c) (pu_code_cacheable c)
                (pu_region c (of_nat n)) n) (rev [0..<8])"

definition memo_regions :: "pu_memo \<Rightarrow> pu_rgn list" where
  "memo_regions mm =
     map (\<lambda>n. decode_region (memo_ctl mm) (memo_dc mm) (memo_cc mm)
                (memo_region mm (of_nat n)) n) (rev [0..<8])"

section \<open>Rescanning changed regions\<close>

text \<open>The state of the scan: machine, run start, in a run, anything changed.\<close>

type_synonym 'io scan = "'io mach \<times> u32 \<times> bool \<times> bool"

definition page_end_addr :: "nat \<Rightarrow> u32" where
  "page_end_addr i = (if i = 0x100000 then 0xFFFFFFFF else push_bit 12 (of_nat i))"

definition rescan_step :: "'io env \<Rightarrow> (u32 \<Rightarrow> u8) \<Rightarrow> nat \<Rightarrow> nat \<Rightarrow> 'io scan \<Rightarrow> 'io scan" where
  "rescan_step env val stop i s =
     (let (m, run_start, in_run, changed) = s; p = of_nat i;
          differs = (i < stop \<and> pu_map m p \<noteq> val p) in
      if differs then
        (m\<lparr> pu_map := (pu_map m)(p := val p) \<rparr>, if in_run then run_start else p, True, changed)
      else if in_run then
        (update_cpu9 env (push_bit 12 run_start) (page_end_addr i) m, run_start, False, True)
      else s)"

definition rescan :: "'io env \<Rightarrow> (u32 \<Rightarrow> u8) \<Rightarrow> pu_rgn \<Rightarrow> 'io mach \<times> bool \<Rightarrow> 'io mach \<times> bool" where
  "rescan env val r mc =
     (if \<not> rgn_on r then mc
      else
        (let (m, changed) = mc;
             start = unat (rgn_start r);
             stop = min (unat (rgn_start r + rgn_size r)) 0x100000;
             (m', _, _, changed') =
               fold (rescan_step env val stop) [start..<stop + 1] (m, 0, False, changed)
         in (m', changed')))"

definition rescan_changed :: "'io env \<Rightarrow> (u32 \<Rightarrow> u8) \<Rightarrow> pu_rgn \<times> pu_rgn \<Rightarrow>
    'io mach \<times> bool \<Rightarrow> 'io mach \<times> bool" where
  "rescan_changed env val cp mc =
     (let (cur, prev) = cp in
      if same_region cur prev then mc
      else rescan env val cur (rescan env val prev mc))"

section \<open>The full rebuild\<close>

definition paint :: "pu_rgn \<Rightarrow> (u32 \<Rightarrow> u8) \<Rightarrow> (u32 \<Rightarrow> u8)" where
  "paint r f =
     (\<lambda>p. if rgn_on r \<and> rgn_start r \<le> p \<and> p < rgn_start r + rgn_size r \<and> p < 0x100000
          then rgn_m r else f p)"

definition fresh_map :: "cpu_ctx \<Rightarrow> u32 \<Rightarrow> u8" where
  "fresh_map c =
     (let ctl = cp15_control c in
      if \<not> tst ctl 1 then
        (let m1 = (if tst ctl 0x4 then 0x10 else 0);
             m2 = (if tst ctl 0x1000 then m1 OR 0x40 else m1) in (\<lambda>_. m2))
      else fold paint (rev (cur_regions c)) (\<lambda>_. 0))"

definition chunk_differs :: "(u32 \<Rightarrow> u8) \<Rightarrow> (u32 \<Rightarrow> u8) \<Rightarrow> nat \<Rightarrow> bool" where
  "chunk_differs mp next i \<longleftrightarrow> \<not> list_all (\<lambda>k. mp (of_nat k) = next (of_nat k)) [i..<i + 256]"

definition rebuild_step :: "'io env \<Rightarrow> (u32 \<Rightarrow> u8) \<Rightarrow> nat \<Rightarrow> 'io scan \<Rightarrow> 'io scan" where
  "rebuild_step env next i s =
     (let (m, run_start, in_run, changed) = s;
          differs = (i < 0x100000 \<and> chunk_differs (pu_map m) next i) in
      if differs then
        (m\<lparr> pu_map := (\<lambda>p. if i \<le> unat p \<and> unat p < i + 256 then next p else pu_map m p) \<rparr>,
         if in_run then run_start else of_nat i, True, changed)
      else if in_run then
        (update_cpu9 env (push_bit 12 run_start) (page_end_addr i) m, run_start, False, True)
      else s)"

definition rebuild :: "'io env \<Rightarrow> (u32 \<Rightarrow> u8) \<Rightarrow> 'io mach \<Rightarrow> 'io mach \<times> bool" where
  "rebuild env next m =
     (let (m', _, _, changed) =
        fold (rebuild_step env next) (map (\<lambda>k. k * 256) [0..<4097]) (m, 0, False, False)
      in (m', changed))"

definition cp15_update_pu_map :: "'io env \<Rightarrow> 'io mach \<Rightarrow> 'io mach" where
  "cp15_update_pu_map env m =
     (let c = cpu m; ctl = cp15_control c;
          (m1, changed) =
            (if tst ctl 1 \<and> memo_valid (memo m) \<and> tst (memo_ctl (memo m)) 1
             then fold (rescan_changed env (region_value (cur_regions c)))
                    (rev (zip (cur_regions c) (memo_regions (memo m)))) (m, False)
             else rebuild env (fresh_map c) m)
      in m1\<lparr> memo := \<lparr> memo_valid = True, memo_ctl = ctl, memo_dc = pu_data_cacheable c,
                        memo_cc = pu_code_cacheable c, memo_region = pu_region c \<rparr> \<rparr>)"

section \<open>Register access\<close>

text \<open>The register number \<^verbatim>\<open>(crn << 8) | (crm << 4) | opc2\<close>; the first opcode is not
  looked at.\<close>

definition cp15_reg :: "u32 \<Rightarrow> u32 \<Rightarrow> u32 \<Rightarrow> u32" where
  "cp15_reg crn crm opc2 = push_bit 8 crn OR push_bit 4 crm OR opc2"

definition region_regs :: "u32 list" where
  "region_regs = [0x600, 0x610, 0x620, 0x630, 0x640, 0x650, 0x660, 0x670,
                  0x601, 0x611, 0x621, 0x631, 0x641, 0x651, 0x661, 0x671]"

definition cp15_read :: "cpu_ctx \<Rightarrow> u32 \<Rightarrow> u32 \<Rightarrow> u32 \<Rightarrow> u32" where
  "cp15_read c crn crm opc2 =
     (let r = cp15_reg crn crm opc2 in
      if r = 0x000 then 0x41059461
      else if r = 0x001 then 0x0F0D2112
      else if r = 0x002 then 0x00140180
      else if r = 0x100 then cp15_control c
      else if r = 0x200 then pu_data_cacheable c
      else if r = 0x201 then pu_code_cacheable c
      else if r = 0x300 then pu_data_bufferable c
      else if r = 0x502 then pu_data_perm c
      else if r = 0x503 then pu_code_perm c
      else if r \<in> set region_regs then pu_region c crm
      else if r = 0x910 then cp15_dtcm c
      else if r = 0x911 then cp15_itcm c
      else 0)"

definition write_control :: "'io env \<Rightarrow> u32 \<Rightarrow> 'io mach \<Rightarrow> 'io mach" where
  "write_control env value m =
     (let mask = 0x000FF085; old = cp15_control (cpu m);
          new = (old AND NOT mask) OR (value AND mask) OR 0x78;
          m1 = upd_cpu (\<lambda>c. c\<lparr> cp15_control := new \<rparr>) m;
          m2 = (if tst (old XOR new) 0x000D0000 then bus_update_tcm env m1 else m1)
      in if tst (old XOR cp15_control (cpu m2)) 0x00001005 then cp15_update_pu_map env m2 else m2)"

definition cp15_write :: "'io env \<Rightarrow> u32 \<Rightarrow> u32 \<Rightarrow> u32 \<Rightarrow> u32 \<Rightarrow> 'io mach \<Rightarrow> 'io mach" where
  "cp15_write env crn crm opc2 value m =
     (let r = cp15_reg crn crm opc2; c0 = cpu m in
      if r = 0x100 then write_control env value m
      else if r = 0x200 then
        (if pu_data_cacheable c0 \<noteq> value
         then cp15_update_pu_map env (upd_cpu (\<lambda>c. c\<lparr> pu_data_cacheable := value \<rparr>) m) else m)
      else if r = 0x201 then
        (if pu_code_cacheable c0 \<noteq> value
         then cp15_update_pu_map env (upd_cpu (\<lambda>c. c\<lparr> pu_code_cacheable := value \<rparr>) m) else m)
      else if r = 0x300 then upd_cpu (\<lambda>c. c\<lparr> pu_data_bufferable := value \<rparr>) m
      else if r = 0x502 then upd_cpu (\<lambda>c. c\<lparr> pu_data_perm := value \<rparr>) m
      else if r = 0x503 then upd_cpu (\<lambda>c. c\<lparr> pu_code_perm := value \<rparr>) m
      else if r \<in> set region_regs then
        (if pu_region c0 crm \<noteq> value
         then cp15_update_pu_map env
                (upd_cpu (\<lambda>c. c\<lparr> pu_region := (pu_region c)(crm := value) \<rparr>) m)
         else m)
      else if r = 0x910 then
        (let v = value AND 0xFFFFF03E in
         if cp15_dtcm c0 \<noteq> v
         then bus_update_tcm env (upd_cpu (\<lambda>c. c\<lparr> cp15_dtcm := v \<rparr>) m) else m)
      else if r = 0x911 then
        (let v = value AND 0x0000003E in
         if cp15_itcm c0 \<noteq> v
         then bus_update_tcm env (upd_cpu (\<lambda>c. c\<lparr> cp15_itcm := v \<rparr>) m) else m)
      else if r = 0x704 \<or> r = 0x782 then upd_cpu (\<lambda>c. c\<lparr> halted := True \<rparr>) m
      else m)"

end
