(* ===== verification/InterpArm.thy ===== *)
theory InterpArm imports InterpCommon ArmDecode Cp15 begin

text \<open>
  The ARM-state executor (\<^verbatim>\<open>src/core/cpu/interp/interp_arm.cpp\<close>), ARMv5TE: one
  definition per helper of the file, one per group of cases of \<^verbatim>\<open>exec_arm\<close>, and the
  dispatcher.  \<^verbatim>\<open>r15\<close> holds the instruction's address plus 8 on entry, and each handler
  charges its cycles where the C++ does.
\<close>

section \<open>Data processing\<close>

text \<open>The flag-setting half: result, whether it is written back, and the flags.\<close>

definition dp_flags :: "u32 \<Rightarrow> u32 \<Rightarrow> u32 \<Rightarrow> bool \<Rightarrow> cpu_ctx \<Rightarrow> u32 \<times> bool \<times> cpu_ctx" where
  "dp_flags opcode rn op2 sc c =
     (let cin = b2w (carry c);
          logic = (\<lambda>r w. (r, w, set_nzc r sc c));
          arith = (\<lambda>(r, c') w. (r, w, c')) in
      if opcode = 0x0 then logic (rn AND op2) True
      else if opcode = 0x1 then logic (rn XOR op2) True
      else if opcode = 0x2 then arith (sub_flags rn op2 1 c) True
      else if opcode = 0x3 then arith (sub_flags op2 rn 1 c) True
      else if opcode = 0x4 then arith (add_flags rn op2 0 c) True
      else if opcode = 0x5 then arith (add_flags rn op2 cin c) True
      else if opcode = 0x6 then arith (sub_flags rn op2 cin c) True
      else if opcode = 0x7 then arith (sub_flags op2 rn cin c) True
      else if opcode = 0x8 then logic (rn AND op2) False
      else if opcode = 0x9 then logic (rn XOR op2) False
      else if opcode = 0xA then arith (sub_flags rn op2 1 c) False
      else if opcode = 0xB then arith (add_flags rn op2 0 c) False
      else if opcode = 0xC then logic (rn OR op2) True
      else if opcode = 0xD then logic op2 True
      else if opcode = 0xE then logic (rn AND NOT op2) True
      else logic (NOT op2) True)"

definition dp_plain :: "u32 \<Rightarrow> u32 \<Rightarrow> u32 \<Rightarrow> bool \<Rightarrow> u32 \<times> bool" where
  "dp_plain opcode rn op2 cf =
     (let cw = b2w cf; ncw = b2w (\<not> cf) in
      if opcode = 0x0 then (rn AND op2, True)
      else if opcode = 0x1 then (rn XOR op2, True)
      else if opcode = 0x2 then (rn - op2, True)
      else if opcode = 0x3 then (op2 - rn, True)
      else if opcode = 0x4 then (rn + op2, True)
      else if opcode = 0x5 then (rn + op2 + cw, True)
      else if opcode = 0x6 then (rn - op2 - ncw, True)
      else if opcode = 0x7 then (op2 - rn - ncw, True)
      else if opcode = 0x8 \<or> opcode = 0x9 \<or> opcode = 0xA \<or> opcode = 0xB then (0, False)
      else if opcode = 0xC then (rn OR op2, True)
      else if opcode = 0xD then (op2, True)
      else if opcode = 0xE then (rn AND NOT op2, True)
      else (NOT op2, True))"

definition data_processing :: "'io env \<Rightarrow> u32 \<Rightarrow> u32 \<Rightarrow> bool \<Rightarrow> u32 \<Rightarrow> u32 \<Rightarrow> 'io mach \<Rightarrow> 'io mach" where
  "data_processing env instr op2 sc rn_val internal m =
     (let opcode = fld instr 21 0xF; s = tst instr 0x100000; rd = fld instr 12 0xF;
          (res, write, c1) =
            (if s \<and> rd \<noteq> 15 then dp_flags opcode rn_val op2 sc (cpu m)
             else (let (r, w) = dp_plain opcode rn_val op2 (carry (cpu m)) in (r, w, cpu m)));
          m1 = upd_cpu (\<lambda>_. c1) m;
          m2 = (if internal \<noteq> 0 then charge_CI internal m1 else charge_C m1)
      in if \<not> write then m2
         else if rd = 15 then
           jump env res False (if s then upd_cpu restore_cpsr m2 else m2)
         else upd_cpu (set_R rd res) m2)"

section \<open>Loads and stores\<close>

text \<open>\<^verbatim>\<open>ls_address\<close>: effective address, whether the base is written back, and its value.\<close>

definition ls_address :: "cpu_ctx \<Rightarrow> u32 \<Rightarrow> u32 \<Rightarrow> u32 \<times> bool \<times> u32" where
  "ls_address c instr offset =
     (let p = tst instr 0x1000000; u = tst instr 0x800000; w = tst instr 0x200000;
          base = R c (fld instr 16 0xF);
          off_addr = (if u then base + offset else base - offset)
      in (if p then off_addr else base, \<not> p \<or> w, off_addr))"

definition writeback :: "bool \<Rightarrow> u32 \<Rightarrow> u32 \<Rightarrow> 'io mach \<Rightarrow> 'io mach" where
  "writeback wb rn v m = (if wb then upd_cpu (set_R rn v) m else m)"

definition ldr_str :: "'io env \<Rightarrow> u32 \<Rightarrow> u32 \<Rightarrow> 'io mach \<Rightarrow> 'io mach" where
  "ldr_str env instr offset m =
     (let l = tst instr 0x100000; b = tst instr 0x400000;
          rn = fld instr 16 0xF; rd = fld instr 12 0xF;
          (ea, wb, wbv) = ls_address (cpu m) instr offset in
      if l then
        (let (v, m1) = (if b then (let (x, m') = mem_read8 env ea False m in (ucast x, m'))
                        else (let (x, m') = mem_read32 env ea False m
                              in (rotr32 x ((ea AND 3) * 8), m')));
             m2 = charge_CDI env (writeback wb rn wbv m1)
         in if rd = 15 then jump env v (is_arm9 (cpu m2)) m2 else upd_cpu (set_R rd v) m2)
      else
        (let v = (if rd = 15 then R (cpu m) rd + 4 else R (cpu m) rd);
             m1 = (if b then mem_write8 env ea (ucast v) False m
                   else mem_write32 env ea v False m)
         in charge_CD env (writeback wb rn wbv m1)))"

text \<open>The load half of \<^verbatim>\<open>ldr_str_h\<close>: the value by the SH bits, with the ARM7's
  behaviour at odd addresses.\<close>

definition load_half :: "'io env \<Rightarrow> u32 \<Rightarrow> u32 \<Rightarrow> 'io mach \<Rightarrow> u32 \<times> 'io mach" where
  "load_half env sh ea m =
     (let odd7 = \<not> is_arm9 (cpu m) \<and> tst ea 1 in
      if sh = 1 then
        (let (x, m1) = mem_read16 env ea False m; v = ucast x
         in (if odd7 then rotr32 v 8 else v, m1))
      else if sh = 2 then (let (x, m1) = mem_read8 env ea False m in (sext8 x, m1))
      else if odd7 then (let (x, m1) = mem_read8 env ea False m in (sext8 x, m1))
      else (let (x, m1) = mem_read16 env ea False m in (sext16 x, m1)))"

definition ldr_str_h :: "'io env \<Rightarrow> u32 \<Rightarrow> u32 \<Rightarrow> 'io mach \<Rightarrow> 'io mach" where
  "ldr_str_h env instr offset m =
     (let l = tst instr 0x100000; rn = fld instr 16 0xF; rd = fld instr 12 0xF;
          sh = fld instr 5 3; (ea, wb, wbv) = ls_address (cpu m) instr offset in
      if l then
        (let (v, m1) = load_half env sh ea m;
             m2 = charge_CDI env (writeback wb rn wbv m1)
         in if rd = 15 then jump env v False m2 else upd_cpu (set_R rd v) m2)
      else if sh = 1 then
        charge_CD env (writeback wb rn wbv (mem_write16 env ea (ucast (R (cpu m) rd)) False m))
      else if \<not> is_arm9 (cpu m) then charge_C m
      else if sh = 2 then
        (let (lo, m1) = mem_read32 env ea False m;
             (hi, m2) = mem_read32 env (ea + 4) True m1;
             m3 = writeback wb rn wbv m2
         in charge_CDI env (upd_cpu (set_R ((rd + 1) AND 0xF) hi) (upd_cpu (set_R rd lo) m3)))
      else
        (let m1 = mem_write32 env ea (R (cpu m) rd) False m;
             m2 = mem_write32 env (ea + 4) (R (cpu m1) ((rd + 1) AND 0xF)) True m1
         in charge_CD env (writeback wb rn wbv m2)))"

section \<open>Block transfers\<close>

text \<open>The loops run over register numbers 0 to 15; \<open>first\<close> marks the access that is not
  sequential.  The load loop returns the value loaded for r15, if any.\<close>

fun ldm_loop :: "'io env \<Rightarrow> u32 \<Rightarrow> nat list \<Rightarrow> u32 \<Rightarrow> bool \<Rightarrow> u32 option \<Rightarrow> 'io mach \<Rightarrow>
    u32 option \<times> 'io mach" where
  "ldm_loop env lst [] addr first pc m = (pc, m)"
| "ldm_loop env lst (i # is) addr first pc m =
     (if \<not> bit lst i then ldm_loop env lst is addr first pc m
      else
        (let (v, m1) = mem_read32 env addr (\<not> first) m in
         if i = 15 then ldm_loop env lst is (addr + 4) False (Some v) m1
         else ldm_loop env lst is (addr + 4) False pc (upd_cpu (set_R (of_nat i) v) m1)))"

fun stm_loop :: "'io env \<Rightarrow> u32 \<Rightarrow> u32 \<Rightarrow> bool \<Rightarrow> u32 \<Rightarrow> nat list \<Rightarrow> u32 \<Rightarrow> bool \<Rightarrow> 'io mach \<Rightarrow>
    'io mach" where
  "stm_loop env lst rn w wb [] addr first m = m"
| "stm_loop env lst rn w wb (i # is) addr first m =
     (if \<not> bit lst i then stm_loop env lst rn w wb is addr first m
      else
        (let v0 = R (cpu m) (of_nat i);
             v1 = (if i = 15 then v0 + 4 else v0);
             v = (if of_nat i = rn \<and> \<not> first \<and> w then wb else v1)
         in stm_loop env lst rn w wb is (addr + 4) False (mem_write32 env addr v (\<not> first) m)))"

definition ldm_stm :: "'io env \<Rightarrow> u32 \<Rightarrow> bool \<Rightarrow> 'io mach \<Rightarrow> 'io mach" where
  "ldm_stm env instr load m =
     (let p = tst instr 0x1000000; u = tst instr 0x800000; s = tst instr 0x400000;
          w = tst instr 0x200000; rn = fld instr 16 0xF;
          list0 = instr AND 0xFFFF; n0 = popcount16 list0;
          (lst, n) = (if n0 = 0 then (0x8000, 16) else (list0, n0));
          base = R (cpu m) rn;
          (addr0, wb) =
            (if u then (if p then base + 4 else base, base + n * 4)
             else (if p then base - n * 4 else base - n * 4 + 4, base - n * 4));
          addr = addr0 AND NOT 3;
          user_bank = (s \<and> \<not> (load \<and> tst lst 0x8000));
          saved_mode = (if user_bank \<and> CPSR (cpu m) AND 0x1F \<noteq> 0x10
                        then CPSR (cpu m) AND 0x1F else 0);
          m1 = (if user_bank \<and> CPSR (cpu m) AND 0x1F \<noteq> 0x10 then upd_cpu (switch_mode 0x10) m else m);
          back = (\<lambda>m. if user_bank \<and> saved_mode \<noteq> 0 then upd_cpu (switch_mode saved_mode) m else m)
      in if load then
           (let (pc, m2) = ldm_loop env lst [0..<16] addr True None m1;
                m3 = (if w \<and> \<not> bit lst (unat rn) then upd_cpu (set_R rn wb) m2 else m2);
                m4 = back m3
            in case pc of
                 Some v \<Rightarrow>
                   (let m5 = (if s then upd_cpu restore_cpsr m4 else m4);
                        m6 = jump env v (is_arm9 (cpu m5) \<and> \<not> s) m5
                    in charge_CDI_after_jump env m6)
               | None \<Rightarrow> charge_CDI env m4)
         else
           (let m2 = stm_loop env lst rn w wb [0..<16] addr True m1;
                m3 = back m2;
                m4 = (if w then upd_cpu (set_R rn wb) m3 else m3)
            in charge_CD env m4))"

section \<open>Status register, multiplies, branches\<close>

definition msr_mask :: "u32 \<Rightarrow> u32" where
  "msr_mask flds =
     (if tst flds 1 then 0x000000FF else 0) OR (if tst flds 2 then 0x0000FF00 else 0)
     OR (if tst flds 4 then 0x00FF0000 else 0) OR (if tst flds 8 then 0xFF000000 else 0)"

definition msr :: "u32 \<Rightarrow> u32 \<Rightarrow> 'io mach \<Rightarrow> 'io mach" where
  "msr instr value m =
     (let to_spsr = tst instr 0x400000; mask = msr_mask (fld instr 16 0xF);
          m1 = charge_C m; c = cpu m1; mode = CPSR c AND 0x1F in
      if to_spsr then
        (if mode \<noteq> 0x10 \<and> mode \<noteq> 0x1F
         then upd_cpu (set_SPSR ((SPSR c AND NOT mask) OR (value AND mask))) m1 else m1)
      else
        (let mask1 = (if mode = 0x10 then mask AND 0xFF000000 else mask);
             mask2 = mask1 AND NOT 0x20
         in upd_cpu (set_cpsr ((CPSR c AND NOT mask2) OR (value AND mask2))) m1))"

text \<open>\<^verbatim>\<open>half\<close>, as the signed value of the selected halfword.\<close>

definition half :: "u32 \<Rightarrow> bool \<Rightarrow> int" where
  "half v upper = sint (ucast (if upper then drop_bit 16 v else v AND 0xFFFF) :: u16)"

definition mul_cycles :: "cpu_ctx \<Rightarrow> bool \<Rightarrow> u32 \<Rightarrow> bool \<Rightarrow> u32 \<Rightarrow> u32" where
  "mul_cycles c s rs signed_op extra =
     (if which c = ARM9 then (if s then 3 else 1)
      else
        (let fits = (\<lambda>mask. rs AND mask = 0 \<or> (signed_op \<and> rs AND mask = mask));
             k = (if fits 0xFFFFFF00 then 1 else if fits 0xFFFF0000 then 2
                  else if fits 0xFF000000 then 3 else 4)
         in k + extra))"

definition undefined_op :: "'io env \<Rightarrow> 'io mach \<Rightarrow> 'io mach" where
  "undefined_op env m = raise_exception env Exc_Undefined m"

text \<open>The 24-bit branch offset, sign-extended and times four:
  \<^verbatim>\<open>static_cast<s32>(instr << 8) >> 6\<close>.\<close>

definition branch_off :: "u32 \<Rightarrow> u32" where
  "branch_off instr = asr 6 (push_bit 8 instr)"

definition exec_uncond :: "'io env \<Rightarrow> u32 \<Rightarrow> 'io mach \<Rightarrow> 'io mach" where
  "exec_uncond env instr m =
     (if fld instr 25 7 = 5 then
        (if \<not> is_arm9 (cpu m) then undefined_op env m
         else
           (let off = branch_off instr OR fld instr 23 2;
                m1 = upd_cpu (\<lambda>c. set_R 14 (R c 15 - 4) c) m
            in jump env ((R (cpu m1) 15 + off) OR 1) True m1))
      else if is_pld instr then charge_C m
      else undefined_op env m)"

definition exec_mul :: "aop \<Rightarrow> u32 \<Rightarrow> 'io mach \<Rightarrow> 'io mach" where
  "exec_mul op instr m =
     (let rd = fld instr 16 0xF; rn = fld instr 12 0xF; rs = fld instr 8 0xF; rm = instr AND 0xF;
          c = cpu m; rs_v = R c rs;
          r = R c rm * rs_v + (if op = AOp_Mla then R c rn else 0);
          c1 = set_R rd r c;
          c2 = (if tst instr 0x100000
                then (let c' = set_nz r c1
                      in if \<not> is_arm9 c' then set_CPSR (CPSR c' AND NOT FLAG_C) c' else c')
                else c1)
      in charge_CI (mul_cycles c2 (tst instr 0x100000) rs_v True (if op = AOp_Mla then 1 else 0))
           (upd_cpu (\<lambda>_. c2) m))"

definition exec_mull :: "aop \<Rightarrow> u32 \<Rightarrow> 'io mach \<Rightarrow> 'io mach" where
  "exec_mull op instr m =
     (let rdhi = fld instr 16 0xF; rdlo = fld instr 12 0xF; rs = fld instr 8 0xF; rm = instr AND 0xF;
          c = cpu m; rs_v = R c rs;
          r0 = (if op = AOp_Umull \<or> op = AOp_Umlal then (ucast (R c rm) :: u64) * ucast rs_v
                else word_of_int (sint (R c rm) * sint rs_v));
          r = (if op = AOp_Umlal \<or> op = AOp_Smlal
               then r0 + (push_bit 32 (ucast (R c rdhi)) OR ucast (R c rdlo)) else r0);
          c1 = set_R rdhi (ucast (drop_bit 32 r)) (set_R rdlo (ucast r) c);
          c2 = (if tst instr 0x100000
                then (let c' = set_CPSR ((CPSR c1 AND NOT (FLAG_N OR FLAG_Z))
                                 OR (ucast (drop_bit 32 r) AND FLAG_N)
                                 OR (if r = 0 then FLAG_Z else 0)) c1
                      in if \<not> is_arm9 c' then set_CPSR (CPSR c' AND NOT FLAG_C) c' else c')
                else c1)
      in charge_CI (mul_cycles c2 (tst instr 0x100000) rs_v (op = AOp_Smull \<or> op = AOp_Smlal) 1)
           (upd_cpu (\<lambda>_. c2) m))"

text \<open>The v5 DSP operations; the caller has checked for the ARM9.\<close>

definition clz32 :: "u32 \<Rightarrow> u32" where
  "clz32 v = of_nat (length (takeWhile (\<lambda>i. \<not> bit v i) (rev [0..<32])))"

definition exec_qaddsub :: "aop \<Rightarrow> u32 \<Rightarrow> cpu_ctx \<Rightarrow> cpu_ctx" where
  "exec_qaddsub op instr c =
     (let mv = R c (instr AND 0xF); n0 = R c (fld instr 16 0xF);
          (n, c1) = (if op = AOp_QDAdd \<or> op = AOp_QDSub then sat_add n0 n0 c else (n0, c));
          (r, c2) = (if op = AOp_QAdd \<or> op = AOp_QDAdd then sat_add mv n c1 else sat_sub mv n c1)
      in set_R (fld instr 12 0xF) r c2)"

text \<open>The accumulate of \<^verbatim>\<open>SMLAxy\<close> and \<^verbatim>\<open>SMLAWy\<close>: wraps, and sets Q when it did.\<close>

definition acc_q :: "int \<Rightarrow> cpu_ctx \<Rightarrow> u32 \<times> cpu_ctx" where
  "acc_q acc c =
     (let w = (word_of_int acc :: u32) in (w, if sint w \<noteq> acc then set_q c else c))"

definition exec_smulxy :: "aop \<Rightarrow> u32 \<Rightarrow> cpu_ctx \<Rightarrow> cpu_ctx" where
  "exec_smulxy op instr c =
     (let rd = fld instr 16 0xF; rn = fld instr 12 0xF; rs = fld instr 8 0xF; rm = instr AND 0xF;
          prod = half (R c rm) (tst instr 0x20) * half (R c rs) (tst instr 0x40);
          (r, c1) = (if op = AOp_SmlaXY then acc_q (prod + sint (R c rn)) c
                     else (word_of_int prod, c))
      in set_R rd r c1)"

definition exec_smulwy :: "aop \<Rightarrow> u32 \<Rightarrow> cpu_ctx \<Rightarrow> cpu_ctx" where
  "exec_smulwy op instr c =
     (let rd = fld instr 16 0xF; rn = fld instr 12 0xF; rs = fld instr 8 0xF; rm = instr AND 0xF;
          prod = (sint (R c rm) * half (R c rs) (tst instr 0x40)) div 65536;
          r0 = (word_of_int prod :: u32);
          (r, c1) = (if op = AOp_SmlawY then acc_q (sint r0 + sint (R c rn)) c else (r0, c))
      in set_R rd r c1)"

definition exec_smlalxy :: "u32 \<Rightarrow> cpu_ctx \<Rightarrow> cpu_ctx" where
  "exec_smlalxy instr c =
     (let rdhi = fld instr 16 0xF; rdlo = fld instr 12 0xF; rs = fld instr 8 0xF; rm = instr AND 0xF;
          prod = half (R c rm) (tst instr 0x20) * half (R c rs) (tst instr 0x40);
          acc = (push_bit 32 (ucast (R c rdhi)) OR ucast (R c rdlo) :: u64) + word_of_int prod
      in set_R rdhi (ucast (drop_bit 32 acc)) (set_R rdlo (ucast acc) c))"

text \<open>The swaps: both accesses charge as non-sequential, the read's cost carried by hand.\<close>

definition add_data_cycles :: "u32 \<Rightarrow> 'io mach \<Rightarrow> 'io mach" where
  "add_data_cycles d = upd_cpu (\<lambda>c. c\<lparr> data_cycles := data_cycles c + d \<rparr>)"

definition exec_swp :: "'io env \<Rightarrow> aop \<Rightarrow> u32 \<Rightarrow> 'io mach \<Rightarrow> 'io mach" where
  "exec_swp env op instr m =
     (let rn = fld instr 16 0xF; rd = fld instr 12 0xF; rm = instr AND 0xF; addr = R (cpu m) rn in
      if op = AOp_Swpb then
        (let (old, m1) = mem_read8 env addr False m; d = data_cycles (cpu m1);
             m2 = add_data_cycles d (mem_write8 env addr (ucast (R (cpu m1) rm)) False m1)
         in charge_CDI env (upd_cpu (set_R rd (ucast old)) m2))
      else
        (let (old0, m1) = mem_read32 env addr False m; old = rotr32 old0 ((addr AND 3) * 8);
             d = data_cycles (cpu m1);
             m2 = add_data_cycles d (mem_write32 env addr (R (cpu m1) rm) False m1)
         in charge_CDI env (upd_cpu (set_R rd old) m2)))"

definition exec_swi :: "'io env \<Rightarrow> u32 \<Rightarrow> 'io mach \<Rightarrow> 'io mach" where
  "exec_swi env number m =
     (if hle_enabled env m then
        (let (handled, m1) = dsi_hle_swi env number m
         in if handled then m1 else raise_exception env Exc_Swi m1)
      else raise_exception env Exc_Swi m)"

definition exec_mcr_mrc :: "'io env \<Rightarrow> aop \<Rightarrow> u32 \<Rightarrow> 'io mach \<Rightarrow> 'io mach" where
  "exec_mcr_mrc env op instr m =
     (if fld instr 8 0xF \<noteq> 15 \<or> \<not> is_arm9 (cpu m) then undefined_op env m
      else
        (let crn = fld instr 16 0xF; rd = fld instr 12 0xF; crm = instr AND 0xF; opc2 = fld instr 5 7 in
         if op = AOp_Mcr then charge_CI 2 (cp15_write env crn crm opc2 (R (cpu m) rd) m)
         else
           (let v = cp15_read (cpu m) crn crm opc2
            in charge_CI 3
                 (upd_cpu (\<lambda>c. if rd = 15
                               then set_CPSR ((CPSR c AND 0x0FFFFFFF) OR (v AND 0xF0000000)) c
                               else set_R rd v c) m))))"

definition dp_operands :: "aop \<Rightarrow> u32 \<Rightarrow> cpu_ctx \<Rightarrow> u32 \<times> bool \<times> u32 \<times> u32" where
  "dp_operands op instr c =
     (let rn = fld instr 16 0xF; rm = instr AND 0xF in
      if op = AOp_DpImm then
        (let imm = instr AND 0xFF; rot = fld instr 8 0xF; op2 = rotr32 imm (rot * 2)
         in (op2, if rot \<noteq> 0 then bit op2 31 else carry c, R c rn, 0))
      else if op = AOp_DpImmShift then
        (let (op2, sc) = shift_imm (fld instr 5 3) (fld instr 7 0x1F) (R c rm) (carry c)
         in (op2, sc, R c rn, 0))
      else
        (let rm_v = R c rm + (if rm = 15 then 4 else 0);
             rn_v = R c rn + (if rn = 15 then 4 else 0);
             (op2, sc) = shift_reg (fld instr 5 3) (R c (fld instr 8 0xF)) rm_v (carry c)
         in (op2, sc, rn_v, 1)))"

definition arm9_only :: "'io env \<Rightarrow> 'io mach \<Rightarrow> 'io mach \<Rightarrow> 'io mach" where
  "arm9_only env m r = (if is_arm9 (cpu m) then r else undefined_op env m)"

definition exec_arm_op :: "'io env \<Rightarrow> aop \<Rightarrow> u32 \<Rightarrow> 'io mach \<Rightarrow> 'io mach" where
  "exec_arm_op env op instr m =
     (let rm_v = R (cpu m) (instr AND 0xF) in
      case op of
        AOp_DpImm \<Rightarrow> (let (op2, sc, rn_v, n) = dp_operands op instr (cpu m) in data_processing env instr op2 sc rn_v n m)
      | AOp_DpImmShift \<Rightarrow> (let (op2, sc, rn_v, n) = dp_operands op instr (cpu m) in data_processing env instr op2 sc rn_v n m)
      | AOp_DpRegShift \<Rightarrow> (let (op2, sc, rn_v, n) = dp_operands op instr (cpu m) in data_processing env instr op2 sc rn_v n m)
      | AOp_Mrs \<Rightarrow>
          charge_C (upd_cpu (\<lambda>c. set_R (fld instr 12 0xF) (if tst instr 0x400000 then SPSR c else CPSR c) c) m)
      | AOp_MsrReg \<Rightarrow> msr instr rm_v m
      | AOp_MsrImm \<Rightarrow> msr instr (rotr32 (instr AND 0xFF) (fld instr 8 0xF * 2)) m
      | AOp_B \<Rightarrow> jump env (R (cpu m) 15 + branch_off instr) False m
      | AOp_Bl \<Rightarrow>
          (let m1 = upd_cpu (\<lambda>c. set_R 14 (R c 15 - 4) c) m
           in jump env (R (cpu m1) 15 + branch_off instr) False m1)
      | AOp_Bx \<Rightarrow> jump env rm_v True m
      | AOp_BlxReg \<Rightarrow>
          arm9_only env m (jump env rm_v True (upd_cpu (\<lambda>c. set_R 14 (R c 15 - 4) c) m))
      | AOp_Mul \<Rightarrow> exec_mul op instr m
      | AOp_Mla \<Rightarrow> exec_mul op instr m
      | AOp_Umull \<Rightarrow> exec_mull op instr m
      | AOp_Umlal \<Rightarrow> exec_mull op instr m
      | AOp_Smull \<Rightarrow> exec_mull op instr m
      | AOp_Smlal \<Rightarrow> exec_mull op instr m
      | AOp_Clz \<Rightarrow> arm9_only env m (charge_C (upd_cpu (set_R (fld instr 12 0xF) (clz32 rm_v)) m))
      | AOp_QAdd \<Rightarrow> arm9_only env m (charge_C (upd_cpu (exec_qaddsub op instr) m))
      | AOp_QSub \<Rightarrow> arm9_only env m (charge_C (upd_cpu (exec_qaddsub op instr) m))
      | AOp_QDAdd \<Rightarrow> arm9_only env m (charge_C (upd_cpu (exec_qaddsub op instr) m))
      | AOp_QDSub \<Rightarrow> arm9_only env m (charge_C (upd_cpu (exec_qaddsub op instr) m))
      | AOp_SmulXY \<Rightarrow> arm9_only env m (charge_C (upd_cpu (exec_smulxy op instr) m))
      | AOp_SmlaXY \<Rightarrow> arm9_only env m (charge_C (upd_cpu (exec_smulxy op instr) m))
      | AOp_SmulwY \<Rightarrow> arm9_only env m (charge_C (upd_cpu (exec_smulwy op instr) m))
      | AOp_SmlawY \<Rightarrow> arm9_only env m (charge_C (upd_cpu (exec_smulwy op instr) m))
      | AOp_SmlalXY \<Rightarrow> arm9_only env m (charge_CI 1 (upd_cpu (exec_smlalxy instr) m))
      | AOp_LdrStrImm \<Rightarrow> ldr_str env instr (instr AND 0xFFF) m
      | AOp_LdrStrReg \<Rightarrow>
          ldr_str env instr (fst (shift_imm (fld instr 5 3) (fld instr 7 0x1F) rm_v (carry (cpu m)))) m
      | AOp_LdrStrHImm \<Rightarrow> ldr_str_h env instr (fld instr 4 0xF0 OR (instr AND 0xF)) m
      | AOp_LdrStrHReg \<Rightarrow> ldr_str_h env instr rm_v m
      | AOp_Swp \<Rightarrow> exec_swp env op instr m
      | AOp_Swpb \<Rightarrow> exec_swp env op instr m
      | AOp_Ldm \<Rightarrow> ldm_stm env instr True m
      | AOp_Stm \<Rightarrow> ldm_stm env instr False m
      | AOp_Swi \<Rightarrow> exec_swi env (fld instr 16 0xFF) m
      | AOp_Bkpt \<Rightarrow> raise_exception env Exc_PrefetchAbort m
      | AOp_Mcr \<Rightarrow> exec_mcr_mrc env op instr m
      | AOp_Mrc \<Rightarrow> exec_mcr_mrc env op instr m
      | AOp_Pld \<Rightarrow> charge_C m
      | AOp_Cdp \<Rightarrow> undefined_op env m
      | AOp_Ldc \<Rightarrow> undefined_op env m
      | AOp_Stc \<Rightarrow> undefined_op env m
      | AOp_BlxImm \<Rightarrow> undefined_op env m
      | AOp_Undefined \<Rightarrow> undefined_op env m)"

definition set_fast_d :: "'io env \<Rightarrow> u32 \<Rightarrow> bool \<Rightarrow> 'io mach \<Rightarrow> 'io mach" where
  "set_fast_d env instr th m =
     (if g_fast_timing env
      then upd_cpu (\<lambda>c. c\<lparr> fast_d := ucast (fast_data env c instr th) \<rparr>) m else m)"

definition exec_arm :: "'io env \<Rightarrow> u32 \<Rightarrow> 'io mach \<Rightarrow> 'io mach" where
  "exec_arm env instr m0 =
     (let m = set_fast_d env instr False m0; cond = drop_bit 28 instr in
      if cond = 0xF then exec_uncond env instr m
      else if cond \<noteq> 0xE \<and> \<not> check_condition cond (CPSR (cpu m)) then charge_C m
      else exec_arm_op env (decode_arm instr) instr m)"

end
