(* ===== verification/InterpThumb.thy ===== *)
theory InterpThumb imports InterpArm begin

text \<open>
  The Thumb-state executor (\<^verbatim>\<open>src/core/cpu/interp/interp_thumb.cpp\<close>): one definition
  per group of cases of \<^verbatim>\<open>exec_thumb\<close> and the dispatcher.  \<open>i\<close> is the instruction
  widened to 32 bits, as the C++ integer promotions read it.
\<close>

definition set_reg_flags :: "u32 \<Rightarrow> u32 \<times> cpu_ctx \<Rightarrow> cpu_ctx" where
  "set_reg_flags rd rc = (let (r, c) = rc in set_R rd r c)"

definition t_shift_imm :: "u32 \<Rightarrow> cpu_ctx \<Rightarrow> cpu_ctx" where
  "t_shift_imm i c =
     (let (r, cf) = shift_imm (fld i 11 3) (fld i 6 0x1F) (R c (fld i 3 7)) (carry c)
      in set_nzc r cf (set_R (i AND 7) r c))"

definition t_add_sub :: "u32 \<Rightarrow> u32 \<Rightarrow> cpu_ctx \<Rightarrow> cpu_ctx" where
  "t_add_sub i operand c =
     (let a = R c (fld i 3 7)
      in set_reg_flags (i AND 7)
           (if tst i 0x200 then sub_flags a operand 1 c else add_flags a operand 0 c))"

definition t_imm8 :: "u32 \<Rightarrow> cpu_ctx \<Rightarrow> cpu_ctx" where
  "t_imm8 i c =
     (let rd = fld i 8 7; imm = i AND 0xFF; k = fld i 11 3 in
      if k = 0 then set_nz imm (set_R rd imm c)
      else if k = 1 then snd (sub_flags (R c rd) imm 1 c)
      else if k = 2 then set_reg_flags rd (add_flags (R c rd) imm 0 c)
      else set_reg_flags rd (sub_flags (R c rd) imm 1 c))"

text \<open>The register ALU operations.  The result pairs the new CPU with the internal cycles
  to charge; \<open>None\<close> stands for the plain fetch charge.\<close>

definition t_mul_cycles7 :: "u32 \<Rightarrow> u32" where
  "t_mul_cycles7 a =
     (let fits = (\<lambda>mask. a AND mask = 0 \<or> a AND mask = mask) in
      if fits 0xFFFFFF00 then 1 else if fits 0xFFFF0000 then 2
      else if fits 0xFF000000 then 3 else 4)"

definition t_alu :: "u32 \<Rightarrow> cpu_ctx \<Rightarrow> cpu_ctx \<times> u32 option" where
  "t_alu i c =
     (let rd = i AND 7; a = R c rd; b = R c (fld i 3 7); k = fld i 6 0xF; cin = b2w (carry c);
          logic = (\<lambda>r. (set_nz r (set_R rd r c), None));
          shft = (\<lambda>ty. let (r, cf) = shift_reg ty b a (carry c)
                       in (set_nzc r cf (set_R rd r c), Some 1))
      in if k = 0x0 then logic (a AND b)
         else if k = 0x1 then logic (a XOR b)
         else if k = 0x2 then shft 0
         else if k = 0x3 then shft 1
         else if k = 0x4 then shft 2
         else if k = 0x5 then (set_reg_flags rd (add_flags a b cin c), None)
         else if k = 0x6 then (set_reg_flags rd (sub_flags a b cin c), None)
         else if k = 0x7 then shft 3
         else if k = 0x8 then (set_nz (a AND b) c, None)
         else if k = 0x9 then (set_reg_flags rd (sub_flags 0 b 1 c), None)
         else if k = 0xA then (snd (sub_flags a b 1 c), None)
         else if k = 0xB then (snd (add_flags a b 0 c), None)
         else if k = 0xC then logic (a OR b)
         else if k = 0xD then
           (let r = a * b; c1 = set_nz r (set_R rd r c)
            in if is_arm9 c1 then (c1, Some 3)
               else (set_CPSR (CPSR c1 AND NOT FLAG_C) c1, Some (t_mul_cycles7 a)))
         else if k = 0xE then logic (a AND NOT b)
         else logic (NOT b))"

definition exec_t_alu :: "u32 \<Rightarrow> 'io mach \<Rightarrow> 'io mach" where
  "exec_t_alu i m =
     (let (c1, n) = t_alu i (cpu m); m1 = upd_cpu (\<lambda>_. c1) m
      in case n of None \<Rightarrow> charge_C m1 | Some k \<Rightarrow> charge_CI k m1)"

definition exec_t_hireg :: "'io env \<Rightarrow> u32 \<Rightarrow> 'io mach \<Rightarrow> 'io mach" where
  "exec_t_hireg env i m =
     (let rd = (i AND 7) OR fld i 4 8; rs = fld i 3 0xF; b = R (cpu m) rs; m1 = charge_C m;
          k = fld i 8 3 in
      if k = 0 then
        (if rd = 15 then jump env (R (cpu m1) 15 + b) False m1
         else upd_cpu (\<lambda>c. set_R rd (R c rd + b) c) m1)
      else if k = 1 then upd_cpu (\<lambda>c. snd (sub_flags (R c rd) b 1 c)) m1
      else if k = 2 then
        (if rd = 15 then jump env b False m1 else upd_cpu (set_R rd b) m1)
      else m1)"

definition exec_t_bx :: "'io env \<Rightarrow> u32 \<Rightarrow> 'io mach \<Rightarrow> 'io mach" where
  "exec_t_bx env i m =
     (let target = R (cpu m) (fld i 3 0xF) in
      if tst i 0x80 then
        (if \<not> is_arm9 (cpu m) then undefined_op env m
         else jump env target True (upd_cpu (\<lambda>c. set_R 14 ((R c 15 - 2) OR 1) c) m))
      else jump env target True m)"

section \<open>Loads and stores\<close>

definition load_to :: "'io env \<Rightarrow> u32 \<Rightarrow> u32 \<times> 'io mach \<Rightarrow> 'io mach" where
  "load_to env rd vm = (let (v, m1) = vm in charge_CDI env (upd_cpu (set_R rd v) m1))"

definition read_word_rot :: "'io env \<Rightarrow> u32 \<Rightarrow> 'io mach \<Rightarrow> u32 \<times> 'io mach" where
  "read_word_rot env ea m =
     (let (x, m1) = mem_read32 env ea False m in (rotr32 x ((ea AND 3) * 8), m1))"

definition read_byte :: "'io env \<Rightarrow> u32 \<Rightarrow> 'io mach \<Rightarrow> u32 \<times> 'io mach" where
  "read_byte env ea m = (let (x, m1) = mem_read8 env ea False m in (ucast x, m1))"

definition exec_t_ldrstr_reg :: "'io env \<Rightarrow> u32 \<Rightarrow> 'io mach \<Rightarrow> 'io mach" where
  "exec_t_ldrstr_reg env i m =
     (let rd = i AND 7; ea = R (cpu m) (fld i 3 7) + R (cpu m) (fld i 6 7);
          v = R (cpu m) rd; k = fld i 9 7 in
      if k = 0 then charge_CD env (mem_write32 env ea v False m)
      else if k = 1 then charge_CD env (mem_write16 env ea (ucast v) False m)
      else if k = 2 then charge_CD env (mem_write8 env ea (ucast v) False m)
      else if k = 3 then load_to env rd (load_half env 2 ea m)
      else if k = 4 then load_to env rd (read_word_rot env ea m)
      else if k = 5 then load_to env rd (load_half env 1 ea m)
      else if k = 6 then load_to env rd (read_byte env ea m)
      else load_to env rd (load_half env 3 ea m))"

definition exec_t_ldrstr_imm5 :: "'io env \<Rightarrow> u32 \<Rightarrow> 'io mach \<Rightarrow> 'io mach" where
  "exec_t_ldrstr_imm5 env i m =
     (let rb = fld i 3 7; rd = i AND 7; imm = fld i 6 0x1F; l = tst i 0x800; b = tst i 0x1000;
          v = R (cpu m) rd in
      if b then
        (let ea = R (cpu m) rb + imm in
         if l then load_to env rd (read_byte env ea m)
         else charge_CD env (mem_write8 env ea (ucast v) False m))
      else
        (let ea = R (cpu m) rb + imm * 4 in
         if l then load_to env rd (read_word_rot env ea m)
         else charge_CD env (mem_write32 env ea v False m)))"

definition exec_t_ldrstrh_imm5 :: "'io env \<Rightarrow> u32 \<Rightarrow> 'io mach \<Rightarrow> 'io mach" where
  "exec_t_ldrstrh_imm5 env i m =
     (let rd = i AND 7; ea = R (cpu m) (fld i 3 7) + fld i 6 0x1F * 2 in
      if tst i 0x800 then load_to env rd (load_half env 1 ea m)
      else charge_CD env (mem_write16 env ea (ucast (R (cpu m) rd)) False m))"

definition exec_t_ldrstr_sp :: "'io env \<Rightarrow> u32 \<Rightarrow> 'io mach \<Rightarrow> 'io mach" where
  "exec_t_ldrstr_sp env i m =
     (let rd = fld i 8 7; ea = R (cpu m) 13 + (i AND 0xFF) * 4 in
      if tst i 0x800 then load_to env rd (read_word_rot env ea m)
      else charge_CD env (mem_write32 env ea (R (cpu m) rd) False m))"

text \<open>The register-list loops over r0 to r7: memory address, \<open>first\<close> flag and machine.\<close>

fun t_load_list :: "'io env \<Rightarrow> u32 \<Rightarrow> nat list \<Rightarrow> u32 \<Rightarrow> bool \<Rightarrow> 'io mach \<Rightarrow>
    u32 \<times> bool \<times> 'io mach" where
  "t_load_list env lst [] addr first m = (addr, first, m)"
| "t_load_list env lst (k # ks) addr first m =
     (if \<not> bit lst k then t_load_list env lst ks addr first m
      else
        (let (v, m1) = mem_read32 env addr (\<not> first) m
         in t_load_list env lst ks (addr + 4) False (upd_cpu (set_R (of_nat k) v) m1)))"

fun t_store_list :: "'io env \<Rightarrow> u32 \<Rightarrow> (nat \<Rightarrow> bool \<Rightarrow> u32 option) \<Rightarrow> nat list \<Rightarrow> u32 \<Rightarrow> bool \<Rightarrow>
    'io mach \<Rightarrow> u32 \<times> bool \<times> 'io mach" where
  "t_store_list env lst ovr [] addr first m = (addr, first, m)"
| "t_store_list env lst ovr (k # ks) addr first m =
     (if \<not> bit lst k then t_store_list env lst ovr ks addr first m
      else
        (let v = (case ovr k first of Some w \<Rightarrow> w | None \<Rightarrow> R (cpu m) (of_nat k))
         in t_store_list env lst ovr ks (addr + 4) False (mem_write32 env addr v (\<not> first) m)))"

definition exec_t_push_pop :: "'io env \<Rightarrow> u32 \<Rightarrow> 'io mach \<Rightarrow> 'io mach" where
  "exec_t_push_pop env i m =
     (let lst = i AND 0xFF; pop = tst i 0x800; r = tst i 0x100;
          n = popcount16 lst + (if r then 1 else 0) in
      if pop then
        (let (addr, first, m1) = t_load_list env lst [0..<8] (R (cpu m) 13) True m in
         if r then
           (let (pc, m2) = mem_read32 env addr (\<not> first) m1;
                m3 = upd_cpu (set_R 13 (addr + 4)) m2
            in charge_CDI_after_jump env (jump env pc (is_arm9 (cpu m3)) m3))
         else charge_CDI env (upd_cpu (set_R 13 addr) m1))
      else
        (let addr0 = R (cpu m) 13 - n * 4; m1 = upd_cpu (set_R 13 addr0) m;
             (addr, first, m2) = t_store_list env lst (\<lambda>_ _. None) [0..<8] addr0 True m1;
             m3 = (if r then mem_write32 env addr (R (cpu m2) 14) (\<not> first) m2 else m2)
         in charge_CD env m3))"

definition exec_t_stm_ldm :: "'io env \<Rightarrow> u32 \<Rightarrow> 'io mach \<Rightarrow> 'io mach" where
  "exec_t_stm_ldm env i m =
     (let rb = fld i 8 7; lst = i AND 0xFF; load = tst i 0x800; addr = R (cpu m) rb in
      if lst = 0 then
        (if load then
           (let (v, m1) = mem_read32 env addr False m; m2 = jump env v False m1
            in charge_CDI_after_jump env (upd_cpu (set_R rb (addr + 0x40)) m2))
         else
           charge_CD env (upd_cpu (set_R rb (addr + 0x40))
             (mem_write32 env addr (R (cpu m) 15 + 2) False m)))
      else if load then
        (let (addr', _, m1) = t_load_list env lst [0..<8] addr True m
         in charge_CDI env (if \<not> bit lst (unat rb) then upd_cpu (set_R rb addr') m1 else m1))
      else
        (let wb = addr + popcount16 lst * 4;
             (_, _, m1) = t_store_list env lst
               (\<lambda>k first. if of_nat k = rb \<and> \<not> first then Some wb else None) [0..<8] addr True m
         in charge_CD env (upd_cpu (set_R rb wb) m1)))"

section \<open>The dispatcher\<close>

definition exec_t_bl_suffix :: "'io env \<Rightarrow> top \<Rightarrow> u32 \<Rightarrow> 'io mach \<Rightarrow> 'io mach" where
  "exec_t_bl_suffix env op i m =
     (if op = TOp_BlxSuffix \<and> \<not> is_arm9 (cpu m) then undefined_op env m
      else
        (let ret = (R (cpu m) 15 - 2) OR 1;
             target = R (cpu m) 14 + push_bit 1 (i AND 0x7FF);
             m1 = upd_cpu (set_R 14 ret) m
         in if op = TOp_BlxSuffix then jump env (target AND NOT 3) True m1
            else jump env (target OR 1) True m1))"

definition exec_thumb_op :: "'io env \<Rightarrow> top \<Rightarrow> u32 \<Rightarrow> 'io mach \<Rightarrow> 'io mach" where
  "exec_thumb_op env op i m =
     (case op of
        TOp_ShiftImm \<Rightarrow> charge_C (upd_cpu (t_shift_imm i) m)
      | TOp_AddSubReg \<Rightarrow> charge_C (upd_cpu (\<lambda>c. t_add_sub i (R c (fld i 6 7)) c) m)
      | TOp_AddSubImm3 \<Rightarrow> charge_C (upd_cpu (t_add_sub i (fld i 6 7)) m)
      | TOp_MovCmpAddSubImm8 \<Rightarrow> charge_C (upd_cpu (t_imm8 i) m)
      | TOp_Alu \<Rightarrow> exec_t_alu i m
      | TOp_HiRegOp \<Rightarrow> exec_t_hireg env i m
      | TOp_BxBlx \<Rightarrow> exec_t_bx env i m
      | TOp_LdrPcRel \<Rightarrow>
          load_to env (fld i 8 7)
            (mem_read32 env ((R (cpu m) 15 AND NOT 3) + push_bit 2 (i AND 0xFF)) False m)
      | TOp_LdrStrReg \<Rightarrow> exec_t_ldrstr_reg env i m
      | TOp_LdrStrImm5 \<Rightarrow> exec_t_ldrstr_imm5 env i m
      | TOp_LdrStrHImm5 \<Rightarrow> exec_t_ldrstrh_imm5 env i m
      | TOp_LdrStrSpRel \<Rightarrow> exec_t_ldrstr_sp env i m
      | TOp_AddPcSp \<Rightarrow>
          charge_C (upd_cpu (\<lambda>c. set_R (fld i 8 7)
            ((if tst i 0x800 then R c 13 else R c 15 AND NOT 3) + (i AND 0xFF) * 4) c) m)
      | TOp_AdjustSp \<Rightarrow>
          charge_C (upd_cpu (\<lambda>c. set_R 13 (if tst i 0x80 then R c 13 - (i AND 0x7F) * 4
                                           else R c 13 + (i AND 0x7F) * 4) c) m)
      | TOp_PushPop \<Rightarrow> exec_t_push_pop env i m
      | TOp_StmLdm \<Rightarrow> exec_t_stm_ldm env i m
      | TOp_BCond \<Rightarrow>
          (if \<not> check_condition (fld i 8 0xF) (CPSR (cpu m)) then charge_C m
           else jump env (R (cpu m) 15 + sext8 (ucast (i AND 0xFF)) * 2) False m)
      | TOp_Swi \<Rightarrow> exec_swi env (i AND 0xFF) m
      | TOp_Bkpt \<Rightarrow>
          (if \<not> is_arm9 (cpu m) then undefined_op env m
           else raise_exception env Exc_PrefetchAbort m)
      | TOp_B \<Rightarrow> jump env (R (cpu m) 15 + asr 20 (push_bit 21 i)) False m
      | TOp_BlPrefix \<Rightarrow>
          charge_C (upd_cpu (\<lambda>c. set_R 14 (R c 15 + asr 9 (push_bit 21 i)) c) m)
      | TOp_BlSuffix \<Rightarrow> exec_t_bl_suffix env op i m
      | TOp_BlxSuffix \<Rightarrow> exec_t_bl_suffix env op i m
      | TOp_Undefined \<Rightarrow> undefined_op env m)"

definition exec_thumb :: "'io env \<Rightarrow> u16 \<Rightarrow> 'io mach \<Rightarrow> 'io mach" where
  "exec_thumb env instr m =
     exec_thumb_op env (decode_thumb instr) (ucast instr) (set_fast_d env (ucast instr) True m)"

end
