(* ===== verification/InterpRun.thy ===== *)
theory InterpRun imports InterpThumb begin

text \<open>
  The interpreter's run loop (\<^verbatim>\<open>src/core/cpu/interp/interp.cpp\<close>) and the ARM7 BIOS
  wait-loop shortcut it takes (\<^verbatim>\<open>src/core/cpu/wait_loop.cpp\<close>).  The instruction census,
  the trace callback and the cycle log only observe.  The loop runs while the budget is
  positive; since nothing bounds a single instruction's cost from below, it is given
  fuel, and \<open>None\<close> is a loop that has not come back yet.
\<close>

section \<open>The wait loop\<close>

definition LOOP_PC :: u32 where "LOOP_PC = 0x2f08"
definition SUBS_R0_1 :: u16 where "SUBS_R0_1 = 0x3801"
definition BGT_SELF :: u16 where "BGT_SELF = 0xdcfd"

definition loop_half :: "'io env \<Rightarrow> u32 \<Rightarrow> 'io mach \<Rightarrow> u16 \<times> 'io mach" where
  "loop_half env addr m =
     (case read_ptr (cpu m) addr of
        Some p \<Rightarrow> (ld16 (host m) p, m)
      | None \<Rightarrow> (let (v, m1) = bus_fetch env addr 16 m in (ucast v, m1)))"

definition loop_at :: "'io env \<Rightarrow> u32 \<Rightarrow> 'io mach \<Rightarrow> bool \<times> 'io mach" where
  "loop_at env pc m =
     (let (h0, m1) = loop_half env pc m in
      if h0 \<noteq> SUBS_R0_1 then (False, m1\<lparr> wait_loop_r15_7 := 0 \<rparr>)
      else
        (let (h1, m2) = loop_half env (pc + 2) m1 in
         if h1 = BGT_SELF then (True, m2) else (False, m2\<lparr> wait_loop_r15_7 := 0 \<rparr>)))"

text \<open>The cost of one iteration, measured as the code measures it: charge on a budget of
  zero and read the budget back.\<close>

definition loop_cost :: "'io env \<Rightarrow> u32 \<Rightarrow> 'io mach \<Rightarrow> int \<times> 'io mach" where
  "loop_cost env pc m =
     (let m1 = upd_cpu (\<lambda>c. set_budget 0 (c\<lparr> code_cycles := drop_bit 15 pc,
                                             code_region := drop_bit 24 pc \<rparr>)) m;
          m2 = charge_C m1;
          m3 = pay (sint (fst (refill_cycles env m2 pc True))) m2
      in (- budget (cpu m3), m3))"

definition wait_loop_run :: "'io env \<Rightarrow> 'io mach \<Rightarrow> bool \<times> 'io mach" where
  "wait_loop_run env m =
     (let c = cpu m; pc = R c 15 - 4; n = sint (R c 0) in
      if n \<le> 1 \<or> halted c then (False, m)
      else if irq_unmasked c then (False, m)
      else if tracing env m \<or> step_limit c \<noteq> 0 \<or> watch_active env then (False, m)
      else
        (let b = budget c in
         if b \<le> 0 then (False, m)
         else
           (let (ok, m1) = loop_at env pc m in
            if \<not> ok then (False, m1)
            else
              (let (cost, m2) = loop_cost env pc m1; m3 = upd_cpu (set_budget b) m2 in
               if cost \<le> 0 then (False, m3)
               else
                 (let k = min (b div cost) (n - 1) in
                  if k = 0 then (False, m3)
                  else (True, upd_cpu (\<lambda>c. set_budget (b - k * cost)
                               (set_CPSR ((CPSR c AND NOT 0xF0000000) OR 0x20000000)
                                 (set_R 0 (word_of_int (n - k)) c))) m3))))))"

section \<open>One turn of the run loop\<close>

text \<open>Fetch and execute one instruction, advancing \<^verbatim>\<open>r15\<close> unless it jumped.\<close>

definition step_instr :: "'io env \<Rightarrow> 'io mach \<Rightarrow> 'io mach" where
  "step_instr env m =
     (if thumb (cpu m) then
        (let (instr, m1) = fetch16 env (R (cpu m) 15 - 4) m;
             m2 = (if is_arm9 (cpu m1) then prefetch_cost9 m1 else m1);
             m3 = exec_thumb env instr m2
         in if \<not> jumped (cpu m3) then upd_cpu (\<lambda>c. set_R 15 (R c 15 + 2) c) m3 else m3)
      else
        (let (instr, m1) = fetch32 env (R (cpu m) 15 - 8) m;
             m2 = (if is_arm9 (cpu m1) then prefetch_cost9 m1 else m1);
             m3 = exec_arm env instr m2
         in if \<not> jumped (cpu m3) then upd_cpu (\<lambda>c. set_R 15 (R c 15 + 4) c) m3 else m3))"

datatype outcome = Continue | Return

text \<open>What follows the instruction: deferred cost, halting, the interrupt check, stepping.\<close>

definition after_instr :: "'io env \<Rightarrow> int \<Rightarrow> 'io mach \<Rightarrow> outcome \<times> 'io mach" where
  "after_instr env b_before m =
     (let m1 = (if defer_cost (cpu m) \<noteq> 0
                then upd_cpu (\<lambda>c. (set_budget (budget c - defer_cost c) c)\<lparr> defer_cost := 0 \<rparr>) m
                else m) in
      if halted (cpu m1) then
        (let m2 = (if dsi env
                   then upd_cpu (\<lambda>c. set_budget b_before
                          (c\<lparr> defer_cost := defer_cost c + (b_before - budget c) \<rparr>)) m1
                   else m1)
         in (Return, upd_cpu (\<lambda>c. set_budget (-1) (c\<lparr> budget_at_halt := budget c \<rparr>)) m2))
      else
        (let m2 = (if irq_pending (hot (cpu m1)) \<noteq> 0 then check_irq env m1 else m1) in
         if step_limit (cpu m2) \<noteq> 0 then
           (let m3 = upd_cpu (\<lambda>c. c\<lparr> steps := steps c + 1 \<rparr>) m2
            in (if steps (cpu m3) \<ge> step_limit (cpu m3) then Return else Continue, m3))
         else (Continue, m2)))"

definition loop_head :: "'io mach \<Rightarrow> 'io mach" where
  "loop_head = upd_cpu (\<lambda>c. c\<lparr> data_cycles := 0, jumped := False \<rparr>)"

definition run_body :: "'io env \<Rightarrow> 'io mach \<Rightarrow> outcome \<times> 'io mach" where
  "run_body env m0 =
     (let b_before = budget (cpu m0); m = loop_head m0; c = cpu m in
      if thumb c \<and> \<not> is_arm9 c \<and> R c 15 = wait_loop_r15_7 m then
        (let (skipped, m1) = wait_loop_run env m in
         if skipped then (Continue, m1) else after_instr env b_before (step_instr env m1))
      else after_instr env b_before (step_instr env m))"

fun run_loop :: "'io env \<Rightarrow> nat \<Rightarrow> 'io mach \<Rightarrow> 'io mach option" where
  "run_loop env fuel m =
     (if budget (cpu m) \<le> 0 then Some m
      else
        (case fuel of
           0 \<Rightarrow> None
         | Suc f \<Rightarrow>
             (case run_body env m of
                (Return, m') \<Rightarrow> Some m'
              | (Continue, m') \<Rightarrow> run_loop env f m')))"

declare run_loop.simps [simp del]

definition run :: "'io env \<Rightarrow> nat \<Rightarrow> 'io mach \<Rightarrow> 'io mach option" where
  "run env fuel m =
     (let b0 = budget (cpu m); m1 = check_irq env m;
          m2 = (if dsi env \<and> budget (cpu m1) \<noteq> b0
                then upd_cpu (\<lambda>c. set_budget b0 (c\<lparr> defer_cost := defer_cost c + (b0 - budget c) \<rparr>)) m1
                else m1)
      in if halted (cpu m2) then Some (upd_cpu (set_budget (-1)) m2)
         else run_loop env fuel m2)"

end
