(* ===== verification/CpuBanks.thy ===== *)
theory CpuBanks imports CpuCore begin

text \<open>
  The banked register file as an abstract store.  The C++ keeps the live registers in
  one array and swaps banks in and out of it when the mode changes
  (\<^verbatim>\<open>switch_mode\<close>, \<^verbatim>\<open>set_cpsr\<close> in \<^verbatim>\<open>src/core/cpu/cpu.cpp\<close>).  The architecture
  promises something simpler: one value per register and bank, and a mode that selects
  which of them is visible.  \<open>arch_reg\<close> and \<open>arch_spsr\<close> read that store off a CPU
  state; the theorems say that a change of mode only changes the selection.
\<close>

section \<open>The abstract store\<close>

text \<open>Bank 0 is user and system mode, bank 1 FIQ (which also banks r8 to r12).\<close>

definition arch_reg :: "cpu_ctx \<Rightarrow> nat \<Rightarrow> u32 \<Rightarrow> u32" where
  "arch_reg c b r =
     (let cur = bank_of (CPSR c) in
      if r = 13 then (if b = cur then R c 13 else bank_r13 c b)
      else if r = 14 then (if b = cur then R c 14 else bank_r14 c b)
      else if 8 \<le> r \<and> r \<le> 12 then
        (if (b = 1) = (cur = 1) then R c r else bank_r8_r12 c (if b = 1 then 1 else 0) (r - 8))
      else R c r)"

definition arch_spsr :: "cpu_ctx \<Rightarrow> nat \<Rightarrow> u32" where
  "arch_spsr c b =
     (if b = 0 then 0 else if b = bank_of (CPSR c) then SPSR c else bank_spsr c b)"


lemma mode_insert: "((x AND NOT 0x1F) OR (m AND 0x1F)) AND 0x1F = m AND (0x1F::u32)"
  by (rule bit_word_eqI) (auto simp: bit_simps)

lemma mode_split: "(x AND NOT 0x1F) OR (x AND 0x1F) = (x::u32)"
  by (rule bit_word_eqI) (auto simp: bit_simps)

lemma bank_of_mask [simp]: "bank_of (m AND 0x1F) = bank_of m"
  by (simp add: bank_of_def and.assoc)

lemma bank_of_cong: "a AND 0x1F = b AND 0x1F \<Longrightarrow> bank_of a = bank_of b"
  by (simp add: bank_of_def)

lemma bank_of_insert [simp]: "bank_of ((x AND -0x20) OR (m AND 0x1F)) = bank_of m"
  using bank_of_cong [OF mode_insert] by simp

lemma bank_frame [simp]:
  "bank_r13 (set_CPSR v c) = bank_r13 c" "bank_r14 (set_CPSR v c) = bank_r14 c"
  "bank_spsr (set_CPSR v c) = bank_spsr c" "bank_r8_r12 (set_CPSR v c) = bank_r8_r12 c"
  by (simp_all add: cpu_defs)

lemma switch_mode_same:
  "bank_of (CPSR c) = bank_of m \<Longrightarrow>
   switch_mode m c = set_CPSR ((CPSR c AND NOT 0x1F) OR (m AND 0x1F)) c"
  using mode_split [of "CPSR c"]
  by (auto simp: switch_mode_def Let_def) (simp add: cpu_defs)

text \<open>The register file after a change of bank, read off class by class.\<close>

lemma switch_mode_other:
  assumes "bank_of (CPSR c) \<noteq> bank_of m"
  defines "ob \<equiv> bank_of (CPSR c)" and "nb \<equiv> bank_of m"
  shows "CPSR (switch_mode m c) = (CPSR c AND NOT 0x1F) OR (m AND 0x1F)"
    and "R (switch_mode m c) 13 = bank_r13 c nb"
    and "R (switch_mode m c) 14 = bank_r14 c nb"
    and "SPSR (switch_mode m c) = (if nb = 0 then 0 else bank_spsr c nb)"
    and "bank_r13 (switch_mode m c) = (bank_r13 c)(ob := R c 13)"
    and "bank_r14 (switch_mode m c) = (bank_r14 c)(ob := R c 14)"
    and "bank_spsr (switch_mode m c) = (if ob = 0 then bank_spsr c else (bank_spsr c)(ob := SPSR c))"
    and "bank_r8_r12 (switch_mode m c) =
      (if ob = 1 then (bank_r8_r12 c)(1 := copy_out5 (regs (hot c)))
       else if nb = 1 then (bank_r8_r12 c)(0 := copy_out5 (regs (hot c))) else bank_r8_r12 c)"
    and "r \<noteq> 13 \<Longrightarrow> r \<noteq> 14 \<Longrightarrow> R (switch_mode m c) r =
      (if nb = 1 then copy_in5 (bank_r8_r12 c 1) (regs (hot c)) r
       else if ob = 1 then copy_in5 (bank_r8_r12 c 0) (regs (hot c)) r else R c r)"
proof -
  have ne: "CPSR c AND 0x1F \<noteq> m AND 0x1F" and nb: "bank_of m \<noteq> bank_of (CPSR c)"
    using assms(1) by (auto dest: bank_of_cong)
  show "CPSR (switch_mode m c) = (CPSR c AND NOT 0x1F) OR (m AND 0x1F)"
     "R (switch_mode m c) 13 = bank_r13 c nb"
     "R (switch_mode m c) 14 = bank_r14 c nb"
     "SPSR (switch_mode m c) = (if nb = 0 then 0 else bank_spsr c nb)"
     "bank_r13 (switch_mode m c) = (bank_r13 c)(ob := R c 13)"
     "bank_r14 (switch_mode m c) = (bank_r14 c)(ob := R c 14)"
     "bank_spsr (switch_mode m c) = (if ob = 0 then bank_spsr c else (bank_spsr c)(ob := SPSR c))"
     "bank_r8_r12 (switch_mode m c) =
      (if ob = 1 then (bank_r8_r12 c)(1 := copy_out5 (regs (hot c)))
       else if nb = 1 then (bank_r8_r12 c)(0 := copy_out5 (regs (hot c))) else bank_r8_r12 c)"
     "r \<noteq> 13 \<Longrightarrow> r \<noteq> 14 \<Longrightarrow> R (switch_mode m c) r =
      (if nb = 1 then copy_in5 (bank_r8_r12 c 1) (regs (hot c)) r
       else if ob = 1 then copy_in5 (bank_r8_r12 c 0) (regs (hot c)) r else R c r)"
    using ne nb
    by (simp_all add: switch_mode_def Let_def load_bank_def save_bank_def cpu_defs ob_def nb_def copy_in5_def)
qed

lemma u32_8_12: "8 \<le> (r::u32) \<and> r \<le> 12 \<longleftrightarrow> r \<in> {8,9,10,11,12}"
  by (simp, unat_arith)

lemma copy_in5_app: "copy_in5 b rs r = (if 8 \<le> r \<and> r \<le> 12 then b (r - 8) else rs r)"
  by (auto simp: copy_in5_def u32_8_12)

lemma arch_reg_switch: "arch_reg (switch_mode m c) b r = arch_reg c b r"
proof (cases "bank_of (CPSR c) = bank_of m")
  case True
  then show ?thesis by (simp add: switch_mode_same arch_reg_def Let_def)
next
  case False
  note sw = switch_mode_other [OF False]
  consider "r = 13" | "r = 14" | "r \<noteq> 13 \<and> r \<noteq> 14" by blast
  then show ?thesis
  proof cases
    case 3 with False show ?thesis
      by (auto simp: arch_reg_def sw Let_def copy_in5_app copy_out5_def R_def [of c])
  qed (use False in \<open>auto simp: arch_reg_def sw Let_def\<close>)
qed

lemma arch_spsr_switch: "arch_spsr (switch_mode m c) b = arch_spsr c b"
  by (cases "bank_of (CPSR c) = bank_of m")
    (auto simp: switch_mode_same switch_mode_other arch_spsr_def)

lemma CPSR_switch_mode: "CPSR (switch_mode m c) = (CPSR c AND NOT 0x1F) OR (m AND 0x1F)"
  by (cases "bank_of (CPSR c) = bank_of m") (simp_all add: switch_mode_same switch_mode_other)

lemma arch_reg_current: "arch_reg c (bank_of (CPSR c)) r = R c r"
  by (simp add: arch_reg_def Let_def)


section \<open>Changing mode\<close>

text \<open>C1: Changing the mode refines a change of selection on the abstract banked register
  file: no register and no saved status register of any bank changes, the visible
  registers become those of the new mode's bank, and of the CPSR only the mode field
  changes.\<close>

theorem switch_mode_refines:
  "arch_reg (switch_mode m c) b r = arch_reg c b r \<and>
   arch_spsr (switch_mode m c) b = arch_spsr c b \<and>
   R (switch_mode m c) r = arch_reg c (bank_of m) r \<and>
   CPSR (switch_mode m c) = (CPSR c AND NOT 0x1F) OR (m AND 0x1F)"
  using arch_reg_current [of "switch_mode m c" r]
  by (simp add: arch_reg_switch arch_spsr_switch CPSR_switch_mode)

text \<open>The same for a write of the whole status register, and the way back: switching to
  another mode and back restores every visible register.\<close>

lemma arch_set_CPSR:
  assumes "bank_of v = bank_of (CPSR c)"
  shows "arch_reg (set_CPSR v c) b r = arch_reg c b r" "arch_spsr (set_CPSR v c) b = arch_spsr c b"
  using assms by (simp_all add: arch_reg_def arch_spsr_def Let_def)

lemma arch_set_cpsr:
  "arch_reg (set_cpsr v c) b r = arch_reg c b r"
  "arch_spsr (set_cpsr v c) b = arch_spsr c b"
  "CPSR (set_cpsr v c) = v"
proof -
  have "bank_of v = bank_of (CPSR (switch_mode (v AND 0x1F) c))"
    by (simp add: CPSR_switch_mode and.assoc)
  from arch_set_CPSR [OF this]
  show "arch_reg (set_cpsr v c) b r = arch_reg c b r" "arch_spsr (set_cpsr v c) b = arch_spsr c b"
    by (simp_all add: set_cpsr_def arch_reg_switch arch_spsr_switch)
qed (simp add: set_cpsr_def)

lemma R_set_cpsr: "R (set_cpsr v c) r = arch_reg c (bank_of v) r"
  using arch_reg_current [of "set_cpsr v c" r] by (simp add: arch_set_cpsr)

lemma switch_mode_back:
  "R (switch_mode (CPSR c) (switch_mode m c)) r = R c r"
  using arch_reg_current [of "switch_mode (CPSR c) (switch_mode m c)" r] arch_reg_current [of c r]
  by (simp add: arch_reg_switch CPSR_switch_mode)

end
