(* ===== verification/Sample.thy ===== *)
theory Sample imports CpuCore begin

text \<open>
  A concrete machine for the witnesses: every register, page and cost zero, no device
  behind the bus.  The witnesses of the CPU properties start from it and set the fields
  they need.
\<close>

definition zero_hot :: jit_hot where
  "zero_hot = \<lparr> regs = (\<lambda>_. 0), cpsr = 0, spsr = 0, cycle_budget = 0, irq_pending = 0, alerts = 0 \<rparr>"

definition zero_cpu :: cpu_ctx where
  "zero_cpu = \<lparr> which = ARM9, halted = False, preempt_residual = 0, yielded = False, jumped = False,
     hot = zero_hot, bank_r8_r12 = (\<lambda>_ _. 0), bank_r13 = (\<lambda>_. 0), bank_r14 = (\<lambda>_. 0),
     bank_spsr = (\<lambda>_. 0), cp15_control = 0, cp15_dtcm = 0, cp15_itcm = 0, pu_region = (\<lambda>_. 0),
     pu_code_cacheable = 0, pu_data_cacheable = 0, pu_data_bufferable = 0, pu_code_perm = 0,
     pu_data_perm = 0, itcm_size = 0, dtcm_base = 0, dtcm_mask = 0, code_cycles = 0,
     data_cycles = 0, code_region = 0, data_region = 0, fast_d = 0, branch_fetch = False,
     boot_stall = 0, code_latch = 0, irq_offline = False, irq_skip_once = False, defer_cost = 0,
     step_limit = 0, steps = 0, budget_at_halt = 0, page_table = (\<lambda>_. 0) \<rparr>"

definition zero_memo :: pu_memo where
  "zero_memo = \<lparr> memo_valid = False, memo_ctl = 0, memo_dc = 0, memo_cc = 0, memo_region = (\<lambda>_. 0) \<rparr>"

definition zero_mach :: "unit mach" where
  "zero_mach = \<lparr> cpu = zero_cpu, host = (\<lambda>_. 0), timing9 = (\<lambda>_ _. 1), timing7 = (\<lambda>_ _. 1),
     bus9 = (\<lambda>_ _. 1), clock9_shift = 1, pu_map = (\<lambda>_. 0), memo = zero_memo,
     wait_loop_r15_7 = 0, io = () \<rparr>"

definition zero_env :: "unit env" where
  "zero_env = \<lparr> dsi = False, g_fast_timing = False, g_fast = g_fast_default,
     bus_io_read = (\<lambda>_ _ m. (0, m)), bus_io_write = (\<lambda>_ _ _ m. m), bus_fetch = (\<lambda>_ _ m. (0, m)),
     code_write_hook = (\<lambda>_ _ m. m), bus_update_tcm = id, hle_enabled = (\<lambda>_. False),
     dsi_hle_swi = (\<lambda>_ m. (False, m)), cheats_idle = (\<lambda>_. True), vblank_line = (\<lambda>_. False),
     cheats_run = id, tracing = (\<lambda>_. False), watch_active = False \<rparr>"

lemmas sample_defs = zero_hot_def zero_cpu_def zero_memo_def zero_mach_def zero_env_def

text \<open>The processor of the sample machine in a given state: mode and flags, and registers.\<close>

definition sample_cpu :: "u32 \<Rightarrow> (u32 \<Rightarrow> u32) \<Rightarrow> cpu_ctx" where
  "sample_cpu psr rs = zero_cpu\<lparr> hot := zero_hot\<lparr> regs := rs, cpsr := psr \<rparr> \<rparr>"

definition sample_mach :: "u32 \<Rightarrow> (u32 \<Rightarrow> u32) \<Rightarrow> unit mach" where
  "sample_mach psr rs = zero_mach\<lparr> cpu := sample_cpu psr rs \<rparr>"

lemma sample_cpu_simps [simp]:
  "R (sample_cpu psr rs) = rs" "CPSR (sample_cpu psr rs) = psr" "which (sample_cpu psr rs) = ARM9"
  by (simp_all add: sample_cpu_def sample_defs cpu_defs fun_eq_iff)

lemma sample_simps [simp]:
  "R (cpu (sample_mach psr rs)) = rs" "CPSR (cpu (sample_mach psr rs)) = psr"
  "which (cpu (sample_mach psr rs)) = ARM9"
  by (simp_all add: sample_mach_def sample_cpu_def sample_defs cpu_defs fun_eq_iff)

end
