(* ===== verification/ArmSpec.thy ===== *)
theory ArmSpec imports InterpRun CpuBanks Sample begin

text \<open>
  What the ARM executor promises beyond single helpers: exception entry and return,
  conditional execution, the status register and the multiplies.
\<close>

section \<open>Interrupt entry and return\<close>

lemma R_set_SPSR_bank [simp]:
  "bank_r13 (set_SPSR v c) = bank_r13 c" "bank_r14 (set_SPSR v c) = bank_r14 c"
  "bank_r8_r12 (set_SPSR v c) = bank_r8_r12 c" "bank_spsr (set_SPSR v c) = bank_spsr c"
  "bank_r13 (set_R k v c) = bank_r13 c" "bank_r14 (set_R k v c) = bank_r14 c"
  "bank_r8_r12 (set_R k v c) = bank_r8_r12 c" "bank_spsr (set_R k v c) = bank_spsr c"
  by (simp_all add: cpu_defs)

text \<open>Writing a banked register of the current bank leaves every other bank alone.\<close>

lemma arch_reg_set_R:
  "arch_reg (set_R k v c) b r =
     (if r = k \<and> (if k = 13 \<or> k = 14 then b = bank_of (CPSR c)
                  else if 8 \<le> k \<and> k \<le> 12 then (b = 1) = (bank_of (CPSR c) = 1) else True)
      then v else arch_reg c b r)"
  by (auto simp: arch_reg_def Let_def)

lemma arch_reg_set_SPSR [simp]: "arch_reg (set_SPSR v c) b r = arch_reg c b r"
  by (simp add: arch_reg_def Let_def)

text \<open>The state an exception leaves before the vector jump.\<close>

lemma enter_exception_effect:
  fixes c :: cpu_ctx and e :: exception_kind
  defines "c' \<equiv> enter_exception e c" and "nb \<equiv> bank_of (exc_mode e)"
  shows "SPSR c' = CPSR c" "R c' 14 = R c 15 - word_of_int (exc_lr_adj e (thumb c))"
    "bank_of (CPSR c') = nb" "\<not> tst (CPSR c') 0x20" "tst (CPSR c') 0x80"
    "b \<noteq> nb \<or> r \<noteq> 14 \<Longrightarrow> arch_reg c' b r = arch_reg c b r"
proof -
  define c1 where "c1 = set_R 14 (R c 15 - word_of_int (exc_lr_adj e (thumb c)))
     (set_SPSR (CPSR c) (switch_mode (exc_mode e) c))"
  define f where "f = (if e = Exc_Fiq \<or> e = Exc_Reset \<or> e = Exc_Irq then 0x40 else (0::u32))"
  have e: "c' = set_CPSR (CPSR c1 AND NOT 0x20 OR (0x80 OR f)) c1"
    by (simp add: c'_def enter_exception_def Let_def c1_def f_def or.assoc) (simp add: set_CPSR_def)
  have f: "f AND 0x1F = 0" "f AND 0x20 = 0" by (simp_all add: f_def)
  have low: "(x AND NOT 0x20 OR (0x80 OR f)) AND 0x1F = x AND (0x1F::u32)" for x
    using f(1) by (simp add: bit.conj_disj_distrib2 and.assoc)
  have b1: "bank_of (CPSR c1) = nb"
    by (simp add: c1_def CPSR_switch_mode nb_def)
  have b: "bank_of (CPSR c1 AND NOT 0x20 OR (0x80 OR f)) = bank_of (CPSR c1)"
    by (rule bank_of_cong) (rule low)
  show "SPSR c' = CPSR c" "R c' 14 = R c 15 - word_of_int (exc_lr_adj e (thumb c))"
    by (simp_all add: e c1_def)
  show "bank_of (CPSR c') = nb" using b b1 by (simp add: e)
  show "\<not> tst (CPSR c') 0x20" "tst (CPSR c') 0x80"
    using f(2) by (simp_all add: e tst_def bit.conj_disj_distrib2 and.assoc f_def)
  have "arch_reg c' b r = arch_reg c1 b r"
    using arch_set_CPSR(1) [OF b] by (simp add: e)
  then show "b \<noteq> nb \<or> r \<noteq> 14 \<Longrightarrow> arch_reg c' b r = arch_reg c b r"
    by (auto simp: c1_def arch_reg_set_R arch_reg_switch CPSR_switch_mode nb_def)
qed

text \<open>The return instruction of an interrupt handler, \<^verbatim>\<open>SUBS pc, lr, #4\<close>.\<close>

lemma decode_subs_pc_lr: "decode_arm 0xE25EF004 = AOp_DpImm"
  by (simp add: decode_arm_def arm_index_def classify_arm_def fld_def tst_def)

lemma set_fast_d_frame [frame_simps]:
  "R (cpu (set_fast_d env i th m)) r = R (cpu m) r" "CPSR (cpu (set_fast_d env i th m)) = CPSR (cpu m)"
  "SPSR (cpu (set_fast_d env i th m)) = SPSR (cpu m)"
  "which (cpu (set_fast_d env i th m)) = which (cpu m)" "host (set_fast_d env i th m) = host m"
  "bank_r13 (cpu (set_fast_d env i th m)) = bank_r13 (cpu m)"
  "bank_r14 (cpu (set_fast_d env i th m)) = bank_r14 (cpu m)"
  "bank_r8_r12 (cpu (set_fast_d env i th m)) = bank_r8_r12 (cpu m)"
  by (simp_all add: set_fast_d_def) (simp_all add: cpu_defs)

lemma bank_charge_C [frame_simps]:
  "bank_r13 (cpu (charge_C m)) = bank_r13 (cpu m)" "bank_r14 (cpu (charge_C m)) = bank_r14 (cpu m)"
  "bank_r8_r12 (cpu (charge_C m)) = bank_r8_r12 (cpu m)"
  by (simp_all add: charge_C_def pay_def set_budget_def)

lemma arch_reg_cong:
  assumes "CPSR c' = CPSR c" "R c' r = R c r" "bank_r13 c' = bank_r13 c" "bank_r14 c' = bank_r14 c"
    "bank_r8_r12 c' = bank_r8_r12 c"
  shows "arch_reg c' b r = arch_reg c b r"
  using assms by (cases "r = 13"; cases "r = 14") (simp_all add: arch_reg_def Let_def)

lemma arch_reg_frame [frame_simps]:
  "arch_reg (cpu (charge_C m)) b r = arch_reg (cpu m) b r"
  "arch_reg (cpu (set_fast_d env i th m)) b r = arch_reg (cpu m) b r"
  by (rule arch_reg_cong; simp add: frame_simps)+

lemma bank_jump [frame_simps]:
  "bank_r13 (cpu (jump env a False m)) = bank_r13 (cpu m)"
  "bank_r14 (cpu (jump env a False m)) = bank_r14 (cpu m)"
  "bank_r8_r12 (cpu (jump env a False m)) = bank_r8_r12 (cpu m)"
  by (simp_all add: jump_def jump_refill_def jump_state_def Let_def pay_def cpu_defs split: prod.split)

lemma arch_reg_jump:
  "r \<noteq> 15 \<Longrightarrow> arch_reg (cpu (jump env a False m)) b r = arch_reg (cpu m) b r"
  by (intro arch_reg_cong) (simp_all add: frame_simps)

lemma exec_subs_pc_lr:
  fixes h :: "'io mach" and env :: "'io env"
  defines "h' \<equiv> exec_arm env 0xE25EF004 h" and "psr \<equiv> SPSR (cpu h)"
  shows "CPSR (cpu h') = psr"
    "r \<noteq> 15 \<Longrightarrow> R (cpu h') r = arch_reg (cpu h) (bank_of psr) r"
    "R (cpu h') 15 = (let a = R (cpu h) 14 - 4 in
       if tst psr 0x20 then (a AND NOT 1) + 4 else (a AND NOT 3) + 8)"
proof -
  define m where "m = upd_cpu restore_cpsr (charge_C (set_fast_d env 0xE25EF004 False h))"
  have rot: "rotr32 4 0 = 4" by (simp add: rotr32_def)
  have "h' = jump env (R (cpu h) 14 - 4) False m"
    by (simp add: h'_def exec_arm_def Let_def exec_arm_op_def decode_subs_pc_lr dp_operands_def
        data_processing_def dp_plain_def fld_def tst_def rot m_def frame_simps upd_cpu_def)
  moreover have "CPSR (cpu m) = psr"
    "\<And>r. R (cpu m) r = arch_reg (cpu h) (bank_of psr) r"
    by (simp_all add: m_def restore_cpsr_def arch_set_cpsr R_set_cpsr frame_simps psr_def)
  ultimately show "CPSR (cpu h') = psr"
    "r \<noteq> 15 \<Longrightarrow> R (cpu h') r = arch_reg (cpu h) (bank_of psr) r"
    "R (cpu h') 15 = (let a = R (cpu h) 14 - 4 in
       if tst psr 0x20 then (a AND NOT 1) + 4 else (a AND NOT 3) + 8)"
    by (simp_all add: frame_simps jump_pc thumb_def Let_def)
qed

text \<open>An interrupt is transparent to the program it interrupts: from any mode but IRQ mode,
  in either instruction set, entering the interrupt and running any handler that saves
  the interrupted program's registers and returns through \<^verbatim>\<open>SUBS pc, lr, #4\<close>
  (\<^verbatim>\<open>0xE25EF004\<close>) puts back the status register, every visible register and the
  program counter.\<close>

theorem irq_return_restores:
  fixes m h :: "'io mach" and env :: "'io env"
  defines "m1 \<equiv> raise_exception env Exc_Irq m" and "h' \<equiv> exec_arm env 0xE25EF004 h"
  assumes mode: "bank_of (CPSR (cpu m)) \<noteq> 2"
    and aligned: "R (cpu m) 15 AND (if thumb (cpu m) then 1 else 3) = 0"
    and handler: "SPSR (cpu h) = SPSR (cpu m1)" "R (cpu h) 14 = R (cpu m1) 14"
      "\<And>k. k \<noteq> 15 \<Longrightarrow> arch_reg (cpu h) (bank_of (CPSR (cpu m))) k
                   = arch_reg (cpu m1) (bank_of (CPSR (cpu m))) k"
  shows "CPSR (cpu h') = CPSR (cpu m) \<and> R (cpu h') r = R (cpu m) r"
proof -
  let ?c = "cpu m" and ?e = "enter_exception Exc_Irq (cpu m)"
  note ent = enter_exception_effect [where e = Exc_Irq and c = ?c]
  have nb: "bank_of 18 = 2" by (simp add: bank_of_def)
  have m1: "SPSR (cpu m1) = CPSR ?c" "R (cpu m1) 14 = R ?c 15 - (if thumb ?c then 0 else 4)"
    using ent(1,2) by (simp_all add: m1_def raise_exception_def Let_def frame_simps)
  have "arch_reg (cpu m1) b k = arch_reg ?e b k" if "k \<noteq> 15" for b k
    using that by (simp add: m1_def raise_exception_def Let_def arch_reg_jump)
  then have old: "arch_reg (cpu m1) (bank_of (CPSR ?c)) k = R ?c k" if "k \<noteq> 15" for k
    using that mode ent(6) [where b = "bank_of (CPSR ?c)" and r = k] by (simp add: nb arch_reg_current)
  have pc: "R (cpu h') 15 = R ?c 15"
    using aligned align_sub [of "R ?c 15"]
    by (cases "thumb ?c") (simp_all add: h'_def exec_subs_pc_lr handler m1 Let_def thumb_def)
  show ?thesis
    using pc old handler by (cases "r = 15") (simp_all add: h'_def exec_subs_pc_lr m1)
qed

theorem irq_return_restores_witness:
  "CPSR (cpu (exec_arm zero_env 0xE25EF004
      (raise_exception zero_env Exc_Irq (sample_mach 0x1F ((\<lambda>_. 7)(15 := 0x2000008)))))) = 0x1F"
  using irq_return_restores [where env = zero_env and m = "sample_mach 0x1F ((\<lambda>_. 7)(15 := 0x2000008))"
      and h = "raise_exception zero_env Exc_Irq (sample_mach 0x1F ((\<lambda>_. 7)(15 := 0x2000008)))" and r = 0]
  by (simp add: bank_of_def thumb_def tst_def)

section \<open>The data-processing operations\<close>

lemma set_nzc_carry: "set_nzc r (carry c) c = set_nz r c"
proof -
  have "(CPSR c AND NOT (FLAG_N OR FLAG_Z OR FLAG_C)) OR (r AND FLAG_N) OR z_flag r
       OR (if carry c then FLAG_C else 0)
     = (CPSR c AND NOT (FLAG_N OR FLAG_Z)) OR (r AND FLAG_N) OR z_flag r"
    by (rule bit_word_eqI) (auto simp: bit_simps word_fields carry_def z_flag_def)
  then show ?thesis by (simp add: set_nzc_def set_nz_def)
qed

lemma arith_result:
  "fst (add_flags a b (b2w ci) c) = a + b + b2w ci"
  "fst (sub_flags a b (b2w ci) c) = a - b - b2w (\<not> ci)"
proof -
  have k: "(b2w ci :: u32) = 0 \<or> (b2w ci :: u32) = 1" by (simp add: b2w_def)
  show "fst (add_flags a b (b2w ci) c) = a + b + b2w ci"
    using uint_add_carry(4) [OF k] by (simp add: add_flags_def Let_def)
  show "fst (sub_flags a b (b2w ci) c) = a - b - b2w (\<not> ci)"
    using uint_add_carry(4) [OF k, of a "NOT b"]
    by (cases ci) (simp_all add: sub_flags_def Let_def not_eq_complement)
qed

text \<open>The carry-in the opcodes use, 0 and 1 for the plain addition and subtraction.\<close>

lemma arith_result_const:
  "fst (add_flags a b 0 c) = a + b" "fst (sub_flags a b 1 c) = a - b"
  using arith_result(1) [of a b False c] arith_result(2) [of a b True c] by simp_all

text \<open>The S bit decides about flags only: for each of the sixteen data-processing opcodes
  the flag-setting path and the plain path of \<^verbatim>\<open>data_processing\<close> write back under the same
  condition and, when they do, the same value.\<close>

theorem dp_paths_agree:
  "(let (r, w, c') = dp_flags opcode rn op2 sc c; (r', w') = dp_plain opcode rn op2 (carry c)
    in (if w then Some r else None) = (if w' then Some r' else None))"
proof -
  have split: "(case x of (r, c') \<Rightarrow> \<lambda>w. (r, w, c')) w = (fst x, w, snd x)" for x :: "u32 \<times> cpu_ctx" and w :: bool
    by (cases x) simp
  show ?thesis
    unfolding dp_flags_def dp_plain_def Let_def split
    by (simp add: arith_result arith_result_const)
qed

section \<open>The long multiplies\<close>

definition mul_value :: "aop \<Rightarrow> u32 \<Rightarrow> u32 \<Rightarrow> u32 \<Rightarrow> u32 \<Rightarrow> int" where
  "mul_value op a b hi lo =
     (if op = AOp_Umull \<or> op = AOp_Umlal then uint a * uint b else sint a * sint b)
     + (if op = AOp_Umlal \<or> op = AOp_Smlal then uint hi * 2 ^ 32 + uint lo else 0)"

text \<open>The four long multiplies: with distinct destinations the register pair holds the exact
  64-bit product, unsigned or signed, plus the old pair for the accumulating forms, modulo
  $2^{64}$; with S set, Z and N describe the whole 64-bit result; no other register changes.\<close>

theorem exec_mull_product:
  fixes m :: "'io mach" and instr :: u32 and op :: aop
  defines "hi \<equiv> fld instr 16 0xF" and "lo \<equiv> fld instr 12 0xF"
  defines "c \<equiv> cpu m" and "c' \<equiv> cpu (exec_mull op instr m)"
  defines "v \<equiv> mul_value op (R c (instr AND 0xF)) (R c (fld instr 8 0xF)) (R c hi) (R c lo) mod 2 ^ 64"
  assumes "hi \<noteq> lo"
  shows "uint (R c' hi) * 2 ^ 32 + uint (R c' lo) = v \<and>
    (tst instr 0x100000 \<longrightarrow> tst (CPSR c') FLAG_Z = (v = 0) \<and> tst (CPSR c') FLAG_N = (2 ^ 63 \<le> v)) \<and>
    (\<forall>k. k \<noteq> hi \<and> k \<noteq> lo \<longrightarrow> R c' k = R c k)"
proof -
  define a where "a = R c (instr AND 0xF)"
  define b where "b = R c (fld instr 8 0xF)"
  define r0 where "r0 = (if op = AOp_Umull \<or> op = AOp_Umlal then (ucast a :: u64) * ucast b
                else word_of_int (sint a * sint b))"
  define r where "r = (if op = AOp_Umlal \<or> op = AOp_Smlal
               then r0 + (push_bit 32 (ucast (R c hi)) OR ucast (R c lo)) else r0)"
  have r0: "uint r0 = (if op = AOp_Umull \<or> op = AOp_Umlal then uint a * uint b else sint a * sint b) mod 2 ^ 64"
  proof -
    have "uint (word_of_int (sint a * sint b) :: u64) = sint a * sint b mod 2 ^ 64"
      by (simp only: uint_word_of_int) simp
    moreover have "uint ((ucast a :: u64) * ucast b) = uint a * uint b mod 2 ^ 64"
      by (simp add: uint_word_ariths unsigned_ucast_eq take_bit_eq_mod mod_simps)
    ultimately show ?thesis unfolding r0_def
      by (cases "op = AOp_Umull \<or> op = AOp_Umlal") (simp_all only: if_True if_False)
  qed
  have r: "uint r = v"
    by (simp add: r_def uint_word_ariths r0 join64 v_def mul_value_def a_def [symmetric] b_def [symmetric] mod_simps)
  define c1 where "c1 = set_R hi (ucast (drop_bit 32 r)) (set_R lo (ucast r) c)"
  define psr where "psr = (if tst instr 0x100000 then 
      (let p = (CPSR c AND NOT (FLAG_N OR FLAG_Z)) OR (ucast (drop_bit 32 r) AND FLAG_N) OR (if r = 0 then FLAG_Z else 0)
       in if is_arm9 c then p else p AND NOT FLAG_C) else CPSR c)"
  have regs: "R c' k = R c1 k" and psr: "CPSR c' = psr" for k
    by (simp_all add: c'_def exec_mull_def Let_def frame_simps c1_def psr_def r_def r0_def a_def b_def hi_def lo_def c_def is_arm9_def)
  have "uint (R c' hi) * 2 ^ 32 + uint (R c' lo) = v"
    using assms(6) split64 [of r] by (simp add: regs c1_def r)
  moreover have "tst psr FLAG_Z = (v = 0) \<and> tst psr FLAG_N = (2 ^ 63 \<le> v)" if "tst instr 0x100000"
    using that uint_bit63 [of r] uint_0_iff [of r]
    by (simp add: psr_def Let_def flag_bits bit_simps bit_flags r)
  moreover have "k \<noteq> hi \<and> k \<noteq> lo \<longrightarrow> R c' k = R c k" for k by (simp add: regs c1_def)
  ultimately show ?thesis by (simp add: psr)
qed

theorem exec_mull_product_witness:
  "uint (R (cpu (exec_mull AOp_Umull 0xE0912394 (sample_mach 0x10 ((\<lambda>_. 0)(3 := 0xFFFFFFFF, 4 := 2))))) 1) * 2 ^ 32
   + uint (R (cpu (exec_mull AOp_Umull 0xE0912394 (sample_mach 0x10 ((\<lambda>_. 0)(3 := 0xFFFFFFFF, 4 := 2))))) 2)
   = 0x1FFFFFFFE"
  using exec_mull_product [of "0xE0912394" AOp_Umull "sample_mach 0x10 ((\<lambda>_. 0)(3 := 0xFFFFFFFF, 4 := 2))"]
  by (simp add: fld_def mul_value_def)

section \<open>Writes of the status register\<close>

lemma bit_top8: "n < 32 \<Longrightarrow> bit (0xFF000000::u32) n \<longleftrightarrow> 24 \<le> n"
proof -
  have "(0xFF000000::u32) = NOT (mask 24)" by (simp add: mask_eq_exp_minus_1)
  then show "n < 32 \<Longrightarrow> bit (0xFF000000::u32) n \<longleftrightarrow> 24 \<le> n" by (simp only: bit_simps) auto
qed

lemma bit_low24: "bit (0x00FFFFFF::u32) n \<longleftrightarrow> n < 24"
proof -
  have "(0x00FFFFFF::u32) = mask 24" by (simp add: mask_eq_exp_minus_1)
  then show ?thesis by (simp only: bit_simps) auto
qed

lemma and_low24: "(x AND 0x00FFFFFF) AND 0x1F = x AND (0x1F::u32)"
  by (simp add: and.assoc)

lemma msr_cpsr:
  fixes m :: "'io mach" and instr x :: u32
  defines "c \<equiv> cpu m"
  defines "wm \<equiv> (if CPSR c AND 0x1F = 0x10 then msr_mask (fld instr 16 0xF) AND 0xFF000000
                   else msr_mask (fld instr 16 0xF)) AND NOT 0x20"
  assumes "\<not> tst instr 0x400000"
  shows "cpu (msr instr x m) = set_cpsr ((CPSR c AND NOT wm) OR (x AND wm)) (cpu (charge_C m))"
  using assms by (simp add: msr_def Let_def frame_simps)

text \<open>C3: A status-register write never switches instruction set, and in user mode it changes
  nothing but the top byte: mode, interrupt masks, every general register and every banked
  register stay as they were.\<close>

theorem msr_user_mode_confined:
  fixes m :: "'io mach" and instr x :: u32
  defines "c' \<equiv> cpu (msr instr x m)"
  assumes cpsr: "\<not> tst instr 0x400000"
  shows "thumb c' = thumb (cpu m) \<and>
    (CPSR (cpu m) AND 0x1F = 0x10 \<longrightarrow>
       CPSR c' AND 0x00FFFFFF = CPSR (cpu m) AND 0x00FFFFFF \<and>
       R c' r = R (cpu m) r \<and> arch_reg c' b r = arch_reg (cpu m) b r)"
proof -
  let ?c = "cpu m" and ?u = "CPSR (cpu m) AND 0x1F = 0x10"
  define wm where "wm = (if ?u then msr_mask (fld instr 16 0xF) AND 0xFF000000
                   else msr_mask (fld instr 16 0xF)) AND NOT 0x20"
  define v where "v = (CPSR ?c AND NOT wm) OR (x AND wm)"
  have c': "c' = set_cpsr v (cpu (charge_C m))"
    using msr_cpsr [OF cpsr, of x m] by (simp add: c'_def v_def wm_def)
  have "bit v 5 = bit (CPSR ?c) 5"
    by (simp add: v_def wm_def bit_simps)
  then have "thumb c' = thumb ?c"
    using tst_bit [of v 5] tst_bit [of "CPSR ?c" 5] by (simp add: thumb_def c' arch_set_cpsr)
  moreover have low: "v AND 0x00FFFFFF = CPSR ?c AND 0x00FFFFFF" if "?u"
  proof -
    have "bit v n = bit (CPSR ?c) n" if "n < 24" for n
      using that \<open>?u\<close> bit_top8 [of n] by (simp add: v_def wm_def bit_simps)
    then show ?thesis by (intro bit_word_eqI) (simp only: bit_and_iff bit_low24, blast)
  qed
  moreover have "R c' r = R ?c r" if "?u"
  proof -
    have "bank_of v = bank_of (CPSR ?c)"
      using low [OF that] by (intro bank_of_cong) (metis and_low24)
    then show ?thesis by (simp add: c' R_set_cpsr frame_simps arch_reg_current)
  qed
  ultimately show ?thesis by (simp add: c' arch_set_cpsr frame_simps)
qed

theorem msr_user_mode_confined_witness:
  "CPSR (cpu (msr 0xE129F000 0xFFFFFFFF (sample_mach 0x10 (\<lambda>_. 3)))) AND 0x00FFFFFF = 0x10"
  using msr_user_mode_confined [of "0xE129F000" "0xFFFFFFFF" "sample_mach 0x10 (\<lambda>_. 3)"]
  by (simp add: tst_def)

section \<open>Cases the dispatch never reaches\<close>

definition dp_ops :: "aop set" where
  "dp_ops = {AOp_DpImm, AOp_DpImmShift, AOp_DpRegShift}"

lemma arm_index_hi:
  "fld (drop_bit 4 (arm_index i)) 3 3 = fld i 23 3" "tst (drop_bit 4 (arm_index i)) 1 = tst i 0x100000"
proof -
  have m: "(0xFF0::u32) = push_bit 4 (mask 8)" "(0xF::u32) = mask 4" "(3::u32) = mask 2"
    by (simp_all add: mask_eq_exp_minus_1)
  show "fld (drop_bit 4 (arm_index i)) 3 3 = fld i 23 3"
    unfolding fld_def arm_index_def m by (rule bit_word_eqI) (auto simp: bit_simps)
  have "bit (drop_bit 4 (arm_index i)) 0 = bit i 20"
    unfolding arm_index_def m by (simp add: bit_simps)
  then show "tst (drop_bit 4 (arm_index i)) 1 = tst i 0x100000"
    using tst_bit [of "drop_bit 4 (arm_index i)" 0] tst_bit [of i 20] by simp
qed

lemma compare_opcode: "fld i 21 0xF \<in> {8, 9, 0xA, 0xB} \<Longrightarrow> fld (i::u32) 23 3 = 2"
proof -
  have m: "(0xF::u32) = mask 4" "(3::u32) = mask 2" by (simp_all add: mask_eq_exp_minus_1)
  have "fld i 23 3 = drop_bit 2 (fld i 21 0xF)"
    unfolding fld_def m by (rule bit_word_eqI) (auto simp: bit_simps)
  then show "fld i 21 0xF \<in> {8, 9, 0xA, 0xB} \<Longrightarrow> fld i 23 3 = 2" by auto
qed

lemma classify_sub_dead:
  "classify_mul hi \<notin> insert AOp_BlxImm (insert AOp_Pld dp_ops)"
  "classify_misc hi lo \<notin> insert AOp_BlxImm (insert AOp_Pld dp_ops)"
  by (simp_all add: classify_mul_def classify_misc_def Let_def dp_ops_def)

lemma classify_arm_dp:
  assumes "classify_arm idx \<in> dp_ops"
  shows "\<not> (fld (drop_bit 4 idx) 3 3 = 2 \<and> \<not> tst (drop_bit 4 idx) 1)"
  using assms classify_sub_dead(1) [of "drop_bit 4 idx"] classify_sub_dead(2) [of "drop_bit 4 idx" "idx AND 0xF"]
  by (auto simp: classify_arm_def Let_def dp_ops_def split: if_splits)

lemma classify_arm_dead: "classify_arm idx \<noteq> AOp_BlxImm" "classify_arm idx \<noteq> AOp_Pld"
  using classify_sub_dead(1) [of "drop_bit 4 idx"] classify_sub_dead(2) [of "drop_bit 4 idx" "idx AND 0xF"]
  by (auto simp: classify_arm_def Let_def dp_ops_def)

text \<open>The cases the executor declares dead are dead: the decoder never yields
  \<^verbatim>\<open>BlxImm\<close> or \<^verbatim>\<open>Pld\<close> (both live in the unconditional space), and no TST, TEQ, CMP or CMN
  with the S bit clear is ever classified as data processing.\<close>

theorem decode_dead_cases:
  "decode_arm i \<notin> {AOp_BlxImm, AOp_Pld} \<and>
   \<not> (decode_arm i \<in> {AOp_DpImm, AOp_DpImmShift, AOp_DpRegShift} \<and>
      fld i 21 0xF \<in> {8, 9, 0xA, 0xB} \<and> \<not> tst i 0x100000)"
  using classify_arm_dead [of "arm_index i"] classify_arm_dp [of "arm_index i"] compare_opcode [of i]
  by (auto simp: decode_arm_def dp_ops_def arm_index_hi)

end
