(* ===== verification/ThumbSpec.thy ===== *)
theory ThumbSpec imports ArmSpec begin

text \<open>
  What the Thumb executor promises: its sixteen register operations are the ARM
  instructions they stand for, and its two-halfword branch with link goes where the
  encoded 22-bit offset says.
\<close>

section \<open>The two executors agree\<close>

text \<open>The ARM instruction each of the sixteen Thumb ALU operations stands for, after the instruction set's
  own table: \<open>d\<close> is the register that is read and written, \<open>s\<close> the other operand.  The first
  group are register operations with S set, the shifts are \<^verbatim>\<open>MOVS d, d, <shift> s\<close>, NEG is
  \<^verbatim>\<open>RSBS d, s, #0\<close> and MUL is \<^verbatim>\<open>MULS d, s, d\<close>.\<close>

definition thumb_alu_as_arm :: "u32 \<Rightarrow> u32 \<Rightarrow> u32 \<Rightarrow> u32" where
  "thumb_alu_as_arm k d s =
     (let reg = (\<lambda>base. base OR push_bit 16 d OR push_bit 12 d OR s);
          cmp = (\<lambda>base. base OR push_bit 16 d OR s);
          shft = (\<lambda>base. base OR push_bit 12 d OR push_bit 8 s OR d)
      in if k = 0x0 then reg 0xE0100000
         else if k = 0x1 then reg 0xE0300000
         else if k = 0x2 then shft 0xE1B00010
         else if k = 0x3 then shft 0xE1B00030
         else if k = 0x4 then shft 0xE1B00050
         else if k = 0x5 then reg 0xE0B00000
         else if k = 0x6 then reg 0xE0D00000
         else if k = 0x7 then shft 0xE1B00070
         else if k = 0x8 then cmp 0xE1100000
         else if k = 0x9 then 0xE2700000 OR push_bit 16 s OR push_bit 12 d
         else if k = 0xA then cmp 0xE1500000
         else if k = 0xB then cmp 0xE1700000
         else if k = 0xC then reg 0xE1900000
         else if k = 0xD then 0xE0100090 OR push_bit 16 d OR push_bit 8 d OR s
         else if k = 0xE then reg 0xE1D00000
         else 0xE1F00000 OR push_bit 12 d OR s)"

lemma fld_cases16: "fld i 6 0xF \<in> {0,1,2,3,4,5,6,7,8,9,0xA,0xB,0xC,0xD,0xE,0xF::u32}"
proof -
  have "unat (fld i 6 0xF) = unat (drop_bit 6 i) mod 16"
    using unat_and_mask [of "drop_bit 6 i" 4] by (simp add: fld_def mask_eq_exp_minus_1)
  then have "unat (fld i 6 0xF) < 16" by simp
  then have "fld i 6 0xF < 16" by (simp add: word_less_nat_alt)
  then show ?thesis by (simp, unat_arith)
qed

text \<open>A low register number, and what the fields of an instruction word that holds it say.\<close>

definition low_reg :: "u32 \<Rightarrow> bool" where
  "low_reg d \<longleftrightarrow> d \<in> {0,1,2,3,4,5,6,7}"

lemma low_reg_and: "low_reg (x AND 7)"
proof -
  have "unat (x AND 7) = unat x mod 8"
    using unat_and_mask [of x 3] by (simp add: mask_eq_exp_minus_1)
  then have "x AND 7 < 8" by (simp add: word_less_nat_alt)
  then show ?thesis by (simp add: low_reg_def, unat_arith)
qed

lemma fld_or: "fld (a OR b) n m = fld a n m OR fld b n m" "(a OR b) AND m = (a AND m) OR (b AND m)"
  "tst (a OR b) m \<longleftrightarrow> tst a m \<or> tst b m"
  by (simp_all add: fld_def bit.conj_disj_distrib2 tst_def or_eq_0_iff)

lemma low_fields:
  assumes "low_reg d"
  shows "fld d 16 0xF = 0" "fld d 12 0xF = 0" "fld d 8 0xF = 0" "d AND 0xF = d" "fld d 21 0xF = 0" "fld d 5 3 = 0" "fld d 7 0x1F = 0"
    "fld (push_bit 16 d) 16 0xF = d" "fld (push_bit 16 d) 12 0xF = 0" "fld (push_bit 16 d) 8 0xF = 0" "push_bit 16 d AND 0xF = 0"
    "fld (push_bit 16 d) 21 0xF = 0" "fld (push_bit 16 d) 5 3 = 0" "fld (push_bit 16 d) 7 0x1F = 0"
    "fld (push_bit 12 d) 16 0xF = 0" "fld (push_bit 12 d) 12 0xF = d" "fld (push_bit 12 d) 8 0xF = 0" "push_bit 12 d AND 0xF = 0"
    "fld (push_bit 12 d) 21 0xF = 0" "fld (push_bit 12 d) 5 3 = 0" "fld (push_bit 12 d) 7 0x1F = 0"
    "fld (push_bit 8 d) 16 0xF = 0" "fld (push_bit 8 d) 12 0xF = 0" "fld (push_bit 8 d) 8 0xF = d" "push_bit 8 d AND 0xF = 0"
    "fld (push_bit 8 d) 21 0xF = 0" "fld (push_bit 8 d) 5 3 = 0"
    "\<not> tst d 0x100000" "\<not> tst (push_bit 16 d) 0x100000" "\<not> tst (push_bit 12 d) 0x100000" "\<not> tst (push_bit 8 d) 0x100000"
    "push_bit 16 d AND 0xFF = 0" "push_bit 12 d AND 0xFF = 0" "d \<noteq> 15"
    "arm_index d = 0" "arm_index (push_bit 16 d) = 0" "arm_index (push_bit 12 d) = 0" "arm_index (push_bit 8 d) = 0"
  using assms unfolding low_reg_def by (elim insertE, simp_all add: fld_def tst_def arm_index_def)+

lemma arm_index_or: "arm_index (a OR b) = arm_index a OR arm_index b"
  unfolding arm_index_def by (rule bit_word_eqI) (auto simp: bit_simps)

lemma arm_index_bases:
  "arm_index 0xE0100000 = 0x010" "arm_index 0xE0300000 = 0x030" "arm_index 0xE1B00010 = 0x1B1" "arm_index 0xE1B00030 = 0x1B3"
  "arm_index 0xE1B00050 = 0x1B5" "arm_index 0xE0B00000 = 0x0B0" "arm_index 0xE0D00000 = 0x0D0" "arm_index 0xE1B00070 = 0x1B7"
  "arm_index 0xE1100000 = 0x110" "arm_index 0xE2700000 = 0x270" "arm_index 0xE1500000 = 0x150" "arm_index 0xE1700000 = 0x170"
  "arm_index 0xE1900000 = 0x190" "arm_index 0xE0100090 = 0x019" "arm_index 0xE1D00000 = 0x1D0" "arm_index 0xE1F00000 = 0x1F0"
  by (simp_all add: arm_index_def)

lemma classify_bases:
  "classify_arm 0x010 = AOp_DpImmShift" "classify_arm 0x030 = AOp_DpImmShift" "classify_arm 0x0B0 = AOp_DpImmShift"
  "classify_arm 0x0D0 = AOp_DpImmShift" "classify_arm 0x110 = AOp_DpImmShift" "classify_arm 0x150 = AOp_DpImmShift"
  "classify_arm 0x170 = AOp_DpImmShift" "classify_arm 0x190 = AOp_DpImmShift" "classify_arm 0x1D0 = AOp_DpImmShift"
  "classify_arm 0x1F0 = AOp_DpImmShift" "classify_arm 0x270 = AOp_DpImm" "classify_arm 0x019 = AOp_Mul"
  "classify_arm 0x1B1 = AOp_DpRegShift" "classify_arm 0x1B3 = AOp_DpRegShift" "classify_arm 0x1B5 = AOp_DpRegShift"
  "classify_arm 0x1B7 = AOp_DpRegShift"
  by code_simp+

text \<open>A charge does not look at the low registers.\<close>

lemma charge_set_R:
  assumes "d \<noteq> 15"
  shows "upd_cpu (set_R d v) (charge_C m) = charge_C (upd_cpu (set_R d v) m)"
    "upd_cpu (set_R d v) (charge_CI k m) = charge_CI k (upd_cpu (set_R d v) m)"
proof -
  have p: "upd_cpu (set_R d v) (pay n m) = pay n (upd_cpu (set_R d v) m)" for n
    by (simp add: pay_def cpu_defs)
  have c: "code_cycles (set_R d v c) = code_cycles c" "thumb (set_R d v c) = thumb c" for c
    by (simp_all add: cpu_defs)
  have n: "num_c9 (set_R d v c) = num_c9 c" for c using assms by (simp add: num_c9_def c)
  show "upd_cpu (set_R d v) (charge_C m) = charge_C (upd_cpu (set_R d v) m)"
    "upd_cpu (set_R d v) (charge_CI k m) = charge_CI k (upd_cpu (set_R d v) m)"
    by (simp_all add: charge_C_def charge_CI_def p n c code_cost7_def)
qed

lemma exec_dp_arm:
  assumes "decode_arm w \<in> {AOp_DpImm, AOp_DpImmShift, AOp_DpRegShift}" "dp_operands (decode_arm w) w (cpu m) = (op2, sc, x, n)"
    "tst w 0x100000" "fld w 12 0xF = d" "d \<noteq> 15" "dp_flags (fld w 21 0xF) x op2 sc (cpu m) = (r, wr, c)"
  shows "exec_arm_op env (decode_arm w) w m =
    (let m1 = (if wr then upd_cpu (\<lambda>_. set_R d r c) m else upd_cpu (\<lambda>_. c) m) in if n \<noteq> 0 then charge_CI n m1 else charge_C m1)"
proof -
  have "exec_arm_op env (decode_arm w) w m = data_processing env w op2 sc x n m"
    using assms(1,2) by (auto simp: exec_arm_op_def)
  then show ?thesis
    using assms(3-) by (simp add: data_processing_def Let_def charge_set_R o_def)
qed

lemma field_numeral:
  "fld (numeral w :: u32) n k = drop_bit n (numeral w) AND k" "tst (numeral w :: u32) k \<longleftrightarrow> numeral w AND k \<noteq> 0"
  by (simp_all add: fld_def tst_def)

lemmas word_simps = thumb_alu_as_arm_def Let_def decode_arm_def arm_index_or arm_index_bases classify_bases fld_or low_fields field_numeral

lemma shift_by_zero: "shift_imm 0 0 v c = (v, c)"
  by (simp add: shift_imm_def)

lemma rotate_zero: "rotr32 0 0 = 0"
  by (simp add: rotr32_def)

lemma is_arm9_flags:
  "is_arm9 (set_nz r c) = is_arm9 c" "is_arm9 (set_R d v c) = is_arm9 c" "is_arm9 (set_CPSR p c) = is_arm9 c"
  by (simp_all add: is_arm9_def set_nz_def)

lemma mul_cycles_low: "mul_cycles c True rs True 0 = (if is_arm9 c then 3 else t_mul_cycles7 rs)"
  by (simp add: mul_cycles_def t_mul_cycles7_def is_arm9_def)

lemma charges_upd:
  assumes "d \<noteq> 15"
  shows "upd_cpu (set_R d v) (charge_C (upd_cpu f m)) = charge_C (upd_cpu (\<lambda>c. set_R d v (f c)) m)"
    "upd_cpu (set_R d v) (charge_CI k (upd_cpu f m)) = charge_CI k (upd_cpu (\<lambda>c. set_R d v (f c)) m)"
  using assms by (simp_all add: charge_set_R o_def)

lemma flags_set_R:
  "set_nz r (set_R d v c) = set_R d v (set_nz r c)" "set_nzc r b (set_R d v c) = set_R d v (set_nzc r b c)"
  by (simp_all add: set_nz_def set_nzc_def) (simp_all add: cpu_defs)

text \<open>C4: Each of the sixteen Thumb register operations leaves the machine exactly as the ARM
  instruction that stands for it, decoded and executed at the same point: the same result, write-back
  and flags, the shifts by a register and the multiply with its ARM7 cycles included, and the same charge
  for its fetch and its internal cycles.\<close>

theorem thumb_alu_is_arm_alu:
  fixes i :: u32
  defines "w \<equiv> thumb_alu_as_arm (fld i 6 0xF) (i AND 7) (fld i 3 7)"
  shows "exec_t_alu i m = exec_arm_op env (decode_arm w) w m"
proof -
  define d where "d = i AND 7"
  define s where "s = fld i 3 7"
  have low: "low_reg d" "low_reg s" using low_reg_and by (simp_all add: d_def s_def fld_def)
  then have n15: "d \<noteq> 15" "s \<noteq> 15" by (auto simp: low_reg_def)
  show ?thesis
    using fld_cases16 [of i] unfolding w_def d_def [symmetric] s_def [symmetric]
    by (elim insertE; simp_all only: empty_iff;
        simp add: word_simps low n15 exec_arm_op_def dp_operands_def data_processing_def dp_flags_def exec_t_alu_def t_alu_def
          shift_by_zero rotate_zero charges_upd set_nzc_carry flags_set_R set_reg_flags_def case_prod_unfold d_def [symmetric] s_def [symmetric]
          exec_mul_def mul_cycles_low is_arm9_flags;
        simp add: upd_cpu_def mult.commute split: if_split)
qed
section \<open>Branch with link\<close>

lemma bl_prefix_offset: "asr 9 (push_bit 21 i) = push_bit 12 (signed_take_bit 10 i)"
proof (rule bit_word_eqI)
  fix n assume "n < LENGTH(32)"
  then show "bit (asr 9 (push_bit 21 i)) n = bit (push_bit 12 (signed_take_bit 10 i)) n"
    by (cases "n = 22") (auto simp: asr_def bit_simps bit_signed_drop_bit_iff min_def)
qed

lemma bl_offset_join:
  "push_bit (k + 11) (signed_take_bit 10 hi) + push_bit k (lo AND mask 11) =
   push_bit k (signed_take_bit 21 (push_bit 11 hi OR (lo AND mask 11)) :: u32)"
proof -
  have "push_bit (k + 11) (signed_take_bit 10 hi) + push_bit k (lo AND mask 11)
      = push_bit (k + 11) (signed_take_bit 10 hi) OR push_bit k (lo AND mask 11)"
    by (rule disjunctive_add_eq_or, rule bit_word_eqI) (auto simp: bit_simps)
  also have "\<dots> = push_bit k (signed_take_bit 21 (push_bit 11 hi OR (lo AND mask 11)))"
    by (rule bit_word_eqI) (auto simp: bit_simps min_def)
  finally show ?thesis .
qed

text \<open>The Thumb \<^verbatim>\<open>BL\<close> pair, run as the loop runs it (the program counter moves on between
  the halves), lands at the address of the pair plus four plus twice the signed 22-bit
  offset split over the two halfwords, stays in Thumb state, and leaves the address after
  the pair, with the Thumb bit set, in the link register.\<close>

theorem thumb_bl_pair:
  fixes m :: "'io mach" and env :: "'io env" and i1 i2 :: u32
  defines "m1 \<equiv> exec_thumb_op env TOp_BlPrefix i1 m"
  defines "m2 \<equiv> upd_cpu (\<lambda>c. set_R 15 (R c 15 + 2) c) m1"
  defines "m3 \<equiv> exec_thumb_op env TOp_BlSuffix i2 m2"
  defines "off \<equiv> push_bit 1 (signed_take_bit 21 (push_bit 11 i1 OR (i2 AND 0x7FF)))"
  shows "R (cpu m3) 15 = ((R (cpu m) 15 + off) AND NOT 1) + 4 \<and>
    R (cpu m3) 14 = R (cpu m) 15 OR 1 \<and> thumb (cpu m3)"
proof -
  have clear: "(x OR 1) AND NOT 1 = x AND NOT (1::u32)" for x
    by (rule bit_word_eqI) (auto simp: bit_simps)
  have t: "tst (x OR 1) (1::u32)" "tst (x OR 0x20) (0x20::u32)" for x
    by (simp_all add: tst_def bit.conj_disj_distrib2)
  let ?t = "R (cpu m) 15 + push_bit 12 (signed_take_bit 10 i1) + push_bit 1 (i2 AND 0x7FF)"
  have target: "?t = R (cpu m) 15 + off"
    using bl_offset_join [of 1 i1 i2] by (simp add: off_def add.assoc mask_eq_exp_minus_1)
  have m2: "R (cpu m2) 15 = R (cpu m) 15 + 2"
    "R (cpu m2) 14 = R (cpu m) 15 + push_bit 12 (signed_take_bit 10 i1)"
    by (simp_all add: m2_def m1_def exec_thumb_op_def frame_simps bl_prefix_offset)
  show ?thesis
    using t(1) [of ?t] clear [of ?t]
    by (simp add: m3_def exec_thumb_op_def exec_t_bl_suffix_def Let_def frame_simps jump_pc m2 t
        thumb_def target [symmetric])
qed

end
