(* ===== verification/MemSpec.thy ===== *)
theory MemSpec imports InterpThumb Sample begin

text \<open>
  Guest RAM as the programs see it.  \<open>guest_ram\<close> states what a block of RAM promises the
  instructions that use it as storage (a stack, a context block): a word written is the
  word read back, other words keep their value, the registers are not touched.  Its
  lemmas cover whole sequences of stores.  The model's \<^verbatim>\<open>mem_write32\<close> on a window of
  ordinary, non-aliasing pages provides the interface, and the Thumb \<^verbatim>\<open>PUSH\<close> and \<^verbatim>\<open>POP\<close>
  rest on it.
\<close>

section \<open>The interface\<close>

locale guest_ram =
  fixes peek :: "'s \<Rightarrow> u32 \<Rightarrow> u32"
    and poke :: "u32 \<Rightarrow> u32 \<Rightarrow> bool \<Rightarrow> 's \<Rightarrow> 's"
    and ram :: "u32 set \<Rightarrow> 's \<Rightarrow> bool"
    and kept :: "'s \<Rightarrow> 'k"
  assumes ram_poke: "ram W s \<Longrightarrow> a \<in> W \<Longrightarrow> ram W (poke a v q s)"
    and peek_poke: "ram W s \<Longrightarrow> a \<in> W \<Longrightarrow> b \<in> W \<Longrightarrow>
      peek (poke a v q s) b = (if b = a then v else peek s b)"
    and kept_poke: "ram W s \<Longrightarrow> a \<in> W \<Longrightarrow> kept (poke a v q s) = kept s"
begin

lemma pokes:
  assumes "ram W s" "fst ` set xs \<subseteq> W"
  shows "ram W (fold (\<lambda>(a, v, q). poke a v q) xs s)"
    "kept (fold (\<lambda>(a, v, q). poke a v q) xs s) = kept s"
    "b \<in> W \<Longrightarrow> b \<notin> fst ` set xs \<Longrightarrow> peek (fold (\<lambda>(a, v, q). poke a v q) xs s) b = peek s b"
proof -
  have "ram W (fold (\<lambda>(a, v, q). poke a v q) xs s) \<and>
    kept (fold (\<lambda>(a, v, q). poke a v q) xs s) = kept s \<and>
    (b \<in> W \<longrightarrow> b \<notin> fst ` set xs \<longrightarrow> peek (fold (\<lambda>(a, v, q). poke a v q) xs s) b = peek s b)"
    using assms
    by (induction xs arbitrary: s) (auto simp: ram_poke peek_poke kept_poke)
  then show "ram W (fold (\<lambda>(a, v, q). poke a v q) xs s)"
    "kept (fold (\<lambda>(a, v, q). poke a v q) xs s) = kept s"
    "b \<in> W \<Longrightarrow> b \<notin> fst ` set xs \<Longrightarrow> peek (fold (\<lambda>(a, v, q). poke a v q) xs s) b = peek s b"
    by auto
qed

text \<open>Distinct addresses all read back.\<close>

lemma peek_pokes:
  assumes "ram W s" "fst ` set xs \<subseteq> W" "distinct (map fst xs)" "(a, v, q) \<in> set xs"
  shows "peek (fold (\<lambda>(a, v, q). poke a v q) xs s) a = v"
  using assms
proof (induction xs arbitrary: s)
  case (Cons x xs)
  obtain a' v' q' where x: "x = (a', v', q')" by (cases x)
  show ?case
  proof (cases "(a, v, q) = x")
    case True
    with Cons.prems x show ?thesis
      using pokes(3) [of W "poke a' v' q' s" xs a] by (auto simp: ram_poke peek_poke)
  next
    case False
    with Cons.prems x show ?thesis
      using Cons.IH [of "poke a' v' q' s"] by (auto simp: ram_poke)
  qed
qed simp

end

section \<open>Bytes and words\<close>

lemma ld32_st32: "ld32 (st32 p v h) p = v"
proof -
  have "ucast (ucast v :: u8) OR push_bit 8 (ucast (ucast (drop_bit 8 v) :: u8))
     OR push_bit 16 (ucast (ucast (drop_bit 16 v) :: u8))
     OR push_bit 24 (ucast (ucast (drop_bit 24 v) :: u8)) = v"
    (is "?l = v")
  proof (rule bit_word_eqI)
    fix n assume n: "n < LENGTH(32)"
    consider "n < 8" | "8 \<le> n" "n < 16" | "16 \<le> n" "n < 24" | "24 \<le> n" by linarith
    then show "bit ?l n = bit v n" by cases (use n in \<open>auto simp: bit_simps\<close>)
  qed
  then show ?thesis by (simp add: ld32_def st32_def)
qed

definition words_apart :: "u64 \<Rightarrow> u64 \<Rightarrow> bool" where
  "words_apart p q \<longleftrightarrow> list_all (\<lambda>i. list_all (\<lambda>j. q + i \<noteq> p + j) [0, 1, 2, 3]) [0, 1, 2, 3]"

lemma words_apartD:
  "words_apart p q \<Longrightarrow> i \<in> {0, 1, 2, 3} \<Longrightarrow> j \<in> {0, 1, 2, 3} \<Longrightarrow> q + i \<noteq> p + j"
  unfolding words_apart_def list_all_iff by (auto simp only: set_simps)

lemma ld32_st32_apart:
  assumes "words_apart p q"
  shows "ld32 (st32 p v h) q = ld32 h q"
proof -
  have other: "st32 p v h (q + i) = h (q + i)" if "i \<in> {0, 1, 2, 3}" for i
    using words_apartD [OF assms that, of 0] words_apartD [OF assms that, of 1]
      words_apartD [OF assms that, of 2] words_apartD [OF assms that, of 3]
    by (simp only: st32_def fun_upd_other) simp
  show ?thesis using other [of 0] other [of 1] other [of 2] other [of 3] by (simp add: ld32_def)
qed

section \<open>A window of plain RAM\<close>

text \<open>Word-aligned guest addresses on pages that are mapped, writable and free of translated
  code, no two of them backed by overlapping host bytes.\<close>

definition plain_word :: "cpu_ctx \<Rightarrow> u32 \<Rightarrow> bool" where
  "plain_word c a \<longleftrightarrow> a AND 3 = 0 \<and> read_ptr c a \<noteq> None \<and>
     write_ptr c a = Some (the (read_ptr c a), False)"

definition ram_window :: "u32 set \<Rightarrow> 'io mach \<Rightarrow> bool" where
  "ram_window W m \<longleftrightarrow>
     (\<forall>a\<in>W. plain_word (cpu m) a) \<and>
     (\<forall>a\<in>W. \<forall>b\<in>W. a \<noteq> b \<longrightarrow>
        words_apart (the (read_ptr (cpu m) a)) (the (read_ptr (cpu m) b)))"

definition peek32 :: "'io mach \<Rightarrow> u32 \<Rightarrow> u32" where
  "peek32 m a = ld32 (host m) (the (read_ptr (cpu m) a))"

definition kept_by_store :: "'io mach \<Rightarrow> (u32 \<Rightarrow> u32) \<times> u32 \<times> (u32 \<Rightarrow> u64)" where
  "kept_by_store m = (R (cpu m), CPSR (cpu m), page_table (cpu m))"

lemma data_cost_frame [frame_simps]:
  "R (cpu (data_cost env a w s t m)) = R (cpu m)" "CPSR (cpu (data_cost env a w s t m)) = CPSR (cpu m)"
  "page_table (cpu (data_cost env a w s t m)) = page_table (cpu m)"
  "which (cpu (data_cost env a w s t m)) = which (cpu m)"
  "host (data_cost env a w s t m) = host m"
  by (simp_all add: data_cost_def Let_def cpu_defs fun_eq_iff)

lemma ptr_cong:
  "page_table c' = page_table c \<Longrightarrow> read_ptr c' = read_ptr c"
  "page_table c' = page_table c \<Longrightarrow> write_ptr c' = write_ptr c"
  by (simp_all add: fun_eq_iff read_ptr_def write_ptr_def entry_def)

lemma mem_write32_plain:
  assumes "plain_word (cpu m) a"
  shows "host (mem_write32 env a v q m) = st32 (the (read_ptr (cpu m) a)) v (host m)"
    "kept_by_store (mem_write32 env a v q m) = kept_by_store m"
    "which (cpu (mem_write32 env a v q m)) = which (cpu m)"
proof -
  have "a AND NOT 3 = a" using assms and_not_clear [of a 3] by (simp add: plain_word_def)
  then have "mem_write32 env a v q m = (data_cost env a True q True m)
      \<lparr>host := st32 (the (read_ptr (cpu m) a)) v (host m)\<rparr>"
    using assms ptr_cong [of "cpu (data_cost env a True q True m)" "cpu m"]
    by (simp add: mem_write32_def Let_def plain_word_def store_host_def frame_simps)
  then show "host (mem_write32 env a v q m) = st32 (the (read_ptr (cpu m) a)) v (host m)"
    "kept_by_store (mem_write32 env a v q m) = kept_by_store m"
    "which (cpu (mem_write32 env a v q m)) = which (cpu m)"
    by (simp_all add: kept_by_store_def frame_simps)
qed

lemma mem_read32_plain:
  assumes "plain_word (cpu m) a"
  shows "fst (mem_read32 env a q m) = peek32 m a"
    "host (snd (mem_read32 env a q m)) = host m"
    "kept_by_store (snd (mem_read32 env a q m)) = kept_by_store m"
    "which (cpu (snd (mem_read32 env a q m))) = which (cpu m)"
proof -
  have "a AND NOT 3 = a" using assms and_not_clear [of a 3] by (simp add: plain_word_def)
  then have "mem_read32 env a q m = (peek32 m a, data_cost env a True q False m)"
    using assms ptr_cong [of "cpu (data_cost env a True q False m)" "cpu m"]
    by (auto simp: mem_read32_def Let_def plain_word_def frame_simps peek32_def split: option.split)
  then show "fst (mem_read32 env a q m) = peek32 m a"
    "host (snd (mem_read32 env a q m)) = host m"
    "kept_by_store (snd (mem_read32 env a q m)) = kept_by_store m"
    "which (cpu (snd (mem_read32 env a q m))) = which (cpu m)"
    by (simp_all add: kept_by_store_def frame_simps)
qed

interpretation stack: guest_ram peek32 "mem_write32 env" ram_window kept_by_store
  for env :: "'io env"
proof
  fix W :: "u32 set" and s :: "'io mach" and a v q
  assume w: "ram_window W s" "a \<in> W"
  then have p: "plain_word (cpu s) a" by (simp add: ram_window_def)
  show k: "kept_by_store (mem_write32 env a v q s) = kept_by_store s"
    by (rule mem_write32_plain(2) [OF p])
  then have ptr: "read_ptr (cpu (mem_write32 env a v q s)) = read_ptr (cpu s)"
    "write_ptr (cpu (mem_write32 env a v q s)) = write_ptr (cpu s)"
    using ptr_cong [of "cpu (mem_write32 env a v q s)" "cpu s"] by (simp_all add: kept_by_store_def)
  then show "ram_window W (mem_write32 env a v q s)"
    using w by (simp add: ram_window_def plain_word_def)
  fix b assume b: "b \<in> W"
  show "peek32 (mem_write32 env a v q s) b = (if b = a then v else peek32 s b)"
    using w b by (auto simp: peek32_def ptr mem_write32_plain(1) [OF p] ld32_st32 ram_window_def
        intro!: ld32_st32_apart)
qed

section \<open>Register lists on the stack\<close>

text \<open>The stores a register list amounts to: address, value, sequential flag.\<close>

fun store_plan :: "(u32 \<Rightarrow> u32) \<Rightarrow> u32 \<Rightarrow> nat list \<Rightarrow> u32 \<Rightarrow> bool \<Rightarrow> (u32 \<times> u32 \<times> bool) list" where
  "store_plan rs lst [] a first = []"
| "store_plan rs lst (k # ks) a first =
     (if \<not> bit lst k then store_plan rs lst ks a first
      else (a, rs (of_nat k), \<not> first) # store_plan rs lst ks (a + 4) False)"

lemma store_plan_cong:
  "(\<And>k. k \<in> set ks \<Longrightarrow> rs (of_nat k) = rs' (of_nat k)) \<Longrightarrow>
   store_plan rs lst ks a first = store_plan rs' lst ks a first"
  by (induction ks arbitrary: a first) simp_all

definition slots :: "u32 \<Rightarrow> nat \<Rightarrow> u32 list" where
  "slots a n = map (\<lambda>j. a + 4 * of_nat j) [0..<n]"

lemma slots_Suc: "slots a (Suc n) = a # slots (a + 4) n"
proof -
  have "map (\<lambda>j. a + 4 * of_nat j) [Suc 0..<Suc n] = map (\<lambda>j. a + 4 + 4 * of_nat j) [0..<n]"
    unfolding map_Suc_upt [symmetric] by (simp add: algebra_simps del: upt_Suc)
  then show ?thesis by (simp add: slots_def upt_conv_Cons del: upt_Suc)
qed

lemma store_plan_slots:
  "map fst (store_plan rs lst ks a first) = slots a (length (filter (bit lst) ks))"
  by (induction ks arbitrary: a first) (simp_all add: slots_Suc, simp add: slots_def)

lemma distinct_slots: "n \<le> 16 \<Longrightarrow> distinct (slots a n)"
proof -
  assume n: "n \<le> 16"
  have "j = k" if "(4 * of_nat j :: u32) = 4 * of_nat k" "j < n" "k < n" for j k
  proof -
    have "(of_nat (4 * j) :: u32) = of_nat (4 * k)" using that by simp
    then have "unat (of_nat (4 * j) :: u32) = unat (of_nat (4 * k) :: u32)" by (rule arg_cong)
    then show "j = k" using that(2,3) n by (simp only: unat_of_nat) simp
  qed
  then show ?thesis by (auto simp: slots_def distinct_map inj_on_def)
qed

lemma t_store_list_plan:
  assumes "ram_window W m" "fst ` set (store_plan (R (cpu m)) lst ks a first) \<subseteq> W"
  shows "\<exists>first'. t_store_list env lst (\<lambda>_ _. None) ks a first m =
    (a + 4 * of_nat (length (filter (bit lst) ks)), first',
     fold (\<lambda>(a, v, q). mem_write32 env a v q) (store_plan (R (cpu m)) lst ks a first) m)"
  using assms
proof (induction ks arbitrary: a first m)
  case (Cons k ks)
  show ?case
  proof (cases "bit lst k")
    case True
    let ?m = "mem_write32 env a (R (cpu m) (of_nat k)) (\<not> first) m"
    have "a \<in> W" using Cons.prems(2) True by simp
    then have p: "plain_word (cpu m) a" "ram_window W ?m"
      using Cons.prems(1) stack.ram_poke [OF Cons.prems(1)] by (simp add: ram_window_def, blast)
    then have "R (cpu ?m) = R (cpu m)" using mem_write32_plain(2) [OF p(1)] by (simp add: kept_by_store_def)
    then show ?thesis
      using Cons.IH [of ?m "a + 4" False] Cons.prems(2) p(2) True by (simp add: algebra_simps)
  qed (use Cons in simp)
qed simp

lemma t_load_list_plan:
  assumes "\<forall>y\<in>set (store_plan rs lst ks a first). plain_word (cpu m) (fst y) \<and> peek32 m (fst y) = fst (snd y)"
  shows "\<exists>first' m'. t_load_list env lst ks a first m =
      (a + 4 * of_nat (length (filter (bit lst) ks)), first', m') \<and> host m' = host m \<and>
      page_table (cpu m') = page_table (cpu m) \<and>
      (\<forall>r. R (cpu m') r = (if \<exists>k\<in>set ks. bit lst k \<and> r = of_nat k then rs r else R (cpu m) r))"
  using assms
proof (induction ks arbitrary: a first m)
  case (Cons k ks)
  show ?case
  proof (cases "bit lst k")
    case True
    obtain v m1 where rd: "mem_read32 env a (\<not> first) m = (v, m1)"
      by (cases "mem_read32 env a (\<not> first) m")
    let ?m = "upd_cpu (set_R (of_nat k) v) m1"
    have p: "plain_word (cpu m) a" "peek32 m a = rs (of_nat k)" using Cons.prems True by auto
    note rp = mem_read32_plain [OF p(1), of env "\<not> first", unfolded rd fst_conv snd_conv]
    have m1: "v = rs (of_nat k)" "host m1 = host m" "page_table (cpu m1) = page_table (cpu m)"
      "R (cpu m1) = R (cpu m)" using rp p by (simp_all add: kept_by_store_def)
    have pt: "page_table (cpu ?m) = page_table (cpu m)" "host ?m = host m"
      by (simp_all add: m1 set_R_def)
    have "\<forall>y\<in>set (store_plan rs lst ks (a + 4) False).
        plain_word (cpu ?m) (fst y) \<and> peek32 ?m (fst y) = fst (snd y)"
      using Cons.prems True ptr_cong [OF pt(1)]
      by (simp add: plain_word_def peek32_def pt m1)
    from Cons.IH [OF this] obtain first' m' where
      "t_load_list env lst ks (a + 4) False ?m = (a + 4 + 4 * of_nat (length (filter (bit lst) ks)), first', m')"
      "host m' = host ?m" "page_table (cpu m') = page_table (cpu ?m)"
      "\<forall>r. R (cpu m') r = (if \<exists>k\<in>set ks. bit lst k \<and> r = of_nat k then rs r else R (cpu ?m) r)"
      by blast
    then show ?thesis using True rd m1 pt by (auto simp: algebra_simps)
  qed (use Cons in \<open>auto\<close>)
qed simp

text \<open>The two stack instructions on a register list alone.\<close>

lemma popcount_list8: "popcount16 (i AND 0xFF) = of_nat (length (filter (bit (i AND 0xFF)) [0..<8]))"
proof -
  have m: "(0xFF::u32) = mask 8" by (simp add: mask_eq_exp_minus_1)
  have "[0..<16] = [0..<8] @ [8..<16::nat]" by (simp add: upt_add_eq_append [of 0 8 8, simplified, symmetric] upt_rec)
  moreover have "filter (bit (i AND 0xFF)) [8..<16] = []"
    unfolding m by (simp add: filter_empty_conv bit_simps)
  ultimately show ?thesis by (simp add: popcount16_def)
qed

definition push_pop_regs :: "u32 \<Rightarrow> nat" where
  "push_pop_regs lst = length (filter (bit lst) [0..<8])"

lemma exec_push:
  fixes m :: "'io mach" and env :: "'io env" and i :: u32
  defines "lst \<equiv> i AND 0xFF"
  defines "a \<equiv> R (cpu m) 13 - 4 * of_nat (push_pop_regs lst)"
  assumes i: "\<not> tst i 0x800" "\<not> tst i 0x100"
    and ram: "ram_window W m" "set (slots a (push_pop_regs lst)) \<subseteq> W"
  defines "m1 \<equiv> exec_t_push_pop env i m"
  shows "R (cpu m1) = (R (cpu m))(13 := a)" "page_table (cpu m1) = page_table (cpu m)"
    "ram_window W m1"
    "(x, v, q) \<in> set (store_plan (R (cpu m)) lst [0..<8] a True) \<Longrightarrow> x \<in> W \<and> peek32 m1 x = v"
proof -
  let ?m = "upd_cpu (set_R 13 a) m"
  let ?plan = "store_plan (R (cpu ?m)) lst [0..<8] a True"
  let ?m2 = "fold (\<lambda>(a, v, q). mem_write32 env a v q) ?plan ?m"
  have pt: "page_table (cpu ?m) = page_table (cpu m)" "host ?m = host m" by (simp_all add: set_R_def)
  have low: "of_nat k \<noteq> (13::u32)" if "k < 8" for k :: nat
  proof
    assume "of_nat k = (13::u32)"
    then have "unat (of_nat k :: u32) = 13" by simp
    with that show False by (simp add: unat_of_nat)
  qed
  have plan: "?plan = store_plan (R (cpu m)) lst [0..<8] a True"
    by (rule store_plan_cong) (simp add: low)
  have w: "ram_window W ?m" using ram(1) ptr_cong [OF pt(1)] by (simp add: ram_window_def plain_word_def)
  have s: "fst ` set ?plan \<subseteq> W"
    using ram(2) store_plan_slots [of "R (cpu ?m)" lst "[0..<8]" a True]
    by (metis list.set_map push_pop_regs_def)
  obtain f where "t_store_list env lst (\<lambda>_ _. None) [0..<8] a True ?m
    = (a + 4 * of_nat (push_pop_regs lst), f, ?m2)"
    using t_store_list_plan [OF w s, where env = env] by (auto simp: push_pop_regs_def)
  moreover have "R (cpu m) 13 - (popcount16 lst + 0) * 4 = a"
    by (simp add: a_def lst_def popcount_list8 push_pop_regs_def)
  ultimately have m1: "m1 = charge_CD env ?m2"
    using i by (simp add: m1_def exec_t_push_pop_def Let_def lst_def [symmetric])
  note po = stack.pokes [OF w s, where env = env]
  have k: "R (cpu ?m2) = R (cpu ?m)" "page_table (cpu ?m2) = page_table (cpu ?m)"
    using po(2) by (simp_all add: kept_by_store_def)
  have k1: "R (cpu m1) = R (cpu ?m2)" "page_table (cpu m1) = page_table (cpu ?m2)" "host m1 = host ?m2"
    by (simp_all add: m1 frame_simps fun_eq_iff)
  show "R (cpu m1) = (R (cpu m))(13 := a)" unfolding k1 k by (simp add: fun_eq_iff)
  show "page_table (cpu m1) = page_table (cpu m)" unfolding k1 k by (rule pt(1))
  show "ram_window W m1"
    using po(1) ptr_cong [OF k1(2)] by (simp add: ram_window_def plain_word_def)
  have d: "distinct (map fst ?plan)"
    using distinct_slots [of "push_pop_regs lst" a] length_filter_le [of "bit lst" "[0..<8]"]
    by (simp add: store_plan_slots push_pop_regs_def)
  show "(x, v, q) \<in> set (store_plan (R (cpu m)) lst [0..<8] a True) \<Longrightarrow> x \<in> W \<and> peek32 m1 x = v"
    using stack.peek_pokes [OF w s d, where env = env and a = x and v = v and q = q] s plan ptr_cong [OF k1(2)]
    by (auto simp: peek32_def k1)
qed

lemma exec_pop:
  fixes m :: "'io mach" and env :: "'io env" and i :: u32
  defines "lst \<equiv> i AND 0xFF"
  assumes i: "tst i 0x800" "\<not> tst i 0x100"
    and mem: "\<forall>y\<in>set (store_plan rs lst [0..<8] (R (cpu m) 13) True).
                plain_word (cpu m) (fst y) \<and> peek32 m (fst y) = fst (snd y)"
  defines "m1 \<equiv> exec_t_push_pop env i m"
  shows "R (cpu m1) r =
    (if r = 13 then R (cpu m) 13 + 4 * of_nat (push_pop_regs lst)
     else if \<exists>k<8. bit lst k \<and> r = of_nat k then rs r else R (cpu m) r)"
proof -
  obtain f m' where t: "t_load_list env lst [0..<8] (R (cpu m) 13) True m =
      (R (cpu m) 13 + 4 * of_nat (push_pop_regs lst), f, m')"
    "\<forall>r. R (cpu m') r = (if \<exists>k\<in>set [0..<8]. bit lst k \<and> r = of_nat k then rs r else R (cpu m) r)"
    using t_load_list_plan [OF mem] by (fastforce simp: push_pop_regs_def)
  then have "m1 = charge_CDI env (upd_cpu (set_R 13 (R (cpu m) 13 + 4 * of_nat (push_pop_regs lst))) m')"
    using i by (simp add: m1_def exec_t_push_pop_def Let_def lst_def [symmetric])
  with t(2) show ?thesis by (auto simp: frame_simps)
qed

text \<open>C5: \<^verbatim>\<open>POP\<close> undoes \<^verbatim>\<open>PUSH\<close>: on plain RAM, pushing a register list, running anything that
  leaves the pushed words, the mapping and the stack pointer alone, and popping the same
  list gives back every listed register and the stack pointer and disturbs no other
  register.\<close>

theorem push_pop_round_trip:
  fixes m m2 :: "'io mach" and env :: "'io env" and lst :: u32
  defines "m1 \<equiv> exec_t_push_pop env (0xB400 OR (lst AND 0xFF)) m"
  defines "m3 \<equiv> exec_t_push_pop env (0xBC00 OR (lst AND 0xFF)) m2"
  assumes ram: "ram_window W m"
      "set (slots (R (cpu m) 13 - 4 * of_nat (push_pop_regs (lst AND 0xFF))) (push_pop_regs (lst AND 0xFF))) \<subseteq> W"
    and between: "\<And>x. x \<in> W \<Longrightarrow> peek32 m2 x = peek32 m1 x" "page_table (cpu m2) = page_table (cpu m1)"
      "R (cpu m2) 13 = R (cpu m1) 13"
  shows "R (cpu m3) r =
    (if r = 13 \<or> (\<exists>k<8. bit lst k \<and> r = of_nat k) then R (cpu m) r else R (cpu m2) r)"
proof -
  let ?l = "lst AND 0xFF"
  let ?a = "R (cpu m) 13 - 4 * of_nat (push_pop_regs ?l)"
  have lo: "(0xB400 OR ?l) AND 0xFF = ?l" "(0xBC00 OR ?l) AND 0xFF = ?l"
    by (simp_all add: bit.conj_disj_distrib2 and.assoc)
  have fl: "\<not> tst (0xB400 OR ?l) 0x800" "\<not> tst (0xB400 OR ?l) 0x100"
    "tst (0xBC00 OR ?l) 0x800" "\<not> tst (0xBC00 OR ?l) 0x100"
    by (simp_all add: tst_def bit.conj_disj_distrib2 and.assoc)
  have bits: "bit ?l k = bit lst k" if "k < 8" for k
  proof -
    have "(0xFF::u32) = mask 8" by (simp add: mask_eq_exp_minus_1)
    then show ?thesis using that by (simp only: bit_simps) simp
  qed
  note pu = exec_push [OF fl(1,2) ram(1), unfolded lo, OF ram(2), where env = env, folded m1_def]
  have sp: "R (cpu m2) 13 = ?a" using pu(1) between(3) by simp
  have mem: "\<forall>y\<in>set (store_plan (R (cpu m)) ?l [0..<8] (R (cpu m2) 13) True).
      plain_word (cpu m2) (fst y) \<and> peek32 m2 (fst y) = fst (snd y)"
    using pu(3,4) sp between(1) ptr_cong [OF between(2)]
    by (auto simp: ram_window_def plain_word_def)
  show ?thesis
    using exec_pop [OF fl(3,4), unfolded lo, OF mem] sp bits by (auto simp: m3_def)
qed

text \<open>The sample machine with every page backed by host memory and a stack pointer.\<close>

definition ram_sample :: "unit mach" where
  "ram_sample = zero_mach\<lparr> cpu := (sample_cpu 0x30 ((\<lambda>_. 7)(13 := 0x02000010)))\<lparr> page_table := \<lambda>_. 0x400000 \<rparr> \<rparr>"

lemma ram_sample_facts:
  "R (cpu ram_sample) 13 = 0x02000010" "R (cpu ram_sample) 1 = 7" "push_pop_regs 3 = 2"
  "slots 0x02000008 2 = [0x02000008, 0x0200000C]"
  "ram_window {0x02000008, 0x0200000C} ram_sample"
  "\<exists>k<8. k < 32 \<and> bit (3::u32) k \<and> of_nat k = (1::u32)"
proof -
  show "\<exists>k<8. k < 32 \<and> bit (3::u32) k \<and> of_nat k = (1::u32)" by (rule exI [of _ 1]) simp
  show "R (cpu ram_sample) 13 = 0x02000010" "R (cpu ram_sample) 1 = 7"
    by (simp_all add: ram_sample_def sample_cpu_def sample_defs cpu_defs)
  show "push_pop_regs 3 = 2" by (simp add: push_pop_regs_def upt_rec)
  show "slots 0x02000008 2 = [0x02000008, 0x0200000C]" by (simp add: slots_def upt_rec)
  show "ram_window {0x02000008, 0x0200000C} ram_sample"
    by (simp add: ram_window_def plain_word_def read_ptr_def write_ptr_def entry_def entry_ptr_def
        ram_sample_def sample_cpu_def sample_defs words_apart_def tst_def TAG_SPECIAL_def TAG_CODE_def)
qed

theorem push_pop_round_trip_witness:
  "R (cpu (exec_t_push_pop zero_env 0xBC03 (exec_t_push_pop zero_env 0xB403 ram_sample))) 1 = 7"
  using push_pop_round_trip [where m = ram_sample and env = zero_env and lst = 3 and r = 1
      and W = "{0x02000008, 0x0200000C}" and ?m2.0 = "exec_t_push_pop zero_env (0xB400 OR (3 AND 0xFF)) ram_sample"]
    ram_sample_facts(6)
  by (auto simp: ram_sample_facts(1-5))

end
