(* ===== verification/Cp15Spec.thy ===== *)
theory Cp15Spec imports Cp15 Sample begin

text \<open>
  The cacheability map and the ARM9 cost rows derived from it stay what the protection
  unit's registers say.  \<^verbatim>\<open>cp15_update_pu_map\<close> (\<^verbatim>\<open>src/core/cpu/cp15.cpp\<close>) has a cheap path
  that rescans only the extents of changed regions and rewrites only the rows of pages
  whose byte changed; the theorem says that it ends where a full recomputation would.
\<close>

section \<open>What the map and the rows should be\<close>

definition flat_value :: "u32 \<Rightarrow> u8" where
  "flat_value ctl =
     (let m1 = (if tst ctl 0x4 then 0x10 else 0) in if tst ctl 0x1000 then m1 OR 0x40 else m1)"

definition map_spec :: "pu_memo \<Rightarrow> u32 \<Rightarrow> u8" where
  "map_spec mm p =
     (if tst (memo_ctl mm) 1 then region_value (memo_regions mm) p else flat_value (memo_ctl mm))"

definition cpu_memo :: "cpu_ctx \<Rightarrow> pu_memo" where
  "cpu_memo c = \<lparr> memo_valid = True, memo_ctl = cp15_control c, memo_dc = pu_data_cacheable c,
                  memo_cc = pu_code_cacheable c, memo_region = pu_region c \<rparr>"

text \<open>Rows outside \<open>S\<close> are up to date; the map agrees with \<open>f\<close>.\<close>

definition rows_ok :: "'io env \<Rightarrow> u32 set \<Rightarrow> 'io mach \<Rightarrow> bool" where
  "rows_ok env S m \<longleftrightarrow> (\<forall>p<0x100000. p \<notin> S \<longrightarrow> timing9 m p = cpu9_row env m p)"

definition pu_inv :: "'io env \<Rightarrow> 'io mach \<Rightarrow> bool" where
  "pu_inv env m \<longleftrightarrow>
     (memo_valid (memo m) \<longrightarrow> (\<forall>p<0x100000. pu_map m p = map_spec (memo m) p)) \<and>
     rows_ok env {} m"

lemma memo_regions_cpu: "memo_regions (cpu_memo c) = cur_regions c"
  by (simp add: memo_regions_def cur_regions_def cpu_memo_def)

section \<open>Regions do not wrap\<close>

lemma decode_region_bound:
  assumes "rgn_on (decode_region ctl dc cc rgn n)"
  shows "unat (rgn_start (decode_region ctl dc cc rgn n)) + unat (rgn_size (decode_region ctl dc cc rgn n)) \<le> 0x100000"
proof -
  let ?r = "decode_region ctl dc cc rgn n"
  define k where "k = (if uint (fld rgn 1 0x1F) - 11 \<le> 0 then 0
    else if uint (fld rgn 1 0x1F) - 11 \<ge> 20 then 20 else nat (uint (fld rgn 1 0x1F) - 11))"
  have on: "tst rgn 1" using assms by (auto simp: decode_region_def rgn_off_def split: if_splits)
  have k: "k \<le> 20" by (auto simp: k_def)
  have size: "rgn_size ?r = push_bit k 1"
    using on by (simp add: decode_region_def Let_def k_def)
  have start: "rgn_start ?r = (drop_bit 12 rgn div rgn_size ?r) * rgn_size ?r"
    using on by (simp add: decode_region_def Let_def)
  have us: "unat (rgn_size ?r) = 2 ^ k"
  proof -
    have "(2::nat) ^ k \<le> 2 ^ 20" using k by (rule power_increasing) simp
    then have "(2::nat) ^ k < 2 ^ 32" by simp
    then show ?thesis unfolding size
      using unsigned_push_bit_eq [of k "1::u32", where 'a = nat] by (simp add: take_bit_eq_mod push_bit_eq_mult)
  qed
  define x where "x = unat (drop_bit 12 rgn)"
  have x: "x < 2 ^ 20"
    using unat_lt32 [of rgn] unsigned_drop_bit_eq [of 12 rgn, where 'a = nat]
    unfolding x_def by (simp only: drop_bit_eq_div take_bit_eq_mod) (simp add: less_mult_imp_div_less)
  have us': "unat (rgn_start ?r) = x div 2 ^ k * 2 ^ k"
  proof -
    have "x div 2 ^ k * 2 ^ k \<le> x" by simp
    also have "x < 2 ^ 32" using x by simp
    finally have "x div 2 ^ k * 2 ^ k < 2 ^ 32" .
    then show ?thesis
      by (subst start) (simp add: unat_word_ariths unat_div x_def [symmetric] us mod_simps)
  qed
  have "x div 2 ^ k < 2 ^ (20 - k)"
    using x k by (simp add: less_mult_imp_div_less power_add [symmetric])
  then have "Suc (x div 2 ^ k) * 2 ^ k \<le> 2 ^ (20 - k) * 2 ^ k" by (intro mult_le_mono1) simp
  also have "\<dots> = 2 ^ 20" using k by (simp add: power_add [symmetric])
  finally show ?thesis by (simp add: us us')
qed

definition in_bounds :: "pu_rgn \<Rightarrow> bool" where
  "in_bounds r \<longleftrightarrow> \<not> rgn_on r \<or> unat (rgn_start r) + unat (rgn_size r) \<le> 0x100000"

lemma regions_in_bounds: "r \<in> set (cur_regions c) \<Longrightarrow> in_bounds r" "r \<in> set (memo_regions mm) \<Longrightarrow> in_bounds r"
  using decode_region_bound by (auto simp: cur_regions_def memo_regions_def in_bounds_def)

lemma covers_interval:
  assumes "in_bounds r"
  shows "covers r p \<longleftrightarrow> rgn_on r \<and> unat (rgn_start r) \<le> unat p \<and> unat p < unat (rgn_start r) + unat (rgn_size r)"
proof (cases "rgn_on r")
  case True
  then have b: "unat (rgn_start r) + unat (rgn_size r) \<le> 0x100000" using assms by (simp add: in_bounds_def)
  then show ?thesis
    using True unat_lt32 [of p] unat_lt32 [of "rgn_start r"]
    by (auto simp: covers_def word_less_nat_alt unat_sub_if_size size_word_def)
qed (simp add: covers_def)

section \<open>Updating rows\<close>

lemma page_of_run: "p < 0x100000 \<Longrightarrow> drop_bit 12 (push_bit 12 p) = (p::u32)"
proof -
  assume p: "p < 0x100000"
  then have u: "unat p * 4096 < 2 ^ 32" by (simp add: word_less_nat_alt)
  have "unat (push_bit 12 p) = unat p * 4096"
    using unsigned_push_bit_eq [of 12 p, where 'a = nat] u
    by (simp only: push_bit_eq_mult take_bit_eq_mod) simp
  then have "unat (drop_bit 12 (push_bit 12 p)) = unat p"
    using unsigned_drop_bit_eq [of 12 "push_bit 12 p", where 'a = nat] u
    by (simp only: drop_bit_eq_div take_bit_eq_mod) simp
  then show ?thesis by (simp add: word_unat_eq_iff)
qed

lemma u32_of_page: "i \<le> 0x100000 \<Longrightarrow> unat (of_nat i :: u32) = i"
  by (simp add: unat_of_nat)

lemma of_nat_page_less:
  "i \<le> 0x100000 \<Longrightarrow> j \<le> 0x100000 \<Longrightarrow> (of_nat i :: u32) < of_nat j \<longleftrightarrow> i < j"
  "i \<le> 0x100000 \<Longrightarrow> j \<le> 0x100000 \<Longrightarrow> (of_nat i :: u32) = of_nat j \<longleftrightarrow> i = j"
  by (simp_all add: word_less_nat_alt word_unat_eq_iff u32_of_page)

text \<open>The rows rewritten for a run of pages \<open>[a, i)\<close> are exactly those pages' rows.\<close>

lemma update_run:
  assumes "a < 0x100000" "i \<le> 0x100000" "p < 0x100000"
  shows "timing9 (update_cpu9 env (push_bit 12 (of_nat a)) (page_end_addr i) m) p =
    (if a \<le> unat p \<and> unat p < i then cpu9_row env m p else timing9 m p)"
proof -
  have a: "drop_bit 12 (push_bit 12 (of_nat a :: u32)) = of_nat a"
    using assms(1) of_nat_page_less(1) [of a "0x100000"] by (intro page_of_run) simp
  have p: "p = of_nat (unat p)" "unat p < 0x100000" using assms(3) by (simp_all add: word_less_nat_alt)
  have stop: "(if page_end_addr i = 0xFFFFFFFF then 0x100000 else drop_bit 12 (page_end_addr i)) = (of_nat i :: u32)"
  proof (cases "i = 0x100000")
    case False
    then have i: "(of_nat i :: u32) < 0x100000" using assms(2) of_nat_page_less(1) [of i "0x100000"] by simp
    have "\<not> bit (push_bit 12 (of_nat i) :: u32) 0" by (simp add: bit_simps)
    then have "push_bit 12 (of_nat i) \<noteq> (0xFFFFFFFF::u32)" by auto
    with False page_of_run [OF i] show ?thesis by (simp add: page_end_addr_def)
  qed (simp add: page_end_addr_def)
  show ?thesis
    using of_nat_page_less(1) [of "unat p" i] of_nat_page_less(1) [of "unat p" a] assms p(2)
    unfolding update_cpu9_def Let_def stop a by (simp add: not_less [symmetric])
qed

section \<open>The scan\<close>

text \<open>What a scan over pages \<open>[a, i)\<close> has done so far: the map holds the wanted values there
  and is untouched elsewhere, and the only stale rows are those of the open run.\<close>

definition scan_inv :: "'io env \<Rightarrow> (u32 \<Rightarrow> u8) \<Rightarrow> 'io mach \<Rightarrow> nat \<Rightarrow> nat \<Rightarrow> 'io scan \<Rightarrow> bool" where
  "scan_inv env val m0 a i s =
     (let (m, run_start, in_run, changed) = s in
      cpu m = cpu m0 \<and> memo m = memo m0 \<and>
      (\<forall>p<0x100000. pu_map m p = (if a \<le> unat p \<and> unat p < i then val p else pu_map m0 p)) \<and>
      (in_run \<longrightarrow> a \<le> unat run_start \<and> unat run_start < i) \<and>
      rows_ok env {p. in_run \<and> unat run_start \<le> unat p \<and> unat p < i} m)"

lemma cpu9_row_pu:
  "pu_map m' p = pu_map m p \<Longrightarrow> cpu m' = cpu m \<Longrightarrow> bus9 m' = bus9 m \<Longrightarrow>
   clock9_shift m' = clock9_shift m \<Longrightarrow> cpu9_row env m' p = cpu9_row env m p"
  by (simp add: cpu9_row_def)

lemma rescan_step_inv:
  assumes inv: "scan_inv env val m0 a i s" and i: "a \<le> i" "i \<le> stop" "stop \<le> 0x100000"
  shows "scan_inv env val m0 a (min stop (Suc i)) (rescan_step env val stop i s)"
    "i = stop \<Longrightarrow> \<not> fst (snd (snd (rescan_step env val stop i s)))"
proof -
  obtain m run_start in_run changed where s: "s = (m, run_start, in_run, changed)" by (cases s) auto
  let ?p = "of_nat i :: u32"
  have pi: "unat ?p = i" using i u32_of_page by auto
  note I = inv [unfolded s scan_inv_def Let_def prod.case]
  have p_ne: "p \<noteq> ?p \<longleftrightarrow> unat p \<noteq> i" for p
    using pi by (auto simp: word_unat_eq_iff)
  consider (diff) "i < stop" "pu_map m ?p \<noteq> val ?p" | (flush) "\<not> (i < stop \<and> pu_map m ?p \<noteq> val ?p)" in_run
    | (skip) "\<not> (i < stop \<and> pu_map m ?p \<noteq> val ?p)" "\<not> in_run" by blast
  then have "scan_inv env val m0 a (min stop (Suc i)) (rescan_step env val stop i s) \<and>
    (i = stop \<longrightarrow> \<not> fst (snd (snd (rescan_step env val stop i s))))"
  proof cases
    case diff
    let ?m = "m\<lparr> pu_map := (pu_map m)(?p := val ?p) \<rparr>" and ?r = "if in_run then run_start else ?p"
    have step: "rescan_step env val stop i s = (?m, ?r, True, changed)"
      using diff by (simp add: rescan_step_def s Let_def)
    have "rows_ok env {p. unat ?r \<le> unat p \<and> unat p < Suc i} ?m"
      using I i(1) pi p_ne by (auto simp: rows_ok_def cpu9_row_def less_Suc_eq)
    then show ?thesis
      using I diff i pi p_ne unfolding step scan_inv_def Let_def prod.case
      by (auto simp: less_Suc_eq fun_upd_def)
  next
    case flush
    let ?m = "update_cpu9 env (push_bit 12 run_start) (page_end_addr i) m"
    have step: "rescan_step env val stop i s = (?m, run_start, False, True)"
      using flush by (simp add: rescan_step_def s Let_def)
    have r: "run_start = of_nat (unat run_start)" "unat run_start < 0x100000" using I flush i by auto
    have "rows_ok env {} ?m"
      using I i flush(2) update_run [OF r(2), of i _ env m] r(1)
      by (auto simp: rows_ok_def)
    then show ?thesis
      using I flush i pi p_ne unfolding step scan_inv_def Let_def prod.case
      by (auto simp: less_Suc_eq)
  next
    case skip
    then have step: "rescan_step env val stop i s = (m, run_start, in_run, changed)" by (simp add: rescan_step_def s Let_def)
    show ?thesis
      using I skip i pi p_ne unfolding step scan_inv_def Let_def prod.case
      by (auto simp: less_Suc_eq)
  qed
  then show "scan_inv env val m0 a (min stop (Suc i)) (rescan_step env val stop i s)"
    "i = stop \<Longrightarrow> \<not> fst (snd (snd (rescan_step env val stop i s)))" by auto
qed

lemma rescan_fold_inv:
  assumes "scan_inv env val m0 a i s" "a \<le> i" "i \<le> stop" "stop \<le> 0x100000"
  shows "scan_inv env val m0 a stop (fold (rescan_step env val stop) [i..<stop + 1] s) \<and>
    \<not> fst (snd (snd (fold (rescan_step env val stop) [i..<stop + 1] s)))"
  using assms
proof (induction "stop - i" arbitrary: i s)
  case 0
  then have i: "i = stop" by simp
  show ?case
    using rescan_step_inv [OF 0(2,3,4,5)] i by (simp add: upt_rec [of stop])
next
  case (Suc k)
  then have l: "[i..<stop + 1] = i # [Suc i..<stop + 1]" by (simp add: upt_rec [of i])
  have "scan_inv env val m0 a (Suc i) (rescan_step env val stop i s)"
  proof -
    have "min stop (Suc i) = Suc i" using Suc.hyps(2) by simp
    then show ?thesis using rescan_step_inv(1) [OF Suc.prems] by simp
  qed
  moreover have "Suc i \<le> stop" using Suc.hyps(2) by simp
  ultimately show ?case
    using Suc.hyps(1) [of "Suc i" "rescan_step env val stop i s"] Suc.hyps(2) Suc.prems
    unfolding l fold_simps by simp
qed

lemma scan_inv_start:
  "rows_ok env {} m \<Longrightarrow> scan_inv env val m a a (m, b, False, changed)"
  by (auto simp: scan_inv_def rows_ok_def)

lemma rescan_effect:
  assumes "in_bounds r" "rows_ok env {} m" "rescan env val r (m, c) = (m', c')"
  shows "cpu m' = cpu m" "memo m' = memo m" "rows_ok env {} m'"
    "p < 0x100000 \<Longrightarrow> pu_map m' p = (if covers r p then val p else pu_map m p)"
proof -
  have "cpu m' = cpu m \<and> memo m' = memo m \<and> rows_ok env {} m' \<and>
    (p < 0x100000 \<longrightarrow> pu_map m' p = (if covers r p then val p else pu_map m p))"
  proof (cases "rgn_on r")
    case True
    let ?a = "unat (rgn_start r)" and ?n = "unat (rgn_size r)"
    have b: "?a + ?n \<le> 0x100000" using assms(1) True by (simp add: in_bounds_def)
    then have n: "unat (rgn_start r + rgn_size r) = ?a + ?n" by (simp add: unat_word_ariths)
    let ?stop = "?a + ?n"
    let ?f = "fold (rescan_step env val ?stop) [?a..<?stop + 1] (m, 0, False, c)"
    have inv: "scan_inv env val m ?a ?stop ?f \<and> \<not> fst (snd (snd ?f))"
      by (rule rescan_fold_inv [OF scan_inv_start [OF assms(2)]]) (use b in simp_all)
    moreover obtain run_start where "?f = (m', run_start, False, c')"
      using inv assms(3) True b by (auto simp: rescan_def n min_def Let_def split: prod.splits)
    ultimately show ?thesis
      using covers_interval [OF assms(1), of p] True by (auto simp: scan_inv_def rows_ok_def)
  next
    case False
    then show ?thesis using assms(2,3) by (auto simp: rescan_def covers_def)
  qed
  then show "cpu m' = cpu m" "memo m' = memo m" "rows_ok env {} m'"
    "p < 0x100000 \<Longrightarrow> pu_map m' p = (if covers r p then val p else pu_map m p)" by auto
qed

section \<open>The changed regions together\<close>

text \<open>The pages any changed region covers, before or after.\<close>

definition touched :: "(pu_rgn \<times> pu_rgn) list \<Rightarrow> u32 \<Rightarrow> bool" where
  "touched cps p \<longleftrightarrow> (\<exists>(c, q)\<in>set cps. \<not> same_region c q \<and> (covers c p \<or> covers q p))"

lemma rescan_changed_fold:
  assumes "\<forall>(c, q)\<in>set cps. in_bounds c \<and> in_bounds q" "rows_ok env {} m"
    "fold (rescan_changed env val) cps (m, b) = (m', b')"
  shows "cpu m' = cpu m \<and> memo m' = memo m \<and> rows_ok env {} m' \<and>
    (\<forall>p<0x100000. pu_map m' p = (if touched cps p then val p else pu_map m p))"
  using assms
proof (induction cps arbitrary: m b)
  case (Cons cp cps)
  obtain c q where cp: "cp = (c, q)" by (cases cp)
  obtain m1 b1 where r1: "rescan env val q (m, b) = (m1, b1)" by (cases "rescan env val q (m, b)")
  obtain m2 b2 where r2: "rescan env val c (m1, b1) = (m2, b2)" by (cases "rescan env val c (m1, b1)")
  have bd: "in_bounds q" "in_bounds c" using Cons.prems(1) cp by auto
  note e1 = rescan_effect [OF bd(1) Cons.prems(2) r1]
  note e2 = rescan_effect [OF bd(2) e1(3) r2]
  show ?case
  proof (cases "same_region c q")
    case True
    with Cons.IH [of m b] Cons.prems cp show ?thesis by (simp add: rescan_changed_def touched_def)
  next
    case False
    then have f: "fold (rescan_changed env val) cps (m2, b2) = (m', b')"
    proof -
      have "rescan_changed env val cp (m, b) = (m2, b2)"
        using False by (simp add: rescan_changed_def cp r1 r2)
      then show ?thesis using Cons.prems(3) by simp
    qed
    have "\<forall>(c, q)\<in>set cps. in_bounds c \<and> in_bounds q" using Cons.prems(1) by simp
    from Cons.IH [OF this e2(3) f] e1 e2 False cp show ?thesis
      by (auto simp: touched_def)
  qed
qed (simp add: touched_def)

text \<open>Where no changed region reaches, the old and the new value are the same.\<close>

lemma untouched_value:
  assumes "length cs = length qs" "\<not> touched (zip cs qs) p"
  shows "region_value cs p = region_value qs p"
  using assms
proof (induction cs qs rule: list_induct2)
  case (Cons c cs q qs)
  then show ?case
    by (auto simp: touched_def same_region_def covers_def)
qed simp

section \<open>The full rebuild\<close>

lemma chunk_same:
  assumes "\<not> chunk_differs mp next i" "i \<le> unat p" "unat p < i + 256"
  shows "mp p = next p"
proof -
  have "unat p \<in> set [i..<i + 256]" using assms(2,3) by simp
  then have "mp (of_nat (unat p)) = next (of_nat (unat p))"
    using assms(1) unfolding chunk_differs_def list_all_iff by blast
  then show ?thesis by simp
qed

lemma rebuild_step_inv:
  assumes inv: "scan_inv env val m0 0 i s" and i: "i + 256 \<le> 0x100000 \<or> i = 0x100000"
  shows "scan_inv env val m0 0 (min 0x100000 (i + 256)) (rebuild_step env val i s)"
    "i = 0x100000 \<Longrightarrow> \<not> fst (snd (snd (rebuild_step env val i s)))"
proof -
  obtain m run_start in_run changed where s: "s = (m, run_start, in_run, changed)" by (cases s) auto
  note I = inv [unfolded s scan_inv_def Let_def prod.case]
  have pi: "unat (of_nat i :: u32) = i" using i u32_of_page by auto
  have u: "p < 0x100000 \<Longrightarrow> unat p < 0x100000" for p :: u32 by (simp add: word_less_nat_alt)
  let ?d = "i < 0x100000 \<and> chunk_differs (pu_map m) val i"
  have same: "pu_map m p = (if unat p < min 0x100000 (i + 256) then val p else pu_map m0 p)"
    if "\<not> ?d" "p < 0x100000" for p
  proof (cases "i < 0x100000")
    case True
    then have e: "min 0x100000 (i + 256) = i + 256" using i by simp
    have p: "pu_map m p = (if unat p < i then val p else pu_map m0 p)" using I that(2) by simp
    show ?thesis
    proof (cases "unat p < i")
      case False
      then show ?thesis
        unfolding e using chunk_same [of "pu_map m" val i p] that(1) True p by (cases "unat p < i + 256") simp_all
    qed (use p e in simp)
  next
    case False
    then have "i = 0x100000" using i by simp
    then show ?thesis using I that(2) u [OF that(2)] by simp
  qed
  consider (diff) ?d | (flush) "\<not> ?d" in_run | (skip) "\<not> ?d" "\<not> in_run" by blast
  then have "scan_inv env val m0 0 (min 0x100000 (i + 256)) (rebuild_step env val i s) \<and>
    (i = 0x100000 \<longrightarrow> \<not> fst (snd (snd (rebuild_step env val i s))))"
  proof cases
    case diff
    let ?m = "m\<lparr> pu_map := (\<lambda>p. if i \<le> unat p \<and> unat p < i + 256 then val p else pu_map m p) \<rparr>"
      and ?r = "if in_run then run_start else of_nat i"
    have step: "rebuild_step env val i s = (?m, ?r, True, changed)"
      using diff by (simp add: rebuild_step_def s)
    have "rows_ok env {p. unat ?r \<le> unat p \<and> unat p < i + 256} ?m"
      using I pi by (auto simp: rows_ok_def cpu9_row_def)
    then show ?thesis
      using I diff i pi unfolding step scan_inv_def Let_def prod.case by (auto simp: min_def)
  next
    case flush
    let ?m = "update_cpu9 env (push_bit 12 run_start) (page_end_addr i) m"
    have step: "rebuild_step env val i s = (?m, run_start, False, True)"
      using flush by (simp add: rebuild_step_def s)
    have r: "run_start = of_nat (unat run_start)" "unat run_start < 0x100000" "i \<le> 0x100000"
      using I flush i by auto
    have "rows_ok env {} ?m"
      using I flush(2) update_run [OF r(2,3), of _ env m] r(1) by (auto simp: rows_ok_def)
    then show ?thesis
      using I flush same unfolding step scan_inv_def Let_def prod.case by simp
  next
    case skip
    then have step: "rebuild_step env val i s = (m, run_start, in_run, changed)"
      by (simp add: rebuild_step_def s)
    show ?thesis
      using I skip same unfolding step scan_inv_def Let_def prod.case by simp
  qed
  then show "scan_inv env val m0 0 (min 0x100000 (i + 256)) (rebuild_step env val i s)"
    "i = 0x100000 \<Longrightarrow> \<not> fst (snd (snd (rebuild_step env val i s)))" by auto
qed

lemma rebuild_fold_inv:
  assumes "scan_inv env val m0 0 (k * 256) s" "k \<le> 4096"
  shows "scan_inv env val m0 0 0x100000 (fold (rebuild_step env val) (map (\<lambda>k. k * 256) [k..<4097]) s) \<and>
    \<not> fst (snd (snd (fold (rebuild_step env val) (map (\<lambda>k. k * 256) [k..<4097]) s)))"
  using assms
proof (induction "4096 - k" arbitrary: k s)
  case 0
  then have k: "k = 4096" by simp
  show ?case using rebuild_step_inv [of env val m0 "0x100000" s] 0(2) k by (simp add: upt_rec [of 4096])
next
  case (Suc n)
  then have l: "[k..<4097] = k # [Suc k..<4097]" and k: "Suc k \<le> 4096" by (simp_all add: upt_rec [of k])
  have "scan_inv env val m0 0 (Suc k * 256) (rebuild_step env val (k * 256) s)"
  proof -
    have "min 0x100000 (k * 256 + 256) = Suc k * 256" using k by simp
    then show ?thesis using rebuild_step_inv(1) [OF Suc.prems(1)] k by (simp add: add.commute)
  qed
  then show ?case
    using Suc.hyps(1) [of "Suc k" "rebuild_step env val (k * 256) s"] Suc.hyps(2) k
    unfolding l list.map fold_simps by (simp add: add.commute)
qed

lemma rebuild_effect:
  assumes "rows_ok env {} m" "rebuild env val m = (m', c')"
  shows "cpu m' = cpu m \<and> memo m' = memo m \<and> rows_ok env {} m' \<and> (\<forall>p<0x100000. pu_map m' p = val p)"
proof -
  let ?f = "fold (rebuild_step env val) (map (\<lambda>k. k * 256) [0..<4097]) (m, 0, False, False)"
  have inv: "scan_inv env val m 0 0x100000 ?f \<and> \<not> fst (snd (snd ?f))"
    using rebuild_fold_inv [of env val m 0 "(m, 0, False, False)"] scan_inv_start [OF assms(1)] by simp
  moreover obtain run_start where "?f = (m', run_start, False, c')"
    using inv assms(2) unfolding rebuild_def by (auto split: prod.splits)
  moreover have "p < 0x100000 \<Longrightarrow> unat p < 0x100000" for p :: u32 by (simp add: word_less_nat_alt)
  ultimately show ?thesis by (auto simp: scan_inv_def rows_ok_def)
qed

text \<open>Painting the regions in ascending order leaves the highest-numbered one on top.\<close>

lemma paint_covers:
  assumes "in_bounds r" "p < 0x100000"
  shows "paint r f p = (if covers r p then rgn_m r else f p)"
proof (cases "rgn_on r")
  case True
  then have "unat (rgn_start r) + unat (rgn_size r) \<le> 0x100000" using assms(1) by (simp add: in_bounds_def)
  then have "unat (rgn_start r + rgn_size r) = unat (rgn_start r) + unat (rgn_size r)"
    by (simp add: unat_word_ariths)
  then show ?thesis
    using covers_interval [OF assms(1), of p] assms(2) by (simp add: paint_def word_le_nat_alt word_less_nat_alt)
qed (simp add: paint_def covers_def)

lemma paint_all:
  assumes "\<forall>r\<in>set rs. in_bounds r" "p < 0x100000"
  shows "fold paint (rev rs) (\<lambda>_. 0) p = region_value rs p"
  using assms by (induction rs) (simp_all add: paint_covers)

lemma fresh_map_spec: "p < 0x100000 \<Longrightarrow> fresh_map c p = map_spec (cpu_memo c) p"
  using regions_in_bounds(1) [of _ c] paint_all [of "cur_regions c" p]
  by (auto simp: fresh_map_def map_spec_def memo_regions_cpu Let_def flat_value_def) 
    (auto simp: cpu_memo_def)

section \<open>The map and the rows never go stale\<close>

text \<open>Either path, from rows that are up to date: the map is the wanted one, the rows stay up
  to date, and nothing else changes but the memo.\<close>

lemma cheap_path:
  assumes inv: "pu_inv env m" and ch: "tst (cp15_control (cpu m)) 1" "memo_valid (memo m)" "tst (memo_ctl (memo m)) 1"
    and f: "fold (rescan_changed env (region_value (cur_regions (cpu m))))
      (rev (zip (cur_regions (cpu m)) (memo_regions (memo m)))) (m, False) = (m1, b)"
  shows "cpu m1 = cpu m" "rows_ok env {} m1" "p < 0x100000 \<Longrightarrow> pu_map m1 p = map_spec (cpu_memo (cpu m)) p"
proof -
  let ?c = "cpu m" and ?mm = "memo m"
  let ?cps = "rev (zip (cur_regions ?c) (memo_regions ?mm))"
  have bd: "\<forall>(c, q)\<in>set ?cps. in_bounds c \<and> in_bounds q"
    using regions_in_bounds by (auto dest: set_zip_leftD set_zip_rightD)
  have rows: "rows_ok env {} m" using inv by (simp add: pu_inv_def)
  note e = rescan_changed_fold [OF bd rows f]
  show "cpu m1 = cpu m" "rows_ok env {} m1" using e by simp_all
  assume p: "p < 0x100000"
  have len: "length (cur_regions ?c) = length (memo_regions ?mm)"
    by (simp add: cur_regions_def memo_regions_def)
  have t: "touched ?cps p = touched (zip (cur_regions ?c) (memo_regions ?mm)) p"
    by (simp add: touched_def)
  have old: "pu_map m p = region_value (memo_regions ?mm) p"
    using inv ch p by (simp add: pu_inv_def map_spec_def)
  have "pu_map m1 p = region_value (cur_regions ?c) p"
  proof (cases "touched ?cps p")
    case True
    then show ?thesis using e p by simp
  next
    case False
    then show ?thesis using e p old t untouched_value [OF len, of p] by simp
  qed
  then show "pu_map m1 p = map_spec (cpu_memo ?c) p"
    using ch(1) by (simp add: map_spec_def memo_regions_cpu) (simp add: cpu_memo_def)
qed

lemma full_path:
  assumes "pu_inv env m" "rebuild env (fresh_map (cpu m)) m = (m1, b)"
  shows "cpu m1 = cpu m" "rows_ok env {} m1" "p < 0x100000 \<Longrightarrow> pu_map m1 p = map_spec (cpu_memo (cpu m)) p"
proof -
  have "rows_ok env {} m" using assms(1) by (simp add: pu_inv_def)
  note e = rebuild_effect [OF this assms(2)]
  show "cpu m1 = cpu m" "rows_ok env {} m1" using e by simp_all
  assume "p < 0x100000"
  then show "pu_map m1 p = map_spec (cpu_memo (cpu m)) p" using e fresh_map_spec by simp
qed

lemma update_pu_map_cases:
  assumes inv: "pu_inv env m"
  obtains m1 where "cp15_update_pu_map env m = m1\<lparr> memo := cpu_memo (cpu m) \<rparr>" "cpu m1 = cpu m"
    "rows_ok env {} m1" "\<forall>p<0x100000. pu_map m1 p = map_spec (cpu_memo (cpu m)) p"
proof (cases "tst (cp15_control (cpu m)) 1 \<and> memo_valid (memo m) \<and> tst (memo_ctl (memo m)) 1")
  case True
  obtain m1 b where f: "fold (rescan_changed env (region_value (cur_regions (cpu m))))
      (rev (zip (cur_regions (cpu m)) (memo_regions (memo m)))) (m, False) = (m1, b)"
    by (meson surj_pair)
  have "cp15_update_pu_map env m = m1\<lparr> memo := cpu_memo (cpu m) \<rparr>"
    unfolding cp15_update_pu_map_def Let_def if_P [OF True] f prod.case by (simp add: cpu_memo_def)
  with cheap_path [OF inv _ _ _ f] True show ?thesis by (intro that) auto
next
  case False
  obtain m1 b where f: "rebuild env (fresh_map (cpu m)) m = (m1, b)" by (meson surj_pair)
  have "cp15_update_pu_map env m = m1\<lparr> memo := cpu_memo (cpu m) \<rparr>"
    unfolding cp15_update_pu_map_def Let_def if_not_P [OF False] f prod.case by (simp add: cpu_memo_def)
  with full_path [OF inv f] show ?thesis by (intro that) auto
qed

section \<open>The map and the rows never go stale\<close>

text \<open>C6: After every update of the protection unit's state, whichever path the update takes
  (rescanning the extents of changed regions, or rebuilding and diffing), the cacheability
  byte of each of the 2^20 pages is the one a recomputation from the current registers
  gives (the highest-numbered enabled region wins), every ARM9 cost row is the one composed
  from the current map, and the remembered state is the current one.\<close>

theorem pu_update_exact:
  assumes "pu_inv env m"
  defines "m' \<equiv> cp15_update_pu_map env m"
  shows "pu_inv env m' \<and> memo m' = cpu_memo (cpu m) \<and> cpu m' = cpu m \<and>
    (p < 0x100000 \<longrightarrow> pu_map m' p = map_spec (cpu_memo (cpu m)) p)"
proof -
  obtain m1 where m1: "m' = m1\<lparr> memo := cpu_memo (cpu m) \<rparr>" "cpu m1 = cpu m"
    "rows_ok env {} m1" "\<forall>p<0x100000. pu_map m1 p = map_spec (cpu_memo (cpu m)) p"
    using update_pu_map_cases [OF assms(1)] unfolding m'_def by blast
  have "rows_ok env {} m'" using m1(3) unfolding rows_ok_def m1(1) by (simp add: cpu9_row_def)
  with m1 show ?thesis by (simp add: pu_inv_def)
qed

text \<open>A machine with one region over the whole address space, cacheable for data, and the
  rows freshly composed.\<close>

definition one_region_mach :: "unit mach" where
  "one_region_mach =
     (let m = zero_mach\<lparr> cpu := zero_cpu\<lparr> cp15_control := 5, pu_data_cacheable := 1,
                                           pu_region := (\<lambda>_. 0)(0 := 0x3F) \<rparr> \<rparr>
      in m\<lparr> timing9 := cpu9_row zero_env m \<rparr>)"

lemma one_region_inv: "pu_inv zero_env one_region_mach"
  by (simp add: pu_inv_def rows_ok_def one_region_mach_def Let_def cpu9_row_def zero_mach_def zero_memo_def)

lemma one_region_value: "map_spec (cpu_memo (cpu one_region_mach)) 7 = 0x10"
  by (simp add: one_region_mach_def Let_def map_spec_def cpu_memo_def memo_regions_def tst_def
      upt_rec zero_cpu_def zero_mach_def covers_def decode_region_def rgn_off_def fld_def)

theorem pu_update_exact_witness:
  "pu_map (cp15_update_pu_map zero_env one_region_mach) 7 = 0x10"
  using pu_update_exact [OF one_region_inv, of 7] one_region_value by simp

end
