(* ===== verification/PageTable.thy ===== *)
theory PageTable imports CpuMem begin

text \<open>
  The mutators of the page table (\<^verbatim>\<open>src/core/mem/page_table.cpp\<close>) and the reverse index behind
  the code tags: an open-addressing table from host pages to doubly linked lists of the guest
  pages below 256 MB that map them.  The table is the function from page numbers to entries
  that \<open>CpuMem\<close> reads.  The host view derived from the table is a value \<open>'v\<close> behind
  \<open>view_env\<close>; the census hooks only observe.  Addresses and sizes are multiples of the page
  size, as the code asserts.

  Probing for a slot and walking a list would not end on a full table or a cyclic list; the
  model then returns \<open>None\<close>, and \<open>PageIndex\<close> shows that it never does.
\<close>

section \<open>Constants\<close>

definition PAGE_SHIFT :: nat where "PAGE_SHIFT = 11"
definition PAGE_BYTES :: nat where "PAGE_BYTES = 2048"
definition PAGE_WRITABLE :: u32 where "PAGE_WRITABLE = 2"
definition PAGE_MMIO :: u32 where "PAGE_MMIO = 4"

definition SLOT_BITS :: nat where "SLOT_BITS = 15"
definition SLOTS :: nat where "SLOTS = 32768"
definition NO_PAGE :: u32 where "NO_PAGE = 0xFFFFFFFF"
definition TRACKED :: u32 where "TRACKED = 0x20000"

text \<open>Page \<open>p\<close> as an address, and the number of pages of a region.\<close>

definition page_of :: "u32 \<Rightarrow> u32" where
  "page_of addr = drop_bit PAGE_SHIFT addr"

definition page_count :: "u32 \<Rightarrow> nat" where
  "page_count sz = (unat sz + (PAGE_BYTES - 1)) div PAGE_BYTES"

section \<open>State\<close>

record host_index =
  ix_key :: "nat \<Rightarrow> u64"
  ix_head :: "nat \<Rightarrow> u32"
  ix_next :: "u32 \<Rightarrow> u32"
  ix_prev :: "u32 \<Rightarrow> u32"

definition new_index :: host_index where
  "new_index = \<lparr> ix_key = (\<lambda>_. 0), ix_head = (\<lambda>_. NO_PAGE), ix_next = (\<lambda>_. NO_PAGE), ix_prev = (\<lambda>_. NO_PAGE) \<rparr>"

record 'v page_tbl =
  pt_table :: "u32 \<Rightarrow> u64"
  pt_index :: host_index
  pt_view :: "'v option"

definition new_page_tbl :: "'v page_tbl" where
  "new_page_tbl = \<lparr> pt_table = (\<lambda>_. 0), pt_index = new_index, pt_view = None \<rparr>"

text \<open>The host view: told of a page, asked whether it has work, and brought up to date from the table.\<close>

record 'v view_env =
  ve_note :: "u32 \<Rightarrow> 'v \<Rightarrow> 'v"
  ve_pending :: "'v \<Rightarrow> bool"
  ve_flush :: "(u32 \<Rightarrow> u64) \<Rightarrow> 'v \<Rightarrow> 'v"

definition attach_view :: "'v option \<Rightarrow> 'v page_tbl \<Rightarrow> 'v page_tbl" where
  "attach_view v t = t\<lparr> pt_view := v \<rparr>"

definition note_view :: "'v view_env \<Rightarrow> u32 \<Rightarrow> 'v page_tbl \<Rightarrow> 'v page_tbl" where
  "note_view env p t = t\<lparr> pt_view := map_option (ve_note env p) (pt_view t) \<rparr>"

definition flush_view :: "'v view_env \<Rightarrow> 'v page_tbl \<Rightarrow> 'v page_tbl" where
  "flush_view env t = t\<lparr> pt_view :=
     map_option (\<lambda>v. if ve_pending env v then ve_flush env (pt_table t) v else v) (pt_view t) \<rparr>"

text \<open>A loop whose body may fail to return.\<close>

fun each :: "('a \<Rightarrow> 's \<Rightarrow> 's option) \<Rightarrow> 'a list \<Rightarrow> 's \<Rightarrow> 's option" where
  "each f [] s = Some s"
| "each f (x # xs) s = (case f x s of None \<Rightarrow> None | Some t \<Rightarrow> each f xs t)"

section \<open>Entries\<close>

text \<open>\<open>query\<close> is \<^verbatim>\<open>code_query\<close>: does the host page hold translated code.\<close>

definition make_entry :: "(u64 \<Rightarrow> bool) \<Rightarrow> u32 \<Rightarrow> u64 \<Rightarrow> u32 \<Rightarrow> u64" where
  "make_entry query g h flags =
     (if tst flags PAGE_MMIO then TAG_SPECIAL
      else
        (let biased = h - ucast g;
             e = drop_bit 2 biased;
             e1 = (if tst flags PAGE_WRITABLE then e else e OR TAG_SPECIAL)
         in if query h then e1 OR TAG_CODE else e1))"

definition host_page_of :: "u64 \<Rightarrow> u32 \<Rightarrow> u64" where
  "host_page_of e p = drop_bit PAGE_SHIFT (push_bit 2 e + push_bit PAGE_SHIFT (ucast p))"

section \<open>The index of host pages\<close>

definition slot_start :: "u64 \<Rightarrow> nat" where
  "slot_start hp = unat (drop_bit (64 - SLOT_BITS) (hp * 0x9E3779B97F4A7C15))"

fun probe :: "(nat \<Rightarrow> u64) \<Rightarrow> u64 \<Rightarrow> nat \<Rightarrow> nat \<Rightarrow> nat option" where
  "probe key hp 0 s = None"
| "probe key hp (Suc fuel) s = (if key s \<noteq> 0 \<and> key s \<noteq> hp then probe key hp fuel ((s + 1) mod SLOTS) else Some s)"

text \<open>Once round the table without a free slot, the code would probe for ever.\<close>

definition ix_slot :: "host_index \<Rightarrow> u64 \<Rightarrow> nat option" where
  "ix_slot ix hp = probe (ix_key ix) hp SLOTS (slot_start hp)"

definition in_index :: "u32 \<Rightarrow> u64 \<Rightarrow> bool" where
  "in_index p e \<longleftrightarrow> p < TRACKED \<and> push_bit 2 e \<noteq> 0"

definition index_insert :: "u32 \<Rightarrow> u64 \<Rightarrow> host_index \<Rightarrow> host_index option" where
  "index_insert p e ix =
     (if \<not> in_index p e then Some ix
      else case ix_slot ix (host_page_of e p) of None \<Rightarrow> None
      | Some s \<Rightarrow>
          (let h = ix_head ix s in
           Some (ix\<lparr> ix_key := (ix_key ix)(s := host_page_of e p),
                     ix_next := (ix_next ix)(p := h),
                     ix_prev := (let pv = (ix_prev ix)(p := NO_PAGE) in if h \<noteq> NO_PAGE then pv(h := p) else pv),
                     ix_head := (ix_head ix)(s := p) \<rparr>)))"

definition unlink :: "nat \<Rightarrow> u32 \<Rightarrow> host_index \<Rightarrow> host_index" where
  "unlink s p ix =
     (let n = ix_next ix p; q = ix_prev ix p;
          ix1 = (if q \<noteq> NO_PAGE then ix\<lparr> ix_next := (ix_next ix)(q := n) \<rparr>
                 else if ix_head ix s = p then ix\<lparr> ix_head := (ix_head ix)(s := n) \<rparr> else ix);
          ix2 = (if n \<noteq> NO_PAGE then ix1\<lparr> ix_prev := (ix_prev ix1)(n := q) \<rparr> else ix1)
      in ix2\<lparr> ix_next := (ix_next ix2)(p := NO_PAGE), ix_prev := (ix_prev ix2)(p := NO_PAGE) \<rparr>)"

definition index_remove :: "u32 \<Rightarrow> u64 \<Rightarrow> host_index \<Rightarrow> host_index option" where
  "index_remove p e ix =
     (if \<not> in_index p e then Some ix
      else case ix_slot ix (host_page_of e p) of None \<Rightarrow> None
      | Some s \<Rightarrow> Some (if ix_key ix s = 0 then ix else unlink s p ix))"

section \<open>Mapping\<close>

text \<open>An entry replaced, with the index kept in step; inserting the empty entry does nothing.\<close>

definition put_entry :: "'v view_env \<Rightarrow> u32 \<Rightarrow> u64 \<Rightarrow> 'v page_tbl \<Rightarrow> 'v page_tbl option" where
  "put_entry env p e t =
     (let t1 = note_view env p t in
      case index_remove p (pt_table t1 p) (pt_index t1) of None \<Rightarrow> None
      | Some ix1 \<Rightarrow>
          map_option (\<lambda>ix2. t1\<lparr> pt_table := (pt_table t1)(p := e), pt_index := ix2 \<rparr>) (index_insert p e ix1))"

definition page_addr :: "u32 \<Rightarrow> nat \<Rightarrow> u32" where
  "page_addr guest k = guest + of_nat (PAGE_BYTES * k)"

definition map_page :: "'v view_env \<Rightarrow> (u64 \<Rightarrow> bool) \<Rightarrow> u32 \<Rightarrow> u64 \<Rightarrow> u32 \<Rightarrow> 'v page_tbl \<Rightarrow> 'v page_tbl option" where
  "map_page env query g h flags t =
     (let e = make_entry query g h flags in
      if pt_table t (page_of g) = e then Some t else put_entry env (page_of g) e t)"

definition pt_map :: "'v view_env \<Rightarrow> (u64 \<Rightarrow> bool) \<Rightarrow> u32 \<Rightarrow> u32 \<Rightarrow> u64 \<Rightarrow> u32 \<Rightarrow> 'v page_tbl \<Rightarrow> 'v page_tbl option" where
  "pt_map env query guest sz h flags t =
     map_option (flush_view env)
       (each (\<lambda>k. map_page env query (page_addr guest k) (h + of_nat (PAGE_BYTES * k)) flags) [0..<page_count sz] t)"

definition map_mmio :: "'v view_env \<Rightarrow> (u64 \<Rightarrow> bool) \<Rightarrow> u32 \<Rightarrow> u32 \<Rightarrow> 'v page_tbl \<Rightarrow> 'v page_tbl option" where
  "map_mmio env query guest sz = pt_map env query guest sz 0 PAGE_MMIO"

definition remap_page :: "'v view_env \<Rightarrow> (u64 \<Rightarrow> bool) \<Rightarrow> u32 \<Rightarrow> u64 \<Rightarrow> u32 \<Rightarrow> 'v page_tbl \<Rightarrow> 'v page_tbl option" where
  "remap_page env query g h flags t =
     (let p = page_of g; old = pt_table t p in
      if h = 0 then (if old \<noteq> 0 then put_entry env p 0 t else Some t)
      else if old \<noteq> 0 \<and> (\<not> tst old TAG_SPECIAL) = tst flags PAGE_WRITABLE \<and>
              push_bit 2 (old AND BASE_MASK) + ucast g = h then Some t
      else map_page env query g h flags t)"

definition pt_remap :: "'v view_env \<Rightarrow> (u64 \<Rightarrow> bool) \<Rightarrow> u32 \<Rightarrow> u32 \<Rightarrow> u64 list \<Rightarrow> u32 \<Rightarrow> 'v page_tbl \<Rightarrow> 'v page_tbl option" where
  "pt_remap env query guest sz hosts flags t =
     map_option (flush_view env)
       (each (\<lambda>k. remap_page env query (page_addr guest k) (hosts ! k) flags) [0..<page_count sz] t)"

definition unmap_page :: "'v view_env \<Rightarrow> u32 \<Rightarrow> 'v page_tbl \<Rightarrow> 'v page_tbl option" where
  "unmap_page env p t = (if pt_table t p = 0 then Some t else put_entry env p 0 t)"

definition pt_unmap :: "'v view_env \<Rightarrow> u32 \<Rightarrow> u32 \<Rightarrow> 'v page_tbl \<Rightarrow> 'v page_tbl option" where
  "pt_unmap env guest sz t =
     map_option (flush_view env)
       (each (\<lambda>k. unmap_page env (page_of (page_addr guest k))) [0..<page_count sz] t)"

section \<open>Tags\<close>

text \<open>A tag changed in place; \<open>note\<close> says whether the view must hear of it.\<close>

definition retag :: "'v view_env \<Rightarrow> bool \<Rightarrow> u32 \<Rightarrow> u64 \<Rightarrow> 'v page_tbl \<Rightarrow> 'v page_tbl" where
  "retag env note p e t =
     (if e = pt_table t p then t
      else (let t1 = (if note then note_view env p t else t) in t1\<lparr> pt_table := (pt_table t1)(p := e) \<rparr>))"

definition with_tag :: "u64 \<Rightarrow> bool \<Rightarrow> u64 \<Rightarrow> u64" where
  "with_tag tag on e = (if on then e OR tag else e AND NOT tag)"

text \<open>The list of a host page, walked to its end.\<close>

fun code_walk :: "'v view_env \<Rightarrow> bool \<Rightarrow> nat \<Rightarrow> u32 \<Rightarrow> 'v page_tbl \<Rightarrow> 'v page_tbl option" where
  "code_walk env is_code fuel p t =
     (if p = NO_PAGE then Some t
      else case fuel of 0 \<Rightarrow> None
      | Suc fuel \<Rightarrow>
          code_walk env is_code fuel (ix_next (pt_index t) p)
            (retag env is_code p (with_tag TAG_CODE is_code (pt_table t p)) t))"

declare code_walk.simps [simp del]

definition set_code_host :: "'v view_env \<Rightarrow> u64 \<Rightarrow> bool \<Rightarrow> 'v page_tbl \<Rightarrow> 'v page_tbl option" where
  "set_code_host env h is_code t =
     (let want = drop_bit PAGE_SHIFT h; ix = pt_index t in
      case ix_slot ix want of None \<Rightarrow> None
      | Some s \<Rightarrow>
          (if ix_key ix s \<noteq> want then Some t
           else map_option (flush_view env) (code_walk env is_code (unat TRACKED) (ix_head ix s) t)))"

definition trap_page :: "'v view_env \<Rightarrow> bool \<Rightarrow> u32 \<Rightarrow> 'v page_tbl \<Rightarrow> 'v page_tbl" where
  "trap_page env on p t =
     (let e = pt_table t p in if e AND BASE_MASK = 0 then t else retag env True p (with_tag TAG_SPECIAL on e) t)"

definition set_write_trap :: "'v view_env \<Rightarrow> u32 \<Rightarrow> u32 \<Rightarrow> bool \<Rightarrow> 'v page_tbl \<Rightarrow> 'v page_tbl" where
  "set_write_trap env guest sz on t =
     flush_view env
       (fold (\<lambda>k. trap_page env on (page_of guest + of_nat k)) [0..<unat (drop_bit PAGE_SHIFT sz)] t)"

text \<open>Word by word, the pages of the bits that are set, lowest first.\<close>

definition bit_pages :: "u32 \<Rightarrow> nat \<Rightarrow> u64 list \<Rightarrow> u32 list" where
  "bit_pages first count bits =
     concat (map (\<lambda>w. map (\<lambda>i. first + of_nat (w * 64 + i)) (filter (bit (bits ! w)) [0..<64])) [0..<(count + 63) div 64])"

definition set_write_trap_bits :: "'v view_env \<Rightarrow> u32 \<Rightarrow> nat \<Rightarrow> u64 list \<Rightarrow> bool \<Rightarrow> 'v page_tbl \<Rightarrow> 'v page_tbl" where
  "set_write_trap_bits env first count bits on t =
     flush_view env (fold (trap_page env on) (bit_pages first count bits) t)"

definition set_code :: "'v view_env \<Rightarrow> u32 \<Rightarrow> u32 \<Rightarrow> bool \<Rightarrow> 'v page_tbl \<Rightarrow> 'v page_tbl" where
  "set_code env guest sz is_code t =
     flush_view env
       (fold (\<lambda>p t. note_view env p (t\<lparr> pt_table := (pt_table t)(p := with_tag TAG_CODE is_code (pt_table t p)) \<rparr>))
         (map of_nat [unat (page_of guest)..<unat (page_of (guest + sz - 1)) + 1]) t)"

end
