(* ===== verification/PageIndex.thy ===== *)
theory PageIndex imports PageTable begin

text \<open>
  The reverse index of the page table is exact: for every host page, the list at its slot holds
  the guest pages below 256 MB that map it, each once.  So probing and walking end, a code tag
  set through the index reaches every alias of the page, and in every state the table can reach
  an entry is tagged just when its host page holds translated code.
\<close>

section \<open>Probing\<close>

lemma probe_result:
  "probe key hp fuel s = Some r \<Longrightarrow> s < SLOTS \<Longrightarrow> r < SLOTS \<and> (key r = 0 \<or> key r = hp)"
  by (induction fuel arbitrary: s) (auto simp: SLOTS_def split: if_splits)

lemma probe_stops:
  "k < fuel \<Longrightarrow> s < SLOTS \<Longrightarrow> key ((s + k) mod SLOTS) = 0 \<Longrightarrow> \<exists>r. probe key hp fuel s = Some r"
proof (induction fuel arbitrary: s k)
  case (Suc fuel)
  show ?case
  proof (cases "key s \<noteq> 0 \<and> key s \<noteq> hp")
    case True
    have "k \<noteq> 0"
    proof
      assume "k = 0"
      then show False using True Suc.prems by (simp add: SLOTS_def)
    qed
    then obtain j where j: "k = Suc j" by (cases k) auto
    have "((s + 1) mod SLOTS + j) mod SLOTS = (s + k) mod SLOTS" by (simp add: j mod_simps)
    then show ?thesis using True Suc.IH [of j "(s + 1) mod SLOTS"] Suc.prems j by (simp add: SLOTS_def)
  next
    case False
    then show ?thesis by auto
  qed
qed simp

text \<open>A new key in a free slot hides no other, and is found where it was put.\<close>

lemma probe_other:
  "probe key hp fuel s = Some r \<Longrightarrow> key r = hp \<Longrightarrow> hp \<noteq> 0 \<Longrightarrow> key z = 0 \<Longrightarrow> probe (key(z := x)) hp fuel s = Some r"
  by (induction fuel arbitrary: s) (auto split: if_splits)

lemma probe_new:
  "probe key hp fuel s = Some z \<Longrightarrow> key z = 0 \<Longrightarrow> probe (key(z := hp)) hp fuel s = Some z"
  by (induction fuel arbitrary: s) (auto split: if_splits)

lemma slot_start_less: "slot_start hp < SLOTS"
proof -
  have "slot_start hp = unat (hp * 0x9E3779B97F4A7C15) div 2 ^ 49"
    unfolding slot_start_def unat_drop_bit_eq by (simp add: SLOT_BITS_def drop_bit_eq_div)
  also have "\<dots> < 32768" using unsigned_less [of "hp * 0x9E3779B97F4A7C15", where 'a = nat] by (simp add: less_mult_imp_div_less)
  finally show ?thesis by (simp add: SLOTS_def)
qed

section \<open>The lists of pages\<close>

fun chain :: "(u32 \<Rightarrow> u32) \<Rightarrow> (u32 \<Rightarrow> u32) \<Rightarrow> u32 \<Rightarrow> u32 \<Rightarrow> u32 list \<Rightarrow> bool" where
  "chain nx pv q p [] \<longleftrightarrow> p = NO_PAGE"
| "chain nx pv q p (x # xs) \<longleftrightarrow> p = x \<and> x \<noteq> NO_PAGE \<and> pv x = q \<and> chain nx pv x (nx x) xs"

lemma chain_cong:
  "(\<And>x. x \<in> set ps \<Longrightarrow> nx' x = nx x \<and> pv' x = pv x) \<Longrightarrow> chain nx pv q p ps \<Longrightarrow> chain nx' pv' q p ps"
  by (induction ps arbitrary: q p) auto

lemma chain_pages: "chain nx pv q p ps \<Longrightarrow> x \<in> set ps \<Longrightarrow> x \<noteq> NO_PAGE"
  by (induction ps arbitrary: q p) auto

lemma chain_start: "chain nx pv q p ps \<Longrightarrow> p \<noteq> NO_PAGE \<Longrightarrow> p \<in> set ps"
  by (cases ps) auto

lemma chain_insert:
  assumes "chain nx pv NO_PAGE h ps" "distinct ps" "p \<notin> set ps" "p \<noteq> NO_PAGE"
  shows "chain (nx(p := h)) (let pv' = pv(p := NO_PAGE) in if h \<noteq> NO_PAGE then pv'(h := p) else pv') NO_PAGE p (p # ps)"
proof (cases ps)
  case Nil
  then show ?thesis using assms by (simp add: Let_def)
next
  case (Cons x xs)
  have x: "h = x" "x \<noteq> NO_PAGE" and c: "chain nx pv x (nx x) xs" using assms(1) Cons by simp_all
  have d: "x \<noteq> p" "x \<notin> set xs" "p \<notin> set xs" using assms(2,3) Cons by auto
  have "chain (nx(p := x)) (pv(p := NO_PAGE, x := p)) x (nx x) xs"
    by (rule chain_cong [OF _ c]) (use d in \<open>auto simp: fun_upd_def\<close>)
  then show ?thesis using assms(4) x d unfolding Cons by (simp add: Let_def)
qed

lemma chain_next: "chain nx pv q h (xs @ p # ys) \<Longrightarrow> nx p = (case ys of [] \<Rightarrow> NO_PAGE | y # _ \<Rightarrow> y)"
  by (induction xs arbitrary: q h) (auto split: list.split)

text \<open>Removal, in the middle or at the head; \<open>n\<close> and \<open>q\<close> are the page's neighbours.\<close>

lemma chain_remove:
  assumes "chain nx pv q0 h (xs @ p # ys)" "distinct (xs @ p # ys)" "q0 \<notin> set (xs @ p # ys)"
    and n: "n = nx p" and q: "q = pv p"
    and nx': "\<And>x. x \<in> set (xs @ ys) \<Longrightarrow> nx' x = (if x = q then n else nx x)"
    and pv': "\<And>x. x \<in> set (xs @ ys) \<Longrightarrow> pv' x = (if x = n then q else pv x)"
  shows "chain nx' pv' q0 (if xs = [] then n else h) (xs @ ys) \<and> q = (if xs = [] then q0 else last xs)"
  using assms(1-3) nx' pv'
proof (induction xs arbitrary: q0 h)
  case Nil
  then have c: "chain nx pv p n ys" "q = q0" using n q by simp_all
  have "chain nx' pv' q0 n ys"
  proof (cases ys)
    case Nil
    then show ?thesis using c by simp
  next
    case (Cons y zs)
    have y: "n = y" "y \<noteq> NO_PAGE" "chain nx pv y (nx y) zs" using c(1) Cons by simp_all
    have d: "y \<notin> set zs" "q0 \<noteq> y" "q0 \<notin> set zs" using Nil.prems(2,3) Cons by auto
    have "nx' x = nx x \<and> pv' x = pv x" if "x \<in> set zs" for x
    proof -
      have "x \<noteq> q" "x \<noteq> n" using that d c(2) y(1) by auto
      then show ?thesis using Nil.prems(4,5) [of x] that Cons by simp
    qed
    then have "chain nx' pv' y (nx y) zs" using y(3) by (rule chain_cong)
    moreover have "nx' y = nx y" "pv' y = q0" using Nil.prems(4,5) [of y] Cons y(1) c(2) d by simp_all
    ultimately show ?thesis using Cons y by simp
  qed
  then show ?case using c by simp
next
  case (Cons x xs)
  have x: "h = x" "x \<noteq> NO_PAGE" "pv x = q0" "chain nx pv x (nx x) (xs @ p # ys)" using Cons.prems(1) by simp_all
  have IH: "chain nx' pv' x (if xs = [] then n else nx x) (xs @ ys) \<and> q = (if xs = [] then x else last xs)"
  proof (rule Cons.IH [OF x(4)])
    show "distinct (xs @ p # ys)" "x \<notin> set (xs @ p # ys)" using Cons.prems(2) by auto
  qed (use Cons.prems(4,5) in simp_all)
  have "x \<noteq> n" using chain_next [OF Cons.prems(1)] x(2) Cons.prems(2) n by (auto split: list.splits)
  then have "pv' x = q0" using Cons.prems(5) [of x] x(3) by simp
  moreover have "nx' x = (if xs = [] then n else nx x)"
  proof (cases "xs = []")
    case False
    then have "q \<in> set xs" using IH last_in_set by simp
    then have "x \<noteq> q" using Cons.prems(2) by auto
    then show ?thesis using Cons.prems(4) [of x] False by simp
  qed (use Cons.prems(4) [of x] IH in simp)
  ultimately show ?case using IH x by (simp split: if_splits)
qed

section \<open>The invariant\<close>

text \<open>The host page an entry maps, for the pages the index tracks.\<close>

definition hosted :: "(u32 \<Rightarrow> u64) \<Rightarrow> u32 \<Rightarrow> u64 option" where
  "hosted t p = (if in_index p (t p) then Some (host_page_of (t p) p) else None)"

text \<open>\<open>U\<close> bounds the host pages that are ever mapped: fewer than there are slots, none of them
  page 0.  Keys are never removed, so the bound is over the life of the table.\<close>

definition universe :: "u64 set \<Rightarrow> bool" where
  "universe U \<longleftrightarrow> finite U \<and> card U < SLOTS \<and> 0 \<notin> U"

definition keys_ok :: "u64 set \<Rightarrow> (nat \<Rightarrow> u64) \<Rightarrow> bool" where
  "keys_ok U key \<longleftrightarrow>
     (\<forall>s<SLOTS. key s \<noteq> 0 \<longrightarrow> key s \<in> U \<and> probe key (key s) SLOTS (slot_start (key s)) = Some s)"

definition lists_ok :: "(u32 \<Rightarrow> u64) \<Rightarrow> host_index \<Rightarrow> bool" where
  "lists_ok t ix \<longleftrightarrow>
     (\<forall>s<SLOTS. \<exists>ps. chain (ix_next ix) (ix_prev ix) NO_PAGE (ix_head ix s) ps \<and> distinct ps \<and>
        set ps = {p. hosted t p = Some (ix_key ix s)})"

definition index_ok :: "u64 set \<Rightarrow> (u32 \<Rightarrow> u64) \<Rightarrow> host_index \<Rightarrow> bool" where
  "index_ok U t ix \<longleftrightarrow> universe U \<and> keys_ok U (ix_key ix) \<and>
     (\<forall>p h. hosted t p = Some h \<longrightarrow> h \<in> U \<and> (\<exists>s<SLOTS. ix_key ix s = h)) \<and> lists_ok t ix"

lemma hosted_tracked: "hosted t p = Some h \<Longrightarrow> p < TRACKED"
  by (simp add: hosted_def in_index_def split: if_splits)

lemma tracked_page: "p < TRACKED \<Longrightarrow> p \<noteq> NO_PAGE"
  by (auto simp: TRACKED_def NO_PAGE_def)

lemma free_slot:
  assumes "universe U" "keys_ok U key"
  shows "\<exists>z<SLOTS. key z = 0"
proof (rule ccontr)
  assume full: "\<not> ?thesis"
  then have k: "key s \<in> U" "probe key (key s) SLOTS (slot_start (key s)) = Some s" if "s < SLOTS" for s
    using assms(2) that by (auto simp: keys_ok_def)
  have "inj_on key {..<SLOTS}" using k(2) by (intro inj_onI) (metis lessThan_iff option.inject)
  then have "card {..<SLOTS} \<le> card U"
    using assms(1) k(1) by (intro card_inj_on_le) (auto simp: universe_def)
  then show False using assms(1) by (simp add: universe_def)
qed

lemma slot_any:
  assumes "universe U" "keys_ok U (ix_key ix)"
  shows "\<exists>s<SLOTS. ix_slot ix h = Some s \<and> (ix_key ix s = 0 \<or> ix_key ix s = h)"
proof -
  obtain z where z: "z < SLOTS" "ix_key ix z = 0" using free_slot [OF assms] by blast
  let ?s = "slot_start h"
  define k where "k = (z + SLOTS - ?s) mod SLOTS"
  have "k < SLOTS" "(?s + k) mod SLOTS = z"
    using z(1) slot_start_less [of h] by (simp_all add: k_def SLOTS_def mod_simps)
  then obtain r where "ix_slot ix h = Some r"
    using probe_stops [of k SLOTS ?s "ix_key ix" h] z slot_start_less by (auto simp: ix_slot_def)
  then show ?thesis using probe_result [OF _ slot_start_less, of "ix_key ix" h SLOTS h r] by (auto simp: ix_slot_def)
qed

lemma slot_known:
  assumes "keys_ok U (ix_key ix)" "s < SLOTS" "ix_key ix s = h" "h \<noteq> 0"
  shows "ix_slot ix h = Some s"
  using assms by (auto simp: keys_ok_def ix_slot_def)

lemma keys_unique:
  fixes ix :: host_index
  assumes "keys_ok U (ix_key ix)" "s < SLOTS" "s' < SLOTS" "ix_key ix s = ix_key ix s'" "ix_key ix s \<noteq> 0"
  shows "s = s'"
proof -
  have "ix_slot ix (ix_key ix s) = Some s" by (rule slot_known [OF assms(1,2) refl assms(5)])
  moreover have "ix_slot ix (ix_key ix s) = Some s'" by (rule slot_known [OF assms(1,3) assms(4) [symmetric] assms(5)])
  ultimately show ?thesis by simp
qed

lemma keys_insert:
  assumes "keys_ok U key" "universe U" "h \<in> U" "probe key h SLOTS (slot_start h) = Some s" "key s = 0 \<or> key s = h"
  shows "keys_ok U (key(s := h))"
proof (cases "key s = h")
  case True
  then have "key(s := h) = key" by auto
  then show ?thesis using assms(1) by simp
next
  case False
  then have z: "key s = 0" using assms(5) by simp
  show ?thesis unfolding keys_ok_def
  proof (intro allI impI)
    fix r assume r: "r < SLOTS" "(key(s := h)) r \<noteq> 0"
    show "(key(s := h)) r \<in> U \<and> probe (key(s := h)) ((key(s := h)) r) SLOTS (slot_start ((key(s := h)) r)) = Some r"
    proof (cases "r = s")
      case True
      then show ?thesis using probe_new [OF assms(4) z] assms(3) by simp
    next
      case False
      then have "key r \<noteq> 0" "key r \<in> U" "probe key (key r) SLOTS (slot_start (key r)) = Some r"
        using r assms(1) by (auto simp: keys_ok_def)
      then show ?thesis using probe_other [of key "key r" SLOTS _ r s h] z False by simp
    qed
  qed
qed

lemma hosted_upd:
  "hosted (t(p := e)) q = (if q = p then (if in_index p e then Some (host_page_of e p) else None) else hosted t q)"
  by (simp add: hosted_def)

lemma hosted_same:
  assumes "\<not> in_index p e" "\<not> in_index p (t p)"
  shows "hosted (t(p := e)) = hosted t"
  using assms by (auto simp: hosted_def)

lemma index_ok_hosted: "index_ok U t ix \<Longrightarrow> hosted t' = hosted t \<Longrightarrow> index_ok U t' ix"
  by (simp add: index_ok_def lists_ok_def)

lemma index_slot:
  assumes "index_ok U t ix" "hosted t p = Some h"
  shows "\<exists>s<SLOTS. ix_slot ix h = Some s \<and> ix_key ix s = h" "h \<in> U" "h \<noteq> 0"
proof -
  have keys: "keys_ok U (ix_key ix)" using assms(1) by (simp add: index_ok_def)
  obtain s where s: "s < SLOTS" "ix_key ix s = h" and U: "h \<in> U" "0 \<notin> U"
    using assms by (auto simp: index_ok_def universe_def)
  then show "h \<in> U" "h \<noteq> 0" by auto
  then show "\<exists>s<SLOTS. ix_slot ix h = Some s \<and> ix_key ix s = h" using slot_known [OF keys s] s by blast
qed

lemma index_list:
  assumes "index_ok U t ix" "s < SLOTS"
  obtains ps where "chain (ix_next ix) (ix_prev ix) NO_PAGE (ix_head ix s) ps" "distinct ps"
    "set ps = {p. hosted t p = Some (ix_key ix s)}" "NO_PAGE \<notin> set ps"
proof -
  obtain ps where ps: "chain (ix_next ix) (ix_prev ix) NO_PAGE (ix_head ix s) ps" "distinct ps"
    "set ps = {p. hosted t p = Some (ix_key ix s)}"
    using assms by (auto simp: index_ok_def lists_ok_def)
  moreover have "NO_PAGE \<notin> set ps" using chain_pages [OF ps(1)] by blast
  ultimately show thesis by (rule that)
qed

lemma lists_apart:
  assumes "index_ok U t ix" "s < SLOTS" "r < SLOTS" "r \<noteq> s"
    "hosted t x = Some (ix_key ix s)" "hosted t x = Some (ix_key ix r)"
  shows False
  using keys_unique [of U ix s r] index_slot(3) [OF assms(1,5)] assms by (auto simp: index_ok_def)

lemma unlink_fields:
  "ix_key (unlink s p ix) = ix_key ix"
  "r \<noteq> s \<Longrightarrow> ix_head (unlink s p ix) r = ix_head ix r"
  "ix_head (unlink s p ix) s = (if ix_prev ix p = NO_PAGE \<and> ix_head ix s = p then ix_next ix p else ix_head ix s)"
  "x \<noteq> p \<Longrightarrow> x \<noteq> NO_PAGE \<Longrightarrow> ix_next (unlink s p ix) x = (if x = ix_prev ix p then ix_next ix p else ix_next ix x)"
  "x \<noteq> p \<Longrightarrow> x \<noteq> NO_PAGE \<Longrightarrow> ix_prev (unlink s p ix) x = (if x = ix_next ix p then ix_prev ix p else ix_prev ix x)"
  by (auto simp: unlink_def Let_def)

lemma unlink_lists:
  assumes ok: "index_ok U t ix" and s: "s < SLOTS" "hosted t p = Some (ix_key ix s)" and e: "\<not> in_index p e"
  shows "lists_ok (t(p := e)) (unlink s p ix)"
  unfolding lists_ok_def
proof (intro allI impI)
  fix r assume r: "r < SLOTS"
  obtain ps where ps: "chain (ix_next ix) (ix_prev ix) NO_PAGE (ix_head ix s) ps" "distinct ps"
    "set ps = {p. hosted t p = Some (ix_key ix s)}" "NO_PAGE \<notin> set ps" by (rule index_list [OF ok s(1)])
  obtain xs ys where sp: "ps = xs @ p # ys" using ps(3) s(2) by (metis (mono_tags) mem_Collect_eq split_list)
  have rm: "chain (ix_next (unlink s p ix)) (ix_prev (unlink s p ix)) NO_PAGE
      (if xs = [] then ix_next ix p else ix_head ix s) (xs @ ys) \<and> ix_prev ix p = (if xs = [] then NO_PAGE else last xs)"
  proof (rule chain_remove)
    show "chain (ix_next ix) (ix_prev ix) NO_PAGE (ix_head ix s) (xs @ p # ys)" "distinct (xs @ p # ys)"
      "NO_PAGE \<notin> set (xs @ p # ys)" using ps(1,2,4) unfolding sp by simp_all
    fix x assume "x \<in> set (xs @ ys)"
    then have "x \<noteq> p" "x \<noteq> NO_PAGE" using ps(2,4) sp by auto
    then show "ix_next (unlink s p ix) x = (if x = ix_prev ix p then ix_next ix p else ix_next ix x)"
      "ix_prev (unlink s p ix) x = (if x = ix_next ix p then ix_prev ix p else ix_prev ix x)"
      by (simp_all add: unlink_fields)
  qed (rule refl)+
  have n: "ix_next ix p = (case ys of [] \<Rightarrow> NO_PAGE | y # _ \<Rightarrow> y)" using ps(1) unfolding sp by (rule chain_next)
  show "\<exists>ps. chain (ix_next (unlink s p ix)) (ix_prev (unlink s p ix)) NO_PAGE (ix_head (unlink s p ix) r) ps \<and> distinct ps \<and>
      set ps = {q. hosted (t(p := e)) q = Some (ix_key (unlink s p ix) r)}"
  proof (cases "r = s")
    case True
    have "ix_head (unlink s p ix) s = (if xs = [] then ix_next ix p else ix_head ix s)"
      using ps sp rm by (cases xs) (auto simp: unlink_fields)
    moreover have "set (xs @ ys) = {q. hosted (t(p := e)) q = Some (ix_key ix s)}"
      using ps(2,3) e unfolding sp by (auto simp: hosted_upd)
    ultimately show ?thesis using rm ps(2) True sp by (intro exI [of _ "xs @ ys"]) (auto simp: unlink_fields)
  next
    case False
    obtain qs where qs: "chain (ix_next ix) (ix_prev ix) NO_PAGE (ix_head ix r) qs" "distinct qs"
      "set qs = {p. hosted t p = Some (ix_key ix r)}" "NO_PAGE \<notin> set qs" by (rule index_list [OF ok r])
    have apart: "x \<notin> set ps" if "x \<in> set qs" for x
      using lists_apart [OF ok s(1) r False, of x] that ps(3) qs(3) by auto
    have "chain (ix_next (unlink s p ix)) (ix_prev (unlink s p ix)) NO_PAGE (ix_head ix r) qs"
    proof (rule chain_cong [OF _ qs(1)])
      fix x assume x: "x \<in> set qs"
      then have "x \<notin> set ps" "x \<noteq> NO_PAGE" using apart qs(4) by auto
      moreover have "ix_prev ix p = NO_PAGE \<or> ix_prev ix p \<in> set ps" "ix_next ix p = NO_PAGE \<or> ix_next ix p \<in> set ps"
        using rm n sp by (auto split: list.splits)
      moreover have "x \<noteq> p" using calculation(1) sp by auto
      ultimately show "ix_next (unlink s p ix) x = ix_next ix x \<and> ix_prev (unlink s p ix) x = ix_prev ix x"
        by (auto simp: unlink_fields)
    qed
    moreover have "set qs = {q. hosted (t(p := e)) q = Some (ix_key ix r)}"
      using qs(3) e apart [of p] sp by (auto simp: hosted_upd)
    ultimately show ?thesis using qs(2) False by (intro exI [of _ qs]) (simp add: unlink_fields)
  qed
qed

lemma remove_ok:
  assumes "index_ok U t ix" "\<not> in_index p e"
  shows "\<exists>ix'. index_remove p (t p) ix = Some ix' \<and> index_ok U (t(p := e)) ix'"
proof (cases "in_index p (t p)")
  case True
  then have h: "hosted t p = Some (host_page_of (t p) p)" by (simp add: hosted_def)
  obtain s where s: "s < SLOTS" "ix_slot ix (host_page_of (t p) p) = Some s" "ix_key ix s = host_page_of (t p) p"
    using index_slot(1) [OF assms(1) h] by blast
  have "lists_ok (t(p := e)) (unlink s p ix)" using unlink_lists [OF assms(1) s(1)] h s(3) assms(2) by simp
  then have "index_ok U (t(p := e)) (unlink s p ix)"
    using assms unfolding index_ok_def by (auto simp: unlink_fields hosted_upd split: if_splits)
  then show ?thesis using True s index_slot(3) [OF assms(1) h] by (simp add: index_remove_def)
next
  case False
  then show ?thesis using assms index_ok_hosted hosted_same by (simp add: index_remove_def)
qed

lemma insert_lists:
  assumes ok: "index_ok U t ix" and p: "hosted t p = None" and e: "in_index p e"
    and s: "s < SLOTS" "ix_slot ix (host_page_of e p) = Some s" "ix_key ix s = 0 \<or> ix_key ix s = host_page_of e p"
    and h: "host_page_of e p \<noteq> 0" and ix': "index_insert p e ix = Some ix'"
  shows "lists_ok (t(p := e)) ix'"
  unfolding lists_ok_def
proof (intro allI impI)
  fix r assume r: "r < SLOTS"
  let ?h = "host_page_of e p" and ?hd = "ix_head ix s"
  have f: "ix_key ix' = (ix_key ix)(s := ?h)" "ix_head ix' = (ix_head ix)(s := p)" "ix_next ix' = (ix_next ix)(p := ?hd)"
    "ix_prev ix' = (let pv' = (ix_prev ix)(p := NO_PAGE) in if ?hd \<noteq> NO_PAGE then pv'(?hd := p) else pv')"
    using ix' s(2) e by (auto simp: index_insert_def Let_def)
  have "p \<noteq> NO_PAGE" using e tracked_page by (simp add: in_index_def)
  obtain ps where ps: "chain (ix_next ix) (ix_prev ix) NO_PAGE ?hd ps" "distinct ps"
    "set ps = {q. hosted t q = Some (ix_key ix s)}" "NO_PAGE \<notin> set ps" by (rule index_list [OF ok s(1)])
  have old: "hosted t q = Some ?h \<longleftrightarrow> q \<in> set ps" for q
    using s index_slot [OF ok, of q] ps(3) by auto
  have np: "p \<notin> set ps" using p ps(3) by auto
  show "\<exists>ps. chain (ix_next ix') (ix_prev ix') NO_PAGE (ix_head ix' r) ps \<and> distinct ps \<and>
      set ps = {q. hosted (t(p := e)) q = Some (ix_key ix' r)}"
  proof (cases "r = s")
    case True
    have "chain (ix_next ix') (ix_prev ix') NO_PAGE p (p # ps)"
      unfolding f by (rule chain_insert [OF ps(1,2) np \<open>p \<noteq> NO_PAGE\<close>])
    moreover have "set (p # ps) = {q. hosted (t(p := e)) q = Some ?h}" using old p e by (auto simp: hosted_upd)
    ultimately show ?thesis using np ps(2) True by (intro exI [of _ "p # ps"]) (simp add: f)
  next
    case False
    obtain qs where qs: "chain (ix_next ix) (ix_prev ix) NO_PAGE (ix_head ix r) qs" "distinct qs"
      "set qs = {p. hosted t p = Some (ix_key ix r)}" "NO_PAGE \<notin> set qs" by (rule index_list [OF ok r])
    have apart: "x \<noteq> p" "x \<notin> set ps" if "x \<in> set qs" for x
      using lists_apart [OF ok s(1) r False, of x] that ps(3) qs(3) p by auto
    have hd: "?hd \<in> set ps \<or> ?hd = NO_PAGE" using chain_start [OF ps(1)] by blast
    have "chain (ix_next ix') (ix_prev ix') NO_PAGE (ix_head ix r) qs"
      by (rule chain_cong [OF _ qs(1)]) (use apart hd in \<open>auto simp: f Let_def\<close>)
    moreover have "ix_key ix r \<noteq> ?h"
      using slot_known [of U ix r ?h] ok s(2) r False h by (auto simp: index_ok_def)
    then have "set qs = {q. hosted (t(p := e)) q = Some (ix_key ix r)}"
      using qs(3) p e by (auto simp: hosted_upd)
    ultimately show ?thesis using qs(2) False by (intro exI [of _ qs]) (simp add: f)
  qed
qed

lemma insert_ok:
  assumes "index_ok U t ix" "\<not> in_index p (t p)" "in_index p e \<Longrightarrow> host_page_of e p \<in> U"
  shows "\<exists>ix'. index_insert p e ix = Some ix' \<and> index_ok U (t(p := e)) ix'"
proof (cases "in_index p e")
  case True
  let ?h = "host_page_of e p"
  have U: "universe U" "keys_ok U (ix_key ix)" "?h \<in> U" "?h \<noteq> 0"
    using assms(1,3) True by (auto simp: index_ok_def universe_def)
  obtain s where s: "s < SLOTS" "ix_slot ix ?h = Some s" "ix_key ix s = 0 \<or> ix_key ix s = ?h"
    using slot_any [OF U(1,2)] by blast
  obtain ix' where ix': "index_insert p e ix = Some ix'" "ix_key ix' = (ix_key ix)(s := ?h)"
    using True s(2) by (auto simp: index_insert_def Let_def)
  have p: "hosted t p = None" using assms(2) by (simp add: hosted_def)
  have lists: "lists_ok (t(p := e)) ix'" by (rule insert_lists [OF assms(1) p True s U(4) ix'(1)])
  have keys: "keys_ok U (ix_key ix')"
    unfolding ix'(2) using keys_insert [OF U(2,1,3)] s by (simp add: ix_slot_def)
  have "\<exists>r<SLOTS. ix_key ix' r = g" "g \<in> U" if "hosted (t(p := e)) q = Some g" for q g
  proof -
    have "g = ?h \<or> hosted t q = Some g" using that True by (auto simp: hosted_upd split: if_splits)
    then show "\<exists>r<SLOTS. ix_key ix' r = g" "g \<in> U"
      using s U(3) ix'(2) index_slot [OF assms(1), of q g] by (auto, metis fun_upd_apply)
  qed
  then have "index_ok U (t(p := e)) ix'" using U(1) keys lists by (auto simp: index_ok_def)
  then show ?thesis using ix'(1) by blast
next
  case False
  then show ?thesis using assms(1,2) index_ok_hosted hosted_same by (simp add: index_insert_def)
qed

lemma put_ok:
  assumes "index_ok U (pt_table t) (pt_index t)" "in_index p e \<Longrightarrow> host_page_of e p \<in> U"
  shows "\<exists>t'. put_entry env p e t = Some t' \<and> pt_table t' = (pt_table t)(p := e) \<and> index_ok U (pt_table t') (pt_index t')"
proof -
  have z: "\<not> in_index p 0" by (simp add: in_index_def)
  obtain ix1 where ix1: "index_remove p (pt_table t p) (pt_index t) = Some ix1" "index_ok U ((pt_table t)(p := 0)) ix1"
    using remove_ok [OF assms(1) z] by blast
  obtain ix2 where "index_insert p e ix1 = Some ix2" "index_ok U ((pt_table t)(p := e)) ix2"
    using insert_ok [OF ix1(2), of p e] assms(2) z by auto
  then show ?thesis using ix1(1) by (simp add: put_entry_def note_view_def Let_def)
qed

section \<open>Entries and tags\<close>

definition page_aligned :: "'a::len word \<Rightarrow> bool" where
  "page_aligned a \<longleftrightarrow> take_bit PAGE_SHIFT a = 0"

lemma tag_bits: "TAG_CODE = push_bit 63 1" "TAG_SPECIAL = push_bit 62 1"
  by (simp_all add: TAG_CODE_def TAG_SPECIAL_def push_bit_eq_mult)

lemma tst_tags: "tst e TAG_CODE = bit e 63" "tst e TAG_SPECIAL = bit e 62"
  unfolding tag_bits by (rule tst_bit)+

lemma bit_tags: "bit TAG_CODE n = (n = 63)" "bit TAG_SPECIAL n = (n = 62)"
  unfolding tag_bits bit_push1 by simp_all

lemma bit_with_tag:
  "bit (with_tag tag on e) n = (if bit tag n then on else bit e n)"
  by (cases "n < 64") (auto simp: with_tag_def bit_simps dest: bit_imp_le_length)

lemma base_with_tag [simp]:
  "push_bit 2 (with_tag TAG_CODE on e) = push_bit 2 e" "push_bit 2 (with_tag TAG_SPECIAL on e) = push_bit 2 e"
  by (auto intro!: bit_eqI simp: bit_push_bit_iff bit_with_tag bit_tags)

lemma tags_with_tag [simp]:
  "tst (with_tag TAG_CODE on e) TAG_CODE = on" "tst (with_tag TAG_SPECIAL on e) TAG_CODE = tst e TAG_CODE"
  by (simp_all add: tst_tags bit_with_tag bit_tags)

lemma hosted_base:
  "push_bit 2 (t' p) = push_bit 2 (t p) \<Longrightarrow> hosted t' p = hosted t p"
  by (simp add: hosted_def in_index_def host_page_of_def)

lemma aligned_low: "page_aligned a \<Longrightarrow> n < 11 \<Longrightarrow> \<not> bit a n"
  by (metis PAGE_SHIFT_def bit_0_eq bit_take_bit_iff bot_apply bot_bool_def page_aligned_def)

lemma aligned_page: "page_aligned (g :: u32) \<Longrightarrow> push_bit PAGE_SHIFT (ucast (page_of g)) = (ucast g :: u64)"
proof (rule bit_eqI)
  fix n assume g: "page_aligned g"
  show "bit (push_bit PAGE_SHIFT (ucast (page_of g)) :: u64) n \<longleftrightarrow> bit (ucast g :: u64) n"
    using aligned_low [OF g, of n]
    by (cases "11 \<le> n") (auto simp: page_of_def PAGE_SHIFT_def bit_simps not_le dest: bit_imp_le_length)
qed

lemma aligned_drop: "page_aligned (h :: u64) \<Longrightarrow> push_bit 2 (drop_bit 2 h) = h"
proof (rule bit_eqI)
  fix n assume h: "page_aligned h"
  show "bit (push_bit 2 (drop_bit 2 h)) n \<longleftrightarrow> bit h n"
  proof (cases "2 \<le> n")
    case True
    then have "2 + (n - 2) = n" by simp
    then show ?thesis using True by (auto simp only: bit_push_bit_iff bit_drop_bit_eq o_def dest: bit_imp_possible_bit)
  next
    case False
    then show ?thesis using aligned_low [OF h, of n] by (simp add: bit_push_bit_iff)
  qed
qed

lemma aligned_diff: "page_aligned (h :: u64) \<Longrightarrow> page_aligned (g :: u32) \<Longrightarrow> page_aligned (h - ucast g)"
proof -
  assume h: "page_aligned h" and g: "page_aligned g"
  have "take_bit PAGE_SHIFT (ucast g :: u64) = ucast (take_bit PAGE_SHIFT g)"
    by (rule bit_eqI) (auto simp: bit_simps PAGE_SHIFT_def)
  then have "take_bit PAGE_SHIFT (ucast g :: u64) = 0" using g by (simp add: page_aligned_def)
  then show ?thesis using h by (simp add: page_aligned_def take_bit_eq_0_iff dvd_diff)
qed

lemma made_entry:
  assumes "page_aligned g" "page_aligned h" "\<not> tst flags PAGE_MMIO"
  shows "push_bit 2 (make_entry query g h flags) = h - ucast g"
    "host_page_of (make_entry query g h flags) (page_of g) = drop_bit PAGE_SHIFT h"
    "tst (make_entry query g h flags) TAG_CODE = query h"
    "tst (make_entry query g h flags) TAG_SPECIAL = (\<not> tst flags PAGE_WRITABLE)"
proof -
  let ?b = "drop_bit 2 (h - ucast g)"
  have m: "make_entry query g h flags =
      (let e1 = (if tst flags PAGE_WRITABLE then ?b else with_tag TAG_SPECIAL True ?b)
       in if query h then with_tag TAG_CODE True e1 else e1)"
    using assms(3) by (simp add: make_entry_def with_tag_def Let_def)
  have hi: "\<not> bit ?b 63" "\<not> bit ?b 62" by (auto simp: bit_drop_bit_eq dest: bit_imp_le_length)
  show base: "push_bit 2 (make_entry query g h flags) = h - ucast g"
    using aligned_drop [OF aligned_diff [OF assms(2,1)]] unfolding m Let_def by simp
  show "host_page_of (make_entry query g h flags) (page_of g) = drop_bit PAGE_SHIFT h"
    unfolding host_page_of_def base aligned_page [OF assms(1)] by simp
  show "tst (make_entry query g h flags) TAG_CODE = query h"
    "tst (make_entry query g h flags) TAG_SPECIAL = (\<not> tst flags PAGE_WRITABLE)"
    using hi unfolding m Let_def by (simp_all add: tst_tags bit_with_tag bit_tags)
qed

lemma made_mmio: "tst flags PAGE_MMIO \<Longrightarrow> make_entry query g h flags = TAG_SPECIAL"
  by (simp add: make_entry_def)

lemma special_base: "push_bit 2 TAG_SPECIAL = 0"
  by (simp add: TAG_SPECIAL_def push_bit_eq_mult)

lemma aligned_0 [simp]: "page_aligned 0"
  by (simp add: page_aligned_def)

lemma special_empty: "\<not> in_index p TAG_SPECIAL"
  by (simp add: in_index_def TAG_SPECIAL_def push_bit_eq_mult)

section \<open>Every operation keeps the index\<close>

text \<open>\<open>code\<close> is the set of host pages that hold translated code, as \<^verbatim>\<open>code_query\<close> answers it.\<close>

definition pages_ok :: "u64 set \<Rightarrow> (u64 \<Rightarrow> bool) \<Rightarrow> 'v page_tbl \<Rightarrow> bool" where
  "pages_ok U code t \<longleftrightarrow> index_ok U (pt_table t) (pt_index t) \<and>
     (\<forall>p h. hosted (pt_table t) p = Some h \<longrightarrow> tst (pt_table t p) TAG_CODE = code h) \<and>
     (\<forall>p. page_aligned (push_bit 2 (pt_table t p)))"

lemma view_flush_same [simp]: "pt_table (flush_view env t) = pt_table t" "pt_index (flush_view env t) = pt_index t"
  by (simp_all add: flush_view_def)

lemma note_same [simp]: "pt_table (note_view env p t) = pt_table t" "pt_index (note_view env p t) = pt_index t"
  by (simp_all add: note_view_def)

lemma flush_ok [simp]: "pages_ok U code (flush_view env t) = pages_ok U code t"
  by (simp add: pages_ok_def)

lemma each_ok:
  assumes "\<And>x s. x \<in> set xs \<Longrightarrow> P s \<Longrightarrow> \<exists>t. f x s = Some t \<and> P t" "P s"
  shows "\<exists>t. each f xs s = Some t \<and> P t"
  using assms
proof (induction xs arbitrary: s)
  case (Cons x xs)
  obtain t where "f x s = Some t" "P t" using Cons.prems by fastforce
  then show ?case using Cons.IH [of t] Cons.prems(1) by simp
qed simp

lemma put_pages_ok:
  assumes "pages_ok U code t" "in_index p e \<Longrightarrow> host_page_of e p \<in> U \<and> tst e TAG_CODE = code (host_page_of e p)"
    "page_aligned (push_bit 2 e)"
  shows "\<exists>t'. put_entry env p e t = Some t' \<and> pages_ok U code t' \<and> pt_table t' = (pt_table t)(p := e)"
proof -
  obtain t' where t': "put_entry env p e t = Some t'" "pt_table t' = (pt_table t)(p := e)"
    "index_ok U (pt_table t') (pt_index t')"
    using put_ok [of U t p e env] assms by (auto simp: pages_ok_def)
  moreover have "pages_ok U code t'" using t' assms by (auto simp: pages_ok_def hosted_upd split: if_splits)
  ultimately show ?thesis by blast
qed

lemma clear_ok:
  "pages_ok U code t \<Longrightarrow> \<exists>t'. put_entry env p 0 t = Some t' \<and> pages_ok U code t' \<and> pt_table t' = (pt_table t)(p := 0)"
  by (rule put_pages_ok) (simp_all add: in_index_def)

text \<open>What may be mapped at a page: nothing, or a page-aligned host address of the universe.\<close>

definition host_ok :: "u64 set \<Rightarrow> u64 \<Rightarrow> bool" where
  "host_ok U h \<longleftrightarrow> page_aligned h \<and> drop_bit PAGE_SHIFT h \<in> U"

definition query_of :: "(u64 \<Rightarrow> bool) \<Rightarrow> u64 \<Rightarrow> bool" where
  "query_of code h = code (drop_bit PAGE_SHIFT h)"

lemma map_page_ok:
  assumes "pages_ok U code t" "page_aligned g" "tst flags PAGE_MMIO \<or> host_ok U h"
  shows "\<exists>t'. map_page env (query_of code) g h flags t = Some t' \<and> pages_ok U code t' \<and>
    pt_table t' = (pt_table t)(page_of g := make_entry (query_of code) g h flags)"
proof (cases "pt_table t (page_of g) = make_entry (query_of code) g h flags")
  case True
  then show ?thesis using assms(1) by (auto simp: map_page_def)
next
  case False
  let ?e = "make_entry (query_of code) g h flags"
  have "host_page_of ?e (page_of g) \<in> U \<and> tst ?e TAG_CODE = code (host_page_of ?e (page_of g))"
    if "in_index (page_of g) ?e"
  proof (cases "tst flags PAGE_MMIO")
    case True
    then show ?thesis using that special_empty by (simp add: made_mmio)
  next
    case False
    then show ?thesis using assms(2,3) made_entry [of g h flags] by (auto simp: host_ok_def query_of_def)
  qed
  moreover have "page_aligned (push_bit 2 ?e)"
    using assms(2,3) made_entry(1) [of g h flags] aligned_diff [of h g]
    by (cases "tst flags PAGE_MMIO")
      (auto simp: made_mmio special_base host_ok_def)
  ultimately show ?thesis using put_pages_ok [OF assms(1), of "page_of g" ?e env] False
    by (simp add: map_page_def Let_def)
qed

lemma remap_page_ok:
  assumes "pages_ok U code t" "page_aligned g" "h = 0 \<or> host_ok U h" "\<not> tst flags PAGE_MMIO"
  shows "\<exists>t'. remap_page env (query_of code) g h flags t = Some t' \<and> pages_ok U code t'"
  using map_page_ok [OF assms(1,2), of flags h env] clear_ok [OF assms(1), of env "page_of g"] assms
  by (auto simp: remap_page_def Let_def)

lemma unmap_page_ok: "pages_ok U code t \<Longrightarrow> \<exists>t'. unmap_page env p t = Some t' \<and> pages_ok U code t'"
  using clear_ok [of U code t env p] by (auto simp: unmap_page_def)

text \<open>A tag changed in place leaves the index right.\<close>

lemma retag_fields [simp]:
  "pt_table (retag env note p e t) = (pt_table t)(p := e)" "pt_index (retag env note p e t) = pt_index t"
  by (auto simp: retag_def Let_def)

lemma hosted_tagged:
  "hosted (t(p := with_tag TAG_CODE on (t p))) = hosted t" "hosted (t(p := with_tag TAG_SPECIAL on (t p))) = hosted t"
  by (rule ext; rule hosted_base; simp)+

lemma trap_ok: "pages_ok U code t \<Longrightarrow> pages_ok U code (trap_page env on p t)"
  by (auto simp: pages_ok_def trap_page_def Let_def hosted_tagged intro: index_ok_hosted)

lemma traps_ok: "pages_ok U code t \<Longrightarrow> pages_ok U code (fold (\<lambda>x. trap_page env on (f x)) ps t)"
  by (induction ps arbitrary: t) (simp_all add: trap_ok)

section \<open>A code tag by host page\<close>

lemma code_walk_list:
  "chain (ix_next (pt_index t)) (ix_prev (pt_index t)) q p ps \<Longrightarrow> distinct ps \<Longrightarrow> length ps \<le> fuel \<Longrightarrow>
    \<exists>t'. code_walk env on fuel p t = Some t' \<and> pt_index t' = pt_index t \<and>
      pt_table t' = (\<lambda>x. if x \<in> set ps then with_tag TAG_CODE on (pt_table t x) else pt_table t x)"
proof (induction ps arbitrary: fuel q p t)
  case Nil
  then show ?case by (subst code_walk.simps) simp
next
  case (Cons x xs)
  obtain f where f: "fuel = Suc f" "length xs \<le> f" using Cons.prems(3) by (cases fuel) auto
  let ?t = "retag env on x (with_tag TAG_CODE on (pt_table t x)) t"
  have c: "chain (ix_next (pt_index ?t)) (ix_prev (pt_index ?t)) x (ix_next (pt_index t) x) xs" "p = x" "x \<noteq> NO_PAGE"
    using Cons.prems(1) by simp_all
  obtain t' where t': "code_walk env on f (ix_next (pt_index t) x) ?t = Some t'" "pt_index t' = pt_index t"
    "pt_table t' = (\<lambda>y. if y \<in> set xs then with_tag TAG_CODE on (pt_table ?t y) else pt_table ?t y)"
    using Cons.IH [OF c(1) _ f(2)] Cons.prems(2) by auto
  have "code_walk env on fuel p t = Some t'" using t'(1) c(2,3) f(1) by (subst code_walk.simps) simp
  moreover have "pt_table t' = (\<lambda>y. if y \<in> set (x # xs) then with_tag TAG_CODE on (pt_table t y) else pt_table t y)"
    using Cons.prems(2) unfolding t'(3) by (auto simp: fun_eq_iff)
  ultimately show ?case using t'(2) by blast
qed

lemma list_short:
  assumes "distinct ps" "\<And>p. p \<in> set ps \<Longrightarrow> p < TRACKED"
  shows "length ps \<le> unat TRACKED"
proof -
  have "length ps = card (unat ` set ps)"
    using assms(1) by (metis card_image distinct_card inj_on_def word_unat_eq_iff)
  also have "\<dots> \<le> card {..<unat TRACKED}"
    using assms(2) by (intro card_mono) (auto simp: word_less_nat_alt)
  finally show ?thesis by simp
qed

text \<open>The entries after a tag has been set by host page, as a search of the whole table would leave them.\<close>

definition tagged :: "u64 \<Rightarrow> bool \<Rightarrow> (u32 \<Rightarrow> u64) \<Rightarrow> (u32 \<Rightarrow> u64)" where
  "tagged hp on t = (\<lambda>p. if hosted t p = Some hp then with_tag TAG_CODE on (t p) else t p)"

lemma hosted_all_tagged: "hosted (tagged hp on t) = hosted t"
  by (rule ext, rule hosted_base) (simp add: tagged_def)

lemma set_code_host_search:
  assumes "index_ok U (pt_table t) (pt_index t)"
  shows "\<exists>t'. set_code_host env h on t = Some t' \<and> pt_index t' = pt_index t \<and>
    pt_table t' = tagged (drop_bit PAGE_SHIFT h) on (pt_table t)"
proof -
  let ?w = "drop_bit PAGE_SHIFT h" and ?ix = "pt_index t"
  obtain s where s: "s < SLOTS" "ix_slot ?ix ?w = Some s" "ix_key ?ix s = 0 \<or> ix_key ?ix s = ?w"
    using slot_any [of U ?ix ?w] assms by (auto simp: index_ok_def)
  show ?thesis
  proof (cases "ix_key ?ix s = ?w")
    case True
    obtain ps where ps: "chain (ix_next ?ix) (ix_prev ?ix) NO_PAGE (ix_head ?ix s) ps" "distinct ps"
      "set ps = {p. hosted (pt_table t) p = Some (ix_key ?ix s)}" by (rule index_list [OF assms s(1)])
    have "length ps \<le> unat TRACKED" using ps(2,3) hosted_tracked by (intro list_short) auto
    from code_walk_list [OF ps(1,2) this, of env on] show ?thesis
      using s(2) True ps(3) by (auto simp: set_code_host_def Let_def tagged_def fun_eq_iff)
  next
    case False
    have "hosted (pt_table t) p \<noteq> Some ?w" for p
      using index_slot(1) [OF assms, of p ?w] s(2) False by auto
    then show ?thesis using s(2) False by (auto simp: set_code_host_def Let_def tagged_def)
  qed
qed

section \<open>The states a page table can reach\<close>

text \<open>The operations of the bus and of the recompiler.  Tagging goes with the recompiler's own set of
  code pages, which \<^verbatim>\<open>code_query\<close> reads.\<close>

datatype pt_op = MapOp u32 u32 u64 u32 | UnmapOp u32 u32 | RemapOp u32 u32 "u64 list" u32
  | TrapOp u32 u32 bool | TrapBitsOp u32 nat "u64 list" bool | TagOp u64 bool

fun pt_do :: "'v view_env \<Rightarrow> pt_op \<Rightarrow> (u64 \<Rightarrow> bool) \<times> 'v page_tbl \<Rightarrow> ((u64 \<Rightarrow> bool) \<times> 'v page_tbl) option" where
  "pt_do env (MapOp g n h flags) (code, t) = map_option (Pair code) (pt_map env (query_of code) g n h flags t)"
| "pt_do env (UnmapOp g n) (code, t) = map_option (Pair code) (pt_unmap env g n t)"
| "pt_do env (RemapOp g n hs flags) (code, t) = map_option (Pair code) (pt_remap env (query_of code) g n hs flags t)"
| "pt_do env (TrapOp g n on) (code, t) = Some (code, set_write_trap env g n on t)"
| "pt_do env (TrapBitsOp p n bits on) (code, t) = Some (code, set_write_trap_bits env p n bits on t)"
| "pt_do env (TagOp h on) (code, t) = map_option (Pair (code(drop_bit PAGE_SHIFT h := on))) (set_code_host env h on t)"

text \<open>What the code asserts of its arguments, and that the host pages stay within the universe.\<close>

fun op_fits :: "u64 set \<Rightarrow> pt_op \<Rightarrow> bool" where
  "op_fits U (MapOp g n h flags) \<longleftrightarrow> page_aligned g \<and>
     (tst flags PAGE_MMIO \<or> (\<forall>k<page_count n. host_ok U (h + of_nat (PAGE_BYTES * k))))"
| "op_fits U (RemapOp g n hs flags) \<longleftrightarrow> page_aligned g \<and> \<not> tst flags PAGE_MMIO \<and>
     (\<forall>k<page_count n. hs ! k = 0 \<or> host_ok U (hs ! k))"
| "op_fits U _ \<longleftrightarrow> True"

inductive pt_reachable :: "'v view_env \<Rightarrow> u64 set \<Rightarrow> (u64 \<Rightarrow> bool) \<times> 'v page_tbl \<Rightarrow> bool" for env U where
  ptr_new: "pt_reachable env U (\<lambda>_. False, attach_view v new_page_tbl)"
| ptr_do: "pt_reachable env U st \<Longrightarrow> op_fits U op \<Longrightarrow> pt_do env op st = Some st' \<Longrightarrow> pt_reachable env U st'"

lemma new_ok: "universe U \<Longrightarrow> pages_ok U (\<lambda>_. False) (attach_view v new_page_tbl)"
proof -
  have h: "hosted (\<lambda>_. 0) = (\<lambda>_. None)" by (simp add: hosted_def in_index_def fun_eq_iff)
  show "universe U \<Longrightarrow> ?thesis"
    by (simp add: pages_ok_def attach_view_def new_page_tbl_def new_index_def index_ok_def keys_ok_def lists_ok_def h)
qed

lemma page_addr_aligned: "page_aligned g \<Longrightarrow> page_aligned (page_addr g k)"
proof -
  assume "page_aligned g"
  then have "2 ^ 11 dvd g" by (simp add: page_aligned_def take_bit_eq_0_iff PAGE_SHIFT_def)
  moreover have "(2::u32) ^ 11 dvd of_nat (PAGE_BYTES * k)" by (simp add: PAGE_BYTES_def)
  ultimately have "2 ^ 11 dvd page_addr g k" unfolding page_addr_def by (rule dvd_add)
  then show ?thesis by (simp add: page_aligned_def take_bit_eq_0_iff PAGE_SHIFT_def)
qed

lemma pt_do_ok:
  fixes env :: "'v view_env" and t :: "'v page_tbl"
  assumes "pages_ok U code t" "op_fits U op"
  shows "\<exists>code' t'. pt_do env op (code, t) = Some (code', t') \<and> pages_ok U code' t'"
proof (cases op)
  case (MapOp g n h flags)
  have "\<exists>t'. each (\<lambda>k. map_page env (query_of code) (page_addr g k) (h + of_nat (PAGE_BYTES * k)) flags) [0..<page_count n] t
      = Some t' \<and> pages_ok U code t'"
  proof (rule each_ok [where P = "pages_ok U code", OF _ assms(1)])
    fix k and s :: "'v page_tbl"
    assume k: "k \<in> set [0..<page_count n]" and s: "pages_ok U code s"
    show "\<exists>t. map_page env (query_of code) (page_addr g k) (h + of_nat (PAGE_BYTES * k)) flags s = Some t \<and> pages_ok U code t"
      using map_page_ok [OF s, of "page_addr g k" flags "h + of_nat (PAGE_BYTES * k)" env] assms(2) k MapOp
      by (auto simp: page_addr_aligned)
  qed
  then show ?thesis using MapOp by (auto simp: pt_map_def)
next
  case (RemapOp g n hs flags)
  have "\<exists>t'. each (\<lambda>k. remap_page env (query_of code) (page_addr g k) (hs ! k) flags) [0..<page_count n] t
      = Some t' \<and> pages_ok U code t'"
  proof (rule each_ok [where P = "pages_ok U code", OF _ assms(1)])
    fix k and s :: "'v page_tbl"
    assume k: "k \<in> set [0..<page_count n]" and s: "pages_ok U code s"
    show "\<exists>t. remap_page env (query_of code) (page_addr g k) (hs ! k) flags s = Some t \<and> pages_ok U code t"
      using remap_page_ok [OF s, of "page_addr g k" "hs ! k" flags env] assms(2) k RemapOp
      by (auto simp: page_addr_aligned)
  qed
  then show ?thesis using RemapOp by (auto simp: pt_remap_def)
next
  case (UnmapOp g n)
  have "\<exists>t'. each (\<lambda>k. unmap_page env (page_of (page_addr g k))) [0..<page_count n] t = Some t' \<and> pages_ok U code t'"
    by (rule each_ok [where P = "pages_ok U code", OF unmap_page_ok assms(1)])
  then show ?thesis using UnmapOp by (auto simp: pt_unmap_def)
next
  case (TagOp h on)
  obtain t' where t': "set_code_host env h on t = Some t'" "pt_index t' = pt_index t"
    "pt_table t' = tagged (drop_bit PAGE_SHIFT h) on (pt_table t)"
    using set_code_host_search [of U t env h on] assms(1) by (auto simp: pages_ok_def)
  have "pages_ok U (code(drop_bit PAGE_SHIFT h := on)) t'"
    unfolding pages_ok_def t'(2,3) hosted_all_tagged
    using assms(1) index_ok_hosted [OF _ hosted_all_tagged] by (auto simp: pages_ok_def tagged_def)
  then show ?thesis using t'(1) TagOp by simp
next
  case (TrapOp g n on)
  then show ?thesis using traps_ok [OF assms(1)] by (simp add: set_write_trap_def)
next
  case (TrapBitsOp p n bits on)
  then show ?thesis using traps_ok [OF assms(1), of env on "\<lambda>x. x"] by (simp add: set_write_trap_bits_def)
qed

lemma reachable_pages_ok:
  assumes "universe U" "pt_reachable env U st"
  shows "pages_ok U (fst st) (snd st)"
  using assms(2)
proof induction
  case (ptr_new v)
  then show ?case using new_ok [OF assms(1)] by simp
next
  case (ptr_do st op st')
  then show ?case using pt_do_ok [of U "fst st" "snd st" op env] by auto
qed

section \<open>What a mapped page shows\<close>

lemma page_offset:
  assumes "page_aligned (b :: u64)"
  shows "drop_bit PAGE_SHIFT (b + ucast (a :: u32)) = drop_bit PAGE_SHIFT (b + push_bit PAGE_SHIFT (ucast (page_of a)))"
proof -
  let ?p = "push_bit PAGE_SHIFT (ucast (page_of a)) :: u64" and ?l = "a AND mask 11"
  have "ucast a = ?p + ucast ?l"
  proof -
    have "(ucast a :: u64) = push_bit 11 (drop_bit 11 (ucast a)) + take_bit 11 (ucast a)"
      by (rule bits_ident [symmetric])
    moreover have "drop_bit 11 (ucast a :: u64) = ucast (page_of a)" "take_bit 11 (ucast a :: u64) = ucast ?l"
      by (intro bit_eqI; auto simp: bit_simps page_of_def PAGE_SHIFT_def dest: bit_imp_le_length)+
    ultimately show ?thesis by (simp add: PAGE_SHIFT_def)
  qed
  then have s: "b + ucast a = (b + ?p) + ucast ?l" by (simp add: add.assoc)
  have "2 ^ 11 dvd b + ?p"
    using assms by (intro dvd_add) (simp_all add: page_aligned_def take_bit_eq_0_iff PAGE_SHIFT_def push_bit_eq_mult)
  then have "take_bit 11 (b + ?p) = 0" by (simp add: take_bit_eq_0_iff)
  then have al: "page_aligned (b + ?p)" by (simp add: page_aligned_def PAGE_SHIFT_def)
  have "(b + ?p) + ucast ?l = (b + ?p) OR ucast ?l"
    by (rule disjunctive_add_eq_or, rule bit_eqI) (use aligned_low [OF al] in \<open>auto simp: bit_simps\<close>)
  then show ?thesis unfolding s
    by (intro bit_eqI) (auto simp: bit_simps PAGE_SHIFT_def)
qed

lemma entry_host:
  assumes "page_aligned (push_bit 2 e)" "entry_ptr e a = Some h" "page_of a < TRACKED"
  shows "in_index (page_of a) e" "host_page_of e (page_of a) = drop_bit PAGE_SHIFT h"
  using assms page_offset [OF assms(1), of a]
  by (auto simp: entry_ptr_def Let_def in_index_def host_page_of_def split: if_splits)

lemma each_append: "each f (xs @ ys) s = (case each f xs s of None \<Rightarrow> None | Some t \<Rightarrow> each f ys t)"
  by (induction xs arbitrary: s) (auto split: option.split)

lemma unat_offset: "unat g + y < 2 ^ 32 \<Longrightarrow> unat (g + of_nat y :: u32) = unat g + y"
  by (subst unat_add_lem [THEN iffD1]) (simp_all add: unsigned_of_nat take_bit_nat_eq_self)

lemma page_addr_unat: "unat g + PAGE_BYTES * k < 2 ^ 32 \<Longrightarrow> unat (page_addr g k) = unat g + PAGE_BYTES * k"
  unfolding page_addr_def by (rule unat_offset)

lemma page_number:
  "unat (page_of a) = unat a div PAGE_BYTES"
  unfolding page_of_def unat_drop_bit_eq by (simp add: PAGE_SHIFT_def PAGE_BYTES_def drop_bit_eq_div)

lemma map_pages_table:
  assumes "pages_ok U code t" "page_aligned g" "\<And>k. k < m \<Longrightarrow> tst flags PAGE_MMIO \<or> host_ok U (h + of_nat (PAGE_BYTES * k))"
    "unat g + PAGE_BYTES * m \<le> 2 ^ 32"
  shows "\<exists>t'. each (\<lambda>k. map_page env (query_of code) (page_addr g k) (h + of_nat (PAGE_BYTES * k)) flags) [0..<m] t = Some t' \<and>
    pages_ok U code t' \<and>
    (\<forall>k<m. pt_table t' (page_of (page_addr g k)) = make_entry (query_of code) (page_addr g k) (h + of_nat (PAGE_BYTES * k)) flags) \<and>
    (\<forall>p. (\<forall>k<m. p \<noteq> page_of (page_addr g k)) \<longrightarrow> pt_table t' p = pt_table t p)"
  using assms(3,4)
proof (induction m)
  case 0
  then show ?case using assms(1) by simp
next
  case (Suc m)
  let ?f = "\<lambda>k. map_page env (query_of code) (page_addr g k) (h + of_nat (PAGE_BYTES * k)) flags"
  obtain t1 where t1: "each ?f [0..<m] t = Some t1" "pages_ok U code t1"
    "\<forall>k<m. pt_table t1 (page_of (page_addr g k)) = make_entry (query_of code) (page_addr g k) (h + of_nat (PAGE_BYTES * k)) flags"
    "\<forall>p. (\<forall>k<m. p \<noteq> page_of (page_addr g k)) \<longrightarrow> pt_table t1 p = pt_table t p"
    using Suc by (auto simp: PAGE_BYTES_def)
  obtain t2 where t2: "?f m t1 = Some t2" "pages_ok U code t2"
    "pt_table t2 = (pt_table t1)(page_of (page_addr g m) := make_entry (query_of code) (page_addr g m) (h + of_nat (PAGE_BYTES * m)) flags)"
    using map_page_ok [OF t1(2) page_addr_aligned [OF assms(2)], of flags "h + of_nat (PAGE_BYTES * m)" env m] Suc.prems(1)
    by auto
  have n: "unat (page_of (page_addr g k)) = unat g div PAGE_BYTES + k" if "k \<le> m" for k
  proof -
    have "unat g + PAGE_BYTES * k < 2 ^ 32" using Suc.prems(2) that by (simp add: PAGE_BYTES_def)
    then show ?thesis by (simp add: page_number page_addr_unat) (simp add: PAGE_BYTES_def)
  qed
  have "page_of (page_addr g k) \<noteq> page_of (page_addr g m)" if "k < m" for k
    using n [of k] n [of m] that by auto
  then show ?case using t1 t2 by (auto simp: each_append less_Suc_eq)
qed

lemma aligned_multiple:
  assumes "page_aligned (a :: u32)"
  shows "unat a = PAGE_BYTES * (unat a div PAGE_BYTES)"
proof -
  have "take_bit PAGE_SHIFT (unat a) = unat (take_bit PAGE_SHIFT a)" by (simp add: unsigned_take_bit_eq)
  then have "unat a mod PAGE_BYTES = 0"
    using assms by (simp add: page_aligned_def PAGE_SHIFT_def PAGE_BYTES_def take_bit_eq_mod)
  then show ?thesis by auto
qed

lemma ucast_offset:
  assumes "unat g + y < 2 ^ 32"
  shows "(ucast (g + of_nat y :: u32) :: u64) = ucast g + of_nat y"
proof -
  have "(ucast (g + of_nat y) :: u64) = of_nat (unat g + y)"
    unfolding unat_offset [OF assms, symmetric] by (simp add: unsigned_ucast_eq)
  then show ?thesis by simp
qed

lemma map_region:
  assumes "universe U" "pt_reachable env U (code, t)" "op_fits U (MapOp g n h flags)"
    "\<not> tst flags PAGE_MMIO" "page_aligned n" "unat g + unat n \<le> 2 ^ 32" "h \<noteq> ucast g" "x < unat n"
  shows "\<exists>t'. pt_map env (query_of code) g n h flags t = Some t' \<and>
    entry_ptr (pt_table t' (page_of (g + of_nat x))) (g + of_nat x) = Some (h + of_nat x) \<and>
    tst (pt_table t' (page_of (g + of_nat x))) TAG_SPECIAL = (\<not> tst flags PAGE_WRITABLE) \<and>
    tst (pt_table t' (page_of (g + of_nat x))) TAG_CODE = code (drop_bit PAGE_SHIFT (h + of_nat (PAGE_BYTES * (x div PAGE_BYTES)))) \<and>
    (\<forall>a. a < g \<or> unat g + unat n \<le> unat a \<longrightarrow> pt_table t' (page_of a) = pt_table t (page_of a))"
proof -
  have ok: "pages_ok U code t" using reachable_pages_ok [OF assms(1,2)] by simp
  have al: "page_aligned g" and hosts: "\<And>k. k < page_count n \<Longrightarrow> host_ok U (h + of_nat (PAGE_BYTES * k))"
    using assms(3,4) by auto
  define G where "G = unat g div PAGE_BYTES"
  define m where "m = unat n div PAGE_BYTES"
  have G: "unat g = PAGE_BYTES * G" and m: "unat n = PAGE_BYTES * m"
    using aligned_multiple [OF al] aligned_multiple [OF assms(5)] by (simp_all add: G_def m_def)
  have cnt: "page_count n = m" unfolding page_count_def m by (simp add: PAGE_BYTES_def)
  let ?f = "\<lambda>k. map_page env (query_of code) (page_addr g k) (h + of_nat (PAGE_BYTES * k)) flags"
  let ?e = "\<lambda>k. make_entry (query_of code) (page_addr g k) (h + of_nat (PAGE_BYTES * k)) flags"
  obtain t1 where t1: "each ?f [0..<m] t = Some t1"
    "\<forall>k<m. pt_table t1 (page_of (page_addr g k)) = ?e k"
    "\<forall>p. (\<forall>k<m. p \<noteq> page_of (page_addr g k)) \<longrightarrow> pt_table t1 p = pt_table t p"
    using map_pages_table [OF ok al, of m flags h env] hosts cnt assms(6) m by auto
  have pg: "unat (page_of (page_addr g j)) = G + j" if "j < m" for j
  proof -
    have "unat g + PAGE_BYTES * j < 2 ^ 32" using that assms(6) unfolding m by (simp add: PAGE_BYTES_def)
    then show ?thesis by (simp add: page_number page_addr_unat G_def) (simp add: PAGE_BYTES_def)
  qed
  define k where "k = x div PAGE_BYTES"
  have k: "k < m" using assms(8) unfolding m k_def by (simp add: less_mult_imp_div_less mult.commute)
  have xg: "unat g + x < 2 ^ 32" "unat g + PAGE_BYTES * k < 2 ^ 32"
    using assms(6,8) by (auto simp: k_def PAGE_BYTES_def intro: le_less_trans [OF add_left_mono])
  have "unat (page_of (g + of_nat x)) = G + k"
    unfolding page_number unat_offset [OF xg(1)] G k_def by (simp add: PAGE_BYTES_def)
  then have "page_of (g + of_nat x) = page_of (page_addr g k)" using pg [OF k] by (simp add: word_unat_eq_iff)
  then have pe: "pt_table t1 (page_of (g + of_nat x)) = ?e k" using t1(2) k by simp
  have hk: "page_aligned (h + of_nat (PAGE_BYTES * k))" using hosts [of k] k cnt by (simp add: host_ok_def)
  note made = made_entry [OF page_addr_aligned [OF al, of k] hk assms(4), of "query_of code"]
  have "(ucast (page_addr g k) :: u64) = ucast g + of_nat (PAGE_BYTES * k)"
    unfolding page_addr_def by (rule ucast_offset [OF xg(2)])
  with made(1) have "push_bit 2 (?e k) = h - ucast g" by simp
  then have "entry_ptr (?e k) (g + of_nat x) = Some (h + of_nat x)"
    using assms(7) unfolding entry_ptr_def Let_def ucast_offset [OF xg(1)] by simp
  moreover have "pt_table t1 (page_of a) = pt_table t (page_of a)" if a: "a < g \<or> unat g + unat n \<le> unat a" for a
  proof -
    have "unat (page_of a) \<noteq> G + j" if "j < m" for j
      using a that unfolding page_number G m word_less_nat_alt
      by (auto simp: PAGE_BYTES_def)
    then show ?thesis using t1(3) pg by metis
  qed
  ultimately show ?thesis using t1(1) pe made(3,4) by (auto simp: pt_map_def cnt query_of_def k_def)
qed

section \<open>The properties\<close>

text \<open>C7: A code tag reaches every alias below 256 MB, the addresses the reverse index tracks.  Whatever the bus has
  mapped, unmapped, remapped or trapped and whatever the recompiler has tagged, as long as the host pages ever mapped are
  fewer than the slots of the index (\<open>universe\<close>), an address below 256 MB that reaches host memory is tagged
  as code exactly when the host page it reaches holds translated code: through whichever mirror a store comes, it is
  reported to the recompiler, and no other store is.\<close>

theorem code_tag_reaches_every_alias:
  assumes "universe U" "pt_reachable env U (code, t)" "page_of a < TRACKED"
    "entry_ptr (pt_table t (page_of a)) a = Some h"
  shows "tst (pt_table t (page_of a)) TAG_CODE = code (drop_bit PAGE_SHIFT h)"
proof -
  have ok: "pages_ok U code t" using reachable_pages_ok [OF assms(1,2)] by simp
  then have "page_aligned (push_bit 2 (pt_table t (page_of a)))" by (simp add: pages_ok_def)
  note e = entry_host [OF this assms(4,3)]
  have "hosted (pt_table t) (page_of a) = Some (drop_bit PAGE_SHIFT h)" using e by (simp add: hosted_def)
  then show ?thesis using ok by (simp add: pages_ok_def)
qed

text \<open>C10: The index finds what a search would.  Setting or clearing a code tag by host page walks one
  list of the reverse index; in every state reached with fewer host pages than the index has slots it returns, and
  leaves the table that searching all guest pages below 256 MB for that host page and tagging each would leave.\<close>

theorem set_code_host_exact:
  assumes "universe U" "pt_reachable env U (code, t)"
  shows "\<exists>t'. set_code_host env h on t = Some t' \<and>
    pt_table t' = (\<lambda>p. if in_index p (pt_table t p) \<and> host_page_of (pt_table t p) p = drop_bit PAGE_SHIFT h
                       then with_tag TAG_CODE on (pt_table t p) else pt_table t p)"
  using set_code_host_search [of U t env h on] reachable_pages_ok [OF assms]
  by (auto simp: pages_ok_def tagged_def hosted_def fun_eq_iff)

text \<open>No operation of the page table gets stuck.  As long as the host pages ever mapped are fewer
  than the slots of the index, every operation returns: probing for a slot never goes round a
  full table, and walking a list never goes round a cycle.\<close>

theorem page_table_returns:
  assumes "universe U" "pt_reachable env U st" "op_fits U op"
  shows "\<exists>st'. pt_do env op st = Some st'"
  using pt_do_ok [of U "fst st" "snd st" op env] reachable_pages_ok [OF assms(1,2)] assms(3) by auto

text \<open>A mapping shows what was mapped.  After host memory has been mapped at a region, byte \<open>x\<close> of
  the region is byte \<open>x\<close> of the host memory, stores reach it directly just when the region was
  mapped writable, the page is tagged by the recompiler's set, and every page outside the
  region is as it was -- also where the mapping found entries already right and skipped them.\<close>

theorem map_shows:
  assumes "universe U" "pt_reachable env U (code, t)" "op_fits U (MapOp g n h flags)"
    "\<not> tst flags PAGE_MMIO" "page_aligned n" "unat g + unat n \<le> 2 ^ 32" "h \<noteq> ucast g" "x < unat n"
  shows "\<exists>t'. pt_map env (query_of code) g n h flags t = Some t' \<and>
    entry_ptr (pt_table t' (page_of (g + of_nat x))) (g + of_nat x) = Some (h + of_nat x) \<and>
    tst (pt_table t' (page_of (g + of_nat x))) TAG_SPECIAL = (\<not> tst flags PAGE_WRITABLE) \<and>
    tst (pt_table t' (page_of (g + of_nat x))) TAG_CODE = code (drop_bit PAGE_SHIFT (h + of_nat (PAGE_BYTES * (x div PAGE_BYTES)))) \<and>
    (\<forall>a. a < g \<or> unat g + unat n \<le> unat a \<longrightarrow> pt_table t' (page_of a) = pt_table t (page_of a))"
  by (rule map_region [OF assms])

section \<open>Witnesses\<close>

text \<open>Two pages of host memory, mapped at \<open>0x02000000\<close>.\<close>

definition plain_view :: "unit view_env" where
  "plain_view = \<lparr> ve_note = (\<lambda>_ v. v), ve_pending = (\<lambda>_. False), ve_flush = (\<lambda>_ v. v) \<rparr>"

definition two_pages :: "u64 set" where
  "two_pages = {0x200, 0x201}"

lemma two_pages_ok: "universe two_pages"
  by (simp add: universe_def two_pages_def SLOTS_def)

definition ram_op :: pt_op where
  "ram_op = MapOp 0x02000000 0x1000 0x100000 3"

lemma ram_fits: "op_fits two_pages ram_op"
proof -
  have "page_count 0x1000 = 2" by (simp add: page_count_def PAGE_BYTES_def)
  then show ?thesis
    by (auto dest!: less_2_cases simp: ram_op_def host_ok_def two_pages_def page_aligned_def PAGE_SHIFT_def PAGE_BYTES_def
      take_bit_eq_mod drop_bit_eq_div)
qed

definition fresh_table :: "(u64 \<Rightarrow> bool) \<times> unit page_tbl" where
  "fresh_table = (\<lambda>_. False, attach_view None new_page_tbl)"

lemma fresh_reachable: "pt_reachable plain_view two_pages fresh_table"
  unfolding fresh_table_def by (rule ptr_new)

theorem page_table_returns_witness:
  "\<exists>st'. pt_do plain_view ram_op fresh_table = Some st'"
  by (rule page_table_returns [OF two_pages_ok fresh_reachable ram_fits])

theorem set_code_host_exact_witness:
  "\<exists>t'. set_code_host plain_view 0x100000 True (snd fresh_table) = Some t' \<and>
    pt_table t' = (\<lambda>p. if in_index p (pt_table (snd fresh_table) p) \<and>
        host_page_of (pt_table (snd fresh_table) p) p = drop_bit PAGE_SHIFT 0x100000
      then with_tag TAG_CODE True (pt_table (snd fresh_table) p) else pt_table (snd fresh_table) p)"
  using set_code_host_exact [OF two_pages_ok, of plain_view "fst fresh_table" "snd fresh_table"] fresh_reachable by simp

theorem map_shows_witness:
  "\<exists>t'. pt_map plain_view (query_of (\<lambda>_. False)) 0x02000000 0x1000 0x100000 3 (attach_view None new_page_tbl) = Some t' \<and>
    entry_ptr (pt_table t' (page_of (0x02000000 + of_nat 0x804))) (0x02000000 + of_nat 0x804) = Some (0x100000 + of_nat 0x804) \<and>
    tst (pt_table t' (page_of (0x02000000 + of_nat 0x804))) TAG_SPECIAL = (\<not> tst (3::u32) PAGE_WRITABLE)"
proof -
  have "pt_reachable plain_view two_pages (\<lambda>_. False, attach_view None new_page_tbl)" by (rule ptr_new)
  from map_shows [OF two_pages_ok this ram_fits [unfolded ram_op_def], of "0x804"] show ?thesis
    by (auto simp: PAGE_MMIO_def tst_def page_aligned_def PAGE_SHIFT_def take_bit_eq_mod)
qed

text \<open>The mapped table, with the second page tagged.\<close>

lemma tagged_ram:
  "\<exists>st. pt_reachable plain_view two_pages st \<and> entry_ptr (pt_table (snd st) (page_of 0x02000804)) 0x02000804 = Some 0x100804 \<and>
    fst st 0x201"
proof -
  have new: "pt_reachable plain_view two_pages (\<lambda>_. False, attach_view None new_page_tbl)" by (rule ptr_new)
  obtain t where t: "pt_map plain_view (query_of (\<lambda>_. False)) 0x02000000 0x1000 0x100000 3 (attach_view None new_page_tbl) = Some t"
    "entry_ptr (pt_table t (page_of (0x02000000 + of_nat 0x804))) (0x02000000 + of_nat 0x804) = Some (0x100000 + of_nat 0x804)"
    using map_region [OF two_pages_ok new ram_fits [unfolded ram_op_def], of "0x804"]
    by (auto simp: PAGE_MMIO_def tst_def page_aligned_def PAGE_SHIFT_def take_bit_eq_mod)
  have r: "pt_reachable plain_view two_pages (\<lambda>_. False, t)"
    by (rule ptr_do [OF new ram_fits]) (simp add: ram_op_def t(1))
  have i: "index_ok two_pages (pt_table t) (pt_index t)" using reachable_pages_ok [OF two_pages_ok r] by (simp add: pages_ok_def)
  obtain t' where t': "set_code_host plain_view 0x100800 True t = Some t'" "pt_table t' = tagged 0x201 True (pt_table t)"
    using set_code_host_search [OF i, of plain_view "0x100800" True] by (auto simp: PAGE_SHIFT_def drop_bit_eq_div)
  have "pt_reachable plain_view two_pages ((\<lambda>_. False)(0x201 := True), t')"
    by (rule ptr_do [OF r, of "TagOp 0x100800 True"]) (simp_all add: t'(1) PAGE_SHIFT_def drop_bit_eq_div)
  moreover have "push_bit 2 (pt_table t' p) = push_bit 2 (pt_table t p)" for p by (simp add: t'(2) tagged_def)
  ultimately show ?thesis using t(2)
    by (intro exI [of _ "((\<lambda>_. False)(0x201 := True), t')"]) (simp add: entry_ptr_def)
qed

theorem code_tag_reaches_every_alias_witness:
  "\<exists>code t. pt_reachable plain_view two_pages (code, t) \<and>
    tst (pt_table t (page_of 0x02000804)) TAG_CODE = code (drop_bit PAGE_SHIFT 0x100804) \<and> code 0x201"
proof -
  obtain code t where st: "pt_reachable plain_view two_pages (code, t)"
    "entry_ptr (pt_table t (page_of 0x02000804)) 0x02000804 = Some 0x100804" "code 0x201"
    using tagged_ram by auto
  moreover have "page_of 0x02000804 < TRACKED" by (simp add: page_of_def PAGE_SHIFT_def TRACKED_def drop_bit_eq_div)
  ultimately show ?thesis
    using code_tag_reaches_every_alias [OF two_pages_ok st(1) _ st(2)] by blast
qed

end
