(* ===== verification/Scheduler.thy ===== *)
theory Scheduler imports Machine begin

text \<open>
  The event scheduler and the CPU interleave (\<^verbatim>\<open>src/core/sched/scheduler.h\<close> and
  \<^verbatim>\<open>.cpp\<close>).  A \<open>sched\<close> is the C++ \<^verbatim>\<open>Scheduler\<close> together with the two CPU contexts it
  drives; the rest of the console is the type parameter \<open>'w\<close>, and \<open>'fn\<close> is the type of
  event handlers.  The members the profiler alone uses are left out.

  Events are numbered in the order of \<^verbatim>\<open>EventId\<close>; \<open>s_armed\<close> is the bit set \<^verbatim>\<open>armed_\<close>.  A
  loop over a bit set that takes the lowest set bit each time is a \<open>fold\<close> over the bit
  positions in ascending order.  Loops that call handlers or run a CPU have no bound of
  their own and take fuel; \<open>None\<close> is a loop that has not come back yet.
\<close>

section \<open>State\<close>

definition EVENT_COUNT :: nat where "EVENT_COUNT = 29"
definition SLICE_QUANTUM :: int where "SLICE_QUANTUM = 2048"
definition CUT_PROBE9 :: int where "CUT_PROBE9 = 256"
definition CUT_PROBE7 :: int where "CUT_PROBE7 = 128"

definition u64_max :: u64 where "u64_max = 0xFFFFFFFFFFFFFFFF"

record ('fn, 'w) sched =
  s_now :: u64
  s_next :: u64
  s_next_id :: nat
  s_firing_at :: u64
  s_at :: "nat \<Rightarrow> u64"
  s_fn :: "nat \<Rightarrow> 'fn option"
  s_param :: "nat \<Rightarrow> u32"
  s_armed :: u32
  s_in_dma :: bool
  s_dma_used :: u32
  s_a9_dma_iter :: bool
  s_idle_skip :: nat
  s_idle_cut :: bool
  s_cut_pc :: "nat \<Rightarrow> nat \<Rightarrow> u32"
  s_cut_h :: "nat \<Rightarrow> nat \<Rightarrow> u64"
  s_cut_pos :: "nat \<Rightarrow> u32"
  s_cut_idle :: "nat \<Rightarrow> bool"
  s_cut_held :: "nat \<Rightarrow> int"
  s_running :: "cpu_id option"
  s_start_budget :: int
  s_shift :: nat
  s_rshift :: nat
  s_base :: u64
  s_carry :: u64
  s_arm7_debt :: int
  s_dsi :: bool
  s_shift9 :: nat
  s_arm9_carry :: int
  s_slice_margin :: int
  s_cut_on_schedule :: bool
  s_slice_end :: u64
  s_budget9 :: int
  s_spi_ring :: "nat \<Rightarrow> u32"
  s_spi_pos :: u32
  s_idle_ring :: "nat \<Rightarrow> nat \<Rightarrow> u32"
  s_idle_pos :: "nat \<Rightarrow> u32"
  s_a9 :: cpu_ctx
  s_a7 :: cpu_ctx
  s_rest :: 'w

text \<open>What the scheduler calls: event handlers, the DMA engine, the CPU run function, the
  loop analysis, and the few device states it looks at.\<close>

datatype idle_ports = PortsAll | GxstatOnly | RamOnly | SpicntOnly

record ('fn, 'w) sched_env =
  e_call :: "'fn \<Rightarrow> u32 \<Rightarrow> ('fn, 'w) sched \<Rightarrow> ('fn, 'w) sched"
  e_ipc_pending :: "('fn, 'w) sched \<Rightarrow> bool"
  e_ipc_deliver :: "('fn, 'w) sched \<Rightarrow> ('fn, 'w) sched"
  e_dma_any :: "cpu_id \<Rightarrow> ('fn, 'w) sched \<Rightarrow> bool"
  e_dma_run :: "cpu_id \<Rightarrow> u32 \<Rightarrow> ('fn, 'w) sched \<Rightarrow> u32 \<times> ('fn, 'w) sched"
  e_run :: "cpu_id \<Rightarrow> ('fn, 'w) sched \<Rightarrow> ('fn, 'w) sched"
  e_in_idle_loop :: "cpu_id \<Rightarrow> idle_ports \<Rightarrow> ('fn, 'w) sched \<Rightarrow> bool"
  e_swap_pending :: "('fn, 'w) sched \<Rightarrow> bool"
  e_gx_idle :: "('fn, 'w) sched \<Rightarrow> bool"
  e_spi_busy :: "('fn, 'w) sched \<Rightarrow> bool"
  e_spi_ready_at :: "('fn, 'w) sched \<Rightarrow> u64"
  e_soft_reset_pending :: "('fn, 'w) sched \<Rightarrow> bool"
  e_soft_reset :: "('fn, 'w) sched \<Rightarrow> ('fn, 'w) sched"
  e_frame_ready :: "('fn, 'w) sched \<Rightarrow> bool"

fun cpu_of :: "cpu_id \<Rightarrow> ('fn, 'w) sched \<Rightarrow> cpu_ctx" where
  "cpu_of ARM9 s = s_a9 s"
| "cpu_of ARM7 s = s_a7 s"

fun upd_cpu_of :: "cpu_id \<Rightarrow> (cpu_ctx \<Rightarrow> cpu_ctx) \<Rightarrow> ('fn, 'w) sched \<Rightarrow> ('fn, 'w) sched" where
  "upd_cpu_of ARM9 f s = s\<lparr> s_a9 := f (s_a9 s) \<rparr>"
| "upd_cpu_of ARM7 f s = s\<lparr> s_a7 := f (s_a7 s) \<rparr>"

fun cpu_index :: "cpu_id \<Rightarrow> nat" where
  "cpu_index ARM9 = 0"
| "cpu_index ARM7 = 1"

definition add_budget :: "int \<Rightarrow> cpu_ctx \<Rightarrow> cpu_ctx" where
  "add_budget d c = set_budget (budget c + d) c"

definition sched_reset :: "('fn, 'w) sched \<Rightarrow> ('fn, 'w) sched" where
  "sched_reset s = s\<lparr> s_now := 0, s_arm7_debt := 0, s_arm9_carry := 0, s_armed := 0,
     s_at := (\<lambda>_. 0), s_fn := (\<lambda>_. None), s_param := (\<lambda>_. 0),
     s_next := u64_max, s_next_id := EVENT_COUNT \<rparr>"

definition set_dsi :: "bool \<Rightarrow> ('fn, 'w) sched \<Rightarrow> ('fn, 'w) sched" where
  "set_dsi d s = s\<lparr> s_dsi := d, s_arm9_carry := 0, s_slice_margin := (if d then 16 else 0),
     s_cut_on_schedule := d \<rparr>"

section \<open>The clock\<close>

definition running_is :: "cpu_id \<Rightarrow> ('fn, 'w) sched \<Rightarrow> bool" where
  "running_is w s \<longleftrightarrow> s_running s = Some w"

text \<open>Cycles the running CPU has used so far, as \<^verbatim>\<open>now()\<close> counts them.\<close>

definition consumed :: "cpu_id \<Rightarrow> ('fn, 'w) sched \<Rightarrow> u64" where
  "consumed w s =
     word_of_int (s_start_budget s - budget (cpu_of w s) - preempt_residual (cpu_of w s))
       + ucast (s_dma_used s)"

definition now :: "('fn, 'w) sched \<Rightarrow> u64" where
  "now s =
     (case s_running s of
        None \<Rightarrow> s_now s
      | Some w \<Rightarrow>
          (if s_rshift s \<noteq> 0
           then s_base s + push_bit 1 (drop_bit (s_rshift s) (consumed w s + s_carry s))
           else s_base s + push_bit (s_shift s) (consumed w s)))"

definition floor_arm9_clock :: "('fn, 'w) sched \<Rightarrow> ('fn, 'w) sched" where
  "floor_arm9_clock s =
     (if \<not> s_dsi s then s
      else if \<not> running_is ARM9 s then s\<lparr> s_arm9_carry := 0 \<rparr>
      else
        (let c = (s_start_budget s - budget (s_a9 s) - preempt_residual (s_a9 s)) + s_arm9_carry s
         in upd_cpu_of ARM9 (add_budget (c AND (2 ^ (s_shift9 s + 1) - 1))) s))"

definition set_clock9_shift :: "nat \<Rightarrow> ('fn, 'w) sched \<Rightarrow> ('fn, 'w) sched" where
  "set_clock9_shift timing_shift s =
     (let ns = timing_shift - 1;
          s1 = (if s_dsi s \<and> running_is ARM9 s \<and> ns \<noteq> s_shift9 s
                then
                  (let used = s_start_budget s - budget (s_a9 s) - preempt_residual (s_a9 s);
                       sys = drop_bit (s_shift9 s + 1) (used + s_arm9_carry s);
                       span = drop_bit (s_shift9 s) (s_budget9 s + s_arm9_carry s);
                       b9 = push_bit ns span
                   in upd_cpu_of ARM9 (\<lambda>c. set_budget (b9 - push_bit (ns + 1) sys - preempt_residual c) c)
                        (s\<lparr> s_budget9 := b9, s_start_budget := b9, s_rshift := ns + 1, s_carry := 0 \<rparr>))
                else s)
      in s1\<lparr> s_shift9 := ns, s_arm9_carry := 0 \<rparr>)"

definition event_base7 :: "('fn, 'w) sched \<Rightarrow> u64" where
  "event_base7 s = word_of_int (uint (s_now s) - s_arm7_debt s)"

definition preempt :: "cpu_id \<Rightarrow> ('fn, 'w) sched \<Rightarrow> ('fn, 'w) sched" where
  "preempt w s =
     (if \<not> running_is w s \<or> budget (cpu_of w s) \<le> 0 then s
      else upd_cpu_of w (\<lambda>c. set_budget 0 (c\<lparr> preempt_residual := preempt_residual c + budget c \<rparr>)) s)"

definition yield :: "cpu_id \<Rightarrow> ('fn, 'w) sched \<Rightarrow> ('fn, 'w) sched" where
  "yield w s =
     (if \<not> running_is w s \<or> budget (cpu_of w s) \<le> 0 then s
      else upd_cpu_of w (\<lambda>c. set_budget 0
             (c\<lparr> yielded := True, preempt_residual := preempt_residual c + budget c \<rparr>)) s)"

definition dma_progress :: "u32 \<Rightarrow> ('fn, 'w) sched \<Rightarrow> ('fn, 'w) sched" where
  "dma_progress used s = (if s_dsi s then s\<lparr> s_dma_used := used \<rparr> else s)"

definition budget9_for :: "int \<Rightarrow> ('fn, 'w) sched \<Rightarrow> int" where
  "budget9_for len s = push_bit (s_shift9 s) len - s_arm9_carry s"

definition ticks9 :: "int \<Rightarrow> ('fn, 'w) sched \<Rightarrow> int \<times> ('fn, 'w) sched" where
  "ticks9 consumed9 s =
     (if \<not> s_dsi s then (consumed9, s)
      else
        (let carry = s_arm9_carry s + consumed9; sys = drop_bit (s_shift9 s + 1) carry
         in (push_bit 1 sys, s\<lparr> s_arm9_carry := carry - push_bit (s_shift9 s + 1) sys \<rparr>)))"

definition take_stall :: "cpu_ctx \<Rightarrow> cpu_ctx" where
  "take_stall c =
     (if boot_stall c \<le> 0 then c
      else
        (let take = (if boot_stall c < budget c then boot_stall c else budget c)
         in add_budget (- take) (c\<lparr> boot_stall := boot_stall c - take \<rparr>)))"

section \<open>The event queue\<close>

definition armed :: "nat \<Rightarrow> ('fn, 'w) sched \<Rightarrow> bool" where
  "armed i s \<longleftrightarrow> bit (s_armed s) i"

definition rescan_event :: "('fn, 'w) sched \<Rightarrow> nat \<Rightarrow> u64 \<times> nat \<Rightarrow> u64 \<times> nat" where
  "rescan_event s i b = (if armed i s \<and> s_at s i < fst b then (s_at s i, i) else b)"

definition rescan_queue :: "('fn, 'w) sched \<Rightarrow> ('fn, 'w) sched" where
  "rescan_queue s =
     (let (best, best_id) = fold (rescan_event s) [0..<32] (u64_max, EVENT_COUNT)
      in s\<lparr> s_next := best, s_next_id := best_id \<rparr>)"

definition cut_arm9_at :: "u64 \<Rightarrow> ('fn, 'w) sched \<Rightarrow> ('fn, 'w) sched" where
  "cut_arm9_at at s =
     (if \<not> running_is ARM9 s \<or> s_slice_end s \<le> at \<or> at \<le> s_now s then s
      else
        (let nb = budget9_for (sint (at - s_now s)) s in
         if s_budget9 s \<le> nb then s
         else
           (let held = s_cut_held s 0;
                s1 = (if held \<noteq> 0
                      then (upd_cpu_of ARM9 (add_budget held) s)
                             \<lparr> s_start_budget := s_start_budget s + held,
                               s_cut_held := (s_cut_held s)(0 := 0),
                               s_cut_idle := (s_cut_idle s)(0 := False) \<rparr>
                      else s);
                used = s_budget9 s1 - budget (s_a9 s1)
            in upd_cpu_of ARM9 (set_budget (nb - used))
                 (s1\<lparr> s_budget9 := nb, s_start_budget := nb, s_slice_end := at \<rparr>))))"

definition schedule :: "nat \<Rightarrow> u64 \<Rightarrow> 'fn \<Rightarrow> u32 \<Rightarrow> ('fn, 'w) sched \<Rightarrow> ('fn, 'w) sched" where
  "schedule i at fn param s =
     (let was_next = (armed i s \<and> s_next_id s = i);
          s1 = s\<lparr> s_at := (s_at s)(i := at), s_fn := (s_fn s)(i := Some fn),
                  s_param := (s_param s)(i := param), s_armed := s_armed s OR push_bit i 1 \<rparr>;
          s2 = (if at < s_next s1 then s1\<lparr> s_next := at, s_next_id := i \<rparr>
                else if was_next \<and> s_next s1 < at then rescan_queue s1 else s1)
      in if s_cut_on_schedule s2 then cut_arm9_at at s2 else s2)"

definition cancel :: "nat \<Rightarrow> ('fn, 'w) sched \<Rightarrow> ('fn, 'w) sched" where
  "cancel i s =
     (if \<not> armed i s then s
      else
        (let s1 = s\<lparr> s_armed := s_armed s AND NOT (push_bit i 1) \<rparr>
         in if s_next_id s1 = i then rescan_queue s1 else s1))"

text \<open>Calling the handler of an armed event.  Calling a null handler would crash; the queue
  invariant shows that an armed event has one.\<close>

definition call_handler :: "('fn, 'w) sched_env \<Rightarrow> nat \<Rightarrow> ('fn, 'w) sched \<Rightarrow> ('fn, 'w) sched" where
  "call_handler env i s =
     (case s_fn s i of None \<Rightarrow> s | Some fn \<Rightarrow> e_call env fn (s_param s i) s)"

fun settle_loop :: "('fn, 'w) sched_env \<Rightarrow> nat \<Rightarrow> u64 \<Rightarrow> nat \<Rightarrow> ('fn, 'w) sched \<Rightarrow> ('fn, 'w) sched option" where
  "settle_loop env i until fuel s =
     (if armed i s \<and> s_at s i \<le> until then
        (case fuel of
           0 \<Rightarrow> None
         | Suc f \<Rightarrow>
             (let s1 = s\<lparr> s_armed := s_armed s AND NOT (push_bit i 1) \<rparr>;
                  s2 = (if s_next_id s1 = i then rescan_queue s1 else s1)
              in settle_loop env i until f (call_handler env i (s2\<lparr> s_firing_at := s_at s2 i \<rparr>))))
      else Some s)"

declare settle_loop.simps [simp del]

definition settle :: "('fn, 'w) sched_env \<Rightarrow> nat \<Rightarrow> nat \<Rightarrow> ('fn, 'w) sched \<Rightarrow> ('fn, 'w) sched option" where
  "settle env fuel i s =
     map_option (\<lambda>s'. s'\<lparr> s_firing_at := s_firing_at s \<rparr>) (settle_loop env i (now s) fuel s)"

definition rebind :: "nat \<Rightarrow> 'fn \<Rightarrow> ('fn, 'w) sched \<Rightarrow> ('fn, 'w) sched" where
  "rebind i fn s = (if armed i s then s\<lparr> s_fn := (s_fn s)(i := Some fn) \<rparr> else s)"

definition after_load :: "('fn, 'w) sched \<Rightarrow> bool \<times> ('fn, 'w) sched" where
  "after_load s =
     (let s1 = rescan_queue s
      in (list_all (\<lambda>i. \<not> armed i s1 \<or> s_fn s1 i \<noteq> None) [0..<EVENT_COUNT], s1))"

section \<open>Firing due events\<close>

text \<open>One pass visits the armed events in ascending order; \<open>m\<close> is the set still to visit,
  read again after every handler.\<close>

definition fire_one :: "('fn, 'w) sched_env \<Rightarrow> nat \<Rightarrow> ('fn, 'w) sched \<Rightarrow> ('fn, 'w) sched" where
  "fire_one env i s =
     call_handler env i
       (s\<lparr> s_armed := s_armed s AND NOT (push_bit i 1), s_firing_at := s_at s i \<rparr>)"

definition pass_step :: "('fn, 'w) sched_env \<Rightarrow> nat \<Rightarrow> ('fn, 'w) sched \<times> u32 \<Rightarrow> ('fn, 'w) sched \<times> u32" where
  "pass_step env i sm =
     (let (s, m) = sm in
      if \<not> bit m i then (s, m)
      else if s_at s i \<le> s_now s then
        (let s' = fire_one env i s
         in (s', s_armed s' AND NOT (push_bit 1 (push_bit i 1) - 1)))
      else
        (if s_at s i < s_next s then s\<lparr> s_next := s_at s i, s_next_id := i \<rparr> else s,
         m AND NOT (push_bit i 1)))"

definition fire_pass :: "('fn, 'w) sched_env \<Rightarrow> ('fn, 'w) sched \<Rightarrow> ('fn, 'w) sched" where
  "fire_pass env s =
     (let s1 = s\<lparr> s_next := u64_max, s_next_id := EVENT_COUNT \<rparr>
      in fst (fold (pass_step env) [0..<32] (s1, s_armed s1)))"

fun fire_loop :: "('fn, 'w) sched_env \<Rightarrow> nat \<Rightarrow> ('fn, 'w) sched \<Rightarrow> ('fn, 'w) sched option" where
  "fire_loop env fuel s =
     (if s_now s < s_next s then Some s
      else (case fuel of 0 \<Rightarrow> None | Suc f \<Rightarrow> fire_loop env f (fire_pass env s)))"

declare fire_loop.simps [simp del]

definition fire_due :: "('fn, 'w) sched_env \<Rightarrow> nat \<Rightarrow> ('fn, 'w) sched \<Rightarrow> ('fn, 'w) sched option" where
  "fire_due env fuel s =
     fire_loop env fuel (if e_ipc_pending env s then e_ipc_deliver env s else s)"

end
