(* ===== verification/Slices.thy ===== *)
theory Slices imports Scheduler begin

text \<open>
  The slice loop of the scheduler (\<^verbatim>\<open>src/core/sched/scheduler.cpp\<close>): the idle cut, the
  idle-machine test, running one CPU with its DMA, and \<^verbatim>\<open>run_until\<close>.  The budget the two
  CPUs are handed, what each consumed and the debt the ARM7 carries are computed as the
  code computes them; running a CPU and the DMA engine are the environment's.
\<close>

section \<open>The idle cut\<close>

definition unmasked_irq :: "cpu_ctx \<Rightarrow> bool" where
  "unmasked_irq c \<longleftrightarrow> irq_pending (hot c) \<noteq> 0 \<and> \<not> tst (cpsr (hot c)) 0x80"

definition cut_ok :: "cpu_ctx \<Rightarrow> ('fn, 'w) sched \<Rightarrow> bool" where
  "cut_ok c s \<longleftrightarrow> s_idle_cut s \<and> \<not> s_dsi s \<and> \<not> halted c \<and> \<not> unmasked_irq c"

definition reg_hash :: "cpu_ctx \<Rightarrow> u64" where
  "reg_hash c =
     (let h = fold (\<lambda>r h. (h XOR ucast (regs (hot c) (of_nat r))) * 1099511628211) [0..<15] 1469598103934665603
      in (h XOR ucast (cpsr (hot c))) * 1099511628211)"

definition cut_seen :: "nat \<Rightarrow> cpu_ctx \<Rightarrow> ('fn, 'w) sched \<Rightarrow> bool" where
  "cut_seen i c s \<longleftrightarrow>
     (let pc = regs (hot c) 15; h = reg_hash c in
      list_ex (\<lambda>k. s_cut_h s i k = h \<and> s_cut_pc s i k - pc + 256 < 512) [0..<8])"

definition cut_remember :: "nat \<Rightarrow> cpu_ctx \<Rightarrow> ('fn, 'w) sched \<Rightarrow> ('fn, 'w) sched" where
  "cut_remember i c s =
     (let slot = unat (s_cut_pos s i AND 7) in
      s\<lparr> s_cut_h := (s_cut_h s)(i := (s_cut_h s i)(slot := reg_hash c)),
         s_cut_pc := (s_cut_pc s)(i := (s_cut_pc s i)(slot := regs (hot c) 15)),
         s_cut_pos := (s_cut_pos s)(i := s_cut_pos s i + 1) \<rparr>)"

definition cut_note :: "cpu_id \<Rightarrow> ('fn, 'w) sched \<Rightarrow> ('fn, 'w) sched" where
  "cut_note w s =
     (let i = cpu_index w; c = cpu_of w s in
      cut_remember i c (s\<lparr> s_cut_idle := (s_cut_idle s)(i := cut_ok c s \<and> cut_seen i c s) \<rparr>))"

definition cut_arm :: "cpu_id \<Rightarrow> int \<Rightarrow> ('fn, 'w) sched \<Rightarrow> ('fn, 'w) sched" where
  "cut_arm w probe s =
     (let i = cpu_index w; s1 = s\<lparr> s_cut_held := (s_cut_held s)(i := 0) \<rparr>; c = cpu_of w s1 in
      if \<not> s_cut_idle s1 i \<or> \<not> cut_ok c s1 \<or> budget c \<le> 2 * probe then s1
      else
        (let held = budget c - probe;
             s2 = upd_cpu_of w (set_budget probe) (s1\<lparr> s_cut_held := (s_cut_held s1)(i := held) \<rparr>)
         in if running_is w s2 then s2\<lparr> s_start_budget := s_start_budget s2 - held \<rparr> else s2))"

text \<open>A CPU that does not run still lets its DMA advance.\<close>

definition run_dma :: "('fn, 'w) sched_env \<Rightarrow> cpu_id \<Rightarrow> ('fn, 'w) sched \<Rightarrow> ('fn, 'w) sched" where
  "run_dma env w s =
     (let (used, s1) = e_dma_run env w (word_of_int (budget (cpu_of w s)))
                         (s\<lparr> s_in_dma := True, s_dma_used := 0 \<rparr>)
      in (upd_cpu_of w (add_budget (- sint used)) s1)\<lparr> s_in_dma := False, s_dma_used := 0 \<rparr>)"

definition advance_dma_only :: "('fn, 'w) sched_env \<Rightarrow> cpu_id \<Rightarrow> ('fn, 'w) sched \<Rightarrow> ('fn, 'w) sched" where
  "advance_dma_only env w s = (if \<not> e_dma_any env w s then s else run_dma env w s)"

definition give_back :: "cpu_id \<Rightarrow> int \<Rightarrow> ('fn, 'w) sched \<Rightarrow> ('fn, 'w) sched" where
  "give_back w held s =
     (let s1 = upd_cpu_of w (add_budget held) s
      in if running_is w s1 then s1\<lparr> s_start_budget := s_start_budget s1 + held \<rparr> else s1)"

definition cut_resolve :: "('fn, 'w) sched_env \<Rightarrow> cpu_id \<Rightarrow> ('fn, 'w) sched \<Rightarrow> bool \<times> ('fn, 'w) sched" where
  "cut_resolve env w s0 =
     (let i = cpu_index w; held = s_cut_held s0 i;
          s = s0\<lparr> s_cut_held := (s_cut_held s0)(i := 0) \<rparr>; c = cpu_of w s in
      if halted c \<or> (cut_ok c s \<and> cut_seen i c s) then
        (True,
         if \<not> halted c \<and> e_dma_any env w s
         then (let s1 = advance_dma_only env w (give_back w held s)
               in if 0 < budget (cpu_of w s1) then upd_cpu_of w (set_budget 0) s1 else s1)
         else s)
      else
        (let s1 = cut_remember i c s;
             s2 = s1\<lparr> s_cut_idle := (s_cut_idle s1)(i := False) \<rparr>
         in (False, give_back w held s2)))"

section \<open>Is the machine going nowhere?\<close>

definition both_idle :: "('fn, 'w) sched_env \<Rightarrow> ('fn, 'w) sched \<Rightarrow> bool" where
  "both_idle env s \<longleftrightarrow>
     (let asleep = (\<lambda>c. halted c \<and> \<not> unmasked_irq c) in
      asleep (s_a9 s) \<and> asleep (s_a7 s) \<and> \<not> e_dma_any env ARM9 s \<and> \<not> e_dma_any env ARM7 s \<and>
      e_gx_idle env s)"

text \<open>The ring of recent slice-start PCs: was this one seen, and remember it.\<close>

definition ring_note :: "cpu_id \<Rightarrow> ('fn, 'w) sched \<Rightarrow> bool \<times> ('fn, 'w) sched" where
  "ring_note w s =
     (let i = cpu_index w; pc = regs (hot (cpu_of w s)) 15 in
      (list_ex (\<lambda>k. s_idle_ring s i k = pc) [0..<8],
       s\<lparr> s_idle_ring := (s_idle_ring s)(i := (s_idle_ring s i)(unat (s_idle_pos s i AND 7) := pc)),
          s_idle_pos := (s_idle_pos s)(i := s_idle_pos s i + 1) \<rparr>))"

text \<open>One CPU of the analysis: \<open>None\<close> rejects the slice, \<open>Some b\<close> says whether to skip it.\<close>

definition idle_one :: "('fn, 'w) sched_env \<Rightarrow> cpu_id \<Rightarrow> bool \<Rightarrow> ('fn, 'w) sched \<Rightarrow> bool option" where
  "idle_one env w repeated s =
     (let c = cpu_of w s; gx_only = (s_idle_skip s = 1);
          ports = (if \<not> gx_only then PortsAll else if w = ARM9 then GxstatOnly else RamOnly) in
      if unmasked_irq c then None
      else if halted c then Some False
      else if \<not> repeated then None
      else if \<not> e_in_idle_loop env w ports s then None
      else Some True)"

definition idle_analyse :: "('fn, 'w) sched_env \<Rightarrow> ('fn, 'w) sched \<Rightarrow> (bool \<times> bool \<times> bool) \<times> ('fn, 'w) sched" where
  "idle_analyse env s =
     (let (r9, s1) = ring_note ARM9 s; (r7, s2) = ring_note ARM7 s1 in
      (case idle_one env ARM9 r9 s2 of
         None \<Rightarrow> (False, False, False)
       | Some k9 \<Rightarrow>
           (case idle_one env ARM7 r7 s2 of
              None \<Rightarrow> (False, False, False)
            | Some k7 \<Rightarrow> (True, k9, k7)), s2))"

text \<open>\<^verbatim>\<open>machine_idle\<close>: (idle, skip the ARM9, skip the ARM7).  The survey mode restores the
  ring and answers no, so it is the plain refusal.\<close>

definition machine_idle :: "('fn, 'w) sched_env \<Rightarrow> ('fn, 'w) sched \<Rightarrow> (bool \<times> bool \<times> bool) \<times> ('fn, 'w) sched" where
  "machine_idle env s =
     (if s_idle_skip s = 0 then ((both_idle env s, False, False), s)
      else if s_idle_skip s = 1 \<and> \<not> e_swap_pending env s then ((both_idle env s, False, False), s)
      else if s_dsi s \<and> (e_dma_any env ARM9 s \<or> e_dma_any env ARM7 s) then ((False, False, False), s)
      else idle_analyse env s)"

definition arm7_spi_poll :: "('fn, 'w) sched_env \<Rightarrow> ('fn, 'w) sched \<Rightarrow> u64 option \<times> ('fn, 'w) sched" where
  "arm7_spi_poll env s =
     (let a7 = s_a7 s; pc = regs (hot a7) 15 in
      if s_idle_skip s = 0 then (None, s)
      else if halted a7 \<or> unmasked_irq a7 then (None, s)
      else if \<not> e_spi_busy env s then (None, s)
      else if e_dma_any env ARM7 s then (None, s)
      else
        (let repeated = list_ex (\<lambda>k. s_spi_ring s k = pc) [0..<8];
             s1 = s\<lparr> s_spi_ring := (s_spi_ring s)(unat (s_spi_pos s AND 7) := pc), s_spi_pos := s_spi_pos s + 1 \<rparr>
         in if \<not> repeated then (None, s1)
            else if \<not> e_in_idle_loop env ARM7 SpicntOnly s1 then (None, s1)
            else (Some (e_spi_ready_at env s1), s1)))"

section \<open>Running one CPU\<close>

definition defer_preempt_cost :: "bool \<Rightarrow> cpu_ctx \<Rightarrow> cpu_ctx" where
  "defer_preempt_cost is_dsi c =
     (if \<not> is_dsi \<or> yielded c \<or> 0 \<le> budget c then c
      else set_budget 0 (c\<lparr> defer_cost := defer_cost c + (- budget c) \<rparr>))"

definition take_irq_offline :: "cpu_ctx \<Rightarrow> cpu_ctx" where
  "take_irq_offline c =
     (if irq_offline c then c\<lparr> irq_skip_once := \<not> halted c, irq_offline := False \<rparr> else c)"

datatype turn = Again | Leave

text \<open>The DMA part of a turn: hand the budget to the DMA and decide whether the CPU runs.\<close>

datatype dma_turn = DmaLeave | DmaAgain | DmaRun

definition dma_part :: "('fn, 'w) sched_env \<Rightarrow> cpu_id \<Rightarrow> ('fn, 'w) sched \<Rightarrow> dma_turn \<times> ('fn, 'w) sched" where
  "dma_part env w s =
     (if \<not> e_dma_any env w s then (DmaRun, s)
      else
        (let b0 = budget (cpu_of w s); s1 = run_dma env w s; b = budget (cpu_of w s1) in
         if s_dsi s1 \<and> w = ARM9 \<and> b \<noteq> b0 then (DmaLeave, s1\<lparr> s_a9_dma_iter := True \<rparr>)
         else if s_dsi s1 \<and> 0 < b \<and> b \<noteq> b0 \<and> e_dma_any env w s1 then (DmaAgain, s1)
         else if b \<le> 0 \<or> e_dma_any env w s1 then (DmaLeave, s1)
         else (DmaRun, upd_cpu_of w take_irq_offline s1)))"

text \<open>What follows the CPU's run: a preempted CPU gets its residual back.\<close>

definition after_run :: "cpu_id \<Rightarrow> ('fn, 'w) sched \<Rightarrow> turn \<times> ('fn, 'w) sched" where
  "after_run w s =
     (if preempt_residual (cpu_of w s) = 0 then (Leave, s)
      else
        (let s1 = upd_cpu_of w (defer_preempt_cost (s_dsi s)) s;
             s2 = upd_cpu_of w (\<lambda>c. (add_budget (preempt_residual c) c)\<lparr> preempt_residual := 0 \<rparr>) s1;
             c = cpu_of w s2 in
         if yielded c then (Leave, upd_cpu_of w (\<lambda>c. c\<lparr> yielded := False \<rparr>) s2)
         else if s_dsi s2 \<and> w = ARM9 then (Leave, s2\<lparr> s_a9_dma_iter := True \<rparr>)
         else if budget c \<le> 0 \<or> halted c then (Leave, s2)
         else (Again, s2)))"

fun run_cpu :: "('fn, 'w) sched_env \<Rightarrow> cpu_id \<Rightarrow> nat \<Rightarrow> ('fn, 'w) sched \<Rightarrow> ('fn, 'w) sched option" where
  "run_cpu env w 0 s = None"
| "run_cpu env w (Suc fuel) s =
     (case dma_part env w s of
        (DmaLeave, s1) \<Rightarrow> Some s1
      | (DmaAgain, s1) \<Rightarrow> run_cpu env w fuel s1
      | (DmaRun, s1) \<Rightarrow>
          (case after_run w (e_run env w s1) of
             (Leave, s2) \<Rightarrow> Some s2
           | (Again, s2) \<Rightarrow> run_cpu env w fuel s2))"

section \<open>One slice\<close>

definition slice_length :: "('fn, 'w) sched_env \<Rightarrow> u64 \<Rightarrow> ('fn, 'w) sched \<Rightarrow> (int \<times> bool \<times> bool) \<times> ('fn, 'w) sched" where
  "slice_length env until s =
     (let deadline = (if until < s_next s then until else s_next s);
          len0 = sint (deadline - s_now s);
          len1 = (if len0 \<le> 0 then 1 else len0);
          ((all_idle, skip9, skip7), s1) = machine_idle env s;
          idle = (SLICE_QUANTUM < len1 \<and> all_idle \<and> \<not> s_dsi s1);
          len2 = (if SLICE_QUANTUM + s_slice_margin s1 \<le> len1 \<and> \<not> idle then SLICE_QUANTUM else len1)
      in if \<not> all_idle \<and> \<not> skip7 then
           (case arm7_spi_poll env s1 of
              (None, s2) \<Rightarrow> ((len2, skip9, False), s2)
            | (Some wake, s2) \<Rightarrow>
                ((if s_now s2 < wake \<and> sint (wake - s_now s2) < len2 then sint (wake - s_now s2) else len2,
                  skip9, True), s2))
         else ((len2, skip9, skip7), s1))"

text \<open>Hand a CPU its budget at the start of its part of the slice.\<close>

definition hand_budget :: "cpu_id \<Rightarrow> int \<Rightarrow> ('fn, 'w) sched \<Rightarrow> ('fn, 'w) sched" where
  "hand_budget w b =
     upd_cpu_of w (\<lambda>c. take_irq_offline
       (let c1 = set_budget b c in if boot_stall c1 \<noteq> 0 then take_stall c1 else c1))"

text \<open>Run a CPU with its probe, or only its DMA when it is skipped.\<close>

definition run_part :: "('fn, 'w) sched_env \<Rightarrow> cpu_id \<Rightarrow> int \<Rightarrow> bool \<Rightarrow> nat \<Rightarrow> ('fn, 'w) sched \<Rightarrow> ('fn, 'w) sched option" where
  "run_part env w probe skip fuel s =
     (if skip then Some (advance_dma_only env w s)
      else
        (case run_cpu env w fuel (cut_arm w probe s) of
           None \<Rightarrow> None
         | Some s1 \<Rightarrow>
             (if s_cut_held s1 (cpu_index w) = 0 then Some s1
              else
                (case cut_resolve env w s1 of
                   (True, s2) \<Rightarrow> Some s2
                 | (False, s2) \<Rightarrow>
                     (if 0 < budget (cpu_of w s2) \<and> \<not> halted (cpu_of w s2)
                      then run_cpu env w fuel s2 else Some s2)))))"

definition begin9 :: "int \<Rightarrow> ('fn, 'w) sched \<Rightarrow> ('fn, 'w) sched" where
  "begin9 len s =
     (let b = budget9_for len s;
          s1 = hand_budget ARM9 b (s\<lparr> s_budget9 := b, s_slice_end := s_now s + word_of_int len \<rparr>)
      in s1\<lparr> s_running := Some ARM9, s_start_budget := b, s_shift := 0,
             s_rshift := (if s_dsi s1 then s_shift9 s1 + 1 else 0), s_base := s_now s1,
             s_carry := word_of_int (s_arm9_carry s1) \<rparr>)"

text \<open>How far the ARM9 got, in scheduler ticks; the debt of the ARM7 grows by as much.\<close>

definition end9 :: "int \<Rightarrow> bool \<Rightarrow> ('fn, 'w) sched \<Rightarrow> int \<times> ('fn, 'w) sched" where
  "end9 len skip9 s =
     (let full9 = ((halted (s_a9 s) \<or> skip9) \<and> \<not> s_a9_dma_iter s); dma_iter = s_a9_dma_iter s;
          s1 = s\<lparr> s_a9_dma_iter := False \<rparr>;
          (r, s2) = (if full9 then (len, s1) else ticks9 (s_budget9 s1 - budget (s_a9 s1)) s1);
          s3 = (if full9 then s2\<lparr> s_arm9_carry := 0 \<rparr> else s2);
          ran9 = (if r \<le> 0 then (if dma_iter then 0 else 1) else r)
      in (ran9, s3\<lparr> s_running := None, s_rshift := 0, s_arm7_debt := s_arm7_debt s3 + ran9 \<rparr>))"

definition begin7 :: "int \<Rightarrow> int \<Rightarrow> ('fn, 'w) sched \<Rightarrow> ('fn, 'w) sched" where
  "begin7 budget7 ran9 s =
     (let s1 = hand_budget ARM7 budget7 s
      in s1\<lparr> s_running := Some ARM7, s_start_budget := budget7, s_shift := 1, s_rshift := 0,
             s_base := (if s_dsi s1 then word_of_int (uint (s_now s1) + ran9 - s_arm7_debt s1)
                        else s_now s1) \<rparr>)"

definition end7 :: "('fn, 'w) sched_env \<Rightarrow> int \<Rightarrow> bool \<Rightarrow> ('fn, 'w) sched \<Rightarrow> ('fn, 'w) sched" where
  "end7 env budget7 skip7 s =
     (let s1 = (if e_soft_reset_pending env s then e_soft_reset env s else s);
          consumed7 = (if halted (s_a7 s1) \<or> skip7 then budget7 else budget7 - budget (s_a7 s1))
      in s1\<lparr> s_arm7_debt := s_arm7_debt s1 - consumed7 * 2 \<rparr>)"

text \<open>C++ integer division truncates.\<close>

definition half_toward_zero :: "int \<Rightarrow> int" where
  "half_toward_zero d = (if d < 0 then - ((- d) div 2) else d div 2)"

definition arm7_part :: "('fn, 'w) sched_env \<Rightarrow> int \<Rightarrow> bool \<Rightarrow> nat \<Rightarrow> ('fn, 'w) sched \<Rightarrow> ('fn, 'w) sched option" where
  "arm7_part env ran9 skip7 fuel s =
     (let budget7 = half_toward_zero (s_arm7_debt s) in
      if 0 < budget7
      then map_option (end7 env budget7 skip7)
             (run_part env ARM7 CUT_PROBE7 skip7 fuel (begin7 budget7 ran9 s))
      else Some s)"

definition end_slice :: "int \<Rightarrow> ('fn, 'w) sched \<Rightarrow> ('fn, 'w) sched" where
  "end_slice ran9 s =
     (let s1 = s\<lparr> s_running := None \<rparr>;
          s2 = (if s_idle_cut s1 then cut_note ARM7 (cut_note ARM9 s1) else s1)
      in s2\<lparr> s_now := s_now s2 + word_of_int ran9 \<rparr>)"

definition slice_body :: "('fn, 'w) sched_env \<Rightarrow> u64 \<Rightarrow> nat \<Rightarrow> ('fn, 'w) sched \<Rightarrow> ('fn, 'w) sched option" where
  "slice_body env until fuel s =
     (let ((len, skip9, skip7), s1) = slice_length env until s in
      case run_part env ARM9 CUT_PROBE9 skip9 fuel (begin9 len s1) of
        None \<Rightarrow> None
      | Some s2 \<Rightarrow>
          (let (ran9, s3) = end9 len skip9 s2 in
           case arm7_part env ran9 skip7 fuel s3 of
             None \<Rightarrow> None
           | Some s4 \<Rightarrow> fire_due env fuel (end_slice ran9 s4)))"

definition run_done :: "('fn, 'w) sched_env \<Rightarrow> u64 \<Rightarrow> bool \<Rightarrow> ('fn, 'w) sched \<Rightarrow> bool" where
  "run_done env until until_frame s \<longleftrightarrow> (until_frame \<and> e_frame_ready env s) \<or> until \<le> s_now s"

fun run_slices :: "('fn, 'w) sched_env \<Rightarrow> u64 \<Rightarrow> bool \<Rightarrow> nat \<Rightarrow> ('fn, 'w) sched \<Rightarrow> ('fn, 'w) sched option" where
  "run_slices env until until_frame fuel s =
     (if run_done env until until_frame s then Some s
      else
        (case fuel of
           0 \<Rightarrow> None
         | Suc f \<Rightarrow>
             (case slice_body env until f s of
                None \<Rightarrow> None
              | Some s' \<Rightarrow> run_slices env until until_frame f s')))"

declare run_slices.simps [simp del]

definition run_until_impl :: "('fn, 'w) sched_env \<Rightarrow> u64 \<Rightarrow> bool \<Rightarrow> nat \<Rightarrow> ('fn, 'w) sched \<Rightarrow> (u64 \<times> ('fn, 'w) sched) option" where
  "run_until_impl env until until_frame fuel s =
     (case fire_due env fuel s of
        None \<Rightarrow> None
      | Some s1 \<Rightarrow>
          map_option (\<lambda>s2. (s_now s2 - s_now s, s2)) (run_slices env until until_frame fuel s1))"

definition run_until :: "('fn, 'w) sched_env \<Rightarrow> u64 \<Rightarrow> nat \<Rightarrow> ('fn, 'w) sched \<Rightarrow> (u64 \<times> ('fn, 'w) sched) option" where
  "run_until env until fuel s = run_until_impl env until False fuel s"

definition run_until_frame :: "('fn, 'w) sched_env \<Rightarrow> nat \<Rightarrow> ('fn, 'w) sched \<Rightarrow> (u64 \<times> ('fn, 'w) sched) option" where
  "run_until_frame env fuel s = run_until_impl env u64_max True fuel s"

end
