(* ===== verification/SchedSpec.thy ===== *)
theory SchedSpec imports Slices Sample "HOL-Library.Multiset_Order" begin

text \<open>
  The event queue of the scheduler (\<^verbatim>\<open>src/core/sched/scheduler.cpp\<close>).  Handlers are code
  of other components; all that is assumed of them is that they touch the queue through
  \<^verbatim>\<open>schedule\<close> and \<^verbatim>\<open>cancel\<close> (\<open>queue_act\<close>), which its private members enforce.
\<close>

section \<open>What may happen to the queue\<close>

definition same_queue :: "('fn, 'w) sched \<Rightarrow> ('fn, 'w) sched \<Rightarrow> bool" where
  "same_queue s t \<longleftrightarrow> s_at t = s_at s \<and> s_armed t = s_armed s \<and> s_fn t = s_fn s \<and> s_param t = s_param s \<and>
     s_next t = s_next s \<and> s_next_id t = s_next_id s \<and> s_now t = s_now s"

text \<open>\<open>queue_act P s t\<close>: \<open>t\<close> comes from \<open>s\<close> by any number of cancellations, schedulings at
  deadlines satisfying \<open>P\<close>, and changes outside the queue.\<close>

inductive queue_act :: "(u64 \<Rightarrow> bool) \<Rightarrow> ('fn, 'w) sched \<Rightarrow> ('fn, 'w) sched \<Rightarrow> bool" for P s where
  act_none: "queue_act P s s"
| act_schedule: "queue_act P s t \<Longrightarrow> P at \<Longrightarrow> i < EVENT_COUNT \<Longrightarrow> queue_act P s (schedule i at fn prm t)"
| act_cancel: "queue_act P s t \<Longrightarrow> queue_act P s (cancel i t)"
| act_other: "queue_act P s t \<Longrightarrow> same_queue t u \<Longrightarrow> queue_act P s u"

section \<open>Frames\<close>

lemma upd_cpu_of_frame [simp]:
  "same_queue s (upd_cpu_of w f s)" "s_running (upd_cpu_of w f s) = s_running s"
  "s_dsi (upd_cpu_of w f s) = s_dsi s" "s_shift9 (upd_cpu_of w f s) = s_shift9 s"
  by (cases w; simp add: same_queue_def)+

lemma armed_below: "armed i s \<Longrightarrow> i < 32"
  unfolding armed_def by (drule bit_imp_le_length) simp

lemma armed_set: "armed j (s\<lparr> s_armed := a \<rparr>) \<longleftrightarrow> bit a j"
  by (simp add: armed_def)

lemma bit_or_one: "i < 32 \<Longrightarrow> bit (a OR push_bit i 1 :: u32) j \<longleftrightarrow> bit a j \<or> j = i"
  and bit_clear_one: "i < 32 \<Longrightarrow> bit (a AND NOT (push_bit i 1) :: u32) j \<longleftrightarrow> bit a j \<and> j \<noteq> i"
  by (auto simp: bit_simps dest: bit_imp_le_length)

lemma cut_arm9_same: "same_queue s (cut_arm9_at at s)"
  by (simp add: cut_arm9_at_def same_queue_def Let_def)

section \<open>The cached minimum\<close>

text \<open>No armed event earlier than the cached deadline; the cache names an event that has it.\<close>

definition next_lower :: "('fn, 'w) sched \<Rightarrow> bool" where
  "next_lower s \<longleftrightarrow> (\<forall>i. armed i s \<longrightarrow> s_next s \<le> s_at s i)"

definition next_named :: "('fn, 'w) sched \<Rightarrow> bool" where
  "next_named s \<longleftrightarrow> (s_next s \<noteq> u64_max \<longrightarrow> armed (s_next_id s) s \<and> s_at s (s_next_id s) = s_next s)"

definition handlers_set :: "('fn, 'w) sched \<Rightarrow> bool" where
  "handlers_set s \<longleftrightarrow> (\<forall>i. armed i s \<longrightarrow> i < EVENT_COUNT \<and> s_fn s i \<noteq> None)"

definition queue_ok :: "('fn, 'w) sched \<Rightarrow> bool" where
  "queue_ok s \<longleftrightarrow> next_lower s \<and> next_named s \<and> handlers_set s"

lemma u64_max_top [simp]: "x \<le> u64_max" "\<not> u64_max < x"
proof -
  have "u64_max = - 1" by (simp add: u64_max_def)
  then show "x \<le> u64_max" "\<not> u64_max < x" using word_order.extremum [of x] by (simp_all add: not_less)
qed

lemma rescan_fold:
  assumes "fold (rescan_event s) is (b, k) = (b', k')"
  shows "b' \<le> b \<and> (\<forall>i\<in>set is. armed i s \<longrightarrow> b' \<le> s_at s i) \<and>
    ((b', k') = (b, k) \<or> (armed k' s \<and> s_at s k' = b'))"
  using assms
proof (induction "is" arbitrary: b k)
  case (Cons i "is")
  obtain b1 k1 where s1: "rescan_event s i (b, k) = (b1, k1)" by fastforce
  then have "b1 \<le> b" "armed i s \<longrightarrow> b1 \<le> s_at s i" "(b1, k1) = (b, k) \<or> armed k1 s \<and> s_at s k1 = b1"
    by (auto simp: rescan_event_def split: if_splits)
  with Cons.IH [of b1 k1] Cons.prems s1 show ?case by auto
qed simp

lemma rescan_frame [simp]:
  "s_at (rescan_queue s) = s_at s" "s_armed (rescan_queue s) = s_armed s" "s_fn (rescan_queue s) = s_fn s"
  "s_param (rescan_queue s) = s_param s" "s_now (rescan_queue s) = s_now s"
  "s_cut_on_schedule (rescan_queue s) = s_cut_on_schedule s" "armed i (rescan_queue s) = armed i s"
  by (simp_all add: rescan_queue_def armed_def split: prod.split)

lemma rescan_exact: "next_lower (rescan_queue s)" "next_named (rescan_queue s)"
proof -
  obtain b k where f: "fold (rescan_event s) [0..<32] (u64_max, EVENT_COUNT) = (b, k)" by fastforce
  have r: "s_next (rescan_queue s) = b" "s_next_id (rescan_queue s) = k"
    by (simp_all add: rescan_queue_def f)
  show "next_lower (rescan_queue s)" "next_named (rescan_queue s)"
    using rescan_fold [OF f] armed_below [of _ s] by (auto simp: next_lower_def next_named_def r)
qed

section \<open>The invariant of a pass\<close>

text \<open>While a pass runs, events from \<open>k\<close> on have not been looked at, and the cache may also hold
  a deadline that is already due (its event has been fired or is about to be).\<close>

definition pass_ok :: "nat \<Rightarrow> ('fn, 'w) sched \<Rightarrow> bool" where
  "pass_ok k s \<longleftrightarrow> (\<forall>i<k. armed i s \<longrightarrow> s_next s \<le> s_at s i) \<and>
     (s_next s \<noteq> u64_max \<longrightarrow> s_next s \<le> s_now s \<or> (armed (s_next_id s) s \<and> s_at s (s_next_id s) = s_next s)) \<and>
     handlers_set s"

lemma pass_ok_exact: "handlers_set s \<Longrightarrow> pass_ok k (rescan_queue s)"
  using rescan_exact [of s] by (auto simp: pass_ok_def next_lower_def next_named_def handlers_set_def)

lemma queue_same:
  assumes "same_queue s t"
  shows "armed i t = armed i s" "pass_ok k t = pass_ok k s" "queue_ok t = queue_ok s"
  using assms
  by (simp_all add: same_queue_def pass_ok_def queue_ok_def next_lower_def next_named_def handlers_set_def armed_def)

text \<open>A scheduling before the slice is cut.\<close>

definition schedule_queue :: "nat \<Rightarrow> u64 \<Rightarrow> 'fn \<Rightarrow> u32 \<Rightarrow> ('fn, 'w) sched \<Rightarrow> ('fn, 'w) sched" where
  "schedule_queue i at fn prm s =
     (let s1 = s\<lparr> s_at := (s_at s)(i := at), s_fn := (s_fn s)(i := Some fn),
                  s_param := (s_param s)(i := prm), s_armed := s_armed s OR push_bit i 1 \<rparr>
      in if at < s_next s1 then s1\<lparr> s_next := at, s_next_id := i \<rparr>
         else if (armed i s \<and> s_next_id s = i) \<and> s_next s1 < at then rescan_queue s1 else s1)"

lemma schedule_same: "same_queue (schedule_queue i at fn prm s) (schedule i at fn prm s)"
proof -
  have "schedule i at fn prm s = (if s_cut_on_schedule (schedule_queue i at fn prm s)
      then cut_arm9_at at (schedule_queue i at fn prm s) else schedule_queue i at fn prm s)"
    by (simp only: schedule_def schedule_queue_def Let_def)
  then show ?thesis using cut_arm9_same [of "schedule_queue i at fn prm s" at] by (simp add: same_queue_def)
qed

lemma event_small: "i < EVENT_COUNT \<Longrightarrow> i < 32"
  by (simp add: EVENT_COUNT_def)

lemma schedule_queue_fields:
  assumes "i < EVENT_COUNT"
  shows "s_at (schedule_queue i at fn prm s) = (s_at s)(i := at)"
    "armed j (schedule_queue i at fn prm s) \<longleftrightarrow> armed j s \<or> j = i"
    "s_fn (schedule_queue i at fn prm s) = (s_fn s)(i := Some fn)"
    "s_now (schedule_queue i at fn prm s) = s_now s"
  using bit_or_one [OF event_small [OF assms], of "s_armed s" j]
  by (simp_all add: schedule_queue_def Let_def armed_def)

lemma handlers_schedule:
  "i < EVENT_COUNT \<Longrightarrow> handlers_set s \<Longrightarrow> handlers_set (schedule_queue i at fn prm s)"
  by (auto simp: handlers_set_def schedule_queue_fields)

text \<open>Either the scheduling rescans, or the cache only moves down to the new deadline.\<close>

lemma schedule_queue_cases:
  fixes s :: "('fn, 'w) sched" and fn :: 'fn and at :: u64 and prm :: u32 and i :: nat
  defines "t \<equiv> schedule_queue i at fn prm s"
  shows "(\<exists>u. t = rescan_queue u) \<or>
    (s_next t = at \<and> s_next_id t = i \<and> at < s_next s) \<or>
    (s_next t = s_next s \<and> s_next_id t = s_next_id s \<and> s_next s \<le> at \<and>
       (armed i s \<and> s_next_id s = i \<longrightarrow> s_next s = at))"
  unfolding t_def schedule_queue_def Let_def by (auto simp: not_less)

lemma pass_schedule: "i < EVENT_COUNT \<Longrightarrow> pass_ok k s \<Longrightarrow> pass_ok k (schedule i at fn prm s)"
proof -
  assume i: "i < EVENT_COUNT" and ok: "pass_ok k s"
  let ?t = "schedule_queue i at fn prm s"
  have h: "handlers_set ?t" using handlers_schedule [OF i, of s at fn prm] ok by (simp add: pass_ok_def)
  note f = schedule_queue_fields [OF i, where at = at and fn = fn and prm = prm and s = s]
  have "pass_ok k ?t"
    using schedule_queue_cases [of i at fn prm s]
  proof (elim disjE exE conjE)
    fix u assume u: "?t = rescan_queue u"
    with h show ?thesis using pass_ok_exact [of u k] by (simp add: handlers_set_def)
  next
    assume "s_next ?t = at" "s_next_id ?t = i" "at < s_next s"
    with ok h f show ?thesis by (auto simp: pass_ok_def)
  next
    assume a: "s_next ?t = s_next s" "s_next_id ?t = s_next_id s" "s_next s \<le> at"
      "armed i s \<and> s_next_id s = i \<longrightarrow> s_next s = at"
    with ok h f show ?thesis by (auto simp: pass_ok_def)
  qed
  then show ?thesis using queue_same(2) [OF schedule_same [of i at fn prm s], of k] by simp
qed

lemma ok_schedule: "i < EVENT_COUNT \<Longrightarrow> queue_ok s \<Longrightarrow> queue_ok (schedule i at fn prm s)"
proof -
  assume i: "i < EVENT_COUNT" and ok: "queue_ok s"
  let ?t = "schedule_queue i at fn prm s"
  have h: "handlers_set ?t" using handlers_schedule [OF i, of s at fn prm] ok by (simp add: queue_ok_def)
  note f = schedule_queue_fields [OF i, where at = at and fn = fn and prm = prm and s = s]
  have "queue_ok ?t"
    using schedule_queue_cases [of i at fn prm s]
  proof (elim disjE exE conjE)
    fix u assume u: "?t = rescan_queue u"
    with h show ?thesis using rescan_exact [of u] by (simp add: queue_ok_def)
  next
    assume "s_next ?t = at" "s_next_id ?t = i" "at < s_next s"
    with ok h f show ?thesis by (auto simp: queue_ok_def next_lower_def next_named_def)
  next
    assume a: "s_next ?t = s_next s" "s_next_id ?t = s_next_id s" "s_next s \<le> at"
      "armed i s \<and> s_next_id s = i \<longrightarrow> s_next s = at"
    with ok h f show ?thesis by (auto simp: queue_ok_def next_lower_def next_named_def)
  qed
  then show ?thesis using queue_same(3) [OF schedule_same [of i at fn prm s]] by simp
qed

lemma cancel_fields:
  "s_at (cancel i s) = s_at s" "armed j (cancel i s) \<longleftrightarrow> armed j s \<and> j \<noteq> i"
  "s_fn (cancel i s) = s_fn s" "s_now (cancel i s) = s_now s"
proof -
  have "armed i s \<Longrightarrow> bit (s_armed s AND NOT (push_bit i 1)) j \<longleftrightarrow> armed j s \<and> j \<noteq> i"
    using bit_clear_one [of i "s_armed s" j] armed_below [of i s] by (simp add: armed_def)
  then show "armed j (cancel i s) \<longleftrightarrow> armed j s \<and> j \<noteq> i"
    by (auto simp: cancel_def Let_def armed_set)
qed (simp_all add: cancel_def Let_def)

lemma cancel_cases:
  "(\<exists>u. cancel i s = rescan_queue u) \<or>
   (s_next (cancel i s) = s_next s \<and> s_next_id (cancel i s) = s_next_id s \<and> (armed i s \<longrightarrow> s_next_id s \<noteq> i))"
  unfolding cancel_def Let_def by auto

lemma pass_cancel: "pass_ok k s \<Longrightarrow> pass_ok k (cancel i s)"
proof -
  assume ok: "pass_ok k s"
  have h: "handlers_set (cancel i s)" using ok by (auto simp: pass_ok_def handlers_set_def cancel_fields)
  show ?thesis
    using cancel_cases [of i s]
  proof (elim disjE exE conjE)
    fix u assume u: "cancel i s = rescan_queue u"
    with h show ?thesis using pass_ok_exact [of u k] by (simp add: handlers_set_def)
  next
    assume "s_next (cancel i s) = s_next s" "s_next_id (cancel i s) = s_next_id s"
      "armed i s \<longrightarrow> s_next_id s \<noteq> i"
    with ok h show ?thesis by (auto simp: pass_ok_def cancel_fields)
  qed
qed

lemma ok_cancel: "queue_ok s \<Longrightarrow> queue_ok (cancel i s)"
proof -
  assume ok: "queue_ok s"
  have h: "handlers_set (cancel i s)" using ok by (auto simp: queue_ok_def handlers_set_def cancel_fields)
  show ?thesis
    using cancel_cases [of i s]
  proof (elim disjE exE conjE)
    fix u assume u: "cancel i s = rescan_queue u"
    with h show ?thesis using rescan_exact [of u] by (simp add: queue_ok_def)
  next
    assume "s_next (cancel i s) = s_next s" "s_next_id (cancel i s) = s_next_id s"
      "armed i s \<longrightarrow> s_next_id s \<noteq> i"
    with ok h show ?thesis by (auto simp: queue_ok_def next_lower_def next_named_def cancel_fields)
  qed
qed

text \<open>Hence whatever a handler does to the queue keeps both invariants, and the time.\<close>

lemma act_keeps:
  "queue_act P s t \<Longrightarrow> s_now t = s_now s \<and> (pass_ok k s \<longrightarrow> pass_ok k t) \<and> (queue_ok s \<longrightarrow> queue_ok t)"
proof (induction rule: queue_act.induct)
  case (act_schedule t at i fn prm)
  have "s_now (schedule i at fn prm t) = s_now t"
    using schedule_same [of i at fn prm t] act_schedule.hyps(3)
    by (simp add: same_queue_def schedule_queue_fields)
  with act_schedule pass_schedule ok_schedule show ?case by metis
next
  case (act_cancel t i)
  then show ?case using pass_cancel ok_cancel by (metis cancel_fields(4))
next
  case (act_other t u)
  then show ?case using queue_same [of t u] by (metis same_queue_def)
qed simp

lemma act_keeps_simps:
  assumes "queue_act P s t"
  shows "s_now t = s_now s" "pass_ok k s \<Longrightarrow> pass_ok k t" "queue_ok s \<Longrightarrow> queue_ok t"
  using act_keeps [OF assms] by blast+


section \<open>A pass over the due events\<close>

definition handlers_act :: "(u64 \<Rightarrow> u64 \<Rightarrow> bool) \<Rightarrow> ('fn, 'w) sched_env \<Rightarrow> bool" where
  "handlers_act P env \<longleftrightarrow> (\<forall>fn prm s. queue_act (P (s_firing_at s)) s (e_call env fn prm s)) \<and>
     (\<forall>s. queue_act (\<lambda>_. True) s (e_ipc_deliver env s))"

definition disarm :: "nat \<Rightarrow> ('fn, 'w) sched \<Rightarrow> ('fn, 'w) sched" where
  "disarm i s = s\<lparr> s_armed := s_armed s AND NOT (push_bit i 1), s_firing_at := s_at s i \<rparr>"

lemma disarm_fields [simp]:
  "s_at (disarm i s) = s_at s" "s_now (disarm i s) = s_now s" "s_next (disarm i s) = s_next s"
  "s_next_id (disarm i s) = s_next_id s" "s_fn (disarm i s) = s_fn s" "s_firing_at (disarm i s) = s_at s i"
  "i < 32 \<Longrightarrow> armed j (disarm i s) \<longleftrightarrow> armed j s \<and> j \<noteq> i"
  using bit_clear_one [of i "s_armed s" j] by (simp_all add: disarm_def armed_def)

lemma handler_act:
  "handlers_act P env \<Longrightarrow> queue_act (P (s_firing_at t)) t (call_handler env i t)"
  unfolding handlers_act_def call_handler_def by (cases "s_fn t i") (simp_all add: act_none)

lemma fire_one_act:
  "handlers_act P env \<Longrightarrow> queue_act (P (s_at s i)) (disarm i s) (fire_one env i s)"
  using handler_act [of P env "disarm i s" i] by (simp add: fire_one_def disarm_def)

lemma pass_disarm:
  "i < 32 \<Longrightarrow> s_at s i \<le> s_now s \<Longrightarrow> pass_ok i s \<Longrightarrow> pass_ok (Suc i) (disarm i s)"
  by (auto simp: pass_ok_def handlers_set_def less_Suc_eq)

text \<open>What is still to be visited is what is armed from \<open>i\<close> on.\<close>

definition pass_inv :: "nat \<Rightarrow> ('fn, 'w) sched \<times> u32 \<Rightarrow> bool" where
  "pass_inv i sm \<longleftrightarrow> pass_ok i (fst sm) \<and> (\<forall>j\<ge>i. bit (snd sm) j = armed j (fst sm))"

lemma bits_above: "i < 32 \<Longrightarrow> bit (a AND NOT (push_bit 1 (push_bit i 1) - 1) :: u32) j \<longleftrightarrow> bit a j \<and> i < j"
proof -
  assume i: "i < 32"
  have "push_bit 1 (push_bit i 1) - 1 = (mask (Suc i) :: u32)"
    by (simp add: mask_eq_exp_minus_1 push_bit_eq_mult)
  then show ?thesis using i by (auto simp: bit_simps dest: bit_imp_le_length)
qed

lemma pass_step_inv:
  assumes act: "handlers_act P env" and i: "i < 32" and inv: "pass_inv i sm"
  shows "pass_inv (Suc i) (pass_step env i sm)" "s_now (fst (pass_step env i sm)) = s_now (fst sm)"
proof -
  obtain s m where sm: "sm = (s, m)" by fastforce
  have ok: "pass_ok i s" and m: "\<And>j. i \<le> j \<Longrightarrow> bit m j = armed j s" using inv by (auto simp: pass_inv_def sm)
  consider (clear) "\<not> bit m i" | (due) "bit m i" "s_at s i \<le> s_now s" | (later) "bit m i" "s_now s < s_at s i"
    using not_le by blast
  then have "pass_inv (Suc i) (pass_step env i sm) \<and> s_now (fst (pass_step env i sm)) = s_now (fst sm)"
  proof cases
    case clear
    then have "\<not> armed i s" using m by simp
    with clear ok m show ?thesis by (auto simp: pass_step_def sm pass_inv_def pass_ok_def less_Suc_eq)
  next
    case due
    note q = fire_one_act [OF act, of s i]
    have "pass_ok (Suc i) (fire_one env i s)"
      using act_keeps_simps(2) [OF q] pass_disarm [OF i due(2) ok] by simp
    moreover have "bit (s_armed (fire_one env i s) AND NOT (push_bit 1 (push_bit i 1) - 1)) j = armed j (fire_one env i s)"
      if "Suc i \<le> j" for j
      using bits_above [OF i, of "s_armed (fire_one env i s)" j] that by (simp add: armed_def)
    ultimately show ?thesis
      using due act_keeps_simps(1) [OF q] unfolding pass_step_def sm Let_def pass_inv_def by (simp del: push_bit_eq_mult)
  next
    case later
    have b: "bit (m AND NOT (push_bit i 1)) j = armed j s" if "Suc i \<le> j" for j
      using bit_clear_one [OF i, of m j] m [of j] that by simp
    have a: "armed i s" using later m by simp
    let ?s = "if s_at s i < s_next s then s\<lparr> s_next := s_at s i, s_next_id := i \<rparr> else s"
    have "pass_ok (Suc i) ?s"
      using ok a by (auto simp: pass_ok_def less_Suc_eq handlers_set_def armed_def)
    moreover have "armed j ?s = armed j s" for j by (simp add: armed_def)
    moreover have "pass_step env i sm = (?s, m AND NOT (push_bit i 1))"
    proof -
      have "\<not> s_at s i \<le> s_now s" using later(2) by (simp add: not_le)
      then show ?thesis using later(1) by (simp only: pass_step_def sm Let_def prod.case if_False simp_thms)
    qed
    ultimately show ?thesis using b by (simp add: pass_inv_def sm)
  qed
  then show "pass_inv (Suc i) (pass_step env i sm)" "s_now (fst (pass_step env i sm)) = s_now (fst sm)"
    by blast+
qed

lemma pass_fold_inv:
  assumes "handlers_act P env" "i \<le> n" "n \<le> 32" "pass_inv i sm"
  shows "pass_inv n (fold (pass_step env) [i..<n] sm) \<and>
    s_now (fst (fold (pass_step env) [i..<n] sm)) = s_now (fst sm)"
  using assms(2-4)
proof (induction "n - i" arbitrary: i sm)
  case (Suc k)
  then have "[i..<n] = i # [Suc i..<n]" by (simp add: upt_rec [of i])
  with Suc.hyps(1) [of "Suc i" "pass_step env i sm"] Suc.hyps(2) Suc.prems
    pass_step_inv [OF assms(1), of i sm] show ?case by simp
qed simp

lemma fire_pass_inv:
  assumes "handlers_act P env" "handlers_set s"
  shows "pass_ok 32 (fire_pass env s)" "s_now (fire_pass env s) = s_now s"
proof -
  let ?s = "s\<lparr> s_next := u64_max, s_next_id := EVENT_COUNT \<rparr>"
  have "pass_inv 0 (?s, s_armed ?s)"
    using assms(2) by (auto simp: pass_inv_def pass_ok_def handlers_set_def armed_def)
  from pass_fold_inv [OF assms(1) _ _ this, of 32]
  show "pass_ok 32 (fire_pass env s)" "s_now (fire_pass env s) = s_now s"
    unfolding fire_pass_def Let_def by (simp_all add: pass_inv_def)
qed

lemma pass_ok_done: "pass_ok 32 s \<Longrightarrow> s_now s < s_next s \<Longrightarrow> queue_ok s"
  using armed_below [of _ s] by (auto simp: pass_ok_def queue_ok_def next_lower_def next_named_def)

lemma fire_loop_result:
  assumes act: "handlers_act P env"
  shows "fire_loop env fuel s = Some t \<Longrightarrow> queue_ok s \<or> pass_ok 32 s \<Longrightarrow>
    queue_ok t \<and> s_now t = s_now s \<and> s_now t < s_next t"
proof (induction fuel arbitrary: s)
  case 0
  then show ?case using pass_ok_done by (auto simp: fire_loop.simps [of _ 0] split: if_splits)
next
  case (Suc fuel)
  show ?case
  proof (cases "s_now s < s_next s")
    case True
    then show ?thesis using Suc.prems pass_ok_done by (auto simp: fire_loop.simps [of _ "Suc fuel"])
  next
    case False
    then have r: "fire_loop env fuel (fire_pass env s) = Some t"
      using Suc.prems(1) by (simp add: fire_loop.simps [of _ "Suc fuel"])
    have "handlers_set s" using Suc.prems(2) by (auto simp: queue_ok_def pass_ok_def)
    from Suc.IH [OF r] fire_pass_inv [OF act this] show ?thesis by auto
  qed
qed


section \<open>Every handler that reschedules later makes the loop end\<close>

text \<open>How overdue an event is, and the multiset of that over all due events.  Firing an event
  removes its entry and may add entries, but only smaller ones.\<close>

definition due_set :: "('fn, 'w) sched \<Rightarrow> nat set" where
  "due_set s = {i. armed i s \<and> s_at s i \<le> s_now s}"

definition overdue :: "('fn, 'w) sched \<Rightarrow> nat \<Rightarrow> nat" where
  "overdue s i = unat (s_now s) - unat (s_at s i)"

definition due_mset :: "('fn, 'w) sched \<Rightarrow> nat multiset" where
  "due_mset s = image_mset (overdue s) (mset_set (due_set s))"

lemma due_finite [simp]: "finite (due_set s)"
  using armed_below by (auto intro!: finite_subset [of _ "{..<32}"] simp: due_set_def)

lemma due_cong:
  assumes "s_at t = s_at s" "s_armed t = s_armed s" "s_now t = s_now s"
  shows "due_set t = due_set s" "due_mset t = due_mset s" "overdue t = overdue s"
proof -
  show d: "due_set t = due_set s" using assms by (simp add: due_set_def armed_def)
  show o: "overdue t = overdue s" using assms by (simp add: overdue_def fun_eq_iff)
  show "due_mset t = due_mset s" by (simp add: due_mset_def d o)
qed

lemma due_same:
  "same_queue s t \<Longrightarrow> due_mset t = due_mset s"
  using due_cong(2) [of t s] by (simp add: same_queue_def)

lemma due_shrink:
  assumes "s_now t = s_now s" "due_set t \<subseteq> due_set s" "\<And>i. i \<in> due_set t \<Longrightarrow> s_at t i = s_at s i"
  shows "due_mset t \<subseteq># due_mset s"
proof -
  have "due_mset t = image_mset (overdue s) (mset_set (due_set t))"
    using assms by (auto simp: due_mset_def overdue_def intro!: image_mset_cong)
  also have "\<dots> \<subseteq># due_mset s"
    unfolding due_mset_def using assms(2)
    by (intro image_mset_subseteq_mono) (simp add: subset_imp_msubset_mset_set)
  finally show ?thesis .
qed

text \<open>At most one entry, for a deadline after \<open>f\<close>, comes in with a scheduling.\<close>

lemma due_schedule:
  assumes i: "i < EVENT_COUNT" and at: "f < at" and f: "f \<le> s_now s"
  shows "\<exists>K. (\<forall>k\<in>#K. k < unat (s_now s) - unat f) \<and> due_mset (schedule i at fn prm s) \<subseteq># due_mset s + K"
proof -
  let ?t = "schedule_queue i at fn prm s"
  note fl = schedule_queue_fields [OF i, where at = at and fn = fn and prm = prm and s = s]
  let ?rest = "due_set s - {i}"
  have rest: "image_mset (overdue s) (mset_set ?rest) \<subseteq># due_mset s"
    unfolding due_mset_def by (intro image_mset_subseteq_mono subset_imp_msubset_mset_set) auto
  have same: "overdue ?t j = overdue s j" if "j \<noteq> i" for j
    using that fl by (simp add: overdue_def)
  have img: "image_mset (overdue ?t) (mset_set ?rest) = image_mset (overdue s) (mset_set ?rest)"
    using same by (intro image_mset_cong) auto
  show ?thesis
  proof (cases "at \<le> s_now s")
    case True
    have "due_set ?t = insert i ?rest" using fl True by (auto simp: due_set_def)
    then have "due_mset ?t = image_mset (overdue s) (mset_set ?rest) + {# overdue ?t i #}"
      using img mset_set.insert_remove [OF due_finite, of i s] by (simp add: due_mset_def)
    moreover have "overdue ?t i < unat (s_now s) - unat f"
      using fl at True f by (simp add: overdue_def word_less_nat_alt word_le_nat_alt)
    ultimately show ?thesis
      using rest due_same [OF schedule_same [of i at fn prm s]]
      by (intro exI [of _ "{# overdue ?t i #}"]) simp
  next
    case False
    then have "due_set ?t = ?rest" using fl by (auto simp: due_set_def)
    then have "due_mset ?t = image_mset (overdue s) (mset_set ?rest)"
      unfolding due_mset_def using img by simp
    then show ?thesis
      using rest due_same [OF schedule_same [of i at fn prm s]] by (intro exI [of _ "{#}"]) simp
  qed
qed

lemma due_act:
  assumes "queue_act (\<lambda>at. f < at) s t" "f \<le> s_now s"
  shows "\<exists>K. (\<forall>k\<in>#K. k < unat (s_now s) - unat f) \<and> due_mset t \<subseteq># due_mset s + K"
  using assms
proof (induction rule: queue_act.induct)
  case act_none
  then show ?case by (intro exI [of _ "{#}"]) simp
next
  case (act_schedule t at i fn prm)
  then obtain K where K: "\<forall>k\<in>#K. k < unat (s_now s) - unat f" "due_mset t \<subseteq># due_mset s + K" by blast
  have n: "s_now t = s_now s" using act_schedule.hyps(1) act_keeps_simps(1) by blast
  from due_schedule [OF act_schedule.hyps(3,2), of t fn prm] act_schedule.prems n
  obtain L where L: "\<forall>k\<in>#L. k < unat (s_now s) - unat f"
    "due_mset (schedule i at fn prm t) \<subseteq># due_mset t + L" by auto
  have "due_mset (schedule i at fn prm t) \<subseteq># due_mset s + (K + L)"
    using L(2) K(2) subset_mset.order_trans mset_subset_eq_mono_add_right_cancel
    by (metis add.assoc)
  then show ?case using K(1) L(1) by (intro exI [of _ "K + L"]) auto
next
  case (act_cancel t i)
  have "due_mset (cancel i t) \<subseteq># due_mset t"
    by (rule due_shrink) (auto simp: cancel_fields due_set_def)
  with act_cancel show ?case using subset_mset.order_trans by blast
next
  case (act_other t u)
  then show ?case using due_same by metis
qed

text \<open>Deadlines are 64-bit; \<open>later\<close> asks for a later deadline short of half the range, some
  four thousand years of emulated time, so that a handler may add to its deadline freely.\<close>

definition horizon :: u64 where "horizon = 0x8000000000000000"

definition later :: "u64 \<Rightarrow> u64 \<Rightarrow> bool" where "later x y \<longleftrightarrow> (if x < horizon then x < y else True)"

lemma later_below: "x < horizon \<Longrightarrow> later x = (\<lambda>y. x < y)"
  by (simp add: later_def fun_eq_iff)

lemma horizon_top: "x < horizon \<Longrightarrow> x < u64_max"
  using u64_max_top(1) [of horizon] by order

definition reschedules_later :: "('fn, 'w) sched_env \<Rightarrow> bool" where
  "reschedules_later env \<longleftrightarrow> handlers_act later env"

lemma fire_one_smaller:
  assumes act: "reschedules_later env" and i: "armed i s" "s_at s i \<le> s_now s" and h: "s_now s < horizon"
  shows "due_mset (fire_one env i s) < due_mset s"
proof -
  have i32: "i < 32" using armed_below [OF i(1)] .
  let ?w = "overdue s i" and ?rest = "image_mset (overdue s) (mset_set (due_set s - {i}))"
  have "i \<in> due_set s" using i by (simp add: due_set_def)
  then have s: "due_mset s = ?rest + {# ?w #}"
    unfolding due_mset_def using mset_set.remove [OF due_finite, of i s] by simp
  have d: "due_mset (disarm i s) = ?rest"
  proof -
    have "due_set (disarm i s) = due_set s - {i}" using i32 by (auto simp: due_set_def)
    moreover have "overdue (disarm i s) = overdue s" by (simp add: overdue_def fun_eq_iff)
    ultimately show ?thesis by (simp add: due_mset_def)
  qed
  have "queue_act (\<lambda>at. s_at s i < at) (disarm i s) (fire_one env i s)"
    using fire_one_act [of later env s i] act later_below [OF le_less_trans [OF i(2) h]]
    by (simp add: reschedules_later_def)
  from due_act [OF this] i(2) d obtain K where
    K: "\<forall>k\<in>#K. k < ?w" "due_mset (fire_one env i s) \<subseteq># ?rest + K" by (auto simp: overdue_def)
  have "(?rest + K, ?rest + {# ?w #}) \<in> mult {(x, y). x < y}"
    by (rule one_step_implies_mult) (use K(1) in auto)
  then have "?rest + K < due_mset s" by (simp add: s less_multiset_def multp_def)
  then show ?thesis using subset_eq_imp_le_multiset [OF K(2)] by order
qed

lemma pass_step_quiet:
  "\<not> (bit m i \<and> s_at s i \<le> s_now s) \<Longrightarrow> pass_step env i (s, m) = (t, m') \<Longrightarrow>
   s_at t = s_at s \<and> s_armed t = s_armed s \<and> s_now t = s_now s \<and> due_mset t = due_mset s \<and>
   (s_now s < s_next s \<longrightarrow> s_now t < s_next t)"
  using due_cong(2) [of t s] by (auto simp: pass_step_def not_le split: if_splits)

text \<open>A pass never adds to what is due, and takes something away if there is anything.\<close>

lemma pass_fold_smaller:
  assumes act: "reschedules_later env" and "i \<le> 32" "pass_inv i sm" "s_now (fst sm) < horizon"
  shows "due_mset (fst (fold (pass_step env) [i..<32] sm)) \<le> due_mset (fst sm) \<and>
    ((\<exists>j\<ge>i. j \<in> due_set (fst sm)) \<longrightarrow>
      due_mset (fst (fold (pass_step env) [i..<32] sm)) < due_mset (fst sm))"
  using assms(2-4)
proof (induction "32 - i" arbitrary: i sm)
  case 0
  then show ?case by (auto simp: due_set_def dest: armed_below)
next
  case (Suc k)
  then have i: "i < 32" and l: "[i..<32] = i # [Suc i..<32]" by (simp_all add: upt_rec [of i])
  obtain s m where sm: "sm = (s, m)" by fastforce
  obtain t m' where t: "pass_step env i (s, m) = (t, m')" by fastforce
  have bi: "bit m i = armed i s" using Suc.prems(2) by (simp add: pass_inv_def sm)
  have inv: "pass_inv (Suc i) (t, m')"
    using pass_step_inv(1) [of later env i sm] act i Suc.prems(2) by (simp add: reschedules_later_def sm t)
  have k: "k = 32 - Suc i" "Suc i \<le> 32" using Suc.hyps(2) by simp_all
  have h: "s_now s < horizon" using Suc.prems(3) by (simp add: sm)
  have n: "s_now t = s_now s"
    using pass_step_inv(2) [of later env i sm] act i Suc.prems(2) by (simp add: reschedules_later_def sm t)
  note IH = Suc.hyps(1) [OF k inv, unfolded fst_conv n, OF h]
  show ?case
  proof (cases "armed i s \<and> s_at s i \<le> s_now s")
    case True
    then have "t = fire_one env i s" using t bi by (simp add: pass_step_def Let_def)
    then have "due_mset t < due_mset s" using fire_one_smaller [OF act, of i s] True h by simp
    with IH show ?thesis by (auto simp: l sm t intro: less_imp_le le_less_trans)
  next
    case False
    note q = pass_step_quiet [OF _ t] 
    have same: "due_set t = due_set s" "due_mset t = due_mset s"
      using q False bi by (auto simp: due_set_def armed_def)
    have "Suc i \<le> j" if "j \<in> due_set s" "i \<le> j" for j
      using that False by (cases "j = i") (auto simp: due_set_def)
    with IH same show ?thesis by (auto simp: l sm t)
  qed
qed

lemma pass_fold_quiet:
  assumes "due_set (fst sm) = {}" "s_now (fst sm) < s_next (fst sm)" "i \<le> 32" "pass_inv i sm" "reschedules_later env"
  shows "s_now (fst (fold (pass_step env) [i..<32] sm)) < s_next (fst (fold (pass_step env) [i..<32] sm))"
  using assms(1-4)
proof (induction "32 - i" arbitrary: i sm)
  case (Suc k)
  then have i: "i < 32" and l: "[i..<32] = i # [Suc i..<32]" by (simp_all add: upt_rec [of i])
  obtain s m where sm: "sm = (s, m)" by fastforce
  obtain t m' where t: "pass_step env i (s, m) = (t, m')" by fastforce
  have bi: "bit m i = armed i s" using Suc.prems(4) by (simp add: pass_inv_def sm)
  have inv: "pass_inv (Suc i) (t, m')"
    using pass_step_inv(1) [of later env i sm] assms(5) i Suc.prems(4) by (simp add: reschedules_later_def sm t)
  have "\<not> (bit m i \<and> s_at s i \<le> s_now s)" using bi Suc.prems(1) by (auto simp: due_set_def sm)
  from pass_step_quiet [OF this t] Suc.prems(1,2) sm
  have "due_set t = {}" "s_now t < s_next t" by (auto simp: due_set_def armed_def)
  with Suc.hyps(1) [of "Suc i" "(t, m')"] Suc.hyps(2) i inv show ?case by (simp add: l sm t)
qed simp

lemma fire_loop_returns:
  assumes act: "reschedules_later env"
  shows "handlers_set s \<Longrightarrow> s_now s < horizon \<Longrightarrow> \<exists>fuel. fire_loop env fuel s \<noteq> None"
proof (induction "due_mset s" arbitrary: s rule: less_induct)
  case less
  let ?s = "s\<lparr> s_next := u64_max, s_next_id := EVENT_COUNT \<rparr>" and ?t = "fire_pass env s"
  have h: "handlers_act later env" using act by (simp add: reschedules_later_def)
  note top = horizon_top [OF less.prems(2)]
  have inv: "pass_inv 0 (?s, s_armed ?s)"
    using less.prems(1) by (auto simp: pass_inv_def pass_ok_def handlers_set_def armed_def)
  have d: "due_mset ?s = due_mset s" "due_set ?s = due_set s"
    using due_cong(1,2) [of ?s s] by simp_all
  have t: "?t = fst (fold (pass_step env) [0..<32] (?s, s_armed ?s))" by (simp add: fire_pass_def Let_def)
  note p = fire_pass_inv [OF h less.prems(1)]
  have step: "fire_loop env (Suc f) s = (if s_now s < s_next s then Some s else fire_loop env f ?t)" for f
    by (simp add: fire_loop.simps [of _ "Suc f"])
  have "\<exists>f. fire_loop env f ?t \<noteq> None"
  proof (cases "due_set s = {}")
    case True
    then have "s_now ?t < s_next ?t"
      using pass_fold_quiet [OF _ _ _ inv act] top d by (simp add: t)
    then show ?thesis by (intro exI [of _ 0]) (simp add: fire_loop.simps [of _ 0])
  next
    case False
    then have "due_mset ?t < due_mset s"
      using pass_fold_smaller [OF act _ inv] d less.prems(2) by (auto simp: t)
    moreover have "handlers_set ?t" using p(1) by (simp add: pass_ok_def)
    ultimately show ?thesis using less.hyps [of ?t] p(2) less.prems(2) by simp
  qed
  then obtain f where "fire_loop env f ?t \<noteq> None" ..
  then have "fire_loop env (Suc f) s \<noteq> None" by (simp add: step)
  then show ?case by blast
qed


section \<open>The queue is right from power-on\<close>

lemma reset_ok: "queue_ok (sched_reset s)"
  by (simp add: queue_ok_def next_lower_def next_named_def handlers_set_def sched_reset_def armed_def)

text \<open>However events have been scheduled and cancelled since power-on, the deadline the slice
  loop trusts is exactly the earliest deadline of an armed event (the largest time when
  nothing is armed), and the remembered event is one that has it.\<close>

theorem next_deadline_exact:
  assumes "queue_act P (sched_reset s) t"
  shows "s_next t = Min (insert u64_max (s_at t ` {i. armed i t})) \<and>
    (s_next t \<noteq> u64_max \<longrightarrow> armed (s_next_id t) t \<and> s_at t (s_next_id t) = s_next t)"
proof -
  have ok: "queue_ok t" using act_keeps_simps(3) [OF assms reset_ok] .
  have fin: "finite {i. armed i t}" using armed_below by (auto intro: finite_subset [of _ "{..<32}"])
  have "s_next t = u64_max \<or> s_next t \<in> s_at t ` {i. armed i t}"
    using ok by (force simp: queue_ok_def next_named_def)
  moreover have "\<And>x. x \<in> insert u64_max (s_at t ` {i. armed i t}) \<Longrightarrow> s_next t \<le> x"
    using ok by (auto simp: queue_ok_def next_lower_def)
  ultimately have "s_next t = Min (insert u64_max (s_at t ` {i. armed i t}))"
    using fin by (intro Min_eqI [symmetric]) auto
  then show ?thesis using ok by (simp add: queue_ok_def next_named_def)
qed

section \<open>Firing\<close>

lemma fire_due_settles:
  assumes "handlers_act P env" "queue_ok s" "fire_due env fuel s = Some t"
  shows "s_now t = s_now s \<and> (\<forall>i. armed i t \<longrightarrow> s_now t < s_at t i) \<and> queue_ok t"
proof -
  let ?s = "if e_ipc_pending env s then e_ipc_deliver env s else s"
  have "queue_act (\<lambda>_. True) s ?s" using assms(1) by (simp add: handlers_act_def act_none)
  from act_keeps_simps(1,3) [OF this] assms(2) have s: "s_now ?s = s_now s" "queue_ok ?s" by auto
  have "fire_loop env fuel ?s = Some t" using assms(3) by (simp only: fire_due_def)
  from fire_loop_result [OF assms(1) this] s have "queue_ok t" "s_now t = s_now s" "s_now t < s_next t" by auto
  moreover have "armed i t \<Longrightarrow> s_next t \<le> s_at t i" for i
    using \<open>queue_ok t\<close> by (simp add: queue_ok_def next_lower_def)
  ultimately show ?thesis using order.strict_trans2 by blast
qed

lemma fire_due_comes_back:
  assumes "reschedules_later env" "queue_ok s" "s_now s < horizon"
  shows "\<exists>fuel. fire_due env fuel s \<noteq> None"
proof -
  let ?s = "if e_ipc_pending env s then e_ipc_deliver env s else s"
  have "queue_act (\<lambda>_. True) s ?s"
    using assms(1) by (simp add: reschedules_later_def handlers_act_def act_none)
  from act_keeps_simps(1,3) [OF this] assms(2,3)
  have "s_now ?s < horizon" "handlers_set ?s" by (auto simp: queue_ok_def)
  from fire_loop_returns [OF assms(1) this(2,1)] show ?thesis by (simp only: fire_due_def)
qed

text \<open>C8: When \<^verbatim>\<open>fire_due\<close> returns, no armed event is due any more, whatever the handlers it
  called scheduled or cancelled in between, the time has not moved, and the cached deadline
  is again the exact minimum.\<close>

theorem fire_due_exact:
  assumes "handlers_act P env" "queue_ok s" "fire_due env fuel s = Some t"
  shows "s_now t = s_now s \<and> (\<forall>i. armed i t \<longrightarrow> s_now t < s_at t i) \<and> queue_ok t"
  using assms by (rule fire_due_settles)

text \<open>\<^verbatim>\<open>fire_due\<close> returns, although a handler may re-arm its own event and others in the
  past: it is enough that no handler schedules an event at or before the deadline it is
  being fired for (short of the horizon, where 64-bit deadlines could wrap).  The measure
  is the multiset of how overdue each due event is.\<close>

theorem fire_due_returns:
  assumes "reschedules_later env" "queue_ok s" "s_now s < horizon"
  shows "\<exists>fuel. fire_due env fuel s \<noteq> None"
  using assms by (rule fire_due_comes_back)

section \<open>The clock inside a slice\<close>

lemma shift_u64:
  assumes "0 \<le> c" "c < 2 ^ 64"
  shows "drop_bit k (word_of_int c :: u64) = word_of_int (c div 2 ^ k)"
proof -
  have tb: "take_bit 64 c = c" using assms by (simp add: take_bit_int_eq_self)
  have u: "uint (word_of_int c :: u64) = c" using assms by (simp add: uint_word_of_int)
  have "uint (drop_bit k (word_of_int c :: u64)) = drop_bit k c"
    using unsigned_drop_bit_eq [of k "word_of_int c :: u64", where 'a = int] tb unfolding u by simp
  then have "uint (drop_bit k (word_of_int c :: u64)) = c div 2 ^ k" by (simp only: drop_bit_eq_div)
  then show ?thesis by (metis word_of_int_uint)
qed

text \<open>The state a running DSi ARM9 is in between instructions, outside a DMA.\<close>

definition in_slice9 :: "('fn, 'w) sched \<Rightarrow> bool" where
  "in_slice9 s \<longleftrightarrow> s_dsi s \<and> s_running s = Some ARM9 \<and> s_rshift s = s_shift9 s + 1 \<and> s_dma_used s = 0 \<and>
     s_carry s = word_of_int (s_arm9_carry s)"

definition core_cycles :: "('fn, 'w) sched \<Rightarrow> int" where
  "core_cycles s = s_start_budget s - budget (s_a9 s) - preempt_residual (s_a9 s) + s_arm9_carry s"

lemma now_in_slice:
  assumes "in_slice9 s" "0 \<le> core_cycles s" "core_cycles s < 2 ^ 64"
  shows "now s = s_base s + word_of_int (2 * (core_cycles s div 2 ^ (s_shift9 s + 1)))"
proof -
  have "consumed ARM9 s + s_carry s = word_of_int (core_cycles s)"
    using assms(1) by (simp add: in_slice9_def consumed_def core_cycles_def)
  then show ?thesis
    using assms shift_u64 [OF assms(2,3), of "s_shift9 s + 1"]
    by (simp add: now_def in_slice9_def push_bit_eq_mult)
qed

text \<open>On a DSi, writing SCFG_CLK9 mid-slice moves no time: flooring the ARM9's clock to a
  system cycle leaves what \<^verbatim>\<open>now()\<close> answers unchanged, and re-expressing the slice in the
  new core clock (134 or 67 MHz, either direction) leaves it unchanged as well.\<close>

theorem clock_switch_keeps_time:
  assumes "in_slice9 s" "0 \<le> core_cycles s" "core_cycles s < 2 ^ 62" "s_shift9 s \<le> 1" "ts \<in> {1, 2}"
  shows "now (floor_arm9_clock s) = now s \<and> now (set_clock9_shift ts s) = now s"
proof
  let ?c = "core_cycles s" and ?k = "s_shift9 s + 1"
  have now: "now s = s_base s + word_of_int (2 * (?c div 2 ^ ?k))"
    using assms by (intro now_in_slice) auto
  let ?f = "floor_arm9_clock s"
  have m: "?c AND (2 ^ ?k - 1) = ?c mod 2 ^ ?k"
    using take_bit_eq_mask [of ?k ?c] by (simp add: take_bit_eq_mod mask_eq_exp_minus_1)
  have f: "in_slice9 ?f" "s_base ?f = s_base s" "s_shift9 ?f = s_shift9 s" "core_cycles ?f = ?c - ?c mod 2 ^ ?k"
    using assms(1) m by (auto simp: floor_arm9_clock_def running_is_def in_slice9_def core_cycles_def add_budget_def
        set_budget_def budget_def Let_def)
  define r where "r = ?c mod 2 ^ ?k"
  have "0 \<le> r" "r \<le> ?c" using assms(2) by (simp_all add: r_def zmod_le_nonneg_dividend)
  then have le: "0 \<le> core_cycles ?f" "core_cycles ?f < 2 ^ 64"
    using assms(3) unfolding f(4) r_def [symmetric] by simp_all
  show "now ?f = now s"
    unfolding now now_in_slice [OF f(1) le] f(2,3,4) by (simp add: minus_mod_eq_mult_div)
next
  let ?c = "core_cycles s" and ?k = "s_shift9 s + 1" and ?ns = "ts - 1"
  let ?t = "set_clock9_shift ts s"
  have now: "now s = s_base s + word_of_int (2 * (?c div 2 ^ ?k))"
    using assms by (intro now_in_slice) auto
  show "now ?t = now s"
  proof (cases "?ns = s_shift9 s")
    case True
    then show ?thesis using assms(1) by (simp add: set_clock9_shift_def now_def consumed_def in_slice9_def)
  next
    case False
    have t: "in_slice9 ?t" "s_base ?t = s_base s" "s_shift9 ?t = ?ns" "core_cycles ?t = (?c div 2 ^ ?k) * 2 ^ (?ns + 1)"
      using assms(1) False
      by (auto simp: set_clock9_shift_def running_is_def in_slice9_def core_cycles_def
          set_budget_def budget_def Let_def push_bit_eq_mult drop_bit_eq_div)
    have ns: "(2::int) ^ (?ns + 1) \<le> 4" using assms(5) by auto
    have "?c div 2 ^ ?k \<le> ?c" "0 \<le> ?c div 2 ^ ?k"
      using assms(2) zdiv_mono2 [of ?c 1 "2 ^ ?k"] one_le_power [of "2::int" ?k]
      by (simp_all add: pos_imp_zdiv_nonneg_iff del: power_Suc)
    then have "core_cycles ?t \<le> ?c * 4" "0 \<le> core_cycles ?t"
      using ns mult_mono [of "?c div 2 ^ ?k" ?c "2 ^ (?ns + 1)" 4] assms(2) by (simp_all add: t(4))
    then have le: "0 \<le> core_cycles ?t" "core_cycles ?t < 2 ^ 64" using assms(3) by simp_all
    show ?thesis unfolding now now_in_slice [OF t(1) le] t(2,3,4) by simp
  qed
qed


section \<open>Settling one device\<close>

lemma settle_step:
  assumes "armed i s" "s_at s i \<le> until"
  shows "settle_loop env i until (Suc fuel) s =
    settle_loop env i until fuel (call_handler env i ((cancel i s)\<lparr> s_firing_at := s_at s i \<rparr>))"
proof -
  have "cancel i s = (let s1 = s\<lparr> s_armed := s_armed s AND NOT (push_bit i 1) \<rparr>
      in if s_next_id s1 = i then rescan_queue s1 else s1)"
    using assms(1) by (simp only: cancel_def not_True_eq_False if_False simp_thms)
  then show ?thesis
    using assms unfolding settle_loop.simps [of _ _ _ "Suc fuel"] by (simp add: Let_def)
qed

lemma settle_loop_result:
  assumes act: "handlers_act P env"
  shows "settle_loop env i until fuel s = Some t \<Longrightarrow> queue_ok s \<Longrightarrow>
    queue_ok t \<and> s_now t = s_now s \<and> (armed i t \<longrightarrow> until < s_at t i)"
proof (induction fuel arbitrary: s)
  case 0
  then show ?case by (auto simp: settle_loop.simps [of _ _ _ 0] not_le split: if_splits)
next
  case (Suc fuel)
  show ?case
  proof (cases "armed i s \<and> s_at s i \<le> until")
    case True
    let ?c = "cancel i s" and ?u = "(cancel i s)\<lparr> s_firing_at := s_at s i \<rparr>"
    have r: "settle_loop env i until fuel (call_handler env i ?u) = Some t"
      using Suc.prems(1) True by (simp add: settle_step)
    note q = act_keeps_simps(1,3) [OF handler_act [OF act, of ?u i]]
    have "queue_ok ?u" "s_now ?u = s_now s"
      using ok_cancel [OF Suc.prems(2), of i] queue_same(3) [of ?c ?u] by (simp_all add: same_queue_def cancel_fields)
    with Suc.IH [OF r] q show ?thesis by simp
  next
    case False
    then show ?thesis
      using Suc.prems by (auto simp: settle_loop.simps [of _ _ _ "Suc fuel"] not_le split: if_splits)
  qed
qed

lemma settle_result:
  assumes "handlers_act P env" "queue_ok s" "settle env fuel i s = Some t"
  shows "queue_ok t \<and> (armed i t \<longrightarrow> now s < s_at t i) \<and> s_firing_at t = s_firing_at s \<and> s_now t = s_now s"
proof -
  obtain u where u: "settle_loop env i (now s) fuel s = Some u" "t = u\<lparr> s_firing_at := s_firing_at s \<rparr>"
    using assms(3) by (auto simp: settle_def)
  note r = settle_loop_result [OF assms(1) u(1) assms(2)]
  have "same_queue u t" by (simp add: u(2) same_queue_def)
  with r queue_same [of u t] show ?thesis by (simp add: u(2) same_queue_def)
qed

text \<open>Handlers that only schedule later than the deadline they are fired for leave the device's next event
  later each round, so the loop ends.\<close>

lemma act_deadline:
  "queue_act (\<lambda>at. f < at) s t \<Longrightarrow> armed i t \<Longrightarrow> f < s_at t i \<or> armed i s \<and> s_at t i = s_at s i"
proof (induction rule: queue_act.induct)
  case (act_schedule t at j fn prm)
  have "s_at (schedule j at fn prm t) i = (if i = j then at else s_at t i)"
    "armed i (schedule j at fn prm t) \<longleftrightarrow> i = j \<or> armed i t"
    using schedule_same [of j at fn prm t] schedule_queue_fields(1) [OF act_schedule.hyps(3), of at fn prm t]
      schedule_queue_fields(2) [OF act_schedule.hyps(3), of i at fn prm t] by (auto simp: same_queue_def armed_def)
  then show ?case using act_schedule by (auto split: if_splits)
next
  case (act_cancel t j)
  then show ?case by (simp add: cancel_fields)
next
  case (act_other t u)
  then show ?case by (simp add: same_queue_def armed_def)
qed simp

lemma settle_done: "\<not> (armed i s \<and> s_at s i \<le> until) \<Longrightarrow> settle_loop env i until k s = Some s"
  by (cases k) (auto simp: settle_loop.simps)

lemma settle_fuel: "settle_loop env i until k s = Some t \<Longrightarrow> settle_loop env i until (k + n) s = Some t"
proof (induction k arbitrary: s)
  case 0
  then have "s = t" "\<not> (armed i s \<and> s_at s i \<le> until)" by (simp_all add: settle_loop.simps [of _ _ _ 0] split: if_splits)
  then show ?case by (cases n) (auto simp: settle_loop.simps)
next
  case (Suc k)
  show ?case
  proof (cases "armed i s \<and> s_at s i \<le> until")
    case True
    then show ?thesis using Suc.IH Suc.prems by (simp add: settle_step)
  next
    case False
    then show ?thesis using Suc.prems settle_done [OF False] by (simp del: add_Suc)
  qed
qed

lemma settle_loop_returns:
  assumes act: "reschedules_later env" and u: "until < horizon"
  shows "unat until < unat (s_at s i) + k \<Longrightarrow> settle_loop env i until k s \<noteq> None"
proof (induction k arbitrary: s)
  case 0
  then show ?case by (simp add: settle_loop.simps [of _ _ _ 0] word_le_nat_alt)
next
  case (Suc k)
  show ?case
  proof (cases "armed i s \<and> s_at s i \<le> until")
    case True
    let ?u = "(cancel i s)\<lparr> s_firing_at := s_at s i \<rparr>"
    let ?t = "call_handler env i ?u"
    have "queue_act (later (s_at s i)) ?u ?t"
      using handler_act [of later env ?u i] act by (simp add: reschedules_later_def)
    then have q: "queue_act (\<lambda>at. s_at s i < at) ?u ?t"
      using later_below [OF le_less_trans [OF conjunct2 [OF True] u]] by simp
    have n: "\<not> armed i ?u" using cancel_fields(2) [of i i s] by (simp add: armed_def)
    have "settle_loop env i until k ?t \<noteq> None"
    proof (cases "armed i ?t")
      case armed: True
      then have "unat (s_at s i) < unat (s_at ?t i)" using act_deadline [OF q armed] n by (simp add: word_less_nat_alt)
      then show ?thesis using Suc by (intro Suc.IH) simp
    next
      case False
      then show ?thesis by (cases k) (simp_all add: settle_loop.simps)
    qed
    then show ?thesis using True by (simp add: settle_step)
  next
    case False
    then show ?thesis using settle_done [OF False] by simp
  qed
qed

text \<open>C9: Settling a device before one of its registers is accessed.  It returns, although the device's
  handler may re-arm its event in the past, when no handler schedules an event at or before the deadline
  it is being fired for; then the device has no event left that was due by the current time (the
  running CPU's position in the slice included), the queue is intact, and a handler that is itself
  being fired still sees its own deadline.\<close>

theorem settle_exact:
  assumes "reschedules_later env" "queue_ok s" "now s < horizon"
  shows "\<exists>k t. (\<forall>n. settle env (k + n) i s = Some t) \<and>
    queue_ok t \<and> (armed i t \<longrightarrow> now s < s_at t i) \<and> s_firing_at t = s_firing_at s \<and> s_now t = s_now s"
proof -
  obtain k u where u: "settle_loop env i (now s) k s = Some u"
    using settle_loop_returns [OF assms(1,3), of s i "unat (now s) + 1"] by fastforce
  let ?t = "u\<lparr> s_firing_at := s_firing_at s \<rparr>"
  have r: "settle env (k + n) i s = Some ?t" for n
    using settle_fuel [OF u, of n] by (simp add: settle_def)
  from settle_result [OF assms(1) [unfolded reschedules_later_def] assms(2) r [of 0]] r show ?thesis by blast
qed

section \<open>A concrete machine\<close>

text \<open>A periodic timer: its handler re-arms its own event one period after the deadline.\<close>

definition period :: u64 where "period = 100"

definition tick :: "unit \<Rightarrow> u32 \<Rightarrow> (unit, unit) sched \<Rightarrow> (unit, unit) sched" where
  "tick fn prm s =
     (if s_firing_at s < s_firing_at s + period then schedule 2 (s_firing_at s + period) fn prm s else s)"

definition quiet_env :: "('f, 'r) sched_env" where
  "quiet_env = \<lparr> e_call = (\<lambda>_ _ s. s), e_ipc_pending = (\<lambda>_. False), e_ipc_deliver = id, e_dma_any = (\<lambda>_ _. False),
     e_dma_run = (\<lambda>_ _ s. (0, s)), e_run = (\<lambda>_ s. s), e_in_idle_loop = (\<lambda>_ _ _. False),
     e_swap_pending = (\<lambda>_. False), e_gx_idle = (\<lambda>_. True), e_spi_busy = (\<lambda>_. False),
     e_spi_ready_at = (\<lambda>_. 0), e_soft_reset_pending = (\<lambda>_. False), e_soft_reset = id,
     e_frame_ready = (\<lambda>_. False) \<rparr>"

definition tick_env :: "(unit, unit) sched_env" where
  "tick_env = quiet_env\<lparr> e_call := tick \<rparr>"

definition sched_with :: "'r \<Rightarrow> ('f, 'r) sched" where
  "sched_with r = \<lparr> s_now = 0, s_next = u64_max, s_next_id = EVENT_COUNT, s_firing_at = 0, s_at = (\<lambda>_. 0),
     s_fn = (\<lambda>_. None), s_param = (\<lambda>_. 0), s_armed = 0, s_in_dma = False, s_dma_used = 0,
     s_a9_dma_iter = False, s_idle_skip = 1, s_idle_cut = False, s_cut_pc = (\<lambda>_ _. 0), s_cut_h = (\<lambda>_ _. 0),
     s_cut_pos = (\<lambda>_. 0), s_cut_idle = (\<lambda>_. False), s_cut_held = (\<lambda>_. 0), s_running = None,
     s_start_budget = 0, s_shift = 0, s_rshift = 0, s_base = 0, s_carry = 0, s_arm7_debt = 0,
     s_dsi = False, s_shift9 = 0, s_arm9_carry = 0, s_slice_margin = 0, s_cut_on_schedule = False,
     s_slice_end = 0, s_budget9 = 0, s_spi_ring = (\<lambda>_. 0), s_spi_pos = 0, s_idle_ring = (\<lambda>_ _. 0),
     s_idle_pos = (\<lambda>_. 0), s_a9 = zero_cpu, s_a7 = zero_cpu\<lparr> which := ARM7 \<rparr>, s_rest = r \<rparr>"

definition idle_sched :: "(unit, unit) sched" where
  "idle_sched = sched_with ()"

text \<open>The timer armed at 50, the time at 320: three ticks are due.\<close>

definition overdue_sched :: "(unit, unit) sched" where
  "overdue_sched = (schedule 2 50 () 0 idle_sched)\<lparr> s_now := 320 \<rparr>"

lemma tick_later: "reschedules_later tick_env" "handlers_act later tick_env"
proof -
  show "handlers_act later tick_env"
    by (auto simp: handlers_act_def tick_env_def quiet_env_def tick_def later_def EVENT_COUNT_def intro: act_none act_schedule)
  then show "reschedules_later tick_env" by (simp add: reschedules_later_def)
qed

lemma with_reset: "sched_reset (sched_with r) = sched_with r"
  by (simp add: sched_reset_def sched_with_def)

lemma idle_reset: "sched_reset idle_sched = idle_sched"
  by (simp add: idle_sched_def with_reset)

lemma ok_at_time: "queue_ok s \<Longrightarrow> queue_ok (s\<lparr> s_now := t \<rparr>)"
  by (simp add: queue_ok_def next_lower_def next_named_def handlers_set_def armed_def)

lemma overdue_ok: "queue_ok overdue_sched" "s_now overdue_sched = 320"
proof -
  have "queue_ok (schedule 2 50 () 0 idle_sched)"
    using ok_schedule [of 2 idle_sched] reset_ok [of idle_sched] by (simp add: idle_reset EVENT_COUNT_def)
  then show "queue_ok overdue_sched"
    by (simp add: queue_ok_def next_lower_def next_named_def handlers_set_def overdue_sched_def armed_def)
qed (simp add: overdue_sched_def)


theorem next_deadline_exact_witness:
  "s_next (schedule 3 40 () 0 (schedule 2 50 () 0 idle_sched)) =
     Min (insert u64_max (s_at (schedule 3 40 () 0 (schedule 2 50 () 0 idle_sched)) `
       {i. armed i (schedule 3 40 () 0 (schedule 2 50 () 0 idle_sched))}))"
proof -
  have "queue_act (\<lambda>_. True) (sched_reset idle_sched) (schedule 3 40 () 0 (schedule 2 50 () 0 idle_sched))"
    unfolding idle_reset by (intro act_schedule act_none) (simp_all add: EVENT_COUNT_def)
  then show ?thesis by (rule next_deadline_exact [THEN conjunct1])
qed

theorem fire_due_exact_witness:
  "\<exists>fuel t. fire_due tick_env fuel overdue_sched = Some t \<and> s_now t = 320 \<and> (\<forall>i. armed i t \<longrightarrow> 320 < s_at t i)"
proof -
  have "s_now overdue_sched < horizon" "handlers_set overdue_sched"
    using overdue_ok by (simp_all add: queue_ok_def horizon_def)
  from fire_loop_returns [OF tick_later(1) this(2,1)] obtain fuel t
    where "fire_due tick_env fuel overdue_sched = Some t" by (auto simp: fire_due_def tick_env_def quiet_env_def)
  with fire_due_exact [OF tick_later(2) overdue_ok(1) this] overdue_ok(2) show ?thesis by metis
qed

theorem fire_due_returns_witness:
  "\<exists>fuel. fire_due tick_env fuel overdue_sched \<noteq> None"
  using fire_due_returns [OF tick_later(1) overdue_ok(1)] overdue_ok(2) by (simp add: horizon_def)

lemma rescan_running: "s_running (rescan_queue s) = s_running s"
  by (simp add: rescan_queue_def split: prod.split)

lemma cut_arm9_running: "s_running (cut_arm9_at at s) = s_running s"
  by (simp add: cut_arm9_at_def Let_def)

lemma schedule_running: "s_running (schedule i at fn prm s) = s_running s"
  by (simp add: schedule_def Let_def rescan_running cut_arm9_running)

text \<open>At 120 one tick is due.\<close>

definition one_due :: "(unit, unit) sched" where
  "one_due = overdue_sched\<lparr> s_now := 120 \<rparr>"

lemma one_due_fields:
  "armed 2 one_due" "s_at one_due 2 = 50" "s_fn one_due 2 = Some ()" "now one_due = 120" "queue_ok one_due"
proof -
  let ?q = "schedule_queue 2 50 () 0 idle_sched"
  have "same_queue ?q (schedule 2 50 () 0 idle_sched)" by (rule schedule_same)
  then have f: "s_at one_due = s_at ?q" "s_armed one_due = s_armed ?q" "s_fn one_due = s_fn ?q"
    by (simp_all add: one_due_def overdue_sched_def same_queue_def)
  have e: "2 < EVENT_COUNT" by (simp add: EVENT_COUNT_def)
  show "armed 2 one_due" "s_at one_due 2 = 50" "s_fn one_due 2 = Some ()"
    using f schedule_queue_fields [OF e, where at = 50 and fn = "()" and prm = 0 and s = idle_sched]
    by (simp_all add: armed_def)
  show "queue_ok one_due"
    using overdue_ok(1) by (simp add: one_due_def queue_ok_def next_lower_def next_named_def handlers_set_def armed_def)
  have "s_running (schedule 2 50 () 0 idle_sched) = None"
    by (simp add: schedule_running) (simp add: idle_sched_def sched_with_def)
  then show "now one_due = 120" by (simp add: now_def one_due_def overdue_sched_def)
qed

theorem settle_exact_witness:
  "\<exists>k t. (\<forall>n. settle tick_env (k + n) 2 one_due = Some t) \<and> (armed 2 t \<longrightarrow> 120 < s_at t 2)"
  using settle_exact [OF tick_later(1) one_due_fields(5), of 2] one_due_fields(4) by (auto simp: horizon_def)

text \<open>A DSi ARM9 at 67 MHz, 13 core cycles into its slice.\<close>

definition dsi_sched :: "(unit, unit) sched" where
  "dsi_sched = idle_sched\<lparr> s_dsi := True, s_running := Some ARM9, s_rshift := 1, s_start_budget := 100,
     s_budget9 := 100, s_a9 := set_budget 87 zero_cpu \<rparr>"

theorem clock_switch_keeps_time_witness:
  "now (set_clock9_shift 2 dsi_sched) = now dsi_sched"
proof -
  have "in_slice9 dsi_sched" "core_cycles dsi_sched = 13" "s_shift9 dsi_sched = 0"
    by (simp_all add: in_slice9_def core_cycles_def dsi_sched_def idle_sched_def sched_with_def zero_cpu_def zero_hot_def
        set_budget_def budget_def)
  with clock_switch_keeps_time [of dsi_sched 2] show ?thesis by simp
qed

end
