(* ===== verification/ArEngine.thy ===== *)
theory ArEngine imports CpuMem "HOL-Library.AList" begin

text \<open>
  The Action Replay engine (\<^verbatim>\<open>src/core/cheat/ar_engine.cpp\<close>, \<^verbatim>\<open>.h\<close>): the code interpreter
  with its condition stack, loops and block writes, the journal of what an analog code
  overwrote, its reversal, and the once-a-frame run.  It reaches guest memory through the
  bus's DMA accessors (\<^verbatim>\<open>src/core/mem/bus.cpp\<close>), modelled here over the page table and host
  bytes of the ARM7; an unmapped address goes to the device parameters of the environment.

  The journal (an \<^verbatim>\<open>unordered_map\<close> in the code) is an association list with distinct keys,
  so an iteration order is fixed; nothing proved depends on which.  The interpreter is given
  the machine in \<open>ar_state\<close> and carries its step bound \<^verbatim>\<open>MAX_STEPS\<close> as the code does.
\<close>

section \<open>The bus's DMA accessors\<close>

definition dma_read8 :: "'io env \<Rightarrow> u32 \<Rightarrow> 'io mach \<Rightarrow> u8 \<times> 'io mach" where
  "dma_read8 env addr m =
     (case read_ptr (cpu m) addr of
        Some p \<Rightarrow> (ld8 (host m) p, m)
      | None \<Rightarrow> (let (v, m1) = bus_io_read env addr 8 m in (ucast v, m1)))"

definition dma_read16 :: "'io env \<Rightarrow> u32 \<Rightarrow> 'io mach \<Rightarrow> u16 \<times> 'io mach" where
  "dma_read16 env addr0 m =
     (let addr = addr0 AND NOT 1 in
      case read_ptr (cpu m) addr of
        Some p \<Rightarrow> (ld16 (host m) p, m)
      | None \<Rightarrow> (let (v, m1) = bus_io_read env addr 16 m in (ucast v, m1)))"

definition dma_read32 :: "'io env \<Rightarrow> u32 \<Rightarrow> 'io mach \<Rightarrow> u32 \<times> 'io mach" where
  "dma_read32 env addr0 m =
     (let addr = addr0 AND NOT 3 in
      case read_ptr (cpu m) addr of
        Some p \<Rightarrow> (ld32 (host m) p, m)
      | None \<Rightarrow> bus_io_read env addr 32 m)"

definition dma_write8 :: "'io env \<Rightarrow> u32 \<Rightarrow> u8 \<Rightarrow> 'io mach \<Rightarrow> 'io mach" where
  "dma_write8 env addr v m =
     (case write_ptr (cpu m) addr of
        Some (p, code) \<Rightarrow> store_host env p code 1 (st8 p v) m
      | None \<Rightarrow> bus_io_write env addr 8 (ucast v) m)"

definition dma_write16 :: "'io env \<Rightarrow> u32 \<Rightarrow> u16 \<Rightarrow> 'io mach \<Rightarrow> 'io mach" where
  "dma_write16 env addr0 v m =
     (let addr = addr0 AND NOT 1 in
      case write_ptr (cpu m) addr of
        Some (p, code) \<Rightarrow> store_host env p code 2 (st16 p v) m
      | None \<Rightarrow> bus_io_write env addr 16 (ucast v) m)"

definition dma_write32 :: "'io env \<Rightarrow> u32 \<Rightarrow> u32 \<Rightarrow> 'io mach \<Rightarrow> 'io mach" where
  "dma_write32 env addr0 v m =
     (let addr = addr0 AND NOT 3 in
      case write_ptr (cpu m) addr of
        Some (p, code) \<Rightarrow> store_host env p code 4 (st32 p v) m
      | None \<Rightarrow> bus_io_write env addr 32 v m)"

section \<open>Codes\<close>

record code =
  c_name :: string
  c_description :: string
  c_group :: int
  c_enabled :: bool
  c_analog :: bool
  c_words :: "u32 list"

definition is_note :: "code \<Rightarrow> bool" where
  "is_note c \<longleftrightarrow> c_words c = []"

text \<open>\<^verbatim>\<open>name.find("Nub") != npos\<close>.\<close>

fun has_prefix :: "string \<Rightarrow> string \<Rightarrow> bool" where
  "has_prefix [] s = True"
| "has_prefix (p # ps) [] = False"
| "has_prefix (p # ps) (c # s) = (p = c \<and> has_prefix ps s)"

fun contains :: "string \<Rightarrow> string \<Rightarrow> bool" where
  "contains p [] = has_prefix p []"
| "contains p (c # s) = (has_prefix p (c # s) \<or> contains p s)"

definition analog_nub :: "code \<Rightarrow> bool" where
  "analog_nub c \<longleftrightarrow> c_analog c \<and> contains ''Nub'' (c_name c)"

definition ror32 :: "u32 \<Rightarrow> u32 \<Rightarrow> u32" where
  "ror32 v n =
     (let k = unat (n AND 31)
      in if k \<noteq> 0 then drop_bit k v OR push_bit (32 - k) v else v)"

text \<open>FNV-1a over a code's words.\<close>

definition code_id :: "code \<Rightarrow> u32" where
  "code_id c = fold (\<lambda>w h. (h XOR w) * 16777619) (c_words c) 2166136261"

text \<open>Pairs of words a block of \<open>b\<close> bytes takes.\<close>

definition block_pairs :: "u32 \<Rightarrow> nat" where
  "block_pairs b = (unat b + 7) div 8"

definition ldrsh_imm :: "u32 \<Rightarrow> u32 option" where
  "ldrsh_imm w =
     (if w AND 0x0FF000F0 \<noteq> 0x01D000F0 then None
      else Some ((drop_bit 4 w AND 0xF0) OR (w AND 0xF)))"

function extended_from :: "u32 list \<Rightarrow> nat \<Rightarrow> bool" where
  "extended_from w pc =
     (if pc + 1 < length w then
        (let a = w ! pc; b = w ! (pc + 1); pc2 = pc + 2 in
         if drop_bit 28 a \<noteq> 0xE then extended_from w pc2
         else
           (let stop = min (pc2 + block_pairs b * 2) (length w) in
            if list_ex (\<lambda>k. ldrsh_imm (w ! k) = Some 6 \<or> ldrsh_imm (w ! k) = Some 8) [pc2..<stop]
            then True
            else extended_from w (max pc2 stop)))
      else False)"
  by pat_completeness auto
termination by (relation "measure (\<lambda>(w, pc). length w - pc)") (auto simp: Let_def)

declare extended_from.simps [simp del]

definition reads_extended_analog :: "code \<Rightarrow> bool" where
  "reads_extended_analog c = extended_from (c_words c) 0"

record analog_req =
  r_schemes :: nat
  r_nub :: bool
  r_extended :: bool
  r_name :: "string option"

definition analog_one :: "code \<Rightarrow> analog_req \<Rightarrow> analog_req" where
  "analog_one c r =
     (if \<not> c_enabled c \<or> \<not> c_analog c then r
      else \<lparr> r_schemes = r_schemes r + 1, r_nub = r_nub r \<or> analog_nub c,
             r_extended = r_extended r \<or> reads_extended_analog c, r_name = Some (c_name c) \<rparr>)"

definition analog_request :: "code list \<Rightarrow> analog_req" where
  "analog_request cs =
     fold analog_one cs \<lparr> r_schemes = 0, r_nub = False, r_extended = False, r_name = None \<rparr>"

datatype stop = StopOk | BadOpcode | Truncated | Unsupported | RunawayLoop

fun stop_name :: "stop \<Rightarrow> string" where
  "stop_name StopOk = ''ok''"
| "stop_name BadOpcode = ''bad opcode''"
| "stop_name Truncated = ''code ends mid-instruction''"
| "stop_name Unsupported = ''unsupported opcode C4''"
| "stop_name RunawayLoop = ''runaway loop''"

section \<open>The journal\<close>

record original =
  o_value :: u8
  o_wrote :: u8
  o_writers :: "nat list"

type_synonym journal = "(u32 \<times> original) list"

text \<open>What the engine works on while a code runs: the machine and the journal.\<close>

type_synonym 'io ar = "'io mach \<times> journal"

definition new_original :: original where
  "new_original = \<lparr> o_value = 0, o_wrote = 0, o_writers = [] \<rparr>"

text \<open>\<^verbatim>\<open>originals_[a]\<close> and \<^verbatim>\<open>try_emplace\<close>: the entry, or a fresh one.\<close>

definition entry_of :: "u32 \<Rightarrow> journal \<Rightarrow> original" where
  "entry_of a j = (case map_of j a of Some e \<Rightarrow> e | None \<Rightarrow> new_original)"

definition note_before :: "'io env \<Rightarrow> nat \<Rightarrow> u32 \<Rightarrow> 'io ar \<Rightarrow> 'io ar" where
  "note_before env index a s =
     (let (m, j) = s;
          (e, m1) = (case map_of j a of
                       Some e \<Rightarrow> (e, m)
                     | None \<Rightarrow> (let (v, m1) = dma_read8 env a m in (new_original\<lparr> o_value := v \<rparr>, m1)));
          e1 = (if index \<in> set (o_writers e) then e else e\<lparr> o_writers := o_writers e @ [index] \<rparr>)
      in (m1, AList.update a e1 j))"

definition note_after :: "'io env \<Rightarrow> u32 \<Rightarrow> 'io ar \<Rightarrow> 'io ar" where
  "note_after env a s =
     (let (m, j) = s; (v, m1) = dma_read8 env a m
      in (m1, AList.update a ((entry_of a j)\<lparr> o_wrote := v \<rparr>) j))"

text \<open>\<^verbatim>\<open>for (a = addr; a < addr + len; ++a)\<close>, with the 32-bit comparison.\<close>

definition span :: "u32 \<Rightarrow> nat \<Rightarrow> u32 list" where
  "span addr len = (if addr < addr + of_nat len then map (\<lambda>k. addr + of_nat k) [0..<len] else [])"

text \<open>\<open>track\<close> is the index of an analog code, \<open>None\<close> for a write that is not journaled.\<close>

definition journaled :: "'io env \<Rightarrow> nat option \<Rightarrow> u32 \<Rightarrow> nat \<Rightarrow> ('io mach \<Rightarrow> 'io mach) \<Rightarrow> 'io ar \<Rightarrow> 'io ar" where
  "journaled env track addr len st s =
     (case track of
        None \<Rightarrow> (st (fst s), snd s)
      | Some index \<Rightarrow>
          (let (m1, j1) = fold (note_before env index) (span addr len) s
           in fold (note_after env) (span addr len) (st m1, j1)))"

definition ar_write32 :: "'io env \<Rightarrow> nat option \<Rightarrow> u32 \<Rightarrow> u32 \<Rightarrow> 'io ar \<Rightarrow> 'io ar" where
  "ar_write32 env track addr v = journaled env track (addr AND NOT 3) 4 (dma_write32 env addr v)"

definition ar_write16 :: "'io env \<Rightarrow> nat option \<Rightarrow> u32 \<Rightarrow> u16 \<Rightarrow> 'io ar \<Rightarrow> 'io ar" where
  "ar_write16 env track addr v = journaled env track (addr AND NOT 1) 2 (dma_write16 env addr v)"

definition ar_write8 :: "'io env \<Rightarrow> nat option \<Rightarrow> u32 \<Rightarrow> u8 \<Rightarrow> 'io ar \<Rightarrow> 'io ar" where
  "ar_write8 env track addr v = journaled env track addr 1 (dma_write8 env addr v)"

definition ar_read :: "('io mach \<Rightarrow> 'a \<times> 'io mach) \<Rightarrow> 'io ar \<Rightarrow> 'a \<times> 'io ar" where
  "ar_read rd s = (let (v, m1) = rd (fst s) in (v, (m1, snd s)))"


section \<open>The interpreter\<close>

definition MAX_STEPS :: nat where "MAX_STEPS = 2 ^ 20"

record vm =
  v_pc :: nat
  v_offset :: u32
  v_datareg :: u32
  v_cond :: u32
  v_condstack :: u32
  v_loopstart :: nat
  v_loopcount :: u32
  v_loopcond :: u32
  v_loopcondstack :: u32
  v_c5count :: u32

definition vm_start :: vm where
  "vm_start = \<lparr> v_pc = 0, v_offset = 0, v_datareg = 0, v_cond = 1, v_condstack = 0, v_loopstart = 0,
     v_loopcount = 0, v_loopcond = 1, v_loopcondstack = 0, v_c5count = 0 \<rparr>"

text \<open>An instruction stops the code or goes on in a new state.\<close>

type_synonym 'io ar_next = "stop + (vm \<times> 'io ar)"

definition push_cond :: "bool \<Rightarrow> vm \<Rightarrow> vm" where
  "push_cond taken v = v\<lparr> v_condstack := push_bit 1 (v_condstack v) OR v_cond v, v_cond := (if taken then 1 else 0) \<rparr>"

definition cond_addr :: "u32 \<Rightarrow> vm \<Rightarrow> u32" where
  "cond_addr a v = (let addr = a AND 0x0FFFFFFF in if addr \<noteq> 0 then addr else v_offset v)"

definition ar_exec_write :: "'io env \<Rightarrow> nat option \<Rightarrow> u32 \<Rightarrow> u32 \<Rightarrow> u32 \<Rightarrow> vm \<Rightarrow> 'io ar \<Rightarrow> 'io ar" where
  "ar_exec_write env track hi a b v s =
     (let addr = (a AND 0x0FFFFFFF) + v_offset v in
      if hi = 0 then ar_write32 env track addr b s
      else if hi = 1 then ar_write16 env track addr (ucast b) s
      else ar_write8 env track addr (ucast b) s)"

text \<open>Opcodes 3 to A: compare and push the condition flag.\<close>

definition ar_exec_cond :: "'io env \<Rightarrow> u32 \<Rightarrow> u32 \<Rightarrow> u32 \<Rightarrow> vm \<Rightarrow> 'io ar \<Rightarrow> vm \<times> 'io ar" where
  "ar_exec_cond env hi a b v s =
     (if hi < 7 then
        (let (x, s1) = ar_read (dma_read32 env (cond_addr a v)) s;
             taken = (if hi = 3 then x < b else if hi = 4 then b < x else if hi = 5 then b = x else b \<noteq> x)
         in (push_cond taken v, s1))
      else
        (let (h, s1) = ar_read (dma_read16 env (cond_addr a v)) s;
             val = h AND NOT (ucast (drop_bit 16 b)); chk = ucast b;
             taken = (if hi = 7 then val < chk else if hi = 8 then chk < val else if hi = 9 then chk = val else chk \<noteq> val)
         in (push_cond taken v, s1)))"

definition ar_exec_c :: "'io env \<Rightarrow> nat option \<Rightarrow> u32 \<Rightarrow> u32 \<Rightarrow> vm \<Rightarrow> 'io ar \<Rightarrow> 'io ar_next" where
  "ar_exec_c env track op b v s =
     (if op = 0xC0 then
        Inr (v\<lparr> v_loopstart := v_pc v, v_loopcount := b, v_loopcond := v_cond v, v_loopcondstack := v_condstack v \<rparr>, s)
      else if op = 0xC2 \<or> op = 0xC4 then Inl Unsupported
      else if op = 0xC5 then
        (let v1 = v\<lparr> v_c5count := v_c5count v + 1 \<rparr> in
         if v_cond v1 = 0 then Inr (v1, s)
         else Inr (push_cond (v_c5count v1 AND (b AND 0xFFFF) = drop_bit 16 b) v1, s))
      else if op = 0xC6 then Inr (v, ar_write32 env track b (v_offset v) s)
      else Inl BadOpcode)"

text \<open>D4: the data register is combined with the operand.\<close>

definition data_op :: "u32 \<Rightarrow> u32 \<Rightarrow> u32 \<Rightarrow> u32 option" where
  "data_op k d b =
     (let n = unat (b AND 0xFF) in
      if k = 0x00 then Some (d + b)
      else if k = 0x01 then Some (d OR b)
      else if k = 0x02 then Some (d AND b)
      else if k = 0x03 then Some (d XOR b)
      else if k = 0x04 then Some (if 31 < n then 0 else push_bit n d)
      else if k = 0x05 then Some (if 31 < n then 0 else drop_bit n d)
      else if k = 0x06 then Some (ror32 d b)
      else if k = 0x07 then Some (word_of_int (drop_bit (if 31 < n then 31 else n) (sint d)))
      else if k = 0x08 then Some (d * b)
      else None)"

definition next_or :: "(vm \<Rightarrow> vm) \<Rightarrow> vm \<Rightarrow> vm" where
  "next_or fin v =
     (if 0 < v_loopcount v then v\<lparr> v_loopcount := v_loopcount v - 1, v_pc := v_loopstart v \<rparr> else fin v)"

definition ar_exec_d :: "'io env \<Rightarrow> nat option \<Rightarrow> u32 \<Rightarrow> u32 \<Rightarrow> u32 \<Rightarrow> vm \<Rightarrow> 'io ar \<Rightarrow> 'io ar_next" where
  "ar_exec_d env track op a b v s =
     (if op = 0xD0 then
        Inr (v\<lparr> v_cond := v_condstack v AND 1, v_condstack := drop_bit 1 (v_condstack v) \<rparr>, s)
      else if op = 0xD1 then
        Inr (next_or (\<lambda>v. v\<lparr> v_cond := v_loopcond v, v_condstack := v_loopcondstack v \<rparr>) v, s)
      else if op = 0xD2 then
        Inr (next_or (\<lambda>v. v\<lparr> v_offset := 0, v_datareg := 0, v_condstack := 0, v_cond := 1 \<rparr>) v, s)
      else if op = 0xD3 then Inr (v\<lparr> v_offset := b \<rparr>, s)
      else if op = 0xD4 then
        (case data_op (a AND 0xFF) (v_datareg v) b of
           None \<Rightarrow> Inl BadOpcode
         | Some d \<Rightarrow> Inr (v\<lparr> v_datareg := d \<rparr>, s))
      else if op = 0xD5 then Inr (v\<lparr> v_datareg := b \<rparr>, s)
      else if op = 0xD6 then
        Inr (v\<lparr> v_offset := v_offset v + 4 \<rparr>, ar_write32 env track (b + v_offset v) (v_datareg v) s)
      else if op = 0xD7 then
        Inr (v\<lparr> v_offset := v_offset v + 2 \<rparr>, ar_write16 env track (b + v_offset v) (ucast (v_datareg v)) s)
      else if op = 0xD8 then
        Inr (v\<lparr> v_offset := v_offset v + 1 \<rparr>, ar_write8 env track (b + v_offset v) (ucast (v_datareg v)) s)
      else if op = 0xD9 then
        (let (x, s1) = ar_read (dma_read32 env (b + v_offset v)) s in Inr (v\<lparr> v_datareg := x \<rparr>, s1))
      else if op = 0xDA then
        (let (x, s1) = ar_read (dma_read16 env (b + v_offset v)) s in Inr (v\<lparr> v_datareg := ucast x \<rparr>, s1))
      else if op = 0xDB then
        (let (x, s1) = ar_read (dma_read8 env (b + v_offset v)) s in Inr (v\<lparr> v_datareg := ucast x \<rparr>, s1))
      else if op = 0xDC then Inr (v\<lparr> v_offset := v_offset v + b \<rparr>, s)
      else Inl BadOpcode)"

text \<open>Opcode E: the block of \<open>left\<close> bytes in the words from \<open>pc\<close> on.\<close>

definition word_bytes :: "u32 \<Rightarrow> u8 list" where
  "word_bytes x = [ucast x, ucast (drop_bit 8 x), ucast (drop_bit 16 x), ucast (drop_bit 24 x)]"

fun write_bytes :: "'io env \<Rightarrow> nat option \<Rightarrow> u32 \<Rightarrow> u8 list \<Rightarrow> 'io ar \<Rightarrow> 'io ar" where
  "write_bytes env track dst [] s = s"
| "write_bytes env track dst (x # xs) s = write_bytes env track (dst + 1) xs (ar_write8 env track dst x s)"

definition block_tail :: "'io env \<Rightarrow> nat option \<Rightarrow> u32 \<Rightarrow> u32 \<Rightarrow> u32 \<Rightarrow> nat \<Rightarrow> 'io ar \<Rightarrow> 'io ar" where
  "block_tail env track w0 w1 dst left s =
     (let bytes = word_bytes w0 @ word_bytes w1 in
      if 4 \<le> left then
        write_bytes env track (dst + 4) (take (left - 4) (drop 4 bytes))
          (ar_write32 env track dst
             (ucast (bytes ! 0) OR push_bit 8 (ucast (bytes ! 1)) OR push_bit 16 (ucast (bytes ! 2))
                OR push_bit 24 (ucast (bytes ! 3))) s)
      else write_bytes env track dst (take left bytes) s)"

function block_write :: "'io env \<Rightarrow> nat option \<Rightarrow> u32 list \<Rightarrow> nat \<Rightarrow> u32 \<Rightarrow> nat \<Rightarrow> 'io ar \<Rightarrow> nat \<times> 'io ar" where
  "block_write env track w pc dst left s =
     (if 8 \<le> left then
        block_write env track w (pc + 2) (dst + 8) (left - 8)
          (ar_write32 env track (dst + 4) (w ! (pc + 1)) (ar_write32 env track dst (w ! pc) s))
      else if 0 < left then (pc + 2, block_tail env track (w ! pc) (w ! (pc + 1)) dst left s)
      else (pc, s))"
  by pat_completeness auto
termination by (relation "measure (\<lambda>(env, track, w, pc, dst, left, s). left)") auto

declare block_write.simps [simp del]

text \<open>Opcode F: copy guest memory.\<close>

fun copy_bytes :: "'io env \<Rightarrow> nat option \<Rightarrow> nat \<Rightarrow> u32 \<Rightarrow> u32 \<Rightarrow> 'io ar \<Rightarrow> 'io ar" where
  "copy_bytes env track 0 src dst s = s"
| "copy_bytes env track (Suc left) src dst s =
     (let (x, s1) = ar_read (dma_read8 env src) s
      in copy_bytes env track left (src + 1) (dst + 1) (ar_write8 env track dst x s1))"

fun copy_words :: "'io env \<Rightarrow> nat option \<Rightarrow> nat \<Rightarrow> u32 \<Rightarrow> u32 \<Rightarrow> 'io ar \<Rightarrow> u32 \<times> u32 \<times> 'io ar" where
  "copy_words env track 0 src dst s = (src, dst, s)"
| "copy_words env track (Suc n) src dst s =
     (let (x, s1) = ar_read (dma_read32 env src) s
      in copy_words env track n (src + 4) (dst + 4) (ar_write32 env track dst x s1))"

definition ar_exec_copy :: "'io env \<Rightarrow> nat option \<Rightarrow> u32 \<Rightarrow> u32 \<Rightarrow> vm \<Rightarrow> 'io ar \<Rightarrow> 'io ar" where
  "ar_exec_copy env track a b v s =
     (let (src, dst, s1) = copy_words env track (unat b div 4) (v_offset v) (a AND 0x0FFFFFFF) s
      in copy_bytes env track (unat b mod 4) src dst s1)"

definition runs_always :: "u32 \<Rightarrow> bool" where
  "runs_always op \<longleftrightarrow> \<not> ((op < 0xD0 \<and> op \<noteq> 0xC5) \<or> 0xD2 < op)"

text \<open>One pair of words: \<open>v\<close> already points past it.\<close>

definition ar_exec :: "'io env \<Rightarrow> nat option \<Rightarrow> u32 list \<Rightarrow> nat \<Rightarrow> u32 \<Rightarrow> u32 \<Rightarrow> vm \<Rightarrow> 'io ar \<Rightarrow> 'io ar_next" where
  "ar_exec env track w n a b v s =
     (let op = drop_bit 24 a; hi = drop_bit 4 op in
      if \<not> runs_always op \<and> v_cond v = 0 then
        (if hi = 0xE then
           (if n < v_pc v + block_pairs b * 2 then Inl Truncated
            else Inr (v\<lparr> v_pc := v_pc v + block_pairs b * 2 \<rparr>, s))
         else Inr (v, s))
      else if hi \<le> 2 then Inr (v, ar_exec_write env track hi a b v s)
      else if hi \<le> 0xA then Inr (ar_exec_cond env hi a b v s)
      else if hi = 0xB then
        (let (x, s1) = ar_read (dma_read32 env ((a AND 0x0FFFFFFF) + v_offset v)) s
         in Inr (v\<lparr> v_offset := x \<rparr>, s1))
      else if hi = 0xC then ar_exec_c env track op b v s
      else if hi = 0xD then ar_exec_d env track op a b v s
      else if hi = 0xE then
        (if n < v_pc v + block_pairs b * 2 then Inl Truncated
         else (let (pc, s1) = block_write env track w (v_pc v) ((a AND 0x0FFFFFFF) + v_offset v) (unat b) s
               in Inr (v\<lparr> v_pc := pc \<rparr>, s1)))
      else Inr (v, ar_exec_copy env track a b v s))"

function ar_loop :: "'io env \<Rightarrow> nat option \<Rightarrow> u32 list \<Rightarrow> nat \<Rightarrow> nat \<Rightarrow> vm \<Rightarrow> 'io ar \<Rightarrow> stop \<times> 'io ar" where
  "ar_loop env track w n k v s =
     (if v_pc v + 1 < n then
        (if MAX_STEPS < k + 1 then (RunawayLoop, s)
         else
           (case ar_exec env track w n (w ! v_pc v) (w ! (v_pc v + 1)) (v\<lparr> v_pc := v_pc v + 2 \<rparr>) s of
              Inl why \<Rightarrow> (why, s)
            | Inr (v1, s1) \<Rightarrow> ar_loop env track w n (k + 1) v1 s1))
      else (if v_pc v = n then StopOk else Truncated, s))"
  by pat_completeness auto
termination by (relation "measure (\<lambda>(env, track, w, n, k, v, s). MAX_STEPS - k)") auto

declare ar_loop.simps [simp del]

definition run_tracked :: "'io env \<Rightarrow> code \<Rightarrow> nat option \<Rightarrow> 'io ar \<Rightarrow> stop \<times> 'io ar" where
  "run_tracked env c index s =
     (let w = c_words c; n = length w - length w mod 2; track = (if c_analog c then index else None)
      in ar_loop env track w n 0 vm_start s)"

definition run_code :: "'io env \<Rightarrow> code \<Rightarrow> 'io ar \<Rightarrow> stop \<times> 'io ar" where
  "run_code env c s = run_tracked env c None s"


section \<open>Undoing codes\<close>

text \<open>The engine's own state: the code list, what it remembers of each, the journal, and the
  writers a loaded state named.\<close>

record carried =
  k_id :: u32
  k_addrs :: "u32 list"

record engine =
  codes :: "code list"
  complained :: "bool list"
  was_enabled :: "bool list"
  originals :: journal
  carried_list :: "carried list"

definition engine_idle :: "engine \<Rightarrow> bool" where
  "engine_idle e \<longleftrightarrow> codes e = [] \<and> carried_list e = []"

definition restore :: "'io env \<Rightarrow> u32 \<Rightarrow> original \<Rightarrow> 'io mach \<Rightarrow> 'io mach" where
  "restore env addr o1 m =
     (let (v, m1) = dma_read8 env addr m
      in if v = o_wrote o1 then dma_write8 env addr (o_value o1) m1 else m1)"

text \<open>One entry of \<^verbatim>\<open>revert\<close>'s walk: kept, kept without this writer, or restored and dropped.\<close>

fun revert_entry :: "'io env \<Rightarrow> nat \<Rightarrow> u32 \<times> original \<Rightarrow> 'io mach \<times> journal \<Rightarrow> 'io mach \<times> journal" where
  "revert_entry env index (a, e) (m, kept) =
     (if index \<notin> set (o_writers e) then (m, kept @ [(a, e)])
      else
        (let e1 = e\<lparr> o_writers := remove1 index (o_writers e) \<rparr>
         in if o_writers e1 \<noteq> [] then (m, kept @ [(a, e1)]) else (restore env a e1 m, kept)))"

definition revert :: "'io env \<Rightarrow> nat \<Rightarrow> 'io mach \<times> journal \<Rightarrow> 'io mach \<times> journal" where
  "revert env index s = fold (revert_entry env index) (snd s) (fst s, [])"

definition forget_writes :: "engine \<Rightarrow> engine" where
  "forget_writes e = e\<lparr> originals := [], was_enabled := [], carried_list := [] \<rparr>"

section \<open>A loaded journal\<close>

text \<open>The first enabled code whose words have the given hash.\<close>

definition find_code :: "u32 \<Rightarrow> code list \<Rightarrow> nat option" where
  "find_code h cs = find (\<lambda>i. c_enabled (cs ! i) \<and> code_id (cs ! i) = h) [0..<length cs]"

definition add_writer :: "nat \<Rightarrow> u32 \<Rightarrow> journal \<Rightarrow> journal" where
  "add_writer i a j = AList.update a ((entry_of a j)\<lparr> o_writers := o_writers (entry_of a j) @ [i] \<rparr>) j"

definition adopt :: "code list \<Rightarrow> carried \<Rightarrow> journal \<times> carried list \<Rightarrow> journal \<times> carried list" where
  "adopt cs c jg =
     (case find_code (k_id c) cs of
        None \<Rightarrow> (fst jg, snd jg @ [c])
      | Some i \<Rightarrow> (fold (add_writer i) (k_addrs c) (fst jg), snd jg))"

definition drop_byte :: "'io env \<Rightarrow> u32 \<Rightarrow> 'io ar \<Rightarrow> 'io ar" where
  "drop_byte env a s =
     (case map_of (snd s) a of
        None \<Rightarrow> s
      | Some e \<Rightarrow> if o_writers e \<noteq> [] then s else (restore env a e (fst s), AList.delete a (snd s)))"

definition settle_carried :: "'io env \<Rightarrow> 'io mach \<times> engine \<Rightarrow> 'io mach \<times> engine" where
  "settle_carried env me =
     (let (m, e) = me;
          (j, gone) = fold (adopt (codes e)) (carried_list e) (originals e, []);
          (m1, j1) = fold (\<lambda>c. fold (drop_byte env) (k_addrs c)) gone (m, j)
      in (m1, e\<lparr> originals := j1, carried_list := [] \<rparr>))"

text \<open>What \<^verbatim>\<open>save_journal\<close> writes into its chunk and \<^verbatim>\<open>load_journal\<close> reads from it.\<close>

record chunk =
  x_addrs :: "u32 list"
  x_values :: "u8 list"
  x_wrote :: "u8 list"
  x_writers :: "carried list"

definition entry_at :: "journal \<Rightarrow> u32 \<Rightarrow> original" where
  "entry_at j a = the (map_of j a)"

definition written_by :: "journal \<Rightarrow> u32 list \<Rightarrow> nat \<Rightarrow> u32 list" where
  "written_by j addrs i = concat (map (\<lambda>a. replicate (count_list (o_writers (entry_at j a)) i) a) addrs)"

definition save_journal :: "engine \<Rightarrow> chunk option" where
  "save_journal e =
     (if originals e = [] \<and> carried_list e = [] then None
      else
        (let j = originals e; addrs = sort (map fst j);
             ids = sort (remdups (concat (map (\<lambda>a. o_writers (entry_at j a)) addrs)))
         in Some \<lparr> x_addrs = addrs, x_values = map (\<lambda>a. o_value (entry_at j a)) addrs,
                   x_wrote = map (\<lambda>a. o_wrote (entry_at j a)) addrs,
                   x_writers = carried_list e @
                     map (\<lambda>i. \<lparr> k_id = code_id (codes e ! i), k_addrs = written_by j addrs i \<rparr>) ids \<rparr>))"

definition load_byte :: "u32 \<times> u8 \<times> u8 \<Rightarrow> journal \<Rightarrow> journal" where
  "load_byte avw j =
     (let (a, v, w) = avw in AList.update a ((entry_of a j)\<lparr> o_value := v, o_wrote := w \<rparr>) j)"

text \<open>\<open>Inl\<close> is the reader's failure.\<close>

definition load_journal :: "chunk option \<Rightarrow> engine \<Rightarrow> string + engine" where
  "load_journal c e =
     (case c of
        None \<Rightarrow> Inr e
      | Some x \<Rightarrow>
          (if length (x_addrs x) \<noteq> length (x_values x) \<or> length (x_addrs x) \<noteq> length (x_wrote x)
           then Inl ''cheat journal: addresses and values differ''
           else Inr (e\<lparr> originals := fold load_byte (zip (x_addrs x) (zip (x_values x) (x_wrote x))) (originals e),
                        carried_list := carried_list e @ x_writers x \<rparr>)))"

section \<open>Once a frame\<close>

definition assign_flags :: "nat \<Rightarrow> bool list \<Rightarrow> bool list" where
  "assign_flags n xs = (if length xs \<noteq> n then replicate n False else xs)"

definition undo_one :: "'io env \<Rightarrow> nat \<Rightarrow> 'io mach \<times> engine \<Rightarrow> 'io mach \<times> engine" where
  "undo_one env i me =
     (let (m, e) = me; on = c_enabled (codes e ! i);
          (m1, j1) = (if was_enabled e ! i \<and> \<not> on then revert env i (m, originals e) else (m, originals e))
      in (m1, e\<lparr> originals := j1, was_enabled := (was_enabled e)[i := on] \<rparr>))"

definition apply_one :: "'io env \<Rightarrow> nat \<Rightarrow> 'io mach \<times> engine \<Rightarrow> 'io mach \<times> engine" where
  "apply_one env i me =
     (let (m, e) = me; c = codes e ! i in
      if \<not> c_enabled c then me
      else
        (let (why, m1, j1) = run_tracked env c (Some i) (m, originals e); e1 = e\<lparr> originals := j1 \<rparr>
         in (m1, if why \<noteq> StopOk \<and> \<not> complained e1 ! i
                 then e1\<lparr> complained := (complained e1)[i := True] \<rparr> else e1)))"

definition engine_run :: "'io env \<Rightarrow> 'io mach \<times> engine \<Rightarrow> 'io mach \<times> engine" where
  "engine_run env me0 =
     (let (m, e0) = (if carried_list (snd me0) \<noteq> [] then settle_carried env me0 else me0) in
      if codes e0 = [] then (m, e0)
      else
        (let n = length (codes e0);
             e1 = e0\<lparr> complained := assign_flags n (complained e0), was_enabled := assign_flags n (was_enabled e0) \<rparr>
         in fold (apply_one env) [0..<n] (fold (undo_one env) [0..<n] (m, e1))))"

end
