(* ===== verification/ArSpec.thy ===== *)
theory ArSpec imports ArEngine MemSpec begin

text \<open>
  Undoing cheat codes (\<^verbatim>\<open>src/core/cheat/ar_engine.cpp\<close>).  Whatever a code does to memory it
  does through the three journaled writes; \<open>ar_writes\<close> says that any relation those writes
  and the reads respect holds across a whole run.  Its interpretation on the journal's
  invariant gives the main result: reverting the only code that ran puts every byte of
  guest memory back.
\<close>

section \<open>What holds of every access holds of every run\<close>

locale ar_writes =
  fixes env :: "'io env" and track :: "nat option" and rel :: "'io ar \<Rightarrow> 'io ar \<Rightarrow> bool"
  assumes rel_refl: "rel s s"
    and rel_trans: "rel s t \<Longrightarrow> rel t u \<Longrightarrow> rel s u"
    and rel_write32: "rel s (ar_write32 env track a x s)"
    and rel_write16: "rel s (ar_write16 env track a h s)"
    and rel_write8: "rel s (ar_write8 env track a b s)"
    and rel_read32: "rel s (snd (ar_read (dma_read32 env a) s))"
    and rel_read16: "rel s (snd (ar_read (dma_read16 env a) s))"
    and rel_read8: "rel s (snd (ar_read (dma_read8 env a) s))"
begin

lemmas accesses = rel_refl rel_write32 rel_write16 rel_write8

lemma reads:
  "ar_read (dma_read32 env a) s = (x, t) \<Longrightarrow> rel s t"
  "ar_read (dma_read16 env a) s = (h, t) \<Longrightarrow> rel s t"
  "ar_read (dma_read8 env a) s = (b, t) \<Longrightarrow> rel s t"
  using rel_read32 [of s a] rel_read16 [of s a] rel_read8 [of s a] by auto

lemma write_bytes_rel: "rel s (write_bytes env track dst xs s)"
proof (induction xs arbitrary: dst s)
  case (Cons x xs)
  then show ?case unfolding write_bytes.simps by (rule rel_trans [OF rel_write8])
qed (simp add: rel_refl)

lemma block_tail_rel: "rel s (block_tail env track w0 w1 dst left s)"
  unfolding block_tail_def Let_def
  by (cases "4 \<le> left") (simp_all only: if_True if_False write_bytes_rel rel_trans [OF rel_write32 write_bytes_rel])

lemma block_write_rel: "rel s (snd (block_write env track w pc dst left s))"
proof (induction left arbitrary: pc dst s rule: less_induct)
  case (less left)
  show ?case
  proof (cases "8 \<le> left")
    case True
    let ?t = "ar_write32 env track (dst + 4) (w ! (pc + 1)) (ar_write32 env track dst (w ! pc) s)"
    have "rel s ?t" by (rule rel_trans [OF rel_write32 rel_write32])
    moreover have "rel ?t (snd (block_write env track w (pc + 2) (dst + 8) (left - 8) ?t))"
      by (rule less.IH) (use True in simp)
    ultimately have "rel s (snd (block_write env track w (pc + 2) (dst + 8) (left - 8) ?t))" by (rule rel_trans)
    then show ?thesis using True by (simp add: block_write.simps [of _ _ _ _ _ left])
  next
    case False
    then show ?thesis
      by (simp add: block_write.simps [of _ _ _ _ _ left] rel_refl block_tail_rel)
  qed
qed

lemma copy_bytes_rel: "rel s (copy_bytes env track n src dst s)"
proof (induction n arbitrary: src dst s)
  case (Suc n)
  obtain x t where r: "ar_read (dma_read8 env src) s = (x, t)" by (metis surj_pair)
  have "rel s (ar_write8 env track dst x t)" using reads(3) [OF r] by (rule rel_trans) (rule rel_write8)
  then have "rel s (copy_bytes env track n (src + 1) (dst + 1) (ar_write8 env track dst x t))"
    by (rule rel_trans) (rule Suc.IH)
  then show ?case by (simp add: r)
qed (simp add: rel_refl)

lemma copy_words_rel: "copy_words env track n src dst s = (src', dst', t) \<Longrightarrow> rel s t"
proof (induction n arbitrary: src dst s)
  case (Suc n)
  obtain x u where r: "ar_read (dma_read32 env src) s = (x, u)" by (metis surj_pair)
  have "rel s (ar_write32 env track dst x u)" using reads(1) [OF r] by (rule rel_trans) (rule rel_write32)
  moreover have "rel (ar_write32 env track dst x u) t" using Suc.IH Suc.prems by (simp add: r)
  ultimately show ?case by (rule rel_trans)
qed (simp add: rel_refl)

lemma copy_rel: "rel s (ar_exec_copy env track a b v s)"
proof -
  obtain src dst t where c: "copy_words env track (unat b div 4) (v_offset v) (a AND 0x0FFFFFFF) s = (src, dst, t)"
    by (metis prod_cases3)
  have "rel s (copy_bytes env track (unat b mod 4) src dst t)"
    using copy_words_rel [OF c] copy_bytes_rel by (rule rel_trans)
  then show ?thesis by (simp add: ar_exec_copy_def c)
qed

lemma write_rel: "rel s (ar_exec_write env track hi a b v s)"
  by (simp add: ar_exec_write_def Let_def accesses)

lemma cond_rel: "rel s (snd (ar_exec_cond env hi a b v s))"
  unfolding ar_exec_cond_def Let_def using reads(1) [of "cond_addr a v" s] reads(2) [of "cond_addr a v" s]
  by (auto split: prod.split)

lemma c_rel: "ar_exec_c env track op b v s = Inr (v1, t) \<Longrightarrow> rel s t"
  by (auto simp: ar_exec_c_def Let_def accesses split: if_splits)

lemma d_rel: "ar_exec_d env track op a b v s = Inr (v1, t) \<Longrightarrow> rel s t"
  using reads
  by (auto simp: ar_exec_d_def Let_def accesses split: if_splits option.splits prod.splits)

lemma exec_rel: "ar_exec env track w n a b v s = Inr (v1, t) \<Longrightarrow> rel s t"
proof -
  assume e: "ar_exec env track w n a b v s = Inr (v1, t)"
  obtain pc u where bw: "block_write env track w (v_pc v) ((a AND 0x0FFFFFFF) + v_offset v) (unat b) s = (pc, u)"
    by (metis surj_pair)
  obtain x r where rd: "ar_read (dma_read32 env ((a AND 0x0FFFFFFF) + v_offset v)) s = (x, r)" by (metis surj_pair)
  have "rel s u" using block_write_rel [of s w "v_pc v"] bw by (metis snd_conv)
  moreover have "rel s r" using reads(1) [OF rd] .
  ultimately show ?thesis
    using e c_rel [of "drop_bit 24 a" b v s v1 t] d_rel [of "drop_bit 24 a" a b v s v1 t]
      write_rel [of s "drop_bit 4 (drop_bit 24 a)" a b v] copy_rel [of s a b v]
      cond_rel [of s "drop_bit 4 (drop_bit 24 a)" a b v] rel_refl [of s]
    unfolding ar_exec_def Let_def bw rd by (auto split: if_splits)
qed

lemma loop_rel: "rel s (snd (ar_loop env track w n k v s))"
proof (induction "MAX_STEPS - k" arbitrary: k v s rule: less_induct)
  case less
  let ?e = "ar_exec env track w n (w ! v_pc v) (w ! (v_pc v + 1)) (v\<lparr> v_pc := v_pc v + 2 \<rparr>) s"
  show ?case
  proof (cases "v_pc v + 1 < n \<and> \<not> MAX_STEPS < k + 1 \<and> (\<exists>v1 t. ?e = Inr (v1, t))")
    case True
    then obtain v1 t where e: "?e = Inr (v1, t)" by blast
    have "rel t (snd (ar_loop env track w n (k + 1) v1 t))" using True by (intro less) linarith
    with exec_rel [OF e] have "rel s (snd (ar_loop env track w n (k + 1) v1 t))" by (rule rel_trans)
    then show ?thesis using True e by (simp add: ar_loop.simps [of _ _ _ _ k])
  next
    case False
    then show ?thesis
      by (auto simp: ar_loop.simps [of _ _ _ _ k] rel_refl split: sum.split)
  qed
qed

lemma run_rel:
  "(if c_analog c then index else None) = track \<Longrightarrow> rel s (snd (run_tracked env c index s))"
  using loop_rel [of s "c_words c"] by (simp add: run_tracked_def Let_def)

end


section \<open>Guest bytes and the host bytes behind them\<close>

text \<open>Two processor states see the same memory: every address reaches the same host byte, to read and to
  write.  Tags may differ, as they do after a store to translated code.\<close>

definition same_map :: "cpu_ctx \<Rightarrow> cpu_ctx \<Rightarrow> bool" where
  "same_map c d \<longleftrightarrow> (\<forall>a. read_ptr c a = read_ptr d a \<and> map_option fst (write_ptr c a) = map_option fst (write_ptr d a))"

definition quiet :: "'io mach \<Rightarrow> 'io mach \<Rightarrow> bool" where
  "quiet m m' \<longleftrightarrow> host m' = host m \<and> same_map (cpu m') (cpu m)"

text \<open>What the engine relies on from the devices: reading a register, a write to the top word of the address
  space and the recompiler's notification may change the devices and the tags, but no byte of memory and
  no mapping.  A register that is read may well answer differently the next time.\<close>

definition bus_quiet :: "'io env \<Rightarrow> bool" where
  "bus_quiet env \<longleftrightarrow>
     (\<forall>a k m. quiet m (snd (bus_io_read env a k m))) \<and> (\<forall>p k m. quiet m (code_write_hook env p k m)) \<and>
     (\<forall>a k v m. 0xFFFFFFFC \<le> a \<longrightarrow> quiet m (bus_io_write env a k v m))"

text \<open>No two addresses of a set reach the same host byte.\<close>

definition alias_free :: "cpu_ctx \<Rightarrow> u32 set \<Rightarrow> bool" where
  "alias_free c D \<longleftrightarrow> (\<forall>a\<in>D. \<forall>b\<in>D. \<forall>p. read_ptr c a = Some p \<and> read_ptr c b = Some p \<longrightarrow> a = b)"

text \<open>The bytes of \<open>D\<close> are writable memory, each under one address only, and the top word of the address
  space, where the code's loop over an access does not run, is not mapped writable.\<close>

definition ar_ram :: "cpu_ctx \<Rightarrow> u32 set \<Rightarrow> bool" where
  "ar_ram c D \<longleftrightarrow> (\<forall>a\<in>D. \<exists>p. read_ptr c a = Some p \<and> map_option fst (write_ptr c a) = Some p) \<and>
     (\<forall>a. 0xFFFFFFFC \<le> a \<longrightarrow> write_ptr c a = None) \<and> alias_free c D"

lemma same_map_refl [simp]: "same_map c c"
  by (simp add: same_map_def)

lemma quiet_refl [simp]: "quiet m m"
  by (simp add: quiet_def)

lemma same_map_trans: "same_map c d \<Longrightarrow> same_map d e \<Longrightarrow> same_map c e"
  by (simp add: same_map_def)

lemma ar_ram_mono: "ar_ram c D \<Longrightarrow> E \<subseteq> D \<Longrightarrow> ar_ram c E"
  unfolding ar_ram_def alias_free_def by blast

lemma ar_ram_ptr:
  assumes "ar_ram c D" "same_map d c" "a \<in> D"
  obtains p code where "read_ptr c a = Some p" "read_ptr d a = Some p" "write_ptr d a = Some (p, code)"
proof -
  obtain p where p: "read_ptr c a = Some p" "map_option fst (write_ptr c a) = Some p" using assms(1,3) by (auto simp: ar_ram_def)
  then have "map_option fst (write_ptr d a) = Some p" "read_ptr d a = Some p" using assms(2) by (auto simp: same_map_def)
  then show thesis using that p(1) by (cases "write_ptr d a") auto
qed

text \<open>The bytes of an aligned access are contiguous, on the host as in the guest.\<close>

definition aligned :: "u32 \<Rightarrow> nat \<Rightarrow> bool" where
  "aligned a len \<longleftrightarrow> len \<in> {1, 2, 4} \<and> unat a mod len = 0"

lemma aligned_masks: "aligned (a AND NOT 3) 4" "aligned (a AND NOT 1) 2" "aligned a 1"
proof -
  have "(a AND NOT 3) AND 3 = 0" "(a AND NOT 1) AND 1 = 0" by (simp_all add: and.assoc)
  then show "aligned (a AND NOT 3) 4" "aligned (a AND NOT 1) 2" "aligned a 1"
    using unat_and_mask [of "a AND NOT 3" 2] unat_and_mask [of "a AND NOT 1" 1]
    by (simp_all add: aligned_def mask_eq_exp_minus_1)
qed

lemma aligned_div:
  fixes x k len N :: nat
  assumes "x mod len = 0" "k < len" "len dvd N"
  shows "(x + k) div N = x div N"
proof -
  obtain r where N: "N = len * r" using assms(3) by blast
  obtain q where x: "x = len * q" using assms(1) by (auto simp: mod_eq_0_iff_dvd)
  have "(x + k) div len = q" "x div len = q" using assms(2) by (simp_all add: x)
  then show ?thesis by (simp add: N div_mult2_eq)
qed

lemma aligned_sum:
  assumes "aligned a len" "k < len"
  shows "unat (a + of_nat k) = unat a + k" "(unat a + k) div 2048 = unat a div 2048"
proof -
  have m: "unat a mod len = 0" and len: "len = 1 \<or> len = 2 \<or> len = 4" using assms(1) by (auto simp: aligned_def)
  have d: "len dvd 2048" "len dvd 2 ^ 32" using len by auto
  show "(unat a + k) div 2048 = unat a div 2048" using aligned_div [OF m assms(2) d(1)] .
  have "(unat a + k) div 2 ^ 32 = 0" using aligned_div [OF m assms(2) d(2)] unat_lt32 [of a] by simp
  then have "unat a + k < 2 ^ 32" by (simp add: div_eq_0_iff)
  moreover have "unat (of_nat k :: u32) = k" using len assms(2) by (auto simp: unat_of_nat)
  ultimately show "unat (a + of_nat k) = unat a + k" by (simp add: unat_word_ariths)
qed

lemma aligned_ptr:
  assumes "aligned a len" "k < len"
  shows "read_ptr c (a + of_nat k) = map_option (\<lambda>p. p + of_nat k) (read_ptr c a)"
proof -
  note u = aligned_sum [OF assms]
  have "unat (drop_bit 11 (a + of_nat k)) = unat (drop_bit 11 a)"
    using u unat_lt32 [of a] unat_lt32 [of "a + of_nat k"] unsigned_drop_bit_eq [of 11 "a + of_nat k", where 'a = nat] unsigned_drop_bit_eq [of 11 a, where 'a = nat]
    by (simp only: drop_bit_eq_div take_bit_eq_mod) simp
  then have "drop_bit 11 (a + of_nat k) = drop_bit 11 a" by (simp only: word_unat_eq_iff)
  then have e: "entry c (a + of_nat k) = entry c a" by (simp only: entry_def)
  have "k < 2 ^ 32" using assms by (auto simp: aligned_def)
  then have "unat (ucast (a + of_nat k) :: u64) = unat (ucast a + of_nat k :: u64)"
    using u(1) unat_lt32 [of a] by (simp add: unat_word_ariths unat_of_nat unsigned_ucast_eq take_bit_nat_eq_self)
  then have "(ucast (a + of_nat k) :: u64) = ucast a + of_nat k" by (simp add: word_unat_eq_iff)
  then show ?thesis by (simp add: read_ptr_def entry_ptr_def e Let_def add.assoc)
qed


lemma span_empty:
  assumes "aligned a len" "span a len = []"
  shows "0xFFFFFFFC \<le> a"
proof (rule ccontr)
  assume "\<not> 0xFFFFFFFC \<le> a"
  then have lt: "unat a < 0xFFFFFFFC" by (simp add: word_le_nat_alt)
  have len: "len = 1 \<or> len = 2 \<or> len = 4" using assms(1) by (auto simp: aligned_def)
  then have "a < a + of_nat len" using lt by (auto simp: word_less_nat_alt unat_word_ariths unat_of_nat)
  then show False using assms(2) len by (auto simp: span_def)
qed

lemma span_aligned:
  assumes "aligned a len" "span a len \<noteq> []"
  shows "span a len = map (\<lambda>k. a + of_nat k) [0..<len]" "a \<in> set (span a len)"
proof -
  show e: "span a len = map (\<lambda>k. a + of_nat k) [0..<len]" using assms(2) by (auto simp: span_def split: if_splits)
  have "0 < len" using assms(1) by (auto simp: aligned_def)
  then show "a \<in> set (span a len)" unfolding e by (auto intro: image_eqI [of _ _ 0])
qed

text \<open>A store changes its own bytes and nothing else.\<close>

definition store_only :: "u64 \<Rightarrow> nat \<Rightarrow> ((u64 \<Rightarrow> u8) \<Rightarrow> (u64 \<Rightarrow> u8)) \<Rightarrow> bool" where
  "store_only p len st \<longleftrightarrow> (\<forall>h q. (\<forall>k<len. q \<noteq> p + of_nat k) \<longrightarrow> st h q = h q)"

lemma stores_only: "store_only p 1 (st8 p v)" "store_only p 2 (st16 p h)" "store_only p 4 (st32 p x)"
  by (auto simp: store_only_def st8_def st16_def st32_def numeral_2_eq_2 numeral_eq_Suc less_Suc_eq)

lemma store_host_plain:
  assumes "bus_quiet env" "store_only p len st"
  shows "host (store_host env p code len st m) = st (host m) \<and> same_map (cpu (store_host env p code len st m)) (cpu m)"
proof -
  have e: "st (host m) = host m" if "\<forall>k<len. st (host m) (p + of_nat k) = host m (p + of_nat k)"
  proof
    fix q
    show "st (host m) q = host m q"
      using assms(2) that by (cases "\<exists>k<len. q = p + of_nat k") (auto simp: store_only_def)
  qed
  have "quiet m' (code_write_hook env p len m')" for m' using assms(1) by (simp add: bus_quiet_def)
  from this [of "m\<lparr> host := st (host m) \<rparr>"] show ?thesis
    using e by (auto simp: store_host_def store_code_def Let_def list_all_iff quiet_def)
qed

text \<open>So every bus write is the same thing: its bytes when they are memory.  Where the address space ends
  the code's loop over the bytes is empty and nothing is mapped.\<close>

definition plain_store :: "u32 \<Rightarrow> nat \<Rightarrow> ('io mach \<Rightarrow> 'io mach) \<Rightarrow> bool" where
  "plain_store a len st \<longleftrightarrow> aligned a len \<and>
     (\<forall>c D m. ar_ram c D \<longrightarrow> same_map (cpu m) c \<longrightarrow> set (span a len) \<subseteq> D \<longrightarrow>
        (if span a len = [] then quiet m (st m)
         else \<exists>p upd. read_ptr c a = Some p \<and> store_only p len upd \<and> host (st m) = upd (host m) \<and> same_map (cpu (st m)) (cpu m)))"

lemma bus_writes_plain:
  assumes "bus_quiet env"
  shows "plain_store (a AND NOT 3) 4 (dma_write32 env a x)"
    "plain_store (a AND NOT 1) 2 (dma_write16 env a h)"
    "plain_store a 1 (dma_write8 env a b)"
proof -
  have put: "plain_store A len st"
    if al: "aligned A len" and only: "\<And>p. store_only p len (upd p)" and
      st: "\<And>m. st m = (case write_ptr (cpu m) A of None \<Rightarrow> bus_io_write env A k v m | Some (p, code) \<Rightarrow> store_host env p code len (upd p) m)"
    for A len st upd k v
    unfolding plain_store_def
  proof (intro conjI allI impI)
    show "aligned A len" by (rule al)
    fix c D and m :: "'a mach"
    assume ram: "ar_ram c D" and same: "same_map (cpu m) c" and sp: "set (span A len) \<subseteq> D"
    show "if span A len = [] then quiet m (st m)
      else \<exists>p upd. read_ptr c A = Some p \<and> store_only p len upd \<and> host (st m) = upd (host m) \<and> same_map (cpu (st m)) (cpu m)"
    proof (cases "span A len = []")
      case True
      have top: "0xFFFFFFFC \<le> A" by (rule span_empty [OF al True])
      then have "write_ptr c A = None" using ram by (simp add: ar_ram_def)
      moreover have "map_option fst (write_ptr (cpu m) A) = map_option fst (write_ptr c A)" using same by (simp add: same_map_def)
      ultimately have "write_ptr (cpu m) A = None" by simp
      then have "st m = bus_io_write env A k v m" by (simp add: st)
      moreover have "quiet m (bus_io_write env A k v m)" using assms top by (simp add: bus_quiet_def)
      ultimately show ?thesis using True by simp
    next
      case False
      then have "A \<in> D" using span_aligned(2) [OF al False] sp by blast
      then obtain p code where p: "read_ptr c A = Some p" "write_ptr (cpu m) A = Some (p, code)"
        using ar_ram_ptr [OF ram same] by metis
      then have "st m = store_host env p code len (upd p) m" by (simp add: st)
      then show ?thesis using False p(1) only [of p] store_host_plain [OF assms only [of p], of code m] by auto
    qed
  qed
  show "plain_store (a AND NOT 3) 4 (dma_write32 env a x)"
    by (rule put [OF aligned_masks(1) stores_only(3)]) (simp only: dma_write32_def Let_def)
  show "plain_store (a AND NOT 1) 2 (dma_write16 env a h)"
    by (rule put [OF aligned_masks(2) stores_only(2)]) (simp only: dma_write16_def Let_def)
  show "plain_store a 1 (dma_write8 env a b)"
    by (rule put [OF aligned_masks(3) stores_only(1)]) (simp only: dma_write8_def)
qed

lemma dma_read8_plain: "read_ptr (cpu m) a = Some p \<Longrightarrow> dma_read8 env a m = (host m p, m)"
  by (simp add: dma_read8_def ld8_def)

lemma reads_plain:
  assumes "bus_quiet env"
  shows "quiet (fst s) (fst (snd (ar_read (dma_read32 env a) s)))" "quiet (fst s) (fst (snd (ar_read (dma_read16 env a) s)))"
    "quiet (fst s) (fst (snd (ar_read (dma_read8 env a) s)))"
proof -
  have io: "bus_io_read env a' k m = (v, m') \<Longrightarrow> quiet m m'" for a' k m v m'
    using assms unfolding bus_quiet_def by (metis snd_conv)
  have io': "quiet m (snd (bus_io_read env a' k m))" for a' k m using assms by (simp add: bus_quiet_def)
  show "quiet (fst s) (fst (snd (ar_read (dma_read32 env a) s)))" "quiet (fst s) (fst (snd (ar_read (dma_read16 env a) s)))"
    "quiet (fst s) (fst (snd (ar_read (dma_read8 env a) s)))"
    by (auto simp: ar_read_def dma_read32_def dma_read16_def dma_read8_def Let_def split_beta io'
        split: option.split dest: io)
qed

section \<open>The journal's invariant\<close>

definition keys :: "journal \<Rightarrow> u32 set" where
  "keys j = dom (map_of j)"

text \<open>The machine differs from \<open>m0\<close> only in journaled bytes; every journaled byte has its
  original in the journal and, outside \<open>T\<close>, what it now holds.\<close>

definition jinv :: "'io mach \<Rightarrow> nat \<Rightarrow> u32 set \<Rightarrow> 'io ar \<Rightarrow> bool" where
  "jinv m0 i T s \<longleftrightarrow>
     same_map (cpu (fst s)) (cpu m0) \<and> distinct (map fst (snd s)) \<and>
     (\<forall>a e. map_of (snd s) a = Some e \<longrightarrow> o_writers e = [i] \<and>
        (\<forall>p. read_ptr (cpu m0) a = Some p \<longrightarrow>
           o_value e = host m0 p \<and> (a \<notin> T \<longrightarrow> o_wrote e = host (fst s) p))) \<and>
     (\<forall>p. (\<forall>a\<in>keys (snd s). read_ptr (cpu m0) a \<noteq> Some p) \<longrightarrow> host (fst s) p = host m0 p)"

lemma jinv_map: "jinv m0 i T s \<Longrightarrow> same_map (cpu (fst s)) (cpu m0)"
  by (simp add: jinv_def)

lemma jinv_mono: "jinv m0 i T s \<Longrightarrow> T \<subseteq> U \<Longrightarrow> jinv m0 i U s"
  unfolding jinv_def by blast

lemma jinv_start: "jinv m i T (m, [])"
  by (simp add: jinv_def)

lemma jinv_quiet: "jinv m0 i T s \<Longrightarrow> quiet (fst s) m' \<Longrightarrow> jinv m0 i T (m', snd s)"
  using same_map_trans [of "cpu m'" "cpu (fst s)" "cpu m0"] by (simp add: jinv_def quiet_def)

lemma update_facts:
  "map_of (AList.update a e j) = (map_of j)(a \<mapsto> e)" "keys (AList.update a e j) = insert a (keys j)"
  "distinct (map fst j) \<Longrightarrow> distinct (map fst (AList.update a e j))"
  by (simp_all add: AList.update_conv' keys_def distinct_update)

lemma jinv_update:
  assumes "jinv m0 i T (m, j)" "o_writers e = [i]"
    "\<And>p. read_ptr (cpu m0) a = Some p \<Longrightarrow> o_value e = host m0 p \<and> (a \<notin> T \<longrightarrow> o_wrote e = host m p)"
  shows "jinv m0 i T (m, AList.update a e j)"
  using assms unfolding jinv_def by (auto simp: update_facts)

lemma jinv_entry:
  assumes "jinv m0 i T (m, j)" "map_of j a = Some e"
  shows "o_writers e = [i]" "read_ptr (cpu m0) a = Some p \<Longrightarrow> o_value e = host m0 p"
    "read_ptr (cpu m0) a = Some p \<Longrightarrow> a \<notin> T \<Longrightarrow> o_wrote e = host m p"
  using assms by (auto simp: jinv_def)

lemma note_before_inv:
  assumes ram: "ar_ram (cpu m0) D"
    and j: "jinv m0 i T (m, j)" and D: "insert a (keys j) \<subseteq> D" and T: "a \<in> T"
  shows "\<exists>j'. note_before env i a (m, j) = (m, j') \<and> keys j' = insert a (keys j) \<and> jinv m0 i T (m, j')"
proof (cases "map_of j a")
  case (Some e)
  have w: "o_writers e = [i]" using jinv_entry(1) [OF j Some] .
  then have "note_before env i a (m, j) = (m, AList.update a e j)" by (simp add: note_before_def Some)
  moreover have "jinv m0 i T (m, AList.update a e j)"
    using jinv_entry [OF j Some] by (intro jinv_update [OF j]) auto
  ultimately show ?thesis by (simp add: update_facts)
next
  case None
  have same: "same_map (cpu m) (cpu m0)" using jinv_map [OF j] by simp
  obtain p where p: "read_ptr (cpu m0) a = Some p" "read_ptr (cpu m) a = Some p"
    using ar_ram_ptr [OF ram same, of a] D by blast
  note r = dma_read8_plain [OF p(2), of env]
  let ?e = "new_original\<lparr> o_value := host m p, o_writers := [i] \<rparr>"
  have "note_before env i a (m, j) = (m, AList.update a ?e j)"
    by (simp add: note_before_def None r new_original_def)
  moreover have "jinv m0 i T (m, AList.update a ?e j)"
  proof (rule jinv_update [OF j])
    fix q assume q: "read_ptr (cpu m0) a = Some q"
    have "a \<notin> keys j" using None by (simp add: keys_def domIff)
    then have "\<forall>b\<in>keys j. read_ptr (cpu m0) b \<noteq> Some q"
      using ram D q unfolding ar_ram_def alias_free_def by blast
    then have "host m q = host m0 q" using j by (simp add: jinv_def)
    then show "o_value ?e = host m0 q \<and> (a \<notin> T \<longrightarrow> o_wrote ?e = host m q)" using T p(1) q by simp
  qed simp
  ultimately show ?thesis by (simp add: update_facts)
qed

lemma note_after_inv:
  assumes ram: "ar_ram (cpu m0) D" and j: "jinv m0 i T (m, j)" and a: "a \<in> keys j" "a \<in> D"
  shows "\<exists>j'. note_after env a (m, j) = (m, j') \<and> keys j' = keys j \<and> jinv m0 i (T - {a}) (m, j')"
proof -
  have same: "same_map (cpu m) (cpu m0)" using jinv_map [OF j] by simp
  obtain e where e: "map_of j a = Some e" using a by (auto simp: keys_def)
  obtain p where p: "read_ptr (cpu m0) a = Some p" "read_ptr (cpu m) a = Some p"
    using ar_ram_ptr [OF ram same a(2)] by blast
  let ?e = "e\<lparr> o_wrote := host m p \<rparr>"
  have n: "note_after env a (m, j) = (m, AList.update a ?e j)"
    by (simp add: note_after_def dma_read8_plain [OF p(2)] entry_of_def e)
  have "jinv m0 i (T - {a}) (m, AList.update a ?e j)"
    using j jinv_entry [OF j e] p(1) unfolding jinv_def by (auto simp: update_facts)
  then show ?thesis using n a by (auto simp: update_facts)
qed

lemma note_before_fold:
  assumes ram: "ar_ram (cpu m0) D"
  shows "jinv m0 i T (m, j) \<Longrightarrow> set as \<union> keys j \<subseteq> D \<Longrightarrow> set as \<subseteq> T \<Longrightarrow>
    \<exists>j'. fold (note_before env i) as (m, j) = (m, j') \<and> keys j' = set as \<union> keys j \<and> jinv m0 i T (m, j')"
proof (induction as arbitrary: j)
  case (Cons a as)
  from note_before_inv [OF ram Cons.prems(1), of a env] Cons.prems(2,3) obtain j1
    where j1: "note_before env i a (m, j) = (m, j1)" "keys j1 = insert a (keys j)" "jinv m0 i T (m, j1)" by auto
  from Cons.IH [OF j1(3)] Cons.prems(2,3) j1(1,2) show ?case by simp
qed simp

lemma note_after_fold:
  assumes ram: "ar_ram (cpu m0) D"
  shows "jinv m0 i T (m, j) \<Longrightarrow> set as \<subseteq> keys j \<Longrightarrow> keys j \<subseteq> D \<Longrightarrow>
    \<exists>j'. fold (note_after env) as (m, j) = (m, j') \<and> keys j' = keys j \<and> jinv m0 i (T - set as) (m, j')"
proof (induction as arbitrary: j T)
  case (Cons a as)
  from note_after_inv [OF ram Cons.prems(1), of a env] Cons.prems(2,3) obtain j1
    where j1: "note_after env a (m, j) = (m, j1)" "keys j1 = keys j" "jinv m0 i (T - {a}) (m, j1)" by auto
  have T: "T - set (a # as) = T - {a} - set as" by auto
  have "set as \<subseteq> keys j1" "keys j1 \<subseteq> D" using Cons.prems(2,3) j1(2) by simp_all
  from Cons.IH [OF j1(3) this] j1(1,2) show ?case unfolding T by simp
qed simp

text \<open>A store whose bytes are all in the journal.\<close>

lemma store_inv:
  assumes ram: "ar_ram (cpu m0) D"
    and j: "jinv m0 i T (m, j)" and D: "keys j \<subseteq> D"
    and st: "plain_store a len st" and sp: "set (span a len) \<subseteq> keys j" "set (span a len) \<subseteq> T"
  shows "jinv m0 i T (st m, j)"
proof (cases "span a len = []")
  case True
  then have "quiet m (st m)" using st ram jinv_map [OF j] by (auto simp: plain_store_def)
  then show ?thesis using jinv_quiet [OF j] by simp
next
  case False
  have spD: "set (span a len) \<subseteq> D" using sp(1) D by blast
  have al: "aligned a len" using st by (simp add: plain_store_def)
  obtain p upd where u: "read_ptr (cpu m0) a = Some p" "store_only p len upd" "host (st m) = upd (host m)"
    "same_map (cpu (st m)) (cpu m)"
    using st [unfolded plain_store_def] ram jinv_map [OF j] spD False by (metis fst_conv)
  note sp_eq = span_aligned(1) [OF al False]
  have covered: "\<exists>b\<in>set (span a len). read_ptr (cpu m0) b = Some q" if "upd (host m) q \<noteq> host m q" for q
  proof -
    have "\<exists>k<len. q = p + of_nat k"
    proof (rule ccontr)
      assume "\<not> (\<exists>k<len. q = p + of_nat k)"
      then have "upd (host m) q = host m q" using u(2) by (simp add: store_only_def)
      with that show False by simp
    qed
    then obtain k where "k < len" "q = p + of_nat k" by auto
    then have "a + of_nat k \<in> set (span a len)" "read_ptr (cpu m0) (a + of_nat k) = Some q"
      using aligned_ptr [OF al, of k "cpu m0"] u(1) unfolding sp_eq by (auto simp del: of_nat_simps)
    then show ?thesis by blast
  qed
  have same: "upd (host m) q = host m q" if "read_ptr (cpu m0) b = Some q" "b \<in> keys j" "b \<notin> T" for b q
  proof (rule ccontr)
    assume "upd (host m) q \<noteq> host m q"
    from covered [OF this] obtain b' where "b' \<in> set (span a len)" "read_ptr (cpu m0) b' = Some q" by blast
    with sp D ram that show False unfolding ar_ram_def alias_free_def by blast
  qed
  have out: "upd (host m) q = host m q" if "\<forall>b\<in>keys j. read_ptr (cpu m0) b \<noteq> Some q" for q
    using covered [of q] sp(1) that by blast
  have "same_map (cpu (st m)) (cpu m0)" using same_map_trans [OF u(4)] jinv_map [OF j] by simp
  then show ?thesis
    using j same out unfolding jinv_def fst_conv snd_conv u(3) by (auto simp: keys_def domI)
qed

lemma journaled_inv:
  assumes ram: "ar_ram (cpu m0) D"
    and j: "jinv m0 i {} s" and st: "plain_store a len st"
    and D: "keys (snd (journaled env (Some i) a len st s)) \<subseteq> D"
    and grow: "set (span a len) \<union> keys (snd s) \<subseteq> keys (snd (journaled env (Some i) a len st s))"
  shows "jinv m0 i {} (journaled env (Some i) a len st s)"
proof -
  obtain m j where s: "s = (m, j)" by fastforce
  let ?sp = "span a len"
  have sub: "set ?sp \<union> keys j \<subseteq> D" using subset_trans [OF grow D] unfolding s snd_conv .
  with note_before_fold [OF ram jinv_mono [OF assms(2) empty_subsetI, of "set ?sp", unfolded s]]
  obtain j1 where j1: "fold (note_before env i) ?sp (m, j) = (m, j1)" "keys j1 = set ?sp \<union> keys j"
      "jinv m0 i (set ?sp) (m, j1)" by blast
  have "jinv m0 i (set ?sp) (st m, j1)"
    by (rule store_inv [OF ram j1(3) _ st]) (use j1(2) sub in auto)
  from note_after_fold [OF ram this, of ?sp env] j1(2) sub obtain j2
    where "fold (note_after env) ?sp (st m, j1) = (st m, j2)" "jinv m0 i {} (st m, j2)" by auto
  then show ?thesis by (simp add: journaled_def s j1(1))
qed

lemma note_keys:
  "keys (snd (fold (note_before env i) as s)) = set as \<union> keys (snd s)"
  "keys (snd (fold (note_after env) as s)) = set as \<union> keys (snd s)"
proof -
  have b: "keys (snd (note_before env i a s)) = insert a (keys (snd s))" for a s
    by (simp add: note_before_def Let_def update_facts split: prod.split)
  have f: "keys (snd (note_after env a s)) = insert a (keys (snd s))" for a s
    by (simp add: note_after_def Let_def update_facts split: prod.split)
  show "keys (snd (fold (note_before env i) as s)) = set as \<union> keys (snd s)"
    by (induction as arbitrary: s) (simp_all add: b del: split_paired_All)
  show "keys (snd (fold (note_after env) as s)) = set as \<union> keys (snd s)"
    by (induction as arbitrary: s) (simp_all add: f)
qed

lemma journaled_keys:
  "keys (snd (journaled env (Some i) a len st s)) = set (span a len) \<union> keys (snd s)"
proof -
  obtain m1 j1 where f: "fold (note_before env i) (span a len) s = (m1, j1)" by fastforce
  have "keys j1 = set (span a len) \<union> keys (snd s)" using note_keys(1) [of env i "span a len" s] f by simp
  then show ?thesis using note_keys(2) [of env "span a len" "(st m1, j1)"] by (auto simp: journaled_def f)
qed


section \<open>A whole run, and undoing it\<close>

definition undo_rel :: "u32 set \<Rightarrow> 'io mach \<Rightarrow> nat \<Rightarrow> 'io ar \<Rightarrow> 'io ar \<Rightarrow> bool" where
  "undo_rel D m0 i s t \<longleftrightarrow>
     keys (snd s) \<subseteq> keys (snd t) \<and> (ar_ram (cpu m0) D \<and> keys (snd t) \<subseteq> D \<longrightarrow> jinv m0 i {} s \<longrightarrow> jinv m0 i {} t)"

text \<open>The accesses over an environment that may break the promise: the relation asks nothing of them then.\<close>

definition quiet_rel :: "'io env \<Rightarrow> u32 set \<Rightarrow> 'io mach \<Rightarrow> nat \<Rightarrow> 'io ar \<Rightarrow> 'io ar \<Rightarrow> bool" where
  "quiet_rel env D m0 i s t \<longleftrightarrow> (bus_quiet env \<longrightarrow> undo_rel D m0 i s t)"

lemma undo_rel_journaled:
  assumes "plain_store a len st"
  shows "undo_rel D m0 i s (journaled env (Some i) a len st s)"
  using journaled_inv [of m0 D i s a len st env] assms journaled_keys [of env i a len st s]
  by (simp add: undo_rel_def)

lemma undo_rel_read:
  assumes "quiet (fst s) (fst (snd (ar_read rd s)))"
  shows "undo_rel D m0 i s (snd (ar_read rd s))"
proof -
  have k: "snd (snd (ar_read rd s)) = snd s" by (simp add: ar_read_def split: prod.split)
  then have "snd (ar_read rd s) = (fst (snd (ar_read rd s)), snd s)" by (simp add: prod_eq_iff)
  then show ?thesis
    using jinv_quiet [OF _ assms, of m0 i "{}"] k unfolding undo_rel_def by auto
qed

interpretation undo: ar_writes env "Some i" "quiet_rel env D m0 i"
proof
  show "quiet_rel env D m0 i s s" for s by (simp add: quiet_rel_def undo_rel_def)
  show "quiet_rel env D m0 i s t \<Longrightarrow> quiet_rel env D m0 i t u \<Longrightarrow> quiet_rel env D m0 i s u" for s t u
    unfolding quiet_rel_def undo_rel_def by blast
  show "quiet_rel env D m0 i s (ar_write32 env (Some i) a x s)" for s a x
    unfolding quiet_rel_def ar_write32_def by (intro impI undo_rel_journaled bus_writes_plain(1))
  show "quiet_rel env D m0 i s (ar_write16 env (Some i) a h s)" for s a h
    unfolding quiet_rel_def ar_write16_def by (intro impI undo_rel_journaled bus_writes_plain(2))
  show "quiet_rel env D m0 i s (ar_write8 env (Some i) a b s)" for s a b
    unfolding quiet_rel_def ar_write8_def by (intro impI undo_rel_journaled bus_writes_plain(3))
  show "quiet_rel env D m0 i s (snd (ar_read (dma_read32 env a) s))" for s a
    unfolding quiet_rel_def by (intro impI undo_rel_read reads_plain(1))
  show "quiet_rel env D m0 i s (snd (ar_read (dma_read16 env a) s))" for s a
    unfolding quiet_rel_def by (intro impI undo_rel_read reads_plain(2))
  show "quiet_rel env D m0 i s (snd (ar_read (dma_read8 env a) s))" for s a
    unfolding quiet_rel_def by (intro impI undo_rel_read reads_plain(3))
qed

text \<open>Restoring one entry.\<close>

lemma restore_inv:
  assumes env: "bus_quiet env" and ram: "ar_ram (cpu m0) (insert a (keys j))"
    and inv: "jinv m0 i {} (m, (a, e) # j)"
  shows "jinv m0 i {} (restore env a e m, j)"
proof -
  have same: "same_map (cpu m) (cpu m0)" using jinv_map [OF inv] by simp
  have e: "map_of ((a, e) # j) a = Some e" by simp
  have new: "a \<notin> keys j" using inv by (auto simp: jinv_def keys_def dom_map_of_conv_image_fst)
  have tail: "map_of ((a, e) # j) b = Some x" if "map_of j b = Some x" for b x
    using that new by (auto simp: keys_def)
  obtain p code where p: "read_ptr (cpu m0) a = Some p" "read_ptr (cpu m) a = Some p" "write_ptr (cpu m) a = Some (p, code)"
    using ar_ram_ptr [OF ram same, of a] by blast
  have v: "o_value e = host m0 p" "o_wrote e = host m p" using jinv_entry [OF inv e] p(1) by auto
  let ?r = "restore env a e m"
  have "?r = store_host env p code 1 (st8 p (host m0 p)) m"
    using dma_read8_plain [OF p(2), of env] p(3) v by (simp add: restore_def dma_write8_def)
  then have r: "host ?r = st8 p (host m0 p) (host m)" "same_map (cpu ?r) (cpu m)"
    using store_host_plain [OF env stores_only(1), of p code "host m0 p" m] by simp_all
  have other: "q \<noteq> p" if "b \<in> keys j" "read_ptr (cpu m0) b = Some q" for b q
    using ram that p(1) new unfolding ar_ram_def alias_free_def by blast
  have kept: "map_of j b = Some x \<Longrightarrow> b \<in> keys j" for b x by (auto simp: keys_def)
  have out: "q = p \<or> host m q = host m0 q" if "\<forall>b\<in>keys j. read_ptr (cpu m0) b \<noteq> Some q" for q
    using inv that p(1) unfolding jinv_def by (auto simp: keys_def)
  show ?thesis
    unfolding jinv_def fst_conv snd_conv
  proof (intro conjI allI impI)
    show "same_map (cpu ?r) (cpu m0)" by (rule same_map_trans [OF r(2) same])
    show "distinct (map fst j)" using inv by (simp add: jinv_def)
    fix b x assume bx: "map_of j b = Some x"
    note t = jinv_entry [OF inv tail [OF bx]]
    show "o_writers x = [i]" using t(1) .
    fix q assume q: "read_ptr (cpu m0) b = Some q"
    show "o_value x = host m0 q" using t(2) q .
    show "o_wrote x = host ?r q" using t(3) [OF q] other [OF kept [OF bx] q] r(1) by (simp add: st8_def)
  next
    fix q assume "\<forall>b\<in>keys j. read_ptr (cpu m0) b \<noteq> Some q"
    then show "host ?r q = host m0 q" using out [of q] r(1) by (auto simp: st8_def)
  qed
qed

lemma revert_all:
  assumes env: "bus_quiet env"
  shows "ar_ram (cpu m0) (keys j) \<Longrightarrow> jinv m0 i {} (m, j) \<Longrightarrow>
    \<exists>m2. fold (revert_entry env i) j (m, []) = (m2, []) \<and> quiet m0 m2"
proof (induction j arbitrary: m)
  case Nil
  have "host m = host m0" "same_map (cpu m) (cpu m0)" using Nil(2) by (auto simp: jinv_def keys_def)
  then show ?case by (simp add: quiet_def)
next
  case (Cons ae j)
  obtain a e where ae: "ae = (a, e)" by fastforce
  have "o_writers e = [i]" using jinv_entry(1) [OF Cons.prems(2) [unfolded ae], of a e] by simp
  moreover have ram: "ar_ram (cpu m0) (insert a (keys j))" using Cons.prems(1) by (simp add: keys_def ae)
  moreover have "jinv m0 i {} (restore env a e m, j)"
    using restore_inv [OF env ram Cons.prems(2) [unfolded ae]] .
  moreover have "restore env a (e\<lparr> o_writers := [] \<rparr>) m = restore env a e m"
    by (simp add: restore_def split: prod.split)
  moreover have "ar_ram (cpu m0) (keys j)" using ar_ram_mono [OF ram] by blast
  ultimately show ?case using Cons.IH [of "restore env a e m"] by (simp add: ae)
qed

lemma undo_run:
  assumes "bus_quiet env" "c_analog c" "run_tracked env c (Some i) (m, []) = (why, m1, j1)" "ar_ram (cpu m) (keys j1)"
  shows "\<exists>m2. revert env i (m1, j1) = (m2, []) \<and> quiet m m2"
proof -
  have "undo_rel (keys j1) m i (m, []) (m1, j1)"
    using undo.run_rel [of c "Some i" i env "keys j1" m "(m, [])"] assms(1-3) by (simp add: quiet_rel_def)
  then have "jinv m i {} (m1, j1)" using assms(4) jinv_start by (auto simp: undo_rel_def)
  from revert_all [OF assms(1,4) this] show ?thesis by (simp add: revert_def)
qed

section \<open>Two frames of the engine\<close>

lemma apply_disabled:
  "\<forall>k\<in>set ks. \<not> c_enabled (codes e ! k) \<Longrightarrow> fold (apply_one env) ks (m, e) = (m, e)"
  by (induction ks) (simp_all add: apply_one_def)

lemma upt_split: "i < n \<Longrightarrow> [0..<n] = [0..<i] @ i # [Suc i..<n]"
  using upt_add_eq_append [of 0 i "n - i"] by (simp add: upt_rec [of i])

lemma apply_only:
  assumes "i < n" "\<And>k. k < n \<Longrightarrow> k \<noteq> i \<Longrightarrow> \<not> c_enabled (codes e ! k)"
    "codes (snd (apply_one env i (m, e))) = codes e"
  shows "fold (apply_one env) [0..<n] (m, e) = apply_one env i (m, e)"
proof -
  obtain m1 e1 where a: "apply_one env i (m, e) = (m1, e1)" by fastforce
  have "fold (apply_one env) [0..<i] (m, e) = (m, e)"
    by (rule apply_disabled) (use assms(1,2) in auto)
  moreover have "fold (apply_one env) [Suc i..<n] (m1, e1) = (m1, e1)"
    by (rule apply_disabled) (use assms a in auto)
  ultimately show ?thesis by (simp add: upt_split [OF assms(1)] a)
qed

text \<open>The undo pass records which codes are on; it reverts only those that went off.\<close>

lemma undo_quiet:
  assumes "\<forall>k\<in>set ks. \<not> (was_enabled e ! k \<and> \<not> c_enabled (codes e ! k))" "distinct ks"
    "\<forall>k\<in>set ks. k < length (was_enabled e)"
  shows "\<exists>w. fold (undo_one env) ks (m, e) = (m, e\<lparr> was_enabled := w \<rparr>) \<and> length w = length (was_enabled e) \<and>
    (\<forall>k<length w. w ! k = (if k \<in> set ks then c_enabled (codes e ! k) else was_enabled e ! k))"
  using assms
proof (induction ks arbitrary: e)
  case Nil
  then show ?case by (intro exI [of _ "was_enabled e"]) simp
next
  case (Cons k ks)
  let ?e = "e\<lparr> was_enabled := (was_enabled e)[k := c_enabled (codes e ! k)] \<rparr>"
  have u: "undo_one env k (m, e) = (m, ?e)" using Cons.prems(1) by (auto simp: undo_one_def)
  have "\<exists>w. fold (undo_one env) ks (m, ?e) = (m, ?e\<lparr> was_enabled := w \<rparr>) \<and> length w = length (was_enabled ?e) \<and>
    (\<forall>j<length w. w ! j = (if j \<in> set ks then c_enabled (codes ?e ! j) else was_enabled ?e ! j))"
    by (rule Cons.IH) (use Cons.prems in \<open>auto simp: nth_list_update\<close>)
  then obtain w where w: "fold (undo_one env) ks (m, ?e) = (m, e\<lparr> was_enabled := w \<rparr>)"
    "length w = length (was_enabled e)"
    "\<forall>j<length w. w ! j = (if j \<in> set ks then c_enabled (codes e ! j)
       else (was_enabled e)[k := c_enabled (codes e ! k)] ! j)" by auto
  then show ?case
    using Cons.prems(2,3) by (intro exI [of _ w]) (auto simp: u nth_list_update)
qed

definition enable_only :: "nat \<Rightarrow> engine \<Rightarrow> bool" where
  "enable_only i e \<longleftrightarrow> i < length (codes e) \<and> c_enabled (codes e ! i) \<and>
     (\<forall>k<length (codes e). k \<noteq> i \<longrightarrow> \<not> c_enabled (codes e ! k))"

definition all_off :: "engine \<Rightarrow> engine" where
  "all_off e = e\<lparr> codes := map (\<lambda>c. c\<lparr> c_enabled := False \<rparr>) (codes e) \<rparr>"

lemma first_frame:
  assumes "enable_only i e" "was_enabled e = []" "carried_list e = []" "originals e = []"
    "run_tracked env (codes e ! i) (Some i) (m, []) = (why, m1, j1)"
  shows "\<exists>e1. engine_run env (m, e) = (m1, e1) \<and> codes e1 = codes e \<and> originals e1 = j1 \<and> carried_list e1 = [] \<and>
    length (was_enabled e1) = length (codes e) \<and> (\<forall>k<length (codes e). was_enabled e1 ! k = (k = i))"
proof -
  let ?n = "length (codes e)"
  let ?e = "e\<lparr> complained := assign_flags ?n (complained e), was_enabled := assign_flags ?n (was_enabled e) \<rparr>"
  have n: "i < ?n" "codes e \<noteq> []" using assms(1) by (auto simp: enable_only_def)
  have we: "assign_flags ?n (was_enabled e) = replicate ?n False" using assms(2) n by (simp add: assign_flags_def)
  obtain w where w: "fold (undo_one env) [0..<?n] (m, ?e) = (m, ?e\<lparr> was_enabled := w \<rparr>)" "length w = ?n"
    "\<forall>k<?n. w ! k = c_enabled (codes e ! k)"
    using undo_quiet [of "[0..<?n]" ?e env m] by (auto simp: we)
  let ?f = "?e\<lparr> was_enabled := w \<rparr>"
  obtain e1 where a: "apply_one env i (m, ?f) = (m1, e1)" "codes e1 = codes e" "originals e1 = j1"
    "carried_list e1 = []" "was_enabled e1 = w"
    using assms by (auto simp: apply_one_def enable_only_def Let_def)
  have "fold (apply_one env) [0..<?n] (m, ?f) = (m1, e1)"
    using apply_only [OF n(1), of ?f env m] assms(1) a by (simp add: enable_only_def)
  then have "engine_run env (m, e) = (m1, e1)"
    using assms(3) n(2) by (simp add: engine_run_def Let_def w(1))
  then show ?thesis using a w assms(1) by (auto simp: enable_only_def)
qed

lemma second_frame:
  assumes "i < length (codes e1)" "carried_list e1 = []" "length (was_enabled e1) = length (codes e1)"
    "\<forall>k<length (codes e1). was_enabled e1 ! k = (k = i)" "revert env i (m1, originals e1) = (m, [])"
  shows "\<exists>e2. engine_run env (m1, all_off e1) = (m, e2) \<and> originals e2 = []"
proof -
  let ?n = "length (codes e1)"
  let ?e = "(all_off e1)\<lparr> complained := assign_flags ?n (complained e1) \<rparr>"
  have cd: "codes ?e = map (\<lambda>c. c\<lparr> c_enabled := False \<rparr>) (codes e1)" "was_enabled ?e = was_enabled e1"
    "originals ?e = originals e1" "carried_list ?e = []" by (simp_all add: all_off_def assms(2))
  obtain w where w: "fold (undo_one env) [0..<i] (m1, ?e) = (m1, ?e\<lparr> was_enabled := w \<rparr>)" "length w = ?n"
    "\<forall>k<?n. w ! k = (if k < i then False else k = i)"
    using undo_quiet [of "[0..<i]" ?e env m1] assms(1,3,4) by (auto simp: cd)
  let ?f = "?e\<lparr> was_enabled := w[i := False], originals := [] \<rparr>"
  have u: "undo_one env i (m1, ?e\<lparr> was_enabled := w \<rparr>) = (m, ?f)"
    using w assms(1,5) by (simp add: undo_one_def cd Let_def) (simp add: all_off_def)
  obtain v where v: "fold (undo_one env) [Suc i..<?n] (m, ?f) = (m, ?f\<lparr> was_enabled := v \<rparr>)"
    using undo_quiet [of "[Suc i..<?n]" ?f env m] w(2,3) by (auto simp: nth_list_update)
  have "fold (apply_one env) [0..<?n] (m, ?f\<lparr> was_enabled := v \<rparr>) = (m, ?f\<lparr> was_enabled := v \<rparr>)"
    by (rule apply_disabled) (auto simp: all_off_def)
  moreover have "engine_run env (m1, all_off e1) =
      fold (apply_one env) [0..<?n] (fold (undo_one env) [0..<?n] (m1, ?e))"
    using assms(1,2,3) by (auto simp: engine_run_def Let_def all_off_def assign_flags_def)
  ultimately have "engine_run env (m1, all_off e1) = (m, ?f\<lparr> was_enabled := v \<rparr>)"
    by (simp only: upt_split [OF assms(1)] fold_append fold_simps comp_apply w(1) u v)
  then show ?thesis by simp
qed

text \<open>C12: Disabling an analog code puts guest memory back.  A frame in which one analog code is
  on, then a frame in which it has been switched off: whatever instructions the code ran
  (conditions, loops, block writes, memory copies, reads of device registers) and however it stopped, the
  second frame leaves every byte of memory as it was before the first, the memory map as it was, and the journal
  empty.  It is asked that every byte the code wrote was writable memory reached through one of the
  written addresses only (\<open>ar_ram\<close>), and that reading a device register, or telling the recompiler of a
  store, changes no memory and no mapping (\<open>bus_quiet\<close>).\<close>

theorem disable_restores:
  assumes "bus_quiet env" "enable_only i e" "c_analog (codes e ! i)"
    "was_enabled e = []" "carried_list e = []" "originals e = []"
    "engine_run env (m, e) = (m1, e1)" "ar_ram (cpu m) (keys (originals e1))"
  shows "\<exists>m2 e2. engine_run env (m1, all_off e1) = (m2, e2) \<and> host m2 = host m \<and> same_map (cpu m2) (cpu m) \<and> originals e2 = []"
proof -
  obtain why m' j' where r: "run_tracked env (codes e ! i) (Some i) (m, []) = (why, m', j')"
    by (metis prod_cases3)
  from first_frame [OF assms(2,4,5,6) r] assms(7) have e1: "m1 = m'" "originals e1 = j'" "codes e1 = codes e"
    "carried_list e1 = []" "length (was_enabled e1) = length (codes e1)"
    "\<forall>k<length (codes e1). was_enabled e1 ! k = (k = i)" by auto
  obtain m2 where m2: "revert env i (m1, originals e1) = (m2, [])" "quiet m m2"
    using undo_run [OF assms(1,3) r] assms(8) e1(1,2) by auto
  with second_frame [of i e1 env m1 m2] e1 assms(2) show ?thesis by (auto simp: enable_only_def quiet_def)
qed

text \<open>One page of main RAM, and a code that writes an instruction to it.\<close>

definition page_mach :: "unit mach" where
  "page_mach = zero_mach\<lparr> cpu := zero_cpu\<lparr> which := ARM7, page_table := (\<lambda>p. if p = 0x4000 then 1 else 0) \<rparr> \<rparr>"

definition patch_code :: code where
  "patch_code = \<lparr> c_name = ''patch'', c_description = [], c_group = 0, c_enabled = True, c_analog = True,
     c_words = [0x02000000, 0xE1A0F00E, 0xD2000000, 0] \<rparr>"

lemma page_read_ptr:
  "read_ptr (cpu page_mach) a = (if drop_bit 11 a = 0x4000 then Some (4 + ucast a) else None)"
proof -
  have "(4::u64) + ucast a = ucast a + 4" by simp
  then show ?thesis by (auto simp: read_ptr_def entry_def entry_ptr_def page_mach_def zero_mach_def Let_def)
qed

lemma page_write_ptr:
  "write_ptr (cpu page_mach) a = (if drop_bit 11 a = 0x4000 then Some (4 + ucast a, False) else None)"
proof -
  have "(4::u64) + ucast a = ucast a + 4" by simp
  then show ?thesis
    by (auto simp: write_ptr_def entry_def entry_ptr_def page_mach_def zero_mach_def Let_def
        TAG_SPECIAL_def TAG_CODE_def tst_def)
qed

lemma page_ram: "bus_quiet zero_env" "(\<forall>a\<in>D. drop_bit 11 a = 0x4000) \<Longrightarrow> ar_ram (cpu page_mach) D"
proof -
  show "bus_quiet zero_env" by (simp add: bus_quiet_def zero_env_def)
  have top: "drop_bit 11 a \<noteq> 0x4000" if "0xFFFFFFFC \<le> (a::u32)" for a
  proof
    assume d: "drop_bit 11 a = 0x4000"
    have "unat (drop_bit 11 a) = unat a div 2048"
      using unsigned_drop_bit_eq [of 11 a, where 'a = nat] unat_lt32 [of a]
      by (simp only: drop_bit_eq_div take_bit_eq_mod) simp
    with d have "unat a div 2048 = 0x4000" by simp
    then show False using that by (simp add: word_le_nat_alt)
  qed
  have "unat (ucast a :: u64) = unat a" for a :: u32
    using unat_lt32 [of a] by (simp add: unsigned_ucast_eq take_bit_nat_eq_self)
  then have "(ucast a :: u64) = ucast b \<Longrightarrow> a = b" for a b :: u32 by (metis word_unat_eq_iff)
  then show "(\<forall>a\<in>D. drop_bit 11 a = 0x4000) \<Longrightarrow> ar_ram (cpu page_mach) D"
    using top by (auto simp: ar_ram_def alias_free_def page_read_ptr page_write_ptr)
qed

lemma patch_run:
  "snd (run_tracked zero_env patch_code (Some 0) (page_mach, [])) = ar_write32 zero_env (Some 0) 0x02000000 0xE1A0F00E (page_mach, [])"
  by (simp add: run_tracked_def patch_code_def ar_loop.simps [of _ _ _ _ 0] ar_loop.simps [of _ _ _ _ "Suc 0"]
      ar_loop.simps [of _ _ _ _ "Suc (Suc 0)"] vm_start_def MAX_STEPS_def ar_exec_def runs_always_def Let_def
      ar_exec_write_def ar_exec_d_def next_or_def)

lemma patch_writes: "host (fst (snd (run_tracked zero_env patch_code (Some 0) (page_mach, [])))) 0x02000004 = 0x0E"
  unfolding patch_run
  by (simp add: ar_write32_def journaled_def span_def note_before_def note_after_def dma_read8_def
      page_read_ptr dma_write32_def page_write_ptr upt_rec store_host_def st32_def)

lemma patch_keys: "\<forall>a\<in>keys (snd (snd (run_tracked zero_env patch_code (Some 0) (page_mach, [])))). drop_bit 11 a = 0x4000"
  unfolding patch_run ar_write32_def journaled_keys
  by (simp add: span_def upt_rec keys_def)

definition patch_engine :: engine where
  "patch_engine = \<lparr> codes = [patch_code], complained = [], was_enabled = [], originals = [], carried_list = [] \<rparr>"

theorem disable_restores_witness:
  "host (fst (engine_run zero_env (page_mach, patch_engine))) 0x02000004 \<noteq> host page_mach 0x02000004 \<and>
   (\<exists>m2 e2. engine_run zero_env (fst (engine_run zero_env (page_mach, patch_engine)),
       all_off (snd (engine_run zero_env (page_mach, patch_engine)))) = (m2, e2) \<and> host m2 = host page_mach \<and> originals e2 = [])"
proof -
  obtain m1 e1 where r: "engine_run zero_env (page_mach, patch_engine) = (m1, e1)" by fastforce
  have on: "enable_only 0 patch_engine" "c_analog (codes patch_engine ! 0)" "was_enabled patch_engine = []"
    "carried_list patch_engine = []" "originals patch_engine = []" "codes patch_engine ! 0 = patch_code"
    by (simp_all add: enable_only_def patch_engine_def patch_code_def)
  obtain why m' j' where t: "run_tracked zero_env patch_code (Some 0) (page_mach, []) = (why, m', j')"
    by (metis prod_cases3)
  have e1: "m1 = m'" "originals e1 = j'" using first_frame [OF on(1,3,4,5), of zero_env page_mach why m' j'] t r on(6) by auto
  moreover have "host m' 0x02000004 = 0x0E" using patch_writes unfolding t by simp
  moreover have "host page_mach 0x02000004 = 0" by (simp add: page_mach_def zero_mach_def)
  moreover have "ar_ram (cpu page_mach) (keys (originals e1))"
    using page_ram(2) patch_keys e1(2) unfolding t by simp
  ultimately show ?thesis
    using disable_restores [OF page_ram(1) on(1-5) r] by (auto simp: r)
qed

end
