(* ===== verification/JournalSpec.thy ===== *)
theory JournalSpec imports ArSpec begin

text \<open>
  The cheat journal in a save state (\<^verbatim>\<open>save_journal\<close>, \<^verbatim>\<open>load_journal\<close> and \<^verbatim>\<open>settle_carried\<close> of
  \<^verbatim>\<open>src/core/cheat/ar_engine.cpp\<close>): saving, loading into an engine that has forgotten
  everything and letting the next frame match the writers against the enabled codes gives
  the journal back.
\<close>

section \<open>Loading the bytes\<close>

definition saved_entry :: "original \<Rightarrow> nat list \<Rightarrow> original" where
  "saved_entry e ws = \<lparr> o_value = o_value e, o_wrote = o_wrote e, o_writers = ws \<rparr>"

lemma load_bytes:
  assumes "distinct addrs" "\<forall>a\<in>set addrs. a \<notin> keys j"
  shows "map_of (fold load_byte (zip addrs (zip (map f addrs) (map g addrs))) j) b =
    (if b \<in> set addrs then Some \<lparr> o_value = f b, o_wrote = g b, o_writers = [] \<rparr> else map_of j b)"
  using assms
proof (induction addrs arbitrary: j)
  case (Cons a addrs)
  let ?j = "load_byte (a, f a, g a) j"
  have "map_of j a = None" using Cons.prems(2) by (simp add: keys_def domIff)
  then have j: "map_of ?j = (map_of j)(a \<mapsto> \<lparr> o_value = f a, o_wrote = g a, o_writers = [] \<rparr>)"
    by (simp add: load_byte_def entry_of_def new_original_def update_facts)
  have "\<forall>b\<in>set addrs. b \<notin> keys ?j" using Cons.prems j by (auto simp: keys_def)
  from Cons.IH [OF _ this] Cons.prems(1) j show ?case by auto
qed simp

section \<open>Matching the writers\<close>

lemma add_writers:
  assumes "distinct as" "set as \<subseteq> keys j"
  shows "map_of (fold (add_writer i) as j) b =
    (if b \<in> set as then map_option (\<lambda>e. e\<lparr> o_writers := o_writers e @ [i] \<rparr>) (map_of j b) else map_of j b)"
  using assms
proof (induction as arbitrary: j)
  case (Cons a as)
  obtain e where e: "map_of j a = Some e" using Cons.prems(2) by (auto simp: keys_def)
  have j: "map_of (add_writer i a j) = (map_of j)(a \<mapsto> e\<lparr> o_writers := o_writers e @ [i] \<rparr>)"
    by (simp add: add_writer_def entry_of_def e update_facts)
  then have "keys (add_writer i a j) = insert a (keys j)" by (simp add: keys_def)
  then have "set as \<subseteq> keys (add_writer i a j)" using Cons.prems(2) by auto
  from Cons.IH [OF _ this] Cons.prems(1) j e show ?case by auto
qed simp

lemma count_distinct: "distinct xs \<Longrightarrow> count_list xs x = (if x \<in> set xs then 1 else 0)"
  by (induction xs) auto

lemma written_by_filter:
  assumes "\<forall>a\<in>set addrs. distinct (o_writers (entry_at j a))"
  shows "written_by j addrs i = filter (\<lambda>a. i \<in> set (o_writers (entry_at j a))) addrs"
  using assms by (induction addrs) (auto simp: written_by_def count_distinct)

text \<open>After the writers \<open>is\<close> have been matched, an address has those of its writers in \<open>is\<close>.\<close>

definition matched :: "journal \<Rightarrow> nat list \<Rightarrow> journal \<Rightarrow> bool" where
  "matched j is j1 \<longleftrightarrow>
     (\<forall>a. map_of j1 a = map_option (\<lambda>e. saved_entry e (filter (\<lambda>i. i \<in> set (o_writers e)) is)) (map_of j a))"

lemma matched_step:
  assumes "matched j is j1" "distinct addrs" "set addrs = keys j"
  shows "matched j (is @ [i]) (fold (add_writer i) (filter (\<lambda>a. i \<in> set (o_writers (entry_at j a))) addrs) j1)"
proof -
  let ?as = "filter (\<lambda>a. i \<in> set (o_writers (entry_at j a))) addrs"
  have k: "keys j1 = keys j" using assms(1) by (auto simp: matched_def keys_def domIff)
  have "map_of (fold (add_writer i) ?as j1) a =
      map_option (\<lambda>e. saved_entry e (filter (\<lambda>i. i \<in> set (o_writers e)) (is @ [i]))) (map_of j a)" for a
  proof -
    have "map_of (fold (add_writer i) ?as j1) a =
      (if a \<in> set ?as then map_option (\<lambda>e. e\<lparr> o_writers := o_writers e @ [i] \<rparr>) (map_of j1 a) else map_of j1 a)"
      using assms(2,3) k by (intro add_writers) auto
    then show ?thesis
      using assms(1,3) by (cases "map_of j a") (auto simp: matched_def saved_entry_def entry_at_def keys_def)
  qed
  then show ?thesis by (simp add: matched_def)
qed

lemma adopt_all:
  assumes "\<forall>i\<in>set is. find_code (code_id (cs ! i)) cs = Some i" "distinct addrs" "set addrs = keys j"
    "\<forall>a\<in>keys j. distinct (o_writers (entry_at j a))" "matched j pre j1"
  shows "\<exists>j2. fold (adopt cs) (map (\<lambda>i. \<lparr> k_id = code_id (cs ! i), k_addrs = written_by j addrs i \<rparr>) is) (j1, []) = (j2, [])
    \<and> matched j (pre @ is) j2"
  using assms(1,5)
proof (induction "is" arbitrary: j1 pre)
  case (Cons i "is")
  have wf: "written_by j addrs i = filter (\<lambda>a. i \<in> set (o_writers (entry_at j a))) addrs"
    by (rule written_by_filter) (use assms(3,4) in simp)
  have "matched j (pre @ [i]) (fold (add_writer i) (written_by j addrs i) j1)"
    using matched_step [OF Cons.prems(2) assms(2,3), of i] by (simp add: wf)
  from Cons.IH [OF _ this] Cons.prems(1) show ?case by (simp add: adopt_def)
qed simp

section \<open>The round trip\<close>

text \<open>A journal as a run leaves it: every byte has at least one writer, the writers are distinct
  enabled codes, and no two enabled codes have the same words.\<close>

definition journal_ok :: "engine \<Rightarrow> bool" where
  "journal_ok e \<longleftrightarrow> distinct (map fst (originals e)) \<and> carried_list e = [] \<and>
     (\<forall>(a, o1)\<in>set (originals e). distinct (o_writers o1) \<and>
        (\<forall>i\<in>set (o_writers o1). find_code (code_id (codes e ! i)) (codes e) = Some i))"

text \<open>A save state keeps the cheat journal: what \<^verbatim>\<open>save_journal\<close> writes, loaded into an
  engine with the same codes that has forgotten its journal, and matched by the next frame,
  is the journal that was saved, with the original and the written value of every byte and
  the same writers (in ascending order), and no byte of guest memory is touched.\<close>

theorem journal_survives_save:
  assumes "journal_ok e"
  shows "\<exists>e1 e2. load_journal (save_journal e) (forget_writes e) = Inr e1 \<and>
    settle_carried env (m, e1) = (m, e2) \<and> carried_list e2 = [] \<and> codes e2 = codes e \<and>
    (\<forall>a. map_of (originals e2) a = map_option (\<lambda>o1. o1\<lparr> o_writers := sort (o_writers o1) \<rparr>) (map_of (originals e) a))"
proof (cases "originals e = []")
  case True
  then show ?thesis
    using assms by (auto simp: journal_ok_def save_journal_def load_journal_def forget_writes_def settle_carried_def)
next
  case False
  let ?j = "originals e" and ?cs = "codes e"
  define addrs where "addrs = sort (map fst ?j)"
  define ids where "ids = sort (remdups (concat (map (\<lambda>a. o_writers (entry_at ?j a)) addrs)))"
  define j0 where "j0 = fold load_byte (zip addrs (zip (map (\<lambda>a. o_value (entry_at ?j a)) addrs)
      (map (\<lambda>a. o_wrote (entry_at ?j a)) addrs))) []"
  define cl where "cl = map (\<lambda>i. \<lparr> k_id = code_id (?cs ! i), k_addrs = written_by ?j addrs i \<rparr>) ids"
  have d: "distinct addrs" "set addrs = keys ?j"
    using assms by (simp_all add: addrs_def journal_ok_def keys_def dom_map_of_conv_image_fst)
  have entry: "(a, o1) \<in> set ?j \<longleftrightarrow> map_of ?j a = Some o1" for a o1
    using assms by (simp add: journal_ok_def)
  have ws: "distinct (o_writers (entry_at ?j a))"
    "\<forall>i\<in>set (o_writers (entry_at ?j a)). find_code (code_id (?cs ! i)) ?cs = Some i" if k: "a \<in> keys ?j" for a
  proof -
    obtain o1 where "map_of ?j a = Some o1" using k by (auto simp: keys_def)
    then have o1: "(a, o1) \<in> set ?j" "entry_at ?j a = o1" using entry [of a o1] by (simp_all add: entry_at_def)
    have "distinct (o_writers o1) \<and> (\<forall>i\<in>set (o_writers o1). find_code (code_id (?cs ! i)) ?cs = Some i)"
      using assms o1(1) unfolding journal_ok_def by blast
    then show "distinct (o_writers (entry_at ?j a))"
      "\<forall>i\<in>set (o_writers (entry_at ?j a)). find_code (code_id (?cs ! i)) ?cs = Some i"
      by (simp_all add: o1(2))
  qed
  have ids: "sorted ids" "distinct ids" "set ids = (\<Union>a\<in>keys ?j. set (o_writers (entry_at ?j a)))"
    by (simp_all add: ids_def d)
  have "map_of j0 a = map_option (\<lambda>o1. saved_entry o1 []) (map_of ?j a)" for a
  proof -
    have "map_of j0 a = (if a \<in> set addrs then Some \<lparr> o_value = o_value (entry_at ?j a),
        o_wrote = o_wrote (entry_at ?j a), o_writers = [] \<rparr> else map_of [] a)"
      unfolding j0_def by (rule load_bytes) (use d in \<open>simp_all add: keys_def\<close>)
    then show ?thesis by (cases "map_of ?j a") (auto simp: d keys_def entry_at_def saved_entry_def)
  qed
  then have "matched ?j [] j0" by (simp add: matched_def)
  from adopt_all [OF _ d _ this, of ids ?cs] ws ids(3) obtain j2 where
    j2: "fold (adopt ?cs) cl (j0, []) = (j2, [])" "matched ?j ids j2" by (auto simp: cl_def)
  let ?e1 = "(forget_writes e)\<lparr> originals := j0, carried_list := cl \<rparr>"
  let ?e2 = "?e1\<lparr> originals := j2, carried_list := [] \<rparr>"
  have load: "load_journal (save_journal e) (forget_writes e) = Inr ?e1"
    using False assms by (simp add: save_journal_def load_journal_def forget_writes_def Let_def journal_ok_def
        addrs_def [symmetric] ids_def [symmetric] cl_def [symmetric] j0_def [symmetric])
  have settle: "settle_carried env (m, ?e1) = (m, ?e2)"
    using j2(1) by (simp add: settle_carried_def forget_writes_def)
  have "filter (\<lambda>i. i \<in> set (o_writers o1)) ids = sort (o_writers o1)" if "map_of ?j a = Some o1" for a o1
  proof -
    have a: "a \<in> keys ?j" "entry_at ?j a = o1" using that by (auto simp: keys_def entry_at_def)
    then have "set (o_writers o1) \<subseteq> set ids" using ids(3) by auto
    moreover have "distinct (o_writers o1)" using ws(1) [OF a(1)] a(2) by simp
    ultimately show ?thesis using ids(1,2)
      by (intro sorted_distinct_set_unique) (auto simp: sorted_wrt_filter)
  qed
  then have "map_of j2 a = map_option (\<lambda>o1. o1\<lparr> o_writers := sort (o_writers o1) \<rparr>) (map_of ?j a)" for a
    using j2(2) by (cases "map_of ?j a") (auto simp: matched_def saved_entry_def)
  with load settle show ?thesis by (intro exI [of _ ?e1] exI [of _ ?e2]) (simp add: forget_writes_def)
qed

text \<open>Two enabled codes that share a byte.\<close>

definition byte_entry :: "u8 \<Rightarrow> u8 \<Rightarrow> nat list \<Rightarrow> original" where
  "byte_entry v w ws = \<lparr> o_value = v, o_wrote = w, o_writers = ws \<rparr>"

definition two_codes :: engine where
  "two_codes = \<lparr> codes = [patch_code, patch_code\<lparr> c_words := [0x22000000, 0x7F] \<rparr>], complained = [False, False],
     was_enabled = [True, True],
     originals = [(0x02000000, byte_entry 3 0x7F [1, 0]), (0x02000001, byte_entry 5 0xF0 [0])],
     carried_list = [] \<rparr>"

lemma two_codes_ok: "journal_ok two_codes"
  by (simp add: journal_ok_def two_codes_def find_code_def code_id_def patch_code_def byte_entry_def upt_rec)

theorem journal_survives_save_witness:
  "\<exists>e1 e2. load_journal (save_journal two_codes) (forget_writes two_codes) = Inr e1 \<and>
    settle_carried zero_env (page_mach, e1) = (page_mach, e2) \<and>
    map_of (originals e2) 0x02000000 = Some (byte_entry 3 0x7F [0, 1])"
proof -
  from journal_survives_save [OF two_codes_ok, of zero_env page_mach] obtain e1 e2 where
    r: "load_journal (save_journal two_codes) (forget_writes two_codes) = Inr e1"
    "settle_carried zero_env (page_mach, e1) = (page_mach, e2)"
    "\<forall>a. map_of (originals e2) a =
       map_option (\<lambda>o1. o1\<lparr> o_writers := sort (o_writers o1) \<rparr>) (map_of (originals two_codes) a)" by blast
  have "map_of (originals two_codes) 0x02000000 = Some (byte_entry 3 0x7F [1, 0])"
    by (simp add: two_codes_def)
  with r show ?thesis by (intro exI [of _ e1] exI [of _ e2]) (simp add: byte_entry_def)
qed

end
