(* ===== verification/Aes.thy ===== *)
theory Aes imports Prelude begin

text \<open>
  The AES-128 of \<^verbatim>\<open>src/core/crypto/aes.c\<close> and \<^verbatim>\<open>aes.h\<close>: the tables, the key schedule, the
  forward and inverse rounds, the two hardware forms of the forward cipher, and the
  block modes (CBC decryption, CTR, the single ECB block).  \<^verbatim>\<open>state_t\<close> is a
  \<^verbatim>\<open>uint8_t[4][4]\<close>; it is the list of its sixteen bytes, \<^verbatim>\<open>(*state)[i][j]\<close> at position
  \<^verbatim>\<open>4 * i + j\<close>, which is also how the callers' byte buffers are cast to it.  The CPU
  instructions behind \<^verbatim>\<open>CipherHw\<close> are parameters.
\<close>

type_synonym state_t = "u8 list"

text \<open>\<^verbatim>\<open>(*state)[i][j]\<close> and the assignment to it.\<close>

definition sget :: "state_t \<Rightarrow> nat \<Rightarrow> nat \<Rightarrow> u8" where
  "sget st i j = st ! (4 * i + j)"

definition sput :: "nat \<Rightarrow> nat \<Rightarrow> u8 \<Rightarrow> state_t \<Rightarrow> state_t" where
  "sput i j v st = st[4 * i + j := v]"

section \<open>Tables\<close>

definition Nb :: nat where "Nb = 4"
definition Nk :: nat where "Nk = 4"
definition Nr :: nat where "Nr = 10"
definition AES_BLOCKLEN :: nat where "AES_BLOCKLEN = 16"
definition AES_keyExpSize :: nat where "AES_keyExpSize = 176"

definition sbox :: "u8 list" where
  "sbox = [
    0x63, 0x7c, 0x77, 0x7b, 0xf2, 0x6b, 0x6f, 0xc5, 0x30, 0x01, 0x67, 0x2b, 0xfe, 0xd7, 0xab, 0x76,
    0xca, 0x82, 0xc9, 0x7d, 0xfa, 0x59, 0x47, 0xf0, 0xad, 0xd4, 0xa2, 0xaf, 0x9c, 0xa4, 0x72, 0xc0,
    0xb7, 0xfd, 0x93, 0x26, 0x36, 0x3f, 0xf7, 0xcc, 0x34, 0xa5, 0xe5, 0xf1, 0x71, 0xd8, 0x31, 0x15,
    0x04, 0xc7, 0x23, 0xc3, 0x18, 0x96, 0x05, 0x9a, 0x07, 0x12, 0x80, 0xe2, 0xeb, 0x27, 0xb2, 0x75,
    0x09, 0x83, 0x2c, 0x1a, 0x1b, 0x6e, 0x5a, 0xa0, 0x52, 0x3b, 0xd6, 0xb3, 0x29, 0xe3, 0x2f, 0x84,
    0x53, 0xd1, 0x00, 0xed, 0x20, 0xfc, 0xb1, 0x5b, 0x6a, 0xcb, 0xbe, 0x39, 0x4a, 0x4c, 0x58, 0xcf,
    0xd0, 0xef, 0xaa, 0xfb, 0x43, 0x4d, 0x33, 0x85, 0x45, 0xf9, 0x02, 0x7f, 0x50, 0x3c, 0x9f, 0xa8,
    0x51, 0xa3, 0x40, 0x8f, 0x92, 0x9d, 0x38, 0xf5, 0xbc, 0xb6, 0xda, 0x21, 0x10, 0xff, 0xf3, 0xd2,
    0xcd, 0x0c, 0x13, 0xec, 0x5f, 0x97, 0x44, 0x17, 0xc4, 0xa7, 0x7e, 0x3d, 0x64, 0x5d, 0x19, 0x73,
    0x60, 0x81, 0x4f, 0xdc, 0x22, 0x2a, 0x90, 0x88, 0x46, 0xee, 0xb8, 0x14, 0xde, 0x5e, 0x0b, 0xdb,
    0xe0, 0x32, 0x3a, 0x0a, 0x49, 0x06, 0x24, 0x5c, 0xc2, 0xd3, 0xac, 0x62, 0x91, 0x95, 0xe4, 0x79,
    0xe7, 0xc8, 0x37, 0x6d, 0x8d, 0xd5, 0x4e, 0xa9, 0x6c, 0x56, 0xf4, 0xea, 0x65, 0x7a, 0xae, 0x08,
    0xba, 0x78, 0x25, 0x2e, 0x1c, 0xa6, 0xb4, 0xc6, 0xe8, 0xdd, 0x74, 0x1f, 0x4b, 0xbd, 0x8b, 0x8a,
    0x70, 0x3e, 0xb5, 0x66, 0x48, 0x03, 0xf6, 0x0e, 0x61, 0x35, 0x57, 0xb9, 0x86, 0xc1, 0x1d, 0x9e,
    0xe1, 0xf8, 0x98, 0x11, 0x69, 0xd9, 0x8e, 0x94, 0x9b, 0x1e, 0x87, 0xe9, 0xce, 0x55, 0x28, 0xdf,
    0x8c, 0xa1, 0x89, 0x0d, 0xbf, 0xe6, 0x42, 0x68, 0x41, 0x99, 0x2d, 0x0f, 0xb0, 0x54, 0xbb, 0x16]"

definition rsbox :: "u8 list" where
  "rsbox = [
    0x52, 0x09, 0x6a, 0xd5, 0x30, 0x36, 0xa5, 0x38, 0xbf, 0x40, 0xa3, 0x9e, 0x81, 0xf3, 0xd7, 0xfb,
    0x7c, 0xe3, 0x39, 0x82, 0x9b, 0x2f, 0xff, 0x87, 0x34, 0x8e, 0x43, 0x44, 0xc4, 0xde, 0xe9, 0xcb,
    0x54, 0x7b, 0x94, 0x32, 0xa6, 0xc2, 0x23, 0x3d, 0xee, 0x4c, 0x95, 0x0b, 0x42, 0xfa, 0xc3, 0x4e,
    0x08, 0x2e, 0xa1, 0x66, 0x28, 0xd9, 0x24, 0xb2, 0x76, 0x5b, 0xa2, 0x49, 0x6d, 0x8b, 0xd1, 0x25,
    0x72, 0xf8, 0xf6, 0x64, 0x86, 0x68, 0x98, 0x16, 0xd4, 0xa4, 0x5c, 0xcc, 0x5d, 0x65, 0xb6, 0x92,
    0x6c, 0x70, 0x48, 0x50, 0xfd, 0xed, 0xb9, 0xda, 0x5e, 0x15, 0x46, 0x57, 0xa7, 0x8d, 0x9d, 0x84,
    0x90, 0xd8, 0xab, 0x00, 0x8c, 0xbc, 0xd3, 0x0a, 0xf7, 0xe4, 0x58, 0x05, 0xb8, 0xb3, 0x45, 0x06,
    0xd0, 0x2c, 0x1e, 0x8f, 0xca, 0x3f, 0x0f, 0x02, 0xc1, 0xaf, 0xbd, 0x03, 0x01, 0x13, 0x8a, 0x6b,
    0x3a, 0x91, 0x11, 0x41, 0x4f, 0x67, 0xdc, 0xea, 0x97, 0xf2, 0xcf, 0xce, 0xf0, 0xb4, 0xe6, 0x73,
    0x96, 0xac, 0x74, 0x22, 0xe7, 0xad, 0x35, 0x85, 0xe2, 0xf9, 0x37, 0xe8, 0x1c, 0x75, 0xdf, 0x6e,
    0x47, 0xf1, 0x1a, 0x71, 0x1d, 0x29, 0xc5, 0x89, 0x6f, 0xb7, 0x62, 0x0e, 0xaa, 0x18, 0xbe, 0x1b,
    0xfc, 0x56, 0x3e, 0x4b, 0xc6, 0xd2, 0x79, 0x20, 0x9a, 0xdb, 0xc0, 0xfe, 0x78, 0xcd, 0x5a, 0xf4,
    0x1f, 0xdd, 0xa8, 0x33, 0x88, 0x07, 0xc7, 0x31, 0xb1, 0x12, 0x10, 0x59, 0x27, 0x80, 0xec, 0x5f,
    0x60, 0x51, 0x7f, 0xa9, 0x19, 0xb5, 0x4a, 0x0d, 0x2d, 0xe5, 0x7a, 0x9f, 0x93, 0xc9, 0x9c, 0xef,
    0xa0, 0xe0, 0x3b, 0x4d, 0xae, 0x2a, 0xf5, 0xb0, 0xc8, 0xeb, 0xbb, 0x3c, 0x83, 0x53, 0x99, 0x61,
    0x17, 0x2b, 0x04, 0x7e, 0xba, 0x77, 0xd6, 0x26, 0xe1, 0x69, 0x14, 0x63, 0x55, 0x21, 0x0c, 0x7d]"

definition Rcon :: "u8 list" where
  "Rcon = [0x8d, 0x01, 0x02, 0x04, 0x08, 0x10, 0x20, 0x40, 0x80, 0x1b, 0x36]"

definition getSBoxValue :: "u8 \<Rightarrow> u8" where
  "getSBoxValue num = sbox ! unat num"

definition getSBoxInvert :: "u8 \<Rightarrow> u8" where
  "getSBoxInvert num = rsbox ! unat num"

section \<open>The context\<close>

record AES_ctx =
  RoundKey :: "u8 list"
  Iv :: "u8 list"

text \<open>One trip of the second loop of \<^verbatim>\<open>KeyExpansion\<close>: the four bytes written at
  \<^verbatim>\<open>RoundKey[4 * i ..]\<close>.\<close>

definition expand_step :: "nat \<Rightarrow> u8 list \<Rightarrow> u8 list" where
  "expand_step i rk =
     (let k = (i - 1) * 4;
          tempa = [rk ! (k + 0), rk ! (k + 1), rk ! (k + 2), rk ! (k + 3)];
          tempa = (if i mod Nk = 0
                   then let rot = [tempa ! 1, tempa ! 2, tempa ! 3, tempa ! 0];
                            sub = [getSBoxValue (rot ! 0), getSBoxValue (rot ! 1),
                                   getSBoxValue (rot ! 2), getSBoxValue (rot ! 3)]
                        in sub[0 := sub ! 0 XOR Rcon ! (i div Nk)]
                   else tempa);
          j = i * 4; k = (i - Nk) * 4
      in rk[j + 0 := rk ! (k + 0) XOR tempa ! 0,
            j + 1 := rk ! (k + 1) XOR tempa ! 1,
            j + 2 := rk ! (k + 2) XOR tempa ! 2,
            j + 3 := rk ! (k + 3) XOR tempa ! 3])"

text \<open>The first loop copies the key, four bytes a trip, into the caller's array.\<close>

definition copy_key :: "u8 list \<Rightarrow> u8 list \<Rightarrow> u8 list" where
  "copy_key key rk =
     fold (\<lambda>i rk. rk[i * 4 + 0 := key ! (i * 4 + 0), i * 4 + 1 := key ! (i * 4 + 1),
                     i * 4 + 2 := key ! (i * 4 + 2), i * 4 + 3 := key ! (i * 4 + 3)])
       [0..<Nk] rk"

definition KeyExpansion :: "u8 list \<Rightarrow> u8 list \<Rightarrow> u8 list" where
  "KeyExpansion rk key = fold expand_step [Nk..<Nb * (Nr + 1)] (copy_key key rk)"

definition AES_init_ctx :: "AES_ctx \<Rightarrow> u8 list \<Rightarrow> AES_ctx" where
  "AES_init_ctx ctx key = ctx\<lparr>RoundKey := KeyExpansion (RoundKey ctx) key\<rparr>"

definition AES_init_ctx_iv :: "AES_ctx \<Rightarrow> u8 list \<Rightarrow> u8 list \<Rightarrow> AES_ctx" where
  "AES_init_ctx_iv ctx key iv =
     ctx\<lparr>RoundKey := KeyExpansion (RoundKey ctx) key, Iv := take AES_BLOCKLEN iv\<rparr>"

definition AES_ctx_set_iv :: "AES_ctx \<Rightarrow> u8 list \<Rightarrow> AES_ctx" where
  "AES_ctx_set_iv ctx iv = ctx\<lparr>Iv := take AES_BLOCKLEN iv\<rparr>"

section \<open>The forward round\<close>

text \<open>\<^verbatim>\<open>for (i..4) for (j..4)\<close>.\<close>

definition for44 :: "(nat \<Rightarrow> nat \<Rightarrow> state_t \<Rightarrow> state_t) \<Rightarrow> state_t \<Rightarrow> state_t" where
  "for44 f st = fold (\<lambda>i. fold (f i) [0..<4]) [0..<4] st"

definition AddRoundKey :: "nat \<Rightarrow> u8 list \<Rightarrow> state_t \<Rightarrow> state_t" where
  "AddRoundKey r rk st =
     for44 (\<lambda>i j st. sput i j (sget st i j XOR rk ! (r * Nb * 4 + i * Nb + j)) st) st"

definition SubBytes :: "state_t \<Rightarrow> state_t" where
  "SubBytes st = for44 (\<lambda>i j st. sput j i (getSBoxValue (sget st j i)) st) st"

definition ShiftRows :: "state_t \<Rightarrow> state_t" where
  "ShiftRows st =
     (let temp = sget st 0 1;
          st = sput 0 1 (sget st 1 1) st;
          st = sput 1 1 (sget st 2 1) st;
          st = sput 2 1 (sget st 3 1) st;
          st = sput 3 1 temp st;
          temp = sget st 0 2;
          st = sput 0 2 (sget st 2 2) st;
          st = sput 2 2 temp st;
          temp = sget st 1 2;
          st = sput 1 2 (sget st 3 2) st;
          st = sput 3 2 temp st;
          temp = sget st 0 3;
          st = sput 0 3 (sget st 3 3) st;
          st = sput 3 3 (sget st 2 3) st;
          st = sput 2 3 (sget st 1 3) st
      in sput 1 3 temp st)"

definition xtime :: "u8 \<Rightarrow> u8" where
  "xtime x = push_bit 1 x XOR (fld x 7 1 * 0x1b)"

text \<open>One trip of the loop of \<^verbatim>\<open>MixColumns\<close>, on column \<open>i\<close>.\<close>

definition mix_column :: "nat \<Rightarrow> state_t \<Rightarrow> state_t" where
  "mix_column i st =
     (let t = sget st i 0;
          Tmp = sget st i 0 XOR sget st i 1 XOR sget st i 2 XOR sget st i 3;
          Tm = xtime (sget st i 0 XOR sget st i 1);
          st = sput i 0 (sget st i 0 XOR (Tm XOR Tmp)) st;
          Tm = xtime (sget st i 1 XOR sget st i 2);
          st = sput i 1 (sget st i 1 XOR (Tm XOR Tmp)) st;
          Tm = xtime (sget st i 2 XOR sget st i 3);
          st = sput i 2 (sget st i 2 XOR (Tm XOR Tmp)) st;
          Tm = xtime (sget st i 3 XOR t)
      in sput i 3 (sget st i 3 XOR (Tm XOR Tmp)) st)"

definition MixColumns :: "state_t \<Rightarrow> state_t" where
  "MixColumns st = fold mix_column [0..<4] st"

section \<open>The inverse round\<close>

definition Multiply :: "u8 \<Rightarrow> u8 \<Rightarrow> u8" where
  "Multiply x y =
     (y AND 1) * x XOR
     fld y 1 1 * xtime x XOR
     fld y 2 1 * xtime (xtime x) XOR
     fld y 3 1 * xtime (xtime (xtime x)) XOR
     fld y 4 1 * xtime (xtime (xtime (xtime x)))"

definition inv_mix_column :: "nat \<Rightarrow> state_t \<Rightarrow> state_t" where
  "inv_mix_column i st =
     (let a = sget st i 0; b = sget st i 1; c = sget st i 2; d = sget st i 3;
          st = sput i 0 (Multiply a 0x0e XOR Multiply b 0x0b XOR Multiply c 0x0d XOR Multiply d 0x09) st;
          st = sput i 1 (Multiply a 0x09 XOR Multiply b 0x0e XOR Multiply c 0x0b XOR Multiply d 0x0d) st;
          st = sput i 2 (Multiply a 0x0d XOR Multiply b 0x09 XOR Multiply c 0x0e XOR Multiply d 0x0b) st
      in sput i 3 (Multiply a 0x0b XOR Multiply b 0x0d XOR Multiply c 0x09 XOR Multiply d 0x0e) st)"

definition InvMixColumns :: "state_t \<Rightarrow> state_t" where
  "InvMixColumns st = fold inv_mix_column [0..<4] st"

definition InvSubBytes :: "state_t \<Rightarrow> state_t" where
  "InvSubBytes st = for44 (\<lambda>i j st. sput j i (getSBoxInvert (sget st j i)) st) st"

definition InvShiftRows :: "state_t \<Rightarrow> state_t" where
  "InvShiftRows st =
     (let temp = sget st 3 1;
          st = sput 3 1 (sget st 2 1) st;
          st = sput 2 1 (sget st 1 1) st;
          st = sput 1 1 (sget st 0 1) st;
          st = sput 0 1 temp st;
          temp = sget st 0 2;
          st = sput 0 2 (sget st 2 2) st;
          st = sput 2 2 temp st;
          temp = sget st 1 2;
          st = sput 1 2 (sget st 3 2) st;
          st = sput 3 2 temp st;
          temp = sget st 0 3;
          st = sput 0 3 (sget st 1 3) st;
          st = sput 1 3 (sget st 2 3) st;
          st = sput 2 3 (sget st 3 3) st
      in sput 3 3 temp st)"

section \<open>The cipher\<close>

text \<open>The round loop leaves at \<^verbatim>\<open>round == Nr\<close> after the byte substitution and the row
  shift: nine full rounds, then half of one.\<close>

definition CipherSw :: "u8 list \<Rightarrow> state_t \<Rightarrow> state_t" where
  "CipherSw rk st =
     (let st = AddRoundKey 0 rk st;
          st = fold (\<lambda>r st. AddRoundKey r rk (MixColumns (ShiftRows (SubBytes st)))) [1..<Nr] st;
          st = ShiftRows (SubBytes st)
      in AddRoundKey Nr rk st)"

text \<open>The round loop counts down from \<^verbatim>\<open>Nr - 1\<close> and leaves at round 0 before
  \<^verbatim>\<open>InvMixColumns\<close>.\<close>

definition InvCipher :: "u8 list \<Rightarrow> state_t \<Rightarrow> state_t" where
  "InvCipher rk st =
     (let st = AddRoundKey Nr rk st;
          st = fold (\<lambda>r st. InvMixColumns (AddRoundKey r rk (InvSubBytes (InvShiftRows st))))
                 (rev [1..<Nr]) st
      in AddRoundKey 0 rk (InvSubBytes (InvShiftRows st)))"

text \<open>\<^verbatim>\<open>vld1q_u8(rk + r * 16)\<close>, a sixteen-byte load; \<^verbatim>\<open>veorq_u8\<close> and \<^verbatim>\<open>_mm_xor_si128\<close>
  are the bytewise exclusive or.\<close>

definition load16 :: "u8 list \<Rightarrow> nat \<Rightarrow> u8 list" where
  "load16 p off = map (\<lambda>k. p ! (off + k)) [0..<16]"

definition xor16 :: "u8 list \<Rightarrow> u8 list \<Rightarrow> u8 list" where
  "xor16 a b = map2 (XOR) a b"

text \<open>The AArch64 form, over \<^verbatim>\<open>vaeseq_u8\<close> and \<^verbatim>\<open>vaesmcq_u8\<close>.\<close>

definition CipherHw_neon ::
    "(u8 list \<Rightarrow> u8 list \<Rightarrow> u8 list) \<Rightarrow> (u8 list \<Rightarrow> u8 list) \<Rightarrow> u8 list \<Rightarrow> state_t \<Rightarrow> state_t" where
  "CipherHw_neon vaeseq vaesmcq rk st =
     (let s = load16 st 0;
          s = fold (\<lambda>r s. vaesmcq (vaeseq s (load16 rk (r * 16)))) [0..<Nr - 1] s
      in xor16 (vaeseq s (load16 rk ((Nr - 1) * 16))) (load16 rk (Nr * 16)))"

text \<open>The x86-64 form, over \<^verbatim>\<open>_mm_aesenc_si128\<close> and \<^verbatim>\<open>_mm_aesenclast_si128\<close>.\<close>

definition CipherHw_ni ::
    "(u8 list \<Rightarrow> u8 list \<Rightarrow> u8 list) \<Rightarrow> (u8 list \<Rightarrow> u8 list \<Rightarrow> u8 list) \<Rightarrow> u8 list \<Rightarrow> state_t \<Rightarrow> state_t" where
  "CipherHw_ni aesenc aesenclast rk st =
     (let s = xor16 (load16 st 0) (load16 rk 0);
          s = fold (\<lambda>r s. aesenc s (load16 rk (r * 16))) [1..<Nr] s
      in aesenclast s (load16 rk (Nr * 16)))"

text \<open>The build's \<^verbatim>\<open>CipherHw\<close> and the answer of \<^verbatim>\<open>hw_detect\<close> on the host.\<close>

record aes_host =
  CipherHw :: "u8 list \<Rightarrow> state_t \<Rightarrow> state_t"
  hw_detect :: int

text \<open>The build with neither instruction set.\<close>

definition portable_host :: aes_host where
  "portable_host = \<lparr>CipherHw = CipherSw, hw_detect = 0\<rparr>"

text \<open>\<^verbatim>\<open>static int hw_state\<close> (-1 until the first use) is threaded through the calls.\<close>

definition AES_force_software :: "aes_host \<Rightarrow> int \<Rightarrow> int" where
  "AES_force_software H soft = (if soft \<noteq> 0 then 0 else hw_detect H)"

definition Cipher :: "aes_host \<Rightarrow> int \<Rightarrow> u8 list \<Rightarrow> state_t \<Rightarrow> int \<times> state_t" where
  "Cipher H hw_state rk st =
     (let hw_state = (if hw_state < 0 then hw_detect H else hw_state)
      in (hw_state, if hw_state \<noteq> 0 then CipherHw H rk st else CipherSw rk st))"

section \<open>Block modes\<close>

definition XorWithIv :: "u8 list \<Rightarrow> u8 list \<Rightarrow> u8 list" where
  "XorWithIv iv buf = fold (\<lambda>i buf. buf[i := buf ! i XOR iv ! i]) [0..<AES_BLOCKLEN] buf"

text \<open>\<open>put_at buf i b\<close> writes the bytes \<open>b\<close> at position \<open>i\<close>, the in-place update
  through the casted pointer.\<close>

definition put_at :: "u8 list \<Rightarrow> nat \<Rightarrow> u8 list \<Rightarrow> u8 list" where
  "put_at buf i b = take i buf @ b @ drop (i + length b) buf"

function cbc_loop :: "nat \<Rightarrow> nat \<Rightarrow> AES_ctx \<Rightarrow> u8 list \<Rightarrow> AES_ctx \<times> u8 list" where
  "cbc_loop len i ctx buf =
     (if i < len
      then let storeNextIv = take AES_BLOCKLEN (drop i buf);
               b = InvCipher (RoundKey ctx) (take AES_BLOCKLEN (drop i buf));
               b = XorWithIv (Iv ctx) b
           in cbc_loop len (i + AES_BLOCKLEN) (ctx\<lparr>Iv := storeNextIv\<rparr>) (put_at buf i b)
      else (ctx, buf))"
  by pat_completeness auto

termination
  by (relation "measure (\<lambda>(len, i, ctx, buf). len - i)") (auto simp: AES_BLOCKLEN_def)

definition AES_CBC_decrypt_buffer :: "AES_ctx \<Rightarrow> u8 list \<Rightarrow> nat \<Rightarrow> AES_ctx \<times> u8 list" where
  "AES_CBC_decrypt_buffer ctx buf len = cbc_loop len 0 ctx buf"

text \<open>The counter loops: \<open>n\<close> is \<^verbatim>\<open>bi + 1\<close>.  The first is the one inside
  \<^verbatim>\<open>AES_CTR_xcrypt_buffer\<close>, the second the one of \<^verbatim>\<open>AES_CTR_next_keystream\<close>.\<close>

fun ctr_increment :: "nat \<Rightarrow> u8 list \<Rightarrow> u8 list" where
  "ctr_increment 0 iv = iv"
| "ctr_increment (Suc bi) iv =
     (if iv ! bi = 255 then ctr_increment bi (iv[bi := 0]) else iv[bi := iv ! bi + 1])"

fun keystream_increment :: "nat \<Rightarrow> u8 list \<Rightarrow> u8 list" where
  "keystream_increment 0 iv = iv"
| "keystream_increment (Suc bi) iv =
     (let iv = iv[bi := iv ! bi + 1] in if iv ! bi \<noteq> 0 then iv else keystream_increment bi iv)"

text \<open>The state of the CTR loop: the probe, the context, the keystream block \<^verbatim>\<open>buffer\<close>,
  \<^verbatim>\<open>bi\<close> and the caller's \<^verbatim>\<open>buf\<close>.\<close>

record ctr_run =
  cr_hw_state :: int
  cr_ctx :: AES_ctx
  cr_buffer :: "u8 list"
  cr_bi :: nat
  cr_buf :: "u8 list"

definition ctr_step :: "aes_host \<Rightarrow> nat \<Rightarrow> ctr_run \<Rightarrow> ctr_run" where
  "ctr_step H i s =
     (let s = (if cr_bi s = AES_BLOCKLEN
               then let (hw, ks) = Cipher H (cr_hw_state s) (RoundKey (cr_ctx s))
                                     (take AES_BLOCKLEN (Iv (cr_ctx s)))
                    in s\<lparr>cr_hw_state := hw, cr_buffer := ks,
                         cr_ctx := (cr_ctx s)\<lparr>Iv := ctr_increment AES_BLOCKLEN (Iv (cr_ctx s))\<rparr>,
                         cr_bi := 0\<rparr>
               else s)
      in s\<lparr>cr_buf := (cr_buf s)[i := cr_buf s ! i XOR cr_buffer s ! cr_bi s], cr_bi := cr_bi s + 1\<rparr>)"

definition AES_CTR_xcrypt_buffer ::
    "aes_host \<Rightarrow> int \<Rightarrow> AES_ctx \<Rightarrow> u8 list \<Rightarrow> nat \<Rightarrow> int \<times> AES_ctx \<times> u8 list" where
  "AES_CTR_xcrypt_buffer H hw c b len =
     (let s = fold (ctr_step H) [0..<len]
                \<lparr>cr_hw_state = hw, cr_ctx = c, cr_buffer = replicate AES_BLOCKLEN 0,
                  cr_bi = AES_BLOCKLEN, cr_buf = b\<rparr>
      in (cr_hw_state s, cr_ctx s, cr_buf s))"

definition AES_CTR_next_keystream :: "aes_host \<Rightarrow> int \<Rightarrow> AES_ctx \<Rightarrow> int \<times> AES_ctx \<times> u8 list" where
  "AES_CTR_next_keystream H hw c =
     (let (hw, ks) = Cipher H hw (RoundKey c) (take AES_BLOCKLEN (Iv c))
      in (hw, c\<lparr>Iv := keystream_increment AES_BLOCKLEN (Iv c)\<rparr>, ks))"

definition AES_ECB_encrypt :: "aes_host \<Rightarrow> int \<Rightarrow> AES_ctx \<Rightarrow> u8 list \<Rightarrow> int \<times> u8 list" where
  "AES_ECB_encrypt H hw c b = Cipher H hw (RoundKey c) b"

end
