(* ===== verification/DsiAes.thy ===== *)
theory DsiAes imports Aes begin

text \<open>
  The DSi's AES engine, \<^verbatim>\<open>src/core/io/dsi_aes.cpp\<close> and \<^verbatim>\<open>dsi_aes.h\<close>: the two sixteen-word
  FIFOs, the key scrambler, the register file and the CTR and CCM block processing.  What
  the engine asks of the new DMA and of the interrupt controller is recorded in order in
  \<open>ae_requests\<close>: \<^verbatim>\<open>Ndma::check\<close> and \<^verbatim>\<open>Ndma::stop\<close> only mark channels, they do not call
  back into the engine.
\<close>

section \<open>FIFOs\<close>

record fifo =
  fifo_entries :: "u32 list"
  fifo_occupied :: nat
  fifo_rd :: nat
  fifo_wr :: nat

definition fifo_init :: fifo where
  "fifo_init = \<lparr>fifo_entries = replicate 16 0, fifo_occupied = 0, fifo_rd = 0, fifo_wr = 0\<rparr>"

definition fifo_clear :: "fifo \<Rightarrow> fifo" where
  "fifo_clear f = f\<lparr>fifo_occupied := 0, fifo_rd := 0, fifo_wr := 0, fifo_entries := (fifo_entries f)[0 := 0]\<rparr>"

definition fifo_empty :: "fifo \<Rightarrow> bool" where
  "fifo_empty f \<longleftrightarrow> fifo_occupied f = 0"

definition fifo_full :: "fifo \<Rightarrow> bool" where
  "fifo_full f \<longleftrightarrow> fifo_occupied f \<ge> 16"

definition fifo_write :: "fifo \<Rightarrow> u32 \<Rightarrow> fifo" where
  "fifo_write f v =
     (if fifo_full f then f
      else f\<lparr>fifo_entries := (fifo_entries f)[fifo_wr f := v],
             fifo_wr := (if fifo_wr f + 1 \<ge> 16 then 0 else fifo_wr f + 1),
             fifo_occupied := fifo_occupied f + 1\<rparr>)"

definition fifo_read :: "fifo \<Rightarrow> u32 \<times> fifo" where
  "fifo_read f =
     (if fifo_empty f then (fifo_entries f ! ((if fifo_rd f = 0 then 16 else fifo_rd f) - 1), f)
      else (fifo_entries f ! fifo_rd f,
            f\<lparr>fifo_rd := (if fifo_rd f + 1 \<ge> 16 then 0 else fifo_rd f + 1), fifo_occupied := fifo_occupied f - 1\<rparr>))"

section \<open>Byte arrays\<close>

definition bswap128 :: "u8 list \<Rightarrow> u8 list" where
  "bswap128 src = map (\<lambda>i. src ! (15 - i)) [0..<16]"

definition get32 :: "u8 list \<Rightarrow> nat \<Rightarrow> u32" where
  "get32 p off = ucast (p ! off) OR push_bit 8 (ucast (p ! (off + 1)))
     OR push_bit 16 (ucast (p ! (off + 2))) OR push_bit 24 (ucast (p ! (off + 3)))"

definition put32 :: "u8 list \<Rightarrow> nat \<Rightarrow> u32 \<Rightarrow> u8 list" where
  "put32 p off v = p[off := ucast v, off + 1 := ucast (drop_bit 8 v),
                     off + 2 := ucast (drop_bit 16 v), off + 3 := ucast (drop_bit 24 v)]"

definition masked32 :: "u8 list \<Rightarrow> nat \<Rightarrow> u32 \<Rightarrow> u32 \<Rightarrow> u8 list" where
  "masked32 p off v m = put32 p off ((get32 p off AND NOT m) OR (v AND m))"

section \<open>The key scrambler\<close>

definition rol16 :: "u8 list \<Rightarrow> u32 \<Rightarrow> u8 list" where
  "rol16 v n =
     (let coarse = drop_bit 3 n; fine = n AND 7;
          t = map (\<lambda>i. v ! unat ((word_of_nat i - coarse) AND 0xF)) [0..<16]
      in map (\<lambda>i. push_bit (unat fine) (t ! i)
                   OR drop_bit (unat (8 - fine)) (t ! unat ((word_of_nat i - 1 :: u32) AND 0xF))) [0..<16])"

definition key_const :: "u8 list" where
  "key_const = [0xFF, 0xFE, 0xFB, 0x4E, 0x29, 0x59, 0x02, 0x58,
                0x2A, 0x68, 0x0F, 0x5F, 0x1A, 0x4F, 0x3E, 0x79]"

text \<open>One trip of the carry loop: the bytes and the carry, a \<^verbatim>\<open>u32\<close>.\<close>

definition add_const_step :: "nat \<Rightarrow> u8 list \<times> u32 \<Rightarrow> u8 list \<times> u32" where
  "add_const_step i = (\<lambda>(t, carry).
     let r = ucast (t ! i) + ucast (key_const ! (15 - i)) + carry
     in (t[i := ucast r], drop_bit 8 r))"

definition derive_normal_key :: "u8 list \<Rightarrow> u8 list \<Rightarrow> u8 list" where
  "derive_normal_key kx ky =
     (let t = map (\<lambda>i. kx ! i XOR ky ! i) [0..<16];
          (t, carry) = fold add_const_step [0..<16] (t, 0)
      in rol16 t 42)"

section \<open>The engine\<close>

datatype aes_request = NdmaCheck u32 | NdmaStop u32 | RequestIrq2

record dsi_aes =
  ae_cnt :: u32
  ae_blkcnt :: u32
  ae_rem_extra :: u32
  ae_rem_blocks :: u32
  ae_input_dma_size :: u32
  ae_output_dma_size :: u32
  ae_mode :: u32
  ae_in :: fifo
  ae_out :: fifo
  ae_iv :: "u8 list"
  ae_mac :: "u8 list"
  ae_key_normal :: "u8 list list"
  ae_key_x :: "u8 list list"
  ae_key_y :: "u8 list list"
  ae_cur_key :: "u8 list"
  ae_cur_mac :: "u8 list"
  ae_output_mac :: "u8 list"
  ae_output_mac_due :: bool
  ae_ctx :: AES_ctx
  ae_hw :: int
  ae_requests :: "aes_request list"

definition ae_request :: "aes_request \<Rightarrow> dsi_aes \<Rightarrow> dsi_aes" where
  "ae_request r s = s\<lparr>ae_requests := ae_requests s @ [r]\<rparr>"

text \<open>\<^verbatim>\<open>reset\<close>, given the console's ID and the ARM9i BIOS image.\<close>

definition ae_reset :: "u64 \<Rightarrow> u8 list \<Rightarrow> dsi_aes \<Rightarrow> dsi_aes" where
  "ae_reset cid bios9i s =
     (let zero = replicate 16 0; hi = ucast (drop_bit 32 cid) :: u32; lo = ucast cid :: u32;
          kx0 = put32 (put32 zero 0 0x746E694E) 4 0x6F646E65;
          kx1 = put32 (put32 (put32 (put32 zero 0 0x4E00004A) 4 0x4A00004E) 8 (hi XOR 0xC80C4B72)) 12 lo;
          kx2 = take 16 (drop 0x8B8C bios9i);
          kx3 = put32 (put32 (put32 (put32 zero 0 lo) 4 (lo XOR 0x24EE6906)) 8 (hi XOR 0xE65B601D)) 12 hi;
          ky3 = put32 (put32 (put32 zero 0 0x0AB9DC76) 4 0xBD4DC4D3) 8 0x202DDD1D
      in s\<lparr>ae_cnt := 0, ae_blkcnt := 0, ae_rem_extra := 0, ae_rem_blocks := 0,
           ae_input_dma_size := 0, ae_output_dma_size := 0, ae_mode := 0,
           ae_in := fifo_clear (ae_in s), ae_out := fifo_clear (ae_out s),
           ae_iv := zero, ae_mac := zero, ae_key_normal := replicate 4 zero,
           ae_key_x := [kx0, kx1, kx2, kx3], ae_key_y := [zero, zero, zero, ky3],
           ae_cur_key := zero, ae_cur_mac := zero, ae_output_mac := zero,
           ae_output_mac_due := False,
           ae_ctx := AES_init_ctx_iv (ae_ctx s) zero zero\<rparr>)"

section \<open>Block processing\<close>

text \<open>\<^verbatim>\<open>for (k..4) put32(&data[k * 4], in_.read())\<close> and
  \<^verbatim>\<open>for (k..4) out_.write(get32(&data[k * 4]))\<close>.\<close>

definition read_block :: "dsi_aes \<Rightarrow> u8 list \<times> dsi_aes" where
  "read_block s =
     fold (\<lambda>k (data, s). let (v, f) = fifo_read (ae_in s) in (put32 data (k * 4) v, s\<lparr>ae_in := f\<rparr>))
       [0..<4] (replicate 16 0, s)"

definition write_block :: "u8 list \<Rightarrow> dsi_aes \<Rightarrow> dsi_aes" where
  "write_block data s =
     fold (\<lambda>k s. s\<lparr>ae_out := fifo_write (ae_out s) (get32 data (k * 4))\<rparr>) [0..<4] s"

definition mac_xor :: "u8 list \<Rightarrow> dsi_aes \<Rightarrow> dsi_aes" where
  "mac_xor b s = s\<lparr>ae_cur_mac := map (\<lambda>i. ae_cur_mac s ! i XOR b ! i) [0..<16]\<rparr>"

definition mac_encrypt :: "aes_host \<Rightarrow> dsi_aes \<Rightarrow> dsi_aes" where
  "mac_encrypt H s =
     (let (hw, m) = AES_ECB_encrypt H (ae_hw s) (ae_ctx s) (ae_cur_mac s)
      in s\<lparr>ae_hw := hw, ae_cur_mac := m\<rparr>)"

definition ctr_block :: "aes_host \<Rightarrow> u8 list \<Rightarrow> dsi_aes \<Rightarrow> u8 list \<times> dsi_aes" where
  "ctr_block H b s =
     (let (hw, c, b) = AES_CTR_xcrypt_buffer H (ae_hw s) (ae_ctx s) b 16
      in (b, s\<lparr>ae_hw := hw, ae_ctx := c\<rparr>))"

definition process_ccm_extra :: "aes_host \<Rightarrow> dsi_aes \<Rightarrow> dsi_aes" where
  "process_ccm_extra H s =
     (let (data, s) = read_block s in mac_encrypt H (mac_xor (bswap128 data) s))"

definition process_ccm_decrypt :: "aes_host \<Rightarrow> dsi_aes \<Rightarrow> dsi_aes" where
  "process_ccm_decrypt H s =
     (let (data, s) = read_block s;
          (rev, s) = ctr_block H (bswap128 data) s;
          s = mac_encrypt H (mac_xor rev s)
      in write_block (bswap128 rev) s)"

definition process_ccm_encrypt :: "aes_host \<Rightarrow> dsi_aes \<Rightarrow> dsi_aes" where
  "process_ccm_encrypt H s =
     (let (data, s) = read_block s;
          rev = bswap128 data;
          s = mac_xor rev s;
          (rev, s) = ctr_block H rev s;
          s = mac_encrypt H s
      in write_block (bswap128 rev) s)"

definition process_ctr :: "aes_host \<Rightarrow> dsi_aes \<Rightarrow> dsi_aes" where
  "process_ctr H s =
     (let (hw, c, ks) = AES_CTR_next_keystream H (ae_hw s) (ae_ctx s);
          ksr = bswap128 ks
      in fold (\<lambda>k s. let (v, f) = fifo_read (ae_in s)
                     in s\<lparr>ae_in := f, ae_out := fifo_write (ae_out s) (v XOR get32 ksr (k * 4))\<rparr>)
           [0..<4] (s\<lparr>ae_hw := hw, ae_ctx := c\<rparr>))"

definition push_output_mac :: "dsi_aes \<Rightarrow> dsi_aes" where
  "push_output_mac s = (write_block (ae_output_mac s) s)\<lparr>ae_output_mac_due := False\<rparr>"

section \<open>What block processing leaves alone\<close>

definition ae_core :: "dsi_aes \<Rightarrow> u32 \<times> u32 \<times> u32 \<times> u32 \<times> u32 \<times> u32 \<times> u32 \<times> aes_request list" where
  "ae_core s = (ae_cnt s, ae_blkcnt s, ae_rem_extra s, ae_rem_blocks s, ae_mode s,
     ae_input_dma_size s, ae_output_dma_size s, ae_requests s)"

lemma ae_core_read_block: "ae_core (snd (read_block s)) = ae_core s"
  by (simp add: read_block_def ae_core_def upt_rec split_beta)

lemma ae_core_write_block: "ae_core (write_block d s) = ae_core s"
  by (simp add: write_block_def ae_core_def upt_rec)

lemma ae_core_block [frame_simps]:
  "ae_core (process_ccm_extra H s) = ae_core s"
  "ae_core (process_ccm_decrypt H s) = ae_core s"
  "ae_core (process_ccm_encrypt H s) = ae_core s"
  "ae_core (process_ctr H s) = ae_core s"
  "ae_core (push_output_mac s) = ae_core s"
proof -
  have m: "ae_core (mac_encrypt H s) = ae_core s" "ae_core (mac_xor b s) = ae_core s"
    "ae_core (snd (ctr_block H b s)) = ae_core s" for s b
    by (simp_all add: mac_encrypt_def mac_xor_def ctr_block_def ae_core_def split_beta)
  show "ae_core (process_ccm_extra H s) = ae_core s"
    "ae_core (process_ccm_decrypt H s) = ae_core s"
    "ae_core (process_ccm_encrypt H s) = ae_core s"
    by (simp_all add: process_ccm_extra_def process_ccm_decrypt_def process_ccm_encrypt_def Let_def
        split_beta ae_core_read_block ae_core_write_block m)
  show "ae_core (process_ctr H s) = ae_core s"
    by (simp add: process_ctr_def Let_def split_beta upt_rec ae_core_def)
  show "ae_core (push_output_mac s) = ae_core s"
    using ae_core_write_block [of "ae_output_mac s" s] by (simp add: push_output_mac_def ae_core_def)
qed

lemma ae_core_fields:
  "ae_core s = ae_core t \<Longrightarrow> ae_rem_extra s = ae_rem_extra t \<and> ae_rem_blocks s = ae_rem_blocks t
     \<and> ae_mode s = ae_mode t \<and> ae_cnt s = ae_cnt t"
  by (simp add: ae_core_def)

section \<open>update\<close>

definition check_output_dma :: "dsi_aes \<Rightarrow> dsi_aes" where
  "check_output_dma s =
     (if word_of_nat (fifo_occupied (ae_out s)) \<ge> ae_output_dma_size s
      then ae_request (NdmaCheck 0x2B) s else s)"

lemma unat_pred: "x \<noteq> (0::u32) \<Longrightarrow> unat (x - 1) < unat x"
  by (simp add: unat_minus_one unat_gt_0)

function extra_loop :: "aes_host \<Rightarrow> dsi_aes \<Rightarrow> dsi_aes" where
  "extra_loop H s =
     (if fifo_occupied (ae_in s) \<ge> 4 \<and> ae_rem_extra s > 0
      then let s = process_ccm_extra H s
           in extra_loop H (s\<lparr>ae_rem_extra := ae_rem_extra s - 1\<rparr>)
      else s)"
  by pat_completeness auto

termination
proof (relation "measure (\<lambda>(H, s). unat (ae_rem_extra s))")
  fix H s t
  assume "4 \<le> fifo_occupied (ae_in s) \<and> 0 < ae_rem_extra s" "t = process_ccm_extra H s"
  moreover from this have "ae_rem_extra t = ae_rem_extra s"
    using ae_core_fields [OF ae_core_block(1)] by simp
  ultimately show "((H, t\<lparr>ae_rem_extra := ae_rem_extra t - 1\<rparr>), H, s)
      \<in> measure (\<lambda>(H, s). unat (ae_rem_extra s))"
    by (simp add: unat_pred word_gt_0)
qed simp

definition process_one :: "aes_host \<Rightarrow> dsi_aes \<Rightarrow> dsi_aes" where
  "process_one H s =
     (if ae_mode s = 0 then process_ccm_decrypt H s
      else if ae_mode s = 1 then process_ccm_encrypt H s
      else process_ctr H s)"

lemma ae_core_process_one [frame_simps]: "ae_core (process_one H s) = ae_core s"
  by (simp add: process_one_def ae_core_block)

function blocks_loop :: "aes_host \<Rightarrow> dsi_aes \<Rightarrow> dsi_aes" where
  "blocks_loop H s =
     (if fifo_occupied (ae_in s) \<ge> 4 \<and> fifo_occupied (ae_out s) \<le> 12 \<and> ae_rem_blocks s > 0
      then let s = process_one H s
           in blocks_loop H (s\<lparr>ae_rem_blocks := ae_rem_blocks s - 1\<rparr>)
      else s)"
  by pat_completeness auto

termination
proof (relation "measure (\<lambda>(H, s). unat (ae_rem_blocks s))")
  fix H s t
  assume "4 \<le> fifo_occupied (ae_in s) \<and> fifo_occupied (ae_out s) \<le> 12 \<and> 0 < ae_rem_blocks s"
    "t = process_one H s"
  moreover from this have "ae_rem_blocks t = ae_rem_blocks s"
    using ae_core_fields [OF ae_core_process_one] by simp
  ultimately show "((H, t\<lparr>ae_rem_blocks := ae_rem_blocks t - 1\<rparr>), H, s)
      \<in> measure (\<lambda>(H, s). unat (ae_rem_blocks s))"
    by (simp add: unat_pred word_gt_0)
qed simp

declare extra_loop.simps [simp del] blocks_loop.simps [simp del]

text \<open>The counter of block zero: \<^verbatim>\<open>ctx->Iv[13] = ctx->Iv[14] = ctx->Iv[15] = 0\<close> and the
  encryption of the MAC with it.\<close>

definition finish_mac :: "aes_host \<Rightarrow> dsi_aes \<Rightarrow> dsi_aes" where
  "finish_mac H s =
     (let c = (ae_ctx s)\<lparr>Iv := (Iv (ae_ctx s))[15 := 0, 14 := 0, 13 := 0]\<rparr>;
          (hw, c, m) = AES_CTR_xcrypt_buffer H (ae_hw s) c (ae_cur_mac s) 16
      in s\<lparr>ae_hw := hw, ae_ctx := c, ae_cur_mac := m\<rparr>)"

definition verify_mac :: "dsi_aes \<Rightarrow> dsi_aes" where
  "verify_mac s =
     s\<lparr>ae_cnt := fold (\<lambda>i cnt. if ae_cur_mac s ! (15 - i) \<noteq> ae_mac s ! i then cnt AND NOT (push_bit 21 1) else cnt)
        [0..<16] (ae_cnt s OR push_bit 21 1)\<rparr>"

definition finish_cnt :: "dsi_aes \<Rightarrow> dsi_aes" where
  "finish_cnt s =
     (let s = s\<lparr>ae_cnt := ae_cnt s AND NOT (push_bit 31 1)\<rparr>;
          s = (if tst (ae_cnt s) (push_bit 30 1) then ae_request RequestIrq2 s else s);
          s = ae_request (NdmaStop 0x2A) s
      in if \<not> fifo_empty (ae_out s) then ae_request (NdmaCheck 0x2B) s
         else ae_request (NdmaStop 0x2B) s)"

definition ae_finish :: "aes_host \<Rightarrow> dsi_aes \<Rightarrow> dsi_aes" where
  "ae_finish H s =
     finish_cnt
       (if ae_mode s = 0 then verify_mac (finish_mac H s)
        else if ae_mode s = 1
        then let s = finish_mac H s;
                 s = s\<lparr>ae_output_mac := bswap128 (ae_cur_mac s)\<rparr>;
                 s = (if fifo_occupied (ae_out s) \<le> 12 then push_output_mac s
                      else s\<lparr>ae_output_mac_due := True\<rparr>)
             in s\<lparr>ae_cnt := ae_cnt s AND NOT (push_bit 21 1)\<rparr>
        else s\<lparr>ae_cnt := ae_cnt s AND NOT (push_bit 21 1)\<rparr>)"

definition ae_update :: "aes_host \<Rightarrow> dsi_aes \<Rightarrow> dsi_aes" where
  "ae_update H s =
     (let s = extra_loop H s;
          s = (if ae_rem_extra s = 0 then blocks_loop H s else s);
          s = check_output_dma s
      in if ae_rem_blocks s \<noteq> 0 \<or> ae_rem_extra s \<noteq> 0 then s else ae_finish H s)"

definition check_input_dma :: "aes_host \<Rightarrow> dsi_aes \<Rightarrow> dsi_aes" where
  "check_input_dma H s =
     (if ae_rem_blocks s = 0 \<and> ae_rem_extra s = 0 then s
      else let s = (if word_of_nat (fifo_occupied (ae_in s)) \<le> ae_input_dma_size s
                    then ae_request (NdmaCheck 0x2A) s else s)
           in ae_update H s)"

section \<open>The register file\<close>

definition read_cnt :: "dsi_aes \<Rightarrow> u32" where
  "read_cnt s = ae_cnt s OR word_of_nat (fifo_occupied (ae_in s))
     OR push_bit 5 (word_of_nat (fifo_occupied (ae_out s)))"

text \<open>The start of a CCM run: the counter block, then block zero of the MAC.\<close>

definition ccm_start :: "aes_host \<Rightarrow> u32 \<Rightarrow> u8 list \<Rightarrow> u8 list \<Rightarrow> dsi_aes \<Rightarrow> dsi_aes" where
  "ccm_start H v key iv s =
     (let maclen = fld v 16 7;
          maclen = (if maclen < 1 then 1 else maclen);
          iv = iv[0 := 0x02];
          iv = fold (\<lambda>i iv. iv[1 + i := iv ! (4 + i)]) [0..<12] iv;
          iv = iv[13 := 0, 14 := 0, 15 := 1];
          s = s\<lparr>ae_ctx := AES_init_ctx_iv (ae_ctx s) key iv\<rparr>;
          iv = iv[0 := iv ! 0 OR ucast (push_bit 3 maclen
                         OR (if ae_blkcnt s AND 0xFFFF \<noteq> 0 then push_bit 6 1 else 0))];
          iv = iv[13 := ucast (drop_bit 12 (ae_rem_blocks s))];
          iv = iv[14 := ucast (drop_bit 4 (ae_rem_blocks s))];
          iv = iv[15 := ucast (push_bit 4 (ae_rem_blocks s))];
          s = s\<lparr>ae_cur_mac := take 16 iv\<rparr>
      in mac_encrypt H s)"

definition write_cnt :: "aes_host \<Rightarrow> u32 \<Rightarrow> dsi_aes \<Rightarrow> dsi_aes" where
  "write_cnt H v s =
     (let old = ae_cnt s;
          s = s\<lparr>ae_cnt := v AND 0xFC1FF000,
                ae_input_dma_size := [0, 4, 8, 12] ! unat (fld v 12 3),
                ae_output_dma_size := [4, 8, 12, 16] ! unat (fld v 14 3),
                ae_mode := fld v 28 3\<rparr>;
          s = (if tst v (push_bit 24 1)
               then s\<lparr>ae_cur_key := take 16 (ae_key_normal s ! unat (fld v 26 3))\<rparr> else s)
      in if tst old (push_bit 31 1) \<or> \<not> tst v (push_bit 31 1) then s
         else
           let s = s\<lparr>ae_rem_extra := (if ae_mode s < 2 then ae_blkcnt s AND 0xFFFF else 0),
                     ae_rem_blocks := drop_bit 16 (ae_blkcnt s),
                     ae_output_mac_due := False\<rparr>
           in if ae_rem_blocks s = 0 \<and> ae_rem_extra s = 0
              then s\<lparr>ae_cnt := ae_cnt s AND NOT (push_bit 31 1)\<rparr>
              else
                let key = bswap128 (ae_cur_key s); iv = bswap128 (ae_iv s);
                    s = (if ae_mode s < 2 then ccm_start H v key iv s
                         else s\<lparr>ae_ctx := AES_init_ctx_iv (ae_ctx s) key iv\<rparr>)
                in ae_request (NdmaCheck 0x2A) s)"

definition write_blkcnt :: "u32 \<Rightarrow> dsi_aes \<Rightarrow> dsi_aes" where
  "write_blkcnt v s = s\<lparr>ae_blkcnt := v\<rparr>"

definition read_output_fifo :: "aes_host \<Rightarrow> dsi_aes \<Rightarrow> u32 \<times> dsi_aes" where
  "read_output_fifo H s =
     (let (v, f) = fifo_read (ae_out s);
          s = s\<lparr>ae_out := f\<rparr>;
          s = (if tst (ae_cnt s) (push_bit 31 1)
               then check_output_dma (check_input_dma H s)
               else
                 let s = (if fifo_occupied (ae_out s) > 0 then ae_request (NdmaCheck 0x2B) s
                          else ae_request (NdmaStop 0x2B) s)
                 in if ae_output_mac_due s \<and> fifo_occupied (ae_out s) \<le> 12
                    then push_output_mac s else s)
      in (v, s))"

definition write_input_fifo :: "aes_host \<Rightarrow> u32 \<Rightarrow> dsi_aes \<Rightarrow> dsi_aes" where
  "write_input_fifo H v s =
     (let s = s\<lparr>ae_in := fifo_write (ae_in s) v\<rparr>
      in if tst (ae_cnt s) (push_bit 31 1) then ae_update H s else s)"

definition write_iv :: "u32 \<Rightarrow> u32 \<Rightarrow> u32 \<Rightarrow> dsi_aes \<Rightarrow> dsi_aes" where
  "write_iv off v m s = s\<lparr>ae_iv := masked32 (ae_iv s) (unat (off AND 0xC)) v m\<rparr>"

definition write_mac :: "u32 \<Rightarrow> u32 \<Rightarrow> u32 \<Rightarrow> dsi_aes \<Rightarrow> dsi_aes" where
  "write_mac off v m s = s\<lparr>ae_mac := masked32 (ae_mac s) (unat (off AND 0xC)) v m\<rparr>"

definition write_slot :: "u32 \<Rightarrow> u32 \<Rightarrow> u32 \<Rightarrow> u32 \<Rightarrow> u8 list list \<Rightarrow> u8 list list" where
  "write_slot slot off v m ks =
     (let k = unat (slot AND 3) in ks[k := masked32 (ks ! k) (unat (off AND 0xC)) v m])"

definition write_key_normal :: "u32 \<Rightarrow> u32 \<Rightarrow> u32 \<Rightarrow> u32 \<Rightarrow> dsi_aes \<Rightarrow> dsi_aes" where
  "write_key_normal slot off v m s = s\<lparr>ae_key_normal := write_slot slot off v m (ae_key_normal s)\<rparr>"

definition write_key_x :: "u32 \<Rightarrow> u32 \<Rightarrow> u32 \<Rightarrow> u32 \<Rightarrow> dsi_aes \<Rightarrow> dsi_aes" where
  "write_key_x slot off v m s = s\<lparr>ae_key_x := write_slot slot off v m (ae_key_x s)\<rparr>"

definition write_key_y :: "u32 \<Rightarrow> u32 \<Rightarrow> u32 \<Rightarrow> u32 \<Rightarrow> dsi_aes \<Rightarrow> dsi_aes" where
  "write_key_y slot off v m s =
     (let s = s\<lparr>ae_key_y := write_slot slot off v m (ae_key_y s)\<rparr>; k = unat (slot AND 3)
      in if off AND 0xC \<ge> 0xC
         then s\<lparr>ae_key_normal := (ae_key_normal s)[k := derive_normal_key (ae_key_x s ! k) (ae_key_y s ! k)]\<rparr>
         else s)"

end
