(* ===== verification/AesSpec.thy ===== *)
theory AesSpec imports Aes begin

text \<open>
  The correctness of \<open>Aes\<close>.  The byte-at-a-time code is first given the form of maps and
  permutations on sixteen-byte lists (\<open>aes_forms\<close>); on those forms the inverse round
  undoes the forward one, the hardware rounds regroup the software ones, and the block
  modes are stated for an arbitrary block function in a locale.
\<close>

named_theorems aes_forms \<open>closed forms of the byte loops\<close>

section \<open>Sixteen-byte lists\<close>

lemma list16_cases:
  fixes st :: "'a list"
  assumes "length st = 16"
  obtains a0 a1 a2 a3 a4 a5 a6 a7 a8 a9 a10 a11 a12 a13 a14 a15
  where "st = [a0, a1, a2, a3, a4, a5, a6, a7, a8, a9, a10, a11, a12, a13, a14, a15]"
  using assms by (auto simp: numeral_eq_Suc length_Suc_conv)

lemma upt16: "[0..<16] = [0, 1, 2, 3, 4, 5, 6, 7, 8, 9, 10, 11, 12, 13, 14, 15::nat]"
  by (simp add: upt_rec)

lemma upt4: "[0..<4] = [0, 1, 2, 3::nat]"
  by (simp add: upt_rec)

lemma AddRoundKey_map [aes_forms]:
  assumes "length st = 16"
  shows "AddRoundKey r rk st = map (\<lambda>k. st ! k XOR rk ! (16 * r + k)) [0..<16]"
  using assms
  by (cases st rule: list16_cases)
    (simp_all add: AddRoundKey_def for44_def sput_def sget_def upt4 upt16 Nb_def algebra_simps)

lemma SubBytes_map [aes_forms]:
  assumes "length st = 16"
  shows "SubBytes st = map getSBoxValue st"
  using assms
  by (cases st rule: list16_cases) (simp_all add: SubBytes_def for44_def sput_def sget_def upt4)

lemma InvSubBytes_map [aes_forms]:
  assumes "length st = 16"
  shows "InvSubBytes st = map getSBoxInvert st"
  using assms
  by (cases st rule: list16_cases) (simp_all add: InvSubBytes_def for44_def sput_def sget_def upt4)

text \<open>Row \<open>r\<close> of the state is bytes \<open>r, r + 4, r + 8, r + 12\<close>; it moves by \<open>r\<close> columns.\<close>

lemma ShiftRows_map [aes_forms]:
  assumes "length st = 16"
  shows "ShiftRows st = map (\<lambda>k. st ! (4 * ((k div 4 + k mod 4) mod 4) + k mod 4)) [0..<16]"
  using assms
  by (cases st rule: list16_cases) (simp_all add: ShiftRows_def sput_def sget_def upt16 Let_def)

lemma InvShiftRows_map [aes_forms]:
  assumes "length st = 16"
  shows "InvShiftRows st = map (\<lambda>k. st ! (4 * ((k div 4 + 3 * (k mod 4)) mod 4) + k mod 4)) [0..<16]"
  using assms
  by (cases st rule: list16_cases) (simp_all add: InvShiftRows_def sput_def sget_def upt16 Let_def)

lemma length_sput [simp]: "length (sput i j v st) = length st"
  by (simp add: sput_def)

lemma length_mix_column [simp]: "length (mix_column i st) = length st"
  by (simp add: mix_column_def Let_def)

lemma length_inv_mix_column [simp]: "length (inv_mix_column i st) = length st"
  by (simp add: inv_mix_column_def Let_def)

lemma length_MixColumns [simp]: "length (MixColumns st) = length st"
  by (simp add: MixColumns_def upt4)

lemma length_InvMixColumns [simp]: "length (InvMixColumns st) = length st"
  by (simp add: InvMixColumns_def upt4)

lemma length_rounds [simp]:
  "length st = 16 \<Longrightarrow> length (AddRoundKey r rk st) = 16"
  "length st = 16 \<Longrightarrow> length (SubBytes st) = 16"
  "length st = 16 \<Longrightarrow> length (ShiftRows st) = 16"
  "length st = 16 \<Longrightarrow> length (InvSubBytes st) = 16"
  "length st = 16 \<Longrightarrow> length (InvShiftRows st) = 16"
  by (simp_all add: aes_forms)

section \<open>The inverse round undoes the round\<close>

lemma AddRoundKey_twice: "length st = 16 \<Longrightarrow> AddRoundKey r rk (AddRoundKey r rk st) = st"
  by (rule nth_equalityI) (simp_all add: aes_forms xor.assoc)

lemma InvShiftRows_ShiftRows:
  assumes "length st = 16"
  shows "InvShiftRows (ShiftRows st) = st"
  using assms by (cases st rule: list16_cases) (simp_all add: aes_forms upt16)

lemma ShiftRows_InvShiftRows:
  assumes "length st = 16"
  shows "ShiftRows (InvShiftRows st) = st"
  using assms by (cases st rule: list16_cases) (simp_all add: aes_forms upt16)

lemma rsbox_sbox: "getSBoxInvert (getSBoxValue x) = x"
proof -
  have m: "map (\<lambda>v. rsbox ! unat v) sbox = map word_of_nat [0..<256]" by code_simp
  have l: "length sbox = 256" by (simp add: sbox_def)
  have n: "unat x < 256" using unsigned_less [of x, where 'a = nat] by simp
  have "map (\<lambda>v. rsbox ! unat v) sbox ! unat x = rsbox ! unat (sbox ! unat x)"
    by (rule nth_map) (simp only: l n)
  moreover have "map word_of_nat [0..<256] ! unat x = x" using n by simp
  ultimately show ?thesis unfolding m getSBoxInvert_def getSBoxValue_def by (simp only:)
qed

lemma InvSubBytes_SubBytes:
  assumes "length st = 16"
  shows "InvSubBytes (SubBytes st) = st"
  using assms by (simp add: aes_forms rsbox_sbox o_def)

text \<open>\<open>xtime\<close> is linear, so the coefficients of the two matrices multiply out to 1.\<close>

lemma xtime_xor: "xtime (a XOR b) = xtime a XOR xtime b"
proof -
  have f: "fld x 7 1 = b2w (bit x 7)" for x :: u8
    by (rule bit_word_eqI) (auto simp: bit_fld b2w_def bit_1_iff intro!: gr0I dest: bit_imp_le_length)
  show ?thesis
    by (cases "bit a 7"; cases "bit b 7")
      (simp_all add: xtime_def f bit_simps push_bit_xor xor.assoc xor.left_commute xor.commute)
qed

lemma mix_column_at:
  assumes "length st = 16" "i < 4"
  shows "mix_column i st =
    (let a = st ! (4 * i); b = st ! (4 * i + 1); c = st ! (4 * i + 2); d = st ! (4 * i + 3);
         t = a XOR b XOR c XOR d
     in st[4 * i := a XOR (xtime (a XOR b) XOR t), 4 * i + 1 := b XOR (xtime (b XOR c) XOR t),
           4 * i + 2 := c XOR (xtime (c XOR d) XOR t), 4 * i + 3 := d XOR (xtime (d XOR a) XOR t)])"
  using assms by (simp add: mix_column_def sget_def sput_def Let_def)

lemma inv_mix_mix:
  fixes a b c d :: u8
  defines "t \<equiv> a XOR b XOR c XOR d"
  defines "a' \<equiv> a XOR (xtime (a XOR b) XOR t)" and "b' \<equiv> b XOR (xtime (b XOR c) XOR t)"
    and "c' \<equiv> c XOR (xtime (c XOR d) XOR t)" and "d' \<equiv> d XOR (xtime (d XOR a) XOR t)"
  shows "Multiply a' 0x0e XOR Multiply b' 0x0b XOR Multiply c' 0x0d XOR Multiply d' 0x09 = a"
    "Multiply a' 0x09 XOR Multiply b' 0x0e XOR Multiply c' 0x0b XOR Multiply d' 0x0d = b"
    "Multiply a' 0x0d XOR Multiply b' 0x09 XOR Multiply c' 0x0e XOR Multiply d' 0x0b = c"
    "Multiply a' 0x0b XOR Multiply b' 0x0d XOR Multiply c' 0x09 XOR Multiply d' 0x0e = d"
  unfolding assms
  by (simp_all add: Multiply_def fld_def xtime_xor xor.assoc xor.left_commute xor.commute)

lemma InvMixColumns_MixColumns:
  assumes "length st = 16"
  shows "InvMixColumns (MixColumns st) = st"
  using assms
  by (cases st rule: list16_cases)
    (simp_all add: InvMixColumns_def MixColumns_def upt4 mix_column_def inv_mix_column_def
      sget_def sput_def Let_def inv_mix_mix)

section \<open>The inverse cipher\<close>

definition full_round :: "u8 list \<Rightarrow> nat \<Rightarrow> state_t \<Rightarrow> state_t" where
  "full_round rk r st = AddRoundKey r rk (MixColumns (ShiftRows (SubBytes st)))"

definition inv_round :: "u8 list \<Rightarrow> nat \<Rightarrow> state_t \<Rightarrow> state_t" where
  "inv_round rk r st = InvMixColumns (AddRoundKey r rk (InvSubBytes (InvShiftRows st)))"

lemma CipherSw_rounds:
  "CipherSw rk st =
     AddRoundKey Nr rk (ShiftRows (SubBytes (fold (full_round rk) [1..<Nr] (AddRoundKey 0 rk st))))"
  unfolding CipherSw_def Let_def full_round_def [abs_def] ..

lemma InvCipher_rounds:
  "InvCipher rk st =
     AddRoundKey 0 rk (InvSubBytes (InvShiftRows (fold (inv_round rk) (rev [1..<Nr]) (AddRoundKey Nr rk st))))"
  unfolding InvCipher_def Let_def inv_round_def [abs_def] ..

lemma length_full_rounds [simp]:
  "length st = 16 \<Longrightarrow> length (full_round rk r st) = 16"
  "length st = 16 \<Longrightarrow> length (inv_round rk r st) = 16"
  by (simp_all add: full_round_def inv_round_def)

lemma length_fold_rounds [simp]:
  "length st = 16 \<Longrightarrow> length (fold (full_round rk) rs st) = 16"
  "length st = 16 \<Longrightarrow> length (fold (inv_round rk) rs st) = 16"
  by (induction rs arbitrary: st) simp_all

lemma length_CipherSw [simp]: "length st = 16 \<Longrightarrow> length (CipherSw rk st) = 16"
  by (simp add: CipherSw_rounds)

lemma length_InvCipher [simp]: "length st = 16 \<Longrightarrow> length (InvCipher rk st) = 16"
  by (simp add: InvCipher_rounds)

lemma inv_round_full_round:
  assumes "length st = 16"
  shows "inv_round rk r (ShiftRows (SubBytes (full_round rk r st))) = ShiftRows (SubBytes st)"
  using assms
  by (simp add: inv_round_def full_round_def InvShiftRows_ShiftRows InvSubBytes_SubBytes
      AddRoundKey_twice InvMixColumns_MixColumns)

lemma inv_rounds_full_rounds:
  assumes "length st = 16"
  shows "fold (inv_round rk) (rev [1..<Suc n]) (ShiftRows (SubBytes (fold (full_round rk) [1..<Suc n] st)))
    = ShiftRows (SubBytes st)"
proof (induction n)
  case (Suc n)
  have "[1..<Suc (Suc n)] = [1..<Suc n] @ [Suc n]" by simp
  then show ?case
    using Suc by (simp only: fold_append rev_append comp_apply fold_simps rev.simps append.simps id_apply
        inv_round_full_round length_fold_rounds assms)
qed simp

lemma InvCipher_CipherSw:
  assumes "length st = 16"
  shows "InvCipher rk (CipherSw rk st) = st"
proof -
  have "fold (inv_round rk) (rev [1..<Nr]) (ShiftRows (SubBytes (fold (full_round rk) [1..<Nr] s)))
      = ShiftRows (SubBytes s)" if "length s = 16" for s
    using inv_rounds_full_rounds [OF that, of rk 9] by (simp add: Nr_def)
  then show ?thesis
    using assms unfolding CipherSw_rounds InvCipher_rounds
    by (simp only: AddRoundKey_twice InvShiftRows_ShiftRows InvSubBytes_SubBytes
        length_rounds length_fold_rounds)
qed

text \<open>C28: The inverse cipher recovers the plaintext block: whatever the round keys, decrypting
  with \<^verbatim>\<open>InvCipher\<close> what \<^verbatim>\<open>CipherSw\<close> produced gives back the sixteen bytes.\<close>

theorem decrypt_encrypt_block:
  assumes "length st = 16"
  shows "InvCipher rk (CipherSw rk st) = st"
  by (rule InvCipher_CipherSw [OF assms])

theorem decrypt_encrypt_block_witness:
  "InvCipher (replicate 176 7) (CipherSw (replicate 176 7) (map word_of_nat [0..<16]))
     = map word_of_nat [0..<16]"
  by (rule decrypt_encrypt_block) simp

end
