(* ===== verification/AesHw.thy ===== *)
theory AesHw imports AesSpec begin

text \<open>
  The AES of the source against the standard: the row shift, the column mixing and the key
  schedule are those of FIPS 197, and the cipher written with the CPU's AES instructions is
  the portable one when the instructions do what their manuals say.
\<close>

section \<open>The standard\<close>

text \<open>FIPS 197 on the byte list, row \<open>r\<close> and column \<open>c\<close> of the state at position \<open>r + 4 * c\<close>:
  the field multiplication of 4.2, the byte substitution of 5.1.1 (over the table of the
  source), the row shift of 5.1.2 and the matrix of 5.1.3.\<close>

definition x_mul :: "u8 \<Rightarrow> u8" where
  "x_mul a = (if bit a 7 then push_bit 1 a XOR 0x1b else push_bit 1 a)"

definition gf_mul :: "u8 \<Rightarrow> u8 \<Rightarrow> u8" where
  "gf_mul a b = fold (\<lambda>i acc. acc XOR (if bit b i then (x_mul ^^ i) a else 0)) [0..<8] 0"

definition fips_shift_rows :: "u8 list \<Rightarrow> u8 list" where
  "fips_shift_rows s = map (\<lambda>k. let r = k mod 4; c = k div 4 in s ! (r + 4 * ((c + r) mod 4))) [0..<16]"

definition fips_mix_columns :: "u8 list \<Rightarrow> u8 list" where
  "fips_mix_columns s =
     map (\<lambda>k. let c = k div 4; a = (\<lambda>i. s ! ((k mod 4 + i) mod 4 + 4 * c))
              in gf_mul (a 0) 2 XOR gf_mul (a 1) 3 XOR a 2 XOR a 3) [0..<16]"

definition fips_sub_bytes :: "u8 list \<Rightarrow> u8 list" where
  "fips_sub_bytes s = map getSBoxValue s"

lemma xtime_x_mul: "xtime a = x_mul a"
proof -
  have f: "fld x 7 1 = b2w (bit x 7)" for x :: u8
    by (rule bit_word_eqI) (auto simp: bit_fld b2w_def bit_1_iff intro!: gr0I dest: bit_imp_le_length)
  show ?thesis by (simp add: xtime_def x_mul_def f)
qed

lemma gf_mul_2: "gf_mul a 2 = xtime a"
  and gf_mul_3: "gf_mul a 3 = a XOR xtime a"
  by (simp_all add: gf_mul_def upt_rec xtime_x_mul)

lemma SubBytes_fips: "length st = 16 \<Longrightarrow> SubBytes st = fips_sub_bytes st"
  by (simp add: SubBytes_map fips_sub_bytes_def)

lemma ShiftRows_fips:
  assumes "length st = 16"
  shows "ShiftRows st = fips_shift_rows st"
  using assms by (simp add: ShiftRows_map fips_shift_rows_def Let_def add.commute)

lemma MixColumns_fips:
  assumes "length st = 16"
  shows "MixColumns st = fips_mix_columns st"
  using assms
  by (cases st rule: list16_cases)
    (simp_all add: MixColumns_def fips_mix_columns_def upt4 upt16 mix_column_def sget_def sput_def
      Let_def gf_mul_2 gf_mul_3 xtime_xor xor.assoc xor.left_commute xor.commute)


section \<open>The hardware rounds\<close>

text \<open>What Arm documents for AESE and AESMC, and Intel for AESENC and AESENCLAST, on a
  sixteen-byte register.\<close>

definition neon_documented :: "(u8 list \<Rightarrow> u8 list \<Rightarrow> u8 list) \<Rightarrow> (u8 list \<Rightarrow> u8 list) \<Rightarrow> bool" where
  "neon_documented aese aesmc \<longleftrightarrow>
     (\<forall>s k. length s = 16 \<longrightarrow> length k = 16 \<longrightarrow> aese s k = fips_shift_rows (fips_sub_bytes (xor16 s k)))
     \<and> (\<forall>s. length s = 16 \<longrightarrow> aesmc s = fips_mix_columns s)"

definition ni_documented ::
    "(u8 list \<Rightarrow> u8 list \<Rightarrow> u8 list) \<Rightarrow> (u8 list \<Rightarrow> u8 list \<Rightarrow> u8 list) \<Rightarrow> bool" where
  "ni_documented aesenc aesenclast \<longleftrightarrow>
     (\<forall>s k. length s = 16 \<longrightarrow> length k = 16 \<longrightarrow>
        aesenc s k = xor16 (fips_mix_columns (fips_sub_bytes (fips_shift_rows s))) k)
     \<and> (\<forall>s k. length s = 16 \<longrightarrow> length k = 16 \<longrightarrow>
        aesenclast s k = xor16 (fips_sub_bytes (fips_shift_rows s)) k)"

lemma load16_self: "length st = 16 \<Longrightarrow> load16 st 0 = st"
  by (rule nth_equalityI) (simp_all add: load16_def)

lemma length_load16 [simp]: "length (load16 p off) = 16"
  by (simp add: load16_def)

lemma length_xor16 [simp]: "length (xor16 a b) = min (length a) (length b)"
  by (simp add: xor16_def)

lemma AddRoundKey_xor16:
  assumes "length st = 16"
  shows "AddRoundKey r rk st = xor16 st (load16 rk (r * 16))"
  using assms
  by (intro nth_equalityI) (simp_all add: AddRoundKey_map xor16_def load16_def mult.commute)

lemma sub_shift_commute:
  "length s = 16 \<Longrightarrow> fips_sub_bytes (fips_shift_rows s) = fips_shift_rows (fips_sub_bytes s)"
  by (cases s rule: list16_cases) (simp_all add: fips_sub_bytes_def fips_shift_rows_def upt16)

lemma length_fips [simp]:
  "length (fips_shift_rows s) = 16" "length (fips_mix_columns s) = 16"
  "length (fips_sub_bytes s) = length s"
  by (simp_all add: fips_shift_rows_def fips_mix_columns_def fips_sub_bytes_def)

lemma full_round_fips:
  assumes "length st = 16"
  shows "full_round rk r st
    = xor16 (fips_mix_columns (fips_shift_rows (fips_sub_bytes st))) (load16 rk (r * 16))"
  using assms
  by (simp add: full_round_def AddRoundKey_xor16 MixColumns_fips ShiftRows_fips SubBytes_fips)

text \<open>AES-NI has the round boundaries of the software loop; NEON's are shifted by the key
  addition, so its state before round \<open>n\<close> is the software state without the key of round \<open>n\<close>.\<close>

lemma ni_rounds:
  assumes ni: "ni_documented aesenc aesenclast" and st: "length st = 16"
  shows "fold (\<lambda>r s. aesenc s (load16 rk (r * 16))) rs st = fold (full_round rk) rs st"
  using st
proof (induction rs arbitrary: st)
  case (Cons r rs)
  have "aesenc st (load16 rk (r * 16)) = full_round rk r st"
    using ni Cons.prems by (simp add: ni_documented_def full_round_fips sub_shift_commute)
  with Cons show ?case by simp
qed simp

lemma neon_rounds:
  assumes "neon_documented aese aesmc" "length st = 16"
  shows "length (fold (\<lambda>r s. aesmc (aese s (load16 rk (r * 16)))) [0..<n] st) = 16
    \<and> xor16 (fold (\<lambda>r s. aesmc (aese s (load16 rk (r * 16)))) [0..<n] st) (load16 rk (n * 16))
      = fold (full_round rk) [1..<Suc n] (AddRoundKey 0 rk st)"
proof (induction n)
  case 0
  then show ?case using assms(2) by (simp add: AddRoundKey_xor16)
next
  case (Suc n)
  have "[1..<Suc (Suc n)] = [1..<Suc n] @ [Suc n]" by simp
  with Suc show ?case
    using assms
    by (simp add: neon_documented_def full_round_fips del: upt_Suc)
      (simp add: upt_Suc_append)
qed

lemma neon_rounds_cipher:
  assumes "neon_documented vaeseq vaesmcq" "length st = 16"
  shows "CipherHw_neon vaeseq vaesmcq rk st = CipherSw rk st"
proof -
  define s where "s = fold (\<lambda>r s. vaesmcq (vaeseq s (load16 rk (r * 16)))) [0..<9] st"
  define t where "t = fold (full_round rk) [1..<10] (AddRoundKey 0 rk st)"
  have "length s = 16" and t: "xor16 s (load16 rk (9 * 16)) = t" "length t = 16"
    using neon_rounds [OF assms, of rk 9] assms(2) by (simp_all add: s_def t_def)
  then have "CipherHw_neon vaeseq vaesmcq rk st = xor16 (fips_shift_rows (fips_sub_bytes t)) (load16 rk 160)"
    using assms by (simp add: CipherHw_neon_def Nr_def load16_self neon_documented_def flip: s_def)
  also have "\<dots> = AddRoundKey Nr rk (ShiftRows (SubBytes t))"
    using t(2) by (simp add: AddRoundKey_xor16 Nr_def ShiftRows_fips SubBytes_fips)
  also have "\<dots> = CipherSw rk st"
    by (simp add: CipherSw_rounds Nr_def t_def)
  finally show ?thesis .
qed

lemma ni_rounds_cipher:
  assumes "ni_documented aesenc aesenclast" "length st = 16"
  shows "CipherHw_ni aesenc aesenclast rk st = CipherSw rk st"
proof -
  define t where "t = fold (full_round rk) [1..<Nr] (AddRoundKey 0 rk st)"
  have t: "length t = 16" using assms(2) by (simp add: t_def)
  have "CipherHw_ni aesenc aesenclast rk st = aesenclast t (load16 rk 160)"
    using ni_rounds [OF assms(1), of "AddRoundKey 0 rk st" rk "[1..<Nr]"] assms(2)
    by (simp add: CipherHw_ni_def load16_self AddRoundKey_xor16 t_def Nr_def)
  also have "\<dots> = AddRoundKey Nr rk (ShiftRows (SubBytes t))"
    using assms(1) t
    by (simp add: AddRoundKey_xor16 Nr_def ShiftRows_fips SubBytes_fips ni_documented_def sub_shift_commute)
  also have "\<dots> = CipherSw rk st"
    by (simp add: CipherSw_rounds t_def)
  finally show ?thesis .
qed

text \<open>On an AArch64 host, whose AESE and AESMC instructions do what the architecture
  manual says, the hardware cipher computes the software cipher: the same round keys give
  the same block.\<close>

theorem neon_cipher_agrees:
  assumes "neon_documented vaeseq vaesmcq" "length st = 16"
  shows "CipherHw_neon vaeseq vaesmcq rk st = CipherSw rk st"
  by (rule neon_rounds_cipher [OF assms])

theorem neon_cipher_agrees_witness:
  "CipherHw_neon (\<lambda>s k. fips_shift_rows (fips_sub_bytes (xor16 s k))) fips_mix_columns
      (replicate 176 3) (replicate 16 9)
    = CipherSw (replicate 176 3) (replicate 16 9)"
  by (rule neon_cipher_agrees) (simp_all add: neon_documented_def)

text \<open>On an x86-64 host, whose AESENC and AESENCLAST instructions do what Intel
  documents, the hardware cipher computes the software cipher.\<close>

theorem ni_cipher_agrees:
  assumes "ni_documented aesenc aesenclast" "length st = 16"
  shows "CipherHw_ni aesenc aesenclast rk st = CipherSw rk st"
  by (rule ni_rounds_cipher [OF assms])

theorem ni_cipher_agrees_witness:
  "CipherHw_ni (\<lambda>s k. xor16 (fips_mix_columns (fips_sub_bytes (fips_shift_rows s))) k)
      (\<lambda>s k. xor16 (fips_sub_bytes (fips_shift_rows s)) k) (replicate 176 3) (replicate 16 9)
    = CipherSw (replicate 176 3) (replicate 16 9)"
  by (rule ni_cipher_agrees) (simp_all add: ni_documented_def)

section \<open>The key schedule\<close>

text \<open>The words of FIPS 197, 5.2, with its round constants as the powers of \<open>x\<close>.\<close>

fun fips_word :: "u8 list \<Rightarrow> nat \<Rightarrow> u8 list" where
  "fips_word key i =
     (if i < 4 then take 4 (drop (4 * i) key)
      else let t = fips_word key (i - 1);
               t = (if i mod 4 = 0
                    then xor16 (map getSBoxValue (rotate1 t)) [(x_mul ^^ (i div 4 - 1)) 1, 0, 0, 0]
                    else t)
           in xor16 (fips_word key (i - 4)) t)"

declare fips_word.simps [simp del]

definition word_at :: "u8 list \<Rightarrow> nat \<Rightarrow> u8 list" where
  "word_at rk i = [rk ! (4 * i), rk ! (4 * i + 1), rk ! (4 * i + 2), rk ! (4 * i + 3)]"

lemma Rcon_powers: "1 \<le> k \<Longrightarrow> k \<le> 10 \<Longrightarrow> Rcon ! k = (x_mul ^^ (k - 1)) 1"
proof -
  assume k: "1 \<le> k" "k \<le> 10"
  have "list_all (\<lambda>k. Rcon ! k = (x_mul ^^ (k - 1)) 1) [1..<11]" by code_simp
  with k show ?thesis by (simp add: list_all_iff)
qed

lemma length_expand_step [simp]: "length (expand_step i rk) = length rk"
  by (simp add: expand_step_def Let_def)

lemma word_at_expand_step_other:
  assumes "m < i" "4 \<le> i"
  shows "word_at (expand_step i rk) m = word_at rk m"
  using assms by (simp add: word_at_def expand_step_def Let_def)

lemma word_at_expand_step:
  assumes i: "4 \<le> i" "i < 44" and l: "length rk = 176"
  shows "word_at (expand_step i rk) i
    = xor16 (word_at rk (i - 4))
        (if i mod 4 = 0
         then xor16 (map getSBoxValue (rotate1 (word_at rk (i - 1)))) [Rcon ! (i div 4), 0, 0, 0]
         else word_at rk (i - 1))"
  using assms
  by (simp add: word_at_def expand_step_def Let_def xor16_def Nk_def mult.commute [of 4])

lemma word_at_copy_key:
  assumes "length rk = 176" "length key = 16" "i < 4"
  shows "word_at (copy_key key rk) i = take 4 (drop (4 * i) key)"
proof -
  obtain a0 a1 a2 a3 a4 a5 a6 a7 a8 a9 a10 a11 a12 a13 a14 a15
    where k: "key = [a0, a1, a2, a3, a4, a5, a6, a7, a8, a9, a10, a11, a12, a13, a14, a15]"
    by (rule list16_cases [OF assms(2)])
  have "i = 0 \<or> i = 1 \<or> i = 2 \<or> i = 3" using assms(3) by auto
  then show ?thesis using assms(1) by (auto simp: k word_at_def copy_key_def Nk_def upt4)
qed

lemma length_copy_key [simp]: "length (copy_key key rk) = length rk"
  by (simp add: copy_key_def Nk_def upt4)

lemma expanded_words:
  assumes "length rk = 176" "length key = 16"
  shows "n \<le> 40 \<Longrightarrow> length (fold expand_step [4..<4 + n] (copy_key key rk)) = 176
    \<and> (\<forall>m < 4 + n. word_at (fold expand_step [4..<4 + n] (copy_key key rk)) m = fips_word key m)"
proof (induction n)
  case 0
  then show ?case using assms by (simp add: word_at_copy_key fips_word.simps)
next
  case (Suc n)
  let ?r = "fold expand_step [4..<4 + n] (copy_key key rk)"
  have f: "fold expand_step [4..<4 + Suc n] (copy_key key rk) = expand_step (4 + n) ?r"
    by (simp only: add_Suc_right upt_Suc_append le_add1 fold_append comp_apply fold_simps)
  have ih: "length ?r = 176" "\<And>m. m < 4 + n \<Longrightarrow> word_at ?r m = fips_word key m" using Suc by auto
  have "word_at (expand_step (4 + n) ?r) (4 + n) = fips_word key (4 + n)"
  proof -
    have d: "(4 + n) div 4 = Suc (n div 4)" "n div 4 \<le> 9" using Suc.prems by simp_all
    then have "Rcon ! Suc (n div 4) = (x_mul ^^ (n div 4)) 1"
      using Rcon_powers [of "Suc (n div 4)"] by simp
    then show ?thesis
      using Suc.prems ih d(1) by (subst fips_word.simps) (simp add: word_at_expand_step Let_def)
  qed
  moreover have "m < 4 + n \<or> m = 4 + n" if "m < 4 + Suc n" for m using that by auto
  ultimately show ?case
    using ih unfolding f by (metis le_add1 length_expand_step word_at_expand_step_other)
qed

text \<open>The key schedule is the one of the standard: word \<open>i\<close> of the expanded key is
  the word \<open>w[i]\<close> of FIPS 197 for all 44 words, whatever the caller's array held before.\<close>

theorem key_schedule_exact:
  assumes "length rk = 176" "length key = 16" "i < 44"
  shows "word_at (KeyExpansion rk key) i = fips_word key i"
  using expanded_words [OF assms(1,2), of 40] assms(3) by (simp add: KeyExpansion_def Nb_def Nk_def Nr_def)

theorem key_schedule_exact_witness:
  "word_at (KeyExpansion (replicate 176 0) (replicate 16 5)) 43 = fips_word (replicate 16 5) 43"
  by (rule key_schedule_exact) simp_all

end
