(* ===== verification/AesModes.thy ===== *)
theory AesModes imports AesHw begin

text \<open>
  The block modes of \<open>Aes\<close>.  The counter is a big-endian number modulo \<open>2 ^ 128\<close>; CTR is
  the exclusive or with the keystream of the counter blocks, on any host whose hardware
  cipher agrees with the software one; CBC decryption undoes CBC encryption.  The facts
  about keystreams are proved in a locale over a block function and interpreted on the
  cipher of every key.
\<close>

section \<open>The counter\<close>

definition be_val :: "u8 list \<Rightarrow> nat" where
  "be_val bs = foldl (\<lambda>v b. v * 256 + unat b) 0 bs"

definition be_bytes :: "nat \<Rightarrow> nat \<Rightarrow> u8 list" where
  "be_bytes n v = map (\<lambda>k. word_of_nat (v div 256 ^ (n - 1 - k))) [0..<n]"

lemma be_val_snoc [simp]: "be_val (xs @ [b]) = be_val xs * 256 + unat b"
  and be_val_Nil [simp]: "be_val [] = 0"
  by (simp_all add: be_val_def)

lemma unat_lt256: "unat (b::u8) < 256"
  using unsigned_less [of b, where 'a = nat] by simp

lemma be_val_bound: "be_val xs < 256 ^ length xs"
proof (induction xs rule: rev_induct)
  case (snoc b xs)
  then show ?case using unat_lt256 [of b] by simp
qed simp

lemma be_bytes_Suc: "be_bytes (Suc n) v = be_bytes n (v div 256) @ [word_of_nat v]"
proof (rule nth_equalityI)
  fix i assume "i < length (be_bytes (Suc n) v)"
  then consider "i = n" | "i < n" by (auto simp: be_bytes_def less_Suc_eq)
  then show "be_bytes (Suc n) v ! i = (be_bytes n (v div 256) @ [word_of_nat v]) ! i"
  proof cases
    case 2
    then have "n - i = Suc (n - Suc i)" by simp
    with 2 show ?thesis by (simp add: be_bytes_def nth_append div_mult2_eq)
  qed (simp add: be_bytes_def nth_append)
qed (simp add: be_bytes_def)

lemma be_bytes_be_val: "be_bytes (length xs) (be_val xs) = xs"
proof (induction xs rule: rev_induct)
  case Nil
  then show ?case by (simp add: be_bytes_def)
next
  case (snoc b xs)
  have "(be_val xs * 256 + unat b) div 256 = be_val xs" using unat_lt256 [of b] by simp
  moreover have "word_of_nat (be_val xs * 256 + unat b) = b"
    using unat_lt256 [of b] unat_of_nat [of "be_val xs * 256 + unat b", where 'a = 8]
    by (simp only: word_unat_eq_iff) simp
  ultimately show ?case using snoc by (simp add: be_bytes_Suc)
qed

lemma be_val_inject: "length xs = length ys \<Longrightarrow> be_val xs = be_val ys \<Longrightarrow> xs = ys"
  by (metis be_bytes_be_val)

lemma length_ctr_increment [simp]: "length (ctr_increment n iv) = length iv"
  by (induction n iv rule: ctr_increment.induct) simp_all

lemma unat_succ_byte: "b \<noteq> 255 \<Longrightarrow> unat (b + 1 :: u8) = unat b + 1"
  using unat_lt256 [of b] by (simp add: word_unat_eq_iff unat_word_ariths)

lemma ctr_increment_prefix:
  "n \<le> length iv \<Longrightarrow> drop n (ctr_increment n iv) = drop n iv
     \<and> be_val (take n (ctr_increment n iv)) = (be_val (take n iv) + 1) mod 256 ^ n"
proof (induction n arbitrary: iv)
  case (Suc n)
  let ?r = "ctr_increment n (iv[n := 0])"
  show ?case
  proof (cases "iv ! n = 255")
    case True
    have ih: "drop n ?r = drop n (iv[n := 0])"
      "be_val (take n ?r) = (be_val (take n iv) + 1) mod 256 ^ n"
      using Suc.IH [of "iv[n := 0]"] Suc.prems by simp_all
    then have "?r ! n = 0" "drop (Suc n) ?r = drop (Suc n) iv"
      using Suc.prems by (metis Suc_le_lessD hd_drop_conv_nth length_ctr_increment length_list_update
          nth_list_update_eq, metis drop_Suc drop_update_cancel lessI tl_drop)
    moreover have "(be_val (take n iv) + 1) mod 256 ^ n * 256
        = (be_val (take n iv) * 256 + 255 + 1) mod 256 ^ Suc n"
      by (simp add: mult_mod_left add_mult_distrib mult.commute [of 256])
    ultimately show ?thesis
      using True ih(2) Suc.prems by (simp add: take_Suc_conv_app_nth)
  next
    case False
    have "be_val (take n iv) * 256 + unat (iv ! n) + 1 < 256 ^ Suc n"
    proof -
      have "be_val (take n iv) < 256 ^ n"
        using be_val_bound [of "take n iv"] Suc.prems by simp
      moreover have "unat (iv ! n) + 1 < 256"
        using unat_lt256 [of "iv ! n + 1"] False by (simp add: unat_succ_byte)
      ultimately show ?thesis by simp
    qed
    then show ?thesis
      using False Suc.prems by (simp add: take_Suc_conv_app_nth unat_succ_byte)
  qed
qed simp

lemma be_val_ctr_increment:
  assumes "length iv = 16"
  shows "be_val (ctr_increment 16 iv) = (be_val iv + 1) mod 2 ^ 128"
proof -
  have "(256::nat) ^ 16 = 2 ^ 128" by simp
  then show ?thesis using ctr_increment_prefix [of 16 iv] assms by (simp del: power_numeral)
qed

lemma keystream_increment_eq: "n \<le> length iv \<Longrightarrow> keystream_increment n iv = ctr_increment n iv"
proof (induction n arbitrary: iv)
  case (Suc n)
  have "iv ! n + 1 = 0 \<longleftrightarrow> iv ! n = 255"
    using unat_lt256 [of "iv ! n"] by (auto simp: word_unat_eq_iff unat_word_ariths dest: dvd_imp_le)
  note b = this
  show ?case
  proof (cases "iv ! n = 255")
    case True
    then have "iv ! n + 1 = 0" using b by blast
    then have "keystream_increment (Suc n) iv = keystream_increment n (iv[n := 0])"
      using Suc.prems by (simp add: Let_def)
    with True Suc show ?thesis by simp
  next
    case False
    with b Suc.prems show ?thesis by (simp add: Let_def)
  qed
qed simp

section \<open>Keystreams\<close>

locale block_function =
  fixes E :: "u8 list \<Rightarrow> u8 list"
  assumes length_E: "length b = 16 \<Longrightarrow> length (E b) = 16"
begin

definition key_byte :: "u8 list \<Rightarrow> nat \<Rightarrow> u8" where
  "key_byte iv j = E ((ctr_increment 16 ^^ (j div 16)) iv) ! (j mod 16)"

definition ctr_xor :: "u8 list \<Rightarrow> u8 list \<Rightarrow> u8 list" where
  "ctr_xor iv b = map (\<lambda>j. b ! j XOR key_byte iv j) [0..<length b]"

lemma length_ctr_xor [simp]: "length (ctr_xor iv b) = length b"
  by (simp add: ctr_xor_def)

lemma ctr_xor_twice: "ctr_xor iv (ctr_xor iv b) = b"
  by (rule nth_equalityI) (simp_all add: ctr_xor_def xor.assoc)

lemma length_counter [simp]: "length ((ctr_increment 16 ^^ k) iv) = length iv"
  by (induction k) simp_all

lemma ctr_xor_block:
  assumes "length iv = 16" "length b = 16"
  shows "ctr_xor iv b = xor16 b (E iv)"
  using assms
  by (intro nth_equalityI) (simp_all add: ctr_xor_def key_byte_def xor16_def length_E)

end

interpretation sw: block_function "CipherSw rk" for rk
  by unfold_locales simp

section \<open>CTR\<close>

text \<open>A host whose hardware cipher, if it is ever chosen, is the software one; the
  theorems of \<open>AesHw\<close> give it for both instruction sets.\<close>

definition host_ok :: "aes_host \<Rightarrow> bool" where
  "host_ok H \<longleftrightarrow> (\<forall>rk st. length st = 16 \<longrightarrow> CipherHw H rk st = CipherSw rk st)"

lemma portable_host_ok [simp]: "host_ok portable_host"
  by (simp add: host_ok_def portable_host_def)

lemma host_ok_neon:
    "neon_documented vaeseq vaesmcq \<Longrightarrow> host_ok \<lparr>CipherHw = CipherHw_neon vaeseq vaesmcq, hw_detect = d\<rparr>"
  and host_ok_ni:
    "ni_documented aesenc aesenclast \<Longrightarrow> host_ok \<lparr>CipherHw = CipherHw_ni aesenc aesenclast, hw_detect = d\<rparr>"
  by (simp_all add: host_ok_def neon_rounds_cipher ni_rounds_cipher)

text \<open>The probe after the first use.\<close>

definition probed :: "aes_host \<Rightarrow> int \<Rightarrow> int" where
  "probed H hw = (if hw < 0 then hw_detect H else hw)"

lemma probed_twice [simp]: "probed H (probed H hw) = probed H hw"
  by (simp add: probed_def)

lemma Cipher_host:
  "host_ok H \<Longrightarrow> length st = 16 \<Longrightarrow> Cipher H hw rk st = (probed H hw, CipherSw rk st)"
  by (simp add: Cipher_def host_ok_def Let_def probed_def)

lemma ctr_index_start:
  fixes i :: nat
  assumes "i mod 16 = 0"
  shows "(i + 15) div 16 = i div 16" "(Suc i + 15) div 16 = Suc (i div 16)"
    "(if i = 0 then 16 else (i - 1) mod 16 + 1) = 16"
proof -
  obtain q where q: "i = 16 * q" using assms by (auto elim: dvdE)
  show "(i + 15) div 16 = i div 16" "(Suc i + 15) div 16 = Suc (i div 16)" by (simp_all add: q)
  show "(if i = 0 then 16 else (i - 1) mod 16 + 1) = 16"
  proof (cases q)
    case (Suc p)
    then have "i - 1 = 15 + 16 * p" by (simp add: q)
    then show ?thesis by simp
  qed (simp add: q)
qed

lemma ctr_index_inside:
  fixes i :: nat
  assumes "i mod 16 \<noteq> 0"
  shows "(Suc i + 15) div 16 = (i + 15) div 16" "(i - 1) div 16 = i div 16"
    "(i - 1) mod 16 + 1 = i mod 16" "i \<noteq> 0"
proof -
  obtain r where r: "i mod 16 = Suc r" using assms by (cases "i mod 16") auto
  obtain q where "q = i div 16" by blast
  with r have i: "i = Suc r + 16 * q" "r < 15"
    using mod_mult_div_eq [of i 16] mod_less_divisor [of 16 i] by simp_all
  have "Suc i + 15 = Suc r + 16 * Suc q" "i + 15 = r + 16 * Suc q" using i by simp_all
  then show "(Suc i + 15) div 16 = (i + 15) div 16" using i(2) by (simp only: div_mult_self2)
  show "(i - 1) div 16 = i div 16" "(i - 1) mod 16 + 1 = i mod 16" "i \<noteq> 0"
    using i(2) by (simp_all add: i(1))
qed

lemma ctr_steps:
  assumes H: "host_ok H" and iv: "length (Iv c) = 16"
  shows "i \<le> length b \<Longrightarrow> fold (ctr_step H) [0..<i]
      \<lparr>cr_hw_state = hw, cr_ctx = c, cr_buffer = k0, cr_bi = 16, cr_buf = b\<rparr>
    = \<lparr>cr_hw_state = (if i = 0 then hw else probed H hw),
       cr_ctx = c\<lparr>Iv := (ctr_increment 16 ^^ ((i + 15) div 16)) (Iv c)\<rparr>,
       cr_buffer = (if i = 0 then k0
                    else CipherSw (RoundKey c) ((ctr_increment 16 ^^ ((i - 1) div 16)) (Iv c))),
       cr_bi = (if i = 0 then 16 else (i - 1) mod 16 + 1),
       cr_buf = map (\<lambda>j. if j < i then b ! j XOR sw.key_byte (RoundKey c) (Iv c) j else b ! j)
                  [0..<length b]\<rparr>"
proof (induction i)
  case 0
  then show ?case by (simp add: map_nth)
next
  case (Suc i)
  let ?s = "fold (ctr_step H) [0..<i]
      \<lparr>cr_hw_state = hw, cr_ctx = c, cr_buffer = k0, cr_bi = 16, cr_buf = b\<rparr>"
  let ?inc = "\<lambda>k. (ctr_increment 16 ^^ k) (Iv c)"
  let ?E = "CipherSw (RoundKey c)"
  let ?out = "\<lambda>i. map (\<lambda>j. if j < i then b ! j XOR sw.key_byte (RoundKey c) (Iv c) j else b ! j) [0..<length b]"
  have ih: "?s = \<lparr>cr_hw_state = (if i = 0 then hw else probed H hw), cr_ctx = c\<lparr>Iv := ?inc ((i + 15) div 16)\<rparr>,
       cr_buffer = (if i = 0 then k0 else ?E (?inc ((i - 1) div 16))),
       cr_bi = (if i = 0 then 16 else (i - 1) mod 16 + 1), cr_buf = ?out i\<rparr>"
    using Suc by auto
  have out: "(?out i)[i := b ! i XOR sw.key_byte (RoundKey c) (Iv c) i] = ?out (Suc i)"
    by (rule nth_equalityI) (auto simp: nth_list_update less_Suc_eq)
  have f: "fold (ctr_step H) [0..<Suc i] s = ctr_step H i (fold (ctr_step H) [0..<i] s)" for s by simp
  have C: "Cipher H hw' (RoundKey c) (?inc (i div 16)) = (probed H hw', ?E (?inc (i div 16)))" for hw'
    using Cipher_host [OF H, of "?inc (i div 16)"] iv by simp
  show ?case
  proof (cases "i mod 16 = 0")
    case True
    note m = ctr_index_start [OF True]
    show ?thesis
      unfolding f ih m using out C iv Suc.prems True
      by (simp add: ctr_step_def Let_def AES_BLOCKLEN_def sw.key_byte_def)
  next
    case False
    note m = ctr_index_inside [OF False]
    show ?thesis
      unfolding f ih m(1) using out m(2-4) iv Suc.prems False
      by (simp add: ctr_step_def Let_def AES_BLOCKLEN_def sw.key_byte_def)
  qed
qed

lemma length_be_bytes [simp]: "length (be_bytes n v) = n"
  by (simp add: be_bytes_def)

lemma counter_value:
  assumes "length iv = 16"
  shows "(ctr_increment 16 ^^ k) iv = be_bytes 16 ((be_val iv + k) mod 2 ^ 128)"
proof (rule be_val_inject)
  have "be_val iv < 2 ^ 128" using be_val_bound [of iv] assms by simp
  then have v: "be_val ((ctr_increment 16 ^^ k) iv) = (be_val iv + k) mod 2 ^ 128"
  proof (induction k)
    case (Suc k)
    then show ?case using assms be_val_ctr_increment [of "(ctr_increment 16 ^^ k) iv"]
      by (simp add: mod_simps)
  qed simp
  then have "be_bytes 16 ((be_val iv + k) mod 2 ^ 128) = (ctr_increment 16 ^^ k) iv"
    using be_bytes_be_val [of "(ctr_increment 16 ^^ k) iv"] assms by simp
  then show "be_val ((ctr_increment 16 ^^ k) iv) = be_val (be_bytes 16 ((be_val iv + k) mod 2 ^ 128))"
    by simp
qed (simp add: assms)

text \<open>CTR mode is the exclusive or with the keystream.  Byte \<open>j\<close> of the output is the
  input byte combined with byte \<open>j mod 16\<close> of the encrypted counter block number
  \<open>j div 16\<close>, the counter being a big-endian number that wraps at \<open>2 ^ 128\<close>; the context is
  left with the counter one past the last block started.\<close>

theorem ctr_xcrypt_exact:
  assumes "host_ok H" "length (Iv c) = 16" "length b = len"
  shows "snd (AES_CTR_xcrypt_buffer H hw c b len) =
    (c\<lparr>Iv := be_bytes 16 ((be_val (Iv c) + (len + 15) div 16) mod 2 ^ 128)\<rparr>,
     map (\<lambda>j. b ! j XOR
        CipherSw (RoundKey c) (be_bytes 16 ((be_val (Iv c) + j div 16) mod 2 ^ 128)) ! (j mod 16))
       [0..<len])"
  using ctr_steps [OF assms(1,2), of len b hw "replicate 16 0"] assms(2,3)
  by (auto simp: AES_CTR_xcrypt_buffer_def AES_BLOCKLEN_def sw.key_byte_def counter_value)

theorem ctr_xcrypt_exact_witness:
  "snd (AES_CTR_xcrypt_buffer portable_host 0 \<lparr>RoundKey = replicate 176 1, Iv = replicate 16 255\<rparr>
         (replicate 20 0) 20) =
    (\<lparr>RoundKey = replicate 176 1, Iv = be_bytes 16 ((be_val (replicate 16 255) + 35 div 16) mod 2 ^ 128)\<rparr>,
     map (\<lambda>j. replicate 20 0 ! j XOR
        CipherSw (replicate 176 1) (be_bytes 16 ((be_val (replicate 16 255) + j div 16) mod 2 ^ 128)) ! (j mod 16))
       [0..<20])"
  by (subst ctr_xcrypt_exact) (simp_all only: portable_host_ok length_replicate AES_ctx.simps, simp)

lemma xcrypt_ctr_xor:
  assumes "host_ok H" "length (Iv c) = 16" "b \<noteq> []"
  shows "AES_CTR_xcrypt_buffer H hw c b (length b) =
    (probed H hw, c\<lparr>Iv := (ctr_increment 16 ^^ ((length b + 15) div 16)) (Iv c)\<rparr>,
     sw.ctr_xor (RoundKey c) (Iv c) b)"
  using ctr_steps [OF assms(1,2), of "length b" b hw "replicate 16 0"] assms(3)
  by (simp add: AES_CTR_xcrypt_buffer_def AES_BLOCKLEN_def sw.ctr_xor_def)

lemma xcrypt_block:
  assumes "host_ok H" "length (Iv c) = 16" "length b = 16"
  shows "AES_CTR_xcrypt_buffer H hw c b 16 =
    (probed H hw, c\<lparr>Iv := ctr_increment 16 (Iv c)\<rparr>, xor16 b (CipherSw (RoundKey c) (Iv c)))"
proof -
  have "b \<noteq> []" using assms(3) by auto
  from xcrypt_ctr_xor [OF assms(1,2) this, of hw] show ?thesis
    using assms(2,3) by (simp add: sw.ctr_xor_block)
qed

lemma next_keystream_block:
  assumes "host_ok H" "length (Iv c) = 16"
  shows "AES_CTR_next_keystream H hw c =
    (probed H hw, c\<lparr>Iv := ctr_increment 16 (Iv c)\<rparr>, CipherSw (RoundKey c) (Iv c))"
  using Cipher_host [OF assms(1), of "Iv c" hw "RoundKey c"] assms(2)
  by (simp add: AES_CTR_next_keystream_def AES_BLOCKLEN_def keystream_increment_eq)

text \<open>The keystream block handed out by \<^verbatim>\<open>AES_CTR_next_keystream\<close> is the one
  \<^verbatim>\<open>AES_CTR_xcrypt_buffer\<close> combines into a sixteen-byte buffer, and both leave the same
  counter behind although they increment it with different loops.\<close>

theorem next_keystream_is_xcrypt:
  assumes "host_ok H" "length (Iv c) = 16" "length b = 16"
  shows "snd (AES_CTR_xcrypt_buffer H hw c b 16) =
    (fst (snd (AES_CTR_next_keystream H hw' c)), xor16 b (snd (snd (AES_CTR_next_keystream H hw' c))))"
  by (simp add: assms xcrypt_block next_keystream_block)

theorem next_keystream_is_xcrypt_witness:
  defines "c \<equiv> \<lparr>RoundKey = replicate 176 1, Iv = replicate 16 255\<rparr>"
  shows "snd (AES_CTR_xcrypt_buffer portable_host 0 c (replicate 16 4) 16) =
    (fst (snd (AES_CTR_next_keystream portable_host 1 c)),
     xor16 (replicate 16 4) (snd (snd (AES_CTR_next_keystream portable_host 1 c))))"
  unfolding c_def by (rule next_keystream_is_xcrypt) simp_all

section \<open>CBC\<close>

text \<open>CBC encryption, the contract of the decryption (the source has only the latter).\<close>

fun cbc_encrypt :: "(u8 list \<Rightarrow> u8 list) \<Rightarrow> u8 list \<Rightarrow> u8 list list \<Rightarrow> u8 list list" where
  "cbc_encrypt E iv [] = []"
| "cbc_encrypt E iv (p # ps) = (let c = E (xor16 p iv) in c # cbc_encrypt E c ps)"

lemma XorWithIv_xor16:
  assumes "length iv = 16" "length b = 16"
  shows "XorWithIv iv b = xor16 b iv"
proof -
  have "fold (\<lambda>i b. b[i := b ! i XOR iv ! i]) [0..<n] b = map (\<lambda>j. if j < n then b ! j XOR iv ! j else b ! j) [0..<16]"
    if "n \<le> 16" for n
    using that
  proof (induction n)
    case 0
    then show ?case using assms(2) by (auto intro: nth_equalityI)
  next
    case (Suc n)
    then show ?case by (auto intro!: nth_equalityI simp: nth_list_update less_Suc_eq)
  qed
  from this [of 16] show ?thesis
    using assms by (auto simp: XorWithIv_def AES_BLOCKLEN_def xor16_def intro!: nth_equalityI)
qed

lemma xor16_cancel: "length a = length b \<Longrightarrow> xor16 (xor16 a b) b = a"
  by (rule nth_equalityI) (simp_all add: xor16_def xor.assoc)

declare cbc_loop.simps [simp del]

lemma cbc_loop_encrypt:
  assumes "\<forall>p \<in> set ps. length p = 16" "length (Iv ctx) = 16"
  shows "cbc_loop (length pre + 16 * length ps) (length pre) ctx
      (pre @ concat (cbc_encrypt (CipherSw (RoundKey ctx)) (Iv ctx) ps))
    = (ctx\<lparr>Iv := last (Iv ctx # cbc_encrypt (CipherSw (RoundKey ctx)) (Iv ctx) ps)\<rparr>, pre @ concat ps)"
  using assms
proof (induction ps arbitrary: ctx pre)
  case Nil
  then show ?case by (simp add: cbc_loop.simps)
next
  case (Cons p ps)
  let ?E = "CipherSw (RoundKey ctx)"
  let ?c = "?E (xor16 p (Iv ctx))"
  let ?t = "concat (cbc_encrypt ?E ?c ps)"
  have l: "length p = 16" "length ?c = 16" using Cons.prems by simp_all
  have "XorWithIv (Iv ctx) (InvCipher (RoundKey ctx) ?c) = p"
    using l Cons.prems(2) by (simp add: InvCipher_CipherSw XorWithIv_xor16 xor16_cancel)
  then have "cbc_loop (length pre + 16 * length (p # ps)) (length pre) ctx (pre @ ?c @ ?t)
      = cbc_loop (length pre + 16 * length (p # ps)) (length pre + 16) (ctx\<lparr>Iv := ?c\<rparr>) (pre @ p @ ?t)"
    using l by (subst cbc_loop.simps) (simp add: AES_BLOCKLEN_def put_at_def)
  also have "\<dots> = (ctx\<lparr>Iv := last (?c # cbc_encrypt ?E ?c ps)\<rparr>, pre @ p @ concat ps)"
    using Cons.IH [of "ctx\<lparr>Iv := ?c\<rparr>" "pre @ p"] Cons.prems l
    by (simp del: last.simps add: add.assoc)
  finally show ?case by (simp add: Let_def)
qed

text \<open>CBC decryption undoes CBC encryption: a buffer holding the chained encryption of
  a list of blocks is turned back into the blocks, and the context keeps the last cipher
  block for the next call.\<close>

theorem cbc_decrypts:
  assumes "\<forall>p \<in> set ps. length p = 16" "length (Iv ctx) = 16"
  shows "AES_CBC_decrypt_buffer ctx (concat (cbc_encrypt (CipherSw (RoundKey ctx)) (Iv ctx) ps)) (16 * length ps)
    = (ctx\<lparr>Iv := last (Iv ctx # cbc_encrypt (CipherSw (RoundKey ctx)) (Iv ctx) ps)\<rparr>, concat ps)"
  using cbc_loop_encrypt [OF assms, of "[]"] by (simp add: AES_CBC_decrypt_buffer_def)

theorem cbc_decrypts_witness:
  defines "ctx \<equiv> \<lparr>RoundKey = replicate 176 1, Iv = replicate 16 2\<rparr>"
    and "ps \<equiv> [replicate 16 3, replicate 16 (4::u8)]"
  shows "snd (AES_CBC_decrypt_buffer ctx (concat (cbc_encrypt (CipherSw (RoundKey ctx)) (Iv ctx) ps)) (16 * length ps))
    = concat ps"
  by (subst cbc_decrypts) (simp_all add: ctx_def ps_def)

end
