(* ===== verification/KeyScrambler.thy ===== *)
theory KeyScrambler imports DsiAes AesModes begin

text \<open>
  The key scrambler of the DSi AES engine read as 128-bit arithmetic.
\<close>

definition le_val :: "u8 list \<Rightarrow> nat" where
  "le_val bs = be_val (rev bs)"

definition le_word :: "u8 list \<Rightarrow> 128 word" where
  "le_word bs = word_of_nat (le_val bs)"

lemma foldl_base: "foldl (\<lambda>v b. v * 256 + unat (b::u8)) a xs = a * 256 ^ length xs + be_val xs"
  by (induction xs rule: rev_induct) (simp_all add: be_val_def algebra_simps)

lemma le_val_Nil [simp]: "le_val [] = 0"
  and le_val_Cons [simp]: "le_val (b # bs) = unat b + 256 * le_val bs"
  by (simp_all add: le_val_def)

lemma le_val_snoc: "le_val (bs @ [b]) = le_val bs + unat b * 256 ^ length bs"
  using foldl_base [of "unat b" "rev bs"] by (simp add: le_val_def be_val_def)

lemma le_val_bound: "le_val bs < 256 ^ length bs"
  using be_val_bound [of "rev bs"] by (simp add: le_val_def)

lemma bit_byte_plus:
  "bit (unat (b::u8) + 256 * x) k \<longleftrightarrow> (if k < 8 then bit b k else bit x (k - 8))"
proof (cases "k < 8")
  case True
  define d where "d = 7 - k"
  with True have d: "8 = k + Suc d" by simp
  have "(2::nat) ^ (k + Suc d) = 2 * 2 ^ d * 2 ^ k" by (simp add: power_add)
  then have e: "(256::nat) = 2 * 2 ^ d * 2 ^ k" unfolding d [symmetric] by simp
  have "256 * x = 2 * (2 ^ d * x) * 2 ^ k" by (subst e) (simp only: mult_ac)
  then have "(unat b + 256 * x) div 2 ^ k = 2 * (2 ^ d * x) + unat b div 2 ^ k"
    by (simp only: div_mult_self1 power_not_zero zero_neq_numeral [symmetric] not_False_eq_True simp_thms)
  then show ?thesis using True by (simp add: bit_iff_odd [of "unat b + 256 * x"] bit_unsigned_iff flip: bit_iff_odd)
next
  case False
  then obtain d where d: "k = 8 + d" using le_Suc_ex not_less by blast
  have "(unat b + 256 * x) div 2 ^ k = x div 2 ^ d"
    using unat_lt256 [of b] by (simp add: d power_add div_mult2_eq)
  with False show ?thesis by (simp add: bit_iff_odd d)
qed

lemma bit_le_val: "bit (le_val bs) k \<longleftrightarrow> k < 8 * length bs \<and> bit (bs ! (k div 8)) (k mod 8)"
proof (induction bs arbitrary: k)
  case (Cons b bs)
  show ?case
  proof (cases "k < 8")
    case False
    then obtain d where "k = 8 + d" using le_Suc_ex not_less by blast
    moreover have "(8 + d) div 8 = Suc (d div 8)" "(8 + d) mod 8 = d mod 8" by simp_all
    ultimately show ?thesis using Cons by (simp add: bit_byte_plus)
  qed (simp add: bit_byte_plus)
qed simp

lemma bit_le_word:
  "length bs = 16 \<Longrightarrow> bit (le_word bs) k \<longleftrightarrow> k < 128 \<and> bit (bs ! (k div 8)) (k mod 8)"
  by (auto simp: le_word_def bit_simps bit_le_val)

lemma unat_le_word: "length bs = 16 \<Longrightarrow> unat (le_word bs) = le_val bs"
  using le_val_bound [of bs] by (simp add: le_word_def unat_of_nat)

lemma le_word_xor:
  assumes "length a = 16" "length b = 16"
  shows "le_word (map (\<lambda>i. a ! i XOR b ! i) [0..<16]) = le_word a XOR le_word b"
proof (rule bit_word_eqI)
  fix n assume "n < LENGTH(128)"
  moreover from this have "n div 8 < 16" by simp
  ultimately show "bit (le_word (map (\<lambda>i. a ! i XOR b ! i) [0..<16])) n = bit (le_word a XOR le_word b) n"
    using assms by (simp add: bit_le_word bit_xor_iff)
qed

section \<open>The rotation\<close>

lemma rol16_42:
  assumes "length v = 16"
  shows "rol16 v 42 = map (\<lambda>i. push_bit 2 (v ! ((i + 11) mod 16)) OR drop_bit 6 (v ! ((i + 10) mod 16))) [0..<16]"
  using assms by (cases v rule: list16_cases) (simp add: rol16_def upt16)

lemma le_word_rol16:
  assumes "length v = 16"
  shows "le_word (rol16 v 42) = word_rotl 42 (le_word v)"
proof (rule bit_word_eqI)
  fix k assume "k < LENGTH(128)"
  moreover obtain i m where "i = k div 8" "m = k mod 8" by blast
  ultimately have k: "k = 8 * i + m" "i < 16" "m < 8" by simp_all
  have "bit (le_word (rol16 v 42)) k
      = bit (push_bit 2 (v ! ((i + 11) mod 16)) OR drop_bit 6 (v ! ((i + 10) mod 16))) m"
    using k by (simp add: rol16_42 [OF assms] bit_le_word)
  also have "\<dots> = bit (v ! (if 2 \<le> m then (i + 11) mod 16 else (i + 10) mod 16)) (if 2 \<le> m then m - 2 else m + 6)"
    using k(3) by (auto simp: bit_simps add.commute dest: bit_imp_le_length)
  also have "\<dots> = bit (v ! ((k + 86) mod 128 div 8)) ((k + 86) mod 128 mod 8)"
  proof (cases "2 \<le> m")
    case True
    then obtain e where e: "m = e + 2" "e < 6" using k(3) le_Suc_ex [of 2 m] by auto
    have "(k + 86) mod 128 = 8 * ((i + 11) mod 16) + e"
      using k e by (cases "i < 5") (auto simp: mod_if)
    with True e show ?thesis by simp
  next
    case False
    then have "(k + 86) mod 128 = 8 * ((i + 10) mod 16) + (m + 6)"
      using k by (cases "i < 6") (auto simp: mod_if)
    with False show ?thesis by simp
  qed
  also have "\<dots> = bit (word_rotl 42 (le_word v)) k"
    using k by (simp add: bit_word_rotl_iff bit_le_word [OF assms])
  finally show "bit (le_word (rol16 v 42)) k = bit (word_rotl 42 (le_word v)) k" .
qed

section \<open>The constant\<close>

lemma length_add_const [simp]: "length (fst (fold add_const_step is s)) = length (fst s)"
  by (induction "is" arbitrary: s) (simp_all add: add_const_step_def split_beta Let_def)

lemma add_const_steps:
  assumes "length t = 16" "n \<le> 16"
  shows "le_val (take n (fst (fold add_const_step [0..<n] (t, 0))))
      + unat (snd (fold add_const_step [0..<n] (t, 0))) * 256 ^ n
    = le_val (take n t) + le_val (take n (rev key_const))
    \<and> drop n (fst (fold add_const_step [0..<n] (t, 0))) = drop n t
    \<and> snd (fold add_const_step [0..<n] (t, 0)) \<le> 1"
  using assms(2)
proof (induction n)
  case (Suc n)
  obtain u c where s: "fold add_const_step [0..<n] (t, 0) = (u, c)" by (metis surj_pair)
  let ?k = "key_const ! (15 - n)"
  let ?r = "ucast (u ! n) + ucast ?k + c :: u32"
  have l: "length u = 16" using length_add_const [of "[0..<n]" "(t, 0)"] assms(1) by (simp add: s)
  have ih: "le_val (take n u) + unat c * 256 ^ n = le_val (take n t) + le_val (take n (rev key_const))"
    "drop n u = drop n t" "c \<le> 1" using Suc by (simp_all add: s)
  have un: "u ! n = t ! n" using ih(2) Suc.prems l assms(1) by (metis Suc_le_lessD hd_drop_conv_nth)
  have c: "unat c \<le> 1" using ih(3) by (simp add: word_le_nat_alt)
  have r: "unat ?r = unat (u ! n) + unat ?k + unat c"
    using c unat_lt256 [of "u ! n"] unat_lt256 [of ?k] by (simp add: unat_word_ariths unsigned_ucast_eq take_bit_eq_mod)
  have lo: "unat (ucast ?r :: u8) = unat ?r mod 256"
    by (simp add: unsigned_ucast_eq take_bit_eq_mod)
  have hi: "unat (drop_bit 8 ?r) = unat ?r div 256"
    using unat_drop_bit_eq [of 8 ?r] drop_bit_eq_div [of 8 "unat ?r"] by (simp only: power_numeral) simp
  have split: "unat (ucast ?r :: u8) + unat (drop_bit 8 ?r) * 256 = unat ?r"
    unfolding lo hi by simp
  have f: "fold add_const_step [0..<Suc n] (t, 0) = (u[n := ucast ?r], drop_bit 8 ?r)"
    by (simp add: s add_const_step_def Let_def)
  have l16: "length key_const = 16" by (simp add: key_const_def)
  moreover have "16 - Suc n = 15 - n" by simp
  ultimately have kc: "rev key_const ! n = ?k" "length key_const = 16"
    using Suc.prems by (simp_all add: rev_nth)
  have "drop_bit 8 ?r \<le> 1"
    using r c unat_lt256 [of "u ! n"] unat_lt256 [of ?k] by (simp add: word_le_nat_alt hi)
  moreover have "le_val (take (Suc n) (u[n := ucast ?r])) + unat (drop_bit 8 ?r) * 256 ^ Suc n
      = le_val (take n u) + unat ?r * 256 ^ n"
    using l Suc.prems arg_cong [OF split, of "\<lambda>x. x * 256 ^ n"]
    by (simp add: take_Suc_conv_app_nth le_val_snoc algebra_simps)
  moreover have "\<dots> = le_val (take (Suc n) t) + le_val (take (Suc n) (rev key_const))"
    using ih(1) un r kc l assms(1) Suc.prems
    by (simp add: take_Suc_conv_app_nth le_val_snoc algebra_simps)
  moreover have "drop (Suc n) (u[n := ucast ?r]) = drop (Suc n) t"
    using ih(2) by (metis drop_Suc drop_update_cancel lessI tl_drop)
  ultimately show ?case unfolding f by simp
qed simp

lemma le_word_add_const:
  assumes "length t = 16"
  shows "le_word (fst (fold add_const_step [0..<16] (t, 0)))
    = le_word t + 0xFFFEFB4E295902582A680F5F1A4F3E79"
proof -
  let ?s = "fold add_const_step [0..<16] (t, 0)"
  have l: "length (fst ?s) = 16" using assms by simp
  have k: "le_val (rev key_const) = 0xFFFEFB4E295902582A680F5F1A4F3E79"
    by (simp add: key_const_def)
  have "le_val (fst ?s) + unat (snd ?s) * 256 ^ 16 = le_val t + 0xFFFEFB4E295902582A680F5F1A4F3E79"
    using add_const_steps [OF assms, of 16] l assms k by (simp add: key_const_def)
  then have "word_of_nat (le_val (fst ?s) + unat (snd ?s) * 2 ^ 128)
      = (word_of_nat (le_val t + 0xFFFEFB4E295902582A680F5F1A4F3E79) :: 128 word)"
    by simp
  moreover have "word_of_nat (a + c * 2 ^ 128) = (word_of_nat a :: 128 word)" for a c :: nat
    by (simp only: word_unat_eq_iff unat_of_nat) simp
  ultimately show ?thesis by (simp only: le_word_def) simp
qed

text \<open>The key scrambler computes what its comment promises on 128-bit numbers, with
  byte 0 the least significant: the normal key is \<open>(X xor Y) + C\<close>, modulo \<open>2 ^ 128\<close>,
  rotated left by 42 bits.\<close>

theorem key_scrambler_exact:
  assumes "length kx = 16" "length ky = 16"
  shows "le_word (derive_normal_key kx ky)
    = word_rotl 42 ((le_word kx XOR le_word ky) + 0xFFFEFB4E295902582A680F5F1A4F3E79)"
  using assms
  by (simp add: derive_normal_key_def split_beta Let_def le_word_rol16 le_word_add_const le_word_xor)

theorem key_scrambler_exact_witness:
  "le_word (derive_normal_key (replicate 16 0xFF) (replicate 16 1))
    = word_rotl 42 ((le_word (replicate 16 0xFF) XOR le_word (replicate 16 1)) + 0xFFFEFB4E295902582A680F5F1A4F3E79)"
  by (rule key_scrambler_exact) simp_all

end
