(* ===== verification/BoundedQueue.thy ===== *)
theory BoundedQueue imports Main begin

text \<open>
  The contract of a bounded queue that drops what does not fit, as a locale: what \<open>enq\<close> and
  \<open>deq\<close> do to the list of contents.  The AES engine's FIFOs (\<open>DsiAesSpec\<close>) and the IPC FIFOs
  (\<open>IpcSpec\<close>) provide it; what a client may conclude about many words at once is proved
  here.
\<close>

locale bounded_queue =
  fixes ok :: "'q \<Rightarrow> bool" and contents :: "'q \<Rightarrow> 'a list"
    and enq :: "'q \<Rightarrow> 'a \<Rightarrow> 'q" and deq :: "'q \<Rightarrow> 'a \<times> 'q" and cap :: nat
  assumes enq_ok: "ok q \<Longrightarrow> ok (enq q v)"
    and enq_contents: "ok q \<Longrightarrow> contents (enq q v) =
      (if length (contents q) < cap then contents q @ [v] else contents q)"
    and deq_ok: "ok q \<Longrightarrow> ok (snd (deq q))"
    and deq_contents: "ok q \<Longrightarrow> contents q = v # vs \<Longrightarrow> fst (deq q) = v \<and> contents (snd (deq q)) = vs"
    and deq_empty: "ok q \<Longrightarrow> contents q = [] \<Longrightarrow> snd (deq q) = q"
begin

lemma enq_all_ok: "ok q \<Longrightarrow> ok (fold (\<lambda>v q. enq q v) vs q)"
  by (induction vs arbitrary: q) (simp_all add: enq_ok)

lemma enq_all_contents:
  "ok q \<Longrightarrow> length (contents q) + length vs \<le> cap \<Longrightarrow>
   contents (fold (\<lambda>v q. enq q v) vs q) = contents q @ vs"
proof (induction vs arbitrary: q)
  case (Cons v vs)
  then have "contents (enq q v) = contents q @ [v]" by (simp add: enq_contents)
  with Cons show ?case by (simp add: enq_ok)
qed simp

fun deq_n :: "nat \<Rightarrow> 'q \<Rightarrow> 'a list \<times> 'q" where
  "deq_n 0 q = ([], q)"
| "deq_n (Suc n) q = (let (v, q) = deq q; (vs, q) = deq_n n q in (v # vs, q))"

lemma deq_n_ok: "ok q \<Longrightarrow> ok (snd (deq_n n q))"
  by (induction n arbitrary: q) (simp_all add: split_beta Let_def deq_ok)

lemma deq_n_length: "length (fst (deq_n n q)) = n"
  by (induction n arbitrary: q) (simp_all add: split_beta Let_def)

lemma deq_n_contents:
  "ok q \<Longrightarrow> contents q = vs @ rest \<Longrightarrow>
   fst (deq_n (length vs) q) = vs \<and> contents (snd (deq_n (length vs) q)) = rest
     \<and> ok (snd (deq_n (length vs) q))"
proof (induction vs arbitrary: q)
  case (Cons v vs)
  then have "fst (deq q) = v" "contents (snd (deq q)) = vs @ rest" "ok (snd (deq q))"
    using deq_contents deq_ok by auto
  with Cons.IH show ?case by (simp add: split_beta)
qed simp

end

text \<open>Two offsets below 16 name different slots of a ring of 16.\<close>

lemma ring_slots_differ:
  fixes a :: nat
  assumes "k < n" "n < 16"
  shows "(a + k) mod 16 \<noteq> (a + n) mod 16"
proof
  assume "(a + k) mod 16 = (a + n) mod 16"
  then have "16 dvd (a + n) - (a + k)" using mod_eq_dvd_iff_nat [of "a + k" "a + n" 16] assms by simp
  with assms show False by (auto dest: dvd_imp_le)
qed

end
