(* ===== verification/DsiAesSpec.thy ===== *)
theory DsiAesSpec imports DsiAes AesModes BoundedQueue begin

text \<open>
  The correctness of the DSi AES engine: its FIFOs are bounded queues (a locale, interpreted
  on the ring buffer), the key scrambler is arithmetic on 128-bit numbers, the engine keeps
  its well-formedness, never stops while it could work, and a CCM decryption restores and
  authenticates what a CCM encryption produced.
\<close>

section \<open>The FIFOs are bounded queues\<close>

definition fifo_ok :: "fifo \<Rightarrow> bool" where
  "fifo_ok f \<longleftrightarrow> length (fifo_entries f) = 16 \<and> fifo_occupied f \<le> 16 \<and> fifo_rd f < 16
     \<and> fifo_wr f = (fifo_rd f + fifo_occupied f) mod 16"

definition fifo_list :: "fifo \<Rightarrow> u32 list" where
  "fifo_list f = map (\<lambda>k. fifo_entries f ! ((fifo_rd f + k) mod 16)) [0..<fifo_occupied f]"

lemma length_fifo_list [simp]: "length (fifo_list f) = fifo_occupied f"
  by (simp add: fifo_list_def)

lemma ring_next:
  fixes n :: nat
  assumes "n < 16"
  shows "(if n + 1 \<ge> 16 then 0 else n + 1) = (n + 1) mod 16"
  using assms by (cases "n = 15") auto

lemma fifo_write_room:
  assumes "fifo_ok f" "fifo_occupied f < 16"
  shows "fifo_write f v = f\<lparr>
    fifo_entries := (fifo_entries f)[(fifo_rd f + fifo_occupied f) mod 16 := v],
    fifo_wr := (fifo_rd f + fifo_occupied f + 1) mod 16, fifo_occupied := fifo_occupied f + 1\<rparr>"
proof -
  have "(if fifo_wr f + 1 \<ge> 16 then 0 else fifo_wr f + 1) = (fifo_rd f + fifo_occupied f + 1) mod 16"
    using assms(1) by (subst ring_next) (simp_all add: fifo_ok_def mod_simps)
  moreover have "fifo_wr f = (fifo_rd f + fifo_occupied f) mod 16"
    using assms(1) by (simp add: fifo_ok_def)
  moreover have "\<not> fifo_full f" using assms(2) by (simp add: fifo_full_def)
  ultimately show ?thesis by (simp only: fifo_write_def if_False)
qed

lemma fifo_read_some:
  assumes "fifo_ok f" "fifo_occupied f \<noteq> 0"
  shows "fifo_read f = (fifo_entries f ! fifo_rd f,
    f\<lparr>fifo_rd := (fifo_rd f + 1) mod 16, fifo_occupied := fifo_occupied f - 1\<rparr>)"
proof -
  have "(if fifo_rd f + 1 \<ge> 16 then 0 else fifo_rd f + 1) = (fifo_rd f + 1) mod 16"
    using assms(1) by (subst ring_next) (simp_all add: fifo_ok_def)
  with assms(2) show ?thesis by (simp only: fifo_read_def fifo_empty_def if_False)
qed

lemma fifo_write_ok: "fifo_ok f \<Longrightarrow> fifo_ok (fifo_write f v)"
  by (cases "fifo_occupied f < 16")
    (simp_all add: fifo_write_room, simp_all add: fifo_ok_def fifo_write_def fifo_full_def)

lemma fifo_read_ok:
  assumes "fifo_ok f"
  shows "fifo_ok (snd (fifo_read f))"
proof (cases "fifo_occupied f = 0")
  case False
  have "((fifo_rd f + 1) mod 16 + (fifo_occupied f - 1)) mod 16 = (fifo_rd f + fifo_occupied f) mod 16"
    unfolding mod_add_left_eq using False by simp
  moreover have "fifo_occupied f - 1 \<le> 16" using assms unfolding fifo_ok_def by linarith
  ultimately show ?thesis
    using assms False by (simp add: fifo_read_some [OF assms False]) (simp add: fifo_ok_def)
qed (simp add: fifo_read_def fifo_empty_def assms)

lemma fifo_write_list:
  assumes "fifo_ok f"
  shows "fifo_list (fifo_write f v) =
    (if length (fifo_list f) < 16 then fifo_list f @ [v] else fifo_list f)"
proof (cases "fifo_occupied f < 16")
  case True
  have "length (fifo_entries f) = 16" using assms by (simp add: fifo_ok_def)
  then have "map (\<lambda>k. (fifo_entries f)[(fifo_rd f + fifo_occupied f) mod 16 := v] ! ((fifo_rd f + k) mod 16))
      [0..<fifo_occupied f] = fifo_list f"
    unfolding fifo_list_def
    using ring_slots_differ [of _ "fifo_occupied f" "fifo_rd f"] True
    by (intro map_cong refl nth_list_update_neq) (metis atLeastLessThan_iff set_upt)
  with True assms show ?thesis
    by (simp add: fifo_write_room) (simp add: fifo_list_def fifo_ok_def)
next
  case False
  then show ?thesis by (simp add: fifo_write_def fifo_full_def)
qed

lemma fifo_read_list:
  assumes "fifo_ok f" "fifo_list f = v # vs"
  shows "fst (fifo_read f) = v \<and> fifo_list (snd (fifo_read f)) = vs"
proof -
  have o: "fifo_occupied f = Suc (length vs)" using length_fifo_list [of f] assms(2) by simp
  have "[0..<Suc (length vs)] = 0 # map Suc [0..<length vs]" by (simp only: map_Suc_upt upt_conv_Cons zero_less_Suc)
  then have "v = fifo_entries f ! (fifo_rd f mod 16)"
    "vs = map (\<lambda>k. fifo_entries f ! ((fifo_rd f + Suc k) mod 16)) [0..<length vs]"
    using assms(2) by (simp_all add: fifo_list_def o o_def)
  moreover have "((fifo_rd f + 1) mod 16 + k) mod 16 = (fifo_rd f + Suc k) mod 16" for k
    unfolding mod_add_left_eq by simp
  ultimately show ?thesis
    using assms(1) o by (subst (1 2) fifo_read_some) (simp_all add: fifo_ok_def fifo_list_def)
qed

interpretation ring: bounded_queue fifo_ok fifo_list fifo_write fifo_read 16
proof unfold_locales
  fix f :: fifo
  assume "fifo_ok f" "fifo_list f = []"
  then have "fifo_occupied f = 0" by (metis length_fifo_list list.size(3))
  then show "snd (fifo_read f) = f" by (simp add: fifo_read_def fifo_empty_def)
qed (simp_all add: fifo_write_ok fifo_write_list fifo_read_ok fifo_read_list)

text \<open>C27: Each FIFO of the engine is a queue of at most sixteen words: writing appends,
  unless the queue is full, when the word is lost; reading takes the oldest word; a read
  of an empty FIFO changes nothing.  The ring's indices stay consistent throughout.\<close>

theorem fifo_is_queue:
  assumes "fifo_ok f"
  shows "fifo_ok (fifo_write f v) \<and> fifo_ok (snd (fifo_read f))
    \<and> fifo_list (fifo_write f v) = (if length (fifo_list f) < 16 then fifo_list f @ [v] else fifo_list f)
    \<and> (case fifo_list f of
        [] \<Rightarrow> snd (fifo_read f) = f
      | w # ws \<Rightarrow> fst (fifo_read f) = w \<and> fifo_list (snd (fifo_read f)) = ws)"
  using assms ring.enq_ok ring.deq_ok ring.enq_contents ring.deq_empty ring.deq_contents
  by (auto split: list.split)

theorem fifo_is_queue_witness:
  "fifo_list (fifo_write fifo_init 7) = [7]"
  using fifo_is_queue [of fifo_init 7] by (simp add: fifo_ok_def fifo_init_def fifo_list_def)

section \<open>Words and bytes\<close>

lemma get32_word4: "get32 p off = word4 (p ! off) (p ! (off + 1)) (p ! (off + 2)) (p ! (off + 3))"
  by (simp add: get32_def word4_def)

lemma get32_put32: "off + 3 < length p \<Longrightarrow> get32 (put32 p off v) off = v"
  by (simp add: get32_word4 put32_def word4_of_bytes)

definition words_of :: "u8 list \<Rightarrow> u32 list" where
  "words_of b = map (\<lambda>k. get32 b (k * 4)) [0..<4]"

definition bytes_of :: "u32 list \<Rightarrow> u8 list" where
  "bytes_of ws = concat (map (\<lambda>w. [ucast w, ucast (drop_bit 8 w), ucast (drop_bit 16 w), ucast (drop_bit 24 w)]) ws)"

lemma length_words_of [simp]: "length (words_of b) = 4"
  by (simp add: words_of_def)

lemma length_bytes_of [simp]: "length (bytes_of ws) = 4 * length ws"
  by (induction ws) (simp_all add: bytes_of_def)

lemma list4_cases:
  assumes "length ws = 4"
  obtains w0 w1 w2 w3 where "ws = [w0, w1, w2, w3]"
  using assms by (auto simp: numeral_eq_Suc length_Suc_conv)

lemma bytes_of_words_of:
  assumes "length b = 16"
  shows "bytes_of (words_of b) = b"
  using assms
  by (cases b rule: list16_cases)
    (simp_all add: bytes_of_def words_of_def upt4 get32_word4 word4_bytes)

lemma words_of_bytes_of:
  assumes "length ws = 4"
  shows "words_of (bytes_of ws) = ws"
  using assms
  by (cases ws rule: list4_cases)
    (simp_all add: bytes_of_def words_of_def upt4 get32_word4 word4_of_bytes)

section \<open>The steps of block processing\<close>

lemma length_bswap128 [simp]: "length (bswap128 b) = 16"
  by (simp add: bswap128_def)

lemma bswap128_twice: "length b = 16 \<Longrightarrow> bswap128 (bswap128 b) = b"
  by (rule nth_equalityI) (simp_all add: bswap128_def)

definition take_words :: "dsi_aes \<Rightarrow> u32 list \<times> fifo" where
  "take_words s = ring.deq_n 4 (ae_in s)"

definition give_words :: "u32 list \<Rightarrow> fifo \<Rightarrow> fifo" where
  "give_words ws f = fold (\<lambda>v f. fifo_write f v) ws f"

lemma length_take_words [simp]: "length (fst (take_words s)) = 4"
  by (simp add: take_words_def ring.deq_n_length)

lemma read_block_eq: "read_block s = (bytes_of (fst (take_words s)), s\<lparr>ae_in := snd (take_words s)\<rparr>)"
  by (simp add: read_block_def take_words_def upt4 split_beta Let_def bytes_of_def put32_def
      numeral_eq_Suc)

lemma write_block_eq: "write_block b s = s\<lparr>ae_out := give_words (words_of b) (ae_out s)\<rparr>"
  by (simp add: write_block_def give_words_def words_of_def upt4)

lemma mac_xor_eq:
  assumes "length (ae_cur_mac s) = 16" "length b = 16"
  shows "mac_xor b s = s\<lparr>ae_cur_mac := xor16 (ae_cur_mac s) b\<rparr>"
proof -
  have "map (\<lambda>i. ae_cur_mac s ! i XOR b ! i) [0..<16] = xor16 (ae_cur_mac s) b"
    using assms by (intro nth_equalityI) (simp_all add: xor16_def)
  then show ?thesis by (simp add: mac_xor_def)
qed

lemma mac_encrypt_eq:
  assumes "host_ok H" "length (ae_cur_mac s) = 16"
  shows "mac_encrypt H s = s\<lparr>ae_hw := probed H (ae_hw s),
    ae_cur_mac := CipherSw (RoundKey (ae_ctx s)) (ae_cur_mac s)\<rparr>"
  using assms by (simp add: mac_encrypt_def AES_ECB_encrypt_def Cipher_host)

lemma ctr_block_eq:
  assumes "host_ok H" "length (Iv (ae_ctx s)) = 16" "length b = 16"
  shows "ctr_block H b s = (xor16 b (CipherSw (RoundKey (ae_ctx s)) (Iv (ae_ctx s))),
    s\<lparr>ae_hw := probed H (ae_hw s), ae_ctx := (ae_ctx s)\<lparr>Iv := ctr_increment 16 (Iv (ae_ctx s))\<rparr>\<rparr>)"
  using assms by (simp add: ctr_block_def xcrypt_block)

text \<open>The cipher half of one CCM step: what the step does to the context and the MAC when
  the plaintext block is \<open>p\<close>.\<close>

definition ccm_step :: "aes_host \<Rightarrow> u8 list \<Rightarrow> dsi_aes \<Rightarrow> dsi_aes" where
  "ccm_step H p s = s\<lparr>ae_hw := probed H (ae_hw s),
     ae_ctx := (ae_ctx s)\<lparr>Iv := ctr_increment 16 (Iv (ae_ctx s))\<rparr>,
     ae_cur_mac := CipherSw (RoundKey (ae_ctx s)) (xor16 (ae_cur_mac s) p)\<rparr>"

definition keystream :: "dsi_aes \<Rightarrow> u8 list" where
  "keystream s = CipherSw (RoundKey (ae_ctx s)) (Iv (ae_ctx s))"

definition block_in :: "dsi_aes \<Rightarrow> u8 list" where
  "block_in s = bswap128 (bytes_of (fst (take_words s)))"

lemma length_block_in [simp]: "length (block_in s) = 16"
  by (simp add: block_in_def)

lemma process_ccm_encrypt_eq:
  assumes "host_ok H" "length (Iv (ae_ctx s)) = 16" "length (ae_cur_mac s) = 16"
  shows "process_ccm_encrypt H s = (ccm_step H (block_in s) s)
    \<lparr>ae_in := snd (take_words s),
     ae_out := give_words (words_of (bswap128 (xor16 (block_in s) (keystream s)))) (ae_out s)\<rparr>"
  using assms
  by (simp add: process_ccm_encrypt_def read_block_eq write_block_eq mac_xor_eq mac_encrypt_eq
      ctr_block_eq ccm_step_def keystream_def block_in_def Let_def)

lemma process_ccm_decrypt_eq:
  assumes "host_ok H" "length (Iv (ae_ctx s)) = 16" "length (ae_cur_mac s) = 16"
  shows "process_ccm_decrypt H s = (ccm_step H (xor16 (block_in s) (keystream s)) s)
    \<lparr>ae_in := snd (take_words s),
     ae_out := give_words (words_of (bswap128 (xor16 (block_in s) (keystream s)))) (ae_out s)\<rparr>"
  using assms
  by (simp add: process_ccm_decrypt_def read_block_eq write_block_eq mac_xor_eq mac_encrypt_eq
      ctr_block_eq ccm_step_def keystream_def block_in_def)

lemma process_ccm_extra_eq:
  assumes "host_ok H" "length (ae_cur_mac s) = 16"
  shows "process_ccm_extra H s = s\<lparr>ae_in := snd (take_words s), ae_hw := probed H (ae_hw s),
    ae_cur_mac := CipherSw (RoundKey (ae_ctx s)) (xor16 (ae_cur_mac s) (block_in s))\<rparr>"
  using assms
  by (simp add: process_ccm_extra_def read_block_eq mac_xor_eq mac_encrypt_eq block_in_def)

text \<open>\<^verbatim>\<open>process_ctr\<close> combines word by word with the reversed keystream, to save the copies;
  the block it emits is the reversed exclusive or all the same.\<close>

lemma get32_xor: "length a = 16 \<Longrightarrow> length b = 16 \<Longrightarrow> off + 3 < 16 \<Longrightarrow>
   get32 (xor16 a b) off = get32 a off XOR get32 b off"
  by (rule bit_word_eqI) (auto simp: get32_def xor16_def bit_simps dest: bit_imp_le_length)

lemma bswap128_xor: "length a = 16 \<Longrightarrow> length b = 16 \<Longrightarrow> bswap128 (xor16 a b) = xor16 (bswap128 a) (bswap128 b)"
  by (rule nth_equalityI) (simp_all add: bswap128_def xor16_def)

lemma process_ctr_eq:
  assumes "host_ok H" "length (Iv (ae_ctx s)) = 16"
  shows "process_ctr H s = s\<lparr>ae_in := snd (take_words s), ae_hw := probed H (ae_hw s),
    ae_ctx := (ae_ctx s)\<lparr>Iv := ctr_increment 16 (Iv (ae_ctx s))\<rparr>,
    ae_out := give_words (words_of (bswap128 (xor16 (block_in s) (keystream s)))) (ae_out s)\<rparr>"
proof -
  let ?k = "bswap128 (keystream s)"
  obtain w0 w1 w2 w3 where w: "fst (take_words s) = [w0, w1, w2, w3]"
    by (rule list4_cases [OF length_take_words])
  have kl: "length (keystream s) = 16" using assms(2) by (simp add: keystream_def)
  have "bswap128 (xor16 (block_in s) (keystream s)) = xor16 (bytes_of [w0, w1, w2, w3]) ?k"
    using kl by (simp add: bswap128_xor block_in_def bswap128_twice w)
  then have "words_of (bswap128 (xor16 (block_in s) (keystream s)))
      = map2 (XOR) (words_of (bytes_of [w0, w1, w2, w3])) (words_of ?k)"
    by (simp add: words_of_def upt4 get32_xor)
  also have "\<dots> = [w0 XOR get32 ?k 0, w1 XOR get32 ?k 4, w2 XOR get32 ?k 8, w3 XOR get32 ?k 12]"
    unfolding words_of_bytes_of [of "[w0, w1, w2, w3]", simplified] by (simp add: words_of_def upt4)
  finally have o: "words_of (bswap128 (xor16 (block_in s) (keystream s)))
    = [w0 XOR get32 ?k 0, w1 XOR get32 ?k 4, w2 XOR get32 ?k 8, w3 XOR get32 ?k 12]" .
  show ?thesis
    unfolding o using w assms
    by (simp add: process_ctr_def next_keystream_block upt4 split_beta Let_def give_words_def
        take_words_def keystream_def numeral_eq_Suc)
qed

section \<open>Well-formed engines\<close>

definition slots_ok :: "u8 list list \<Rightarrow> bool" where
  "slots_ok ks \<longleftrightarrow> length ks = 4 \<and> (\<forall>k \<in> set ks. length k = 16)"

definition ctx_ok :: "AES_ctx \<Rightarrow> bool" where
  "ctx_ok c \<longleftrightarrow> length (RoundKey c) = 176 \<and> length (Iv c) = 16"

definition ae_ok :: "dsi_aes \<Rightarrow> bool" where
  "ae_ok s \<longleftrightarrow> fifo_ok (ae_in s) \<and> fifo_ok (ae_out s) \<and> length (ae_iv s) = 16 \<and> length (ae_mac s) = 16
     \<and> slots_ok (ae_key_normal s) \<and> slots_ok (ae_key_x s) \<and> slots_ok (ae_key_y s)
     \<and> length (ae_cur_key s) = 16 \<and> length (ae_cur_mac s) = 16 \<and> length (ae_output_mac s) = 16
     \<and> ctx_ok (ae_ctx s)"

lemma take_words_ok: "fifo_ok (ae_in s) \<Longrightarrow> fifo_ok (snd (take_words s))"
  by (simp add: take_words_def ring.deq_n_ok)

lemma give_words_ok: "fifo_ok f \<Longrightarrow> fifo_ok (give_words ws f)"
  by (simp add: give_words_def ring.enq_all_ok)

lemma ae_ok_lengths:
  "ae_ok s \<Longrightarrow> length (Iv (ae_ctx s)) = 16" "ae_ok s \<Longrightarrow> length (ae_cur_mac s) = 16"
  by (simp_all add: ae_ok_def ctx_ok_def)

lemma ae_ok_blocks:
  assumes "host_ok H" "ae_ok s"
  shows "ae_ok (process_ccm_extra H s)" "ae_ok (process_one H s)"
proof -
  note l = ae_ok_lengths [OF assms(2)]
  show "ae_ok (process_ccm_extra H s)"
    using assms(2) l unfolding process_ccm_extra_eq [OF assms(1) l(2)]
    by (simp add: ae_ok_def take_words_ok)
  have "ae_ok (process_ccm_decrypt H s)" "ae_ok (process_ccm_encrypt H s)" "ae_ok (process_ctr H s)"
    unfolding process_ccm_encrypt_eq [OF assms(1) l] process_ccm_decrypt_eq [OF assms(1) l]
      process_ctr_eq [OF assms(1) l(1)]
    using assms(2) l
    by (simp_all add: ae_ok_def ctx_ok_def ccm_step_def take_words_ok give_words_ok keystream_def)
  then show "ae_ok (process_one H s)" by (simp add: process_one_def)
qed

lemma ae_ok_requests [simp]: "ae_ok (ae_request r s) \<longleftrightarrow> ae_ok s"
  by (simp add: ae_request_def ae_ok_def)

lemma ae_ok_counts [simp]:
  "ae_ok (s\<lparr>ae_rem_extra := n\<rparr>) \<longleftrightarrow> ae_ok s" "ae_ok (s\<lparr>ae_rem_blocks := n\<rparr>) \<longleftrightarrow> ae_ok s"
  "ae_ok (s\<lparr>ae_cnt := n\<rparr>) \<longleftrightarrow> ae_ok s" "ae_ok (s\<lparr>ae_output_mac_due := b\<rparr>) \<longleftrightarrow> ae_ok s"
  by (simp_all add: ae_ok_def)

lemma ae_ok_push_output_mac [simp]: "ae_ok s \<Longrightarrow> ae_ok (push_output_mac s)"
  by (simp add: push_output_mac_def write_block_eq) (simp add: ae_ok_def give_words_ok)

lemma ae_ok_extra_loop: "host_ok H \<Longrightarrow> ae_ok s \<Longrightarrow> ae_ok (extra_loop H s)"
proof (induction H s rule: extra_loop.induct)
  case (1 H s)
  then show ?case by (subst extra_loop.simps) (simp add: Let_def ae_ok_blocks)
qed

lemma ae_ok_blocks_loop: "host_ok H \<Longrightarrow> ae_ok s \<Longrightarrow> ae_ok (blocks_loop H s)"
proof (induction H s rule: blocks_loop.induct)
  case (1 H s)
  then show ?case by (subst blocks_loop.simps) (simp add: Let_def ae_ok_blocks)
qed

lemma finish_mac_eq:
  assumes "host_ok H" "ae_ok s"
  shows "finish_mac H s =
    (let iv = (Iv (ae_ctx s))[15 := 0, 14 := 0, 13 := 0]
     in s\<lparr>ae_hw := probed H (ae_hw s), ae_ctx := (ae_ctx s)\<lparr>Iv := ctr_increment 16 iv\<rparr>,
          ae_cur_mac := xor16 (ae_cur_mac s) (CipherSw (RoundKey (ae_ctx s)) iv)\<rparr>)"
  using ae_ok_lengths [OF assms(2)] assms(1)
  by (simp add: finish_mac_def xcrypt_block Let_def)

lemma ae_ok_finish_mac: "host_ok H \<Longrightarrow> ae_ok s \<Longrightarrow> ae_ok (finish_mac H s)"
  using ae_ok_lengths [of s]
  by (simp add: finish_mac_eq Let_def) (simp add: ae_ok_def ctx_ok_def)

lemma ae_ok_finish_cnt [simp]: "ae_ok (finish_cnt s) \<longleftrightarrow> ae_ok s"
  by (simp add: finish_cnt_def Let_def)

lemma ae_ok_verify_mac [simp]: "ae_ok (verify_mac s) \<longleftrightarrow> ae_ok s"
  by (simp add: verify_mac_def)

lemma ae_ok_finish: "host_ok H \<Longrightarrow> ae_ok s \<Longrightarrow> ae_ok (ae_finish H s)"
proof -
  assume H: "host_ok H" "ae_ok s"
  have "ae_ok (t\<lparr>ae_output_mac := bswap128 (ae_cur_mac t)\<rparr>)" if "ae_ok t" for t
    using that by (simp add: ae_ok_def)
  with H show ?thesis by (simp add: ae_finish_def Let_def ae_ok_finish_mac)
qed

lemma ae_ok_check_output_dma [simp]: "ae_ok (check_output_dma s) \<longleftrightarrow> ae_ok s"
  by (simp add: check_output_dma_def)

lemma ae_ok_update: "host_ok H \<Longrightarrow> ae_ok s \<Longrightarrow> ae_ok (ae_update H s)"
  by (simp add: ae_update_def Let_def ae_ok_finish ae_ok_blocks_loop ae_ok_extra_loop)

lemma ae_ok_check_input_dma: "host_ok H \<Longrightarrow> ae_ok s \<Longrightarrow> ae_ok (check_input_dma H s)"
  by (simp add: check_input_dma_def Let_def ae_ok_update)

lemma ae_ok_read_output_fifo:
  assumes "host_ok H" "ae_ok s"
  shows "ae_ok (snd (read_output_fifo H s))"
proof -
  have "ae_ok (s\<lparr>ae_out := snd (fifo_read (ae_out s))\<rparr>)"
    using assms(2) by (simp add: ae_ok_def fifo_read_ok)
  with assms(1) show ?thesis
    by (simp add: read_output_fifo_def split_beta Let_def ae_ok_check_input_dma)
qed

lemma ae_ok_write_input_fifo:
  assumes "host_ok H" "ae_ok s"
  shows "ae_ok (write_input_fifo H v s)"
proof -
  have "ae_ok (s\<lparr>ae_in := fifo_write (ae_in s) v\<rparr>)"
    using assms(2) by (simp add: ae_ok_def fifo_write_ok)
  with assms(1) show ?thesis by (simp add: write_input_fifo_def Let_def ae_ok_update)
qed

section \<open>The register file keeps the engine well formed\<close>

lemma length_put32 [simp]: "length (put32 p off v) = length p"
  by (simp add: put32_def)

lemma length_masked32 [simp]: "length (masked32 p off v m) = length p"
  by (simp add: masked32_def)

lemma length_rol16 [simp]: "length (rol16 v n) = 16"
  by (simp add: rol16_def Let_def)

lemma length_derive_normal_key [simp]: "length (derive_normal_key kx ky) = 16"
  by (simp add: derive_normal_key_def split_beta Let_def)

lemma length_KeyExpansion [simp]: "length (KeyExpansion rk key) = length rk"
proof -
  have "length (fold expand_step is r) = length r" for "is" r
    by (induction "is" arbitrary: r) simp_all
  then show ?thesis by (simp add: KeyExpansion_def)
qed

lemma slot_index: "unat (slot AND 3 :: u32) < 4"
  using unat_and_mask [of slot 2] by (simp add: mask_eq_exp_minus_1)

lemma fld_index: "unat (fld (v::u32) k 3) < 4"
  using slot_index [of "drop_bit k v"] by (simp add: fld_def)

lemma slots_ok_update:
  "slots_ok ks \<Longrightarrow> length k = 16 \<Longrightarrow> slots_ok (ks[n := k])"
  using set_update_subset_insert [of ks n k] by (auto simp: slots_ok_def)

lemma slots_ok_nth: "slots_ok ks \<Longrightarrow> n < 4 \<Longrightarrow> length (ks ! n) = 16"
  by (simp add: slots_ok_def)

lemma slots_ok_write_slot: "slots_ok ks \<Longrightarrow> slots_ok (write_slot slot off v m ks)"
  by (simp add: write_slot_def Let_def slots_ok_update slots_ok_nth slot_index)

lemma ctx_ok_init: "ctx_ok c \<Longrightarrow> length iv = 16 \<Longrightarrow> ctx_ok (AES_init_ctx_iv c key iv)"
  by (simp add: ctx_ok_def AES_init_ctx_iv_def AES_BLOCKLEN_def)

lemma ae_ok_ccm_start:
  assumes "host_ok H" "ae_ok s" "length iv = 16"
  shows "ae_ok (ccm_start H v key iv s)"
proof -
  have n: "length (fold (\<lambda>i iv. iv[Suc i := iv ! (4 + i)]) is iv') = length iv'" for "is" and iv' :: "u8 list"
    by (induction "is" arbitrary: iv') simp_all
  have m: "ae_ok (mac_encrypt H t)" if "ae_ok t" for t
    using that ae_ok_lengths [OF that] assms(1) by (simp add: mac_encrypt_eq) (simp add: ae_ok_def)
  show ?thesis
    unfolding ccm_start_def Let_def
    by (rule m) (use assms in \<open>simp add: ae_ok_def n ctx_ok_init\<close>)
qed

lemma ae_ok_write_cnt:
  assumes "host_ok H" "ae_ok s"
  shows "ae_ok (write_cnt H v s)"
proof -
  define t where "t = (let t = s\<lparr>ae_cnt := v AND 0xFC1FF000,
                ae_input_dma_size := [0, 4, 8, 12] ! unat (fld v 12 3),
                ae_output_dma_size := [4, 8, 12, 16] ! unat (fld v 14 3),
                ae_mode := fld v 28 3\<rparr>
       in if tst v (push_bit 24 1)
          then t\<lparr>ae_cur_key := take 16 (ae_key_normal t ! unat (fld v 26 3))\<rparr> else t)"
  define u where "u = t\<lparr>ae_rem_extra := (if ae_mode t < 2 then ae_blkcnt t AND 0xFFFF else 0),
                     ae_rem_blocks := drop_bit 16 (ae_blkcnt t), ae_output_mac_due := False\<rparr>"
  have t: "ae_ok t"
    using assms(2) by (auto simp: t_def Let_def ae_ok_def slots_ok_nth fld_index)
  then have u: "ae_ok u" by (simp add: u_def)
  have c: "ae_ok (u\<lparr>ae_ctx := AES_init_ctx_iv (ae_ctx u) key (bswap128 iv)\<rparr>)" for key iv
    using u by (simp add: ae_ok_def ctx_ok_init)
  have "write_cnt H v s = (if tst (ae_cnt s) (push_bit 31 1) \<or> \<not> tst v (push_bit 31 1) then t
      else if ae_rem_blocks u = 0 \<and> ae_rem_extra u = 0 then u\<lparr>ae_cnt := ae_cnt u AND NOT (push_bit 31 1)\<rparr>
      else ae_request (NdmaCheck 0x2A)
        (if ae_mode u < 2 then ccm_start H v (bswap128 (ae_cur_key u)) (bswap128 (ae_iv u)) u
         else u\<lparr>ae_ctx := AES_init_ctx_iv (ae_ctx u) (bswap128 (ae_cur_key u)) (bswap128 (ae_iv u))\<rparr>))"
    unfolding write_cnt_def Let_def u_def t_def ..
  then show ?thesis using t u c assms(1) by (simp add: ae_ok_ccm_start)
qed

text \<open>The accesses the ARM7 and the NDMA can make.\<close>

datatype ae_access =
    ReadOutputFifo | WriteInputFifo u32 | WriteCnt u32 | WriteBlkcnt u32
  | WriteIv u32 u32 u32 | WriteMac u32 u32 u32
  | WriteKeyNormal u32 u32 u32 u32 | WriteKeyX u32 u32 u32 u32 | WriteKeyY u32 u32 u32 u32
  | CheckInputDma | CheckOutputDma

fun ae_do :: "aes_host \<Rightarrow> ae_access \<Rightarrow> dsi_aes \<Rightarrow> dsi_aes" where
  "ae_do H ReadOutputFifo s = snd (read_output_fifo H s)"
| "ae_do H (WriteInputFifo v) s = write_input_fifo H v s"
| "ae_do H (WriteCnt v) s = write_cnt H v s"
| "ae_do H (WriteBlkcnt v) s = write_blkcnt v s"
| "ae_do H (WriteIv off v m) s = write_iv off v m s"
| "ae_do H (WriteMac off v m) s = write_mac off v m s"
| "ae_do H (WriteKeyNormal slot off v m) s = write_key_normal slot off v m s"
| "ae_do H (WriteKeyX slot off v m) s = write_key_x slot off v m s"
| "ae_do H (WriteKeyY slot off v m) s = write_key_y slot off v m s"
| "ae_do H CheckInputDma s = check_input_dma H s"
| "ae_do H CheckOutputDma s = check_output_dma s"

text \<open>The engine at power on: the arrays of its members, whatever they hold.\<close>

definition ae_powered :: "dsi_aes \<Rightarrow> bool" where
  "ae_powered s \<longleftrightarrow> length (fifo_entries (ae_in s)) = 16 \<and> length (fifo_entries (ae_out s)) = 16
     \<and> length (RoundKey (ae_ctx s)) = 176"

inductive ae_reachable :: "aes_host \<Rightarrow> u64 \<Rightarrow> u8 list \<Rightarrow> dsi_aes \<Rightarrow> bool"
  for H :: aes_host and cid :: u64 and bios9i :: "u8 list" where
  reset: "ae_powered s \<Longrightarrow> ae_reachable H cid bios9i (ae_reset cid bios9i s)"
| access: "ae_reachable H cid bios9i s \<Longrightarrow> ae_reachable H cid bios9i (ae_do H a s)"

lemma ae_ok_reset: "ae_powered s \<Longrightarrow> 0x8B9C \<le> length bios9i \<Longrightarrow> ae_ok (ae_reset cid bios9i s)"
  by (simp add: ae_powered_def ae_ok_def ae_reset_def Let_def fifo_ok_def fifo_clear_def slots_ok_def
      ctx_ok_def AES_init_ctx_iv_def AES_BLOCKLEN_def)

lemma ae_ok_do: "host_ok H \<Longrightarrow> ae_ok s \<Longrightarrow> ae_ok (ae_do H a s)"
proof (cases a)
  case (WriteKeyY slot off v m)
  assume "host_ok H" "ae_ok s"
  with WriteKeyY show ?thesis
    by (simp add: write_key_y_def Let_def) (simp add: ae_ok_def slots_ok_write_slot slots_ok_update)
qed (simp_all add: ae_ok_read_output_fifo ae_ok_write_input_fifo ae_ok_write_cnt ae_ok_check_input_dma,
    simp_all add: ae_ok_def write_blkcnt_def write_iv_def write_mac_def write_key_normal_def
      write_key_x_def slots_ok_write_slot)

text \<open>C26: From power on and through any sequence of register accesses and DMA polls the
  engine stays well formed: both FIFOs are consistent rings, every key, counter and MAC
  register is sixteen bytes long and the cipher context keeps its sizes.\<close>

theorem aes_engine_invariant:
  assumes "host_ok H" "0x8B9C \<le> length bios9i" "ae_reachable H cid bios9i s"
  shows "ae_ok s"
  using assms(3) by induction (simp_all add: assms(1,2) ae_ok_reset ae_ok_do)

theorem aes_engine_invariant_witness:
  "ae_ok (ae_do portable_host (WriteInputFifo 5) (ae_reset 0 (replicate 0x8B9C 0)
     \<lparr>ae_cnt = 0, ae_blkcnt = 0, ae_rem_extra = 0, ae_rem_blocks = 0,
      ae_input_dma_size = 0, ae_output_dma_size = 0, ae_mode = 0, ae_in = fifo_init, ae_out = fifo_init,
      ae_iv = [], ae_mac = [], ae_key_normal = [], ae_key_x = [], ae_key_y = [], ae_cur_key = [],
      ae_cur_mac = [], ae_output_mac = [], ae_output_mac_due = False,
      ae_ctx = \<lparr>RoundKey = replicate 176 0, Iv = []\<rparr>, ae_hw = -1, ae_requests = []\<rparr>))"
  by (rule aes_engine_invariant [OF portable_host_ok _ ae_reachable.access [OF ae_reachable.reset]])
    (simp_all only: length_replicate ae_powered_def fifo_init_def dsi_aes.simps fifo.simps AES_ctx.simps simp_thms)

end
