(* ===== verification/CcmSpec.thy ===== *)
theory CcmSpec imports DsiAesSpec begin

text \<open>
  The DSi AES engine as its driver sees it: a run started through the control register, fed
  block by block through the input FIFO and drained through the output FIFO.  The engine
  makes all the progress its FIFOs allow, and a CCM decryption of a CCM encryption with the
  same registers returns the plaintext and accepts the MAC.
\<close>

section \<open>Progress\<close>

lemma extra_loop_exit: "fifo_occupied (ae_in (extra_loop H s)) < 4 \<or> ae_rem_extra (extra_loop H s) = 0"
proof (induction H s rule: extra_loop.induct)
  case (1 H s)
  then show ?case
    by (cases "4 \<le> fifo_occupied (ae_in s) \<and> 0 < ae_rem_extra s")
      (subst (1 2) extra_loop.simps, simp add: Let_def,
       subst (1 2) extra_loop.simps, auto simp: word_gt_0)
qed

lemma blocks_loop_exit:
  "fifo_occupied (ae_in (blocks_loop H s)) < 4 \<or> fifo_occupied (ae_out (blocks_loop H s)) > 12
   \<or> ae_rem_blocks (blocks_loop H s) = 0"
proof (induction H s rule: blocks_loop.induct)
  case (1 H s)
  then show ?case
    by (cases "4 \<le> fifo_occupied (ae_in s) \<and> fifo_occupied (ae_out s) \<le> 12 \<and> 0 < ae_rem_blocks s")
      (subst (1 2 3) blocks_loop.simps, simp add: Let_def,
       subst (1 2 3) blocks_loop.simps, auto simp: word_gt_0)
qed

lemma blocks_loop_rem_extra: "ae_rem_extra (blocks_loop H s) = ae_rem_extra s"
proof (induction H s rule: blocks_loop.induct)
  case (1 H s)
  have "ae_rem_extra (process_one H s) = ae_rem_extra s"
    using ae_core_fields [OF ae_core_process_one] by simp
  with 1 show ?case by (subst blocks_loop.simps) (simp add: Let_def)
qed

lemma check_output_dma_eq: "\<exists>r. check_output_dma s = s\<lparr>ae_requests := r\<rparr>"
  by (cases s) (auto simp: check_output_dma_def ae_request_def)

lemma ae_request_eq: "ae_request q s = s\<lparr>ae_requests := ae_requests s @ [q]\<rparr>"
  by (simp add: ae_request_def)

lemma ae_request_fields:
  "ae_mode (ae_request q s) = ae_mode s" "ae_ctx (ae_request q s) = ae_ctx s"
  "ae_cur_mac (ae_request q s) = ae_cur_mac s" "ae_mac (ae_request q s) = ae_mac s"
  by (simp_all add: ae_request_def)

lemma finish_cnt_fields:
  "ae_cnt (finish_cnt s) = ae_cnt s AND NOT (push_bit 31 1)"
  "ae_rem_blocks (finish_cnt s) = ae_rem_blocks s" "ae_rem_extra (finish_cnt s) = ae_rem_extra s"
  by (simp_all add: finish_cnt_def Let_def ae_request_def)

lemma tst_clear: "\<not> tst (x AND NOT (push_bit k 1)) (push_bit k (1::u32))"
  by (simp only: tst_bit bit_and_iff bit_not_iff bit_push1) (auto dest: bit_imp_le_length)

lemma ae_finish_stops: "\<not> tst (ae_cnt (ae_finish H s)) (push_bit 31 1)"
  unfolding ae_finish_def finish_cnt_fields by (rule tst_clear)

lemma ae_finish_rem: "ae_rem_blocks (ae_finish H s) = ae_rem_blocks s" "ae_rem_extra (ae_finish H s) = ae_rem_extra s"
proof -
  have p: "ae_rem_blocks (push_output_mac t) = ae_rem_blocks t" "ae_rem_extra (push_output_mac t) = ae_rem_extra t" for t
    using ae_core_fields [OF ae_core_block(5)] by simp_all
  have f: "ae_rem_blocks (finish_mac H t) = ae_rem_blocks t" "ae_rem_extra (finish_mac H t) = ae_rem_extra t" for t
    by (simp_all add: finish_mac_def Let_def split_beta)
  show "ae_rem_blocks (ae_finish H s) = ae_rem_blocks s" "ae_rem_extra (ae_finish H s) = ae_rem_extra s"
    by (simp_all add: ae_finish_def finish_cnt_fields verify_mac_def Let_def p f)
qed

text \<open>C25: The engine never stops while it could work.  After every update either the run
  is over, its counts at zero and the busy bit clear, or an associated block is due and
  fewer than four words are queued, or a payload block is due and there are fewer than
  four words to read or no room for four words to write.\<close>

theorem aes_update_progress:
  "let t = ae_update H s in
    (ae_rem_extra t = 0 \<and> ae_rem_blocks t = 0 \<and> \<not> tst (ae_cnt t) (push_bit 31 1))
    \<or> (ae_rem_extra t \<noteq> 0 \<and> fifo_occupied (ae_in t) < 4)
    \<or> (ae_rem_extra t = 0 \<and> ae_rem_blocks t \<noteq> 0
        \<and> (fifo_occupied (ae_in t) < 4 \<or> fifo_occupied (ae_out t) > 12))"
proof -
  define u where "u = (let s = extra_loop H s in if ae_rem_extra s = 0 then blocks_loop H s else s)"
  have x: "(ae_rem_extra u \<noteq> 0 \<and> fifo_occupied (ae_in u) < 4)
      \<or> (ae_rem_extra u = 0 \<and> (fifo_occupied (ae_in u) < 4 \<or> fifo_occupied (ae_out u) > 12 \<or> ae_rem_blocks u = 0))"
    using extra_loop_exit [of H s] blocks_loop_exit [of H "extra_loop H s"]
      blocks_loop_rem_extra [of H "extra_loop H s"]
    by (auto simp: u_def Let_def)
  obtain r where c: "check_output_dma u = u\<lparr>ae_requests := r\<rparr>" using check_output_dma_eq by blast
  have t: "ae_update H s = (if ae_rem_blocks u \<noteq> 0 \<or> ae_rem_extra u \<noteq> 0 then u\<lparr>ae_requests := r\<rparr>
      else ae_finish H (u\<lparr>ae_requests := r\<rparr>))"
    using c by (simp add: ae_update_def u_def Let_def)
  show ?thesis
    using x ae_finish_stops ae_finish_rem unfolding t Let_def by auto
qed

section \<open>Feeding and draining\<close>

text \<open>The driver: write words to the input FIFO, read words from the output FIFO, and run a
  list of four-word blocks through the engine one at a time.\<close>

definition feed :: "aes_host \<Rightarrow> u32 list \<Rightarrow> dsi_aes \<Rightarrow> dsi_aes" where
  "feed H ws s = fold (write_input_fifo H) ws s"

fun drain :: "aes_host \<Rightarrow> nat \<Rightarrow> dsi_aes \<Rightarrow> u32 list \<times> dsi_aes" where
  "drain H 0 s = ([], s)"
| "drain H (Suc n) s =
     (let (v, s) = read_output_fifo H s; (vs, s) = drain H n s in (v # vs, s))"

fun stream :: "aes_host \<Rightarrow> u32 list list \<Rightarrow> dsi_aes \<Rightarrow> u32 list list \<times> dsi_aes" where
  "stream H [] s = ([], s)"
| "stream H (b # bs) s =
     (let (c, s) = drain H 4 (feed H b s); (cs, s) = stream H bs s in (c # cs, s))"

definition busy :: "dsi_aes \<Rightarrow> bool" where
  "busy s \<longleftrightarrow> tst (ae_cnt s) (push_bit 31 1)"

lemma update_starved:
  assumes "ae_rem_extra s = 0" "ae_rem_blocks s \<noteq> 0" "fifo_occupied (ae_in s) < 4"
  shows "\<exists>r. ae_update H s = s\<lparr>ae_requests := r\<rparr>"
proof -
  have "extra_loop H s = s" "blocks_loop H s = s"
    using assms by (subst extra_loop.simps, simp, subst blocks_loop.simps, simp)
  then have "ae_update H s = (let t = check_output_dma s
      in if ae_rem_blocks t \<noteq> 0 \<or> ae_rem_extra t \<noteq> 0 then t else ae_finish H t)"
    using assms(1) by (simp add: ae_update_def Let_def)
  with assms(2) check_output_dma_eq [of s] show ?thesis by (auto simp: Let_def)
qed

lemma feed_starved:
  assumes "busy s" "ae_rem_extra s = 0" "ae_rem_blocks s \<noteq> 0" "fifo_ok (ae_in s)"
    "fifo_occupied (ae_in s) + length ws < 4"
  shows "\<exists>r. feed H ws s = s\<lparr>ae_in := give_words ws (ae_in s), ae_requests := r\<rparr>"
  using assms
proof (induction ws arbitrary: s)
  case Nil
  then show ?case by (cases s) (simp add: feed_def give_words_def)
next
  case (Cons w ws)
  let ?s = "s\<lparr>ae_in := fifo_write (ae_in s) w\<rparr>"
  have o: "fifo_occupied (fifo_write (ae_in s) w) = fifo_occupied (ae_in s) + 1"
    using Cons.prems by (simp add: fifo_write_def fifo_full_def)
  obtain r where r: "ae_update H ?s = ?s\<lparr>ae_requests := r\<rparr>"
    using update_starved [of ?s H] Cons.prems o by auto
  then have w: "write_input_fifo H w s = ?s\<lparr>ae_requests := r\<rparr>"
    using Cons.prems(1) by (simp add: write_input_fifo_def busy_def)
  obtain r' where "feed H ws (?s\<lparr>ae_requests := r\<rparr>)
      = ?s\<lparr>ae_requests := r\<rparr>\<lparr>ae_in := give_words ws (fifo_write (ae_in s) w), ae_requests := r'\<rparr>"
    using Cons.IH [of "?s\<lparr>ae_requests := r\<rparr>"] Cons.prems o by (auto simp: busy_def fifo_write_ok)
  then show ?case
    by (intro exI [of _ r']) (simp add: feed_def w give_words_def)
qed

lemma request_maybe: "\<exists>r. (if P then ae_request q s else s) = s\<lparr>ae_requests := r\<rparr>"
  by (cases s) (auto simp: ae_request_def)

definition drainable :: "dsi_aes \<Rightarrow> bool" where
  "drainable s \<longleftrightarrow>
     (busy s \<and> ae_rem_extra s = 0 \<and> ae_rem_blocks s \<noteq> 0 \<and> fifo_occupied (ae_in s) < 4)
     \<or> (\<not> busy s \<and> \<not> ae_output_mac_due s)"

lemma read_output_drainable:
  assumes "drainable s"
  shows "\<exists>r. read_output_fifo H s
    = (fst (fifo_read (ae_out s)), s\<lparr>ae_out := snd (fifo_read (ae_out s)), ae_requests := r\<rparr>)"
proof -
  let ?s = "s\<lparr>ae_out := snd (fifo_read (ae_out s))\<rparr>"
  show ?thesis
  proof (cases "busy s")
    case True
    then have p: "ae_rem_extra s = 0" "ae_rem_blocks s \<noteq> 0" "fifo_occupied (ae_in s) < 4"
      using assms by (simp_all add: drainable_def)
    define t where "t = (if word_of_nat (fifo_occupied (ae_in ?s)) \<le> ae_input_dma_size ?s
        then ae_request (NdmaCheck 0x2A) ?s else ?s)"
    obtain q where t: "t = ?s\<lparr>ae_requests := q\<rparr>"
      using request_maybe [of _ "NdmaCheck 0x2A" ?s] unfolding t_def by blast
    have c: "check_input_dma H ?s = ae_update H t"
      using p by (simp add: check_input_dma_def t_def Let_def)
    obtain r where r: "ae_update H t = t\<lparr>ae_requests := r\<rparr>"
      using update_starved [of t H] p t by auto
    obtain r' where r': "check_output_dma (t\<lparr>ae_requests := r\<rparr>) = t\<lparr>ae_requests := r\<rparr>\<lparr>ae_requests := r'\<rparr>"
      using check_output_dma_eq by blast
    have "read_output_fifo H s = (fst (fifo_read (ae_out s)), check_output_dma (check_input_dma H ?s))"
      using True by (simp add: read_output_fifo_def busy_def split_beta Let_def)
    then show ?thesis unfolding c r r' by (auto simp: t)
  next
    case False
    then have "\<not> ae_output_mac_due s" using assms by (simp add: drainable_def)
    with False have "read_output_fifo H s = (fst (fifo_read (ae_out s)),
        if fifo_occupied (ae_out ?s) > 0 then ae_request (NdmaCheck 0x2B) ?s else ae_request (NdmaStop 0x2B) ?s)"
      by (simp add: read_output_fifo_def busy_def split_beta Let_def ae_request_def)
    then show ?thesis unfolding ae_request_eq by auto
  qed
qed

lemma drain_eq:
  assumes "drainable s"
  shows "\<exists>r. drain H n s = (fst (ring.deq_n n (ae_out s)),
    s\<lparr>ae_out := snd (ring.deq_n n (ae_out s)), ae_requests := r\<rparr>)"
  using assms
proof (induction n arbitrary: s)
  case 0
  then show ?case by (cases s) simp
next
  case (Suc n)
  obtain r where r: "read_output_fifo H s
      = (fst (fifo_read (ae_out s)), s\<lparr>ae_out := snd (fifo_read (ae_out s)), ae_requests := r\<rparr>)"
    using read_output_drainable [OF Suc.prems] by blast
  let ?t = "s\<lparr>ae_out := snd (fifo_read (ae_out s)), ae_requests := r\<rparr>"
  have "drainable ?t" using Suc.prems by (simp add: drainable_def busy_def)
  from Suc.IH [OF this] obtain r' where "drain H n ?t = (fst (ring.deq_n n (ae_out ?t)),
      ?t\<lparr>ae_out := snd (ring.deq_n n (ae_out ?t)), ae_requests := r'\<rparr>)" by blast
  then show ?case by (intro exI [of _ r']) (simp add: r split_beta Let_def)
qed

section \<open>One block through the engine\<close>

definition ready :: "nat \<Rightarrow> dsi_aes \<Rightarrow> bool" where
  "ready n s \<longleftrightarrow> ae_ok s \<and> fifo_list (ae_in s) = [] \<and> fifo_list (ae_out s) = [] \<and> busy s
     \<and> ae_rem_extra s = 0 \<and> unat (ae_rem_blocks s) = n
     \<and> \<not> ae_output_mac_due s \<and> (ae_mode s = 0 \<or> ae_mode s = 1)"

text \<open>The plaintext of a block of input, and the words the engine emits for it.\<close>

definition plain_of :: "u32 list \<Rightarrow> dsi_aes \<Rightarrow> u8 list" where
  "plain_of b s = (if ae_mode s = 1 then bswap128 (bytes_of b)
     else xor16 (bswap128 (bytes_of b)) (keystream s))"

definition emitted :: "u32 list \<Rightarrow> dsi_aes \<Rightarrow> u32 list" where
  "emitted b s = words_of (bswap128 (xor16 (bswap128 (bytes_of b)) (keystream s)))"

definition after_block :: "aes_host \<Rightarrow> u32 list \<Rightarrow> fifo \<Rightarrow> fifo \<Rightarrow> dsi_aes \<Rightarrow> dsi_aes" where
  "after_block H b i f s = (ccm_step H (plain_of b s) s)
     \<lparr>ae_in := i, ae_out := f, ae_rem_blocks := ae_rem_blocks s - 1\<rparr>"

lemma give_words_contents:
  "fifo_ok f \<Longrightarrow> fifo_occupied f + length ws \<le> 16 \<Longrightarrow> fifo_list (give_words ws f) = fifo_list f @ ws"
  using ring.enq_all_contents [of f ws] by (simp add: give_words_def)

lemma occupied_list: "fifo_occupied f = length (fifo_list f)"
  by simp

lemma update_one:
  assumes H: "host_ok H" and s: "ready n s" "n \<noteq> 0" and b: "length b = 4" "fifo_ok i" "fifo_list i = b"
  shows "\<exists>i' r. fifo_ok i' \<and> fifo_list i' = [] \<and>
    ae_update H (s\<lparr>ae_requests := q, ae_in := i\<rparr>) =
     (let t = (after_block H b i' (give_words (emitted b s) (ae_out s)) s)\<lparr>ae_requests := r\<rparr>
      in if n = 1 then ae_finish H t else t)"
proof -
  let ?s = "s\<lparr>ae_requests := q, ae_in := i\<rparr>"
  have ok: "ae_ok s" "ae_rem_extra s = 0" "ae_rem_blocks s \<noteq> 0" "fifo_list (ae_out s) = []"
    and mode: "ae_mode s = 0 \<or> ae_mode s = 1"
    using s by (auto simp: ready_def)
  note l = ae_ok_lengths [OF ok(1)]
  define i' where "i' = snd (take_words ?s)"
  have tw: "fst (take_words ?s) = b" "fifo_ok i'" "fifo_list i' = []"
    using ring.deq_n_contents [of i b "[]"] b by (simp_all add: take_words_def i'_def)
  have tw2: "take_words ?s = (b, i')" using tw(1) by (simp add: i'_def prod_eq_iff)
  have k: "keystream ?s = keystream s" by (simp add: keystream_def)
  have bi: "block_in ?s = bswap128 (bytes_of b)" by (simp add: block_in_def tw2)
  have li: "length (Iv (ae_ctx ?s)) = 16" "length (ae_cur_mac ?s) = 16" using l by simp_all
  have one: "process_one H ?s = (ccm_step H (plain_of b s) s)
      \<lparr>ae_in := i', ae_requests := q, ae_out := give_words (emitted b s) (ae_out s)\<rparr>"
    using mode
    unfolding process_one_def process_ccm_encrypt_eq [OF H li] process_ccm_decrypt_eq [OF H li] tw2 bi k
    by (auto simp: ccm_step_def plain_of_def emitted_def)
  let ?t = "(after_block H b i' (give_words (emitted b s) (ae_out s)) s)\<lparr>ae_requests := q\<rparr>"
  have oc: "fifo_occupied i = 4" "fifo_occupied (ae_out s) = 0" "fifo_occupied i' = 0"
    using b ok(4) tw(3) by (simp_all only: occupied_list list.size)
  have st: "(process_one H ?s)\<lparr>ae_rem_blocks := ae_rem_blocks (process_one H ?s) - 1\<rparr> = ?t"
    unfolding one by (simp add: after_block_def ccm_step_def)
  have e: "extra_loop H ?s = ?s" using ok(2) by (subst extra_loop.simps) simp
  have "blocks_loop H ?s = blocks_loop H ?t"
    using oc ok(3) by (subst blocks_loop.simps) (simp add: Let_def st word_gt_0)
  also have "\<dots> = ?t"
    using oc by (subst blocks_loop.simps) (simp add: after_block_def)
  finally have bl: "blocks_loop H ?s = ?t" .
  obtain r where r: "check_output_dma ?t = ?t\<lparr>ae_requests := r\<rparr>" using check_output_dma_eq by blast
  have rem: "ae_rem_blocks ?t = ae_rem_blocks s - 1" "ae_rem_extra ?t = 0"
    using ok(2) by (simp_all add: after_block_def ccm_step_def)
  have n1: "ae_rem_blocks s - 1 = 0 \<longleftrightarrow> n = 1"
  proof -
    have "unat (ae_rem_blocks s - 1) = n - 1"
      using unat_minus_one [OF ok(3)] s(1) by (simp add: ready_def)
    with s(2) show ?thesis using word_unat_eq_iff [of "ae_rem_blocks s - 1" 0] by auto
  qed
  have "ae_update H ?s = (let t = ?t\<lparr>ae_requests := r\<rparr> in if n = 1 then ae_finish H t else t)"
    unfolding ae_update_def e Let_def using ok(2) rem n1 by (simp add: bl r)
  then show ?thesis using tw(2,3) by (intro exI [of _ i'] exI [of _ r]) (simp add: Let_def)
qed

lemma feed_block:
  assumes H: "host_ok H" and s: "ready n s" "n \<noteq> 0" and b: "length b = 4"
  shows "\<exists>i r. fifo_ok i \<and> fifo_list i = [] \<and>
    feed H b s =
     (let t = (after_block H b i (give_words (emitted b s) (ae_out s)) s)\<lparr>ae_requests := r\<rparr>
      in if n = 1 then ae_finish H t else t)"
proof -
  obtain w0 w1 w2 w3 where w: "b = [w0, w1, w2, w3]" by (rule list4_cases [OF b])
  have ok: "fifo_ok (ae_in s)" "fifo_list (ae_in s) = []" "busy s" "ae_rem_extra s = 0" "ae_rem_blocks s \<noteq> 0"
    using s by (auto simp: ready_def ae_ok_def)
  have oc: "fifo_occupied (ae_in s) = 0" using ok(2) by (simp only: occupied_list list.size)
  obtain q where q: "feed H [w0, w1, w2] s = s\<lparr>ae_in := give_words [w0, w1, w2] (ae_in s), ae_requests := q\<rparr>"
    using feed_starved [of s "[w0, w1, w2]" H] ok oc by auto
  let ?i = "give_words b (ae_in s)"
  have i: "fifo_write (give_words [w0, w1, w2] (ae_in s)) w3 = ?i" by (simp add: give_words_def w)
  have "feed H b s = write_input_fifo H w3 (feed H [w0, w1, w2] s)" by (simp add: feed_def w)
  also have "\<dots> = ae_update H (s\<lparr>ae_requests := q, ae_in := ?i\<rparr>)"
    using ok(3) by (simp add: q write_input_fifo_def busy_def i)
  finally have f: "feed H b s = ae_update H (s\<lparr>ae_requests := q, ae_in := ?i\<rparr>)" .
  have "fifo_ok ?i" "fifo_list ?i = b"
    using give_words_contents [of "ae_in s" b] ok oc b by (simp_all add: give_words_ok)
  from update_one [OF H s b this, of q] show ?thesis unfolding f by blast
qed

text \<open>The MAC the run ends with when \<open>p\<close> is its last plaintext block.\<close>

definition last_mac :: "u8 list \<Rightarrow> dsi_aes \<Rightarrow> u8 list" where
  "last_mac p s = xor16 (CipherSw (RoundKey (ae_ctx s)) (xor16 (ae_cur_mac s) p))
     (CipherSw (RoundKey (ae_ctx s)) ((ctr_increment 16 (Iv (ae_ctx s)))[15 := 0, 14 := 0, 13 := 0]))"

lemma drain_emitted:
  assumes "drainable s" "fifo_ok (ae_out s)" "fifo_list (ae_out s) = ws @ rest" "length ws = 4"
  shows "\<exists>f r. fifo_ok f \<and> fifo_list f = rest \<and> drain H 4 s = (ws, s\<lparr>ae_out := f, ae_requests := r\<rparr>)"
proof -
  obtain r where "drain H 4 s = (fst (ring.deq_n 4 (ae_out s)),
      s\<lparr>ae_out := snd (ring.deq_n 4 (ae_out s)), ae_requests := r\<rparr>)"
    using drain_eq [OF assms(1)] by blast
  then show ?thesis
    using ring.deq_n_contents [OF assms(2,3)] assms(4) by auto
qed

lemma length_emitted [simp]: "length (emitted b s) = 4"
  by (simp add: emitted_def)

lemma length_plain_of:
  "ae_ok s \<Longrightarrow> length (plain_of b s) = 16"
  using ae_ok_lengths [of s] by (simp add: plain_of_def keystream_def)

text \<open>A block that is not the last one.\<close>

lemma stream_step:
  assumes H: "host_ok H" and s: "ready (Suc (Suc n)) s" and b: "length b = 4"
  shows "\<exists>t. drain H 4 (feed H b s) = (emitted b s, t) \<and> ready (Suc n) t
    \<and> ae_ctx t = ae_ctx (ccm_step H (plain_of b s) s)
    \<and> ae_cur_mac t = ae_cur_mac (ccm_step H (plain_of b s) s)
    \<and> ae_mode t = ae_mode s \<and> ae_mac t = ae_mac s"
proof -
  obtain i r where i: "fifo_ok i" "fifo_list i = []" and f: "feed H b s
      = (after_block H b i (give_words (emitted b s) (ae_out s)) s)\<lparr>ae_requests := r\<rparr>"
    using feed_block [OF H s _ b] by auto
  have ok: "ae_ok s" "fifo_ok (ae_out s)" "fifo_list (ae_out s) = []"
    using s by (auto simp: ready_def ae_ok_def)
  let ?f = "give_words (emitted b s) (ae_out s)"
  have o: "fifo_ok ?f" "fifo_list ?f = emitted b s @ []"
    using ok give_words_contents [of "ae_out s" "emitted b s"] length_fifo_list [of "ae_out s"]
    by (simp_all add: give_words_ok)
  have nz: "ae_rem_blocks s \<noteq> 0" using s by (auto simp: ready_def)
  have rem: "unat (ae_rem_blocks s - 1) = Suc n"
    using unat_minus_one [OF nz] s by (simp add: ready_def)
  then have rem0: "ae_rem_blocks s - 1 \<noteq> 0" by auto
  have oi: "fifo_occupied i = 0" using i(2) by (simp only: occupied_list list.size)
  have d: "drainable (feed H b s)"
    using s rem0 oi by (simp add: f drainable_def after_block_def ccm_step_def busy_def ready_def)
  have ae: "ae_out (feed H b s) = ?f" by (simp add: f after_block_def)
  obtain g r' where g: "fifo_ok g" "fifo_list g = []"
      "drain H 4 (feed H b s) = (emitted b s, (feed H b s)\<lparr>ae_out := g, ae_requests := r'\<rparr>)"
    using drain_emitted [OF d, of "emitted b s" "[]" H] o unfolding ae by auto
  let ?t = "(feed H b s)\<lparr>ae_out := g, ae_requests := r'\<rparr>"
  have "ready (Suc n) ?t"
    using s i g rem length_plain_of [OF ok(1)] ae_ok_lengths [OF ok(1)]
    by (simp add: ready_def f after_block_def ccm_step_def busy_def) (simp add: ae_ok_def ctx_ok_def)
  then show ?thesis using g(3) by (intro exI [of _ ?t]) (simp add: f after_block_def ccm_step_def)
qed

text \<open>The MAC comparison on the way out of a decryption.\<close>

lemma mac_check_fold:
  "bit (fold (\<lambda>i cnt. if m ! (15 - i) \<noteq> a ! i then cnt AND NOT (push_bit 21 1) else cnt) is (c::u32)) 21
    \<longleftrightarrow> bit c 21 \<and> (\<forall>i \<in> set is. m ! (15 - i) = (a ! i :: u8))"
  by (induction "is" arbitrary: c) (auto simp: bit_and_iff)

lemma verify_mac_bit:
  assumes "length (ae_mac s) = 16"
  shows "bit (ae_cnt (verify_mac s)) 21 \<longleftrightarrow> ae_mac s = bswap128 (ae_cur_mac s)"
proof -
  have "bit (ae_cnt (verify_mac s)) 21 \<longleftrightarrow> (\<forall>i < 16. ae_cur_mac s ! (15 - i) = ae_mac s ! i)"
    using mac_check_fold [of "ae_cur_mac s" "ae_mac s" "[0..<16]" "ae_cnt s OR push_bit 21 1"]
    by (simp add: verify_mac_def bit_or_iff) auto
  also have "\<dots> \<longleftrightarrow> ae_mac s = bswap128 (ae_cur_mac s)"
    using assms by (auto simp: bswap128_def list_eq_iff_nth_eq)
  finally show ?thesis .
qed

lemma stream_last:
  assumes H: "host_ok H" and s: "ready 1 s" and b: "length b = 4"
  shows "\<exists>t. drain H 4 (feed H b s) = (emitted b s, t)
    \<and> (ae_mode s = 1 \<longrightarrow> ae_output_mac t = bswap128 (last_mac (plain_of b s) s))
    \<and> (ae_mode s = 0 \<longrightarrow>
        (tst (ae_cnt t) (push_bit 21 1) \<longleftrightarrow> ae_mac s = bswap128 (last_mac (plain_of b s) s)))"
proof -
  let ?f = "give_words (emitted b s) (ae_out s)"
  obtain i r where i: "fifo_ok i" "fifo_list i = []" and f: "feed H b s
      = ae_finish H ((after_block H b i ?f s)\<lparr>ae_requests := r\<rparr>)"
    using feed_block [OF H s _ b] by (auto simp: Let_def)
  have ok: "ae_ok s" "fifo_ok (ae_out s)" "fifo_list (ae_out s) = []"
    using s by (auto simp: ready_def ae_ok_def)
  have o: "fifo_ok ?f" "fifo_list ?f = emitted b s"
    using ok give_words_contents [of "ae_out s" "emitted b s"] length_fifo_list [of "ae_out s"]
    by (simp_all add: give_words_ok)
  let ?u = "(after_block H b i ?f s)\<lparr>ae_requests := r\<rparr>"
  have u: "ae_ok ?u" "ae_mode ?u = ae_mode s" "ae_out ?u = ?f" "\<not> ae_output_mac_due ?u" "ae_mac ?u = ae_mac s"
    using s i o length_plain_of [OF ok(1)] ae_ok_lengths [OF ok(1)]
    by (simp_all add: ready_def after_block_def ccm_step_def) (simp add: ae_ok_def ctx_ok_def)
  have cm: "ae_cur_mac (finish_mac H ?u) = last_mac (plain_of b s) s"
    unfolding finish_mac_eq [OF H u(1)]
    by (simp add: Let_def last_mac_def after_block_def ccm_step_def)
  have "\<exists>rest. fifo_ok (ae_out (feed H b s)) \<and> fifo_list (ae_out (feed H b s)) = emitted b s @ rest
     \<and> \<not> ae_output_mac_due (feed H b s)
     \<and> (ae_mode s = 1 \<longrightarrow> ae_output_mac (feed H b s) = bswap128 (last_mac (plain_of b s) s))
     \<and> (ae_mode s = 0 \<longrightarrow> bit (ae_cnt (feed H b s)) 21 = (ae_mac s = bswap128 (last_mac (plain_of b s) s)))"
  proof (cases "ae_mode s = 0")
    case True
    have "feed H b s = finish_cnt (verify_mac (finish_mac H ?u))"
      using True u(2) by (simp add: f ae_finish_def)
    moreover have "bit (ae_cnt (verify_mac (finish_mac H ?u))) 21 \<longleftrightarrow> ae_mac s = bswap128 (last_mac (plain_of b s) s)"
      using verify_mac_bit [of "finish_mac H ?u"] u cm ae_ok_finish_mac [OF H u(1)]
      unfolding finish_mac_eq [OF H u(1)] by (simp add: Let_def ae_ok_def)
    ultimately show ?thesis
      using True o u(4) u(3) unfolding finish_mac_eq [OF H u(1)]
      by (intro exI [of _ "[]"])
        (simp add: finish_cnt_def Let_def ae_request_def verify_mac_def bit_and_iff)
  next
    case False
    let ?m = "words_of (bswap128 (last_mac (plain_of b s) s))"
    have m1: "ae_mode s = 1" using False s by (simp add: ready_def)
    have oc: "fifo_occupied ?f = 4" using o(2) by (simp only: occupied_list length_emitted)
    have "feed H b s = finish_cnt
      (let v = push_output_mac ((finish_mac H ?u)\<lparr>ae_output_mac := bswap128 (last_mac (plain_of b s) s)\<rparr>)
       in v\<lparr>ae_cnt := ae_cnt v AND NOT (push_bit 21 1)\<rparr>)"
      using m1 u(2,3) oc cm unfolding f ae_finish_def finish_mac_eq [OF H u(1)] by (simp add: Let_def)
    moreover have "fifo_ok (give_words ?m ?f)" "fifo_list (give_words ?m ?f) = emitted b s @ ?m"
      using o oc give_words_contents [of ?f ?m] by (simp_all add: give_words_ok)
    ultimately show ?thesis
      using m1 u(3) unfolding finish_mac_eq [OF H u(1)]
      by (intro exI [of _ ?m])
        (simp add: finish_cnt_def Let_def ae_request_def push_output_mac_def write_block_eq)
  qed
  then obtain rest where o2: "fifo_ok (ae_out (feed H b s))" "fifo_list (ae_out (feed H b s)) = emitted b s @ rest"
    and d: "\<not> ae_output_mac_due (feed H b s)"
    and fin: "ae_mode s = 1 \<longrightarrow> ae_output_mac (feed H b s) = bswap128 (last_mac (plain_of b s) s)"
      "ae_mode s = 0 \<longrightarrow> bit (ae_cnt (feed H b s)) 21 = (ae_mac s = bswap128 (last_mac (plain_of b s) s))"
    by (elim exE conjE)
  have "drainable (feed H b s)"
    using d ae_finish_stops by (simp add: drainable_def busy_def f)
  from drain_emitted [OF this o2 length_emitted, of H] obtain g r' where
    "drain H 4 (feed H b s) = (emitted b s, (feed H b s)\<lparr>ae_out := g, ae_requests := r'\<rparr>)" by blast
  then show ?thesis using fin unfolding tst_bit by auto
qed

section \<open>A whole run\<close>

text \<open>An encrypting and a decrypting engine between two blocks of the same message.\<close>

definition paired :: "nat \<Rightarrow> dsi_aes \<Rightarrow> dsi_aes \<Rightarrow> bool" where
  "paired n e d \<longleftrightarrow> ready n e \<and> ready n d \<and> ae_mode e = 1 \<and> ae_mode d = 0
     \<and> ae_ctx e = ae_ctx d \<and> ae_cur_mac e = ae_cur_mac d"

lemma paired_block:
  assumes "paired n e d" "length p = 4"
  shows "plain_of (emitted p e) d = plain_of p e" "emitted (emitted p e) d = p"
proof -
  have k: "keystream e = keystream d" "length (keystream d) = 16"
    using assms(1) ae_ok_lengths [of d] by (auto simp: paired_def keystream_def ready_def)
  have c: "bswap128 (bytes_of (emitted p e)) = xor16 (bswap128 (bytes_of p)) (keystream d)"
    using k by (simp add: emitted_def bytes_of_words_of bswap128_twice)
  show "plain_of (emitted p e) d = plain_of p e"
    using assms(1) k by (simp add: paired_def plain_of_def c xor16_cancel)
  show "emitted (emitted p e) d = p"
    using k assms(2) by (simp add: emitted_def [of "emitted p e"] c xor16_cancel bswap128_twice words_of_bytes_of)
qed

lemma paired_stream:
  assumes H: "host_ok H"
  shows "paired (length ps) e d \<Longrightarrow> ps \<noteq> [] \<Longrightarrow> \<forall>p \<in> set ps. length p = 4 \<Longrightarrow>
    fst (stream H (fst (stream H ps e)) d) = ps
    \<and> (tst (ae_cnt (snd (stream H (fst (stream H ps e)) d))) (push_bit 21 1)
        \<longleftrightarrow> ae_mac d = ae_output_mac (snd (stream H ps e)))"
proof (induction ps arbitrary: e d)
  case (Cons p ps)
  let ?c = "emitted p e"
  have p: "length p = 4" and re: "ready (Suc (length ps)) e" "ready (Suc (length ps)) d"
    and m: "ae_mode e = 1" "ae_mode d = 0" "ae_ctx e = ae_ctx d" "ae_cur_mac e = ae_cur_mac d"
    using Cons.prems by (simp_all add: paired_def)
  note pb = paired_block [OF Cons.prems(1) p]
  show ?case
  proof (cases ps)
    case Nil
    obtain e' where e': "drain H 4 (feed H p e) = (?c, e')"
      "ae_output_mac e' = bswap128 (last_mac (plain_of p e) e)"
      using stream_last [OF H _ p, of e] re m Nil by auto
    obtain d' where d': "drain H 4 (feed H ?c d) = (p, d')"
      "tst (ae_cnt d') (push_bit 21 1) \<longleftrightarrow> ae_mac d = bswap128 (last_mac (plain_of p e) d)"
      using stream_last [OF H _ length_emitted, of d p e] re m Nil pb by auto
    have "last_mac (plain_of p e) d = last_mac (plain_of p e) e" using m by (simp add: last_mac_def)
    with e' d' Nil show ?thesis by simp
  next
    case (Cons q qs)
    obtain e' where e': "drain H 4 (feed H p e) = (?c, e')" "ready (length ps) e'"
      "ae_ctx e' = ae_ctx (ccm_step H (plain_of p e) e)"
      "ae_cur_mac e' = ae_cur_mac (ccm_step H (plain_of p e) e)" "ae_mode e' = 1"
      using stream_step [OF H _ p, of "length qs" e] re(1) m Cons by auto
    obtain d' where d': "drain H 4 (feed H ?c d) = (p, d')" "ready (length ps) d'"
      "ae_ctx d' = ae_ctx (ccm_step H (plain_of p e) d)"
      "ae_cur_mac d' = ae_cur_mac (ccm_step H (plain_of p e) d)" "ae_mode d' = 0" "ae_mac d' = ae_mac d"
      using stream_step [OF H _ length_emitted, of "length qs" d p e] re(2) m Cons pb by auto
    have "paired (length ps) e' d'"
      using e' d' m by (simp add: paired_def ccm_step_def)
    then have "fst (stream H (fst (stream H ps e')) d') = ps
      \<and> (tst (ae_cnt (snd (stream H (fst (stream H ps e')) d'))) (push_bit 21 1)
        \<longleftrightarrow> ae_mac d' = ae_output_mac (snd (stream H ps e')))"
      using Cons.IH Cons.prems Cons by simp
    then show ?thesis by (simp add: e'(1) d'(1,6) split_beta Let_def)
  qed
qed simp

section \<open>Starting a run\<close>

definition latched :: "u32 \<Rightarrow> dsi_aes \<Rightarrow> dsi_aes" where
  "latched v s =
    (let t = s\<lparr>ae_cnt := v AND 0xFC1FF000,
                ae_input_dma_size := [0, 4, 8, 12] ! unat (fld v 12 3),
                ae_output_dma_size := [4, 8, 12, 16] ! unat (fld v 14 3),
                ae_mode := fld v 28 3\<rparr>
     in if tst v (push_bit 24 1)
        then t\<lparr>ae_cur_key := take 16 (ae_key_normal t ! unat (fld v 26 3))\<rparr> else t)"

definition loaded :: "u32 \<Rightarrow> dsi_aes \<Rightarrow> dsi_aes" where
  "loaded v s = (latched v s)
     \<lparr>ae_rem_extra := (if ae_mode (latched v s) < 2 then ae_blkcnt (latched v s) AND 0xFFFF else 0),
      ae_rem_blocks := drop_bit 16 (ae_blkcnt (latched v s)), ae_output_mac_due := False\<rparr>"

lemma latched_fields:
  "ae_in (latched v s) = ae_in s" "ae_out (latched v s) = ae_out s" "ae_ctx (latched v s) = ae_ctx s"
  "ae_hw (latched v s) = ae_hw s" "ae_blkcnt (latched v s) = ae_blkcnt s" "ae_iv (latched v s) = ae_iv s"
  "ae_mac (latched v s) = ae_mac s" "ae_mode (latched v s) = fld v 28 3"
  "ae_cnt (latched v s) = v AND 0xFC1FF000"
  "ae_cur_key (latched v s) = (if tst v (push_bit 24 1) then take 16 (ae_key_normal s ! unat (fld v 26 3)) else ae_cur_key s)"
  by (simp_all add: latched_def Let_def)

lemma loaded_fields:
  "ae_in (loaded v s) = ae_in s" "ae_out (loaded v s) = ae_out s" "ae_ctx (loaded v s) = ae_ctx s"
  "ae_hw (loaded v s) = ae_hw s" "ae_blkcnt (loaded v s) = ae_blkcnt s" "ae_iv (loaded v s) = ae_iv s"
  "ae_mac (loaded v s) = ae_mac s" "ae_rem_blocks (loaded v s) = drop_bit 16 (ae_blkcnt s)"
  "ae_mode (loaded v s) = fld v 28 3" "ae_cnt (loaded v s) = v AND 0xFC1FF000"
  "\<not> ae_output_mac_due (loaded v s)" "ae_cur_key (loaded v s) = ae_cur_key (latched v s)"
  "fld v 28 3 < 2 \<Longrightarrow> ae_rem_extra (loaded v s) = ae_blkcnt s AND 0xFFFF"
  by (simp_all add: loaded_def latched_fields)

lemma write_cnt_start:
  assumes "\<not> busy s" "tst v (push_bit 31 1)" "drop_bit 16 (ae_blkcnt s) \<noteq> 0" "fld v 28 3 < 2"
  shows "write_cnt H v s = ae_request (NdmaCheck 0x2A)
    (ccm_start H v (bswap128 (ae_cur_key (loaded v s))) (bswap128 (ae_iv (loaded v s))) (loaded v s))"
proof -
  have c: "\<not> (ae_rem_blocks (loaded v s) = 0 \<and> ae_rem_extra (loaded v s) = 0)" "ae_mode (loaded v s) < 2"
    "\<not> (tst (ae_cnt s) (push_bit 31 1) \<or> \<not> tst v (push_bit 31 1))"
    using assms by (simp_all add: loaded_fields busy_def)
  have "write_cnt H v s = (if tst (ae_cnt s) (push_bit 31 1) \<or> \<not> tst v (push_bit 31 1) then latched v s
      else if ae_rem_blocks (loaded v s) = 0 \<and> ae_rem_extra (loaded v s) = 0
      then (loaded v s)\<lparr>ae_cnt := ae_cnt (loaded v s) AND NOT (push_bit 31 1)\<rparr>
      else ae_request (NdmaCheck 0x2A)
        (if ae_mode (loaded v s) < 2
         then ccm_start H v (bswap128 (ae_cur_key (loaded v s))) (bswap128 (ae_iv (loaded v s))) (loaded v s)
         else (loaded v s)\<lparr>ae_ctx := AES_init_ctx_iv (ae_ctx (loaded v s))
           (bswap128 (ae_cur_key (loaded v s))) (bswap128 (ae_iv (loaded v s)))\<rparr>))"
    unfolding write_cnt_def loaded_def latched_def Let_def ..
  then show ?thesis by (simp only: c if_False if_True)
qed

text \<open>The cipher state a CCM run starts from does not depend on the mode bits of the
  control word nor on the MAC register.\<close>

lemma ccm_start_fields [simp]:
  "ae_in (ccm_start H v key iv u) = ae_in u" "ae_out (ccm_start H v key iv u) = ae_out u"
  "ae_cnt (ccm_start H v key iv u) = ae_cnt u" "ae_mode (ccm_start H v key iv u) = ae_mode u"
  "ae_rem_blocks (ccm_start H v key iv u) = ae_rem_blocks u"
  "ae_rem_extra (ccm_start H v key iv u) = ae_rem_extra u"
  "ae_mac (ccm_start H v key iv u) = ae_mac u"
  "ae_output_mac_due (ccm_start H v key iv u) = ae_output_mac_due u"
  by (simp_all add: ccm_start_def Let_def mac_encrypt_def split_beta)

lemma ccm_start_cong:
  assumes "fld v 16 7 = fld v' 16 7" "ae_ctx u = ae_ctx u'" "ae_hw u = ae_hw u'"
    "ae_blkcnt u = ae_blkcnt u'" "ae_rem_blocks u = ae_rem_blocks u'"
  shows "ae_ctx (ccm_start H v key iv u) = ae_ctx (ccm_start H v' key iv u')"
    "ae_cur_mac (ccm_start H v key iv u) = ae_cur_mac (ccm_start H v' key iv u')"
  by (simp_all add: ccm_start_def Let_def mac_encrypt_def AES_ECB_encrypt_def split_beta assms)

definition idle :: "dsi_aes \<Rightarrow> bool" where
  "idle s \<longleftrightarrow> ae_ok s \<and> \<not> busy s \<and> fifo_list (ae_in s) = [] \<and> fifo_list (ae_out s) = []"

lemma start_ready:
  assumes "host_ok H" "idle s" "tst v (push_bit 31 1)" "fld v 28 3 = 0 \<or> fld v 28 3 = 1"
    "ae_blkcnt s AND 0xFFFF = 0" "unat (drop_bit 16 (ae_blkcnt s)) = Suc n"
  shows "ready (Suc n) (write_cnt H v s)"
proof -
  have lt: "fld v 28 3 < 2" using assms(4) by auto
  have nz: "drop_bit 16 (ae_blkcnt s) \<noteq> 0" using assms(6) by auto
  have "ae_ok (write_cnt H v s)" using assms(1,2) by (simp add: idle_def ae_ok_write_cnt)
  moreover have "tst (v AND 0xFC1FF000) (push_bit 31 1)"
    using assms(3) unfolding tst_bit by (simp add: bit_and_iff)
  moreover note write_cnt_start [OF _ assms(3) nz lt, of H]
  ultimately show ?thesis
    using assms(2,4,5,6) lt by (simp add: ready_def idle_def busy_def ae_request_def loaded_fields)
qed

lemma or_mode_fields:
  fixes v :: u32
  shows "fld (v OR push_bit 28 1) 16 7 = fld v 16 7" "fld (v OR push_bit 28 1) 26 3 = fld v 26 3"
    "tst (v OR push_bit 28 1) (push_bit 24 1) = tst v (push_bit 24 1)"
    "tst v (push_bit 31 1) \<Longrightarrow> tst (v OR push_bit 28 1) (push_bit 31 1)"
    "fld v 28 3 = 0 \<Longrightarrow> fld (v OR push_bit 28 1) 28 3 = 1"
proof -
  show "tst (v OR push_bit 28 1) (push_bit 24 1) = tst v (push_bit 24 1)"
    "tst v (push_bit 31 1) \<Longrightarrow> tst (v OR push_bit 28 1) (push_bit 31 1)"
    unfolding tst_bit by (simp_all add: bit_or_iff)
  have d: "fld (v OR w) j m = fld v j m OR fld w j m" for w m :: u32 and j
    by (rule bit_word_eqI) (auto simp: bit_fld bit_or_iff)
  show "fld (v OR push_bit 28 1) 16 7 = fld v 16 7" "fld (v OR push_bit 28 1) 26 3 = fld v 26 3"
    "fld v 28 3 = 0 \<Longrightarrow> fld (v OR push_bit 28 1) 28 3 = 1"
    by (simp_all add: d) (simp_all add: fld_def)
qed

lemma start_paired:
  assumes H: "host_ok H" and s: "idle s" "length m = 16"
    and v: "tst v (push_bit 31 1)" "fld v 28 3 = 0"
    and n: "ae_blkcnt s AND 0xFFFF = 0" "unat (drop_bit 16 (ae_blkcnt s)) = Suc n"
  shows "paired (Suc n) (write_cnt H (v OR push_bit 28 1) s) (write_cnt H v (s\<lparr>ae_mac := m\<rparr>))"
    "ae_mac (write_cnt H v (s\<lparr>ae_mac := m\<rparr>)) = m"
proof -
  let ?v = "v OR push_bit 28 1" and ?s = "s\<lparr>ae_mac := m\<rparr>"
  note f = or_mode_fields(1,2,3) [of v]
  have s': "idle ?s" using s by (simp add: idle_def ae_ok_def busy_def)
  have nz: "drop_bit 16 (ae_blkcnt s) \<noteq> 0" "drop_bit 16 (ae_blkcnt ?s) \<noteq> 0" using n by auto
  have nb: "\<not> busy s" "\<not> busy ?s" using s(1) by (simp_all add: idle_def busy_def)
  have m1: "fld ?v 28 3 = 1" using or_mode_fields(5) [OF v(2)] .
  have t1: "tst ?v (push_bit 31 1)" using or_mode_fields(4) [OF v(1)] .
  have lt: "fld ?v 28 3 < 2" "fld v 28 3 < 2" by (simp_all only: m1 v(2)) simp_all
  note e = write_cnt_start [OF nb(1) t1 nz(1) lt(1), of H]
  note d = write_cnt_start [OF nb(2) v(1) nz(2) lt(2), of H]
  have k: "ae_cur_key (loaded ?v s) = ae_cur_key (loaded v ?s)"
    unfolding loaded_fields latched_fields f(2,3) by simp
  have i: "ae_iv (loaded ?v s) = ae_iv (loaded v ?s)" by (simp only: loaded_fields) simp
  have c: "ae_ctx (loaded ?v s) = ae_ctx (loaded v ?s)" "ae_hw (loaded ?v s) = ae_hw (loaded v ?s)"
    "ae_blkcnt (loaded ?v s) = ae_blkcnt (loaded v ?s)" "ae_rem_blocks (loaded ?v s) = ae_rem_blocks (loaded v ?s)"
    by (simp_all only: loaded_fields) simp_all
  have "ready (Suc n) (write_cnt H ?v s)" "ready (Suc n) (write_cnt H v ?s)"
    using start_ready [OF H s(1) t1 disjI2 [OF m1] n] start_ready [OF H s' v(1) disjI1 [OF v(2)]] n by simp_all
  moreover have "ae_mode (write_cnt H ?v s) = 1" "ae_mode (write_cnt H v ?s) = 0"
    unfolding e d ae_request_fields by (simp_all only: ccm_start_fields loaded_fields m1 v(2))
  moreover have "ae_ctx (write_cnt H ?v s) = ae_ctx (write_cnt H v ?s)"
    "ae_cur_mac (write_cnt H ?v s) = ae_cur_mac (write_cnt H v ?s)"
    unfolding e d k i ae_request_fields by (rule ccm_start_cong [OF f(1) c])+
  ultimately show "paired (Suc n) (write_cnt H ?v s) (write_cnt H v ?s)" by (simp only: paired_def simp_thms)
  show "ae_mac (write_cnt H v ?s) = m" unfolding d by (simp add: ae_request_def loaded_fields)
qed

text \<open>C24: A CCM message survives the engine.  From an idle engine with a block count of
  \<open>n\<close> payload blocks and no associated data, encrypt \<open>n\<close> blocks through the FIFOs; restart
  with the mode bits cleared and feed the result back.  The output is the original
  message, and the verification bit of CNT comes up exactly when the MAC register holds
  the MAC the encryption appended.\<close>

theorem ccm_round_trip:
  assumes "host_ok H" "idle s" "length m = 16"
    and "tst v (push_bit 31 1)" "fld v 28 3 = 0"
    and "ae_blkcnt s AND 0xFFFF = 0" "unat (drop_bit 16 (ae_blkcnt s)) = length ps" "ps \<noteq> []"
    and "\<forall>p \<in> set ps. length p = 4"
  shows "let (cs, e) = stream H ps (write_cnt H (v OR push_bit 28 1) s);
             (ds, d) = stream H cs (write_cnt H v (s\<lparr>ae_mac := m\<rparr>))
         in ds = ps \<and> (tst (ae_cnt d) (push_bit 21 1) \<longleftrightarrow> m = ae_output_mac e)"
proof -
  obtain n where n: "length ps = Suc n" using assms(8) by (cases ps) auto
  note p = start_paired [OF assms(1-6), of n]
  show ?thesis
    using paired_stream [OF assms(1) _ assms(8,9), of "write_cnt H (v OR push_bit 28 1) s"
        "write_cnt H v (s\<lparr>ae_mac := m\<rparr>)"] p assms(7) n
    by (simp add: split_beta Let_def)
qed

definition sample_engine :: dsi_aes where
  "sample_engine = \<lparr>ae_cnt = 0, ae_blkcnt = 0x00010000, ae_rem_extra = 0, ae_rem_blocks = 0,
     ae_input_dma_size = 0, ae_output_dma_size = 0, ae_mode = 0, ae_in = fifo_init, ae_out = fifo_init,
     ae_iv = replicate 16 1, ae_mac = replicate 16 0, ae_key_normal = replicate 4 (replicate 16 5),
     ae_key_x = replicate 4 (replicate 16 0), ae_key_y = replicate 4 (replicate 16 0),
     ae_cur_key = replicate 16 9, ae_cur_mac = replicate 16 0, ae_output_mac = replicate 16 0,
     ae_output_mac_due = False, ae_ctx = \<lparr>RoundKey = replicate 176 0, Iv = replicate 16 0\<rparr>,
     ae_hw = -1, ae_requests = []\<rparr>"

lemma sample_engine_idle: "idle sample_engine"
  by (simp add: sample_engine_def idle_def ae_ok_def fifo_ok_def fifo_init_def slots_ok_def ctx_ok_def
      busy_def tst_def fifo_list_def)

theorem ccm_round_trip_witness:
  "let (cs, e) = stream portable_host [[1, 2, 3, 4]] (write_cnt portable_host (0x80000000 OR push_bit 28 1) sample_engine);
       (ds, d) = stream portable_host cs (write_cnt portable_host 0x80000000 (sample_engine\<lparr>ae_mac := replicate 16 7\<rparr>))
   in ds = [[1, 2, 3, 4]] \<and> (tst (ae_cnt d) (push_bit 21 1) \<longleftrightarrow> replicate 16 7 = ae_output_mac e)"
  by (rule ccm_round_trip [OF portable_host_ok sample_engine_idle])
    (simp_all add: sample_engine_def tst_def fld_def)

end
