(* ===== verification/Sha1.thy ===== *)
theory Sha1 imports Prelude begin

text \<open>
  The one-shot SHA-1 of \<^verbatim>\<open>src/core/crypto/sha1.cpp\<close>, byte for byte: the block function on
  a five-word state, the loop over whole blocks and the two-block tail buffer.  The digest
  is the padded message of FIPS 180-4 folded through the block function.
\<close>

definition rol :: "u32 \<Rightarrow> nat \<Rightarrow> u32" where
  "rol v n = push_bit n v OR drop_bit (32 - n) v"

text \<open>The message schedule: sixteen big-endian words, then the recurrence.\<close>

definition load_w :: "(nat \<Rightarrow> u8) \<Rightarrow> nat \<Rightarrow> u32" where
  "load_w p i = push_bit 24 (ucast (p (i * 4))) OR push_bit 16 (ucast (p (i * 4 + 1)))
     OR push_bit 8 (ucast (p (i * 4 + 2))) OR ucast (p (i * 4 + 3))"

definition schedule :: "(nat \<Rightarrow> u8) \<Rightarrow> u32 list" where
  "schedule p =
     (let w = replicate 80 0;
          w = fold (\<lambda>i w. w[i := load_w p i]) [0..<16] w
      in fold (\<lambda>i w. w[i := rol (w ! (i - 3) XOR w ! (i - 8) XOR w ! (i - 14) XOR w ! (i - 16)) 1])
           [16..<80] w)"

type_synonym sha_state = "u32 \<times> u32 \<times> u32 \<times> u32 \<times> u32"

definition sha_round :: "u32 list \<Rightarrow> nat \<Rightarrow> sha_state \<Rightarrow> sha_state" where
  "sha_round w i = (\<lambda>(a, b, c, d, e).
     let (f, k) = (if i < 20 then ((b AND c) OR (NOT b AND d), 0x5A827999)
                   else if i < 40 then (b XOR c XOR d, 0x6ED9EBA1)
                   else if i < 60 then ((b AND c) OR (b AND d) OR (c AND d), 0x8F1BBCDC)
                   else (b XOR c XOR d, 0xCA62C1D6));
         t = rol a 5 + f + e + k + w ! i
     in (t, a, rol b 30, c, d))"

definition sha_block :: "u32 list \<Rightarrow> (nat \<Rightarrow> u8) \<Rightarrow> u32 list" where
  "sha_block h p =
     (let w = schedule p;
          (a, b, c, d, e) = fold (sha_round w) [0..<80] (h ! 0, h ! 1, h ! 2, h ! 3, h ! 4)
      in h[0 := h ! 0 + a, 1 := h ! 1 + b, 2 := h ! 2 + c, 3 := h ! 3 + d, 4 := h ! 4 + e])"

definition sha_init :: "u32 list" where
  "sha_init = [0x67452301, 0xEFCDAB89, 0x98BADCFE, 0x10325476, 0xC3D2E1F0]"

text \<open>\<^verbatim>\<open>for (; i + 64 <= len; i += 64) block(h, data + i)\<close>.\<close>

function sha_blocks :: "u8 list \<Rightarrow> nat \<Rightarrow> u32 list \<Rightarrow> nat \<times> u32 list" where
  "sha_blocks data i h =
     (if i + 64 \<le> length data
      then sha_blocks data (i + 64) (sha_block h (\<lambda>k. data ! (i + k)))
      else (i, h))"
  by pat_completeness auto

termination
  by (relation "measure (\<lambda>(data, i, h). length data - i)") auto

declare sha_blocks.simps [simp del]

definition sha_tail :: "u8 list \<Rightarrow> nat \<Rightarrow> u8 list \<times> nat" where
  "sha_tail data i =
     (let tail = replicate 128 0;
          rest = length data - i;
          tail = take rest (drop i data) @ drop rest tail;
          tail = tail[rest := 0x80];
          n = (if rest + 1 + 8 \<le> 64 then 64 else 128);
          bits = word_of_nat (length data) * 8 :: u64;
          tail = fold (\<lambda>k tail. tail[n - 1 - k := ucast (drop_bit (8 * k) bits)]) [0..<8] tail
      in (tail, n))"

definition sha_digest :: "u32 list \<Rightarrow> u8 list" where
  "sha_digest h =
     fold (\<lambda>k out. fold (\<lambda>b out. out[k * 4 + b := ucast (drop_bit (24 - 8 * b) (h ! k))]) [0..<4] out)
       [0..<5] (replicate 20 0)"

definition sha1 :: "u8 list \<Rightarrow> u8 list" where
  "sha1 data =
     (let (i, h) = sha_blocks data 0 sha_init;
          (tail, n) = sha_tail data i;
          h = sha_block h (\<lambda>k. tail ! k);
          h = (if n = 128 then sha_block h (\<lambda>k. tail ! (64 + k)) else h)
      in sha_digest h)"

section \<open>The padded message\<close>

text \<open>FIPS 180-4, 5.1.1: a one bit, the fewest zero bits that leave 64 short of a multiple
  of 512, and the bit length as a 64-bit big-endian number.\<close>

definition sha_padded :: "u8 list \<Rightarrow> u8 list" where
  "sha_padded data =
     data @ [0x80] @ replicate ((119 - length data mod 64) mod 64) 0
       @ map (\<lambda>k. word_of_nat (8 * length data div 256 ^ (7 - k))) [0..<8]"

fun fold_blocks :: "nat \<Rightarrow> u8 list \<Rightarrow> u32 list \<Rightarrow> u32 list" where
  "fold_blocks 0 m h = h"
| "fold_blocks (Suc n) m h = fold_blocks n (drop 64 m) (sha_block h (\<lambda>k. m ! k))"

lemma pad_zeros:
  fixes r :: nat
  assumes "r < 64"
  shows "(119 - r) mod 64 = (if r < 56 then 55 - r else 119 - r)"
proof (cases "r < 56")
  case True
  then have "119 - r = (55 - r) + 64" by simp
  with True show ?thesis by (simp only: mod_add_self2) simp
qed (use assms in simp)

lemma load_w_cong: "(\<And>k. k < 64 \<Longrightarrow> p k = p' k) \<Longrightarrow> i < 16 \<Longrightarrow> load_w p i = load_w p' i"
  by (simp add: load_w_def)

lemma sha_block_cong:
  assumes "\<And>k. k < 64 \<Longrightarrow> p k = p' k"
  shows "sha_block h p = sha_block h p'"
proof -
  have "fold (\<lambda>i w. w[i := load_w p i]) [0..<16] w = fold (\<lambda>i w. w[i := load_w p' i]) [0..<16] w" for w
    using load_w_cong [of p p', OF assms] by (intro fold_cong) auto
  then show ?thesis by (simp only: sha_block_def schedule_def Let_def)
qed

lemma fold_blocks_take: "64 * n \<le> length m \<Longrightarrow> fold_blocks n (take (64 * n) m) h = fold_blocks n m h"
proof (induction n arbitrary: m h)
  case (Suc n)
  have "sha_block h (\<lambda>k. take (64 * Suc n) m ! k) = sha_block h (\<lambda>k. m ! k)"
    by (rule sha_block_cong) simp
  moreover have "drop 64 (take (64 * Suc n) m) = take (64 * n) (drop 64 m)"
    by (simp add: drop_take)
  ultimately show ?case using Suc by simp
qed simp

lemma fold_blocks_append:
  "length xs = 64 * q \<Longrightarrow> fold_blocks (q + n) (xs @ ys) h = fold_blocks n ys (fold_blocks q xs h)"
proof (induction q arbitrary: xs h)
  case (Suc q)
  have "sha_block h (\<lambda>k. (xs @ ys) ! k) = sha_block h (\<lambda>k. xs ! k)"
    using Suc.prems by (intro sha_block_cong) (simp add: nth_append)
  then show ?case using Suc by simp
qed simp

lemma sha_blocks_fold:
  assumes "length data = 64 * q + r" "r < 64"
  shows "j + n = q \<Longrightarrow> sha_blocks data (64 * j) h = (64 * q, fold_blocks n (drop (64 * j) data) h)"
proof (induction n arbitrary: j h)
  case 0
  then show ?case using assms by (simp add: sha_blocks.simps)
next
  case (Suc n)
  have l: "64 * j + 64 \<le> length data" using Suc.prems assms by simp
  have f: "(\<lambda>k. data ! (64 * j + k)) = (\<lambda>k. drop (64 * j) data ! k)" "64 * Suc j = 64 * j + 64"
    using l by (simp_all add: fun_eq_iff)
  have "sha_blocks data (64 * j) h = sha_blocks data (64 * j + 64) (sha_block h (\<lambda>k. data ! (64 * j + k)))"
    using l by (subst sha_blocks.simps) simp
  then have "sha_blocks data (64 * j) h = sha_blocks data (64 * Suc j) (sha_block h (\<lambda>k. drop (64 * j) data ! k))"
    unfolding f .
  also have "\<dots> = (64 * q, fold_blocks n (drop (64 * Suc j) data) (sha_block h (\<lambda>k. drop (64 * j) data ! k)))"
    using Suc.IH [of "Suc j"] Suc.prems by simp
  finally show ?case by simp
qed

lemma tail_bytes_nth:
  assumes "n \<le> length t" "m \<le> n" "j < length t"
  shows "fold (\<lambda>k t. t[n - Suc k := f k]) [0..<m] t ! j = (if n - m \<le> j \<and> j < n then f (n - Suc j) else t ! j)"
  using assms(2)
proof (induction m)
  case (Suc m)
  have l: "length (fold (\<lambda>k t. t[n - Suc k := f k]) [0..<m] t) = length t" for m
    by (induction m) simp_all
  show ?case using Suc assms by (auto simp: l nth_list_update)
qed auto

lemma length_bits_byte:
  assumes "k < 8"
  shows "ucast (drop_bit (8 * k) (word_of_nat len * 8 :: u64)) = (word_of_nat (8 * len div 256 ^ k) :: u8)"
proof -
  obtain b where b: "b = 8 * len" by blast
  have w: "word_of_nat len * 8 = (word_of_nat b :: u64)" by (simp add: b mult.commute)
  have p: "(256::nat) ^ k = 2 ^ (8 * k)" by (simp add: power_mult)
  show ?thesis
    unfolding w p b [symmetric] drop_bit_eq_div [symmetric]
    using assms by (intro bit_word_eqI) (simp add: bit_simps)
qed

lemma length_tail_bytes:
  "length (fold (\<lambda>k t. t[n - Suc k := f k]) ks t) = length t"
  by (induction ks arbitrary: t) simp_all

text \<open>The tail buffer is the rest of the padded message, one block or two.\<close>

lemma sha_tail_padded:
  assumes "length data = 64 * q + r" "r < 64"
  shows "snd (sha_tail data (64 * q)) = (if r < 56 then 64 else 128)"
    "take (snd (sha_tail data (64 * q))) (fst (sha_tail data (64 * q))) = drop (64 * q) (sha_padded data)"
proof -
  define n where "n = (if r < 56 then 64 else 128::nat)"
  define byte where "byte = (\<lambda>k. ucast (drop_bit (8 * k) (word_of_nat (length data) * 8 :: u64)) :: u8)"
  define t where "t = drop (64 * q) data @ [0x80] @ replicate (127 - r) 0"
  let ?out = "fold (\<lambda>k t. t[n - Suc k := byte k]) [0..<8] t"
  have rest: "length data - 64 * q = r" "take r (drop (64 * q) data) = drop (64 * q) data"
    using assms by simp_all
  have "replicate (128 - r) (0::u8) = 0 # replicate (127 - r) 0"
    using assms(2) by (simp add: Suc_diff_le flip: replicate_Suc)
  then have t: "(take r (drop (64 * q) data) @ drop r (replicate 128 0))[r := 0x80] = t"
    using assms rest by (simp add: t_def list_update_append)
  have st: "sha_tail data (64 * q) = (?out, n)"
    unfolding sha_tail_def Let_def rest(1) t
    by (simp add: n_def byte_def)
  then show "snd (sha_tail data (64 * q)) = (if r < 56 then 64 else 128)" by (simp add: n_def)
  have l: "length t = 128" "n \<le> 128" "8 \<le> n" using assms by (simp_all add: t_def n_def)
  have pad: "drop (64 * q) (sha_padded data)
      = drop (64 * q) data @ [0x80] @ replicate (n - 9 - r) 0 @ map (\<lambda>k. byte (7 - k)) [0..<8]"
  proof -
    have "length data mod 64 = r" using assms by simp
    moreover have "(119 - r) mod 64 = n - 9 - r" using pad_zeros [OF assms(2)] by (simp add: n_def)
    moreover have "map (\<lambda>k. word_of_nat (8 * length data div 256 ^ (7 - k))) [0..<8] = map (\<lambda>k. byte (7 - k)) [0..<8]"
      by (rule map_cong) (simp_all add: byte_def length_bits_byte)
    ultimately show ?thesis using assms unfolding sha_padded_def by (simp only:) simp
  qed
  have "take n ?out = drop (64 * q) (sha_padded data)"
  proof (rule nth_equalityI)
    show "length (take n ?out) = length (drop (64 * q) (sha_padded data))"
      unfolding pad using l assms by (simp add: length_tail_bytes n_def)
    fix j assume "j < length (take n ?out)"
    then have j: "j < n" by simp
    have "take n ?out ! j = (if n - 8 \<le> j then byte (n - Suc j) else t ! j)"
      using j l by (simp add: tail_bytes_nth)
    also have "\<dots> = drop (64 * q) (sha_padded data) ! j"
      unfolding pad t_def using j assms rest(1) l
      by (auto simp: nth_append nth_Cons' n_def not_less split: if_splits)
    finally show "take n ?out ! j = drop (64 * q) (sha_padded data) ! j" .
  qed
  then show "take (snd (sha_tail data (64 * q))) (fst (sha_tail data (64 * q))) = drop (64 * q) (sha_padded data)"
    by (simp add: st)
qed

lemma fold_blocks_tail:
  assumes "length rest = n" "n = 64 \<or> n = 128" "take n t = rest" "n \<le> length t"
  shows "(let h = sha_block h (\<lambda>k. t ! k) in if n = 128 then sha_block h (\<lambda>k. t ! (64 + k)) else h)
    = fold_blocks (n div 64) rest h"
proof -
  have 1: "sha_block h (\<lambda>k. t ! k) = sha_block h (\<lambda>k. rest ! k)"
    using assms by (intro sha_block_cong) auto
  have 2: "sha_block h' (\<lambda>k. t ! (64 + k)) = sha_block h' (\<lambda>k. drop 64 rest ! k)" if "n = 128" for h'
    using assms that by (intro sha_block_cong) auto
  have f: "fold_blocks 1 m h = sha_block h (\<lambda>k. m ! k)"
    "fold_blocks 2 m h = sha_block (sha_block h (\<lambda>k. m ! k)) (\<lambda>k. drop 64 m ! k)" for m
    by (simp_all add: numeral_2_eq_2)
  from assms(2) show ?thesis
  proof
    assume n: "n = 64"
    then have "n div 64 = 1" "(n = 128) = False" by simp_all
    then show ?thesis by (simp only: Let_def 1 f if_False)
  next
    assume n: "n = 128"
    then have "n div 64 = 2" by simp
    then show ?thesis by (simp only: Let_def 1 2 [OF n] f n if_True simp_thms)
  qed
qed

lemma blocks_and_rest:
  fixes len :: nat
  obtains q r where "len = 64 * q + r" "r < 64"
proof
  show "len = 64 * (len div 64) + len mod 64" by simp
  show "len mod 64 < 64" by simp
qed

lemma length_sha_padded:
  assumes "length data = 64 * q + r" "r < 64"
  shows "length (sha_padded data) = 64 * (q + (if r < 56 then 1 else 2))"
proof -
  have "length data mod 64 = r" using assms by simp
  then show ?thesis using assms by (simp add: sha_padded_def pad_zeros)
qed

text \<open>C29: The one-shot SHA-1 hashes the padded message of the standard: for every input,
  of any length and however it falls on block boundaries, the digest is the initial state
  folded through the block function over the 64-byte blocks of the message, its
  terminator, the zero padding and the big-endian bit length.\<close>

theorem sha1_is_padded_fold:
  "sha1 data = sha_digest (fold_blocks (length (sha_padded data) div 64) (sha_padded data) sha_init)"
proof -
  obtain q r where qr: "length data = 64 * q + r" "r < 64" by (rule blocks_and_rest)
  define n where "n = (if r < 56 then 64 else 128::nat)"
  obtain t where st: "sha_tail data (64 * q) = (t, n)"
    using sha_tail_padded(1) [OF qr] by (metis n_def prod.collapse)
  have tl: "take n t = drop (64 * q) (sha_padded data)"
    using sha_tail_padded(2) [OF qr] by (simp add: st)
  have len: "length (sha_padded data) = 64 * q + n" using length_sha_padded [OF qr] by (simp add: n_def)
  then have ln: "length (drop (64 * q) (sha_padded data)) = n" by simp
  have nt: "n \<le> length t" using ln tl by (metis length_take min.cobounded1)
  have pre: "take (64 * q) (sha_padded data) = take (64 * q) data"
    using qr by (simp add: sha_padded_def)
  have blocks: "sha_blocks data 0 sha_init = (64 * q, fold_blocks q (take (64 * q) (sha_padded data)) sha_init)"
    using sha_blocks_fold [OF qr, of 0 q sha_init] fold_blocks_take [of q data sha_init] qr
    by (simp add: pre)
  have n: "n = 64 \<or> n = 128" by (simp add: n_def)
  have "sha1 data = sha_digest
      (let h = sha_block (fold_blocks q (take (64 * q) (sha_padded data)) sha_init) (\<lambda>k. t ! k)
       in if n = 128 then sha_block h (\<lambda>k. t ! (64 + k)) else h)"
    by (simp only: sha1_def blocks st Let_def case_prod_conv)
  also have "\<dots> = sha_digest (fold_blocks (n div 64) (drop (64 * q) (sha_padded data))
      (fold_blocks q (take (64 * q) (sha_padded data)) sha_init))"
    by (simp only: fold_blocks_tail [OF ln n tl nt])
  also have "fold_blocks (n div 64) (drop (64 * q) (sha_padded data))
      (fold_blocks q (take (64 * q) (sha_padded data)) sha_init)
    = fold_blocks (q + n div 64) (take (64 * q) (sha_padded data) @ drop (64 * q) (sha_padded data)) sha_init"
    using len by (intro fold_blocks_append [symmetric]) simp
  also have "q + n div 64 = length (sha_padded data) div 64" by (simp add: len)
  finally show ?thesis by simp
qed

end
