(* ===== verification/IoMath.thy ===== *)
theory IoMath imports Prelude "HOL-Library.Signed_Division" begin

text \<open>
  The divider and the square-root unit (\<^verbatim>\<open>src/core/io/io.h\<close>, \<^verbatim>\<open>struct MathUnit\<close>, and
  \<^verbatim>\<open>src/core/io/io.cpp\<close>, \<^verbatim>\<open>div_done\<close> and \<^verbatim>\<open>sqrt_done\<close>).  The results are computed here; when
  they become visible is the business of \<open>IoCore\<close>, which starts and settles the two
  units against the clock.  The second half states what they compute: C++ division with
  its special cases spelt out, and the integer square root.
\<close>

section \<open>The unit\<close>

record math_unit =
  divcnt :: u16
  sqrtcnt :: u16
  div_num :: u64
  div_den :: u64
  div_quot :: u64
  div_rem :: u64
  sqrt_val :: u64
  sqrt_res :: u32
  div_ready_at :: u64
  sqrt_ready_at :: u64
  div_pending :: bool
  sqrt_pending :: bool

definition math_zero :: math_unit where
  "math_zero = \<lparr> divcnt = 0, sqrtcnt = 0, div_num = 0, div_den = 0, div_quot = 0, div_rem = 0,
     sqrt_val = 0, sqrt_res = 0, div_ready_at = 0, sqrt_ready_at = 0, div_pending = False,
     sqrt_pending = False \<rparr>"

text \<open>The 32-bit case of the switch: both operands are the low halves, read as signed.\<close>

definition div_done32 :: "math_unit \<Rightarrow> math_unit" where
  "div_done32 m =
     (let num = sint (ucast (div_num m) :: u32); den = sint (ucast (div_den m) :: u32) in
      if den = 0 then
        m\<lparr> div_quot := (if num < 0 then 0xFFFFFFFF00000001 else 0x00000000FFFFFFFF),
           div_rem := word_of_int num \<rparr>
      else if num = - (2 ^ 31) \<and> den = -1 then m\<lparr> div_quot := 0x80000000 \<rparr>
      else m\<lparr> div_quot := word_of_int (num sdiv den), div_rem := word_of_int (num smod den) \<rparr>)"

text \<open>The default case: a 64-bit numerator, over a 64-bit denominator in mode 2 and over the
  low half otherwise.\<close>

definition div_done64 :: "math_unit \<Rightarrow> math_unit" where
  "div_done64 m =
     (let num = sint (div_num m);
          den = (if divcnt m AND 3 = 2 then sint (div_den m) else sint (ucast (div_den m) :: u32)) in
      if den = 0 then
        m\<lparr> div_quot := (if num < 0 then 1 else -1), div_rem := word_of_int num \<rparr>
      else if num = - (2 ^ 63) \<and> den = -1 then m\<lparr> div_quot := 0x8000000000000000, div_rem := 0 \<rparr>
      else m\<lparr> div_quot := word_of_int (num sdiv den), div_rem := word_of_int (num smod den) \<rparr>)"

definition div_done :: "math_unit \<Rightarrow> math_unit" where
  "div_done m =
     (let m1 = m\<lparr> div_pending := False, divcnt := divcnt m AND NOT 0xC000 \<rparr>;
          m2 = (if divcnt m1 AND 3 = 0 then div_done32 m1 else div_done64 m1)
      in if div_den m2 = 0 then m2\<lparr> divcnt := divcnt m2 OR 0x4000 \<rparr> else m2)"

text \<open>One digit of the square root: \<open>(rem, val, res)\<close> are the loop's variables.\<close>

definition sqrt_step :: "nat \<Rightarrow> u64 \<times> u64 \<times> u64 \<Rightarrow> u64 \<times> u64 \<times> u64" where
  "sqrt_step topshift st =
     (let (rm, v, res) = st;
          rm1 = push_bit 2 rm + (drop_bit topshift v AND 3);
          v1 = push_bit 2 v;
          res1 = push_bit 1 res;
          prod = push_bit 1 res1 + 1
      in if prod \<le> rm1 then (rm1 - prod, v1, res1 + 1) else (rm1, v1, res1))"

definition sqrt_done :: "math_unit \<Rightarrow> math_unit" where
  "sqrt_done m =
     (let wide = (sqrtcnt m AND 1 \<noteq> 0);
          v = (if wide then sqrt_val m else sqrt_val m AND 0xFFFFFFFF);
          nbits = (if wide then 32 else 16 :: nat);
          topshift = (if wide then 62 else 30 :: nat);
          (rm, v', res) = (sqrt_step topshift ^^ nbits) (0, v, 0)
      in m\<lparr> sqrt_pending := False, sqrt_res := ucast res \<rparr>)"

section \<open>The square root is the integer square root\<close>

text \<open>Two bits of the operand come down per step.\<close>

lemma drop_two: "unat (drop_bit k v :: u64) = 4 * unat (drop_bit (k + 2) v) + unat (drop_bit k v AND 3)"
proof -
  let ?x = "drop_bit k v"
  have "unat (?x AND 3) = unat ?x mod 4"
    using unat_and_mask [of ?x 2] by (simp add: mask_eq_exp_minus_1)
  moreover have "drop_bit (k + 2) v = drop_bit 2 ?x" by (simp add: drop_bit_drop_bit add.commute)
  then have "unat (drop_bit (k + 2) v) = unat ?x div 4"
    by (simp only: drop_bit_eq_div [of 2] unat_div) simp
  ultimately show ?thesis by simp
qed

lemma top_digit:
  assumes "i < n" "n \<le> 32"
  shows "drop_bit (2 * n - 2) (push_bit (2 * i) (v::u64)) AND 3 = drop_bit (2 * (n - Suc i)) v AND 3"
proof (rule bit_word_eqI)
  fix j assume "j < LENGTH(64)"
  have "bit (3::u64) j \<Longrightarrow> j < 2" 
    using bit_mask_iff [of 2 j, where 'a = u64] by (simp add: mask_eq_exp_minus_1)
  then show "bit (drop_bit (2 * n - 2) (push_bit (2 * i) v) AND 3) j = bit (drop_bit (2 * (n - Suc i)) v AND 3) j"
    using assms by (auto simp: bit_simps algebra_simps)
qed

text \<open>The two outcomes of a step, on numbers: \<open>r\<close> the root so far, \<open>m\<close> the remainder.\<close>

lemma sqrt_digit_one:
  fixes r m d V W :: nat
  assumes "4 * r + 1 \<le> 4 * m + d" "d \<le> 3" "r < 2 ^ i" "m \<le> 2 * r" "r * r + m = V" "W = 4 * V + d"
  shows "2 * r + 1 < 2 ^ Suc i \<and> 4 * m + d - (4 * r + 1) \<le> 2 * (2 * r + 1) \<and>
    (2 * r + 1) * (2 * r + 1) + (4 * m + d - (4 * r + 1)) = W"
proof -
  have "(2 * r + 1) * (2 * r + 1) = 4 * (r * r) + (4 * r + 1)" by (simp add: algebra_simps)
  with assms show ?thesis by auto
qed

lemma sqrt_digit_zero:
  fixes r m d V W :: nat
  assumes "4 * m + d < 4 * r + 1" "r < 2 ^ i" "r * r + m = V" "W = 4 * V + d"
  shows "2 * r < 2 ^ Suc i \<and> 4 * m + d \<le> 2 * (2 * r) \<and> (2 * r) * (2 * r) + (4 * m + d) = W"
  using assms by (auto simp: algebra_simps)

definition sqrt_inv :: "u64 \<Rightarrow> nat \<Rightarrow> nat \<Rightarrow> u64 \<times> u64 \<times> u64 \<Rightarrow> bool" where
  "sqrt_inv v0 n i st \<longleftrightarrow>
     (let (rm, v, res) = st in
      v = push_bit (2 * i) v0 \<and> unat res < 2 ^ i \<and> unat rm \<le> 2 * unat res \<and>
      unat res * unat res + unat rm = unat (drop_bit (2 * (n - i)) v0))"

lemma sqrt_inv_step:
  assumes "sqrt_inv v0 n i st" "i < n" "n \<le> 32"
  shows "sqrt_inv v0 n (Suc i) (sqrt_step (2 * n - 2) st)"
proof -
  obtain rm v res where st: "st = (rm, v, res)" by (cases st)
  have inv: "v = push_bit (2 * i) v0" "unat res < 2 ^ i" "unat rm \<le> 2 * unat res"
    "unat res * unat res + unat rm = unat (drop_bit (2 * (n - i)) v0)"
    using assms(1) by (simp_all add: sqrt_inv_def st)
  define d where "d = drop_bit (2 * (n - Suc i)) v0 AND 3"
  have d: "unat d \<le> 3" using word_and_le1 [of "drop_bit (2 * (n - Suc i)) v0" "3::u64"]
    by (simp add: d_def word_le_nat_alt)
  have k: "2 * (n - Suc i) + 2 = 2 * (n - i)" using assms(2) by simp
  have next_V: "unat (drop_bit (2 * (n - Suc i)) v0) = 4 * unat (drop_bit (2 * (n - i)) v0) + unat d"
    using drop_two [of "2 * (n - Suc i)" v0] by (simp only: k d_def)
  have "2 ^ i \<le> (2::nat) ^ 31" using assms(2,3) by (intro power_increasing) simp_all
  then have r: "unat res < 2 ^ 31" using inv(2) by linarith
  have res1: "unat (push_bit 1 res) = 2 * unat res" "unat (push_bit 1 res + 1) = 2 * unat res + 1"
    and prod: "unat (push_bit 1 (push_bit 1 res) + 1) = 4 * unat res + 1"
    and rm1: "unat (push_bit 2 rm + d) = 4 * unat rm + unat d"
    using r inv(3) d by (simp_all add: push_bit_eq_mult unat_word_ariths)
  have dig: "drop_bit (2 * n - 2) v AND 3 = d"
    unfolding inv(1) d_def by (rule top_digit [OF assms(2,3)])
  have v1: "push_bit 2 v = push_bit (2 * Suc i) v0"
    by (simp add: inv(1) push_bit_push_bit add.commute)
  define rm' where "rm' = push_bit 2 rm + d"
  define p where "p = push_bit 1 (push_bit 1 res) + 1"
  define r0 where "r0 = push_bit 1 res"
  define r1 where "r1 = push_bit 1 res + 1"
  note u = res1 [folded r0_def r1_def] prod [folded p_def] rm1 [folded rm'_def]
  have s: "sqrt_step (2 * n - 2) st =
      (if p \<le> rm' then (rm' - p, push_bit (2 * Suc i) v0, r1) else (rm', push_bit (2 * Suc i) v0, r0))"
    unfolding sqrt_step_def st Let_def dig v1 prod.case rm'_def p_def r0_def r1_def ..
  show ?thesis
  proof (cases "p \<le> rm'")
    case True
    then have le: "4 * unat res + 1 \<le> 4 * unat rm + unat d" unfolding word_le_nat_alt u .
    have "unat (rm' - p) = 4 * unat rm + unat d - (4 * unat res + 1)"
      using unat_sub [OF True] by (simp only: u)
    then show ?thesis
      using True sqrt_digit_one [OF le d inv(2,3,4) next_V] by (simp only: s sqrt_inv_def u if_True prod.case Let_def simp_thms)
  next
    case False
    then have "4 * unat rm + unat d < 4 * unat res + 1" unfolding word_le_nat_alt u not_le .
    then show ?thesis
      using False sqrt_digit_zero [OF _ inv(2,4) next_V] by (simp only: s sqrt_inv_def u if_False prod.case Let_def simp_thms)
  qed
qed

lemma sqrt_inv_all:
  "i \<le> n \<Longrightarrow> n \<le> 32 \<Longrightarrow> drop_bit (2 * n) v0 = 0 \<Longrightarrow>
   sqrt_inv v0 n i ((sqrt_step (2 * n - 2) ^^ i) (0, v0, 0))"
  by (induction i) (simp_all add: sqrt_inv_def [of _ _ 0] sqrt_inv_step)

lemma sqrt_digits:
  assumes "n \<le> 32" "drop_bit (2 * n) v0 = 0" "(sqrt_step (2 * n - 2) ^^ n) (0, v0, 0) = (rm, v', res)"
  shows "unat res < 2 ^ n \<and> unat res * unat res \<le> unat v0 \<and> unat v0 < (unat res + 1) * (unat res + 1)"
  using sqrt_inv_all [of n n v0] assms by (simp add: sqrt_inv_def algebra_simps)

definition sqrt_operand :: "math_unit \<Rightarrow> nat" where
  "sqrt_operand m = unat (if sqrtcnt m AND 1 \<noteq> 0 then sqrt_val m else sqrt_val m AND 0xFFFFFFFF)"

text \<open>The square-root unit returns the integer square root of its operand -- the whole
  64-bit register in 64-bit mode, its low half in 32-bit mode -- with no rounding error and no
  overflow at the top of the range, and the result always fits the 32-bit register.\<close>

theorem sqrt_exact:
  "unat (sqrt_res (sqrt_done m)) * unat (sqrt_res (sqrt_done m)) \<le> sqrt_operand m \<and>
   sqrt_operand m < (unat (sqrt_res (sqrt_done m)) + 1) * (unat (sqrt_res (sqrt_done m)) + 1) \<and>
   \<not> sqrt_pending (sqrt_done m)"
proof -
  have fits: "unat (ucast (r::u64) :: u32) = unat r" if "unat r < 2 ^ 32" for r
    using that by (simp add: unsigned_ucast_eq take_bit_nat_eq_self)
  show ?thesis
  proof (cases "sqrtcnt m AND 1 \<noteq> 0")
    case True
    obtain rm v' res where e: "(sqrt_step 62 ^^ 32) (0, sqrt_val m, 0) = (rm, v', res)"
      by (cases "(sqrt_step 62 ^^ 32) (0, sqrt_val m, 0)")
    have "drop_bit 64 (sqrt_val m) = 0" by (rule bit_word_eqI) (auto simp: bit_simps dest: bit_imp_le_length)
    with sqrt_digits [of 32 "sqrt_val m"] e True show ?thesis
      by (simp add: sqrt_done_def sqrt_operand_def fits)
  next
    case False
    let ?v = "sqrt_val m AND 0xFFFFFFFF"
    obtain rm v' res where e: "(sqrt_step 30 ^^ 16) (0, ?v, 0) = (rm, v', res)"
      by (cases "(sqrt_step 30 ^^ 16) (0, ?v, 0)")
    have m: "0xFFFFFFFF = (mask 32 :: u64)" by (simp add: mask_eq_exp_minus_1)
    have "drop_bit 32 ?v = 0"
      unfolding m by (rule bit_word_eqI) (auto simp: bit_simps)
    with sqrt_digits [of 16 ?v] e False show ?thesis
      by (simp add: sqrt_done_def sqrt_operand_def fits)
  qed
qed

section \<open>The divider is C++ division with its exceptions spelt out\<close>

definition div_operands :: "math_unit \<Rightarrow> int \<times> int" where
  "div_operands m =
     (if divcnt m AND 3 = 0 then (sint (ucast (div_num m) :: u32), sint (ucast (div_den m) :: u32))
      else if divcnt m AND 3 = 2 then (sint (div_num m), sint (div_den m))
      else (sint (div_num m), sint (ucast (div_den m) :: u32)))"

text \<open>The most negative numerator of the mode over minus one.\<close>

definition div_overflows :: "math_unit \<Rightarrow> bool" where
  "div_overflows m \<longleftrightarrow> div_operands m = (if divcnt m AND 3 = 0 then - (2 ^ 31) else - (2 ^ 63), -1)"

lemma sdiv_fits:
  fixes n d :: int
  assumes "- (2 ^ 63) \<le> n" "n < 2 ^ 63" "d \<noteq> 0" "\<not> (n = - (2 ^ 63) \<and> d = -1)"
  shows "- (2 ^ 63) \<le> n sdiv d \<and> n sdiv d < 2 ^ 63"
proof -
  have range: "n sdiv d \<in> {- \<bar>n\<bar>..\<bar>n\<bar>}" by (rule sdiv_int_range)
  show ?thesis
  proof (cases "n = - (2 ^ 63)")
    case True
    with assms(3,4) consider "0 < d" | "d < -1" by linarith
    then show ?thesis
    proof cases
      case 1
      then have "n sdiv d = - (2 ^ 63 div d)" by (simp add: True signed_divide_int_def)
      moreover have "0 \<le> 2 ^ 63 div d" using 1 by (simp add: pos_imp_zdiv_nonneg_iff)
      ultimately show ?thesis using range True by auto
    next
      case 2
      then have "n sdiv d = 2 ^ 63 div (- d)" by (simp add: True signed_divide_int_def)
      moreover have "(2::int) ^ 63 div (- d) \<le> 2 ^ 63 div 2" using 2 by (intro zdiv_mono2) simp_all
      ultimately show ?thesis using range True by auto
    qed
  next
    case False
    with range assms(1,2) show ?thesis by auto
  qed
qed

lemma smod_bounds:
  fixes n d :: int
  assumes "d \<noteq> 0"
  shows "\<bar>n smod d\<bar> < \<bar>d\<bar>" "n smod d = 0 \<or> sgn (n smod d) = sgn n" "\<bar>n smod d\<bar> \<le> \<bar>n\<bar>"
proof -
  have e: "n smod d = sgn n * (\<bar>n\<bar> mod \<bar>d\<bar>)" by (rule smod_int_alt_def)
  have m: "0 \<le> \<bar>n\<bar> mod \<bar>d\<bar>" "\<bar>n\<bar> mod \<bar>d\<bar> < \<bar>d\<bar>" "\<bar>n\<bar> mod \<bar>d\<bar> \<le> \<bar>n\<bar>"
    using assms by (simp_all add: zmod_le_nonneg_dividend)
  show "\<bar>n smod d\<bar> < \<bar>d\<bar>" "\<bar>n smod d\<bar> \<le> \<bar>n\<bar>" using m assms by (auto simp: e abs_mult sgn_if)
  show "n smod d = 0 \<or> sgn (n smod d) = sgn n" using m(1) by (auto simp: e sgn_if)
qed

lemma sint_of_fits: "- (2 ^ 63) \<le> k \<Longrightarrow> k < 2 ^ 63 \<Longrightarrow> sint (word_of_int k :: u64) = k"
  using int_word_sint [of k, where 'a = 64] by (simp add: mod_pos_pos_trivial)

lemma cnt_fields:
  "(c AND NOT 0xC000) AND 3 = c AND (3::u16)" "((c AND NOT 0xC000) OR 0x4000) AND 3 = c AND (3::u16)"
  "tst ((c AND NOT 0xC000) OR 0x4000 :: u16) 0x4000" "\<not> tst (c AND NOT 0xC000 :: u16) 0x4000"
  by (simp_all add: tst_def bit.conj_disj_distrib2 and.assoc)

text \<open>The two cases of the switch under one description.\<close>

definition div_result :: "math_unit \<Rightarrow> int \<Rightarrow> int \<Rightarrow> math_unit \<Rightarrow> bool" where
  "div_result m n d r \<longleftrightarrow>
     (if d = 0 then sint (div_rem r) = n \<and>
        (if divcnt m AND 3 = 0 then uint (div_quot r) = (if n < 0 then 2 ^ 64 - 2 ^ 32 + 1 else 2 ^ 32 - 1)
         else sint (div_quot r) = (if n < 0 then 1 else -1))
      else if div_overflows m then
        (if divcnt m AND 3 = 0 then uint (div_quot r) = 2 ^ 31 \<and> div_rem r = div_rem m
         else uint (div_quot r) = 2 ^ 63 \<and> div_rem r = 0)
      else sint (div_quot r) * d + sint (div_rem r) = n \<and> \<bar>sint (div_rem r)\<bar> < \<bar>d\<bar> \<and>
        (sint (div_rem r) = 0 \<or> sgn (sint (div_rem r)) = sgn n))"

lemma div_result_cong:
  "div_quot r = div_quot r' \<Longrightarrow> div_rem r = div_rem r' \<Longrightarrow> div_result m n d r = div_result m n d r'"
  by (simp add: div_result_def)

lemma div_normal:
  assumes "- (2 ^ 63) \<le> n" "n < 2 ^ 63" "d \<noteq> 0" "\<not> (n = - (2 ^ 63) \<and> d = -1)" "\<not> div_overflows m"
    "div_quot r = word_of_int (n sdiv d)" "div_rem r = word_of_int (n smod d)"
  shows "div_result m n d r"
proof -
  have "- (2 ^ 63) \<le> n smod d" "n smod d < 2 ^ 63"
    using smod_bounds [OF assms(3), of n] assms(1,2) by (auto simp: sgn_if split: if_splits)
  then have "sint (div_rem r) = n smod d" by (simp add: assms(7) sint_of_fits)
  moreover have "sint (div_quot r) = n sdiv d"
    using sdiv_fits [OF assms(1-4)] by (simp add: assms(6) sint_of_fits)
  ultimately show ?thesis
    using assms(3,5) smod_bounds(1,2) [OF assms(3), of n] sdiv_mult_smod_eq [of n d] by (simp add: div_result_def)
qed

lemma sint32_range: "- (2 ^ 31) \<le> sint (x::u32)" "sint (x::u32) < 2 ^ 31"
  using sint_greater_eq [of x] sint_less [of x] by simp_all

lemma sint64_range: "- (2 ^ 63) \<le> sint (x::u64)" "sint (x::u64) < 2 ^ 63"
  using sint_greater_eq [of x] sint_less [of x] by simp_all

lemma div_done32_result:
  assumes "divcnt m AND 3 = 0" "div_operands m = (n, d)"
  shows "div_result m n d (div_done32 m)"
proof -
  have nd: "n = sint (ucast (div_num m) :: u32)" "d = sint (ucast (div_den m) :: u32)"
    using assms by (simp_all add: div_operands_def)
  have n: "- (2 ^ 63) \<le> n" "n < 2 ^ 63" "n \<noteq> - (2 ^ 63)"
    using sint32_range [of "ucast (div_num m)"] by (simp_all add: nd)
  have ov: "div_overflows m \<longleftrightarrow> n = - (2 ^ 31) \<and> d = -1" using assms by (simp add: div_overflows_def)
  consider "d = 0" | "d \<noteq> 0" "div_overflows m" | "d \<noteq> 0" "\<not> div_overflows m" by blast
  then show ?thesis
  proof cases
    case 1
    then show ?thesis using n assms(1) by (simp add: div_result_def div_done32_def nd [symmetric] sint_of_fits)
  next
    case 2
    then show ?thesis using ov assms(1) by (simp add: div_result_def div_done32_def nd [symmetric])
  next
    case 3
    then show ?thesis using n ov
      by (intro div_normal) (auto simp: div_done32_def nd [symmetric])
  qed
qed

lemma div_done64_result:
  assumes "divcnt m AND 3 \<noteq> 0" "div_operands m = (n, d)"
  shows "div_result m n d (div_done64 m)"
proof -
  have nd: "n = sint (div_num m)"
    "d = (if divcnt m AND 3 = 2 then sint (div_den m) else sint (ucast (div_den m) :: u32))"
    using assms by (auto simp: div_operands_def split: if_splits)
  have n: "- (2 ^ 63) \<le> n" "n < 2 ^ 63" using sint64_range [of "div_num m"] by (simp_all add: nd)
  have ov: "div_overflows m \<longleftrightarrow> n = - (2 ^ 63) \<and> d = -1" using assms by (simp add: div_overflows_def)
  consider "d = 0" | "d \<noteq> 0" "div_overflows m" | "d \<noteq> 0" "\<not> div_overflows m" by blast
  then show ?thesis
  proof cases
    case 1
    then show ?thesis using n assms(1) by (simp add: div_result_def div_done64_def nd [symmetric] sint_of_fits)
  next
    case 2
    then show ?thesis using ov assms(1) by (simp add: div_result_def div_done64_def nd [symmetric])
  next
    case 3
    then show ?thesis using n ov
      by (intro div_normal) (auto simp: div_done64_def nd [symmetric])
  qed
qed

text \<open>C39: The divider.  With a non-zero denominator the quotient and remainder are those of C++
  division -- quotient times denominator plus remainder is the numerator, the remainder is
  smaller than the denominator and has the numerator's sign -- in each of the modes, for the
  operands the mode selects.  Dividing by zero gives the numerator as remainder; the
  whole quotient register is then one for a negative numerator and minus one otherwise in the 64-bit
  modes, and in the 32-bit mode the same in its low word under an upper word of the opposite sign.  The most negative number over minus one
  gives back the numerator's bits, with remainder zero in the 64-bit modes and the remainder
  register left as it was in the 32-bit mode.  Bit 14 of the control register tells whether
  the whole 64-bit denominator register is zero, whatever the mode.\<close>

theorem div_exact:
  "(case div_operands m of (n, d) \<Rightarrow> div_result m n d (div_done m)) \<and>
   tst (divcnt (div_done m)) 0x4000 = (div_den m = 0) \<and>
   divcnt (div_done m) AND 3 = divcnt m AND 3 \<and> \<not> div_pending (div_done m)"
proof -
  let ?m = "m\<lparr> div_pending := False, divcnt := divcnt m AND NOT 0xC000 \<rparr>"
  let ?r = "if divcnt ?m AND 3 = 0 then div_done32 ?m else div_done64 ?m"
  obtain n d where nd: "div_operands m = (n, d)" by fastforce
  have c: "divcnt ?m AND 3 = divcnt m AND 3" by (simp add: cnt_fields and.assoc)
  have "div_operands ?m = div_operands m" by (simp add: div_operands_def cnt_fields and.assoc)
  then have o: "div_operands ?m = (n, d)" by (simp add: nd)
  have "div_overflows ?m = div_overflows m" unfolding div_overflows_def o nd c ..
  then have cong: "div_result ?m n d r = div_result m n d r" for r
    unfolding div_result_def c by simp
  have "div_result ?m n d ?r" using div_done32_result [OF _ o] div_done64_result [OF _ o] by simp
  then have res: "div_result m n d ?r" unfolding cong .
  have f: "div_den ?r = div_den m" "divcnt ?r = divcnt m AND NOT 0xC000" "\<not> div_pending ?r"
    by (simp_all add: div_done32_def div_done64_def Let_def)
  have r: "div_done m = (if div_den ?r = 0 then ?r\<lparr> divcnt := divcnt ?r OR 0x4000 \<rparr> else ?r)"
    unfolding div_done_def Let_def ..
  have "div_result m n d (div_done m) = div_result m n d ?r"
    unfolding r by (rule div_result_cong) simp_all
  then have "div_result m n d (div_done m)" using res by (rule iffD2)
  moreover have "tst (divcnt (div_done m)) 0x4000 = (div_den m = 0)"
    "divcnt (div_done m) AND 3 = divcnt m AND 3" "\<not> div_pending (div_done m)"
    unfolding r using f by (simp_all add: tst_def bit.conj_disj_distrib2 and.assoc)
  ultimately show ?thesis by (simp add: nd)
qed

end
