(* ===== verification/IoCore.thy ===== *)
theory IoCore imports Slices IoMath begin

text \<open>
  The core of the I/O register file (\<^verbatim>\<open>src/core/io/io.h\<close> and \<^verbatim>\<open>io.cpp\<close>): the interrupt
  controller, the display status, the IPC register and FIFOs, the timers, the scheduling
  of the divider and square-root unit, and what each of their registers does when written.
  The state is \<open>io_regs\<close>, kept in the part of the scheduler's state that belongs to the
  rest of the console; the second type parameter stands for what the console has beyond
  this.  The handlers of the events modelled here are constructors of \<open>handler\<close>; those of
  other devices are \<open>Foreign\<close>, called through the environment.

  Timer and FIFO arrays are functions and lists, indices and counts natural numbers; the
  invariant of \<open>IpcSpec\<close> shows that they stay below 16.
\<close>

section \<open>State\<close>

definition IRQ_VBLANK :: nat where "IRQ_VBLANK = 0"
definition IRQ_HBLANK :: nat where "IRQ_HBLANK = 1"
definition IRQ_VCOUNT :: nat where "IRQ_VCOUNT = 2"
definition IRQ_TIMER0 :: nat where "IRQ_TIMER0 = 3"
definition IRQ_IPC_SYNC :: nat where "IRQ_IPC_SYNC = 16"
definition IRQ_IPC_SEND_EMPTY :: nat where "IRQ_IPC_SEND_EMPTY = 17"
definition IRQ_IPC_RECV :: nat where "IRQ_IPC_RECV = 18"
definition IRQ_GX_FIFO :: nat where "IRQ_GX_FIFO = 21"

text \<open>Event numbers, in the order of \<^verbatim>\<open>EventId\<close>.\<close>

definition ev_timer0 :: nat where "ev_timer0 = 2"
definition ev_timer7_0 :: nat where "ev_timer7_0 = 6"
definition ev_div_id :: nat where "ev_div_id = 17"
definition ev_sqrt_id :: nat where "ev_sqrt_id = 18"
definition ev_lcd_irq_id :: nat where "ev_lcd_irq_id = 19"

record timer =
  t_reload :: u16
  t_control :: u16
  t_counter :: u16
  t_start :: u64

definition t_running :: "timer \<Rightarrow> bool" where "t_running t \<longleftrightarrow> tst (t_control t) 0x80"
definition t_count_up :: "timer \<Rightarrow> bool" where "t_count_up t \<longleftrightarrow> tst (t_control t) 0x04"
definition prescaler_shift :: "timer \<Rightarrow> nat" where
  "prescaler_shift t = [0, 6, 8, 10] ! unat (t_control t AND 3)"

record ipc_fifo =
  q_data :: "u32 list"
  q_head :: nat
  q_count :: nat
  q_last :: u32

definition q_empty :: "ipc_fifo \<Rightarrow> bool" where "q_empty q \<longleftrightarrow> q_count q = 0"
definition q_full :: "ipc_fifo \<Rightarrow> bool" where "q_full q \<longleftrightarrow> q_count q = 16"

definition q_push :: "u32 \<Rightarrow> ipc_fifo \<Rightarrow> ipc_fifo" where
  "q_push v q = q\<lparr> q_data := (q_data q)[(q_head q + q_count q) mod 16 := v], q_count := q_count q + 1 \<rparr>"

definition q_pop :: "ipc_fifo \<Rightarrow> u32 \<times> ipc_fifo" where
  "q_pop q =
     (let v = q_data q ! q_head q
      in (v, q\<lparr> q_head := (q_head q + 1) mod 16, q_count := q_count q - 1, q_last := v \<rparr>))"

definition q_clear :: "ipc_fifo \<Rightarrow> ipc_fifo" where
  "q_clear q = q\<lparr> q_head := 0, q_count := 0 \<rparr>"

record cpu_io =
  c_ime :: u32
  c_ie :: u32
  c_if :: u32
  c_ipc_sync :: u16
  c_fifo_cnt :: u16
  c_fifo :: ipc_fifo
  c_timers :: "nat \<Rightarrow> timer"

definition zero_timer :: timer where
  "zero_timer = \<lparr> t_reload = 0, t_control = 0, t_counter = 0, t_start = 0 \<rparr>"

definition zero_fifo :: ipc_fifo where
  "zero_fifo = \<lparr> q_data = replicate 16 0, q_head = 0, q_count = 0, q_last = 0 \<rparr>"

definition zero_cpu_io :: cpu_io where
  "zero_cpu_io = \<lparr> c_ime = 0, c_ie = 0, c_if = 0, c_ipc_sync = 0, c_fifo_cnt = 0, c_fifo = zero_fifo,
     c_timers = (\<lambda>_. zero_timer) \<rparr>"

text \<open>A call to the memory bus is recorded, in order.\<close>

datatype bus_call = Update_main_ram

text \<open>\<open>io_is_dsi\<close> is \<^verbatim>\<open>NDS::dsi\<close>, \<open>io_defer\<close> the \<^verbatim>\<open>DS_IPC_DEFER\<close> switch, \<open>io_gxstat\<close> the
  register the GX FIFO interrupt reads; \<open>io_ie2\<close> and \<open>io_if2\<close> are the DSi's second pair of
  interrupt registers, on the ARM7.\<close>

record 'w io_regs =
  io_cpu :: "cpu_id \<Rightarrow> cpu_io"
  io_is_dsi :: bool
  io_defer :: bool
  io_ie2 :: u32
  io_if2 :: u32
  io_gxstat :: u32
  io_scfg_ext :: "cpu_id \<Rightarrow> u32"
  io_bus_calls :: "bus_call list"
  ipc9_pending :: "u32 list"
  ipc9_pending_n :: nat
  lcd_irq_delay :: u32
  lcd_irq_pending :: "cpu_id \<Rightarrow> u32"
  dispstat :: "cpu_id \<Rightarrow> u16"
  vcount :: u16
  math :: math_unit
  io_more :: 'w

datatype 'x handler = Ev_lcd_irq | Timer_event | Ev_div | Ev_sqrt | Foreign 'x

type_synonym ('x, 'w) console = "('x handler, 'w io_regs) sched"

fun other :: "cpu_id \<Rightarrow> cpu_id" where
  "other ARM9 = ARM7"
| "other ARM7 = ARM9"

definition upd_io :: "('w io_regs \<Rightarrow> 'w io_regs) \<Rightarrow> ('x, 'w) console \<Rightarrow> ('x, 'w) console" where
  "upd_io f s = s\<lparr> s_rest := f (s_rest s) \<rparr>"

definition cio :: "cpu_id \<Rightarrow> ('x, 'w) console \<Rightarrow> cpu_io" where
  "cio w s = io_cpu (s_rest s) w"

definition upd_cio :: "cpu_id \<Rightarrow> (cpu_io \<Rightarrow> cpu_io) \<Rightarrow> ('x, 'w) console \<Rightarrow> ('x, 'w) console" where
  "upd_cio w f = upd_io (\<lambda>i. i\<lparr> io_cpu := (io_cpu i)(w := f (io_cpu i w)) \<rparr>)"

section \<open>Interrupts\<close>

definition irq_any :: "cpu_id \<Rightarrow> ('x, 'w) console \<Rightarrow> bool" where
  "irq_any w s \<longleftrightarrow>
     c_ie (cio w s) AND c_if (cio w s) \<noteq> 0 \<or>
     w = ARM7 \<and> io_is_dsi (s_rest s) \<and> io_ie2 (s_rest s) AND io_if2 (s_rest s) \<noteq> 0"

definition update_irq :: "cpu_id \<Rightarrow> ('x, 'w) console \<Rightarrow> ('x, 'w) console" where
  "update_irq w s =
     (let c = cio w s; ctx = cpu_of w s; any = irq_any w s;
          pend = (tst (c_ime c) 1 \<and> any);
          offline = (io_is_dsi (s_rest s) \<and> pend \<and> irq_pending (hot ctx) = 0 \<and>
                     (\<not> running_is w s \<or> s_in_dma s) \<and> \<not> halted ctx);
          ctx1 = (if offline then ctx\<lparr> irq_offline := True \<rparr> else ctx);
          ctx2 = ctx1\<lparr> hot := (hot ctx1)\<lparr> irq_pending := b2w pend \<rparr> \<rparr>;
          ctx3 = (if any \<and> halted ctx2 \<and> (w = ARM7 \<or> tst (c_ime c) 1) then ctx2\<lparr> halted := False \<rparr> else ctx2)
      in upd_cpu_of w (\<lambda>_. ctx3) s)"

definition request_irq2 :: "nat \<Rightarrow> ('x, 'w) console \<Rightarrow> ('x, 'w) console" where
  "request_irq2 b s = update_irq ARM7 (upd_io (\<lambda>i. i\<lparr> io_if2 := io_if2 i OR push_bit b 1 \<rparr>) s)"

definition request_irq :: "cpu_id \<Rightarrow> nat \<Rightarrow> ('x, 'w) console \<Rightarrow> ('x, 'w) console" where
  "request_irq w b s =
     (if tst (c_if (cio w s)) (push_bit b 1) \<and> \<not> halted (cpu_of w s) then s
      else update_irq w (upd_cio w (\<lambda>c. c\<lparr> c_if := c_if c OR push_bit b 1 \<rparr>) s))"

definition set_irq_line :: "cpu_id \<Rightarrow> nat \<Rightarrow> bool \<Rightarrow> ('x, 'w) console \<Rightarrow> ('x, 'w) console" where
  "set_irq_line w b on s =
     (if on then request_irq w b s
      else update_irq w (upd_cio w (\<lambda>c. c\<lparr> c_if := c_if c AND NOT (push_bit b 1) \<rparr>) s))"

text \<open>The GX FIFO interrupt, re-evaluated after the ARM9 acknowledges one.\<close>

definition check_fifo_irq :: "('x, 'w) console \<Rightarrow> ('x, 'w) console" where
  "check_fifo_irq s = set_irq_line ARM9 IRQ_GX_FIFO (drop_bit 30 (io_gxstat (s_rest s)) \<noteq> 0) s"

definition check_fifo_irq_fast :: "('x, 'w) console \<Rightarrow> ('x, 'w) console" where
  "check_fifo_irq_fast s = (if drop_bit 30 (io_gxstat (s_rest s)) \<noteq> 0 then check_fifo_irq s else s)"

section \<open>Display status\<close>

definition lcd_irq :: "cpu_id \<Rightarrow> nat \<Rightarrow> ('x, 'w) console \<Rightarrow> ('x, 'w) console" where
  "lcd_irq w b s =
     (if lcd_irq_delay (s_rest s) = 0 then request_irq w b s
      else
        (let s1 = upd_io (\<lambda>i. i\<lparr> lcd_irq_pending :=
                    (lcd_irq_pending i)(w := lcd_irq_pending i w OR push_bit b 1) \<rparr>) s
         in schedule ev_lcd_irq_id (now s1 + ucast (lcd_irq_delay (s_rest s1))) Ev_lcd_irq 0 s1))"

definition flush_one :: "cpu_id \<Rightarrow> u32 \<Rightarrow> ('x, 'w) console \<Rightarrow> ('x, 'w) console" where
  "flush_one w m s = fold (\<lambda>b s. if bit m b then request_irq w b s else s) [0..<32] s"

definition flush_lcd_irq :: "('x, 'w) console \<Rightarrow> ('x, 'w) console" where
  "flush_lcd_irq s =
     (let s1 = flush_one ARM9 (lcd_irq_pending (s_rest s) ARM9) s;
          s2 = flush_one ARM7 (lcd_irq_pending (s_rest s1) ARM7) s1
      in upd_io (\<lambda>i. i\<lparr> lcd_irq_pending := (\<lambda>_. 0) \<rparr>) s2)"

definition set_dispstat :: "cpu_id \<Rightarrow> u16 \<Rightarrow> ('x, 'w) console \<Rightarrow> ('x, 'w) console" where
  "set_dispstat w v = upd_io (\<lambda>i. i\<lparr> dispstat := (dispstat i)(w := v) \<rparr>)"

definition set_vcount1 :: "u16 \<Rightarrow> cpu_id \<Rightarrow> ('x, 'w) console \<Rightarrow> ('x, 'w) console" where
  "set_vcount1 line w s =
     (let d = dispstat (s_rest s) w;
          target = drop_bit 8 d OR push_bit 1 (d AND 0x80)
      in if line = target
         then (let s1 = set_dispstat w (d OR 4) s
               in if tst (d OR 4) 0x20 then lcd_irq w IRQ_VCOUNT s1 else s1)
         else set_dispstat w (d AND NOT 4) s)"

definition set_vcount :: "u16 \<Rightarrow> ('x, 'w) console \<Rightarrow> ('x, 'w) console" where
  "set_vcount line s =
     set_vcount1 line ARM7 (set_vcount1 line ARM9 (upd_io (\<lambda>i. i\<lparr> vcount := line \<rparr>) s))"

text \<open>One CPU's share of \<^verbatim>\<open>set_hblank\<close> and \<^verbatim>\<open>set_vblank\<close>: the flag, its interrupt enable and
  its interrupt.\<close>

definition set_blank1 :: "u16 \<Rightarrow> u16 \<Rightarrow> nat \<Rightarrow> bool \<Rightarrow> cpu_id \<Rightarrow> ('x, 'w) console \<Rightarrow> ('x, 'w) console" where
  "set_blank1 flag enable irq on w s =
     (let d = dispstat (s_rest s) w in
      if on
      then (let s1 = set_dispstat w (d OR flag) s
            in if tst (d OR flag) enable then lcd_irq w irq s1 else s1)
      else set_dispstat w (d AND NOT flag) s)"

definition set_hblank :: "bool \<Rightarrow> ('x, 'w) console \<Rightarrow> ('x, 'w) console" where
  "set_hblank on s = set_blank1 2 0x10 IRQ_HBLANK on ARM7 (set_blank1 2 0x10 IRQ_HBLANK on ARM9 s)"

definition set_vblank :: "bool \<Rightarrow> ('x, 'w) console \<Rightarrow> ('x, 'w) console" where
  "set_vblank on s = set_blank1 1 0x08 IRQ_VBLANK on ARM7 (set_blank1 1 0x08 IRQ_VBLANK on ARM9 s)"

section \<open>IPC\<close>

definition dsi_apply_ram_size :: "('x, 'w) console \<Rightarrow> ('x, 'w) console" where
  "dsi_apply_ram_size s =
     (let ext = io_scfg_ext (s_rest s);
          size = fld (ext ARM9) 14 3;
          was16 = (2 \<le> fld (ext ARM7) 14 3);
          s1 = upd_io (\<lambda>i. i\<lparr> io_scfg_ext := ext(ARM7 := (ext ARM7 AND NOT 0xC000) OR push_bit 14 size) \<rparr>) s
      in if was16 \<noteq> (2 \<le> size)
         then upd_io (\<lambda>i. i\<lparr> io_bus_calls := io_bus_calls i @ [Update_main_ram] \<rparr>) s1 else s1)"

definition ipc_sync_write :: "cpu_id \<Rightarrow> u16 \<Rightarrow> ('x, 'w) console \<Rightarrow> ('x, 'w) console" where
  "ipc_sync_write w v s =
     (let ext = io_scfg_ext (s_rest s);
          s1 = (if io_is_dsi (s_rest s) \<and> w = ARM7 \<and> \<not> tst v 0x0F00 \<and> tst (ext ARM9 XOR ext ARM7) 0xC000
                then dsi_apply_ram_size s else s);
          s2 = upd_cio w (\<lambda>c. c\<lparr> c_ipc_sync := (c_ipc_sync c AND 0x000F) OR (v AND 0x4F00) \<rparr>) s1;
          s3 = upd_cio (other w)
                 (\<lambda>c. c\<lparr> c_ipc_sync := (c_ipc_sync c AND 0x4F00) OR fld v 8 0xF \<rparr>) s2;
          s4 = (if tst v 0x2000 \<and> tst (c_ipc_sync (cio (other w) s3)) 0x4000
                then request_irq (other w) IRQ_IPC_SYNC s3 else s3)
      in yield w s4)"

text \<open>The words held for the other side: only the ARM9's are.\<close>

definition held :: "cpu_id \<Rightarrow> ('x, 'w) console \<Rightarrow> nat" where
  "held w s = (if w = ARM9 then ipc9_pending_n (s_rest s) else 0)"

definition ipc_fifo_cnt_read :: "cpu_id \<Rightarrow> ('x, 'w) console \<Rightarrow> u16" where
  "ipc_fifo_cnt_read w s =
     (let me = cio w s; them = cio (other w) s in
      (c_fifo_cnt me AND 0x8404)
        OR (if q_empty (c_fifo me) \<and> held w s = 0 then 0x0001 else 0)
        OR (if 16 \<le> q_count (c_fifo me) + held w s then 0x0002 else 0)
        OR (if q_empty (c_fifo them) then 0x0100 else 0)
        OR (if q_full (c_fifo them) then 0x0200 else 0)
        OR (if tst (c_fifo_cnt me) 0x4000 then 0x4000 else 0))"

definition set_fifo :: "cpu_id \<Rightarrow> (ipc_fifo \<Rightarrow> ipc_fifo) \<Rightarrow> ('x, 'w) console \<Rightarrow> ('x, 'w) console" where
  "set_fifo w f = upd_cio w (\<lambda>c. c\<lparr> c_fifo := f (c_fifo c) \<rparr>)"

definition set_fifo_cnt :: "cpu_id \<Rightarrow> (u16 \<Rightarrow> u16) \<Rightarrow> ('x, 'w) console \<Rightarrow> ('x, 'w) console" where
  "set_fifo_cnt w f = upd_cio w (\<lambda>c. c\<lparr> c_fifo_cnt := f (c_fifo_cnt c) \<rparr>)"

definition request_if :: "bool \<Rightarrow> cpu_id \<Rightarrow> nat \<Rightarrow> ('x, 'w) console \<Rightarrow> ('x, 'w) console" where
  "request_if b w n s = (if b then request_irq w n s else s)"

definition flush_send :: "cpu_id \<Rightarrow> ('x, 'w) console \<Rightarrow> ('x, 'w) console" where
  "flush_send w s =
     (let s1 = set_fifo w q_clear s
      in if w = ARM9 then upd_io (\<lambda>i. i\<lparr> ipc9_pending_n := 0 \<rparr>) s1 else s1)"

definition ipc_fifo_cnt_write :: "cpu_id \<Rightarrow> u16 \<Rightarrow> ('x, 'w) console \<Rightarrow> ('x, 'w) console" where
  "ipc_fifo_cnt_write w v s =
     (let was_send_irq = tst (c_fifo_cnt (cio w s)) 0x0004;
          was_recv_irq = tst (c_fifo_cnt (cio w s)) 0x0400;
          s1 = (if tst v 0x0008 then flush_send w s else s);
          s2 = (if tst v 0x4000 then set_fifo_cnt w (\<lambda>c. c AND NOT 0x4000) s1 else s1);
          s3 = set_fifo_cnt w (\<lambda>c. (c AND 0x4000) OR (v AND 0x8404)) s2;
          s4 = request_if (\<not> was_send_irq \<and> tst v 0x0004 \<and> q_empty (c_fifo (cio w s3)) \<and> held w s3 = 0)
                 w IRQ_IPC_SEND_EMPTY s3;
          s5 = request_if (\<not> was_recv_irq \<and> tst v 0x0400 \<and> \<not> q_empty (c_fifo (cio (other w) s4)))
                 w IRQ_IPC_RECV s4
      in request_if (tst v 0x0008 \<and> tst (c_fifo_cnt (cio w s5)) 0x0004) w IRQ_IPC_SEND_EMPTY s5)"

definition ipc_holds :: "cpu_id \<Rightarrow> ('x, 'w) console \<Rightarrow> bool" where
  "ipc_holds w s \<longleftrightarrow> io_defer (s_rest s) \<and> w = ARM9 \<and> \<not> io_is_dsi (s_rest s) \<and> \<not> s_in_dma s \<and> running_is ARM9 s"

definition hold_word :: "u32 \<Rightarrow> ('x, 'w) console \<Rightarrow> ('x, 'w) console" where
  "hold_word v = upd_io (\<lambda>i. i\<lparr> ipc9_pending := (ipc9_pending i)[ipc9_pending_n i := v],
     ipc9_pending_n := ipc9_pending_n i + 1 \<rparr>)"

definition push_word :: "cpu_id \<Rightarrow> u32 \<Rightarrow> ('x, 'w) console \<Rightarrow> ('x, 'w) console" where
  "push_word w v s =
     (let was_empty = q_empty (c_fifo (cio w s)); s1 = set_fifo w (q_push v) s
      in request_if (was_empty \<and> tst (c_fifo_cnt (cio (other w) s1)) 0x0400) (other w) IRQ_IPC_RECV s1)"

definition ipc_fifo_send :: "cpu_id \<Rightarrow> u32 \<Rightarrow> ('x, 'w) console \<Rightarrow> ('x, 'w) console" where
  "ipc_fifo_send w v s =
     (if \<not> tst (c_fifo_cnt (cio w s)) 0x8000 then s
      else if 16 \<le> q_count (c_fifo (cio w s)) + held w s then set_fifo_cnt w (\<lambda>c. c OR 0x4000) s
      else if ipc_holds w s then yield ARM9 (hold_word v s)
      else push_word w v s)"

definition deliver_word :: "u32 \<Rightarrow> ('x, 'w) console \<Rightarrow> ('x, 'w) console" where
  "deliver_word v s =
     (if q_full (c_fifo (cio ARM9 s)) then set_fifo_cnt ARM9 (\<lambda>c. c OR 0x4000) s else push_word ARM9 v s)"

definition ipc_deliver :: "('x, 'w) console \<Rightarrow> ('x, 'w) console" where
  "ipc_deliver s =
     upd_io (\<lambda>i. i\<lparr> ipc9_pending_n := 0 \<rparr>)
       (fold deliver_word (take (ipc9_pending_n (s_rest s)) (ipc9_pending (s_rest s))) s)"

definition ipc_fifo_recv :: "cpu_id \<Rightarrow> ('x, 'w) console \<Rightarrow> u32 \<times> ('x, 'w) console" where
  "ipc_fifo_recv w s =
     (let q = c_fifo (cio (other w) s) in
      if q_empty q then (q_last q, set_fifo_cnt w (\<lambda>c. c OR 0x4000) s)
      else if \<not> tst (c_fifo_cnt (cio w s)) 0x8000 then (q_data q ! q_head q, s)
      else
        (let (v, q') = q_pop q; s1 = set_fifo (other w) (\<lambda>_. q') s
         in (v, request_if (q_empty q' \<and> tst (c_fifo_cnt (cio (other w) s1)) 0x0004 \<and>
                  \<not> (w = ARM7 \<and> ipc9_pending_n (s_rest s1) \<noteq> 0)) (other w) IRQ_IPC_SEND_EMPTY s1)))"

section \<open>Timers\<close>

definition timer_of :: "cpu_id \<Rightarrow> nat \<Rightarrow> ('x, 'w) console \<Rightarrow> timer" where
  "timer_of w idx s = c_timers (cio w s) idx"

definition upd_timer :: "cpu_id \<Rightarrow> nat \<Rightarrow> (timer \<Rightarrow> timer) \<Rightarrow> ('x, 'w) console \<Rightarrow> ('x, 'w) console" where
  "upd_timer w idx f = upd_cio w (\<lambda>c. c\<lparr> c_timers := (c_timers c)(idx := f (c_timers c idx)) \<rparr>)"

definition timer_event_id :: "cpu_id \<Rightarrow> nat \<Rightarrow> nat" where
  "timer_event_id w idx = (if w = ARM9 then ev_timer0 else ev_timer7_0) + idx"

definition timer_param :: "cpu_id \<Rightarrow> nat \<Rightarrow> u32" where
  "timer_param w idx = push_bit 2 (of_nat (cpu_index w)) OR of_nat idx"

definition timer_value :: "cpu_id \<Rightarrow> nat \<Rightarrow> ('x, 'w) console \<Rightarrow> u16" where
  "timer_value w idx s =
     (let t = timer_of w idx s in
      if \<not> t_running t \<or> t_count_up t then t_counter t
      else
        (let elapsed = drop_bit 1 (now s - t_start t); ticks = drop_bit (prescaler_shift t) elapsed
         in ucast (ucast (t_counter t) + ticks)))"

definition timer_schedule :: "cpu_id \<Rightarrow> nat \<Rightarrow> ('x, 'w) console \<Rightarrow> ('x, 'w) console" where
  "timer_schedule w idx s =
     (let t = timer_of w idx s; i = timer_event_id w idx in
      if \<not> t_running t \<or> t_count_up t then cancel i s
      else
        (let ticks_left = (0x10000 :: u64) - ucast (t_counter t);
             cycles = push_bit 1 (push_bit (prescaler_shift t) ticks_left)
         in schedule i (t_start t + cycles) Timer_event (timer_param w idx) s))"

text \<open>An overflow reloads, requests the interrupt and counts the next timer up when it is
  cascaded, which may overflow in turn.\<close>

function timer_overflow :: "cpu_id \<Rightarrow> nat \<Rightarrow> ('x, 'w) console \<Rightarrow> ('x, 'w) console" where
  "timer_overflow w idx s =
     (let s1 = upd_timer w idx (\<lambda>t. t\<lparr> t_counter := t_reload t, t_start := s_firing_at s \<rparr>) s;
          s2 = request_if (tst (t_control (timer_of w idx s1)) 0x40) w (IRQ_TIMER0 + idx) s1;
          n = timer_of w (idx + 1) s2;
          s3 = (if idx < 3 \<and> t_running n \<and> t_count_up n
                then (let s' = upd_timer w (idx + 1) (\<lambda>t. t\<lparr> t_counter := t_counter t + 1 \<rparr>) s2
                      in if t_counter (timer_of w (idx + 1) s') = 0 then timer_overflow w (idx + 1) s' else s')
                else s2)
      in timer_schedule w idx s3)"
  by pat_completeness auto
termination by (relation "measure (\<lambda>(w, idx, s). 3 - idx)") auto

declare timer_overflow.simps [simp del]

text \<open>\<^verbatim>\<open>timer_event\<close>: the parameter carries the CPU and the index.\<close>

definition timer_event :: "u32 \<Rightarrow> ('x, 'w) console \<Rightarrow> ('x, 'w) console" where
  "timer_event prm = timer_overflow (if drop_bit 2 prm = 0 then ARM9 else ARM7) (unat (prm AND 3))"

text \<open>The control write after the overflow that may be due has been fired.\<close>

definition timer_control :: "cpu_id \<Rightarrow> nat \<Rightarrow> u16 \<Rightarrow> ('x, 'w) console \<Rightarrow> ('x, 'w) console" where
  "timer_control w idx v s =
     (let t = timer_of w idx s; was = t_running t; time = now s;
          old_shift = prescaler_shift t;
          elapsed = drop_bit 1 (time - t_start t);
          ticks = drop_bit old_shift elapsed;
          (rem0, t1) = (if was \<and> \<not> t_count_up t
                        then (elapsed - push_bit old_shift ticks,
                              t\<lparr> t_counter := ucast (ucast (t_counter t) + ticks) \<rparr>)
                        else (0, t));
          t2 = t1\<lparr> t_control := v AND 0xC7 \<rparr>;
          new_shift = prescaler_shift t2;
          rm = (if new_shift \<noteq> old_shift then drop_bit (10 - new_shift) (push_bit (10 - old_shift) rem0) else rem0);
          t3 = t2\<lparr> t_start := time - push_bit 1 rm \<rparr>;
          t4 = (if \<not> was \<and> t_running t3 then t3\<lparr> t_counter := t_reload t3, t_start := time \<rparr> else t3)
      in timer_schedule w idx (upd_timer w idx (\<lambda>_. t4) s))"

definition timer_write_control ::
  "('x handler, 'w io_regs) sched_env \<Rightarrow> nat \<Rightarrow> cpu_id \<Rightarrow> nat \<Rightarrow> u16 \<Rightarrow> ('x, 'w) console \<Rightarrow> ('x, 'w) console option" where
  "timer_write_control env fuel w idx v s =
     map_option (timer_control w idx v) (settle env fuel (timer_event_id w idx) s)"

section \<open>Divider and square root against the clock\<close>

definition upd_math :: "(math_unit \<Rightarrow> math_unit) \<Rightarrow> ('x, 'w) console \<Rightarrow> ('x, 'w) console" where
  "upd_math f = upd_io (\<lambda>i. i\<lparr> math := f (math i) \<rparr>)"

definition div_start :: "('x, 'w) console \<Rightarrow> ('x, 'w) console" where
  "div_start s =
     (let at = now s + (if divcnt (math (s_rest s)) AND 3 = 0 then 18 else 34) * 2;
          s1 = upd_math (\<lambda>m. m\<lparr> div_pending := True, div_ready_at := at \<rparr>) s
      in if io_is_dsi (s_rest s1) then schedule ev_div_id at Ev_div 0 s1 else s1)"

definition sqrt_start :: "('x, 'w) console \<Rightarrow> ('x, 'w) console" where
  "sqrt_start s =
     (let at = now s + 13 * 2;
          s1 = upd_math (\<lambda>m. m\<lparr> sqrt_pending := True, sqrt_ready_at := at \<rparr>) s
      in if io_is_dsi (s_rest s1) then schedule ev_sqrt_id at Ev_sqrt 0 s1 else s1)"

definition div_settle :: "('x, 'w) console \<Rightarrow> ('x, 'w) console" where
  "div_settle s =
     (let m = math (s_rest s) in
      if div_pending m \<and> div_ready_at m \<le> now s then upd_math div_done s else s)"

definition sqrt_settle :: "('x, 'w) console \<Rightarrow> ('x, 'w) console" where
  "sqrt_settle s =
     (let m = math (s_rest s) in
      if sqrt_pending m \<and> sqrt_ready_at m \<le> now s then upd_math sqrt_done s else s)"

definition divcnt_read :: "('x, 'w) console \<Rightarrow> u16 \<times> ('x, 'w) console" where
  "divcnt_read s =
     (let s1 = div_settle s; m = math (s_rest s1)
      in (divcnt m OR (if div_pending m then 0x8000 else 0), s1))"

definition sqrtcnt_read :: "('x, 'w) console \<Rightarrow> u16 \<times> ('x, 'w) console" where
  "sqrtcnt_read s =
     (let s1 = sqrt_settle s; m = math (s_rest s1)
      in (sqrtcnt m OR (if sqrt_pending m then 0x8000 else 0), s1))"

section \<open>What the registers do when accessed\<close>

definition ime_write :: "cpu_id \<Rightarrow> u32 \<Rightarrow> ('x, 'w) console \<Rightarrow> ('x, 'w) console" where
  "ime_write w v s = update_irq w (upd_cio w (\<lambda>c. c\<lparr> c_ime := v AND 1 \<rparr>) s)"

definition ie_write :: "cpu_id \<Rightarrow> u32 \<Rightarrow> ('x, 'w) console \<Rightarrow> ('x, 'w) console" where
  "ie_write w v s = update_irq w (upd_cio w (\<lambda>c. c\<lparr> c_ie := v \<rparr>) s)"

definition if_write :: "cpu_id \<Rightarrow> u32 \<Rightarrow> ('x, 'w) console \<Rightarrow> ('x, 'w) console" where
  "if_write w v s =
     (let s1 = update_irq w (upd_cio w (\<lambda>c. c\<lparr> c_if := c_if c AND NOT v \<rparr>) s)
      in if w = ARM9 then check_fifo_irq_fast s1 else s1)"

definition ie2_write :: "u16 \<Rightarrow> ('x, 'w) console \<Rightarrow> ('x, 'w) console" where
  "ie2_write v s =
     (if io_is_dsi (s_rest s) then update_irq ARM7 (upd_io (\<lambda>i. i\<lparr> io_ie2 := ucast (v AND 0x7FF7) \<rparr>) s) else s)"

definition if2_write :: "u16 \<Rightarrow> ('x, 'w) console \<Rightarrow> ('x, 'w) console" where
  "if2_write v s =
     (if io_is_dsi (s_rest s)
      then update_irq ARM7 (upd_io (\<lambda>i. i\<lparr> io_if2 := io_if2 i AND NOT (ucast (v AND 0x7FF7)) \<rparr>) s) else s)"

text \<open>HALTCNT, on the ARM7: halting with an interrupt pending does nothing.\<close>

definition haltcnt_write :: "u8 \<Rightarrow> ('x, 'w) console \<Rightarrow> ('x, 'w) console" where
  "haltcnt_write v s =
     (let m = v AND 0xC0 in
      if m = 0x80 \<or> m = 0xC0
      then (if irq_any ARM7 s then s else upd_cpu_of ARM7 (\<lambda>c. c\<lparr> halted := True \<rparr>) s)
      else s)"

definition dispstat_write :: "cpu_id \<Rightarrow> u16 \<Rightarrow> ('x, 'w) console \<Rightarrow> ('x, 'w) console" where
  "dispstat_write w v s = set_dispstat w ((dispstat (s_rest s) w AND 0x0047) OR (v AND 0xFFB8)) s"

definition reload_write :: "cpu_id \<Rightarrow> nat \<Rightarrow> u16 \<Rightarrow> ('x, 'w) console \<Rightarrow> ('x, 'w) console" where
  "reload_write w idx v = upd_timer w idx (\<lambda>t. t\<lparr> t_reload := v \<rparr>)"

definition set_low :: "u32 \<Rightarrow> u64 \<Rightarrow> u64" where
  "set_low v x = (x AND 0xFFFFFFFF00000000) OR ucast v"

definition set_high :: "u32 \<Rightarrow> u64 \<Rightarrow> u64" where
  "set_high v x = (x AND 0xFFFFFFFF) OR push_bit 32 (ucast v)"

text \<open>32-bit writes to the divider and square-root registers, by word index as in the
  switch of \<^verbatim>\<open>write32_special\<close>; each restarts its unit.  \<open>None\<close> is another register.\<close>

definition math_write32 :: "u32 \<Rightarrow> u32 \<Rightarrow> ('x, 'w) console \<Rightarrow> ('x, 'w) console option" where
  "math_write32 k v s =
     (if k = 0xa0 then Some (div_start (upd_math (\<lambda>m. m\<lparr> divcnt := ucast v AND 3 \<rparr>) s))
      else if k = 0xa4 then Some (div_start (upd_math (\<lambda>m. m\<lparr> div_num := set_low v (div_num m) \<rparr>) s))
      else if k = 0xa5 then Some (div_start (upd_math (\<lambda>m. m\<lparr> div_num := set_high v (div_num m) \<rparr>) s))
      else if k = 0xa6 then Some (div_start (upd_math (\<lambda>m. m\<lparr> div_den := set_low v (div_den m) \<rparr>) s))
      else if k = 0xa7 then Some (div_start (upd_math (\<lambda>m. m\<lparr> div_den := set_high v (div_den m) \<rparr>) s))
      else if k = 0xac then Some (sqrt_start (upd_math (\<lambda>m. m\<lparr> sqrtcnt := ucast v AND 1 \<rparr>) s))
      else if k = 0xae then Some (sqrt_start (upd_math (\<lambda>m. m\<lparr> sqrt_val := set_low v (sqrt_val m) \<rparr>) s))
      else if k = 0xaf then Some (sqrt_start (upd_math (\<lambda>m. m\<lparr> sqrt_val := set_high v (sqrt_val m) \<rparr>) s))
      else None)"

text \<open>32-bit reads: the result registers settle the unit first.\<close>

definition math_read32 :: "u32 \<Rightarrow> ('x, 'w) console \<Rightarrow> (u32 \<times> ('x, 'w) console) option" where
  "math_read32 k s =
     (let m = math (s_rest s); hi = (\<lambda>x :: u64. ucast (drop_bit 32 x) :: u32);
          sd = div_settle s; md = math (s_rest sd); sq = sqrt_settle s in
      if k = 0xa0 then Some (case divcnt_read s of (v, s1) \<Rightarrow> (ucast v, s1))
      else if k = 0xa4 then Some (ucast (div_num m), s)
      else if k = 0xa5 then Some (hi (div_num m), s)
      else if k = 0xa6 then Some (ucast (div_den m), s)
      else if k = 0xa7 then Some (hi (div_den m), s)
      else if k = 0xa8 then Some (ucast (div_quot md), sd)
      else if k = 0xa9 then Some (hi (div_quot md), sd)
      else if k = 0xaa then Some (ucast (div_rem md), sd)
      else if k = 0xab then Some (hi (div_rem md), sd)
      else if k = 0xac then Some (case sqrtcnt_read s of (v, s1) \<Rightarrow> (ucast v, s1))
      else if k = 0xad then Some (sqrt_res (math (s_rest sq)), sq)
      else if k = 0xae then Some (ucast (sqrt_val m), s)
      else if k = 0xaf then Some (hi (sqrt_val m), s)
      else None)"

section \<open>The handlers, and what the scheduler asks of this part\<close>

definition io_call ::
  "('x \<Rightarrow> u32 \<Rightarrow> ('x, 'w) console \<Rightarrow> ('x, 'w) console) \<Rightarrow> 'x handler \<Rightarrow> u32 \<Rightarrow>
   ('x, 'w) console \<Rightarrow> ('x, 'w) console" where
  "io_call foreign fn prm s =
     (case fn of
        Ev_lcd_irq \<Rightarrow> flush_lcd_irq s
      | Timer_event \<Rightarrow> timer_event prm s
      | Ev_div \<Rightarrow> div_settle s
      | Ev_sqrt \<Rightarrow> sqrt_settle s
      | Foreign x \<Rightarrow> foreign x prm s)"

text \<open>The environment of the scheduler with this part of it filled in.\<close>

definition io_env ::
  "('x \<Rightarrow> u32 \<Rightarrow> ('x, 'w) console \<Rightarrow> ('x, 'w) console) \<Rightarrow>
   ('x handler, 'w io_regs) sched_env \<Rightarrow> ('x handler, 'w io_regs) sched_env" where
  "io_env foreign env = env\<lparr> e_call := io_call foreign,
     e_ipc_pending := (\<lambda>s. ipc9_pending_n (s_rest s) \<noteq> 0), e_ipc_deliver := ipc_deliver \<rparr>"

text \<open>The part of \<^verbatim>\<open>Io::reset\<close> that concerns the state above.\<close>

definition io_reset :: "('x, 'w) console \<Rightarrow> ('x, 'w) console" where
  "io_reset = upd_io (\<lambda>i. i\<lparr> io_cpu := (\<lambda>_. zero_cpu_io), io_ie2 := 0, io_if2 := 0,
     ipc9_pending_n := 0, lcd_irq_delay := (if io_is_dsi i then 0 else 4),
     lcd_irq_pending := (\<lambda>_. 0), dispstat := (\<lambda>_. if io_is_dsi i then 0x40 else 0), vcount := 0,
     math := math_zero \<rparr>)"

end
