(* ===== verification/IoSpec.thy ===== *)
theory IoSpec imports IoCore SchedSpec begin

text \<open>
  The interrupt controller and the event handlers of the I/O core: the interrupt line of
  each CPU always says what its registers say, a halted CPU wakes, and the handlers
  keep the contract the scheduler's theorems ask of handlers, so that those theorems hold of
  the machine's own event loop.
\<close>

section \<open>Frames\<close>

lemma rest_queue [simp]:
  "s_rest (upd_cpu_of w f s) = s_rest s" "s_rest (rescan_queue s) = s_rest s"
  "s_firing_at (upd_cpu_of w f s) = s_firing_at s" "s_firing_at (rescan_queue s) = s_firing_at s"
  by (cases w; simp add: rescan_queue_def split: prod.split)+

lemma rest_cut [simp]:
  "s_rest (cut_arm9_at at s) = s_rest s" "s_firing_at (cut_arm9_at at s) = s_firing_at s"
  by (simp_all add: cut_arm9_at_def Let_def)

lemma rest_frame [simp]:
  "s_rest (schedule i at fn prm s) = s_rest s" "s_rest (cancel i s) = s_rest s"
  "s_rest (yield w s) = s_rest s" "s_rest (upd_io g s) = g (s_rest s)"
  "s_firing_at (schedule i at fn prm s) = s_firing_at s" "s_firing_at (cancel i s) = s_firing_at s"
  "s_firing_at (yield w s) = s_firing_at s" "s_firing_at (upd_io g s) = s_firing_at s"
  by (simp_all add: schedule_def cancel_def yield_def upd_io_def Let_def)

lemma cio_frame [simp]:
  "cio v (upd_cio w f s) = (if v = w then f (cio w s) else cio v s)"
  "cio v (upd_cpu_of w g s) = cio v s" "cio v (schedule i at fn prm s) = cio v s"
  "cio v (cancel i s) = cio v s" "cio v (yield w s) = cio v s"
  by (simp_all add: cio_def upd_cio_def)

lemma cpu_of_frame [simp]:
  "cpu_of v (upd_io g s) = cpu_of v s" "cpu_of v (upd_cio w h s) = cpu_of v s"
  "cpu_of v (upd_cpu_of w f s) = (if v = w then f (cpu_of w s) else cpu_of v s)"
  by (cases v; cases w; simp add: upd_io_def upd_cio_def)+

lemma firing_cio [simp]: "s_firing_at (upd_cio w f s) = s_firing_at s"
  by (simp add: upd_cio_def)

lemma same_queue_refl [simp]: "same_queue s s"
  by (simp add: same_queue_def)

lemma same_queue_trans: "same_queue s t \<Longrightarrow> same_queue t u \<Longrightarrow> same_queue s u"
  by (simp add: same_queue_def)

lemma same_queue_io [simp]: "same_queue s (upd_io g s)" "same_queue s (upd_cio w f s)"
  by (simp_all add: same_queue_def upd_io_def upd_cio_def)

lemma update_irq_rest [simp]:
  "s_rest (update_irq w s) = s_rest s" "cio v (update_irq w s) = cio v s"
  "s_firing_at (update_irq w s) = s_firing_at s" "same_queue s (update_irq w s)"
  by (simp_all add: update_irq_def Let_def)

lemma or_bit_set: "tst (x::u32) (push_bit b 1) \<Longrightarrow> x OR push_bit b 1 = x"
  unfolding tst_bit by (rule bit_word_eqI) (simp only: bit_or_iff bit_push1, blast)

text \<open>Whether or not the recomputation is skipped, a request sets its bit and nothing else.\<close>

lemma request_irq_rest:
  "s_rest (request_irq w b s) = s_rest (upd_cio w (\<lambda>c. c\<lparr> c_if := c_if c OR push_bit b 1 \<rparr>) s)"
proof (cases "tst (c_if (cio w s)) (push_bit b 1)")
  case True
  then have "(cio w s)\<lparr> c_if := c_if (cio w s) OR push_bit b 1 \<rparr> = cio w s"
    by (simp only: or_bit_set) simp
  then have "s_rest (upd_cio w (\<lambda>c. c\<lparr> c_if := c_if c OR push_bit b 1 \<rparr>) s) = s_rest s"
    by (simp add: upd_cio_def cio_def fun_upd_idem)
  then show ?thesis by (simp add: request_irq_def)
qed (simp add: request_irq_def)

lemma request_irq_cio:
  "cio v (request_irq w b s) = (if v = w then (cio w s)\<lparr> c_if := c_if (cio w s) OR push_bit b 1 \<rparr> else cio v s)"
  using request_irq_rest [of w b s] by (simp add: cio_def upd_cio_def)

lemma request_irq_frame [simp]:
  "s_firing_at (request_irq w b s) = s_firing_at s" "same_queue s (request_irq w b s)"
  by (auto simp: request_irq_def intro: same_queue_trans [OF same_queue_io(2) update_irq_rest(4)])

lemma request_if_frame [simp]:
  "s_firing_at (request_if p w b s) = s_firing_at s" "same_queue s (request_if p w b s)"
  by (simp_all add: request_if_def)

lemma request_if_cio:
  "cio v (request_if p w b s) =
     (if p \<and> v = w then (cio w s)\<lparr> c_if := c_if (cio w s) OR push_bit b 1 \<rparr> else cio v s)"
  by (simp add: request_if_def request_irq_cio)

section \<open>The interrupt line\<close>

definition line_ok :: "cpu_id \<Rightarrow> ('x, 'w) console \<Rightarrow> bool" where
  "line_ok w s \<longleftrightarrow> irq_pending (hot (cpu_of w s)) = b2w (tst (c_ime (cio w s)) 1 \<and> irq_any w s)"

definition awake7 :: "('x, 'w) console \<Rightarrow> bool" where
  "awake7 s \<longleftrightarrow> \<not> (halted (s_a7 s) \<and> irq_any ARM7 s)"

text \<open>Of a machine of which no soft reset was asked (\<open>up\<close>), the ARM7 is awake as well.\<close>

definition irq_ok :: "bool \<Rightarrow> ('x, 'w) console \<Rightarrow> bool" where
  "irq_ok up s \<longleftrightarrow> line_ok ARM9 s \<and> line_ok ARM7 s \<and> (up \<longrightarrow> awake7 s)"

text \<open>A change that leaves the interrupt registers and the lines alone and halts the ARM7 at
  most where it was halted: what the rest of the machine does between two accesses.\<close>

definition irq_quiet :: "('x, 'w) console \<Rightarrow> ('x, 'w) console \<Rightarrow> bool" where
  "irq_quiet s t \<longleftrightarrow>
     (\<forall>w. c_ime (cio w t) = c_ime (cio w s) \<and> c_ie (cio w t) = c_ie (cio w s) \<and> c_if (cio w t) = c_if (cio w s) \<and>
          irq_pending (hot (cpu_of w t)) = irq_pending (hot (cpu_of w s))) \<and>
     io_is_dsi (s_rest t) = io_is_dsi (s_rest s) \<and> io_ie2 (s_rest t) = io_ie2 (s_rest s) \<and>
     io_if2 (s_rest t) = io_if2 (s_rest s) \<and> (halted (s_a7 t) \<longrightarrow> halted (s_a7 s))"

lemma all_cpu: "(\<forall>w. P w) \<longleftrightarrow> P ARM9 \<and> P ARM7"
  by (metis cpu_id.exhaust)

lemma irq_quiet_ok:
  assumes "irq_quiet s t" "irq_ok up s"
  shows "irq_ok up t"
proof -
  have "irq_any w t = irq_any w s" for w using assms(1) by (simp add: irq_any_def irq_quiet_def)
  then show ?thesis using assms by (auto simp: irq_ok_def line_ok_def awake7_def irq_quiet_def all_cpu)
qed

lemma irq_quiet_trans: "irq_quiet s t \<Longrightarrow> irq_quiet t u \<Longrightarrow> irq_quiet s u"
  by (simp add: irq_quiet_def)

lemma irq_quiet_refl [simp]: "irq_quiet s s"
  by (simp add: irq_quiet_def)

lemma upd_io_a7 [simp]: "s_a7 (upd_io g s) = s_a7 s"
  by (simp add: upd_io_def)

lemma quiet_upd_io:
  assumes "\<And>w. c_ime (io_cpu (g (s_rest s)) w) = c_ime (io_cpu (s_rest s) w) \<and>
      c_ie (io_cpu (g (s_rest s)) w) = c_ie (io_cpu (s_rest s) w) \<and>
      c_if (io_cpu (g (s_rest s)) w) = c_if (io_cpu (s_rest s) w)"
    "io_is_dsi (g (s_rest s)) = io_is_dsi (s_rest s)" "io_ie2 (g (s_rest s)) = io_ie2 (s_rest s)"
    "io_if2 (g (s_rest s)) = io_if2 (s_rest s)"
  shows "irq_quiet s (upd_io g s)"
  using assms by (simp add: irq_quiet_def cio_def)

lemma quiet_upd_cio:
  assumes "\<And>c. c_ime (f c) = c_ime c \<and> c_ie (f c) = c_ie c \<and> c_if (f c) = c_if c"
  shows "irq_quiet s (upd_cio w f s)"
  unfolding upd_cio_def by (rule quiet_upd_io) (simp_all add: assms)

lemma quiet_queue [simp]:
  "irq_quiet s (schedule i at fn prm s)" "irq_quiet s (cancel i s)" "irq_quiet s (yield w s)"
proof -
  have r: "s_a9 (rescan_queue u) = s_a9 u \<and> s_a7 (rescan_queue u) = s_a7 u" for u :: "('x, 'w) console"
    by (simp add: rescan_queue_def split: prod.split)
  have b: "irq_pending (hot (set_budget k c)) = irq_pending (hot c)" "halted (set_budget k c) = halted c"
    "irq_pending (hot (add_budget k c)) = irq_pending (hot c)" "halted (add_budget k c) = halted c" for k c
    by (simp_all add: set_budget_def add_budget_def)
  have t: "irq_pending (hot (s_a9 (cut_arm9_at at u))) = irq_pending (hot (s_a9 u)) \<and> s_a7 (cut_arm9_at at u) = s_a7 u"
    for at and u :: "('x, 'w) console"
    by (simp add: cut_arm9_at_def Let_def b)
  show "irq_quiet s (schedule i at fn prm s)"
    by (simp add: irq_quiet_def all_cpu) (simp add: schedule_def Let_def r t)
  show "irq_quiet s (cancel i s)"
    by (simp add: irq_quiet_def all_cpu) (simp add: cancel_def Let_def r)
  show "irq_quiet s (yield w s)"
    by (simp add: irq_quiet_def all_cpu) (cases w; simp add: yield_def Let_def b)
qed

lemma irq_any_update [simp]: "irq_any v (update_irq w s) = irq_any v s"
  by (simp add: irq_any_def)

lemma update_irq_cpu:
  "v \<noteq> w \<Longrightarrow> cpu_of v (update_irq w s) = cpu_of v s"
  "irq_pending (hot (cpu_of w (update_irq w s))) = b2w (tst (c_ime (cio w s)) 1 \<and> irq_any w s)"
  "halted (cpu_of w (update_irq w s)) =
     (halted (cpu_of w s) \<and> \<not> (irq_any w s \<and> (w = ARM7 \<or> tst (c_ime (cio w s)) 1)))"
  by (auto simp: update_irq_def Let_def)

text \<open>Recomputing one CPU's line after its registers changed restores the invariant.\<close>

lemma update_irq_ok:
  assumes "v = other w" "line_ok v s" "w = ARM9 \<Longrightarrow> up \<Longrightarrow> awake7 s"
  shows "irq_ok up (update_irq w s)"
proof -
  have l: "line_ok w (update_irq w s)" by (simp add: line_ok_def update_irq_cpu)
  have o: "line_ok v (update_irq w s)" 
    using assms(1,2) update_irq_cpu(1) [of v w s] by (cases w) (simp_all add: line_ok_def)
  have a: "up \<longrightarrow> awake7 (update_irq w s)"
    using assms(3) update_irq_cpu(1) [of ARM7 w s] update_irq_cpu(3) [of w s]
    by (cases w) (simp_all add: awake7_def)
  from l o a assms(1) show ?thesis by (cases w) (simp_all add: irq_ok_def)
qed

text \<open>A register write is a change to one CPU's interrupt registers followed by that.\<close>

lemma write_irq_ok:
  assumes "irq_ok up s"
    "\<And>v. v \<noteq> w \<Longrightarrow> io_cpu (g (s_rest s)) v = io_cpu (s_rest s) v"
    "io_is_dsi (g (s_rest s)) = io_is_dsi (s_rest s)"
    "w = ARM9 \<Longrightarrow> io_ie2 (g (s_rest s)) = io_ie2 (s_rest s) \<and> io_if2 (g (s_rest s)) = io_if2 (s_rest s)"
  shows "irq_ok up (update_irq w (upd_io g s))"
proof (rule update_irq_ok [of "other w"])
  have c: "cio (other w) (upd_io g s) = cio (other w) s" using assms(2) [of "other w"] by (cases w) (simp_all add: cio_def)
  have a: "irq_any (other w) (upd_io g s) = irq_any (other w) s"
    using assms(3,4) c by (cases w) (simp_all add: irq_any_def)
  show "line_ok (other w) (upd_io g s)" using assms(1) a c by (cases w) (simp_all add: line_ok_def irq_ok_def)
  show "awake7 (upd_io g s)" if "w = ARM9" up
    using assms(1) a that by (simp add: awake7_def irq_ok_def upd_io_def)
qed simp

lemma write_cio_irq_ok:
  "irq_ok up s \<Longrightarrow> irq_ok up (update_irq w (upd_cio w f s))"
  unfolding upd_cio_def by (rule write_irq_ok) simp_all

section \<open>Every operation keeps the lines right\<close>

lemma request_irq_ok: "irq_ok up s \<Longrightarrow> irq_ok up (request_irq w b s)"
  by (simp add: request_irq_def write_cio_irq_ok)

lemma request_if_ok: "irq_ok up s \<Longrightarrow> irq_ok up (request_if p w b s)"
  by (simp add: request_if_def request_irq_ok)

lemma request_irq2_ok: "irq_ok up s \<Longrightarrow> irq_ok up (request_irq2 b s)"
  unfolding request_irq2_def by (rule write_irq_ok) simp_all

lemma set_irq_line_ok: "irq_ok up s \<Longrightarrow> irq_ok up (set_irq_line w b on s)"
  by (simp add: set_irq_line_def request_irq_ok write_cio_irq_ok)

lemma check_fifo_irq_ok: "irq_ok up s \<Longrightarrow> irq_ok up (check_fifo_irq_fast s)"
  by (simp add: check_fifo_irq_fast_def check_fifo_irq_def set_irq_line_ok)

lemma quiet_dispstat: "irq_quiet s (set_dispstat w v s)"
  unfolding set_dispstat_def by (rule quiet_upd_io) simp_all

lemmas dispstat_ok = irq_quiet_ok [OF quiet_dispstat]

lemma lcd_irq_ok: "irq_ok up s \<Longrightarrow> irq_ok up (lcd_irq w b s)"
  by (auto simp: lcd_irq_def Let_def request_irq_ok intro!: irq_quiet_ok [OF quiet_queue(1)]
      irq_quiet_ok [OF quiet_upd_io])

lemma flush_one_ok: "irq_ok up s \<Longrightarrow> irq_ok up (flush_one w m s)"
proof -
  have "irq_ok up s \<Longrightarrow> irq_ok up (fold (\<lambda>b s. if bit m b then request_irq w b s else s) bs s)" for bs
    by (induction bs arbitrary: s) (simp_all add: request_irq_ok)
  then show "irq_ok up s \<Longrightarrow> irq_ok up (flush_one w m s)" by (simp add: flush_one_def del: fold_simps)
qed

lemma flush_lcd_irq_ok: "irq_ok up s \<Longrightarrow> irq_ok up (flush_lcd_irq s)"
  by (auto simp: flush_lcd_irq_def Let_def flush_one_ok intro!: irq_quiet_ok [OF quiet_upd_io])

lemma set_vcount_ok: "irq_ok up s \<Longrightarrow> irq_ok up (set_vcount line s)"
proof -
  have one: "irq_ok up s \<Longrightarrow> irq_ok up (set_vcount1 line w s)" for w and s :: "('x, 'w) console"
    by (simp add: set_vcount1_def Let_def dispstat_ok lcd_irq_ok)
  show "irq_ok up s \<Longrightarrow> irq_ok up (set_vcount line s)"
    unfolding set_vcount_def by (intro one irq_quiet_ok [OF quiet_upd_io]) simp_all
qed

lemma set_blank1_ok: "irq_ok up s \<Longrightarrow> irq_ok up (set_blank1 flag en irq on w s)"
  by (simp add: set_blank1_def Let_def dispstat_ok lcd_irq_ok)

lemma blanks_ok: "irq_ok up s \<Longrightarrow> irq_ok up (set_hblank on s)" "irq_ok up s \<Longrightarrow> irq_ok up (set_vblank on s)"
  by (simp_all add: set_hblank_def set_vblank_def set_blank1_ok)

lemma quiet_ram_size: "irq_quiet s (dsi_apply_ram_size s)"
  by (auto simp: dsi_apply_ram_size_def Let_def intro!: quiet_upd_io irq_quiet_trans [OF quiet_upd_io quiet_upd_io])

lemma sync_ok: "irq_ok up s \<Longrightarrow> irq_ok up (ipc_sync_write w v s)"
proof -
  assume ok: "irq_ok up s"
  let ?s1 = "if io_is_dsi (s_rest s) \<and> w = ARM7 \<and> \<not> tst v 0x0F00 \<and>
      tst (io_scfg_ext (s_rest s) ARM9 XOR io_scfg_ext (s_rest s) ARM7) 0xC000 then dsi_apply_ram_size s else s"
  have "irq_quiet s ?s1" by (simp add: quiet_ram_size)
  with ok have "irq_ok up ?s1" by (rule irq_quiet_ok [rotated])
  then show ?thesis
    unfolding ipc_sync_write_def Let_def if_distrib [of "request_irq _ _"]
    by (auto intro!: irq_quiet_ok [OF quiet_queue(3)] request_irq_ok irq_quiet_ok [OF quiet_upd_cio] simp del: if_split)
qed

lemma quiet_fifo: "irq_quiet s (set_fifo w f s)" "irq_quiet s (set_fifo_cnt w g s)"
  by (simp_all add: set_fifo_def set_fifo_cnt_def quiet_upd_cio)

lemmas fifo_irq_ok = irq_quiet_ok [OF quiet_fifo(1)] irq_quiet_ok [OF quiet_fifo(2)]

lemma quiet_held: "irq_quiet s (upd_io (\<lambda>i. i\<lparr> ipc9_pending_n := n \<rparr>) s)"
  by (rule quiet_upd_io) simp_all

lemma quiet_hold_word: "irq_quiet s (hold_word v s)"
  unfolding hold_word_def by (rule quiet_upd_io) simp_all

lemma flush_send_ok: "irq_ok up s \<Longrightarrow> irq_ok up (flush_send w s)"
  by (simp add: flush_send_def Let_def fifo_irq_ok irq_quiet_ok [OF quiet_held])

lemma cnt_write_ok: "irq_ok up s \<Longrightarrow> irq_ok up (ipc_fifo_cnt_write w v s)"
  unfolding ipc_fifo_cnt_write_def Let_def
  by (intro request_if_ok fifo_irq_ok) (simp add: fifo_irq_ok flush_send_ok)

lemma push_word_ok: "irq_ok up s \<Longrightarrow> irq_ok up (push_word w v s)"
  by (simp add: push_word_def Let_def request_if_ok fifo_irq_ok)

lemma send_ok: "irq_ok up s \<Longrightarrow> irq_ok up (ipc_fifo_send w v s)"
  by (simp add: ipc_fifo_send_def fifo_irq_ok push_word_ok irq_quiet_ok [OF quiet_queue(3)]
      irq_quiet_ok [OF quiet_hold_word])

lemma deliver_words_ok: "irq_ok up s \<Longrightarrow> irq_ok up (fold deliver_word vs s)"
  by (induction vs arbitrary: s) (simp_all add: deliver_word_def fifo_irq_ok push_word_ok)

lemma deliver_ok: "irq_ok up s \<Longrightarrow> irq_ok up (ipc_deliver s)"
  unfolding ipc_deliver_def by (intro irq_quiet_ok [OF quiet_held] deliver_words_ok)

lemma recv_ok: "irq_ok up s \<Longrightarrow> irq_ok up (snd (ipc_fifo_recv w s))"
  by (simp add: ipc_fifo_recv_def Let_def split_beta fifo_irq_ok request_if_ok)

lemma quiet_timer: "irq_quiet s (upd_timer w idx f s)" "irq_quiet s (timer_schedule w idx s)"
  by (simp_all add: upd_timer_def timer_schedule_def Let_def quiet_upd_cio)

lemmas timer_irq_ok = irq_quiet_ok [OF quiet_timer(1)] irq_quiet_ok [OF quiet_timer(2)]

text \<open>The two halves of an overflow before the cascade.\<close>

definition reload_timer :: "cpu_id \<Rightarrow> nat \<Rightarrow> ('x, 'w) console \<Rightarrow> ('x, 'w) console" where
  "reload_timer w idx s =
     (let s1 = upd_timer w idx (\<lambda>t. t\<lparr> t_counter := t_reload t, t_start := s_firing_at s \<rparr>) s
      in request_if (tst (t_control (timer_of w idx s1)) 0x40) w (IRQ_TIMER0 + idx) s1)"

definition bump_timer :: "cpu_id \<Rightarrow> nat \<Rightarrow> ('x, 'w) console \<Rightarrow> ('x, 'w) console" where
  "bump_timer w idx = upd_timer w idx (\<lambda>t. t\<lparr> t_counter := t_counter t + 1 \<rparr>)"

definition cascades :: "cpu_id \<Rightarrow> nat \<Rightarrow> ('x, 'w) console \<Rightarrow> bool" where
  "cascades w idx s \<longleftrightarrow> idx < 3 \<and> t_running (timer_of w (idx + 1) s) \<and> t_count_up (timer_of w (idx + 1) s)"

lemma timer_overflow_eq:
  "timer_overflow w idx s =
     (let r = reload_timer w idx s; b = bump_timer w (idx + 1) r in
      timer_schedule w idx
        (if cascades w idx r
         then if t_counter (timer_of w (idx + 1) b) = 0 then timer_overflow w (idx + 1) b else b
         else r))"
  unfolding timer_overflow.simps [of w idx s]
  unfolding Let_def reload_timer_def bump_timer_def cascades_def ..

text \<open>An overflow is a chain of reloads and bumps, each followed by its rescheduling.\<close>

lemma overflow_induct [consumes 1, case_names step]:
  assumes "idx \<le> 3"
    and "\<And>idx s. idx \<le> 3 \<Longrightarrow>
      (cascades w idx (reload_timer w idx s) \<Longrightarrow>
        P (idx + 1) (bump_timer w (idx + 1) (reload_timer w idx s))) \<Longrightarrow> P idx s"
  shows "P idx s"
  using assms(1)
proof (induction "3 - idx" arbitrary: idx s)
  case (0 idx s)
  have "\<not> cascades w idx t" for t using 0 by (simp add: cascades_def)
  then show ?case using assms(2) [OF "0.prems", of s] by blast
next
  case (Suc k idx s)
  have "P (idx + 1) t" if "cascades w idx u" for t u
    using that Suc.hyps by (intro Suc.hyps(1)) (simp_all add: cascades_def)
  then show ?case by (rule assms(2) [OF Suc.prems])
qed

lemma quiet_bump: "irq_ok up s \<Longrightarrow> irq_ok up (bump_timer w idx s)"
  by (simp add: bump_timer_def timer_irq_ok)

lemma reload_ok: "irq_ok up s \<Longrightarrow> irq_ok up (reload_timer w idx s)"
  by (simp add: reload_timer_def Let_def request_if_ok timer_irq_ok)

lemma overflow_ok: "idx \<le> 3 \<Longrightarrow> irq_ok up s \<Longrightarrow> irq_ok up (timer_overflow w idx s)"
proof (induction idx s rule: overflow_induct [where w = w])
  case (step idx s)
  note r = reload_ok [OF step.prems, of w idx]
  have "irq_ok up (timer_overflow w (idx + 1) (bump_timer w (idx + 1) (reload_timer w idx s)))"
    if "cascades w idx (reload_timer w idx s)"
    using step.IH [OF that] quiet_bump [OF r] .
  then show ?case
    unfolding timer_overflow_eq [of w idx s] Let_def by (auto intro!: timer_irq_ok(2) r quiet_bump)
qed

lemma timer_control_ok: "irq_ok up s \<Longrightarrow> irq_ok up (timer_control w idx v s)"
  by (simp add: timer_control_def Let_def split_beta timer_irq_ok)

lemma quiet_math: "irq_quiet s (upd_math f s)"
  unfolding upd_math_def by (rule quiet_upd_io) simp_all

lemmas math_irq_ok = irq_quiet_ok [OF quiet_math]

lemma math_ok:
  "irq_ok up s \<Longrightarrow> irq_ok up (div_start s)" "irq_ok up s \<Longrightarrow> irq_ok up (sqrt_start s)"
  "irq_ok up s \<Longrightarrow> irq_ok up (div_settle s)" "irq_ok up s \<Longrightarrow> irq_ok up (sqrt_settle s)"
  by (simp_all add: div_start_def sqrt_start_def div_settle_def sqrt_settle_def Let_def math_irq_ok
      irq_quiet_ok [OF quiet_queue(1)])

lemma math_write_ok: "irq_ok up s \<Longrightarrow> math_write32 k v s = Some t \<Longrightarrow> irq_ok up t"
  by (auto simp: math_write32_def intro!: math_ok math_irq_ok split: if_splits)

lemma math_read_ok: "irq_ok up s \<Longrightarrow> math_read32 k s = Some (v, t) \<Longrightarrow> irq_ok up t"
  by (auto simp: math_read32_def Let_def divcnt_read_def sqrtcnt_read_def intro!: math_ok split: if_splits)

lemma registers_ok:
  "irq_ok up s \<Longrightarrow> irq_ok up (ime_write w x s)" "irq_ok up s \<Longrightarrow> irq_ok up (ie_write w x s)"
  "irq_ok up s \<Longrightarrow> irq_ok up (if_write w x s)" "irq_ok up s \<Longrightarrow> irq_ok up (dispstat_write w y s)"
  "irq_ok up s \<Longrightarrow> irq_ok up (reload_write w idx y s)"
  by (simp_all add: ime_write_def ie_write_def if_write_def Let_def write_cio_irq_ok check_fifo_irq_ok
      dispstat_write_def dispstat_ok reload_write_def timer_irq_ok)

lemma registers2_ok: "irq_ok up s \<Longrightarrow> irq_ok up (ie2_write y s)" "irq_ok up s \<Longrightarrow> irq_ok up (if2_write y s)"
  unfolding ie2_write_def if2_write_def by (auto intro!: write_irq_ok)

lemma halt_ok: "irq_ok up s \<Longrightarrow> irq_ok up (haltcnt_write x s)"
  by (simp add: haltcnt_write_def Let_def irq_ok_def line_ok_def awake7_def irq_any_def cio_def)

section \<open>Reachable states of the controller\<close>

text \<open>What happens to the machine between two looks at it: the accesses and events of this
  part, and whatever else the machine does (\<open>step_rest\<close>).  The soft reset of a DSi, asked of the power
  management chips (\<^verbatim>\<open>spi_transfer\<close>, \<^verbatim>\<open>bptwl_write\<close>), halts the ARM7 until it is carried out, whatever is pending;
  \<open>io_reachable\<close> remembers whether one was asked.\<close>

definition soft_reset_halt :: "('x, 'w) console \<Rightarrow> ('x, 'w) console" where
  "soft_reset_halt = upd_cpu_of ARM7 (\<lambda>c. c\<lparr> halted := True \<rparr>)"

lemma soft_reset_ok: "irq_ok up s \<Longrightarrow> irq_ok False (soft_reset_halt s)"
  by (simp add: soft_reset_halt_def irq_ok_def line_ok_def irq_any_def cio_def)

inductive io_step :: "('x, 'w) console \<Rightarrow> ('x, 'w) console \<Rightarrow> bool" where
  step_rest: "irq_quiet s t \<Longrightarrow> io_step s t"
| step_request: "io_step s (request_irq w b s)"
| step_request2: "io_step s (request_irq2 b s)"
| step_line: "io_step s (set_irq_line w b on s)"
| step_lcd: "io_step s (flush_lcd_irq s)"
| step_vcount: "io_step s (set_vcount line s)"
| step_hblank: "io_step s (set_hblank on s)"
| step_vblank: "io_step s (set_vblank on s)"
| step_sync: "io_step s (ipc_sync_write w y s)"
| step_fifo_cnt: "io_step s (ipc_fifo_cnt_write w y s)"
| step_send: "io_step s (ipc_fifo_send w x s)"
| step_deliver: "io_step s (ipc_deliver s)"
| step_recv: "io_step s (snd (ipc_fifo_recv w s))"
| step_timer: "idx \<le> 3 \<Longrightarrow> io_step s (timer_overflow w idx s)"
| step_control: "io_step s (timer_control w idx y s)"
| step_math: "math_write32 k x s = Some t \<Longrightarrow> io_step s t"
| step_math_read: "math_read32 k s = Some (x, t) \<Longrightarrow> io_step s t"
| step_ime: "io_step s (ime_write w x s)"
| step_ie: "io_step s (ie_write w x s)"
| step_if: "io_step s (if_write w x s)"
| step_ie2: "io_step s (ie2_write y s)"
| step_if2: "io_step s (if2_write y s)"
| step_halt: "io_step s (haltcnt_write z s)"

inductive io_reachable :: "bool \<Rightarrow> ('x, 'w) console \<Rightarrow> bool" where
  reach_reset: "irq_pending (hot (s_a9 s)) = 0 \<Longrightarrow> irq_pending (hot (s_a7 s)) = 0 \<Longrightarrow> \<not> halted (s_a7 s) \<Longrightarrow>
    io_reachable False (io_reset s)"
| reach_step: "io_reachable soft s \<Longrightarrow> io_step s t \<Longrightarrow> io_reachable soft t"
| reach_soft: "io_reachable soft s \<Longrightarrow> io_reachable True (soft_reset_halt s)"

lemma io_step_ok: "io_step s t \<Longrightarrow> irq_ok up s \<Longrightarrow> irq_ok up t"
  by (induction rule: io_step.induct)
    (auto intro: irq_quiet_ok request_irq_ok request_irq2_ok set_irq_line_ok flush_lcd_irq_ok set_vcount_ok blanks_ok
      sync_ok cnt_write_ok send_ok deliver_ok recv_ok overflow_ok timer_control_ok math_write_ok math_read_ok
      registers_ok registers2_ok halt_ok)

lemma io_reachable_ok: "io_reachable soft s \<Longrightarrow> irq_ok (\<not> soft) s"
proof (induction rule: io_reachable.induct)
  case (reach_reset s)
  then show ?case
    by (simp add: irq_ok_def line_ok_def awake7_def irq_any_def cio_def io_reset_def zero_cpu_io_def)
next
  case (reach_step soft s t)
  then show ?case by (simp add: io_step_ok)
next
  case (reach_soft soft s)
  then show ?case using soft_reset_ok by simp
qed

text \<open>C34: However the interrupt registers have been written, interrupts requested, masked and
  acknowledged, whatever the display, the IPC port, the timers and the rest of the machine
  did in between, the line into each CPU is raised exactly when its master enable is set and
  one of its enabled interrupts is pending (for the ARM7 of a DSi in either pair of registers); and
  unless a soft reset was asked, the ARM7 is never asleep with an enabled interrupt of either pair pending.\<close>

theorem irq_line_exact:
  assumes "io_reachable soft s"
  shows "irq_pending (hot (cpu_of w s)) = b2w (tst (c_ime (cio w s)) 1 \<and>
      (c_ie (cio w s) AND c_if (cio w s) \<noteq> 0 \<or>
       w = ARM7 \<and> io_is_dsi (s_rest s) \<and> io_ie2 (s_rest s) AND io_if2 (s_rest s) \<noteq> 0)) \<and>
    (soft \<or> \<not> (halted (s_a7 s) \<and>
      (c_ie (cio ARM7 s) AND c_if (cio ARM7 s) \<noteq> 0 \<or> io_is_dsi (s_rest s) \<and> io_ie2 (s_rest s) AND io_if2 (s_rest s) \<noteq> 0)))"
  using io_reachable_ok [OF assms]
  by (cases w) (auto simp: irq_ok_def line_ok_def awake7_def irq_any_def)

section \<open>What the handlers do to the event queue\<close>

lemma queue_act_trans: "queue_act P t u \<Longrightarrow> queue_act P s t \<Longrightarrow> queue_act P s u"
  by (induction rule: queue_act.induct) (auto intro: queue_act.intros)

lemma act_same: "same_queue s t \<Longrightarrow> queue_act P s t"
  by (rule act_other [OF act_none])

lemma timer_of_frame [simp]:
  "timer_of v j (upd_timer w idx f s) = (if v = w \<and> j = idx then f (timer_of w idx s) else timer_of v j s)"
  "timer_of v j (request_if p w b s) = timer_of v j s" "timer_of v j (schedule i at fn prm s) = timer_of v j s"
  "timer_of v j (cancel i s) = timer_of v j s"
  by (simp_all add: timer_of_def upd_timer_def request_if_cio)

lemma timer_schedule_frame [simp]:
  "timer_of v j (timer_schedule w idx s) = timer_of v j s"
  "s_firing_at (timer_schedule w idx s) = s_firing_at s" "s_rest (timer_schedule w idx s) = s_rest s"
  by (simp_all add: timer_schedule_def Let_def)

lemma upd_timer_frame [simp]:
  "s_firing_at (upd_timer w idx f s) = s_firing_at s" "same_queue s (upd_timer w idx f s)"
  by (simp_all add: upd_timer_def)

lemma reload_frame:
  "s_firing_at (reload_timer w idx s) = s_firing_at s" "same_queue s (reload_timer w idx s)"
  "timer_of w j (reload_timer w idx s) =
     (if j = idx then (timer_of w idx s)\<lparr> t_counter := t_reload (timer_of w idx s), t_start := s_firing_at s \<rparr>
      else timer_of w j s)"
  by (auto simp: reload_timer_def Let_def simp del: timer_of_frame(1) intro: same_queue_trans [OF upd_timer_frame(2) request_if_frame(2)])
    simp_all

lemma bump_frame:
  "s_firing_at (bump_timer w idx s) = s_firing_at s" "same_queue s (bump_timer w idx s)"
  "timer_of w j (bump_timer w idx s) =
     (if j = idx then (timer_of w idx s)\<lparr> t_counter := t_counter (timer_of w idx s) + 1 \<rparr> else timer_of w j s)"
  by (simp_all add: bump_timer_def)

lemma overflow_frame:
  "idx \<le> 3 \<Longrightarrow> s_firing_at (timer_overflow w idx s) = s_firing_at s \<and>
     (\<forall>j<idx. timer_of w j (timer_overflow w idx s) = timer_of w j s)"
proof (induction idx s rule: overflow_induct [where w = w])
  case (step idx s)
  then show ?case
    by (simp add: timer_overflow_eq [of w idx s] Let_def reload_frame bump_frame)
qed

text \<open>The cycles until a running timer overflows: at least two, and short of the horizon.\<close>

definition timer_cycles :: "timer \<Rightarrow> u64" where
  "timer_cycles t = push_bit 1 (push_bit (prescaler_shift t) ((0x10000 :: u64) - ucast (t_counter t)))"

lemma shift_le: "prescaler_shift t \<le> 10"
proof -
  have "unat (t_control t AND 3) \<in> {0, 1, 2, 3}"
    using word_and_le1 [of "t_control t" 3] by (auto simp: word_le_nat_alt)
  then show ?thesis by (auto simp: prescaler_shift_def)
qed

lemma unat_timer_cycles:
  "unat (timer_cycles t) = 2 * 2 ^ prescaler_shift t * (0x10000 - unat (t_counter t))"
  "unat (timer_cycles t) \<le> 2 ^ 27" "2 \<le> unat (timer_cycles t)"
proof -
  have c: "unat (t_counter t) < 0x10000" using unsigned_less [of "t_counter t", where 'a = nat] by simp
  have u: "unat (ucast (t_counter t) :: u64) = unat (t_counter t)"
    using c by (simp add: unsigned_ucast_eq take_bit_nat_eq_self)
  have d: "unat ((0x10000 :: u64) - ucast (t_counter t)) = 0x10000 - unat (t_counter t)"
    using c u by (subst unat_sub) (simp_all add: word_le_nat_alt)
  have le: "2 * 2 ^ prescaler_shift t * (0x10000 - unat (t_counter t)) \<le> 2 * 2 ^ 10 * 0x10000"
    using shift_le [of t] by (intro mult_le_mono power_increasing) simp_all
  have "(0x10000 :: u64) - ucast (t_counter t) = of_nat (0x10000 - unat (t_counter t))"
    unfolding d [symmetric] by simp
  then have "timer_cycles t = of_nat (2 * 2 ^ prescaler_shift t * (0x10000 - unat (t_counter t)))"
    by (simp add: timer_cycles_def push_bit_eq_mult ac_simps)
  then show "unat (timer_cycles t) = 2 * 2 ^ prescaler_shift t * (0x10000 - unat (t_counter t))"
    using le by (simp only: unsigned_of_nat) (simp add: take_bit_nat_eq_self)
  with le show "unat (timer_cycles t) \<le> 2 ^ 27" by simp
  have "1 \<le> (2::nat) ^ prescaler_shift t" by simp
  then have "2 * 1 * 1 \<le> 2 * 2 ^ prescaler_shift t * (0x10000 - unat (t_counter t))"
    using c by (intro mult_le_mono) simp_all
  then show "2 \<le> unat (timer_cycles t)" by (simp only: \<open>unat (timer_cycles t) = _\<close>)
qed

lemma unat_add64: "unat (x::u64) + unat y < 2 ^ 64 \<Longrightarrow> unat (x + y) = unat x + unat y"
  by (simp add: unat_word_ariths)

lemma later_cycles: "later x (x + timer_cycles t)"
proof -
  have "unat (x + timer_cycles t) = unat x + unat (timer_cycles t)" if "x < horizon"
    using that unat_timer_cycles(2) [of t] by (intro unat_add64) (simp add: word_less_nat_alt horizon_def)
  then show ?thesis
    using unat_timer_cycles(3) [of t] by (auto simp: later_def word_less_nat_alt)
qed

lemma schedule_act:
  assumes "idx \<le> 3" "t_start (timer_of w idx s) = f"
  shows "queue_act (later f) s (timer_schedule w idx s)"
proof -
  let ?t = "timer_of w idx s"
  have "timer_event_id w idx < EVENT_COUNT"
    using assms(1) by (simp add: timer_event_id_def ev_timer0_def ev_timer7_0_def EVENT_COUNT_def)
  then have "queue_act (later f) s (schedule (timer_event_id w idx) (t_start ?t + timer_cycles ?t) fn prm s)" for fn prm
    using later_cycles [of f ?t] assms(2) by (intro act_schedule act_none) simp_all
  then show ?thesis
    by (simp add: timer_schedule_def Let_def timer_cycles_def act_cancel act_none)
qed

lemma overflow_act: "idx \<le> 3 \<Longrightarrow> queue_act (later (s_firing_at s)) s (timer_overflow w idx s)"
proof (induction idx s rule: overflow_induct [where w = w])
  case (step idx s)
  let ?r = "reload_timer w idx s"
  let ?b = "bump_timer w (idx + 1) ?r"
  let ?n = "if cascades w idx ?r
      then if t_counter (timer_of w (idx + 1) ?b) = 0 then timer_overflow w (idx + 1) ?b else ?b else ?r"
  have r: "queue_act (later (s_firing_at s)) s ?r" "queue_act (later (s_firing_at s)) s ?b"
    using act_same [OF reload_frame(2)] act_same [OF same_queue_trans [OF reload_frame(2) bump_frame(2)]] by blast+
  have IH: "queue_act (later (s_firing_at s)) ?b (timer_overflow w (idx + 1) ?b)" if "cascades w idx ?r"
    using step.IH [OF that] by (simp add: bump_frame reload_frame)
  have n: "queue_act (later (s_firing_at s)) s ?n"
    using r queue_act_trans [OF IH r(2)] by simp
  have "t_start (timer_of w idx ?n) = s_firing_at s"
    using overflow_frame [of "idx + 1" w ?b] by (simp add: cascades_def reload_frame bump_frame)
  from queue_act_trans [OF schedule_act [OF step.hyps this] n] show ?case
    unfolding timer_overflow_eq [of w idx s] Let_def .
qed

lemma flush_one_same: "same_queue s (flush_one w m s)"
proof -
  have "same_queue s (fold (\<lambda>b s. if bit m b then request_irq w b s else s) bs s)" for bs
    by (induction bs arbitrary: s) (auto intro: same_queue_trans [OF request_irq_frame(2)])
  then show ?thesis by (simp add: flush_one_def del: fold_simps)
qed

lemma flush_same: "same_queue s (flush_lcd_irq s)"
proof -
  let ?s1 = "flush_one ARM9 (lcd_irq_pending (s_rest s) ARM9) s"
  let ?s2 = "flush_one ARM7 (lcd_irq_pending (s_rest ?s1) ARM7) ?s1"
  have "same_queue s ?s2" using same_queue_trans [OF flush_one_same flush_one_same] .
  from same_queue_trans [OF this same_queue_io(1)] show ?thesis unfolding flush_lcd_irq_def Let_def .
qed

lemma set_fifo_same: "same_queue s (set_fifo w f s)" "same_queue s (set_fifo_cnt w g s)"
  by (simp_all add: set_fifo_def set_fifo_cnt_def)

lemma push_word_same: "same_queue s (push_word w v s)"
  unfolding push_word_def Let_def by (rule same_queue_trans [OF set_fifo_same(1) request_if_frame(2)])

lemma deliver_same: "same_queue s (ipc_deliver s)"
proof -
  have "same_queue s (fold deliver_word vs s)" for vs
    by (induction vs arbitrary: s)
      (auto simp: deliver_word_def intro: set_fifo_same same_queue_trans [OF set_fifo_same(2)] same_queue_trans [OF push_word_same])
  from same_queue_trans [OF this same_queue_io(1)] show ?thesis unfolding ipc_deliver_def .
qed

lemma settle_same: "same_queue s (div_settle s)" "same_queue s (sqrt_settle s)"
  by (simp_all add: div_settle_def sqrt_settle_def Let_def upd_math_def)

text \<open>The handlers of this part meet the contract of \<open>SchedSpec\<close>, whenever those of the
  other devices do.\<close>

definition foreign_later :: "('x \<Rightarrow> u32 \<Rightarrow> ('x, 'w) console \<Rightarrow> ('x, 'w) console) \<Rightarrow> bool" where
  "foreign_later foreign \<longleftrightarrow> (\<forall>x prm s. queue_act (later (s_firing_at s)) s (foreign x prm s))"

lemma timer_param_idx: "unat (prm AND 3 :: u32) \<le> 3"
  using word_and_le1 [of prm 3] by (simp add: word_le_nat_alt)

lemma io_env_later:
  assumes "foreign_later foreign"
  shows "reschedules_later (io_env foreign env)"
proof -
  have "queue_act (later (s_firing_at s)) s (io_call foreign fn prm s)" for fn prm s
  proof (cases fn)
    case Timer_event
    then show ?thesis by (simp add: io_call_def timer_event_def overflow_act timer_param_idx)
  next
    case (Foreign x)
    then show ?thesis using assms by (simp add: io_call_def foreign_later_def)
  qed (simp_all add: io_call_def act_same flush_same settle_same)
  then show ?thesis
    by (simp add: reschedules_later_def handlers_act_def io_env_def act_same deliver_same)
qed

text \<open>C35: The console's own event loop returns and leaves nothing due: with the timers, the display
  interrupt, the divider and the square root calling their real handlers and the held IPC
  words delivered first, \<^verbatim>\<open>fire_due\<close> comes back (if the other devices reschedule later
  than the deadline they are called for), and then no armed event is due.\<close>

theorem console_events_settle:
  assumes "foreign_later foreign" "queue_ok s" "s_now s < horizon"
  shows "\<exists>fuel t. fire_due (io_env foreign env) fuel s = Some t \<and> s_now t = s_now s \<and>
    (\<forall>i. armed i t \<longrightarrow> s_now t < s_at t i)"
proof -
  note act = io_env_later [OF assms(1), of env]
  obtain fuel t where t: "fire_due (io_env foreign env) fuel s = Some t"
    using fire_due_comes_back [OF act assms(2,3)] by blast
  have "handlers_act later (io_env foreign env)" using act by (simp add: reschedules_later_def)
  from fire_due_settles [OF this assms(2) t] t show ?thesis by blast
qed

section \<open>Concrete runs\<close>

text \<open>A console after power on, with nothing beyond this part.\<close>

definition io_zero :: "unit io_regs" where
  "io_zero = \<lparr> io_cpu = (\<lambda>_. zero_cpu_io), io_is_dsi = False, io_defer = True, io_ie2 = 0, io_if2 = 0,
     io_gxstat = 0, io_scfg_ext = (\<lambda>_. 0), io_bus_calls = [], ipc9_pending = replicate 16 0, ipc9_pending_n = 0,
     lcd_irq_delay = 4, lcd_irq_pending = (\<lambda>_. 0), dispstat = (\<lambda>_. 0), vcount = 0, math = math_zero,
     io_more = () \<rparr>"

definition console0 :: "(unit, unit) console" where
  "console0 = sched_with io_zero"

lemma console0_fields [simp]:
  "s_a9 console0 = zero_cpu" "s_a7 console0 = zero_cpu\<lparr> which := ARM7 \<rparr>" "s_rest console0 = io_zero"
  "s_now console0 = 0" "s_running console0 = None"
  by (simp_all add: console0_def sched_with_def)

lemma console0_ok: "queue_ok console0"
  using reset_ok [of console0] by (simp add: console0_def with_reset)

text \<open>Timer 0's interrupt, enabled and requested.\<close>

definition timer_irq_console :: "(unit, unit) console" where
  "timer_irq_console = request_irq ARM9 IRQ_TIMER0 (ie_write ARM9 8 (ime_write ARM9 1 (io_reset console0)))"

lemma timer_irq_reachable: "io_reachable False timer_irq_console"
  unfolding timer_irq_console_def
  by (intro reach_step [OF _ step_request] reach_step [OF _ step_ie] reach_step [OF _ step_ime] reach_reset)
    (simp_all add: zero_cpu_def zero_hot_def)

theorem irq_line_exact_witness:
  "irq_pending (hot (s_a9 timer_irq_console)) = 1 \<and> irq_pending (hot (s_a7 timer_irq_console)) = 0"
proof -
  have "c_ime (cio ARM9 timer_irq_console) = 1" "c_ie (cio ARM9 timer_irq_console) = 8"
    "c_if (cio ARM9 timer_irq_console) = 8" "c_ime (cio ARM7 timer_irq_console) = 0"
    by (simp_all add: timer_irq_console_def request_irq_cio ie_write_def ime_write_def)
      (simp_all add: io_reset_def cio_def zero_cpu_io_def IRQ_TIMER0_def)
  with irq_line_exact [OF timer_irq_reachable, of ARM9] irq_line_exact [OF timer_irq_reachable, of ARM7]
  show ?thesis by (simp add: tst_def)
qed

text \<open>Timer 0's overflow is due at 50; the time is 320.\<close>

theorem console_events_settle_witness:
  "\<exists>fuel t. fire_due (io_env (\<lambda>_ _ s. s) quiet_env) fuel ((schedule 2 50 Timer_event 0 console0)\<lparr> s_now := 320 \<rparr>) = Some t \<and>
     (\<forall>i. armed i t \<longrightarrow> 320 < s_at t i)"
proof -
  have "foreign_later (\<lambda>_ _ s. s :: (unit, unit) console)" by (simp add: foreign_later_def act_none)
  moreover have "queue_ok (schedule 2 50 Timer_event 0 console0)"
    by (rule ok_schedule) (simp_all add: console0_ok EVENT_COUNT_def)
  ultimately show ?thesis
    using console_events_settle [OF _ ok_at_time, of "\<lambda>_ _ s. s" "schedule 2 50 Timer_event 0 console0" 320 quiet_env]
    by (simp add: horizon_def) metis
qed

end
