(* ===== verification/IpcSpec.thy ===== *)
theory IpcSpec imports IoSpec BoundedQueue begin

text \<open>
  The IPC FIFOs of the I/O core (\<^verbatim>\<open>io.cpp\<close>, \<^verbatim>\<open>ipc_fifo_send\<close>, \<^verbatim>\<open>ipc_deliver\<close>,
  \<^verbatim>\<open>ipc_fifo_recv\<close>) as two channels.  What a CPU has sent and the other has not yet received
  is the contents of its FIFO followed, for the ARM9, by the words held back until the ARM7
  has caught up.  The FIFO is a bounded queue; the channel neither loses nor repeats
  words and reorders none but those a DMA sends past held ones, and the status bits say exactly what is in it.
\<close>

section \<open>The FIFO is a bounded queue\<close>

definition fifo_inv :: "ipc_fifo \<Rightarrow> bool" where
  "fifo_inv q \<longleftrightarrow> length (q_data q) = 16 \<and> q_head q < 16 \<and> q_count q \<le> 16"

definition fifo_words :: "ipc_fifo \<Rightarrow> u32 list" where
  "fifo_words q = map (\<lambda>k. q_data q ! ((q_head q + k) mod 16)) [0..<q_count q]"

lemma length_fifo_words [simp]: "length (fifo_words q) = q_count q"
  by (simp add: fifo_words_def)

lemma fifo_empty_words: "q_empty q \<longleftrightarrow> fifo_words q = []"
  by (simp add: q_empty_def fifo_words_def)

lemma push_inv: "fifo_inv q \<Longrightarrow> q_count q < 16 \<Longrightarrow> fifo_inv (q_push v q)"
  by (simp add: fifo_inv_def q_push_def)

lemma push_words: "fifo_inv q \<Longrightarrow> q_count q < 16 \<Longrightarrow> fifo_words (q_push v q) = fifo_words q @ [v]"
  using ring_slots_differ [of _ "q_count q" "q_head q", THEN not_sym]
  by (auto simp: fifo_words_def q_push_def fifo_inv_def nth_list_update split: if_splits)

lemma pop_words:
  assumes "fifo_inv q" "fifo_words q = v # vs"
  shows "fst (q_pop q) = v" "fifo_words (snd (q_pop q)) = vs" "fifo_inv (snd (q_pop q))"
proof -
  obtain n where n: "q_count q = Suc n" using assms(2) by (cases "q_count q") (auto simp: fifo_words_def)
  have c: "[0..<Suc n] = 0 # map Suc [0..<n]" by (simp add: upt_conv_Cons map_Suc_upt del: upt_Suc)
  have e: "fifo_words q = q_data q ! (q_head q mod 16) # map (\<lambda>k. q_data q ! ((q_head q + Suc k) mod 16)) [0..<n]"
    by (simp only: fifo_words_def n c list.map map_map) (simp add: comp_def)
  have h: "q_head q mod 16 = q_head q" using assms(1) by (simp add: fifo_inv_def)
  show "fst (q_pop q) = v" using assms(2) e h by (simp add: q_pop_def Let_def)
  show "fifo_words (snd (q_pop q)) = vs"
    using assms(2) e n by (simp add: q_pop_def Let_def fifo_words_def mod_simps algebra_simps)
  show "fifo_inv (snd (q_pop q))" using assms(1) n by (simp add: q_pop_def Let_def fifo_inv_def)
qed

definition ipc_enq :: "ipc_fifo \<Rightarrow> u32 \<Rightarrow> ipc_fifo" where
  "ipc_enq q v = (if q_full q then q else q_push v q)"

definition ipc_deq :: "ipc_fifo \<Rightarrow> u32 \<times> ipc_fifo" where
  "ipc_deq q = (if q_empty q then (q_last q, q) else q_pop q)"

interpretation ipcq: bounded_queue fifo_inv fifo_words ipc_enq ipc_deq 16
proof unfold_locales
  fix q v vs
  assume ok: "fifo_inv q"
  show "fifo_inv (ipc_enq q v)"
    using ok push_inv [of q v] by (auto simp: ipc_enq_def q_full_def fifo_inv_def)
  show "fifo_words (ipc_enq q v) = (if length (fifo_words q) < 16 then fifo_words q @ [v] else fifo_words q)"
    using ok push_words [of q v] by (auto simp: ipc_enq_def q_full_def fifo_inv_def)
  show "fifo_inv (snd (ipc_deq q))"
    using ok pop_words(3) [OF ok] by (cases "fifo_words q") (simp_all add: ipc_deq_def fifo_empty_words)
  show "fst (ipc_deq q) = v \<and> fifo_words (snd (ipc_deq q)) = vs" if "fifo_words q = v # vs"
    using pop_words [OF ok that] that by (simp add: ipc_deq_def fifo_empty_words)
  show "snd (ipc_deq q) = q" if "fifo_words q = []"
    using that by (simp add: ipc_deq_def fifo_empty_words)
qed

section \<open>Channels\<close>

definition held_words :: "cpu_id \<Rightarrow> ('x, 'w) console \<Rightarrow> u32 list" where
  "held_words w s = (if w = ARM9 then take (ipc9_pending_n (s_rest s)) (ipc9_pending (s_rest s)) else [])"

definition channel :: "cpu_id \<Rightarrow> ('x, 'w) console \<Rightarrow> u32 list" where
  "channel w s = fifo_words (c_fifo (cio w s)) @ held_words w s"

definition ipc_ok :: "('x, 'w) console \<Rightarrow> bool" where
  "ipc_ok s \<longleftrightarrow> fifo_inv (c_fifo (cio ARM9 s)) \<and> fifo_inv (c_fifo (cio ARM7 s)) \<and>
     length (ipc9_pending (s_rest s)) = 16 \<and> q_count (c_fifo (cio ARM9 s)) + ipc9_pending_n (s_rest s) \<le> 16"

lemma ipc_ok_fifo: "ipc_ok s \<Longrightarrow> fifo_inv (c_fifo (cio w s))"
  by (cases w) (simp_all add: ipc_ok_def)

lemma length_channel: "ipc_ok s \<Longrightarrow> length (channel w s) = q_count (c_fifo (cio w s)) + held w s"
  by (simp add: channel_def held_words_def held_def ipc_ok_def)

lemma channel_bound: "ipc_ok s \<Longrightarrow> length (channel w s) \<le> 16"
  by (cases w) (simp_all add: length_channel held_def ipc_ok_def fifo_inv_def)

text \<open>The parts of the state the channels live in.\<close>

definition same_ipc :: "('x, 'w) console \<Rightarrow> ('x, 'w) console \<Rightarrow> bool" where
  "same_ipc s t \<longleftrightarrow> (\<forall>w. c_fifo (cio w t) = c_fifo (cio w s) \<and> c_fifo_cnt (cio w t) = c_fifo_cnt (cio w s)) \<and>
     ipc9_pending (s_rest t) = ipc9_pending (s_rest s) \<and> ipc9_pending_n (s_rest t) = ipc9_pending_n (s_rest s)"

lemma same_ipc_facts:
  assumes "same_ipc s t"
  shows "channel w t = channel w s" "held w t = held w s" "ipc_ok t = ipc_ok s"
    "c_fifo_cnt (cio w t) = c_fifo_cnt (cio w s)" "c_fifo (cio w t) = c_fifo (cio w s)"
    "ipc9_pending_n (s_rest t) = ipc9_pending_n (s_rest s)" "held_words w t = held_words w s"
    "ipc9_pending (s_rest t) = ipc9_pending (s_rest s)"
  using assms by (simp_all add: same_ipc_def channel_def held_words_def held_def ipc_ok_def)

lemma same_ipc_frame [simp]:
  "same_ipc s (yield w s)" "same_ipc s (schedule i at fn prm s)" "same_ipc s (cancel i s)"
  by (simp_all add: same_ipc_def)

lemma same_ipc_request: "same_ipc s (request_irq w b s)"
  using request_irq_rest [of w b s] by (simp add: same_ipc_def request_irq_cio upd_cio_def)

lemma same_ipc_request_if: "same_ipc s (request_if p w b s)"
  by (simp add: request_if_def same_ipc_request) (simp add: same_ipc_def)

lemma ipc_set_fifo [simp]:
  "c_fifo (cio v (set_fifo w f s)) = (if v = w then f (c_fifo (cio w s)) else c_fifo (cio v s))"
  "c_fifo_cnt (cio v (set_fifo w f s)) = c_fifo_cnt (cio v s)"
  "ipc9_pending (s_rest (set_fifo w f s)) = ipc9_pending (s_rest s)"
  "ipc9_pending_n (s_rest (set_fifo w f s)) = ipc9_pending_n (s_rest s)"
  by (simp_all add: set_fifo_def) (simp_all add: upd_cio_def)

lemma ipc_set_fifo_cnt [simp]:
  "c_fifo (cio v (set_fifo_cnt w g s)) = c_fifo (cio v s)"
  "c_fifo_cnt (cio v (set_fifo_cnt w g s)) = (if v = w then g (c_fifo_cnt (cio w s)) else c_fifo_cnt (cio v s))"
  "ipc9_pending (s_rest (set_fifo_cnt w g s)) = ipc9_pending (s_rest s)"
  "ipc9_pending_n (s_rest (set_fifo_cnt w g s)) = ipc9_pending_n (s_rest s)"
  by (simp_all add: set_fifo_cnt_def) (simp_all add: upd_cio_def)

lemma set_fifo_cnt_channel [simp]:
  "channel v (set_fifo_cnt w g s) = channel v s" "ipc_ok (set_fifo_cnt w g s) = ipc_ok s"
  "held v (set_fifo_cnt w g s) = held v s" "held_words v (set_fifo_cnt w g s) = held_words v s"
  by (simp_all add: channel_def held_words_def ipc_ok_def held_def)

text \<open>Pushing a word puts it after what is in the FIFO, and touches nothing else here.\<close>

lemma push_word_ipc:
  assumes "fifo_inv (c_fifo (cio w s))" "q_count (c_fifo (cio w s)) < 16"
  shows "fifo_words (c_fifo (cio w (push_word w v s))) = fifo_words (c_fifo (cio w s)) @ [v]"
    "c_fifo (cio (other w) (push_word w v s)) = c_fifo (cio (other w) s)"
    "q_count (c_fifo (cio w (push_word w v s))) = q_count (c_fifo (cio w s)) + 1"
    "fifo_inv (c_fifo (cio w (push_word w v s)))"
    "c_fifo_cnt (cio u (push_word w v s)) = c_fifo_cnt (cio u s)"
    "ipc9_pending (s_rest (push_word w v s)) = ipc9_pending (s_rest s)"
    "ipc9_pending_n (s_rest (push_word w v s)) = ipc9_pending_n (s_rest s)"
proof -
  let ?m = "set_fifo w (q_push v) s" and ?q = "c_fifo (cio w s)"
  have e: "same_ipc ?m (push_word w v s)" by (simp add: push_word_def Let_def same_ipc_request_if)
  note f = same_ipc_facts [OF e]
  have enq: "ipc_enq ?q v = q_push v ?q" using assms(2) by (simp add: ipc_enq_def q_full_def)
  have q: "c_fifo (cio w (push_word w v s)) = ipc_enq ?q v" unfolding f(5) enq by simp
  show "fifo_words (c_fifo (cio w (push_word w v s))) = fifo_words ?q @ [v]"
    using ipcq.enq_contents [OF assms(1), of v] assms(2) by (simp add: q)
  show "fifo_inv (c_fifo (cio w (push_word w v s)))" unfolding q by (rule ipcq.enq_ok [OF assms(1)])
  show "q_count (c_fifo (cio w (push_word w v s))) = q_count ?q + 1" unfolding q enq by (simp add: q_push_def)
  have "c_fifo (cio (other w) ?m) = c_fifo (cio (other w) s)" by (cases w) simp_all
  then show "c_fifo (cio (other w) (push_word w v s)) = c_fifo (cio (other w) s)" by (simp only: f(5))
  have "c_fifo_cnt (cio u ?m) = c_fifo_cnt (cio u s)" by simp
  then show "c_fifo_cnt (cio u (push_word w v s)) = c_fifo_cnt (cio u s)" by (simp only: f(4))
  have "ipc9_pending (s_rest ?m) = ipc9_pending (s_rest s)" "ipc9_pending_n (s_rest ?m) = ipc9_pending_n (s_rest s)"
    by simp_all
  then show "ipc9_pending (s_rest (push_word w v s)) = ipc9_pending (s_rest s)"
    "ipc9_pending_n (s_rest (push_word w v s)) = ipc9_pending_n (s_rest s)"
    by (simp_all only: f(6,8))
qed

lemma push_word_ipc_ok:
  assumes "ipc_ok s" "q_count (c_fifo (cio w s)) + held w s < 16"
  shows "ipc_ok (push_word w v s)"
proof -
  have "fifo_inv (c_fifo (cio w s))" "q_count (c_fifo (cio w s)) < 16" using assms ipc_ok_fifo by auto
  note p = push_word_ipc [OF this, where v = v]
  show ?thesis using assms p by (cases w) (simp_all add: ipc_ok_def held_def)
qed

section \<open>Sending\<close>

definition ipc_enabled :: "cpu_id \<Rightarrow> ('x, 'w) console \<Rightarrow> bool" where
  "ipc_enabled w s \<longleftrightarrow> tst (c_fifo_cnt (cio w s)) 0x8000"

text \<open>Where an accepted word goes.  A held word and one sent while none is held go to the end of the channel; one the
  ARM9's DMA sends is pushed straight into the FIFO, before the words held then.\<close>

definition overtaken :: "cpu_id \<Rightarrow> ('x, 'w) console \<Rightarrow> nat" where
  "overtaken w s = (if ipc_holds w s then 0 else held w s)"

definition before_last :: "nat \<Rightarrow> 'a \<Rightarrow> 'a list \<Rightarrow> 'a list" where
  "before_last n v xs = take (length xs - n) xs @ v # drop (length xs - n) xs"

lemma before_none [simp]: "before_last 0 v xs = xs @ [v]"
  by (simp add: before_last_def)

lemma before_last_append: "before_last (length ys) v (xs @ ys) = xs @ v # ys"
  by (simp add: before_last_def)

lemma before_last_prefix: "n \<le> length ys \<Longrightarrow> before_last n v (xs @ ys) = xs @ before_last n v ys"
  by (simp add: before_last_def)

lemma length_before_last [simp]: "length (before_last n v xs) = Suc (length xs)"
  by (simp add: before_last_def)

lemma overtaken_le: "ipc_ok s \<Longrightarrow> overtaken w s \<le> length (channel w s)"
  by (simp add: overtaken_def length_channel)

lemma hold_word_ipc:
  assumes "ipc_ok s" "q_count (c_fifo (cio ARM9 s)) + held ARM9 s < 16"
  shows "channel ARM9 (hold_word v s) = channel ARM9 s @ [v]" "channel ARM7 (hold_word v s) = channel ARM7 s"
    "ipc_ok (hold_word v s)"
proof -
  have n: "ipc9_pending_n (s_rest s) < 16" "length (ipc9_pending (s_rest s)) = 16"
    using assms by (simp_all add: held_def ipc_ok_def)
  then show "channel ARM9 (hold_word v s) = channel ARM9 s @ [v]"
    by (simp add: channel_def held_words_def hold_word_def cio_def take_Suc_conv_app_nth)
  show "channel ARM7 (hold_word v s) = channel ARM7 s"
    by (simp add: channel_def held_words_def hold_word_def cio_def)
  show "ipc_ok (hold_word v s)" using assms n by (simp add: ipc_ok_def hold_word_def cio_def held_def)
qed

lemma send_refines:
  assumes "ipc_ok s"
  shows "channel w (ipc_fifo_send w v s) =
      (if ipc_enabled w s \<and> length (channel w s) < 16 then before_last (overtaken w s) v (channel w s) else channel w s)"
    "channel (other w) (ipc_fifo_send w v s) = channel (other w) s" "ipc_ok (ipc_fifo_send w v s)"
proof -
  let ?t = "ipc_fifo_send w v s"
  note len = length_channel [OF assms, of w]
  have "channel w ?t = (if ipc_enabled w s \<and> length (channel w s) < 16 then before_last (overtaken w s) v (channel w s) else channel w s) \<and>
      channel (other w) ?t = channel (other w) s \<and> ipc_ok ?t"
  proof (cases "ipc_enabled w s \<and> q_count (c_fifo (cio w s)) + held w s < 16")
    case False
    then show ?thesis using assms len by (auto simp: ipc_fifo_send_def ipc_enabled_def)
  next
    case True
    show ?thesis
    proof (cases "ipc_holds w s")
      case holds: True
      then have w: "w = ARM9" by (simp add: ipc_holds_def)
      then have t: "ipc_fifo_send ARM9 v s = yield ARM9 (hold_word v s)"
        using True holds by (simp add: ipc_fifo_send_def ipc_enabled_def)
      show ?thesis
        using hold_word_ipc [OF assms, of v] True len holds
        by (simp add: w t overtaken_def same_ipc_facts(1,3) [OF same_ipc_frame(1)])
    next
      case False
      have t: "?t = push_word w v s" using True False by (simp add: ipc_fifo_send_def ipc_enabled_def)
      have "fifo_inv (c_fifo (cio w s))" "q_count (c_fifo (cio w s)) < 16"
        using True ipc_ok_fifo [OF assms] by simp_all
      note p = push_word_ipc [OF this, where v = v] push_word_ipc_ok [OF assms, of w v]
      have h: "held_words u (push_word w v s) = held_words u s" for u using p(6,7) by (simp add: held_words_def)
      have n: "overtaken w s = length (held_words w s)"
        using assms False by (simp add: overtaken_def held_def held_words_def ipc_ok_def)
      have "before_last (overtaken w s) v (fifo_words (c_fifo (cio w s)) @ held_words w s) =
          fifo_words (c_fifo (cio w s)) @ v # held_words w s"
        unfolding n by (rule before_last_append)
      then show ?thesis using p True len by (simp add: t channel_def h)
    qed
  qed
  then show "channel w ?t = (if ipc_enabled w s \<and> length (channel w s) < 16 then before_last (overtaken w s) v (channel w s) else channel w s)"
    "channel (other w) ?t = channel (other w) s" "ipc_ok ?t" by blast+
qed

section \<open>Delivering and receiving\<close>

lemma deliver_word_ipc:
  assumes "fifo_inv (c_fifo (cio ARM9 s))" "q_count (c_fifo (cio ARM9 s)) < 16"
  shows "deliver_word v s = push_word ARM9 v s"
  using assms(2) by (simp add: deliver_word_def q_full_def)

lemma deliver_words_ipc:
  "fifo_inv (c_fifo (cio ARM9 s)) \<Longrightarrow> q_count (c_fifo (cio ARM9 s)) + length vs \<le> 16 \<Longrightarrow>
   t = fold deliver_word vs s \<Longrightarrow>
   fifo_words (c_fifo (cio ARM9 t)) = fifo_words (c_fifo (cio ARM9 s)) @ vs \<and> fifo_inv (c_fifo (cio ARM9 t)) \<and>
   c_fifo (cio ARM7 t) = c_fifo (cio ARM7 s) \<and> (\<forall>w. c_fifo_cnt (cio w t) = c_fifo_cnt (cio w s)) \<and>
   ipc9_pending (s_rest t) = ipc9_pending (s_rest s)"
proof (induction vs arbitrary: s)
  case (Cons v vs)
  then have c: "q_count (c_fifo (cio ARM9 s)) < 16" by simp
  note p = push_word_ipc [OF Cons.prems(1) c, where v = v]
  have "t = fold deliver_word vs (push_word ARM9 v s)"
    using Cons.prems(3) deliver_word_ipc [OF Cons.prems(1) c] by simp
  from Cons.IH [OF p(4) _ this] Cons.prems(2) p show ?case by simp
qed simp

lemma deliver_refines:
  assumes "ipc_ok s"
  shows "channel w (ipc_deliver s) = channel w s" "ipc_ok (ipc_deliver s)" "held w (ipc_deliver s) = 0"
    "c_fifo_cnt (cio w (ipc_deliver s)) = c_fifo_cnt (cio w s)"
proof -
  let ?vs = "take (ipc9_pending_n (s_rest s)) (ipc9_pending (s_rest s))"
  let ?t = "fold deliver_word ?vs s"
  have len: "length ?vs = ipc9_pending_n (s_rest s)" "q_count (c_fifo (cio ARM9 s)) + length ?vs \<le> 16"
    using assms by (simp_all add: ipc_ok_def)
  note d = deliver_words_ipc [OF ipc_ok_fifo [OF assms] len(2) refl]
  have c: "cio v (ipc_deliver s) = cio v ?t" for v by (simp add: ipc_deliver_def cio_def)
  have n: "ipc9_pending_n (s_rest (ipc_deliver s)) = 0"
    "ipc9_pending (s_rest (ipc_deliver s)) = ipc9_pending (s_rest s)"
    using d by (simp_all add: ipc_deliver_def)
  have "channel ARM9 (ipc_deliver s) = channel ARM9 s" "channel ARM7 (ipc_deliver s) = channel ARM7 s"
    using d n by (simp_all add: channel_def held_words_def c)
  then show "channel w (ipc_deliver s) = channel w s" by (cases w) simp_all
  have "q_count (c_fifo (cio ARM9 ?t)) \<le> 16" using d by (simp add: fifo_inv_def)
  then show "ipc_ok (ipc_deliver s)" using d n assms by (simp add: ipc_ok_def c)
  show "held w (ipc_deliver s) = 0" using n by (simp add: held_def)
  show "c_fifo_cnt (cio w (ipc_deliver s)) = c_fifo_cnt (cio w s)" using d by (simp add: c)
qed

lemma recv_blocked:
  "q_empty (c_fifo (cio (other w) s)) \<Longrightarrow>
    ipc_fifo_recv w s = (q_last (c_fifo (cio (other w) s)), set_fifo_cnt w (\<lambda>c. c OR 0x4000) s)"
  "\<not> q_empty (c_fifo (cio (other w) s)) \<Longrightarrow> \<not> ipc_enabled w s \<Longrightarrow>
    ipc_fifo_recv w s = (q_data (c_fifo (cio (other w) s)) ! q_head (c_fifo (cio (other w) s)), s)"
  by (simp_all add: ipc_fifo_recv_def ipc_enabled_def Let_def)

lemma recv_refines:
  assumes "ipc_ok s" "fifo_words (c_fifo (cio (other w) s)) = v # vs" "ipc_enabled w s"
  shows "fst (ipc_fifo_recv w s) = v" "channel (other w) s = v # channel (other w) (snd (ipc_fifo_recv w s))"
    "channel w (snd (ipc_fifo_recv w s)) = channel w s" "ipc_ok (snd (ipc_fifo_recv w s))"
proof -
  let ?q = "c_fifo (cio (other w) s)"
  have ne: "\<not> q_empty ?q" using assms(2) by (simp add: fifo_empty_words)
  note inv = ipc_ok_fifo [OF assms(1), of "other w"]
  have pop: "q_pop ?q = ipc_deq ?q" using ne by (simp add: ipc_deq_def)
  note deq = ipcq.deq_contents [OF inv assms(2)] ipcq.deq_ok [OF inv]
  let ?m = "set_fifo (other w) (\<lambda>_. snd (ipc_deq ?q)) s"
  obtain p where r: "ipc_fifo_recv w s = (fst (ipc_deq ?q), request_if p (other w) IRQ_IPC_SEND_EMPTY ?m)"
    using ne assms(3) by (simp add: ipc_fifo_recv_def ipc_enabled_def Let_def split_beta pop)
  note f = same_ipc_facts [OF same_ipc_request_if [of ?m p "other w" IRQ_IPC_SEND_EMPTY]]
  show "fst (ipc_fifo_recv w s) = v" using deq by (simp add: r)
  have m: "channel (other w) ?m = fifo_words (snd (ipc_deq ?q)) @ held_words (other w) s"
    by (simp add: channel_def held_words_def)
  show "channel (other w) s = v # channel (other w) (snd (ipc_fifo_recv w s))"
    using deq assms(2) by (simp add: r f m) (simp add: channel_def)
  show "channel w (snd (ipc_fifo_recv w s)) = channel w s"
    by (simp add: r f) (cases w; simp add: channel_def held_words_def)
  have "q_count (snd (ipc_deq ?q)) \<le> q_count ?q"
    using arg_cong [OF conjunct2 [OF deq(1)], of length] arg_cong [OF assms(2), of length] by simp
  then have "ipc_ok ?m" using assms(1) deq(2) by (cases w) (simp_all add: ipc_ok_def)
  then show "ipc_ok (snd (ipc_fifo_recv w s))" by (simp add: r f)
qed

lemma other_other [simp]: "other (other w) = w" "other w \<noteq> w" "w \<noteq> other w"
  by (cases w; simp)+

lemma not_other: "v \<noteq> w \<Longrightarrow> v = other w"
  by (cases v; cases w) simp_all

lemma cio_held [simp]: "cio v (upd_io (\<lambda>i. i\<lparr> ipc9_pending_n := n \<rparr>) s) = cio v s"
  by (simp add: cio_def)

lemma flush_send_ipc:
  assumes "ipc_ok s"
  shows "channel w (flush_send w s) = []" "channel (other w) (flush_send w s) = channel (other w) s"
    "ipc_ok (flush_send w s)"
proof -
  have c: "c_fifo (cio v (flush_send w s)) = (if v = w then q_clear (c_fifo (cio w s)) else c_fifo (cio v s))" for v
    by (simp add: flush_send_def Let_def)
  have n: "ipc9_pending_n (s_rest (flush_send w s)) = (if w = ARM9 then 0 else ipc9_pending_n (s_rest s))"
    "ipc9_pending (s_rest (flush_send w s)) = ipc9_pending (s_rest s)"
    by (simp_all add: flush_send_def Let_def)
  have o: "other w = ARM9 \<Longrightarrow> w \<noteq> ARM9" by (cases w) simp_all
  show "channel w (flush_send w s) = []"
    using n by (auto simp: channel_def held_words_def c q_clear_def fifo_words_def)
  show "channel (other w) (flush_send w s) = channel (other w) s"
    using o by (simp add: channel_def held_words_def c n)
  have "fifo_inv (c_fifo (cio v (flush_send w s)))" for v
    using ipc_ok_fifo [OF assms, of v] ipc_ok_fifo [OF assms, of w]
    by (simp add: c) (simp add: q_clear_def fifo_inv_def)
  moreover have "q_count (c_fifo (cio ARM9 (flush_send w s))) + ipc9_pending_n (s_rest (flush_send w s)) \<le> 16"
    using assms by (simp add: c n ipc_ok_def) (simp add: q_clear_def)
  ultimately show "ipc_ok (flush_send w s)" using assms by (simp add: ipc_ok_def n)
qed

lemma request_if_channel [simp]:
  "channel v (request_if p w b s) = channel v s" "ipc_ok (request_if p w b s) = ipc_ok s"
  using same_ipc_facts(1,3) [OF same_ipc_request_if] by blast+

text \<open>A control write without the flush bit leaves both channels alone; with it, it empties
  the writer's own.\<close>

lemma cnt_write_refines:
  assumes "ipc_ok s"
  shows "channel v (ipc_fifo_cnt_write w x s) = (if v = w \<and> tst x 0x0008 then [] else channel v s)"
    "ipc_ok (ipc_fifo_cnt_write w x s)"
proof -
  let ?s1 = "if tst x 0x0008 then flush_send w s else s"
  have "channel v ?s1 = (if v = w \<and> tst x 0x0008 then [] else channel v s)" "ipc_ok ?s1"
    using flush_send_ipc [OF assms, of w] assms not_other [of v w] by (cases "v = w"; simp)+
  then show "channel v (ipc_fifo_cnt_write w x s) = (if v = w \<and> tst x 0x0008 then [] else channel v s)"
    "ipc_ok (ipc_fifo_cnt_write w x s)"
    by (simp_all only: ipc_fifo_cnt_write_def Let_def request_if_channel set_fifo_cnt_channel if_cancel)
      (simp_all only: set_fifo_cnt_channel if_distrib [of "channel v"] if_distrib [of ipc_ok] if_cancel)
qed

section \<open>Runs\<close>

text \<open>\<open>ipc_run w s sent got t\<close>: from \<open>s\<close> to \<open>t\<close>, CPU \<open>w\<close> sent the words \<open>sent\<close> that were
  accepted and not flushed, in the order sent but for the words that overtook held ones, and the other
  received \<open>got\<close>, while the opposite channel and the rest of the machine did whatever they do.\<close>

inductive ipc_run :: "cpu_id \<Rightarrow> ('x, 'w) console \<Rightarrow> u32 list \<Rightarrow> u32 list \<Rightarrow> ('x, 'w) console \<Rightarrow> bool"
  for w s where
  run_start: "ipc_run w s [] [] s"
| run_rest: "ipc_run w s sent got t \<Longrightarrow> same_ipc t u \<Longrightarrow> ipc_run w s sent got u"
| run_deliver: "ipc_run w s sent got t \<Longrightarrow> ipc_run w s sent got (ipc_deliver t)"
| run_send: "ipc_run w s sent got t \<Longrightarrow>
    ipc_run w s (if ipc_enabled w t \<and> \<not> tst (ipc_fifo_cnt_read w t) 0x0002 then before_last (overtaken w t) v sent else sent) got
      (ipc_fifo_send w v t)"
| run_send_back: "ipc_run w s sent got t \<Longrightarrow>
    ipc_run w s sent got (ipc_fifo_send (other w) v t)"
| run_recv: "ipc_run w s sent got t \<Longrightarrow> ipc_fifo_recv (other w) t = (v, u) \<Longrightarrow>
    ipc_run w s sent
      (if ipc_enabled (other w) t \<and> \<not> tst (ipc_fifo_cnt_read (other w) t) 0x0100 then got @ [v] else got) u"
| run_recv_back: "ipc_run w s sent got t \<Longrightarrow> ipc_run w s sent got (snd (ipc_fifo_recv w t))"
| run_control: "ipc_run w s sent got t \<Longrightarrow> \<not> (v = w \<and> tst x 0x0008) \<Longrightarrow>
    ipc_run w s sent got (ipc_fifo_cnt_write v x t)"
| run_flush: "ipc_run w s sent got t \<Longrightarrow> tst x 0x0008 \<Longrightarrow> ipc_run w s got got (ipc_fifo_cnt_write w x t)"

lemma tst_or: "tst (x OR y) m \<longleftrightarrow> tst x m \<or> tst y m"
  by (simp add: tst_def bit.conj_disj_distrib2 or_eq_0_iff)

lemma tst_and: "tst (x AND y) m = tst x (y AND m)"
  by (simp add: tst_def and.assoc)

lemma tst_if: "tst (if p then x else 0) m \<longleftrightarrow> p \<and> tst x m"
  by (simp add: tst_def)

lemma tst_const:
  "tst (1::u16) 1" "\<not> tst (1::u16) 2" "\<not> tst (1::u16) 0x100" "\<not> tst (1::u16) 0x4000"
  "tst (2::u16) 2" "\<not> tst (2::u16) 1" "\<not> tst (2::u16) 0x100" "\<not> tst (2::u16) 0x4000"
  "\<not> tst (0x100::u16) 1" "\<not> tst (0x100::u16) 2" "tst (0x100::u16) 0x100" "\<not> tst (0x100::u16) 0x4000"
  "\<not> tst (0x200::u16) 1" "\<not> tst (0x200::u16) 2" "\<not> tst (0x200::u16) 0x100" "\<not> tst (0x200::u16) 0x4000"
  "\<not> tst (0x4000::u16) 1" "\<not> tst (0x4000::u16) 2" "\<not> tst (0x4000::u16) 0x100" "tst (0x4000::u16) 0x4000"
  "\<not> tst (x::u16) 0"
  by (simp_all add: tst_def)

text \<open>What the status bits say.\<close>

lemma status_bits:
  assumes "ipc_ok s"
  shows "tst (ipc_fifo_cnt_read w s) 0x0001 \<longleftrightarrow> channel w s = []"
    "tst (ipc_fifo_cnt_read w s) 0x0002 \<longleftrightarrow> length (channel w s) = 16"
    "tst (ipc_fifo_cnt_read w s) 0x0100 \<longleftrightarrow> fifo_words (c_fifo (cio (other w) s)) = []"
    "tst (ipc_fifo_cnt_read w s) 0x4000 \<longleftrightarrow> tst (c_fifo_cnt (cio w s)) 0x4000"
proof -
  have e: "channel w s = [] \<longleftrightarrow> q_empty (c_fifo (cio w s)) \<and> held w s = 0"
    using length_channel [OF assms, of w] by (auto simp: q_empty_def length_0_conv [symmetric] simp del: length_0_conv)
  have f: "length (channel w s) = 16 \<longleftrightarrow> 16 \<le> q_count (c_fifo (cio w s)) + held w s"
    using length_channel [OF assms, of w] channel_bound [OF assms, of w] by auto
  note d = ipc_fifo_cnt_read_def Let_def tst_or tst_and tst_if tst_const
  show "tst (ipc_fifo_cnt_read w s) 0x0001 \<longleftrightarrow> channel w s = []" by (simp add: d e)
  show "tst (ipc_fifo_cnt_read w s) 0x0002 \<longleftrightarrow> length (channel w s) = 16" by (simp add: d f)
  show "tst (ipc_fifo_cnt_read w s) 0x0100 \<longleftrightarrow> fifo_words (c_fifo (cio (other w) s)) = []"
    by (simp add: d fifo_empty_words)
  show "tst (ipc_fifo_cnt_read w s) 0x4000 \<longleftrightarrow> tst (c_fifo_cnt (cio w s)) 0x4000" by (simp add: d)
qed

lemma recv_any:
  assumes "ipc_ok s" "ipc_fifo_recv w s = (v, u)"
  shows "ipc_ok u" "channel w u = channel w s"
    "channel (other w) s = (if ipc_enabled w s \<and> \<not> tst (ipc_fifo_cnt_read w s) 0x0100
       then v # channel (other w) u else channel (other w) u)"
proof -
  have e: "tst (ipc_fifo_cnt_read w s) 0x0100 \<longleftrightarrow> q_empty (c_fifo (cio (other w) s))"
    by (simp add: status_bits(3) [OF assms(1)] fifo_empty_words)
  have "ipc_ok u \<and> channel w u = channel w s \<and>
    channel (other w) s = (if ipc_enabled w s \<and> \<not> tst (ipc_fifo_cnt_read w s) 0x0100
       then v # channel (other w) u else channel (other w) u)"
  proof (cases "ipc_enabled w s \<and> \<not> q_empty (c_fifo (cio (other w) s))")
    case True
    then obtain x xs where "fifo_words (c_fifo (cio (other w) s)) = x # xs"
      by (cases "fifo_words (c_fifo (cio (other w) s))") (auto simp: fifo_empty_words)
    from recv_refines [OF assms(1) this] True assms(2) e show ?thesis by simp
  next
    case False
    then have "u = s \<or> u = set_fifo_cnt w (\<lambda>c. c OR 0x4000) s"
      using recv_blocked [of w s] assms(2) by auto
    then show ?thesis using False e assms(1) by auto
  qed
  then show "ipc_ok u" "channel w u = channel w s"
    "channel (other w) s = (if ipc_enabled w s \<and> \<not> tst (ipc_fifo_cnt_read w s) 0x0100
       then v # channel (other w) u else channel (other w) u)" by blast+
qed

lemma ipc_run_sent:
  assumes "ipc_run w s sent got t" "ipc_ok s" "channel w s = []"
  shows "sent = got @ channel w t \<and> ipc_ok t"
  using assms
proof (induction rule: ipc_run.induct)
  case (run_rest sent got t u)
  then show ?case by (simp add: same_ipc_facts(1,3))
next
  case (run_deliver sent got t)
  then show ?case by (simp add: deliver_refines)
next
  case (run_send sent got t v)
  then have ok: "ipc_ok t" by simp
  have "tst (ipc_fifo_cnt_read w t) 0x0002 \<longleftrightarrow> \<not> length (channel w t) < 16"
    using status_bits(2) [OF ok, of w] channel_bound [OF ok, of w] by auto
  then show ?case using run_send send_refines [OF ok, of w v] overtaken_le [OF ok, of w] by (simp add: before_last_prefix)
next
  case (run_send_back sent got t v)
  then show ?case using send_refines [of t "other w" v] by simp
next
  case (run_recv sent got t v u)
  then show ?case using recv_any [of t "other w" v u] by simp
next
  case (run_recv_back sent got t)
  then show ?case using recv_any [of t w "fst (ipc_fifo_recv w t)" "snd (ipc_fifo_recv w t)"] by simp
next
  case (run_control sent got t v x)
  have "\<not> (w = v \<and> tst x 0x0008)" using run_control.hyps(2) by auto
  then show ?case using run_control cnt_write_refines(1) [of t w v x] cnt_write_refines(2) [of t v x] by auto
next
  case (run_flush sent got t x)
  then show ?case using cnt_write_refines(1) [of t w w x] cnt_write_refines(2) [of t w x] by simp
qed simp

lemma reset_ipc:
  assumes "length (ipc9_pending (s_rest s)) = 16"
  shows "ipc_ok (io_reset s)" "channel w (io_reset s) = []"
  using assms
  by (simp_all add: ipc_ok_def channel_def held_words_def io_reset_def cio_def zero_cpu_io_def zero_fifo_def
      fifo_inv_def fifo_words_def)

text \<open>C36: Words sent through an IPC FIFO arrive in the order they were sent, each exactly once, with one
  exception that the order of the words says exactly: a word the ARM9's DMA sends while words of its CPU
  are held goes before those.  After any run from reset, the words that were accepted and not flushed, in that order, are
  those the other side has read followed by those still on the way, however the running ARM9's words
  were held back, delivered and read in between, and whatever else the two CPUs did.  At most 16 words
  are ever on the way.\<close>

theorem ipc_in_order_delivery:
  assumes "length (ipc9_pending (s_rest s)) = 16" "ipc_run w (io_reset s) sent got t"
  shows "sent = got @ channel w t \<and> length (channel w t) \<le> 16"
  using ipc_run_sent [OF assms(2) reset_ipc [OF assms(1)]] channel_bound by blast

text \<open>Delivering the held words never finds the FIFO full: in every state a run can reach the
  branch of \<^verbatim>\<open>ipc_deliver\<close> that its comment calls not reached is not, so that no error flag
  is raised, every held word ends up in the FIFO in order, and none is held any more.\<close>

theorem ipc_deliver_fits:
  assumes "length (ipc9_pending (s_rest s)) = 16" "ipc_run w (io_reset s) sent got t"
  shows "fifo_words (c_fifo (cio ARM9 (ipc_deliver t))) = channel ARM9 t \<and>
    c_fifo_cnt (cio v (ipc_deliver t)) = c_fifo_cnt (cio v t) \<and> ipc9_pending_n (s_rest (ipc_deliver t)) = 0"
proof -
  have ok: "ipc_ok t" using ipc_run_sent [OF assms(2) reset_ipc [OF assms(1)]] by blast
  have "ipc9_pending_n (s_rest (ipc_deliver t)) = 0" by (simp add: ipc_deliver_def)
  moreover from this have "channel ARM9 (ipc_deliver t) = fifo_words (c_fifo (cio ARM9 (ipc_deliver t)))"
    by (simp add: channel_def held_words_def)
  ultimately show ?thesis using deliver_refines(1,4) [OF ok] by metis
qed

lemma send_error:
  assumes "ipc_ok s"
  shows "c_fifo_cnt (cio w (ipc_fifo_send w v s)) =
    (if ipc_enabled w s \<and> length (channel w s) = 16 then c_fifo_cnt (cio w s) OR 0x4000 else c_fifo_cnt (cio w s))"
proof -
  have full: "length (channel w s) = 16 \<longleftrightarrow> 16 \<le> q_count (c_fifo (cio w s)) + held w s"
    using length_channel [OF assms, of w] channel_bound [OF assms, of w] by auto
  have push: "c_fifo_cnt (cio w (push_word w v s)) = c_fifo_cnt (cio w s)"
    if "\<not> 16 \<le> q_count (c_fifo (cio w s)) + held w s"
    using push_word_ipc(5) [OF ipc_ok_fifo [OF assms], of w w v] that by simp
  have hold: "c_fifo_cnt (cio w (hold_word v s)) = c_fifo_cnt (cio w s)"
    by (simp add: hold_word_def cio_def)
  show ?thesis
    using push hold by (simp add: ipc_fifo_send_def ipc_enabled_def full)
qed

lemma recv_error:
  "c_fifo_cnt (cio w (snd (ipc_fifo_recv w s))) =
    (if q_empty (c_fifo (cio (other w) s)) then c_fifo_cnt (cio w s) OR 0x4000 else c_fifo_cnt (cio w s))"
  by (simp add: ipc_fifo_recv_def Let_def split_beta same_ipc_facts(4) [OF same_ipc_request_if])

text \<open>C37: The IPC errors.  Sending to a full channel (held words counted) and reading an empty
  FIFO raise the error flag of the CPU that does it, and nothing else happens except that
  the read returns the last word read; no other send or read raises the flag; and the
  status register says beforehand which it will be: bit 1 for the send, bit 8 for the read.\<close>

theorem ipc_errors_exact:
  assumes "ipc_ok s"
  shows "tst (c_fifo_cnt (cio w (ipc_fifo_send w v s))) 0x4000 =
      (tst (c_fifo_cnt (cio w s)) 0x4000 \<or> ipc_enabled w s \<and> tst (ipc_fifo_cnt_read w s) 0x0002) \<and>
    tst (c_fifo_cnt (cio w (snd (ipc_fifo_recv w s)))) 0x4000 =
      (tst (c_fifo_cnt (cio w s)) 0x4000 \<or> tst (ipc_fifo_cnt_read w s) 0x0100) \<and>
    tst (ipc_fifo_cnt_read w s) 0x0002 = (length (channel w s) = 16) \<and>
    tst (ipc_fifo_cnt_read w s) 0x0100 = (fifo_words (c_fifo (cio (other w) s)) = []) \<and>
    (if ipc_enabled w s \<and> length (channel w s) = 16
     then ipc_fifo_send w v s = set_fifo_cnt w (\<lambda>c. c OR 0x4000) s else True) \<and>
    (if fifo_words (c_fifo (cio (other w) s)) = []
     then ipc_fifo_recv w s = (q_last (c_fifo (cio (other w) s)), set_fifo_cnt w (\<lambda>c. c OR 0x4000) s) else True)"
proof -
  have full: "length (channel w s) = 16 \<Longrightarrow> 16 \<le> q_count (c_fifo (cio w s)) + held w s"
    using length_channel [OF assms, of w] by simp
  note st = status_bits(2,3) [OF assms, of w]
  have "tst (c_fifo_cnt (cio w (ipc_fifo_send w v s))) 0x4000 =
      (tst (c_fifo_cnt (cio w s)) 0x4000 \<or> ipc_enabled w s \<and> length (channel w s) = 16)"
    by (auto simp: send_error [OF assms] tst_or tst_const)
  moreover have "tst (c_fifo_cnt (cio w (snd (ipc_fifo_recv w s)))) 0x4000 =
      (tst (c_fifo_cnt (cio w s)) 0x4000 \<or> fifo_words (c_fifo (cio (other w) s)) = [])"
    by (auto simp: recv_error tst_or tst_const fifo_empty_words)
  moreover have "ipc_fifo_send w v s = set_fifo_cnt w (\<lambda>c. c OR 0x4000) s"
    if "ipc_enabled w s" "length (channel w s) = 16"
    using that full by (simp add: ipc_fifo_send_def ipc_enabled_def)
  moreover have "ipc_fifo_recv w s = (q_last (c_fifo (cio (other w) s)), set_fifo_cnt w (\<lambda>c. c OR 0x4000) s)"
    if "fifo_words (c_fifo (cio (other w) s)) = []"
    using that by (intro recv_blocked(1)) (simp add: fifo_empty_words)
  ultimately show ?thesis by (simp add: st)
qed

section \<open>A concrete run\<close>

text \<open>Both CPUs enable their FIFOs; the ARM9 sends two words and the ARM7 reads one.\<close>

definition ipc_open :: "(unit, unit) console" where
  "ipc_open = ipc_fifo_cnt_write ARM7 0x8000 (ipc_fifo_cnt_write ARM9 0x8000 (io_reset console0))"

definition ipc_two :: "(unit, unit) console" where
  "ipc_two = ipc_fifo_send ARM9 0x22 (ipc_fifo_send ARM9 0x11 ipc_open)"

lemma no_irq_bits: "\<not> tst (0x8000::u16) 0x0008" "\<not> tst (0x8000::u16) 0x4000" "\<not> tst (0x8000::u16) 0x0004"
  "\<not> tst (0x8000::u16) 0x0400" "tst (0x8000::u16) 0x8000"
  by (simp_all add: tst_def)

lemma ipc_open_fields:
  "c_fifo_cnt (cio w ipc_open) = 0x8000" "c_fifo (cio w ipc_open) = zero_fifo" "ipc9_pending_n (s_rest ipc_open) = 0"
  "s_running ipc_open = None" "ipc9_pending (s_rest ipc_open) = replicate 16 0"
  by (cases w; simp add: ipc_open_def ipc_fifo_cnt_write_def Let_def no_irq_bits request_if_def set_fifo_cnt_def
      io_reset_def cio_def io_zero_def zero_cpu_io_def upd_cio_def upd_io_def)+

lemma plain_send:
  assumes "\<And>w. c_fifo_cnt (cio w s) = 0x8000" "ipc9_pending_n (s_rest s) = 0" "s_running s = None"
    "q_count (c_fifo (cio ARM9 s)) < 16"
  shows "ipc_fifo_send ARM9 v s = set_fifo ARM9 (q_push v) s"
  using assms by (simp add: ipc_fifo_send_def no_irq_bits held_def ipc_holds_def running_is_def push_word_def
      Let_def request_if_def set_fifo_def)

lemma set_fifo_fields:
  "s_running (set_fifo w f s) = s_running s" "ipc9_pending_n (s_rest (set_fifo w f s)) = ipc9_pending_n (s_rest s)"
  "c_fifo_cnt (cio v (set_fifo w f s)) = c_fifo_cnt (cio v s)"
  "c_fifo (cio v (set_fifo w f s)) = (if v = w then f (c_fifo (cio w s)) else c_fifo (cio v s))"
  by (simp_all add: set_fifo_def) (simp_all add: upd_cio_def upd_io_def)

lemma ipc_two_eq: "ipc_two = set_fifo ARM9 (q_push 0x22) (set_fifo ARM9 (q_push 0x11) ipc_open)"
  by (simp add: ipc_two_def plain_send ipc_open_fields set_fifo_fields zero_fifo_def q_push_def)

lemma ipc_two_fields:
  "c_fifo_cnt (cio w ipc_two) = 0x8000" "ipc9_pending_n (s_rest ipc_two) = 0" "c_fifo (cio ARM7 ipc_two) = zero_fifo"
  by (simp_all add: ipc_two_eq set_fifo_fields ipc_open_fields)

text \<open>A send that finds room is one of the words of the run, and so is a read that finds one.\<close>

lemma run_accepted:
  assumes "ipc_run w s sent got t" "ipc_ok s" "channel w s = []" "overtaken w t = 0" "ipc_enabled w t"
    "length sent < length got + 16"
  shows "ipc_run w s (sent @ [v]) got (ipc_fifo_send w v t)"
proof -
  have "ipc_ok t" "length (channel w t) \<noteq> 16" using ipc_run_sent [OF assms(1-3)] assms(6) by auto
  then have "\<not> tst (ipc_fifo_cnt_read w t) 0x0002" by (simp add: status_bits)
  then show ?thesis using run_send [OF assms(1), of v] assms(4,5) by simp
qed

lemma ipc_two_run: "ipc_run ARM9 (io_reset console0) [0x11, 0x22] [] ipc_two"
proof -
  have o: "ipc_run ARM9 (io_reset console0) [] [] ipc_open"
    unfolding ipc_open_def by (intro run_control run_start) (simp_all add: no_irq_bits)
  let ?s1 = "ipc_fifo_send ARM9 0x11 ipc_open"
  have f: "c_fifo_cnt (cio ARM9 ?s1) = 0x8000" "ipc9_pending_n (s_rest ?s1) = 0"
    by (simp_all add: plain_send ipc_open_fields set_fifo_fields zero_fifo_def)
  have l: "length (ipc9_pending (s_rest console0)) = 16" by (simp add: io_zero_def)
  have "ipc_run ARM9 (io_reset console0) ([] @ [0x11]) [] ?s1"
    by (rule run_accepted [OF o reset_ipc [OF l]])
      (simp_all add: overtaken_def held_def ipc_enabled_def ipc_open_fields no_irq_bits)
  from run_accepted [OF this reset_ipc [OF l], of "0x22"] show ?thesis
    by (simp add: ipc_two_def overtaken_def held_def ipc_enabled_def f no_irq_bits)
qed

theorem ipc_in_order_delivery_witness:
  "[0x11, 0x22] = [] @ channel ARM9 ipc_two \<and> length (channel ARM9 ipc_two) \<le> 16"
  by (rule ipc_in_order_delivery [OF _ ipc_two_run]) (simp add: io_zero_def)

theorem ipc_deliver_fits_witness:
  "ipc9_pending_n (s_rest (ipc_deliver ipc_two)) = 0 \<and>
     fifo_words (c_fifo (cio ARM9 (ipc_deliver ipc_two))) = channel ARM9 ipc_two"
  using ipc_deliver_fits [OF _ ipc_two_run, of ARM9] by (simp add: io_zero_def)

theorem ipc_errors_exact_witness:
  "tst (c_fifo_cnt (cio ARM9 (snd (ipc_fifo_recv ARM9 ipc_two)))) 0x4000"
proof -
  have "ipc_ok ipc_two" using ipc_run_sent [OF ipc_two_run reset_ipc] by (simp add: io_zero_def)
  from ipc_errors_exact [OF this, of ARM9 0] show ?thesis
    by (simp add: ipc_two_fields fifo_words_def zero_fifo_def) (simp add: tst_def)
qed

end
