(* ===== verification/TimerSpec.thy ===== *)
theory TimerSpec imports IoSpec begin

text \<open>
  The timers of the I/O core (\<^verbatim>\<open>io.cpp\<close>, \<^verbatim>\<open>timer_value\<close>, \<^verbatim>\<open>timer_schedule\<close>,
  \<^verbatim>\<open>timer_overflow\<close>, \<^verbatim>\<open>timer_write_control\<close>).  A running timer is not stepped: its value
  is computed from when it was last sampled, and its overflow is an event.  The lemmas show
  that the two views agree and that rewriting the control register loses no time.
\<close>

section \<open>The value as a function of time\<close>

text \<open>The value at a time, as the register computes it, and the ticks behind it as a number.\<close>

definition timer_at :: "timer \<Rightarrow> u64 \<Rightarrow> u16" where
  "timer_at t T =
     (if \<not> t_running t \<or> t_count_up t then t_counter t
      else ucast (ucast (t_counter t) + drop_bit (prescaler_shift t) (drop_bit 1 (T - t_start t))))"

lemma timer_value_at: "timer_value w idx s = timer_at (timer_of w idx s) (now s)"
  by (simp add: timer_value_def timer_at_def Let_def)

definition timer_ticks :: "timer \<Rightarrow> u64 \<Rightarrow> nat" where
  "timer_ticks t T = (unat T - unat (t_start t)) div (2 * 2 ^ prescaler_shift t)"

lemma unat_drop64: "unat (drop_bit k (x::u64)) = unat x div 2 ^ k"
  by (simp only: unat_drop_bit_eq drop_bit_eq_div [where 'a = nat])

lemma elapsed_ticks:
  assumes "t_start t \<le> T"
  shows "unat (drop_bit (prescaler_shift t) (drop_bit 1 (T - t_start t))) = timer_ticks t T"
    "unat (drop_bit 1 (T - t_start t)) = (unat T - unat (t_start t)) div 2"
  using unat_sub [OF assms] by (simp_all only: unat_drop64 timer_ticks_def div_mult2_eq power_one_right)

lemma ucast_add_ticks: "ucast (ucast (c::u16) + x :: u64) = c + of_nat (unat x)"
proof -
  have "ucast (ucast c + x :: u64) = c + (ucast x :: u16)"
    by (simp add: word_uint_eq_iff uint_word_ariths unsigned_ucast_eq take_bit_eq_mod mod_simps mod_mod_cancel)
  also have "(ucast x :: u16) = of_nat (unat x)"
    by (simp add: word_uint_eq_iff unsigned_ucast_eq uint_word_of_int take_bit_eq_mod unsigned_of_nat)
  finally show ?thesis .
qed

lemma timer_at_ticks:
  assumes "t_running t" "\<not> t_count_up t" "t_start t \<le> T"
  shows "timer_at t T = t_counter t + of_nat (timer_ticks t T)"
  using assms(1,2) by (simp only: timer_at_def ucast_add_ticks elapsed_ticks [OF assms(3)]) simp

section \<open>The scheduled overflow is the one the counter shows\<close>

lemma timer_event_small: "idx \<le> 3 \<Longrightarrow> timer_event_id w idx < EVENT_COUNT"
  by (simp add: timer_event_id_def ev_timer0_def ev_timer7_0_def EVENT_COUNT_def)

lemma schedule_at:
  assumes "i < EVENT_COUNT"
  shows "s_at (schedule i at fn prm s) i = at" "armed i (schedule i at fn prm s)"
    "s_fn (schedule i at fn prm s) i = Some fn"
  using schedule_same [of i at fn prm s] queue_same(1) [OF schedule_same [of i at fn prm s], of i]
    schedule_queue_fields [OF assms, where at = at and fn = fn and prm = prm and s = s]
  by (simp_all add: same_queue_def)

lemma timer_schedule_at:
  assumes "idx \<le> 3" "t_running (timer_of w idx s)" "\<not> t_count_up (timer_of w idx s)"
  shows "armed (timer_event_id w idx) (timer_schedule w idx s)"
    "s_at (timer_schedule w idx s) (timer_event_id w idx) =
      t_start (timer_of w idx s) + timer_cycles (timer_of w idx s)"
  using assms schedule_at [OF timer_event_small [OF assms(1), of w]]
  by (simp_all add: timer_schedule_def Let_def timer_cycles_def)

text \<open>C38: The overflow event of a running timer is scheduled for exactly the moment the counter
  runs out: until then the register reads the start value plus the ticks since, with no
  wrap-around, and from then on start value and ticks no longer fit 16 bits; for every
  counter, prescaler and start time short of the horizon.\<close>

theorem timer_deadline_exact:
  assumes "idx \<le> 3" "t_running (timer_of w idx s)" "\<not> t_count_up (timer_of w idx s)"
    "t_start (timer_of w idx s) \<le> T" "t_start (timer_of w idx s) < horizon"
  shows "let t = timer_of w idx s; i = timer_event_id w idx; s' = timer_schedule w idx s in
    armed i s' \<and>
    (if T < s_at s' i
     then unat (timer_at t T) = unat (t_counter t) + timer_ticks t T \<and> unat (t_counter t) + timer_ticks t T < 0x10000
     else 0x10000 \<le> unat (t_counter t) + timer_ticks t T)"
proof -
  let ?t = "timer_of w idx s" and ?i = "timer_event_id w idx" and ?s = "timer_schedule w idx s"
  let ?c = "unat (t_counter ?t)" and ?p = "2 * 2 ^ prescaler_shift ?t :: nat"
  have c: "?c < 0x10000" using unsigned_less [of "t_counter ?t", where 'a = nat] by simp
  have "unat (t_start ?t + timer_cycles ?t) = unat (t_start ?t) + unat (timer_cycles ?t)"
    using unat_timer_cycles(2) [of ?t] assms(5) by (intro unat_add64) (simp add: word_less_nat_alt horizon_def)
  then have at: "unat (s_at ?s ?i) = unat (t_start ?t) + (0x10000 - ?c) * ?p"
    by (simp only: timer_schedule_at(2) [OF assms(1-3)] unat_timer_cycles(1) mult.commute [of "0x10000 - ?c"])
  have "T < s_at ?s ?i \<longleftrightarrow> unat T - unat (t_start ?t) < (0x10000 - ?c) * ?p"
    using assms(4) unfolding word_less_nat_alt word_le_nat_alt at by linarith
  also have "\<dots> \<longleftrightarrow> timer_ticks ?t T < 0x10000 - ?c"
    unfolding timer_ticks_def by (intro div_less_iff_less_mult [symmetric]) simp
  finally have iff: "T < s_at ?s ?i \<longleftrightarrow> ?c + timer_ticks ?t T < 0x10000" using c by auto
  have "unat (timer_at ?t T) = ?c + timer_ticks ?t T" if "?c + timer_ticks ?t T < 0x10000"
  proof -
    have "unat (of_nat (timer_ticks ?t T) :: u16) = timer_ticks ?t T"
      using that by (simp add: unsigned_of_nat take_bit_nat_eq_self)
    then show ?thesis using that timer_at_ticks [OF assms(2-4)] by (simp add: unat_word_ariths)
  qed
  then show ?thesis
    using iff timer_schedule_at(1) [OF assms(1-3)] by (simp add: Let_def not_less)
qed

section \<open>Rewriting the control register\<close>

lemma timer_control_timer:
  "timer_of w idx (timer_control w idx v s) =
     (let t = timer_of w idx s; was = t_running t; time = now s;
          elapsed = drop_bit 1 (time - t_start t);
          ticks = drop_bit (prescaler_shift t) elapsed;
          (rem0, t1) = (if was \<and> \<not> t_count_up t
                        then (elapsed - push_bit (prescaler_shift t) ticks,
                              t\<lparr> t_counter := ucast (ucast (t_counter t) + ticks) \<rparr>)
                        else (0, t));
          t2 = t1\<lparr> t_control := v AND 0xC7 \<rparr>;
          rm = (if prescaler_shift t2 \<noteq> prescaler_shift t
                then drop_bit (10 - prescaler_shift t2) (push_bit (10 - prescaler_shift t) rem0) else rem0);
          t3 = t2\<lparr> t_start := time - push_bit 1 rm \<rparr>
      in if \<not> was \<and> t_running t3 then t3\<lparr> t_counter := t_reload t3, t_start := time \<rparr> else t3)"
  by (simp add: timer_control_def Let_def split_beta)

text \<open>A running timer that stays running: the ticks so far go into the counter, the
  remainder, carried over to the new prescaler, into the start time.\<close>

definition carried :: "timer \<Rightarrow> u64 \<Rightarrow> nat \<Rightarrow> u64" where
  "carried t T k =
     (let e = drop_bit 1 (T - t_start t); r = e - push_bit (prescaler_shift t) (drop_bit (prescaler_shift t) e)
      in if k \<noteq> prescaler_shift t then drop_bit (10 - k) (push_bit (10 - prescaler_shift t) r) else r)"

lemma control_running:
  assumes "t_running (timer_of w idx s)" "\<not> t_count_up (timer_of w idx s)"
  shows "timer_of w idx (timer_control w idx v s) =
    (let t = timer_of w idx s; k = prescaler_shift (t\<lparr> t_control := v AND 0xC7 \<rparr>) in
     t\<lparr> t_counter := timer_at t (now s), t_control := v AND 0xC7,
        t_start := now s - push_bit 1 (carried t (now s) k) \<rparr>)"
  using assms by (simp add: timer_control_timer Let_def timer_at_def carried_def prescaler_shift_def)

lemma carried_small:
  fixes t :: timer
  assumes "t_start t \<le> T" "k \<le> 10"
  shows "unat (carried t T k) < 2 ^ k"
    "k = prescaler_shift t \<Longrightarrow> unat (carried t T k) = (unat T - unat (t_start t)) div 2 mod 2 ^ k"
proof -
  let ?e = "drop_bit 1 (T - t_start t)" and ?k = "prescaler_shift t"
  let ?r = "?e - push_bit ?k (drop_bit ?k ?e)"
  have "?r = take_bit ?k ?e" by (metis add_diff_cancel_left' bits_ident)
  then have r: "unat ?r = (unat T - unat (t_start t)) div 2 mod 2 ^ ?k"
    by (simp only: unsigned_take_bit_eq take_bit_eq_mod [where 'a = nat] elapsed_ticks(2) [OF assms(1)])
  show "k = ?k \<Longrightarrow> unat (carried t T k) = (unat T - unat (t_start t)) div 2 mod 2 ^ k"
    using r by (simp add: carried_def Let_def)
  have lt: "unat ?r < 2 ^ ?k" unfolding r by simp
  show "unat (carried t T k) < 2 ^ k"
  proof (cases "k = ?k")
    case True
    then show ?thesis using lt by (simp add: carried_def Let_def)
  next
    case False
    have k10: "2 ^ ?k * 2 ^ (10 - ?k) = (2::nat) ^ 10" "2 ^ k * 2 ^ (10 - k) = (2::nat) ^ 10"
      using shift_le [of t] assms(2) by (simp_all only: power_add [symmetric] le_add_diff_inverse)
    have "unat ?r * 2 ^ (10 - ?k) < 2 ^ ?k * 2 ^ (10 - ?k)" using lt by simp
    then have u: "unat ?r * 2 ^ (10 - ?k) < 2 ^ 10" unfolding k10 .
    have "push_bit (10 - ?k) ?r = of_nat (unat ?r * 2 ^ (10 - ?k))"
      by (simp only: of_nat_mult of_nat_power of_nat_numeral push_bit_eq_mult) simp
    then have "unat (push_bit (10 - ?k) ?r) = unat ?r * 2 ^ (10 - ?k)"
      using u by (simp only: unsigned_of_nat) (simp add: take_bit_nat_eq_self)
    then have "unat (carried t T k) = unat ?r * 2 ^ (10 - ?k) div 2 ^ (10 - k)"
      using False by (simp only: carried_def Let_def if_True unat_drop64 simp_thms)
    also have "\<dots> < 2 ^ k" using u k10(2) by (intro less_mult_imp_div_less) simp
    finally show ?thesis .
  qed
qed

lemma restarted_ticks:
  assumes "T = N + d" "unat d + 2 * unat r < 2 ^ 64" "r < 0x400"
  shows "unat (drop_bit 1 (T - (N - push_bit 1 r))) = unat d div 2 + unat (r::u64)"
proof -
  have e: "T - (N - push_bit 1 r) = d + 2 * r" by (simp add: assms(1) push_bit_eq_mult)
  moreover have "unat (2 * r) = 2 * unat r"
    using assms(2) by (simp add: unat_word_ariths)
  then have "unat (d + 2 * r) = unat d + 2 * unat r" using assms(2) by (simp add: unat_add64)
  ultimately have "unat (T - (N - push_bit 1 r)) = unat d + 2 * unat r" by (simp only: e)
  then show ?thesis unfolding unat_drop64 by simp
qed

lemma split_ticks:
  fixes D E k :: nat
  shows "E div 2 ^ k + (D div 2 + E mod 2 ^ k) div 2 ^ k = (D div 2 + E) div 2 ^ k"
proof -
  have "(D div 2 + E) div 2 ^ k = (D div 2 + E mod 2 ^ k + E div 2 ^ k * 2 ^ k) div 2 ^ k"
    by (simp add: add.assoc mod_div_mult_eq)
  also have "\<dots> = E div 2 ^ k + (D div 2 + E mod 2 ^ k) div 2 ^ k" by simp
  finally show ?thesis ..
qed

text \<open>Rewriting a running timer's control register loses no time.  If it keeps running, it reads
  the same right after the write as before it, with whatever new prescaler; and if the
  prescaler is unchanged it keeps its phase: at every later time it reads what the untouched
  timer would have read, half a bus cycle earlier at most (\<open>p\<close>, when an odd number of ARM9
  cycles had passed since it was last sampled).\<close>

theorem timer_control_keeps_time:
  fixes s :: "('x, 'w) console" and v :: u16
  assumes "t_running (timer_of w idx s)" "\<not> t_count_up (timer_of w idx s)" "t_start (timer_of w idx s) \<le> now s"
    "t_running (timer_of w idx (timer_control w idx v s))" "\<not> t_count_up (timer_of w idx (timer_control w idx v s))"
    "now s \<le> T" "T < horizon"
  shows "let t = timer_of w idx s; t' = timer_of w idx (timer_control w idx v s);
      p = (now s - t_start t) AND 1 in
    timer_at t' (now s) = timer_at t (now s) \<and>
    (if prescaler_shift t' = prescaler_shift t then timer_at t' T = timer_at t (T - p) else True)"
proof -
  let ?t = "timer_of w idx s" and ?t' = "timer_of w idx (timer_control w idx v s)" and ?N = "now s"
  define k where "k = prescaler_shift ?t'"
  define r where "r = carried ?t ?N k"
  have f: "t_counter ?t' = timer_at ?t ?N" "t_start ?t' = ?N - push_bit 1 r" 
    using control_running [OF assms(1,2), of v] by (simp_all add: Let_def r_def k_def prescaler_shift_def)
  have k: "k \<le> 10" by (simp add: k_def shift_le)
  have r: "unat r < 2 ^ k" unfolding r_def by (rule carried_small(1) [OF assms(3) k])
  have "(2::nat) ^ k \<le> 2 ^ 10" using k by (intro power_increasing) simp_all
  then have r10: "unat r < 1024" using r by simp
  have at': "timer_at ?t' U = t_counter ?t' + of_nat ((unat (U - ?N) div 2 + unat r) div 2 ^ k)"
    if "?N \<le> U" "U < horizon" for U
  proof -
    have "unat (U - ?N) < 2 ^ 63" using that(2) unat_sub [OF that(1)] by (simp add: word_less_nat_alt horizon_def)
    then have "unat (drop_bit 1 (U - t_start ?t')) = unat (U - ?N) div 2 + unat r"
      unfolding f(2) using r10 by (intro restarted_ticks) (simp_all add: word_less_nat_alt)
    then have "unat (drop_bit k (drop_bit 1 (U - t_start ?t'))) = (unat (U - ?N) div 2 + unat r) div 2 ^ k"
      unfolding unat_drop64 [of k] by (rule arg_cong)
    then show ?thesis
      using assms(4,5) by (simp only: timer_at_def ucast_add_ticks k_def [symmetric] if_False simp_thms)
  qed
  have N: "?N < horizon" using assms(6,7) by order
  have "timer_at ?t' ?N = timer_at ?t ?N" using at' [of ?N] N r by (simp add: f(1))
  moreover have "timer_at ?t' T = timer_at ?t (T - ((?N - t_start ?t) AND 1))" if same: "k = prescaler_shift ?t"
  proof -
    let ?S = "unat (t_start ?t)" and ?p = "(?N - t_start ?t) AND 1"
    have ord: "?S \<le> unat ?N" "unat ?N \<le> unat T" using assms(3,6) by (simp_all add: word_le_nat_alt)
    have p: "unat ?p = (unat ?N - ?S) mod 2"
      using unat_and_mask [of "?N - t_start ?t" 1] unat_sub [OF assms(3)] by (simp add: mask_eq_exp_minus_1)
    then have pT: "unat ?p \<le> unat T - ?S" using ord by (metis diff_le_mono mod_less_eq_dividend order_trans)
    then have Tp: "unat (T - ?p) = unat T - unat ?p" using ord by (intro unat_sub) (simp add: word_le_nat_alt)
    then have le: "t_start ?t \<le> T - ?p" using pT ord by (simp add: word_le_nat_alt)
    have "unat T - unat ?p - ?S = (unat T - unat ?N) + (unat ?N - ?S) div 2 * 2"
      using ord p by (simp add: minus_mod_eq_div_mult [symmetric])
    then have "timer_ticks ?t (T - ?p) = ((unat T - unat ?N) div 2 + (unat ?N - ?S) div 2) div 2 ^ k"
      unfolding timer_ticks_def Tp same [symmetric] div_mult2_eq by (simp add: add.commute)
    moreover have "unat r = (unat ?N - ?S) div 2 mod 2 ^ k"
      unfolding r_def by (rule carried_small(2) [OF assms(3) k same])
    ultimately show ?thesis
      using at' [OF assms(6,7)] split_ticks [of "(unat ?N - ?S) div 2" k "unat T - unat ?N"]
        timer_at_ticks [OF assms(1-3)] timer_at_ticks [OF assms(1,2) le] unat_sub [OF assms(6)]
      by (simp add: f(1) timer_ticks_def same [symmetric] div_mult2_eq add.assoc flip: of_nat_add)
  qed
  ultimately show ?thesis by (simp add: Let_def k_def)
qed

section \<open>A concrete timer\<close>

text \<open>Timer 0 of the ARM9, started at 0xFF00 with prescaler 64, at time 0.\<close>

definition timer_console :: "(unit, unit) console" where
  "timer_console = upd_timer ARM9 0 (\<lambda>t. t\<lparr> t_counter := 0xFF00, t_control := 0x81 \<rparr>) console0"

lemma timer_console_timer:
  "timer_of ARM9 0 timer_console = \<lparr> t_reload = 0, t_control = 0x81, t_counter = 0xFF00, t_start = 0 \<rparr>"
  by (simp add: timer_console_def timer_of_def upd_timer_def) (simp add: cio_def io_zero_def zero_cpu_io_def zero_timer_def)

lemma timer_console_running:
  "t_running (timer_of ARM9 0 timer_console)" "\<not> t_count_up (timer_of ARM9 0 timer_console)"
  "t_start (timer_of ARM9 0 timer_console) = 0" "prescaler_shift (timer_of ARM9 0 timer_console) = 6"
  by (simp_all add: timer_console_timer t_running_def t_count_up_def tst_def prescaler_shift_def)

theorem timer_deadline_exact_witness:
  "unat (timer_at (timer_of ARM9 0 timer_console) 0x1000) = 0xFF00 + 0x20"
proof -
  have "s_at (timer_schedule ARM9 0 timer_console) (timer_event_id ARM9 0) = 0x8000"
    using timer_schedule_at(2) [of 0 ARM9 timer_console] timer_console_running
    by (simp add: timer_cycles_def timer_console_timer)
  then show ?thesis
    using timer_deadline_exact [of 0 ARM9 timer_console "0x1000"] timer_console_running
    by (simp add: horizon_def timer_ticks_def timer_console_timer Let_def)
qed

theorem timer_control_keeps_time_witness:
  "timer_at (timer_of ARM9 0 (timer_control ARM9 0 0xC1 timer_console)) 0x1000 =
     timer_at (timer_of ARM9 0 timer_console) 0x1000"
proof -
  have n: "now timer_console = 0" by (simp add: now_def timer_console_def upd_timer_def upd_cio_def upd_io_def)
  have c: "timer_of ARM9 0 (timer_control ARM9 0 0xC1 timer_console) =
      \<lparr> t_reload = 0, t_control = 0xC1, t_counter = 0xFF00, t_start = 0 \<rparr>"
    using control_running [OF timer_console_running(1,2), of "0xC1"]
    by (simp add: Let_def n timer_at_def carried_def timer_console_timer prescaler_shift_def)
  show ?thesis
    using timer_control_keeps_time [OF timer_console_running(1,2), of "0xC1" "0x1000"] timer_console_running
    by (simp add: c n horizon_def Let_def t_running_def t_count_up_def tst_def prescaler_shift_def)
qed

end
