(* ===== verification/Rtc.thy ===== *)
theory Rtc imports Prelude begin

text \<open>
  The real-time clock (\<^verbatim>\<open>struct Rtc\<close> in \<^verbatim>\<open>src/core/io/io.h\<close>; \<^verbatim>\<open>rtc_tick\<close>, \<^verbatim>\<open>rtc_seed\<close>,
  \<^verbatim>\<open>rtc_event\<close>, \<^verbatim>\<open>rtc_cmd_read\<close>, \<^verbatim>\<open>rtc_cmd_write\<close>, \<^verbatim>\<open>rtc_byte_in\<close> and
  \<^verbatim>\<open>rtc_write\<close> in \<^verbatim>\<open>io.cpp\<close>): BCD date and time, one-second carries, and the three-wire
  serial port the ARM7 bit-bangs.  The arrays are lists of their fixed lengths; the host's
  local time and the scheduler's clock are arguments, and whether the handler re-arms its
  event is part of the result.
\<close>

section \<open>State\<close>

record rtc =
  rtc_io :: u16
  rtc_input :: u8
  rtc_input_bit :: nat
  rtc_input_pos :: u8
  rtc_output :: "u8 list"
  rtc_output_bit :: nat
  rtc_output_pos :: nat
  rtc_cmd :: u8
  rtc_status1 :: u8
  rtc_status2 :: u8
  rtc_datetime :: "u8 list"
  rtc_alarm1 :: "u8 list"
  rtc_alarm2 :: "u8 list"
  rtc_clock_adjust :: u8
  rtc_free_reg :: u8
  rtc_ticking :: bool
  rtc_next_tick :: u64
  rtc_power_lost_seen :: bool

definition rtc_init :: rtc where
  "rtc_init = \<lparr> rtc_io = 0, rtc_input = 0, rtc_input_bit = 0, rtc_input_pos = 0, rtc_output = replicate 8 0,
     rtc_output_bit = 0, rtc_output_pos = 0, rtc_cmd = 0, rtc_status1 = 0x82, rtc_status2 = 0,
     rtc_datetime = [0, 1, 1, 0, 0, 0, 0], rtc_alarm1 = replicate 3 0, rtc_alarm2 = replicate 3 0,
     rtc_clock_adjust = 0, rtc_free_reg = 0, rtc_ticking = False, rtc_next_tick = 0,
     rtc_power_lost_seen = False \<rparr>"

section \<open>Time\<close>

definition ARM9_CLOCK_HZ :: u64 where "ARM9_CLOCK_HZ = 67027964"

definition to_bcd :: "nat \<Rightarrow> u8" where
  "to_bcd v = of_nat ((v div 10 mod 10) * 16 + v mod 10)"

definition from_bcd :: "u8 \<Rightarrow> nat" where
  "from_bcd v = unat (drop_bit 4 v) * 10 + unat (v AND 0x0F)"

definition month_len :: "nat list" where
  "month_len = [31, 31, 28, 31, 30, 31, 30, 31, 31, 30, 31, 30, 31]"

definition set_dt :: "nat \<Rightarrow> u8 \<Rightarrow> rtc \<Rightarrow> rtc" where
  "set_dt i v r = r\<lparr> rtc_datetime := (rtc_datetime r)[i := v] \<rparr>"

definition dt :: "nat \<Rightarrow> rtc \<Rightarrow> u8" where
  "dt i r = rtc_datetime r ! i"

text \<open>The last carries of a tick: the day has run out of hours.\<close>

definition tick_day :: "rtc \<Rightarrow> rtc" where
  "tick_day r =
     (let year = from_bcd (dt 0 r); month = from_bcd (dt 1 r);
          days = (if month = 2 \<and> year mod 4 = 0 then 29
                  else month_len ! (if 1 \<le> month \<and> month \<le> 12 then month else 1));
          day = from_bcd (dt 2 r) + 1
      in if day \<le> days then set_dt 2 (to_bcd day) r
         else
           (let r1 = set_dt 2 (to_bcd 1) r
            in if month < 12 then set_dt 1 (to_bcd (month + 1)) r1
               else set_dt 0 (to_bcd ((year + 1) mod 100)) (set_dt 1 (to_bcd 1) r1)))"

definition rtc_tick :: "rtc \<Rightarrow> rtc" where
  "rtc_tick r =
     (let sec = from_bcd (dt 6 r) + 1 in
      if sec < 60 then set_dt 6 (to_bcd sec) r
      else
        (let r1 = set_dt 6 0 r; mins = from_bcd (dt 5 r1) + 1 in
         if mins < 60 then set_dt 5 (to_bcd mins) r1
         else
           (let r2 = set_dt 5 0 r1; pm = dt 4 r2 AND 0x40; hour = from_bcd (dt 4 r2 AND 0x3F) + 1 in
            if hour < 24 then set_dt 4 (to_bcd hour OR pm) r2
            else
              (let r3 = set_dt 4 pm r2
               in tick_day (set_dt 3 (of_nat ((unat (dt 3 r3) + 1) mod 7)) r3)))))"

text \<open>The broken-down local time the host hands over.\<close>

record tm =
  tm_year :: nat
  tm_mon :: nat
  tm_mday :: nat
  tm_wday :: nat
  tm_hour :: nat
  tm_min :: nat
  tm_sec :: nat

definition rtc_seed :: "tm \<Rightarrow> u64 \<Rightarrow> rtc \<Rightarrow> rtc" where
  "rtc_seed lt time r = r\<lparr>
     rtc_datetime := [to_bcd (tm_year lt mod 100), to_bcd (tm_mon lt + 1), to_bcd (tm_mday lt),
       of_nat (tm_wday lt), to_bcd (tm_hour lt), to_bcd (tm_min lt), to_bcd (min (tm_sec lt) 59)],
     rtc_status1 := 0x02, rtc_ticking := True, rtc_next_tick := time + ARM9_CLOCK_HZ \<rparr>"

text \<open>The do-while loop of \<^verbatim>\<open>rtc_event\<close>; \<open>None\<close> is out of fuel.\<close>

fun rtc_catch_up :: "nat \<Rightarrow> u64 \<Rightarrow> rtc \<Rightarrow> rtc option" where
  "rtc_catch_up 0 time r = None"
| "rtc_catch_up (Suc fuel) time r =
     (let r1 = rtc_tick r; r2 = r1\<lparr> rtc_next_tick := rtc_next_tick r1 + ARM9_CLOCK_HZ \<rparr>
      in if rtc_next_tick r2 \<le> time then rtc_catch_up fuel time r2 else Some r2)"

text \<open>The handler, and the deadline it re-arms its event for.\<close>

definition rtc_event :: "nat \<Rightarrow> u64 \<Rightarrow> rtc \<Rightarrow> (rtc \<times> u64 option) option" where
  "rtc_event fuel time r =
     (if \<not> rtc_ticking r then Some (r, None)
      else map_option (\<lambda>r'. (r', Some (rtc_next_tick r'))) (rtc_catch_up fuel time r))"

section \<open>The serial port\<close>

text \<open>\<^verbatim>\<open>memcpy\<close> to the start of the output buffer.\<close>

definition copy_out :: "u8 list \<Rightarrow> rtc \<Rightarrow> rtc" where
  "copy_out xs r = r\<lparr> rtc_output := xs @ drop (length xs) (rtc_output r) \<rparr>"

definition rtc_cmd_read :: "rtc \<Rightarrow> rtc" where
  "rtc_cmd_read r =
     (let sel = rtc_cmd r AND 0x70 in
      if rtc_cmd r AND 0x0F \<noteq> 0x06 then r
      else if sel = 0x00 then
        (let r1 = copy_out [rtc_status1 r] r;
             r2 = (if tst (rtc_status1 r1) 0x80 then r1\<lparr> rtc_power_lost_seen := True \<rparr> else r1)
         in r2\<lparr> rtc_status1 := rtc_status1 r2 AND 0x0F \<rparr>)
      else if sel = 0x40 then copy_out [rtc_status2 r] r
      else if sel = 0x20 then copy_out (take 7 (rtc_datetime r)) r
      else if sel = 0x60 then copy_out (take 3 (drop 4 (rtc_datetime r))) r
      else if sel = 0x10 then copy_out (if tst (rtc_status2 r) 0x04 then rtc_alarm1 r else [rtc_alarm1 r ! 2]) r
      else if sel = 0x50 then copy_out (rtc_alarm2 r) r
      else if sel = 0x30 then copy_out [rtc_clock_adjust r] r
      else copy_out [rtc_free_reg r] r)"

definition rtc_cmd_write :: "u8 \<Rightarrow> rtc \<Rightarrow> rtc" where
  "rtc_cmd_write v r =
     (let sel = rtc_cmd r AND 0x70; pos = unat (rtc_input_pos r) in
      if rtc_cmd r AND 0x0F \<noteq> 0x06 then r
      else if sel = 0x00 then
        (if pos = 1
         then (let r1 = (if tst v 1
                         then r\<lparr> rtc_status1 := 0, rtc_status2 := 0, rtc_datetime := [0, 1, 1, 0, 0, 0, 0] \<rparr> else r)
               in r1\<lparr> rtc_status1 := (rtc_status1 r1 AND 0xF0) OR (v AND 0x0E) \<rparr>)
         else r)
      else if sel = 0x40 then (if pos = 1 then r\<lparr> rtc_status2 := v \<rparr> else r)
      else if sel = 0x20 then (if 1 \<le> pos \<and> pos \<le> 7 then set_dt (pos - 1) v r else r)
      else if sel = 0x60 then (if 1 \<le> pos \<and> pos \<le> 3 then set_dt (3 + pos) v r else r)
      else if sel = 0x10 then
        (if tst (rtc_status2 r) 0x04
         then (if 1 \<le> pos \<and> pos \<le> 3 then r\<lparr> rtc_alarm1 := (rtc_alarm1 r)[pos - 1 := v] \<rparr> else r)
         else if pos = 1 then r\<lparr> rtc_alarm1 := (rtc_alarm1 r)[2 := v] \<rparr> else r)
      else if sel = 0x50 then
        (if 1 \<le> pos \<and> pos \<le> 3 then r\<lparr> rtc_alarm2 := (rtc_alarm2 r)[pos - 1 := v] \<rparr> else r)
      else if sel = 0x30 then (if pos = 1 then r\<lparr> rtc_clock_adjust := v \<rparr> else r)
      else (if pos = 1 then r\<lparr> rtc_free_reg := v \<rparr> else r))"

definition rtc_rev :: "u8 list" where
  "rtc_rev = [0x06, 0x86, 0x46, 0xC6, 0x26, 0xA6, 0x66, 0xE6, 0x16, 0x96, 0x56, 0xD6, 0x36, 0xB6, 0x76, 0xF6]"

definition rtc_byte_in :: "u8 \<Rightarrow> rtc \<Rightarrow> rtc" where
  "rtc_byte_in v r =
     (if rtc_input_pos r = 0
      then (let r1 = r\<lparr> rtc_cmd := (if v AND 0xF0 = 0x60 then rtc_rev ! unat (v AND 0xF) else v) \<rparr>
            in if tst (rtc_cmd r1) 0x80 then rtc_cmd_read r1 else r1)
      else rtc_cmd_write v r)"

text \<open>One clock edge with the host driving the line, and one with the clock chip driving it.\<close>

definition rtc_bit_in :: "bool \<Rightarrow> rtc \<Rightarrow> rtc" where
  "rtc_bit_in b r =
     (let r1 = (if b then r\<lparr> rtc_input := rtc_input r OR push_bit (rtc_input_bit r) 1 \<rparr> else r);
          r2 = r1\<lparr> rtc_input_bit := rtc_input_bit r1 + 1 \<rparr>
      in if 8 \<le> rtc_input_bit r2
         then (let r3 = rtc_byte_in (rtc_input r2) (r2\<lparr> rtc_input_bit := 0 \<rparr>)
               in r3\<lparr> rtc_input := 0, rtc_input_pos := rtc_input_pos r3 + 1 \<rparr>)
         else r2)"

definition rtc_bit_out :: "rtc \<Rightarrow> rtc" where
  "rtc_bit_out r =
     (let r1 = r\<lparr> rtc_io := (if bit (rtc_output r ! rtc_output_pos r) (rtc_output_bit r)
                            then rtc_io r OR 1 else rtc_io r AND 0xFFFE),
                 rtc_output_bit := rtc_output_bit r + 1 \<rparr>
      in if 8 \<le> rtc_output_bit r1
         then r1\<lparr> rtc_output_bit := 0,
                  rtc_output_pos := (if rtc_output_pos r1 < 7 then rtc_output_pos r1 + 1 else rtc_output_pos r1) \<rparr>
         else r1)"

definition rtc_start :: "rtc \<Rightarrow> rtc" where
  "rtc_start r = r\<lparr> rtc_input := 0, rtc_input_bit := 0, rtc_input_pos := 0, rtc_output := replicate 8 0,
     rtc_output_bit := 0, rtc_output_pos := 0 \<rparr>"

definition rtc_write :: "u16 \<Rightarrow> bool \<Rightarrow> rtc \<Rightarrow> rtc" where
  "rtc_write value0 is_byte r =
     (let v = (if is_byte then value0 OR (rtc_io r AND 0xFF00) else value0);
          r1 = (if tst v 0x0004
                then (if \<not> tst (rtc_io r) 0x0004 then rtc_start r
                      else if \<not> tst v 0x0002
                        then (if tst v 0x0010 then rtc_bit_in (tst v 1) r else rtc_bit_out r)
                        else r)
                else r)
      in r1\<lparr> rtc_io := (if tst v 0x0010 then v else (rtc_io r1 AND 0x0001) OR (v AND 0xFFFE)) \<rparr>)"

text \<open>The clock's part of \<^verbatim>\<open>Io::reset\<close>: the host clock is read again, or power loss forgotten.\<close>

definition rtc_reset :: "bool \<Rightarrow> tm \<Rightarrow> u64 \<Rightarrow> rtc \<Rightarrow> rtc" where
  "rtc_reset host_clock lt time r =
     (let r1 = rtc_init\<lparr> rtc_power_lost_seen := rtc_power_lost_seen r \<rparr>
      in if host_clock then rtc_seed lt time r1
         else if rtc_power_lost_seen r1 then r1\<lparr> rtc_status1 := 0x02 \<rparr> else r1)"

end
