(* ===== verification/RtcSpec.thy ===== *)
theory RtcSpec imports Rtc begin

text \<open>
  The real-time clock against a calendar: a tick is one second of the years 2000 to 2099,
  with day of the week and leap years; catching up adds exactly the seconds that have
  passed; and the serial port moves whole bytes, least significant bit first.
\<close>

section \<open>BCD\<close>

lemma bcd_table:
  "list_all (\<lambda>v. from_bcd (to_bcd v) = v \<and>
     (v < 24 \<longrightarrow> (to_bcd v OR 0x40) AND 0x3F = to_bcd v \<and> (to_bcd v OR 0x40) AND 0x40 = 0x40 \<and>
       to_bcd v AND 0x3F = to_bcd v \<and> to_bcd v AND 0x40 = 0)) [0..<100]"
  by code_simp

lemma from_to_bcd: "v < 100 \<Longrightarrow> from_bcd (to_bcd v) = v"
  using bcd_table by (simp add: list_all_iff)

text \<open>The hour byte carries a flag in bit 6.\<close>

definition hour_byte :: "nat \<Rightarrow> bool \<Rightarrow> u8" where
  "hour_byte h pm = (if pm then to_bcd h OR 0x40 else to_bcd h)"

lemma hour_byte_parts:
  assumes "h < 24"
  shows "hour_byte h pm AND 0x3F = to_bcd h" "hour_byte h pm AND 0x40 = (if pm then 0x40 else 0)"
proof -
  have "h \<in> set [0..<100]" using assms by simp
  then show "hour_byte h pm AND 0x3F = to_bcd h" "hour_byte h pm AND 0x40 = (if pm then 0x40 else 0)"
    using bcd_table assms unfolding list_all_iff hour_byte_def by auto
qed

section \<open>The calendar\<close>

record civil =
  cv_year :: nat
  cv_month :: nat
  cv_day :: nat
  cv_wday :: nat
  cv_hour :: nat
  cv_min :: nat
  cv_sec :: nat

definition month_days :: "nat \<Rightarrow> nat \<Rightarrow> nat" where
  "month_days y m = (if m = 2 \<and> y mod 4 = 0 then 29 else month_len ! m)"

definition civil_ok :: "civil \<Rightarrow> bool" where
  "civil_ok c \<longleftrightarrow> cv_year c < 100 \<and> 1 \<le> cv_month c \<and> cv_month c \<le> 12 \<and> 1 \<le> cv_day c \<and>
     cv_day c \<le> month_days (cv_year c) (cv_month c) \<and> cv_wday c < 7 \<and> cv_hour c < 24 \<and>
     cv_min c < 60 \<and> cv_sec c < 60"

text \<open>Days since 1 January 2000, and seconds since its midnight.\<close>

definition day_number :: "civil \<Rightarrow> nat" where
  "day_number c = 365 * cv_year c + (cv_year c + 3) div 4 +
     sum_list (map (month_days (cv_year c)) [1..<cv_month c]) + (cv_day c - 1)"

definition second_number :: "civil \<Rightarrow> nat" where
  "second_number c = ((day_number c * 24 + cv_hour c) * 60 + cv_min c) * 60 + cv_sec c"

definition century :: nat where "century = 36525 * 24 * 60 * 60"

text \<open>The clock shows a date and time.\<close>

definition encode :: "civil \<Rightarrow> bool \<Rightarrow> u8 list" where
  "encode c pm = [to_bcd (cv_year c), to_bcd (cv_month c), to_bcd (cv_day c), of_nat (cv_wday c),
     hour_byte (cv_hour c) pm, to_bcd (cv_min c), to_bcd (cv_sec c)]"

definition clock_shows :: "civil \<Rightarrow> rtc \<Rightarrow> bool" where
  "clock_shows c r \<longleftrightarrow> civil_ok c \<and> (rtc_datetime r = encode c False \<or> rtc_datetime r = encode c True)"

text \<open>What a second, and a day, do to a date.\<close>

definition next_day :: "civil \<Rightarrow> civil" where
  "next_day c =
     (if cv_day c < month_days (cv_year c) (cv_month c) then c\<lparr> cv_day := cv_day c + 1 \<rparr>
      else if cv_month c < 12 then c\<lparr> cv_day := 1, cv_month := cv_month c + 1 \<rparr>
      else c\<lparr> cv_day := 1, cv_month := 1, cv_year := (cv_year c + 1) mod 100 \<rparr>)"

definition next_second :: "civil \<Rightarrow> civil" where
  "next_second c =
     (if cv_sec c < 59 then c\<lparr> cv_sec := cv_sec c + 1 \<rparr>
      else if cv_min c < 59 then c\<lparr> cv_sec := 0, cv_min := cv_min c + 1 \<rparr>
      else if cv_hour c < 23 then c\<lparr> cv_sec := 0, cv_min := 0, cv_hour := cv_hour c + 1 \<rparr>
      else next_day (c\<lparr> cv_sec := 0, cv_min := 0, cv_hour := 0, cv_wday := (cv_wday c + 1) mod 7 \<rparr>))"

lemma month_cases:
  fixes m :: nat
  assumes "1 \<le> m" "m \<le> 12"
  shows "m = 1 \<or> m = 2 \<or> m = 3 \<or> m = 4 \<or> m = 5 \<or> m = 6 \<or> m = 7 \<or> m = 8 \<or> m = 9 \<or> m = 10 \<or> m = 11 \<or> m = 12"
  using assms by presburger

lemma month_days_range: "1 \<le> m \<Longrightarrow> m \<le> 12 \<Longrightarrow> 28 \<le> month_days y m \<and> month_days y m \<le> 31"
  by (drule (1) month_cases, elim disjE) (simp_all add: month_days_def month_len_def)

lemma year_days: "sum_list (map (month_days y) [1..<13]) = 365 + (if y mod 4 = 0 then 1 else 0)"
  by (simp add: upt_conv_Cons month_days_def month_len_def)

lemma leap_step: "(y + 4) div 4 = (y + 3) div 4 + (if y mod 4 = 0 then 1 else (0::nat))"
proof -
  obtain q r where "y = 4 * q + r" "r < 4" using mult_div_mod_eq [of 4 y] by (metis mod_less_divisor zero_less_numeral)
  then have "r \<in> {0, 1, 2, 3}" "y = 4 * q + r" by auto
  then show ?thesis by auto
qed

text \<open>A day later is one more day, and the 36525 days of the century wrap.\<close>

lemma months_before: "m \<le> 13 \<Longrightarrow> 1 \<le> m \<Longrightarrow>
  sum_list (map (month_days y) [1..<m]) + sum_list (map (month_days y) [m..<13]) =
    365 + (if y mod 4 = 0 then 1 else 0)"
  using upt_add_eq_append [of 1 m "13 - m"] year_days [of y] by (simp flip: sum_list_append map_append)

lemma day_number_less:
  assumes "civil_ok c"
  shows "day_number c < 36525"
proof -
  let ?y = "cv_year c" and ?m = "cv_month c"
  have ok: "?y < 100" "1 \<le> ?m" "?m \<le> 12" "cv_day c \<le> month_days ?y ?m" "1 \<le> cv_day c"
    using assms by (simp_all add: civil_ok_def)
  have "month_days ?y ?m \<le> sum_list (map (month_days ?y) [?m..<13])"
    using ok by (simp add: upt_conv_Cons)
  then have "day_number c < 365 * ?y + (?y + 3) div 4 + (365 + (if ?y mod 4 = 0 then 1 else 0))"
    using months_before [OF _ ok(2), of ?y] ok by (simp add: day_number_def)
  also have "\<dots> = 365 * (?y + 1) + (?y + 4) div 4" using leap_step [of ?y] by simp
  also have "\<dots> \<le> 365 * 100 + 103 div 4" using ok(1) by (intro add_mono mult_le_mono div_le_mono) simp_all
  finally show ?thesis by simp
qed

lemma next_day_number:
  assumes "civil_ok c"
  shows "civil_ok (next_day c)" "day_number (next_day c) = (day_number c + 1) mod 36525"
proof -
  let ?y = "cv_year c" and ?m = "cv_month c"
  have ok: "?y < 100" "1 \<le> ?m" "?m \<le> 12" "cv_day c \<le> month_days ?y ?m" "1 \<le> cv_day c"
    using assms by (simp_all add: civil_ok_def)
  note len = month_days_range [of _ ?y] 
  have "civil_ok (next_day c) \<and> day_number (next_day c) = (day_number c + 1) mod 36525"
  proof (cases "cv_day c < month_days ?y ?m")
    case True
    let ?d = "c\<lparr> cv_day := cv_day c + 1 \<rparr>"
    have d: "civil_ok ?d" using assms True by (simp add: civil_ok_def)
    have "day_number ?d = day_number c + 1" using ok by (simp add: day_number_def)
    with d day_number_less [OF d] True show ?thesis by (simp add: next_day_def)
  next
    case last: False
    then have day: "cv_day c = month_days ?y ?m" using ok by simp
    show ?thesis
    proof (cases "?m < 12")
      case True
      let ?d = "c\<lparr> cv_day := 1, cv_month := ?m + 1 \<rparr>"
      have d: "civil_ok ?d" using assms True month_days_range [of "?m + 1" ?y] by (simp add: civil_ok_def)
      have "day_number ?d = day_number c + 1" using ok day by (simp add: day_number_def)
      with d day_number_less [OF d] True last show ?thesis by (simp add: next_day_def)
    next
      case False
      then have m: "?m = 12" using ok by simp
      let ?d = "c\<lparr> cv_day := 1, cv_month := 1, cv_year := (?y + 1) mod 100 \<rparr>"
      have d: "civil_ok ?d" using assms by (auto simp: civil_ok_def month_days_def month_len_def)
      have n: "day_number c + 1 = 365 * (?y + 1) + (?y + 4) div 4"
        using months_before [of 12 ?y] leap_step [of ?y] day m ok by (simp add: day_number_def)
      have "day_number ?d = (day_number c + 1) mod 36525"
      proof (cases "?y = 99")
        case True
        then show ?thesis unfolding n by (simp add: day_number_def)
      next
        case False
        then have "day_number ?d = day_number c + 1" using ok(1) unfolding n by (simp add: day_number_def)
        then show ?thesis using day_number_less [OF d] by simp
      qed
      with d m last show ?thesis by (simp add: next_day_def)
    qed
  qed
  then show "civil_ok (next_day c)" "day_number (next_day c) = (day_number c + 1) mod 36525" by blast+
qed

lemma next_day_fields [simp]:
  "cv_hour (next_day c) = cv_hour c" "cv_min (next_day c) = cv_min c" "cv_sec (next_day c) = cv_sec c"
  "cv_wday (next_day c) = cv_wday c"
  by (simp_all add: next_day_def)

text \<open>Within the day.\<close>

definition second_of_day :: "civil \<Rightarrow> nat" where
  "second_of_day c = (cv_hour c * 60 + cv_min c) * 60 + cv_sec c"

lemma second_number_split: "second_number c = day_number c * 86400 + second_of_day c"
  by (simp add: second_number_def second_of_day_def)

lemma next_second_cases:
  assumes "civil_ok c"
  shows "(second_of_day c < 86399 \<and> civil_ok (next_second c) \<and> day_number (next_second c) = day_number c \<and>
      cv_wday (next_second c) = cv_wday c \<and> second_of_day (next_second c) = second_of_day c + 1) \<or>
    (second_of_day c = 86399 \<and> civil_ok (next_second c) \<and> day_number (next_second c) = (day_number c + 1) mod 36525 \<and>
      cv_wday (next_second c) = (cv_wday c + 1) mod 7 \<and> second_of_day (next_second c) = 0)"
proof -
  have ok: "cv_hour c < 24" "cv_min c < 60" "cv_sec c < 60" using assms by (simp_all add: civil_ok_def)
  consider "cv_sec c < 59" | "cv_sec c = 59" "cv_min c < 59" | "cv_sec c = 59" "cv_min c = 59" "cv_hour c < 23"
    | "cv_sec c = 59" "cv_min c = 59" "cv_hour c = 23"
    using ok by linarith
  then show ?thesis
  proof cases
    case 1
    then show ?thesis using assms ok
      by (intro disjI1) (simp add: next_second_def civil_ok_def day_number_def second_of_day_def)
  next
    case 2
    then show ?thesis using assms ok
      by (intro disjI1) (simp add: next_second_def civil_ok_def day_number_def second_of_day_def)
  next
    case 3
    then show ?thesis using assms ok
      by (intro disjI1) (simp add: next_second_def civil_ok_def day_number_def second_of_day_def)
  next
    case 4
    let ?m = "c\<lparr> cv_sec := 0, cv_min := 0, cv_hour := 0, cv_wday := (cv_wday c + 1) mod 7 \<rparr>"
    have m: "civil_ok ?m" "day_number ?m = day_number c" using assms by (simp_all add: civil_ok_def day_number_def)
    have "next_second c = next_day ?m" using 4 by (simp add: next_second_def)
    then show ?thesis using 4 next_day_number [OF m(1)] m(2)
      by (intro disjI2) (simp add: second_of_day_def)
  qed
qed

lemma next_second_number:
  assumes "civil_ok c"
  shows "civil_ok (next_second c)" "second_number (next_second c) = (second_number c + 1) mod century"
    "cv_wday (next_second c) =
      (cv_wday c + ((second_number c + 1) div 86400 - second_number c div 86400)) mod 7"
proof -
  let ?n = "next_second c"
  note day = day_number_less [OF assms]
  have w: "cv_wday c < 7" using assms by (simp add: civil_ok_def)
  have "civil_ok ?n \<and> second_number ?n = (second_number c + 1) mod century \<and>
    cv_wday ?n = (cv_wday c + ((second_number c + 1) div 86400 - second_number c div 86400)) mod 7"
    using next_second_cases [OF assms]
  proof (elim disjE conjE)
    assume s: "second_of_day c < 86399" "civil_ok ?n" "day_number ?n = day_number c" "cv_wday ?n = cv_wday c"
      "second_of_day ?n = second_of_day c + 1"
    have "second_number ?n = second_number c + 1" using s by (simp add: second_number_split)
    moreover have "second_number c + 1 < century" using s day by (simp add: second_number_split century_def)
    moreover have "(second_number c + 1) div 86400 = day_number c" "second_number c div 86400 = day_number c"
      using s by (simp_all add: second_number_split div_nat_eqI)
    ultimately show ?thesis using s w by simp
  next
    assume s: "second_of_day c = 86399" "civil_ok ?n" "day_number ?n = (day_number c + 1) mod 36525"
      "cv_wday ?n = (cv_wday c + 1) mod 7" "second_of_day ?n = 0"
    have n: "second_number c + 1 = (day_number c + 1) * 86400" using s by (simp add: second_number_split)
    have "second_number ?n = (second_number c + 1) mod century"
      unfolding n using s mult_mod_left [of "day_number c + 1" 36525 86400] by (simp add: second_number_split century_def)
    moreover have "(second_number c + 1) div 86400 = day_number c + 1" unfolding n by simp
    moreover have "second_number c div 86400 = day_number c"
      using s by (simp add: second_number_split div_nat_eqI)
    ultimately show ?thesis using s by simp
  qed
  then show "civil_ok ?n" "second_number ?n = (second_number c + 1) mod century"
    "cv_wday ?n = (cv_wday c + ((second_number c + 1) div 86400 - second_number c div 86400)) mod 7" by blast+
qed

section \<open>A tick is a second\<close>

lemma encode_parts:
  assumes "civil_ok c" "rtc_datetime r = encode c pm"
  shows "from_bcd (dt 0 r) = cv_year c" "from_bcd (dt 1 r) = cv_month c" "from_bcd (dt 2 r) = cv_day c"
    "unat (dt 3 r) = cv_wday c" "from_bcd (dt 4 r AND 0x3F) = cv_hour c"
    "dt 4 r AND 0x40 = (if pm then 0x40 else 0)" "from_bcd (dt 5 r) = cv_min c" "from_bcd (dt 6 r) = cv_sec c"
proof -
  have b: "cv_year c < 100" "cv_month c < 100" "cv_day c < 100" "cv_wday c < 256" "cv_hour c < 24" "cv_min c < 100" "cv_sec c < 100"
    using assms(1) month_days_range [of "cv_month c" "cv_year c"] by (auto simp: civil_ok_def)
  show "from_bcd (dt 0 r) = cv_year c" "from_bcd (dt 1 r) = cv_month c" "from_bcd (dt 2 r) = cv_day c"
    "from_bcd (dt 5 r) = cv_min c" "from_bcd (dt 6 r) = cv_sec c"
    using assms(2) b by (simp_all add: dt_def encode_def from_to_bcd)
  show "unat (dt 3 r) = cv_wday c"
    using assms(2) b by (simp add: dt_def encode_def unsigned_of_nat take_bit_nat_eq_self)
  show "from_bcd (dt 4 r AND 0x3F) = cv_hour c" "dt 4 r AND 0x40 = (if pm then 0x40 else 0)"
    using assms(2) b hour_byte_parts [of "cv_hour c" pm] by (simp_all add: dt_def encode_def from_to_bcd)
qed

lemma set_dt_datetime [simp]: "rtc_datetime (set_dt i v r) = (rtc_datetime r)[i := v]"
  by (simp add: set_dt_def)

lemma bcd_0: "to_bcd 0 = 0" "hour_byte 0 pm = (if pm then 0x40 else 0)"
  by (simp_all add: to_bcd_def hour_byte_def)

lemma tick_day_encodes:
  assumes "civil_ok c" "rtc_datetime r = encode c pm"
  shows "rtc_datetime (tick_day r) = encode (next_day c) pm"
proof -
  note p = encode_parts [OF assms]
  have m: "1 \<le> cv_month c \<and> cv_month c \<le> 12" using assms(1) by (simp add: civil_ok_def)
  show ?thesis
    using m assms(2) unfolding tick_day_def Let_def p
    by (simp add: next_day_def month_days_def encode_def less_eq_Suc_le)
qed

lemma rtc_tick_encodes:
  assumes "civil_ok c" "rtc_datetime r = encode c pm"
  shows "rtc_datetime (rtc_tick r) = encode (next_second c) pm"
proof -
  note p = encode_parts [OF assms]
  have ok: "cv_hour c < 24" "cv_min c < 60" "cv_sec c < 60" "cv_wday c < 7" using assms by (simp_all add: civil_ok_def)
  consider "cv_sec c < 59" | "cv_sec c = 59" "cv_min c < 59" | "cv_sec c = 59" "cv_min c = 59" "cv_hour c < 23"
    | "cv_sec c = 59" "cv_min c = 59" "cv_hour c = 23"
    using ok by linarith
  then show ?thesis
  proof cases
    case 1
    then show ?thesis unfolding rtc_tick_def Let_def p using assms(2) by (simp add: next_second_def encode_def)
  next
    case 2
    have f: "dt 5 (set_dt 6 0 r) = dt 5 r" using assms(2) by (simp add: dt_def encode_def)
    show ?thesis unfolding rtc_tick_def Let_def f p using 2 assms(2)
      by (simp add: next_second_def encode_def bcd_0)
  next
    case 3
    have f: "dt 5 (set_dt 6 0 r) = dt 5 r" "dt 4 (set_dt 5 0 (set_dt 6 0 r)) = dt 4 r"
      using assms(2) by (simp_all add: dt_def encode_def)
    show ?thesis unfolding rtc_tick_def Let_def f p using 3 assms(2)
      by (simp add: next_second_def encode_def bcd_0 hour_byte_def)
  next
    case 4
    let ?m = "c\<lparr> cv_sec := 0, cv_min := 0, cv_hour := 0, cv_wday := (cv_wday c + 1) mod 7 \<rparr>"
    let ?pm = "if pm then 0x40 else 0 :: u8"
    have f: "dt 5 (set_dt 6 0 r) = dt 5 r" "dt 4 (set_dt 5 0 (set_dt 6 0 r)) = dt 4 r"
      "dt 3 (set_dt 4 x (set_dt 5 0 (set_dt 6 0 r))) = dt 3 r" for x
      using assms(2) by (simp_all add: dt_def encode_def)
    let ?r = "set_dt 3 (of_nat ((cv_wday c + 1) mod 7)) (set_dt 4 ?pm (set_dt 5 0 (set_dt 6 0 r)))"
    have "rtc_tick r = tick_day ?r" unfolding rtc_tick_def Let_def f p using 4 by simp
    moreover have "rtc_datetime ?r = encode ?m pm" using assms(2) by (simp add: encode_def bcd_0)
    moreover have "civil_ok ?m" using assms(1) by (simp add: civil_ok_def)
    ultimately show ?thesis using tick_day_encodes [of ?m ?r pm] 4 by (simp add: next_second_def)
  qed
qed

lemma tick_shows: "clock_shows c r \<Longrightarrow> clock_shows (next_second c) (rtc_tick r)"
  using rtc_tick_encodes next_second_number(1) unfolding clock_shows_def by metis

text \<open>C40: One tick of the clock is one second of the calendar: a clock that shows a valid date and
  time shows a valid one afterwards, whose number of seconds since 2000 is one more, wrapping
  after the 36525 days of the century; leap years, month lengths and every carry included.
  The day of the week moves on exactly when midnight is passed.\<close>

theorem rtc_tick_is_one_second:
  assumes "clock_shows c r"
  shows "\<exists>c'. clock_shows c' (rtc_tick r) \<and> second_number c' = (second_number c + 1) mod century \<and>
    cv_wday c' = (cv_wday c + ((second_number c + 1) div 86400 - second_number c div 86400)) mod 7"
  using tick_shows [OF assms] next_second_number assms unfolding clock_shows_def by metis

section \<open>Catching up\<close>

lemma tick_frame [simp]:
  "rtc_next_tick (rtc_tick r) = rtc_next_tick r" "rtc_ticking (rtc_tick r) = rtc_ticking r"
  by (simp_all add: rtc_tick_def tick_day_def set_dt_def Let_def)

lemma clock_shows_next_tick [simp]: "clock_shows c (r\<lparr> rtc_next_tick := t \<rparr>) = clock_shows c r"
  by (simp add: clock_shows_def)

lemma catch_up_ticks:
  assumes "unat (rtc_next_tick r) + n * 67027964 \<le> unat time" "unat time < unat (rtc_next_tick r) + (n + 1) * 67027964"
    "unat time < 2 ^ 63" "clock_shows c r"
  shows "\<exists>r'. rtc_catch_up (Suc n) time r = Some r' \<and> unat (rtc_next_tick r') = unat (rtc_next_tick r) + (n + 1) * 67027964 \<and>
    clock_shows ((next_second ^^ Suc n) c) r'"
  using assms
proof (induction n arbitrary: r c)
  case 0
  have n: "unat (rtc_next_tick r + ARM9_CLOCK_HZ) = unat (rtc_next_tick r) + 67027964"
    using 0 by (subst unat_word_ariths) (simp add: ARM9_CLOCK_HZ_def)
  then have "\<not> rtc_next_tick r + ARM9_CLOCK_HZ \<le> time" using 0 by (simp add: word_le_nat_alt)
  then show ?case using n 0 tick_shows by (simp add: Let_def)
next
  case (Suc n)
  have n: "unat (rtc_next_tick r + ARM9_CLOCK_HZ) = unat (rtc_next_tick r) + 67027964"
    using Suc.prems by (subst unat_word_ariths) (simp add: ARM9_CLOCK_HZ_def)
  let ?r = "(rtc_tick r)\<lparr> rtc_next_tick := rtc_next_tick r + ARM9_CLOCK_HZ \<rparr>"
  have "rtc_next_tick r + ARM9_CLOCK_HZ \<le> time" using Suc.prems n by (simp add: word_le_nat_alt)
  then have "rtc_catch_up (Suc (Suc n)) time r = rtc_catch_up (Suc n) time ?r"
    by (subst rtc_catch_up.simps) (simp add: Let_def del: rtc_catch_up.simps)
  moreover have "\<exists>r'. rtc_catch_up (Suc n) time ?r = Some r' \<and>
      unat (rtc_next_tick r') = unat (rtc_next_tick ?r) + (n + 1) * 67027964 \<and>
      clock_shows ((next_second ^^ Suc n) (next_second c)) r'"
    using Suc.prems n tick_shows [OF Suc.prems(4)] by (intro Suc.IH) simp_all
  moreover have "(next_second ^^ Suc n) (next_second c) = (next_second ^^ Suc (Suc n)) c"
    by (simp only: funpow_Suc_right comp_def)
  ultimately show ?case using n by auto
qed

text \<open>The clock catches up: when its event is handled late -- a slice overrun, or a state
  loaded whose deadline is long past -- the handler returns, having advanced the displayed
  time by one second for each whole period that has gone by, the new deadline is the first
  one after the present, and the event is re-armed for it.\<close>

theorem rtc_event_catches_up:
  assumes "rtc_ticking r" "clock_shows c r" "rtc_next_tick r \<le> time" "time < 0x8000000000000000"
  shows "let n = (unat time - unat (rtc_next_tick r)) div 67027964 + 1 in
    \<exists>r'. rtc_event n time r = Some (r', Some (rtc_next_tick r')) \<and> time < rtc_next_tick r' \<and>
      unat (rtc_next_tick r') = unat (rtc_next_tick r) + n * 67027964 \<and> clock_shows ((next_second ^^ n) c) r'"
proof -
  let ?k = "(unat time - unat (rtc_next_tick r)) div 67027964"
  have le: "unat (rtc_next_tick r) \<le> unat time" using assms(3) by (simp add: word_le_nat_alt)
  have k: "unat (rtc_next_tick r) + ?k * 67027964 \<le> unat time"
    "unat time < unat (rtc_next_tick r) + (?k + 1) * 67027964"
    using le div_mult_mod_eq [of "unat time - unat (rtc_next_tick r)" 67027964]
      mod_less_divisor [of 67027964 "unat time - unat (rtc_next_tick r)"] by simp_all
  have "unat time < 2 ^ 63" using assms(4) by (simp add: word_less_nat_alt)
  from catch_up_ticks [OF k this assms(2)] obtain r' where
    "rtc_catch_up (Suc ?k) time r = Some r'" "unat (rtc_next_tick r') = unat (rtc_next_tick r) + (?k + 1) * 67027964"
    "clock_shows ((next_second ^^ Suc ?k) c) r'" by blast
  moreover from this(2) k(2) have "time < rtc_next_tick r'" by (simp only: word_less_nat_alt)
  ultimately show ?thesis
    using assms(1) by (simp only: Let_def rtc_event_def Suc_eq_plus1 simp_thms if_False option.map) auto
qed

section \<open>A concrete clock\<close>

text \<open>The last second of 28 February 2027, a Sunday, on a ticking clock.\<close>

definition february :: civil where
  "february = \<lparr> cv_year = 27, cv_month = 2, cv_day = 28, cv_wday = 0, cv_hour = 23, cv_min = 59, cv_sec = 59 \<rparr>"

definition february_clock :: rtc where
  "february_clock = rtc_init\<lparr> rtc_ticking := True, rtc_next_tick := 1000,
     rtc_datetime := [0x27, 0x02, 0x28, 0x00, 0x23, 0x59, 0x59] \<rparr>"

lemma february_shows: "clock_shows february february_clock"
  by (simp add: clock_shows_def civil_ok_def february_def february_clock_def month_days_def month_len_def encode_def
      to_bcd_def hour_byte_def)

theorem rtc_tick_is_one_second_witness:
  "\<exists>c'. clock_shows c' (rtc_tick february_clock) \<and> second_number c' = (second_number february + 1) mod century"
  using rtc_tick_is_one_second [OF february_shows] by blast

theorem rtc_event_catches_up_witness:
  "\<exists>r'. rtc_event 2 67100000 february_clock = Some (r', Some (rtc_next_tick r')) \<and> 67100000 < rtc_next_tick r' \<and>
     clock_shows (next_second (next_second february)) r'"
proof -
  have n: "(unat (67100000::u64) - unat (rtc_next_tick february_clock)) div 67027964 + 1 = 2"
    "rtc_ticking february_clock" "rtc_next_tick february_clock \<le> 67100000" "(67100000::u64) < 0x8000000000000000"
    by (simp_all add: february_clock_def)
  have "(next_second ^^ 2) february = next_second (next_second february)" by (simp add: numeral_2_eq_2)
  with rtc_event_catches_up [OF n(2) february_shows n(3,4)] show ?thesis unfolding n(1) Let_def by auto
qed

end
