(* ===== verification/RtcPort.thy ===== *)
theory RtcPort imports RtcSpec begin

text \<open>
  The serial port of the real-time clock, driven as the ARM7 drives it: chip select, one bit
  per clock pulse, command byte first.  Bytes go through whole in both directions, and what is
  written to the date and time is what is read back.
\<close>

section \<open>Driving the port\<close>

text \<open>Register values: bit 0 data, bit 1 clock, bit 2 select, bit 4 direction.\<close>

definition rtc_select :: "rtc \<Rightarrow> rtc" where
  "rtc_select r = rtc_write 0x16 False (rtc_write 0x12 False r)"

definition clock_in :: "bool \<Rightarrow> rtc \<Rightarrow> rtc" where
  "clock_in b r = rtc_write (0x14 OR b2w b) False (rtc_write (0x16 OR b2w b) False r)"

definition clock_out :: "rtc \<Rightarrow> rtc" where
  "clock_out r = rtc_write 0x04 False (rtc_write 0x06 False r)"

definition send_bits :: "nat \<Rightarrow> u8 \<Rightarrow> rtc \<Rightarrow> rtc" where
  "send_bits n v r = fold (\<lambda>k. clock_in (bit v k)) [0..<n] r"

definition recv_bits :: "nat \<Rightarrow> rtc \<Rightarrow> u8 \<times> rtc" where
  "recv_bits n r = fold (\<lambda>k (v, r). let r' = clock_out r
     in (if tst (rtc_io r') 1 then v OR push_bit k 1 else v, r')) [0..<n] (0, r)"

fun recv_bytes :: "nat \<Rightarrow> rtc \<Rightarrow> u8 list \<times> rtc" where
  "recv_bytes 0 r = ([], r)"
| "recv_bytes (Suc n) r = (let (v, r1) = recv_bits 8 r; (vs, r2) = recv_bytes n r1 in (v # vs, r2))"

definition write_regs :: "u8 \<Rightarrow> u8 list \<Rightarrow> rtc \<Rightarrow> rtc" where
  "write_regs cmd bs r = fold (send_bits 8) bs (send_bits 8 cmd (rtc_select r))"

definition read_regs :: "u8 \<Rightarrow> nat \<Rightarrow> rtc \<Rightarrow> u8 list" where
  "read_regs cmd n r = fst (recv_bytes n (send_bits 8 cmd (rtc_select r)))"

section \<open>The shift register\<close>

text \<open>The command layer neither reads nor writes the shift register and the port register.\<close>

definition set_port :: "u16 \<Rightarrow> u8 \<Rightarrow> nat \<Rightarrow> rtc \<Rightarrow> rtc" where
  "set_port a b k r = r\<lparr> rtc_io := a, rtc_input := b, rtc_input_bit := k \<rparr>"

lemma set_port_fields [simp]:
  "rtc_io (set_port a b k r) = a" "rtc_input (set_port a b k r) = b" "rtc_input_bit (set_port a b k r) = k"
  "rtc_cmd (set_port a b k r) = rtc_cmd r" "rtc_input_pos (set_port a b k r) = rtc_input_pos r"
  "rtc_output (set_port a b k r) = rtc_output r" "rtc_datetime (set_port a b k r) = rtc_datetime r"
  "rtc_output_bit (set_port a b k r) = rtc_output_bit r" "rtc_output_pos (set_port a b k r) = rtc_output_pos r"
  "rtc_status1 (set_port a b k r) = rtc_status1 r" "rtc_status2 (set_port a b k r) = rtc_status2 r"
  "rtc_alarm1 (set_port a b k r) = rtc_alarm1 r" "rtc_alarm2 (set_port a b k r) = rtc_alarm2 r"
  "rtc_clock_adjust (set_port a b k r) = rtc_clock_adjust r" "rtc_free_reg (set_port a b k r) = rtc_free_reg r"
  by (simp_all add: set_port_def)

lemma port_copy_out: "copy_out xs (set_port a b k r) = set_port a b k (copy_out xs r)"
  by (simp add: copy_out_def set_port_def)

lemma port_set_dt: "set_dt i v (set_port a b k r) = set_port a b k (set_dt i v r)"
  by (simp add: set_dt_def set_port_def)

lemma port_updates:
  "(set_port a b k r)\<lparr> rtc_cmd := c \<rparr> = set_port a b k (r\<lparr> rtc_cmd := c \<rparr>)"
  "(set_port a b k r)\<lparr> rtc_power_lost_seen := p \<rparr> = set_port a b k (r\<lparr> rtc_power_lost_seen := p \<rparr>)"
  "(set_port a b k r)\<lparr> rtc_status1 := c \<rparr> = set_port a b k (r\<lparr> rtc_status1 := c \<rparr>)"
  "(set_port a b k r)\<lparr> rtc_status2 := c \<rparr> = set_port a b k (r\<lparr> rtc_status2 := c \<rparr>)"
  "(set_port a b k r)\<lparr> rtc_datetime := xs \<rparr> = set_port a b k (r\<lparr> rtc_datetime := xs \<rparr>)"
  "(set_port a b k r)\<lparr> rtc_alarm1 := xs \<rparr> = set_port a b k (r\<lparr> rtc_alarm1 := xs \<rparr>)"
  "(set_port a b k r)\<lparr> rtc_alarm2 := xs \<rparr> = set_port a b k (r\<lparr> rtc_alarm2 := xs \<rparr>)"
  "(set_port a b k r)\<lparr> rtc_clock_adjust := c \<rparr> = set_port a b k (r\<lparr> rtc_clock_adjust := c \<rparr>)"
  "(set_port a b k r)\<lparr> rtc_free_reg := c \<rparr> = set_port a b k (r\<lparr> rtc_free_reg := c \<rparr>)"
  by (simp_all add: set_port_def)

lemma port_if: "(if c then set_port a b k x else set_port a b k y) = set_port a b k (if c then x else y)"
  by simp

lemma byte_in_port: "rtc_byte_in v (set_port a b k r) = set_port a b k (rtc_byte_in v r)"
proof -
  have w: "rtc_cmd_write v (set_port a b k r) = set_port a b k (rtc_cmd_write v r)"
    unfolding rtc_cmd_write_def Let_def
    by (simp only: set_port_fields port_updates port_set_dt port_if)
  have d: "rtc_cmd_read (set_port a b k r) = set_port a b k (rtc_cmd_read r)" for r
    unfolding rtc_cmd_read_def Let_def
    by (simp only: set_port_fields port_updates port_copy_out port_if)
  show ?thesis
    unfolding rtc_byte_in_def Let_def by (simp only: set_port_fields port_updates d w port_if)
qed

lemma select_bits:
  "tst (0x14 OR b2w b :: u16) 4" "tst (0x16 OR b2w b :: u16) 4" "\<not> tst (0x14 OR b2w b :: u16) 2"
  "tst (0x16 OR b2w b :: u16) 2" "tst (0x14 OR b2w b :: u16) 0x10" "tst (0x16 OR b2w b :: u16) 0x10"
  "tst (0x14 OR b2w b :: u16) 1 = b"
  by (cases b; simp add: tst_def)+

text \<open>A pulse with the clock rising and falling again takes one bit.\<close>

lemma clock_in_port:
  assumes "tst a 4"
  shows "clock_in b (set_port a i k r) =
    (rtc_bit_in b (set_port (0x16 OR b2w b) i k r))\<lparr> rtc_io := 0x14 OR b2w b \<rparr>"
proof -
  have "rtc_write (0x16 OR b2w b) False (set_port a i k r) = set_port (0x16 OR b2w b) i k r"
    using assms by (simp add: rtc_write_def Let_def select_bits) (simp add: set_port_def)
  then show ?thesis by (simp add: clock_in_def rtc_write_def Let_def select_bits)
qed

lemma bit_in_early:
  "k < 7 \<Longrightarrow> rtc_bit_in b (set_port a i k r) = set_port a (if b then i OR push_bit k 1 else i) (Suc k) r"
  by (simp add: rtc_bit_in_def Let_def set_port_def)

lemma bit_in_last:
  "rtc_bit_in b (set_port a i 7 r) =
     (let r' = rtc_byte_in (if b then i OR push_bit 7 1 else i) r
      in set_port a 0 0 (r'\<lparr> rtc_input_pos := rtc_input_pos r' + 1 \<rparr>))"
proof -
  let ?i = "if b then i OR push_bit 7 1 else i"
  have "rtc_bit_in b (set_port a i 7 r) = (let r3 = rtc_byte_in ?i (set_port a ?i 0 r)
      in r3\<lparr> rtc_input := 0, rtc_input_pos := rtc_input_pos r3 + 1 \<rparr>)"
    by (simp add: rtc_bit_in_def Let_def set_port_def)
  then show ?thesis by (simp add: byte_in_port Let_def) (simp add: set_port_def)
qed

lemma take_bit_step: "(if bit v n then take_bit n v OR push_bit n 1 else take_bit n v) = take_bit (Suc n) (v::u8)"
  by (rule bit_word_eqI) (auto simp: bit_simps less_Suc_eq)

lemma port_again [simp]: "(set_port a i k r)\<lparr> rtc_io := b \<rparr> = set_port b i k r"
  by (simp add: set_port_def)

lemma send_bits_partial:
  assumes "tst a 4" "n \<le> 7"
  shows "\<exists>io. tst io 4 \<and> send_bits n v (set_port a 0 0 r) = set_port io (take_bit n v) n r"
  using assms(2)
proof (induction n)
  case 0
  then show ?case using assms(1) by (auto simp: send_bits_def)
next
  case (Suc n)
  then obtain io where io: "tst io 4" "send_bits n v (set_port a 0 0 r) = set_port io (take_bit n v) n r" by auto
  have "send_bits (Suc n) v (set_port a 0 0 r) = clock_in (bit v n) (set_port io (take_bit n v) n r)"
    using io(2) by (simp add: send_bits_def)
  also have "\<dots> = set_port (0x14 OR b2w (bit v n)) (take_bit (Suc n) v) (Suc n) r"
    unfolding clock_in_port [OF io(1)] using Suc.prems bit_in_early take_bit_step [of v n] by simp
  finally show ?case using select_bits(1) by blast
qed

text \<open>Eight pulses hand the byte to the command layer.\<close>

lemma send_byte:
  assumes "tst a 4"
  shows "\<exists>io. tst io 4 \<and> send_bits 8 v (set_port a 0 0 r) =
    (let r' = rtc_byte_in v r in set_port io 0 0 (r'\<lparr> rtc_input_pos := rtc_input_pos r' + 1 \<rparr>))"
proof -
  obtain io where io: "tst io 4" "send_bits 7 v (set_port a 0 0 r) = set_port io (take_bit 7 v) 7 r"
    using send_bits_partial [OF assms, of 7] by blast
  have v: "(if bit v 7 then take_bit 7 v OR push_bit 7 1 else take_bit 7 v) = v"
    using take_bit_step [of v 7] take_bit_word_eq_self [of 8 v] by simp
  have "[0..<8] = [0..<7] @ [7]" using upt_Suc_append [of 0 7] by simp
  then have "send_bits 8 v (set_port a 0 0 r) = clock_in (bit v 7) (set_port io (take_bit 7 v) 7 r)"
    using io(2) by (simp add: send_bits_def del: upt_Suc upt_rec_numeral)
  then have "send_bits 8 v (set_port a 0 0 r) =
      (let r' = rtc_byte_in v r in set_port (0x14 OR b2w (bit v 7)) 0 0 (r'\<lparr> rtc_input_pos := rtc_input_pos r' + 1 \<rparr>))"
    unfolding clock_in_port [OF io(1)] bit_in_last v Let_def by simp
  then show ?thesis using select_bits(1) by blast
qed

lemma select_port:
  "rtc_select r = set_port 0x16 0 0 (r\<lparr> rtc_input_pos := 0, rtc_output := replicate 8 0,
     rtc_output_bit := 0, rtc_output_pos := 0 \<rparr>)"
  by (simp add: rtc_select_def rtc_write_def Let_def tst_def rtc_start_def set_port_def)

section \<open>Writing the date and time\<close>

lemma write_bytes:
  assumes "tst a 4" "rtc_cmd r = 0x26" "unat (rtc_input_pos r) = k + 1" "k + length bs \<le> 7" "length (rtc_datetime r) = 7"
  shows "\<exists>io r'. tst io 4 \<and> fold (send_bits 8) bs (set_port a 0 0 r) = set_port io 0 0 r' \<and>
    rtc_datetime r' = take k (rtc_datetime r) @ bs @ drop (k + length bs) (rtc_datetime r)"
  using assms
proof (induction bs arbitrary: a r k)
  case Nil
  then show ?case by auto
next
  case (Cons b bs)
  have pos: "rtc_input_pos r \<noteq> 0" "unat (rtc_input_pos r + 1) = k + 1 + 1"
    using Cons.prems by (auto simp: unat_word_ariths)
  have bin: "rtc_byte_in b r = set_dt k b r"
    using Cons.prems pos(1) by (simp add: rtc_byte_in_def rtc_cmd_write_def Let_def)
  let ?r = "(set_dt k b r)\<lparr> rtc_input_pos := rtc_input_pos r + 1 \<rparr>"
  have "rtc_input_pos (set_dt k b r) = rtc_input_pos r" by (simp add: set_dt_def)
  then obtain io where io: "tst io 4" "send_bits 8 b (set_port a 0 0 r) = set_port io 0 0 ?r"
    using send_byte [OF Cons.prems(1), of b r] by (auto simp: bin Let_def)
  have "\<exists>io' r'. tst io' 4 \<and> fold (send_bits 8) bs (set_port io 0 0 ?r) = set_port io' 0 0 r' \<and>
      rtc_datetime r' = take (k + 1) (rtc_datetime ?r) @ bs @ drop (k + 1 + length bs) (rtc_datetime ?r)"
    using Cons.prems pos io(1) by (intro Cons.IH) (simp_all add: set_dt_def)
  moreover have "take (k + 1) (rtc_datetime ?r) = take k (rtc_datetime r) @ [b]"
    using Cons.prems by (simp add: take_Suc_conv_app_nth)
  ultimately show ?case using io(2) by simp
qed

section \<open>Reading\<close>

lemma out_bits:
  "\<not> tst (4::u16) 0x10" "\<not> tst (6::u16) 0x10" "tst (4::u16) 4" "tst (6::u16) 4" "\<not> tst (4::u16) 2" "tst (6::u16) 2"
  "tst (x AND 1 OR 4 :: u16) 4" "tst (x AND 1 OR 4 :: u16) 1 = tst x 1" "tst (x AND 1 OR 6 :: u16) 4"
  "tst (y OR 1 :: u16) 1" "\<not> tst (y AND 0xFFFE :: u16) 1"
  by (simp_all add: tst_def bit.conj_disj_distrib2 and.assoc)

text \<open>A pulse with the chip driving the line puts out one bit of the current byte.\<close>

definition out_at :: "u16 \<Rightarrow> nat \<Rightarrow> nat \<Rightarrow> rtc \<Rightarrow> rtc" where
  "out_at a n p r = r\<lparr> rtc_io := a, rtc_output_bit := n, rtc_output_pos := p \<rparr>"

lemma clock_out_bit:
  assumes "tst a 4"
  shows "\<exists>io. tst io 4 \<and> tst io 1 = bit (rtc_output r ! p) n \<and>
    clock_out (out_at a n p r) = out_at io (if 8 \<le> n + 1 then 0 else n + 1)
      (if 8 \<le> n + 1 then if p < 7 then p + 1 else p else p) r"
proof -
  let ?b = "bit (rtc_output r ! p) n"
  let ?a = "(a AND 1) OR (6 :: u16)"
  let ?io = "((if ?b then ?a OR 1 else ?a AND 0xFFFE) AND 1) OR (4 :: u16)"
  have first: "rtc_write 0x06 False (out_at a n p r) = out_at ?a n p r"
    using assms by (simp add: rtc_write_def Let_def out_bits out_at_def)
  have "rtc_write 0x04 False (out_at ?a n p r) =
      out_at ?io (if 8 \<le> n + 1 then 0 else n + 1) (if 8 \<le> n + 1 then if p < 7 then p + 1 else p else p) r"
    using out_bits by (simp add: rtc_write_def Let_def rtc_bit_out_def out_at_def)
  then have "clock_out (out_at a n p r) =
      out_at ?io (if 8 \<le> n + 1 then 0 else n + 1) (if 8 \<le> n + 1 then if p < 7 then p + 1 else p else p) r"
    by (simp only: clock_out_def first)
  moreover have "tst ?io 4" "tst ?io 1 = ?b" by (auto simp: out_bits)
  ultimately show ?thesis by blast
qed

lemma out_at_fields [simp]:
  "rtc_io (out_at a n p r) = a" "rtc_output (out_at a n p r) = rtc_output r"
  "rtc_datetime (out_at a n p r) = rtc_datetime r"
  by (simp_all add: out_at_def)

lemma recv_bits_partial:
  assumes "tst a 4" "n \<le> 7"
  shows "\<exists>io. tst io 4 \<and> recv_bits n (out_at a 0 p r) = (take_bit n (rtc_output r ! p), out_at io n p r)"
  using assms(2)
proof (induction n)
  case 0
  then show ?case using assms(1) by (auto simp: recv_bits_def)
next
  case (Suc n)
  then obtain io where io: "tst io 4" "recv_bits n (out_at a 0 p r) = (take_bit n (rtc_output r ! p), out_at io n p r)"
    by auto
  obtain io' where io': "tst io' 4" "tst io' 1 = bit (rtc_output r ! p) n" "clock_out (out_at io n p r) = out_at io' (Suc n) p r"
    using clock_out_bit [OF io(1), of r p n] Suc.prems by auto
  have "recv_bits (Suc n) (out_at a 0 p r) = (take_bit (Suc n) (rtc_output r ! p), out_at io' (Suc n) p r)"
    using io(2) io'(2,3) take_bit_step [of "rtc_output r ! p" n] by (simp add: recv_bits_def Let_def)
  then show ?case using io'(1) by blast
qed

lemma recv_byte:
  assumes "tst a 4" "p < 7"
  shows "\<exists>io. tst io 4 \<and> recv_bits 8 (out_at a 0 p r) = (rtc_output r ! p, out_at io 0 (p + 1) r)"
proof -
  obtain io where io: "tst io 4" "recv_bits 7 (out_at a 0 p r) = (take_bit 7 (rtc_output r ! p), out_at io 7 p r)"
    using recv_bits_partial [OF assms(1), of 7] by blast
  obtain io' where io': "tst io' 4" "tst io' 1 = bit (rtc_output r ! p) 7" "clock_out (out_at io 7 p r) = out_at io' 0 (p + 1) r"
    using clock_out_bit [OF io(1), of r p 7] assms(2) by auto
  have v: "(if bit (rtc_output r ! p) 7 then take_bit 7 (rtc_output r ! p) OR push_bit 7 1 else take_bit 7 (rtc_output r ! p))
      = rtc_output r ! p"
    using take_bit_step [of "rtc_output r ! p" 7] take_bit_word_eq_self [of 8 "rtc_output r ! p"] by simp
  have "[0..<8] = [0..<7] @ [7]" using upt_Suc_append [of 0 7] by simp
  then have "recv_bits 8 (out_at a 0 p r) = (rtc_output r ! p, out_at io' 0 (p + 1) r)"
    using io(2) io'(2,3) v by (simp add: recv_bits_def Let_def del: upt_Suc upt_rec_numeral)
  then show ?thesis using io'(1) by blast
qed

lemma recv_run:
  assumes "tst a 4" "p + n \<le> 7" "length (rtc_output r) = 8"
  shows "fst (recv_bytes n (out_at a 0 p r)) = take n (drop p (rtc_output r))"
  using assms
proof (induction n arbitrary: a p)
  case 0
  then show ?case by simp
next
  case (Suc n)
  obtain io where io: "tst io 4" "recv_bits 8 (out_at a 0 p r) = (rtc_output r ! p, out_at io 0 (p + 1) r)"
    using recv_byte [of a p r] Suc.prems by auto
  have "fst (recv_bytes n (out_at io 0 (p + 1) r)) = take n (drop (p + 1) (rtc_output r))"
    using Suc.prems io(1) by (intro Suc.IH) auto
  moreover have "drop p (rtc_output r) = rtc_output r ! p # drop (p + 1) (rtc_output r)"
    using Suc.prems by (simp add: Cons_nth_drop_Suc)
  ultimately show ?case using io(2) by (simp add: split_def)
qed

section \<open>The round trip\<close>

lemma written_datetime:
  assumes "length (rtc_datetime r) = 7" "length bs = 7"
  shows "rtc_datetime (write_regs 0x64 bs r) = bs"
proof -
  let ?q = "r\<lparr> rtc_input_pos := 0, rtc_output := replicate 8 0, rtc_output_bit := 0, rtc_output_pos := 0 \<rparr>"
  have c: "rtc_byte_in 0x64 ?q = ?q\<lparr> rtc_cmd := 0x26 \<rparr>"
    by (simp add: rtc_byte_in_def rtc_rev_def tst_def Let_def)
  obtain io where io: "tst io 4" "send_bits 8 0x64 (rtc_select r) = set_port io 0 0 (?q\<lparr> rtc_cmd := 0x26, rtc_input_pos := 1 \<rparr>)"
    using send_byte [of "0x16" "0x64" "?q"] unfolding select_port c by (auto simp: Let_def tst_def)
  let ?q1 = "?q\<lparr> rtc_cmd := 0x26, rtc_input_pos := 1 \<rparr>"
  have "\<exists>io' r'. tst io' 4 \<and> fold (send_bits 8) bs (set_port io 0 0 ?q1) = set_port io' 0 0 r' \<and>
      rtc_datetime r' = take 0 (rtc_datetime ?q1) @ bs @ drop (0 + length bs) (rtc_datetime ?q1)"
    using assms io(1) by (intro write_bytes) simp_all
  then show ?thesis using assms by (auto simp: write_regs_def io(2))
qed

lemma read_datetime:
  assumes "length (rtc_datetime r) = 7"
  shows "read_regs 0x65 7 r = rtc_datetime r"
proof -
  let ?q = "r\<lparr> rtc_input_pos := 0, rtc_output := replicate 8 0, rtc_output_bit := 0, rtc_output_pos := 0 \<rparr>"
  let ?q1 = "r\<lparr> rtc_cmd := 0xA6, rtc_input_pos := 1, rtc_output := rtc_datetime r @ [0] \<rparr>"
  have c: "rtc_byte_in 0x65 ?q = ?q\<lparr> rtc_cmd := 0xA6, rtc_output := rtc_datetime r @ [0] \<rparr>"
    using assms by (simp add: rtc_byte_in_def rtc_rev_def tst_def Let_def rtc_cmd_read_def copy_out_def)
  obtain io where io: "tst io 4" "send_bits 8 0x65 (rtc_select r) = out_at io 0 0 (set_port io 0 0 ?q1)"
    using send_byte [of "0x16" "0x65" "?q"] unfolding select_port c
    by (auto simp: Let_def tst_def out_at_def set_port_def)
  show ?thesis
    using recv_run [OF io(1), of 0 7 "set_port io 0 0 ?q1"] assms by (simp add: read_regs_def io(2))
qed

text \<open>Setting the clock through its serial port and reading it back, bit by bit, gives the
  seven bytes that were written, whatever state the port and the clock were left in.\<close>

theorem rtc_port_round_trip:
  assumes "length (rtc_datetime r) = 7" "length bs = 7"
  shows "read_regs 0x65 7 (write_regs 0x64 bs r) = bs"
  using assms written_datetime read_datetime by simp

theorem rtc_port_round_trip_witness:
  "read_regs 0x65 7 (write_regs 0x64 [0x26, 0x02, 0x28, 0x06, 0x23, 0x59, 0x58] rtc_init)
     = [0x26, 0x02, 0x28, 0x06, 0x23, 0x59, 0x58]"
  by (rule rtc_port_round_trip) (simp_all add: rtc_init_def)

end
