(* ===== verification/Dma.thy ===== *)
theory Dma imports CpuMem Timing begin

text \<open>
  The DMA controllers: the eight channels of \<^verbatim>\<open>src/core/dma/dma.cpp\<close> and the DSi's eight NDMA
  channels of \<^verbatim>\<open>src/core/dma/ndma.cpp\<close>, which share the running masks and the caches of
  armed start modes.  The state \<open>dma\<close> holds both and what they reach directly: the page
  tables and TCM windows of the two CPUs, host memory and the bus timing tables.  Everything
  else -- the bus behind an unmapped page, the geometry FIFO, the cartridge, the scheduler,
  the interrupt and AES units -- is an entry of \<open>dma_env\<close> acting on the whole state, because a
  device may write the DMA registers.

  The code holds a reference to its channel across such calls, so the model re-reads the
  channel after them.  Cycle counts are natural numbers (\<open>DmaSpec\<close> bounds them); unit counts
  and addresses keep their 32 bits.  Loops take fuel and return \<open>None\<close> without it.
\<close>

section \<open>Main-RAM burst patterns\<close>

datatype burst = MRAM_DUMMY | READ16 | READ32_N2 | READ32 | WRITE16 | WRITE32_N2 | WRITE32

text \<open>\<^verbatim>\<open>make\<close>: the run-length code laid out, at most 255 entries.\<close>

definition make_burst :: "(nat \<times> nat) list \<Rightarrow> nat list" where
  "make_burst rle = take 255 (concat (map (\<lambda>(v, n). replicate n v) rle))"

fun burst_data :: "burst \<Rightarrow> nat list" where
  "burst_data MRAM_DUMMY = make_burst []"
| "burst_data READ16 = make_burst [(7, 1), (3, 1), (2, 117), (7, 1), (3, 1), (2, 117), (7, 1), (3, 1)]"
| "burst_data READ32_N2 = make_burst [(9, 1), (4, 1), (3, 77), (9, 1)]"
| "burst_data READ32 = make_burst [(9, 1), (3, 1), (2, 116)]"
| "burst_data WRITE16 = make_burst [(8, 1), (2, 119)]"
| "burst_data WRITE32_N2 = make_burst [(9, 1), (4, 59)]"
| "burst_data WRITE32 = make_burst [(9, 1), (3, 79)]"

definition burst_len :: "burst \<Rightarrow> nat" where
  "burst_len b = length (burst_data b)"

text \<open>The 256-byte array, zero after the pattern, and its running sum.\<close>

definition burst_at :: "burst \<Rightarrow> nat \<Rightarrow> nat" where
  "burst_at b i = (if i < burst_len b then burst_data b ! i else 0)"

definition burst_prefix :: "burst \<Rightarrow> nat \<Rightarrow> nat" where
  "burst_prefix b k = sum_list (take k (burst_data b))"

section \<open>State\<close>

definition MODE9_CART :: u32 where "MODE9_CART = 5"
definition MODE9_GXFIFO :: u32 where "MODE9_GXFIFO = 7"
definition MODE7_CART :: u32 where "MODE7_CART = 0x12"

record channel =
  dc_src :: u32
  dc_dst :: u32
  dc_cnt :: u32
  cur_src :: u32
  cur_dst :: u32
  src_inc :: int
  dst_inc :: int
  start_mode :: u32
  rem_count :: u32
  iter_count :: u32
  running :: u32
  in_progress :: bool
  burst_table :: burst
  burst_pos :: nat
  tim_key_src :: u32
  tim_key_dst :: u32
  src_rgn :: region
  dst_rgn :: region
  src_n :: nat
  src_s :: nat
  dst_n :: nat
  dst_s :: nat

definition new_channel :: channel where
  "new_channel = \<lparr> dc_src = 0, dc_dst = 0, dc_cnt = 0, cur_src = 0, cur_dst = 0, src_inc = 1, dst_inc = 1,
     start_mode = 0, rem_count = 0, iter_count = 0, running = 0, in_progress = False,
     burst_table = MRAM_DUMMY, burst_pos = 0, tim_key_src = 0xFFFFFFFF, tim_key_dst = 0xFFFFFFFF,
     src_rgn = REGION_NONE, dst_rgn = REGION_NONE, src_n = 0, src_s = 0, dst_n = 0, dst_s = 0 \<rparr>"

record nchannel =
  nc_src :: u32
  nc_dst :: u32
  nc_total :: u32
  nc_block :: u32
  nc_timer :: u32
  nc_fill :: u32
  nc_cnt :: u32
  ncur_src :: u32
  ncur_dst :: u32
  nsrc_inc :: int
  ndst_inc :: int
  nstart_mode :: u32
  nrem_count :: u32
  niter_count :: u32
  ntotal_rem :: u32
  nrunning :: u32
  nin_progress :: bool

definition new_nchannel :: nchannel where
  "new_nchannel = \<lparr> nc_src = 0, nc_dst = 0, nc_total = 0, nc_block = 0, nc_timer = 0, nc_fill = 0, nc_cnt = 0,
     ncur_src = 0, ncur_dst = 0, nsrc_inc = 1, ndst_inc = 1, nstart_mode = 0, nrem_count = 0, niter_count = 0,
     ntotal_rem = 0, nrunning = 0, nin_progress = False \<rparr>"

text \<open>Channels are indexed by CPU and number; \<open>d_mask\<close> is \<^verbatim>\<open>running_mask_\<close>, \<open>n_mask\<close> NDMA's own.\<close>

record 'w dma =
  d_ch :: "cpu_id \<Rightarrow> nat \<Rightarrow> channel"
  d_mask :: "cpu_id \<Rightarrow> u8"
  d_cart_armed :: bool
  d_gx_armed :: bool
  d_shift9 :: nat
  d_run_base :: nat
  d_track :: bool
  n_ch :: "cpu_id \<Rightarrow> nat \<Rightarrow> nchannel"
  n_gcr :: "cpu_id \<Rightarrow> u32"
  n_mask :: "cpu_id \<Rightarrow> u8"
  n_shift9 :: nat
  n_run_base :: nat
  d_cpu :: "cpu_id \<Rightarrow> cpu_ctx"
  d_host :: "u64 \<Rightarrow> u8"
  d_bus9 :: "u32 \<Rightarrow> u32 \<Rightarrow> u8"
  d_bus7 :: "u32 \<Rightarrow> u32 \<Rightarrow> u8"
  d_regions9 :: "u32 \<Rightarrow> region"
  d_regions7 :: "u32 \<Rightarrow> region"
  d_world :: 'w

record 'w dma_env =
  de_dsi :: bool
  de_read :: "cpu_id \<Rightarrow> u32 \<Rightarrow> nat \<Rightarrow> 'w dma \<Rightarrow> u32 \<times> 'w dma"
  de_write :: "cpu_id \<Rightarrow> u32 \<Rightarrow> nat \<Rightarrow> u32 \<Rightarrow> 'w dma \<Rightarrow> 'w dma"
  de_code_write :: "cpu_id \<Rightarrow> u64 \<Rightarrow> nat \<Rightarrow> 'w dma \<Rightarrow> 'w dma"
  de_in_dma :: "'w dma \<Rightarrow> bool"
  de_preempt :: "cpu_id \<Rightarrow> 'w dma \<Rightarrow> 'w dma"
  de_progress :: "nat \<Rightarrow> 'w dma \<Rightarrow> 'w dma"
  de_cart_drq :: "'w dma \<Rightarrow> bool \<times> 'w dma"
  de_request_irq :: "cpu_id \<Rightarrow> nat \<Rightarrow> 'w dma \<Rightarrow> 'w dma"
  de_gxfifo_write :: "u32 \<Rightarrow> 'w dma \<Rightarrow> 'w dma"
  de_gxfifo_burst :: "u32 list \<Rightarrow> 'w dma \<Rightarrow> 'w dma"
  de_fifo_room :: "'w dma \<Rightarrow> nat"
  de_vram_trap :: "u32 \<Rightarrow> 'w dma \<Rightarrow> 'w dma"
  de_trap_settled :: "'w dma \<Rightarrow> bool"
  de_ndma_direct :: bool
  de_io_access :: "u32 \<Rightarrow> 'w dma \<Rightarrow> bool"
  de_ndma_read7 :: "u32 \<Rightarrow> 'w dma \<Rightarrow> u32 \<times> 'w dma"
  de_ndma_write7 :: "u32 \<Rightarrow> 'w dma \<Rightarrow> 'w dma"
  de_aes_check :: "'w dma \<Rightarrow> 'w dma"

definition ch :: "cpu_id \<Rightarrow> nat \<Rightarrow> 'w dma \<Rightarrow> channel" where
  "ch w n s = d_ch s w n"

definition upd_ch :: "cpu_id \<Rightarrow> nat \<Rightarrow> (channel \<Rightarrow> channel) \<Rightarrow> 'w dma \<Rightarrow> 'w dma" where
  "upd_ch w n f s = s\<lparr> d_ch := (d_ch s)(w := (d_ch s w)(n := f (d_ch s w n))) \<rparr>"

definition nch :: "cpu_id \<Rightarrow> nat \<Rightarrow> 'w dma \<Rightarrow> nchannel" where
  "nch w n s = n_ch s w n"

definition upd_nch :: "cpu_id \<Rightarrow> nat \<Rightarrow> (nchannel \<Rightarrow> nchannel) \<Rightarrow> 'w dma \<Rightarrow> 'w dma" where
  "upd_nch w n f s = s\<lparr> n_ch := (n_ch s)(w := (n_ch s w)(n := f (n_ch s w n))) \<rparr>"

definition chans :: "nat list" where "chans = [0, 1, 2, 3]"

text \<open>Bit \<open>n\<close> of a mask, set or cleared.\<close>

definition mask_bit :: "nat \<Rightarrow> bool \<Rightarrow> u8 \<Rightarrow> u8" where
  "mask_bit n on m = (if on then m OR push_bit n 1 else m AND NOT (push_bit n 1))"

definition set_running :: "cpu_id \<Rightarrow> nat \<Rightarrow> u32 \<Rightarrow> 'w dma \<Rightarrow> 'w dma" where
  "set_running w n v s = (upd_ch w n (\<lambda>c. c\<lparr> running := v \<rparr>) s)
     \<lparr> d_mask := (d_mask s)(w := mask_bit n (v \<noteq> 0) (d_mask s w)) \<rparr>"

definition any_running :: "cpu_id \<Rightarrow> 'w dma \<Rightarrow> bool" where
  "any_running w s \<longleftrightarrow> d_mask s w \<noteq> 0"

definition set_ndma_running :: "cpu_id \<Rightarrow> bool \<Rightarrow> 'w dma \<Rightarrow> 'w dma" where
  "set_ndma_running w on s = s\<lparr> d_mask := (d_mask s)(w := mask_bit 4 on (d_mask s w)) \<rparr>"

text \<open>A control register with the enable bit cleared.\<close>

definition cnt_off :: "u32 \<Rightarrow> u32" where
  "cnt_off v = v AND NOT 0x80000000"

section \<open>Start modes\<close>

definition ndma_mode :: "u32 \<Rightarrow> u32" where
  "ndma_mode m =
     (if tst m 0x10 then [0x30, 0x26, 0x24, 0xFF] ! unat (m AND 3)
      else [0x10, 0x06, 0x07, 0x08, 0x09, 0x04, 0xFF, 0x0A] ! unat (m AND 7))"

definition ndma_in_mode :: "cpu_id \<Rightarrow> u32 \<Rightarrow> 'w dma \<Rightarrow> bool" where
  "ndma_in_mode w m s \<longleftrightarrow> list_ex (\<lambda>n. nstart_mode (nch w n s) = m \<and> tst (nc_cnt (nch w n s)) 0x80000000) chans"

definition in_mode :: "'w dma_env \<Rightarrow> cpu_id \<Rightarrow> u32 \<Rightarrow> 'w dma \<Rightarrow> bool" where
  "in_mode env w m s \<longleftrightarrow>
     list_ex (\<lambda>n. start_mode (ch w n s) = m \<and> tst (dc_cnt (ch w n s)) 0x80000000) chans \<or>
     de_dsi env \<and> ndma_in_mode w (ndma_mode m) s"

definition update_cart_armed :: "'w dma_env \<Rightarrow> 'w dma \<Rightarrow> 'w dma" where
  "update_cart_armed env s =
     s\<lparr> d_cart_armed := in_mode env ARM9 MODE9_CART s \<or> in_mode env ARM7 MODE7_CART s,
        d_gx_armed := in_mode env ARM9 MODE9_GXFIFO s \<rparr>"

section \<open>Starting and stopping\<close>

definition count_mask :: "cpu_id \<Rightarrow> nat \<Rightarrow> u32" where
  "count_mask w n = (if w = ARM9 then 0x001FFFFF else if n = 3 then 0x0000FFFF else 0x00003FFF)"

text \<open>A start inside a DMA turn does not preempt again.\<close>

definition preempt_unless_dma :: "'w dma_env \<Rightarrow> cpu_id \<Rightarrow> 'w dma \<Rightarrow> 'w dma" where
  "preempt_unless_dma env w s = (if de_in_dma env s then s else de_preempt env w s)"

definition started :: "cpu_id \<Rightarrow> nat \<Rightarrow> channel \<Rightarrow> channel" where
  "started w n c =
     (let m = count_mask w n;
          c1 = (if in_progress c then c
                else c\<lparr> rem_count := (if dc_cnt c AND m = 0 then m + 1 else dc_cnt c AND m) \<rparr>);
          c2 = c1\<lparr> iter_count := rem_count c1 \<rparr>;
          c3 = (if dc_cnt c2 AND 0x01800000 = 0x01800000 then c2\<lparr> cur_src := dc_src c2 \<rparr> else c2);
          c4 = (if dc_cnt c3 AND 0x00600000 = 0x00600000 then c3\<lparr> cur_dst := dc_dst c3 \<rparr> else c3)
      in c4\<lparr> in_progress := True, burst_table := MRAM_DUMMY, burst_pos := 0 \<rparr>)"

definition dma_start :: "'w dma_env \<Rightarrow> cpu_id \<Rightarrow> nat \<Rightarrow> 'w dma \<Rightarrow> 'w dma" where
  "dma_start env w n s =
     (if running (ch w n s) \<noteq> 0 then s
      else preempt_unless_dma env w (set_running w n 2 (upd_ch w n (started w n) s)))"

definition nstarted :: "nchannel \<Rightarrow> nchannel" where
  "nstarted c =
     (let c1 = (if nin_progress c then c
                else c\<lparr> nrem_count := (if nc_block c = 0 then 0x1000000 else nc_block c) \<rparr>);
          c2 = c1\<lparr> niter_count := (if nstart_mode c1 = 0x0A \<and> 112 < nrem_count c1 then 112 else nrem_count c1) \<rparr>;
          c3 = (if nstart_mode c2 AND 0x1F \<noteq> 0x10 \<and> \<not> tst (nc_cnt c2) 0x20000000 \<and> ntotal_rem c2 < niter_count c2
                then c2\<lparr> niter_count := ntotal_rem c2, nrem_count := ntotal_rem c2 \<rparr> else c2);
          c4 = (if tst (nc_cnt c3) 0x1000 then c3\<lparr> ncur_dst := nc_dst c3 \<rparr> else c3);
          c5 = (if tst (nc_cnt c4) 0x8000 then c4\<lparr> ncur_src := nc_src c4 \<rparr> else c4)
      in c5\<lparr> nin_progress := True \<rparr>)"

definition set_nrunning :: "cpu_id \<Rightarrow> nat \<Rightarrow> u32 \<Rightarrow> 'w dma \<Rightarrow> 'w dma" where
  "set_nrunning w n v s =
     (let s1 = (upd_nch w n (\<lambda>c. c\<lparr> nrunning := v \<rparr>) s)
                 \<lparr> n_mask := (n_mask s)(w := mask_bit n (v \<noteq> 0) (n_mask s w)) \<rparr>
      in set_ndma_running w (n_mask s1 w \<noteq> 0) s1)"

definition ndma_start :: "'w dma_env \<Rightarrow> cpu_id \<Rightarrow> nat \<Rightarrow> 'w dma \<Rightarrow> 'w dma" where
  "ndma_start env w n s =
     (if nrunning (nch w n s) \<noteq> 0 then s
      else preempt_unless_dma env w (set_nrunning w n 2 (upd_nch w n nstarted s)))"

definition ndma_check :: "'w dma_env \<Rightarrow> cpu_id \<Rightarrow> u32 \<Rightarrow> 'w dma \<Rightarrow> 'w dma" where
  "ndma_check env w m s =
     fold (\<lambda>n s. if nstart_mode (nch w n s) = m \<and> tst (nc_cnt (nch w n s)) 0x80000000
                 then ndma_start env w n s else s) chans s"

definition dma_check :: "'w dma_env \<Rightarrow> cpu_id \<Rightarrow> u32 \<Rightarrow> 'w dma \<Rightarrow> 'w dma" where
  "dma_check env w m s =
     (let s1 = fold (\<lambda>n s. if start_mode (ch w n s) = m \<and> tst (dc_cnt (ch w n s)) 0x80000000
                           then dma_start env w n s else s) chans s
      in if de_dsi env then ndma_check env w (ndma_mode m) s1 else s1)"

definition ndma_stop :: "'w dma_env \<Rightarrow> cpu_id \<Rightarrow> u32 \<Rightarrow> 'w dma \<Rightarrow> 'w dma" where
  "ndma_stop env w m s =
     (let hit = (\<lambda>n. nstart_mode (nch w n s) = m \<and> tst (nc_cnt (nch w n s)) 0x80000000);
          s1 = fold (\<lambda>n s. if hit n then upd_nch w n (\<lambda>c. c\<lparr> nc_cnt := cnt_off (nc_cnt c) \<rparr>) s else s) chans s
      in if list_ex hit chans then update_cart_armed env s1 else s1)"

definition dma_stop :: "'w dma_env \<Rightarrow> cpu_id \<Rightarrow> u32 \<Rightarrow> 'w dma \<Rightarrow> 'w dma" where
  "dma_stop env w m s =
     (let s1 = fold (\<lambda>n s. if start_mode (ch w n s) = m
                           then upd_ch w n (\<lambda>c. c\<lparr> dc_cnt := cnt_off (dc_cnt c) \<rparr>) s else s) chans s;
          s2 = (if de_dsi env then ndma_stop env w (ndma_mode m) s1 else s1)
      in update_cart_armed env s2)"

text \<open>\<^verbatim>\<open>Gpu3D::check_fifo_dma\<close>.\<close>

definition check_fifo_dma :: "'w dma_env \<Rightarrow> 'w dma \<Rightarrow> 'w dma" where
  "check_fifo_dma env s = (if d_gx_armed s then dma_check env ARM9 MODE9_GXFIFO s else s)"

text \<open>A cartridge channel starts at once when the cartridge has data.\<close>

definition start_if_drq :: "'w dma_env \<Rightarrow> ('w dma \<Rightarrow> 'w dma) \<Rightarrow> 'w dma \<Rightarrow> 'w dma" where
  "start_if_drq env f s = (let (drq, s1) = de_cart_drq env s in if drq then f s1 else s1)"

section \<open>Registers\<close>

definition addr_mask :: "cpu_id \<Rightarrow> u32" where
  "addr_mask w = (if w = ARM9 then 0x0FFFFFFF else 0x07FFFFFF)"

definition dma_write_src :: "cpu_id \<Rightarrow> nat \<Rightarrow> u32 \<Rightarrow> 'w dma \<Rightarrow> 'w dma" where
  "dma_write_src w n v = upd_ch w n (\<lambda>c. c\<lparr> dc_src := v AND addr_mask w \<rparr>)"

definition dma_write_dst :: "cpu_id \<Rightarrow> nat \<Rightarrow> u32 \<Rightarrow> 'w dma \<Rightarrow> 'w dma" where
  "dma_write_dst w n v = upd_ch w n (\<lambda>c. c\<lparr> dc_dst := v AND addr_mask w \<rparr>)"

definition enabled :: "cpu_id \<Rightarrow> u32 \<Rightarrow> channel \<Rightarrow> channel" where
  "enabled w v c = c\<lparr> cur_src := dc_src c, cur_dst := dc_dst c, tim_key_src := 0xFFFFFFFF, tim_key_dst := 0xFFFFFFFF,
     dst_inc := (let k = v AND 0x00600000 in if k = 0x00200000 then -1 else if k = 0x00400000 then 0 else 1),
     src_inc := (let k = v AND 0x01800000 in if k = 0x00800000 then -1 else if k = 0x01000000 then 0 else 1),
     start_mode := (if w = ARM9 then fld v 27 7 else fld v 28 3 OR 0x10) \<rparr>"

definition dma_write_cnt :: "'w dma_env \<Rightarrow> cpu_id \<Rightarrow> nat \<Rightarrow> u32 \<Rightarrow> 'w dma \<Rightarrow> 'w dma" where
  "dma_write_cnt env w n v s =
     (let old = dc_cnt (ch w n s); s1 = upd_ch w n (\<lambda>c. c\<lparr> dc_cnt := v \<rparr>) s in
      if tst old 0x80000000 \<or> \<not> tst v 0x80000000 then update_cart_armed env s1
      else
        (let s2 = update_cart_armed env (upd_ch w n (enabled w v) s1); m = start_mode (ch w n s2) in
         if m AND 7 = 0 then dma_start env w n s2
         else if m = MODE9_CART \<or> m = MODE7_CART then start_if_drq env (dma_start env w n) s2
         else if m = MODE9_GXFIFO then check_fifo_dma env s2
         else s2))"

section \<open>What a unit costs\<close>

definition dma_cost :: "cpu_id \<Rightarrow> u32 \<Rightarrow> bool \<Rightarrow> 'w dma \<Rightarrow> nat \<times> nat" where
  "dma_cost w addr word s =
     (if w = ARM9 then (let t = d_bus9 s (drop_bit 14 addr) in (unat (t (if word then 6 else 4)), unat (t (if word then 7 else 5))))
      else (let t = d_bus7 s (drop_bit 15 addr) in (unat (t (if word then 2 else 0)), unat (t (if word then 3 else 1)))))"

definition dma_region :: "cpu_id \<Rightarrow> u32 \<Rightarrow> 'w dma \<Rightarrow> region" where
  "dma_region w addr s = (if w = ARM9 then d_regions9 s (drop_bit 14 addr) else d_regions7 s (drop_bit 15 addr))"

definition tim_shift :: "cpu_id \<Rightarrow> nat" where
  "tim_shift w = (if w = ARM9 then 14 else 15)"

text \<open>The cached costs, refilled when an address has left its block.\<close>

definition refill :: "cpu_id \<Rightarrow> bool \<Rightarrow> 'w dma \<Rightarrow> channel \<Rightarrow> channel" where
  "refill w word s c =
     (let k = tim_shift w;
          c1 = (if tim_key_src c \<noteq> drop_bit k (cur_src c)
                then (let (n, q) = dma_cost w (cur_src c) word s
                      in c\<lparr> tim_key_src := drop_bit k (cur_src c), src_rgn := dma_region w (cur_src c) s,
                            src_n := n, src_s := q \<rparr>)
                else c)
      in if tim_key_dst c1 \<noteq> drop_bit k (cur_dst c1)
         then (let (n, q) = dma_cost w (cur_dst c1) word s
               in c1\<lparr> tim_key_dst := drop_bit k (cur_dst c1), dst_rgn := dma_region w (cur_dst c1) s,
                      dst_n := n, dst_s := q \<rparr>)
         else c1)"

text \<open>One step of the burst pattern, which is chosen anew at its end.\<close>

definition burst_next :: "bool \<Rightarrow> burst \<Rightarrow> channel \<Rightarrow> nat \<times> channel" where
  "burst_next burst_start b c =
     (let c1 = (if burst_start \<or> burst_at (burst_table c) (burst_pos c) = 0
                then c\<lparr> burst_pos := 0, burst_table := b \<rparr> else c)
      in (burst_at (burst_table c1) (burst_pos c1), c1\<lparr> burst_pos := burst_pos c1 + 1 \<rparr>))"

definition price :: "bool \<Rightarrow> bool \<Rightarrow> channel \<Rightarrow> nat \<times> channel" where
  "price burst_start word c =
     (if src_rgn c = REGION_MAIN_RAM then
        (if dst_rgn c = REGION_MAIN_RAM then (if word then 18 else 16, c)
         else if 0 < src_inc c
         then burst_next burst_start (if word then if dst_n c = 2 then READ32_N2 else READ32 else READ16) c
         else if word
         then ((if cur_src c AND 0x1F = 0x1C then if dst_n c = 2 then 7 else 8 else 9)
                 + (if burst_start then dst_n c else dst_s c), c)
         else ((if cur_src c AND 0x1F = 0x1E then 7 else 8) + (if burst_start then dst_n c else dst_s c), c))
      else if dst_rgn c = REGION_MAIN_RAM then
        (if 0 < dst_inc c
         then burst_next burst_start (if word then if src_n c = 2 then WRITE32_N2 else WRITE32 else WRITE16) c
         else ((if burst_start then src_n c else src_s c) + (if word then 8 else 7), c))
      else if src_rgn c = dst_rgn c \<and> src_rgn c \<noteq> REGION_NONE then (src_n c + dst_n c + 1, c)
      else (if burst_start then src_n c + dst_n c else src_s c + dst_s c, c))"

definition unit_cycles :: "cpu_id \<Rightarrow> nat \<Rightarrow> bool \<Rightarrow> bool \<Rightarrow> 'w dma \<Rightarrow> nat \<times> 'w dma" where
  "unit_cycles w n burst_start word s =
     (let (k, c) = price burst_start word (refill w word s (ch w n s)) in (k, upd_ch w n (\<lambda>_. c) s))"

text \<open>The cost of the units of a run: constant, or a walk over the pattern the channel is in.\<close>

datatype run_cost = Constant nat | Walk burst

definition run_cost :: "cpu_id \<Rightarrow> nat \<Rightarrow> bool \<Rightarrow> 'w dma \<Rightarrow> run_cost \<times> 'w dma" where
  "run_cost w n word s =
     (let c = ch w n s in
      if src_rgn c = REGION_MAIN_RAM \<and> dst_rgn c \<noteq> REGION_MAIN_RAM \<and> 0 < src_inc c \<or>
         dst_rgn c = REGION_MAIN_RAM \<and> src_rgn c \<noteq> REGION_MAIN_RAM \<and> 0 < dst_inc c
      then (Walk (burst_table c), s)
      else (let (k, s1) = unit_cycles w n False word s in (Constant k, s1)))"

definition run_next :: "run_cost \<Rightarrow> burst \<Rightarrow> nat \<Rightarrow> nat \<times> nat" where
  "run_next rc b pos =
     (case rc of
        Constant k \<Rightarrow> (k, pos)
      | Walk _ \<Rightarrow> (let (v, p) = (if burst_at b pos = 0 then (burst_at b 0, 0) else (burst_at b pos, pos)) in (v, p + 1)))"

text \<open>\<^verbatim>\<open>closed_form\<close>: the dummy table has no \<^verbatim>\<open>burst_meta\<close>.\<close>

definition closed_form :: "run_cost \<Rightarrow> bool" where
  "closed_form rc = (case rc of Constant _ \<Rightarrow> True | Walk b \<Rightarrow> b \<noteq> MRAM_DUMMY \<and> burst_len b \<noteq> 0)"

definition bulk :: "run_cost \<Rightarrow> nat \<Rightarrow> nat \<Rightarrow> nat \<times> nat" where
  "bulk rc pos n =
     (case rc of
        Constant k \<Rightarrow> (k * n, pos)
      | Walk b \<Rightarrow>
          (let P = burst_len b; S = burst_prefix b P; hd = (if pos < P then P - pos else 0) in
           if n \<le> hd then (burst_prefix b (pos + n) - burst_prefix b pos, pos + n)
           else (let m = n - hd
                 in ((S - burst_prefix b pos) + m div P * S + burst_prefix b (m mod P), (m - 1) mod P + 1))))"

text \<open>The binary search for the longest run that stays under the budget.\<close>

function cut_search :: "(nat \<Rightarrow> bool) \<Rightarrow> nat \<Rightarrow> nat \<Rightarrow> nat" where
  "cut_search ok lo hi =
     (if lo < hi
      then (let mid = lo + (hi - lo + 1) div 2 in if ok mid then cut_search ok mid hi else cut_search ok lo (mid - 1))
      else lo)"
  by pat_completeness auto
termination by (relation "measure (\<lambda>(ok, lo, hi). hi - lo)") auto

declare cut_search.simps [simp del]

text \<open>The longest run of at most \<open>n\<close> units whose units after the first, already charged, fit.\<close>

definition bulk_cut :: "run_cost \<Rightarrow> nat \<Rightarrow> nat \<Rightarrow> nat \<Rightarrow> nat \<Rightarrow> nat \<Rightarrow> nat" where
  "bulk_cut rc pos sh used limit n =
     (let ok = (\<lambda>k. used + fst (bulk rc pos (k - 1)) * 2 ^ sh < limit)
      in if ok n then n else cut_search ok 1 n)"

section \<open>Runs between mapped pages\<close>

definition PAGE_SIZE :: u32 where "PAGE_SIZE = 0x800"

definition kBulkMin :: nat where "kBulkMin = 16"

definition dma_tcm :: "u32 \<Rightarrow> 'w dma \<Rightarrow> bool" where
  "dma_tcm addr s =
     (let c = d_cpu s ARM9 in addr < itcm_size c \<or> addr AND dtcm_mask c = dtcm_base c)"

text \<open>\<^verbatim>\<open>trapped_write_ptr\<close> ignores the special tag.\<close>

definition trapped_ptr :: "cpu_ctx \<Rightarrow> u32 \<Rightarrow> (u64 \<times> bool) option" where
  "trapped_ptr c addr = (let e = entry c addr in map_option (\<lambda>p. (p, tst e TAG_CODE)) (entry_ptr e addr))"

text \<open>\<^verbatim>\<open>memcpy\<close> of \<open>len\<close> bytes; for ranges that overlap C leaves the result open.\<close>

definition copy_bytes :: "nat \<Rightarrow> u64 \<Rightarrow> u64 \<Rightarrow> (u64 \<Rightarrow> u8) \<Rightarrow> (u64 \<Rightarrow> u8)" where
  "copy_bytes len d p h = (\<lambda>a. if unat (a - d) < len then h (p + (a - d)) else h a)"

definition room_in_page :: "nat \<Rightarrow> u32 \<Rightarrow> u32" where
  "room_in_page u addr = (PAGE_SIZE - (addr AND (PAGE_SIZE - 1))) div of_nat u"

text \<open>A channel moved on by \<open>k\<close> units of \<open>u\<close> bytes.\<close>

definition moved :: "nat \<Rightarrow> nat \<Rightarrow> channel \<Rightarrow> channel" where
  "moved u k c = c\<lparr> cur_src := cur_src c + of_nat (u * k), cur_dst := cur_dst c + of_nat (u * k),
     iter_count := iter_count c - of_nat k, rem_count := rem_count c - of_nat k \<rparr>"

definition copy_step :: "cpu_id \<Rightarrow> nat \<Rightarrow> nat \<Rightarrow> nat \<Rightarrow> u64 \<Rightarrow> u64 \<Rightarrow> 'w dma \<Rightarrow> 'w dma" where
  "copy_step w n u k pd ps s = upd_ch w n (moved u k) (s\<lparr> d_host := copy_bytes (u * k) pd ps (d_host s) \<rparr>)"

text \<open>Unit by unit.  The room is the code's unsigned counter; the fuel is the number of units
  left, which the test of \<open>iter_count\<close> runs out with.\<close>

fun unit_loop :: "nat \<Rightarrow> run_cost \<Rightarrow> cpu_id \<Rightarrow> nat \<Rightarrow> nat \<Rightarrow> nat \<Rightarrow> nat \<Rightarrow> u32 \<Rightarrow> nat \<Rightarrow> u64 \<Rightarrow> u64 \<Rightarrow>
    'w dma \<Rightarrow> (nat \<times> 'w dma) option" where
  "unit_loop 0 rc w n u sh limit room used pd ps s = None"
| "unit_loop (Suc fuel) rc w n u sh limit room used pd ps s =
     (let s1 = copy_step w n u 1 pd ps s; room1 = room - 1 in
      if room1 = 0 \<or> iter_count (ch w n s1) = 0 \<or> limit \<le> used then Some (used, s1)
      else
        (let c = ch w n s1; (k, pos) = run_next rc (burst_table c) (burst_pos c)
         in unit_loop fuel rc w n u sh limit room1 (used + k * 2 ^ sh) (pd + of_nat u) (ps + of_nat u)
              (upd_ch w n (\<lambda>c. c\<lparr> burst_pos := pos \<rparr>) s1)))"

text \<open>The whole run in one copy, when it is long enough and its cost has a closed form.\<close>

definition bulk_run :: "run_cost \<Rightarrow> cpu_id \<Rightarrow> nat \<Rightarrow> nat \<Rightarrow> nat \<Rightarrow> nat \<Rightarrow> nat \<Rightarrow> nat \<Rightarrow> u64 \<Rightarrow> u64 \<Rightarrow>
    'w dma \<Rightarrow> (nat \<times> 'w dma) option" where
  "bulk_run rc w n u sh limit len used pd ps s =
     (if kBulkMin \<le> len \<and> closed_form rc
      then (let pos = burst_pos (ch w n s); lo = bulk_cut rc pos sh used limit len in
            if 2 \<le> lo
            then (let (k, pos') = bulk rc pos (lo - 1)
                  in Some (used + k * 2 ^ sh, copy_step w n u lo pd ps (upd_ch w n (\<lambda>c. c\<lparr> burst_pos := pos' \<rparr>) s)))
            else None)
      else None)"

definition dma_sh :: "cpu_id \<Rightarrow> 'w dma \<Rightarrow> nat" where
  "dma_sh w s = (if w = ARM9 then d_shift9 s else 0)"

text \<open>Where a run writes to, after the trap of lazily drawn video memory has been taken.\<close>

definition run_target :: "'w dma_env \<Rightarrow> cpu_id \<Rightarrow> nat \<Rightarrow> 'w dma \<Rightarrow> (u64 \<times> bool) option \<times> 'w dma" where
  "run_target env w n s =
     (let a = cur_dst (ch w n s); pd = write_ptr (d_cpu s w) a in
      if pd = None \<and> w = ARM9 \<and> drop_bit 24 a = 0x06
      then (let s1 = de_vram_trap env a s; a1 = cur_dst (ch w n s1); pd1 = write_ptr (d_cpu s1 w) a1
            in (if pd1 = None \<and> de_trap_settled env s1 then trapped_ptr (d_cpu s1 w) a1 else pd1, s1))
      else (pd, s))"

text \<open>The run itself, once both ends are known: at most to the end of either page.\<close>

definition run_pages :: "cpu_id \<Rightarrow> nat \<Rightarrow> nat \<Rightarrow> nat \<Rightarrow> nat \<Rightarrow> u64 \<Rightarrow> u64 \<Rightarrow> 'w dma \<Rightarrow> (nat \<times> 'w dma) option" where
  "run_pages w n u limit used pd ps s =
     (let c = ch w n s;
          room = (let rs = room_in_page u (cur_src c); rd = room_in_page u (cur_dst c) in if rd < rs then rd else rs);
          (rc, s1) = run_cost w n (u = 4) s;
          left = iter_count (ch w n s1);
          len = unat (if room < left then room else left);
          sh = dma_sh w s1
      in case bulk_run rc w n u sh limit len used pd ps s1 of
           Some r \<Rightarrow> Some r
         | None \<Rightarrow> unit_loop (unat left) rc w n u sh limit room used pd ps s1)"

text \<open>\<^verbatim>\<open>direct_run\<close>: the cycles used so far and the limit of the pages tried in vain go in and out.\<close>

definition direct_run :: "'w dma_env \<Rightarrow> cpu_id \<Rightarrow> nat \<Rightarrow> nat \<Rightarrow> nat \<Rightarrow> nat \<Rightarrow> u32 \<Rightarrow> 'w dma \<Rightarrow>
    (bool \<times> nat \<times> u32 \<times> 'w dma) option" where
  "direct_run env w n u limit used below s =
     (let c = ch w n s in
      if src_inc c \<noteq> 1 \<or> dst_inc c \<noteq> 1 \<or> cur_dst c < below then Some (False, used, below, s)
      else
        (let tcm = (w = ARM9 \<and> (dma_tcm (cur_src c) s \<or> dma_tcm (cur_dst c) s));
             psrc = (if tcm then None else read_ptr (d_cpu s w) (cur_src c));
             (pdst, s1) = (if psrc = None then (None, s) else run_target env w n s)
         in case (psrc, pdst) of
              (Some ps, Some (pd, False)) \<Rightarrow>
                map_option (\<lambda>(used', s2). (True, used', below, s2)) (run_pages w n u limit used pd ps s1)
            | _ \<Rightarrow> Some (False, used, (cur_dst (ch w n s1) OR (PAGE_SIZE - 1)) + 1, s1)))"

section \<open>A channel's turn\<close>

text \<open>The DMA's view of memory: tightly coupled memory does not answer it, but the main RAM
  under the DTCM window does.\<close>

definition dmac_view :: "cpu_id \<Rightarrow> u32 \<Rightarrow> 'w dma \<Rightarrow> u32 option" where
  "dmac_view w addr s =
     (if w \<noteq> ARM9 \<or> \<not> dma_tcm addr s then Some addr
      else if drop_bit 24 addr \<noteq> 0x02 then None
      else Some (addr XOR 0x00400000))"

definition dma_load :: "'w dma_env \<Rightarrow> cpu_id \<Rightarrow> nat \<Rightarrow> u32 \<Rightarrow> 'w dma \<Rightarrow> u32 \<times> 'w dma" where
  "dma_load env w u addr0 s =
     (let addr = addr0 AND NOT (of_nat u - 1) in
      case read_ptr (d_cpu s w) addr of
        Some p \<Rightarrow> (if u = 4 then ld32 (d_host s) p else ucast (ld16 (d_host s) p), s)
      | None \<Rightarrow> (let (v, s1) = de_read env w addr (8 * u) s in (if u = 4 then v else ucast (ucast v :: u16), s1)))"

definition dma_store :: "'w dma_env \<Rightarrow> cpu_id \<Rightarrow> nat \<Rightarrow> u32 \<Rightarrow> u32 \<Rightarrow> 'w dma \<Rightarrow> 'w dma" where
  "dma_store env w u addr0 v s =
     (let addr = addr0 AND NOT (of_nat u - 1); st = (\<lambda>p. if u = 4 then st32 p v else st16 p (ucast v)) in
      case write_ptr (d_cpu s w) addr of
        Some (p, code) \<Rightarrow>
          (let h = st p (d_host s); s1 = s\<lparr> d_host := h \<rparr> in
           if code \<and> list_all (\<lambda>i. h (p + of_nat i) = d_host s (p + of_nat i)) [0..<u] then s
           else if code then de_code_write env w p u s1 else s1)
      | None \<Rightarrow> de_write env w addr (8 * u) (if u = 4 then v else ucast (ucast v :: u16)) s)"

definition dmac_read :: "'w dma_env \<Rightarrow> cpu_id \<Rightarrow> nat \<Rightarrow> u32 \<Rightarrow> 'w dma \<Rightarrow> u32 \<times> 'w dma" where
  "dmac_read env w u addr s = (case dmac_view w addr s of Some a \<Rightarrow> dma_load env w u a s | None \<Rightarrow> (0, s))"

definition dmac_write :: "'w dma_env \<Rightarrow> cpu_id \<Rightarrow> nat \<Rightarrow> u32 \<Rightarrow> u32 \<Rightarrow> 'w dma \<Rightarrow> 'w dma" where
  "dmac_write env w u addr v s = (case dmac_view w addr s of Some a \<Rightarrow> dma_store env w u a v s | None \<Rightarrow> s)"

text \<open>The geometry FIFO fed from a mapped page, word by word; the cost of a word is doubled
  whatever the clock.\<close>

definition gx_moved :: "nat \<Rightarrow> channel \<Rightarrow> channel" where
  "gx_moved k c = c\<lparr> cur_src := cur_src c + of_nat (4 * k),
     iter_count := iter_count c - of_nat k, rem_count := rem_count c - of_nat k \<rparr>"

fun gx_loop :: "'w dma_env \<Rightarrow> nat \<Rightarrow> run_cost \<Rightarrow> nat \<Rightarrow> nat \<Rightarrow> u32 \<Rightarrow> nat \<Rightarrow> u64 \<Rightarrow> 'w dma \<Rightarrow> (nat \<times> 'w dma) option" where
  "gx_loop env 0 rc n limit room used p s = None"
| "gx_loop env (Suc fuel) rc n limit room used p s =
     (let s1 = upd_ch ARM9 n (gx_moved 1) (de_gxfifo_write env (ld32 (d_host s) p) s); room1 = room - 1 in
      if room1 = 0 \<or> iter_count (ch ARM9 n s1) = 0 \<or> limit \<le> used then Some (used, s1)
      else
        (let c = ch ARM9 n s1; (k, pos) = run_next rc (burst_table c) (burst_pos c)
         in gx_loop env fuel rc n limit room1 (used + k * 2) (p + 4) (upd_ch ARM9 n (\<lambda>c. c\<lparr> burst_pos := pos \<rparr>) s1)))"

definition gx_bulk :: "'w dma_env \<Rightarrow> run_cost \<Rightarrow> nat \<Rightarrow> nat \<Rightarrow> nat \<Rightarrow> nat \<Rightarrow> u64 \<Rightarrow> 'w dma \<Rightarrow> (nat \<times> 'w dma) option" where
  "gx_bulk env rc n limit len used p s =
     (if kBulkMin \<le> len \<and> closed_form rc
      then (let pos = burst_pos (ch ARM9 n s); k = bulk_cut rc pos (d_shift9 s) used limit len in
            if 2 \<le> k
            then (let (c, pos') = bulk rc pos (k - 1);
                      s1 = upd_ch ARM9 n (\<lambda>c. c\<lparr> burst_pos := pos' \<rparr>) s;
                      s2 = de_gxfifo_burst env (map (\<lambda>i. ld32 (d_host s1) (p + of_nat (4 * i))) [0..<k]) s1
                  in Some (used + c * 2 ^ d_shift9 s, upd_ch ARM9 n (gx_moved k) s2))
            else None)
      else None)"

definition gx_run :: "'w dma_env \<Rightarrow> nat \<Rightarrow> nat \<Rightarrow> nat \<Rightarrow> nat \<Rightarrow> u64 \<Rightarrow> 'w dma \<Rightarrow> (nat \<times> 'w dma) option" where
  "gx_run env fuel n limit used p s =
     (let room = room_in_page 4 (cur_src (ch ARM9 n s));
          (rc, s1) = run_cost ARM9 n True s;
          c1 = ch ARM9 n s1;
          len = min (unat (if room < iter_count c1 then room else iter_count c1)) (de_fifo_room env s1)
      in case gx_bulk env rc n limit len used p s1 of
           Some r \<Rightarrow> Some r
         | None \<Rightarrow> gx_loop env fuel rc n limit room used p s1)"

definition is_gx_feed :: "cpu_id \<Rightarrow> bool \<Rightarrow> channel \<Rightarrow> bool" where
  "is_gx_feed w word c \<longleftrightarrow> word \<and> w = ARM9 \<and> cur_dst c = 0x04000400 \<and> dst_inc c = 0"

text \<open>The step after a unit moved through the bus.\<close>

definition stepped :: "nat \<Rightarrow> channel \<Rightarrow> channel" where
  "stepped u c = c\<lparr> cur_src := cur_src c + of_int (src_inc c) * of_nat u,
     cur_dst := cur_dst c + of_int (dst_inc c) * of_nat u, iter_count := iter_count c - 1, rem_count := rem_count c - 1 \<rparr>"

text \<open>What moves after the first unit of an iteration has been charged: cycles, the limit of the
  pages tried in vain, and the state.\<close>

definition move_unit :: "'w dma_env \<Rightarrow> nat \<Rightarrow> cpu_id \<Rightarrow> nat \<Rightarrow> bool \<Rightarrow> nat \<Rightarrow> nat \<Rightarrow> u32 \<Rightarrow> 'w dma \<Rightarrow>
    (nat \<times> u32 \<times> 'w dma) option" where
  "move_unit env fuel w n word limit used below s =
     (let c = ch w n s; u = (if word then 4 else 2) in
      if is_gx_feed w word c
      then (case (if src_inc c = 1 \<and> \<not> dma_tcm (cur_src c) s then read_ptr (d_cpu s ARM9) (cur_src c) else None) of
              Some p \<Rightarrow> map_option (\<lambda>(used', s'). (used', below, s')) (gx_run env fuel n limit used p s)
            | None \<Rightarrow> (let (v, s1) = dmac_read env w 4 (cur_src c) s
                      in Some (used, below, upd_ch w n (stepped u) (de_gxfifo_write env v s1))))
      else
        (case direct_run env w n u limit used below s of
           None \<Rightarrow> None
         | Some (True, used', below', s') \<Rightarrow> Some (used', below', s')
         | Some (False, used', below', s1) \<Rightarrow>
             (let (v, s2) = dmac_read env w u (cur_src (ch w n s1)) s1;
                  s3 = dmac_write env w u (cur_dst (ch w n s2)) v s2
              in Some (used', below', upd_ch w n (stepped u) s3))))"

fun run_loop :: "'w dma_env \<Rightarrow> nat \<Rightarrow> cpu_id \<Rightarrow> nat \<Rightarrow> bool \<Rightarrow> nat \<Rightarrow> bool \<Rightarrow> nat \<Rightarrow> u32 \<Rightarrow> 'w dma \<Rightarrow>
    (nat \<times> 'w dma) option" where
  "run_loop env fuel w n word limit burst_start used below s =
     (if iter_count (ch w n s) \<noteq> 0 \<and> used < limit
      then (case fuel of
              0 \<Rightarrow> None
            | Suc fuel \<Rightarrow>
                (let (k, s1) = unit_cycles w n burst_start word s;
                     used1 = used + k * 2 ^ dma_sh w s1;
                     s2 = (if d_track s1 then de_progress env (d_run_base s1 + used1) s1 else s1)
                 in case move_unit env fuel w n word limit used1 below s2 of
                      None \<Rightarrow> None
                    | Some (used', below', s') \<Rightarrow> run_loop env fuel w n word limit False used' below' s'))
      else Some (used, s))"

declare run_loop.simps [simp del]

text \<open>The end of a turn: out of budget, waiting for the next trigger, or complete.\<close>

definition dma_finish :: "'w dma_env \<Rightarrow> cpu_id \<Rightarrow> nat \<Rightarrow> 'w dma \<Rightarrow> 'w dma" where
  "dma_finish env w n s =
     (let c = ch w n s in
      if rem_count c \<noteq> 0
      then (if iter_count c = 0
            then (let s1 = set_running w n 0 s
                  in if start_mode (ch w n s1) = MODE9_GXFIFO then check_fifo_dma env s1 else s1)
            else s)
      else
        (let s1 = (if \<not> tst (dc_cnt c) 0x02000000
                   then update_cart_armed env (upd_ch w n (\<lambda>c. c\<lparr> dc_cnt := cnt_off (dc_cnt c) \<rparr>) s) else s);
             s2 = (if tst (dc_cnt (ch w n s1)) 0x40000000 then de_request_irq env w (8 + n) s1 else s1);
             s3 = upd_ch w n (\<lambda>c. c\<lparr> in_progress := False \<rparr>) (set_running w n 0 s2);
             m = start_mode (ch w n s3)
         in if m = MODE9_CART \<or> m = MODE7_CART then start_if_drq env (dma_start env w n) s3 else s3))"

definition run_channel :: "'w dma_env \<Rightarrow> nat \<Rightarrow> cpu_id \<Rightarrow> nat \<Rightarrow> nat \<Rightarrow> 'w dma \<Rightarrow> (nat \<times> 'w dma) option" where
  "run_channel env fuel w n limit s =
     (let c = ch w n s; word = tst (dc_cnt c) 0x04000000
      in map_option (\<lambda>(used, s1). (used, dma_finish env w n s1))
           (run_loop env fuel w n word limit (running c = 2) 0 0 (set_running w n 1 s)))"

section \<open>A turn of the NDMA\<close>

definition ndma_cost :: "cpu_id \<Rightarrow> u32 \<Rightarrow> 'w dma \<Rightarrow> nat \<times> nat" where
  "ndma_cost w addr s =
     (let t = (if w = ARM9 then d_bus9 s (drop_bit 14 addr) else d_bus7 s (drop_bit 15 addr)) in (unat (t 2), unat (t 3)))"

definition ndma_unit :: "cpu_id \<Rightarrow> nat \<Rightarrow> 'w dma \<Rightarrow> nat" where
  "ndma_unit w n s =
     (let c = nch w n s; (sn, ss) = ndma_cost w (ncur_src c) s; (dn, dsx) = ndma_cost w (ncur_dst c) s;
          src_main = (drop_bit 24 (ncur_src c) = 0x02); dst_main = (drop_bit 24 (ncur_dst c) = 0x02);
          k = (if w = ARM9 then 24 else 23);
          unit = (if src_main \<and> dst_main then sn + dn
                  else if drop_bit k (ncur_src c) = drop_bit k (ncur_dst c) then ss + dsx + 1
                  else if src_main then ss + dsx - 1 else ss + dsx)
      in if w = ARM9 then unit * 2 ^ n_shift9 s else unit)"

definition nstepped :: "nchannel \<Rightarrow> nchannel" where
  "nstepped c = c\<lparr> ncur_src := ncur_src c + of_int (nsrc_inc c) * 4, ncur_dst := ncur_dst c + of_int (ndst_inc c) * 4,
     niter_count := niter_count c - 1, nrem_count := nrem_count c - 1, ntotal_rem := ntotal_rem c - 1 \<rparr>"

fun ndma_loop :: "'w dma_env \<Rightarrow> nat \<Rightarrow> bool \<times> bool \<times> bool \<Rightarrow> cpu_id \<Rightarrow> nat \<Rightarrow> nat \<Rightarrow> nat \<Rightarrow> nat \<Rightarrow> 'w dma \<Rightarrow>
    (nat \<times> 'w dma) option" where
  "ndma_loop env fuel ports w n unit limit used s =
     (if niter_count (nch w n s) = 0 then Some (used, s)
      else (case fuel of
              0 \<Rightarrow> None
            | Suc fuel \<Rightarrow>
                (let (fill, src_fifo, dst_aes) = ports; used1 = used + unit;
                     s1 = de_progress env (n_run_base s + used1) s;
                     c = nch w n s1;
                     (v, s2) = (if fill then (nc_fill c, s1)
                                else if src_fifo then de_ndma_read7 env (ncur_src c) s1
                                else dmac_read env w 4 (ncur_src c) s1);
                     s3 = (if dst_aes then de_ndma_write7 env v s2 else dmac_write env w 4 (ncur_dst (nch w n s2)) v s2);
                     s4 = upd_nch w n nstepped s3
                 in if limit \<le> used1 then Some (used1, s4)
                    else ndma_loop env fuel ports w n unit limit used1 s4)))"

declare ndma_loop.simps [simp del]

text \<open>An immediate transfer, or one whose total has run out, is disabled; every end tells the AES
  unit, and a cartridge channel starts again at once when there is data.\<close>

definition ndma_finished :: "'w dma_env \<Rightarrow> cpu_id \<Rightarrow> nat \<Rightarrow> 'w dma \<Rightarrow> 'w dma" where
  "ndma_finished env w n s =
     (let c = nch w n s;
          irq = (\<lambda>s. if tst (nc_cnt c) 0x40000000 then de_request_irq env w (28 + n) s else s);
          off = upd_nch w n (\<lambda>c. c\<lparr> nc_cnt := cnt_off (nc_cnt c) \<rparr>);
          s1 = (if nstart_mode c AND 0x1F = 0x10 then irq (off s)
                else if tst (nc_cnt c) 0x20000000 then irq s
                else if ntotal_rem c = 0 then irq (off s) else s);
          s2 = upd_nch w n (\<lambda>c. c\<lparr> nin_progress := False \<rparr>) (set_nrunning w n 0 s1);
          s3 = update_cart_armed env s2;
          s4 = (if w = ARM7 then de_aes_check env s3 else s3);
          m = nstart_mode (nch w n s4)
      in if m = 0x04 \<or> m = 0x24 then start_if_drq env (ndma_start env w n) s4 else s4)"

definition ndma_run_channel :: "'w dma_env \<Rightarrow> nat \<Rightarrow> cpu_id \<Rightarrow> nat \<Rightarrow> nat \<Rightarrow> 'w dma \<Rightarrow> (nat \<times> 'w dma) option" where
  "ndma_run_channel env fuel w n limit s0 =
     (let s = set_nrunning w n 1 s0; c = nch w n s; fill = (fld (nc_cnt c) 13 3 = 3);
          direct = (w = ARM7 \<and> de_ndma_direct env);
          src_fifo = (direct \<and> \<not> fill \<and> nsrc_inc c = 0 \<and> (ncur_src c = 0x0400490C \<or> ncur_src c = 0x0400440C) \<and>
                      de_io_access env (ncur_src c) s);
          dst_aes = (direct \<and> ndst_inc c = 0 \<and> ncur_dst c = 0x04004408 \<and> de_io_access env (ncur_dst c) s)
      in map_option (\<lambda>(used, s1).
           (used,
            if nrem_count (nch w n s1) \<noteq> 0
            then (if niter_count (nch w n s1) = 0
                  then (let s2 = set_nrunning w n 0 s1;
                            s3 = (if nstart_mode (nch w n s2) = 0x0A then check_fifo_dma env s2 else s2)
                        in if w = ARM7 then de_aes_check env s3 else s3)
                  else s1)
            else ndma_finished env w n s1))
           (ndma_loop env fuel (fill, src_fifo, dst_aes) w n (ndma_unit w n s) limit 0 s))"

text \<open>The channels of a CPU in turn, sharing the budget.\<close>

fun ndma_turns :: "'w dma_env \<Rightarrow> nat \<Rightarrow> cpu_id \<Rightarrow> nat \<Rightarrow> nat \<Rightarrow> nat list \<Rightarrow> nat \<Rightarrow> 'w dma \<Rightarrow> (nat \<times> 'w dma) option" where
  "ndma_turns env fuel w limit base [] used s = Some (used, s)"
| "ndma_turns env fuel w limit base (n # ns) used s =
     (if limit \<le> used then Some (used, s)
      else if nrunning (nch w n s) = 0 then ndma_turns env fuel w limit base ns used s
      else (case ndma_run_channel env fuel w n (limit - used) (s\<lparr> n_run_base := base + used \<rparr>) of
              None \<Rightarrow> None
            | Some (k, s1) \<Rightarrow> ndma_turns env fuel w limit base ns (used + k) s1))"

definition ndma_run :: "'w dma_env \<Rightarrow> nat \<Rightarrow> cpu_id \<Rightarrow> nat \<Rightarrow> 'w dma \<Rightarrow> (nat \<times> 'w dma) option" where
  "ndma_run env fuel w limit s =
     map_option (\<lambda>(used, s1). (used, s1\<lparr> n_run_base := n_run_base s \<rparr>))
       (ndma_turns env fuel w limit (n_run_base s) chans 0 s)"

fun dma_turns :: "'w dma_env \<Rightarrow> nat \<Rightarrow> cpu_id \<Rightarrow> nat \<Rightarrow> nat list \<Rightarrow> nat \<Rightarrow> 'w dma \<Rightarrow> (nat \<times> 'w dma) option" where
  "dma_turns env fuel w limit [] used s = Some (used, s)"
| "dma_turns env fuel w limit (n # ns) used s =
     (if limit \<le> used then Some (used, s)
      else if running (ch w n s) = 0 then dma_turns env fuel w limit ns used s
      else (case run_channel env fuel w n (limit - used) (s\<lparr> d_run_base := used \<rparr>) of
              None \<Rightarrow> None
            | Some (k, s1) \<Rightarrow> dma_turns env fuel w limit ns (used + k) s1))"

definition cart_running :: "cpu_id \<Rightarrow> 'w dma \<Rightarrow> bool" where
  "cart_running w s \<longleftrightarrow>
     list_ex (\<lambda>n. running (ch w n s) \<noteq> 0 \<and> (start_mode (ch w n s) = MODE9_CART \<or> start_mode (ch w n s) = MODE7_CART)) chans"

fun dma_run_from :: "'w dma_env \<Rightarrow> nat \<Rightarrow> cpu_id \<Rightarrow> nat \<Rightarrow> nat \<Rightarrow> 'w dma \<Rightarrow> (nat \<times> 'w dma) option" where
  "dma_run_from env 0 w limit used s = None"
| "dma_run_from env (Suc fuel) w limit used s =
     (case dma_turns env fuel w limit chans used s of
        None \<Rightarrow> None
      | Some (used1, s1) \<Rightarrow>
          (case (if de_dsi env \<and> used1 < limit \<and> tst (d_mask s1 w) 0x10
                 then map_option (\<lambda>(k, s2). (used1 + k, s2)) (ndma_run env fuel w (limit - used1) (s1\<lparr> n_run_base := used1 \<rparr>))
                 else Some (used1, s1)) of
             None \<Rightarrow> None
           | Some (used2, s2) \<Rightarrow>
               if used2 < limit \<and> cart_running w s2 then dma_run_from env fuel w limit used2 s2 else Some (used2, s2)))"

definition dma_run :: "'w dma_env \<Rightarrow> nat \<Rightarrow> cpu_id \<Rightarrow> nat \<Rightarrow> 'w dma \<Rightarrow> (nat \<times> 'w dma) option" where
  "dma_run env fuel w limit s = dma_run_from env fuel w limit 0 s"

section \<open>The NDMA's registers, and reset\<close>

definition nenabled :: "cpu_id \<Rightarrow> u32 \<Rightarrow> nchannel \<Rightarrow> nchannel" where
  "nenabled w v c = c\<lparr> ncur_src := nc_src c, ncur_dst := nc_dst c, ntotal_rem := nc_total c,
     ndst_inc := (let k = fld v 10 3 in if k = 1 then -1 else if k = 2 then 0 else 1),
     nsrc_inc := (let k = fld v 13 3 in if k = 0 then 1 else if k = 1 then -1 else 0),
     nstart_mode := (let m = fld v 24 0x1F; m1 = (if 0x10 < m then 0x10 else m) in if w = ARM7 then m1 OR 0x20 else m1) \<rparr>"

definition ndma_write_cnt :: "'w dma_env \<Rightarrow> cpu_id \<Rightarrow> nat \<Rightarrow> u32 \<Rightarrow> 'w dma \<Rightarrow> 'w dma" where
  "ndma_write_cnt env w n v s =
     (let old = nc_cnt (nch w n s); s1 = upd_nch w n (\<lambda>c. c\<lparr> nc_cnt := v \<rparr>) s in
      if tst old 0x80000000 \<or> \<not> tst v 0x80000000 then s1
      else
        (let s2 = update_cart_armed env (upd_nch w n (nenabled w v) s1); m = nstart_mode (nch w n s2) in
         if m AND 0x1F = 0x10 then ndma_start env w n s2
         else if m = 0x04 \<or> m = 0x24 then start_if_drq env (ndma_start env w n) s2
         else if m = 0x0A then check_fifo_dma env s2
         else s2))"

definition ndma_read :: "cpu_id \<Rightarrow> u32 \<Rightarrow> 'w dma \<Rightarrow> u32" where
  "ndma_read w addr s =
     (let r = addr AND 0xFF in
      if r = 0 then n_gcr s w
      else if r < 0x04 \<or> 0x04 + 4 * 0x1C \<le> r then 0
      else
        (let c = nch w (unat ((r - 4) div 0x1C)) s; k = (r - 4) mod 0x1C in
         if k = 0x00 then nc_src c else if k = 0x04 then nc_dst c else if k = 0x08 then nc_total c
         else if k = 0x0C then nc_block c else if k = 0x10 then nc_timer c else if k = 0x14 then nc_fill c
         else if k = 0x18 then nc_cnt c else 0))"

definition ndma_write :: "'w dma_env \<Rightarrow> cpu_id \<Rightarrow> u32 \<Rightarrow> u32 \<Rightarrow> 'w dma \<Rightarrow> 'w dma" where
  "ndma_write env w addr v s =
     (let r = addr AND 0xFF in
      if r = 0 then s\<lparr> n_gcr := (n_gcr s)(w := v AND 0x800F0000) \<rparr>
      else if r < 0x04 \<or> 0x04 + 4 * 0x1C \<le> r then s
      else
        (let n = unat ((r - 4) div 0x1C); k = (r - 4) mod 0x1C in
         if k = 0x00 then upd_nch w n (\<lambda>c. c\<lparr> nc_src := v AND 0xFFFFFFFC \<rparr>) s
         else if k = 0x04 then upd_nch w n (\<lambda>c. c\<lparr> nc_dst := v AND 0xFFFFFFFC \<rparr>) s
         else if k = 0x08 then upd_nch w n (\<lambda>c. c\<lparr> nc_total := v AND 0x0FFFFFFF \<rparr>) s
         else if k = 0x0C then upd_nch w n (\<lambda>c. c\<lparr> nc_block := v AND 0x00FFFFFF \<rparr>) s
         else if k = 0x10 then upd_nch w n (\<lambda>c. c\<lparr> nc_timer := v AND 0x0003FFFF \<rparr>) s
         else if k = 0x14 then upd_nch w n (\<lambda>c. c\<lparr> nc_fill := v \<rparr>) s
         else if k = 0x18 then ndma_write_cnt env w n v s
         else s))"

definition dma_reset :: "'w dma \<Rightarrow> 'w dma" where
  "dma_reset s = s\<lparr> d_mask := (\<lambda>_. 0), d_ch := (\<lambda>_ _. new_channel), d_cart_armed := False, d_gx_armed := False \<rparr>"

definition ndma_reset :: "'w dma \<Rightarrow> 'w dma" where
  "ndma_reset s = s\<lparr> n_ch := (\<lambda>_ _. new_nchannel), n_gcr := (\<lambda>_. 0), n_mask := (\<lambda>_. 0) \<rparr>"

end
