(* ===== verification/DmaSpec.thy ===== *)
theory DmaSpec imports Dma Sample begin

text \<open>
  The fast path of a DMA run: the closed form of a run's cost is the walk over the burst
  pattern it stands for, the binary search finds the longest run that fits, and one copy of
  that many units leaves the state that moving them one by one leaves.
\<close>

section \<open>The closed form of a run's cost\<close>

text \<open>The cost of \<open>n\<close> units, taken one by one.\<close>

fun walk :: "run_cost \<Rightarrow> burst \<Rightarrow> nat \<Rightarrow> nat \<Rightarrow> nat \<times> nat" where
  "walk rc b pos 0 = (0, pos)"
| "walk rc b pos (Suc n) = (let (k, p) = run_next rc b pos; (t, q) = walk rc b p n in (k + t, q))"

lemma burst_positive: "v \<in> set (burst_data b) \<Longrightarrow> 0 < v"
  by (cases b) (auto simp: make_burst_def dest!: in_set_takeD)

lemma burst_at_zero: "burst_at b pos = 0 \<longleftrightarrow> burst_len b \<le> pos"
  using burst_positive [of "burst_data b ! pos" b] by (auto simp: burst_at_def burst_len_def)

lemma burst_at_max: "burst_at b pos \<le> 9"
proof -
  have "v \<le> 9" if "v \<in> set (burst_data b)" for v
    using that by (cases b) (auto simp: make_burst_def dest!: in_set_takeD)
  then show ?thesis by (simp add: burst_at_def burst_len_def)
qed

lemma prefix_Suc: "burst_prefix b (Suc i) = burst_prefix b i + burst_at b i"
  by (cases "i < burst_len b")
    (simp_all add: burst_prefix_def burst_at_def burst_len_def take_Suc_conv_app_nth)

lemma prefix_mono: "i \<le> j \<Longrightarrow> burst_prefix b i \<le> burst_prefix b j"
  by (induction j) (auto simp: prefix_Suc le_Suc_eq)

lemma prefix_all: "burst_len b \<le> i \<Longrightarrow> burst_prefix b i = burst_prefix b (burst_len b)"
  by (simp add: burst_prefix_def burst_len_def)

text \<open>The walk from a position inside the pattern up to its end, and from there on.\<close>

lemma walk_inside:
  "pos + n \<le> burst_len b \<Longrightarrow> walk (Walk t) b pos n = (burst_prefix b (pos + n) - burst_prefix b pos, pos + n)"
proof (induction n arbitrary: pos)
  case (Suc n)
  then have "burst_at b pos \<noteq> 0" "walk (Walk t) b (pos + 1) n =
      (burst_prefix b (pos + 1 + n) - burst_prefix b (pos + 1), pos + 1 + n)"
    by (simp_all add: burst_at_zero)
  moreover have "burst_prefix b (pos + 1) \<le> burst_prefix b (pos + 1 + n)" by (rule prefix_mono) simp
  ultimately show ?case by (simp add: run_next_def Let_def prefix_Suc)
qed simp

lemma walk_add:
  "walk rc b pos (m + n) = (let (k, p) = walk rc b pos m; (t, q) = walk rc b p n in (k + t, q))"
  by (induction m arbitrary: pos) (simp_all add: split_beta Let_def)

lemma walk_end: "burst_len b \<le> pos \<Longrightarrow> 0 < n \<Longrightarrow> walk (Walk t) b pos n = walk (Walk t) b 0 n"
  by (cases n) (auto simp: run_next_def burst_at_zero)

lemma walk_round: "0 < burst_len b \<Longrightarrow> 0 < n \<Longrightarrow>
  walk (Walk t) b 0 n = (n div burst_len b * burst_prefix b (burst_len b) + burst_prefix b (n mod burst_len b),
    (n - 1) mod burst_len b + 1)"
proof (induction n rule: less_induct)
  case (less n)
  let ?P = "burst_len b" and ?S = "burst_prefix b (burst_len b)"
  show ?case
  proof (cases "n \<le> ?P")
    case True
    then show ?thesis
      using less.prems walk_inside [of 0 n b t] by (cases "n = ?P") (auto simp: burst_prefix_def)
  next
    case False
    define m where "m = n - ?P"
    have m: "n = ?P + m" "0 < m" "m < n" using False less.prems by (auto simp: m_def)
    have "walk (Walk t) b 0 n = (let (t', q) = walk (Walk t) b ?P m in (?S + t', q))"
      using walk_inside [of 0 ?P b t] by (simp add: m(1) walk_add burst_prefix_def)
    also have "walk (Walk t) b ?P m = walk (Walk t) b 0 m" using m by (intro walk_end) auto
    also have "\<dots> = (m div ?P * ?S + burst_prefix b (m mod ?P), (m - 1) mod ?P + 1)"
      using less.IH [OF m(3)] less.prems m(2) by simp
    finally have w: "walk (Walk t) b 0 n =
      (?S + (m div ?P * ?S + burst_prefix b (m mod ?P)), (m - 1) mod ?P + 1)" by simp
    have "n - 1 = (m - 1) + ?P" using m by simp
    then have "(n - 1) mod ?P = (m - 1) mod ?P" by simp
    moreover have "n div ?P = m div ?P + 1" "n mod ?P = m mod ?P" using m(1) less.prems by (simp_all add: div_add_self1)
    ultimately show ?thesis by (simp add: w)
  qed
qed

lemma bulk_is_walk:
  assumes "closed_form rc" "\<And>t. rc = Walk t \<Longrightarrow> b = t"
  shows "bulk rc pos n = walk rc b pos n"
proof (cases rc)
  case (Constant k)
  have "walk (Constant k) b pos n = (k * n, pos)" by (induction n) (simp_all add: run_next_def)
  then show ?thesis by (simp add: Constant bulk_def)
next
  case (Walk t)
  then have rc: "rc = Walk b" and P: "0 < burst_len b" using assms by (auto simp: closed_form_def)
  let ?P = "burst_len b"
  define h where "h = (if pos < ?P then ?P - pos else 0)"
  show ?thesis
  proof (cases "n \<le> h")
    case True
    then have "pos + n \<le> ?P \<or> n = 0" by (auto simp: h_def split: if_splits)
    then show ?thesis
      using True walk_inside [of pos n b b] by (auto simp: rc bulk_def Let_def h_def [symmetric])
  next
    case False
    define m where "m = n - h"
    have m: "n = h + m" "0 < m" using False by (auto simp: m_def)
    have "walk (Walk b) b pos h = (burst_prefix b ?P - burst_prefix b pos, if pos < ?P then ?P else pos)"
      using walk_inside [of pos h b b] prefix_all [of b pos] by (auto simp: h_def)
    then have "walk (Walk b) b pos n = (let (t', q) = walk (Walk b) b 0 m in (burst_prefix b ?P - burst_prefix b pos + t', q))"
      unfolding m(1) walk_add using m(2) walk_end [of b "if pos < ?P then ?P else pos" m b] by auto
    also have "walk (Walk b) b 0 m = (m div ?P * burst_prefix b ?P + burst_prefix b (m mod ?P), (m - 1) mod ?P + 1)"
      using P m(2) by (rule walk_round)
    finally show ?thesis using False by (simp add: rc bulk_def Let_def h_def [symmetric] m_def)
  qed
qed

section \<open>The search for the longest run that fits\<close>

lemma cut_search_bounds:
  "lo \<le> hi \<Longrightarrow> lo \<le> cut_search ok lo hi \<and> cut_search ok lo hi \<le> hi \<and>
    (cut_search ok lo hi = lo \<or> ok (cut_search ok lo hi)) \<and>
    (cut_search ok lo hi = hi \<or> \<not> ok (cut_search ok lo hi + 1))"
proof (induction ok lo hi rule: cut_search.induct)
  case (1 ok lo hi)
  define mid where "mid = lo + (hi - lo + 1) div 2"
  show ?case
  proof (cases "lo < hi")
    case True
    then have mid: "lo < mid" "mid \<le> hi" by (auto simp: mid_def)
    show ?thesis
    proof (cases "ok mid")
      case True
      then have "cut_search ok lo hi = cut_search ok mid hi"
        using \<open>lo < hi\<close> by (subst cut_search.simps) (simp add: mid_def)
      then show ?thesis using "1.IH"(1) [OF \<open>lo < hi\<close> mid_def] True mid by auto
    next
      case False
      then have "cut_search ok lo hi = cut_search ok lo (mid - 1)"
        using \<open>lo < hi\<close> by (subst cut_search.simps) (simp add: mid_def)
      moreover have "mid - 1 + 1 = mid" using mid by simp
      ultimately show ?thesis using "1.IH"(2) [OF \<open>lo < hi\<close> mid_def] False mid by fastforce
    qed
  next
    case False
    then show ?thesis using "1.prems" by (subst (1 2 3 4 5 6) cut_search.simps) auto
  qed
qed

lemma walk_mono: "i \<le> j \<Longrightarrow> fst (walk rc b pos i) \<le> fst (walk rc b pos j)"
  using walk_add [of rc b pos i "j - i"] by (simp add: split_beta Let_def)

lemma bulk_cut_bounds:
  assumes "closed_form rc" "\<And>t. rc = Walk t \<Longrightarrow> b = t" "1 \<le> n" "bulk_cut rc pos sh used limit n = lo" "2 \<le> lo"
  shows "lo \<le> n" "used + fst (walk rc b pos (lo - 1)) * 2 ^ sh < limit"
    "lo = n \<or> limit \<le> used + fst (walk rc b pos lo) * 2 ^ sh"
proof -
  have w: "bulk rc pos n = walk rc b pos n" for pos n using assms(1,2) by (rule bulk_is_walk)
  let ?ok = "\<lambda>k. used + fst (walk rc b pos (k - 1)) * 2 ^ sh < limit"
  have "lo = (if ?ok n then n else cut_search ?ok 1 n)" using assms(4) unfolding bulk_cut_def w Let_def by (rule sym)
  then show "lo \<le> n" "?ok lo" "lo = n \<or> limit \<le> used + fst (walk rc b pos lo) * 2 ^ sh"
    using cut_search_bounds [OF assms(3), of ?ok] assms(5) by (auto split: if_splits)
qed

section \<open>One copy or many\<close>

text \<open>The two byte ranges have no byte in common.\<close>

definition apart :: "nat \<Rightarrow> u64 \<Rightarrow> u64 \<Rightarrow> bool" where
  "apart len d p \<longleftrightarrow> (\<forall>a. unat (a - p) < len \<longrightarrow> \<not> unat (a - d) < len)"

lemma unat_sub_of_nat:
  fixes x :: u64
  assumes "k < 2 ^ 64"
  shows "unat (x - of_nat k) = (if k \<le> unat x then unat x - k else 2 ^ 64 + unat x - k)"
proof -
  have k: "unat (of_nat k :: u64) = k" using assms by (simp add: unsigned_of_nat take_bit_nat_eq_self)
  show ?thesis
  proof (cases "k \<le> unat x")
    case True
    then show ?thesis using unat_sub [of "of_nat k" x] k by (simp add: word_le_nat_alt)
  next
    case False
    then show ?thesis using unat_sub_if' [of x "of_nat k"] k by (auto simp: word_le_nat_alt)
  qed
qed

lemma copy_bytes_split:
  assumes "a + b < 2 ^ 64" "apart (a + b) d p"
  shows "copy_bytes b (d + of_nat a) (p + of_nat a) (copy_bytes a d p h) = copy_bytes (a + b) d p h"
proof
  fix x
  let ?k = "unat (x - d)"
  have e: "x - (d + of_nat a) = (x - d) - of_nat a" by simp
  have u: "unat (x - (d + of_nat a)) = (if a \<le> ?k then ?k - a else 2 ^ 64 + ?k - a)"
    unfolding e using assms(1) by (intro unat_sub_of_nat) simp
  have y: "(p + of_nat a) + (x - (d + of_nat a)) = p + (x - d)" by simp
  have "\<not> unat (p + (x - d) - d) < a + b" if "?k < a + b"
  proof -
    have "p + (x - d) - p = x - d" by simp
    then show ?thesis using assms(2) that unfolding apart_def by metis
  qed
  then show "copy_bytes b (d + of_nat a) (p + of_nat a) (copy_bytes a d p h) x = copy_bytes (a + b) d p h x"
    using assms(1) unfolding copy_bytes_def u y by auto
qed

lemma apart_tail:
  assumes "a + b < 2 ^ 64" "apart (a + b) d p"
  shows "apart b (d + of_nat a) (p + of_nat a)"
proof -
  have "unat (x - q) < a + b" if "unat (x - (q + of_nat a)) < b" for x q :: u64
  proof -
    have "unat (x - (q + of_nat a)) = (if a \<le> unat (x - q) then unat (x - q) - a else 2 ^ 64 + unat (x - q) - a)"
      using unat_sub_of_nat [of a "x - q"] assms(1) by (simp add: algebra_simps)
    with that assms(1) show ?thesis by (auto split: if_splits)
  qed
  then show ?thesis using assms(2) unfolding apart_def by blast
qed

text \<open>The state after units have been moved: host bytes and one channel.\<close>

definition put :: "cpu_id \<Rightarrow> nat \<Rightarrow> (u64 \<Rightarrow> u8) \<Rightarrow> channel \<Rightarrow> 'w dma \<Rightarrow> 'w dma" where
  "put w n h c s = upd_ch w n (\<lambda>_. c) (s\<lparr> d_host := h \<rparr>)"

lemma put_fields [simp]:
  "ch w n (put w n h c s) = c" "d_host (put w n h c s) = h" "put w n h' c' (put w n h c s) = put w n h' c' s"
  by (simp_all add: put_def upd_ch_def ch_def)

lemma put_self: "put w n (d_host s) (ch w n s) s = s"
  by (simp add: put_def upd_ch_def ch_def)

lemma step_put: "copy_step w n u k pd ps s = put w n (copy_bytes (u * k) pd ps (d_host s)) (moved u k (ch w n s)) s"
  by (simp add: copy_step_def put_def upd_ch_def ch_def)

lemma pos_put: "upd_ch w n (\<lambda>c. c\<lparr> burst_pos := q \<rparr>) s = put w n (d_host s) ((ch w n s)\<lparr> burst_pos := q \<rparr>) s"
  by (simp add: put_def upd_ch_def ch_def)

lemma moved_fields [simp]:
  "iter_count (moved u k c) = iter_count c - of_nat k" "burst_pos (moved u k c) = burst_pos c"
  "burst_table (moved u k c) = burst_table c"
  by (simp_all add: moved_def)

lemma moved_moved:
  "(moved u (Suc k) ((moved u (Suc 0) c)\<lparr> burst_pos := p \<rparr>))\<lparr> burst_pos := q \<rparr> =
   (moved u (Suc (Suc k)) c)\<lparr> burst_pos := q \<rparr>"
  by (simp add: moved_def algebra_simps)

lemma moved_pos: "moved u k (c\<lparr> burst_pos := q \<rparr>) = (moved u k c)\<lparr> burst_pos := q \<rparr>"
  by (simp add: moved_def)

lemma apart_less: "apart m d p \<Longrightarrow> n \<le> m \<Longrightarrow> apart n d p"
  by (meson apart_def less_le_trans)

text \<open>Unit by unit for exactly \<open>Suc k\<close> units, when the budget and the count reach that far.\<close>

lemma unit_loop_exact:
  assumes "k < unat (iter_count (ch w n s))" "k < fuel" "u * Suc k < 2 ^ 64" "apart (u * Suc k) pd ps"
    "\<And>j. j < k \<Longrightarrow> used + fst (walk rc (burst_table (ch w n s)) (burst_pos (ch w n s)) j) * 2 ^ sh < limit"
  shows "unit_loop fuel rc w n u sh limit (of_nat (Suc k)) used pd ps s =
    (let (t, q) = walk rc (burst_table (ch w n s)) (burst_pos (ch w n s)) k
     in Some (used + t * 2 ^ sh, put w n (copy_bytes (u * Suc k) pd ps (d_host s))
          ((moved u (Suc k) (ch w n s))\<lparr> burst_pos := q \<rparr>) s))"
  using assms
proof (induction k arbitrary: fuel used pd ps s)
  case 0
  then obtain f where "fuel = Suc f" by (cases fuel) auto
  then show ?case by (simp add: step_put) (simp add: moved_def)
next
  case (Suc k)
  let ?c = "ch w n s"
  obtain f where f: "fuel = Suc f" "k < f" using Suc.prems(2) by (cases fuel) auto
  obtain v p where v: "run_next rc (burst_table ?c) (burst_pos ?c) = (v, p)" by fastforce
  let ?s1 = "put w n (copy_bytes u pd ps (d_host s)) ((moved u 1 ?c)\<lparr> burst_pos := p \<rparr>) s"
  have iter: "unat (iter_count (moved u 1 ?c)) = unat (iter_count ?c) - 1" "iter_count (moved u 1 ?c) \<noteq> 0"
  proof -
    have "iter_count ?c \<noteq> 0" using Suc.prems(1) by auto
    then show "unat (iter_count (moved u 1 ?c)) = unat (iter_count ?c) - 1" by (simp add: unat_minus_one)
    then show "iter_count (moved u 1 ?c) \<noteq> 0" using Suc.prems(1) by (metis not_less_eq unat_0 zero_less_diff diff_Suc_1 less_diff_conv not_less_zero plus_1_eq_Suc add.commute)
  qed
  have room: "of_nat (Suc (Suc k)) - 1 = (of_nat (Suc k) :: u32)" by simp
  have "Suc k < 2 ^ 32" using Suc.prems(1) unsigned_less [of "iter_count ?c", where 'a = nat] by simp
  then have room0: "(of_nat (Suc k) :: u32) \<noteq> 0" by (simp add: word_of_nat_eq_0_iff del: of_nat_Suc) (auto dest: dvd_imp_le)
  have "used < limit" using Suc.prems(5) [of 0] by simp
  then have step: "unit_loop fuel rc w n u sh limit (of_nat (Suc (Suc k))) used pd ps s =
      unit_loop f rc w n u sh limit (of_nat (Suc k)) (used + v * 2 ^ sh) (pd + of_nat u) (ps + of_nat u) ?s1"
    using iter(2) room0 unfolding f(1) unit_loop.simps Let_def room step_put pos_put put_fields moved_fields v
    by simp
  have split: "u * Suc (Suc k) = u + u * Suc k" by simp
  have "unit_loop f rc w n u sh limit (of_nat (Suc k)) (used + v * 2 ^ sh) (pd + of_nat u) (ps + of_nat u) ?s1 =
    (let (t, q) = walk rc (burst_table (ch w n ?s1)) (burst_pos (ch w n ?s1)) k
     in Some (used + v * 2 ^ sh + t * 2 ^ sh, put w n (copy_bytes (u * Suc k) (pd + of_nat u) (ps + of_nat u) (d_host ?s1))
          ((moved u (Suc k) (ch w n ?s1))\<lparr> burst_pos := q \<rparr>) ?s1))"
  proof (rule Suc.IH)
    show "k < unat (iter_count (ch w n ?s1))" using Suc.prems(1) iter by simp
    show "k < f" by (rule f(2))
    show "u * Suc k < 2 ^ 64" using Suc.prems(3) by simp
    show "apart (u * Suc k) (pd + of_nat u) (ps + of_nat u)"
      using Suc.prems(3,4) unfolding split by (rule apart_tail)
    show "used + v * 2 ^ sh + fst (walk rc (burst_table (ch w n ?s1)) (burst_pos (ch w n ?s1)) j) * 2 ^ sh < limit" if "j < k" for j
      using Suc.prems(5) [of "Suc j"] that v by (simp add: split_beta Let_def algebra_simps)
  qed
  also have "copy_bytes (u * Suc k) (pd + of_nat u) (ps + of_nat u) (d_host ?s1) = copy_bytes (u * Suc (Suc k)) pd ps (d_host s)"
    using Suc.prems(3,4) unfolding split put_fields by (rule copy_bytes_split)
  finally show ?case unfolding step by (simp add: v split_beta Let_def moved_moved algebra_simps)
qed

text \<open>A console for the witnesses: every channel and register zero, nothing mapped.\<close>

definition zero_dma :: "unit dma" where
  "zero_dma = \<lparr> d_ch = (\<lambda>_ _. new_channel), d_mask = (\<lambda>_. 0), d_cart_armed = False, d_gx_armed = False,
     d_shift9 = 1, d_run_base = 0, d_track = False, n_ch = (\<lambda>_ _. new_nchannel), n_gcr = (\<lambda>_. 0),
     n_mask = (\<lambda>_. 0), n_shift9 = 2, n_run_base = 0, d_cpu = (\<lambda>_. zero_cpu), d_host = (\<lambda>_. 0),
     d_bus9 = (\<lambda>_ _. 1), d_bus7 = (\<lambda>_ _. 1), d_regions9 = (\<lambda>_. REGION_NONE),
     d_regions7 = (\<lambda>_. REGION_NONE), d_world = () \<rparr>"

text \<open>C31: A run moved in one copy is the run moved unit by unit.  When the fast path takes a run
  between two mapped pages whose ranges do not overlap, the cycles it charges, the bytes it leaves in
  memory, the channel's addresses, counts and place in the burst pattern are those the loop over single
  units has reached after the same number of units.  It stops at the end of the run or where one more unit would use up
  the budget, and what it has charged is below the budget.  (The loop, which looks at the budget after a unit, would move
  that one unit more.)\<close>

theorem dma_bulk_is_unit_by_unit:
  assumes "bulk_run rc w n u sh limit len used pd ps s = Some (used', s')"
    "case rc of Constant _ \<Rightarrow> True | Walk t \<Rightarrow> t = burst_table (ch w n s)"
    "len \<le> unat (iter_count (ch w n s))" "u \<le> 4" "apart (u * len) pd ps"
  shows "\<exists>m. 2 \<le> m \<and> m \<le> len \<and>
    unit_loop m rc w n u sh limit (of_nat m) used pd ps s = Some (used', s') \<and> used' < limit \<and>
    (m = len \<or> limit \<le> used + fst (walk rc (burst_table (ch w n s)) (burst_pos (ch w n s)) m) * 2 ^ sh)"
proof -
  let ?b = "burst_table (ch w n s)" and ?pos = "burst_pos (ch w n s)"
  define m where "m = bulk_cut rc ?pos sh used limit len"
  from assms(1) have run: "closed_form rc" "2 \<le> m" "16 \<le> len"
    "used' = used + fst (bulk rc ?pos (m - 1)) * 2 ^ sh"
    "s' = copy_step w n u m pd ps (upd_ch w n (\<lambda>c. c\<lparr> burst_pos := snd (bulk rc ?pos (m - 1)) \<rparr>) s)"
    by (auto simp: bulk_run_def m_def kBulkMin_def Let_def split_beta split: if_splits)
  have t: "?b = t" if "rc = Walk t" for t using assms(2) that by auto
  have w: "bulk rc ?pos i = walk rc ?b ?pos i" for i using run(1) t by (rule bulk_is_walk)
  obtain j where j: "m = Suc j" using run(2) by (cases m) auto
  note cut = bulk_cut_bounds [OF run(1) t _ m_def [symmetric] run(2)]
  have m: "m \<le> len" "used + fst (walk rc ?b ?pos j) * 2 ^ sh < limit"
    "m = len \<or> limit \<le> used + fst (walk rc ?b ?pos m) * 2 ^ sh"
    using cut run(3) j by auto
  have small: "u * m < 2 ^ 64"
  proof -
    have "u * m \<le> 4 * unat (iter_count (ch w n s))" using m(1) assms(3,4) by (intro mult_le_mono) auto
    then show ?thesis using unsigned_less [of "iter_count (ch w n s)", where 'a = nat] by simp
  qed
  have "unit_loop m rc w n u sh limit (of_nat m) used pd ps s =
    (let (t, q) = walk rc ?b ?pos j
     in Some (used + t * 2 ^ sh, put w n (copy_bytes (u * m) pd ps (d_host s)) ((moved u m (ch w n s))\<lparr> burst_pos := q \<rparr>) s))"
    unfolding j
  proof (rule unit_loop_exact)
    show "j < unat (iter_count (ch w n s))" using m(1) assms(3) j by simp
    show "u * Suc j < 2 ^ 64" using small j by simp
    show "apart (u * Suc j) pd ps" using m(1) j by (intro apart_less [OF assms(5)] mult_le_mono2) simp
    show "used + fst (walk rc ?b ?pos i) * 2 ^ sh < limit" if "i < j" for i
      using walk_mono [of i j rc ?b ?pos] that m(2) by (meson add_left_mono le_less_trans less_imp_le mult_le_mono1)
  qed simp
  also have "\<dots> = Some (used', s')"
    using run(4,5) by (simp add: split_beta Let_def w j step_put pos_put moved_pos)
  finally have "unit_loop m rc w n u sh limit (of_nat m) used pd ps s = Some (used', s')" .
  moreover have "used' < limit" using run(4) m(2) by (simp add: w j)
  ultimately show ?thesis using run(2) m(1,3) by blast
qed

lemma far_apart: "apart 64 0x2000 0x1000"
proof -
  have "unat (a - 0x2000 :: u64) = 2 ^ 64 + unat (a - 0x1000) - 0x1000" if "unat (a - 0x1000) < 64" for a :: u64
    using unat_sub_of_nat [of "0x1000" "a - 0x1000"] that by (simp add: algebra_simps)
  then show ?thesis by (simp add: apart_def)
qed

definition run_16 :: "unit dma" where
  "run_16 = upd_ch ARM7 0 (\<lambda>c. c\<lparr> iter_count := 20, rem_count := 20 \<rparr>) zero_dma"

theorem dma_bulk_is_unit_by_unit_witness:
  "\<exists>m. 2 \<le> m \<and> m \<le> 16 \<and>
    unit_loop m (Constant 2) ARM7 0 4 0 100 (of_nat m) 0 0x2000 0x1000 run_16
      = Some (30, copy_step ARM7 0 4 16 0x2000 0x1000 (upd_ch ARM7 0 (\<lambda>c. c\<lparr> burst_pos := 0 \<rparr>) run_16)) \<and> 30 < (100::nat) \<and>
    (m = 16 \<or> 100 \<le> 0 + fst (walk (Constant 2) (burst_table (ch ARM7 0 run_16)) (burst_pos (ch ARM7 0 run_16)) m) * 2 ^ 0)"
proof (rule dma_bulk_is_unit_by_unit)
  show "bulk_run (Constant 2) ARM7 0 4 0 100 16 0 0x2000 0x1000 run_16
    = Some (30, copy_step ARM7 0 4 16 0x2000 0x1000 (upd_ch ARM7 0 (\<lambda>c. c\<lparr> burst_pos := 0 \<rparr>) run_16))"
    by (simp add: bulk_run_def bulk_cut_def bulk_def closed_form_def kBulkMin_def run_16_def zero_dma_def
      new_channel_def ch_def upd_ch_def)
  show "apart (4 * 16) 0x2000 0x1000" using far_apart by simp
  show "16 \<le> unat (iter_count (ch ARM7 0 run_16))" by (simp add: run_16_def ch_def upd_ch_def)
qed simp_all

end
