(* ===== verification/DmaRun.thy ===== *)
theory DmaRun imports DmaSpec begin

text \<open>
  What holds of the DMA controllers however they are driven.  Devices reach them only through
  their operations (\<open>dma_act\<close>), some devices only by triggering channels (\<open>dma_trigger\<close>); a
  property kept by the elementary steps is kept by every operation, by every device call and
  by every turn.  The locales \<open>dma_kept\<close> and \<open>dma_kept_run\<close> carry that argument once; they
  are interpreted on the running masks, on the caches of armed modes, and on the count of a
  channel that is running.
\<close>

section \<open>What devices do to the controllers\<close>

text \<open>The registers and channels of the two controllers are the same.\<close>

definition same_dma :: "'w dma \<Rightarrow> 'w dma \<Rightarrow> bool" where
  "same_dma s t \<longleftrightarrow> d_ch t = d_ch s \<and> d_mask t = d_mask s \<and> d_cart_armed t = d_cart_armed s \<and>
     d_gx_armed t = d_gx_armed s \<and> n_ch t = n_ch s \<and> n_mask t = n_mask s"

inductive dma_trigger :: "'w dma_env \<Rightarrow> 'w dma \<Rightarrow> 'w dma \<Rightarrow> bool" for env where
  tr_same: "same_dma s t \<Longrightarrow> dma_trigger env s t"
| tr_check: "dma_trigger env s (dma_check env w m s)"
| tr_stop: "dma_trigger env s (dma_stop env w m s)"
| tr_ncheck: "dma_trigger env s (ndma_check env w m s)"
| tr_nstop: "dma_trigger env s (ndma_stop env w m s)"
| tr_trans: "dma_trigger env s t \<Longrightarrow> dma_trigger env t u \<Longrightarrow> dma_trigger env s u"

inductive dma_act :: "'w dma_env \<Rightarrow> 'w dma \<Rightarrow> 'w dma \<Rightarrow> bool" for env where
  act_trigger: "dma_trigger env s t \<Longrightarrow> dma_act env s t"
| act_src: "dma_act env s (dma_write_src w n v s)"
| act_dst: "dma_act env s (dma_write_dst w n v s)"
| act_cnt: "n < 4 \<Longrightarrow> dma_act env s (dma_write_cnt env w n v s)"
| act_ndma: "dma_act env s (ndma_write env w addr v s)"
| act_fifo: "dma_act env s (check_fifo_dma env s)"
| act_trans: "dma_act env s t \<Longrightarrow> dma_act env t u \<Longrightarrow> dma_act env s u"

text \<open>The scheduler and the interrupt controller leave the DMA alone; the cartridge and the AES
  unit trigger channels; the bus and the geometry engine may also write the registers.\<close>

definition devices_act :: "'w dma_env \<Rightarrow> bool" where
  "devices_act env \<longleftrightarrow> (\<forall>s w n k a v vs.
     same_dma s (de_preempt env w s) \<and> same_dma s (de_progress env k s) \<and> same_dma s (de_request_irq env w n s) \<and>
     dma_trigger env s (snd (de_cart_drq env s)) \<and> dma_trigger env s (de_aes_check env s) \<and>
     dma_act env s (snd (de_read env w v k s)) \<and> dma_act env s (de_write env w v k a s) \<and>
     dma_act env s (de_code_write env w vs k s) \<and> dma_act env s (de_gxfifo_write env v s) \<and>
     dma_act env s (de_vram_trap env v s) \<and> dma_act env s (snd (de_ndma_read7 env v s)) \<and>
     dma_act env s (de_ndma_write7 env v s)) \<and>
   (\<forall>s ws. dma_act env s (de_gxfifo_burst env ws s))"

section \<open>Elementary steps\<close>

lemma same_dma_refl [simp]: "same_dma s s"
  by (simp add: same_dma_def)

text \<open>Enable bits may only go.\<close>

definition fewer :: "'w dma \<Rightarrow> 'w dma \<Rightarrow> bool" where
  "fewer s t \<longleftrightarrow> (\<forall>w n. nc_cnt (nch w n t) = nc_cnt (nch w n s) \<or> \<not> tst (nc_cnt (nch w n t)) 0x80000000)"

text \<open>The laws of a property of the controllers that every operation but a turn keeps.  The
  property is one that is only claimed when the devices keep to their part.\<close>

locale dma_kept =
  fixes env :: "'w dma_env" and inv :: "'w dma \<Rightarrow> bool"
  assumes same: "same_dma s t \<Longrightarrow> inv s \<Longrightarrow> inv t"
    and start: "inv s \<Longrightarrow> n < 4 \<Longrightarrow> running (ch w n s) = 0 \<Longrightarrow> inv (set_running w n 2 (upd_ch w n (started w n) s))"
    and nstart: "inv s \<Longrightarrow> n < 4 \<Longrightarrow> nrunning (nch w n s) = 0 \<Longrightarrow> inv (set_nrunning w n 2 (upd_nch w n nstarted s))"
    and stop: "inv s \<Longrightarrow> inv (dma_stop env w m s)"
    and nstop: "inv s \<Longrightarrow> inv (ndma_stop env w m s)"
    and src: "inv s \<Longrightarrow> inv (dma_write_src w n v s)"
    and dst: "inv s \<Longrightarrow> inv (dma_write_dst w n v s)"
    and cnt: "inv s \<Longrightarrow> n < 4 \<Longrightarrow> inv (update_cart_armed env (upd_ch w n (\<lambda>c. c\<lparr> dc_cnt := v \<rparr>) s))"
    and enable: "inv s \<Longrightarrow> n < 4 \<Longrightarrow>
      inv (update_cart_armed env (upd_ch w n (enabled w v) (upd_ch w n (\<lambda>c. c\<lparr> dc_cnt := v \<rparr>) s)))"
    and nreg: "inv s \<Longrightarrow> (\<And>c. nrunning (f c) = nrunning c \<and> nstart_mode (f c) = nstart_mode c \<and> nc_cnt (f c) = nc_cnt c) \<Longrightarrow>
      inv (upd_nch w n f s)"
    and ncnt: "inv s \<Longrightarrow> tst (nc_cnt (nch w n s)) 0x80000000 \<or> \<not> tst v 0x80000000 \<Longrightarrow>
      inv (upd_nch w n (\<lambda>c. c\<lparr> nc_cnt := v \<rparr>) s)"
    and nenable: "inv s \<Longrightarrow>
      inv (update_cart_armed env (upd_nch w n (nenabled w v) (upd_nch w n (\<lambda>c. c\<lparr> nc_cnt := v \<rparr>) s)))"
    and unless: "\<not> devices_act env \<Longrightarrow> inv s"
begin

lemma preempt: "inv s \<Longrightarrow> inv (preempt_unless_dma env w s)"
  using unless same [of s "de_preempt env w s"]
  by (cases "devices_act env") (simp_all add: preempt_unless_dma_def devices_act_def)

lemma kept_start: "inv s \<Longrightarrow> n < 4 \<Longrightarrow> inv (dma_start env w n s)"
  by (simp add: dma_start_def preempt start)

lemma kept_nstart: "inv s \<Longrightarrow> n < 4 \<Longrightarrow> inv (ndma_start env w n s)"
  by (simp add: ndma_start_def preempt nstart)

lemma kept_fold:
  assumes "\<And>n s. n \<in> set ns \<Longrightarrow> inv s \<Longrightarrow> inv (f n s)"
  shows "inv s \<Longrightarrow> inv (fold f ns s)"
  using assms by (induction ns arbitrary: s) simp_all

lemma chan_less: "n \<in> set chans \<Longrightarrow> n < 4"
  by (auto simp: chans_def)

lemma kept_ncheck: "inv s \<Longrightarrow> inv (ndma_check env w m s)"
  unfolding ndma_check_def by (rule kept_fold) (auto intro: kept_nstart dest: chan_less)

lemma kept_check: "inv s \<Longrightarrow> inv (dma_check env w m s)"
proof -
  assume "inv s"
  then have "inv (fold (\<lambda>n s. if start_mode (ch w n s) = m \<and> tst (dc_cnt (ch w n s)) 0x80000000
      then dma_start env w n s else s) chans s)"
    by (rule kept_fold [rotated]) (auto intro: kept_start dest: chan_less)
  then show ?thesis by (simp add: dma_check_def Let_def kept_ncheck)
qed

lemma kept_trigger: "dma_trigger env s t \<Longrightarrow> inv s \<Longrightarrow> inv t"
  by (induction rule: dma_trigger.induct) (auto intro: same stop nstop kept_check kept_ncheck)

lemma kept_fifo: "inv s \<Longrightarrow> inv (check_fifo_dma env s)"
  by (simp add: check_fifo_dma_def kept_check)

lemma kept_drq: "inv s \<Longrightarrow> (\<And>s. inv s \<Longrightarrow> inv (f s)) \<Longrightarrow> inv (start_if_drq env f s)"
  using unless kept_trigger [of s "snd (de_cart_drq env s)"]
  by (cases "devices_act env") (simp_all add: start_if_drq_def split_beta Let_def devices_act_def)

lemma kept_write_cnt: "inv s \<Longrightarrow> n < 4 \<Longrightarrow> inv (dma_write_cnt env w n v s)"
  by (simp add: dma_write_cnt_def Let_def cnt enable kept_start kept_drq kept_fifo)

lemma kept_ndma_write_cnt: "inv s \<Longrightarrow> n < 4 \<Longrightarrow> inv (ndma_write_cnt env w n v s)"
  by (simp add: ndma_write_cnt_def Let_def ncnt nenable kept_nstart kept_drq kept_fifo)

lemma ndma_index: "r < (0x74::u32) \<Longrightarrow> unat ((r - 4) div 0x1C) < 4" if "\<not> r < 4"
proof -
  assume "r < 0x74"
  then have "unat r - 4 < 112" "unat (r - 4) = unat r - 4"
    using that by (simp_all add: word_less_nat_alt unat_sub word_le_nat_alt)
  then show ?thesis by (simp add: unat_div_distrib)
qed

lemma kept_ndma_write: "inv s \<Longrightarrow> inv (ndma_write env w addr v s)"
proof -
  assume i: "inv s"
  have g: "inv (s\<lparr> n_gcr := x \<rparr>)" for x using i by (rule same [rotated]) (simp add: same_dma_def)
  show ?thesis
    unfolding ndma_write_def Let_def
    using ndma_index [of "addr AND 0xFF"] i g by (auto intro: nreg kept_ndma_write_cnt simp: not_le)
qed

lemma kept_act: "dma_act env s t \<Longrightarrow> inv s \<Longrightarrow> inv t"
  by (induction rule: dma_act.induct)
    (auto intro: kept_trigger src dst kept_write_cnt kept_ndma_write kept_fifo)

lemma kept_devices:
  assumes "inv s"
  shows "inv (de_progress env k s)" "inv (de_request_irq env w n s)" "inv (de_aes_check env s)"
    "inv (snd (de_read env w v k s))" "inv (de_write env w v k a s)" "inv (de_code_write env w p k s)"
    "inv (de_gxfifo_write env v s)" "inv (de_gxfifo_burst env ws s)" "inv (de_vram_trap env v s)"
    "inv (snd (de_ndma_read7 env v s))" "inv (de_ndma_write7 env v s)"
proof -
  have d: "inv t" if "devices_act env \<Longrightarrow> dma_act env s t" for t
    using kept_act [OF that assms] unless by blast
  have sm: "same_dma s t \<Longrightarrow> dma_act env s t" for t by (intro act_trigger tr_same)
  show "inv (de_progress env k s)" "inv (de_request_irq env w n s)" "inv (de_aes_check env s)"
    "inv (snd (de_read env w v k s))" "inv (de_write env w v k a s)" "inv (de_code_write env w p k s)"
    "inv (de_gxfifo_write env v s)" "inv (de_gxfifo_burst env ws s)" "inv (de_vram_trap env v s)"
    "inv (snd (de_ndma_read7 env v s))" "inv (de_ndma_write7 env v s)"
    by (rule d; simp add: devices_act_def sm act_trigger)+
qed

lemma kept_host: "inv s \<Longrightarrow> inv (s\<lparr> d_host := h \<rparr>)"
  by (rule same [of s]) (simp add: same_dma_def)

lemma kept_read: "inv s \<Longrightarrow> inv (snd (dmac_read env w u addr s))"
  by (simp add: dmac_read_def dma_load_def Let_def split_beta kept_devices split: option.split)

lemma kept_write: "inv s \<Longrightarrow> inv (dmac_write env w u addr v s)"
  by (simp add: dmac_write_def dma_store_def Let_def kept_devices kept_host split: option.split)

lemma kept_target: "inv s \<Longrightarrow> inv (snd (run_target env w n s))"
  by (simp add: run_target_def Let_def kept_devices)

end

section \<open>A turn\<close>

text \<open>Running state, start mode and control register of a channel are the same.\<close>

definition agree :: "channel \<Rightarrow> channel \<Rightarrow> bool" where
  "agree c c' \<longleftrightarrow> running c' = running c \<and> start_mode c' = start_mode c \<and> dc_cnt c' = dc_cnt c"

lemma agree_steps [simp]:
  "agree c c" "agree c (moved u k c)" "agree c (gx_moved k c)" "agree c (stepped u c)" "agree c (c\<lparr> burst_pos := q \<rparr>)"
  by (simp_all add: agree_def moved_def gx_moved_def stepped_def)

lemma agree_price: "agree c (snd (price b word (refill w word s c)))"
proof -
  have "agree c (refill w word s c)" by (simp add: refill_def Let_def agree_def split_beta)
  moreover have "agree c' (snd (price b word c'))" for c'
    by (simp add: price_def burst_next_def Let_def agree_def)
  ultimately show ?thesis by (simp add: agree_def)
qed

lemma cnt_off_tst [simp]: "\<not> tst (cnt_off v) 0x80000000"
  by (simp add: cnt_off_def tst_def and.assoc)

locale dma_kept_run = dma_kept +
  assumes chan: "inv s \<Longrightarrow> agree (ch w n s) (f (ch w n s)) \<Longrightarrow> inv (upd_ch w n f s)"
    and run: "inv s \<Longrightarrow> n < 4 \<Longrightarrow> inv (set_running w n v s)"
    and nrun: "inv s \<Longrightarrow> n < 4 \<Longrightarrow> inv (set_nrunning w n v s)"
    and arm: "inv s \<Longrightarrow> inv (update_cart_armed env s)"
begin

lemma kept_cycles: "inv s \<Longrightarrow> inv (snd (unit_cycles w n b word s))"
  unfolding unit_cycles_def split_beta Let_def snd_conv by (rule chan) (auto intro: agree_price)

lemma kept_cost: "inv s \<Longrightarrow> inv (snd (run_cost w n word s))"
  by (simp add: run_cost_def Let_def split_beta kept_cycles)

lemma kept_copy: "inv s \<Longrightarrow> inv (copy_step w n u k pd ps s)"
  unfolding copy_step_def by (rule chan) (simp_all add: kept_host)

lemma kept_unit_loop:
  "inv s \<Longrightarrow> unit_loop fuel rc w n u sh limit room used pd ps s = Some (k, t) \<Longrightarrow> inv t"
proof (induction fuel arbitrary: room used pd ps s)
  case (Suc fuel)
  note c = kept_copy [OF Suc.prems(1), of w n u 1 pd ps]
  have "inv (upd_ch w n (\<lambda>c. c\<lparr> burst_pos := q \<rparr>) (copy_step w n u 1 pd ps s))" for q
    by (rule chan [OF c]) simp
  then show ?case using Suc.prems(2) c by (auto simp: Let_def split_beta split: if_splits dest!: Suc.IH [rotated])
qed simp

lemma kept_bulk: "inv s \<Longrightarrow> bulk_run rc w n u sh limit len used pd ps s = Some (k, t) \<Longrightarrow> inv t"
  by (auto simp: bulk_run_def Let_def split_beta intro!: kept_copy chan split: if_splits)

lemma kept_pages: "inv s \<Longrightarrow> run_pages w n u limit used pd ps s = Some (k, t) \<Longrightarrow> inv t"
proof -
  assume i: "inv s" and r: "run_pages w n u limit used pd ps s = Some (k, t)"
  define y where "y = run_cost w n (u = 4) s"
  have y: "inv (snd y)" using kept_cost [OF i] by (simp add: y_def)
  from r show ?thesis
    unfolding run_pages_def Let_def split_beta y_def [symmetric]
    by (auto split: option.splits dest: kept_bulk [OF y] kept_unit_loop [OF y])
qed

lemma kept_direct:
  assumes "inv s" "direct_run env w n u limit used below s = Some (b, k, lim, t)"
  shows "inv t"
proof -
  define x where "x = run_target env w n s"
  have x: "inv (snd x)" using kept_target [OF assms(1)] by (simp add: x_def)
  have "t = s \<or> t = snd x \<or> (\<exists>ps pd. run_pages w n u limit used pd ps (snd x) = Some (k, t))"
    using assms(2) unfolding direct_run_def Let_def split_beta x_def [symmetric]
    by (auto split: if_splits option.splits bool.splits prod.splits)
  then show ?thesis using assms(1) x kept_pages [OF x] by blast
qed

lemma kept_gx_loop: "inv s \<Longrightarrow> gx_loop env fuel rc n limit room used p s = Some (k, t) \<Longrightarrow> inv t"
proof (induction fuel arbitrary: room used p s)
  case (Suc fuel)
  let ?s = "upd_ch ARM9 n (gx_moved 1) (de_gxfifo_write env (ld32 (d_host s) p) s)"
  have c: "inv ?s" using kept_devices(7) [OF Suc.prems(1)] by (rule chan) simp
  have "inv (upd_ch ARM9 n (\<lambda>c. c\<lparr> burst_pos := q \<rparr>) ?s)" for q by (rule chan [OF c]) simp
  then show ?case using Suc.prems(2) c by (auto simp: Let_def split_beta split: if_splits dest!: Suc.IH [rotated])
qed simp

lemma kept_gx: "inv s \<Longrightarrow> gx_run env fuel n limit used p s = Some (k, t) \<Longrightarrow> inv t"
proof -
  assume i: "inv s" and r: "gx_run env fuel n limit used p s = Some (k, t)"
  define y where "y = run_cost ARM9 n True s"
  have y: "inv (snd y)" using kept_cost [OF i] by (simp add: y_def)
  have b: "inv t" if "gx_bulk env rc n limit len used p (snd y) = Some (k, t)" for rc len
    using that y by (auto simp: gx_bulk_def Let_def split_beta intro!: chan kept_devices split: if_splits)
  from r show ?thesis
    unfolding gx_run_def Let_def split_beta y_def [symmetric]
    by (auto split: option.splits dest: b kept_gx_loop [OF y])
qed

lemma kept_move:
  assumes "inv s" "move_unit env fuel w n word limit used below s = Some (k, lim, t)"
  shows "inv t"
proof -
  have slow: "inv (upd_ch w n (stepped u) (de_gxfifo_write env v (snd (dmac_read env w 4 a s))))" for u v a
    by (intro chan kept_devices kept_read assms(1)) simp
  have bus: "inv (upd_ch w n (stepped u) (dmac_write env w u d v (snd (dmac_read env w u a s'))))"
    if "inv s'" for u d v a s'
    by (intro chan kept_write kept_read that) simp
  let ?u = "if word then 4 else 2 :: nat"
  let ?p = "if src_inc (ch w n s) = 1 \<and> \<not> dma_tcm (cur_src (ch w n s)) s
    then read_ptr (d_cpu s ARM9) (cur_src (ch w n s)) else None"
  show ?thesis
  proof (cases "is_gx_feed w word (ch w n s)")
    case True
    show ?thesis
    proof (cases ?p)
      case None
      then have "t = upd_ch w n (stepped ?u) (de_gxfifo_write env (fst (dmac_read env w 4 (cur_src (ch w n s)) s))
          (snd (dmac_read env w 4 (cur_src (ch w n s)) s)))"
        using assms(2) True unfolding move_unit_def Let_def split_beta by simp
      then show ?thesis by (simp only: slow)
    next
      case (Some p)
      then show ?thesis
        using assms True unfolding move_unit_def Let_def split_beta by (auto dest: kept_gx)
    qed
  next
    case False
    obtain b k' l s1 where d: "direct_run env w n ?u limit used below s = Some (b, k', l, s1)"
      using assms(2) False unfolding move_unit_def Let_def by (auto split: option.splits)
    note s1 = kept_direct [OF assms(1) d]
    show ?thesis
    proof (cases b)
      case True
      then show ?thesis using assms(2) False s1 d by (simp add: move_unit_def Let_def split: if_splits)
    next
      case b: False
      define r where "r = dmac_read env w ?u (cur_src (ch w n s1)) s1"
      have "t = upd_ch w n (stepped ?u) (dmac_write env w ?u (cur_dst (ch w n (snd r))) (fst r) (snd r))"
        using assms(2) False b d unfolding move_unit_def Let_def split_beta r_def by simp
      then show ?thesis unfolding r_def by (simp only: bus [OF s1])
    qed
  qed
qed

lemma kept_loop: "inv s \<Longrightarrow> run_loop env fuel w n word limit b used below s = Some (k, t) \<Longrightarrow> inv t"
proof (induction fuel arbitrary: b used below s)
  case 0
  then show ?case by (auto simp: run_loop.simps [of env 0] split: if_splits)
next
  case (Suc fuel)
  define y where "y = unit_cycles w n b word s"
  have y: "inv (snd y)" using kept_cycles [OF Suc.prems(1)] by (simp add: y_def)
  then have p: "inv (if d_track (snd y) then de_progress env q (snd y) else snd y)" for q by (simp add: kept_devices)
  show ?case
  proof (cases "iter_count (ch w n s) \<noteq> 0 \<and> used < limit")
    case True
    then obtain k' lim s1 where
      "move_unit env fuel w n word limit (used + fst y * 2 ^ dma_sh w (snd y)) below
         (if d_track (snd y) then de_progress env (d_run_base (snd y) + (used + fst y * 2 ^ dma_sh w (snd y))) (snd y) else snd y)
         = Some (k', lim, s1)" and r: "run_loop env fuel w n word limit False k' lim s1 = Some (k, t)"
      using Suc.prems(2) unfolding run_loop.simps [of env "Suc fuel"] Let_def split_beta y_def [symmetric]
      by (auto split: option.splits)
    then have "inv s1" using kept_move [OF p] by blast
    then show ?thesis using Suc.IH r by blast
  next
    case False
    then show ?thesis using Suc.prems by (auto simp: run_loop.simps [of env "Suc fuel"])
  qed
qed

lemma kept_clear: "inv s \<Longrightarrow> n < 4 \<Longrightarrow>
  inv (update_cart_armed env (upd_ch w n (\<lambda>c. c\<lparr> dc_cnt := cnt_off (dc_cnt c) \<rparr>) s))"
proof -
  have "upd_ch w n (\<lambda>c. c\<lparr> dc_cnt := cnt_off (dc_cnt c) \<rparr>) s = upd_ch w n (\<lambda>c. c\<lparr> dc_cnt := cnt_off (dc_cnt (ch w n s)) \<rparr>) s"
    by (simp add: upd_ch_def ch_def)
  then show "inv s \<Longrightarrow> n < 4 \<Longrightarrow> ?thesis" by (simp only: cnt)
qed

lemma kept_nclear: "inv s \<Longrightarrow> inv (upd_nch w n (\<lambda>c. c\<lparr> nc_cnt := cnt_off (nc_cnt c) \<rparr>) s)"
proof -
  have "upd_nch w n (\<lambda>c. c\<lparr> nc_cnt := cnt_off (nc_cnt c) \<rparr>) s = upd_nch w n (\<lambda>c. c\<lparr> nc_cnt := cnt_off (nc_cnt (nch w n s)) \<rparr>) s"
    by (simp add: upd_nch_def nch_def)
  then show "inv s \<Longrightarrow> ?thesis" by (simp only: ncnt cnt_off_tst simp_thms)
qed

lemma kept_finish: "inv s \<Longrightarrow> n < 4 \<Longrightarrow> inv (dma_finish env w n s)"
  unfolding dma_finish_def Let_def
  by (auto intro!: run kept_fifo kept_drq kept_start chan kept_clear kept_devices simp: agree_def)

lemma kept_run_channel:
  assumes "inv s" "n < 4" "run_channel env fuel w n limit s = Some (k, t)"
  shows "inv t"
proof -
  obtain word b s1 where s1: "run_loop env fuel w n word limit b 0 0 (set_running w n 1 s) = Some (k, s1)"
    "t = dma_finish env w n s1"
    using assms(3) by (auto simp: run_channel_def Let_def)
  from kept_finish [OF kept_loop [OF run [OF assms(1,2)] s1(1)] assms(2)] show ?thesis by (simp only: s1(2))
qed

lemma kept_ndma_loop: "inv s \<Longrightarrow> ndma_loop env fuel ports w n unit limit used s = Some (k, t) \<Longrightarrow> inv t"
proof (induction fuel arbitrary: used s)
  case 0
  then show ?case by (auto simp: ndma_loop.simps [of env 0] split: if_splits)
next
  case (Suc fuel)
  obtain fill src_fifo dst_aes where ports: "ports = (fill, src_fifo, dst_aes)" by (cases ports)
  define s1 where "s1 = de_progress env (n_run_base s + (used + unit)) s"
  define r where "r = (if fill then (nc_fill (nch w n s1), s1)
    else if src_fifo then de_ndma_read7 env (ncur_src (nch w n s1)) s1 else dmac_read env w 4 (ncur_src (nch w n s1)) s1)"
  define s3 where "s3 = (if dst_aes then de_ndma_write7 env (fst r) (snd r)
    else dmac_write env w 4 (ncur_dst (nch w n (snd r))) (fst r) (snd r))"
  have "inv s1" using Suc.prems(1) by (simp add: s1_def kept_devices)
  then have "inv (snd r)" by (simp add: r_def kept_devices kept_read)
  then have "inv s3" by (simp add: s3_def kept_devices kept_write)
  then have s4: "inv (upd_nch w n nstepped s3)" by (rule nreg) (simp add: nstepped_def)
  have "t = s \<or> t = upd_nch w n nstepped s3 \<or>
      ndma_loop env fuel ports w n unit limit (used + unit) (upd_nch w n nstepped s3) = Some (k, t)"
    using Suc.prems(2) unfolding ndma_loop.simps [of env "Suc fuel"] ports
    by (auto simp: Let_def split_beta s1_def r_def s3_def split: if_splits)
  then show ?case using Suc.prems(1) s4 Suc.IH by blast
qed

lemma kept_irq_if: "inv s \<Longrightarrow> inv (if p then de_request_irq env w n s else s)"
  by (simp add: kept_devices)

lemma kept_aes_if: "inv s \<Longrightarrow> inv (if p then de_aes_check env s else s)"
  by (simp add: kept_devices)

lemma kept_ndma_finished: "inv s \<Longrightarrow> n < 4 \<Longrightarrow> inv (ndma_finished env w n s)"
proof -
  assume i: "inv s" and n: "n < 4"
  let ?irq = "\<lambda>x. if tst (nc_cnt (nch w n s)) 0x40000000 then de_request_irq env w (28 + n) x else x"
  let ?off = "upd_nch w n (\<lambda>c. c\<lparr> nc_cnt := cnt_off (nc_cnt c) \<rparr>)"
  define s1 where "s1 = (if nstart_mode (nch w n s) AND 0x1F = 0x10 then ?irq (?off s)
    else if tst (nc_cnt (nch w n s)) 0x20000000 then ?irq s
    else if ntotal_rem (nch w n s) = 0 then ?irq (?off s) else s)"
  define s2 where "s2 = upd_nch w n (\<lambda>c. c\<lparr> nin_progress := False \<rparr>) (set_nrunning w n 0 s1)"
  have "inv s1" unfolding s1_def using i by (simp add: kept_irq_if kept_nclear)
  then have "inv s2" unfolding s2_def by (intro nreg nrun n) simp_all
  then have "inv (if w = ARM7 then de_aes_check env (update_cart_armed env s2) else update_cart_armed env s2)"
    by (intro kept_aes_if arm)
  then show ?thesis
    unfolding ndma_finished_def Let_def s1_def [symmetric] s2_def [symmetric]
    by (simp add: kept_drq kept_nstart n)
qed

lemma kept_ndma_run_channel:
  assumes "inv s" "n < 4" "ndma_run_channel env fuel w n limit s = Some (k, t)"
  shows "inv t"
proof -
  obtain ports unit s1 where s1: "ndma_loop env fuel ports w n unit limit 0 (set_nrunning w n 1 s) = Some (k, s1)"
    "t = (if nrem_count (nch w n s1) \<noteq> 0
          then (if niter_count (nch w n s1) = 0
                then (let s2 = set_nrunning w n 0 s1;
                          s3 = (if nstart_mode (nch w n s2) = 0x0A then check_fifo_dma env s2 else s2)
                      in if w = ARM7 then de_aes_check env s3 else s3)
                else s1)
          else ndma_finished env w n s1)"
    using assms(3) by (auto simp: ndma_run_channel_def Let_def)
  have i1: "inv s1" by (rule kept_ndma_loop [OF nrun [OF assms(1,2)] s1(1)])
  have "inv (set_nrunning w n 0 s1)" by (rule nrun [OF i1 assms(2)])
  then have "inv (if nstart_mode (nch w n (set_nrunning w n 0 s1)) = 0x0A
      then check_fifo_dma env (set_nrunning w n 0 s1) else set_nrunning w n 0 s1)"
    by (simp add: kept_fifo)
  then show ?thesis using i1 assms(2) unfolding s1(2) Let_def by (simp add: kept_aes_if kept_ndma_finished)
qed

lemma kept_bases: "inv s \<Longrightarrow> inv (s\<lparr> d_run_base := k \<rparr>)" "inv s \<Longrightarrow> inv (s\<lparr> n_run_base := k \<rparr>)"
  by (rule same [of s]; simp add: same_dma_def)+

lemma kept_ndma_turns:
  "inv s \<Longrightarrow> \<forall>n\<in>set ns. n < 4 \<Longrightarrow> ndma_turns env fuel w limit base ns used s = Some (k, t) \<Longrightarrow> inv t"
proof (induction ns arbitrary: used s)
  case (Cons n ns)
  show ?case
  proof (cases "limit \<le> used \<or> nrunning (nch w n s) = 0")
    case True
    then show ?thesis using Cons.prems Cons.IH by (auto split: if_splits)
  next
    case False
    then obtain k' s1 where c: "ndma_run_channel env fuel w n (limit - used) (s\<lparr> n_run_base := base + used \<rparr>) = Some (k', s1)"
      and r: "ndma_turns env fuel w limit base ns (used + k') s1 = Some (k, t)"
      using Cons.prems(3) by (auto split: option.splits)
    have "inv s1" by (rule kept_ndma_run_channel [OF kept_bases(2) [OF Cons.prems(1)] _ c]) (use Cons.prems(2) in simp)
    then show ?thesis using Cons.IH Cons.prems(2) r by simp
  qed
qed simp

lemma kept_ndma_run:
  assumes "inv s" "ndma_run env fuel w limit s = Some (k, t)"
  shows "inv t"
proof -
  obtain s1 where "ndma_turns env fuel w limit (n_run_base s) chans 0 s = Some (k, s1)"
    "t = s1\<lparr> n_run_base := n_run_base s \<rparr>"
    using assms(2) by (auto simp: ndma_run_def)
  moreover have "\<forall>n\<in>set chans. n < 4" by (simp add: chans_def)
  ultimately show ?thesis using kept_ndma_turns [OF assms(1)] kept_bases(2) by metis
qed

lemma kept_turns:
  "inv s \<Longrightarrow> \<forall>n\<in>set ns. n < 4 \<Longrightarrow> dma_turns env fuel w limit ns used s = Some (k, t) \<Longrightarrow> inv t"
proof (induction ns arbitrary: used s)
  case (Cons n ns)
  show ?case
  proof (cases "limit \<le> used \<or> running (ch w n s) = 0")
    case True
    then show ?thesis using Cons.prems Cons.IH by (auto split: if_splits)
  next
    case False
    then obtain k' s1 where c: "run_channel env fuel w n (limit - used) (s\<lparr> d_run_base := used \<rparr>) = Some (k', s1)"
      and r: "dma_turns env fuel w limit ns (used + k') s1 = Some (k, t)"
      using Cons.prems(3) by (auto split: option.splits)
    have "inv s1" by (rule kept_run_channel [OF kept_bases(1) [OF Cons.prems(1)] _ c]) (use Cons.prems(2) in simp)
    then show ?thesis using Cons.IH Cons.prems(2) r by simp
  qed
qed simp

lemma kept_run_from: "inv s \<Longrightarrow> dma_run_from env fuel w limit used s = Some (k, t) \<Longrightarrow> inv t"
proof (induction fuel arbitrary: used s)
  case (Suc fuel)
  obtain u1 s1 where s1: "dma_turns env fuel w limit chans used s = Some (u1, s1)"
    using Suc.prems(2) by (auto split: option.splits)
  have i1: "inv s1" by (rule kept_turns [OF Suc.prems(1) _ s1]) (auto dest: chan_less)
  obtain u2 s2 where s2: "(if de_dsi env \<and> u1 < limit \<and> tst (d_mask s1 w) 0x10
      then map_option (\<lambda>(k, s2). (u1 + k, s2)) (ndma_run env fuel w (limit - u1) (s1\<lparr> n_run_base := u1 \<rparr>))
      else Some (u1, s1)) = Some (u2, s2)"
    using Suc.prems(2) s1 by (auto split: option.splits)
  then have i2: "inv s2" using i1 by (auto split: if_splits dest: kept_ndma_run [OF kept_bases(2) [OF i1]])
  have "t = s2 \<or> dma_run_from env fuel w limit u2 s2 = Some (k, t)"
    using Suc.prems(2) s1 s2 by (auto split: if_splits)
  then show ?case using i2 Suc.IH by blast
qed simp

lemma kept_dma_run: "inv s \<Longrightarrow> dma_run env fuel w limit s = Some (k, t) \<Longrightarrow> inv t"
  by (simp add: dma_run_def kept_run_from)

end

end
