(* ===== verification/DmaInv.thy ===== *)
theory DmaInv imports DmaRun begin

text \<open>
  The two caches the rest of the machine trusts: the running mask the scheduler tests before
  every slice, and the flags that tell the cartridge and the geometry engine whether any
  channel waits for them.  Both are shown right for every way of driving the controllers, by
  interpreting the locales of \<open>DmaRun\<close>.
\<close>

section \<open>Frames\<close>

lemma ch_upd [simp]:
  "ch v k (upd_ch w n f s) = (if v = w \<and> k = n then f (ch w n s) else ch v k s)"
  "nch v k (upd_ch w n f s) = nch v k s" "ch v k (upd_nch w n g s) = ch v k s"
  "nch v k (upd_nch w n g s) = (if v = w \<and> k = n then g (nch w n s) else nch v k s)"
  "d_mask (upd_ch w n f s) = d_mask s" "n_mask (upd_ch w n f s) = n_mask s"
  "d_mask (upd_nch w n g s) = d_mask s" "n_mask (upd_nch w n g s) = n_mask s"
  "d_cart_armed (upd_ch w n f s) = d_cart_armed s" "d_gx_armed (upd_ch w n f s) = d_gx_armed s"
  "d_cart_armed (upd_nch w n g s) = d_cart_armed s" "d_gx_armed (upd_nch w n g s) = d_gx_armed s"
  by (auto simp: ch_def nch_def upd_ch_def upd_nch_def)

lemma ch_armed [simp]:
  "ch v k (update_cart_armed env s) = ch v k s" "nch v k (update_cart_armed env s) = nch v k s"
  "d_mask (update_cart_armed env s) = d_mask s" "n_mask (update_cart_armed env s) = n_mask s"
  by (simp_all add: ch_def nch_def update_cart_armed_def)

lemma ch_running [simp]:
  "ch u k (set_running w n v s) = (if u = w \<and> k = n then (ch w n s)\<lparr> running := v \<rparr> else ch u k s)"
  "nch u k (set_running w n v s) = nch u k s"
  "d_mask (set_running w n v s) = (d_mask s)(w := mask_bit n (v \<noteq> 0) (d_mask s w))"
  "n_mask (set_running w n v s) = n_mask s"
  "d_cart_armed (set_running w n v s) = d_cart_armed s" "d_gx_armed (set_running w n v s) = d_gx_armed s"
  by (simp_all add: set_running_def ch_def nch_def upd_ch_def)

lemma ch_nrunning [simp]:
  "ch u k (set_nrunning w n v s) = ch u k s"
  "nch u k (set_nrunning w n v s) = (if u = w \<and> k = n then (nch w n s)\<lparr> nrunning := v \<rparr> else nch u k s)"
  "n_mask (set_nrunning w n v s) = (n_mask s)(w := mask_bit n (v \<noteq> 0) (n_mask s w))"
  "d_mask (set_nrunning w n v s) = (d_mask s)(w := mask_bit 4 (mask_bit n (v \<noteq> 0) (n_mask s w) \<noteq> 0) (d_mask s w))"
  "d_cart_armed (set_nrunning w n v s) = d_cart_armed s" "d_gx_armed (set_nrunning w n v s) = d_gx_armed s"
  by (simp_all add: set_nrunning_def set_ndma_running_def ch_def nch_def upd_nch_def Let_def)

lemma started_fields [simp]:
  "running (started w n c) = running c" "start_mode (started w n c) = start_mode c" "dc_cnt (started w n c) = dc_cnt c"
  "nrunning (nstarted d) = nrunning d" "nstart_mode (nstarted d) = nstart_mode d" "nc_cnt (nstarted d) = nc_cnt d"
  by (simp_all add: started_def nstarted_def Let_def)

lemma enabled_running [simp]: "running (enabled w v c) = running c" "dc_cnt (enabled w v c) = dc_cnt c"
  "nrunning (nenabled w v d) = nrunning d" "nc_cnt (nenabled w v d) = nc_cnt d"
  by (simp_all add: enabled_def nenabled_def)

text \<open>A property of states kept by every step of a fold is kept by the fold.\<close>

lemma fold_keeps: "(\<And>n s. P s \<Longrightarrow> P (f n s)) \<Longrightarrow> P s \<Longrightarrow> P (fold f ns s)"
  by (induction ns arbitrary: s) simp_all

section \<open>The running masks\<close>

definition mask_ok :: "'w dma \<Rightarrow> bool" where
  "mask_ok s \<longleftrightarrow> (\<forall>w.
     (\<forall>n<4. bit (d_mask s w) n = (running (ch w n s) \<noteq> 0)) \<and> bit (d_mask s w) 4 = (n_mask s w \<noteq> 0) \<and>
     (\<forall>n<4. bit (n_mask s w) n = (nrunning (nch w n s) \<noteq> 0)) \<and>
     (\<forall>n\<ge>5. \<not> bit (d_mask s w) n) \<and> (\<forall>n\<ge>4. \<not> bit (n_mask s w) n))"

lemma mask_ok_cong:
  assumes "mask_ok s" "\<And>w n. running (ch w n t) = running (ch w n s)" "\<And>w n. nrunning (nch w n t) = nrunning (nch w n s)"
    "d_mask t = d_mask s" "n_mask t = n_mask s"
  shows "mask_ok t"
  using assms by (simp add: mask_ok_def)

lemma bit_mask_bit: "n < 8 \<Longrightarrow> bit (mask_bit n on m) k = (if k = n then on else bit m k)"
  by (auto simp: mask_bit_def bit_simps dest: bit_imp_le_length)

lemma mask_ok_run:
  assumes "mask_ok s" "n < 4"
  shows "mask_ok (set_running w n v s)" "mask_ok (set_nrunning w n v s)"
  using assms by (auto simp: mask_ok_def bit_mask_bit)

lemma mask_ok_stop:
  "mask_ok s \<Longrightarrow> mask_ok (ndma_stop env w m s)"
  "mask_ok s \<Longrightarrow> mask_ok (dma_stop env w m s)"
proof -
  have a: "mask_ok s \<Longrightarrow> mask_ok (update_cart_armed env s)" for s :: "'a dma"
    by (rule mask_ok_cong [of s]) simp_all
  have n: "mask_ok s \<Longrightarrow> mask_ok (ndma_stop env w m s)" for m and s :: "'a dma"
    unfolding ndma_stop_def Let_def
    by (auto intro!: a fold_keeps [where P = mask_ok] elim: mask_ok_cong)
  show "mask_ok s \<Longrightarrow> mask_ok (ndma_stop env w m s)" by (rule n)
  have "mask_ok s \<Longrightarrow> mask_ok (fold (\<lambda>n s. if start_mode (ch w n s) = m
      then upd_ch w n (\<lambda>c. c\<lparr> dc_cnt := cnt_off (dc_cnt c) \<rparr>) s else s) chans s)" for s :: "'a dma"
    by (rule fold_keeps [where P = mask_ok]) (auto elim: mask_ok_cong)
  then show "mask_ok s \<Longrightarrow> mask_ok (dma_stop env w m s)"
    unfolding dma_stop_def Let_def by (auto intro!: a n)
qed

text \<open>The claim, for devices that keep to their part.\<close>

definition masks_hold :: "'w dma_env \<Rightarrow> 'w dma \<Rightarrow> bool" where
  "masks_hold env s \<longleftrightarrow> (devices_act env \<longrightarrow> mask_ok s)"

interpretation masks: dma_kept_run env "masks_hold env" for env :: "'a dma_env"
proof
  fix s t :: "'a dma" and w n v m and f :: "nchannel \<Rightarrow> nchannel" and g :: "channel \<Rightarrow> channel"
  show "masks_hold env s" if "\<not> devices_act env" using that by (simp add: masks_hold_def)
  assume ok: "masks_hold env s"
  have c: "masks_hold env t" if "\<And>w n. running (ch w n t) = running (ch w n s)"
    "\<And>w n. nrunning (nch w n t) = nrunning (nch w n s)" "d_mask t = d_mask s" "n_mask t = n_mask s" for t
    using ok that by (auto simp: masks_hold_def elim: mask_ok_cong)
  have r: "masks_hold env (set_running w n v t)" "masks_hold env (set_nrunning w n v t)" if "n < 4" "masks_hold env t" for v t
    using that by (simp_all add: masks_hold_def mask_ok_run)
  show "masks_hold env t" if "same_dma s t" using that by (intro c) (simp_all add: same_dma_def ch_def nch_def)
  show "masks_hold env (set_running w n 2 (upd_ch w n (started w n) s))" if "n < 4"
    by (intro r that c) simp_all
  show "masks_hold env (set_nrunning w n 2 (upd_nch w n nstarted s))" if "n < 4"
    by (intro r that c) simp_all
  show "masks_hold env (dma_stop env w m s)" "masks_hold env (ndma_stop env w m s)"
    using ok by (simp_all add: masks_hold_def mask_ok_stop)
  show "masks_hold env (dma_write_src w n v s)" "masks_hold env (dma_write_dst w n v s)"
    by (rule c; simp add: dma_write_src_def dma_write_dst_def)+
  show "masks_hold env (update_cart_armed env (upd_ch w n (\<lambda>c. c\<lparr> dc_cnt := v \<rparr>) s))" by (rule c) simp_all
  show "masks_hold env (update_cart_armed env (upd_ch w n (enabled w v) (upd_ch w n (\<lambda>c. c\<lparr> dc_cnt := v \<rparr>) s)))"
    by (rule c) simp_all
  show "masks_hold env (upd_nch w n f s)"
    if "\<And>c. nrunning (f c) = nrunning c \<and> nstart_mode (f c) = nstart_mode c \<and> nc_cnt (f c) = nc_cnt c"
    using that by (intro c) simp_all
  show "masks_hold env (upd_nch w n (\<lambda>c. c\<lparr> nc_cnt := v \<rparr>) s)" by (rule c) simp_all
  show "masks_hold env (update_cart_armed env (upd_nch w n (nenabled w v) (upd_nch w n (\<lambda>c. c\<lparr> nc_cnt := v \<rparr>) s)))"
    by (rule c) simp_all
  show "masks_hold env (upd_ch w n g s)" if "agree (ch w n s) (g (ch w n s))"
    using that by (intro c) (simp_all add: agree_def)
  show "masks_hold env (set_running w n v s)" "masks_hold env (set_nrunning w n v s)" if "n < 4"
    by (intro r that ok)+
  show "masks_hold env (update_cart_armed env s)" by (rule c) simp_all
qed

section \<open>The caches of armed modes\<close>

text \<open>On a DS the flags are exact.  On a DSi they miss no armed channel; they may outlive one,
  because a write that disables an NDMA channel does not recompute them.\<close>

definition armed_ok :: "'w dma_env \<Rightarrow> 'w dma \<Rightarrow> bool" where
  "armed_ok env s \<longleftrightarrow>
     (let cart = (in_mode env ARM9 MODE9_CART s \<or> in_mode env ARM7 MODE7_CART s); gx = in_mode env ARM9 MODE9_GXFIFO s in
      if de_dsi env then (cart \<longrightarrow> d_cart_armed s) \<and> (gx \<longrightarrow> d_gx_armed s)
      else d_cart_armed s = cart \<and> d_gx_armed s = gx)"

lemma armed_update: "armed_ok env (update_cart_armed env s)"
proof -
  have "in_mode env w m (update_cart_armed env s) = in_mode env w m s" for w m
    by (simp add: in_mode_def ndma_in_mode_def)
  then show ?thesis by (simp add: armed_ok_def Let_def) (simp add: update_cart_armed_def)
qed

lemma armed_cong:
  assumes "armed_ok env s"
    "\<And>w n. start_mode (ch w n t) = start_mode (ch w n s) \<and> dc_cnt (ch w n t) = dc_cnt (ch w n s)"
    "\<And>w n. nstart_mode (nch w n t) = nstart_mode (nch w n s) \<and>
      (tst (nc_cnt (nch w n t)) 0x80000000 \<longrightarrow> tst (nc_cnt (nch w n s)) 0x80000000)"
    "d_cart_armed t = d_cart_armed s" "d_gx_armed t = d_gx_armed s"
  shows "armed_ok env t"
proof -
  have n: "ndma_in_mode w m t \<Longrightarrow> ndma_in_mode w m s" for w m
    using assms(3) by (auto simp: ndma_in_mode_def list_ex_iff)
  have "in_mode env w m t \<Longrightarrow> in_mode env w m s" for w m
    using assms(2) n by (auto simp: in_mode_def)
  moreover have "\<not> de_dsi env \<Longrightarrow> in_mode env w m t = in_mode env w m s" for w m
    using assms(2) by (simp add: in_mode_def)
  ultimately show ?thesis using assms(1,4,5) by (auto simp: armed_ok_def Let_def)
qed

lemma fold_none: "\<forall>n\<in>set ns. \<not> P n \<Longrightarrow> fold (\<lambda>n s. if P n then f n s else s) ns s = s"
  by (induction ns arbitrary: s) simp_all

lemma armed_nstop:
  assumes "armed_ok env s"
  shows "armed_ok env (ndma_stop env w m s)"
proof (cases "list_ex (\<lambda>n. nstart_mode (nch w n s) = m \<and> tst (nc_cnt (nch w n s)) 0x80000000) chans")
  case True
  then show ?thesis by (simp add: ndma_stop_def Let_def armed_update)
next
  case False
  then have "\<forall>n\<in>set chans. \<not> (nstart_mode (nch w n s) = m \<and> tst (nc_cnt (nch w n s)) 0x80000000)"
    by (simp add: list_ex_iff)
  then have none: "fold (\<lambda>n s'. if nstart_mode (nch w n s) = m \<and> tst (nc_cnt (nch w n s)) 0x80000000
      then upd_nch w n (\<lambda>c. c\<lparr> nc_cnt := cnt_off (nc_cnt c) \<rparr>) s' else s') chans s = s"
    by (rule fold_none)
  show ?thesis using False assms unfolding ndma_stop_def Let_def none by simp
qed

definition armed_hold :: "'w dma_env \<Rightarrow> 'w dma \<Rightarrow> bool" where
  "armed_hold env s \<longleftrightarrow> (devices_act env \<longrightarrow> armed_ok env s)"

interpretation armed: dma_kept_run env "armed_hold env" for env :: "'a dma_env"
proof
  fix s t :: "'a dma" and w n v m and f :: "nchannel \<Rightarrow> nchannel" and g :: "channel \<Rightarrow> channel"
  show "armed_hold env s" if "\<not> devices_act env" using that by (simp add: armed_hold_def)
  assume ok: "armed_hold env s"
  have c: "armed_hold env t"
    if "\<And>w n. start_mode (ch w n t) = start_mode (ch w n s) \<and> dc_cnt (ch w n t) = dc_cnt (ch w n s)"
    "\<And>w n. nstart_mode (nch w n t) = nstart_mode (nch w n s) \<and>
      (tst (nc_cnt (nch w n t)) 0x80000000 \<longrightarrow> tst (nc_cnt (nch w n s)) 0x80000000)"
    "d_cart_armed t = d_cart_armed s" "d_gx_armed t = d_gx_armed s" for t
    using ok armed_cong [of env s t, OF _ that] by (simp add: armed_hold_def)
  have u: "armed_hold env (update_cart_armed env t)" for t by (simp add: armed_hold_def armed_update)
  show "armed_hold env t" if "same_dma s t" using that by (intro c) (simp_all add: same_dma_def ch_def nch_def)
  show "armed_hold env (set_running w n 2 (upd_ch w n (started w n) s))" by (rule c) simp_all
  show "armed_hold env (set_nrunning w n 2 (upd_nch w n nstarted s))" by (rule c) simp_all
  show "armed_hold env (ndma_stop env w m s)" using ok by (simp add: armed_hold_def armed_nstop)
  show "armed_hold env (dma_stop env w m s)" unfolding dma_stop_def Let_def by (rule u)
  show "armed_hold env (dma_write_src w n v s)" "armed_hold env (dma_write_dst w n v s)"
    by (rule c; simp add: dma_write_src_def dma_write_dst_def)+
  show "armed_hold env (upd_nch w n f s)"
    if "\<And>c. nrunning (f c) = nrunning c \<and> nstart_mode (f c) = nstart_mode c \<and> nc_cnt (f c) = nc_cnt c"
    using that by (intro c) simp_all
  show "armed_hold env (upd_nch w n (\<lambda>c. c\<lparr> nc_cnt := v \<rparr>) s)"
    if "tst (nc_cnt (nch w n s)) 0x80000000 \<or> \<not> tst v 0x80000000"
    using that by (intro c) auto
  show "armed_hold env (upd_ch w n g s)" if "agree (ch w n s) (g (ch w n s))"
    using that by (intro c) (simp_all add: agree_def)
  show "armed_hold env (set_running w n v s)" "armed_hold env (set_nrunning w n v s)" by (rule c; simp)+
  show "armed_hold env (update_cart_armed env (upd_ch w n (\<lambda>c. c\<lparr> dc_cnt := v \<rparr>) s))"
    "armed_hold env (update_cart_armed env (upd_ch w n (enabled w v) (upd_ch w n (\<lambda>c. c\<lparr> dc_cnt := v \<rparr>) s)))"
    "armed_hold env (update_cart_armed env (upd_nch w n (nenabled w v) (upd_nch w n (\<lambda>c. c\<lparr> nc_cnt := v \<rparr>) s)))"
    "armed_hold env (update_cart_armed env s)" by (rule u)+
qed

section \<open>Every way of driving the controllers\<close>

text \<open>The states the controllers can be in: after a reset, after anything the CPUs and the devices
  do to their registers, and after a turn of either CPU's channels.\<close>

inductive dma_reachable :: "'w dma_env \<Rightarrow> 'w dma \<Rightarrow> bool" for env where
  dr_reset: "dma_reachable env (ndma_reset (dma_reset s))"
| dr_act: "dma_reachable env s \<Longrightarrow> dma_act env s t \<Longrightarrow> dma_reachable env t"
| dr_run: "dma_reachable env s \<Longrightarrow> dma_run env fuel w limit s = Some (k, t) \<Longrightarrow> dma_reachable env t"

lemma reset_channels [simp]:
  "ch w n (ndma_reset (dma_reset s)) = new_channel" "nch w n (ndma_reset (dma_reset s)) = new_nchannel"
  "d_mask (ndma_reset (dma_reset s)) = (\<lambda>_. 0)" "n_mask (ndma_reset (dma_reset s)) = (\<lambda>_. 0)"
  "\<not> d_cart_armed (ndma_reset (dma_reset s))" "\<not> d_gx_armed (ndma_reset (dma_reset s))"
  by (simp_all add: ch_def nch_def dma_reset_def ndma_reset_def)

lemma reachable_masks:
  assumes "devices_act env" "dma_reachable env s"
  shows "mask_ok s"
proof -
  have "masks_hold env s" using assms(2)
  proof induction
    case (dr_reset s)
    then show ?case by (simp add: masks_hold_def mask_ok_def new_channel_def new_nchannel_def)
  next
    case (dr_act s t)
    then show ?case using masks.kept_act by blast
  next
    case (dr_run s fuel w limit k t)
    then show ?case using masks.kept_dma_run by blast
  qed
  then show ?thesis using assms(1) by (simp add: masks_hold_def)
qed

lemma reachable_armed:
  assumes "devices_act env" "dma_reachable env s"
  shows "armed_ok env s"
proof -
  have "armed_hold env s" using assms(2)
  proof induction
    case (dr_reset s)
    then show ?case
      by (simp add: armed_hold_def armed_ok_def in_mode_def ndma_in_mode_def list_ex_iff new_channel_def new_nchannel_def tst_def)
  next
    case (dr_act s t)
    then show ?case using armed.kept_act by blast
  next
    case (dr_run s fuel w limit k t)
    then show ?case using armed.kept_dma_run by blast
  qed
  then show ?thesis using assms(1) by (simp add: armed_hold_def)
qed

lemma mask_zero: "(m :: u8) = 0 \<longleftrightarrow> (\<forall>n. \<not> bit m n)"
  by (metis bit_0_eq bot_apply bit_eqI bot_bool_def)

lemma nothing_armed: "\<not> in_mode env w m s \<Longrightarrow> dma_check env w m s = s"
proof -
  assume no: "\<not> in_mode env w m s"
  have n: "fold (\<lambda>n s'. if nstart_mode (nch w n s') = k \<and> tst (nc_cnt (nch w n s')) 0x80000000
      then ndma_start env w n s' else s') ns s = s"
    if "\<forall>n\<in>set ns. \<not> (nstart_mode (nch w n s) = k \<and> tst (nc_cnt (nch w n s)) 0x80000000)" for ns k
    using that by (induction ns) auto
  have c: "fold (\<lambda>n s'. if start_mode (ch w n s') = m \<and> tst (dc_cnt (ch w n s')) 0x80000000
      then dma_start env w n s' else s') ns s = s"
    if "\<forall>n\<in>set ns. \<not> (start_mode (ch w n s) = m \<and> tst (dc_cnt (ch w n s)) 0x80000000)" for ns
    using that by (induction ns) auto
  from no have "de_dsi env \<Longrightarrow> ndma_check env w (ndma_mode m) s = s"
    unfolding ndma_check_def by (intro n) (auto simp: in_mode_def ndma_in_mode_def list_ex_iff)
  moreover have "fold (\<lambda>n s'. if start_mode (ch w n s') = m \<and> tst (dc_cnt (ch w n s')) 0x80000000
      then dma_start env w n s' else s') chans s = s"
    using no by (intro c) (auto simp: in_mode_def list_ex_iff)
  ultimately show "dma_check env w m s = s" by (simp add: dma_check_def Let_def)
qed

section \<open>The properties\<close>

text \<open>Devices that do nothing to the controllers, and the reset console.\<close>

definition quiet_dma_env :: "bool \<Rightarrow> unit dma_env" where
  "quiet_dma_env d = \<lparr> de_dsi = d, de_read = (\<lambda>_ _ _ s. (0, s)), de_write = (\<lambda>_ _ _ _ s. s),
     de_code_write = (\<lambda>_ _ _ s. s), de_in_dma = (\<lambda>_. False), de_preempt = (\<lambda>_ s. s), de_progress = (\<lambda>_ s. s),
     de_cart_drq = (\<lambda>s. (False, s)), de_request_irq = (\<lambda>_ _ s. s), de_gxfifo_write = (\<lambda>_ s. s),
     de_gxfifo_burst = (\<lambda>_ s. s), de_fifo_room = (\<lambda>_. 0), de_vram_trap = (\<lambda>_ s. s),
     de_trap_settled = (\<lambda>_. False), de_ndma_direct = True, de_io_access = (\<lambda>_ _. True),
     de_ndma_read7 = (\<lambda>_ s. (0, s)), de_ndma_write7 = (\<lambda>_ s. s), de_aes_check = (\<lambda>s. s) \<rparr>"

lemma quiet_devices: "devices_act (quiet_dma_env d)"
proof -
  have "dma_trigger e t t" "dma_act e t t" for e and t :: "unit dma"
    by (intro act_trigger tr_same same_dma_refl)+
  then show ?thesis by (simp add: devices_act_def quiet_dma_env_def)
qed

lemma zero_is_reset: "ndma_reset (dma_reset zero_dma) = zero_dma"
  by (simp add: ndma_reset_def dma_reset_def zero_dma_def)

lemma zero_reachable: "dma_reachable env zero_dma"
  using dr_reset [of env zero_dma] by (simp add: zero_is_reset)

text \<open>C32: The scheduler's test is exact.  Before every slice it asks one byte per CPU whether a
  DMA channel runs there.  Whatever the CPUs and the devices do to the registers and however
  the channels are run, the byte is zero exactly when none of the CPU's four DMA and four NDMA
  channels is running, and its bits name the running DMA channels.\<close>

theorem dma_masks_exact:
  assumes "devices_act env" "dma_reachable env s"
  shows "(any_running w s \<longleftrightarrow> (\<exists>n<4. running (ch w n s) \<noteq> 0 \<or> nrunning (nch w n s) \<noteq> 0)) \<and>
    (\<forall>n<4. bit (d_mask s w) n \<longleftrightarrow> running (ch w n s) \<noteq> 0)"
proof -
  note ok = reachable_masks [OF assms, unfolded mask_ok_def, rule_format, of w]
  have d: "\<not> n < 4 \<Longrightarrow> n \<noteq> 4 \<Longrightarrow> \<not> bit (d_mask s w) n" for n using ok by simp
  have n: "\<not> n < 4 \<Longrightarrow> \<not> bit (n_mask s w) n" for n using ok by simp
  have "any_running w s \<longleftrightarrow> (\<exists>n. bit (d_mask s w) n)" by (simp add: any_running_def mask_zero)
  also have "\<dots> \<longleftrightarrow> (\<exists>n<4. running (ch w n s) \<noteq> 0) \<or> n_mask s w \<noteq> 0" using d ok by metis
  also have "n_mask s w \<noteq> 0 \<longleftrightarrow> (\<exists>n<4. nrunning (nch w n s) \<noteq> 0)" unfolding mask_zero using n ok by metis
  finally show ?thesis using ok by blast
qed

theorem dma_masks_exact_witness:
  "(any_running ARM9 zero_dma \<longleftrightarrow> (\<exists>n<4. running (ch ARM9 n zero_dma) \<noteq> 0 \<or> nrunning (nch ARM9 n zero_dma) \<noteq> 0)) \<and>
   (bit (d_mask zero_dma ARM9) 2 \<longleftrightarrow> running (ch ARM9 2 zero_dma) \<noteq> 0)"
  using dma_masks_exact [OF quiet_devices [of True] zero_reachable, of ARM9] by simp

text \<open>C30: Skipping the geometry trigger loses no transfer.  After every command the geometry
  engine retires it asks a cached flag, not the channels, whether a transfer waits for it.
  In every state the controllers can reach this is the search over the channels: when the flag
  is down, looking for channels to start would have started none.  The same holds of the
  cartridge's flag, and on a DS both flags are exact.\<close>

theorem dma_flags_miss_nothing:
  assumes "devices_act env" "dma_reachable env s"
  shows "check_fifo_dma env s = dma_check env ARM9 MODE9_GXFIFO s \<and>
    (d_cart_armed s \<or> dma_check env ARM9 MODE9_CART s = s \<and> dma_check env ARM7 MODE7_CART s = s) \<and>
    (de_dsi env \<or> d_cart_armed s = (in_mode env ARM9 MODE9_CART s \<or> in_mode env ARM7 MODE7_CART s) \<and>
      d_gx_armed s = in_mode env ARM9 MODE9_GXFIFO s)"
  using reachable_armed [OF assms]
  by (auto simp: check_fifo_dma_def armed_ok_def Let_def nothing_armed split: if_splits)

theorem dma_flags_miss_nothing_witness:
  "check_fifo_dma (quiet_dma_env False) zero_dma = dma_check (quiet_dma_env False) ARM9 MODE9_GXFIFO zero_dma \<and>
   dma_check (quiet_dma_env False) ARM9 MODE9_CART zero_dma = zero_dma \<and>
   d_gx_armed zero_dma = in_mode (quiet_dma_env False) ARM9 MODE9_GXFIFO zero_dma"
  using dma_flags_miss_nothing [OF quiet_devices [of False] zero_reachable]
  by (simp add: zero_dma_def quiet_dma_env_def)

text \<open>On a DSi the flags can outlive the last armed channel: a write that clears the enable bit of
  an NDMA channel leaves them as they are.\<close>

lemma ndma_flag_stale:
  "\<exists>s. dma_reachable (quiet_dma_env True) s \<and> d_cart_armed s \<and>
     \<not> in_mode (quiet_dma_env True) ARM9 MODE9_CART s \<and> \<not> in_mode (quiet_dma_env True) ARM7 MODE7_CART s"
proof -
  let ?e = "quiet_dma_env True"
  let ?s = "ndma_write ?e ARM9 0x1C 0 (ndma_write ?e ARM9 0x1C 0x84000000 zero_dma)"
  have "dma_reachable ?e ?s" by (rule dr_act [OF dr_act [OF zero_reachable act_ndma] act_ndma])
  moreover have "d_cart_armed ?s \<and> \<not> in_mode ?e ARM9 MODE9_CART ?s \<and> \<not> in_mode ?e ARM7 MODE7_CART ?s" by code_simp
  ultimately show ?thesis by blast
qed

end
