(* ===== verification/DmaTerm.thy ===== *)
theory DmaTerm imports DmaInv begin

text \<open>
  A channel's turn ends.  No device can refill the count of a channel that is running -- a start
  leaves it alone, and nothing else writes the count -- so every round of the transfer loop
  lowers it, whichever of the paths it takes.
\<close>

section \<open>The count of a running channel\<close>

definition counts_down :: "cpu_id \<Rightarrow> nat \<Rightarrow> u32 \<Rightarrow> 'w dma \<Rightarrow> bool" where
  "counts_down w n m s \<longleftrightarrow> running (ch w n s) \<noteq> 0 \<and> iter_count (ch w n s) = m"

lemma counts_cong:
  assumes "counts_down w n m s" "running (ch w n t) = running (ch w n s)" "iter_count (ch w n t) = iter_count (ch w n s)"
  shows "counts_down w n m t"
  using assms by (simp add: counts_down_def)

lemma enabled_count [simp]: "iter_count (enabled w v c) = iter_count c"
  by (simp add: enabled_def)

lemma ndma_stop_channels [simp]: "ch v k (ndma_stop env w m s) = ch v k s"
proof -
  have "ch v k (fold (\<lambda>n s'. if P n then upd_nch w n f s' else s') ns s) = ch v k s" for P f ns
    by (rule fold_keeps [where P = "\<lambda>t. ch v k t = ch v k s"]) auto
  then show ?thesis by (simp add: ndma_stop_def Let_def)
qed

lemma dma_stop_count: "counts_down w n m s \<Longrightarrow> counts_down w n m (dma_stop env v k s)"
proof -
  assume "counts_down w n m s"
  then have "counts_down w n m (fold (\<lambda>n s. if start_mode (ch v n s) = k
      then upd_ch v n (\<lambda>c. c\<lparr> dc_cnt := cnt_off (dc_cnt c) \<rparr>) s else s) chans s)"
    by (rule fold_keeps [rotated]) (auto simp: counts_down_def)
  then show ?thesis by (simp add: dma_stop_def Let_def counts_down_def)
qed

definition count_held :: "'w dma_env \<Rightarrow> cpu_id \<Rightarrow> nat \<Rightarrow> u32 \<Rightarrow> 'w dma \<Rightarrow> bool" where
  "count_held env w n m s \<longleftrightarrow> (devices_act env \<longrightarrow> counts_down w n m s)"

interpretation counts: dma_kept env "count_held env w n m" for env :: "'a dma_env" and w n m
proof
  fix s t :: "'a dma" and v k q x and f :: "nchannel \<Rightarrow> nchannel"
  show "count_held env w n m s" if "\<not> devices_act env" using that by (simp add: count_held_def)
  assume ok: "count_held env w n m s"
  have c: "count_held env w n m t"
    if "running (ch w n t) = running (ch w n s)" "iter_count (ch w n t) = iter_count (ch w n s)" for t
    using ok that by (auto simp: count_held_def intro: counts_cong)
  show "count_held env w n m t" if "same_dma s t" using that by (intro c) (simp_all add: same_dma_def ch_def)
  show "count_held env w n m (set_running v k 2 (upd_ch v k (started v k) s))" if "running (ch v k s) = 0"
    using ok that by (auto simp: count_held_def counts_down_def)
  show "count_held env w n m (set_nrunning v k 2 (upd_nch v k nstarted s))" by (rule c) simp_all
  show "count_held env w n m (dma_stop env v q s)" using ok by (simp add: count_held_def dma_stop_count)
  show "count_held env w n m (ndma_stop env v q s)" by (rule c) simp_all
  show "count_held env w n m (dma_write_src v k x s)" "count_held env w n m (dma_write_dst v k x s)"
    by (rule c; simp add: dma_write_src_def dma_write_dst_def)+
  show "count_held env w n m (update_cart_armed env (upd_ch v k (\<lambda>c. c\<lparr> dc_cnt := x \<rparr>) s))" by (rule c) simp_all
  show "count_held env w n m (update_cart_armed env (upd_ch v k (enabled v x) (upd_ch v k (\<lambda>c. c\<lparr> dc_cnt := x \<rparr>) s)))"
    by (rule c) simp_all
  show "count_held env w n m (upd_nch v k f s)" by (rule c) simp_all
  show "count_held env w n m (upd_nch v k (\<lambda>c. c\<lparr> nc_cnt := x \<rparr>) s)" by (rule c) simp_all
  show "count_held env w n m (update_cart_armed env (upd_nch v k (nenabled v x) (upd_nch v k (\<lambda>c. c\<lparr> nc_cnt := x \<rparr>) s)))"
    by (rule c) simp_all
qed

lemma counts_devices:
  assumes "devices_act env" "counts_down w n m s"
  shows "counts_down w n m (de_progress env k s)" "counts_down w n m (de_gxfifo_write env x s)"
    "counts_down w n m (snd (dmac_read env v u a s))" "counts_down w n m (dmac_write env v u a x s)"
    "counts_down w n m (snd (run_target env v q s))"
proof -
  have h: "count_held env w n m s" using assms(2) by (simp add: count_held_def)
  have d: "count_held env w n m t \<Longrightarrow> counts_down w n m t" for t using assms(1) by (simp add: count_held_def)
  show "counts_down w n m (de_progress env k s)" "counts_down w n m (de_gxfifo_write env x s)"
    "counts_down w n m (snd (dmac_read env v u a s))" "counts_down w n m (dmac_write env v u a x s)"
    "counts_down w n m (snd (run_target env v q s))"
    by (rule d; rule counts.kept_devices counts.kept_read counts.kept_write counts.kept_target; rule h)+
qed

lemma counts_burst: "devices_act env \<Longrightarrow> counts_down w n m s \<Longrightarrow> counts_down w n m (de_gxfifo_burst env ws s)"
  using counts.kept_devices(8) [of env w n m s ws] by (simp add: count_held_def)

section \<open>Every path lowers the count\<close>

text \<open>A run of units: the channel is running, and fewer units are left than before.\<close>

definition lowered :: "cpu_id \<Rightarrow> nat \<Rightarrow> u32 \<Rightarrow> 'w dma \<Rightarrow> bool" where
  "lowered w n m t \<longleftrightarrow> (\<exists>m'. unat m' < unat m \<and> counts_down w n m' t)"

definition ends :: "('s \<Rightarrow> bool) \<Rightarrow> ('k \<times> 's) option \<Rightarrow> bool" where
  "ends P r \<longleftrightarrow> (\<exists>k t. r = Some (k, t) \<and> P t)"

lemma ends_Some [simp]: "ends P (Some (k, t)) = P t"
  by (simp add: ends_def)

lemma ends_mono: "ends P r \<Longrightarrow> (\<And>t. P t \<Longrightarrow> Q t) \<Longrightarrow> ends Q r"
  by (auto simp: ends_def)

lemma lowered_trans: "lowered w n m t \<Longrightarrow> unat m \<le> unat m' \<Longrightarrow> lowered w n m' t"
  unfolding lowered_def using less_le_trans by blast

lemma lowered_sub:
  assumes "counts_down w n m s" "0 < k" "k \<le> unat m"
  shows "lowered w n m (upd_ch w n (moved u k) s)" "lowered w n m (upd_ch w n (gx_moved k) s)"
proof -
  have k: "unat (of_nat k :: u32) = k"
    using assms(3) unsigned_less [of m, where 'a = nat] by (simp add: unsigned_of_nat take_bit_nat_eq_self)
  then have "unat (m - of_nat k) = unat m - k" using assms(3) by (simp add: unat_sub word_le_nat_alt)
  then have less: "unat (m - of_nat k) < unat m" using assms(2,3) by simp
  show "lowered w n m (upd_ch w n (moved u k) s)" "lowered w n m (upd_ch w n (gx_moved k) s)"
    unfolding lowered_def
    by (rule exI [of _ "m - of_nat k"]; use assms(1) less in \<open>simp add: counts_down_def moved_def gx_moved_def\<close>)+
qed

lemma lowered_step:
  assumes "counts_down w n m s" "m \<noteq> 0"
  shows "lowered w n m (upd_ch w n (stepped u) s)"
proof -
  have "0 < unat m" using assms(2) by (simp add: unat_gt_0)
  then have "lowered w n m (upd_ch w n (moved u 1) s)" using assms(1) by (intro lowered_sub) simp_all
  then show ?thesis by (simp add: lowered_def counts_down_def moved_def stepped_def)
qed

lemma counts_copy: "counts_down w n m s \<Longrightarrow> counts_down w n m (s\<lparr> d_host := h \<rparr>)"
  by (rule counts_cong) (simp_all add: ch_def)

lemma counts_pos: "counts_down w n m s \<Longrightarrow> counts_down w n m (upd_ch w n (\<lambda>c. c\<lparr> burst_pos := q \<rparr>) s)"
  by (rule counts_cong) simp_all

lemma lowered_pos: "lowered w n m s \<Longrightarrow> lowered w n m (upd_ch w n (\<lambda>c. c\<lparr> burst_pos := q \<rparr>) s)"
  unfolding lowered_def using counts_pos by blast

lemma unit_loop_ends:
  "counts_down w n m s \<Longrightarrow> m \<noteq> 0 \<Longrightarrow> unat m \<le> fuel \<Longrightarrow>
    ends (lowered w n m) (unit_loop fuel rc w n u sh limit room used pd ps s)"
proof (induction fuel arbitrary: m room used pd ps s)
  case (Suc fuel)
  let ?s = "copy_step w n u 1 pd ps s"
  have low: "lowered w n m ?s"
    unfolding copy_step_def using Suc.prems by (intro lowered_sub counts_copy) (simp_all add: Suc_le_eq unat_gt_0)
  then obtain m' where m': "unat m' < unat m" "counts_down w n m' ?s" by (auto simp: lowered_def)
  show ?case
  proof (cases "room - 1 = 0 \<or> iter_count (ch w n ?s) = 0 \<or> limit \<le> used")
    case True
    then show ?thesis using low by (simp add: Let_def)
  next
    case False
    then have *: "m' \<noteq> 0" "unat m' \<le> fuel" using m' Suc.prems(3) by (auto simp: counts_down_def)
    have "ends (lowered w n m) (unit_loop fuel rc w n u sh limit room' used' pd' ps' (upd_ch w n (\<lambda>c. c\<lparr> burst_pos := q \<rparr>) ?s))"
      for room' used' pd' ps' q
      by (rule ends_mono [OF Suc.IH [OF counts_pos [OF m'(2)] *]]) (use m'(1) in \<open>simp add: lowered_trans\<close>)
    then show ?thesis using False by (simp add: Let_def split_beta)
  qed
qed (simp add: unsigned_eq_0_iff)

lemma gx_loop_ends:
  assumes "devices_act env"
  shows "counts_down ARM9 n m s \<Longrightarrow> m \<noteq> 0 \<Longrightarrow> unat m \<le> fuel \<Longrightarrow>
    ends (lowered ARM9 n m) (gx_loop env fuel rc n limit room used p s)"
proof (induction fuel arbitrary: m room used p s)
  case (Suc fuel)
  let ?s = "upd_ch ARM9 n (gx_moved 1) (de_gxfifo_write env (ld32 (d_host s) p) s)"
  have low: "lowered ARM9 n m ?s"
    using Suc.prems by (intro lowered_sub counts_devices assms) (simp_all add: Suc_le_eq unat_gt_0)
  then obtain m' where m': "unat m' < unat m" "counts_down ARM9 n m' ?s" by (auto simp: lowered_def)
  show ?case
  proof (cases "room - 1 = 0 \<or> iter_count (ch ARM9 n ?s) = 0 \<or> limit \<le> used")
    case True
    then show ?thesis using low by (simp add: Let_def)
  next
    case False
    then have *: "m' \<noteq> 0" "unat m' \<le> fuel" using m' Suc.prems(3) by (auto simp: counts_down_def)
    have "ends (lowered ARM9 n m) (gx_loop env fuel rc n limit room' used' p' (upd_ch ARM9 n (\<lambda>c. c\<lparr> burst_pos := q \<rparr>) ?s))"
      for room' used' p' q
      by (rule ends_mono [OF Suc.IH [OF counts_pos [OF m'(2)] *]]) (use m'(1) in \<open>simp add: lowered_trans\<close>)
    then show ?thesis using False by (simp add: Let_def split_beta)
  qed
qed (simp add: unsigned_eq_0_iff)

section \<open>Runs\<close>

lemma counts_price:
  "counts_down w n m s \<Longrightarrow> counts_down w n m (snd (unit_cycles w n b word s))"
proof -
  have "iter_count (refill w word s c) = iter_count c \<and> running (refill w word s c) = running c" for c
    by (simp add: refill_def Let_def split_beta)
  moreover have "iter_count (snd (price b word c)) = iter_count c \<and> running (snd (price b word c)) = running c" for c
    by (simp add: price_def burst_next_def Let_def)
  ultimately show "counts_down w n m s \<Longrightarrow> ?thesis"
    unfolding unit_cycles_def split_beta Let_def by (simp add: counts_down_def)
qed

lemma counts_cost: "counts_down w n m s \<Longrightarrow> counts_down w n m (snd (run_cost w n word s))"
  by (simp add: run_cost_def Let_def split_beta counts_price)

lemma cut_within: "1 \<le> n \<Longrightarrow> bulk_cut rc pos sh used limit n \<le> n"
  unfolding bulk_cut_def Let_def using cut_search_bounds [of 1 n] by simp

lemma bulk_run_ends:
  assumes "counts_down w n m s" "len \<le> unat m"
  shows "bulk_run rc w n u sh limit len used pd ps s = None \<or>
    ends (lowered w n m) (bulk_run rc w n u sh limit len used pd ps s)"
proof -
  have "lowered w n m (copy_step w n u k pd ps (upd_ch w n (\<lambda>c. c\<lparr> burst_pos := q \<rparr>) s))" if "2 \<le> k" "k \<le> len" for k q
    unfolding copy_step_def using that assms by (intro lowered_sub counts_copy counts_pos) simp_all
  then show ?thesis using cut_within [of len] by (simp add: bulk_run_def Let_def split_beta kBulkMin_def)
qed

lemma gx_bulk_ends:
  assumes "devices_act env" "counts_down ARM9 n m s" "len \<le> unat m"
  shows "gx_bulk env rc n limit len used p s = None \<or> ends (lowered ARM9 n m) (gx_bulk env rc n limit len used p s)"
proof -
  have "lowered ARM9 n m (upd_ch ARM9 n (gx_moved k) (de_gxfifo_burst env ws (upd_ch ARM9 n (\<lambda>c. c\<lparr> burst_pos := q \<rparr>) s)))"
    if "2 \<le> k" "k \<le> len" for k q ws
    using that assms by (intro lowered_sub counts_burst counts_pos) simp_all
  then show ?thesis using cut_within [of len] by (simp add: gx_bulk_def Let_def split_beta kBulkMin_def)
qed

lemma ends_or: "x = None \<or> ends P x \<Longrightarrow> ends P y \<Longrightarrow> ends P (case x of None \<Rightarrow> y | Some r \<Rightarrow> Some r)"
  by (cases x) auto

lemma run_pages_ends:
  assumes "counts_down w n m s" "m \<noteq> 0"
  shows "ends (lowered w n m) (run_pages w n u limit used pd ps s)"
proof -
  define y where "y = run_cost w n (u = 4) s"
  have y: "counts_down w n m (snd y)" using counts_cost [OF assms(1)] by (simp add: y_def)
  then have i: "iter_count (ch w n (snd y)) = m" by (simp add: counts_down_def)
  have len: "unat (if r < m then r else m) \<le> unat m" for r by (simp add: word_less_nat_alt)
  note bulk = bulk_run_ends [OF y len] and loop = unit_loop_ends [OF y assms(2) order_refl]
  show ?thesis unfolding run_pages_def Let_def split_beta y_def [symmetric] i
    by (rule ends_or [OF bulk loop])
qed

lemma gx_run_ends:
  assumes "devices_act env" "counts_down ARM9 n m s" "m \<noteq> 0" "unat m \<le> fuel"
  shows "ends (lowered ARM9 n m) (gx_run env fuel n limit used p s)"
proof -
  define y where "y = run_cost ARM9 n True s"
  have y: "counts_down ARM9 n m (snd y)" using counts_cost [OF assms(2)] by (simp add: y_def)
  then have i: "iter_count (ch ARM9 n (snd y)) = m" by (simp add: counts_down_def)
  have len: "min (unat (if r < m then r else m)) q \<le> unat m" for r q by (auto simp: word_less_nat_alt)
  note bulk = gx_bulk_ends [OF assms(1) y len] and loop = gx_loop_ends [OF assms(1) y assms(3,4)]
  show ?thesis unfolding gx_run_def Let_def split_beta y_def [symmetric] i
    by (rule ends_or [OF bulk loop])
qed

text \<open>A direct run that is refused leaves the channel where it was.\<close>

lemma direct_run_ends:
  assumes "devices_act env" "counts_down w n m s" "m \<noteq> 0"
  shows "\<exists>b k lim t. direct_run env w n u limit used below s = Some (b, k, lim, t) \<and>
    (if b then lowered w n m t else counts_down w n m t)"
proof -
  define x where "x = run_target env w n s"
  have x: "counts_down w n m (snd x)" using counts_devices(5) [OF assms(1,2)] by (simp add: x_def)
  have pages: "\<exists>k t. run_pages w n u limit used pd ps (snd x) = Some (k, t) \<and> lowered w n m t" for pd ps
    using run_pages_ends [OF x assms(3)] by (simp add: ends_def)
  show ?thesis
  proof (cases "src_inc (ch w n s) \<noteq> 1 \<or> dst_inc (ch w n s) \<noteq> 1 \<or> cur_dst (ch w n s) < below \<or>
      (w = ARM9 \<and> (dma_tcm (cur_src (ch w n s)) s \<or> dma_tcm (cur_dst (ch w n s)) s)) \<or> read_ptr (d_cpu s w) (cur_src (ch w n s)) = None")
    case True
    then show ?thesis using assms(2) unfolding direct_run_def Let_def split_beta by auto
  next
    case False
    then obtain ps where ps: "read_ptr (d_cpu s w) (cur_src (ch w n s)) = Some ps" by auto
    have "direct_run env w n u limit used below s =
      (case fst x of Some (pd, False) \<Rightarrow> map_option (\<lambda>(used', s2). (True, used', below, s2)) (run_pages w n u limit used pd ps (snd x))
        | _ \<Rightarrow> Some (False, used, (cur_dst (ch w n (snd x)) OR (PAGE_SIZE - 1)) + 1, snd x))"
      using False ps unfolding direct_run_def Let_def split_beta x_def [symmetric] by (auto split: option.split)
    then show ?thesis using x pages
      by (auto split: option.split bool.split)
  qed
qed

lemma move_unit_ends:
  assumes "devices_act env" "counts_down w n m s" "m \<noteq> 0" "unat m \<le> fuel"
  shows "\<exists>k lim t. move_unit env fuel w n word limit used below s = Some (k, lim, t) \<and> lowered w n m t"
proof (cases "is_gx_feed w word (ch w n s)")
  case True
  then have w: "w = ARM9" by (simp add: is_gx_feed_def)
  have slow: "lowered w n m (upd_ch w n (stepped u) (de_gxfifo_write env v (snd (dmac_read env w 4 a s))))" for u v a
    by (intro lowered_step counts_devices assms)
  have fast: "\<exists>k t. gx_run env fuel n limit used p s = Some (k, t) \<and> lowered w n m t" for p
    using gx_run_ends [OF assms(1) assms(2) [unfolded w] assms(3,4)] by (simp add: ends_def w)
  show ?thesis using True slow fast unfolding move_unit_def Let_def split_beta
    by (auto split: option.split)
next
  case False
  let ?u = "if word then 4 else 2 :: nat"
  obtain b k lim t where d: "direct_run env w n ?u limit used below s = Some (b, k, lim, t)"
    "if b then lowered w n m t else counts_down w n m t"
    using direct_run_ends [OF assms(1-3)] by blast
  have slow: "lowered w n m (upd_ch w n (stepped u) (dmac_write env w u a v (snd (dmac_read env w u q t))))"
    if "counts_down w n m t" for u a v q
    using that assms(1,3) by (intro lowered_step counts_devices)
  show ?thesis using False d slow unfolding move_unit_def Let_def split_beta by (cases b) auto
qed

section \<open>The transfer loop\<close>

lemma run_loop_ends:
  assumes "devices_act env"
  shows "counts_down w n m s \<Longrightarrow> unat m < fuel \<Longrightarrow> ends (\<lambda>_. True) (run_loop env fuel w n word limit b used below s)"
proof (induction fuel arbitrary: m b used below s)
  case 0
  then show ?case by simp
next
  case (Suc fuel)
  show ?case
  proof (cases "iter_count (ch w n s) \<noteq> 0 \<and> used < limit")
    case True
    then have m: "m \<noteq> 0" using Suc.prems(1) by (simp add: counts_down_def)
    define y where "y = unit_cycles w n b word s"
    have y: "counts_down w n m (if d_track (snd y) then de_progress env q (snd y) else snd y)" for q
      using counts_price [OF Suc.prems(1)] by (simp add: y_def counts_devices assms)
    obtain k lim t where mv: "move_unit env fuel w n word limit (used + fst y * 2 ^ dma_sh w (snd y)) below
        (if d_track (snd y) then de_progress env (d_run_base (snd y) + (used + fst y * 2 ^ dma_sh w (snd y))) (snd y) else snd y)
        = Some (k, lim, t)" "lowered w n m t"
      using move_unit_ends [OF assms y m, of fuel] Suc.prems(2) by (simp add: less_Suc_eq_le) blast
    then obtain m' where "unat m' < unat m" "counts_down w n m' t" by (auto simp: lowered_def)
    then have "ends (\<lambda>_. True) (run_loop env fuel w n word limit False k lim t)" using Suc.IH Suc.prems(2) by simp
    then show ?thesis using True mv(1)
      unfolding run_loop.simps [of env "Suc fuel"] Let_def split_beta y_def [symmetric] by simp
  next
    case False
    then show ?thesis by (auto simp: run_loop.simps [of env "Suc fuel"])
  qed
qed

text \<open>C33: A channel's turn ends.  Whatever the bus, the geometry engine and the other devices do
  while it runs -- they may write the channel's own registers -- the turn of a DMA channel
  returns, with at most as many rounds of its loop as it has units left and one to see the
  count run out.  With that fuel the model never gives up.\<close>

theorem dma_channel_returns:
  assumes "devices_act env" "unat (iter_count (ch w n s)) < fuel"
  shows "\<exists>used t. run_channel env fuel w n limit s = Some (used, t)"
proof -
  have "counts_down w n (iter_count (ch w n s)) (set_running w n 1 s)" by (simp add: counts_down_def)
  from run_loop_ends [OF assms(1) this assms(2)] show ?thesis
    by (simp add: run_channel_def Let_def) (metis (no_types, lifting) ends_def)
qed

theorem dma_channel_returns_witness:
  "\<exists>used t. run_channel (quiet_dma_env True) 21 ARM7 0 100 run_16 = Some (used, t)"
  by (rule dma_channel_returns [OF quiet_devices]) (simp add: run_16_def ch_def upd_ch_def)

end
