(* ===== verification/IdleLoop.thy ===== *)
theory IdleLoop imports CpuMem ArmDecode Scheduler begin

text \<open>
  The idle-loop detector (\<^verbatim>\<open>src/core/cpu/idle_loop.cpp\<close>): the structural analysis of the ARM
  loop around an address, the cache of its verdicts, and the query the scheduler makes.  The
  memory of a query is the function \<open>fetch\<close> from addresses to readable words.  Registers read and
  written are bit sets as in the code, bit 16 standing for the condition flags.  The loads of a
  verdict are a list, whose length is \<^verbatim>\<open>load_count\<close>.  The body of a loop is taken to end below the
  top of the address space, as every mapping does.
\<close>

section \<open>State\<close>

definition MAX_BODY :: nat where "MAX_BODY = 16"
definition MAX_SEARCH :: nat where "MAX_SEARCH = 16"
definition MAX_LOADS :: nat where "MAX_LOADS = 4"
definition FLAGS :: nat where "FLAGS = 16"
definition CACHE_SIZE :: u32 where "CACHE_SIZE = 512"

datatype idle_reject = RNone | RThumb | RFetch | RNoBackEdge | RTooLong | RStore | RLoadForm | RBadInstr
  | RPcWrite | RCarried | RNoLoad | RMmio

record load_site =
  ls_base :: u8
  ls_offset :: u32
  ls_addr :: u32

record verdict =
  v_pc :: u32
  v_valid :: bool
  v_skippable :: bool
  v_reason :: idle_reject
  v_head :: u32
  v_tail :: u32
  v_checksum :: u32
  v_loads :: "load_site list"

definition new_verdict :: verdict where
  "new_verdict = \<lparr> v_pc = 0, v_valid = False, v_skippable = False, v_reason = RNone, v_head = 0, v_tail = 0,
     v_checksum = 0, v_loads = [] \<rparr>"

record idle_state =
  il_cache :: "cpu_id \<Rightarrow> u32 \<Rightarrow> verdict"
  il_reject :: idle_reject
  il_queries :: u64
  il_hits :: u64
  il_analyses :: u64
  il_by_reason :: "idle_reject \<Rightarrow> u64"

definition new_idle :: idle_state where
  "new_idle = \<lparr> il_cache = (\<lambda>_ _. new_verdict), il_reject = RNone, il_queries = 0, il_hits = 0, il_analyses = 0,
     il_by_reason = (\<lambda>_. 0) \<rparr>"

definition reject :: "idle_reject \<Rightarrow> idle_state \<Rightarrow> idle_state" where
  "reject r s = s\<lparr> il_reject := r, il_by_reason := (il_by_reason s)(r := il_by_reason s r + 1) \<rparr>"

definition cache_slot :: "u32 \<Rightarrow> u32" where
  "cache_slot pc = drop_bit 2 pc AND (CACHE_SIZE - 1)"

section \<open>Memory\<close>

definition il_fetch :: "cpu_ctx \<Rightarrow> (u64 \<Rightarrow> u8) \<Rightarrow> u32 \<Rightarrow> u32 option" where
  "il_fetch c h a = map_option (ld32 h) (read_ptr c a)"

text \<open>May a loop poll this address, and is it the geometry status?\<close>

definition safe_poll_address :: "cpu_ctx \<Rightarrow> u32 \<Rightarrow> idle_ports \<Rightarrow> bool \<times> bool" where
  "safe_poll_address c addr ports =
     (if read_ptr c addr \<noteq> None then (True, False)
      else if addr AND 0x0F000000 \<noteq> 0x04000000 then (False, False)
      else
        (let port = addr AND 0x0FFFFFFC in
         if ports \<noteq> PortsAll
         then (if ports = GxstatOnly \<and> port = 0x04000600 then (True, True)
               else (ports = SpicntOnly \<and> port = 0x040001C0, False))
         else (port \<in> {0x04000180, 0x04000184, 0x04000208, 0x0400020C, 0x04000210, 0x04000214, 0x04000600}, False)))"

text \<open>The addresses of a body, and its checksum: 0 when a word cannot be read.\<close>

definition body_addrs :: "u32 \<Rightarrow> u32 \<Rightarrow> u32 list" where
  "body_addrs head tail =
     (if tail < head then [] else map (\<lambda>k. head + of_nat (4 * k)) [0..<unat (drop_bit 2 (tail - head)) + 1])"

fun sum_words :: "(u32 \<Rightarrow> u32 option) \<Rightarrow> u32 list \<Rightarrow> u32 \<Rightarrow> u32 option" where
  "sum_words fetch [] acc = Some acc"
| "sum_words fetch (a # as) acc =
     (case fetch a of None \<Rightarrow> None | Some i \<Rightarrow> sum_words fetch as ((acc XOR i) * 16777619))"

definition body_checksum :: "(u32 \<Rightarrow> u32 option) \<Rightarrow> u32 \<Rightarrow> u32 \<Rightarrow> u32" where
  "body_checksum fetch head tail =
     (case sum_words fetch (body_addrs head tail) 0x9E3779B9 of None \<Rightarrow> 0
      | Some x \<Rightarrow> if x \<noteq> 0 then x else 1)"

section \<open>One instruction\<close>

record body_scan =
  bs_written :: u32
  bs_rbw :: u32
  bs_loads :: "load_site list"

definition new_scan :: body_scan where
  "new_scan = \<lparr> bs_written = 0, bs_rbw = 0, bs_loads = [] \<rparr>"

definition do_read :: "nat \<Rightarrow> body_scan \<Rightarrow> body_scan" where
  "do_read r s = (if \<not> bit (bs_written s) r then s\<lparr> bs_rbw := bs_rbw s OR push_bit r 1 \<rparr> else s)"

definition do_write :: "nat \<Rightarrow> body_scan \<Rightarrow> body_scan" where
  "do_write r s = s\<lparr> bs_written := bs_written s OR push_bit r 1 \<rparr>"

definition branch_target :: "u32 \<Rightarrow> u32 \<Rightarrow> u32" where
  "branch_target at i = at + 8 + signed_drop_bit 6 (push_bit 8 i)"

definition reg_at :: "u32 \<Rightarrow> nat \<Rightarrow> nat" where
  "reg_at i k = unat (fld i k 0xF)"

text \<open>A rejected instruction gives its reason; the fifth load of a body gives none.\<close>

definition scan_dp :: "aop \<Rightarrow> u32 \<Rightarrow> body_scan \<Rightarrow> idle_reject option + body_scan" where
  "scan_dp op i s =
     (let opcode = fld i 21 0xF;
          moves = (opcode = 0xD \<or> opcode = 0xF);
          s1 = (if moves then s else do_read (reg_at i 16) s);
          s2 = (if op \<noteq> AOp_DpImm then do_read (reg_at i 0) s1 else s1);
          s3 = (if op = AOp_DpRegShift then do_read (reg_at i 8) s2 else s2);
          s4 = (if opcode = 5 \<or> opcode = 6 \<or> opcode = 7 then do_read FLAGS s3 else s3)
      in if 8 \<le> opcode \<and> opcode \<le> 0xB then Inr (do_write FLAGS s4)
         else if reg_at i 12 = 15 then Inl (Some RPcWrite)
         else (let s5 = do_write (reg_at i 12) s4 in Inr (if tst i 0x100000 then do_write FLAGS s5 else s5)))"

definition scan_mul :: "aop \<Rightarrow> u32 \<Rightarrow> body_scan \<Rightarrow> idle_reject option + body_scan" where
  "scan_mul op i s =
     (if reg_at i 16 = 15 then Inl (Some RPcWrite)
      else
        (let s1 = do_read (reg_at i 8) (do_read (reg_at i 0) s);
             s2 = (if op = AOp_Mla then do_read (reg_at i 12) s1 else s1);
             s3 = do_write (reg_at i 16) s2
         in Inr (if tst i 0x100000 then do_write FLAGS s3 else s3)))"

definition scan_load :: "aop \<Rightarrow> u32 \<Rightarrow> u32 \<Rightarrow> body_scan \<Rightarrow> idle_reject option + body_scan" where
  "scan_load op at i s =
     (if \<not> tst i 0x100000 then Inl (Some RStore)
      else if \<not> tst i 0x1000000 \<or> tst i 0x200000 then Inl (Some RLoadForm)
      else if reg_at i 12 = 15 then Inl (Some RPcWrite)
      else
        (let imm0 = (if op = AOp_LdrStrImm then i AND 0xFFF else (drop_bit 4 i AND 0xF0) OR (i AND 0xF));
             imm = (if tst i 0x800000 then imm0 else - imm0);
             rn = reg_at i 16
         in if MAX_LOADS \<le> length (bs_loads s) then Inl None
            else
              (let site = (if rn = 15 then \<lparr> ls_base = 0xFF, ls_offset = 0, ls_addr = at + 8 + imm \<rparr>
                           else \<lparr> ls_base = of_nat rn, ls_offset = imm, ls_addr = 0 \<rparr>);
                   s1 = s\<lparr> bs_loads := bs_loads s @ [site] \<rparr>;
                   s2 = (if rn = 15 then s1 else do_read rn s1)
               in Inr (do_write (reg_at i 12) s2))))"

definition scan_instr :: "u32 \<Rightarrow> u32 \<Rightarrow> u32 \<Rightarrow> u32 \<Rightarrow> body_scan \<Rightarrow> idle_reject option + body_scan" where
  "scan_instr at i head tail s0 =
     (let cond = drop_bit 28 i in
      if cond = 0xF then Inl (Some RBadInstr)
      else
        (let s = (if cond \<noteq> 0xE then do_read FLAGS s0 else s0); op = classify_arm (arm_index i) in
         case op of
           AOp_DpImm \<Rightarrow> scan_dp op i s
         | AOp_DpImmShift \<Rightarrow> scan_dp op i s
         | AOp_DpRegShift \<Rightarrow> scan_dp op i s
         | AOp_Mrs \<Rightarrow> (if reg_at i 12 = 15 then Inl (Some RPcWrite) else Inr (do_write (reg_at i 12) s))
         | AOp_Clz \<Rightarrow> (if reg_at i 12 = 15 then Inl (Some RPcWrite)
                      else Inr (do_write (reg_at i 12) (do_read (reg_at i 0) s)))
         | AOp_Mul \<Rightarrow> scan_mul op i s
         | AOp_Mla \<Rightarrow> scan_mul op i s
         | AOp_LdrStrImm \<Rightarrow> scan_load op at i s
         | AOp_LdrStrHImm \<Rightarrow> scan_load op at i s
         | AOp_B \<Rightarrow>
             (let target = branch_target at i
              in if cond = 0xE \<and> \<not> (head \<le> target \<and> target \<le> tail) \<and> at \<noteq> tail then Inl (Some RBadInstr) else Inr s)
         | _ \<Rightarrow> Inl (Some (if op = AOp_Stm \<or> op = AOp_LdrStrReg \<or> op = AOp_LdrStrHReg then RStore else RBadInstr))))"

section \<open>The analysis\<close>

text \<open>The bottom of a loop around \<open>pc\<close>: its first word and its closing branch.\<close>

fun find_back_edge :: "(u32 \<Rightarrow> u32 option) \<Rightarrow> u32 \<Rightarrow> nat list \<Rightarrow> idle_reject + u32 \<times> u32" where
  "find_back_edge fetch pc [] = Inl RNoBackEdge"
| "find_back_edge fetch pc (k # ks) =
     (let at = pc + of_nat (4 * k) in
      case fetch at of None \<Rightarrow> Inl RFetch
      | Some i \<Rightarrow>
          (if drop_bit 28 i = 0xF then Inl RBadInstr
           else if classify_arm (arm_index i) \<noteq> AOp_B then find_back_edge fetch pc ks
           else
             (let target = branch_target at i
              in if target \<le> pc \<and> pc - target \<le> of_nat (MAX_BODY * 4) then Inr (target, at)
                 else find_back_edge fetch pc ks)))"

fun scan_body :: "(u32 \<Rightarrow> u32 option) \<Rightarrow> u32 \<Rightarrow> u32 \<Rightarrow> u32 list \<Rightarrow> body_scan \<Rightarrow> idle_reject option + body_scan" where
  "scan_body fetch head tail [] s = Inr s"
| "scan_body fetch head tail (at # as) s =
     (case fetch at of None \<Rightarrow> Inl (Some RFetch)
      | Some i \<Rightarrow>
          (case scan_instr at i head tail s of Inl r \<Rightarrow> Inl r | Inr s1 \<Rightarrow> scan_body fetch head tail as s1))"

definition judge :: "(u32 \<Rightarrow> u32 option) \<Rightarrow> u32 \<Rightarrow> idle_reject option + u32 \<times> u32 \<times> load_site list" where
  "judge fetch pc =
     (case find_back_edge fetch pc [0..<MAX_SEARCH] of Inl r \<Rightarrow> Inl (Some r)
      | Inr (head, tail) \<Rightarrow>
          (if of_nat MAX_BODY < drop_bit 2 (tail - head) + 1 then Inl (Some RTooLong)
           else
             (case scan_body fetch head tail (body_addrs head tail) new_scan of Inl r \<Rightarrow> Inl r
              | Inr s \<Rightarrow>
                  (if bs_written s AND bs_rbw s \<noteq> 0 then Inl (Some RCarried)
                   else if bs_loads s = [] then Inl (Some RNoLoad)
                   else Inr (head, tail, bs_loads s)))))"

definition analyse :: "(u32 \<Rightarrow> u32 option) \<Rightarrow> u32 \<Rightarrow> verdict \<Rightarrow> idle_state \<Rightarrow> verdict \<times> idle_state" where
  "analyse fetch pc v s =
     (let s1 = s\<lparr> il_analyses := il_analyses s + 1 \<rparr>;
          v1 = v\<lparr> v_pc := pc, v_valid := True, v_skippable := False, v_loads := [] \<rparr>
      in case judge fetch pc of
           Inl None \<Rightarrow> (v1, s1)
         | Inl (Some r) \<Rightarrow> (v1, reject r s1)
         | Inr (head, tail, loads) \<Rightarrow>
             (v1\<lparr> v_skippable := True, v_head := head, v_tail := tail,
                 v_checksum := body_checksum fetch head tail, v_loads := loads \<rparr>, s1))"

section \<open>The query\<close>

definition load_address :: "cpu_ctx \<Rightarrow> load_site \<Rightarrow> u32" where
  "load_address c l = (if ls_base l = 0xFF then ls_addr l else R c (ucast (ls_base l)) + ls_offset l)"

fun check_loads :: "cpu_ctx \<Rightarrow> idle_ports \<Rightarrow> load_site list \<Rightarrow> bool \<Rightarrow> bool option" where
  "check_loads c ports [] gx = Some gx"
| "check_loads c ports (l # ls) gx =
     (let (ok, g) = safe_poll_address c (load_address c l) ports
      in if ok then check_loads c ports ls (gx \<or> g) else None)"

text \<open>The verdict a query goes by: the cached one while its body reads as it did, a new one otherwise.\<close>

definition current_verdict :: "(u32 \<Rightarrow> u32 option) \<Rightarrow> cpu_id \<Rightarrow> u32 \<Rightarrow> idle_state \<Rightarrow> verdict \<times> idle_state" where
  "current_verdict fetch w pc s =
     (let k = cache_slot pc; v = il_cache s w k;
          stale = (v_valid v \<and> v_pc v = pc \<and> v_skippable v \<and>
            body_checksum fetch (v_head v) (v_tail v) \<noteq> v_checksum v)
      in if \<not> v_valid v \<or> v_pc v \<noteq> pc \<or> stale
         then (let (v1, t) = analyse fetch pc v s; v2 = v1\<lparr> v_reason := il_reject t \<rparr>
               in (v2, t\<lparr> il_cache := (il_cache t)(w := (il_cache t w)(k := v2)) \<rparr>))
         else (v, s))"

definition in_idle_loop :: "cpu_ctx \<Rightarrow> (u64 \<Rightarrow> u8) \<Rightarrow> idle_ports \<Rightarrow> idle_state \<Rightarrow> bool \<times> idle_state" where
  "in_idle_loop c h ports s0 =
     (let s1 = s0\<lparr> il_queries := il_queries s0 + 1, il_reject := RNone \<rparr> in
      if thumb c then (False, reject RThumb s1)
      else
        (let (v, s2) = current_verdict (il_fetch c h) (which c) (R c 15 - 8) s1 in
         if \<not> v_skippable v then (False, reject (v_reason v) s2)
         else
           (case check_loads c ports (v_loads v) False of
              None \<Rightarrow> (False, reject RMmio s2)
            | Some gx \<Rightarrow>
                (if ports = GxstatOnly \<and> \<not> gx then (False, reject RMmio s2)
                 else (True, s2\<lparr> il_hits := il_hits s2 + 1 \<rparr>)))))"

definition invalidate_idle_loops :: "idle_state \<Rightarrow> idle_state" where
  "invalidate_idle_loops s = s\<lparr> il_cache := (\<lambda>w k. (il_cache s w k)\<lparr> v_valid := False \<rparr>) \<rparr>"

end
