(* ===== verification/IdleSpec.thy ===== *)
theory IdleSpec imports IdleLoop begin

text \<open>
  What the idle-loop detector's verdicts mean.  An accepted body makes no store, no call and no
  computed jump, and no register it reads can have been written by the iteration before; so for
  instructions that write their registers whatever the old values, a second iteration over the
  same memory changes nothing.  A cached verdict is used only while the body reads with the
  checksum it was accepted with.
\<close>

section \<open>What an instruction reads and writes\<close>

definition op_of :: "u32 \<Rightarrow> aop" where
  "op_of i = classify_arm (arm_index i)"

definition is_dp :: "aop \<Rightarrow> bool" where
  "is_dp op \<longleftrightarrow> op = AOp_DpImm \<or> op = AOp_DpImmShift \<or> op = AOp_DpRegShift"

definition is_load :: "aop \<Rightarrow> bool" where
  "is_load op \<longleftrightarrow> op = AOp_LdrStrImm \<or> op = AOp_LdrStrHImm"

definition is_compare :: "u32 \<Rightarrow> bool" where
  "is_compare i \<longleftrightarrow> 8 \<le> fld i 21 0xF \<and> fld i 21 0xF \<le> 0xB"

definition op_reads :: "u32 \<Rightarrow> nat set" where
  "op_reads i =
     {r. is_dp (op_of i) \<and> (fld i 21 0xF \<noteq> 0xD \<and> fld i 21 0xF \<noteq> 0xF \<and> r = reg_at i 16
           \<or> op_of i \<noteq> AOp_DpImm \<and> r = reg_at i 0 \<or> op_of i = AOp_DpRegShift \<and> r = reg_at i 8
           \<or> (fld i 21 0xF = 5 \<or> fld i 21 0xF = 6 \<or> fld i 21 0xF = 7) \<and> r = FLAGS)
       \<or> op_of i = AOp_Clz \<and> r = reg_at i 0
       \<or> (op_of i = AOp_Mul \<or> op_of i = AOp_Mla) \<and>
           (r = reg_at i 0 \<or> r = reg_at i 8 \<or> op_of i = AOp_Mla \<and> r = reg_at i 12)
       \<or> is_load (op_of i) \<and> reg_at i 16 \<noteq> 15 \<and> r = reg_at i 16}"

text \<open>A conditional instruction also reads the flags.\<close>

definition reads_of :: "u32 \<Rightarrow> nat set" where
  "reads_of i = (if drop_bit 28 i \<noteq> 0xE then {FLAGS} else {}) \<union> op_reads i"

definition writes_of :: "u32 \<Rightarrow> nat set" where
  "writes_of i =
     {r. is_dp (op_of i) \<and> (if is_compare i then r = FLAGS else r = reg_at i 12 \<or> tst i 0x100000 \<and> r = FLAGS)
       \<or> (op_of i = AOp_Mrs \<or> op_of i = AOp_Clz \<or> is_load (op_of i)) \<and> r = reg_at i 12
       \<or> (op_of i = AOp_Mul \<or> op_of i = AOp_Mla) \<and> (r = reg_at i 16 \<or> tst i 0x100000 \<and> r = FLAGS)}"

text \<open>An instruction the detector may accept.\<close>

definition harmless :: "u32 \<Rightarrow> bool" where
  "harmless i \<longleftrightarrow> drop_bit 28 i \<noteq> 0xF \<and> 15 \<notin> writes_of i \<and>
     (is_dp (op_of i) \<or> op_of i \<in> {AOp_Mrs, AOp_Clz, AOp_Mul, AOp_Mla, AOp_B} \<or>
      is_load (op_of i) \<and> tst i 0x100000 \<and> tst i 0x1000000 \<and> \<not> tst i 0x200000)"

definition reg_set :: "u32 \<Rightarrow> nat set" where
  "reg_set w = {r. bit w r}"

lemma reg_less: "reg_at i k < 16"
proof -
  have "fld i k 0xF \<le> 0xF" by (rule fld_le)
  then show ?thesis by (simp add: reg_at_def word_le_nat_alt)
qed

lemma reg_small: "reg_at i k < 32"
  using reg_less [of i k] by simp

lemma flags_small: "FLAGS < 32"
  by (simp add: FLAGS_def)

lemma do_read_sets [simp]:
  assumes "r < 32"
  shows "reg_set (bs_written (do_read r s)) = reg_set (bs_written s)"
    "reg_set (bs_rbw (do_read r s)) = reg_set (bs_rbw s) \<union> ({r} - reg_set (bs_written s))"
  using assms by (auto simp: do_read_def reg_set_def bit_or_iff bit_exp_iff)

lemma do_write_sets [simp]:
  assumes "r < 32"
  shows "reg_set (bs_written (do_write r s)) = insert r (reg_set (bs_written s))"
    "reg_set (bs_rbw (do_write r s)) = reg_set (bs_rbw s)"
  using assms by (auto simp: do_write_def reg_set_def bit_or_iff bit_exp_iff)

lemma loads_fields [simp]:
  "bs_written (s\<lparr> bs_loads := l \<rparr>) = bs_written s" "bs_rbw (s\<lparr> bs_loads := l \<rparr>) = bs_rbw s"
  by simp_all

text \<open>A scan that takes an instruction adds what it writes, and what it reads and no earlier one wrote.\<close>

definition adds :: "nat set \<Rightarrow> nat set \<Rightarrow> body_scan \<Rightarrow> body_scan \<Rightarrow> bool" where
  "adds rd wr s s' \<longleftrightarrow> reg_set (bs_written s') = reg_set (bs_written s) \<union> wr \<and>
     reg_set (bs_rbw s') = reg_set (bs_rbw s) \<union> (rd - reg_set (bs_written s))"

lemma reg_ne_flags [simp]: "reg_at i k \<noteq> FLAGS" "FLAGS \<noteq> reg_at i k" "FLAGS \<noteq> 15"
  using reg_less [of i k] by (auto simp: FLAGS_def)

lemmas scan_sets = adds_def reg_small flags_small

lemma scan_dp_adds:
  assumes "scan_dp op i s = Inr s'" "op = op_of i" "is_dp op"
  shows "adds (op_reads i) (writes_of i) s s' \<and> 15 \<notin> writes_of i"
proof -
  have o: "op \<noteq> AOp_Clz" "op \<noteq> AOp_Mul" "op \<noteq> AOp_Mla" "op \<noteq> AOp_Mrs" "\<not> is_load op"
    using assms(3) by (auto simp: is_dp_def is_load_def)
  have w: "writes_of i = {r. if is_compare i then r = FLAGS else r = reg_at i 12 \<or> tst i 0x100000 \<and> r = FLAGS}"
    using o assms(2,3) by (auto simp: writes_of_def)
  have r: "op_reads i = (if fld i 21 0xF = 0xD \<or> fld i 21 0xF = 0xF then {} else {reg_at i 16}) \<union>
      (if op = AOp_DpImm then {} else {reg_at i 0}) \<union> (if op = AOp_DpRegShift then {reg_at i 8} else {}) \<union>
      (if fld i 21 0xF = 5 \<or> fld i 21 0xF = 6 \<or> fld i 21 0xF = 7 then {FLAGS} else {})"
    using o assms(2,3) by (auto simp: op_reads_def)
  define s1 where "s1 = (if fld i 21 0xF = 0xD \<or> fld i 21 0xF = 0xF then s else do_read (reg_at i 16) s)"
  define s2 where "s2 = (if op \<noteq> AOp_DpImm then do_read (reg_at i 0) s1 else s1)"
  define s3 where "s3 = (if op = AOp_DpRegShift then do_read (reg_at i 8) s2 else s2)"
  define s4 where "s4 = (if fld i 21 0xF = 5 \<or> fld i 21 0xF = 6 \<or> fld i 21 0xF = 7 then do_read FLAGS s3 else s3)"
  have 4: "reg_set (bs_written s4) = reg_set (bs_written s)"
    "reg_set (bs_rbw s4) = reg_set (bs_rbw s) \<union> (op_reads i - reg_set (bs_written s))"
    unfolding r by (auto simp: s4_def s3_def s2_def s1_def scan_sets)
  have "s' = (if is_compare i then do_write FLAGS s4
      else (let s5 = do_write (reg_at i 12) s4 in if tst i 0x100000 then do_write FLAGS s5 else s5))"
    "is_compare i \<or> reg_at i 12 \<noteq> 15"
    using assms(1) unfolding scan_dp_def Let_def s1_def [symmetric] s2_def [symmetric] s3_def [symmetric] s4_def [symmetric]
      is_compare_def by (auto split: if_splits)
  then show ?thesis using 4 unfolding w by (auto simp: scan_sets Let_def)
qed

lemma scan_mul_adds:
  assumes "scan_mul op i s = Inr s'" "op = op_of i" "op = AOp_Mul \<or> op = AOp_Mla"
  shows "adds (op_reads i) (writes_of i) s s' \<and> 15 \<notin> writes_of i"
proof -
  have w: "writes_of i = insert (reg_at i 16) (if tst i 0x100000 then {FLAGS} else {})"
    using assms(2,3) by (auto simp: writes_of_def is_dp_def is_load_def)
  have r: "op_reads i = {reg_at i 0, reg_at i 8} \<union> (if op = AOp_Mla then {reg_at i 12} else {})"
    using assms(2,3) by (auto simp: op_reads_def is_dp_def is_load_def)
  show ?thesis using assms(1) unfolding w r scan_mul_def Let_def
    by (auto simp: scan_sets split: if_splits)
qed

lemma scan_load_adds:
  assumes "scan_load op at i s = Inr s'" "op = op_of i" "is_load op"
  shows "adds (op_reads i) (writes_of i) s s' \<and> 15 \<notin> writes_of i \<and>
    tst i 0x100000 \<and> tst i 0x1000000 \<and> \<not> tst i 0x200000"
proof -
  have w: "writes_of i = {reg_at i 12}" and r: "op_reads i = (if reg_at i 16 \<noteq> 15 then {reg_at i 16} else {})"
    using assms(2,3) by (auto simp: writes_of_def op_reads_def is_dp_def is_load_def)
  show ?thesis using assms(1) unfolding w r scan_load_def Let_def
    by (auto simp: scan_sets split: if_splits)
qed

lemma scan_instr_adds:
  assumes "scan_instr at i head tail s0 = Inr s'"
  shows "adds (reads_of i) (writes_of i) s0 s' \<and> harmless i"
proof -
  define s where "s = (if drop_bit 28 i \<noteq> 0xE then do_read FLAGS s0 else s0)"
  have s: "reg_set (bs_written s) = reg_set (bs_written s0)"
    "reg_set (bs_rbw s) = reg_set (bs_rbw s0) \<union> ((if drop_bit 28 i \<noteq> 0xE then {FLAGS} else {}) - reg_set (bs_written s0))"
    by (simp_all add: s_def scan_sets)
  have join: "adds (reads_of i) (writes_of i) s0 s'" if "adds (op_reads i) (writes_of i) s s'"
    using that s by (auto simp: adds_def reads_of_def)
  have c: "drop_bit 28 i \<noteq> 0xF" using assms by (auto simp: scan_instr_def)
  note unf = assms [unfolded scan_instr_def Let_def s_def [symmetric] op_of_def [symmetric]]
  consider (dp) "is_dp (op_of i)" "scan_dp (op_of i) i s = Inr s'"
    | (mrs) "op_of i = AOp_Mrs" "reg_at i 12 \<noteq> 15" "s' = do_write (reg_at i 12) s"
    | (clz) "op_of i = AOp_Clz" "reg_at i 12 \<noteq> 15" "s' = do_write (reg_at i 12) (do_read (reg_at i 0) s)"
    | (mul) "op_of i = AOp_Mul \<or> op_of i = AOp_Mla" "scan_mul (op_of i) i s = Inr s'"
    | (load) "is_load (op_of i)" "scan_load (op_of i) at i s = Inr s'"
    | (b) "op_of i = AOp_B" "s' = s"
    using unf c by (cases "op_of i") (auto simp: is_dp_def is_load_def split: if_splits)
  then show ?thesis
  proof cases
    case dp
    then show ?thesis using scan_dp_adds [OF dp(2)] join c by (auto simp: harmless_def)
  next
    case mul
    then show ?thesis using scan_mul_adds [OF mul(2)] join c by (auto simp: harmless_def)
  next
    case load
    then show ?thesis using scan_load_adds [OF load(2)] join c by (auto simp: harmless_def)
  next
    case mrs
    then have w: "writes_of i = {reg_at i 12}" "op_reads i = {}"
      by (auto simp: writes_of_def op_reads_def is_dp_def is_load_def)
    then show ?thesis using mrs c join by (auto simp: harmless_def scan_sets)
  next
    case clz
    then have w: "writes_of i = {reg_at i 12}" "op_reads i = {reg_at i 0}"
      by (auto simp: writes_of_def op_reads_def is_dp_def is_load_def)
    then show ?thesis using clz c join by (auto simp: harmless_def scan_sets)
  next
    case b
    then have w: "writes_of i = {}" "op_reads i = {}"
      by (auto simp: writes_of_def op_reads_def is_dp_def is_load_def)
    then show ?thesis using b c join by (auto simp: harmless_def scan_sets)
  qed
qed

section \<open>The body\<close>

text \<open>Among the first \<open>k\<close> instructions: the registers written, and those read before.\<close>

definition wrote :: "u32 list \<Rightarrow> nat set" where
  "wrote xs = (\<Union>i\<in>set xs. writes_of i)"

fun read_first :: "u32 list \<Rightarrow> nat set" where
  "read_first [] = {}"
| "read_first (i # xs) = reads_of i \<union> (read_first xs - writes_of i)"

lemma scan_body_adds:
  assumes "scan_body fetch head tail as s = Inr s'"
  shows "\<exists>xs. map fetch as = map Some xs \<and> list_all harmless xs \<and> adds (read_first xs) (wrote xs) s s'"
  using assms
proof (induction as arbitrary: s)
  case Nil
  then show ?case by (intro exI [of _ "[]"]) (simp add: adds_def wrote_def)
next
  case (Cons a as)
  then obtain i s1 where i: "fetch a = Some i" "scan_instr a i head tail s = Inr s1" "scan_body fetch head tail as s1 = Inr s'"
    by (auto split: option.splits sum.splits)
  obtain xs where "map fetch as = map Some xs" "list_all harmless xs" "adds (read_first xs) (wrote xs) s1 s'"
    using Cons.IH [OF i(3)] by blast
  then show ?case using scan_instr_adds [OF i(2)] i(1)
    by (intro exI [of _ "i # xs"]) (auto simp: adds_def wrote_def)
qed

lemma judge_body:
  assumes "judge fetch pc = Inr (head, tail, loads)"
  obtains xs where "map fetch (body_addrs head tail) = map Some xs" "list_all harmless xs"
    "wrote xs \<inter> read_first xs = {}" "loads \<noteq> []" "xs \<noteq> []"
proof -
  obtain s where s: "scan_body fetch head tail (body_addrs head tail) new_scan = Inr s" "bs_written s AND bs_rbw s = 0"
    "loads = bs_loads s" "loads \<noteq> []"
    using assms by (auto simp: judge_def split: sum.splits if_splits)
  obtain xs where xs: "map fetch (body_addrs head tail) = map Some xs" "list_all harmless xs" "adds (read_first xs) (wrote xs) new_scan s"
    using scan_body_adds [OF s(1)] by blast
  have "reg_set (bs_written s) = wrote xs" "reg_set (bs_rbw s) = read_first xs"
    using xs(3) by (simp_all add: adds_def new_scan_def reg_set_def)
  moreover have "\<not> (bit (bs_written s) r \<and> bit (bs_rbw s) r)" for r
    using s(2) by (metis bit_0_eq bit_and_iff bot_apply bot_bool_def)
  ultimately have "wrote xs \<inter> read_first xs = {}" by (auto simp: reg_set_def)
  moreover have "xs \<noteq> []"
  proof
    assume "xs = []"
    then have "s = new_scan" using s(1) xs(1) by simp
    then show False using s(3,4) by (simp add: new_scan_def)
  qed
  ultimately show thesis using that xs s(4) by blast
qed

text \<open>A second pass over such a body changes nothing, when every instruction's results are determined
  by what it reads.\<close>

lemma pass_outside:
  assumes "\<And>i \<rho> r. i \<in> set xs \<Longrightarrow> r \<notin> writes_of i \<Longrightarrow> sem i \<rho> r = \<rho> r" "r \<notin> wrote xs"
  shows "fold sem xs \<rho> r = \<rho> r"
  using assms
proof (induction xs arbitrary: \<rho>)
  case (Cons i xs)
  then have "fold sem xs (sem i \<rho>) r = sem i \<rho> r" by (auto simp: wrote_def)
  then show ?case using Cons.prems by (simp add: wrote_def)
qed simp

lemma pass_agrees:
  assumes sem: "\<And>i \<rho> r. i \<in> set xs \<Longrightarrow> r \<notin> writes_of i \<Longrightarrow> sem i \<rho> r = \<rho> r"
    "\<And>i \<rho> \<rho>' r. i \<in> set xs \<Longrightarrow> r \<in> writes_of i \<Longrightarrow> \<forall>q\<in>reads_of i. \<rho> q = \<rho>' q \<Longrightarrow> sem i \<rho> r = sem i \<rho>' r"
    and agree: "\<And>r. r \<in> read_first xs \<or> r \<notin> wrote xs \<Longrightarrow> \<rho> r = \<rho>' r"
  shows "fold sem xs \<rho> = fold sem xs \<rho>'"
  using assms
proof (induction xs arbitrary: \<rho> \<rho>')
  case (Cons i xs)
  have "sem i \<rho> r = sem i \<rho>' r" if "r \<in> read_first xs \<or> r \<notin> wrote xs" for r
  proof (cases "r \<in> writes_of i")
    case True
    then show ?thesis using Cons.prems by (intro Cons.prems(2)) auto
  next
    case False
    then have "\<rho> r = \<rho>' r" using that by (intro Cons.prems(3)) (auto simp: wrote_def)
    then show ?thesis using False Cons.prems(1) by simp
  qed
  then show ?case using Cons.IH [of "sem i \<rho>" "sem i \<rho>'"] Cons.prems(1,2) by simp
qed (simp add: fun_eq_iff wrote_def)

section \<open>A verdict depends on its body only\<close>

lemma target_aligned: "4 dvd (at - branch_target at i)"
proof -
  have "take_bit 2 (signed_drop_bit 6 (push_bit 8 i) :: u32) = 0"
    by (rule bit_eqI) (auto simp: bit_take_bit_iff bit_signed_drop_bit_iff bit_push_bit_iff)
  then have "4 dvd (signed_drop_bit 6 (push_bit 8 i) :: u32)" by (simp add: take_bit_eq_0_iff)
  moreover have "4 dvd (8 :: u32)" by (rule dvdI [of _ _ 2]) simp
  ultimately have "4 dvd (8 + signed_drop_bit 6 (push_bit 8 i) :: u32)" by (rule dvd_add [rotated])
  then have "4 dvd - (8 + signed_drop_bit 6 (push_bit 8 i) :: u32)" by (rule dvd_minus_iff [THEN iffD2])
  moreover have "at - branch_target at i = - (8 + signed_drop_bit 6 (push_bit 8 i))" by (simp add: branch_target_def)
  ultimately show ?thesis by metis
qed

lemma unat_dvd4: "4 dvd (x :: u32) \<Longrightarrow> 4 dvd unat x"
proof -
  assume "4 dvd x"
  then have "take_bit 2 x = 0" by (simp add: take_bit_eq_0_iff)
  then have "take_bit 2 (unat x) = 0" by (metis unsigned_0 unsigned_take_bit_eq)
  then show ?thesis by (simp add: take_bit_eq_0_iff)
qed

lemma find_local:
  assumes "find_back_edge m0 pc ks = Inr (head, tail)" "sorted ks"
  shows "\<exists>k\<in>set ks. tail = pc + of_nat (4 * k) \<and> head \<le> pc \<and> pc - head \<le> 64 \<and> 4 dvd (tail - head) \<and>
    (\<forall>m. (\<forall>j\<le>k. m (pc + of_nat (4 * j)) = m0 (pc + of_nat (4 * j))) \<longrightarrow> find_back_edge m pc ks = Inr (head, tail))"
  using assms
proof (induction ks)
  case (Cons k ks)
  let ?at = "pc + of_nat (4 * k)"
  obtain i where i: "m0 ?at = Some i" "drop_bit 28 i \<noteq> 0xF" using Cons.prems(1) by (auto simp: Let_def split: option.splits if_splits)
  show ?case
  proof (cases "classify_arm (arm_index i) = AOp_B \<and> branch_target ?at i \<le> pc \<and> pc - branch_target ?at i \<le> 64")
    case True
    then have "head = branch_target ?at i" "tail = ?at" using Cons.prems(1) i by (auto simp: Let_def MAX_BODY_def)
    then show ?thesis using True i target_aligned [of ?at i] by (intro bexI [of _ k]) (auto simp: Let_def MAX_BODY_def)
  next
    case False
    have step: "find_back_edge m pc (k # ks) = find_back_edge m pc ks" if "m ?at = m0 ?at" for m
      using False i that by (auto simp: Let_def MAX_BODY_def)
    have "find_back_edge m0 pc ks = Inr (head, tail)" using Cons.prems(1) step [of m0] by simp
    then obtain q where q: "q \<in> set ks" "tail = pc + of_nat (4 * q)" "head \<le> pc" "pc - head \<le> 64" "4 dvd (tail - head)"
      "\<forall>m. (\<forall>j\<le>q. m (pc + of_nat (4 * j)) = m0 (pc + of_nat (4 * j))) \<longrightarrow> find_back_edge m pc ks = Inr (head, tail)"
      using Cons.IH Cons.prems(2) by auto
    moreover have "k \<le> q" using q(1) Cons.prems(2) by simp
    ultimately show ?thesis using step by (intro bexI [of _ q]) auto
  qed
qed simp

lemma scan_body_local:
  "(\<And>a. a \<in> set as \<Longrightarrow> m a = m0 a) \<Longrightarrow> scan_body m head tail as s = scan_body m0 head tail as s"
  by (induction as arbitrary: s) (auto split: option.split sum.split)

lemma judge_local:
  assumes "judge m0 pc = Inr (head, tail, loads)" "\<And>a. a \<in> set (body_addrs head tail) \<Longrightarrow> m a = m0 a"
  shows "judge m pc = Inr (head, tail, loads)"
proof -
  have f: "find_back_edge m0 pc [0..<MAX_SEARCH] = Inr (head, tail)"
    using assms(1) by (auto simp: judge_def split: sum.splits if_splits)
  obtain k where k: "k < 16" "tail = pc + of_nat (4 * k)" "head \<le> pc" "pc - head \<le> 64" "4 dvd (tail - head)"
    "\<forall>m. (\<forall>j\<le>k. m (pc + of_nat (4 * j)) = m0 (pc + of_nat (4 * j))) \<longrightarrow>
      find_back_edge m pc [0..<MAX_SEARCH] = Inr (head, tail)"
    using find_local [OF f] by (auto simp: MAX_SEARCH_def)
  obtain xs where xs: "map m0 (body_addrs head tail) = map Some xs" "xs \<noteq> []" by (rule judge_body [OF assms(1)])
  then have le: "head \<le> tail" by (cases "tail < head") (auto simp: body_addrs_def)
  have "4 dvd (pc - head)"
  proof -
    have "pc - head = (tail - head) - 4 * of_nat k" using k(2) by simp
    moreover have "4 dvd (tail - head) - 4 * of_nat k" by (rule dvd_diff [OF k(5) dvd_triv_left])
    ultimately show ?thesis by metis
  qed
  then have "4 dvd unat (pc - head)" by (rule unat_dvd4)
  then obtain q where q: "unat (pc - head) = 4 * q" by blast
  have q16: "q \<le> 16" using k(4) q by (simp add: word_le_nat_alt)
  have ph: "pc = head + of_nat (4 * q)" using q by (metis add_diff_cancel_left' diff_add_cancel of_nat_unat add.commute ucast_id)
  have len: "unat (drop_bit 2 (tail - head)) = q + k"
  proof -
    have "tail - head = of_nat (4 * (q + k))" using ph k(2) by (simp add: algebra_simps)
    moreover have "4 * (q + k) < 2 ^ 32" using q16 k(1) by simp
    ultimately have "unat (tail - head) = 4 * (q + k)" using unat_small by metis
    then show ?thesis unfolding unat_drop_bit_eq by (simp add: drop_bit_eq_div)
  qed
  have "pc + of_nat (4 * j) \<in> set (body_addrs head tail)" if "j \<le> k" for j
  proof -
    have "pc + of_nat (4 * j) = head + of_nat (4 * (q + j))" using ph by (simp add: algebra_simps)
    moreover have "q + j \<in> set [0..<q + k + 1]" using that by auto
    ultimately have "pc + of_nat (4 * j) \<in> (\<lambda>n. head + of_nat (4 * n)) ` set [0..<q + k + 1]" by (rule image_eqI)
    then show ?thesis using le unfolding body_addrs_def len by (simp only: not_less if_not_P set_map)
  qed
  then have "find_back_edge m pc [0..<MAX_SEARCH] = Inr (head, tail)" using k(6) assms(2) by blast
  moreover have "scan_body m head tail (body_addrs head tail) new_scan = scan_body m0 head tail (body_addrs head tail) new_scan"
    by (rule scan_body_local) (rule assms(2))
  ultimately have "judge m pc = judge m0 pc" using f by (simp only: judge_def sum.case prod.case)
  then show ?thesis using assms(1) by simp
qed

section \<open>The query\<close>

text \<open>The states any sequence of queries, over whatever processors and memories, reaches.\<close>

inductive il_reachable :: "idle_state \<Rightarrow> bool" where
  start: "il_reachable new_idle"
| query: "il_reachable s \<Longrightarrow> in_idle_loop c h ports s = (b, t) \<Longrightarrow> il_reachable t"
| drop: "il_reachable s \<Longrightarrow> il_reachable (invalidate_idle_loops s)"

definition from_judge :: "verdict \<Rightarrow> bool" where
  "from_judge v \<longleftrightarrow> (v_valid v \<and> v_skippable v \<longrightarrow>
     (\<exists>m0. judge m0 (v_pc v) = Inr (v_head v, v_tail v, v_loads v) \<and>
           v_checksum v = body_checksum m0 (v_head v) (v_tail v)))"

definition idle_inv :: "idle_state \<Rightarrow> bool" where
  "idle_inv s \<longleftrightarrow> (\<forall>w k. from_judge (il_cache s w k))"

lemma reject_cache [simp]: "il_cache (reject r s) = il_cache s"
  by (simp add: reject_def)

lemma analyse_cases:
  assumes "analyse m pc v s = (v', t)"
  shows "il_cache t = il_cache s \<and> v_pc v' = pc \<and> v_valid v' \<and>
    (v_skippable v' \<longrightarrow> judge m pc = Inr (v_head v', v_tail v', v_loads v') \<and>
      v_checksum v' = body_checksum m (v_head v') (v_tail v'))"
  using assms by (auto simp: analyse_def Let_def split: sum.splits option.splits)

lemma current_verdict_from:
  assumes "current_verdict m w pc s = (v, t)" "idle_inv s"
  shows "idle_inv t \<and> (v_skippable v \<longrightarrow> (\<exists>m0. judge m0 pc = Inr (v_head v, v_tail v, v_loads v) \<and>
    body_checksum m (v_head v) (v_tail v) = body_checksum m0 (v_head v) (v_tail v)))"
proof -
  define v0 where "v0 = il_cache s w (cache_slot pc)"
  have j0: "from_judge v0" using assms(2) by (simp add: idle_inv_def v0_def)
  note unf = assms(1) [unfolded current_verdict_def Let_def, folded v0_def]
  show ?thesis
  proof (cases "v_valid v0 \<and> v_pc v0 = pc \<and>
      (v_skippable v0 \<longrightarrow> body_checksum m (v_head v0) (v_tail v0) = v_checksum v0)")
    case True
    then have "v = v0" "t = s" using unf by (auto split: if_splits)
    then show ?thesis using True j0 assms(2) by (auto simp: from_judge_def)
  next
    case False
    obtain v1 u where a: "analyse m pc v0 s = (v1, u)" by (cases "analyse m pc v0 s")
    have "v = v1\<lparr> v_reason := il_reject u \<rparr>"
      "t = u\<lparr> il_cache := (il_cache u)(w := (il_cache u w)(cache_slot pc := v)) \<rparr>"
      using unf False a by (auto split: if_splits)
    then show ?thesis using analyse_cases [OF a] assms(2) by (auto simp: idle_inv_def from_judge_def)
  qed
qed

lemma in_idle_loop_verdict:
  assumes "in_idle_loop c h ports s = (b, t)" "idle_inv s"
  shows "idle_inv t \<and> (b \<longrightarrow> \<not> thumb c \<and> (\<exists>m0 head tail loads. judge m0 (R c 15 - 8) = Inr (head, tail, loads) \<and>
    body_checksum (il_fetch c h) head tail = body_checksum m0 head tail \<and>
    (\<exists>gx. check_loads c ports loads False = Some gx \<and> (ports = GxstatOnly \<longrightarrow> gx))))"
proof -
  define s1 where "s1 = s\<lparr> il_queries := il_queries s + 1, il_reject := RNone \<rparr>"
  have inv1: "idle_inv s1" using assms(2) by (simp add: s1_def idle_inv_def)
  obtain v s2 where v: "current_verdict (il_fetch c h) (which c) (R c 15 - 8) s1 = (v, s2)" by fastforce
  note cv = current_verdict_from [OF v inv1]
  note unf = assms(1) [unfolded in_idle_loop_def Let_def, folded s1_def, unfolded v, simplified]
  have "idle_inv t" using unf cv inv1 by (auto simp: idle_inv_def split: if_splits option.splits)
  moreover have "\<not> thumb c \<and> v_skippable v \<and> (\<exists>gx. check_loads c ports (v_loads v) False = Some gx \<and> (ports = GxstatOnly \<longrightarrow> gx))"
    if b using unf that by (auto split: if_splits option.splits)
  ultimately show ?thesis using cv by blast
qed

lemma il_reachable_inv:
  assumes "il_reachable s"
  shows "idle_inv s"
  using assms
proof induction
  case start
  show ?case by (simp add: idle_inv_def from_judge_def new_idle_def new_verdict_def)
next
  case (query s c h ports b t)
  then show ?case using in_idle_loop_verdict by blast
next
  case (drop s)
  show ?case by (simp add: idle_inv_def from_judge_def invalidate_idle_loops_def)
qed

lemma check_loads_safe:
  "check_loads c ports ls g = Some gx \<longleftrightarrow>
     (\<forall>l\<in>set ls. fst (safe_poll_address c (load_address c l) ports)) \<and>
     (gx \<longleftrightarrow> g \<or> (\<exists>l\<in>set ls. snd (safe_poll_address c (load_address c l) ports)))"
  by (induction ls arbitrary: g) (auto split: prod.split)

section \<open>What the checksum notices\<close>

lemma checksum_step_inj:
  assumes "(a XOR i) * 16777619 = (b XOR j) * (16777619 :: u32)"
  shows "a XOR i = b XOR j"
proof -
  have "16777619 * 899433627 = (1 :: u32)" by simp
  then have inv: "x * 16777619 * 899433627 = x" for x :: u32 by (simp only: mult.assoc mult_1_right)
  have "(a XOR i) * 16777619 * 899433627 = (b XOR j) * 16777619 * 899433627"
    by (rule arg_cong [OF assms])
  then show ?thesis by (simp only: inv)
qed

lemma xor_inj: "a XOR i = b XOR i \<Longrightarrow> a = (b :: u32)"
  by (metis xor.assoc xor_self_eq xor.right_neutral)

lemma sum_apart:
  assumes "\<And>a. a \<in> set as \<Longrightarrow> m a = m0 a" "sum_words m as x = Some s" "sum_words m0 as y = Some t" "x \<noteq> y"
  shows "s \<noteq> t"
  using assms
proof (induction as arbitrary: x y)
  case (Cons a as)
  obtain i where i: "m a = Some i" "m0 a = Some i" using Cons.prems by (auto split: option.splits)
  have "(x XOR i) * 16777619 \<noteq> (y XOR i) * 16777619"
    using checksum_step_inj xor_inj Cons.prems(4) by metis
  then show ?case using Cons.IH [of "(x XOR i) * 16777619" "(y XOR i) * 16777619"] Cons.prems(1-3) i by simp
qed simp

lemma sum_sees_change:
  assumes "distinct as" "a \<in> set as" "m a \<noteq> m0 a" "\<And>b. b \<noteq> a \<Longrightarrow> m b = m0 b"
    "sum_words m as x = Some s" "sum_words m0 as x = Some t"
  shows "s \<noteq> t"
  using assms
proof (induction as arbitrary: x)
  case (Cons c as)
  show ?case
  proof (cases "c = a")
    case False
    then show ?thesis using Cons by (auto split: option.splits)
  next
    case True
    obtain i j where ij: "m a = Some i" "m0 a = Some j" using Cons.prems(5,6) True by (auto split: option.splits)
    then have "i \<noteq> j" using Cons.prems(3) by simp
    then have "(x XOR i) * 16777619 \<noteq> (x XOR j) * 16777619"
      using checksum_step_inj xor_inj by (metis xor.commute)
    then show ?thesis using Cons.prems True ij
      by (intro sum_apart [of as m m0 "(x XOR i) * 16777619" s "(x XOR j) * 16777619" t]) (auto, metis)
  qed
qed simp

lemma distinct_body: "distinct (body_addrs head tail)"
proof -
  have "k = j" if "k < unat (drop_bit 2 (tail - head)) + 1" "j < unat (drop_bit 2 (tail - head)) + 1"
    "head + of_nat (4 * k) = head + of_nat (4 * j)" for k j
  proof -
    have u: "unat (drop_bit 2 (tail - head)) = unat (tail - head) div 4" unfolding unat_drop_bit_eq by (simp add: drop_bit_eq_div)
    have "4 * k < 2 ^ 32" "4 * j < 2 ^ 32" using that(1,2) unat_lt32 [of "tail - head"] unfolding u by linarith+
    moreover have "(of_nat (4 * k) :: u32) = of_nat (4 * j)" using that(3) by (metis add_left_cancel)
    ultimately show ?thesis using unat_small by (metis mult_left_cancel zero_neq_numeral)
  qed
  then have "inj_on (\<lambda>k. head + of_nat (4 * k)) (set [0..<unat (drop_bit 2 (tail - head)) + 1])"
    by (intro inj_onI) (simp only: atLeastLessThan_upt [symmetric] atLeastLessThan_iff)
  then show ?thesis unfolding body_addrs_def by (simp only: distinct_map distinct_upt if_split distinct.simps simp_thms)
qed

lemma sum_readable: "map m as = map Some xs \<Longrightarrow> \<exists>s. sum_words m as x = Some s"
  by (induction as arbitrary: xs x) (auto simp: Cons_eq_map_conv map_eq_Cons_conv)

lemma sum_readable': "(\<And>a. a \<in> set as \<Longrightarrow> m a \<noteq> None) \<Longrightarrow> \<exists>s. sum_words m as x = Some s"
proof (induction as arbitrary: x)
  case (Cons a as)
  then obtain i where "m a = Some i" by fastforce
  then show ?case using Cons by simp
qed simp

lemma checksum_sees_change:
  assumes "judge m0 pc = Inr (head, tail, loads)" "a \<in> set (body_addrs head tail)" "m a = Some i" "m0 a \<noteq> Some i"
    "\<And>b. b \<noteq> a \<Longrightarrow> m b = m0 b"
  shows "body_checksum m head tail \<noteq> body_checksum m0 head tail \<or> body_checksum m head tail = 1"
proof -
  obtain xs where xs: "map m0 (body_addrs head tail) = map Some xs" by (rule judge_body [OF assms(1)])
  obtain s where s: "sum_words m0 (body_addrs head tail) 0x9E3779B9 = Some s" using sum_readable [OF xs] by blast
  have "m0 b \<noteq> None" if "b \<in> set (body_addrs head tail)" for b
    using xs that by (metis (no_types, lifting) image_eqI list.set_map imageE option.distinct(1))
  then have "m b \<noteq> None" if "b \<in> set (body_addrs head tail)" for b
    using that assms(3,5) by (cases "b = a") auto
  then obtain t where t: "sum_words m (body_addrs head tail) 0x9E3779B9 = Some t" using sum_readable' by metis
  have "t \<noteq> s" using distinct_body assms(2) _ assms(5) t s
    by (rule sum_sees_change) (use assms(3,4) in auto)
  then show ?thesis using s t by (auto simp: body_checksum_def)
qed

end
