(* ===== verification/IdleSound.thy ===== *)
theory IdleSound imports IdleSpec Sample begin

text \<open>
  The properties of the idle-loop detector: what an accepted body does, what a positive answer
  rests on, which patches its checksum notices, and a body it accepts although a register is
  carried from one iteration to the next.
\<close>

section \<open>A sample loop\<close>

text \<open>\<^verbatim>\<open>ldr r1, [r0]; cmp r1, #0; beq .-8\<close> at \<^verbatim>\<open>0x02000000\<close>.\<close>

definition poll_words :: "u32 list" where
  "poll_words = [0xE5901000, 0xE3510000, 0x0AFFFFFC]"

definition poll_code :: "u32 \<Rightarrow> u32 option" where
  "poll_code a = (if a = 0x02000000 then Some 0xE5901000 else if a = 0x02000004 then Some 0xE3510000
     else if a = 0x02000008 then Some 0x0AFFFFFC else None)"

text \<open>What its instructions do, over a memory that reads zero everywhere but at 4.\<close>

definition poll_sem :: "u32 \<Rightarrow> (nat \<Rightarrow> u32) \<Rightarrow> nat \<Rightarrow> u32" where
  "poll_sem i \<rho> =
     (if i = 0xE5901000 then \<rho>(1 := (if \<rho> 0 = 4 then 9 else 0))
      else if i = 0xE3510000 then \<rho>(FLAGS := (if \<rho> 1 = 0 then 1 else 0)) else \<rho>)"

lemma poll_judged: "judge poll_code 0x02000000 = Inr (0x02000000, 0x02000008, [\<lparr> ls_base = 0, ls_offset = 0, ls_addr = 0 \<rparr>])"
  by code_simp

lemma poll_body: "body_addrs 0x02000000 0x02000008 = [0x02000000, 0x02000004, 0x02000008]"
  by code_simp

lemma poll_sets:
  "writes_of 0xE5901000 = {1}" "writes_of 0xE3510000 = {FLAGS}" "writes_of 0x0AFFFFFC = {}"
  "0 \<in> reads_of 0xE5901000" "1 \<in> reads_of 0xE3510000"
proof -
  have o: "op_of 0xE5901000 = AOp_LdrStrImm" "op_of 0xE3510000 = AOp_DpImm" "op_of 0x0AFFFFFC = AOp_B" by code_simp+
  have r: "reg_at 0xE5901000 12 = 1" "reg_at 0xE5901000 16 = 0" "reg_at 0xE3510000 16 = 1" "is_compare 0xE3510000"
    "fld (0xE3510000 :: u32) 21 0xF = 0xA" by code_simp+
  show "writes_of 0xE5901000 = {1}" "writes_of 0xE3510000 = {FLAGS}" "writes_of 0x0AFFFFFC = {}"
    "0 \<in> reads_of 0xE5901000" "1 \<in> reads_of 0xE3510000"
    using r by (auto simp: writes_of_def reads_of_def op_reads_def o is_dp_def is_load_def)
qed

section \<open>An accepted body\<close>

text \<open>A body the detector accepts, run straight through over an unchanging memory, leaves
  after any number of passes the registers that one pass leaves, and makes no store, no
  writeback and no computed jump.  \<open>sem\<close> gives what each instruction does to the registers and
  flags: it writes just \<open>writes_of\<close> and its results depend on none but \<open>reads_of\<close>, which instructions that
  are not executed conditionally do (\<open>conditional_write_accepted\<close> below shows the others).\<close>

theorem idle_body_repeats:
  assumes "judge fetch pc = Inr (head, tail, loads)"
    "map fetch (body_addrs head tail) = map Some xs"
    "\<forall>i\<in>set xs. \<forall>\<rho> r. r \<notin> writes_of i \<longrightarrow> sem i \<rho> r = \<rho> r"
    "\<forall>i\<in>set xs. \<forall>\<rho> \<rho>' r. r \<in> writes_of i \<longrightarrow> (\<forall>q\<in>reads_of i. \<rho> q = \<rho>' q) \<longrightarrow> sem i \<rho> r = sem i \<rho>' r"
  shows "(fold sem xs ^^ Suc n) \<rho> = fold sem xs \<rho> \<and> list_all harmless xs"
proof -
  obtain ys where ys: "map fetch (body_addrs head tail) = map Some ys" "list_all harmless ys" "wrote ys \<inter> read_first ys = {}"
    by (rule judge_body [OF assms(1)])
  have "ys = xs" using ys(1) assms(2) by (metis inj_Some inj_map_eq_map)
  note ys = ys [unfolded this]
  have once: "fold sem xs (fold sem xs \<rho>) = fold sem xs \<rho>"
  proof (rule pass_agrees)
    fix r assume "r \<in> read_first xs \<or> r \<notin> wrote xs"
    then have "r \<notin> wrote xs" using ys(3) by blast
    then show "fold sem xs \<rho> r = \<rho> r" using assms(3) by (intro pass_outside) auto
  qed (use assms(3,4) in blast)+
  have "(fold sem xs ^^ Suc n) \<rho> = fold sem xs \<rho>"
  proof (induction n)
    case (Suc n)
    have "(fold sem xs ^^ Suc (Suc n)) \<rho> = fold sem xs ((fold sem xs ^^ Suc n) \<rho>)" by (simp only: funpow.simps comp_apply)
    then show ?case using Suc once by simp
  qed simp
  then show ?thesis using ys(2) by blast
qed

theorem idle_body_repeats_witness:
  "(fold poll_sem poll_words ^^ Suc 9) (\<lambda>r. 4) = fold poll_sem poll_words (\<lambda>r. 4) \<and> list_all harmless poll_words"
proof (rule idle_body_repeats [OF poll_judged])
  show "map poll_code (body_addrs 0x02000000 0x02000008) = map Some poll_words"
    unfolding poll_body by (simp add: poll_code_def poll_words_def)
  show "\<forall>i\<in>set poll_words. \<forall>\<rho> r. r \<notin> writes_of i \<longrightarrow> poll_sem i \<rho> r = \<rho> r"
    by (auto simp: poll_words_def poll_sets poll_sem_def)
  show "\<forall>i\<in>set poll_words. \<forall>\<rho> \<rho>' r. r \<in> writes_of i \<longrightarrow> (\<forall>q\<in>reads_of i. \<rho> q = \<rho>' q) \<longrightarrow> poll_sem i \<rho> r = poll_sem i \<rho>' r"
    using poll_sets(4,5) by (auto simp: poll_words_def poll_sets(1-3) poll_sem_def)
qed

section \<open>A positive answer\<close>

text \<open>Whatever queries came before, a processor said to idle runs ARM code; the loop at its pc
  was accepted over some memory whose body reads with the same checksum, and when the body is the
  same the loop would be accepted now; and every address the body loads from may be polled, one of
  them the geometry status when only that counts.\<close>

theorem idle_answer_justified:
  assumes "il_reachable s" "in_idle_loop c h ports s = (True, t)"
  shows "\<not> thumb c \<and> (\<exists>m0 head tail loads.
    judge m0 (R c 15 - 8) = Inr (head, tail, loads) \<and>
    body_checksum (il_fetch c h) head tail = body_checksum m0 head tail \<and>
    ((\<forall>a\<in>set (body_addrs head tail). il_fetch c h a = m0 a) \<longrightarrow> judge (il_fetch c h) (R c 15 - 8) = Inr (head, tail, loads)) \<and>
    (\<forall>l\<in>set loads. fst (safe_poll_address c (load_address c l) ports)) \<and>
    (ports = GxstatOnly \<longrightarrow> (\<exists>l\<in>set loads. snd (safe_poll_address c (load_address c l) ports))))"
proof -
  obtain m0 head tail loads gx where v: "\<not> thumb c" "judge m0 (R c 15 - 8) = Inr (head, tail, loads)"
    "body_checksum (il_fetch c h) head tail = body_checksum m0 head tail"
    "check_loads c ports loads False = Some gx" "ports = GxstatOnly \<longrightarrow> gx"
    using in_idle_loop_verdict [OF assms(2) il_reachable_inv [OF assms(1)]] by blast
  have "judge (il_fetch c h) (R c 15 - 8) = Inr (head, tail, loads)"
    if "\<forall>a\<in>set (body_addrs head tail). il_fetch c h a = m0 a" using that by (intro judge_local [OF v(2)]) blast
  then show ?thesis using v(1-3,5) v(4) [unfolded check_loads_safe] by blast
qed

text \<open>The sample loop in the main memory of a processor, the word it polls at \<^verbatim>\<open>0x02000010\<close>.\<close>

definition poll_cpu :: cpu_ctx where
  "poll_cpu = (sample_cpu 0x1F ((\<lambda>_. 0)(15 := 0x02000008, 0 := 0x02000010)))\<lparr> page_table := \<lambda>p. if p = 0x4000 then 1 else 0 \<rparr>"

definition poll_host :: "u64 \<Rightarrow> u8" where
  "poll_host p = (if p = 0x02000005 then 0x10 else if p = 0x02000006 then 0x90 else if p = 0x02000007 then 0xE5
     else if p = 0x0200000A then 0x51 else if p = 0x0200000B then 0xE3
     else if p = 0x0200000C then 0xFC else if p = 0x0200000D then 0xFF else if p = 0x0200000E then 0xFF
     else if p = 0x0200000F then 0x0A else 0)"

lemma poll_answer: "in_idle_loop poll_cpu poll_host PortsAll new_idle =
    (True, snd (in_idle_loop poll_cpu poll_host PortsAll new_idle))"
proof -
  have "fst (in_idle_loop poll_cpu poll_host PortsAll new_idle)" by code_simp
  then show ?thesis by (simp add: prod_eq_iff)
qed

theorem idle_answer_justified_witness:
  "\<exists>m0 head tail loads. judge m0 (R poll_cpu 15 - 8) = Inr (head, tail, loads) \<and>
     body_checksum (il_fetch poll_cpu poll_host) head tail = body_checksum m0 head tail"
  using idle_answer_justified [OF il_reachable.start poll_answer] by blast

section \<open>A patched body\<close>

text \<open>C11: when one word of an accepted body changes, its checksum changes, unless the new sum is
  the one that stands for zero; so the next query analyses the loop again.\<close>

theorem idle_patch_noticed:
  assumes "judge m0 pc = Inr (head, tail, loads)" "a \<in> set (body_addrs head tail)" "m a = Some i" "m0 a \<noteq> Some i"
    "\<forall>b. b \<noteq> a \<longrightarrow> m b = m0 b"
  shows "body_checksum m head tail \<noteq> body_checksum m0 head tail \<or> body_checksum m head tail = 1"
  by (rule checksum_sees_change [where m = m and a = a and i = i]) (use assms in auto)

lemma patched_sum: "body_checksum (poll_code(0x02000004 := Some 0xE3510001)) 0x02000000 0x02000008 \<noteq> 1"
  by code_simp

theorem idle_patch_noticed_witness:
  "body_checksum (poll_code(0x02000004 := Some 0xE3510001)) 0x02000000 0x02000008 \<noteq>
   body_checksum poll_code 0x02000000 0x02000008"
proof -
  let ?m = "poll_code(0x02000004 := Some 0xE3510001)"
  have "poll_code 0x02000004 \<noteq> Some 0xE3510001" by code_simp
  then have "body_checksum ?m 0x02000000 0x02000008 \<noteq> body_checksum poll_code 0x02000000 0x02000008 \<or>
      body_checksum ?m 0x02000000 0x02000008 = 1"
    by (intro idle_patch_noticed [OF poll_judged]) (simp_all add: poll_body)
  then show ?thesis using patched_sum by blast
qed

section \<open>A carried register that is accepted\<close>

text \<open>\<^verbatim>\<open>ldr r1, [r0]; cmp r1, #0; movne r2, #0; add r2, r2, #1; cmp r2, #100; bne .-20\<close> counts in
  \<^verbatim>\<open>r2\<close> while the polled word is zero.  The conditional move counts as a write of \<^verbatim>\<open>r2\<close>, so the
  body is accepted, though with the move not taken \<^verbatim>\<open>add\<close> reads what the pass before left.\<close>

definition timeout_code :: "u32 \<Rightarrow> u32 option" where
  "timeout_code a = (if a = 0 then Some 0xE5901000 else if a = 4 then Some 0xE3510000 else if a = 8 then Some 0x13A02000
     else if a = 12 then Some 0xE2822001 else if a = 16 then Some 0xE3520064 else if a = 20 then Some 0x1AFFFFF9 else None)"

lemma conditional_write_accepted:
  "judge timeout_code 0 = Inr (0, 20, [\<lparr> ls_base = 0, ls_offset = 0, ls_addr = 0 \<rparr>])"
  by code_simp

end
