(* ===== verification/CartSave.thy ===== *)
theory CartSave imports Prelude begin

text \<open>
  The save chip of a cartridge (\<^verbatim>\<open>src/core/cart/cart.cpp\<close>): which chip a game has, the three SPI
  chips, the chip that is detected from its first access, the infrared front end and the loading
  of a save file.  \<^verbatim>\<open>sram_\<close> is a list of bytes; \<open>sv_fault\<close>, which the code does not have, records
  that an index was past its end (in C++ the access has no meaning then).  The table of \<^verbatim>\<open>save_list.inc\<close> is the argument \<open>tbl\<close>, a list of codes and types.
\<close>

section \<open>State\<close>

datatype save_type = SNone | EepromTiny | Eeprom | FlashChip | Detect

record save_chip =
  sv_type :: save_type
  sv_ir_cart :: bool
  sv_ir_cmd :: u8
  sv_ir_pos :: u32
  sv_sram :: "u8 list"
  sv_dirty :: bool
  sv_writes :: u32
  sv_pos :: u32
  sv_cmd :: u8
  sv_addr :: u32
  sv_status :: u8
  sv_listed :: bool
  sv_detect :: "u8 list"
  sv_fault :: bool

definition mark_dirty :: "save_chip \<Rightarrow> save_chip" where
  "mark_dirty s = s\<lparr> sv_dirty := True, sv_writes := sv_writes s + 1 \<rparr>"

definition clear_sram_dirty :: "save_chip \<Rightarrow> save_chip" where
  "clear_sram_dirty s = s\<lparr> sv_dirty := False \<rparr>"

section \<open>Which chip\<close>

text \<open>\<^verbatim>\<open>lookup_save_type\<close>: a binary search; \<open>None\<close> is its \<^verbatim>\<open>-1\<close>, also for a listed type that is
  negative as an \<^verbatim>\<open>int\<close>, as the callers only ask for its sign.\<close>

function search_save_type :: "(u32 \<times> u32) list \<Rightarrow> u32 \<Rightarrow> nat \<Rightarrow> nat \<Rightarrow> u32 option" where
  "search_save_type tbl code lo hi =
     (if hi \<le> lo then None
      else
        (let mid = (lo + hi) div 2; e = tbl ! mid in
         if fst e < code then search_save_type tbl code (mid + 1) hi
         else if fst e > code then search_save_type tbl code lo mid
         else if bit (snd e) 31 then None else Some (snd e)))"
  by pat_completeness auto
termination by (relation "measure (\<lambda>(tbl, code, lo, hi). hi - lo)") auto

declare search_save_type.simps [simp del]

definition lookup_save_type :: "(u32 \<times> u32) list \<Rightarrow> u32 \<Rightarrow> u32 option" where
  "lookup_save_type tbl code = search_save_type tbl code 0 (length tbl)"

definition known_game_code :: "(u32 \<times> u32) list \<Rightarrow> u32 \<Rightarrow> bool" where
  "known_game_code tbl code = (lookup_save_type tbl code \<noteq> None)"

definition chip_sizes :: "nat list" where
  "chip_sizes = [0, 512, 8192, 65536, 131072, 262144, 524288, 1048576, 8388608, 16777216, 67108864]"

definition save_type_for :: "(u32 \<times> u32) list \<Rightarrow> u32 \<Rightarrow> save_type \<times> nat" where
  "save_type_for tbl code =
     (let t = (case lookup_save_type tbl code of
                 Some f \<Rightarrow> (if 1 \<le> f \<and> f \<le> 10 then unat f else 3)
               | None \<Rightarrow> 3)
      in (if t = 1 then EepromTiny else if t \<le> 4 then Eeprom else FlashChip, chip_sizes ! t))"

definition save_type_for_size :: "nat \<Rightarrow> save_type" where
  "save_type_for_size bytes =
     (if bytes = 512 then EepromTiny
      else if bytes = 8192 \<or> bytes = 65536 \<or> bytes = 131072 then Eeprom
      else if 262144 \<le> bytes \<and> bytes \<le> 67108864 \<and> and bytes (bytes - 1) = 0 then FlashChip
      else SNone)"

definition set_chip :: "save_type \<Rightarrow> nat \<Rightarrow> save_chip \<Rightarrow> save_chip" where
  "set_chip t bytes s = s\<lparr> sv_type := t, sv_sram := replicate bytes 0xFF \<rparr>"

text \<open>The save chip as the constructor leaves it.\<close>

definition new_save :: "(u32 \<times> u32) list \<Rightarrow> u32 \<Rightarrow> save_chip" where
  "new_save tbl code =
     (let (t, bytes) = save_type_for tbl code; listed = known_game_code tbl code
      in \<lparr> sv_type = (if listed then t else Detect), sv_ir_cart = (code AND 0xFF = 0x49), sv_ir_cmd = 0, sv_ir_pos = 0,
           sv_sram = (if listed then replicate bytes 0xFF else []), sv_dirty = False, sv_writes = 0,
           sv_pos = 0, sv_cmd = 0, sv_addr = 0, sv_status = 0, sv_listed = listed, sv_detect = [], sv_fault = False \<rparr>)"

text \<open>The part of \<^verbatim>\<open>Cart::reset\<close> that concerns the save chip.\<close>

definition save_reset :: "save_chip \<Rightarrow> save_chip" where
  "save_reset s = s\<lparr> sv_pos := 0, sv_cmd := 0, sv_addr := 0, sv_status := 0 \<rparr>"

section \<open>The chips\<close>

definition sram_mask :: "save_chip \<Rightarrow> u32" where
  "sram_mask s = of_nat (length (sv_sram s)) - 1"

text \<open>An access to \<^verbatim>\<open>sram_[i]\<close>.\<close>

definition touch :: "u32 \<Rightarrow> save_chip \<Rightarrow> save_chip" where
  "touch i s = (if unat i < length (sv_sram s) then s else s\<lparr> sv_fault := True \<rparr>)"

definition sram_at :: "u32 \<Rightarrow> save_chip \<Rightarrow> u8" where
  "sram_at i s = sv_sram s ! unat i"

definition sram_put :: "u32 \<Rightarrow> u8 \<Rightarrow> save_chip \<Rightarrow> save_chip" where
  "sram_put i v s = (touch i s)\<lparr> sv_sram := (sv_sram s)[unat i := v] \<rparr>"

definition next_addr :: "save_chip \<Rightarrow> save_chip" where
  "next_addr s = s\<lparr> sv_addr := sv_addr s + 1 \<rparr>"

definition shift_addr :: "u8 \<Rightarrow> save_chip \<Rightarrow> save_chip" where
  "shift_addr v s = s\<lparr> sv_addr := push_bit 8 (sv_addr s) OR ucast v \<rparr>"

definition write_status :: "u8 \<Rightarrow> save_chip \<Rightarrow> save_chip" where
  "write_status v s = (if sv_pos s = 1 then s\<lparr> sv_status := (sv_status s AND 1) OR (v AND 0x0C) \<rparr> else s)"

definition spi_eeprom_tiny :: "u8 \<Rightarrow> save_chip \<Rightarrow> u8 \<times> save_chip" where
  "spi_eeprom_tiny v s =
     (let c = sv_cmd s in
      if c = 0x01 then (0, write_status v s)
      else if c = 0x05 then (sv_status s OR 0xF0, s)
      else if c = 0x02 \<or> c = 0x0A then
        (if sv_pos s < 2 then (0, s\<lparr> sv_addr := ucast v \<rparr>)
         else
           (0, next_addr (if tst (sv_status s) 2
                 then mark_dirty (sram_put ((sv_addr s + (if c = 0x0A then 0x100 else 0)) AND 0x1FF) v s) else s)))
      else if c = 0x03 \<or> c = 0x0B then
        (if sv_pos s < 2 then (0, s\<lparr> sv_addr := ucast v \<rparr>)
         else (let i = (sv_addr s + (if c = 0x0B then 0x100 else 0)) AND 0x1FF in (sram_at i s, next_addr (touch i s))))
      else (0xFF, s))"

definition spi_eeprom :: "u8 \<Rightarrow> save_chip \<Rightarrow> u8 \<times> save_chip" where
  "spi_eeprom v s =
     (let addrsize = (if length (sv_sram s) > 65536 then 3 else 2); c = sv_cmd s in
      if c = 0x01 then (0, write_status v s)
      else if c = 0x05 then (sv_status s, s)
      else if c = 0x02 then
        (if sv_pos s \<le> addrsize then (0, shift_addr v s)
         else (0, next_addr (if tst (sv_status s) 2 then mark_dirty (sram_put (sv_addr s AND sram_mask s) v s) else s)))
      else if c = 0x03 then
        (if sv_pos s \<le> addrsize then (0, shift_addr v s)
         else (let i = sv_addr s AND sram_mask s in (sram_at i s, next_addr (touch i s))))
      else (0xFF, s))"

text \<open>Doubling until the address fits; an empty chip, which would never end, does not occur.\<close>

function grow_to :: "nat \<Rightarrow> nat \<Rightarrow> nat" where
  "grow_to addr bytes = (if bytes = 0 \<or> addr < bytes then bytes else grow_to addr (2 * bytes))"
  by pat_completeness auto
termination by (relation "measure (\<lambda>(addr, bytes). Suc addr - bytes)") auto

declare grow_to.simps [simp del]

definition fit_flash :: "u32 \<Rightarrow> save_chip \<Rightarrow> save_chip" where
  "fit_flash addr s =
     (let n = length (sv_sram s) in
      if unat addr < n \<or> addr \<ge> 0x800000 then s
      else s\<lparr> sv_sram := sv_sram s @ replicate (grow_to (unat addr) n - n) 0xFF \<rparr>)"

text \<open>Erasing: \<open>n\<close> bytes from the address on.\<close>

fun flash_erase :: "nat \<Rightarrow> save_chip \<Rightarrow> save_chip" where
  "flash_erase 0 s = s"
| "flash_erase (Suc n) s = flash_erase n (next_addr (sram_put (sv_addr s AND sram_mask s) 0xFF s))"

definition spi_flash :: "u8 \<Rightarrow> save_chip \<Rightarrow> u8 \<times> save_chip" where
  "spi_flash v s0 =
     (let c = sv_cmd s0;
          addressing = (sv_pos s0 \<le> 3 \<and> c \<in> {0x02, 0x03, 0x0A, 0x0B, 0xD8, 0xDB});
          s = (if addressing
               then (let s1 = shift_addr v s0
                     in if sv_pos s1 = 3 \<and> \<not> sv_listed s1 then fit_flash (sv_addr s1) s1 else s1)
               else s0);
          i = sv_addr s AND sram_mask s; wel = tst (sv_status s) 2
      in if c = 0x05 then (sv_status s, s)
         else if c = 0x02 then
           (0, if addressing then s
               else next_addr (if wel then mark_dirty (sram_put i (if sv_listed s then sram_at i s AND v else v) s) else s))
         else if c = 0x0A then
           (0, if addressing then s else next_addr (if wel then mark_dirty (sram_put i v s) else s))
         else if c = 0x03 then (if addressing then (0, s) else (sram_at i s, next_addr (touch i s)))
         else if c = 0x0B then (if addressing \<or> sv_pos s = 4 then (0, s) else (sram_at i s, next_addr (touch i s)))
         else if c = 0xD8 then (0, if sv_pos s = 3 \<and> wel then mark_dirty (flash_erase 0x10000 s) else s)
         else if c = 0xDB then (0, if sv_pos s = 3 \<and> wel then mark_dirty (flash_erase 0x100 s) else s)
         else (0xFF, s))"

definition spi_detect :: "u8 \<Rightarrow> save_chip \<Rightarrow> u8 \<times> save_chip" where
  "spi_detect v s =
     (let s1 = (if length (sv_detect s) < 0x1000 then s\<lparr> sv_detect := sv_detect s @ [v] \<rparr> else s)
      in (if sv_cmd s1 = 0x05 then sv_status s1 else 0xFF, s1))"

definition spi_chip :: "u8 \<Rightarrow> save_chip \<Rightarrow> u8 \<times> save_chip" where
  "spi_chip v s =
     (case sv_type s of
        EepromTiny \<Rightarrow> spi_eeprom_tiny v s
      | Eeprom \<Rightarrow> spi_eeprom v s
      | FlashChip \<Rightarrow> spi_flash v s
      | Detect \<Rightarrow> spi_detect v s
      | SNone \<Rightarrow> (0xFF, s))"

section \<open>The bus\<close>

text \<open>A byte at the chip, past the infrared front end.\<close>

definition spi_byte :: "u8 \<Rightarrow> save_chip \<Rightarrow> u8 \<times> save_chip" where
  "spi_byte v s =
     (if sv_type s = SNone then (0, s)
      else if sv_pos s = 0 then
        (if v = 0x04 then (0, s\<lparr> sv_status := sv_status s AND NOT 2, sv_pos := sv_pos s + 1 \<rparr>)
         else if v = 0x06 then (0, s\<lparr> sv_status := sv_status s OR 2, sv_pos := sv_pos s + 1 \<rparr>)
         else
           (let s1 = s\<lparr> sv_cmd := v, sv_addr := 0 \<rparr>;
                s2 = (if sv_type s1 = Detect then s1\<lparr> sv_detect := [v] \<rparr> else s1)
            in (0xFF, s2\<lparr> sv_pos := sv_pos s2 + 1 \<rparr>)))
      else (let (ret, s1) = spi_chip v s in (ret, s1\<lparr> sv_pos := sv_pos s1 + 1 \<rparr>)))"

definition spi_transfer :: "u8 \<Rightarrow> save_chip \<Rightarrow> u8 \<times> save_chip" where
  "spi_transfer v s =
     (if sv_ir_cart s then
        (let s1 = s\<lparr> sv_ir_pos := sv_ir_pos s + 1 \<rparr> in
         if sv_ir_pos s = 0 then (0, s1\<lparr> sv_ir_cmd := v \<rparr>)
         else if sv_ir_cmd s1 = 0x08 then (0xAA, s1)
         else if sv_ir_cmd s1 \<noteq> 0 then (0, s1)
         else spi_byte v s1)
      else spi_byte v s)"

definition spi_select :: "save_chip \<Rightarrow> save_chip" where
  "spi_select s = s\<lparr> sv_pos := 0 \<rparr>"

text \<open>The bytes of a transaction given again to the chip it named.\<close>

fun replay :: "u8 list \<Rightarrow> u32 \<Rightarrow> save_chip \<Rightarrow> save_chip" where
  "replay [] i s = s"
| "replay (v # vs) i s = replay vs (i + 1) (snd (spi_chip v (s\<lparr> sv_pos := i \<rparr>)))"

text \<open>The chip a first access of \<open>len\<close> bytes names.\<close>

definition detected :: "u8 \<Rightarrow> u32 \<Rightarrow> (save_type \<times> nat) option" where
  "detected cmd len =
     (if cmd = 0x02 \<or> cmd = 0x03 then
        (if len = 3 then Some (EepromTiny, 512)
         else if len = 4 then Some (Eeprom, 65536)
         else if len = 5 then Some (FlashChip, 524288)
         else if cmd = 0x02 \<and> len > 5 then Some (Eeprom, 65536)
         else None)
      else if cmd = 0x0A \<or> cmd = 0x0B then
        (if len = 5 \<or> cmd = 0x0B \<and> len = 6 then Some (FlashChip, 524288)
         else if len = 3 \<or> cmd = 0x0A then Some (EepromTiny, 512)
         else None)
      else if cmd = 0xD8 \<or> cmd = 0xDB then Some (FlashChip, 524288)
      else None)"

definition detect_release :: "save_chip \<Rightarrow> save_chip" where
  "detect_release s =
     (case sv_detect s of [] \<Rightarrow> s
      | cmd # tx \<Rightarrow>
          (case detected cmd (sv_pos s) of None \<Rightarrow> s\<lparr> sv_detect := [] \<rparr>
           | Some (t, bytes) \<Rightarrow>
               (let s1 = set_chip t bytes (s\<lparr> sv_detect := [] \<rparr>) in
                if cmd = 0x02 \<or> cmd = 0x0A \<or> cmd = 0xD8 \<or> cmd = 0xDB
                then replay tx 1 (s1\<lparr> sv_cmd := cmd, sv_addr := 0 \<rparr>) else s1)))"

definition spi_release :: "save_chip \<Rightarrow> save_chip" where
  "spi_release s =
     (let s1 = (if sv_type s = Detect \<and> sv_pos s > 0 then detect_release s else s)
      in s1\<lparr> sv_pos := 0, sv_ir_pos := 0 \<rparr>)"

section \<open>The save file\<close>

definition dsv_cookie :: "u8 list" where
  "dsv_cookie = [0x7C, 0x2D, 0x44, 0x45, 0x53, 0x4D, 0x55, 0x4D, 0x45, 0x20, 0x53, 0x41, 0x56, 0x45, 0x2D, 0x7C]"

text \<open>The result is \<^verbatim>\<open>fitted\<close> and \<^verbatim>\<open>chip_bytes\<close>.\<close>

definition load_save :: "u8 list \<Rightarrow> save_chip \<Rightarrow> (bool \<times> nat) \<times> save_chip" where
  "load_save data0 s =
     (let n0 = length data0;
          data = (if 122 \<le> n0 \<and> drop (n0 - 16) data0 = dsv_cookie then take (n0 - 122) data0 else data0);
          n = length data;
          t = (if n \<le> 67108864 then save_type_for_size n else SNone)
      in if \<not> sv_listed s \<and> t = SNone then ((False, 0), s)
         else
           (let s1 = (if sv_listed s then s else set_chip t n s) in
            if sv_type s1 = SNone then ((True, 0), s1)
            else
              (let size' = length (sv_sram s1); k = (if n < size' then n else size')
               in ((n = size', size'), s1\<lparr> sv_sram := take k data @ drop k (sv_sram s1) \<rparr>))))"

end
