(* ===== verification/CartRom.thy ===== *)
theory CartRom imports CartSave "HOL-Library.AList" begin

text \<open>
  The retail cartridge (\<^verbatim>\<open>src/core/cart/cart.cpp\<close>, \<^verbatim>\<open>rom_source.cpp\<close>): the image with its padded
  tail and patched pages, KEY1 (Blowfish with the key table of the ARM7 BIOS), the secure area,
  and the ROM commands.  The image is a list of bytes and a page a list of 4096; where its bytes
  come from (a file mapping or memory) makes no difference to the card and is left out.  \<open>bios\<close> is
  the ARM7 BIOS.
\<close>

section \<open>The image\<close>

definition ROM_PAGE :: u32 where "ROM_PAGE = 0x1000"

record rom_source =
  rs_data :: "u8 list"
  rs_mask :: u32
  rs_tail :: "u8 list"
  rs_overlay :: "(u32 \<times> u8 list) list"

definition rs_size :: "rom_source \<Rightarrow> u32" where
  "rs_size r = of_nat (length (rs_data r))"

text \<open>The size rounded up to a power of two; 20 doublings of a page pass the top of a word, after
  which the loop of the code never ends.\<close>

fun pad_size :: "nat \<Rightarrow> u32 \<Rightarrow> u32 \<Rightarrow> u32 option" where
  "pad_size 0 m n = None"
| "pad_size (Suc k) m n = (if n \<le> m then Some m else pad_size k (2 * m) n)"

definition from_memory :: "u8 list \<Rightarrow> rom_source option" where
  "from_memory bytes =
     (let n = of_nat (length bytes) :: u32; rem = unat (n AND (ROM_PAGE - 1)) in
      case pad_size 20 ROM_PAGE n of None \<Rightarrow> None
      | Some m \<Rightarrow>
          Some \<lparr> rs_data = bytes, rs_mask = m - 1,
                 rs_tail = (if rem \<noteq> 0 then drop (length bytes - rem) bytes @ replicate (4096 - rem) 0xFF else []),
                 rs_overlay = [] \<rparr>)"

definition page_unpatched :: "rom_source \<Rightarrow> u32 \<Rightarrow> u8 list" where
  "page_unpatched r p =
     (if p + ROM_PAGE \<le> rs_size r then take 4096 (drop (unat p) (rs_data r))
      else if p < rs_size r then rs_tail r
      else replicate 4096 0xFF)"

definition rom_page_base :: "rom_source \<Rightarrow> u32 \<Rightarrow> u32" where
  "rom_page_base r addr = addr AND rs_mask r AND NOT (ROM_PAGE - 1)"

definition rs_page :: "rom_source \<Rightarrow> u32 \<Rightarrow> u8 list" where
  "rs_page r addr =
     (let p = rom_page_base r addr in
      case map_of (rs_overlay r) p of Some b \<Rightarrow> b | None \<Rightarrow> page_unpatched r p)"

text \<open>A page copied into the overlay unless it is there, and what \<open>f\<close> makes of its bytes.\<close>

definition rs_patch :: "u32 \<Rightarrow> (u8 list \<Rightarrow> u8 list) \<Rightarrow> rom_source \<Rightarrow> rom_source" where
  "rs_patch addr f r =
     (let p = rom_page_base r addr;
          o1 = (if map_of (rs_overlay r) p \<noteq> None then rs_overlay r else rs_overlay r @ [(p, rs_page r p)])
      in r\<lparr> rs_overlay := AList.update p (f (the (map_of o1 p))) o1 \<rparr>)"

lemma page_offset_less: "unat (addr AND (ROM_PAGE - 1) :: u32) < 4096"
proof -
  have "addr AND (ROM_PAGE - 1) \<le> ROM_PAGE - 1" by (rule word_and_le1)
  then show ?thesis by (simp add: ROM_PAGE_def word_le_nat_alt)
qed

function rs_read :: "rom_source \<Rightarrow> u32 \<Rightarrow> nat \<Rightarrow> u8 list" where
  "rs_read r addr n =
     (if n = 0 then []
      else
        (let off = unat (addr AND (ROM_PAGE - 1)); k = min n (4096 - off)
         in take k (drop off (rs_page r addr)) @ rs_read r (addr + of_nat k) (n - k)))"
  by pat_completeness auto

termination
  by (relation "measure (\<lambda>(r, addr, n). n)") (use page_offset_less in \<open>auto simp: min_def\<close>)

declare rs_read.simps [simp del]

definition le32 :: "u8 list \<Rightarrow> nat \<Rightarrow> u32" where
  "le32 b i = word4 (b ! i) (b ! (i + 1)) (b ! (i + 2)) (b ! (i + 3))"

definition le_bytes32 :: "u32 \<Rightarrow> u8 list" where
  "le_bytes32 w = [ucast w, ucast (drop_bit 8 w), ucast (drop_bit 16 w), ucast (drop_bit 24 w)]"

definition rs_read32 :: "rom_source \<Rightarrow> u32 \<Rightarrow> u32" where
  "rs_read32 r addr = le32 (rs_read r addr 4) 0"

text \<open>The image without its patches: how many bytes it holds, and the bytes.\<close>

function raw_read :: "rom_source \<Rightarrow> u32 \<Rightarrow> nat \<Rightarrow> u8 list" where
  "raw_read r addr n =
     (if n = 0 then []
      else
        (let off = unat (addr AND (ROM_PAGE - 1)); k = min n (4096 - off)
         in take k (drop off (page_unpatched r (rom_page_base r addr))) @ raw_read r (addr + of_nat k) (n - k)))"
  by pat_completeness auto

termination
  by (relation "measure (\<lambda>(r, addr, n). n)") (use page_offset_less in \<open>auto simp: min_def\<close>)

declare raw_read.simps [simp del]

definition read_unpatched :: "rom_source \<Rightarrow> u32 \<Rightarrow> u32 \<Rightarrow> u32 \<times> u8 list" where
  "read_unpatched r addr n =
     (let start = addr AND rs_mask r;
          have = (if start < rs_size r then (if n < rs_size r - start then n else rs_size r - start) else 0)
      in (have, raw_read r addr (unat n)))"

section \<open>KEY1\<close>

definition bswap32 :: "u32 \<Rightarrow> u32" where
  "bswap32 v = word4 (ucast (drop_bit 24 v)) (ucast (drop_bit 16 v)) (ucast (drop_bit 8 v)) (ucast v)"

text \<open>A block is the pair \<^verbatim>\<open>data[0]\<close>, \<^verbatim>\<open>data[1]\<close>; the state of the rounds is \<open>y\<close>, \<open>x\<close>.\<close>

definition key1_f :: "u32 list \<Rightarrow> u32 \<Rightarrow> u32" where
  "key1_f ks z =
     ((ks ! (0x012 + unat (drop_bit 24 z)) + ks ! (0x112 + unat (drop_bit 16 z AND 0xFF)))
        XOR ks ! (0x212 + unat (drop_bit 8 z AND 0xFF))) + ks ! (0x312 + unat (z AND 0xFF))"

definition key1_round :: "u32 list \<Rightarrow> nat \<Rightarrow> u32 \<times> u32 \<Rightarrow> u32 \<times> u32" where
  "key1_round ks i = (\<lambda>(y, x). let z = ks ! i XOR x in (z, key1_f ks z XOR y))"

definition key1_encrypt :: "u32 list \<Rightarrow> u32 \<times> u32 \<Rightarrow> u32 \<times> u32" where
  "key1_encrypt ks d =
     (let (y, x) = fold (key1_round ks) [0..<0x10] d in (x XOR ks ! 0x10, y XOR ks ! 0x11))"

definition key1_decrypt :: "u32 list \<Rightarrow> u32 \<times> u32 \<Rightarrow> u32 \<times> u32" where
  "key1_decrypt ks d =
     (let (y, x) = fold (key1_round ks) (rev [2..<0x12]) d in (x XOR ks ! 0x1, y XOR ks ! 0x0))"

text \<open>The key schedule: the keys and the three words of the keycode.\<close>

definition key1_fill :: "nat \<Rightarrow> u32 list \<times> (u32 \<times> u32) \<Rightarrow> u32 list \<times> (u32 \<times> u32)" where
  "key1_fill i = (\<lambda>(ks, temp). let t = key1_encrypt ks temp in (ks[2 * i := snd t, 2 * i + 1 := fst t], t))"

definition key1_apply_keycode :: "nat \<Rightarrow> u32 list \<times> u32 list \<Rightarrow> u32 list \<times> u32 list" where
  "key1_apply_keycode modulus = (\<lambda>(ks, kc).
     let (b, c) = key1_encrypt ks (kc ! 1, kc ! 2);
         (a, b') = key1_encrypt ks (kc ! 0, b);
         kc1 = [a, b', c];
         ks1 = map (\<lambda>i. if i \<le> 0x11 then ks ! i XOR bswap32 (kc1 ! (i mod modulus)) else ks ! i) [0..<length ks]
     in (fst (fold key1_fill [0..<0x209] (ks1, (0, 0))), kc1))"

definition bios_keys :: "(nat \<Rightarrow> u8) \<Rightarrow> u32 list" where
  "bios_keys bios = map (\<lambda>i. le32 (map (\<lambda>j. bios (0x30 + 4 * i + j)) [0..<4]) 0) [0..<0x412]"

definition key1_init :: "(nat \<Rightarrow> u8) \<Rightarrow> u32 \<Rightarrow> nat \<Rightarrow> nat \<Rightarrow> u32 list" where
  "key1_init bios idcode level modulus =
     (let s0 = (bios_keys bios, [idcode, drop_bit 1 idcode, push_bit 1 idcode]);
          s1 = (if 1 \<le> level then key1_apply_keycode modulus s0 else s0);
          s2 = (if 2 \<le> level then key1_apply_keycode modulus s1 else s1);
          kc = snd s2;
          s3 = (fst s2, [kc ! 0, push_bit 1 (kc ! 1), drop_bit 1 (kc ! 2)])
      in fst (if 3 \<le> level then key1_apply_keycode modulus s3 else s3))"

text \<open>Blocks of eight bytes, the first \<open>n\<close> of a buffer.\<close>

definition crypt_block :: "(u32 \<times> u32 \<Rightarrow> u32 \<times> u32) \<Rightarrow> u8 list \<Rightarrow> u8 list" where
  "crypt_block f b = (let (p, q) = f (le32 b 0, le32 b 4) in le_bytes32 p @ le_bytes32 q)"

fun crypt_blocks :: "(u32 \<times> u32 \<Rightarrow> u32 \<times> u32) \<Rightarrow> nat \<Rightarrow> u8 list \<Rightarrow> u8 list" where
  "crypt_blocks f 0 b = b"
| "crypt_blocks f (Suc n) b = crypt_block f (take 8 b) @ crypt_blocks f n (drop 8 b)"

section \<open>The card\<close>

record cart_header =
  hd_game_code :: u32
  hd_unit_code :: u8
  hd_arm9_rom_offset :: u32
  hd_region_flags :: u32

record cart =
  ct_rom :: rom_source
  ct_page_base :: u32
  ct_page :: "u8 list"
  ct_header :: cart_header
  ct_chip_id :: u32
  ct_in_reset :: bool
  ct_cmd_mode :: u32
  ct_data_mode :: u32
  ct_rom_cmd :: "u8 list"
  ct_rom_addr :: u32
  ct_launch_read :: bool
  ct_key1 :: "u32 list"
  ct_save :: save_chip

definition ct_rom_mask :: "cart \<Rightarrow> u32" where
  "ct_rom_mask c = rs_mask (ct_rom c)"

definition cart_header_of :: "rom_source \<Rightarrow> cart_header" where
  "cart_header_of r = \<lparr> hd_game_code = rs_read32 r 0x0C, hd_unit_code = rs_read r 0x12 1 ! 0,
     hd_arm9_rom_offset = rs_read32 r 0x20, hd_region_flags = rs_read32 r 0x1B0 \<rparr>"

definition chip_id_of :: "rom_source \<Rightarrow> cart_header \<Rightarrow> u32" where
  "chip_id_of r h =
     (let n = rs_mask r + 1;
          id0 = 0xC2 OR (if 0x100000 \<le> n \<and> n \<le> 0x8000000 then push_bit 8 (drop_bit 20 n - 1)
                         else push_bit 8 (0x100 - drop_bit 28 n))
      in if tst (hd_unit_code h) 2 \<and> hd_region_flags h \<noteq> 0 then id0 OR 0x40000000 else id0)"

definition secure_marker :: u32 where "secure_marker = 0xE7FFDEFF"

definition encry_obj :: "u8 list" where
  "encry_obj = [0x65, 0x6E, 0x63, 0x72, 0x79, 0x4F, 0x62, 0x6A]"

text \<open>A decrypted secure area is encrypted again: with the keys of level 3, then its first block with
  those of level 2.\<close>

definition seal_bytes :: "u32 list \<Rightarrow> u32 list \<Rightarrow> u8 list \<Rightarrow> u8 list" where
  "seal_bytes k3 k2 b =
     (let b1 = crypt_blocks (key1_encrypt k3) 256 (encry_obj @ drop 8 b) in crypt_blocks (key1_encrypt k2) 1 b1)"

text \<open>The pointer \<^verbatim>\<open>sec\<close> leads into a page of 4096 bytes; \<open>None\<close> when 2048 bytes from it pass its end.\<close>

definition seal_secure_area :: "(nat \<Rightarrow> u8) \<Rightarrow> cart_header \<Rightarrow> rom_source \<Rightarrow> (rom_source \<times> u32 list) option" where
  "seal_secure_area bios h r =
     (let a9 = hd_arm9_rom_offset h in
      if 0x4000 \<le> a9 \<and> a9 < 0x8000 \<and> rs_read32 r a9 = secure_marker \<and> rs_read32 r (a9 + 0x10) \<noteq> secure_marker
      then
        (let off = unat (a9 AND (ROM_PAGE - 1)); k3 = key1_init bios (hd_game_code h) 3 2;
             k2 = key1_init bios (hd_game_code h) 2 2
         in if off + 0x800 > 4096 then None
            else Some (rs_patch a9 (\<lambda>b. take off b @ seal_bytes k3 k2 (take 0x800 (drop off b)) @ drop (off + 0x800) b) r, k2))
      else Some (r, replicate 0x412 0))"

definition new_cart :: "(nat \<Rightarrow> u8) \<Rightarrow> (u32 \<times> u32) list \<Rightarrow> rom_source \<Rightarrow> cart option" where
  "new_cart bios tbl r =
     (let h = cart_header_of r in
      case seal_secure_area bios h r of None \<Rightarrow> None
      | Some (r1, ks) \<Rightarrow>
          Some \<lparr> ct_rom = r1, ct_page_base = 0xFFFFFFFF, ct_page = [], ct_header = h, ct_chip_id = chip_id_of r h,
                 ct_in_reset = True, ct_cmd_mode = 0, ct_data_mode = 0, ct_rom_cmd = replicate 8 0, ct_rom_addr = 0,
                 ct_launch_read = False, ct_key1 = ks, ct_save = save_reset (new_save tbl (hd_game_code h)) \<rparr>)"

definition cart_reset :: "cart \<Rightarrow> cart" where
  "cart_reset c = c\<lparr> ct_in_reset := True, ct_cmd_mode := 0, ct_data_mode := 0, ct_rom_addr := 0, ct_rom_cmd := replicate 8 0,
     ct_launch_read := False, ct_save := save_reset (ct_save c) \<rparr>"

definition set_reset :: "bool \<Rightarrow> cart \<Rightarrow> cart" where
  "set_reset b c =
     (if b = ct_in_reset c then c
      else c\<lparr> ct_in_reset := b, ct_cmd_mode := 0, ct_data_mode := 0, ct_rom_addr := 0, ct_rom_cmd := replicate 8 0 \<rparr>)"

definition cart_direct_boot :: "cart \<Rightarrow> cart" where
  "cart_direct_boot c = c\<lparr> ct_cmd_mode := 2, ct_data_mode := 2, ct_in_reset := False \<rparr>"

definition decrypt_secure_area :: "(nat \<Rightarrow> u8) \<Rightarrow> cart \<Rightarrow> u8 list \<times> cart" where
  "decrypt_secure_area bios c =
     (let h = ct_header c; k2 = key1_init bios (hd_game_code h) 2 2; k3 = key1_init bios (hd_game_code h) 3 2;
          b0 = rs_read (ct_rom c) (hd_arm9_rom_offset h) 0x800;
          b2 = crypt_blocks (key1_decrypt k3) 256 (crypt_blocks (key1_decrypt k2) 1 b0);
          out = (if take 8 b2 = encry_obj then le_bytes32 secure_marker @ le_bytes32 secure_marker @ drop 8 b2
                 else concat (replicate 0x200 (le_bytes32 secure_marker)))
      in (out, c\<lparr> ct_key1 := k3 \<rparr>))"

section \<open>ROM commands\<close>

definition rom_read32 :: "cart \<Rightarrow> u32 \<times> cart" where
  "rom_read32 c =
     (let hi = ct_rom_addr c AND ct_rom_mask c AND NOT 0xFFF; lo = ct_rom_addr c AND 0xFFF;
          c1 = (if hi \<noteq> ct_page_base c then c\<lparr> ct_page_base := hi, ct_page := rs_page (ct_rom c) hi \<rparr> else c);
          at = (\<lambda>i. ct_page c1 ! unat ((lo + of_nat i) AND 0xFFF))
      in (le32 (map at [0..<4]) 0, c1\<lparr> ct_rom_addr := hi OR ((lo + 4) AND 0xFFF) \<rparr>))"

text \<open>The address in bytes 1 to 4 of a command.\<close>

definition cmd_address :: "u8 list \<Rightarrow> u32" where
  "cmd_address cmd = push_bit 24 (ucast (cmd ! 1)) OR push_bit 16 (ucast (cmd ! 2)) OR push_bit 8 (ucast (cmd ! 3)) OR ucast (cmd ! 4)"

definition key1_command :: "u32 list \<Rightarrow> u8 list \<Rightarrow> u8 list" where
  "key1_command ks cmd =
     (let (t0, t1) = key1_decrypt ks (bswap32 (le32 cmd 4), bswap32 (le32 cmd 0))
      in le_bytes32 (bswap32 t1) @ le_bytes32 (bswap32 t0))"

definition command_start :: "(nat \<Rightarrow> u8) \<Rightarrow> u8 list \<Rightarrow> cart \<Rightarrow> cart" where
  "command_start bios cmd c =
     (if ct_in_reset c then c
      else if ct_cmd_mode c = 0 then
        (let c1 = c\<lparr> ct_rom_cmd := cmd \<rparr> in
         if cmd ! 0 = 0x00 then c1\<lparr> ct_rom_addr := cmd_address cmd AND 0xFFF \<rparr>
         else if cmd ! 0 = 0x3C
              then c1\<lparr> ct_cmd_mode := 1, ct_key1 := key1_init bios (hd_game_code (ct_header c)) 2 2 \<rparr>
         else c1)
      else if ct_cmd_mode c = 1 then
        (let dec = key1_command (ct_key1 c) cmd; c1 = c\<lparr> ct_rom_cmd := dec \<rparr>; k = dec ! 0 AND 0xF0 in
         if k = 0x40 then c1\<lparr> ct_data_mode := 2 \<rparr>
         else if k = 0x20 then c1\<lparr> ct_rom_addr := push_bit 8 (ucast (dec ! 2 AND 0xF0)) \<rparr>
         else if k = 0xA0 then c1\<lparr> ct_cmd_mode := 2 \<rparr>
         else c1)
      else
        (let c1 = c\<lparr> ct_rom_cmd := cmd \<rparr> in
         if cmd ! 0 = 0xB7 then
           (let a = cmd_address cmd AND ct_rom_mask c;
                c2 = (if a = hd_arm9_rom_offset (ct_header c) then c1\<lparr> ct_launch_read := True \<rparr> else c1)
            in c2\<lparr> ct_rom_addr := (if a < 0x8000 then 0x8000 + (a AND 0x1FF) else a) \<rparr>)
         else c1))"

definition command_receive :: "cart \<Rightarrow> u32 \<times> cart" where
  "command_receive c =
     (let k = ct_rom_cmd c ! 0 in
      if ct_in_reset c then (0, c)
      else if ct_cmd_mode c = 0 then
        (if k = 0x9F then (0xFFFFFFFF, c) else if k = 0x00 then rom_read32 c
         else if k = 0x90 then (ct_chip_id c, c) else (0, c))
      else if ct_cmd_mode c = 1 then
        (if k AND 0xF0 = 0x10 then (ct_chip_id c, c) else if k AND 0xF0 = 0x20 then rom_read32 c else (0, c))
      else
        (if k = 0xB7 then rom_read32 c else if k = 0xB8 then (ct_chip_id c, c) else (0, c)))"

definition clear_launch_read :: "cart \<Rightarrow> cart" where
  "clear_launch_read c = c\<lparr> ct_launch_read := False \<rparr>"

end
