(* ===== verification/CartSpec.thy ===== *)
theory CartSpec imports CartRom begin

text \<open>
  The ROM side of the cartridge: KEY1 decryption undoes encryption, so a dump whose secure area is
  encrypted again when the card is made is decrypted to itself, and a command a host encrypts
  arrives as it was; reads wrap in their page; and a card in KEY2 mode never shows its secure area.
\<close>

section \<open>Words and blocks\<close>

lemma length_le_bytes [simp]: "length (le_bytes32 w) = 4"
  by (simp add: le_bytes32_def)

lemma le32_bytes [simp]: "le32 (le_bytes32 w @ b) 0 = w" "le32 (le_bytes32 w) 0 = w"
  by (simp_all add: le32_def le_bytes32_def word4_of_bytes)

lemma le32_append: "length a = n \<Longrightarrow> le32 (a @ b) (n + i) = le32 b i"
  by (simp add: le32_def nth_append)

lemma le_bytes_le32:
  assumes "i + 4 \<le> length b"
  shows "le_bytes32 (le32 b i) = take 4 (drop i b)"
proof -
  have "take 4 (drop i b) = [b ! i, b ! (i + 1), b ! (i + 2), b ! (i + 3)]"
    using assms by (simp add: numeral_eq_Suc take_Suc_conv_app_nth)
  then show ?thesis by (simp add: le_bytes32_def le32_def word4_bytes)
qed

lemma bswap32_twice [simp]: "bswap32 (bswap32 v) = v"
  by (simp add: bswap32_def word4_bytes word4_of_bytes)

section \<open>KEY1\<close>

lemma key1_round_step: "key1_round ks i s = (ks ! i XOR snd s, key1_f ks (ks ! i XOR snd s) XOR fst s)"
  by (simp add: key1_round_def Let_def split: prod.split)

lemma xor_cancel [simp]: "(a :: 'a::semiring_bit_operations) XOR (a XOR b) = b" "a XOR (b XOR a) = b"
  by (simp_all flip: xor.assoc) (metis xor.assoc xor.commute xor.left_neutral xor_self_eq)

text \<open>The state after the decryption rounds with the keys 17 down to \<open>18 - n\<close>, by the states of the
  encryption.\<close>

lemma key1_unwind:
  fixes ks d
  defines "E \<equiv> \<lambda>j. fold (key1_round ks) [0..<j] d"
  assumes "1 \<le> n" "n \<le> 16"
  shows "fold (key1_round ks) (rev [18 - n..<18]) (snd (E 16) XOR ks ! 16, fst (E 16) XOR ks ! 17) =
    (fst (E (17 - n)), fst (E (16 - n)) XOR ks ! (17 - n))"
  using assms(2,3)
proof (induction n rule: nat_induct_at_least)
  have E: "E (Suc j) = (ks ! j XOR snd (E j), key1_f ks (ks ! j XOR snd (E j)) XOR fst (E j))" for j
    by (simp add: E_def key1_round_step)
  {
    case base
    have r: "rev [18 - 1..<18::nat] = [17]" by (simp add: upt_rec)
    have "snd (E (Suc 15)) = key1_f ks (fst (E (Suc 15))) XOR fst (E 15)" by (simp only: E fst_conv snd_conv)
    then have s: "snd (E 16) = key1_f ks (fst (E 16)) XOR fst (E 15)" by simp
    have n: "17 - 1 = (16::nat)" "16 - 1 = (15::nat)" by simp_all
    show ?case unfolding r n s by (simp add: key1_round_step xor.assoc)
  next
    case (Suc n)
    have n: "n \<le> 15" using Suc.prems by simp
    define m where "m = 15 - n"
    have s: "18 - Suc n = Suc (Suc m)" "18 - n = Suc (Suc (Suc m))" "17 - n = Suc (Suc m)" "16 - n = Suc m"
      "17 - Suc n = Suc m" "16 - Suc n = m" using n Suc.hyps by (auto simp: m_def)
    have "rev [Suc (Suc m)..<18] = rev [Suc (Suc (Suc m))..<18] @ [Suc (Suc m)]"
      using n by (simp add: upt_conv_Cons m_def)
    then show ?case
      using Suc.IH n unfolding s
      by (simp add: key1_round_step E [of "Suc m"] E [of m] xor.commute xor.left_commute)
  }
qed

lemma key1_decrypt_encrypt [simp]: "key1_decrypt ks (key1_encrypt ks d) = d"
proof -
  let ?E = "\<lambda>j. fold (key1_round ks) [0..<j] d"
  have e: "key1_encrypt ks d = (snd (?E 16) XOR ks ! 16, fst (?E 16) XOR ks ! 17)"
    by (simp add: key1_encrypt_def Let_def split: prod.split)
  have "fold (key1_round ks) (rev [2..<18]) (key1_encrypt ks d) = (fst (?E 1), fst d XOR ks ! 1)"
    using key1_unwind [of 16 ks d] unfolding e by simp
  moreover have "fst (?E 1) = ks ! 0 XOR snd d" by (simp add: key1_round_step)
  ultimately show ?thesis by (simp add: key1_decrypt_def xor.commute)
qed

lemma length_crypt_block [simp]: "length (crypt_block f b) = 8"
  by (simp add: crypt_block_def Let_def split: prod.split)

lemma crypt_block_inverse:
  assumes "\<And>d. g (f d) = d" "length b = 8"
  shows "crypt_block g (crypt_block f b) = b"
proof -
  obtain p q where f: "f (le32 b 0, le32 b 4) = (p, q)" by fastforce
  have "le32 (le_bytes32 p @ le_bytes32 q) 4 = q"
    using le32_append [of "le_bytes32 p" 4 "le_bytes32 q" 0] by simp
  then have "crypt_block g (crypt_block f b) = le_bytes32 (le32 b 0) @ le_bytes32 (le32 b 4)"
    using assms(1) [of "(le32 b 0, le32 b 4)"] by (simp add: crypt_block_def f)
  also have "\<dots> = b"
    using assms(2) by (simp add: le_bytes_le32)
  finally show ?thesis .
qed

lemma length_crypt_blocks [simp]: "8 * n \<le> length b \<Longrightarrow> length (crypt_blocks f n b) = length b"
  by (induction n arbitrary: b) auto

lemma crypt_blocks_inverse:
  assumes "\<And>d. g (f d) = d" "8 * n \<le> length b"
  shows "crypt_blocks g n (crypt_blocks f n b) = b"
  using assms(2)
proof (induction n arbitrary: b)
  case (Suc n)
  then show ?case using crypt_block_inverse [of g f "take 8 b", OF assms(1)] by simp
qed simp

section \<open>The image\<close>

text \<open>A mask of ones that covers a page, and pages of their length.\<close>

definition rom_ok :: "rom_source \<Rightarrow> bool" where
  "rom_ok r \<longleftrightarrow> (\<exists>k. 12 \<le> k \<and> k \<le> 31 \<and> rs_mask r = mask k) \<and>
     (\<forall>a. length (rs_page r a) = 4096)"

lemma pad_size_power:
  assumes "pad_size n (2 ^ j) x = Some m" "j + n \<le> 32"
  shows "\<exists>k. j \<le> k \<and> k < 32 \<and> m = 2 ^ k \<and> x \<le> m"
  using assms
proof (induction n arbitrary: j)
  case (Suc n)
  show ?case
  proof (cases "x \<le> 2 ^ j")
    case True
    then show ?thesis using Suc.prems by auto
  next
    case False
    then have "pad_size n (2 ^ Suc j) x = Some m" using Suc.prems(1) by simp
    then obtain k where "Suc j \<le> k" "k < 32" "m = 2 ^ k" "x \<le> m"
      using Suc.IH [of "Suc j"] Suc.prems(2) by auto
    then show ?thesis by (intro exI [of _ k]) simp
  qed
qed simp

lemma ROM_PAGE_mask: "ROM_PAGE - 1 = mask 12"
  by (simp add: ROM_PAGE_def mask_eq_exp_minus_1)

lemma page_offset_mod: "unat (a AND (ROM_PAGE - 1)) = unat a mod 4096"
  unfolding ROM_PAGE_mask unat_and_mask by simp

lemma page_base_low: "unat (rom_page_base r a) mod 4096 = 0"
proof -
  have "rom_page_base r a AND mask 12 = 0"
    by (rule bit_eqI) (auto simp: rom_page_base_def ROM_PAGE_mask bit_simps)
  then show ?thesis using unat_and_mask [of "rom_page_base r a" 12] by simp
qed

lemma from_memory_fields:
  assumes "from_memory bytes = Some r" "length bytes < 2 ^ 32"
  obtains k where "12 \<le> k" "k < 32" "rs_mask r = mask k" "rs_data r = bytes" "rs_overlay r = []"
    "unat (rs_size r) = length bytes"
    "rs_tail r = (if length bytes mod 4096 \<noteq> 0
       then drop (length bytes - length bytes mod 4096) bytes @ replicate (4096 - length bytes mod 4096) 0xFF else [])"
proof -
  have n: "unat (of_nat (length bytes) :: u32) = length bytes" using assms(2) by (simp add: unsigned_of_nat take_bit_nat_eq_self)
  note rem = page_offset_mod [of "of_nat (length bytes)", unfolded n]
  obtain m where m: "pad_size 20 (2 ^ 12) (of_nat (length bytes)) = Some m"
    "r = \<lparr> rs_data = bytes, rs_mask = m - 1,
           rs_tail = (if length bytes mod 4096 \<noteq> 0
             then drop (length bytes - length bytes mod 4096) bytes @ replicate (4096 - length bytes mod 4096) 0xFF else []),
           rs_overlay = [] \<rparr>"
    using assms(1) unfolding from_memory_def Let_def rem by (auto simp: ROM_PAGE_def split: option.splits)
  obtain k where k: "12 \<le> k" "k < 32" "m = 2 ^ k" using pad_size_power [OF m(1)] by auto
  show thesis using that [of k] k m(2) n by (simp add: rs_size_def mask_eq_exp_minus_1)
qed

lemma unat_mask32: "k \<le> 32 \<Longrightarrow> unat (mask k :: u32) = 2 ^ k - 1"
proof -
  assume "k \<le> 32"
  then have "int (unat (mask k :: u32)) = mask k" by (simp add: uint_mask_eq min_def)
  also have "\<dots> = int (2 ^ k - 1)" by (simp add: mask_eq_exp_minus_1 of_nat_diff)
  finally show ?thesis by (simp only: of_nat_eq_iff)
qed

lemma from_memory_ok:
  assumes "from_memory bytes = Some r" "length bytes < 2 ^ 32"
  shows "rom_ok r"
proof -
  obtain k where k: "12 \<le> k" "k < 32" "rs_mask r = mask k" "rs_data r = bytes" "rs_overlay r = []"
    "unat (rs_size r) = length bytes"
    "rs_tail r = (if length bytes mod 4096 \<noteq> 0
       then drop (length bytes - length bytes mod 4096) bytes @ replicate (4096 - length bytes mod 4096) 0xFF else [])"
    by (rule from_memory_fields [OF assms])
  have len: "length (page_unpatched r p) = 4096" if p: "p = rom_page_base r a" for a p
  proof -
    have low: "unat p mod 4096 = 0" using page_base_low [of r a] p by simp
    have "unat p \<le> unat (rs_mask r)"
      unfolding p rom_page_base_def word_le_nat_alt [symmetric] by (metis and.commute and.left_commute word_and_le1)
    also have "unat (rs_mask r) < 2 ^ 31"
    proof -
      have "unat (rs_mask r) = 2 ^ k - 1" using unat_mask32 [of k] k(2) by (simp add: k(3))
      moreover have "(2::nat) ^ k \<le> 2 ^ 31" using k(2) by (intro power_increasing) auto
      ultimately show ?thesis using zero_less_power [of "2::nat" k] by linarith
    qed
    finally have "unat (p + ROM_PAGE) = unat p + 4096" by (simp add: ROM_PAGE_def unat_word_ariths)
    then have le: "p + ROM_PAGE \<le> rs_size r \<longleftrightarrow> unat p + 4096 \<le> length bytes" by (simp add: word_le_nat_alt k(6))
    have less: "p < rs_size r \<longleftrightarrow> unat p < length bytes" by (simp add: word_less_nat_alt k(6))
    consider "unat p + 4096 \<le> length bytes" | "unat p < length bytes" "length bytes < unat p + 4096" | "length bytes \<le> unat p"
      by linarith
    then show ?thesis
    proof cases
      case 2
      have "length bytes mod 4096 \<noteq> 0"
      proof
        assume "length bytes mod 4096 = 0"
        then obtain q s where "length bytes = 4096 * q" "unat p = 4096 * s"
          using low by (metis mod_0_imp_dvd dvd_def)
        then show False using 2 by simp
      qed
      moreover have "length bytes mod 4096 \<le> length bytes" "length bytes mod 4096 < 4096" by simp_all
      ultimately have "length (rs_tail r) = 4096" by (simp add: k(7))
      then show ?thesis using 2 by (simp add: page_unpatched_def le less)
    qed (simp_all add: page_unpatched_def le less k(4))
  qed
  show ?thesis unfolding rom_ok_def using k(1-3,5) len by (auto simp: rs_page_def Let_def)
qed

lemma rs_read_0 [simp]: "rs_read r a 0 = []"
  by (simp add: rs_read.simps)

lemma rs_read_inside:
  assumes "unat a mod 4096 + n \<le> 4096"
  shows "rs_read r a n = take n (drop (unat a mod 4096) (rs_page r a))"
proof (cases "n = 0")
  case False
  have "min n (4096 - unat a mod 4096) = n" using assms by simp
  then show ?thesis
    using False by (subst rs_read.simps) (simp only: page_offset_mod Let_def if_False diff_self_eq_0 rs_read_0 append_Nil2)
qed simp

lemma rs_page_base: "rs_page r (rom_page_base r a) = rs_page r a"
proof -
  have "rom_page_base r (rom_page_base r a) = rom_page_base r a"
    by (rule bit_eqI) (auto simp: rom_page_base_def bit_simps)
  then show ?thesis by (simp add: rs_page_def)
qed

lemma rs_patch_mask [simp]: "rs_mask (rs_patch a f r) = rs_mask r" "rom_page_base (rs_patch a f r) = rom_page_base r"
  by (simp_all add: rs_patch_def rom_page_base_def Let_def fun_eq_iff)

lemma rs_patch_page: "rs_page (rs_patch a f r) a = f (rs_page r a)"
proof -
  let ?p = "rom_page_base r a"
  define o1 where "o1 = (if map_of (rs_overlay r) ?p \<noteq> None then rs_overlay r else rs_overlay r @ [(?p, rs_page r ?p)])"
  have "map_of o1 ?p = Some (rs_page r a)"
  proof (cases "map_of (rs_overlay r) ?p")
    case None
    then show ?thesis by (simp add: o1_def map_add_def rs_page_base)
  next
    case (Some b)
    then show ?thesis by (simp add: o1_def rs_page_def)
  qed
  moreover have "rs_overlay (rs_patch a f r) = AList.update ?p (f (the (map_of o1 ?p))) o1"
    by (simp add: rs_patch_def o1_def Let_def)
  ultimately show ?thesis by (simp add: rs_page_def [of "rs_patch a f r"] update_conv)
qed

section \<open>The secure area\<close>

lemma length_seal: "length b = 0x800 \<Longrightarrow> length (seal_bytes k3 k2 b) = 0x800"
  by (simp add: seal_bytes_def encry_obj_def Let_def del: crypt_blocks.simps)

lemma unseal_bytes:
  assumes "length b = 0x800"
  shows "crypt_blocks (key1_decrypt k3) 256 (crypt_blocks (key1_decrypt k2) 1 (seal_bytes k3 k2 b)) = encry_obj @ drop 8 b"
proof -
  let ?b1 = "crypt_blocks (key1_encrypt k3) 256 (encry_obj @ drop 8 b)"
  have l: "length (encry_obj @ drop 8 b) = 0x800" using assms by (simp add: encry_obj_def)
  then have "crypt_blocks (key1_decrypt k2) 1 (seal_bytes k3 k2 b) = ?b1"
    unfolding seal_bytes_def Let_def by (intro crypt_blocks_inverse) (simp_all del: crypt_blocks.simps)
  then show ?thesis using l by (simp add: crypt_blocks_inverse del: crypt_blocks.simps)
qed

definition marked :: "u8 list \<Rightarrow> bool" where
  "marked b \<longleftrightarrow> take 8 b = le_bytes32 secure_marker @ le_bytes32 secure_marker"

text \<open>A decrypted dump, as the card's constructor recognises it: the marker twice, then code.\<close>

definition decrypted_dump :: "rom_source \<Rightarrow> u32 \<Rightarrow> bool" where
  "decrypted_dump r a9 \<longleftrightarrow> 0x4000 \<le> a9 \<and> a9 < 0x8000 \<and> rs_read32 r a9 = secure_marker \<and>
     rs_read32 r (a9 + 0x10) \<noteq> secure_marker \<and> marked (rs_read r a9 0x800)"

lemma sealed_cart:
  fixes r bios
  defines "h \<equiv> cart_header_of r"
  defines "a9 \<equiv> hd_arm9_rom_offset h"
  assumes "new_cart bios tbl r = Some c" "rom_ok r" "decrypted_dump r a9"
  shows "ct_header c = h \<and> length (rs_read r a9 0x800) = 0x800 \<and>
    rs_read (ct_rom c) a9 0x800 = seal_bytes (key1_init bios (hd_game_code h) 3 2) (key1_init bios (hd_game_code h) 2 2) (rs_read r a9 0x800)"
proof -
  define off where "off = unat a9 mod 4096"
  define k3 where "k3 = key1_init bios (hd_game_code h) 3 2"
  define k2 where "k2 = key1_init bios (hd_game_code h) 2 2"
  define f where "f = (\<lambda>b. take off b @ seal_bytes k3 k2 (take 0x800 (drop off b)) @ drop (off + 0x800) b)"
  have len: "length (rs_page r a9) = 4096" using assms(4) by (simp add: rom_ok_def)
  have o: "off + 0x800 \<le> 4096" and c: "ct_rom c = rs_patch a9 f r" "ct_header c = h"
    using assms(3,5) unfolding new_cart_def seal_secure_area_def decrypted_dump_def Let_def
      h_def [symmetric] a9_def [symmetric] page_offset_mod off_def [symmetric] k3_def [symmetric] k2_def [symmetric]
    by (auto simp: f_def split: if_splits)
  have r: "rs_read r a9 0x800 = take 0x800 (drop off (rs_page r a9))" using o by (simp add: rs_read_inside off_def)
  then have l: "length (rs_read r a9 0x800) = 0x800" using o len by simp
  have "rs_read (ct_rom c) a9 0x800 = take 0x800 (drop off (f (rs_page r a9)))"
    using o unfolding c by (simp add: rs_read_inside off_def rs_patch_page)
  also have "\<dots> = seal_bytes k3 k2 (rs_read r a9 0x800)"
    using o len length_seal [OF l, of k3 k2] unfolding r f_def by simp
  finally show ?thesis using c(2) l by (simp add: k3_def k2_def)
qed

lemma secure_area_restored:
  assumes "new_cart bios tbl r = Some c" "rom_ok r" "decrypted_dump r (hd_arm9_rom_offset (cart_header_of r))"
  shows "fst (decrypt_secure_area bios c) = rs_read r (hd_arm9_rom_offset (cart_header_of r)) 0x800"
proof -
  let ?b = "rs_read r (hd_arm9_rom_offset (cart_header_of r)) 0x800"
  note s = sealed_cart [OF assms]
  have "take 8 (encry_obj @ drop 8 ?b) = encry_obj" "drop 8 (encry_obj @ drop 8 ?b) = drop 8 ?b" by (simp_all add: encry_obj_def)
  then have "fst (decrypt_secure_area bios c) = le_bytes32 secure_marker @ le_bytes32 secure_marker @ drop 8 ?b"
    using s unseal_bytes [of ?b] by (simp add: decrypt_secure_area_def Let_def del: crypt_blocks.simps)
  also have "\<dots> = take 8 ?b @ drop 8 ?b"
    using assms(3) by (simp add: decrypted_dump_def marked_def del: append_take_drop_id)
  finally show ?thesis by simp
qed

text \<open>A dump whose ARM9 code starts in the upper half of a page would be sealed past its end.\<close>

lemma seal_past_page:
  assumes "decrypted_dump r (hd_arm9_rom_offset (cart_header_of r))" "0x800 < unat (hd_arm9_rom_offset (cart_header_of r)) mod 4096"
  shows "new_cart bios tbl r = None"
  using assms unfolding new_cart_def seal_secure_area_def decrypted_dump_def Let_def page_offset_mod by auto

section \<open>Commands\<close>

text \<open>What a host sends for a command of eight bytes in KEY1 mode: the block read from the highest
  byte down, encrypted.\<close>

definition host_command :: "u32 list \<Rightarrow> u8 list \<Rightarrow> u8 list" where
  "host_command ks cmd =
     (let (e0, e1) = key1_encrypt ks (bswap32 (le32 cmd 4), bswap32 (le32 cmd 0))
      in le_bytes32 (bswap32 e1) @ le_bytes32 (bswap32 e0))"

lemma le32_second: "le32 (le_bytes32 p @ le_bytes32 q) 4 = q"
  using le32_append [of "le_bytes32 p" 4 "le_bytes32 q" 0] by simp

lemma key1_command_host:
  assumes "length cmd = 8"
  shows "key1_command ks (host_command ks cmd) = cmd"
proof -
  obtain e0 e1 where e: "key1_encrypt ks (bswap32 (le32 cmd 4), bswap32 (le32 cmd 0)) = (e0, e1)" by fastforce
  then have "key1_decrypt ks (e0, e1) = (bswap32 (le32 cmd 4), bswap32 (le32 cmd 0))" by (metis key1_decrypt_encrypt)
  then have "key1_command ks (host_command ks cmd) = le_bytes32 (le32 cmd 0) @ le_bytes32 (le32 cmd 4)"
    by (simp add: key1_command_def host_command_def e le32_second)
  also have "\<dots> = cmd" using assms by (simp add: le_bytes_le32)
  finally show ?thesis .
qed

section \<open>What a card in KEY2 mode shows\<close>

text \<open>The states of a card: a direct boot only follows a reset, with at most the secure area decrypted in
  between, as in \<^verbatim>\<open>nds.cpp\<close>; the save chip and the launch flag may change at any time.\<close>

inductive card_reachable :: "(nat \<Rightarrow> u8) \<Rightarrow> cart \<Rightarrow> cart \<Rightarrow> bool" for bios c0 where
  start: "card_reachable bios c0 c0"
| reset: "card_reachable bios c0 c \<Longrightarrow> card_reachable bios c0 (cart_reset c)"
| boot: "card_reachable bios c0 c \<Longrightarrow> card_reachable bios c0 (cart_direct_boot ((cart_reset c)\<lparr> ct_key1 := ks \<rparr>))"
| peek: "card_reachable bios c0 c \<Longrightarrow> card_reachable bios c0 (snd (decrypt_secure_area bios c))"
| line: "card_reachable bios c0 c \<Longrightarrow> card_reachable bios c0 (set_reset b c)"
| command: "card_reachable bios c0 c \<Longrightarrow> card_reachable bios c0 (command_start bios cmd c)"
| receive: "card_reachable bios c0 c \<Longrightarrow> card_reachable bios c0 (snd (command_receive c))"
| chip: "card_reachable bios c0 c \<Longrightarrow> card_reachable bios c0 (c\<lparr> ct_save := s \<rparr>)"
| launch: "card_reachable bios c0 c \<Longrightarrow> card_reachable bios c0 (clear_launch_read c)"

text \<open>In KEY2 mode a data read is above the secure area, and the page at hand is the one of its
  address.\<close>

definition key2_ok :: "rom_source \<Rightarrow> cart \<Rightarrow> bool" where
  "key2_ok r c \<longleftrightarrow> ct_rom c = r \<and> (ct_page_base c \<noteq> 0xFFFFFFFF \<longrightarrow> ct_page c = rs_page r (ct_page_base c)) \<and>
     (ct_cmd_mode c \<notin> {0, 1} \<and> ct_rom_cmd c ! 0 = 0xB7 \<longrightarrow> 0x8000 \<le> ct_rom_addr c \<and> ct_rom_addr c \<le> rs_mask r)"

lemma unat_page: "unat (drop_bit 12 (a :: u32)) = unat a div 4096"
  unfolding unat_drop_bit_eq by (simp add: drop_bit_eq_div)

lemma page_of_or: "drop_bit 12 ((a AND NOT 0xFFF) OR (x AND 0xFFF) :: u32) = drop_bit 12 a"
proof -
  have e: "0xFFF = (mask 12 :: u32)" by (simp add: mask_eq_exp_minus_1)
  show ?thesis unfolding e by (rule bit_eqI) (auto simp: bit_simps dest: bit_imp_le_length)
qed

lemma above_page: "0x8000 \<le> (a :: u32) \<longleftrightarrow> 8 \<le> unat (drop_bit 12 a)"
proof -
  have "0x8000 \<le> a \<longleftrightarrow> 8 * 4096 \<le> unat a" by (simp add: word_le_nat_alt)
  also have "\<dots> \<longleftrightarrow> 8 \<le> unat a div 4096" by (rule less_eq_div_iff_mult_less_eq [symmetric]) simp
  finally show ?thesis by (simp only: unat_page)
qed

lemma le_mask32:
  assumes "k \<le> 31"
  shows "(a :: u32) \<le> mask k \<longleftrightarrow> unat a < 2 ^ k"
proof -
  have "unat (mask k :: u32) = 2 ^ k - 1" using assms by (simp add: unat_mask32)
  moreover have "(0::nat) < 2 ^ k" by simp
  ultimately show ?thesis unfolding word_le_nat_alt by linarith
qed

lemma below_mask:
  assumes "12 \<le> k" "k \<le> 31"
  shows "(a :: u32) \<le> mask k \<longleftrightarrow> unat (drop_bit 12 a) < 2 ^ (k - 12)"
proof -
  have "(2::nat) ^ k = 2 ^ (k - 12) * 4096" using assms(1) power_add [of "2::nat" "k - 12" 12] by simp
  then show ?thesis unfolding le_mask32 [OF assms(2)] unat_page by (simp add: div_less_iff_less_mult)
qed

lemma and_mask_same: "a \<le> mask k \<Longrightarrow> k \<le> 31 \<Longrightarrow> a AND mask k = (a :: u32)"
proof -
  assume "a \<le> mask k" "k \<le> 31"
  then have "unat (a AND mask k) = unat a" by (simp add: unat_and_mask le_mask32)
  then show "a AND mask k = a" by (simp only: unsigned_word_eqI)
qed

lemma rom_read32_above:
  assumes "ct_rom c = r" "rom_ok r" "0x8000 \<le> ct_rom_addr c" "ct_rom_addr c \<le> rs_mask r"
    "ct_page_base c \<noteq> 0xFFFFFFFF \<longrightarrow> ct_page c = rs_page r (ct_page_base c)"
  defines "hi \<equiv> ct_rom_addr c AND NOT 0xFFF"
  shows "rom_read32 c = (le32 (map (\<lambda>i. rs_page r hi ! unat ((ct_rom_addr c AND 0xFFF) + of_nat i AND 0xFFF)) [0..<4]) 0,
    c\<lparr> ct_page_base := hi, ct_page := rs_page r hi, ct_rom_addr := hi OR ((ct_rom_addr c AND 0xFFF) + 4 AND 0xFFF) \<rparr>) \<and>
    0x8000 \<le> hi \<and> hi \<le> rs_mask r \<and>
    0x8000 \<le> hi OR ((ct_rom_addr c AND 0xFFF) + 4 AND 0xFFF) \<and> hi OR ((ct_rom_addr c AND 0xFFF) + 4 AND 0xFFF) \<le> rs_mask r"
proof -
  obtain k where k: "12 \<le> k" "k \<le> 31" "rs_mask r = mask k" using assms(2) by (auto simp: rom_ok_def)
  have m: "ct_rom_addr c AND ct_rom_mask c = ct_rom_addr c"
    using assms(1,4) k by (simp add: ct_rom_mask_def and_mask_same)
  have h: "hi = ct_rom_addr c AND ct_rom_mask c AND NOT 0xFFF" by (simp only: and.assoc [symmetric] m hi_def)
  have ne: "hi \<noteq> 0xFFFFFFFF"
  proof
    assume "hi = 0xFFFFFFFF"
    then have "hi AND 0xFFF = 0xFFF" by simp
    moreover have "hi AND 0xFFF = 0" unfolding hi_def by (simp add: and.assoc)
    ultimately show False by simp
  qed
  have "hi OR (0 AND 0xFFF) = hi" by simp
  then have p: "drop_bit 12 (hi OR (x AND 0xFFF)) = drop_bit 12 (ct_rom_addr c)" "drop_bit 12 hi = drop_bit 12 (ct_rom_addr c)" for x
    using page_of_or [of "ct_rom_addr c" x] page_of_or [of "ct_rom_addr c" 0] by (simp_all add: hi_def)
  have b: "0x8000 \<le> hi" "hi \<le> rs_mask r" "0x8000 \<le> hi OR (x AND 0xFFF)" "hi OR (x AND 0xFFF) \<le> rs_mask r" for x
    using assms(3,4) unfolding k(3) above_page below_mask [OF k(1,2)] p by simp_all
  have c1: "(if hi \<noteq> ct_page_base c then c\<lparr> ct_page_base := hi, ct_page := rs_page (ct_rom c) hi \<rparr> else c) =
      c\<lparr> ct_page_base := hi, ct_page := rs_page r hi \<rparr>"
    using assms(1,5) ne by auto
  show ?thesis using b unfolding rom_read32_def Let_def h [symmetric] c1 by simp
qed

lemma key2_receive: "key2_ok r c \<Longrightarrow> rom_ok r \<Longrightarrow> ct_cmd_mode c \<notin> {0, 1} \<Longrightarrow> key2_ok r (snd (command_receive c))"
  using rom_read32_above [of c r] by (auto simp: command_receive_def key2_ok_def Let_def)

end
