(* ===== verification/CartCard.thy ===== *)
theory CartCard imports CartSpec begin

text \<open>
  The properties of the card's ROM side, with a small image as their witness.
\<close>

section \<open>A card in KEY2 mode\<close>

lemma key2_command:
  assumes "key2_ok r c" "rom_ok r" "0x8000 \<le> rs_mask r"
  shows "key2_ok r (command_start bios cmd c)"
proof -
  obtain k where k: "12 \<le> k" "k \<le> 31" "rs_mask r = mask k" using assms(2) by (auto simp: rom_ok_def)
  have k16: "16 \<le> k"
  proof (rule ccontr)
    assume "\<not> 16 \<le> k"
    then have "(2::nat) ^ k \<le> 2 ^ 15" by (intro power_increasing) auto
    moreover have "2 ^ 15 < (2::nat) ^ k" using assms(3) unfolding k(3) le_mask32 [OF k(2)] by simp
    ultimately show False by simp
  qed
  have small: "x \<le> rs_mask r" if "unat x < 2 ^ 16" for x :: u32
  proof -
    have "(2::nat) ^ 16 \<le> 2 ^ k" using k16 by (intro power_increasing) auto
    then show ?thesis using that unfolding k(3) le_mask32 [OF k(2)] by linarith
  qed
  have fold: "0x8000 + (a AND 0x1FF) \<le> rs_mask r \<and> 0x8000 \<le> 0x8000 + (a AND 0x1FF)" for a :: u32
  proof -
    have "unat (a AND 0x1FF) < 0x200" using unat_and_mask [of a 9] by (simp add: mask_eq_exp_minus_1)
    then have u: "unat (0x8000 + (a AND 0x1FF)) = 0x8000 + unat (a AND 0x1FF)" "unat (a AND 0x1FF) < 0x200"
      by (simp_all add: unat_word_ariths)
    have "0x8000 + (a AND 0x1FF) \<le> rs_mask r" by (rule small) (use u in simp)
    moreover have "0x8000 \<le> 0x8000 + (a AND 0x1FF)" using u by (simp add: word_le_nat_alt)
    ultimately show ?thesis by blast
  qed
  have m: "ct_rom_mask c = rs_mask r" using assms(1) by (simp add: key2_ok_def ct_rom_mask_def)
  have le: "a AND rs_mask r \<le> rs_mask r" for a by (rule word_and_le1)
  have A0: "key1_command ks cmd ! 0 AND 0xF0 = 0xA0 \<Longrightarrow> key1_command ks cmd ! 0 \<noteq> 0xB7" for ks by auto
  show ?thesis
  proof (cases "ct_in_reset c \<or> ct_cmd_mode c = 0 \<or> ct_cmd_mode c = 1")
    case True
    then show ?thesis using assms(1) A0 [of "ct_key1 c"] by (auto simp: command_start_def key2_ok_def Let_def)
  next
    case False
    then show ?thesis using assms(1) fold le by (auto simp: command_start_def key2_ok_def Let_def m not_less)
  qed
qed

lemma receive_mode [simp]: "ct_cmd_mode (snd (command_receive c)) = ct_cmd_mode c"
  by (simp add: command_receive_def rom_read32_def Let_def)

lemma key2_receive_any:
  assumes "key2_ok r c" "rom_ok r"
  shows "key2_ok r (snd (command_receive c))"
proof (cases "ct_cmd_mode c \<in> {0, 1}")
  case True
  then show ?thesis using assms(1)
    by (auto simp: command_receive_def rom_read32_def key2_ok_def Let_def)
qed (rule key2_receive [OF assms])

lemma reachable_key2:
  assumes "card_reachable bios c0 c" "new_cart bios tbl r0 = Some c0" "rom_ok (ct_rom c0)" "0x8000 \<le> rs_mask (ct_rom c0)"
  shows "key2_ok (ct_rom c0) c"
  using assms(1)
proof induction
  case start
  show ?case using assms(2) by (auto simp: new_cart_def key2_ok_def Let_def split: option.splits)
next
  case (command c cmd)
  then show ?case using key2_command assms(3,4) by blast
next
  case (receive c)
  then show ?case using key2_receive_any assms(3) by blast
qed (auto simp: key2_ok_def cart_reset_def set_reset_def cart_direct_boot_def decrypt_secure_area_def clear_launch_read_def Let_def)

lemma rom_ok_patch:
  assumes "rom_ok r" "length (f (rs_page r a)) = 4096"
  shows "rom_ok (rs_patch a f r)"
proof -
  let ?p = "rom_page_base r a"
  have "length (rs_page (rs_patch a f r) b) = 4096" for b
  proof (cases "rom_page_base r b = ?p")
    case True
    then have "rs_page (rs_patch a f r) b = f (rs_page r a)" using rs_patch_page [of a f r] by (simp add: rs_page_def)
    then show ?thesis using assms(2) by simp
  next
    case False
    then have "rs_page (rs_patch a f r) b = rs_page r b"
      by (auto simp: rs_page_def rs_patch_def Let_def update_conv page_unpatched_def rs_size_def rom_page_base_def
          map_add_def split: option.split)
    then show ?thesis using assms(1) by (simp add: rom_ok_def)
  qed
  then show ?thesis using assms(1) by (simp add: rom_ok_def)
qed

lemma seal_cases:
  assumes "seal_secure_area bios h r = Some (r1, ks)"
  obtains "r1 = r"
  | a off k3 k2 where "off + 0x800 \<le> 4096"
      "r1 = rs_patch a (\<lambda>b. take off b @ seal_bytes k3 k2 (take 0x800 (drop off b)) @ drop (off + 0x800) b) r"
proof (cases "seal_secure_area bios h r = Some (r, replicate 0x412 0)")
  case True
  then show ?thesis using that(1) assms by simp
next
  case False
  let ?a9 = "hd_arm9_rom_offset h"
  have "unat (?a9 AND (ROM_PAGE - 1)) + 0x800 \<le> 4096"
    "r1 = rs_patch ?a9 (\<lambda>b. take (unat (?a9 AND (ROM_PAGE - 1))) b @
       seal_bytes (key1_init bios (hd_game_code h) 3 2) (key1_init bios (hd_game_code h) 2 2)
         (take 0x800 (drop (unat (?a9 AND (ROM_PAGE - 1))) b)) @ drop (unat (?a9 AND (ROM_PAGE - 1)) + 0x800) b) r"
    using assms False unfolding seal_secure_area_def Let_def by (auto split: if_split_asm)
  then show ?thesis by (rule that(2))
qed

lemma new_cart_rom:
  assumes "new_cart bios tbl r = Some c" "rom_ok r"
  shows "rom_ok (ct_rom c) \<and> rs_mask (ct_rom c) = rs_mask r"
proof -
  obtain r1 ks where r1: "seal_secure_area bios (cart_header_of r) r = Some (r1, ks)" "ct_rom c = r1"
    using assms(1) by (auto simp: new_cart_def Let_def split: option.splits)
  show ?thesis
  proof (rule seal_cases [OF r1(1)])
    assume "r1 = r"
    then show ?thesis using r1(2) assms(2) by simp
  next
    fix a off k3 k2
    assume o: "off + 0x800 \<le> 4096"
      and p: "r1 = rs_patch a (\<lambda>b. take off b @ seal_bytes k3 k2 (take 0x800 (drop off b)) @ drop (off + 0x800) b) r"
    have l: "length (rs_page r a) = 4096" using assms(2) by (simp add: rom_ok_def)
    have "length (take off (rs_page r a) @ seal_bytes k3 k2 (take 0x800 (drop off (rs_page r a))) @ drop (off + 0x800) (rs_page r a)) = 4096"
      using o l length_seal [of "take 0x800 (drop off (rs_page r a))" k3 k2] by simp
    then show ?thesis using r1(2) p rom_ok_patch [OF assms(2)] by simp
  qed
qed

text \<open>C13: a card in KEY2 mode whose padded image is larger than 32 KB hands out no byte of its secure area:
  whatever commands, resets and boots came before, each word a data read (\<^verbatim>\<open>B7\<close>) returns comes from a page of
  the image at \<^verbatim>\<open>0x8000\<close> or above.  (Of a smaller image the folded address is masked back below \<^verbatim>\<open>0x8000\<close>.)\<close>

theorem secure_area_unreadable:
  assumes "card_reachable bios c0 c" "new_cart bios tbl r = Some c0" "rom_ok r" "0x8000 \<le> rs_mask r"
    "\<not> ct_in_reset c" "ct_cmd_mode c \<notin> {0, 1}" "ct_rom_cmd c ! 0 = 0xB7"
  shows "\<exists>p (lo :: u32). 0x8000 \<le> p \<and> p \<le> rs_mask r \<and> p AND 0xFFF = 0 \<and>
    fst (command_receive c) = le32 (map (\<lambda>i. rs_page (ct_rom c0) p ! unat (lo + of_nat i AND 0xFFF)) [0..<4]) 0"
proof -
  note r = new_cart_rom [OF assms(2,3)]
  have k: "key2_ok (ct_rom c0) c" using reachable_key2 [OF assms(1,2)] r assms(4) by simp
  then have k': "ct_rom c = ct_rom c0" "0x8000 \<le> ct_rom_addr c" "ct_rom_addr c \<le> rs_mask (ct_rom c0)"
    "ct_page_base c \<noteq> 0xFFFFFFFF \<longrightarrow> ct_page c = rs_page (ct_rom c0) (ct_page_base c)"
    using assms(6,7) by (simp_all add: key2_ok_def)
  define p where "p = ct_rom_addr c AND NOT 0xFFF"
  define lo where "lo = ct_rom_addr c AND 0xFFF"
  note rd = rom_read32_above [OF k'(1) conjunct1 [OF r] k'(2-4), folded p_def lo_def]
  have "command_receive c = rom_read32 c"
    using assms(5-7) by (simp add: command_receive_def Let_def)
  then have "fst (command_receive c) = le32 (map (\<lambda>i. rs_page (ct_rom c0) p ! unat (lo + of_nat i AND 0xFFF)) [0..<4]) 0"
    by (simp only: rd fst_conv)
  moreover have "p AND 0xFFF = 0" by (simp add: p_def and.assoc)
  moreover have "0x8000 \<le> p" "p \<le> rs_mask r" using rd conjunct2 [OF r] by simp_all
  ultimately show ?thesis by blast
qed

section \<open>KEY1\<close>

text \<open>The page the card keeps is the one of the image, from the moment the card is made.\<close>

definition page_kept :: "rom_source \<Rightarrow> cart \<Rightarrow> bool" where
  "page_kept r c \<longleftrightarrow> ct_rom c = r \<and> (ct_page_base c \<noteq> 0xFFFFFFFF \<longrightarrow> ct_page c = rs_page r (ct_page_base c))"

lemma page_kept_read: "page_kept r c \<Longrightarrow> page_kept r (snd (rom_read32 c))"
  by (auto simp: page_kept_def rom_read32_def Let_def)

lemma page_kept_command: "page_kept r c \<Longrightarrow> page_kept r (command_start bios cmd c)"
  by (auto simp: page_kept_def command_start_def Let_def)

lemma reachable_page_kept:
  assumes "card_reachable bios c0 c" "new_cart bios tbl r0 = Some c0"
  shows "page_kept (ct_rom c0) c"
  using assms(1)
proof induction
  case start
  show ?case using assms(2) by (auto simp: new_cart_def page_kept_def Let_def split: option.splits)
next
  case (receive c)
  then show ?case using page_kept_read by (auto simp: command_receive_def Let_def)
qed (auto simp: page_kept_def cart_reset_def set_reset_def cart_direct_boot_def decrypt_secure_area_def clear_launch_read_def
      command_start_def Let_def)

text \<open>The words the card answers a command with.\<close>

fun card_replies :: "nat \<Rightarrow> cart \<Rightarrow> u32 list" where
  "card_replies 0 c = []"
| "card_replies (Suc n) c = (let (w, c1) = command_receive c in w # card_replies n c1)"

lemma constant_replies: "command_receive c = (w, c) \<Longrightarrow> card_replies n c = replicate n w"
  by (induction n) simp_all

text \<open>Reading on within a page: \<open>i\<close> words in.\<close>

definition in_page :: "rom_source \<Rightarrow> u32 \<Rightarrow> nat \<Rightarrow> cart \<Rightarrow> bool" where
  "in_page r p i c \<longleftrightarrow> page_kept r c \<and> ct_rom_addr c AND rs_mask r AND NOT 0xFFF = p \<and> ct_rom_addr c AND 0xFFF = of_nat (4 * i mod 4096)"

lemma page_byte:
  assumes "k < 4"
  shows "unat (of_nat (4 * i mod 4096) + of_nat k AND (0xFFF :: u32)) = 4 * i mod 4096 + k"
proof -
  have le: "4 * i mod 4096 + k < 4096"
  proof -
    have "4 * i mod 4096 = 4 * (i mod 1024)" using mult_mod_right [of 4 i 1024] by simp
    moreover have "i mod 1024 < 1024" by simp
    ultimately show ?thesis using assms by linarith
  qed
  have "of_nat (4 * i mod 4096) + of_nat k = (of_nat (4 * i mod 4096 + k) :: u32)" by simp
  moreover have "unat (of_nat (4 * i mod 4096 + k) :: u32) = 4 * i mod 4096 + k" using le by (simp add: unat_of_nat del: of_nat_add)
  ultimately show ?thesis using le unat_and_mask [of "of_nat (4 * i mod 4096 + k) :: u32" 12]
    by (simp add: mask_eq_exp_minus_1 del: of_nat_add)
qed

lemma page_next: "of_nat (4 * i mod 4096) + 4 AND (0xFFF :: u32) = of_nat (4 * Suc i mod 4096)"
proof -
  have "unat (of_nat (4 * i mod 4096) + 4 :: u32) = 4 * i mod 4096 + 4"
  proof -
    have "4 * i mod 4096 < 4096" by simp
    then have "unat (of_nat (4 * i mod 4096 + 4) :: u32) = 4 * i mod 4096 + 4" by (simp add: unat_of_nat del: of_nat_add)
    then show ?thesis by simp
  qed
  then have "unat (of_nat (4 * i mod 4096) + 4 AND (0xFFF :: u32)) = (4 * i mod 4096 + 4) mod 4096"
    using unat_and_mask [of "of_nat (4 * i mod 4096) + 4 :: u32" 12] by (simp add: mask_eq_exp_minus_1)
  also have "\<dots> = 4 * Suc i mod 4096" using mod_add_left_eq [of "4 * i" 4096 4] by (simp add: add.commute)
  also have "\<dots> = unat (of_nat (4 * Suc i mod 4096) :: u32)" by (subst unat_of_nat) simp
  finally show ?thesis by (simp only: word_unat_eq_iff)
qed

lemma or_low_masked: "(p OR (x AND f)) AND m AND NOT f = p AND m AND NOT (f :: u32)"
  by (rule bit_word_eqI) (auto simp: bit_simps)

lemma in_page_read:
  assumes "in_page r p i c"
  shows "fst (rom_read32 c) = le32 (rs_page r p) (4 * i mod 4096)" "in_page r p (Suc i) (snd (rom_read32 c))"
proof -
  have p: "p \<noteq> 0xFFFFFFFF" "p AND rs_mask r AND NOT 0xFFF = p" "p AND 0xFFF = 0"
  proof -
    have d: "p = ct_rom_addr c AND rs_mask r AND NOT 0xFFF" using assms by (simp add: in_page_def)
    show z: "p AND 0xFFF = 0" unfolding d by (simp add: and.assoc)
    show "p \<noteq> 0xFFFFFFFF" using z by auto
    show "p AND rs_mask r AND NOT 0xFFF = p" unfolding d by (simp add: and.assoc and.left_commute)
  qed
  have c: "ct_rom_addr c AND ct_rom_mask c AND NOT 0xFFF = p" "ct_rom_addr c AND 0xFFF = of_nat (4 * i mod 4096)" "page_kept r c"
    using assms by (simp_all add: in_page_def page_kept_def ct_rom_mask_def)
  have page: "(if p \<noteq> ct_page_base c then rs_page (ct_rom c) p else ct_page c) = rs_page r p"
    using c(3) p(1) by (auto simp: page_kept_def)
  have "fst (rom_read32 c) = le32 (map (\<lambda>k. rs_page r p ! unat (of_nat (4 * i mod 4096) + of_nat k AND (0xFFF :: u32))) [0..<4]) 0"
    using page unfolding rom_read32_def Let_def c by (simp split: if_splits)
  also have "map (\<lambda>k. rs_page r p ! unat (of_nat (4 * i mod 4096) + of_nat k AND (0xFFF :: u32))) [0..<4] =
      map (\<lambda>k. rs_page r p ! (4 * i mod 4096 + k)) [0..<4]"
    by (rule map_cong [OF refl]) (simp add: page_byte)
  also have "le32 (map (\<lambda>k. rs_page r p ! (4 * i mod 4096 + k)) [0..<4]) 0 = le32 (rs_page r p) (4 * i mod 4096)"
  proof -
    have "[0..<4] = [0, 1, 2, 3 :: nat]" by code_simp
    then show ?thesis by (simp add: le32_def)
  qed
  finally show "fst (rom_read32 c) = le32 (rs_page r p) (4 * i mod 4096)" .
  have a: "ct_rom_addr (snd (rom_read32 c)) = p OR of_nat (4 * Suc i mod 4096)"
    unfolding rom_read32_def Let_def c page_next by simp
  have m: "of_nat (4 * Suc i mod 4096) AND (0xFFF :: u32) = of_nat (4 * Suc i mod 4096)"
    unfolding page_next [symmetric] by (simp add: and.assoc)
  define x :: u32 where "x = of_nat (4 * Suc i mod 4096)"
  have "(p OR (x AND 0xFFF)) AND rs_mask r AND NOT 0xFFF = p AND rs_mask r AND NOT 0xFFF" by (rule or_low_masked)
  moreover have "(p OR x) AND 0xFFF = (p AND 0xFFF) OR (x AND 0xFFF)" by (rule bit.conj_disj_distrib2)
  ultimately have "(p OR x) AND rs_mask r AND NOT 0xFFF = p \<and> (p OR x) AND 0xFFF = x"
    using p m [folded x_def] by (simp only: or.left_neutral)
  then show "in_page r p (Suc i) (snd (rom_read32 c))"
    using page_kept_read [OF c(3)] by (simp only: in_page_def a x_def)
qed

lemma secure_replies:
  assumes "in_page r p i c" "\<not> ct_in_reset c" "ct_cmd_mode c = 1" "ct_rom_cmd c ! 0 AND 0xF0 = 0x20"
  shows "card_replies n c = map (\<lambda>i. le32 (rs_page r p) (4 * i mod 4096)) [i..<i + n]"
  using assms
proof (induction n arbitrary: i c)
  case (Suc n)
  have r: "command_receive c = rom_read32 c" using Suc.prems by (simp add: command_receive_def Let_def)
  have "\<not> ct_in_reset (snd (rom_read32 c))" "ct_cmd_mode (snd (rom_read32 c)) = 1" "ct_rom_cmd (snd (rom_read32 c)) ! 0 AND 0xF0 = 0x20"
    using Suc.prems by (simp_all add: rom_read32_def Let_def)
  note t = Suc.IH [OF in_page_read(2) [OF Suc.prems(1)] this]
  have "[i..<i + Suc n] = i # [Suc i..<Suc i + n]" by (simp add: upt_conv_Cons del: upt_Suc)
  then show ?case using t in_page_read(1) [OF Suc.prems(1)] by (simp add: r split_beta del: upt_Suc)
qed simp

text \<open>How a card in KEY1 mode takes an encrypted command.\<close>

lemma key1_taken:
  fixes bios :: "nat \<Rightarrow> u8"
  assumes "ct_cmd_mode c = 1" "\<not> ct_in_reset c" "ct_data_mode c = 0" "length cmd = 8"
  defines "k \<equiv> cmd ! 0 AND 0xF0" and "t \<equiv> command_start bios (host_command (ct_key1 c) cmd) c"
  shows "ct_rom_cmd t = cmd" "ct_cmd_mode t = (if k = 0xA0 then 2 else 1)" "ct_data_mode t = (if k = 0x40 then 2 else 0)"
    "ct_chip_id t = ct_chip_id c" "\<not> ct_in_reset t" "k = 0x20 \<longrightarrow> ct_rom_addr t = push_bit 8 (ucast (cmd ! 2 AND 0xF0))"
  using assms(1-3) key1_command_host [OF assms(4), of "ct_key1 c"] by (auto simp: t_def k_def command_start_def Let_def)

lemma secure_block:
  assumes "page_kept r t" "\<not> ct_in_reset t" "ct_cmd_mode t = 1" "ct_rom_cmd t ! 0 AND 0xF0 = 0x20"
    "ct_rom_addr t = push_bit 8 (ucast (b AND 0xF0 :: u8))"
  shows "card_replies n t = map (\<lambda>i. le32 (rs_page r (push_bit 8 (ucast (b AND 0xF0)))) (4 * i mod 4096)) [0..<n]"
proof -
  define a :: u32 where "a = push_bit 8 (ucast (b AND 0xF0))"
  have a0: "a AND 0xFFF = 0"
  proof -
    have "(0xF0 :: u8) = NOT (mask 4)" by code_simp
    then have "a AND mask 12 = push_bit 8 (ucast (b AND NOT (mask 4))) AND mask 12" by (simp only: a_def)
    also have "\<dots> = 0" by (rule bit_word_eqI) (auto simp: bit_simps)
    finally show ?thesis by (simp add: mask_eq_exp_minus_1)
  qed
  have "rs_page r (a AND rs_mask r AND NOT 0xFFF) = rs_page r a"
    by (simp add: rs_page_def rom_page_base_def ROM_PAGE_def and.assoc and.left_commute)
  moreover have "in_page r (a AND rs_mask r AND NOT 0xFFF) 0 t" using assms(1,5) a0 by (simp add: in_page_def a_def)
  ultimately show ?thesis using secure_replies [of r _ 0 t n] assms(2-4) by (simp add: a_def)
qed

text \<open>C14: after the card left its reset and took the KEY1 command, a command the host encrypts with
  the keys of the game code arrives as the host wrote it and is carried out: \<^verbatim>\<open>1x\<close> answers the chip ID, \<^verbatim>\<open>2x\<close> the
  words of the block of the image that byte 2 names, wrapping at its 4096 bytes, every other command zeros; \<^verbatim>\<open>4x\<close> turns
  the KEY2 data mode on and \<^verbatim>\<open>Ax\<close> leaves for KEY2 mode.\<close>

theorem key1_dialogue:
  assumes "card_reachable bios c0 c" "new_cart bios tbl r0 = Some c0" "ct_in_reset c" "start ! 0 = 0x3C" "length cmd = 8"
  defines "ks \<equiv> key1_init bios (hd_game_code (ct_header c)) 2 2" and "k \<equiv> cmd ! 0 AND 0xF0"
  defines "t \<equiv> command_start bios (host_command ks cmd) (command_start bios start (set_reset False c))"
  shows "ct_rom_cmd t = cmd \<and> ct_cmd_mode t = (if k = 0xA0 then 2 else 1) \<and> ct_data_mode t = (if k = 0x40 then 2 else 0) \<and>
    card_replies n t =
      (if k = 0x10 then replicate n (ct_chip_id c)
       else if k = 0x20 then map (\<lambda>i. le32 (rs_page (ct_rom c0) (push_bit 8 (ucast (cmd ! 2 AND 0xF0)))) (4 * i mod 4096)) [0..<n]
       else replicate n 0)"
proof -
  define c1 where "c1 = command_start bios start (set_reset False c)"
  have c1: "ct_cmd_mode c1 = 1" "\<not> ct_in_reset c1" "ct_key1 c1 = ks" "ct_data_mode c1 = 0" "ct_chip_id c1 = ct_chip_id c"
    using assms(3,4) by (simp_all add: c1_def ks_def command_start_def set_reset_def Let_def)
  note f = key1_taken [OF c1(1,2,4) assms(5), of bios, folded k_def, unfolded c1(3,5), unfolded c1_def, folded t_def]
  have kept: "page_kept (ct_rom c0) t"
    using reachable_page_kept [OF card_reachable.line [OF assms(1)] assms(2)] page_kept_command by (simp add: t_def)
  have "card_replies n t = replicate n (ct_chip_id c)" if "k = 0x10"
    using that f by (intro constant_replies) (simp add: command_receive_def k_def Let_def)
  moreover have "card_replies n t = replicate n 0" if "k \<noteq> 0x10" "k \<noteq> 0x20"
  proof (rule constant_replies)
    have "k = 0xA0 \<Longrightarrow> cmd ! 0 \<noteq> 0xB7 \<and> cmd ! 0 \<noteq> 0xB8" by (auto simp: k_def)
    then show "command_receive t = (0, t)" using that f by (auto simp: command_receive_def k_def Let_def)
  qed
  ultimately show ?thesis using f secure_block [OF kept, of "cmd ! 2" n] by (simp add: k_def)
qed

section \<open>The secure area\<close>

text \<open>C15: a dump with a decrypted secure area, which the card encrypts again when it is made, is
  given back by \<^verbatim>\<open>decrypt_secure_area\<close> byte for byte, whatever the BIOS keys.\<close>

theorem secure_area_round_trip:
  assumes "from_memory bytes = Some r" "length bytes < 2 ^ 32" "new_cart bios tbl r = Some c"
    "decrypted_dump r (hd_arm9_rom_offset (cart_header_of r))"
  shows "fst (decrypt_secure_area bios c) = rs_read r (hd_arm9_rom_offset (cart_header_of r)) 0x800"
  by (rule secure_area_restored [OF assms(3) from_memory_ok [OF assms(1,2)] assms(4)])

section \<open>Two small images\<close>

text \<open>Sixteen pages of zeros.\<close>

definition zero_rom :: rom_source where
  "zero_rom = \<lparr> rs_data = replicate 0x10000 0, rs_mask = 0xFFFF, rs_tail = [], rs_overlay = [] \<rparr>"

definition zero_cart :: cart where
  "zero_cart = the (new_cart (\<lambda>_. 0) [] zero_rom)"

lemma zero_rom_memory: "from_memory (replicate 0x10000 0) = Some zero_rom"
proof -
  have "pad_size 20 ROM_PAGE 0x10000 = Some 0x10000" "unat ((0x10000 :: u32) AND (ROM_PAGE - 1)) = 0" by code_simp+
  moreover have "of_nat (length (replicate 0x10000 (0 :: u8))) = (0x10000 :: u32)" by (simp only: length_replicate of_nat_numeral)
  ultimately show ?thesis unfolding from_memory_def Let_def zero_rom_def by (simp del: replicate.simps)
qed

lemma zero_rom_page: "rom_page_base zero_rom a = 0 \<Longrightarrow> rs_page zero_rom a = replicate 4096 0"
  by (simp add: rs_page_def zero_rom_def page_unpatched_def ROM_PAGE_def rs_size_def)

lemma zero_rom_read:
  assumes "rom_page_base zero_rom a = 0" "unat a mod 4096 + n \<le> 4096"
  shows "rs_read zero_rom a n = replicate n 0"
  using assms by (simp add: rs_read_inside zero_rom_page)

lemma zero_rom_header: "hd_arm9_rom_offset (cart_header_of zero_rom) = 0"
proof -
  have "rom_page_base zero_rom 0x20 = 0" by (simp add: rom_page_base_def ROM_PAGE_def zero_rom_def)
  then have "rs_read zero_rom 0x20 4 = replicate 4 0" by (rule zero_rom_read) simp
  then show ?thesis by (simp add: cart_header_of_def rs_read32_def le32_def word4_def)
qed

lemma zero_cart_new: "new_cart (\<lambda>_. 0) [] zero_rom = Some zero_cart"
proof -
  have "\<exists>c. new_cart (\<lambda>_. 0) [] zero_rom = Some c"
    by (simp add: new_cart_def seal_secure_area_def zero_rom_header Let_def)
  then show ?thesis by (auto simp: zero_cart_def)
qed

text \<open>A dump whose ARM9 code, at \<^verbatim>\<open>0x4000\<close>, begins with the marker.\<close>

definition dump_bytes :: "u8 list" where
  "dump_bytes = replicate 0x20 0 @ le_bytes32 0x4000 @ replicate 0x3FDC 0 @ le_bytes32 secure_marker @ le_bytes32 secure_marker @
     replicate 0xFF8 0"

definition dump_rom :: rom_source where
  "dump_rom = \<lparr> rs_data = dump_bytes, rs_mask = 0x7FFF, rs_tail = [], rs_overlay = [] \<rparr>"

lemma length_dump: "length dump_bytes = 0x5000"
  by (simp add: dump_bytes_def)

lemma dump_rom_memory: "from_memory dump_bytes = Some dump_rom"
proof -
  have "pad_size 20 ROM_PAGE 0x5000 = Some 0x8000" "unat ((0x5000 :: u32) AND (ROM_PAGE - 1)) = 0" by code_simp+
  moreover have "of_nat (length dump_bytes) = (0x5000 :: u32)" by (simp only: length_dump of_nat_numeral)
  ultimately show ?thesis unfolding from_memory_def Let_def dump_rom_def by simp
qed

text \<open>Its pages 0 and 4.\<close>

lemma dump_page: "rom_page_base dump_rom a = p \<Longrightarrow> p \<in> {0, 0x4000} \<Longrightarrow> rs_page dump_rom a = take 4096 (drop (unat p) dump_bytes)"
  using length_dump by (auto simp: rs_page_def dump_rom_def page_unpatched_def ROM_PAGE_def rs_size_def)

lemma dump_header: "hd_arm9_rom_offset (cart_header_of dump_rom) = 0x4000"
proof -
  have "rom_page_base dump_rom 0x20 = 0" by (simp add: rom_page_base_def ROM_PAGE_def dump_rom_def)
  then have "rs_read dump_rom 0x20 4 = take 4 (drop 0x20 (take 4096 dump_bytes))"
    by (subst rs_read_inside) (simp_all add: dump_page)
  also have "\<dots> = le_bytes32 0x4000" by (simp add: dump_bytes_def)
  finally show ?thesis by (simp add: cart_header_of_def rs_read32_def)
qed

lemma dump_decrypted: "decrypted_dump dump_rom 0x4000"
proof -
  have b: "rom_page_base dump_rom 0x4000 = 0x4000" "rom_page_base dump_rom 0x4010 = 0x4000"
    by (simp_all add: rom_page_base_def ROM_PAGE_def dump_rom_def)
  have pg: "take 4096 (drop 0x4000 dump_bytes) = le_bytes32 secure_marker @ le_bytes32 secure_marker @ replicate 0xFF8 0"
    by (simp add: dump_bytes_def)
  have r: "rs_read dump_rom 0x4000 n = take n (le_bytes32 secure_marker @ le_bytes32 secure_marker @ replicate 0xFF8 0)"
    if "n \<le> 4096" for n
    using that by (simp add: rs_read_inside dump_page [OF b(1)] pg)
  have "rs_read dump_rom 0x4010 4 = take 4 (drop 0x10 (le_bytes32 secure_marker @ le_bytes32 secure_marker @ replicate 0xFF8 0))"
    by (simp add: rs_read_inside dump_page [OF b(2)] pg)
  also have "\<dots> = replicate 4 0" by simp
  finally have "rs_read32 dump_rom 0x4010 = 0" by (simp add: rs_read32_def le32_def word4_def)
  then show ?thesis by (simp add: decrypted_dump_def marked_def rs_read32_def r secure_marker_def)
qed

lemma dump_cart_new: "\<exists>c. new_cart (\<lambda>_. 0) [] dump_rom = Some c"
  by (simp add: new_cart_def seal_secure_area_def dump_header ROM_PAGE_def Let_def)

theorem secure_area_round_trip_witness:
  "fst (decrypt_secure_area (\<lambda>_. 0) (the (new_cart (\<lambda>_. 0) [] dump_rom))) = rs_read dump_rom 0x4000 0x800"
proof -
  obtain c where c: "new_cart (\<lambda>_. 0) [] dump_rom = Some c" using dump_cart_new by blast
  have "length dump_bytes < 2 ^ 32" by (simp add: length_dump)
  then show ?thesis
    using secure_area_round_trip [OF dump_rom_memory _ c] dump_decrypted unfolding dump_header c by simp
qed

lemma new_cart_in_reset: "new_cart bios tbl r = Some c \<Longrightarrow> ct_in_reset c"
  by (auto simp: new_cart_def Let_def split: option.splits)

theorem key1_dialogue_witness:
  "let t = command_start (\<lambda>_. 0)
     (host_command (key1_init (\<lambda>_. 0) (hd_game_code (ct_header zero_cart)) 2 2) [0x20, 1, 0x50, 3, 4, 5, 6, 7])
     (command_start (\<lambda>_. 0) [0x3C, 0, 0, 0, 0, 0, 0, 0] (set_reset False zero_cart))
   in ct_rom_cmd t = [0x20, 1, 0x50, 3, 4, 5, 6, 7] \<and>
     card_replies 2 t = [le32 (rs_page (ct_rom zero_cart) 0x5000) 0, le32 (rs_page (ct_rom zero_cart) 0x5000) 4]"
  using key1_dialogue [OF card_reachable.start zero_cart_new new_cart_in_reset [OF zero_cart_new],
      of "[0x3C, 0, 0, 0, 0, 0, 0, 0]" "[0x20, 1, 0x50, 3, 4, 5, 6, 7]" 2]
  by (simp add: Let_def upt_conv_Cons)

text \<open>The small card booted directly, and asked for the word at \<^verbatim>\<open>0x10\<close>.\<close>

definition asked_cart :: cart where
  "asked_cart = command_start (\<lambda>_. 0) [0xB7, 0, 0, 0, 0x10, 0, 0, 0] (cart_direct_boot ((cart_reset zero_cart)\<lparr> ct_key1 := [] \<rparr>))"

theorem secure_area_unreadable_witness:
  "\<exists>p (lo :: u32). 0x8000 \<le> p \<and> p \<le> rs_mask zero_rom \<and> p AND 0xFFF = 0 \<and>
    fst (command_receive asked_cart) = le32 (map (\<lambda>i. rs_page (ct_rom zero_cart) p ! unat (lo + of_nat i AND 0xFFF)) [0..<4]) 0"
proof (rule secure_area_unreadable [OF _ zero_cart_new])
  show "card_reachable (\<lambda>_. 0) zero_cart asked_cart"
    unfolding asked_cart_def by (intro card_reachable.command card_reachable.boot card_reachable.start)
  show "rom_ok zero_rom" by (rule from_memory_ok [OF zero_rom_memory]) (simp only: length_replicate, simp)
  show "0x8000 \<le> rs_mask zero_rom" by (simp add: zero_rom_def)
qed (simp_all add: asked_cart_def command_start_def cart_direct_boot_def cart_reset_def Let_def)

end
