(* ===== verification/SaveDetect.thy ===== *)
theory SaveDetect imports SaveSpec begin

text \<open>
  Detection: the chip a first write names, given the bytes of that write again, ends in the state
  in which the same chip, known from the start, would have been left.
\<close>

section \<open>Transactions\<close>

definition send :: "u8 list \<Rightarrow> save_chip \<Rightarrow> save_chip" where
  "send = fold (\<lambda>v s. snd (spi_transfer v s))"

definition transaction :: "u8 list \<Rightarrow> save_chip \<Rightarrow> save_chip" where
  "transaction tx s = spi_release (send tx (spi_select s))"

lemma send_simps [simp]: "send [] s = s" "send (v # vs) s = send vs (snd (spi_transfer v s))"
  by (simp_all add: send_def)

section \<open>What the chips leave alone\<close>

lemmas chip_parts = sram_put_def touch_def next_addr_def mark_dirty_def shift_addr_def write_status_def sram_at_def sram_mask_def

lemma fit_flash_frame [simp]:
  "sv_type (fit_flash a s) = sv_type s" "sv_pos (fit_flash a s) = sv_pos s" "sv_ir_cart (fit_flash a s) = sv_ir_cart s"
  "sv_cmd (fit_flash a s) = sv_cmd s" "sv_listed (fit_flash a s) = sv_listed s" "sv_status (fit_flash a s) = sv_status s"
  "sv_addr (fit_flash a s) = sv_addr s"
  by (simp_all add: fit_flash_def Let_def)

lemma erase_pos [simp]: "sv_pos (flash_erase n s) = sv_pos s" "sv_ir_cart (flash_erase n s) = sv_ir_cart s"
  by (induction n arbitrary: s) (simp_all add: chip_parts)

lemma parts_pos [simp]:
  "sv_pos (sram_put i v s) = sv_pos s" "sv_pos (next_addr s) = sv_pos s" "sv_pos (mark_dirty s) = sv_pos s"
  "sv_pos (shift_addr v s) = sv_pos s" "sv_pos (write_status v s) = sv_pos s"
  "sv_ir_cart (sram_put i v s) = sv_ir_cart s" "sv_ir_cart (next_addr s) = sv_ir_cart s" "sv_ir_cart (mark_dirty s) = sv_ir_cart s"
  "sv_ir_cart (shift_addr v s) = sv_ir_cart s" "sv_ir_cart (write_status v s) = sv_ir_cart s"
  by (simp_all add: chip_parts)

lemma chip_frame [simp]:
  "sv_type (snd (spi_chip v s)) = sv_type s" "sv_pos (snd (spi_chip v s)) = sv_pos s"
  "sv_ir_cart (snd (spi_chip v s)) = sv_ir_cart s"
  by (auto simp: spi_chip_def spi_eeprom_tiny_def spi_eeprom_def spi_flash_def spi_detect_def Let_def split: save_type.split)

text \<open>A chip that is known does not touch what detection collects.\<close>

lemma parts_detect [simp]:
  "sram_put i v (s\<lparr> sv_detect := l \<rparr>) = (sram_put i v s)\<lparr> sv_detect := l \<rparr>"
  "next_addr (s\<lparr> sv_detect := l \<rparr>) = (next_addr s)\<lparr> sv_detect := l \<rparr>"
  "mark_dirty (s\<lparr> sv_detect := l \<rparr>) = (mark_dirty s)\<lparr> sv_detect := l \<rparr>"
  "shift_addr v (s\<lparr> sv_detect := l \<rparr>) = (shift_addr v s)\<lparr> sv_detect := l \<rparr>"
  "write_status v (s\<lparr> sv_detect := l \<rparr>) = (write_status v s)\<lparr> sv_detect := l \<rparr>"
  "fit_flash a (s\<lparr> sv_detect := l \<rparr>) = (fit_flash a s)\<lparr> sv_detect := l \<rparr>"
  "touch i (s\<lparr> sv_detect := l \<rparr>) = (touch i s)\<lparr> sv_detect := l \<rparr>"
  "sram_at i (s\<lparr> sv_detect := l \<rparr>) = sram_at i s" "sram_mask (s\<lparr> sv_detect := l \<rparr>) = sram_mask s"
  by (simp_all add: chip_parts fit_flash_def Let_def)

lemma erase_detect [simp]: "flash_erase n (s\<lparr> sv_detect := l \<rparr>) = (flash_erase n s)\<lparr> sv_detect := l \<rparr>"
  by (induction n arbitrary: s) simp_all

lemma flash_detect: "snd (spi_flash v (s\<lparr> sv_detect := l \<rparr>)) = (snd (spi_flash v s))\<lparr> sv_detect := l \<rparr>"
proof -
  define addressing where "addressing \<longleftrightarrow> sv_pos s \<le> 3 \<and> sv_cmd s \<in> {0x02, 0x03, 0x0A, 0x0B, 0xD8, 0xDB}"
  define t where "t = (if addressing
     then (let s1 = shift_addr v s in if sv_pos s1 = 3 \<and> \<not> sv_listed s1 then fit_flash (sv_addr s1) s1 else s1) else s)"
  have t: "(if addressing
     then (let s1 = shift_addr v (s\<lparr> sv_detect := l \<rparr>) in if sv_pos s1 = 3 \<and> \<not> sv_listed s1 then fit_flash (sv_addr s1) s1 else s1)
     else s\<lparr> sv_detect := l \<rparr>) = t\<lparr> sv_detect := l \<rparr>"
    by (simp add: t_def Let_def)
  have a: "(sv_pos (s\<lparr> sv_detect := l \<rparr>) \<le> 3 \<and> sv_cmd (s\<lparr> sv_detect := l \<rparr>) \<in> {0x02, 0x03, 0x0A, 0x0B, 0xD8, 0xDB}) = addressing"
    by (simp add: addressing_def)
  show ?thesis
    unfolding spi_flash_def Let_def a t [unfolded Let_def] addressing_def [symmetric] t_def [unfolded Let_def, symmetric]
    by simp
qed

lemma chip_detect:
  "sv_type s \<noteq> Detect \<Longrightarrow> snd (spi_chip v (s\<lparr> sv_detect := l \<rparr>)) = (snd (spi_chip v s))\<lparr> sv_detect := l \<rparr>"
  by (auto simp: spi_chip_def flash_detect spi_eeprom_tiny_def spi_eeprom_def Let_def split: save_type.split)

lemma replay_detect:
  "sv_type s \<noteq> Detect \<Longrightarrow> replay vs i (s\<lparr> sv_detect := l \<rparr>) = (replay vs i s)\<lparr> sv_detect := l \<rparr>"
proof (induction vs arbitrary: i s)
  case (Cons v vs)
  have e: "s\<lparr> sv_detect := l, sv_pos := i \<rparr> = s\<lparr> sv_pos := i \<rparr>\<lparr> sv_detect := l \<rparr>" by simp
  show ?case using Cons chip_detect [of "s\<lparr> sv_pos := i \<rparr>" v l] unfolding replay.simps e by simp
qed simp

lemma replay_pos: "(replay vs i (s\<lparr> sv_pos := p \<rparr>))\<lparr> sv_pos := q \<rparr> = (replay vs i s)\<lparr> sv_pos := q \<rparr>"
  by (cases vs) simp_all

section \<open>The two runs\<close>

lemma transfer_chip:
  assumes "\<not> sv_ir_cart s" "sv_type s \<noteq> SNone" "sv_pos s \<noteq> 0"
  shows "snd (spi_transfer v s) = (snd (spi_chip v s))\<lparr> sv_pos := sv_pos s + 1 \<rparr>"
  using assms chip_frame(2) [of v s] by (cases "spi_chip v s") (simp add: spi_transfer_def spi_byte_def)

lemma of_nat_pos: "0 < j \<Longrightarrow> j < 2 ^ 32 \<Longrightarrow> (of_nat j :: u32) \<noteq> 0"
  using unat_small [of j] by auto

lemma send_detect:
  assumes "\<not> sv_ir_cart s" "sv_type s = Detect" "sv_pos s = of_nat j" "0 < j" "j + length vs < 2 ^ 32"
    "length (sv_detect s) + length vs \<le> 0x1000"
  shows "send vs s = s\<lparr> sv_detect := sv_detect s @ vs, sv_pos := of_nat (j + length vs) \<rparr>"
  using assms
proof (induction vs arbitrary: s j)
  case (Cons v vs)
  have n: "sv_pos s \<noteq> 0" using of_nat_pos [of j] Cons.prems(3-5) by simp
  let ?s = "s\<lparr> sv_detect := sv_detect s @ [v], sv_pos := of_nat (Suc j) \<rparr>"
  have "snd (spi_transfer v s) = ?s"
    using Cons.prems transfer_chip [OF _ _ n, of v] by (simp add: spi_chip_def spi_detect_def Let_def)
  moreover have "send vs ?s = ?s\<lparr> sv_detect := sv_detect ?s @ vs, sv_pos := of_nat (Suc j + length vs) \<rparr>"
    using Cons.prems by (intro Cons.IH) simp_all
  ultimately show ?case by simp
qed simp

lemma send_known:
  assumes "\<not> sv_ir_cart s" "sv_type s \<noteq> Detect" "sv_type s \<noteq> SNone" "sv_pos s = of_nat j" "0 < j" "j + length vs < 2 ^ 32"
  shows "send vs s = (replay vs (of_nat j) s)\<lparr> sv_pos := of_nat (j + length vs) \<rparr>"
  using assms
proof (induction vs arbitrary: s j)
  case (Cons v vs)
  have n: "sv_pos s \<noteq> 0" using of_nat_pos [of j] Cons.prems(4-6) by simp
  have s: "s\<lparr> sv_pos := of_nat j \<rparr> = s" using Cons.prems(4) by (metis save_chip.surjective save_chip.update_convs(8))
  let ?s = "(snd (spi_chip v s))\<lparr> sv_pos := of_nat (Suc j) \<rparr>"
  have "snd (spi_transfer v s) = ?s" using transfer_chip [OF Cons.prems(1,3) n] Cons.prems(4) by (simp add: add.commute)
  moreover have "send vs ?s = (replay vs (of_nat (Suc j)) ?s)\<lparr> sv_pos := of_nat (Suc j + length vs) \<rparr>"
    using Cons.prems by (intro Cons.IH) simp_all
  ultimately show ?case using s replay_pos [where vs = vs and i = "of_nat (Suc j)" and s = "snd (spi_chip v s)"] by (simp add: add.commute)
qed simp

lemma transfer_first:
  assumes "\<not> sv_ir_cart s" "sv_type s \<noteq> SNone" "sv_pos s = 0" "cmd \<noteq> 4" "cmd \<noteq> 6"
  shows "snd (spi_transfer cmd s) =
    (if sv_type s = Detect then s\<lparr> sv_cmd := cmd, sv_addr := 0, sv_detect := [cmd], sv_pos := 1 \<rparr>
     else s\<lparr> sv_cmd := cmd, sv_addr := 0, sv_pos := 1 \<rparr>)"
  using assms by (simp add: spi_transfer_def spi_byte_def Let_def)

lemma detected_type: "detected cmd len = Some (t, n) \<Longrightarrow> t \<noteq> Detect \<and> t \<noteq> SNone"
  by (auto simp: detected_def split: if_splits)

lemma one_of_nat: "(1 :: u32) = of_nat 1"
  by simp

lemma detection_run:
  assumes "sv_type s = Detect" "\<not> sv_ir_cart s" "cmd = 0x02 \<or> cmd = 0x0A \<or> cmd = 0xD8 \<or> cmd = 0xDB"
    "length tx < 0x1000" "detected cmd (of_nat (Suc (length tx))) = Some (t, n)"
  shows "transaction (cmd # tx) s =
    (replay tx 1 (set_chip t n (s\<lparr> sv_detect := [], sv_cmd := cmd, sv_addr := 0 \<rparr>)))\<lparr> sv_pos := 0, sv_ir_pos := 0 \<rparr>"
proof -
  let ?a = "s\<lparr> sv_cmd := cmd, sv_addr := 0, sv_detect := [cmd], sv_pos := 1 \<rparr>"
  have c: "cmd \<noteq> 4" "cmd \<noteq> 6" using assms(3) by auto
  have "send (cmd # tx) (spi_select s) = send tx ?a"
    using transfer_first [of "spi_select s", OF _ _ _ c] assms(1,2) by (simp add: spi_select_def)
  also have "\<dots> = ?a\<lparr> sv_detect := cmd # tx, sv_pos := of_nat (1 + length tx) \<rparr>"
    using send_detect [of ?a 1 tx] assms(1,2,4) by simp
  finally have e: "send (cmd # tx) (spi_select s) =
      s\<lparr> sv_cmd := cmd, sv_addr := 0, sv_detect := cmd # tx, sv_pos := of_nat (Suc (length tx)) \<rparr>" by simp
  have n: "(of_nat (Suc (length tx)) :: u32) > 0"
    using of_nat_pos [of "Suc (length tx)"] assms(4) by (simp add: word_gt_0 del: of_nat_Suc)
  have d: "sv_pos (s\<lparr> sv_cmd := cmd, sv_addr := 0, sv_detect := cmd # tx, sv_pos := of_nat (Suc (length tx)) \<rparr>) = of_nat (Suc (length tx))"
    by simp
  let ?f = "s\<lparr> sv_cmd := cmd, sv_addr := 0, sv_detect := cmd # tx, sv_pos := of_nat (Suc (length tx)) \<rparr>"
  have "detect_release ?f = replay tx 1 (set_chip t n (?f\<lparr> sv_detect := [] \<rparr>)\<lparr> sv_cmd := cmd, sv_addr := 0 \<rparr>)"
    using assms(3,5) by (simp add: detect_release_def del: of_nat_Suc)
  also have "set_chip t n (?f\<lparr> sv_detect := [] \<rparr>)\<lparr> sv_cmd := cmd, sv_addr := 0 \<rparr> =
      (set_chip t n (s\<lparr> sv_detect := [], sv_cmd := cmd, sv_addr := 0 \<rparr>))\<lparr> sv_pos := of_nat (Suc (length tx)) \<rparr>"
    by (simp add: set_chip_def del: of_nat_Suc)
  finally show ?thesis
    using n assms(1) replay_pos [where q = 0] unfolding transaction_def e spi_release_def Let_def
    by (simp del: of_nat_Suc)
qed

lemma known_run:
  assumes "sv_type s \<noteq> Detect" "sv_type s \<noteq> SNone" "\<not> sv_ir_cart s" "cmd \<noteq> 4" "cmd \<noteq> 6" "Suc (length tx) < 2 ^ 32"
  shows "transaction (cmd # tx) s = (replay tx 1 (s\<lparr> sv_cmd := cmd, sv_addr := 0 \<rparr>))\<lparr> sv_pos := 0, sv_ir_pos := 0 \<rparr>"
proof -
  let ?a = "s\<lparr> sv_cmd := cmd, sv_addr := 0 \<rparr>"
  have "send (cmd # tx) (spi_select s) = send tx (?a\<lparr> sv_pos := 1 \<rparr>)"
    using transfer_first [of "spi_select s", OF _ _ _ assms(4,5)] assms(1-3) by (simp add: spi_select_def)
  also have "\<dots> = (replay tx 1 (?a\<lparr> sv_pos := 1 \<rparr>))\<lparr> sv_pos := of_nat (1 + length tx) \<rparr>"
    using send_known [of "?a\<lparr> sv_pos := 1 \<rparr>" 1 tx] assms by simp
  also have "\<dots> = (replay tx 1 ?a)\<lparr> sv_pos := of_nat (1 + length tx) \<rparr>" by (rule replay_pos)
  finally have e: "send (cmd # tx) (spi_select s) = (replay tx 1 ?a)\<lparr> sv_pos := of_nat (1 + length tx) \<rparr>" .
  have "sv_type (replay tx i u) = sv_type u" for i u by (induction tx arbitrary: i u) simp_all
  then show ?thesis unfolding transaction_def e spi_release_def using assms(1) by simp
qed

text \<open>C17: a save chip found out from its first write holds what the same chip, blank and known from
  the start, would hold after that write, for a cartridge without the infrared front end and a write of at most
  4096 bytes, the command included, which is what the detector records; of a longer one the rest is lost.\<close>

theorem detection_loses_nothing:
  assumes "sv_type s = Detect" "\<not> sv_ir_cart s" "cmd = 0x02 \<or> cmd = 0x0A \<or> cmd = 0xD8 \<or> cmd = 0xDB"
    "length tx < 0x1000" "detected cmd (of_nat (Suc (length tx))) = Some (t, n)"
  shows "transaction (cmd # tx) s = (transaction (cmd # tx) (set_chip t n s))\<lparr> sv_detect := [] \<rparr>"
proof -
  have c: "cmd \<noteq> 4" "cmd \<noteq> 6" using assms(3) by auto
  let ?a = "(set_chip t n s)\<lparr> sv_cmd := cmd, sv_addr := 0 \<rparr>"
  have t: "sv_type ?a \<noteq> Detect" using detected_type [OF assms(5)] by (simp add: set_chip_def)
  have "transaction (cmd # tx) s = (replay tx 1 (?a\<lparr> sv_detect := [] \<rparr>))\<lparr> sv_pos := 0, sv_ir_pos := 0 \<rparr>"
  proof -
    have e: "set_chip t n (s\<lparr> sv_detect := [], sv_cmd := cmd, sv_addr := 0 \<rparr>) = ?a\<lparr> sv_detect := [] \<rparr>"
      by (simp add: set_chip_def)
    show ?thesis unfolding detection_run [OF assms] e ..
  qed
  also have "\<dots> = (replay tx 1 ?a)\<lparr> sv_pos := 0, sv_ir_pos := 0 \<rparr>\<lparr> sv_detect := [] \<rparr>"
    unfolding replay_detect [OF t] by simp
  also have "(replay tx 1 ?a)\<lparr> sv_pos := 0, sv_ir_pos := 0 \<rparr> = transaction (cmd # tx) (set_chip t n s)"
    using detected_type [OF assms(5)] assms(2,4) by (intro known_run [symmetric] c) (simp_all add: set_chip_def)
  finally show ?thesis .
qed

text \<open>A blank cartridge no table lists, its first write one byte at \<^verbatim>\<open>0x0102\<close> of an EEPROM.\<close>

lemma unlisted_new: "sv_type (new_save [] code) = Detect \<and> sv_ir_cart (new_save [] code) = (code AND 0xFF = 0x49)"
  by (simp add: new_save_def known_game_code_def lookup_save_type_def search_save_type.simps Let_def split: prod.split)

theorem detection_loses_nothing_witness:
  "transaction [0x02, 0x01, 0x02, 0x7F] (new_save [] 0x41414141) =
   (transaction [0x02, 0x01, 0x02, 0x7F] (set_chip Eeprom 65536 (new_save [] 0x41414141)))\<lparr> sv_detect := [] \<rparr>"
  by (rule detection_loses_nothing) (simp_all add: unlisted_new detected_def)

end
