(* ===== verification/SaveStore.thy ===== *)
theory SaveStore imports SaveDetect begin

text \<open>
  The save chips as stores: what a write transaction puts at an address, a read transaction of the
  same address gives back.  The contract of a chip is the locale \<open>addressed_chip\<close>, and the three
  chips of the code are interpretations of it (the EEPROM twice, with two and three address bytes).
\<close>

section \<open>A byte at the running address\<close>

definition here :: "save_chip \<Rightarrow> nat" where
  "here s = unat (sv_addr s) mod length (sv_sram s)"

definition put_byte :: "u8 \<Rightarrow> save_chip \<Rightarrow> save_chip" where
  "put_byte v s = next_addr (mark_dirty (s\<lparr> sv_sram := (sv_sram s)[here s := v] \<rparr>))"

text \<open>The answers of a chip to bytes at positions \<open>i\<close> and on.\<close>

fun replies :: "u8 list \<Rightarrow> u32 \<Rightarrow> save_chip \<Rightarrow> u8 list" where
  "replies [] i s = []"
| "replies (v # vs) i s =
     (let (r, t) = spi_chip v (s\<lparr> sv_pos := i \<rparr>) in r # replies vs (i + 1) t)"

fun answers :: "u8 list \<Rightarrow> save_chip \<Rightarrow> u8 list" where
  "answers [] s = []"
| "answers (v # vs) s = fst (spi_transfer v s) # answers vs (snd (spi_transfer v s))"

text \<open>\<open>n\<close> bytes read with command 3 from the address in \<open>bs\<close>.\<close>

definition read_back :: "u8 list \<Rightarrow> nat \<Rightarrow> save_chip \<Rightarrow> u8 list" where
  "read_back bs n s = drop (Suc (length bs)) (answers (0x03 # bs @ replicate n 0) (spi_select s))"

lemma replay_append: "replay (xs @ ys) i s = replay ys (i + of_nat (length xs)) (replay xs i s)"
  by (induction xs arbitrary: i s) (simp_all add: algebra_simps)

lemma replies_append: "replies (xs @ ys) i s = replies xs i s @ replies ys (i + of_nat (length xs)) (replay xs i s)"
  by (induction xs arbitrary: i s) (simp_all add: algebra_simps split: prod.split)

lemma length_replies [simp]: "length (replies vs i s) = length vs"
  by (induction vs arbitrary: i s) (simp_all split: prod.split)

lemma replies_pos: "replies vs i (s\<lparr> sv_pos := p \<rparr>) = replies vs i s"
  by (cases vs) simp_all

lemma transfer_answer:
  assumes "\<not> sv_ir_cart s" "sv_type s \<noteq> SNone" "sv_pos s \<noteq> 0"
  shows "spi_transfer v s = (fst (spi_chip v s), (snd (spi_chip v s))\<lparr> sv_pos := sv_pos s + 1 \<rparr>)"
  using assms chip_frame(2) [of v s] by (cases "spi_chip v s") (simp add: spi_transfer_def spi_byte_def)

lemma answers_known:
  assumes "\<not> sv_ir_cart s" "sv_type s \<noteq> SNone" "sv_pos s = of_nat j" "0 < j" "j + length vs < 2 ^ 32"
  shows "answers vs s = replies vs (of_nat j) s"
  using assms
proof (induction vs arbitrary: s j)
  case (Cons v vs)
  have n: "sv_pos s \<noteq> 0" using of_nat_pos [of j] Cons.prems(3-5) by simp
  have s: "s\<lparr> sv_pos := of_nat j \<rparr> = s" using Cons.prems(3) by (metis save_chip.surjective save_chip.update_convs(8))
  let ?s = "(snd (spi_chip v s))\<lparr> sv_pos := of_nat (Suc j) \<rparr>"
  have "answers vs ?s = replies vs (of_nat (Suc j)) ?s" using Cons.prems by (intro Cons.IH) simp_all
  then have "answers vs ?s = replies vs (of_nat j + 1) (snd (spi_chip v s))"
    unfolding replies_pos by (simp add: add.commute)
  moreover have "spi_transfer v s = (fst (spi_chip v s), ?s)"
    using transfer_answer [OF Cons.prems(1,2) n] Cons.prems(3) by (simp add: add.commute)
  ultimately show ?case using s by (simp split: prod.split)
qed simp

lemma running_address:
  assumes "pow2 m"
  shows "unat (a + of_nat j :: u32) mod m = (unat a + j) mod m"
proof -
  obtain k where k: "k \<le> 26" "m = 2 ^ k" using assms by (auto simp: pow2_def)
  have "(2::nat) ^ k dvd 2 ^ 32" by (rule le_imp_power_dvd) (use k in simp)
  then have d: "m dvd 2 ^ 32" by (simp only: k(2))
  have "unat (a + of_nat j :: u32) = (unat a + j mod 2 ^ 32) mod 2 ^ 32"
    by (simp add: unat_word_ariths unsigned_of_nat take_bit_eq_mod)
  then have "unat (a + of_nat j :: u32) mod m = (unat a + j mod 2 ^ 32) mod m" using d by (simp add: mod_mod_cancel)
  also have "\<dots> = (unat a + j) mod m" using d by (metis mod_add_right_eq mod_mod_cancel)
  finally show ?thesis .
qed

lemma other_slot: "0 < d \<Longrightarrow> d < m \<Longrightarrow> (x + d) mod m \<noteq> x mod (m :: nat)"
  by (metis add_diff_cancel_left' dvd_imp_le le_add1 mod_eq_dvd_iff_nat not_less)

section \<open>The contract\<close>

locale addressed_chip =
  fixes t :: save_type and ok :: "save_chip \<Rightarrow> bool" and hdr :: nat and wcmd :: u8
    and addr_of :: "u8 list \<Rightarrow> u32" and fit :: "u32 \<Rightarrow> save_chip \<Rightarrow> save_chip"
  assumes chip: "ok s \<Longrightarrow> sv_type s = t \<and> \<not> sv_ir_cart s \<and> pow2 (length (sv_sram s)) \<and> 0 < length (sv_sram s)"
    and known: "t \<noteq> Detect" "t \<noteq> SNone" "wcmd \<noteq> 4" "wcmd \<noteq> 6" "hdr \<le> 3"
    and ok_fields: "ok (s\<lparr> sv_pos := p \<rparr>) = ok s" "ok (s\<lparr> sv_cmd := c \<rparr>) = ok s" "ok (s\<lparr> sv_addr := a \<rparr>) = ok s"
      "ok (s\<lparr> sv_ir_pos := p \<rparr>) = ok s"
    and ok_put: "ok s \<Longrightarrow> ok (put_byte v s)"
    and write_step: "ok s \<Longrightarrow> sv_cmd s = wcmd \<Longrightarrow> tst (sv_status s) 2 \<Longrightarrow> hdr < unat (sv_pos s) \<Longrightarrow>
      snd (spi_chip v s) = put_byte v s"
    and read_step: "ok s \<Longrightarrow> sv_cmd s = 3 \<Longrightarrow> hdr < unat (sv_pos s) \<Longrightarrow>
      spi_chip v s = (sv_sram s ! here s, next_addr s)"
    and header: "ok s \<Longrightarrow> length bs = hdr \<Longrightarrow> c = wcmd \<or> c = 3 \<Longrightarrow>
      replay bs 1 (s\<lparr> sv_cmd := c, sv_addr := 0 \<rparr>) =
        (fit (addr_of bs) s)\<lparr> sv_cmd := c, sv_addr := addr_of bs, sv_pos := of_nat hdr \<rparr>"
    and ok_fit: "ok s \<Longrightarrow> ok (fit a s) \<and> sv_status (fit a s) = sv_status s \<and> length (sv_sram s) \<le> length (sv_sram (fit a s))"
    and fit_again: "ok s \<Longrightarrow> ok u \<Longrightarrow> length (sv_sram u) = length (sv_sram (fit a s)) \<Longrightarrow> sv_listed u = sv_listed (fit a s) \<Longrightarrow> fit a u = u"
begin

lemma put_byte_fields:
  "sv_cmd (put_byte v s) = sv_cmd s" "sv_status (put_byte v s) = sv_status s" "sv_listed (put_byte v s) = sv_listed s"
  "length (sv_sram (put_byte v s)) = length (sv_sram s)" "sv_addr (put_byte v s) = sv_addr s + 1"
  "sv_sram (put_byte v s) = (sv_sram s)[here s := v]"
  by (simp_all add: put_byte_def next_addr_def mark_dirty_def)

lemma writes:
  assumes "ok s" "sv_cmd s = wcmd" "tst (sv_status s) 2" "hdr < i" "i + length vs < 2 ^ 32" "length vs \<le> length (sv_sram s)"
  shows "ok (replay vs (of_nat i) s) \<and> sv_listed (replay vs (of_nat i) s) = sv_listed s \<and>
    length (sv_sram (replay vs (of_nat i) s)) = length (sv_sram s) \<and>
    (\<forall>j<length vs. sv_sram (replay vs (of_nat i) s) ! ((unat (sv_addr s) + j) mod length (sv_sram s)) = vs ! j) \<and>
    (\<forall>p<length (sv_sram s). (\<forall>j<length vs. p \<noteq> (unat (sv_addr s) + j) mod length (sv_sram s)) \<longrightarrow>
       sv_sram (replay vs (of_nat i) s) ! p = sv_sram s ! p)"
  using assms
proof (induction vs arbitrary: i s)
  case (Cons v vs)
  let ?m = "length (sv_sram s)"
  let ?a = "unat (sv_addr s)"
  let ?s = "put_byte v (s\<lparr> sv_pos := of_nat i \<rparr>)"
  have m: "pow2 ?m" "0 < ?m" using chip [OF Cons.prems(1)] by auto
  have "unat (of_nat i :: u32) = i" using Cons.prems(5) by (intro unat_small) simp
  then have step: "snd (spi_chip v (s\<lparr> sv_pos := of_nat i \<rparr>)) = ?s"
    using Cons.prems by (intro write_step) (simp_all add: ok_fields)
  have ok: "ok ?s" using Cons.prems(1) by (intro ok_put) (simp add: ok_fields)
  have f: "sv_cmd ?s = wcmd" "tst (sv_status ?s) 2" "length (sv_sram ?s) = ?m" "sv_addr ?s = sv_addr s + 1"
    "sv_listed ?s = sv_listed s" "sv_sram ?s = (sv_sram s)[?a mod ?m := v]"
    using Cons.prems(2,3) by (simp_all add: put_byte_fields here_def)
  let ?t = "replay vs (of_nat (Suc i)) ?s"
  have r: "replay (v # vs) (of_nat i) s = ?t" by (simp add: step add.commute)
  have addr: "(unat (sv_addr ?s) + j) mod ?m = (?a + Suc j) mod ?m" for j
    using running_address [OF m(1), of "sv_addr s" 1] f(4) by (metis (no_types, lifting) add.assoc mod_add_left_eq of_nat_1 plus_1_eq_Suc)
  have IH: "ok ?t \<and> sv_listed ?t = sv_listed s \<and> length (sv_sram ?t) = ?m \<and>
      (\<forall>j<length vs. sv_sram ?t ! ((?a + Suc j) mod ?m) = vs ! j) \<and>
      (\<forall>p<?m. (\<forall>j<length vs. p \<noteq> (?a + Suc j) mod ?m) \<longrightarrow> sv_sram ?t ! p = sv_sram ?s ! p)"
    using Cons.IH [OF ok f(1,2), of "Suc i"] Cons.prems(4-6) unfolding f(3,5) addr by simp
  have first: "?a mod ?m \<noteq> (?a + Suc j) mod ?m" if "j < length vs" for j
    using other_slot [of "Suc j" ?m ?a] that Cons.prems(6) by simp
  have "sv_sram ?t ! (?a mod ?m) = v" using IH first m(2) f(6) by simp
  then have "\<forall>j<length (v # vs). sv_sram ?t ! ((?a + j) mod ?m) = (v # vs) ! j"
    using IH by (auto simp: less_Suc_eq_0_disj)
  moreover have "sv_sram ?t ! p = sv_sram s ! p" if p: "p < ?m" "\<forall>j<length (v # vs). p \<noteq> (?a + j) mod ?m" for p
  proof -
    have "p \<noteq> ?a mod ?m" using p(2) by (metis add.right_neutral length_greater_0_conv list.distinct(1))
    moreover have "p \<noteq> (?a + Suc j) mod ?m" if "j < length vs" for j
      using p(2) that by (metis Suc_less_eq length_Cons)
    ultimately show ?thesis using IH p(1) f(6) by simp
  qed
  ultimately show ?case using IH unfolding r by blast
qed simp

lemma reads_memory:
  assumes "ok s" "sv_cmd s = 3" "hdr < i" "i + length vs < 2 ^ 32"
  shows "replies vs (of_nat i) s = map (\<lambda>j. sv_sram s ! ((unat (sv_addr s) + j) mod length (sv_sram s))) [0..<length vs]"
  using assms
proof (induction vs arbitrary: i s)
  case (Cons v vs)
  let ?m = "length (sv_sram s)"
  let ?s = "next_addr (s\<lparr> sv_pos := of_nat i \<rparr>)"
  have m: "pow2 ?m" using chip [OF Cons.prems(1)] by auto
  have "unat (of_nat i :: u32) = i" using Cons.prems(4) by (intro unat_small) simp
  then have step: "spi_chip v (s\<lparr> sv_pos := of_nat i \<rparr>) = (sv_sram s ! (unat (sv_addr s) mod ?m), ?s)"
    using read_step [of "s\<lparr> sv_pos := of_nat i \<rparr>" v] Cons.prems by (simp add: ok_fields here_def)
  have f: "sv_sram ?s = sv_sram s" "sv_cmd ?s = 3" "sv_addr ?s = sv_addr s + 1" "ok ?s"
    using Cons.prems(1,2) by (simp_all add: next_addr_def ok_fields)
  have addr: "(unat (sv_addr s + 1) + j) mod ?m = (unat (sv_addr s) + Suc j) mod ?m" for j
    using running_address [OF m, of "sv_addr s" 1] by (metis (no_types, lifting) add.assoc mod_add_left_eq of_nat_1 plus_1_eq_Suc)
  have "replies vs (of_nat (Suc i)) ?s = map (\<lambda>j. sv_sram s ! ((unat (sv_addr s) + Suc j) mod ?m)) [0..<length vs]"
    using Cons.IH [OF f(4,2), of "Suc i"] Cons.prems(3,4) unfolding f(1,3) addr by simp
  moreover have "map g [0..<length (v # vs)] = g 0 # map (\<lambda>j. g (Suc j)) [0..<length vs]" for g :: "nat \<Rightarrow> u8"
    by (simp only: length_Cons map_upt_Suc)
  ultimately show ?case using step by (simp add: add.commute del: upt_Suc)
qed simp

lemma write_then_read:
  assumes "ok s" "tst (sv_status s) 2" "length bs = hdr" "length vs \<le> length (sv_sram s)"
  shows "read_back bs (length vs) (transaction (wcmd # bs @ vs) s) = vs"
proof -
  let ?a = "addr_of bs"
  let ?f = "fit ?a s"
  let ?h = "?f\<lparr> sv_cmd := wcmd, sv_addr := ?a, sv_pos := of_nat hdr \<rparr>"
  let ?w = "replay vs (of_nat (Suc hdr)) ?h"
  have s: "sv_type s = t" "\<not> sv_ir_cart s" "pow2 (length (sv_sram s))" using chip [OF assms(1)] by auto
  have small: "length vs \<le> 2 ^ 26"
  proof -
    obtain k where "k \<le> 26" "length (sv_sram s) = 2 ^ k" using s(3) by (auto simp: pow2_def)
    moreover from this have "(2::nat) ^ k \<le> 2 ^ 26" by (intro power_increasing) auto
    ultimately show ?thesis using assms(4) by linarith
  qed
  note of = ok_fit [OF assms(1), of ?a]
  have h: "ok ?h" "sv_cmd ?h = wcmd" "tst (sv_status ?h) 2" "length vs \<le> length (sv_sram ?h)" "sv_addr ?h = ?a"
    using of assms(2,4) by (auto simp: ok_fields)
  note w = writes [OF h(1-3), of "Suc hdr" vs]
  have wr: "ok ?w" "sv_listed ?w = sv_listed ?f" "length (sv_sram ?w) = length (sv_sram ?f)"
    "\<forall>j<length vs. sv_sram ?w ! ((unat ?a + j) mod length (sv_sram ?f)) = vs ! j"
    using w h(4) known(5) small by simp_all
  have hdr1: "1 + of_nat (length bs) = (of_nat (Suc hdr) :: u32)" using assms(3) by simp
  have "replay (bs @ vs) 1 (s\<lparr> sv_cmd := wcmd, sv_addr := 0 \<rparr>) = ?w"
    using header [OF assms(1,3), of wcmd] unfolding replay_append hdr1 by simp
  moreover have "transaction (wcmd # bs @ vs) s =
      (replay (bs @ vs) 1 (s\<lparr> sv_cmd := wcmd, sv_addr := 0 \<rparr>))\<lparr> sv_pos := 0, sv_ir_pos := 0 \<rparr>"
    using known s assms(3) small by (intro known_run) simp_all
  ultimately have tr: "transaction (wcmd # bs @ vs) s = ?w\<lparr> sv_pos := 0, sv_ir_pos := 0 \<rparr>" by simp
  let ?u = "?w\<lparr> sv_pos := 1, sv_ir_pos := 0 \<rparr>"
  let ?r = "?u\<lparr> sv_cmd := 3, sv_addr := 0 \<rparr>"
  have u: "ok ?u" "sv_type ?u = t" "\<not> sv_ir_cart ?u" using wr(1) chip [OF wr(1)] by (simp_all add: ok_fields)
  have "snd (spi_transfer 3 (spi_select (transaction (wcmd # bs @ vs) s))) = ?r"
    using u known unfolding tr by (subst transfer_first) (simp_all add: spi_select_def)
  then have "read_back bs (length vs) (transaction (wcmd # bs @ vs) s) = drop hdr (answers (bs @ replicate (length vs) 0) ?r)"
    using assms(3) by (simp add: read_back_def)
  also have "\<dots> = drop hdr (replies (bs @ replicate (length vs) 0) 1 ?r)"
    using answers_known [of ?r 1 "bs @ replicate (length vs) 0"] u known assms(3) small by simp
  also have "\<dots> = replies (replicate (length vs) 0) (of_nat (Suc hdr)) (replay bs 1 ?r)"
    using assms(3) unfolding replies_append hdr1 by simp
  also have "replay bs 1 ?r = ?u\<lparr> sv_cmd := 3, sv_addr := ?a, sv_pos := of_nat hdr \<rparr>"
    using header [OF u(1) assms(3), of 3] fit_again [OF assms(1) u(1), of ?a] wr(2,3) by simp
  also have "replies (replicate (length vs) 0) (of_nat (Suc hdr)) (?u\<lparr> sv_cmd := 3, sv_addr := ?a, sv_pos := of_nat hdr \<rparr>) =
      map (\<lambda>j. sv_sram ?w ! ((unat ?a + j) mod length (sv_sram ?w))) [0..<length vs]"
    using reads_memory [of "?u\<lparr> sv_cmd := 3, sv_addr := ?a, sv_pos := of_nat hdr \<rparr>" "Suc hdr" "replicate (length vs) 0"] u(1) known(5) small
    by (simp add: ok_fields)
  also have "\<dots> = vs" unfolding wr(3) by (rule nth_equalityI) (use wr(4) in simp_all)
  finally show ?thesis .
qed

end

section \<open>The chips of the code\<close>

definition be_addr :: "u8 list \<Rightarrow> u32" where
  "be_addr = foldl (\<lambda>a v. push_bit 8 a OR ucast v) 0"

definition flash_fit :: "u32 \<Rightarrow> save_chip \<Rightarrow> save_chip" where
  "flash_fit a s = (if sv_listed s then s else fit_flash a s)"

definition chip_ready :: "save_type \<Rightarrow> (nat \<Rightarrow> bool) \<Rightarrow> save_chip \<Rightarrow> bool" where
  "chip_ready t sz s \<longleftrightarrow> sv_type s = t \<and> \<not> sv_ir_cart s \<and> sz (length (sv_sram s))"

lemma put_kind [simp]:
  "sv_type (put_byte v s) = sv_type s" "sv_ir_cart (put_byte v s) = sv_ir_cart s"
  "length (sv_sram (put_byte v s)) = length (sv_sram s)"
  by (simp_all add: put_byte_def)

lemma ready_fields:
  "chip_ready t sz (s\<lparr> sv_pos := p \<rparr>) = chip_ready t sz s" "chip_ready t sz (s\<lparr> sv_cmd := c \<rparr>) = chip_ready t sz s"
  "chip_ready t sz (s\<lparr> sv_addr := a \<rparr>) = chip_ready t sz s" "chip_ready t sz (s\<lparr> sv_ir_pos := p \<rparr>) = chip_ready t sz s"
  "chip_ready t sz (put_byte v s) = chip_ready t sz s"
  by (simp_all add: chip_ready_def put_byte_def)

lemma pos_above: "n < unat (p :: u32) \<Longrightarrow> n \<le> 3 \<Longrightarrow> \<not> p \<le> of_nat n"
  using unat_small [of n] by (simp add: word_le_nat_alt)

lemma eeprom_put:
  "sv_type s = Eeprom \<Longrightarrow> sv_cmd s = 0x02 \<Longrightarrow> tst (sv_status s) 2 \<Longrightarrow> pow2 (length (sv_sram s)) \<Longrightarrow>
    \<not> sv_pos s \<le> (if length (sv_sram s) > 65536 then 3 else 2) \<Longrightarrow> snd (spi_chip v s) = put_byte v s"
  by (simp add: spi_chip_def spi_eeprom_def put_byte_def sram_put_def mask_inside here_def masked_index Let_def)

lemma eeprom_get:
  "sv_type s = Eeprom \<Longrightarrow> sv_cmd s = 3 \<Longrightarrow> pow2 (length (sv_sram s)) \<Longrightarrow>
    \<not> sv_pos s \<le> (if length (sv_sram s) > 65536 then 3 else 2) \<Longrightarrow> spi_chip v s = (sv_sram s ! here s, next_addr s)"
  by (simp add: spi_chip_def spi_eeprom_def sram_at_def mask_inside here_def masked_index Let_def)

lemma eeprom_address:
  "sv_type s = Eeprom \<Longrightarrow> sv_cmd s = 0x02 \<or> sv_cmd s = 3 \<Longrightarrow>
    sv_pos s \<le> (if length (sv_sram s) > 65536 then 3 else 2) \<Longrightarrow> snd (spi_chip v s) = shift_addr v s"
  by (auto simp: spi_chip_def spi_eeprom_def Let_def)

text \<open>Address bytes at positions \<open>i\<close> to \<open>k\<close>.\<close>

lemma replay_address:
  assumes "\<And>u v. P u \<Longrightarrow> unat (sv_pos u) \<le> k \<Longrightarrow> snd (spi_chip v u) = shift_addr v u"
    "\<And>u p. P u \<Longrightarrow> P (u\<lparr> sv_pos := p \<rparr>)" "\<And>u v. P u \<Longrightarrow> P (shift_addr v u)"
    "P s" "i + length bs \<le> Suc k" "k \<le> 3" "bs \<noteq> []"
  shows "replay bs (of_nat i) s =
    s\<lparr> sv_addr := foldl (\<lambda>a v. push_bit 8 a OR ucast v) (sv_addr s) bs, sv_pos := of_nat (i + length bs - 1) \<rparr>"
  using assms(4,5,7)
proof (induction bs arbitrary: i s)
  case (Cons v bs)
  have i: "unat (of_nat i :: u32) = i" using Cons.prems(2) assms(6) by (intro unat_small) simp
  let ?t = "shift_addr v (s\<lparr> sv_pos := of_nat i \<rparr>)"
  have "snd (spi_chip v (s\<lparr> sv_pos := of_nat i \<rparr>)) = ?t"
    using Cons.prems i by (intro assms(1) assms(2)) simp_all
  note t = this
  then have r: "replay (v # bs) (of_nat i) s = replay bs (of_nat (Suc i)) ?t" by (simp add: add.commute)
  show ?case
  proof (cases "bs = []")
    case False
    have "P ?t" using Cons.prems(1) assms(2,3) by blast
    then show ?thesis using Cons.IH [of ?t "Suc i"] Cons.prems(2) False unfolding r by (simp add: shift_addr_def)
  qed (simp add: t shift_addr_def)
qed simp

lemma eeprom_header:
  assumes "sv_type s = Eeprom" "c = 0x02 \<or> c = 3" "length bs = (if length (sv_sram s) > 65536 then 3 else 2)"
  shows "replay bs 1 (s\<lparr> sv_cmd := c, sv_addr := 0 \<rparr>) = s\<lparr> sv_cmd := c, sv_addr := be_addr bs, sv_pos := of_nat (length bs) \<rparr>"
proof -
  let ?P = "\<lambda>u. sv_type u = Eeprom \<and> (sv_cmd u = 0x02 \<or> sv_cmd u = 3) \<and> length (sv_sram u) = length (sv_sram s)"
  have "snd (spi_chip v u) = shift_addr v u" if "?P u" "unat (sv_pos u) \<le> length bs" for u v
    using that assms(3) by (intro eeprom_address) (auto simp: word_le_nat_alt)
  then have "replay bs (of_nat 1) (s\<lparr> sv_cmd := c, sv_addr := 0 \<rparr>) =
      (s\<lparr> sv_cmd := c, sv_addr := 0 \<rparr>)\<lparr> sv_addr := foldl (\<lambda>a v. push_bit 8 a OR ucast v) (sv_addr (s\<lparr> sv_cmd := c, sv_addr := 0 \<rparr>)) bs,
        sv_pos := of_nat (1 + length bs - 1) \<rparr>"
    using assms by (intro replay_address [where P = ?P and k = "length bs"]) (auto simp: shift_addr_def split: if_splits)
  then show ?thesis by (simp add: be_addr_def)
qed

interpretation tiny: addressed_chip EepromTiny "chip_ready EepromTiny (\<lambda>n. n = 512)" 1 "0x02" be_addr "\<lambda>a s. s"
proof unfold_locales
  fix s v assume s: "chip_ready EepromTiny (\<lambda>n. n = 512) s" "1 < unat (sv_pos s)"
  have p: "\<not> sv_pos s < 2" using s(2) by (simp add: word_less_nat_alt)
  have h: "unat (sv_addr s AND 0x1FF) = here s" using s(1) by (simp add: tiny_index here_def chip_ready_def)
  show "sv_cmd s = 0x02 \<Longrightarrow> tst (sv_status s) 2 \<Longrightarrow> snd (spi_chip v s) = put_byte v s"
    using s(1) p h by (simp add: spi_chip_def spi_eeprom_tiny_def chip_ready_def put_byte_def sram_put_def tiny_inside Let_def)
  show "sv_cmd s = 3 \<Longrightarrow> spi_chip v s = (sv_sram s ! here s, next_addr s)"
    using s(1) p h by (simp add: spi_chip_def spi_eeprom_tiny_def chip_ready_def sram_at_def tiny_inside Let_def)
next
  fix s and bs :: "u8 list" and c
  assume s: "chip_ready EepromTiny (\<lambda>n. n = 512) s" "length bs = 1" "c = 0x02 \<or> c = (3 :: u8)"
  then obtain b where "bs = [b]" by (auto simp: length_Suc_conv)
  then show "replay bs 1 (s\<lparr> sv_cmd := c, sv_addr := 0 \<rparr>) = s\<lparr> sv_cmd := c, sv_addr := be_addr bs, sv_pos := of_nat 1 \<rparr>"
    using s(1,3) by (auto simp: spi_chip_def spi_eeprom_tiny_def chip_ready_def be_addr_def Let_def)
qed (use pow2_sizes in \<open>auto simp: ready_fields chip_ready_def\<close>)

interpretation eeprom: addressed_chip Eeprom "chip_ready Eeprom (\<lambda>n. n = 8192 \<or> n = 65536)" 2 "0x02" be_addr "\<lambda>a s. s"
proof unfold_locales
  fix s v assume s: "chip_ready Eeprom (\<lambda>n. n = 8192 \<or> n = 65536) s" "2 < unat (sv_pos s)"
  have p: "\<not> sv_pos s \<le> 2" using pos_above [OF s(2)] by simp
  have l: "pow2 (length (sv_sram s))" "\<not> length (sv_sram s) > 65536" "sv_type s = Eeprom"
    using s(1) pow2_sizes by (auto simp: chip_ready_def)
  show "sv_cmd s = 0x02 \<Longrightarrow> tst (sv_status s) 2 \<Longrightarrow> snd (spi_chip v s) = put_byte v s"
    using l p by (intro eeprom_put) simp_all
  show "sv_cmd s = 3 \<Longrightarrow> spi_chip v s = (sv_sram s ! here s, next_addr s)"
    using l p by (intro eeprom_get) simp_all
next
  fix s and bs :: "u8 list" and c
  assume s: "chip_ready Eeprom (\<lambda>n. n = 8192 \<or> n = 65536) s" "length bs = 2" "c = 0x02 \<or> c = (3 :: u8)"
  then show "replay bs 1 (s\<lparr> sv_cmd := c, sv_addr := 0 \<rparr>) = s\<lparr> sv_cmd := c, sv_addr := be_addr bs, sv_pos := of_nat 2 \<rparr>"
    by (subst eeprom_header) (auto simp: chip_ready_def)
qed (use pow2_sizes in \<open>auto simp: ready_fields chip_ready_def\<close>)

interpretation large_eeprom: addressed_chip Eeprom "chip_ready Eeprom (\<lambda>n. n = 131072)" 3 "0x02" be_addr "\<lambda>a s. s"
proof unfold_locales
  fix s v assume s: "chip_ready Eeprom (\<lambda>n. n = 131072) s" "3 < unat (sv_pos s)"
  have p: "\<not> sv_pos s \<le> 3" using pos_above [OF s(2)] by simp
  have l: "pow2 (length (sv_sram s))" "length (sv_sram s) > 65536" "sv_type s = Eeprom"
    using s(1) pow2_sizes by (auto simp: chip_ready_def)
  show "sv_cmd s = 0x02 \<Longrightarrow> tst (sv_status s) 2 \<Longrightarrow> snd (spi_chip v s) = put_byte v s"
    using l p by (intro eeprom_put) simp_all
  show "sv_cmd s = 3 \<Longrightarrow> spi_chip v s = (sv_sram s ! here s, next_addr s)"
    using l p by (intro eeprom_get) simp_all
next
  fix s and bs :: "u8 list" and c
  assume s: "chip_ready Eeprom (\<lambda>n. n = 131072) s" "length bs = 3" "c = 0x02 \<or> c = (3 :: u8)"
  then show "replay bs 1 (s\<lparr> sv_cmd := c, sv_addr := 0 \<rparr>) = s\<lparr> sv_cmd := c, sv_addr := be_addr bs, sv_pos := of_nat 3 \<rparr>"
    by (subst eeprom_header) (auto simp: chip_ready_def)
qed (use pow2_sizes in \<open>auto simp: ready_fields chip_ready_def\<close>)

lemma flash_put:
  assumes "sv_type s = FlashChip" "sv_cmd s = 0x0A" "tst (sv_status s) 2" "pow2 (length (sv_sram s))" "\<not> sv_pos s \<le> 3"
  shows "snd (spi_chip v s) = put_byte v s"
  using assms by (simp add: spi_chip_def spi_flash_def put_byte_def sram_put_def mask_inside here_def masked_index Let_def)

lemma flash_get:
  assumes "sv_type s = FlashChip" "sv_cmd s = 3" "pow2 (length (sv_sram s))" "\<not> sv_pos s \<le> 3"
  shows "spi_chip v s = (sv_sram s ! here s, next_addr s)"
  using assms by (simp add: spi_chip_def spi_flash_def sram_at_def mask_inside here_def masked_index Let_def)

lemma flash_address:
  assumes "sv_type s = FlashChip" "sv_cmd s = 0x0A \<or> sv_cmd s = 3" "sv_pos s \<le> 3"
  shows "snd (spi_chip v s) = (if sv_pos s = 3 then flash_fit (sv_addr (shift_addr v s)) (shift_addr v s) else shift_addr v s)"
  using assms by (auto simp: spi_chip_def spi_flash_def flash_fit_def Let_def)

lemma fit_flash_addr: "fit_flash a (s\<lparr> sv_cmd := c, sv_addr := b, sv_pos := p \<rparr>) = (fit_flash a s)\<lparr> sv_cmd := c, sv_addr := b, sv_pos := p \<rparr>"
  by (simp add: fit_flash_def Let_def)

lemma flash_header:
  assumes "sv_type s = FlashChip" "c = 0x0A \<or> c = 3" "length bs = 3"
  shows "replay bs 1 (s\<lparr> sv_cmd := c, sv_addr := 0 \<rparr>) =
    (flash_fit (be_addr bs) s)\<lparr> sv_cmd := c, sv_addr := be_addr bs, sv_pos := of_nat 3 \<rparr>"
proof -
  obtain x y z where bs: "bs = [x, y] @ [z]" using assms(3) by (auto simp: length_Suc_conv numeral_eq_Suc)
  let ?P = "\<lambda>u. sv_type u = FlashChip \<and> (sv_cmd u = 0x0A \<or> sv_cmd u = 3)"
  let ?s = "s\<lparr> sv_cmd := c, sv_addr := 0 \<rparr>"
  have two: "snd (spi_chip v u) = shift_addr v u" if "?P u" "unat (sv_pos u) \<le> 2" for u v
  proof -
    have "sv_pos u \<le> 3" "sv_pos u \<noteq> 3" using that(2) by (auto simp: word_le_nat_alt)
    then show ?thesis using that(1) by (simp add: flash_address)
  qed
  have "replay [x, y] (of_nat 1) ?s =
      ?s\<lparr> sv_addr := foldl (\<lambda>a v. push_bit 8 a OR ucast v) (sv_addr ?s) [x, y], sv_pos := of_nat (1 + length [x, y] - 1) \<rparr>"
    using assms(1,2) by (intro replay_address [where P = ?P and k = 2] two) (auto simp: shift_addr_def)
  then have r: "replay [x, y] 1 ?s = s\<lparr> sv_cmd := c, sv_addr := be_addr [x, y], sv_pos := 2 \<rparr>" by (simp add: be_addr_def)
  have a: "be_addr bs = push_bit 8 (be_addr [x, y]) OR ucast z" by (simp add: be_addr_def bs)
  have "replay bs 1 ?s = replay [z] 3 (s\<lparr> sv_cmd := c, sv_addr := be_addr [x, y], sv_pos := 2 \<rparr>)"
    unfolding bs replay_append r by simp
  also have "\<dots> = flash_fit (be_addr bs) (s\<lparr> sv_cmd := c, sv_addr := be_addr bs, sv_pos := 3 \<rparr>)"
  proof -
    let ?u = "s\<lparr> sv_cmd := c, sv_addr := be_addr [x, y], sv_pos := 3 \<rparr>"
    have "shift_addr z ?u = s\<lparr> sv_cmd := c, sv_addr := be_addr bs, sv_pos := 3 \<rparr>" by (simp add: shift_addr_def a)
    moreover have "snd (spi_chip z ?u) = flash_fit (sv_addr (shift_addr z ?u)) (shift_addr z ?u)"
      using assms(1,2) by (simp add: flash_address)
    ultimately show ?thesis by simp
  qed
  finally show ?thesis by (simp add: flash_fit_def fit_flash_addr)
qed

text \<open>A flash memory big enough for an address is not grown for it again.\<close>

lemma fit_flash_again:
  assumes "pow2 (length (sv_sram s))" "0 < length (sv_sram s)" "length (sv_sram u) = length (sv_sram (fit_flash a s))"
  shows "fit_flash a u = u"
proof (cases "unat a < length (sv_sram s) \<or> a \<ge> 0x800000")
  case True
  then show ?thesis using assms(3) by (auto simp: fit_flash_def Let_def)
next
  case False
  obtain k where k: "length (sv_sram s) = 2 ^ k" using assms(1) by (auto simp: pow2_def)
  have a: "unat a < 2 ^ 23" using False by (simp add: word_le_nat_alt)
  then have le: "length (sv_sram s) \<le> 2 ^ 23" using False by simp
  obtain "unat a < grow_to (unat a) (length (sv_sram s))" using grow_to_power [OF assms(2) a le k] by blast
  then have "unat a < length (sv_sram u)" using False assms(3) by (simp add: fit_flash_def Let_def)
  then show ?thesis by (simp add: fit_flash_def Let_def)
qed

interpretation flash: addressed_chip FlashChip "chip_ready FlashChip (\<lambda>n. pow2 n \<and> 262144 \<le> n)" 3 "0x0A" be_addr flash_fit
proof unfold_locales
  fix s v assume s: "chip_ready FlashChip (\<lambda>n. pow2 n \<and> 262144 \<le> n) s" "3 < unat (sv_pos s)"
  have p: "\<not> sv_pos s \<le> 3" using pos_above [OF s(2)] by simp
  show "sv_cmd s = 0x0A \<Longrightarrow> tst (sv_status s) 2 \<Longrightarrow> snd (spi_chip v s) = put_byte v s"
    using s(1) p by (intro flash_put) (simp_all add: chip_ready_def)
  show "sv_cmd s = 3 \<Longrightarrow> spi_chip v s = (sv_sram s ! here s, next_addr s)"
    using s(1) p by (intro flash_get) (simp_all add: chip_ready_def)
next
  fix s and bs :: "u8 list" and c
  assume "chip_ready FlashChip (\<lambda>n. pow2 n \<and> 262144 \<le> n) s" "length bs = 3" "c = 0x0A \<or> c = (3 :: u8)"
  then show "replay bs 1 (s\<lparr> sv_cmd := c, sv_addr := 0 \<rparr>) =
      (flash_fit (be_addr bs) s)\<lparr> sv_cmd := c, sv_addr := be_addr bs, sv_pos := of_nat 3 \<rparr>"
    by (intro flash_header) (simp_all add: chip_ready_def)
next
  fix s a assume s: "chip_ready FlashChip (\<lambda>n. pow2 n \<and> 262144 \<le> n) s"
  then show "chip_ready FlashChip (\<lambda>n. pow2 n \<and> 262144 \<le> n) (flash_fit a s) \<and> sv_status (flash_fit a s) = sv_status s \<and>
      length (sv_sram s) \<le> length (sv_sram (flash_fit a s))"
    using fit_flash_ok [of s a] by (auto simp: chip_ready_def flash_fit_def) (simp_all add: fit_flash_def Let_def)
next
  fix s u :: save_chip and a
  assume s: "chip_ready FlashChip (\<lambda>n. pow2 n \<and> 262144 \<le> n) s" "length (sv_sram u) = length (sv_sram (flash_fit a s))"
    "sv_listed u = sv_listed (flash_fit a s)"
  have "0 < length (sv_sram s)" "pow2 (length (sv_sram s))" using s(1) by (auto simp: chip_ready_def)
  then show "flash_fit a u = u"
    using s(2,3) fit_flash_again [of s u a] by (auto simp: flash_fit_def split: if_splits)
qed (auto simp: ready_fields chip_ready_def)

section \<open>What is written is read\<close>

definition write_command :: "save_chip \<Rightarrow> u8" where
  "write_command s = (if sv_type s = FlashChip then 0x0A else 0x02)"

definition address_length :: "save_chip \<Rightarrow> nat" where
  "address_length s =
     (case sv_type s of EepromTiny \<Rightarrow> 1 | Eeprom \<Rightarrow> (if length (sv_sram s) > 65536 then 3 else 2) | _ \<Rightarrow> 3)"

text \<open>C18: with writing enabled, a write transaction to any address of any of the three chips, of at
  most as many bytes as the chip holds, is read back by a read transaction at that address, also
  when it runs past the end and wraps, or makes an unlisted flash chip grow.\<close>

theorem save_write_read:
  assumes "save_ok s" "sv_type s = EepromTiny \<or> sv_type s = Eeprom \<or> sv_type s = FlashChip" "\<not> sv_ir_cart s"
    "tst (sv_status s) 2" "length bs = address_length s" "length vs \<le> length (sv_sram s)"
  shows "read_back bs (length vs) (transaction (write_command s # bs @ vs) s) = vs"
proof -
  consider "sv_type s = EepromTiny" | "sv_type s = Eeprom" "length (sv_sram s) \<le> 65536"
    | "sv_type s = Eeprom" "65536 < length (sv_sram s)" | "sv_type s = FlashChip"
    using assms(2) by linarith
  then show ?thesis
  proof cases
    case 1
    then have "chip_ready EepromTiny (\<lambda>n. n = 512) s" using assms(1,3) by (simp add: chip_ready_def save_ok_def)
    then show ?thesis using tiny.write_then_read [OF _ assms(4) _ assms(6)] 1 assms(5) by (simp add: write_command_def address_length_def)
  next
    case 2
    then have "chip_ready Eeprom (\<lambda>n. n = 8192 \<or> n = 65536) s" using assms(1,3) by (auto simp: chip_ready_def save_ok_def)
    then show ?thesis using eeprom.write_then_read [OF _ assms(4) _ assms(6)] 2 assms(5) by (simp add: write_command_def address_length_def)
  next
    case 3
    then have "chip_ready Eeprom (\<lambda>n. n = 131072) s" using assms(1,3) by (auto simp: chip_ready_def save_ok_def)
    then show ?thesis using large_eeprom.write_then_read [OF _ assms(4) _ assms(6)] 3 assms(5) by (simp add: write_command_def address_length_def)
  next
    case 4
    then have "chip_ready FlashChip (\<lambda>n. pow2 n \<and> 262144 \<le> n) s" using assms(1,3) by (simp add: chip_ready_def save_ok_def)
    then show ?thesis using flash.write_then_read [OF _ assms(4) _ assms(6)] 4 assms(5) by (simp add: write_command_def address_length_def)
  qed
qed

text \<open>Three bytes over the end of a blank 512-byte EEPROM.\<close>

theorem save_write_read_witness:
  "read_back [0xFE] 3 (transaction [0x02, 0xFE, 1, 2, 3] ((set_chip EepromTiny 512 (new_save [] 0x41414141))\<lparr> sv_status := 2 \<rparr>)) = [1, 2, 3]"
proof -
  let ?s = "(set_chip EepromTiny 512 (new_save [] 0x41414141))\<lparr> sv_status := 2 \<rparr>"
  have f: "save_ok ?s" "sv_type ?s = EepromTiny" "\<not> sv_ir_cart ?s" "tst (sv_status ?s) 2" "length (sv_sram ?s) = 512"
    by (simp_all add: save_ok_def set_chip_def unlisted_new tst_def)
  have "read_back [0xFE] (length [1, 2, 3 :: u8]) (transaction (write_command ?s # [0xFE] @ [1, 2, 3]) ?s) = [1, 2, 3]"
    using f by (intro save_write_read) (simp_all add: address_length_def)
  then show ?thesis using f(2) by (simp add: write_command_def numeral_3_eq_3)
qed

section \<open>The game table\<close>

definition negative_as_none :: "u32 \<Rightarrow> u32 option" where
  "negative_as_none t = (if bit t 31 then None else Some t)"

lemma search_exact:
  assumes "sorted_wrt (<) (map fst tbl)" "hi \<le> length tbl" "\<And>i. i < lo \<Longrightarrow> i < length tbl \<Longrightarrow> fst (tbl ! i) < code"
    "\<And>i. hi \<le> i \<Longrightarrow> i < length tbl \<Longrightarrow> code < fst (tbl ! i)"
  shows "search_save_type tbl code lo hi = Option.bind (map_of tbl code) negative_as_none"
  using assms
proof (induction tbl code lo hi rule: search_save_type.induct)
  case (1 tbl code lo hi)
  have less: "fst (tbl ! i) < fst (tbl ! j)" if "i < j" "j < length tbl" for i j
    using sorted_wrt_nth_less [OF 1(3), of i j] that by simp
  show ?case
  proof (cases "hi \<le> lo")
    case True
    have "fst (tbl ! i) \<noteq> code" if "i < length tbl" for i
    proof (cases "i < lo")
      case True
      then show ?thesis using 1(5) that by fastforce
    next
      case False
      then show ?thesis using 1(6) [of i] True \<open>hi \<le> lo\<close> that by fastforce
    qed
    then have "(code, b) \<notin> set tbl" for b by (metis fst_conv in_set_conv_nth)
    then have "map_of tbl code = None" by (meson map_of_SomeD not_None_eq)
    then show ?thesis using True by (simp add: search_save_type.simps)
  next
    case False
    define mid where "mid = (lo + hi) div 2"
    have m: "lo \<le> mid" "mid < hi" using False by (auto simp: mid_def)
    consider "fst (tbl ! mid) < code" | "code < fst (tbl ! mid)" | "fst (tbl ! mid) = code" by (meson linorder_cases)
    then show ?thesis
    proof cases
      case 1
      have "search_save_type tbl code lo hi = search_save_type tbl code (Suc mid) hi"
        using False 1 by (subst search_save_type.simps) (simp add: mid_def Let_def)
      moreover have "fst (tbl ! i) < code" if "i < Suc mid" for i
        using less [of i mid] 1 that m(2) "1.prems"(2) by (cases "i = mid") force+
      ultimately show ?thesis using "1.IH"(1) False 1 "1.prems" by (simp add: mid_def)
    next
      case 2
      have "search_save_type tbl code lo hi = search_save_type tbl code lo mid"
        using False 2 less_not_sym [OF 2] search_save_type.simps [of tbl code lo hi] by (simp add: mid_def [symmetric] Let_def)
      moreover have "code < fst (tbl ! i)" if "mid \<le> i" "i < length tbl" for i
        using less [of mid i] 2 that by (cases "i = mid") force+
      ultimately show ?thesis using "1.IH"(2) False 2 less_not_sym [OF 2] "1.prems" m by (simp add: mid_def)
    next
      case 3
      have "distinct (map fst tbl)" using "1.prems"(1) strict_sorted_iff by blast
      moreover have "(code, snd (tbl ! mid)) \<in> set tbl"
        using nth_mem [of mid tbl] 3 m(2) "1.prems"(2) by (cases "tbl ! mid") auto
      ultimately have "map_of tbl code = Some (snd (tbl ! mid))" by (rule map_of_is_SomeI)
      then show ?thesis
        using False 3 search_save_type.simps [of tbl code lo hi] by (simp add: mid_def [symmetric] Let_def negative_as_none_def)
    qed
  qed
qed

text \<open>Over a table sorted by game code, the binary search finds the entry of the code, if there is one.\<close>

lemma save_lookup_exact:
  assumes "sorted_wrt (<) (map fst tbl)"
  shows "lookup_save_type tbl code = Option.bind (map_of tbl code) negative_as_none"
  unfolding lookup_save_type_def by (rule search_exact) (use assms in simp_all)

end
