(* ===== verification/CartBus.thy ===== *)
theory CartBus imports IoCore CartRom begin

text \<open>
  The cartridge bus of the I/O unit (\<^verbatim>\<open>src/core/io/io.cpp\<close>, \<^verbatim>\<open>io.h\<close>): ROMCTRL and its transfers,
  the two-word FIFO filled lazily or by events, the card's reset line, the DSi's slot power and the
  save chip's register pair.  The state is a part of what \<open>io_more\<close> holds; the DMA controller is
  behind \<open>cart_env\<close>.  The events are the constructors of \<open>cart_handler\<close>.
\<close>

section \<open>State\<close>

record cart_bus =
  cb_auxspicnt :: u16
  cb_auxspidata :: u8
  cb_romctrl :: u32
  cb_cmd :: "u8 list"
  cb_pos :: u32
  cb_len :: u32
  cb_count :: nat
  cb_fifo :: "nat \<Rightarrow> u32"
  cb_head :: nat
  cb_late :: bool
  cb_next_at :: u64
  cb_event_armed :: bool
  cb_card :: "cart option"
  cb_exmemcnt :: u16
  cb_scfg_mc :: u16
  cb_poweroff_delay :: u16

datatype 'y cart_handler = Cart_ev | Cart_power_ev | Other_ev 'y

type_synonym ('y, 'w) cart_console = "('y cart_handler, cart_bus \<times> 'w) console"

text \<open>\<open>ce_drop_gaps\<close> and \<open>ce_drop_clock\<close> are the fast timing model with the two environment switches.\<close>

record ('y, 'w) cart_env =
  ce_bios :: "nat \<Rightarrow> u8"
  ce_dma_armed :: "('y, 'w) cart_console \<Rightarrow> bool"
  ce_dma_check :: "cpu_id \<Rightarrow> u32 \<Rightarrow> ('y, 'w) cart_console \<Rightarrow> ('y, 'w) cart_console"
  ce_drop_gaps :: bool
  ce_drop_clock :: bool

definition ev_cart_id :: nat where "ev_cart_id = 14"
definition ev_cart_power1 :: nat where "ev_cart_power1 = 27"
definition ev_cart_power2 :: nat where "ev_cart_power2 = 28"
definition IRQ_CART_DONE :: nat where "IRQ_CART_DONE = 19"
definition IRQ_CART_IREQ :: nat where "IRQ_CART_IREQ = 20"

definition cbus :: "('y, 'w) cart_console \<Rightarrow> cart_bus" where
  "cbus s = fst (io_more (s_rest s))"

definition upd_bus :: "(cart_bus \<Rightarrow> cart_bus) \<Rightarrow> ('y, 'w) cart_console \<Rightarrow> ('y, 'w) cart_console" where
  "upd_bus f = upd_io (\<lambda>i. i\<lparr> io_more := (f (fst (io_more i)), snd (io_more i)) \<rparr>)"

definition schedule_cart :: "u64 \<Rightarrow> u32 \<Rightarrow> ('y, 'w) cart_console \<Rightarrow> ('y, 'w) cart_console" where
  "schedule_cart at param s =
     upd_bus (\<lambda>b. b\<lparr> cb_event_armed := True \<rparr>) (schedule ev_cart_id at (Foreign Cart_ev) param s)"

section \<open>The words of a transfer\<close>

definition cart_dma_armed :: "('y, 'w) cart_env \<Rightarrow> ('y, 'w) cart_console \<Rightarrow> bool" where
  "cart_dma_armed env s \<longleftrightarrow> io_is_dsi (s_rest s) \<or> ce_dma_armed env s"

definition transfer_clock :: "cart_bus \<Rightarrow> u32" where
  "transfer_clock b = (if tst (cb_romctrl b) 0x08000000 then 8 else 5)"

definition cart_word_delay :: "('y, 'w) cart_env \<Rightarrow> cart_bus \<Rightarrow> u32" where
  "cart_word_delay env b =
     (if ce_drop_clock env then 0
      else 2 * transfer_clock b * (4 + (if cb_pos b AND 0x1FF = 0 then fld (cb_romctrl b) 16 0x3F else 0)))"

definition cart_schedule_receive :: "('y, 'w) cart_env \<Rightarrow> u64 \<Rightarrow> ('y, 'w) cart_console \<Rightarrow> ('y, 'w) cart_console" where
  "cart_schedule_receive env from s =
     (if cb_len (cbus s) \<le> cb_pos (cbus s) then s
      else
        (let at = from + ucast (cart_word_delay env (cbus s)); s1 = upd_bus (\<lambda>b. b\<lparr> cb_next_at := at \<rparr>) s
         in if cart_dma_armed env s1 then schedule_cart at 1 s1 else s1))"

text \<open>The next word of the card; 0 from an empty slot.\<close>

definition card_word :: "cart option \<Rightarrow> u32 \<times> cart option" where
  "card_word c = (case c of None \<Rightarrow> (0, None) | Some k \<Rightarrow> (let (v, k1) = command_receive k in (v, Some k1)))"

definition word_in :: "cart_bus \<Rightarrow> cart_bus" where
  "word_in b =
     (let (v, c) = card_word (cb_card b)
      in b\<lparr> cb_card := c, cb_fifo := (cb_fifo b)((cb_head b + cb_count b) mod 2 := v), cb_count := cb_count b + 1,
            cb_pos := cb_pos b + 4, cb_romctrl := cb_romctrl b OR 0x00800000 \<rparr>)"

definition cart_receive_word :: "('y, 'w) cart_env \<Rightarrow> u64 \<Rightarrow> ('y, 'w) cart_console \<Rightarrow> ('y, 'w) cart_console" where
  "cart_receive_word env at s =
     (let s1 = upd_bus word_in s;
          s2 = (if cart_dma_armed env s1 then ce_dma_check env ARM7 0x12 (ce_dma_check env ARM9 5 s1) else s1)
      in if cb_count (cbus s2) < 2 then cart_schedule_receive env at s2 else upd_bus (\<lambda>b. b\<lparr> cb_late := True \<rparr>) s2)"

text \<open>The loop of \<^verbatim>\<open>cart_catch_up_slow\<close>; two rounds fill the FIFO.\<close>

fun cart_catch_loop :: "('y, 'w) cart_env \<Rightarrow> nat \<Rightarrow> ('y, 'w) cart_console \<Rightarrow> ('y, 'w) cart_console" where
  "cart_catch_loop env 0 s = s"
| "cart_catch_loop env (Suc n) s =
     (let b = cbus s in
      if cb_pos b < cb_len b \<and> cb_count b < 2 \<and> cb_next_at b \<le> now s
      then cart_catch_loop env n (cart_receive_word env (cb_next_at b) s) else s)"

definition cart_catch_up_slow :: "('y, 'w) cart_env \<Rightarrow> ('y, 'w) cart_console \<Rightarrow> ('y, 'w) cart_console" where
  "cart_catch_up_slow env s =
     (if cb_event_armed (cbus s) \<or> cb_late (cbus s) then s
      else
        (let s1 = cart_catch_loop env 2 s; b = cbus s1
         in if \<not> cb_event_armed b \<and> \<not> cb_late b \<and> cb_pos b < cb_len b \<and> cart_dma_armed env s1
            then schedule_cart (cb_next_at b) 1 s1 else s1))"

definition cart_catch_up :: "('y, 'w) cart_env \<Rightarrow> ('y, 'w) cart_console \<Rightarrow> ('y, 'w) cart_console" where
  "cart_catch_up env s = (if cb_pos (cbus s) < cb_len (cbus s) then cart_catch_up_slow env s else s)"

definition cart_drq :: "('y, 'w) cart_env \<Rightarrow> ('y, 'w) cart_console \<Rightarrow> bool \<times> ('y, 'w) cart_console" where
  "cart_drq env s = (let s1 = cart_catch_up env s in (tst (cb_romctrl (cbus s1)) 0x00800000, s1))"

definition cart_end_transfer :: "('y, 'w) cart_console \<Rightarrow> ('y, 'w) cart_console" where
  "cart_end_transfer s =
     (let s1 = upd_bus (\<lambda>b. b\<lparr> cb_romctrl := cb_romctrl b AND NOT 0x80000000, cb_pos := 0, cb_len := 0 \<rparr>) s
      in if tst (cb_auxspicnt (cbus s1)) 0x4000
         then request_irq (if tst (cb_exmemcnt (cbus s1)) 0x0800 then ARM7 else ARM9) IRQ_CART_DONE s1 else s1)"

definition cart_event :: "('y, 'w) cart_env \<Rightarrow> u32 \<Rightarrow> ('y, 'w) cart_console \<Rightarrow> ('y, 'w) cart_console" where
  "cart_event env param s =
     (let s1 = upd_bus (\<lambda>b. b\<lparr> cb_event_armed := False \<rparr>) s
      in if param = 0 then cart_end_transfer s1
         else cart_receive_word env (if io_is_dsi (s_rest s1) then event_base7 s1 else now s1) s1)"

text \<open>The word handed out, and DRQ cleared.\<close>

definition word_out :: "cart_bus \<Rightarrow> cart_bus" where
  "word_out b =
     (if cb_count b > 0 then b\<lparr> cb_count := cb_count b - 1, cb_head := 1 - cb_head b \<rparr> else b)
       \<lparr> cb_romctrl := cb_romctrl b AND NOT 0x00800000 \<rparr>"

definition cart_read_data :: "('y, 'w) cart_env \<Rightarrow> ('y, 'w) cart_console \<Rightarrow> u32 \<times> ('y, 'w) cart_console" where
  "cart_read_data env s0 =
     (let s = cart_catch_up env s0; b = cbus s; v = cb_fifo b (cb_head b) in
      if tst (cb_romctrl b) 0x40000000 then (v, s)
      else
        (let s1 = upd_bus word_out s;
             b1 = cbus s1
         in (v, if cb_pos b1 < cb_len b1 then
                  (if cb_late b1 then cart_schedule_receive env (now s1) (upd_bus (\<lambda>b. b\<lparr> cb_late := False \<rparr>) s1) else s1)
                else if cb_count b1 = 0 then cart_end_transfer s1
                else upd_bus (\<lambda>b. b\<lparr> cb_romctrl := cb_romctrl b OR 0x00800000 \<rparr>) s1)))"

section \<open>Starting a transfer\<close>

definition update_cart_reset :: "('y, 'w) cart_console \<Rightarrow> ('y, 'w) cart_console" where
  "update_cart_reset s =
     (let powered = (\<not> io_is_dsi (s_rest s) \<or> fld (cb_scfg_mc (cbus s)) 2 3 = 2) in
      upd_bus (\<lambda>b. b\<lparr> cb_card := map_option (set_reset (\<not> powered \<or> \<not> tst (cb_romctrl b) 0x20000000)) (cb_card b) \<rparr>) s)"

definition transfer_bytes :: "u32 \<Rightarrow> u32" where
  "transfer_bytes romctrl =
     (let k = fld romctrl 24 7 in if k = 7 then 4 else if k \<noteq> 0 then push_bit (unat k) 0x100 else 0)"

definition cart_write_romctrl :: "('y, 'w) cart_env \<Rightarrow> u32 \<Rightarrow> ('y, 'w) cart_console \<Rightarrow> ('y, 'w) cart_console" where
  "cart_write_romctrl env v s =
     (let old = cb_romctrl (cbus s);
          start = tst (v AND NOT old) 0x80000000; release = tst (v AND NOT old) 0x20000000;
          ctrl = (old AND 0x00800000) OR (v AND 0xFF7F7FFF) OR (old AND 0x20000000);
          ctrl1 = (if tst v 0x20000000 then ctrl OR 0x20000000 else ctrl);
          s1 = upd_bus (\<lambda>b. b\<lparr> cb_romctrl := ctrl1 \<rparr>) s;
          s2 = (if release then update_cart_reset s1 else s1);
          aux = cb_auxspicnt (cbus s2)
      in if \<not> tst aux 0x8000 \<or> tst aux 0x2000 \<or> \<not> start then s2
         else
           (let bytes = transfer_bytes (cb_romctrl (cbus s2));
                s3 = upd_bus (\<lambda>b. b\<lparr> cb_card := map_option (command_start (ce_bios env) (cb_cmd b)) (cb_card b), cb_pos := 0, cb_len := bytes,
                                     cb_count := 0, cb_late := False, cb_romctrl := cb_romctrl b AND NOT 0x00800000, cb_event_armed := False \<rparr>) s2;
                r = cb_romctrl (cbus s3); xfer = transfer_clock (cbus s3);
                d0 = 8 + (r AND 0x1FFF); d1 = (if bytes \<noteq> 0 then d0 + fld r 16 0x3F else d0);
                delay = (if ce_drop_gaps env then 8 else d1)
            in if tst r 0x40000000 \<or> bytes = 0 then schedule_cart (now s3 + ucast (2 * xfer * delay)) 0 s3
               else
                 (let at = now s3 + ucast (2 * xfer * (delay + 4)); s4 = upd_bus (\<lambda>b. b\<lparr> cb_next_at := at \<rparr>) s3
                  in if cart_dma_armed env s4 then schedule_cart at 1 s4 else s4)))"

definition cart_cmd_write :: "nat \<Rightarrow> u16 \<Rightarrow> ('y, 'w) cart_console \<Rightarrow> ('y, 'w) cart_console" where
  "cart_cmd_write i v = upd_bus (\<lambda>b. b\<lparr> cb_cmd := (cb_cmd b)[i := ucast v, i + 1 := ucast (drop_bit 8 v)] \<rparr>)"

section \<open>The save chip's registers and the slot's power\<close>

definition upd_save :: "(save_chip \<Rightarrow> save_chip) \<Rightarrow> cart \<Rightarrow> cart" where
  "upd_save f c = c\<lparr> ct_save := f (ct_save c) \<rparr>"

definition auxspicnt_write :: "u16 \<Rightarrow> ('y, 'w) cart_console \<Rightarrow> ('y, 'w) cart_console" where
  "auxspicnt_write v = upd_bus (\<lambda>b.
     let old = cb_auxspicnt b;
         f = (if tst (old AND NOT v) 0x2000 then spi_release else if tst (NOT old AND v) 0x2000 then spi_select else id)
     in b\<lparr> cb_card := map_option (upd_save f) (cb_card b), cb_auxspicnt := (old AND 0x0080) OR (v AND 0xE043) \<rparr>)"

definition auxspidata_write :: "u8 \<Rightarrow> ('y, 'w) cart_console \<Rightarrow> ('y, 'w) cart_console" where
  "auxspidata_write v = upd_bus (\<lambda>b.
     if \<not> tst (cb_auxspicnt b) 0x8000 \<or> \<not> tst (cb_auxspicnt b) 0x2000 then b
     else
       (case cb_card b of None \<Rightarrow> b\<lparr> cb_auxspidata := 0 \<rparr>
        | Some c \<Rightarrow>
            (let (ret, s1) = spi_transfer v (ct_save c);
                 s2 = (if tst (cb_auxspicnt b) 0x0040 then s1 else spi_release s1)
             in b\<lparr> cb_auxspidata := ret, cb_card := Some (c\<lparr> ct_save := s2 \<rparr>) \<rparr>)))"

definition cart_power_event :: "u32 \<Rightarrow> ('y, 'w) cart_console \<Rightarrow> ('y, 'w) cart_console" where
  "cart_power_event slot s =
     (let s1 = upd_bus (\<lambda>b. b\<lparr> cb_scfg_mc := cb_scfg_mc b AND NOT (push_bit (2 + 4 * unat slot) 3) \<rparr>) s
      in if slot = 0 then update_cart_reset (upd_bus (\<lambda>b. b\<lparr> cb_romctrl := cb_romctrl b AND NOT 0x20000000 \<rparr>) s1) else s1)"

text \<open>One slot's power state in a write of SCFG_MC, \<open>mc\<close> the value so far.\<close>

definition scfg_mc_slot :: "u16 \<Rightarrow> nat \<Rightarrow> u16 \<times> ('y, 'w) cart_console \<Rightarrow> u16 \<times> ('y, 'w) cart_console" where
  "scfg_mc_slot old i ms =
     (let (mc, s) = ms; shift = 2 + 4 * i; oldpower = fld old shift 3; newpower = fld mc shift 3 in
      if newpower = oldpower then (mc, s)
      else
        (let ev = (if i = 0 then ev_cart_power1 else ev_cart_power2);
             s1 = cancel ev s;
             inserted = (i = 0 \<and> cb_card (cbus s1) \<noteq> None);
             swap = ((newpower = 1 \<or> newpower = 2) \<and> \<not> inserted);
             op = (if swap then newpower else oldpower); np = (if swap then 3 else newpower);
             s2 = (if np = 3
                   then schedule ev (now s1 + push_bit 10 (ucast (cb_poweroff_delay (cbus s1)))) (Foreign Cart_power_ev) (of_nat i) s1
                   else s1);
             s3 = (if np = 0 \<and> i = 0 then upd_bus (\<lambda>b. b\<lparr> cb_romctrl := cb_romctrl b AND NOT 0x20000000 \<rparr>) s2 else s2);
             s4 = (if i = 0 \<and> (op = 1 \<or> op = 2) \<and> (np = 3 \<or> np = 0)
                   then request_irq ARM7 IRQ_CART_IREQ (request_irq ARM9 IRQ_CART_IREQ s3) else s3)
         in ((mc AND NOT (push_bit shift 3)) OR push_bit shift np, s4)))"

definition dsi_write_scfg_mc :: "u16 \<Rightarrow> u16 \<Rightarrow> ('y, 'w) cart_console \<Rightarrow> ('y, 'w) cart_console" where
  "dsi_write_scfg_mc v m s =
     (let old = cb_scfg_mc (cbus s);
          mc0 = (old AND (NOT m OR 0x0011)) OR (v AND m AND 0x80CC);
          (mc, s1) = scfg_mc_slot old 1 (scfg_mc_slot old 0 (mc0, s));
          s2 = upd_bus (\<lambda>b. b\<lparr> cb_scfg_mc := mc \<rparr>) s1
      in if tst (old XOR mc) 0x000C then update_cart_reset s2 else s2)"

text \<open>The two handlers, for the foreign events of \<open>io_call\<close>.\<close>

definition cart_call ::
  "('y \<Rightarrow> u32 \<Rightarrow> ('y, 'w) cart_console \<Rightarrow> ('y, 'w) cart_console) \<Rightarrow> ('y, 'w) cart_env \<Rightarrow>
   'y cart_handler \<Rightarrow> u32 \<Rightarrow> ('y, 'w) cart_console \<Rightarrow> ('y, 'w) cart_console" where
  "cart_call rest env fn prm s =
     (case fn of Cart_ev \<Rightarrow> cart_event env prm s | Cart_power_ev \<Rightarrow> cart_power_event prm s | Other_ev y \<Rightarrow> rest y prm s)"

end
