(* ===== verification/CartBusSpec.thy ===== *)
theory CartBusSpec imports CartBus IoSpec begin

text \<open>
  The cartridge bus hands every word of a transfer to the processor once and in order, whether words
  are produced lazily when a register is read, by events while a DMA channel waits, or both in turn.
\<close>

section \<open>What the calls leave alone\<close>

text \<open>The DMA controller only marks its channels when it is told of a word, and whether one of them waits for the
  cartridge does not depend on the bus.\<close>

definition dma_leaves_bus :: "('y, 'w) cart_env \<Rightarrow> bool" where
  "dma_leaves_bus env \<longleftrightarrow> (\<forall>w m s. cbus (ce_dma_check env w m s) = cbus s) \<and>
     (\<forall>f s. ce_dma_armed env (upd_bus f s) = ce_dma_armed env s)"

lemma cbus_frame [simp]:
  "cbus (upd_bus f s) = f (cbus s)" "cbus (schedule i at fn prm s) = cbus s" "cbus (cancel i s) = cbus s"
  "cbus (request_irq w b s) = cbus s" "cbus (schedule_cart at prm s) = (cbus s)\<lparr> cb_event_armed := True \<rparr>"
proof -
  show u: "cbus (upd_bus f s) = f (cbus s)" for f and s :: "('y, 'w) cart_console" by (simp add: cbus_def upd_bus_def)
  show c: "cbus (schedule i at fn prm s) = cbus s" "cbus (cancel i s) = cbus s" for i at fn prm and s :: "('y, 'w) cart_console"
    by (simp_all add: cbus_def)
  show "cbus (request_irq w b s) = cbus s" by (simp add: cbus_def request_irq_rest) (simp add: upd_cio_def)
  show "cbus (schedule_cart at prm s) = (cbus s)\<lparr> cb_event_armed := True \<rparr>" by (simp add: schedule_cart_def u c)
qed

lemma dma_frame: "dma_leaves_bus env \<Longrightarrow> cbus (ce_dma_check env w m s) = cbus s"
  by (simp add: dma_leaves_bus_def)

section \<open>The words of a transfer\<close>

fun card_words :: "nat \<Rightarrow> cart option \<Rightarrow> u32 list" where
  "card_words 0 c = []"
| "card_words (Suc n) c = (let (v, c1) = card_word c in v # card_words n c1)"

definition bus_held :: "cart_bus \<Rightarrow> u32 list" where
  "bus_held b = map (\<lambda>i. cb_fifo b ((cb_head b + i) mod 2)) [0..<cb_count b]"

text \<open>What the processor has still to get: the words held and those the card will send.\<close>

definition words_left :: "cart_bus \<Rightarrow> u32 list" where
  "words_left b = bus_held b @ card_words ((unat (cb_len b) - unat (cb_pos b)) div 4) (cb_card b)"

definition bus_ok :: "cart_bus \<Rightarrow> bool" where
  "bus_ok b \<longleftrightarrow> cb_count b \<le> 2 \<and> cb_head b < 2 \<and> cb_pos b \<le> cb_len b \<and> cb_len b \<le> 0x4000 \<and>
     4 dvd unat (cb_pos b) \<and> 4 dvd unat (cb_len b)"

text \<open>Reception is either scheduled, or left to the next read, or stopped by a full FIFO: an event is armed only
  while words are to come and there is room for one.\<close>

definition flow_ok :: "cart_bus \<Rightarrow> bool" where
  "flow_ok b \<longleftrightarrow> (cb_event_armed b \<longrightarrow> cb_pos b < cb_len b \<and> \<not> cb_late b) \<and>
     (cb_pos b < cb_len b \<longrightarrow> cb_late b = (\<not> cb_count b < 2))"

definition same_words :: "cart_bus \<Rightarrow> cart_bus \<Rightarrow> bool" where
  "same_words b c \<longleftrightarrow> cb_count b = cb_count c \<and> cb_fifo b = cb_fifo c \<and> cb_head b = cb_head c \<and>
     cb_pos b = cb_pos c \<and> cb_len b = cb_len c \<and> cb_card b = cb_card c"

lemma same_words_facts: "same_words b c \<Longrightarrow> words_left b = words_left c \<and> bus_ok b = bus_ok c"
  by (simp add: same_words_def words_left_def bus_held_def bus_ok_def)

lemma same_words_update [simp]:
  "same_words (b\<lparr> cb_romctrl := r \<rparr>) c = same_words b c" "same_words (b\<lparr> cb_late := l \<rparr>) c = same_words b c"
  "same_words (b\<lparr> cb_next_at := t \<rparr>) c = same_words b c" "same_words (b\<lparr> cb_event_armed := l \<rparr>) c = same_words b c"
  "same_words b b"
  by (simp_all add: same_words_def)

lemma word_in_words:
  assumes "bus_ok b" "cb_pos b < cb_len b" "cb_count b < 2"
  shows "words_left (word_in b) = words_left b" "bus_ok (word_in b)"
proof -
  obtain v c where v: "card_word (cb_card b) = (v, c)" by (meson surj_pair)
  have p: "unat (cb_pos b) < unat (cb_len b)" "unat (cb_len b) \<le> 0x4000" "4 dvd unat (cb_pos b)" "4 dvd unat (cb_len b)"
    using assms by (simp_all add: bus_ok_def word_less_nat_alt word_le_nat_alt)
  then have p4: "unat (cb_pos b + 4) = unat (cb_pos b) + 4" by (simp add: unat_word_ariths)
  have le: "unat (cb_pos b) + 4 \<le> unat (cb_len b)" using p by (auto elim!: dvdE)
  then have n: "(unat (cb_len b) - unat (cb_pos b)) div 4 = Suc ((unat (cb_len b) - (unat (cb_pos b) + 4)) div 4)"
    by (subst le_div_geq) simp_all
  have "cb_count b = 0 \<or> cb_count b = 1" "cb_head b = 0 \<or> cb_head b = 1" using assms(1,3) by (auto simp: bus_ok_def)
  then have "bus_held (word_in b) = bus_held b @ [v]" using v by (auto simp: bus_held_def word_in_def)
  then show "words_left (word_in b) = words_left b" using v p4 n by (simp add: words_left_def word_in_def)
  show "bus_ok (word_in b)" using assms v p4 le p by (simp add: bus_ok_def word_in_def word_le_nat_alt)
qed

lemma word_out_words:
  assumes "bus_ok b" "0 < cb_count b"
  shows "words_left b = cb_fifo b (cb_head b) # words_left (word_out b)" "bus_ok (word_out b)"
proof -
  have c: "cb_count b = 1 \<or> cb_count b = 2" "cb_head b = 0 \<or> cb_head b = 1" using assms by (auto simp: bus_ok_def)
  then have "bus_held b = cb_fifo b (cb_head b) # bus_held (word_out b)"
    by (elim disjE) (simp_all add: bus_held_def word_out_def upt_conv_Cons numeral_2_eq_2)
  then show "words_left b = cb_fifo b (cb_head b) # words_left (word_out b)"
    using assms(2) by (simp add: words_left_def word_out_def)
  show "bus_ok (word_out b)" using assms c by (auto simp: bus_ok_def word_out_def)
qed

section \<open>The operations\<close>

lemma schedule_receive_same: "same_words (cbus (cart_schedule_receive env from s)) (cbus s)"
  by (simp add: cart_schedule_receive_def Let_def)

lemma receive_same:
  assumes "dma_leaves_bus env"
  shows "same_words (cbus (cart_receive_word env at s)) (word_in (cbus s))"
proof -
  let ?s = "upd_bus word_in s"
  let ?t = "if cart_dma_armed env ?s then ce_dma_check env ARM7 0x12 (ce_dma_check env ARM9 5 ?s) else ?s"
  have t: "cbus ?t = word_in (cbus s)" using dma_frame [OF assms] by (simp split: if_split)
  have "same_words (cbus (cart_schedule_receive env at ?t)) (word_in (cbus s))"
    using schedule_receive_same [of env at ?t] unfolding t .
  then show ?thesis unfolding cart_receive_word_def Let_def using t by simp
qed

lemma receive_words:
  assumes "dma_leaves_bus env" "bus_ok (cbus s)" "cb_pos (cbus s) < cb_len (cbus s)" "cb_count (cbus s) < 2"
  shows "words_left (cbus (cart_receive_word env at s)) = words_left (cbus s) \<and> bus_ok (cbus (cart_receive_word env at s))"
  using same_words_facts [OF receive_same [OF assms(1), of at s]] word_in_words [OF assms(2-4)] by simp

lemma catch_loop_words:
  "dma_leaves_bus env \<Longrightarrow> bus_ok (cbus s) \<Longrightarrow>
    words_left (cbus (cart_catch_loop env n s)) = words_left (cbus s) \<and> bus_ok (cbus (cart_catch_loop env n s))"
proof (induction n arbitrary: s)
  case (Suc n)
  then show ?case using receive_words [of env s "cb_next_at (cbus s)"] by (simp add: Let_def)
qed simp

lemma catch_up_words:
  assumes "dma_leaves_bus env" "bus_ok (cbus s)"
  shows "words_left (cbus (cart_catch_up env s)) = words_left (cbus s) \<and> bus_ok (cbus (cart_catch_up env s))"
proof -
  have "same_words ((cbus t)\<lparr> cb_event_armed := True \<rparr>) (cbus t)" for t :: "('a, 'b) cart_console" by simp
  from same_words_facts [OF this] show ?thesis
    using catch_loop_words [OF assms, of 2] assms by (simp add: cart_catch_up_def cart_catch_up_slow_def Let_def)
qed

lemma end_transfer_words:
  assumes "bus_ok (cbus s)" "cb_count (cbus s) = 0" "\<not> cb_pos (cbus s) < cb_len (cbus s)"
  shows "words_left (cbus (cart_end_transfer s)) = words_left (cbus s) \<and> bus_ok (cbus (cart_end_transfer s))"
  using assms by (simp add: cart_end_transfer_def Let_def words_left_def bus_held_def bus_ok_def)

text \<open>A read that finds a word hands out the oldest; one that finds none changes nothing that matters.\<close>

lemma read_words:
  assumes dma: "dma_leaves_bus env" and ok: "bus_ok (cbus s)" and dir: "\<not> tst (cb_romctrl (cbus (cart_catch_up env s))) 0x40000000"
  defines "b \<equiv> cbus (cart_catch_up env s)"
  shows "0 < cb_count b \<Longrightarrow> words_left (cbus s) = fst (cart_read_data env s) # words_left (cbus (snd (cart_read_data env s)))"
    "cb_count b = 0 \<Longrightarrow> words_left (cbus (snd (cart_read_data env s))) = words_left (cbus s)"
    "bus_ok (cbus (snd (cart_read_data env s)))"
proof -
  let ?t = "cart_catch_up env s"
  let ?u = "upd_bus word_out ?t"
  have t: "words_left b = words_left (cbus s)" "bus_ok b" using catch_up_words [OF dma ok] by (simp_all add: b_def)
  have v: "fst (cart_read_data env s) = cb_fifo b (cb_head b)" using dir by (simp add: cart_read_data_def b_def Let_def)
  have okw: "bus_ok (word_out b)"
    using t(2) word_out_words(2) [OF t(2)] by (cases "cb_count b = 0") (simp_all add: word_out_def bus_ok_def)
  have u: "words_left (cbus (snd (cart_read_data env s))) = words_left (word_out b) \<and> bus_ok (cbus (snd (cart_read_data env s)))"
  proof -
    have e: "snd (cart_read_data env s) =
        (if cb_pos (word_out b) < cb_len (word_out b) then
           (if cb_late (word_out b) then cart_schedule_receive env (now ?u) (upd_bus (\<lambda>b. b\<lparr> cb_late := False \<rparr>) ?u) else ?u)
         else if cb_count (word_out b) = 0 then cart_end_transfer ?u
         else upd_bus (\<lambda>b. b\<lparr> cb_romctrl := cb_romctrl b OR 0x00800000 \<rparr>) ?u)"
      using dir by (simp add: cart_read_data_def b_def Let_def)
    have cu: "cbus ?u = word_out b" by (simp add: b_def)
    have "same_words (cbus (cart_schedule_receive env (now ?u) (upd_bus (\<lambda>b. b\<lparr> cb_late := False \<rparr>) ?u))) (word_out b)"
      using schedule_receive_same [of env "now ?u" "upd_bus (\<lambda>b. b\<lparr> cb_late := False \<rparr>) ?u"]
      by (simp add: same_words_def b_def)
    note s1 = same_words_facts [OF this]
    have "same_words (cbus (upd_bus (\<lambda>b. b\<lparr> cb_romctrl := cb_romctrl b OR 0x00800000 \<rparr>) ?u)) (word_out b)" by (simp add: b_def)
    note s2 = same_words_facts [OF this]
    show ?thesis
      unfolding e using s1 s2 okw cu end_transfer_words [of ?u] by (simp split: if_split)
  qed
  show "0 < cb_count b \<Longrightarrow> words_left (cbus s) = fst (cart_read_data env s) # words_left (cbus (snd (cart_read_data env s)))"
    using u v t word_out_words(1) [OF t(2)] by simp
  show "cb_count b = 0 \<Longrightarrow> words_left (cbus (snd (cart_read_data env s))) = words_left (cbus s)"
    using u t by (simp add: word_out_def words_left_def bus_held_def)
  show "bus_ok (cbus (snd (cart_read_data env s)))" using u by simp
qed

section \<open>When words are received\<close>

lemma schedule_receive_flow:
  "flow_ok (cbus s) \<Longrightarrow> \<not> cb_late (cbus s) \<Longrightarrow> flow_ok (cbus (cart_schedule_receive env from s))"
  by (auto simp: cart_schedule_receive_def Let_def flow_ok_def not_le)

lemma receive_flow:
  assumes "dma_leaves_bus env" "\<not> cb_event_armed (cbus s)" "\<not> cb_late (cbus s)"
  shows "flow_ok (cbus (cart_receive_word env at s))"
proof -
  let ?s = "upd_bus word_in s"
  let ?t = "if cart_dma_armed env ?s then ce_dma_check env ARM7 0x12 (ce_dma_check env ARM9 5 ?s) else ?s"
  have t: "cbus ?t = word_in (cbus s)" using dma_frame [OF assms(1)] by (simp split: if_split)
  have w: "\<not> cb_event_armed (word_in (cbus s))" "\<not> cb_late (word_in (cbus s))"
    using assms(2,3) by (simp_all add: word_in_def split_beta)
  have "cb_count (word_in (cbus s)) < 2 \<Longrightarrow> flow_ok (cbus (cart_schedule_receive env at ?t))"
    using w t schedule_receive_flow [of ?t env at] by (simp add: flow_ok_def)
  moreover have "\<not> cb_count (word_in (cbus s)) < 2 \<Longrightarrow> flow_ok (cbus (upd_bus (\<lambda>b. b\<lparr> cb_late := True \<rparr>) ?t))"
    using w t by (simp add: flow_ok_def)
  ultimately show ?thesis unfolding cart_receive_word_def Let_def using t by simp
qed

lemma dma_armed_frame [simp]:
  "dma_leaves_bus env \<Longrightarrow> cart_dma_armed env (upd_bus f s) = cart_dma_armed env s"
  by (simp add: dma_leaves_bus_def cart_dma_armed_def) (simp add: upd_bus_def upd_io_def)

text \<open>With no DMA channel waiting no event is armed.\<close>

lemma receive_unarmed:
  "dma_leaves_bus env \<Longrightarrow> \<not> cart_dma_armed env s \<Longrightarrow>
    cb_event_armed (cbus (cart_receive_word env at s)) = cb_event_armed (cbus s) \<and> \<not> cart_dma_armed env (cart_receive_word env at s)"
  by (simp add: cart_receive_word_def cart_schedule_receive_def Let_def word_in_def split_beta)

lemma catch_loop_unarmed:
  assumes "dma_leaves_bus env" "\<not> cart_dma_armed env s" "\<not> cb_event_armed (cbus s)" "flow_ok (cbus s)"
  shows "flow_ok (cbus (cart_catch_loop env n s)) \<and> \<not> cart_dma_armed env (cart_catch_loop env n s)"
  using assms
proof (induction n arbitrary: s)
  case (Suc n)
  have "flow_ok (cbus (cart_receive_word env at s))" if "cb_pos (cbus s) < cb_len (cbus s)" "cb_count (cbus s) < 2" for at
    using receive_flow [of env s at] Suc.prems that by (simp add: flow_ok_def [of "cbus s"])
  then show ?case
    using Suc receive_unarmed [of env s "cb_next_at (cbus s)"] by (simp add: Let_def)
qed simp

text \<open>Where a channel was armed after the transfer began, the catch-up hands reception over to events; it may do so
  when no word is due, when one is held already, or when one is to come.  (Two words due at once would leave an event
  armed beside a full FIFO.)\<close>

definition takeover_fits :: "('y, 'w) cart_env \<Rightarrow> ('y, 'w) cart_console \<Rightarrow> bool" where
  "takeover_fits env s \<longleftrightarrow> (let b = cbus s in
     cart_dma_armed env s \<longrightarrow> cb_event_armed b \<or> now s < cb_next_at b \<or> 0 < cb_count b \<or> cb_len b \<le> cb_pos b + 4)"

lemma catch_loop_flow:
  assumes "dma_leaves_bus env" "takeover_fits env s" "\<not> cb_event_armed (cbus s)" "flow_ok (cbus s)"
  shows "flow_ok (cbus (cart_catch_loop env 2 s))"
proof (cases "cart_dma_armed env s")
  case True
  have two: "cart_catch_loop env 2 s = (if cb_pos (cbus s) < cb_len (cbus s) \<and> cb_count (cbus s) < 2 \<and> cb_next_at (cbus s) \<le> now s
      then cart_catch_loop env 1 (cart_receive_word env (cb_next_at (cbus s)) s) else s)"
    by (simp only: numeral_2_eq_2 One_nat_def cart_catch_loop.simps(2) [of env "Suc 0"] Let_def)
  show ?thesis
  proof (cases "cb_pos (cbus s) < cb_len (cbus s) \<and> cb_count (cbus s) < 2 \<and> cb_next_at (cbus s) \<le> now s")
    case due: True
    let ?r = "cart_receive_word env (cb_next_at (cbus s)) s"
    have "same_words (cbus ?r) (word_in (cbus s))" by (rule receive_same [OF assms(1)])
    then have "cb_count (cbus ?r) = cb_count (cbus s) + 1 \<and> cb_pos (cbus ?r) = cb_pos (cbus s) + 4 \<and> cb_len (cbus ?r) = cb_len (cbus s)"
      by (simp add: same_words_def word_in_def split_beta)
    moreover have "0 < cb_count (cbus s) \<or> cb_len (cbus s) \<le> cb_pos (cbus s) + 4"
      using assms(2,3) due True by (auto simp: takeover_fits_def Let_def)
    ultimately have "cart_catch_loop env 1 ?r = ?r" by (auto simp: Let_def not_less [symmetric])
    then have "cart_catch_loop env 2 s = ?r" using due two by simp
    then show ?thesis using receive_flow [OF assms(1,3)] assms(4) due by (simp add: flow_ok_def [of "cbus s"])
  qed (use assms(4) two in auto)
qed (use catch_loop_unarmed [OF assms(1) _ assms(3,4)] in simp)

lemma catch_up_flow:
  assumes "dma_leaves_bus env" "takeover_fits env s" "flow_ok (cbus s)"
  shows "flow_ok (cbus (cart_catch_up env s))"
proof -
  have "flow_ok b \<Longrightarrow> \<not> cb_late b \<Longrightarrow> cb_pos b < cb_len b \<Longrightarrow> flow_ok (b\<lparr> cb_event_armed := True \<rparr>)" for b
    by (simp add: flow_ok_def)
  then show ?thesis
    using catch_loop_flow [OF assms(1,2)] assms(3) by (simp add: cart_catch_up_def cart_catch_up_slow_def Let_def)
qed

lemma read_flow:
  assumes "dma_leaves_bus env" "takeover_fits env s" "flow_ok (cbus s)" "bus_ok (cbus s)"
  shows "flow_ok (cbus (snd (cart_read_data env s)))"
proof -
  let ?t = "cart_catch_up env s"
  define b where "b = cbus ?t"
  have b: "flow_ok b" "cb_count b \<le> 2" using catch_up_flow [OF assms(1-3)] catch_up_words [OF assms(1,4)] by (simp_all add: b_def bus_ok_def)
  have w: "cb_count (word_out b) < 2" "cb_pos (word_out b) = cb_pos b" "cb_len (word_out b) = cb_len b"
    "cb_late (word_out b) = cb_late b" "cb_event_armed (word_out b) = cb_event_armed b"
    using b(2) by (auto simp: word_out_def)
  have 1: "flow_ok ((word_out b)\<lparr> cb_late := False \<rparr>)" "\<not> cb_late b \<Longrightarrow> flow_ok (word_out b)"
    using b(1) w by (auto simp: flow_ok_def)
  have "flow_ok (cbus (cart_schedule_receive env at (upd_bus (\<lambda>b. b\<lparr> cb_late := False \<rparr>) (upd_bus word_out ?t))))" for at
    by (rule schedule_receive_flow) (simp_all add: b_def [symmetric] 1)
  moreover have "flow_ok (cbus (cart_end_transfer (upd_bus word_out ?t)))"
    "flow_ok ((word_out b)\<lparr> cb_romctrl := r \<rparr>)" if "\<not> cb_pos b < cb_len b" for r
    using that b(1) w by (auto simp: cart_end_transfer_def Let_def flow_ok_def b_def)
  ultimately show ?thesis
    using b(1) w 1 by (auto simp: cart_read_data_def Let_def b_def [symmetric])
qed

section \<open>A transfer\<close>

text \<open>What can happen to the bus while a transfer runs, and the words the processor got: anything that leaves the
  bus alone, such as time passing or a DMA channel being armed, may come between.\<close>

inductive cart_run :: "('y, 'w) cart_env \<Rightarrow> ('y, 'w) cart_console \<Rightarrow> u32 list \<Rightarrow> ('y, 'w) cart_console \<Rightarrow> bool" for env s where
  start: "cart_run env s [] s"
| elapse: "cart_run env s ws t \<Longrightarrow> cbus u = cbus t \<Longrightarrow> cart_run env s ws u"
| poll: "cart_run env s ws t \<Longrightarrow> takeover_fits env t \<Longrightarrow> cart_run env s ws (snd (cart_drq env t))"
| arrive: "cart_run env s ws t \<Longrightarrow> cb_event_armed (cbus t) \<Longrightarrow> cart_run env s ws (cart_event env 1 t)"
| word: "cart_run env s ws t \<Longrightarrow> takeover_fits env t \<Longrightarrow> 0 < cb_count (cbus (cart_catch_up env t)) \<Longrightarrow>
    \<not> tst (cb_romctrl (cbus (cart_catch_up env t))) 0x40000000 \<Longrightarrow>
    cart_run env s (ws @ [fst (cart_read_data env t)]) (snd (cart_read_data env t))"
| early: "cart_run env s ws t \<Longrightarrow> takeover_fits env t \<Longrightarrow> cb_count (cbus (cart_catch_up env t)) = 0 \<Longrightarrow>
    \<not> tst (cb_romctrl (cbus (cart_catch_up env t))) 0x40000000 \<Longrightarrow> cart_run env s ws (snd (cart_read_data env t))"

lemma run_words:
  assumes "cart_run env s ws t" "dma_leaves_bus env" "bus_ok (cbus s)" "flow_ok (cbus s)"
  shows "words_left (cbus s) = ws @ words_left (cbus t) \<and> bus_ok (cbus t) \<and> flow_ok (cbus t)"
  using assms
proof (induction rule: cart_run.induct)
  case (poll ws t)
  then show ?case using catch_up_words [of env t] catch_up_flow [of env t] by (simp add: cart_drq_def Let_def)
next
  case (arrive ws t)
  let ?t = "upd_bus (\<lambda>b. b\<lparr> cb_event_armed := False \<rparr>) t"
  have "same_words (cbus ?t) (cbus t)" by simp
  note same = same_words_facts [OF this]
  have t: "\<not> cb_event_armed (cbus ?t)" "\<not> cb_late (cbus ?t)" "cb_pos (cbus ?t) < cb_len (cbus ?t)" "cb_count (cbus ?t) < 2"
    using arrive by (auto simp: flow_ok_def)
  have "words_left (cbus (cart_event env 1 t)) = words_left (cbus ?t) \<and> bus_ok (cbus (cart_event env 1 t)) \<and> flow_ok (cbus (cart_event env 1 t))"
    using receive_words [OF arrive.prems(1) _ t(3,4)] receive_flow [OF arrive.prems(1) t(1,2)] arrive same
    by (simp add: cart_event_def Let_def)
  then show ?case using arrive same by simp
next
  case (word ws t)
  then show ?case using read_words [of env t] read_flow [of env t] by simp
next
  case (early ws t)
  then show ?case using read_words [of env t] read_flow [of env t] by simp
qed simp_all

text \<open>C19: from any state of a transfer, whatever mixture of polls, armed word events, early reads, passing time and DMA
  channels coming and going follows, the words the processor reads are the words held and then those the card sends, each
  once and in order; a channel armed in mid-transfer must not find two words due with none held.\<close>

theorem cart_words_in_order:
  assumes "cart_run env s ws t" "dma_leaves_bus env" "bus_ok (cbus s)" "flow_ok (cbus s)"
  shows "words_left (cbus s) = ws @ words_left (cbus t)"
  using run_words [OF assms] by blast

lemma transfer_bytes_ok: "transfer_bytes r \<le> 0x4000 \<and> 4 dvd unat (transfer_bytes r)"
proof -
  have "unat (fld r 24 7) < 8" using unat_and_mask [of "drop_bit 24 r" 3] by (simp add: fld_def mask_eq_exp_minus_1)
  then have "unat (fld r 24 7) \<in> {0, 1, 2, 3, 4, 5, 6, 7}" by auto
  moreover have "transfer_bytes r = (let n = unat (fld r 24 7) in if n = 7 then 4 else if n \<noteq> 0 then push_bit n 0x100 else 0)"
    by (simp add: transfer_bytes_def Let_def word_unat_eq_iff)
  ultimately show ?thesis by (auto simp: Let_def)
qed

lemma start_fields:
  assumes "tst (v AND NOT (cb_romctrl (cbus s))) 0x80000000" "\<not> tst (v AND NOT (cb_romctrl (cbus s))) 0x20000000"
    "tst (cb_auxspicnt (cbus s)) 0x8000" "\<not> tst (cb_auxspicnt (cbus s)) 0x2000"
  shows "cb_count (cbus (cart_write_romctrl env v s)) = 0 \<and> cb_pos (cbus (cart_write_romctrl env v s)) = 0 \<and>
    cb_head (cbus (cart_write_romctrl env v s)) = cb_head (cbus s) \<and>
    (\<exists>r. cb_len (cbus (cart_write_romctrl env v s)) = transfer_bytes r) \<and>
    cb_card (cbus (cart_write_romctrl env v s)) = map_option (command_start (ce_bios env) (cb_cmd (cbus s))) (cb_card (cbus s))"
proof -
  define ctrl where "ctrl = (let c = (cb_romctrl (cbus s) AND 0x00800000) OR (v AND 0xFF7F7FFF) OR (cb_romctrl (cbus s) AND 0x20000000)
    in if tst v 0x20000000 then c OR 0x20000000 else c)"
  show ?thesis
    using assms unfolding cart_write_romctrl_def Let_def ctrl_def [unfolded Let_def, symmetric]
    by (simp split: if_split) blast
qed

text \<open>A transfer starts with nothing held and the card's whole answer to the command to come.\<close>

lemma start_words:
  assumes "tst (v AND NOT (cb_romctrl (cbus s))) 0x80000000" "\<not> tst (v AND NOT (cb_romctrl (cbus s))) 0x20000000"
    "tst (cb_auxspicnt (cbus s)) 0x8000" "\<not> tst (cb_auxspicnt (cbus s)) 0x2000" "cb_head (cbus s) < 2"
  shows "words_left (cbus (cart_write_romctrl env v s)) = card_words (unat (cb_len (cbus (cart_write_romctrl env v s))) div 4)
      (map_option (command_start (ce_bios env) (cb_cmd (cbus s))) (cb_card (cbus s)))"
    "bus_ok (cbus (cart_write_romctrl env v s))"
  using start_fields [OF assms(1-4), of env] assms(5) transfer_bytes_ok by (auto simp: words_left_def bus_held_def bus_ok_def)

text \<open>A read transfer of at least a word starts with its first word lazy or armed, whatever the one before left.\<close>

lemma start_flow:
  assumes "tst (v AND NOT (cb_romctrl (cbus s))) 0x80000000" "\<not> tst (v AND NOT (cb_romctrl (cbus s))) 0x20000000"
    "tst (cb_auxspicnt (cbus s)) 0x8000" "\<not> tst (cb_auxspicnt (cbus s)) 0x2000"
    "cb_len (cbus (cart_write_romctrl env v s)) \<noteq> 0" "\<not> tst (cb_romctrl (cbus (cart_write_romctrl env v s))) 0x40000000"
  shows "flow_ok (cbus (cart_write_romctrl env v s))"
proof -
  define ctrl where "ctrl = (let c = (cb_romctrl (cbus s) AND 0x00800000) OR (v AND 0xFF7F7FFF) OR (cb_romctrl (cbus s) AND 0x20000000)
    in if tst v 0x20000000 then c OR 0x20000000 else c)"
  note w = cart_write_romctrl_def [of env v s, unfolded Let_def, folded ctrl_def [unfolded Let_def]]
  have read: "\<not> tst (ctrl AND NOT 0x00800000) 0x40000000" "transfer_bytes ctrl \<noteq> 0"
    using assms unfolding w by (simp_all split: if_splits)
  show ?thesis
    using assms(1-4) read unfolding w by (simp add: flow_ok_def word_neq_0_conv split: if_split)
qed

text \<open>A word comes once its time has passed, unless an event is to bring it.\<close>

lemma word_comes:
  assumes "dma_leaves_bus env" "cb_pos (cbus s) < cb_len (cbus s)" "cb_next_at (cbus s) \<le> now s"
    "\<not> cb_event_armed (cbus s)" "\<not> cb_late (cbus s)" "cb_count (cbus s) = 0"
  shows "0 < cb_count (cbus (cart_catch_up env s))"
proof -
  have grows: "cb_count (cbus t) \<le> cb_count (cbus (cart_catch_loop env n t))" for n t
  proof (induction n arbitrary: t)
    case (Suc n)
    have "cb_count (cbus t) \<le> cb_count (cbus (cart_receive_word env (cb_next_at (cbus t)) t))"
      using receive_same [OF assms(1), of "cb_next_at (cbus t)" t] by (simp add: same_words_def word_in_def split_beta)
    then show ?case using Suc.IH [of "cart_receive_word env (cb_next_at (cbus t)) t"] by (simp add: Let_def)
  qed simp
  have "cb_count (cbus (cart_receive_word env (cb_next_at (cbus s)) s)) = 1"
    using receive_same [OF assms(1), of "cb_next_at (cbus s)" s] assms(6) by (simp add: same_words_def word_in_def split_beta)
  then have "0 < cb_count (cbus (cart_catch_loop env 2 s))"
    using grows [of "cart_receive_word env (cb_next_at (cbus s)) s" 1] assms by (simp add: numeral_2_eq_2 Let_def)
  then show ?thesis using assms by (simp add: cart_catch_up_def cart_catch_up_slow_def Let_def)
qed

text \<open>An empty slot, the four bytes of a chip ID asked for, and their word due.\<close>

definition bus_id_read :: cart_bus where
  "bus_id_read = \<lparr> cb_auxspicnt = 0xC000, cb_auxspidata = 0, cb_romctrl = 0xA7000000, cb_cmd = replicate 8 0, cb_pos = 0,
     cb_len = 4, cb_count = 0, cb_fifo = (\<lambda>_. 0), cb_head = 0, cb_late = False, cb_next_at = 0, cb_event_armed = False,
     cb_card = None, cb_exmemcnt = 0, cb_scfg_mc = 0, cb_poweroff_delay = 0 \<rparr>"

definition console_id_read :: "(unit, unit) cart_console" where
  "console_id_read = sched_with
     \<lparr> io_cpu = (\<lambda>_. zero_cpu_io), io_is_dsi = False, io_defer = True, io_ie2 = 0, io_if2 = 0,
       io_gxstat = 0, io_scfg_ext = (\<lambda>_. 0), io_bus_calls = [], ipc9_pending = replicate 16 0, ipc9_pending_n = 0,
       lcd_irq_delay = 4, lcd_irq_pending = (\<lambda>_. 0), dispstat = (\<lambda>_. 0), vcount = 0, math = math_zero,
       io_more = (bus_id_read, ()) \<rparr>"

definition env_quiet :: "(unit, unit) cart_env" where
  "env_quiet = \<lparr> ce_bios = (\<lambda>_. 0), ce_dma_armed = (\<lambda>_. False), ce_dma_check = (\<lambda>w m s. s), ce_drop_gaps = False, ce_drop_clock = False \<rparr>"

theorem cart_words_in_order_witness:
  "cart_run env_quiet console_id_read [0] (snd (cart_read_data env_quiet console_id_read)) \<and>
   words_left (cbus console_id_read) = [0] @ words_left (cbus (snd (cart_read_data env_quiet console_id_read)))"
proof -
  have b: "cbus console_id_read = bus_id_read"
    by (simp add: console_id_read_def cbus_def sched_with_def)
  have n: "now console_id_read = 0" by (simp add: console_id_read_def sched_with_def now_def)
  have d: "dma_leaves_bus env_quiet" by (simp add: dma_leaves_bus_def env_quiet_def)
  have ok: "bus_ok (cbus console_id_read)" by (simp add: b bus_id_read_def bus_ok_def)
  have fl: "flow_ok (cbus console_id_read)" by (simp add: b bus_id_read_def flow_ok_def)
  have fits: "takeover_fits env_quiet console_id_read"
    by (simp add: takeover_fits_def cart_dma_armed_def env_quiet_def console_id_read_def sched_with_def Let_def)
  have c: "0 < cb_count (cbus (cart_catch_up env_quiet console_id_read))"
    using word_comes [OF d, of console_id_read] by (simp add: b n bus_id_read_def)
  let ?t = "upd_bus word_in console_id_read"
  have up: "cbus (upd_bus f t) = f (cbus t)" for f and t :: "(unit, unit) cart_console" by simp
  have w: "word_in bus_id_read = bus_id_read\<lparr> cb_count := 1, cb_pos := 4, cb_romctrl := 0xA7800000, cb_fifo := (\<lambda>_. 0) \<rparr>"
    by (simp add: word_in_def card_word_def bus_id_read_def fun_upd_idem)
  have t: "cbus ?t = word_in bus_id_read" by (simp add: b)
  have f: "cb_pos bus_id_read = 0" "cb_len bus_id_read = 4" "cb_count bus_id_read = 0" "cb_next_at bus_id_read = 0"
    "\<not> cb_event_armed bus_id_read" "\<not> cb_late bus_id_read" by (simp_all add: bus_id_read_def)
  have full: "cb_len (cbus ?t) \<le> cb_pos (cbus ?t)" "cb_count (cbus ?t) < 2" by (simp_all add: b w) (simp_all add: bus_id_read_def)
  have dsi: "\<not> cart_dma_armed env_quiet ?t"
    by (simp add: cart_dma_armed_def env_quiet_def upd_bus_def upd_io_def console_id_read_def sched_with_def)
  have r: "cart_receive_word env_quiet a console_id_read = ?t" for a
    unfolding cart_receive_word_def cart_schedule_receive_def Let_def using dsi full by simp
  have l: "cart_catch_loop env_quiet 2 console_id_read = ?t"
  proof -
    have "cart_catch_loop env_quiet (Suc (Suc 0)) console_id_read = ?t"
      using full by (simp add: Let_def r b n f not_less [symmetric])
    then show ?thesis by (simp only: numeral_2_eq_2)
  qed
  have e: "cbus (cart_catch_up env_quiet console_id_read) = word_in bus_id_read"
    using full by (simp add: cart_catch_up_def cart_catch_up_slow_def Let_def l b f not_less [symmetric])
  have dir: "\<not> tst (cb_romctrl (cbus (cart_catch_up env_quiet console_id_read))) 0x40000000"
    unfolding e w by (simp add: tst_def)
  have v: "fst (cart_read_data env_quiet console_id_read) = 0"
    using dir unfolding cart_read_data_def Let_def e w by (simp add: bus_id_read_def)
  have r: "cart_run env_quiet console_id_read [0] (snd (cart_read_data env_quiet console_id_read))"
    using cart_run.word [OF cart_run.start fits c dir] v by simp
  show ?thesis using r cart_words_in_order [OF r d ok fl] by blast
qed

text \<open>Reading ROMDATA when no transfer runs ends one all the same, with its interrupt.\<close>

lemma idle_read_ends:
  assumes "cb_count (cbus s) = 0" "cb_pos (cbus s) = 0" "cb_len (cbus s) = 0" "\<not> tst (cb_romctrl (cbus s)) 0x40000000"
  shows "snd (cart_read_data env s) = cart_end_transfer (upd_bus word_out s)"
  using assms by (simp add: cart_read_data_def cart_catch_up_def Let_def word_out_def)

end
