(* ===== verification/Spu.thy ===== *)
theory Spu imports Prelude begin

text \<open>
  The sound unit (\<^verbatim>\<open>src/core/spu/spu.cpp\<close>, \<^verbatim>\<open>spu.h\<close>): sixteen channels with their sample FIFOs,
  the two capture units, the mixer, the output ring and the registers.  The FIFOs are byte
  arrays (functions from an index), as the code reads and writes them through byte pointers.
  Signed 32-bit values that are only added and shifted are integers; \<open>SpuSpec\<close> shows that they
  fit.  The bus is the world \<open>'w\<close> behind \<open>spu_env\<close>; a channel that fetches from the sound registers
  themselves, which re-enters the unit in the code, is outside the model.
\<close>

section \<open>State\<close>

record spu_channel =
  sc_cnt :: u32
  sc_src :: u32
  sc_loop :: u32
  sc_len :: u32
  sc_timer_reload :: u16
  sc_timer :: u32
  sc_pos :: u32
  sc_cur :: u16
  sc_noise :: u16
  sc_volume :: u8
  sc_vol_shift :: u8
  sc_pan :: u8
  sc_key_on :: bool
  sc_adpcm_val :: int
  sc_adpcm_idx :: int
  sc_adpcm_val_loop :: int
  sc_adpcm_idx_loop :: int
  sc_adpcm_byte :: u8
  sc_fifo :: "nat \<Rightarrow> u8"
  sc_fifo_rd :: u32
  sc_fifo_wr :: u32
  sc_fifo_off :: u32
  sc_fifo_level :: u32

record spu_capture =
  sk_cnt :: u8
  sk_dst :: u32
  sk_len :: u32
  sk_timer_reload :: u16
  sk_timer :: u32
  sk_pos :: u32
  sk_fifo :: "nat \<Rightarrow> u8"
  sk_fifo_rd :: u32
  sk_fifo_wr :: u32
  sk_fifo_off :: u32
  sk_fifo_level :: u32

text \<open>\<open>sp_sndexcnt\<close> is the DSi's register, kept by the I/O unit in the code; \<open>sp_w\<close> is the bus.\<close>

record 'w spu =
  sp_ch :: "nat \<Rightarrow> spu_channel"
  sp_cap :: "nat \<Rightarrow> spu_capture"
  sp_cnt :: u16
  sp_bias :: u16
  sp_master :: u8
  sp_muted :: bool
  sp_mix_at :: u64
  sp_mix_period :: u32
  sp_timer_step :: u32
  sp_apply_bias :: bool
  sp_batch :: u32
  sp_ring :: "nat \<Rightarrow> u16 \<times> u16"
  sp_rd :: nat
  sp_wr :: nat
  sp_overruns :: u64
  sp_sndexcnt :: u16
  sp_w :: 'w

record 'w spu_env =
  se_read32 :: "u32 \<Rightarrow> 'w \<Rightarrow> u32 \<times> 'w"
  se_write32 :: "u32 \<Rightarrow> u32 \<Rightarrow> 'w \<Rightarrow> 'w"
  se_dsi :: bool
  se_mic_clock :: "u64 \<Rightarrow> 'w \<Rightarrow> 'w"

definition silent_channel :: spu_channel where
  "silent_channel = \<lparr> sc_cnt = 0, sc_src = 0, sc_loop = 0, sc_len = 0, sc_timer_reload = 0, sc_timer = 0, sc_pos = 0,
     sc_cur = 0, sc_noise = 0, sc_volume = 0, sc_vol_shift = 0, sc_pan = 0, sc_key_on = False, sc_adpcm_val = 0,
     sc_adpcm_idx = 0, sc_adpcm_val_loop = 0, sc_adpcm_idx_loop = 0, sc_adpcm_byte = 0, sc_fifo = (\<lambda>_. 0),
     sc_fifo_rd = 0, sc_fifo_wr = 0, sc_fifo_off = 0, sc_fifo_level = 0 \<rparr>"

definition new_capture :: spu_capture where
  "new_capture = \<lparr> sk_cnt = 0, sk_dst = 0, sk_len = 4, sk_timer_reload = 0, sk_timer = 0, sk_pos = 0,
     sk_fifo = (\<lambda>_. 0), sk_fifo_rd = 0, sk_fifo_wr = 0, sk_fifo_off = 0, sk_fifo_level = 0 \<rparr>"

definition MIX_PERIOD :: u32 where "MIX_PERIOD = 2048"
definition MIX_PERIOD_47K :: u32 where "MIX_PERIOD_47K = 1408"
definition TIMER_STEP :: u32 where "TIMER_STEP = 512"
definition RING_FRAMES :: nat where "RING_FRAMES = 16384"

definition spu_reset :: "'w spu_env \<Rightarrow> u64 \<Rightarrow> 'w spu \<Rightarrow> 'w spu" where
  "spu_reset env now s = s\<lparr> sp_ch := (\<lambda>_. silent_channel), sp_cap := (\<lambda>_. new_capture), sp_cnt := 0, sp_bias := 0,
     sp_master := 0, sp_muted := True, sp_rd := 0, sp_wr := 0, sp_mix_period := MIX_PERIOD, sp_timer_step := TIMER_STEP,
     sp_batch := (if se_dsi env then 1 else 16), sp_mix_at := now + ucast MIX_PERIOD \<rparr>"

definition channel_on :: "spu_channel \<Rightarrow> bool" where
  "channel_on c = tst (sc_cnt c) 0x80000000"

definition sc_format :: "spu_channel \<Rightarrow> u32" where
  "sc_format c = fld (sc_cnt c) 29 3"

definition sc_repeat :: "spu_channel \<Rightarrow> u32" where
  "sc_repeat c = fld (sc_cnt c) 27 3"

definition sc_total :: "spu_channel \<Rightarrow> u32" where
  "sc_total c = sc_loop c + sc_len c"

section \<open>Tables\<close>

definition ADPCM_TABLE :: "nat list" where
  "ADPCM_TABLE = [0x0007, 0x0008, 0x0009, 0x000A, 0x000B, 0x000C, 0x000D, 0x000E, 0x0010, 0x0011, 0x0013, 0x0015,
    0x0017, 0x0019, 0x001C, 0x001F, 0x0022, 0x0025, 0x0029, 0x002D, 0x0032, 0x0037, 0x003C, 0x0042,
    0x0049, 0x0050, 0x0058, 0x0061, 0x006B, 0x0076, 0x0082, 0x008F, 0x009D, 0x00AD, 0x00BE, 0x00D1,
    0x00E6, 0x00FD, 0x0117, 0x0133, 0x0151, 0x0173, 0x0198, 0x01C1, 0x01EE, 0x0220, 0x0256, 0x0292,
    0x02D4, 0x031C, 0x036C, 0x03C3, 0x0424, 0x048E, 0x0502, 0x0583, 0x0610, 0x06AB, 0x0756, 0x0812,
    0x08E0, 0x09C3, 0x0ABD, 0x0BD0, 0x0CFF, 0x0E4C, 0x0FBA, 0x114C, 0x1307, 0x14EE, 0x1706, 0x1954,
    0x1BDC, 0x1EA5, 0x21B6, 0x2515, 0x28CA, 0x2CDF, 0x315B, 0x364B, 0x3BB9, 0x41B2, 0x4844, 0x4F7E,
    0x5771, 0x602F, 0x69CE, 0x7462, 0x7FFF]"

definition ADPCM_INDEX :: "int list" where
  "ADPCM_INDEX = [-1, -1, -1, -1, 2, 4, 6, 8]"

definition psg_sample :: "u32 \<Rightarrow> u32 \<Rightarrow> u16" where
  "psg_sample duty phase = (if phase < 7 - duty then - 0x7FFF else 0x7FFF)"

section \<open>The sample FIFO\<close>

text \<open>A word stored in a byte array.\<close>

definition put_word :: "nat \<Rightarrow> u32 \<Rightarrow> (nat \<Rightarrow> u8) \<Rightarrow> nat \<Rightarrow> u8" where
  "put_word i v f = f(4 * i := ucast v, 4 * i + 1 := ucast (drop_bit 8 v), 4 * i + 2 := ucast (drop_bit 16 v), 4 * i + 3 := ucast (drop_bit 24 v))"

text \<open>The loop of a burst: \<open>n\<close> words from the place reached.\<close>

fun fill_words :: "'w spu_env \<Rightarrow> bool \<Rightarrow> nat \<Rightarrow> spu_channel \<times> 'w \<Rightarrow> spu_channel \<times> 'w" where
  "fill_words env readable 0 cw = cw"
| "fill_words env readable (Suc n) cw =
     (let (c, w) = cw;
          (v, w1) = (if readable then se_read32 env (sc_src c + sc_fifo_off c) w else (0, w))
      in fill_words env readable n
           (c\<lparr> sc_fifo := put_word (unat (sc_fifo_wr c)) v (sc_fifo c), sc_fifo_off := sc_fifo_off c + 4, sc_fifo_wr := (sc_fifo_wr c + 1) AND 7 \<rparr>, w1))"

definition fifo_fill :: "'w spu_env \<Rightarrow> spu_channel \<times> 'w \<Rightarrow> spu_channel \<times> 'w" where
  "fifo_fill env cw =
     (let (c, w) = cw; total = sc_total c; ended = (total \<le> sc_fifo_off c) in
      if ended \<and> \<not> tst (sc_repeat c) 1 \<and> tst (sc_repeat c) 2 then (c, w)
      else
        (let off = (if ended \<and> tst (sc_repeat c) 1 then sc_loop c else sc_fifo_off c);
             burst = (if off + 16 > total then total - off else 16);
             (c1, w1) = fill_words env (sc_src c + off \<ge> 0x4000) ((unat burst + 3) div 4) (c\<lparr> sc_fifo_off := off \<rparr>, w)
         in (c1\<lparr> sc_fifo_level := sc_fifo_level c1 + burst \<rparr>, w1)))"

text \<open>The next \<open>k\<close> bytes: 1, 2 or 4 by the type read.\<close>

definition sample_read :: "'w spu_env \<Rightarrow> nat \<Rightarrow> spu_channel \<times> 'w \<Rightarrow> u8 list \<times> spu_channel \<times> 'w" where
  "sample_read env k cw =
     (let (c, w) = cw; bs = map (\<lambda>i. sc_fifo c (unat (sc_fifo_rd c) + i)) [0..<k];
          c1 = c\<lparr> sc_fifo_rd := (sc_fifo_rd c + of_nat k) AND 0x1F, sc_fifo_level := sc_fifo_level c - of_nat k \<rparr>
      in (bs, if sc_fifo_level c1 \<le> 16 then fifo_fill env (c1, w) else (c1, w)))"

definition start_channel :: "'w spu_env \<Rightarrow> spu_channel \<times> 'w \<Rightarrow> spu_channel \<times> 'w" where
  "start_channel env cw =
     (let (c, w) = cw;
          c1 = c\<lparr> sc_timer := ucast (sc_timer_reload c), sc_pos := (if sc_format c = 3 then - 1 else - 3), sc_noise := 0x7FFF,
                  sc_cur := 0, sc_fifo_rd := 0, sc_fifo_wr := 0, sc_fifo_off := 0, sc_fifo_level := 0 \<rparr>
      in if sc_format c1 \<noteq> 3 then fifo_fill env (fifo_fill env (c1, w)) else (c1, w))"

section \<open>One sample\<close>

definition stop_channel :: "spu_channel \<Rightarrow> spu_channel" where
  "stop_channel c = c\<lparr> sc_cur := 0, sc_cnt := sc_cnt c AND NOT 0x80000000 \<rparr>"

definition next_pcm8 :: "'w spu_env \<Rightarrow> spu_channel \<times> 'w \<Rightarrow> spu_channel \<times> 'w" where
  "next_pcm8 env cw =
     (let (c0, w) = cw; c = c0\<lparr> sc_pos := sc_pos c0 + 1 \<rparr>; ended = (sc_total c \<le> sc_pos c) in
      if sint (sc_pos c) < 0 then (c, w)
      else if ended \<and> \<not> tst (sc_repeat c) 1 \<and> tst (sc_repeat c) 2 then (stop_channel c, w)
      else
        (let (bs, c1, w1) = sample_read env 1 (if ended \<and> tst (sc_repeat c) 1 then c\<lparr> sc_pos := sc_loop c \<rparr> else c, w)
         in (c1\<lparr> sc_cur := push_bit 8 (ucast (bs ! 0)) \<rparr>, w1)))"

definition next_pcm16 :: "'w spu_env \<Rightarrow> spu_channel \<times> 'w \<Rightarrow> spu_channel \<times> 'w" where
  "next_pcm16 env cw =
     (let (c0, w) = cw; c = c0\<lparr> sc_pos := sc_pos c0 + 1 \<rparr>; ended = (sc_total c \<le> push_bit 1 (sc_pos c)) in
      if sint (sc_pos c) < 0 then (c, w)
      else if ended \<and> \<not> tst (sc_repeat c) 1 \<and> tst (sc_repeat c) 2 then (stop_channel c, w)
      else
        (let (bs, c1, w1) = sample_read env 2 (if ended \<and> tst (sc_repeat c) 1 then c\<lparr> sc_pos := drop_bit 1 (sc_loop c) \<rparr> else c, w)
         in (c1\<lparr> sc_cur := ucast (bs ! 0) OR push_bit 8 (ucast (bs ! 1)) \<rparr>, w1)))"

text \<open>The decoder of one four-bit code.\<close>

definition adpcm_diff :: "int \<Rightarrow> u8 \<Rightarrow> int" where
  "adpcm_diff idx b =
     (let step = int (ADPCM_TABLE ! nat idx) in
      step div 8 + (if tst b 1 then step div 4 else 0) + (if tst b 2 then step div 2 else 0) + (if tst b 4 then step else 0))"

definition adpcm_decode :: "spu_channel \<Rightarrow> spu_channel" where
  "adpcm_decode c =
     (let b = sc_adpcm_byte c; diff = adpcm_diff (sc_adpcm_idx c) b;
          c1 = c\<lparr> sc_adpcm_val := (if tst b 8 then max (sc_adpcm_val c - diff) (- 0x7FFF) else min (sc_adpcm_val c + diff) 0x7FFF),
                  sc_adpcm_idx := max 0 (min (sc_adpcm_idx c + ADPCM_INDEX ! unat (b AND 7)) 88) \<rparr>
      in if sc_pos c1 = push_bit 1 (sc_loop c1)
         then c1\<lparr> sc_adpcm_val_loop := sc_adpcm_val c1, sc_adpcm_idx_loop := sc_adpcm_idx c1 \<rparr> else c1)"

definition set_cur_adpcm :: "spu_channel \<times> 'w \<Rightarrow> spu_channel \<times> 'w" where
  "set_cur_adpcm cw = (let (c, w) = cw in (c\<lparr> sc_cur := word_of_int (sc_adpcm_val c) \<rparr>, w))"

definition adpcm_header :: "u8 list \<Rightarrow> spu_channel \<Rightarrow> spu_channel" where
  "adpcm_header bs c =
     (let v = sint (ucast (bs ! 0) OR push_bit 8 (ucast (bs ! 1)) :: u16); i = min (uint (bs ! 2 AND 0x7F)) 88
      in c\<lparr> sc_adpcm_val := v, sc_adpcm_idx := i, sc_adpcm_val_loop := v, sc_adpcm_idx_loop := i \<rparr>)"

definition next_adpcm :: "'w spu_env \<Rightarrow> spu_channel \<times> 'w \<Rightarrow> spu_channel \<times> 'w" where
  "next_adpcm env cw =
     (let (c0, w) = cw; c = c0\<lparr> sc_pos := sc_pos c0 + 1 \<rparr>; half = (word_of_int (sint (sc_pos c) div 2) :: u32) in
      if sint (sc_pos c) < 8 then
        (if sc_pos c = 0 then (let (bs, c1, w1) = sample_read env 4 (c, w) in (adpcm_header bs c1, w1)) else (c, w))
      else if sc_total c \<le> half then
        (if tst (sc_repeat c) 1 then
           (let (bs, c1, w1) = sample_read env 1
                  (c\<lparr> sc_pos := push_bit 1 (sc_loop c), sc_adpcm_val := sc_adpcm_val_loop c, sc_adpcm_idx := sc_adpcm_idx_loop c \<rparr>, w)
            in set_cur_adpcm (c1\<lparr> sc_adpcm_byte := bs ! 0 \<rparr>, w1))
         else if tst (sc_repeat c) 2 then (stop_channel c, w)
         else set_cur_adpcm (c, w))
      else
        (let (c1, w1) = (if \<not> tst (sc_pos c) 1
                         then (let (bs, c2, w2) = sample_read env 1 (c, w) in (c2\<lparr> sc_adpcm_byte := bs ! 0 \<rparr>, w2))
                         else (c\<lparr> sc_adpcm_byte := drop_bit 4 (sc_adpcm_byte c) \<rparr>, w))
         in set_cur_adpcm (adpcm_decode c1, w1)))"

definition next_noise :: "spu_channel \<Rightarrow> spu_channel" where
  "next_noise c =
     (if tst (sc_noise c) 1 then c\<lparr> sc_noise := drop_bit 1 (sc_noise c) XOR 0x6000, sc_cur := - 0x7FFF \<rparr>
      else c\<lparr> sc_noise := drop_bit 1 (sc_noise c), sc_cur := 0x7FFF \<rparr>)"

definition next_psg :: "spu_channel \<Rightarrow> spu_channel" where
  "next_psg c = c\<lparr> sc_pos := sc_pos c + 1, sc_cur := psg_sample (fld (sc_cnt c) 24 7) ((sc_pos c + 1) AND 7) \<rparr>"

definition sample_step :: "'w spu_env \<Rightarrow> nat \<Rightarrow> u32 \<Rightarrow> spu_channel \<times> 'w \<Rightarrow> spu_channel \<times> 'w" where
  "sample_step env i fmt cw =
     (if fmt = 0 then next_pcm8 env cw
      else if fmt = 1 then next_pcm16 env cw
      else if fmt = 2 then next_adpcm env cw
      else (if fmt = 3 \<and> 14 \<le> i then next_noise (fst cw) else next_psg (fst cw), snd cw))"

text \<open>What the fetch of samples leaves alone; the loop below ends because of it.\<close>

definition same_setup :: "spu_channel \<Rightarrow> spu_channel \<Rightarrow> bool" where
  "same_setup a b \<longleftrightarrow> sc_timer a = sc_timer b \<and> sc_timer_reload a = sc_timer_reload b \<and> sc_src a = sc_src b \<and>
     sc_loop a = sc_loop b \<and> sc_len a = sc_len b \<and> sc_volume a = sc_volume b \<and> sc_vol_shift a = sc_vol_shift b \<and>
     sc_pan a = sc_pan b \<and> sc_key_on a = sc_key_on b"

text \<open>The fields that a fetch may write.\<close>

lemma same_setup_update [simp]:
  "same_setup (c\<lparr> sc_pos := p \<rparr>) d = same_setup c d" "same_setup (c\<lparr> sc_cur := u \<rparr>) d = same_setup c d"
  "same_setup (c\<lparr> sc_cnt := q \<rparr>) d = same_setup c d" "same_setup (c\<lparr> sc_noise := u \<rparr>) d = same_setup c d"
  "same_setup (c\<lparr> sc_adpcm_val := i \<rparr>) d = same_setup c d" "same_setup (c\<lparr> sc_adpcm_idx := i \<rparr>) d = same_setup c d"
  "same_setup (c\<lparr> sc_adpcm_val_loop := i \<rparr>) d = same_setup c d" "same_setup (c\<lparr> sc_adpcm_idx_loop := i \<rparr>) d = same_setup c d"
  "same_setup (c\<lparr> sc_adpcm_byte := b \<rparr>) d = same_setup c d" "same_setup c c"
  "same_setup (c\<lparr> sc_fifo := f \<rparr>) d = same_setup c d" "same_setup (c\<lparr> sc_fifo_rd := p \<rparr>) d = same_setup c d"
  "same_setup (c\<lparr> sc_fifo_wr := p \<rparr>) d = same_setup c d" "same_setup (c\<lparr> sc_fifo_off := p \<rparr>) d = same_setup c d"
  "same_setup (c\<lparr> sc_fifo_level := p \<rparr>) d = same_setup c d"
  by (simp_all add: same_setup_def)

lemma fill_words_same [simp]:
  "same_setup (fst (fill_words env b n (c, w))) d = same_setup c d" "sc_cnt (fst (fill_words env b n (c, w))) = sc_cnt c"
  by (induction n arbitrary: c w) (simp_all add: split_beta Let_def)

lemma fifo_fill_same [simp]:
  "same_setup (fst (fifo_fill env (c, w))) d = same_setup c d" "sc_cnt (fst (fifo_fill env (c, w))) = sc_cnt c"
  by (simp_all add: fifo_fill_def split_beta Let_def)

lemma sample_read_same [simp]:
  "same_setup (fst (snd (sample_read env k (c, w)))) d = same_setup c d" "sc_cnt (fst (snd (sample_read env k (c, w)))) = sc_cnt c"
  by (simp_all add: sample_read_def Let_def)

lemma decode_same [simp]: "same_setup (adpcm_decode c) d = same_setup c d" "same_setup (adpcm_header bs c) d = same_setup c d"
  by (simp_all add: adpcm_decode_def adpcm_header_def Let_def)

lemma next_setup:
  "same_setup (fst (next_pcm8 env cw)) (fst cw)" "same_setup (fst (next_pcm16 env cw)) (fst cw)"
  "same_setup (next_noise c) c" "same_setup (next_psg c) c" "same_setup (fst (next_adpcm env cw)) (fst cw)"
      apply (simp add: next_pcm8_def stop_channel_def split_beta Let_def)
     apply (simp add: next_pcm16_def stop_channel_def split_beta Let_def)
    apply (simp add: next_noise_def)
   apply (simp add: next_psg_def)
  apply (simp add: next_adpcm_def set_cur_adpcm_def stop_channel_def split_beta Let_def)
  done

lemma sample_step_setup: "same_setup (fst (sample_step env i fmt cw)) (fst cw)"
  by (simp add: sample_step_def next_setup)

lemma timer_falls:
  fixes t :: u32 and r :: u16
  assumes "drop_bit 16 t \<noteq> 0"
  shows "unat (ucast r + (t - 0x10000)) < unat t"
proof -
  have "unat (drop_bit 16 t) \<noteq> 0" using assms by (simp add: unat_eq_zero)
  then have "unat t div 2 ^ 16 \<noteq> 0" by (simp only: unat_drop_bit_eq drop_bit_eq_div [where ?'a = nat] not_False_eq_True)
  then have t: "65536 \<le> unat t" by (simp add: div_eq_0_iff)
  then have "unat (t - 0x10000) = unat t - 65536" by (simp add: unat_sub word_le_nat_alt)
  moreover have "unat (ucast r :: u32) < 65536"
    using unsigned_less [of r, where 'a = nat] by (simp add: unsigned_ucast_eq take_bit_nat_eq_self)
  ultimately have "unat (ucast r :: u32) + unat (t - 0x10000) < unat t" using t by simp
  then show ?thesis using unat_lt32 [of t] unat_word_ariths(1) [of "ucast r :: u32" "t - 0x10000"] by simp
qed

section \<open>A channel\<close>

text \<open>The loop over the timer's overflows.\<close>

function channel_loop :: "'w spu_env \<Rightarrow> nat \<Rightarrow> u32 \<Rightarrow> spu_channel \<times> 'w \<Rightarrow> spu_channel \<times> 'w" where
  "channel_loop env i fmt cw =
     (if drop_bit 16 (sc_timer (fst cw)) = 0 then cw
      else
        (let (c, w) = cw;
             cw1 = sample_step env i fmt (c\<lparr> sc_timer := ucast (sc_timer_reload c) + (sc_timer c - 0x10000) \<rparr>, w)
         in if channel_on (fst cw1) then channel_loop env i fmt cw1 else cw1))"
  by pat_completeness auto

termination
proof (relation "measure (\<lambda>(env, i, fmt, cw). unat (sc_timer (fst cw)))", goal_cases)
  case (2 env i fmt cw x c w cw1)
  then show ?case
    using sample_step_setup [of env i fmt "(c\<lparr> sc_timer := ucast (sc_timer_reload c) + (sc_timer c - 0x10000) \<rparr>, w)"]
      timer_falls [of "sc_timer c" "sc_timer_reload c"] by (auto simp: same_setup_def)
qed simp

declare channel_loop.simps [simp del]

definition channel_level :: "spu_channel \<Rightarrow> int" where
  "channel_level c = (sint (sc_cur c) * 2 ^ unat (sc_vol_shift c)) * uint (sc_volume c)"

definition run_sound :: "'w spu_env \<Rightarrow> nat \<Rightarrow> u32 \<Rightarrow> spu_channel \<times> 'w \<Rightarrow> int \<times> spu_channel \<times> 'w" where
  "run_sound env i n cw =
     (let (c, w) = cw; fmt = sc_format c in
      if \<not> channel_on c then (0, c, w)
      else if fmt < 3 \<and> sc_total c < 16 then (0, c, w)
      else
        (let (c1, w1) = (if sc_key_on c then (let (k, v) = start_channel env (c, w) in (k\<lparr> sc_key_on := False \<rparr>, v)) else (c, w));
             (c2, w2) = channel_loop env i fmt (c1\<lparr> sc_timer := sc_timer c1 + n \<rparr>, w1)
         in (channel_level c2, c2, w2)))"

section \<open>Capture\<close>

text \<open>Up to \<open>n\<close> words from the FIFO to memory; the end of the buffer stops it.\<close>

fun cap_flush :: "'w spu_env \<Rightarrow> nat \<Rightarrow> spu_capture \<times> 'w \<Rightarrow> spu_capture \<times> 'w" where
  "cap_flush env 0 kw = kw"
| "cap_flush env (Suc n) kw =
     (let (k, w) = kw; at = 4 * unat (sk_fifo_rd k);
          w1 = se_write32 env (sk_dst k + sk_fifo_off k) (word4 (sk_fifo k at) (sk_fifo k (at + 1)) (sk_fifo k (at + 2)) (sk_fifo k (at + 3))) w;
          k1 = k\<lparr> sk_fifo_rd := (sk_fifo_rd k + 1) AND 3, sk_fifo_level := sk_fifo_level k - 4, sk_fifo_off := sk_fifo_off k + 4 \<rparr>
      in if sk_len k1 \<le> sk_fifo_off k1 then (k1\<lparr> sk_fifo_off := 0 \<rparr>, w1) else cap_flush env n (k1, w1))"

text \<open>\<open>bs\<close> are the bytes of the sample: one or two.\<close>

definition cap_write :: "'w spu_env \<Rightarrow> u8 list \<Rightarrow> spu_capture \<times> 'w \<Rightarrow> spu_capture \<times> 'w" where
  "cap_write env bs kw =
     (let (k, w) = kw;
          k1 = k\<lparr> sk_fifo := (\<lambda>j. if unat (sk_fifo_wr k) \<le> j \<and> j < unat (sk_fifo_wr k) + length bs
                                   then bs ! (j - unat (sk_fifo_wr k)) else sk_fifo k j),
                  sk_fifo_wr := (sk_fifo_wr k + of_nat (length bs)) AND 0xF, sk_fifo_level := sk_fifo_level k + of_nat (length bs) \<rparr>
      in if 16 \<le> sk_fifo_level k1 then cap_flush env 4 (k1, w) else (k1, w))"

definition cap_bytes :: "bool \<Rightarrow> int \<Rightarrow> u8 list" where
  "cap_bytes eight sample =
     (if eight then [word_of_int (sample div 256)] else [word_of_int sample, word_of_int (sample div 256)])"

definition cap_tick :: "'w spu_env \<Rightarrow> bool \<Rightarrow> int \<Rightarrow> spu_capture \<times> 'w \<Rightarrow> bool \<times> spu_capture \<times> 'w" where
  "cap_tick env eight sample kw =
     (let bs = cap_bytes eight sample; (k, w) = cap_write env bs kw; k1 = k\<lparr> sk_pos := sk_pos k + of_nat (length bs) \<rparr> in
      if sk_len k1 \<le> sk_pos k1 then
        (let (k2, w2) = (if 4 \<le> sk_fifo_level k1 then cap_flush env 4 (k1, w) else (k1, w)) in
         if tst (sk_cnt k2) 4 then (True, k2\<lparr> sk_cnt := sk_cnt k2 AND 0x7F \<rparr>, w2)
         else (False, k2\<lparr> sk_pos := 0 \<rparr>, w2))
      else (False, k1, w))"

lemma cap_flush_timer: "sk_timer (fst (cap_flush env n kw)) = sk_timer (fst kw)"
  by (induction n arbitrary: kw) (auto simp: split_beta Let_def)

lemma cap_tick_timer: "sk_timer (fst (snd (cap_tick env e x kw))) = sk_timer (fst kw)"
  by (auto simp: cap_tick_def cap_write_def split_beta Let_def cap_flush_timer)

function cap_loop :: "'w spu_env \<Rightarrow> bool \<Rightarrow> int \<Rightarrow> spu_capture \<times> 'w \<Rightarrow> spu_capture \<times> 'w" where
  "cap_loop env eight sample kw =
     (if drop_bit 16 (sk_timer (fst kw)) = 0 then kw
      else
        (let (k, w) = kw;
             r = cap_tick env eight sample (k\<lparr> sk_timer := ucast (sk_timer_reload k) + (sk_timer k - 0x10000) \<rparr>, w)
         in if fst r then snd r else cap_loop env eight sample (snd r)))"
  by pat_completeness auto

termination
proof (relation "measure (\<lambda>(env, e, x, kw). unat (sk_timer (fst kw)))", goal_cases)
  case (2 env eight sample kw x k w r)
  then show ?case
    using cap_tick_timer [of env eight sample "(k\<lparr> sk_timer := ucast (sk_timer_reload k) + (sk_timer k - 0x10000) \<rparr>, w)"]
      timer_falls [of "sk_timer k" "sk_timer_reload k"] by auto
qed simp

declare cap_loop.simps [simp del]

definition cap_run :: "'w spu_env \<Rightarrow> u32 \<Rightarrow> int \<Rightarrow> spu_capture \<times> 'w \<Rightarrow> spu_capture \<times> 'w" where
  "cap_run env step sample kw =
     (let (k, w) = kw in cap_loop env (tst (sk_cnt k) 8) sample (k\<lparr> sk_timer := sk_timer k + step \<rparr>, w))"

end
