(* ===== verification/SpuFifo.thy ===== *)
theory SpuFifo imports Spu begin

text \<open>
  What a channel hears: the bytes its FIFO hands out are the bytes of its sample, in order and over
  the loop, for every way bursts, wrap-arounds of the FIFO and loop points fall together; so the
  sample values of PCM8 and PCM16 are those in memory.  \<open>rd\<close> is the content of memory.
\<close>

section \<open>Positions in a looped sample\<close>

definition play_pos :: "nat \<Rightarrow> nat \<Rightarrow> nat \<Rightarrow> nat" where
  "play_pos L T k = (if k < T then k else L + (k - T) mod (T - L))"

lemma play_pos_below: "L < T \<Longrightarrow> play_pos L T k < T"
  using mod_less_divisor [of "T - L" "k - T"] by (cases "k < T") (simp_all add: play_pos_def less_diff_conv add.commute)

lemma play_pos_add:
  assumes "play_pos L T k + d < T"
  shows "play_pos L T (k + d) = play_pos L T k + d"
proof (cases "k < T")
  case True
  then show ?thesis using assms by (simp add: play_pos_def)
next
  case False
  then have "(k - T) mod (T - L) + d < T - L" using assms by (simp add: play_pos_def)
  moreover have "k + d - T = (k - T) + d" using False by simp
  ultimately have "(k + d - T) mod (T - L) = (k - T) mod (T - L) + d"
    by (metis mod_add_left_eq mod_less)
  then show ?thesis using False by (simp add: play_pos_def)
qed

lemma play_pos_end:
  assumes "play_pos L T k + d = T" "0 < d" "L \<le> T"
  shows "play_pos L T (k + d) = L"
proof (cases "k < T")
  case True
  then show ?thesis using assms by (simp add: play_pos_def)
next
  case False
  then have "(k - T) mod (T - L) + d = T - L" using assms by (simp add: play_pos_def)
  moreover have "k + d - T = (k - T) + d" using False by simp
  ultimately have "(k + d - T) mod (T - L) = 0"
    by (metis mod_add_left_eq mod_self)
  then show ?thesis using False by (simp add: play_pos_def)
qed

section \<open>The FIFO of a sample\<close>

definition plain_reads :: "'w spu_env \<Rightarrow> (u32 \<Rightarrow> u32) \<Rightarrow> bool" where
  "plain_reads env rd \<longleftrightarrow> (\<forall>a w. se_read32 env a w = (rd a, w))"

definition sample_byte :: "(u32 \<Rightarrow> u32) \<Rightarrow> u32 \<Rightarrow> nat \<Rightarrow> u8" where
  "sample_byte rd src j = ucast (drop_bit (8 * (j mod 4)) (rd (src + of_nat (4 * (j div 4)))))"

abbreviation s_total :: "spu_channel \<Rightarrow> nat" where "s_total c \<equiv> unat (sc_total c)"
abbreviation s_loop :: "spu_channel \<Rightarrow> nat" where "s_loop c \<equiv> unat (sc_loop c)"
abbreviation s_pos :: "spu_channel \<Rightarrow> nat \<Rightarrow> nat" where "s_pos c \<equiv> play_pos (s_loop c) (s_total c)"
abbreviation s_loops :: "spu_channel \<Rightarrow> bool" where "s_loops c \<equiv> tst (sc_repeat c) 1"

text \<open>A sample the code plays: at least a burst, of whole words, not in the BIOS, and a loop that is
  not empty.\<close>

definition sample_ok :: "spu_channel \<Rightarrow> bool" where
  "sample_ok c \<longleftrightarrow> 16 \<le> s_total c \<and> s_total c < 2 ^ 24 \<and> s_loop c \<le> s_total c \<and> 4 dvd s_loop c \<and> 4 dvd s_total c \<and>
     0x4000 \<le> sc_src c \<and> sc_src c \<le> 0x07FFFFFC \<and> (s_loops c \<longrightarrow> s_loop c < s_total c)"

text \<open>\<open>r\<close> bytes were read and \<open>w\<close> fetched so far.\<close>

definition fetch_at :: "spu_channel \<Rightarrow> nat \<Rightarrow> bool" where
  "fetch_at c w \<longleftrightarrow> (let off = unat (sc_fifo_off c) in
     off < s_total c \<and> off = s_pos c w \<and> (\<not> s_loops c \<longrightarrow> w < s_total c) \<or>
     off = s_total c \<and> s_pos c w = s_loop c \<and> (\<not> s_loops c \<longrightarrow> w = s_total c))"

definition fifo_at :: "(u32 \<Rightarrow> u32) \<Rightarrow> spu_channel \<Rightarrow> nat \<Rightarrow> nat \<Rightarrow> bool" where
  "fifo_at rd c r w \<longleftrightarrow> r \<le> w \<and> w \<le> r + 32 \<and> unat (sc_fifo_level c) = w - r \<and> unat (sc_fifo_rd c) = r mod 32 \<and>
     4 * unat (sc_fifo_wr c) = w mod 32 \<and> fetch_at c w \<and>
     (\<forall>k. r \<le> k \<and> k < w \<longrightarrow> sc_fifo c (k mod 32) = sample_byte rd (sc_src c) (s_pos c k))"

text \<open>Enough for the next read, unless everything was fetched.\<close>

definition fifo_filled :: "spu_channel \<Rightarrow> nat \<Rightarrow> nat \<Rightarrow> bool" where
  "fifo_filled c r w \<longleftrightarrow> r + 16 < w \<or> \<not> s_loops c \<and> w = s_total c"

lemma fifo_at_pos [simp]:
  "fifo_at rd (c\<lparr> sc_pos := p \<rparr>) r w = fifo_at rd c r w" "fifo_filled (c\<lparr> sc_pos := p \<rparr>) r w = fifo_filled c r w"
  "fifo_at rd (c\<lparr> sc_cur := u \<rparr>) r w = fifo_at rd c r w" "fifo_filled (c\<lparr> sc_cur := u \<rparr>) r w = fifo_filled c r w"
  by (simp_all add: fifo_at_def fifo_filled_def fetch_at_def sc_total_def sc_repeat_def)

section \<open>A burst\<close>

lemma unat_and_7: "unat ((x :: u32) AND 7) = unat x mod 8"
  using unat_and_mask [of x 3] by (simp add: mask_eq_exp_minus_1)

lemma next_wr:
  assumes "4 * unat (x :: u32) = w mod 32"
  shows "4 * unat ((x + 1) AND 7) = (w + 4) mod 32"
proof -
  have x: "unat x < 8" using assms mod_less_divisor [of 32 w] by linarith
  then have u: "unat (x + 1) = unat x + 1" by (simp add: unat_word_ariths)
  have "(w + 4) mod 32 = (w mod 32 + 4) mod 32" by (simp add: mod_add_left_eq)
  also have "\<dots> = (4 * (unat x + 1)) mod (4 * 8)" by (simp flip: assms add: add.commute)
  also have "\<dots> = 4 * ((unat x + 1) mod 8)" by (rule mult_mod_right [symmetric])
  finally show ?thesis by (simp add: unat_and_7 u)
qed

text \<open>The four bytes of a word in their slots.\<close>

lemma word_slots:
  assumes "4 * i = w mod 32" "4 dvd (w :: nat)" "4 dvd off" "w \<le> k" "k < w + 4"
  shows "put_word i v f (k mod 32) = ucast (drop_bit (8 * ((off + (k - w)) mod 4)) v)"
    and "4 * ((off + (k - w)) div 4) = off"
proof -
  obtain d where d: "k = w + d" "d < 4" using assms(4,5) by (metis add_less_cancel_left le_Suc_ex)
  obtain u where u: "off = 4 * u" using assms(3) by blast
  obtain q where q: "w = 4 * q" using assms(2) by blast
  have m: "k mod 32 = w mod 32 + d"
    using mod_mult2_eq [of k 4 8] mod_mult2_eq [of w 4 8] d by (simp add: q)
  have m4: "k mod 32 = 4 * i + d" "(off + (k - w)) mod 4 = d" using m assms(1) d u by simp_all
  have "d = 0 \<or> d = 1 \<or> d = 2 \<or> d = 3" using d(2) by auto
  then show "put_word i v f (k mod 32) = ucast (drop_bit (8 * ((off + (k - w)) mod 4)) v)"
    unfolding m4 put_word_def by (elim disjE) simp_all
  show "4 * ((off + (k - w)) div 4) = off" using d u by simp
qed


lemma other_slots:
  assumes "4 * i = w mod 32" "4 dvd (w :: nat)" "k < w" "w + 4 \<le> k + 32"
  shows "put_word i v f (k mod 32) = f (k mod 32)"
proof -
  have "k mod 32 \<noteq> (w + d) mod 32" if "d < 4" for d
  proof
    assume "k mod 32 = (w + d) mod 32"
    then have "32 dvd w + d - k" using mod_eq_dvd_iff_nat [of k "w + d" 32] assms(3) by simp
    moreover have "0 < w + d - k" "w + d - k < 32" using assms(3,4) that by simp_all
    ultimately show False by (auto dest: dvd_imp_le)
  qed
  moreover have "(w + d) mod 32 = 4 * i + d" if "d < 4" for d
  proof -
    obtain q where "w = 4 * q" using assms(2) by blast
    then show ?thesis using mod_mult2_eq [of "w + d" 4 8] mod_mult2_eq [of w 4 8] that assms(1) by simp
  qed
  ultimately have "k mod 32 \<noteq> 4 * i + d" if "d < 4" for d using that by metis
  from this [of 0] this [of 1] this [of 2] this [of 3] show ?thesis by (simp add: put_word_def)
qed

text \<open>A burst of \<open>n\<close> words that stays before the end of the sample.\<close>

lemma fill_words_step:
  assumes rd: "plain_reads env rd" and off: "unat (sc_fifo_off c) + 4 * n \<le> s_total c" "s_total c < 2 ^ 24" "4 dvd unat (sc_fifo_off c)"
    and at: "4 * unat (sc_fifo_wr c) = w mod 32" "4 dvd w" "w + 4 * n \<le> r + 32"
    and old: "\<And>k. r \<le> k \<Longrightarrow> k < w \<Longrightarrow> sc_fifo c (k mod 32) = g k"
    and new: "\<And>k. w \<le> k \<Longrightarrow> k < w + 4 * n \<Longrightarrow> g k = sample_byte rd (sc_src c) (unat (sc_fifo_off c) + (k - w))"
  shows "\<exists>d. fill_words env True n (c, x) = (d, x) \<and> d = c\<lparr> sc_fifo := sc_fifo d, sc_fifo_off := sc_fifo_off d, sc_fifo_wr := sc_fifo_wr d \<rparr> \<and>
    unat (sc_fifo_off d) = unat (sc_fifo_off c) + 4 * n \<and> 4 * unat (sc_fifo_wr d) = (w + 4 * n) mod 32 \<and>
    (\<forall>k. r \<le> k \<and> k < w + 4 * n \<longrightarrow> sc_fifo d (k mod 32) = g k)"
  using off at old new
proof (induction n arbitrary: c w)
  case (Suc n)
  let ?v = "rd (sc_src c + sc_fifo_off c)"
  let ?c = "c\<lparr> sc_fifo := put_word (unat (sc_fifo_wr c)) ?v (sc_fifo c), sc_fifo_off := sc_fifo_off c + 4, sc_fifo_wr := (sc_fifo_wr c + 1) AND 7 \<rparr>"
  have f: "fill_words env True (Suc n) (c, x) = fill_words env True n (?c, x)" 
    using rd unfolding plain_reads_def by simp
  have o: "unat (sc_fifo_off ?c) = unat (sc_fifo_off c) + 4" using Suc.prems(1,2) by (simp add: unat_word_ariths)
  have t: "s_total ?c = s_total c" by (simp add: sc_total_def)
  have g: "sc_fifo ?c (k mod 32) = g k" if k: "r \<le> k" "k < w + 4" for k
  proof (cases "k < w")
    case True
    then show ?thesis using other_slots [of "unat (sc_fifo_wr c)" w k] Suc.prems(4-7) k by simp
  next
    case False
    have "sc_fifo ?c (k mod 32) = ucast (drop_bit (8 * ((unat (sc_fifo_off c) + (k - w)) mod 4)) ?v)"
      using word_slots(1) [OF Suc.prems(4,5,3), of k] False k by simp
    also have "\<dots> = sample_byte rd (sc_src c) (unat (sc_fifo_off c) + (k - w))"
      using word_slots(2) [OF Suc.prems(4,5,3), of k] False k by (simp add: sample_byte_def)
    also have "\<dots> = g k" using Suc.prems(8) [of k] False k by simp
    finally show ?thesis .
  qed
  have "\<exists>d. fill_words env True n (?c, x) = (d, x) \<and> d = ?c\<lparr> sc_fifo := sc_fifo d, sc_fifo_off := sc_fifo_off d, sc_fifo_wr := sc_fifo_wr d \<rparr> \<and>
      unat (sc_fifo_off d) = unat (sc_fifo_off ?c) + 4 * n \<and> 4 * unat (sc_fifo_wr d) = (w + 4 + 4 * n) mod 32 \<and>
      (\<forall>k. r \<le> k \<and> k < w + 4 + 4 * n \<longrightarrow> sc_fifo d (k mod 32) = g k)"
  proof (rule Suc.IH)
    show "unat (sc_fifo_off ?c) + 4 * n \<le> s_total ?c" "s_total ?c < 2 ^ 24" "4 dvd unat (sc_fifo_off ?c)"
      using o t Suc.prems(1-3) by simp_all
    show "4 * unat (sc_fifo_wr ?c) = (w + 4) mod 32" using next_wr [OF Suc.prems(4)] by simp
    show "4 dvd w + 4" "w + 4 + 4 * n \<le> r + 32" using Suc.prems(5,6) by simp_all
    show "sc_fifo ?c (k mod 32) = g k" if "r \<le> k" "k < w + 4" for k using g [OF that] .
    show "g k = sample_byte rd (sc_src ?c) (unat (sc_fifo_off ?c) + (k - (w + 4)))" if "w + 4 \<le> k" "k < w + 4 + 4 * n" for k
      using Suc.prems(8) [of k] that o by simp
  qed
  then obtain d where d: "fill_words env True n (?c, x) = (d, x)"
    "d = ?c\<lparr> sc_fifo := sc_fifo d, sc_fifo_off := sc_fifo_off d, sc_fifo_wr := sc_fifo_wr d \<rparr>"
    "unat (sc_fifo_off d) = unat (sc_fifo_off ?c) + 4 * n" "4 * unat (sc_fifo_wr d) = (w + 4 + 4 * n) mod 32"
    "\<forall>k. r \<le> k \<and> k < w + 4 + 4 * n \<longrightarrow> sc_fifo d (k mod 32) = g k" by blast
  have w: "w + 4 + 4 * n = w + 4 * Suc n" by simp
  show ?case
  proof (intro exI [of _ d] conjI)
    show "fill_words env True (Suc n) (c, x) = (d, x)" by (simp only: f d(1))
    show "d = c\<lparr> sc_fifo := sc_fifo d, sc_fifo_off := sc_fifo_off d, sc_fifo_wr := sc_fifo_wr d \<rparr>"
      by (rule trans [OF d(2)]) simp
    show "unat (sc_fifo_off d) = unat (sc_fifo_off c) + 4 * Suc n" using d(3) o by simp
    show "4 * unat (sc_fifo_wr d) = (w + 4 * Suc n) mod 32" using d(4) unfolding w .
    show "\<forall>k. r \<le> k \<and> k < w + 4 * Suc n \<longrightarrow> sc_fifo d (k mod 32) = g k" using d(5) unfolding w .
  qed
qed simp

section \<open>Filling and reading\<close>

lemma play_pos_dvd: "(4::nat) dvd L \<Longrightarrow> 4 dvd T \<Longrightarrow> 4 dvd k \<Longrightarrow> 4 dvd play_pos L T k"
  by (simp add: play_pos_def dvd_mod)

lemma fifo_at_dvd: "fifo_at rd c r w \<Longrightarrow> 4 dvd w"
  using dvd_mod_iff [of 4 32 w] by (auto simp: fifo_at_def intro: dvdI dest: sym)

text \<open>Where the next burst starts.\<close>

definition next_off :: "spu_channel \<Rightarrow> u32" where
  "next_off c = (if sc_total c \<le> sc_fifo_off c \<and> s_loops c then sc_loop c else sc_fifo_off c)"

lemma next_off_pos:
  assumes ok: "sample_ok c" and f: "fetch_at c w" and more: "s_loops c \<or> w < s_total c"
  shows "unat (next_off c) = s_pos c w" "unat (next_off c) < s_total c"
    "s_loops c \<or> w = unat (next_off c)" 
proof -
  have T: "s_loops c \<Longrightarrow> s_loop c < s_total c" using ok by (simp add: sample_ok_def)
  consider "unat (sc_fifo_off c) < s_total c" "unat (sc_fifo_off c) = s_pos c w" "\<not> s_loops c \<longrightarrow> w < s_total c"
    | "unat (sc_fifo_off c) = s_total c" "s_pos c w = s_loop c" "s_loops c"
    using f more by (auto simp: fetch_at_def Let_def)
  then have "unat (next_off c) = s_pos c w \<and> unat (next_off c) < s_total c \<and> (s_loops c \<or> w = unat (next_off c))"
    by cases (auto simp: next_off_def word_le_nat_alt play_pos_def T)
  then show "unat (next_off c) = s_pos c w" "unat (next_off c) < s_total c" "s_loops c \<or> w = unat (next_off c)" by blast+
qed

lemma fifo_fill_eq:
  assumes "\<not> (sc_total c \<le> sc_fifo_off c \<and> \<not> s_loops c)"
  shows "fifo_fill env (c, x) =
    (let burst = (if next_off c + 16 > sc_total c then sc_total c - next_off c else 16);
         (d, y) = fill_words env (sc_src c + next_off c \<ge> 0x4000) ((unat burst + 3) div 4) (c\<lparr> sc_fifo_off := next_off c \<rparr>, x)
     in (d\<lparr> sc_fifo_level := sc_fifo_level d + burst \<rparr>, y))"
  using assms unfolding fifo_fill_def next_off_def by (auto simp: Let_def)

lemma fill_ok:
  assumes rd: "plain_reads env rd" and ok: "sample_ok c" and at: "fifo_at rd c r w" "w \<le> r + 16"
    and more: "s_loops c \<or> w < s_total c"
  shows "\<exists>d w'. fifo_fill env (c, x) = (d, x) \<and> same_setup d c \<and> sc_cnt d = sc_cnt c \<and> sc_pos d = sc_pos c \<and>
    fifo_at rd d r w' \<and> w + 4 \<le> w' \<and> (w + 16 \<le> w' \<or> s_loops c \<or> w' = s_total c) \<and>
    w' = w + min 16 (s_total c - s_pos c w)"
proof -
  let ?off = "next_off c"
  define burst where "burst = (if ?off + 16 > sc_total c then sc_total c - ?off else 16)"
  have f: "fetch_at c w" and w: "4 dvd w" using at(1) fifo_at_dvd by (auto simp: fifo_at_def)
  note o = next_off_pos [OF ok f more]
  have T: "s_total c < 2 ^ 24" "s_loop c \<le> s_total c" "4 dvd s_loop c" "4 dvd s_total c"
    "16384 \<le> unat (sc_src c)" "unat (sc_src c) < 2 ^ 27"
    using ok by (simp_all add: sample_ok_def word_le_nat_alt)
  have o4: "4 dvd unat ?off" unfolding o(1) using T(3,4) w by (rule play_pos_dvd)
  have u16: "unat (?off + 16) = unat ?off + 16" using o(2) T(1) by (simp add: unat_word_ariths)
  have ub: "unat burst = min 16 (s_total c - unat ?off)"
    using o(2) u16 by (auto simp: burst_def word_less_nat_alt unat_sub_if_size min_def)
  then have b: "4 dvd unat burst" "4 \<le> unat burst" "unat ?off + unat burst \<le> s_total c"
    using o(2) o4 T(4) by (auto simp: min_def dvd_diff_nat intro: dvd_imp_le)
  define n where "n = (unat burst + 3) div 4"
  have n: "4 * n = unat burst" using b(1) by (auto simp: n_def)
  have rdy: "sc_src c + ?off \<ge> 0x4000"
    using T(1,5,6) o(2) by (simp add: word_le_nat_alt unat_word_ariths)
  have pos: "s_pos c (w + d) = unat ?off + d" if "unat ?off + d < s_total c" for d
    using play_pos_add [of "s_loop c" "s_total c" w d] that o(1) by simp
  have "\<exists>d. fill_words env True n (c\<lparr> sc_fifo_off := ?off \<rparr>, x) = (d, x) \<and>
      d = (c\<lparr> sc_fifo_off := ?off \<rparr>)\<lparr> sc_fifo := sc_fifo d, sc_fifo_off := sc_fifo_off d, sc_fifo_wr := sc_fifo_wr d \<rparr> \<and>
      unat (sc_fifo_off d) = unat (sc_fifo_off (c\<lparr> sc_fifo_off := ?off \<rparr>)) + 4 * n \<and> 4 * unat (sc_fifo_wr d) = (w + 4 * n) mod 32 \<and>
      (\<forall>k. r \<le> k \<and> k < w + 4 * n \<longrightarrow> sc_fifo d (k mod 32) = sample_byte rd (sc_src c) (s_pos c k))"
  proof (rule fill_words_step [OF rd])
    show "unat (sc_fifo_off (c\<lparr> sc_fifo_off := ?off \<rparr>)) + 4 * n \<le> s_total (c\<lparr> sc_fifo_off := ?off \<rparr>)"
      "s_total (c\<lparr> sc_fifo_off := ?off \<rparr>) < 2 ^ 24" "4 dvd unat (sc_fifo_off (c\<lparr> sc_fifo_off := ?off \<rparr>))"
      using n b(3) T(1) o4 by (simp_all add: sc_total_def)
    show "4 * unat (sc_fifo_wr (c\<lparr> sc_fifo_off := ?off \<rparr>)) = w mod 32" "4 dvd w" using at(1) w by (simp_all add: fifo_at_def)
    show "w + 4 * n \<le> r + 32" using at(2) n ub by simp
    show "sc_fifo (c\<lparr> sc_fifo_off := ?off \<rparr>) (k mod 32) = sample_byte rd (sc_src c) (s_pos c k)" if "r \<le> k" "k < w" for k
      using at(1) that by (simp add: fifo_at_def)
    show "sample_byte rd (sc_src c) (s_pos c k) =
        sample_byte rd (sc_src (c\<lparr> sc_fifo_off := ?off \<rparr>)) (unat (sc_fifo_off (c\<lparr> sc_fifo_off := ?off \<rparr>)) + (k - w))"
      if "w \<le> k" "k < w + 4 * n" for k
      using pos [of "k - w"] that n b(3) by simp
  qed
  then obtain d where d: "fill_words env True n (c\<lparr> sc_fifo_off := ?off \<rparr>, x) = (d, x)"
    "d = (c\<lparr> sc_fifo_off := ?off \<rparr>)\<lparr> sc_fifo := sc_fifo d, sc_fifo_off := sc_fifo_off d, sc_fifo_wr := sc_fifo_wr d \<rparr>"
    "unat (sc_fifo_off d) = unat ?off + 4 * n" "4 * unat (sc_fifo_wr d) = (w + 4 * n) mod 32"
    "\<forall>k. r \<le> k \<and> k < w + 4 * n \<longrightarrow> sc_fifo d (k mod 32) = sample_byte rd (sc_src c) (s_pos c k)" by auto
  let ?d = "d\<lparr> sc_fifo_level := sc_fifo_level d + burst \<rparr>"
  have fields: "sc_fifo_level d = sc_fifo_level c" "sc_fifo_rd d = sc_fifo_rd c" "sc_src d = sc_src c" "sc_cnt d = sc_cnt c"
    "sc_loop d = sc_loop c" "sc_len d = sc_len c" "sc_pos d = sc_pos c" "same_setup d c"
    using arg_cong [OF d(2), of sc_fifo_level] arg_cong [OF d(2), of sc_fifo_rd] arg_cong [OF d(2), of sc_src]
      arg_cong [OF d(2), of sc_cnt] arg_cong [OF d(2), of sc_loop] arg_cong [OF d(2), of sc_len] arg_cong [OF d(2), of sc_pos]
      arg_cong [OF d(2), of "\<lambda>d. same_setup d c"] by simp_all
  then have kept: "s_total ?d = s_total c" "s_loop ?d = s_loop c" "s_loops ?d = s_loops c"
    by (simp_all add: sc_total_def sc_repeat_def)
  have lv: "unat (sc_fifo_level c + burst) = unat (sc_fifo_level c) + unat burst"
    using at(2) ub at(1) by (simp add: unat_word_ariths fifo_at_def)
  have fe: "fetch_at ?d (w + unat burst)"
  proof (cases "unat ?off + unat burst < s_total c")
    case True
    then show ?thesis using pos [of "unat burst"] d(3) n kept o(3) by (auto simp: fetch_at_def Let_def)
  next
    case False
    then have e: "unat ?off + unat burst = s_total c" using b(3) by simp
    then have "s_pos c (w + unat burst) = s_loop c"
      using play_pos_end [of "s_loop c" "s_total c" w "unat burst"] o(1) b(2) T(2) by simp
    then show ?thesis using e d(3) n kept o(3) by (auto simp: fetch_at_def Let_def)
  qed
  have a: "r \<le> w" "unat (sc_fifo_level c) = w - r" "unat (sc_fifo_rd c) = r mod 32" using at(1) by (simp_all add: fifo_at_def)
  have "fifo_at rd ?d r (w + unat burst)"
    unfolding fifo_at_def
  proof (intro conjI)
    show "r \<le> w + unat burst" "w + unat burst \<le> r + 32" using a(1) at(2) ub by simp_all
    show "unat (sc_fifo_level ?d) = w + unat burst - r" using lv fields(1) a(1,2) by simp
    show "unat (sc_fifo_rd ?d) = r mod 32" using a(3) fields(2) by simp
    show "4 * unat (sc_fifo_wr ?d) = (w + unat burst) mod 32" using d(4) n by simp
    show "fetch_at ?d (w + unat burst)" by (rule fe)
    show "\<forall>k. r \<le> k \<and> k < w + unat burst \<longrightarrow> sc_fifo ?d (k mod 32) = sample_byte rd (sc_src ?d) (s_pos ?d k)"
      using d(5) unfolding n kept by (simp add: fields(3))
  qed
  moreover have "fifo_fill env (c, x) = (?d, x)"
  proof -
    have "\<not> (sc_total c \<le> sc_fifo_off c \<and> \<not> s_loops c)"
      using f more by (auto simp: fetch_at_def Let_def word_le_nat_alt)
    from fifo_fill_eq [OF this, of env x] show ?thesis using rdy d(1) by (simp add: Let_def burst_def [symmetric] n_def [symmetric])
  qed
  moreover have "w + 16 \<le> w + unat burst \<or> s_loops c \<or> w + unat burst = s_total c"
    using ub o(2,3) by (auto simp: min_def)
  moreover have "w + unat burst = w + min 16 (s_total c - s_pos c w)" using ub o(1) by simp
  ultimately show ?thesis
    using b(2) fields by (intro exI [of _ ?d] exI [of _ "w + unat burst"]) auto
qed

text \<open>What a sequence of reads depends on.\<close>

definition same_sample :: "spu_channel \<Rightarrow> spu_channel \<Rightarrow> bool" where
  "same_sample d c \<longleftrightarrow> same_setup d c \<and> sc_cnt d = sc_cnt c \<and> sc_pos d = sc_pos c"

lemma same_sample_facts:
  assumes "same_setup d c" "sc_cnt d = sc_cnt c"
  shows "s_total d = s_total c" "s_loop d = s_loop c" "s_loops d = s_loops c" "sc_src d = sc_src c" "sample_ok d = sample_ok c"
    "sc_repeat d = sc_repeat c" "sc_total d = sc_total c" "sc_loop d = sc_loop c" "sc_format d = sc_format c"
  using assms by (simp_all add: same_setup_def sc_total_def sc_repeat_def sc_format_def sample_ok_def)

lemma fifo_at_take:
  assumes at: "fifo_at rd c r w" and k: "r + k \<le> w"
  shows "fifo_at rd (c\<lparr> sc_fifo_rd := (sc_fifo_rd c + of_nat k) AND 0x1F, sc_fifo_level := sc_fifo_level c - of_nat k \<rparr>) (r + k) w"
proof -
  have k32: "k \<le> 32" using at k by (simp add: fifo_at_def)
  have u: "unat (of_nat k :: u32) = k" using k32 by (simp add: unat_small)
  have lv: "unat (sc_fifo_level c - of_nat k) = w - (r + k)"
    using at k u by (simp add: fifo_at_def unat_sub word_le_nat_alt)
  have "unat (sc_fifo_rd c + of_nat k) = unat (sc_fifo_rd c) + k"
    using at u k32 mod_less_divisor [of 32 r] by (simp add: fifo_at_def unat_word_ariths)
  then have rd: "unat ((sc_fifo_rd c + of_nat k) AND 0x1F) = (r + k) mod 32"
    using at unat_and_31 [of "sc_fifo_rd c + of_nat k"] by (simp add: fifo_at_def mod_simps)
  show ?thesis
    using at k lv rd by (simp add: fifo_at_def fetch_at_def sc_total_def sc_repeat_def)
qed

text \<open>Past the end of a sample that does not loop nothing is fetched.\<close>

lemma fill_done:
  assumes "\<not> s_loops c" "fetch_at c (s_total c)" "sample_ok c"
  shows "fifo_fill env (c, x) = (c, x)"
proof -
  have "unat (sc_fifo_off c) = s_total c" using assms(1,2) by (auto simp: fetch_at_def Let_def)
  then have o: "sc_fifo_off c = sc_total c" by (rule unsigned_word_eqI)
  have "s_total c < 2 ^ 24" using assms(3) by (simp add: sample_ok_def)
  then have "sc_total c < sc_total c + 16" by (simp add: word_less_nat_alt unat_word_ariths)
  then show ?thesis using assms(1) o unfolding fifo_fill_def by (simp add: Let_def)
qed

lemma read_ok:
  assumes rd: "plain_reads env rd" and ok: "sample_ok c" and at: "fifo_at rd c r w" "fifo_filled c r w"
    and k: "k = 1 \<or> k = 2 \<or> k = 4" "k dvd r" "s_loops c \<or> r + k \<le> s_total c"
  shows "\<exists>d w'. sample_read env k (c, x) = (map (\<lambda>i. sample_byte rd (sc_src c) (s_pos c (r + i))) [0..<k], d, x) \<and>
    same_sample d c \<and> fifo_at rd d (r + k) w' \<and> fifo_filled d (r + k) w'"
proof -
  let ?c = "c\<lparr> sc_fifo_rd := (sc_fifo_rd c + of_nat k) AND 0x1F, sc_fifo_level := sc_fifo_level c - of_nat k \<rparr>"
  have kw: "r + k \<le> w" using at k by (auto simp: fifo_filled_def)
  note t = fifo_at_take [OF at(1) kw]
  have same: "same_sample ?c c" by (simp add: same_sample_def same_setup_def)
  then have sm: "same_setup ?c c" "sc_cnt ?c = sc_cnt c" by (simp_all add: same_sample_def)
  note facts = same_sample_facts [OF sm]
  have bytes: "map (\<lambda>i. sc_fifo c (unat (sc_fifo_rd c) + i)) [0..<k] = map (\<lambda>i. sample_byte rd (sc_src c) (s_pos c (r + i))) [0..<k]"
  proof (rule map_cong [OF refl])
    fix i assume "i \<in> set [0..<k]"
    then have i: "i < k" by simp
    have "r mod 32 + i < 32"
    proof -
      have "k dvd 32" using k(1) by auto
      then have "k dvd r mod 32" using k(2) by (simp add: dvd_mod)
      then obtain j where j: "r mod 32 = k * j" by blast
      moreover have "r mod 32 < 32" by simp
      ultimately have "k * j < 32" by simp
      then show ?thesis unfolding j using i k(1) by (elim disjE) simp_all
    qed
    then have "(r + i) mod 32 = r mod 32 + i" by (metis mod_add_left_eq mod_less)
    then show "sc_fifo c (unat (sc_fifo_rd c) + i) = sample_byte rd (sc_src c) (s_pos c (r + i))"
      using at(1) i kw unfolding fifo_at_def by (metis le_add1 add_less_cancel_left less_le_trans)
  qed
  have e: "sample_read env k (c, x) = (map (\<lambda>i. sample_byte rd (sc_src c) (s_pos c (r + i))) [0..<k],
      if sc_fifo_level ?c \<le> 16 then fifo_fill env (?c, x) else (?c, x))"
    unfolding sample_read_def bytes [symmetric] by (simp add: Let_def)
  have lv: "sc_fifo_level ?c \<le> 16 \<longleftrightarrow> w \<le> r + k + 16"
    using t kw unfolding fifo_at_def word_le_nat_alt by auto
  show ?thesis
  proof (cases "w \<le> r + k + 16 \<and> (s_loops c \<or> w < s_total c)")
    case True
    then obtain d w' where d: "fifo_fill env (?c, x) = (d, x)" "same_setup d ?c" "sc_cnt d = sc_cnt ?c" "sc_pos d = sc_pos ?c"
      "fifo_at rd d (r + k) w'" "w + 4 \<le> w'" "w + 16 \<le> w' \<or> s_loops ?c \<or> w' = s_total ?c"
      using fill_ok [OF rd _ t, of x] ok facts by auto
    have dc: "same_sample d c" using d(2,3,4) by (simp add: same_sample_def same_setup_def)
    then have "s_loops d = s_loops c" "s_total d = s_total c" using same_sample_facts [of d c] by (simp_all add: same_sample_def)
    then have "fifo_filled d (r + k) w'"
      using d(6,7) facts at(2) True k(1) kw by (auto simp: fifo_filled_def)
    then show ?thesis using e lv True d(1,5) dc by auto
  next
    case False
    show ?thesis
    proof (cases "sc_fifo_level ?c \<le> 16")
      case True
      then have n: "\<not> s_loops c" "w = s_total c"
        using False lv at by (auto simp: fifo_at_def fetch_at_def Let_def)
      then have "fetch_at ?c (s_total ?c)" using t facts by (simp add: fifo_at_def)
      then have "fifo_fill env (?c, x) = (?c, x)" using fill_done [of ?c env x] n facts ok by simp
      then show ?thesis using e True t same n facts by (auto simp: fifo_filled_def)
    next
      case f: False
      then have "fifo_filled ?c (r + k) w" using lv facts by (auto simp: fifo_filled_def)
      then show ?thesis using e f t same by auto
    qed
  qed
qed

section \<open>Starting\<close>

lemma start_ok:
  assumes rd: "plain_reads env rd" and ok: "sample_ok c" and f: "sc_format c \<noteq> 3"
  shows "\<exists>d w. start_channel env (c, x) = (d, x) \<and> same_sample d (c\<lparr> sc_timer := ucast (sc_timer_reload c), sc_pos := - 3 \<rparr>) \<and>
    fifo_at rd d 0 w \<and> fifo_filled d 0 w"
proof -
  let ?c = "c\<lparr> sc_timer := ucast (sc_timer_reload c), sc_pos := - 3, sc_noise := 0x7FFF, sc_cur := 0, sc_fifo_rd := 0,
    sc_fifo_wr := 0, sc_fifo_off := 0, sc_fifo_level := 0 \<rparr>"
  let ?b = "c\<lparr> sc_timer := ucast (sc_timer_reload c), sc_pos := - 3 \<rparr>"
  have b: "same_setup ?c ?b" "sc_cnt ?c = sc_cnt ?b" "sc_pos ?c = sc_pos ?b" by (simp_all add: same_setup_def)
  have kept: "sample_ok ?c" "s_total ?c = s_total c" "s_loops ?c = s_loops c" "s_loop ?c = s_loop c"
    using ok by (simp_all add: sample_ok_def sc_total_def sc_repeat_def)
  have T: "16 \<le> s_total c" using ok by (simp add: sample_ok_def)
  have "fifo_at rd ?c 0 0"
    using T kept by (simp add: fifo_at_def fetch_at_def Let_def play_pos_def)
  then obtain d v where d: "fifo_fill env (?c, x) = (d, x)" "same_setup d ?c" "sc_cnt d = sc_cnt ?c" "sc_pos d = sc_pos ?c"
      "fifo_at rd d 0 v" and v: "v = 0 + min 16 (s_total ?c - s_pos ?c 0)"
    using fill_ok [OF rd kept(1), of 0 0 x] kept T by auto
  have db: "same_setup d ?b" "sc_cnt d = sc_cnt ?b" "sc_pos d = sc_pos ?b" using d(2-4) b by (simp_all add: same_setup_def)
  note facts = same_sample_facts [OF db(1,2)]
  have ok': "sample_ok d" "s_total d = s_total c" "s_loops d = s_loops c"
    using facts kept by (simp_all add: sample_ok_def sc_total_def sc_repeat_def)
  have s: "start_channel env (c, x) = fifo_fill env (d, x)"
    using f d(1) by (simp add: start_channel_def Let_def sc_format_def)
  have burst: "v = 16" using v T kept by (simp add: play_pos_def)
  show ?thesis
  proof (cases "s_loops c \<or> v < s_total c")
    case True
    then obtain e w where e: "fifo_fill env (d, x) = (e, x)" "same_setup e d" "sc_cnt e = sc_cnt d" "sc_pos e = sc_pos d"
        "fifo_at rd e 0 w" "v + 4 \<le> w" "v + 16 \<le> w \<or> s_loops d \<or> w = s_total d"
      using fill_ok [OF rd ok'(1) d(5), of x] ok' burst by auto
    have "same_sample e ?b" using e(2-4) db by (simp add: same_sample_def same_setup_def)
    moreover have "fifo_filled e 0 w" using e(6) burst by (simp add: fifo_filled_def)
    ultimately show ?thesis using s e(1,5) by auto
  next
    case False
    then have "v = s_total c" using burst T by simp
    then have "fifo_fill env (d, x) = (d, x)" "fifo_filled d 0 v"
      using fill_done [of d env x] ok' False d(5) by (auto simp: fifo_at_def fifo_filled_def)
    then show ?thesis using s d(5) db by (auto simp: same_sample_def)
  qed
qed

section \<open>What is heard\<close>

text \<open>Before a step of a channel that plays samples of \<open>k\<close> bytes: \<open>r\<close> bytes were read, and the place
  the code keeps is the one after the last sample, not yet taken back over the loop.\<close>

definition playing :: "(u32 \<Rightarrow> u32) \<Rightarrow> nat \<Rightarrow> spu_channel \<Rightarrow> nat \<Rightarrow> bool" where
  "playing rd k c r \<longleftrightarrow> (\<exists>w. fifo_at rd c r w \<and> fifo_filled c r w) \<and> k dvd r \<and>
     (let p = k * unat (sc_pos c + 1) in
      unat (sc_pos c + 1) < 2 ^ 24 \<and>
      (p < s_total c \<and> p = s_pos c r \<and> (\<not> s_loops c \<longrightarrow> r < s_total c) \<or>
       p = s_total c \<and> s_pos c r = s_loop c \<and> (\<not> s_loops c \<longrightarrow> r = s_total c)))"

lemma not_negative:
  assumes "unat (x :: u32) < 2 ^ 24"
  shows "\<not> sint x < 0"
proof -
  have "unat x < 2 ^ 31" by (rule less_trans [OF assms]) simp
  then have "int (unat x) < int (2 ^ 31)" by (simp only: of_nat_less_iff)
  then have "uint x < 2 ^ 31" by simp
  then show ?thesis using bit31_sint [of x] uint_bit31 [of x] by simp
qed

lemma twice: "unat (x :: u32) < 2 ^ 24 \<Longrightarrow> unat (push_bit 1 x) = 2 * unat x"
  by (simp add: push_bit_eq_mult unat_word_ariths)

text \<open>The value of the sample at a place.\<close>

definition sample_value :: "(u32 \<Rightarrow> u32) \<Rightarrow> nat \<Rightarrow> spu_channel \<Rightarrow> nat \<Rightarrow> u16" where
  "sample_value rd k c r =
     (let b = (\<lambda>i. ucast (sample_byte rd (sc_src c) (s_pos c (r + i))) :: u16) in
      if k = 1 then push_bit 8 (b 0) else b 0 OR push_bit 8 (b 1))"

text \<open>Both formats at once: the step, with \<open>k\<close> for the size of a sample.\<close>

definition pcm_size :: "u32 \<Rightarrow> nat" where "pcm_size fmt = (if fmt = 0 then 1 else 2)"

lemma pcm_step:
  assumes rd: "plain_reads env rd" and ok: "sample_ok c" and fmt: "fmt = 0 \<or> fmt = 1"
    and at: "playing rd (pcm_size fmt) c r" and more: "s_loops c \<or> r < s_total c"
  shows "\<exists>d. sample_step env i fmt (c, x) = (d, x) \<and> same_setup d c \<and> sc_cnt d = sc_cnt c \<and>
    sc_cur d = sample_value rd (pcm_size fmt) c r \<and> playing rd (pcm_size fmt) d (r + pcm_size fmt)"
proof -
  let ?k = "pcm_size fmt" and ?p = "sc_pos c + 1"
  have k: "?k = 1 \<or> ?k = 2" using fmt by (auto simp: pcm_size_def)
  obtain w where f: "fifo_at rd c r w" "fifo_filled c r w" using at by (auto simp: playing_def)
  have p: "unat ?p < 2 ^ 24" "?k dvd r" using at by (simp_all add: playing_def Let_def)
  have T: "s_total c < 2 ^ 24" "s_loop c \<le> s_total c" "4 dvd s_loop c" "4 dvd s_total c" "s_loops c \<Longrightarrow> s_loop c < s_total c"
    "16 \<le> s_total c"
    using ok by (simp_all add: sample_ok_def)
  define q where "q = (if s_total c \<le> ?k * unat ?p then drop_bit (?k - 1) (sc_loop c) else ?p)"
  have q: "?k * unat q = s_pos c r" "unat q < 2 ^ 24" "s_loops c \<or> ?k * unat ?p < s_total c"
  proof -
    consider "?k * unat ?p < s_total c" "?k * unat ?p = s_pos c r"
      | "?k * unat ?p = s_total c" "s_pos c r = s_loop c" "s_loops c"
      using at more by (auto simp: playing_def Let_def)
    then have "?k * unat q = s_pos c r \<and> unat q < 2 ^ 24 \<and> (s_loops c \<or> ?k * unat ?p < s_total c)"
    proof cases
      case 1
      then show ?thesis using p by (simp add: q_def)
    next
      case 2
      have "unat q = s_loop c div 2 ^ (?k - 1)"
        using 2(1) by (simp add: q_def unat_drop_bit_eq drop_bit_eq_div [where ?'a = nat])
      moreover have "?k * (s_loop c div 2 ^ (?k - 1)) = s_loop c"
        using k T(3) by (auto elim!: dvdE)
      ultimately show ?thesis using 2 T k by auto
    qed
    then show "?k * unat q = s_pos c r" "unat q < 2 ^ 24" "s_loops c \<or> ?k * unat ?p < s_total c" by blast+
  qed
  let ?c = "c\<lparr> sc_pos := q \<rparr>"
  have sc: "same_setup ?c c" "sc_cnt ?c = sc_cnt c" by simp_all
  note facts = same_sample_facts [OF sc]
  have fc: "fifo_at rd ?c r w" "fifo_filled ?c r w"
    using f by simp_all
  have sp: "s_pos c r + ?k \<le> s_total c"
  proof -
    have "s_pos c r < s_total c" using at more T(5) play_pos_below [of "s_loop c" "s_total c" r] by (auto simp: playing_def Let_def)
    moreover have "?k dvd s_total c - s_pos c r"
      using k T(4) q(1) by (metis dvd_diff_nat dvd_trans dvd_triv_left dvd_def numeral_Bit0_eq_double one_dvd)
    ultimately show ?thesis using dvd_imp_le [of ?k "s_total c - s_pos c r"] by simp
  qed
  have rk: "s_loops ?c \<or> r + ?k \<le> s_total ?c"
    using more sp facts by (auto simp: play_pos_def)
  obtain d v where d: "sample_read env ?k (?c, x) = (map (\<lambda>i. sample_byte rd (sc_src ?c) (s_pos ?c (r + i))) [0..<?k], d, x)"
    "same_sample d ?c" "fifo_at rd d (r + ?k) v" "fifo_filled d (r + ?k) v"
    using read_ok [OF rd _ fc _ p(2) rk, of x] ok facts k by auto
  let ?d = "d\<lparr> sc_cur := sample_value rd ?k c r \<rparr>"
  have step: "sample_step env i fmt (c, x) = (?d, x)"
  proof -
    have ended: "(s_total c \<le> ?k * unat ?p) \<longrightarrow> s_loops c" using q(3) by auto
    have neg: "\<not> sint ?p < 0" by (rule not_negative [OF p(1)])
    have u2: "unat (push_bit 1 ?p) = 2 * unat ?p" by (rule twice [OF p(1)])
    have bytes: "map (\<lambda>i. sample_byte rd (sc_src ?c) (s_pos ?c (r + i))) [0..<?k] ! 0 = sample_byte rd (sc_src c) (s_pos c (r + 0))"
      "?k = 2 \<Longrightarrow> map (\<lambda>i. sample_byte rd (sc_src ?c) (s_pos ?c (r + i))) [0..<?k] ! 1 = sample_byte rd (sc_src c) (s_pos c (r + 1))"
      using k facts by (auto simp: nth_append)
    show ?thesis
    proof (cases "fmt = 0")
      case True
      then have one: "?k = 1" by (simp add: pcm_size_def)
      have "q = (if sc_total c \<le> ?p then sc_loop c else ?p)" using one by (simp add: q_def word_le_nat_alt)
      then have "sample_step env i fmt (c, x) = (let (bs, c1, w1) = sample_read env 1 (?c, x) in (c1\<lparr> sc_cur := push_bit 8 (ucast (bs ! 0)) \<rparr>, w1))"
        using True neg ended one by (auto simp: sample_step_def next_pcm8_def Let_def word_le_nat_alt sc_total_def sc_repeat_def)
      then show ?thesis using d(1) bytes(1) one by (simp add: sample_value_def Let_def)
    next
      case False
      then have two: "?k = 2" "fmt = 1" using fmt by (simp_all add: pcm_size_def)
      have "q = (if sc_total c \<le> push_bit 1 ?p then drop_bit 1 (sc_loop c) else ?p)"
        using two u2 by (simp add: q_def word_le_nat_alt)
      then have "sample_step env i fmt (c, x) = (let (bs, c1, w1) = sample_read env 2 (?c, x)
          in (c1\<lparr> sc_cur := ucast (bs ! 0) OR push_bit 8 (ucast (bs ! 1)) \<rparr>, w1))"
        using two neg ended u2 by (auto simp: sample_step_def next_pcm16_def Let_def word_le_nat_alt sc_total_def sc_repeat_def)
      then show ?thesis using d(1) bytes two by (simp add: sample_value_def Let_def)
    qed
  qed
  have dc: "same_setup ?d c" "sc_cnt ?d = sc_cnt c" "sc_pos ?d = q" using d(2) by (simp_all add: same_sample_def same_setup_def)
  note df = same_sample_facts [OF dc(1,2)]
  have "playing rd ?k ?d (r + ?k)"
  proof -
    have "unat q \<le> s_pos c r" using q(1) k by auto
    then have q24: "unat q + 1 < 2 ^ 24" using sp k T(1) by auto
    then have qs: "unat (q + 1) = unat q + 1" by (simp add: unat_word_ariths)
    then have pk: "?k * unat (q + 1) = s_pos c r + ?k" using q(1) by simp
    have "fifo_at rd ?d (r + ?k) v" "fifo_filled ?d (r + ?k) v" using d(3,4) by simp_all
    moreover have "?k dvd r + ?k" using p(2) by simp
    moreover have "s_pos c r + ?k < s_total c \<and> s_pos c r + ?k = s_pos c (r + ?k) \<and> (\<not> s_loops c \<longrightarrow> r + ?k < s_total c) \<or>
        s_pos c r + ?k = s_total c \<and> s_pos c (r + ?k) = s_loop c \<and> (\<not> s_loops c \<longrightarrow> r + ?k = s_total c)"
    proof (cases "s_pos c r + ?k < s_total c")
      case True
      then show ?thesis using play_pos_add [OF True] more by (auto simp: play_pos_def split: if_splits)
    next
      case False
      then have e: "s_pos c r + ?k = s_total c" using sp by simp
      then have "s_pos c (r + ?k) = s_loop c" using play_pos_end [OF e] T(2) k by auto
      then show ?thesis using e more by (auto simp: play_pos_def split: if_splits)
    qed
    moreover have "unat (q + 1) < 2 ^ 24" using q24 qs by simp
    ultimately show ?thesis unfolding playing_def Let_def dc(3) df pk by blast
  qed
  then show ?thesis using step dc by auto
qed

lemma pcm_steps:
  assumes rd: "plain_reads env rd" and fmt: "fmt = 0 \<or> fmt = 1"
  shows "sample_ok c \<Longrightarrow> playing rd (pcm_size fmt) c 0 \<Longrightarrow> s_loops c \<or> m * pcm_size fmt \<le> s_total c \<Longrightarrow>
    \<exists>d. (sample_step env i fmt ^^ m) (c, x) = (d, x) \<and> same_setup d c \<and> sc_cnt d = sc_cnt c \<and> playing rd (pcm_size fmt) d (m * pcm_size fmt)"
proof (induction m)
  case 0
  then show ?case by auto
next
  case (Suc m)
  then obtain d where d: "(sample_step env i fmt ^^ m) (c, x) = (d, x)" "same_setup d c" "sc_cnt d = sc_cnt c"
    "playing rd (pcm_size fmt) d (m * pcm_size fmt)" by auto
  note facts = same_sample_facts [OF d(2,3)]
  have "0 < pcm_size fmt" by (simp add: pcm_size_def)
  then have "s_loops d \<or> m * pcm_size fmt < s_total d" using Suc.prems(3) facts by auto
  from pcm_step [OF rd _ fmt d(4) this, of i x] facts Suc.prems(1) obtain e where
    e: "sample_step env i fmt (d, x) = (e, x)" "same_setup e d" "sc_cnt e = sc_cnt d" "playing rd (pcm_size fmt) e (m * pcm_size fmt + pcm_size fmt)"
    by auto
  then show ?case using d by (auto simp: same_setup_def add.commute)
qed

lemma silent_step:
  assumes "fmt = 0 \<or> fmt = 1" "sint (sc_pos c + 1) < 0"
  shows "sample_step env i fmt (c, x) = (c\<lparr> sc_pos := sc_pos c + 1 \<rparr>, x)"
  using assms by (auto simp: sample_step_def next_pcm8_def next_pcm16_def Let_def)

text \<open>A started channel is silent for two samples and then at the first byte.\<close>

lemma started_playing:
  assumes rd: "plain_reads env rd" and ok: "sample_ok c" and fmt: "fmt = 0 \<or> fmt = 1" "sc_format c = fmt"
  shows "\<exists>d. (sample_step env i fmt ^^ 2) (start_channel env (c, x)) = (d, x) \<and>
    same_setup d (c\<lparr> sc_timer := ucast (sc_timer_reload c) \<rparr>) \<and> sc_cnt d = sc_cnt c \<and> playing rd (pcm_size fmt) d 0"
proof -
  let ?b = "c\<lparr> sc_timer := ucast (sc_timer_reload c), sc_pos := - 3 \<rparr>"
  obtain d w where d: "start_channel env (c, x) = (d, x)" "same_sample d ?b" "fifo_at rd d 0 w" "fifo_filled d 0 w"
    using start_ok [OF rd ok, of x] fmt by auto
  let ?d = "d\<lparr> sc_pos := - 1 \<rparr>"
  have pos: "sc_pos d = - 3" using d(2) by (simp add: same_sample_def)
  have "sample_step env i fmt (d, x) = (d\<lparr> sc_pos := - 2 \<rparr>, x)" using silent_step [OF fmt(1), of d env i x] pos by simp
  moreover have "sample_step env i fmt (d\<lparr> sc_pos := - 2 \<rparr>, x) = (?d, x)"
    using silent_step [OF fmt(1), of "d\<lparr> sc_pos := - 2 \<rparr>" env i x] by simp
  ultimately have two: "(sample_step env i fmt ^^ 2) (start_channel env (c, x)) = (?d, x)" using d(1) by (simp add: numeral_2_eq_2)
  have b: "same_setup d (c\<lparr> sc_timer := ucast (sc_timer_reload c) \<rparr>)" "sc_cnt d = sc_cnt c"
    using d(2) by (simp_all add: same_sample_def same_setup_def)
  then have T: "16 \<le> s_total ?d" using ok by (simp add: sample_ok_def same_setup_def sc_total_def)
  then have "0 < s_total ?d" "s_pos ?d 0 = 0" by (simp_all add: play_pos_def)
  moreover have "fifo_at rd ?d 0 w" "fifo_filled ?d 0 w" using d(3,4) by simp_all
  ultimately have "playing rd (pcm_size fmt) ?d 0" unfolding playing_def Let_def by auto
  then show ?thesis using two b by auto
qed

text \<open>C20: a keyed-on PCM8 or PCM16 channel plays the sample in memory: its \<open>n\<close>-th sample after the two
  silent ones is the value \<open>n\<close> places on from the sample's start, going back to the loop point whenever the
  end is reached, for every length, loop point and alignment of the FIFO.\<close>

theorem pcm_plays_sample:
  assumes "plain_reads env rd" "sample_ok c" "sc_format c = fmt" "fmt = 0 \<or> fmt = 1"
    "tst (sc_repeat c) 1 \<or> n * pcm_size fmt < unat (sc_total c)"
  shows "sc_cur (fst ((sample_step env i fmt ^^ (n + 3)) (start_channel env (c, x)))) = sample_value rd (pcm_size fmt) c (n * pcm_size fmt)"
proof -
  obtain d where d: "(sample_step env i fmt ^^ 2) (start_channel env (c, x)) = (d, x)"
    "same_setup d (c\<lparr> sc_timer := ucast (sc_timer_reload c) \<rparr>)" "sc_cnt d = sc_cnt c" "playing rd (pcm_size fmt) d 0"
    using started_playing [OF assms(1,2,4,3), of i x] by auto
  note f1 = same_sample_facts [OF d(2)]
  have ok: "sample_ok d" "s_loops d = s_loops c" "s_total d = s_total c" "s_loop d = s_loop c" "sc_src d = sc_src c"
    using f1 d(3) assms(2) by (simp_all add: sample_ok_def sc_total_def sc_repeat_def)
  obtain e where e: "(sample_step env i fmt ^^ n) (d, x) = (e, x)" "same_setup e d" "sc_cnt e = sc_cnt d"
    "playing rd (pcm_size fmt) e (n * pcm_size fmt)"
    using pcm_steps [OF assms(1,4) ok(1) d(4), of n i x] assms(5) ok by auto
  note f2 = same_sample_facts [OF e(2,3)]
  obtain g where g: "sample_step env i fmt (e, x) = (g, x)" "sc_cur g = sample_value rd (pcm_size fmt) e (n * pcm_size fmt)"
    using pcm_step [OF assms(1) _ assms(4) e(4), of i x] f2 ok assms(5) by auto
  have three: "n + 3 = Suc (n + 2)" by simp
  have "(sample_step env i fmt ^^ (n + 3)) (start_channel env (c, x)) = sample_step env i fmt ((sample_step env i fmt ^^ n) ((sample_step env i fmt ^^ 2) (start_channel env (c, x))))"
    unfolding three funpow.simps(2) funpow_add by simp
  then show ?thesis using d(1) e(1) g f2 ok by (simp add: sample_value_def)
qed

text \<open>Memory whose words are their addresses, and a looped PCM16 sample of 32 bytes: sample 40 is at byte 8.\<close>

definition address_env :: "unit spu_env" where
  "address_env = \<lparr> se_read32 = (\<lambda>a w. (a, w)), se_write32 = (\<lambda>a v w. w), se_dsi = False, se_mic_clock = (\<lambda>t w. w) \<rparr>"

definition looped_channel :: spu_channel where
  "looped_channel = silent_channel\<lparr> sc_cnt := 0xA800007F, sc_src := 0x02000000, sc_loop := 8, sc_len := 24 \<rparr>"

theorem pcm_plays_sample_witness:
  "sc_cur (fst ((sample_step address_env 4 1 ^^ (40 + 3)) (start_channel address_env (looped_channel, ())))) = 8"
proof -
  have env: "plain_reads address_env (\<lambda>a. a)" by (simp add: plain_reads_def address_env_def)
  have bits: "fld (0xA800007F :: u32) 29 3 = 1" "fld (0xA800007F :: u32) 27 3 = 1" "tst (1 :: u32) 1" by code_simp+
  have fields: "sc_total looped_channel = 32" "sc_loop looped_channel = 8" "sc_src looped_channel = 0x02000000"
    "sc_format looped_channel = 1" "sc_repeat looped_channel = 1"
    using bits by (simp_all add: looped_channel_def silent_channel_def sc_total_def sc_format_def sc_repeat_def)
  then have "sample_ok looped_channel" using bits(3) by (simp add: sample_ok_def)
  with env have "sc_cur (fst ((sample_step address_env 4 1 ^^ (40 + 3)) (start_channel address_env (looped_channel, ()))))
      = sample_value (\<lambda>a. a) (pcm_size 1) looped_channel (40 * pcm_size 1)"
    using fields bits(3) by (intro pcm_plays_sample) simp_all
  also have "\<dots> = 8"
  proof -
    have "play_pos 8 32 80 = 8" "play_pos 8 32 81 = 9" by (simp_all add: play_pos_def)
    moreover have "sample_byte (\<lambda>a. a) 0x02000000 8 = 8" "sample_byte (\<lambda>a. a) 0x02000000 9 = 0"
      by (simp_all add: sample_byte_def)
    ultimately show ?thesis by (simp add: sample_value_def pcm_size_def fields)
  qed
  finally show ?thesis .
qed

text \<open>A sample that does not loop is silent once it was played, and the channel is off.\<close>

lemma pcm_one_shot_ends:
  assumes "plain_reads env rd" "sample_ok c" "sc_format c = fmt" "fmt = 0 \<or> fmt = 1"
    "\<not> tst (sc_repeat c) 1" "tst (sc_repeat c) 2" "n * pcm_size fmt = unat (sc_total c)"
  shows "\<exists>g. (sample_step env i fmt ^^ (n + 3)) (start_channel env (c, x)) = (g, x) \<and> sc_cur g = 0 \<and> \<not> channel_on g"
proof -
  obtain d where d: "(sample_step env i fmt ^^ 2) (start_channel env (c, x)) = (d, x)"
    "same_setup d (c\<lparr> sc_timer := ucast (sc_timer_reload c) \<rparr>)" "sc_cnt d = sc_cnt c" "playing rd (pcm_size fmt) d 0"
    using started_playing [OF assms(1,2,4,3), of i x] by auto
  note f1 = same_sample_facts [OF d(2)]
  have ok: "sample_ok d" "s_loops d = s_loops c" "s_total d = s_total c" "sc_repeat d = sc_repeat c"
    using f1 d(3) assms(2) by (simp_all add: sample_ok_def sc_total_def sc_repeat_def)
  obtain e where e: "(sample_step env i fmt ^^ n) (d, x) = (e, x)" "same_setup e d" "sc_cnt e = sc_cnt d"
    "playing rd (pcm_size fmt) e (n * pcm_size fmt)"
    using pcm_steps [OF assms(1,4) ok(1) d(4), of n i x] assms(7) ok by auto
  note f2 = same_sample_facts [OF e(2,3)]
  have p: "unat (sc_pos e + 1) < 2 ^ 24" "pcm_size fmt * unat (sc_pos e + 1) = s_total e"
    using e(4) assms(5,7) ok f2 by (auto simp: playing_def Let_def)
  have "sc_total e \<le> (if fmt = 0 then sc_pos e + 1 else push_bit 1 (sc_pos e + 1))"
    using p twice [OF p(1)] by (auto simp: pcm_size_def word_le_nat_alt split: if_splits)
  then have "sample_step env i fmt (e, x) = (stop_channel (e\<lparr> sc_pos := sc_pos e + 1 \<rparr>), x)"
    using assms(4,5,6) ok f2 not_negative [OF p(1)]
    by (auto simp: sample_step_def next_pcm8_def next_pcm16_def Let_def sc_total_def sc_repeat_def)
  moreover have "sc_cur (stop_channel (e\<lparr> sc_pos := sc_pos e + 1 \<rparr>)) = 0" "\<not> channel_on (stop_channel (e\<lparr> sc_pos := sc_pos e + 1 \<rparr>))"
    by (simp_all add: stop_channel_def channel_on_def tst_def and.assoc)
  moreover have "(sample_step env i fmt ^^ (n + 3)) (start_channel env (c, x)) = sample_step env i fmt ((sample_step env i fmt ^^ n) ((sample_step env i fmt ^^ 2) (start_channel env (c, x))))"
  proof -
    have three: "n + 3 = Suc (n + 2)" by simp
    show ?thesis unfolding three funpow.simps(2) funpow_add by simp
  qed
  ultimately show ?thesis using d(1) e(1) by simp
qed

end
