(* ===== verification/SpuMix.thy ===== *)
theory SpuMix imports Spu begin

text \<open>
  The mixer, the output ring, the registers and the mix event of the sound unit
  (\<^verbatim>\<open>src/core/spu/spu.cpp\<close>).  \<open>now\<close> is the scheduler's clock.
\<close>

section \<open>The output ring\<close>

definition ring_push :: "u16 \<times> u16 \<Rightarrow> 'w spu \<Rightarrow> 'w spu" where
  "ring_push f s =
     (let s1 = s\<lparr> sp_ring := (sp_ring s)(sp_wr s := f), sp_wr := (sp_wr s + 1) mod RING_FRAMES \<rparr> in
      if sp_wr s1 = sp_rd s1 then s1\<lparr> sp_rd := (sp_rd s1 + 1) mod RING_FRAMES, sp_overruns := sp_overruns s1 + 1 \<rparr> else s1)"

fun ring_take :: "nat \<Rightarrow> 'w spu \<Rightarrow> (u16 \<times> u16) list \<times> 'w spu" where
  "ring_take 0 s = ([], s)"
| "ring_take (Suc n) s =
     (if sp_rd s = sp_wr s then ([], s)
      else
        (let (fs, s1) = ring_take n (s\<lparr> sp_rd := (sp_rd s + 1) mod RING_FRAMES \<rparr>) in (sp_ring s (sp_rd s) # fs, s1)))"

definition ring_available :: "'w spu \<Rightarrow> nat" where
  "ring_available s = (sp_wr s + RING_FRAMES - sp_rd s) mod RING_FRAMES"

definition ring_drain :: "'w spu \<Rightarrow> 'w spu" where
  "ring_drain s = s\<lparr> sp_rd := sp_wr s \<rparr>"

section \<open>The mixer\<close>

text \<open>A channel of the unit advanced by one output sample.\<close>

definition run_ch :: "'w spu_env \<Rightarrow> nat \<Rightarrow> 'w spu \<Rightarrow> int \<times> 'w spu" where
  "run_ch env i s =
     (let (v, c, w) = run_sound env i (sp_timer_step s) (sp_ch s i, sp_w s)
      in (v, s\<lparr> sp_ch := (sp_ch s)(i := c), sp_w := w \<rparr>))"

definition pan_out :: "spu_channel \<Rightarrow> int \<Rightarrow> int \<times> int \<Rightarrow> int \<times> int" where
  "pan_out c v lr = (fst lr + (v * (128 - uint (sc_pan c))) div 1024, snd lr + (v * uint (sc_pan c)) div 1024)"

definition mix_channel :: "'w spu_env \<Rightarrow> nat \<Rightarrow> 'w spu \<times> int \<times> int \<Rightarrow> 'w spu \<times> int \<times> int" where
  "mix_channel env i st =
     (let (s, lr) = st in
      if channel_on (sp_ch s i) then (let (v, s1) = run_ch env i s in (s1, pan_out (sp_ch s1 i) v lr)) else (s, lr))"

definition clamp16 :: "int \<Rightarrow> int" where
  "clamp16 v = max (- 0x8000) (min v 0x7FFF)"

definition capture_step :: "'w spu_env \<Rightarrow> int \<Rightarrow> nat \<Rightarrow> 'w spu \<Rightarrow> 'w spu" where
  "capture_step env v k s =
     (if \<not> tst (sk_cnt (sp_cap s k)) 0x80 then s
      else
        (let (c, w) = cap_run env (sp_timer_step s) (clamp16 (v div 256)) (sp_cap s k, sp_w s)
         in s\<lparr> sp_cap := (sp_cap s)(k := c), sp_w := w \<rparr>))"

definition side_out :: "u16 \<Rightarrow> int \<Rightarrow> int \<Rightarrow> int \<Rightarrow> int \<Rightarrow> int \<Rightarrow> int" where
  "side_out sel mixer ch1 ch3 p1 p3 =
     (if sel = 0 then mixer
      else if sel = 1 then (ch1 * p1) div 1024
      else if sel = 2 then (ch3 * p3) div 1024
      else (ch1 * p1) div 1024 + (ch3 * p3) div 1024)"

text \<open>The channels and captures of one sample, and what they make of the two sides.\<close>

definition mix_sides :: "'w spu_env \<Rightarrow> 'w spu \<Rightarrow> (int \<times> int) \<times> 'w spu" where
  "mix_sides env s =
     (let (ch0, s0) = run_ch env 0 s; (ch1, s1) = run_ch env 1 s0; (ch2, s2) = run_ch env 2 s1; (ch3, s3) = run_ch env 3 s2;
          lr2 = pan_out (sp_ch s3 2) ch2 (pan_out (sp_ch s3 0) ch0 (0, 0));
          lr1 = (if tst (sp_cnt s3) 0x1000 then lr2 else pan_out (sp_ch s3 1) ch1 lr2);
          lr3 = (if tst (sp_cnt s3) 0x2000 then lr1 else pan_out (sp_ch s3 3) ch3 lr1);
          (s4, left, right) = fold (mix_channel env) [4..<16] (s3, lr3);
          s5 = capture_step env right 1 (capture_step env left 0 s4);
          p1 = uint (sc_pan (sp_ch s5 1)); p3 = uint (sc_pan (sp_ch s5 3))
      in ((side_out (fld (sp_cnt s5) 8 3) left ch1 ch3 (128 - p1) (128 - p3),
           side_out (fld (sp_cnt s5) 10 3) right ch1 ch3 p1 p3), s5))"

definition master_out :: "'w spu \<Rightarrow> int \<Rightarrow> int" where
  "master_out s v =
     (let o1 = (v * uint (sp_master s)) div 128 div 256
      in if sp_apply_bias s then o1 + (uint (sp_bias s) * 64 - 0x8000) else o1)"

definition dsi_level :: "'w spu \<Rightarrow> int \<Rightarrow> int" where
  "dsi_level s v =
     (let sx = sp_sndexcnt s in
      if \<not> tst sx 0x8000 then 0 else if tst sx 0x4000 then 0 else (v * min (uint (sx AND 0xF)) 8) div 8)"

definition mix :: "'w spu_env \<Rightarrow> 'w spu \<Rightarrow> 'w spu" where
  "mix env s =
     (let (lr, s1) = (if tst (sp_cnt s) 0x8000 then mix_sides env s else ((0, 0), s));
          out = (\<lambda>v. let l = (if sp_muted s1 then 0 else clamp16 (master_out s1 v)) in if se_dsi env then dsi_level s1 l else l);
          s2 = (if se_dsi env \<and> tst (sp_sndexcnt s1) 0x8000 then s1\<lparr> sp_w := se_mic_clock env (sp_mix_at s1) (sp_w s1) \<rparr> else s1)
      in ring_push (word_of_int (out (fst lr)), word_of_int (out (snd lr))) s2)"

text \<open>What the mixer leaves alone.\<close>

definition same_clock :: "'w spu \<Rightarrow> 'w spu \<Rightarrow> bool" where
  "same_clock s t \<longleftrightarrow> sp_mix_at s = sp_mix_at t \<and> sp_mix_period s = sp_mix_period t \<and> sp_timer_step s = sp_timer_step t \<and>
     sp_batch s = sp_batch t \<and> sp_cnt s = sp_cnt t \<and> sp_bias s = sp_bias t \<and> sp_master s = sp_master t \<and>
     sp_muted s = sp_muted t \<and> sp_apply_bias s = sp_apply_bias t \<and> sp_sndexcnt s = sp_sndexcnt t"

lemma run_ch_clock: "same_clock (snd (run_ch env i s)) t = same_clock s t"
  by (simp add: run_ch_def split_beta Let_def same_clock_def)

lemma mix_channel_clock: "same_clock (fst (mix_channel env i st)) t = same_clock (fst st) t"
  by (simp add: mix_channel_def split_beta Let_def run_ch_clock)

lemma mix_channels_clock: "same_clock (fst (fold (mix_channel env) is st)) t = same_clock (fst st) t"
  by (induction "is" arbitrary: st) (simp_all add: mix_channel_clock)

lemma capture_clock: "same_clock (capture_step env v k s) t = same_clock s t"
  by (simp add: capture_step_def split_beta Let_def same_clock_def)

lemma sides_clock: "same_clock (snd (mix_sides env s)) t = same_clock s t"
proof -
  obtain ch0 s0 where r0: "run_ch env 0 s = (ch0, s0)" by (meson surj_pair)
  obtain ch1 s1 where r1: "run_ch env 1 s0 = (ch1, s1)" by (meson surj_pair)
  obtain ch2 s2 where r2: "run_ch env 2 s1 = (ch2, s2)" by (meson surj_pair)
  obtain ch3 s3 where r3: "run_ch env 3 s2 = (ch3, s3)" by (meson surj_pair)
  define lr where "lr = (let lr2 = pan_out (sp_ch s3 2) ch2 (pan_out (sp_ch s3 0) ch0 (0, 0));
      lr1 = (if tst (sp_cnt s3) 0x1000 then lr2 else pan_out (sp_ch s3 1) ch1 lr2)
    in if tst (sp_cnt s3) 0x2000 then lr1 else pan_out (sp_ch s3 3) ch3 lr1)"
  obtain s4 a b where f: "fold (mix_channel env) [4..<16] (s3, lr) = (s4, a, b)" by (metis prod_cases3)
  have "snd (mix_sides env s) = capture_step env b 1 (capture_step env a 0 s4)"
    unfolding mix_sides_def by (simp only: r0 r1 r2 r3 Let_def prod.case lr_def [unfolded Let_def, symmetric] f snd_conv)
  moreover have "same_clock s4 t = same_clock s t"
    using mix_channels_clock [of env "[4..<16]" "(s3, lr)" t] f run_ch_clock [of env 0 s t] run_ch_clock [of env 1 s0 t]
      run_ch_clock [of env 2 s1 t] run_ch_clock [of env 3 s2 t] r0 r1 r2 r3 by (simp only: fst_conv snd_conv)
  ultimately show ?thesis by (simp only: capture_clock)
qed

lemma push_clock: "same_clock (ring_push f s) t = same_clock s t"
  by (simp add: ring_push_def Let_def same_clock_def)

lemma mix_clock: "same_clock (mix env s) s"
proof -
  have "same_clock (s\<lparr> sp_w := w \<rparr>) t = same_clock s t" for s t :: "'a spu" and w by (simp add: same_clock_def)
  moreover have "same_clock s s" by (simp add: same_clock_def)
  ultimately show ?thesis by (simp add: mix_def split_beta Let_def push_clock sides_clock)
qed

section \<open>The sample clock\<close>

text \<open>Every sample due by \<open>t\<close>.  The second test is not in the code: the period is never 0, and a
  counter of 64 bits does not reach its top.\<close>

function run_to :: "'w spu_env \<Rightarrow> u64 \<Rightarrow> 'w spu \<Rightarrow> 'w spu" where
  "run_to env t s =
     (if t < sp_mix_at s \<or> sp_mix_at s + ucast (sp_mix_period s) \<le> sp_mix_at s then s
      else (let s1 = mix env s in run_to env t (s1\<lparr> sp_mix_at := sp_mix_at s1 + ucast (sp_mix_period s1) \<rparr>)))"
  by pat_completeness auto

termination
proof (relation "measure (\<lambda>(env, t, s). Suc (unat t) - unat (sp_mix_at s))", goal_cases)
  case (2 env t s x)
  then have "unat (sp_mix_at s) < unat (sp_mix_at s + ucast (sp_mix_period s))" "unat (sp_mix_at s) \<le> unat t"
    by (simp_all add: word_less_nat_alt word_le_nat_alt not_le not_less)
  then show ?case using 2 mix_clock [of env s] by (simp add: same_clock_def)
qed simp

declare run_to.simps [simp del]

text \<open>The mix event: the samples due, and when the event is due again.\<close>

definition ev_mix :: "'w spu_env \<Rightarrow> u64 \<Rightarrow> 'w spu \<Rightarrow> u64 \<times> 'w spu" where
  "ev_mix env event_time s =
     (let s1 = run_to env event_time s;
          n = (if tst (sk_cnt (sp_cap s1 0) OR sk_cnt (sp_cap s1 1)) 0x80 then 1 else sp_batch s1)
      in (sp_mix_at s1 + ucast ((n - 1) * sp_mix_period s1), s1))"

definition set_powcnt2 :: "'w spu_env \<Rightarrow> u64 \<Rightarrow> u16 \<Rightarrow> 'w spu \<Rightarrow> 'w spu" where
  "set_powcnt2 env now v s = (run_to env now s)\<lparr> sp_muted := \<not> tst v 1 \<rparr>"

definition write_sndexcnt :: "'w spu_env \<Rightarrow> u64 \<Rightarrow> u16 \<Rightarrow> u16 \<Rightarrow> 'w spu \<Rightarrow> 'w spu" where
  "write_sndexcnt env now v m s =
     (let cur = sp_sndexcnt s;
          v1 = (v AND m) OR (cur AND NOT m);
          v2 = (if tst cur 0x8000 then (v1 AND NOT 0x2000) OR (cur AND 0x2000) else v1);
          s1 = (if tst (cur XOR v2) 0x2000
                then (let s0 = run_to env now s; p = (if tst v2 0x2000 then MIX_PERIOD_47K else MIX_PERIOD)
                      in s0\<lparr> sp_mix_period := p, sp_timer_step := p div 4 \<rparr>)
                else s)
      in (run_to env now s1)\<lparr> sp_sndexcnt := v2 AND 0xE00F \<rparr>)"

section \<open>Registers\<close>

definition owns_reg :: "u32 \<Rightarrow> bool" where
  "owns_reg addr \<longleftrightarrow> 0x04000400 \<le> addr \<and> addr < 0x04000520"

definition vol_shifts :: "u8 list" where "vol_shifts = [4, 3, 2, 0]"

definition full_127 :: "u8 \<Rightarrow> u8" where
  "full_127 v = (if v = 127 then 128 else v)"

definition set_cnt :: "u32 \<Rightarrow> spu_channel \<Rightarrow> spu_channel" where
  "set_cnt v c =
     (let k = v AND 0xFF7F837F;
          c1 = c\<lparr> sc_cnt := k, sc_volume := full_127 (ucast (k AND 0x7F)), sc_vol_shift := vol_shifts ! unat (fld k 8 3),
                  sc_pan := full_127 (ucast (fld k 16 0x7F)) \<rparr>
      in if tst v 0x80000000 \<and> \<not> tst (sc_cnt c) 0x80000000 then c1\<lparr> sc_key_on := True \<rparr> else c1)"

definition cap_set_cnt :: "u8 \<Rightarrow> spu_capture \<Rightarrow> spu_capture" where
  "cap_set_cnt v k =
     (let k1 = (if tst v 0x80 \<and> \<not> tst (sk_cnt k) 0x80
                then k\<lparr> sk_timer := ucast (sk_timer_reload k), sk_pos := 0, sk_fifo_rd := 0, sk_fifo_wr := 0,
                        sk_fifo_off := 0, sk_fifo_level := 0 \<rparr>
                else k);
          v1 = v AND 0x8F
      in k1\<lparr> sk_cnt := (if tst v1 0x80 then v1 else v1 AND NOT 1) \<rparr>)"

definition channel_of :: "u32 \<Rightarrow> nat" where
  "channel_of addr = unat (fld addr 4 0xF)"

definition spu_read :: "'w spu_env \<Rightarrow> u64 \<Rightarrow> u32 \<Rightarrow> nat \<Rightarrow> 'w spu \<Rightarrow> u32 \<times> 'w spu" where
  "spu_read env now addr width s0 =
     (let s = run_to env now s0; base = addr AND NOT 3;
          v = (if addr < 0x04000500 then (if addr AND 0xC = 0 then sc_cnt (sp_ch s (channel_of addr)) else 0)
               else if base = 0x04000500 then ucast (sp_cnt s)
               else if base = 0x04000504 then ucast (sp_bias s)
               else if base = 0x04000508 then ucast (sk_cnt (sp_cap s 0)) OR push_bit 8 (ucast (sk_cnt (sp_cap s 1)))
               else if base = 0x04000510 then sk_dst (sp_cap s 0)
               else if base = 0x04000518 then sk_dst (sp_cap s 1)
               else 0);
          shift = (addr AND 3) * 8
      in (if width = 32 then v
          else if width = 16 then drop_bit (unat (shift AND 16)) v AND 0xFFFF
          else drop_bit (unat shift) v AND 0xFF, s))"

text \<open>The word a narrow write is merged into.\<close>

definition reg_image :: "'w spu \<Rightarrow> u32 \<Rightarrow> u32" where
  "reg_image s base =
     (if base < 0x04000500 then
        (let c = sp_ch s (channel_of base); k = base AND 0xC in
         if k = 0 then sc_cnt c
         else if k = 4 then sc_src c
         else if k = 8 then ucast (sc_timer_reload c) OR push_bit 16 (drop_bit 2 (sc_loop c))
         else drop_bit 2 (sc_len c))
      else if base = 0x04000500 then ucast (sp_cnt s)
      else if base = 0x04000504 then ucast (sp_bias s)
      else if base = 0x04000508 then ucast (sk_cnt (sp_cap s 0)) OR push_bit 8 (ucast (sk_cnt (sp_cap s 1)))
      else if base = 0x04000510 then sk_dst (sp_cap s 0)
      else if base = 0x04000514 then drop_bit 2 (sk_len (sp_cap s 0))
      else if base = 0x04000518 then sk_dst (sp_cap s 1)
      else if base = 0x0400051C then drop_bit 2 (sk_len (sp_cap s 1))
      else 0)"

definition upd_sound :: "nat \<Rightarrow> (spu_channel \<Rightarrow> spu_channel) \<Rightarrow> 'w spu \<Rightarrow> 'w spu" where
  "upd_sound i f s = s\<lparr> sp_ch := (sp_ch s)(i := f (sp_ch s i)) \<rparr>"

definition upd_cap :: "nat \<Rightarrow> (spu_capture \<Rightarrow> spu_capture) \<Rightarrow> 'w spu \<Rightarrow> 'w spu" where
  "upd_cap k f s = s\<lparr> sp_cap := (sp_cap s)(k := f (sp_cap s k)) \<rparr>"

definition cap_length :: "u32 \<Rightarrow> u32" where
  "cap_length v = (let n = push_bit 2 (v AND 0xFFFF) in if n = 0 then 4 else n)"

definition reg_write :: "u32 \<Rightarrow> u32 \<Rightarrow> 'w spu \<Rightarrow> 'w spu" where
  "reg_write base v s =
     (if base < 0x04000500 then
        (let n = channel_of base; k = base AND 0xC in
         if k = 0 then upd_sound n (set_cnt v) s
         else if k = 4 then upd_sound n (\<lambda>c. c\<lparr> sc_src := v AND 0x07FFFFFC \<rparr>) s
         else if k = 8 then
           (let s1 = upd_sound n (\<lambda>c. c\<lparr> sc_timer_reload := ucast v, sc_loop := push_bit 2 (drop_bit 16 v) \<rparr>) s
            in if n = 1 then upd_cap 0 (\<lambda>k. k\<lparr> sk_timer_reload := ucast v \<rparr>) s1
               else if n = 3 then upd_cap 1 (\<lambda>k. k\<lparr> sk_timer_reload := ucast v \<rparr>) s1
               else s1)
         else upd_sound n (\<lambda>c. c\<lparr> sc_len := push_bit 2 (v AND 0x001FFFFF) \<rparr>) s)
      else if base = 0x04000500 then
        s\<lparr> sp_cnt := ucast v AND 0xBF7F, sp_master := full_127 (ucast (v AND 0x7F)) \<rparr>
      else if base = 0x04000504 then s\<lparr> sp_bias := ucast v AND 0x3FF \<rparr>
      else if base = 0x04000508 then upd_cap 1 (cap_set_cnt (ucast (drop_bit 8 v))) (upd_cap 0 (cap_set_cnt (ucast v)) s)
      else if base = 0x04000510 then upd_cap 0 (\<lambda>k. k\<lparr> sk_dst := v AND 0x07FFFFFC \<rparr>) s
      else if base = 0x04000514 then upd_cap 0 (\<lambda>k. k\<lparr> sk_len := cap_length v \<rparr>) s
      else if base = 0x04000518 then upd_cap 1 (\<lambda>k. k\<lparr> sk_dst := v AND 0x07FFFFFC \<rparr>) s
      else if base = 0x0400051C then upd_cap 1 (\<lambda>k. k\<lparr> sk_len := cap_length v \<rparr>) s
      else s)"

definition spu_write :: "'w spu_env \<Rightarrow> u64 \<Rightarrow> u32 \<Rightarrow> nat \<Rightarrow> u32 \<Rightarrow> 'w spu \<Rightarrow> 'w spu" where
  "spu_write env now addr width v s0 =
     (let s = run_to env now s0; base = addr AND NOT 3; shift = unat ((addr AND 3) * 8);
          m = push_bit shift (if width = 16 then 0xFFFF else 0xFF);
          w = (if width = 32 then v else (reg_image s base AND NOT m) OR (push_bit shift v AND m))
      in reg_write base w s)"

end
