(* ===== verification/SpuRing.thy ===== *)
theory SpuRing imports SpuMix begin

text \<open>
  The sound unit's output and its clock: the ring holds the last frames that were pushed, in order,
  and the mixer makes exactly the samples that are due.
\<close>

section \<open>A queue that forgets its oldest\<close>

locale lossy_queue =
  fixes ok :: "'q \<Rightarrow> bool" and contents :: "'q \<Rightarrow> 'a list" and put :: "'a \<Rightarrow> 'q \<Rightarrow> 'q" and cap :: nat
  assumes put_ok: "ok q \<Longrightarrow> ok (put v q)"
    and bounded: "ok q \<Longrightarrow> length (contents q) \<le> cap"
    and put_contents: "ok q \<Longrightarrow> contents (put v q) = (if length (contents q) = cap then tl (contents q @ [v]) else contents q @ [v])"
begin

lemma put_all_ok: "ok q \<Longrightarrow> ok (fold put vs q)"
  by (induction vs arbitrary: q) (simp_all add: put_ok)

lemma put_one: "ok q \<Longrightarrow> contents (put v q) = drop (length (contents q @ [v]) - cap) (contents q @ [v])"
  using bounded [of q] by (cases "length (contents q) = cap") (simp_all add: put_contents drop_Suc del: drop_append)

lemma put_all_contents:
  "ok q \<Longrightarrow> contents (fold put vs q) = drop (length (contents q @ vs) - cap) (contents q @ vs)"
proof (induction vs arbitrary: q)
  case Nil
  then show ?case using bounded [of q] by simp
next
  case (Cons v vs)
  define xs where "xs = contents q @ [v]"
  have "contents (fold put (v # vs) q) = drop (length (drop (length xs - cap) xs @ vs) - cap) (drop (length xs - cap) xs @ vs)"
    using Cons put_ok by (simp add: put_one xs_def del: drop_append)
  also have "drop (length xs - cap) xs @ vs = drop (length xs - cap) (xs @ vs)" by simp
  also have "drop (length (drop (length xs - cap) (xs @ vs)) - cap) (drop (length xs - cap) (xs @ vs)) =
      drop (length (xs @ vs) - cap) (xs @ vs)"
    unfolding drop_drop length_drop length_append by (rule arg_cong [where f = "\<lambda>n. drop n (xs @ vs)"]) linarith
  also have "xs @ vs = contents q @ v # vs" by (simp add: xs_def)
  finally show ?case .
qed

end

section \<open>The ring\<close>

definition ring_ok :: "'w spu \<Rightarrow> bool" where
  "ring_ok s \<longleftrightarrow> sp_rd s < RING_FRAMES \<and> sp_wr s < RING_FRAMES"

definition ring_frames :: "'w spu \<Rightarrow> (u16 \<times> u16) list" where
  "ring_frames s = map (\<lambda>i. sp_ring s ((sp_rd s + i) mod RING_FRAMES)) [0..<ring_available s]"

lemma available_cases:
  assumes "ring_ok s"
  shows "ring_available s = (if sp_rd s \<le> sp_wr s then sp_wr s - sp_rd s else sp_wr s + RING_FRAMES - sp_rd s)"
proof (cases "sp_rd s \<le> sp_wr s")
  case True
  then have "sp_wr s + RING_FRAMES - sp_rd s = (sp_wr s - sp_rd s) + RING_FRAMES" by simp
  moreover have "sp_wr s - sp_rd s < RING_FRAMES" using assms by (simp add: ring_ok_def less_imp_diff_less)
  ultimately show ?thesis using True by (simp only: ring_available_def mod_add_self2) simp
next
  case False
  then have "sp_wr s + RING_FRAMES - sp_rd s < RING_FRAMES" using assms by (simp add: ring_ok_def) linarith
  then show ?thesis using False by (simp only: ring_available_def mod_less) simp
qed

lemma available_below: "ring_ok s \<Longrightarrow> ring_available s \<le> 16383"
  by (auto simp: available_cases ring_ok_def RING_FRAMES_def)

lemma rd_plus_available: "ring_ok s \<Longrightarrow> (sp_rd s + ring_available s) mod RING_FRAMES = sp_wr s"
  by (auto simp: available_cases ring_ok_def)

lemma ring_slot_eq:
  fixes a :: nat
  assumes "(a + i) mod n = (a + j) mod n" "i < n" "j < n"
  shows "i = j"
proof -
  have "(a + i) mod n = (a + j) mod n \<Longrightarrow> i < n \<Longrightarrow> j < n \<Longrightarrow> i \<le> j \<Longrightarrow> i = j" for i j
  proof -
    assume "(a + i) mod n = (a + j) mod n" "i < n" "j < n" "i \<le> j"
    then have "n dvd j - i" using mod_eq_dvd_iff_nat [of "a + i" "a + j" n] by simp
    moreover have "j - i < n" using \<open>j < n\<close> by simp
    ultimately show "i = j" using \<open>i \<le> j\<close> by (auto dest: dvd_imp_le)
  qed
  from this [of i j] this [of j i] assms show ?thesis by (cases "i \<le> j") auto
qed

text \<open>Taking the next slot, in either direction.\<close>

lemma next_slot: "a < 16384 \<Longrightarrow> Suc a mod 16384 = (if a = 16383 then 0 else Suc a)"
  by auto

lemma push_frames:
  assumes ok: "ring_ok s"
  shows "ring_ok (ring_push f s)"
    "ring_frames (ring_push f s) = (if length (ring_frames s) = 16383 then tl (ring_frames s @ [f]) else ring_frames s @ [f])"
proof -
  show ok': "ring_ok (ring_push f s)" using ok by (simp add: ring_push_def ring_ok_def Let_def RING_FRAMES_def)
  let ?n = "ring_available s" and ?w = "(sp_wr s + 1) mod RING_FRAMES" and ?r = "(sp_ring s)(sp_wr s := f)"
  have n: "?n \<le> 16383" using available_below [OF ok] .
  have slot: "(sp_rd s + i) mod RING_FRAMES = sp_wr s \<longleftrightarrow> i = ?n" if "i \<le> 16383" for i
    using rd_plus_available [OF ok] ring_slot_eq [of "sp_rd s" i RING_FRAMES ?n] n that by (auto simp: RING_FRAMES_def)
  have full: "?w = sp_rd s \<longleftrightarrow> ?n = 16383"
    using ok by (auto simp: available_cases ring_ok_def next_slot RING_FRAMES_def)
  have same: "map (\<lambda>i. ?r ((sp_rd s + i) mod RING_FRAMES)) [0..<Suc ?n] = ring_frames s @ [f]"
    using slot n by (auto simp: ring_frames_def)
  show "ring_frames (ring_push f s) = (if length (ring_frames s) = 16383 then tl (ring_frames s @ [f]) else ring_frames s @ [f])"
  proof (cases "?n = 16383")
    case True
    let ?s = "ring_push f s"
    have s: "sp_ring ?s = ?r" "sp_rd ?s = (sp_rd s + 1) mod RING_FRAMES" "sp_wr ?s = sp_rd s"
      using True full by (simp_all add: ring_push_def Let_def)
    have "ring_available ?s = 16383"
      using ok by (cases "sp_rd s = 16383") (auto simp: ring_available_def s next_slot ring_ok_def RING_FRAMES_def)
    then have "ring_frames ?s = map (\<lambda>i. ?r ((sp_rd s + Suc i) mod RING_FRAMES)) [0..<?n]"
      using True by (simp add: ring_frames_def s mod_simps)
    also have "\<dots> = tl (map (\<lambda>i. ?r ((sp_rd s + i) mod RING_FRAMES)) [0..<Suc ?n])"
      by (simp add: upt_conv_Cons map_Suc_upt [symmetric] del: upt_Suc) 
    finally show ?thesis unfolding same using True by (simp add: ring_frames_def)
  next
    case False
    let ?s = "ring_push f s"
    have s: "sp_ring ?s = ?r" "sp_rd ?s = sp_rd s" "sp_wr ?s = ?w"
      using False full by (simp_all add: ring_push_def Let_def)
    have "ring_available ?s = Suc ?n"
      using available_cases [OF ok'] available_cases [OF ok] ok False
      by (auto simp: s ring_ok_def next_slot RING_FRAMES_def split: if_splits)
    then have "ring_frames ?s = map (\<lambda>i. ?r ((sp_rd s + i) mod RING_FRAMES)) [0..<Suc ?n]" by (simp add: ring_frames_def s)
    then show ?thesis unfolding same using False by (simp add: ring_frames_def)
  qed
qed

interpretation ring: lossy_queue ring_ok ring_frames ring_push 16383
proof unfold_locales
  fix s :: "'w spu" and f
  assume ok: "ring_ok s"
  show "ring_ok (ring_push f s)" "length (ring_frames s) \<le> 16383"
    "ring_frames (ring_push f s) = (if length (ring_frames s) = 16383 then tl (ring_frames s @ [f]) else ring_frames s @ [f])"
    using push_frames [OF ok] available_below [OF ok] by (simp_all add: ring_frames_def)
qed

text \<open>Taking gives the oldest frames.\<close>

lemma take_frames:
  "ring_ok s \<Longrightarrow> fst (ring_take n s) = take n (ring_frames s) \<and> ring_ok (snd (ring_take n s)) \<and>
    ring_frames (snd (ring_take n s)) = drop n (ring_frames s)"
proof (induction n arbitrary: s)
  case (Suc n)
  note ok = Suc.prems
  show ?case
  proof (cases "sp_rd s = sp_wr s")
    case True
    then have "ring_frames s = []" using ok by (simp add: ring_frames_def available_cases)
    then show ?thesis using True ok by simp
  next
    case False
    let ?s = "s\<lparr> sp_rd := (sp_rd s + 1) mod RING_FRAMES \<rparr>"
    have ok': "ring_ok ?s" using ok by (simp add: ring_ok_def RING_FRAMES_def)
    have n: "ring_available s = Suc (ring_available ?s)"
      using available_cases [OF ok'] available_cases [OF ok] ok False
      by (auto simp: ring_ok_def next_slot RING_FRAMES_def split: if_splits)
    have "ring_frames s = sp_ring s (sp_rd s) # ring_frames ?s"
    proof -
      have "ring_frames s = map (\<lambda>i. sp_ring s ((sp_rd s + i) mod RING_FRAMES)) (0 # map Suc [0..<ring_available ?s])"
        unfolding ring_frames_def n by (simp add: upt_conv_Cons map_Suc_upt [symmetric] del: upt_Suc)
      also have "\<dots> = sp_ring s (sp_rd s) # ring_frames ?s"
        using ok by (simp add: ring_frames_def ring_ok_def mod_simps comp_def)
      finally show ?thesis .
    qed
    then show ?thesis using Suc.IH [OF ok'] False by (simp add: split_beta)
  qed
qed simp

text \<open>C21: whatever the frontend takes after any number of samples were mixed are the oldest of the last
  16383 frames, in order: the ring loses none before it is full and then only its oldest.\<close>

theorem output_in_order:
  assumes "ring_ok s"
  shows "fst (ring_take n (fold ring_push fs s)) = take n (drop (length (ring_frames s @ fs) - 16383) (ring_frames s @ fs))"
  using take_frames [OF ring.put_all_ok [OF assms]] ring.put_all_contents [OF assms] by simp

section \<open>The samples that are due\<close>

definition mix_tick :: "'w spu_env \<Rightarrow> 'w spu \<Rightarrow> 'w spu" where
  "mix_tick env s = (let s1 = mix env s in s1\<lparr> sp_mix_at := sp_mix_at s1 + ucast (sp_mix_period s1) \<rparr>)"

definition clock_ok :: "'w spu \<Rightarrow> bool" where
  "clock_ok s \<longleftrightarrow> sp_mix_period s = 2048 \<or> sp_mix_period s = 1408"

lemma tick_fields: "sp_batch (mix_tick env s) = sp_batch s" "sp_mix_period (mix_tick env s) = sp_mix_period s" "sp_mix_at (mix_tick env s) = sp_mix_at s + ucast (sp_mix_period s)"
  using mix_clock [of env s] by (simp_all add: mix_tick_def Let_def same_clock_def)

lemma period_step:
  assumes "clock_ok s" "unat (sp_mix_at s) < 2 ^ 63"
  shows "unat (sp_mix_at s + ucast (sp_mix_period s)) = unat (sp_mix_at s) + unat (sp_mix_period s)" "0 < unat (sp_mix_period s)"
  using assms by (auto simp: clock_ok_def unat_word_ariths)

text \<open>How many samples fall due by a time.\<close>

definition samples_due :: "'w spu \<Rightarrow> u64 \<Rightarrow> nat" where
  "samples_due s t = (if t < sp_mix_at s then 0 else (unat t - unat (sp_mix_at s)) div unat (sp_mix_period s) + 1)"

lemma run_to_ticks:
  assumes "clock_ok s" "unat t < 2 ^ 62"
  shows "run_to env t s = (mix_tick env ^^ samples_due s t) s \<and> sp_mix_period (run_to env t s) = sp_mix_period s \<and>
    (sp_mix_at s \<le> t \<longrightarrow> unat t < unat (sp_mix_at (run_to env t s)) \<and> unat (sp_mix_at (run_to env t s)) \<le> unat t + unat (sp_mix_period s))"
  using assms
proof (induction env t s rule: run_to.induct)
  case (1 env t s)
  show ?case
  proof (cases "t < sp_mix_at s")
    case True
    then show ?thesis by (subst (1 2 3 4) run_to.simps) (simp add: samples_due_def not_le [symmetric])
  next
    case False
    let ?s = "mix_tick env s" and ?p = "unat (sp_mix_period s)"
    have at: "unat (sp_mix_at s) \<le> unat t" using False by (simp add: word_less_nat_alt)
    then have at63: "unat (sp_mix_at s) < 2 ^ 63" using "1.prems"(2) by simp
    note p = period_step [OF "1.prems"(1) at63]
    have ok: "clock_ok ?s" using "1.prems"(1) by (simp add: clock_ok_def tick_fields)
    have go: "\<not> (t < sp_mix_at s \<or> sp_mix_at s + ucast (sp_mix_period s) \<le> sp_mix_at s)"
      using False p by (simp add: word_le_nat_alt)
    then have r: "run_to env t s = run_to env t ?s" by (subst run_to.simps) (simp add: mix_tick_def Let_def)
    have ih: "run_to env t ?s = (mix_tick env ^^ samples_due ?s t) ?s \<and> sp_mix_period (run_to env t ?s) = sp_mix_period ?s \<and>
        (sp_mix_at ?s \<le> t \<longrightarrow> unat t < unat (sp_mix_at (run_to env t ?s)) \<and> unat (sp_mix_at (run_to env t ?s)) \<le> unat t + unat (sp_mix_period ?s))"
    proof -
      have s: "(mix env s)\<lparr> sp_mix_at := sp_mix_at (mix env s) + ucast (sp_mix_period (mix env s)) \<rparr> = ?s"
        by (simp add: mix_tick_def Let_def)
      show ?thesis by (rule "1.IH" [OF go refl, unfolded s, OF ok "1.prems"(2)])
    qed
    have n: "samples_due s t = Suc (samples_due ?s t)"
    proof (cases "t < sp_mix_at ?s")
      case True
      then have "unat t - unat (sp_mix_at s) < ?p" using p at by (simp add: tick_fields word_less_nat_alt)
      then show ?thesis using True False by (simp add: samples_due_def)
    next
      case f: False
      then have "unat (sp_mix_at s) + ?p \<le> unat t" using p by (simp add: tick_fields word_less_nat_alt)
      then have "(unat t - unat (sp_mix_at s)) div ?p = Suc ((unat t - (unat (sp_mix_at s) + ?p)) div ?p)"
        using p(2) by (subst le_div_geq) simp_all
      then show ?thesis using f False p by (simp add: samples_due_def tick_fields)
    qed
    have low: "\<not> sp_mix_at ?s \<le> t \<Longrightarrow> run_to env t ?s = ?s" by (subst run_to.simps) (simp add: not_le)
    have "unat t < unat (sp_mix_at (run_to env t ?s)) \<and> unat (sp_mix_at (run_to env t ?s)) \<le> unat t + ?p"
    proof (cases "sp_mix_at ?s \<le> t")
      case True
      then show ?thesis using ih unfolding tick_fields by blast
    next
      case False
      then show ?thesis using low p at by (simp add: tick_fields word_le_nat_alt)
    qed
    moreover have "(mix_tick env ^^ samples_due ?s t) ?s = (mix_tick env ^^ samples_due s t) s" unfolding n by (simp add: funpow_swap1)
    ultimately show ?thesis using r ih tick_fields(2) [of env s] by metis
  qed
qed

text \<open>C22: the mixer makes a sample for every period that has begun by the time it is run to, no more and no
  fewer, and the next one is due within a period after that time.\<close>

theorem samples_due_exact:
  assumes "clock_ok s" "unat t < 2 ^ 62" "sp_mix_at s \<le> t"
  shows "run_to env t s = (mix_tick env ^^ ((unat t - unat (sp_mix_at s)) div unat (sp_mix_period s) + 1)) s \<and>
    unat t < unat (sp_mix_at (run_to env t s)) \<and> unat (sp_mix_at (run_to env t s)) \<le> unat t + unat (sp_mix_period s)"
proof -
  have d: "samples_due s t = (unat t - unat (sp_mix_at s)) div unat (sp_mix_period s) + 1"
    using assms(3) by (simp add: samples_due_def not_less [symmetric])
  show ?thesis using run_to_ticks [OF assms(1,2), of env] assms(3) unfolding d by blast
qed

lemma ticks_batch: "sp_batch ((mix_tick env ^^ k) s) = sp_batch s"
  by (induction k) (simp_all add: tick_fields)

text \<open>The event asks to be fired later than the time it is fired at.\<close>

lemma mix_event_later:
  assumes "clock_ok s" "unat t < 2 ^ 62" "sp_mix_at s \<le> t" "sp_batch s = 1 \<or> sp_batch s = 16"
  shows "t < fst (ev_mix env t s)"
proof -
  let ?s = "run_to env t s"
  have k: "unat t < unat (sp_mix_at ?s)" "unat (sp_mix_at ?s) \<le> unat t + unat (sp_mix_period s)" "sp_mix_period ?s = sp_mix_period s"
    using run_to_ticks [OF assms(1,2), of env] assms(3) by blast+
  define m where "m = ((if tst (sk_cnt (sp_cap ?s 0) OR sk_cnt (sp_cap ?s 1)) 0x80 then 1 else sp_batch ?s) - 1) * sp_mix_period ?s"
  have "sp_batch ?s = sp_batch s" using run_to_ticks [OF assms(1,2), of env] ticks_batch by metis
  then have "m = 0 \<or> m = 15 * sp_mix_period s" using assms(4) k(3) by (auto simp: m_def)
  then have "unat (ucast m :: u64) \<le> 30720" using assms(1) by (auto simp: clock_ok_def)
  moreover have "unat (sp_mix_at ?s) < 2 ^ 63" using k(2) assms(1,2) by (auto simp: clock_ok_def)
  ultimately have "unat (sp_mix_at ?s + ucast m) = unat (sp_mix_at ?s) + unat (ucast m :: u64)" by (simp add: unat_word_ariths)
  moreover have "fst (ev_mix env t s) = sp_mix_at ?s + ucast m" by (simp add: ev_mix_def Let_def m_def)
  ultimately show ?thesis using k(1) by (simp add: word_less_nat_alt)
qed

section \<open>Instances\<close>

definition silent_env :: "unit spu_env" where
  "silent_env = \<lparr> se_read32 = (\<lambda>a w. (0, w)), se_write32 = (\<lambda>a v w. w), se_dsi = False, se_mic_clock = (\<lambda>t w. w) \<rparr>"

definition blank_spu :: "unit spu" where
  "blank_spu = \<lparr> sp_ch = (\<lambda>_. silent_channel), sp_cap = (\<lambda>_. new_capture), sp_cnt = 0, sp_bias = 0, sp_master = 0,
     sp_muted = True, sp_mix_at = 2048, sp_mix_period = MIX_PERIOD, sp_timer_step = TIMER_STEP, sp_apply_bias = True,
     sp_batch = 16, sp_ring = (\<lambda>_. (0, 0)), sp_rd = 16383, sp_wr = 16383, sp_overruns = 0, sp_sndexcnt = 0, sp_w = () \<rparr>"

text \<open>Three frames across the end of the ring, of which two are taken.\<close>

theorem output_in_order_witness:
  "fst (ring_take 2 (fold ring_push [(1, 2), (3, 4), (5, 6)] blank_spu)) = [(1, 2), (3, 4)]"
proof -
  have ok: "ring_ok blank_spu" and e: "ring_frames blank_spu = []"
    by (simp_all add: blank_spu_def ring_ok_def ring_frames_def ring_available_def RING_FRAMES_def)
  show ?thesis using output_in_order [OF ok, of 2 "[(1, 2), (3, 4), (5, 6)]"] by (simp add: e)
qed

text \<open>A unit run to the start of its third period makes three samples.\<close>

theorem samples_due_exact_witness:
  "run_to silent_env 6144 blank_spu = (mix_tick silent_env ^^ 3) blank_spu"
proof -
  have "clock_ok blank_spu" "sp_mix_at blank_spu \<le> 6144" "sp_mix_at blank_spu = 2048" "sp_mix_period blank_spu = 2048"
    by (simp_all add: blank_spu_def clock_ok_def MIX_PERIOD_def)
  then show ?thesis using samples_due_exact [of blank_spu 6144 silent_env] by (simp add: numeral_3_eq_3)
qed

end
