(* ===== verification/SpuBounds.thy ===== *)
theory SpuBounds imports SpuRing begin

text \<open>
  The values of the sound unit stay in range: the step table is never read past its end, decoder
  state fits a sample, and no sum of the mixer leaves a signed 32-bit integer, in every state the
  registers and the mixer can reach.
\<close>

section \<open>Channels\<close>

definition level_ok :: "spu_channel \<Rightarrow> bool" where
  "level_ok c \<longleftrightarrow> sc_volume c \<le> 128 \<and> sc_vol_shift c \<le> 4 \<and> sc_pan c \<le> 128"

definition decoder_ok :: "spu_channel \<Rightarrow> bool" where
  "decoder_ok c \<longleftrightarrow> sc_adpcm_idx c \<in> {0..88} \<and> sc_adpcm_idx_loop c \<in> {0..88} \<and>
     sc_adpcm_val c \<in> {-0x8000..0x7FFF} \<and> sc_adpcm_val_loop c \<in> {-0x8000..0x7FFF}"

definition sound_ok :: "spu_channel \<Rightarrow> bool" where
  "sound_ok c \<longleftrightarrow> level_ok c \<and> decoder_ok c"

lemma level_ok_setup: "same_setup d c \<Longrightarrow> level_ok d = level_ok c"
  by (simp add: same_setup_def level_ok_def)

lemma decoder_ok_update [simp]:
  "decoder_ok (c\<lparr> sc_pos := p \<rparr>) = decoder_ok c" "decoder_ok (c\<lparr> sc_cur := u \<rparr>) = decoder_ok c"
  "decoder_ok (c\<lparr> sc_cnt := q \<rparr>) = decoder_ok c" "decoder_ok (c\<lparr> sc_noise := u \<rparr>) = decoder_ok c"
  "decoder_ok (c\<lparr> sc_adpcm_byte := b \<rparr>) = decoder_ok c" "decoder_ok (c\<lparr> sc_timer := p \<rparr>) = decoder_ok c"
  "decoder_ok (c\<lparr> sc_fifo := f \<rparr>) = decoder_ok c" "decoder_ok (c\<lparr> sc_fifo_rd := p \<rparr>) = decoder_ok c"
  "decoder_ok (c\<lparr> sc_fifo_wr := p \<rparr>) = decoder_ok c" "decoder_ok (c\<lparr> sc_fifo_off := p \<rparr>) = decoder_ok c"
  "decoder_ok (c\<lparr> sc_fifo_level := p \<rparr>) = decoder_ok c" "decoder_ok (c\<lparr> sc_key_on := b1 \<rparr>) = decoder_ok c"
  by (simp_all add: decoder_ok_def)

lemma fill_words_decoder: "decoder_ok (fst (fill_words env b n (c, w))) = decoder_ok c"
  by (induction n arbitrary: c w) (simp_all add: split_beta Let_def)

lemma fifo_fill_decoder: "decoder_ok (fst (fifo_fill env (c, w))) = decoder_ok c"
  by (simp add: fifo_fill_def split_beta Let_def fill_words_decoder)

lemma sample_read_decoder [simp]: "decoder_ok (fst (snd (sample_read env k (c, w)))) = decoder_ok c"
  by (simp add: sample_read_def Let_def fifo_fill_decoder)

lemma start_decoder: "decoder_ok (fst (start_channel env (c, w))) = decoder_ok c"
proof -
  have "decoder_ok (fst (fifo_fill env p)) = decoder_ok (fst p)" for p using fifo_fill_decoder [of env "fst p" "snd p"] by simp
  then show ?thesis by (simp add: start_channel_def Let_def)
qed

text \<open>The decoder: a step changes the value by less than twice the table's last entry.\<close>

lemma table_bounds: "i < 89 \<Longrightarrow> ADPCM_TABLE ! i \<le> 0x7FFF"
proof -
  assume "i < 89"
  then have "ADPCM_TABLE ! i \<in> set ADPCM_TABLE" by (intro nth_mem) (simp add: ADPCM_TABLE_def)
  moreover have "list_all (\<lambda>n. n \<le> 0x7FFF) ADPCM_TABLE" by (simp add: ADPCM_TABLE_def)
  ultimately show ?thesis by (simp add: list_all_iff)
qed

lemma diff_bounds: "i \<in> {0..88} \<Longrightarrow> adpcm_diff i b \<in> {0..0xFFFF}"
proof -
  assume "i \<in> {0..88}"
  then have "ADPCM_TABLE ! nat i \<le> 0x7FFF" by (intro table_bounds) (simp add: nat_less_iff)
  then have "0 \<le> int (ADPCM_TABLE ! nat i)" "int (ADPCM_TABLE ! nat i) \<le> 0x7FFF" by simp_all
  moreover from this have "int (ADPCM_TABLE ! nat i) div 8 \<in> {0..0x0FFF}" "int (ADPCM_TABLE ! nat i) div 4 \<in> {0..0x1FFF}"
    "int (ADPCM_TABLE ! nat i) div 2 \<in> {0..0x3FFF}" by auto
  ultimately show ?thesis by (auto simp: adpcm_diff_def Let_def)
qed

lemma decode_ok: "decoder_ok c \<Longrightarrow> decoder_ok (adpcm_decode c)"
  using diff_bounds [of "sc_adpcm_idx c" "sc_adpcm_byte c"] by (auto simp: adpcm_decode_def decoder_ok_def Let_def)

lemma header_ok: "decoder_ok (adpcm_header bs c)"
proof -
  have "sint (u :: u16) \<in> {-0x8000..0x7FFF}" for u using sint_greater_eq [of u] sint_lt [of u] by simp
  moreover have "0 \<le> uint (u :: u8)" for u by simp
  ultimately show ?thesis by (auto simp: adpcm_header_def decoder_ok_def Let_def)
qed

lemma cur_decoder: "decoder_ok (fst (set_cur_adpcm (c, w))) = decoder_ok c"
  by (simp add: set_cur_adpcm_def)

lemma next_adpcm_ok: "decoder_ok c \<Longrightarrow> decoder_ok (fst (next_adpcm env (c, w)))"
proof -
  assume ok: "decoder_ok c"
  have "decoder_ok (c\<lparr> sc_pos := p, sc_adpcm_val := sc_adpcm_val_loop c, sc_adpcm_idx := sc_adpcm_idx_loop c \<rparr>)" for p
    using ok by (simp add: decoder_ok_def)
  then show ?thesis
    using ok by (simp add: next_adpcm_def split_beta Let_def cur_decoder header_ok decode_ok stop_channel_def)
qed

lemma step_ok: "decoder_ok c \<Longrightarrow> decoder_ok (fst (sample_step env i fmt (c, w)))"
  by (simp add: sample_step_def next_adpcm_ok)
    (simp add: next_pcm8_def next_pcm16_def next_noise_def next_psg_def stop_channel_def split_beta Let_def)

lemma loop_ok: "decoder_ok (fst cw) \<Longrightarrow> decoder_ok (fst (channel_loop env i fmt cw)) \<and> level_ok (fst (channel_loop env i fmt cw)) = level_ok (fst cw)"
proof (induction env i fmt cw rule: channel_loop.induct)
  case (1 env i fmt cw)
  obtain c w where cw: "cw = (c, w)" by (cases cw)
  let ?c = "c\<lparr> sc_timer := ucast (sc_timer_reload c) + (sc_timer c - 0x10000) \<rparr>"
  let ?r = "sample_step env i fmt (?c, w)"
  have r: "decoder_ok (fst ?r)" "level_ok (fst ?r) = level_ok c"
    using "1.prems" step_ok [of ?c env i fmt w] level_ok_setup [OF sample_step_setup, of env i fmt "(?c, w)"]
    by (simp_all add: cw level_ok_def)
  show ?case
  proof (cases "drop_bit 16 (sc_timer c) = 0")
    case True
    then show ?thesis using "1.prems" cw by (simp add: channel_loop.simps [of env i fmt "(c, w)"])
  next
    case False
    then have e: "channel_loop env i fmt cw = (if channel_on (fst ?r) then channel_loop env i fmt ?r else ?r)"
      by (simp add: channel_loop.simps [of env i fmt "(c, w)"] cw Let_def)
    have f: "drop_bit 16 (sc_timer (fst cw)) \<noteq> 0" using False cw by simp
    note ih = "1.IH" [OF f refl cw [symmetric] refl _ r(1)]
    show ?thesis unfolding e using ih r cw by auto
  qed
qed

lemma level_bounds: "level_ok c \<Longrightarrow> channel_level c \<in> {- (2 ^ 26)..2 ^ 26}"
proof -
  assume ok: "level_ok c"
  have c: "\<bar>sint (sc_cur c)\<bar> \<le> 2 ^ 15" using sint_greater_eq [of "sc_cur c"] sint_lt [of "sc_cur c"] by simp
  have s: "\<bar>(2 :: int) ^ unat (sc_vol_shift c)\<bar> \<le> 2 ^ 4"
    using ok power_increasing [of "unat (sc_vol_shift c)" 4 "2 :: int"] by (simp add: level_ok_def word_le_nat_alt)
  have v: "\<bar>uint (sc_volume c)\<bar> \<le> 2 ^ 7" using ok by (simp add: level_ok_def word_le_def)
  have "\<bar>channel_level c\<bar> \<le> (2 ^ 15 * 2 ^ 4) * 2 ^ 7"
    unfolding channel_level_def abs_mult by (intro mult_mono c s v) simp_all
  then show ?thesis by (simp add: abs_le_iff)
qed

lemma run_sound_ok:
  assumes "sound_ok c"
  shows "sound_ok (fst (snd (run_sound env i n (c, w)))) \<and> fst (run_sound env i n (c, w)) \<in> {- (2 ^ 26)..2 ^ 26}"
proof -
  define cw1 where "cw1 = (if sc_key_on c then (let (k, v) = start_channel env (c, w) in (k\<lparr> sc_key_on := False \<rparr>, v)) else (c, w))"
  obtain c1 w1 where cw1': "cw1 = (c1, w1)" by (cases cw1)
  let ?r = "channel_loop env i (sc_format c) (c1\<lparr> sc_timer := sc_timer c1 + n \<rparr>, w1)"
  have same: "decoder_ok (fst (start_channel env (c, w))) = decoder_ok c" "level_ok (fst (start_channel env (c, w))) = level_ok c"
  proof -
    show "decoder_ok (fst (start_channel env (c, w))) = decoder_ok c" by (rule start_decoder)
    have f: "level_ok (fst (fifo_fill env p)) = level_ok (fst p)" for p
      using fifo_fill_same(1) [of env "fst p" "snd p" "fst p"] level_ok_setup by simp
    show "level_ok (fst (start_channel env (c, w))) = level_ok c" by (simp add: start_channel_def Let_def f) (simp add: level_ok_def)
  qed
  have "fst cw1 = c1" by (simp add: cw1')
  then have "decoder_ok c1 \<and> level_ok c1"
    using same assms unfolding cw1_def sound_ok_def by (auto simp: split_beta level_ok_def split: if_splits)
  then have ok: "decoder_ok (fst ?r)" "level_ok (fst ?r)"
    using loop_ok [of "(c1\<lparr> sc_timer := sc_timer c1 + n \<rparr>, w1)" env i "sc_format c"] by (simp_all add: level_ok_def)
  have "run_sound env i n (c, w) = (if \<not> channel_on c \<or> sc_format c < 3 \<and> sc_total c < 16 then (0, c, w)
      else (channel_level (fst ?r), ?r))"
  proof (cases "sc_key_on c")
    case True
    then have "c1 = (fst (start_channel env (c, w)))\<lparr> sc_key_on := False \<rparr>" "w1 = snd (start_channel env (c, w))"
      using cw1' by (auto simp: cw1_def split_beta)
    then show ?thesis using True by (simp add: run_sound_def Let_def split_beta)
  next
    case False
    then have "c1 = c" "w1 = w" using cw1' by (auto simp: cw1_def)
    then show ?thesis using False by (simp add: run_sound_def Let_def split_beta)
  qed
  then show ?thesis using assms ok level_bounds [of "fst ?r"] by (simp add: sound_ok_def)
qed

section \<open>The mixer\<close>

definition spu_ok :: "'w spu \<Rightarrow> bool" where
  "spu_ok s \<longleftrightarrow> (\<forall>i. sound_ok (sp_ch s i))"

definition pair_within :: "int \<Rightarrow> int \<times> int \<Rightarrow> bool" where
  "pair_within b lr \<longleftrightarrow> \<bar>fst lr\<bar> \<le> b \<and> \<bar>snd lr\<bar> \<le> b"

lemma scaled_bounds:
  fixes v p :: int
  assumes "\<bar>v\<bar> \<le> 2 ^ 26" "0 \<le> p" "p \<le> 128"
  shows "\<bar>(v * p) div 1024\<bar> \<le> 2 ^ 23"
proof -
  have "\<bar>v * p\<bar> \<le> 2 ^ 26 * 128" unfolding abs_mult by (intro mult_mono) (use assms in simp_all)
  then have "- (2 ^ 33) \<le> v * p" "v * p \<le> 2 ^ 33" by (simp_all add: abs_le_iff)
  then have "- (2 ^ 23) \<le> (v * p) div 1024" "(v * p) div 1024 \<le> 2 ^ 23" by simp_all
  then show ?thesis by (simp add: abs_le_iff)
qed

lemma pan_range: "level_ok c \<Longrightarrow> 0 \<le> uint (sc_pan c) \<and> uint (sc_pan c) \<le> 128"
  by (simp add: level_ok_def word_le_def)

lemma pan_within:
  assumes "level_ok c" "\<bar>v\<bar> \<le> 2 ^ 26" "pair_within b lr"
  shows "pair_within (b + 2 ^ 23) (pan_out c v lr)"
  using scaled_bounds [OF assms(2), of "uint (sc_pan c)"] scaled_bounds [OF assms(2), of "128 - uint (sc_pan c)"]
    pan_range [OF assms(1)] assms(3) unfolding pair_within_def pan_out_def fst_conv snd_conv by linarith

lemma run_ch_ok:
  assumes "spu_ok s"
  shows "spu_ok (snd (run_ch env i s))" "\<bar>fst (run_ch env i s)\<bar> \<le> 2 ^ 26"
proof -
  have "sound_ok (sp_ch s i)" using assms by (simp add: spu_ok_def)
  note r = run_sound_ok [OF this, of env i "sp_timer_step s" "sp_w s"]
  show "spu_ok (snd (run_ch env i s))" using r assms by (simp add: run_ch_def split_beta Let_def spu_ok_def)
  show "\<bar>fst (run_ch env i s)\<bar> \<le> 2 ^ 26" using r by (simp add: run_ch_def split_beta Let_def abs_le_iff)
qed

lemma mix_channel_ok:
  assumes "spu_ok (fst st)" "pair_within b (snd st)" "0 \<le> b"
  shows "spu_ok (fst (mix_channel env i st)) \<and> pair_within (b + 2 ^ 23) (snd (mix_channel env i st))"
proof (cases "channel_on (sp_ch (fst st) i)")
  case True
  note r = run_ch_ok [OF assms(1), of env i]
  have "level_ok (sp_ch (snd (run_ch env i (fst st))) i)" using r(1) by (simp add: spu_ok_def sound_ok_def)
  then show ?thesis using True r pan_within [OF _ r(2) assms(2)] by (simp add: mix_channel_def split_beta Let_def)
next
  case False
  then show ?thesis using assms by (simp add: mix_channel_def split_beta Let_def pair_within_def)
qed

lemma mix_channels_ok:
  "spu_ok (fst st) \<Longrightarrow> pair_within b (snd st) \<Longrightarrow> 0 \<le> b \<Longrightarrow>
    spu_ok (fst (fold (mix_channel env) is st)) \<and> pair_within (b + int (length is) * 2 ^ 23) (snd (fold (mix_channel env) is st))"
proof (induction "is" arbitrary: st b)
  case (Cons i "is")
  note m = mix_channel_ok [OF Cons.prems, of env i]
  have "b + 2 ^ 23 + int (length is) * 2 ^ 23 = b + int (length (i # is)) * 2 ^ 23" by (simp add: algebra_simps)
  moreover have "0 \<le> b + 2 ^ 23" using Cons.prems(3) by simp
  ultimately show ?case using Cons.IH [of "mix_channel env i st" "b + 2 ^ 23"] m by (simp only: fold_Cons comp_apply)
qed simp

lemma capture_ok: "spu_ok (capture_step env v k s) = spu_ok s"
  by (simp add: capture_step_def split_beta Let_def spu_ok_def)

lemma side_within:
  assumes "\<bar>m\<bar> \<le> 2 ^ 27" "\<bar>c1\<bar> \<le> 2 ^ 26" "\<bar>c3\<bar> \<le> 2 ^ 26" "0 \<le> p1 \<and> p1 \<le> 128" "0 \<le> p3 \<and> p3 \<le> 128"
  shows "\<bar>side_out sel m c1 c3 p1 p3\<bar> \<le> 2 ^ 27"
proof -
  have "\<bar>x\<bar> \<le> 2 ^ 23 \<Longrightarrow> \<bar>y\<bar> \<le> 2 ^ 23 \<Longrightarrow> \<bar>x\<bar> \<le> 2 ^ 27 \<and> \<bar>x + y\<bar> \<le> 2 ^ 27" for x y :: int
    by (auto simp: abs_le_iff)
  from this [OF scaled_bounds [of c1 p1] scaled_bounds [of c3 p3]] this [OF scaled_bounds [of c3 p3] scaled_bounds [of c1 p1]]
  show ?thesis using assms by (simp add: side_out_def)
qed

lemma mix_sides_ok:
  assumes "spu_ok s"
  shows "spu_ok (snd (mix_sides env s)) \<and> pair_within (2 ^ 27) (fst (mix_sides env s))"
proof -
  obtain ch0 s0 where r0: "run_ch env 0 s = (ch0, s0)" by (meson surj_pair)
  obtain ch1 s1 where r1: "run_ch env 1 s0 = (ch1, s1)" by (meson surj_pair)
  obtain ch2 s2 where r2: "run_ch env 2 s1 = (ch2, s2)" by (meson surj_pair)
  obtain ch3 s3 where r3: "run_ch env 3 s2 = (ch3, s3)" by (meson surj_pair)
  note k0 = run_ch_ok [OF assms, of env 0, unfolded r0 fst_conv snd_conv]
  note k1 = run_ch_ok [OF k0(1), of env 1, unfolded r1 fst_conv snd_conv]
  note k2 = run_ch_ok [OF k1(1), of env 2, unfolded r2 fst_conv snd_conv]
  note k3 = run_ch_ok [OF k2(1), of env 3, unfolded r3 fst_conv snd_conv]
  note v = k0(2) k1(2) k2(2) k3(2) and ok = k0(1) k1(1) k2(1) k3(1)
  have lv: "level_ok (sp_ch s3 i)" for i using ok(4) by (simp add: spu_ok_def sound_ok_def)
  define lr2 where "lr2 = pan_out (sp_ch s3 2) ch2 (pan_out (sp_ch s3 0) ch0 (0, 0))"
  define lr1 where "lr1 = (if tst (sp_cnt s3) 0x1000 then lr2 else pan_out (sp_ch s3 1) ch1 lr2)"
  define lr where "lr = (if tst (sp_cnt s3) 0x2000 then lr1 else pan_out (sp_ch s3 3) ch3 lr1)"
  have wider: "pair_within b x \<Longrightarrow> pair_within (b + 2 ^ 23) x" for b x by (simp add: pair_within_def)
  have "pair_within 0 (0, 0)" by (simp add: pair_within_def)
  then have "pair_within (0 + 2 ^ 23) (pan_out (sp_ch s3 0) ch0 (0, 0))" by (rule pan_within [OF lv v(1)])
  then have "pair_within (0 + 2 ^ 23 + 2 ^ 23) lr2" unfolding lr2_def by (rule pan_within [OF lv v(3)])
  then have "pair_within (0 + 2 ^ 23 + 2 ^ 23 + 2 ^ 23) lr1"
    unfolding lr1_def using pan_within [OF lv v(2)] wider by (simp only: split: if_split) blast
  then have "pair_within (0 + 2 ^ 23 + 2 ^ 23 + 2 ^ 23 + 2 ^ 23) lr"
    unfolding lr_def using pan_within [OF lv v(4)] wider by (simp only: split: if_split) blast
  then have lr: "pair_within (2 ^ 25) lr" by simp
  obtain s4 a b where f: "fold (mix_channel env) [4..<16] (s3, lr) = (s4, a, b)" by (metis prod_cases3)
  have m: "spu_ok s4" "\<bar>a\<bar> \<le> 2 ^ 27" "\<bar>b\<bar> \<le> 2 ^ 27"
    using mix_channels_ok [of "(s3, lr)" "2 ^ 25" env "[4..<16]", unfolded f fst_conv snd_conv, OF ok(4) lr] by (simp_all add: pair_within_def)
  define s5 where "s5 = capture_step env b 1 (capture_step env a 0 s4)"
  have ok5: "spu_ok s5" using m(1) by (simp add: s5_def capture_ok)
  then have lv5: "level_ok (sp_ch s5 i)" for i by (simp add: spu_ok_def sound_ok_def)
  have e: "mix_sides env s = ((side_out (fld (sp_cnt s5) 8 3) a ch1 ch3 (128 - uint (sc_pan (sp_ch s5 1))) (128 - uint (sc_pan (sp_ch s5 3))),
      side_out (fld (sp_cnt s5) 10 3) b ch1 ch3 (uint (sc_pan (sp_ch s5 1))) (uint (sc_pan (sp_ch s5 3)))), s5)"
    unfolding mix_sides_def
    by (simp only: r0 r1 r2 r3 Let_def prod.case lr2_def [symmetric] lr1_def [symmetric] lr_def [symmetric] f s5_def [symmetric])
  have p: "0 \<le> uint (sc_pan (sp_ch s5 i))" "uint (sc_pan (sp_ch s5 i)) \<le> 128" for i using pan_range [OF lv5] by blast+
  show ?thesis
    unfolding e pair_within_def fst_conv snd_conv using ok5 p by (intro conjI side_within m v) simp_all
qed

section \<open>Reachable states\<close>

inductive spu_reachable :: "'w spu_env \<Rightarrow> 'w spu \<Rightarrow> bool" for env where
  reset: "spu_reachable env (spu_reset env now s)"
| reads: "spu_reachable env s \<Longrightarrow> spu_reachable env (snd (spu_read env now addr width s))"
| writes: "spu_reachable env s \<Longrightarrow> spu_reachable env (spu_write env now addr width v s)"
| event: "spu_reachable env s \<Longrightarrow> spu_reachable env (snd (ev_mix env now s))"
| powcnt2: "spu_reachable env s \<Longrightarrow> spu_reachable env (set_powcnt2 env now p s)"
| sndexcnt: "spu_reachable env s \<Longrightarrow> spu_reachable env (write_sndexcnt env now p m s)"
| take: "spu_reachable env s \<Longrightarrow> spu_reachable env (snd (ring_take n s))"
| drain: "spu_reachable env s \<Longrightarrow> spu_reachable env (ring_drain s)"

lemma spu_ok_update [simp]:
  "spu_ok (s\<lparr> sp_rd := n \<rparr>) = spu_ok s" "spu_ok (s\<lparr> sp_wr := n \<rparr>) = spu_ok s" "spu_ok (s\<lparr> sp_ring := g \<rparr>) = spu_ok s"
  "spu_ok (s\<lparr> sp_overruns := t \<rparr>) = spu_ok s" "spu_ok (s\<lparr> sp_w := x \<rparr>) = spu_ok s" "spu_ok (s\<lparr> sp_mix_at := t \<rparr>) = spu_ok s"
  "spu_ok (s\<lparr> sp_muted := b \<rparr>) = spu_ok s" "spu_ok (s\<lparr> sp_sndexcnt := h \<rparr>) = spu_ok s" "spu_ok (s\<lparr> sp_mix_period := u \<rparr>) = spu_ok s"
  "spu_ok (s\<lparr> sp_timer_step := u \<rparr>) = spu_ok s" "spu_ok (s\<lparr> sp_cnt := h \<rparr>) = spu_ok s" "spu_ok (s\<lparr> sp_master := v \<rparr>) = spu_ok s"
  "spu_ok (s\<lparr> sp_bias := h \<rparr>) = spu_ok s"
  by (simp_all add: spu_ok_def)

lemma push_ok [simp]: "spu_ok (ring_push f s) = spu_ok s"
  by (simp add: ring_push_def Let_def)

lemma take_ok: "spu_ok s \<Longrightarrow> spu_ok (snd (ring_take n s))"
  by (induction n arbitrary: s) (simp_all add: split_beta)

lemma mix_ok: "spu_ok s \<Longrightarrow> spu_ok (mix env s)"
  using mix_sides_ok [of s env] by (simp add: mix_def split_beta Let_def)

lemma run_to_ok: "spu_ok s \<Longrightarrow> spu_ok (run_to env t s)"
proof (induction env t s rule: run_to.induct)
  case (1 env t s)
  then show ?case using mix_ok [of s env] by (subst run_to.simps) (simp add: Let_def)
qed

lemma full_127_ok: "full_127 (ucast (k AND 0x7F :: u32)) \<le> 128"
proof -
  have "unat (k AND 0x7F) < 128" using unat_and_mask [of k 7] by (simp add: mask_eq_exp_minus_1)
  then have "unat (ucast (k AND 0x7F) :: u8) < 128" by (simp add: unsigned_ucast_eq take_bit_nat_eq_self)
  then show ?thesis by (simp add: full_127_def word_le_nat_alt)
qed

lemma vol_shifts_ok: "vol_shifts ! unat (fld (k :: u32) 8 3) \<le> 4"
proof -
  have "unat (fld k 8 3) < 4" using unat_and_mask [of "drop_bit 8 k" 2] by (simp add: fld_def mask_eq_exp_minus_1)
  then have "unat (fld k 8 3) \<in> {0, 1, 2, 3}" by auto
  then show ?thesis by (auto simp: vol_shifts_def)
qed

lemma set_cnt_ok: "sound_ok c \<Longrightarrow> sound_ok (set_cnt v c)"
proof -
  assume ok: "sound_ok c"
  have "fld (v AND 0xFF7F837F) 16 0x7F = drop_bit 16 (v AND 0xFF7F837F) AND 0x7F" by (simp add: fld_def)
  then have "full_127 (ucast (fld (v AND 0xFF7F837F) 16 0x7F)) \<le> 128" using full_127_ok by metis
  then show ?thesis
    using ok full_127_ok [of "v AND 0xFF7F837F"] vol_shifts_ok [of "v AND 0xFF7F837F"]
    by (simp add: set_cnt_def Let_def sound_ok_def level_ok_def decoder_ok_def)
qed

lemma upd_sound_ok: "spu_ok s \<Longrightarrow> (\<And>c. sound_ok c \<Longrightarrow> sound_ok (f c)) \<Longrightarrow> spu_ok (upd_sound i f s)"
  by (simp add: spu_ok_def upd_sound_def)

lemma upd_cap_ok [simp]: "spu_ok (upd_cap k f s) = spu_ok s"
  by (simp add: spu_ok_def upd_cap_def)

lemma sound_ok_update [simp]:
  "sound_ok (c\<lparr> sc_src := p \<rparr>) = sound_ok c" "sound_ok (c\<lparr> sc_len := p \<rparr>) = sound_ok c"
  "sound_ok (c\<lparr> sc_timer_reload := u, sc_loop := p \<rparr>) = sound_ok c"
  by (simp_all add: sound_ok_def level_ok_def decoder_ok_def)

lemma reg_write_ok: "spu_ok s \<Longrightarrow> spu_ok (reg_write base v s)"
  unfolding reg_write_def Let_def by (auto intro!: upd_sound_ok set_cnt_ok)

lemma reachable_ok: "spu_reachable env s \<Longrightarrow> spu_ok s"
proof (induction rule: spu_reachable.induct)
  case (reset now s)
  then show ?case by (simp add: spu_reset_def spu_ok_def sound_ok_def level_ok_def decoder_ok_def silent_channel_def)
qed (simp_all add: spu_read_def spu_write_def ev_mix_def set_powcnt2_def write_sndexcnt_def ring_drain_def Let_def
    run_to_ok reg_write_ok take_ok)

text \<open>C23: in every state the sound unit can reach, each channel's decoder index lies inside the step table and
  its values fit a sample, and the two sides mixed from all sixteen channels stay within 2 to the 27, so that no sum of
  the mixer overflows its 32-bit integers.\<close>

theorem mixer_in_range:
  assumes "spu_reachable env s"
  shows "decoder_ok (sp_ch s i) \<and> pair_within (2 ^ 27) (fst (mix_sides env s))"
  using mix_sides_ok [OF reachable_ok [OF assms]] reachable_ok [OF assms] by (simp add: spu_ok_def sound_ok_def)

definition two_channel_env :: "unit spu_env" where
  "two_channel_env = \<lparr> se_read32 = (\<lambda>a w. (0x7FFF7FFF, w)), se_write32 = (\<lambda>a v w. w), se_dsi = False, se_mic_clock = (\<lambda>t w. w) \<rparr>"

theorem mixer_in_range_witness:
  "pair_within (2 ^ 27) (fst (mix_sides two_channel_env (spu_write two_channel_env 0 0x04000400 32 0x8840007F
     (spu_reset two_channel_env 0 blank_spu))))"
  using mixer_in_range [OF spu_reachable.writes [OF spu_reachable.reset]] by blast

end
