(* ===== verification/Spec2Isabelle.thy ===== *)
theory Spec2Isabelle
  imports InterpRun CpuBanks ArmSpec ThumbSpec MemSpec Cp15Spec PageIndex SchedSpec JournalSpec KeyScrambler CcmSpec Sha1
    IpcSpec TimerSpec RtcPort DmaTerm IdleSound CartCard SaveStore CartBusSpec SpuFifo SpuBounds
begin

text \<open>
  A verification development for DSperate, a Nintendo DS and DSi emulator
  (\<^verbatim>\<open>src/\<close> of the repository; all paths below are under it).

  \<^bold>\<open>The program and what is modelled.\<close>  An emulated console is two ARM processors, memory reached
  through a tagged page table, a scheduler that interleaves the processors with timed events,
  and devices that raise interrupts and move memory.  Data structures are records with the
  source's fields, machine integers are words of their width, and every operation takes the
  state and returns it updated.  Devices that are not modelled are fields of an environment
  record (\<open>env\<close>, \<open>sched_env\<close>, \<open>dma_env\<close>); what a theorem assumes of them is a named predicate
  over that record (\<open>handlers_act\<close>, \<open>reschedules_later\<close>, \<open>devices_act\<close>).

  \<^item> \<open>Prelude\<close>, \<open>Machine\<close>, \<open>CpuMem\<close>, \<open>CpuCycles\<close>, \<open>CpuCore\<close>: the integer types
    (\<^verbatim>\<open>core/types.h\<close>), the processor state (\<^verbatim>\<open>core/cpu/cpu.h\<close>), loads, stores and fetches with
    their costs (\<^verbatim>\<open>cpu_mem.h\<close>, \<^verbatim>\<open>page_table.h\<close>), the cycle model (\<^verbatim>\<open>cpu_cycles.h\<close>), mode
    changes, exceptions and interrupts (\<^verbatim>\<open>cpu.cpp\<close>).
  \<^item> \<open>ArmDecode\<close>, \<open>InterpCommon\<close>, \<open>InterpArm\<close>, \<open>InterpThumb\<close>, \<open>InterpRun\<close>: the interpreter
    (\<^verbatim>\<open>core/cpu/arm_decode.h\<close>, \<^verbatim>\<open>core/cpu/interp/\<close>), every instruction class of ARMv5TE and
    Thumb, the run loop and the BIOS wait-loop shortcut.
  \<^item> \<open>Timing\<close>, \<open>Cp15\<close>: the bus cost tables and the system control coprocessor with both ways
    of rebuilding the cacheability map (\<^verbatim>\<open>core/mem/timing.cpp\<close>, \<^verbatim>\<open>core/cpu/cp15.cpp\<close>).
  \<^item> \<open>PageTable\<close>, \<open>PageIndex\<close>: the mutators of the page table and its reverse index of host
    pages (\<^verbatim>\<open>core/mem/page_table.cpp\<close>).
  \<^item> \<open>Scheduler\<close>, \<open>Slices\<close>: the event queue, the clocks and the slice loop
    (\<^verbatim>\<open>core/sched/scheduler.cpp\<close>).
  \<^item> \<open>IdleLoop\<close>: the detector of polling loops the scheduler asks before it skips a processor to
    the next event (\<^verbatim>\<open>core/cpu/idle_loop.cpp\<close>).
  \<^item> \<open>Dma\<close>: both DMA controllers (\<^verbatim>\<open>core/dma/dma.cpp\<close>, \<^verbatim>\<open>ndma.cpp\<close>) with their fast paths.
  \<^item> \<open>IoMath\<close>, \<open>IoCore\<close>, \<open>Rtc\<close>: divider and square root, interrupt controller, display status,
    IPC, timers, real-time clock (\<^verbatim>\<open>core/io/io.cpp\<close>, \<^verbatim>\<open>io.h\<close>).
  \<^item> \<open>Aes\<close>, \<open>Sha1\<close>, \<open>DsiAes\<close>: AES-128 and SHA-1 (\<^verbatim>\<open>core/crypto/\<close>) and the DSi's AES engine
    (\<^verbatim>\<open>core/io/dsi_aes.cpp\<close>).
  \<^item> \<open>ArEngine\<close>: the cheat interpreter and the journal of what it overwrote
    (\<^verbatim>\<open>core/cheat/ar_engine.cpp\<close>).
  \<^item> \<open>CartSave\<close>, \<open>CartRom\<close>: the cartridge (\<^verbatim>\<open>core/cart/cart.cpp\<close>, \<^verbatim>\<open>rom_source.cpp\<close>), its save chips
    with the detection of an unknown one, its image, KEY1 and the ROM commands.
  \<^item> \<open>CartBus\<close>: the bus the card answers on, with its two-word FIFO, ROMCTRL, the slot's power and
    the save chip's registers (\<^verbatim>\<open>core/io/io.cpp\<close>); its state lies in \<open>io_more\<close> of the I/O core.
  \<^item> \<open>Spu\<close>, \<open>SpuMix\<close>: the sound unit (\<^verbatim>\<open>core/spu/spu.cpp\<close>): the channels with their fetch FIFOs and
    formats, captures, mixer, sample clock, registers and the ring the frontend drains.

  \<^bold>\<open>How the parts meet.\<close>  The interpreter, the DMA and the cheat engine share the page table and
  its code tags; the coprocessor writes the cost rows the cycle model and the DMA read; the
  scheduler runs processors and DMA turns and fires events, and \<open>IoSpec\<close> plugs the I/O core's
  handlers into it, so its theorems hold of the console's own event loop.

  \<^bold>\<open>What the lemmas show.\<close>
  \<^item> \<open>InterpCommon\<close>, \<open>CpuBanks\<close>, \<open>ArmSpec\<close>, \<open>ThumbSpec\<close>, \<open>MemSpec\<close>: flags and shifter against
    integer arithmetic; the swapped banks refine the architecture's banked registers; exception
    return, privilege, the two data-processing paths; each Thumb register operation is its ARM
    instruction; a block push and pop restores.
  \<^item> \<open>Cp15Spec\<close>: the cheap update of the cacheability map is the full rebuild.
  \<^item> \<open>PageIndex\<close>: the reverse index finds every guest page below 256 MB of a host page, while fewer host pages
    are mapped than it has slots, so a code tag reaches every such alias; mapping shows what it mapped.
  \<^item> \<open>SchedSpec\<close>: events fire exactly when due, in time order, and the loop returns; changing
    the clock or settling at a barrier loses no time.
  \<^item> \<open>IdleSpec\<close>, \<open>IdleSound\<close>: a second pass over an accepted loop body changes nothing if no instruction of
    it is conditional, a positive answer rests on a verdict that holds now, a patched word is noticed.
  \<^item> \<open>IoSpec\<close>, \<open>IpcSpec\<close>, \<open>TimerSpec\<close>, \<open>RtcSpec\<close>, \<open>RtcPort\<close>: interrupt lines say what the registers
    say; the IPC FIFO with the words held is a queue that only a DMA's word may enter before its end; timer deadlines
    are exact; the clock is a calendar.
  \<^item> \<open>DmaSpec\<close>, \<open>DmaRun\<close>, \<open>DmaInv\<close>, \<open>DmaTerm\<close>: the bulk copy of ranges that do not overlap is the unit loop, the cached masks and
    flags are right in every reachable state, and a channel's turn ends.
  \<^item> \<open>AesSpec\<close>, \<open>AesHw\<close>, \<open>AesModes\<close>, \<open>KeyScrambler\<close>, \<open>DsiAesSpec\<close>, \<open>CcmSpec\<close>, \<open>Sha1\<close>: the ciphers
    against their standards, the engine's FIFOs, invariant, progress and CCM round trip.
  \<^item> \<open>ArSpec\<close>, \<open>JournalSpec\<close>: disabling a code whose writes went to memory without aliases restores it, also across a
    save state.
  \<^item> \<open>CartSpec\<close>, \<open>CartCard\<close>: KEY1 decrypts what it encrypts and the card carries the command out, a card of more
    than 32 KB gives nothing of its secure area away, a dump's secure area comes back.
  \<^item> \<open>SaveSpec\<close>, \<open>SaveDetect\<close>, \<open>SaveStore\<close>: every access to the save memory is inside it (the ghost field \<open>sv_fault\<close> would
    record one that is not), a chip found
    out from its first write has that write, what is written is read back.
  \<^item> \<open>CartBusSpec\<close>: every word of a transfer reaches the processor once and in order, an event being armed
    only while there is room for a word.
  \<^item> \<open>SpuFifo\<close>, \<open>SpuRing\<close>, \<open>SpuBounds\<close>: a channel plays the sample in memory, the mixer makes the samples
    that are due, the ring keeps the newest in order, and no sum or table index leaves its range.

  Interfaces are locales, each interpreted on the model: \<open>bounded_queue\<close> (\<open>BoundedQueue\<close>) on the
  AES FIFO and the IPC FIFO; \<open>block_function\<close> (\<open>AesModes\<close>) on the cipher; \<open>ar_writes\<close> (\<open>ArSpec\<close>)
  on the cheat journal; \<open>guest_ram\<close> (\<open>MemSpec\<close>) on mapped memory; \<open>addressed_chip\<close> (\<open>SaveStore\<close>) on
  the four ways the save chips are addressed; \<open>lossy_queue\<close> (\<open>SpuRing\<close>) on the output ring; \<open>dma_kept\<close> and
  \<open>dma_kept_run\<close> (\<open>DmaRun\<close>) on the running masks, the armed flags and the count of a running
  channel.

  \<^bold>\<open>Fuel.\<close>  Loops whose end depends on other parts take fuel and return \<open>None\<close> without it.  The event
  loop needs as many rounds as events can fall due (\<open>fire_due_returns\<close>), and settling a device as many as the current time has cycles (\<open>settle_exact\<close>); a DMA channel's turn
  as many as it has units and one (\<open>dma_channel_returns\<close>); a probe of the page index as many as
  it has slots.  Other loops end by a measure.

  \<^bold>\<open>Not modelled.\<close>  The recompiler (\<^verbatim>\<open>core/cpu/jit\<close>) emits host code; its reference is the
  interpreter.  The renderers (\<^verbatim>\<open>core/gpu\<close>), zip images
  and file mappings, the GBA slot (\<^verbatim>\<open>core/slot2\<close>), the remaining DSi devices and the wireless unit are
  parameters or absent, as are the register dispatch of \<^verbatim>\<open>Io::read\<close> and \<^verbatim>\<open>Io::write\<close> and the SPI
  devices.  Save-state visitors (\<^verbatim>\<open>sync_state\<close>), profiling counters and debug prints are left out
  everywhere.  The frontends, \<^verbatim>\<open>rcheevos\<close>, \<^verbatim>\<open>enet\<close> and \<^verbatim>\<open>miniz\<close> are host I/O or third-party code.

  \<^bold>\<open>Plan.\<close>  Next in order: the SPI devices with the firmware flash, the
  register dispatch, the rest of the bus (video-memory banks, write traps) and of the timing
  tables.
\<close>

end
